(* ===== verification/Loc_Prelude.thy ===== *)
theory Loc_Prelude
  imports Main "HOL-Library.Word" "HOL-Library.Monad_Syntax"
begin

text \<open>
  Shared vocabulary of the development.

  \<^item> Pointers are \<open>nat option\<close>: \<open>None\<close> is NULL, \<open>Some a\<close> the address \<open>a\<close>.
  \<^item> A routine that dereferences pointers returns an \<open>option\<close>: \<open>None\<close> means that it read or wrote
    an address that is not allocated (or that a loop over pointers does not end), so a result
    \<open>Some r\<close> is at the same time memory safety and termination.
  \<^item> C integers whose width matters are words or are reduced by \<open>c_int32\<close>.
  \<^item> Lemma collections: \<open>loc_defs\<close> (definitions that a component's proofs unfold),
    \<open>loc_inv\<close> (preservation lemmas of the component invariants).
\<close>

named_theorems loc_defs "definitions unfolded by the component proofs"
named_theorems loc_inv "each operation keeps the invariant of its component"

type_synonym ptr = "nat option"

section \<open>C integers\<close>

text \<open>Conversion of a wider integer to \<open>int\<close>: the low 32 bits read as two's complement.\<close>

definition c_int32 :: "int \<Rightarrow> int" where
  "c_int32 x = signed_take_bit 31 x"

lemma c_int32_id: "- (2 ^ 31) \<le> x \<Longrightarrow> x < 2 ^ 31 \<Longrightarrow> c_int32 x = x"
  by (simp add: c_int32_def signed_take_bit_int_eq_self)

lemma c_int32_range: "- (2 ^ 31) \<le> c_int32 x \<and> c_int32 x < 2 ^ 31"
  unfolding c_int32_def
  using signed_take_bit_int_greater_eq_minus_exp [of 31 x] signed_take_bit_int_less_exp [of 31 x]
  by simp

section \<open>Options and lists\<close>

lemma bind_eq_Some [simp]: "Option.bind x f = Some y \<longleftrightarrow> (\<exists>a. x = Some a \<and> f a = Some y)"
  by (cases x) auto

text \<open>The first element of a list that satisfies a test, with what is before and after it.\<close>

fun split_first :: "('a \<Rightarrow> bool) \<Rightarrow> 'a list \<Rightarrow> ('a list \<times> 'a \<times> 'a list) option" where
  "split_first p [] = None"
| "split_first p (x # xs) =
     (if p x then Some ([], x, xs)
      else map_option (\<lambda>(us, y, vs). (x # us, y, vs)) (split_first p xs))"

lemma split_first_None: "split_first p xs = None \<longleftrightarrow> (\<forall>x \<in> set xs. \<not> p x)"
  by (induction xs) auto

lemma split_first_SomeD:
  "split_first p xs = Some (us, y, vs) \<Longrightarrow>
     xs = us @ y # vs \<and> p y \<and> (\<forall>x \<in> set us. \<not> p x)"
  by (induction xs arbitrary: us) (auto split: if_splits)

lemma split_first_append:
  "p y \<Longrightarrow> \<forall>x \<in> set us. \<not> p x \<Longrightarrow> split_first p (us @ y # vs) = Some (us, y, vs)"
  by (induction us) auto

lemma snoc_cases:
  obtains (Nil) "xs = []" | (snoc) ys y where "xs = ys @ [y]"
  by (cases xs rule: rev_cases) auto

end
