(* ===== verification/Linked_List.thy ===== *)
theory Linked_List
  imports Loc_Prelude
begin

text \<open>
  \<open>gps/utils/linked_list.c\<close>: a doubly linked list on the C heap.

  \<^item> \<open>list_state\<close> is the C structure together with the part of the heap that holds its elements
    (\<open>mem\<close>) and the log of the deallocation callbacks it has made (\<open>dealloc_calls\<close>). A data
    pointer is a value of type \<open>'a\<close>, a deallocation function pointer a value of type \<open>'f\<close>.
  \<^item> The operations follow the C statements one by one on that heap; \<open>None\<close> as their result is a
    dereference of an unallocated element.
  \<^item> \<open>ll_rep l cs\<close> is the representation invariant: the elements reachable from the head are
    exactly the cells \<open>cs\<close> in order, the back links mirror the forward links, and nothing else is
    allocated.
  \<^item> The lemmas show that on a represented list every operation is memory safe, ends, keeps the
    invariant and acts on the list of cells as the functional operation one expects.
\<close>

section \<open>The C structures\<close>

datatype linked_list_err_type =
    eLINKED_LIST_SUCCESS
  | eLINKED_LIST_FAILURE_GENERAL
  | eLINKED_LIST_INVALID_PARAMETER
  | eLINKED_LIST_INVALID_HANDLE
  | eLINKED_LIST_UNAVAILABLE_RESOURCE
  | eLINKED_LIST_INSUFFICIENT_BUFFER

fun linked_list_err_code :: "linked_list_err_type \<Rightarrow> int" where
  "linked_list_err_code eLINKED_LIST_SUCCESS = 0"
| "linked_list_err_code eLINKED_LIST_FAILURE_GENERAL = -1"
| "linked_list_err_code eLINKED_LIST_INVALID_PARAMETER = -2"
| "linked_list_err_code eLINKED_LIST_INVALID_HANDLE = -3"
| "linked_list_err_code eLINKED_LIST_UNAVAILABLE_RESOURCE = -4"
| "linked_list_err_code eLINKED_LIST_INSUFFICIENT_BUFFER = -5"

record ('a, 'f) list_element =
  elem_next :: ptr
  elem_prev :: ptr
  data_ptr :: 'a
  dealloc_func :: "'f option"

record ('a, 'f) list_state =
  mem :: "nat \<Rightarrow> ('a, 'f) list_element option"
  p_head :: ptr
  p_tail :: ptr
  dealloc_calls :: "('f \<times> 'a) list"

definition empty_list_state :: "('a, 'f) list_state" where
  "empty_list_state = \<lparr>mem = (\<lambda>_. None), p_head = None, p_tail = None, dealloc_calls = []\<rparr>"

section \<open>Memory accesses\<close>

definition set_next :: "('a, 'f) list_state \<Rightarrow> ptr \<Rightarrow> ptr \<Rightarrow> ('a, 'f) list_state option" where
  "set_next l p v =
     do { a \<leftarrow> p; e \<leftarrow> mem l a; Some (l\<lparr>mem := (mem l)(a \<mapsto> e\<lparr>elem_next := v\<rparr>)\<rparr>) }"

definition set_prev :: "('a, 'f) list_state \<Rightarrow> ptr \<Rightarrow> ptr \<Rightarrow> ('a, 'f) list_state option" where
  "set_prev l p v =
     do { a \<leftarrow> p; e \<leftarrow> mem l a; Some (l\<lparr>mem := (mem l)(a \<mapsto> e\<lparr>elem_prev := v\<rparr>)\<rparr>) }"

definition free_elem :: "('a, 'f) list_state \<Rightarrow> nat \<Rightarrow> ('a, 'f) list_state option" where
  "free_elem l a = do { e \<leftarrow> mem l a; Some (l\<lparr>mem := (mem l)(a := None)\<rparr>) }"

definition call_dealloc :: "('a, 'f) list_element \<Rightarrow> ('a, 'f) list_state \<Rightarrow> ('a, 'f) list_state" where
  "call_dealloc e l =
     (case dealloc_func e of
        None \<Rightarrow> l
      | Some f \<Rightarrow> l\<lparr>dealloc_calls := dealloc_calls l @ [(f, data_ptr e)]\<rparr>)"

section \<open>The operations\<close>

text \<open>
  \<open>linked_list_init\<close>: the arguments say whether the out parameter is NULL and whether
  \<open>calloc\<close> succeeds; the second component is what is written through the out parameter.
\<close>

definition linked_list_init ::
  "bool \<Rightarrow> bool \<Rightarrow> linked_list_err_type \<times> ('a, 'f) list_state option" where
  "linked_list_init list_data_null calloc_ok =
     (if list_data_null then (eLINKED_LIST_INVALID_PARAMETER, None)
      else if \<not> calloc_ok then (eLINKED_LIST_FAILURE_GENERAL, None)
      else (eLINKED_LIST_SUCCESS, Some empty_list_state))"

text \<open>\<open>linked_list_add\<close>: \<open>malloc_ret\<close> is the address \<open>malloc\<close> returns for the element.\<close>

definition linked_list_add ::
  "('a, 'f) list_state option \<Rightarrow> 'a option \<Rightarrow> 'f option \<Rightarrow> ptr \<Rightarrow>
     (linked_list_err_type \<times> ('a, 'f) list_state option) option" where
  "linked_list_add list_data data_obj dealloc malloc_ret =
     (case list_data of
        None \<Rightarrow> Some (eLINKED_LIST_INVALID_HANDLE, None)
      | Some l \<Rightarrow>
          (case data_obj of
             None \<Rightarrow> Some (eLINKED_LIST_INVALID_PARAMETER, Some l)
           | Some d \<Rightarrow>
               (case malloc_ret of
                  None \<Rightarrow> Some (eLINKED_LIST_FAILURE_GENERAL, Some l)
                | Some a \<Rightarrow>
                    (let e = \<lparr>elem_next = None, elem_prev = None, data_ptr = d,
                              dealloc_func = dealloc\<rparr>;
                         l1 = l\<lparr>mem := (mem l)(a \<mapsto> e)\<rparr>;
                         tmp = p_head l1;
                         l2 = l1\<lparr>p_head := Some a\<rparr>
                     in do {
                          l3 \<leftarrow> set_next l2 (p_head l2) tmp;
                          l4 \<leftarrow> (if tmp \<noteq> None then set_prev l3 tmp (p_head l3)
                                 else Some (l3\<lparr>p_tail := p_head l3\<rparr>));
                          Some (eLINKED_LIST_SUCCESS, Some l4)
                        }))))"

text \<open>\<open>linked_list_remove\<close>: the middle component is what is written through \<open>data_obj\<close>.\<close>

definition linked_list_remove ::
  "('a, 'f) list_state option \<Rightarrow> bool \<Rightarrow>
     (linked_list_err_type \<times> 'a option \<times> ('a, 'f) list_state option) option" where
  "linked_list_remove list_data data_obj_null =
     (case list_data of
        None \<Rightarrow> Some (eLINKED_LIST_INVALID_HANDLE, None, None)
      | Some l \<Rightarrow>
          if data_obj_null then Some (eLINKED_LIST_INVALID_PARAMETER, None, Some l)
          else (case p_tail l of
                  None \<Rightarrow> Some (eLINKED_LIST_UNAVAILABLE_RESOURCE, None, Some l)
                | Some tmp \<Rightarrow>
                    do {
                      e \<leftarrow> mem l tmp;
                      let l1 = l\<lparr>p_tail := elem_prev e\<rparr>;
                      l2 \<leftarrow> (if p_tail l1 \<noteq> None then set_next l1 (p_tail l1) None
                             else Some (l1\<lparr>p_head := p_tail l1\<rparr>));
                      e' \<leftarrow> mem l2 tmp;
                      l3 \<leftarrow> free_elem l2 tmp;
                      Some (eLINKED_LIST_SUCCESS, Some (data_ptr e'), Some l3)
                    }))"

definition linked_list_empty :: "('a, 'f) list_state option \<Rightarrow> int" where
  "linked_list_empty list_data =
     (case list_data of
        None \<Rightarrow> linked_list_err_code eLINKED_LIST_INVALID_HANDLE
      | Some l \<Rightarrow> if p_head l = None then 1 else 0)"

partial_function (option) flush_loop ::
  "('a, 'f) list_state \<Rightarrow> ('a, 'f) list_state option" where
  [code]: "flush_loop l =
     (case p_head l of
        None \<Rightarrow> Some l
      | Some a \<Rightarrow>
          Option.bind (mem l a) (\<lambda>e.
          Option.bind (free_elem (call_dealloc e l) a) (\<lambda>l'.
            flush_loop (l'\<lparr>p_head := elem_next e\<rparr>))))"

definition linked_list_flush ::
  "('a, 'f) list_state option \<Rightarrow>
     (linked_list_err_type \<times> ('a, 'f) list_state option) option" where
  "linked_list_flush list_data =
     (case list_data of
        None \<Rightarrow> Some (eLINKED_LIST_INVALID_HANDLE, None)
      | Some l \<Rightarrow>
          do { l' \<leftarrow> flush_loop l; Some (eLINKED_LIST_SUCCESS, Some (l'\<lparr>p_tail := None\<rparr>)) })"

text \<open>
  \<open>linked_list_destroy\<close>: \<open>list_data_null\<close> is the NULL test of the argument; the handle it
  points to is flushed, freed and set to NULL. The log of deallocations survives the list.
\<close>

definition linked_list_destroy ::
  "bool \<Rightarrow> ('a, 'f) list_state option \<Rightarrow>
     (linked_list_err_type \<times> ('a, 'f) list_state option \<times> ('f \<times> 'a) list) option" where
  "linked_list_destroy list_data_null handle =
     (if list_data_null then Some (eLINKED_LIST_INVALID_HANDLE, handle, [])
      else do {
        (r, h) \<leftarrow> linked_list_flush handle;
        Some (eLINKED_LIST_SUCCESS, None, (case h of None \<Rightarrow> [] | Some l \<Rightarrow> dealloc_calls l)) })"

text \<open>
  The removal inside \<open>linked_list_search\<close>: unlink the element at \<open>a\<close>, deallocate its data when
  it is not copied out, free the element.
\<close>

definition unlink_elem :: "bool \<Rightarrow> nat \<Rightarrow> ('a, 'f) list_state \<Rightarrow> ('a, 'f) list_state option" where
  "unlink_elem data_p_null a l =
     do {
       e \<leftarrow> mem l a;
       l1 \<leftarrow> (if elem_prev e = None then Some (l\<lparr>p_head := elem_next e\<rparr>)
              else set_next l (elem_prev e) (elem_next e));
       e1 \<leftarrow> mem l1 a;
       l2 \<leftarrow> (if elem_next e1 = None then Some (l1\<lparr>p_tail := elem_prev e1\<rparr>)
              else set_prev l1 (elem_next e1) (elem_prev e1));
       l3 \<leftarrow> set_next l2 (Some a) None;
       l4 \<leftarrow> set_prev l3 (Some a) None;
       e4 \<leftarrow> mem l4 a;
       free_elem (if data_p_null then call_dealloc e4 l4 else l4) a
     }"

text \<open>
  \<open>linked_list_search\<close>: the comparison callback is a function of the data pointer and of the
  state \<open>'e\<close> of its own side effects (the AGPS code notifies subscribers from it).
\<close>

partial_function (option) search_loop ::
  "bool \<Rightarrow> ('a \<Rightarrow> 'e \<Rightarrow> bool \<times> 'e) \<Rightarrow> bool \<Rightarrow> ptr \<Rightarrow> ('a, 'f) list_state \<Rightarrow> 'e \<Rightarrow>
     ('a option \<times> ('a, 'f) list_state \<times> 'e) option" where
  [code]: "search_loop data_p_null equal rm_if_found tmp l ext =
     (case tmp of
        None \<Rightarrow> Some (None, l, ext)
      | Some a \<Rightarrow>
          Option.bind (mem l a) (\<lambda>e.
            if fst (equal (data_ptr e) ext) then
              Option.bind (if rm_if_found then unlink_elem data_p_null a l else Some l) (\<lambda>l'.
                Some (if data_p_null then None else Some (data_ptr e), l',
                      snd (equal (data_ptr e) ext)))
            else
              search_loop data_p_null equal rm_if_found (elem_next e) l
                (snd (equal (data_ptr e) ext))))"

definition linked_list_search ::
  "('a, 'f) list_state option \<Rightarrow> bool \<Rightarrow> ('a \<Rightarrow> 'e \<Rightarrow> bool \<times> 'e) option \<Rightarrow> bool \<Rightarrow> 'e \<Rightarrow>
     (linked_list_err_type \<times> 'a option \<times> ('a, 'f) list_state option \<times> 'e) option" where
  "linked_list_search list_data data_p_null equal rm_if_found ext =
     (case (list_data, equal) of
        (Some l, Some eq) \<Rightarrow>
          (if p_tail l = None then Some (eLINKED_LIST_UNAVAILABLE_RESOURCE, None, Some l, ext)
           else do {
             (found, l', ext') \<leftarrow> search_loop data_p_null eq rm_if_found (p_head l) l ext;
             Some (eLINKED_LIST_SUCCESS, found, Some l', ext') })
      | _ \<Rightarrow> Some (eLINKED_LIST_INVALID_HANDLE, None, list_data, ext))"


section \<open>The representation invariant\<close>

text \<open>A cell is an element's address, its data pointer and its deallocation function.\<close>

type_synonym ('a, 'f) cell = "nat \<times> 'a \<times> 'f option"

fun first_addr :: "('a, 'f) cell list \<Rightarrow> ptr \<Rightarrow> ptr" where
  "first_addr [] q = q"
| "first_addr (c # cs) q = Some (fst c)"

fun last_addr :: "('a, 'f) cell list \<Rightarrow> ptr \<Rightarrow> ptr" where
  "last_addr [] p = p"
| "last_addr (c # cs) p = last_addr cs (Some (fst c))"

text \<open>
  \<open>dseg m p cs q\<close>: the heap \<open>m\<close> holds the cells \<open>cs\<close> linked in order, entered from \<open>p\<close> and left to \<open>q\<close>.
\<close>

fun dseg :: "(nat \<Rightarrow> ('a, 'f) list_element option) \<Rightarrow> ptr \<Rightarrow> ('a, 'f) cell list \<Rightarrow> ptr \<Rightarrow> bool" where
  "dseg m p [] q \<longleftrightarrow> True"
| "dseg m p ((a, d, f) # cs) q \<longleftrightarrow>
     m a = Some \<lparr>elem_next = first_addr cs q, elem_prev = p, data_ptr = d, dealloc_func = f\<rparr> \<and>
     dseg m (Some a) cs q"

abbreviation addrs :: "('a, 'f) cell list \<Rightarrow> nat list" where
  "addrs cs \<equiv> map fst cs"

definition ll_rep :: "('a, 'f) list_state \<Rightarrow> ('a, 'f) cell list \<Rightarrow> bool" where
  "ll_rep l cs \<longleftrightarrow>
     dseg (mem l) None cs None \<and> distinct (addrs cs) \<and>
     (\<forall>x. x \<notin> set (addrs cs) \<longrightarrow> mem l x = None) \<and>
     p_head l = first_addr cs None \<and> p_tail l = last_addr cs None"

subsection \<open>Segments\<close>

lemma first_addr_append [simp]: "first_addr (xs @ ys) q = first_addr xs (first_addr ys q)"
  by (cases xs) auto

lemma last_addr_append [simp]: "last_addr (xs @ ys) p = last_addr ys (last_addr xs p)"
  by (induction xs arbitrary: p) auto

lemma last_addr_Some_neq_None: "last_addr cs (Some a) \<noteq> None"
  by (induction cs arbitrary: a) auto

lemma last_addr_eq_None [simp]: "last_addr cs None = None \<longleftrightarrow> cs = []"
  by (cases cs) (auto simp: last_addr_Some_neq_None)

lemma first_addr_eq_None [simp]: "first_addr cs None = None \<longleftrightarrow> cs = []"
  by (cases cs) auto

lemma dseg_append [simp]:
  "dseg m p (xs @ ys) q \<longleftrightarrow> dseg m p xs (first_addr ys q) \<and> dseg m (last_addr xs p) ys q"
proof (induction xs arbitrary: p)
  case (Cons c xs)
  then show ?case by (cases c) simp
qed simp

lemma dseg_frame: "a \<notin> set (addrs cs) \<Longrightarrow> dseg (m(a := v)) p cs q = dseg m p cs q"
  by (induction m p cs q rule: dseg.induct) auto

lemma dseg_upd_prev:
  "dseg m p (c # cs) q \<Longrightarrow> fst c \<notin> set (addrs cs) \<Longrightarrow>
     m (fst c) = Some e \<Longrightarrow> dseg (m(fst c \<mapsto> e\<lparr>elem_prev := p'\<rparr>)) p' (c # cs) q"
  by (cases c) (auto simp: dseg_frame)

lemma dseg_upd_next:
  "dseg m p (cs @ [c]) q \<Longrightarrow> fst c \<notin> set (addrs cs) \<Longrightarrow>
     m (fst c) = Some e \<Longrightarrow> dseg (m(fst c \<mapsto> e\<lparr>elem_next := q'\<rparr>)) p (cs @ [c]) q'"
  by (cases c) (auto simp: dseg_frame)

lemma dseg_lookup: "dseg m p cs q \<Longrightarrow> c \<in> set cs \<Longrightarrow> \<exists>e. m (fst c) = Some e"
  by (induction m p cs q rule: dseg.induct) auto

section \<open>Every operation on a represented list\<close>

lemma ll_rep_empty: "ll_rep empty_list_state []"
  by (auto simp: ll_rep_def empty_list_state_def)

lemma linked_list_add_rep:
  assumes rep: "ll_rep l cs" and fresh: "mem l a = None"
  shows "\<exists>l'. linked_list_add (Some l) (Some d) f (Some a) = Some (eLINKED_LIST_SUCCESS, Some l') \<and>
              ll_rep l' ((a, d, f) # cs) \<and> dealloc_calls l' = dealloc_calls l"
proof -
  have a: "a \<notin> set (addrs cs)"
    using rep fresh by (auto simp: ll_rep_def dest: dseg_lookup)
  show ?thesis
  proof (cases cs)
    case Nil
    then show ?thesis using rep
      by (auto simp: ll_rep_def linked_list_add_def set_next_def)
  next
    case (Cons c cs')
    obtain b d' f' where c: "c = (b, d', f')" by (cases c)
    show ?thesis using rep a unfolding Cons c
      by (auto simp: ll_rep_def linked_list_add_def set_next_def set_prev_def dseg_frame)
  qed
qed

lemma linked_list_remove_rep:
  assumes rep: "ll_rep l (cs @ [(a, d, f)])"
  shows "\<exists>l'. linked_list_remove (Some l) False = Some (eLINKED_LIST_SUCCESS, Some d, Some l') \<and>
              ll_rep l' cs \<and> dealloc_calls l' = dealloc_calls l"
proof (cases cs rule: rev_cases)
  case Nil
  then show ?thesis using rep
    by (auto simp: ll_rep_def linked_list_remove_def free_elem_def)
next
  case (snoc ys c)
  obtain b d' f' where c: "c = (b, d', f')" by (cases c)
  show ?thesis using rep unfolding snoc c
    by (auto simp: ll_rep_def linked_list_remove_def free_elem_def set_next_def dseg_frame)
qed

lemma linked_list_remove_empty:
  "ll_rep l [] \<Longrightarrow>
     linked_list_remove (Some l) False = Some (eLINKED_LIST_UNAVAILABLE_RESOURCE, None, Some l)"
  by (simp add: ll_rep_def linked_list_remove_def)

definition dealloc_of :: "('a, 'f) cell \<Rightarrow> ('f \<times> 'a) list" where
  "dealloc_of c = (case snd (snd c) of None \<Rightarrow> [] | Some g \<Rightarrow> [(g, fst (snd c))])"

lemma unlink_elem_rep:
  assumes rep: "ll_rep l (xs @ (a, d, f) # ys)"
  shows "\<exists>l'. unlink_elem dn a l = Some l' \<and> ll_rep l' (xs @ ys) \<and>
     dealloc_calls l' = dealloc_calls l @
       (if dn then dealloc_of (a, d, f) else [])"
proof -
  show ?thesis
  proof (cases xs rule: rev_cases)
    case Nil
    show ?thesis
    proof (cases ys)
      case Nil' [simp]: Nil
      show ?thesis using rep unfolding Nil
        by (auto simp: ll_rep_def unlink_elem_def set_next_def set_prev_def free_elem_def call_dealloc_def dealloc_of_def split: option.splits)
    next
      case (Cons y ys')
      obtain b d' f' where y: "y = (b, d', f')" by (cases y)
      show ?thesis using rep unfolding Nil Cons y
        by (auto simp: ll_rep_def unlink_elem_def set_next_def set_prev_def free_elem_def call_dealloc_def dealloc_of_def dseg_frame split: option.splits)
    qed
  next
    case (snoc xs' x)
    obtain p d'' f'' where x: "x = (p, d'', f'')" by (cases x)
    show ?thesis
    proof (cases ys)
      case Nil
      show ?thesis using rep unfolding snoc Nil x
        by (auto simp: ll_rep_def unlink_elem_def set_next_def set_prev_def free_elem_def call_dealloc_def dealloc_of_def dseg_frame split: option.splits)
    next
      case (Cons y ys')
      obtain b d' f' where y: "y = (b, d', f')" by (cases y)
      show ?thesis using rep unfolding snoc Cons x y
        by (auto simp: ll_rep_def unlink_elem_def set_next_def set_prev_def free_elem_def call_dealloc_def dealloc_of_def dseg_frame split: option.splits)
    qed
  qed
qed


definition flush_rep :: "('a, 'f) list_state \<Rightarrow> ('a, 'f) cell list \<Rightarrow> bool" where
  "flush_rep l cs \<longleftrightarrow>
     (\<exists>p. dseg (mem l) p cs None) \<and> distinct (addrs cs) \<and>
     (\<forall>x. x \<notin> set (addrs cs) \<longrightarrow> mem l x = None) \<and> p_head l = first_addr cs None"

lemma flush_loop_rep:
  "flush_rep l cs \<Longrightarrow>
     \<exists>l'. flush_loop l = Some l' \<and> flush_rep l' [] \<and>
          dealloc_calls l' = dealloc_calls l @ concat (map dealloc_of cs)"
proof (induction cs arbitrary: l)
  case Nil
  then show ?case by (subst flush_loop.simps) (auto simp: flush_rep_def)
next
  case (Cons c cs)
  obtain a d f where c: "c = (a, d, f)" by (cases c)
  obtain p where seg: "dseg (mem l) p (c # cs) None"
    and dist: "distinct (addrs (c # cs))" and out: "\<forall>x. x \<notin> set (addrs (c # cs)) \<longrightarrow> mem l x = None"
    and hd: "p_head l = Some a"
    using Cons.prems by (auto simp: flush_rep_def c)
  define e where "e = \<lparr>elem_next = first_addr cs None, elem_prev = p, data_ptr = d, dealloc_func = f\<rparr>"
  define l1 where "l1 = (call_dealloc e l)\<lparr>mem := (mem l)(a := None), p_head := elem_next e\<rparr>"
  have e: "mem l a = Some e" using seg by (simp add: c e_def)
  have step: "flush_loop l = flush_loop l1"
    using e hd by (subst flush_loop.simps)
      (auto simp: free_elem_def l1_def call_dealloc_def dealloc_of_def split: option.splits)
  have "flush_rep l1 cs"
    using seg dist out by (auto simp: flush_rep_def l1_def e_def c dseg_frame)
  moreover have "dealloc_calls l1 = dealloc_calls l @ dealloc_of c"
    by (auto simp: l1_def e_def c dealloc_of_def call_dealloc_def dealloc_of_def split: option.splits)
  ultimately show ?case using Cons.IH [of l1] step by auto
qed

lemma linked_list_flush_rep:
  assumes "ll_rep l cs"
  shows "\<exists>l'. linked_list_flush (Some l) = Some (eLINKED_LIST_SUCCESS, Some l') \<and> ll_rep l' [] \<and>
     dealloc_calls l' = dealloc_calls l @ concat (map dealloc_of cs)"
proof -
  have "flush_rep l cs" using assms by (auto simp: ll_rep_def flush_rep_def)
  from flush_loop_rep [OF this] show ?thesis
    by (auto simp: linked_list_flush_def ll_rep_def flush_rep_def)
qed

text \<open>What a search does to the cells: the reference definition.\<close>

fun search_cells ::
  "('a \<Rightarrow> 'e \<Rightarrow> bool \<times> 'e) \<Rightarrow> ('a, 'f) cell list \<Rightarrow> 'e \<Rightarrow>
     (('a, 'f) cell list \<times> ('a, 'f) cell \<times> ('a, 'f) cell list) option \<times> 'e" where
  "search_cells equal [] ext = (None, ext)"
| "search_cells equal (c # cs) ext =
     (case equal (fst (snd c)) ext of
        (True, ext') \<Rightarrow> (Some ([], c, cs), ext')
      | (False, ext') \<Rightarrow>
          (case search_cells equal cs ext' of
             (r, ext'') \<Rightarrow> (map_option (\<lambda>(us, y, vs). (c # us, y, vs)) r, ext'')))"

lemma search_cells_split:
  "search_cells equal cs ext = (Some (us, y, vs), ext') \<Longrightarrow> cs = us @ y # vs"
  by (induction cs arbitrary: ext us) (auto split: prod.splits bool.splits)

definition search_result ::
  "bool \<Rightarrow> bool \<Rightarrow> ('a, 'f) cell list \<Rightarrow>
     (('a, 'f) cell list \<times> ('a, 'f) cell \<times> ('a, 'f) cell list) option \<Rightarrow>
     'a option \<times> ('a, 'f) cell list \<times> ('f \<times> 'a) list" where
  "search_result dn rm cs r =
     (case r of
        None \<Rightarrow> (None, cs, [])
      | Some (us, y, vs) \<Rightarrow>
          (if dn then None else Some (fst (snd y)), if rm then us @ vs else cs,
           if rm \<and> dn then dealloc_of y else []))"

lemma search_loop_rep:
  assumes "ll_rep l (us @ cs)" and "search_cells equal cs ext = (r, ext')"
  shows "\<exists>found l' cs' ds. search_loop dn equal rm (first_addr cs None) l ext = Some (found, l', ext') \<and>
     search_result dn rm (us @ cs) (map_option (\<lambda>(xs, y, ys). (us @ xs, y, ys)) r) = (found, cs', ds) \<and>
     ll_rep l' cs' \<and> dealloc_calls l' = dealloc_calls l @ ds"
  using assms
proof (induction cs arbitrary: us ext r)
  case Nil
  then show ?case by (subst search_loop.simps) (auto simp: search_result_def)
next
  case (Cons c cs)
  obtain a d f where c: "c = (a, d, f)" by (cases c)
  obtain p where e: "mem l a = Some \<lparr>elem_next = first_addr cs None, elem_prev = p, data_ptr = d, dealloc_func = f\<rparr>"
    using Cons.prems(1) by (auto simp: ll_rep_def c)
  show ?case
  proof (cases "fst (equal d ext)")
    case True
    then have r: "r = Some ([], c, cs)" "ext' = snd (equal d ext)"
      using Cons.prems(2) by (auto simp: c split: prod.splits bool.splits)
    obtain l' where "unlink_elem dn a l = Some l'" "ll_rep l' (us @ cs)"
      "dealloc_calls l' = dealloc_calls l @ (if dn then dealloc_of c else [])"
      using unlink_elem_rep [of l us a d f cs dn] Cons.prems(1) by (auto simp: c)
    with True e r Cons.prems(1) show ?thesis
      by (subst search_loop.simps) (auto simp: c search_result_def)
  next
    case False
    then obtain r' where r': "search_cells equal cs (snd (equal d ext)) = (r', ext')"
      and r: "r = map_option (\<lambda>(us, y, vs). (c # us, y, vs)) r'"
      using Cons.prems(2) by (auto simp: c split: prod.splits bool.splits)
    have "ll_rep l ((us @ [c]) @ cs)" using Cons.prems(1) by simp
    from Cons.IH [OF this r'] False e show ?thesis
      by (subst search_loop.simps) (auto simp: c r option.map_comp comp_def split_def)
  qed
qed

lemma linked_list_search_rep:
  assumes rep: "ll_rep l cs" and ne: "cs \<noteq> []" and r: "search_cells equal cs ext = (r, ext')"
  shows "\<exists>found l' cs' ds. linked_list_search (Some l) dn (Some equal) rm ext =
       Some (eLINKED_LIST_SUCCESS, found, Some l', ext') \<and>
     search_result dn rm cs r = (found, cs', ds) \<and>
     ll_rep l' cs' \<and> dealloc_calls l' = dealloc_calls l @ ds"
proof -
  have "p_tail l \<noteq> None" "p_head l = first_addr cs None" using rep ne by (auto simp: ll_rep_def)
  moreover have "map_option (\<lambda>(xs, y, ys). ([] @ xs, y, ys)) r = r" by (cases r) auto
  ultimately show ?thesis
    using search_loop_rep [of l "[]" cs equal ext r ext' dn rm] rep r
    by (auto simp: linked_list_search_def)
qed

section \<open>Refinement of a functional list by runs of operations\<close>

text \<open>
  The operations a client can issue, what they return, and the functional specification of one
  operation on the list of (data pointer, deallocation function) pairs, head first. An addition
  may also fail for lack of memory; everything else is determined.
\<close>

datatype ('a, 'f) ll_op =
    OpAdd 'a "'f option"
  | OpRemove
  | OpFlush
  | OpSearch bool bool "'a \<Rightarrow> bool"

type_synonym 'a ll_out = "linked_list_err_type \<times> 'a option"

fun ll_spec ::
  "('a, 'f) ll_op \<Rightarrow> ('a \<times> 'f option) list \<Rightarrow> 'a ll_out \<Rightarrow> ('a \<times> 'f option) list \<Rightarrow> bool" where
  "ll_spec (OpAdd d f) xs (r, out) xs' \<longleftrightarrow> out = None \<and>
     (r = eLINKED_LIST_SUCCESS \<and> xs' = (d, f) # xs \<or> r = eLINKED_LIST_FAILURE_GENERAL \<and> xs' = xs)"
| "ll_spec OpRemove xs (r, out) xs' \<longleftrightarrow>
     (if xs = [] then r = eLINKED_LIST_UNAVAILABLE_RESOURCE \<and> out = None \<and> xs' = []
      else r = eLINKED_LIST_SUCCESS \<and> out = Some (fst (last xs)) \<and> xs' = butlast xs)"
| "ll_spec OpFlush xs (r, out) xs' \<longleftrightarrow> r = eLINKED_LIST_SUCCESS \<and> out = None \<and> xs' = []"
| "ll_spec (OpSearch dn rm p) xs (r, out) xs' \<longleftrightarrow>
     (if xs = [] then r = eLINKED_LIST_UNAVAILABLE_RESOURCE \<and> out = None \<and> xs' = []
      else r = eLINKED_LIST_SUCCESS \<and>
        (case split_first (\<lambda>x. p (fst x)) xs of
           None \<Rightarrow> out = None \<and> xs' = xs
         | Some (us, y, vs) \<Rightarrow>
             out = (if dn then None else Some (fst y)) \<and> xs' = (if rm then us @ vs else xs)))"

fun ll_spec_run ::
  "('a, 'f) ll_op list \<Rightarrow> ('a \<times> 'f option) list \<Rightarrow> 'a ll_out list \<Rightarrow> ('a \<times> 'f option) list \<Rightarrow> bool" where
  "ll_spec_run [] xs [] xs' \<longleftrightarrow> xs' = xs"
| "ll_spec_run (op # ops) xs (r # rs) xs' \<longleftrightarrow>
     (\<exists>ys. ll_spec op xs r ys \<and> ll_spec_run ops ys rs xs')"
| "ll_spec_run _ _ _ _ \<longleftrightarrow> False"

text \<open>
  The same operations on the C list. \<open>malloc\<close> is a function of the elements allocated; it may
  return NULL, and never returns an address in use (\<open>malloc_ok\<close>).
\<close>

type_synonym ('a, 'f) allocator = "(nat \<Rightarrow> ('a, 'f) list_element option) \<Rightarrow> ptr"

definition malloc_ok :: "('a, 'f) allocator \<Rightarrow> bool" where
  "malloc_ok malloc \<longleftrightarrow> (\<forall>m a. malloc m = Some a \<longrightarrow> m a = None)"

fun ll_exec ::
  "('a, 'f) allocator \<Rightarrow> ('a, 'f) ll_op \<Rightarrow> ('a, 'f) list_state option \<Rightarrow>
     ('a ll_out \<times> ('a, 'f) list_state option) option" where
  "ll_exec malloc (OpAdd d f) h =
     do { (r, h') \<leftarrow> linked_list_add h (Some d) f (case h of None \<Rightarrow> None | Some l \<Rightarrow> malloc (mem l));
          Some ((r, None), h') }"
| "ll_exec malloc OpRemove h = do { (r, out, h') \<leftarrow> linked_list_remove h False; Some ((r, out), h') }"
| "ll_exec malloc OpFlush h = do { (r, h') \<leftarrow> linked_list_flush h; Some ((r, None), h') }"
| "ll_exec malloc (OpSearch dn rm p) h =
     do { (r, out, h', e) \<leftarrow> linked_list_search h dn (Some (\<lambda>d (e :: unit). (p d, e))) rm ();
          Some ((r, out), h') }"

fun ll_exec_run ::
  "('a, 'f) allocator \<Rightarrow> ('a, 'f) ll_op list \<Rightarrow> ('a, 'f) list_state option \<Rightarrow>
     ('a ll_out list \<times> ('a, 'f) list_state option) option" where
  "ll_exec_run malloc [] h = Some ([], h)"
| "ll_exec_run malloc (op # ops) h =
     do { (r, h') \<leftarrow> ll_exec malloc op h;
          (rs, h'') \<leftarrow> ll_exec_run malloc ops h';
          Some (r # rs, h'') }"

lemma search_cells_pure:
  "search_cells (\<lambda>d e. (p d, e)) cs () = (split_first (\<lambda>c. p (fst (snd c))) cs, ())"
  by (induction cs) auto

lemma split_first_map:
  "split_first p (map f xs) =
     map_option (\<lambda>(us, y, vs). (map f us, f y, map f vs)) (split_first (\<lambda>x. p (f x)) xs)"
  by (induction xs) (auto simp: option.map_comp comp_def split_def)

lemma ll_exec_refines:
  assumes malloc: "malloc_ok malloc" and rep: "ll_rep l cs"
  shows "\<exists>r l' cs'. ll_exec malloc op (Some l) = Some (r, Some l') \<and> ll_rep l' cs' \<and>
           ll_spec op (map snd cs) r (map snd cs')"
proof (cases op)
  case (OpAdd d f)
  show ?thesis
  proof (cases "malloc (mem l)")
    case None
    with rep show ?thesis by (auto simp: OpAdd linked_list_add_def)
  next
    case (Some a)
    with malloc have "mem l a = None" by (auto simp: malloc_ok_def)
    from linked_list_add_rep [OF rep this, of d f] Some show ?thesis by (fastforce simp: OpAdd)
  qed
next
  case OpRemove
  show ?thesis
  proof (cases cs rule: rev_cases)
    case Nil
    with rep show ?thesis by (auto simp: OpRemove linked_list_remove_empty)
  next
    case (snoc ys c)
    obtain a d f where c: "c = (a, d, f)" by (cases c)
    from linked_list_remove_rep [of l ys a d f] rep show ?thesis
      by (auto simp: OpRemove snoc c)
  qed
next
  case OpFlush
  from linked_list_flush_rep [OF rep] show ?thesis by (auto simp: OpFlush)
next
  case (OpSearch dn rm p)
  show ?thesis
  proof (cases "cs = []")
    case True
    with rep show ?thesis by (auto simp: OpSearch linked_list_search_def ll_rep_def)
  next
    case False
    from linked_list_search_rep [OF rep False search_cells_pure, of dn p rm] False rep show ?thesis
      by (fastforce simp: OpSearch search_result_def split_first_map split: option.splits prod.splits
            dest: split_first_SomeD)
  qed
qed

lemma ll_exec_run_refines:
  assumes "malloc_ok malloc"
  shows "ll_rep l cs \<Longrightarrow>
     \<exists>rs l' cs'. ll_exec_run malloc ops (Some l) = Some (rs, Some l') \<and> ll_rep l' cs' \<and>
       ll_spec_run ops (map snd cs) rs (map snd cs')"
proof (induction ops arbitrary: l cs)
  case Nil
  then show ?case by auto
next
  case (Cons op ops)
  from ll_exec_refines [OF assms Cons.prems, of op] obtain r l1 cs1 where
    "ll_exec malloc op (Some l) = Some (r, Some l1)" "ll_rep l1 cs1"
    "ll_spec op (map snd cs) r (map snd cs1)" by blast
  with Cons.IH [of l1 cs1] show ?case by fastforce
qed

section \<open>Properties\<close>

text \<open>
  C14: started on the list that \<open>linked_list_init\<close> creates, every sequence of additions,
  removals, flushes and searches (with or without removal) runs without touching unallocated
  memory and ends; the results and the data left are those of the functional list
  specification, and the final heap is again a well linked list. It does not matter where
  \<open>malloc\<close> places the elements nor which of its calls fail.
\<close>

theorem linked_list_refines_list:
  assumes "malloc_ok malloc"
  shows "\<exists>rs l' cs'. ll_exec_run malloc ops (snd (linked_list_init False True)) = Some (rs, Some l') \<and>
    ll_rep l' cs' \<and> ll_spec_run ops [] rs (map snd cs')"
  using ll_exec_run_refines [OF assms ll_rep_empty, of ops] by (simp add: linked_list_init_def)

lemma linked_list_refines_list_witness:
  "\<exists>rs l' cs'. ll_exec_run (\<lambda>m. if m 0 = None then Some 0 else if m 1 = None then Some 1 else None)
      [OpAdd CHR ''a'' (Some True), OpAdd CHR ''b'' None, OpSearch False True (\<lambda>c. c = CHR ''a''), OpRemove]
      (snd (linked_list_init False True)) = Some (rs, Some l') \<and> ll_rep l' cs' \<and>
    ll_spec_run [OpAdd CHR ''a'' (Some True), OpAdd CHR ''b'' None, OpSearch False True (\<lambda>c. c = CHR ''a''), OpRemove]
      [] rs (map snd cs')"
  by (rule linked_list_refines_list) (auto simp: malloc_ok_def split: if_splits)

text \<open>
  a search that is asked to remove takes out exactly the first element that satisfies the
  comparison: the elements before and after it stay in order, its memory is released, its data
  pointer is handed to the caller, and only when the caller takes no data pointer is its
  deallocation function called, once.
\<close>

theorem linked_list_search_removes:
  assumes rep: "ll_rep l (us @ (a, d, f) # vs)"
    and us: "\<forall>c \<in> set us. \<not> p (fst (snd c))" and d: "p d"
  shows "\<exists>l'. linked_list_search (Some l) dn (Some (\<lambda>d e. (p d, e))) True () =
      Some (eLINKED_LIST_SUCCESS, (if dn then None else Some d), Some l', ()) \<and>
    ll_rep l' (us @ vs) \<and> mem l' a = None \<and>
    dealloc_calls l' = dealloc_calls l @ (if dn then dealloc_of (a, d, f) else [])"
proof -
  have r: "search_cells (\<lambda>d e. (p d, e)) (us @ (a, d, f) # vs) () = (Some (us, (a, d, f), vs), ())"
    using split_first_append [of "\<lambda>c. p (fst (snd c))" "(a, d, f)" us vs] us d
    by (simp add: search_cells_pure)
  have a: "a \<notin> set (addrs (us @ vs))" using rep by (auto simp: ll_rep_def)
  have ne: "us @ (a, d, f) # vs \<noteq> []" by simp
  obtain l' where l': "linked_list_search (Some l) dn (Some (\<lambda>d e. (p d, e))) True () =
      Some (eLINKED_LIST_SUCCESS, (if dn then None else Some d), Some l', ())"
    "ll_rep l' (us @ vs)"
    "dealloc_calls l' = dealloc_calls l @ (if dn then dealloc_of (a, d, f) else [])"
    using linked_list_search_rep [OF rep ne r, of dn True] by (auto simp: search_result_def)
  have "mem l' a = None" using l'(2) a unfolding ll_rep_def by blast
  with l' show ?thesis by blast
qed

definition two_cells :: "(char, nat) list_state" where
  "two_cells =
     \<lparr>mem = [4 \<mapsto> \<lparr>elem_next = Some 9, elem_prev = None, data_ptr = CHR ''b'', dealloc_func = None\<rparr>,
             9 \<mapsto> \<lparr>elem_next = None, elem_prev = Some 4, data_ptr = CHR ''a'', dealloc_func = Some 7\<rparr>],
      p_head = Some 4, p_tail = Some 9, dealloc_calls = []\<rparr>"

lemma linked_list_search_removes_witness:
  "\<exists>l'. linked_list_search (Some two_cells) True (Some (\<lambda>d e. (d = CHR ''a'', e))) True () =
      Some (eLINKED_LIST_SUCCESS, None, Some l', ()) \<and>
    ll_rep l' [(4, CHR ''b'', None)] \<and> mem l' 9 = None \<and> dealloc_calls l' = [(7, CHR ''a'')]"
  using linked_list_search_removes [of two_cells "[(4, CHR ''b'', None)]" 9 "CHR ''a''" "Some 7" "[]"
      "\<lambda>c. c = CHR ''a''" True]
  by (simp add: ll_rep_def two_cells_def dealloc_of_def)

end
