(* ===== verification/Msg_Queue.thy ===== *)
theory Msg_Queue
  imports Linked_List
begin

text \<open>
  \<open>gps/utils/msg_q.c\<close>: a blocking message queue made of a linked list, a mutex and a condition
  variable.

  \<^item> \<open>msg_q\<close> is the C structure. The condition variable is the threads blocked on it
    (\<open>cond_blocked\<close>) and those that were woken and wait for the mutex (\<open>cond_woken\<close>). Every
    operation is one critical section of \<open>list_mutex\<close>, so it is one function on the structure;
    \<open>msg_q_rcv\<close> is two, the entry and the re-evaluation of its loop after a wake up.
  \<^item> \<open>mq_step\<close> interleaves the critical sections of any number of senders and receivers.
  \<^item> The lemmas show that the queue is a FIFO channel (the locale \<open>fifo_channel\<close>), that no wake up
    is lost, that failing initialisation releases what it acquired, and that every message is
    delivered or deallocated.
\<close>

section \<open>The C structures\<close>

datatype msq_q_err_type =
    eMSG_Q_SUCCESS
  | eMSG_Q_FAILURE_GENERAL
  | eMSG_Q_INVALID_PARAMETER
  | eMSG_Q_INVALID_HANDLE
  | eMSG_Q_UNAVAILABLE_RESOURCE
  | eMSG_Q_INSUFFICIENT_BUFFER

fun convert_linked_list_err_type :: "linked_list_err_type \<Rightarrow> msq_q_err_type" where
  "convert_linked_list_err_type eLINKED_LIST_SUCCESS = eMSG_Q_SUCCESS"
| "convert_linked_list_err_type eLINKED_LIST_INVALID_PARAMETER = eMSG_Q_INVALID_PARAMETER"
| "convert_linked_list_err_type eLINKED_LIST_INVALID_HANDLE = eMSG_Q_INVALID_HANDLE"
| "convert_linked_list_err_type eLINKED_LIST_UNAVAILABLE_RESOURCE = eMSG_Q_UNAVAILABLE_RESOURCE"
| "convert_linked_list_err_type eLINKED_LIST_INSUFFICIENT_BUFFER = eMSG_Q_INSUFFICIENT_BUFFER"
| "convert_linked_list_err_type eLINKED_LIST_FAILURE_GENERAL = eMSG_Q_FAILURE_GENERAL"

type_synonym tid = nat

record ('a, 'f) msg_q =
  msg_list :: "('a, 'f) list_state option"
  unblocked :: bool
  cond_blocked :: "tid list"
  cond_woken :: "tid list"

section \<open>The condition variable\<close>

text \<open>
  A signal wakes one blocked thread when there is one. Which one is the scheduler's choice
  \<open>w\<close>; a choice that is not blocked stands for the first.
\<close>

definition cond_signal :: "tid \<Rightarrow> ('a, 'f) msg_q \<Rightarrow> ('a, 'f) msg_q" where
  "cond_signal w q =
     (case cond_blocked q of
        [] \<Rightarrow> q
      | t # _ \<Rightarrow>
          (let v = (if w \<in> set (cond_blocked q) then w else t)
           in q\<lparr>cond_blocked := remove1 v (cond_blocked q), cond_woken := v # cond_woken q\<rparr>))"

definition cond_broadcast :: "('a, 'f) msg_q \<Rightarrow> ('a, 'f) msg_q" where
  "cond_broadcast q = q\<lparr>cond_blocked := [], cond_woken := cond_blocked q @ cond_woken q\<rparr>"

section \<open>The operations\<close>

datatype resource = RQueue | RList | RMutex | RCond

text \<open>
  \<open>msg_q_init\<close>: the arguments are the NULL test and the success of the two allocations and of
  the two pthread initialisations; the result lists the resources that stay acquired.
\<close>

definition msg_q_init ::
  "bool \<Rightarrow> bool \<Rightarrow> bool \<Rightarrow> bool \<Rightarrow> bool \<Rightarrow>
     msq_q_err_type \<times> ('a, 'f) msg_q option \<times> resource list" where
  "msg_q_init data_null calloc_ok list_calloc_ok mutex_ok cond_ok =
     (if data_null then (eMSG_Q_INVALID_PARAMETER, None, [])
      else if \<not> calloc_ok then (eMSG_Q_FAILURE_GENERAL, None, [])
      else
        (let res = [RQueue];
             (r, lst) = linked_list_init False list_calloc_ok
         in if linked_list_err_code r \<noteq> 0 then (eMSG_Q_FAILURE_GENERAL, None, remove1 RQueue res)
            else
              (let res = RList # res
               in if \<not> mutex_ok
                  then (eMSG_Q_FAILURE_GENERAL, None, remove1 RQueue (remove1 RList res))
                  else
                    (let res = RMutex # res
                     in if \<not> cond_ok
                        then (eMSG_Q_FAILURE_GENERAL, None,
                              remove1 RQueue (remove1 RMutex (remove1 RList res)))
                        else (eMSG_Q_SUCCESS,
                              Some \<lparr>msg_list = lst, unblocked = False,
                                    cond_blocked = [], cond_woken = []\<rparr>,
                              RCond # res)))))"

definition msg_q_init2 :: "bool \<Rightarrow> bool \<Rightarrow> bool \<Rightarrow> bool \<Rightarrow> ('a, 'f) msg_q option" where
  "msg_q_init2 calloc_ok list_calloc_ok mutex_ok cond_ok =
     (let (r, q, _) = msg_q_init False calloc_ok list_calloc_ok mutex_ok cond_ok
      in if eMSG_Q_SUCCESS \<noteq> r then None else q)"

text \<open>
  \<open>msg_q_destroy\<close>: the handle it points to is dereferenced without a test, so a NULL handle is
  a fault (\<open>None\<close>). The last component is the log of the deallocations made.
\<close>

definition msg_q_destroy ::
  "bool \<Rightarrow> ('a, 'f) msg_q option \<Rightarrow>
     (msq_q_err_type \<times> ('a, 'f) msg_q option \<times> ('f \<times> 'a) list) option" where
  "msg_q_destroy data_null handle =
     (if data_null then Some (eMSG_Q_INVALID_HANDLE, handle, [])
      else do {
        q \<leftarrow> handle;
        (_, _, ds) \<leftarrow> linked_list_destroy False (msg_list q);
        Some (eMSG_Q_SUCCESS, None, ds) })"

definition msg_q_snd ::
  "('a, 'f) msg_q option \<Rightarrow> 'a option \<Rightarrow> 'f option \<Rightarrow> ptr \<Rightarrow> tid \<Rightarrow>
     (msq_q_err_type \<times> ('a, 'f) msg_q option) option" where
  "msg_q_snd msg_q_data msg_obj dealloc malloc_ret w =
     (case msg_q_data of
        None \<Rightarrow> Some (eMSG_Q_INVALID_HANDLE, None)
      | Some q \<Rightarrow>
          if msg_obj = None then Some (eMSG_Q_INVALID_PARAMETER, Some q)
          else if unblocked q then Some (eMSG_Q_UNAVAILABLE_RESOURCE, Some q)
          else do {
            (r, l) \<leftarrow> linked_list_add (msg_list q) msg_obj dealloc malloc_ret;
            let rv = convert_linked_list_err_type r;
            Some (rv, Some (cond_signal w (q\<lparr>msg_list := l\<rparr>))) })"

datatype 'a rcv_result = Waiting | Returned msq_q_err_type "'a option"

text \<open>The loop of \<open>msg_q_rcv\<close> with the mutex held: wait again, or leave it and take a message.\<close>

definition msg_q_rcv_loop ::
  "('a, 'f) msg_q \<Rightarrow> tid \<Rightarrow> ('a rcv_result \<times> ('a, 'f) msg_q) option" where
  "msg_q_rcv_loop q t =
     (if linked_list_empty (msg_list q) \<noteq> 0 \<and> \<not> unblocked q
      then Some (Waiting, q\<lparr>cond_blocked := cond_blocked q @ [t]\<rparr>)
      else do {
        (r, out, l) \<leftarrow> linked_list_remove (msg_list q) False;
        Some (Returned (convert_linked_list_err_type r) out, q\<lparr>msg_list := l\<rparr>) })"

definition msg_q_rcv ::
  "('a, 'f) msg_q option \<Rightarrow> bool \<Rightarrow> tid \<Rightarrow> ('a rcv_result \<times> ('a, 'f) msg_q option) option" where
  "msg_q_rcv msg_q_data msg_obj_null t =
     (case msg_q_data of
        None \<Rightarrow> Some (Returned eMSG_Q_INVALID_HANDLE None, None)
      | Some q \<Rightarrow>
          if msg_obj_null then Some (Returned eMSG_Q_INVALID_PARAMETER None, Some q)
          else if unblocked q then Some (Returned eMSG_Q_UNAVAILABLE_RESOURCE None, Some q)
          else do { (r, q') \<leftarrow> msg_q_rcv_loop q t; Some (r, Some q') })"

text \<open>\<open>pthread_cond_wait\<close> returns in a woken thread, which holds the mutex again.\<close>

definition msg_q_rcv_wake ::
  "('a, 'f) msg_q \<Rightarrow> tid \<Rightarrow> ('a rcv_result \<times> ('a, 'f) msg_q) option" where
  "msg_q_rcv_wake q t = msg_q_rcv_loop (q\<lparr>cond_woken := remove1 t (cond_woken q)\<rparr>) t"

definition msg_q_flush ::
  "('a, 'f) msg_q option \<Rightarrow> (msq_q_err_type \<times> ('a, 'f) msg_q option) option" where
  "msg_q_flush msg_q_data =
     (case msg_q_data of
        None \<Rightarrow> Some (eMSG_Q_INVALID_HANDLE, None)
      | Some q \<Rightarrow>
          do { (r, l) \<leftarrow> linked_list_flush (msg_list q);
               Some (convert_linked_list_err_type r, Some (q\<lparr>msg_list := l\<rparr>)) })"

definition msg_q_unblock ::
  "('a, 'f) msg_q option \<Rightarrow> msq_q_err_type \<times> ('a, 'f) msg_q option" where
  "msg_q_unblock msg_q_data =
     (case msg_q_data of
        None \<Rightarrow> (eMSG_Q_INVALID_HANDLE, None)
      | Some q \<Rightarrow>
          if unblocked q then (eMSG_Q_UNAVAILABLE_RESOURCE, Some q)
          else (eMSG_Q_SUCCESS, Some (cond_broadcast (q\<lparr>unblocked := True\<rparr>))))"

section \<open>The queue as a list of messages\<close>

text \<open>
  \<open>mq_rep q xs\<close>: the list of the queue is well linked and holds the messages \<open>xs\<close> (data pointer
  and deallocation function), the oldest first.
\<close>

definition mq_rep :: "('a, 'f) msg_q \<Rightarrow> ('a \<times> 'f option) list \<Rightarrow> bool" where
  "mq_rep q xs \<longleftrightarrow> (\<exists>l cs. msg_list q = Some l \<and> ll_rep l cs \<and> xs = rev (map snd cs))"

lemma mq_rep_nonempty: "mq_rep q xs \<Longrightarrow> linked_list_empty (msg_list q) \<noteq> 0 \<longleftrightarrow> xs = []"
  by (auto simp: mq_rep_def ll_rep_def linked_list_empty_def split: if_splits)

lemma mq_rep_wait [simp]:
  "mq_rep (q\<lparr>cond_blocked := b\<rparr>) xs = mq_rep q xs"
  "mq_rep (q\<lparr>cond_woken := w\<rparr>) xs = mq_rep q xs"
  "mq_rep (q\<lparr>unblocked := u\<rparr>) xs = mq_rep q xs"
  by (auto simp: mq_rep_def)

lemma mq_rep_signal [simp]: "mq_rep (cond_signal w q) xs = mq_rep q xs"
  by (auto simp: cond_signal_def mq_rep_def Let_def split: list.splits)

lemma mq_rep_broadcast [simp]: "mq_rep (cond_broadcast q) xs = mq_rep q xs"
  by (auto simp: cond_broadcast_def)

lemma unblocked_signal [simp]: "unblocked (cond_signal w q) = unblocked q"
  by (auto simp: cond_signal_def Let_def split: list.splits)

lemma msg_q_init_rep:
  "msg_q_init n c lc m cv = (r, Some q, res) \<Longrightarrow> mq_rep q [] \<and> \<not> unblocked q"
  using ll_rep_empty
  by (fastforce simp: msg_q_init_def linked_list_init_def mq_rep_def Let_def split: if_splits)

definition mq_mem :: "('a, 'f) msg_q \<Rightarrow> nat \<Rightarrow> ('a, 'f) list_element option" where
  "mq_mem q = (case msg_list q of None \<Rightarrow> (\<lambda>_. None) | Some l \<Rightarrow> mem l)"

definition mq_deallocs :: "('a, 'f) msg_q \<Rightarrow> ('f \<times> 'a) list" where
  "mq_deallocs q = (case msg_list q of None \<Rightarrow> [] | Some l \<Rightarrow> dealloc_calls l)"

definition msg_dealloc :: "('a \<times> 'f option) \<Rightarrow> ('f \<times> 'a) list" where
  "msg_dealloc m = (case snd m of None \<Rightarrow> [] | Some f \<Rightarrow> [(f, fst m)])"

lemma mq_deallocs_simps [simp]:
  "mq_deallocs (q\<lparr>cond_blocked := b\<rparr>) = mq_deallocs q"
  "mq_deallocs (q\<lparr>cond_woken := w\<rparr>) = mq_deallocs q"
  "mq_deallocs (q\<lparr>unblocked := u\<rparr>) = mq_deallocs q"
  "mq_deallocs (cond_signal v q) = mq_deallocs q"
  by (auto simp: mq_deallocs_def cond_signal_def Let_def split: list.splits)

lemma msg_q_snd_rep:
  assumes "mq_rep q xs" "\<not> unblocked q" "mq_mem q a = None"
  shows "\<exists>q'. msg_q_snd (Some q) (Some d) f (Some a) w = Some (eMSG_Q_SUCCESS, Some q') \<and>
     mq_rep q' (xs @ [(d, f)]) \<and> \<not> unblocked q' \<and> mq_deallocs q' = mq_deallocs q"
proof -
  obtain l cs where l: "msg_list q = Some l" "ll_rep l cs" "xs = rev (map snd cs)"
    using assms(1) by (auto simp: mq_rep_def)
  with assms(3) have "mem l a = None" by (simp add: mq_mem_def)
  then obtain l' where l': "linked_list_add (Some l) (Some d) f (Some a) = Some (eLINKED_LIST_SUCCESS, Some l')"
    "ll_rep l' ((a, d, f) # cs)" "dealloc_calls l' = dealloc_calls l"
    using linked_list_add_rep [OF l(2)] by blast
  have "mq_rep (q\<lparr>msg_list := Some l'\<rparr>) (xs @ [(d, f)])"
    using l'(2) l(3) by (force simp: mq_rep_def)
  with l l' assms(2) show ?thesis by (auto simp: msg_q_snd_def mq_deallocs_def [of "q\<lparr>msg_list := x\<rparr>" for x] mq_deallocs_def [of q])
qed

lemma msg_q_snd_no_memory:
  "mq_rep q xs \<Longrightarrow> \<not> unblocked q \<Longrightarrow>
     msg_q_snd (Some q) (Some d) f None w = Some (eMSG_Q_FAILURE_GENERAL, Some (cond_signal w q))"
  by (cases q) (auto simp: mq_rep_def msg_q_snd_def linked_list_add_def)

lemma msg_q_rcv_loop_rep:
  assumes "mq_rep q xs"
  shows "xs = [] \<Longrightarrow> \<not> unblocked q \<Longrightarrow>
           msg_q_rcv_loop q t = Some (Waiting, q\<lparr>cond_blocked := cond_blocked q @ [t]\<rparr>)"
    and "xs = [] \<Longrightarrow> unblocked q \<Longrightarrow>
           msg_q_rcv_loop q t = Some (Returned eMSG_Q_UNAVAILABLE_RESOURCE None, q)"
    and "xs = m # ys \<Longrightarrow>
           \<exists>q'. msg_q_rcv_loop q t = Some (Returned eMSG_Q_SUCCESS (Some (fst m)), q') \<and>
             mq_rep q' ys \<and> unblocked q' = unblocked q \<and> mq_deallocs q' = mq_deallocs q \<and>
             cond_blocked q' = cond_blocked q \<and> cond_woken q' = cond_woken q"
proof -
  obtain l cs where l: "msg_list q = Some l" "ll_rep l cs" "xs = rev (map snd cs)"
    using assms(1) by (auto simp: mq_rep_def)
  have e: "linked_list_empty (Some l) \<noteq> 0 \<longleftrightarrow> xs = []" using mq_rep_nonempty [OF assms] l by simp
  show "xs = [] \<Longrightarrow> \<not> unblocked q \<Longrightarrow>
           msg_q_rcv_loop q t = Some (Waiting, q\<lparr>cond_blocked := cond_blocked q @ [t]\<rparr>)"
    using e l by (simp add: msg_q_rcv_loop_def)
  show "xs = [] \<Longrightarrow> unblocked q \<Longrightarrow>
           msg_q_rcv_loop q t = Some (Returned eMSG_Q_UNAVAILABLE_RESOURCE None, q)"
    using l linked_list_remove_empty [of l] by (simp add: msg_q_rcv_loop_def)
  show "xs = m # ys \<Longrightarrow>
           \<exists>q'. msg_q_rcv_loop q t = Some (Returned eMSG_Q_SUCCESS (Some (fst m)), q') \<and>
             mq_rep q' ys \<and> unblocked q' = unblocked q \<and> mq_deallocs q' = mq_deallocs q \<and>
             cond_blocked q' = cond_blocked q \<and> cond_woken q' = cond_woken q"
  proof -
    assume xs: "xs = m # ys"
    then obtain ds a d f where cs: "cs = ds @ [(a, d, f)]" "m = (d, f)" "ys = rev (map snd ds)"
      using l(3) by (cases cs rule: rev_cases) auto
    have "linked_list_empty (Some l) = 0" using e xs by simp
    with linked_list_remove_rep [of l ds a d f] l cs show ?thesis
      by (fastforce simp: msg_q_rcv_loop_def mq_rep_def mq_deallocs_def)
  qed
qed

lemma msg_q_flush_rep:
  assumes "mq_rep q xs"
  shows "\<exists>q'. msg_q_flush (Some q) = Some (eMSG_Q_SUCCESS, Some q') \<and> mq_rep q' [] \<and>
     unblocked q' = unblocked q \<and> cond_blocked q' = cond_blocked q \<and> cond_woken q' = cond_woken q \<and>
     mq_deallocs q' = mq_deallocs q @ concat (map msg_dealloc (rev xs))"
proof -
  obtain l cs where l: "msg_list q = Some l" "ll_rep l cs" "xs = rev (map snd cs)"
    using assms(1) by (auto simp: mq_rep_def)
  have dm: "map dealloc_of cs = map (\<lambda>c. msg_dealloc (snd c)) cs"
    by (rule map_cong) (auto simp: dealloc_of_def msg_dealloc_def)
  have "concat (map dealloc_of cs) = concat (map msg_dealloc (rev xs))"
    by (simp only: l(3) rev_rev_ident map_map comp_def dm)
  moreover obtain l' where l': "linked_list_flush (Some l) = Some (eLINKED_LIST_SUCCESS, Some l')"
    "ll_rep l' []" "dealloc_calls l' = dealloc_calls l @ concat (map dealloc_of cs)"
    using linked_list_flush_rep [OF l(2)] by blast
  moreover have "mq_rep (q\<lparr>msg_list := Some l'\<rparr>) []" using l'(2) by (force simp: mq_rep_def)
  ultimately show ?thesis using l(1) by (auto simp: msg_q_flush_def mq_deallocs_def)
qed

section \<open>The FIFO interface\<close>

text \<open>
  What a client of a channel relies on: a \<open>put\<close> that is accepted appends, one that is not changes
  nothing, a \<open>get\<close> returns the oldest message or nothing.
\<close>

datatype 'm chan_event = Put 'm | Get

fun chan_run ::
  "('q \<Rightarrow> 'm \<Rightarrow> bool \<times> 'q) \<Rightarrow> ('q \<Rightarrow> 'm option \<times> 'q) \<Rightarrow> 'm chan_event list \<Rightarrow> 'q \<Rightarrow>
     'm list \<times> 'm list \<times> 'q" where
  "chan_run put get [] q = ([], [], q)"
| "chan_run put get (Put m # es) q =
     (let (ok, q') = put q m; (sent, rcvd, q'') = chan_run put get es q'
      in (if ok then m # sent else sent, rcvd, q''))"
| "chan_run put get (Get # es) q =
     (let (r, q') = get q; (sent, rcvd, q'') = chan_run put get es q'
      in (sent, case r of None \<Rightarrow> rcvd | Some m \<Rightarrow> m # rcvd, q''))"

locale fifo_channel =
  fixes holds :: "'q \<Rightarrow> 'm list \<Rightarrow> bool"
    and put :: "'q \<Rightarrow> 'm \<Rightarrow> bool \<times> 'q"
    and get :: "'q \<Rightarrow> 'm option \<times> 'q"
  assumes put_appends:
      "holds q xs \<Longrightarrow> put q m = (ok, q') \<Longrightarrow> holds q' (if ok then xs @ [m] else xs)"
    and get_nothing: "holds q xs \<Longrightarrow> get q = (None, q') \<Longrightarrow> holds q' xs"
    and get_oldest: "holds q xs \<Longrightarrow> get q = (Some m, q') \<Longrightarrow> \<exists>ys. xs = m # ys \<and> holds q' ys"
begin

lemma run_fifo:
  "holds q xs \<Longrightarrow> chan_run put get es q = (sent, rcvd, q') \<Longrightarrow>
     \<exists>ys. holds q' ys \<and> xs @ sent = rcvd @ ys"
proof (induction es arbitrary: q xs sent rcvd q')
  case Nil
  then show ?case by auto
next
  case (Cons e es)
  show ?case
  proof (cases e)
    case (Put m)
    obtain ok q1 where q1: "put q m = (ok, q1)" by fastforce
    obtain s1 r1 q2 where r1: "chan_run put get es q1 = (s1, r1, q2)" by (cases "chan_run put get es q1") auto
    from Cons.IH [OF put_appends [OF Cons.prems(1) q1] r1] Cons.prems(2) q1 r1 show ?thesis
      by (auto simp: Put)
  next
    case Get
    obtain r q1 where q1: "get q = (r, q1)" by fastforce
    obtain s1 r1 q2 where r1: "chan_run put get es q1 = (s1, r1, q2)" by (cases "chan_run put get es q1") auto
    show ?thesis
    proof (cases r)
      case None
      with Cons.IH [OF get_nothing [OF Cons.prems(1)] r1] Cons.prems(2) q1 r1 show ?thesis
        by (auto simp: Get)
    next
      case (Some m)
      with get_oldest [OF Cons.prems(1)] q1 obtain ys where ys: "xs = m # ys" "holds q1 ys" by blast
      with Cons.IH [OF ys(2) r1] Cons.prems(2) q1 r1 Some show ?thesis by (auto simp: Get)
    qed
  qed
qed

end

text \<open>
  The queue as such a channel: \<open>put\<close> is accepted when \<open>msg_q_snd\<close> returns success, \<open>get\<close> is
  \<open>msg_q_rcv\<close> when it returns a message without waiting. \<open>malloc\<close> is any choice of addresses; a
  choice that is in use stands for NULL (\<open>fresh_malloc\<close>).
\<close>

definition fresh_malloc :: "('a, 'f) allocator \<Rightarrow> ('a, 'f) allocator" where
  "fresh_malloc malloc m =
     (case malloc m of None \<Rightarrow> None | Some a \<Rightarrow> if m a = None then Some a else None)"

lemma malloc_ok_fresh: "malloc_ok (fresh_malloc malloc)"
  by (auto simp: malloc_ok_def fresh_malloc_def split: option.splits if_splits)

lemma fresh_malloc_id: "malloc_ok malloc \<Longrightarrow> fresh_malloc malloc m = malloc m"
  by (auto simp: malloc_ok_def fresh_malloc_def split: option.splits)

definition mq_put ::
  "('a, 'f) allocator \<Rightarrow> 'f option \<Rightarrow> ('a, 'f) msg_q \<Rightarrow> 'a \<Rightarrow> bool \<times> ('a, 'f) msg_q" where
  "mq_put malloc dealloc q d =
     (case msg_q_snd (Some q) (Some d) dealloc (fresh_malloc malloc (mq_mem q)) 0 of
        Some (r, Some q') \<Rightarrow> (r = eMSG_Q_SUCCESS, q')
      | _ \<Rightarrow> (False, q))"

definition mq_get :: "('a, 'f) msg_q \<Rightarrow> 'a option \<times> ('a, 'f) msg_q" where
  "mq_get q =
     (case msg_q_rcv (Some q) False 0 of
        Some (Returned eMSG_Q_SUCCESS (Some d), Some q') \<Rightarrow> (Some d, q')
      | _ \<Rightarrow> (None, q))"

text \<open>The data pointers held, and the deallocations made, when all messages have the same function.\<close>

definition mq_holds :: "'f option \<Rightarrow> ('f \<times> 'a) list \<Rightarrow> ('a, 'f) msg_q \<Rightarrow> 'a list \<Rightarrow> bool" where
  "mq_holds dealloc log q ds \<longleftrightarrow> mq_rep q (map (\<lambda>d. (d, dealloc)) ds) \<and> mq_deallocs q = log"

lemma mq_put_holds:
  assumes h: "mq_holds f log q ds" and put: "mq_put malloc f q d = (ok, q')"
  shows "mq_holds f log q' (if ok then ds @ [d] else ds)"
proof -
  have rep: "mq_rep q (map (\<lambda>d. (d, f)) ds)" "mq_deallocs q = log" using h by (auto simp: mq_holds_def)
  show ?thesis
  proof (cases "unblocked q")
    case True
    with put h show ?thesis by (auto simp: mq_put_def msg_q_snd_def)
  next
    case u: False
    show ?thesis
    proof (cases "fresh_malloc malloc (mq_mem q)")
      case None
      with put rep u show ?thesis by (auto simp: mq_put_def msg_q_snd_no_memory mq_holds_def)
    next
      case (Some a)
      with malloc_ok_fresh have "mq_mem q a = None" by (auto simp: malloc_ok_def)
      then obtain q1 where "msg_q_snd (Some q) (Some d) f (Some a) 0 = Some (eMSG_Q_SUCCESS, Some q1)"
        "mq_rep q1 (map (\<lambda>d. (d, f)) ds @ [(d, f)])" "mq_deallocs q1 = mq_deallocs q"
        using msg_q_snd_rep [OF rep(1) u] by blast
      with put rep(2) Some show ?thesis by (auto simp: mq_put_def mq_holds_def)
    qed
  qed
qed

lemma mq_get_holds:
  assumes h: "mq_holds f log q ds" and get: "mq_get q = (r, q')"
  shows "case r of None \<Rightarrow> mq_holds f log q' ds | Some d \<Rightarrow> \<exists>ds'. ds = d # ds' \<and> mq_holds f log q' ds'"
proof -
  have rep: "mq_rep q (map (\<lambda>d. (d, f)) ds)" "mq_deallocs q = log" using h by (auto simp: mq_holds_def)
  show ?thesis
  proof (cases "unblocked q")
    case True
    with get h show ?thesis by (auto simp: mq_get_def msg_q_rcv_def)
  next
    case u: False
    show ?thesis
    proof (cases ds)
      case Nil
      with msg_q_rcv_loop_rep(1) [OF rep(1) _ u, of 0] get h u show ?thesis
        by (auto simp: mq_get_def msg_q_rcv_def)
    next
      case (Cons d ds')
      then obtain q1 where "msg_q_rcv_loop q 0 = Some (Returned eMSG_Q_SUCCESS (Some d), q1)"
        "mq_rep q1 (map (\<lambda>d. (d, f)) ds')" "mq_deallocs q1 = mq_deallocs q"
        using msg_q_rcv_loop_rep(3) [OF rep(1), of "(d, f)" "map (\<lambda>d. (d, f)) ds'" 0] by auto
      with get rep(2) u Cons show ?thesis by (auto simp: mq_get_def msg_q_rcv_def mq_holds_def)
    qed
  qed
qed

interpretation mq: fifo_channel "mq_holds f log" "mq_put malloc f" mq_get
  by unfold_locales (auto dest: mq_put_holds mq_get_holds)

section \<open>Any number of senders and receivers\<close>

text \<open>
  A system state is the queue with the history of its data pointers: those whose sending
  succeeded, and those that left the queue, received (True) or flushed (False).
\<close>

record ('a, 'f) mq_sys =
  queue :: "('a, 'f) msg_q"
  sent :: "'a list"
  gone :: "(bool \<times> 'a) list"

definition log_rcv :: "'a rcv_result \<Rightarrow> (bool \<times> 'a) list" where
  "log_rcv r = (case r of Returned eMSG_Q_SUCCESS (Some d) \<Rightarrow> [(True, d)] | _ \<Rightarrow> [])"

inductive mq_step :: "('a, 'f) mq_sys \<Rightarrow> ('a, 'f) mq_sys \<Rightarrow> bool" where
  step_snd:
    "msg_q_snd (Some (queue s)) (Some d) f (fresh_malloc malloc (mq_mem (queue s))) w = Some (r, Some q) \<Longrightarrow>
     mq_step s (s\<lparr>queue := q, sent := sent s @ (if r = eMSG_Q_SUCCESS then [d] else [])\<rparr>)"
| step_rcv:
    "t \<notin> set (cond_blocked (queue s)) \<Longrightarrow> t \<notin> set (cond_woken (queue s)) \<Longrightarrow>
     msg_q_rcv (Some (queue s)) False t = Some (r, Some q) \<Longrightarrow>
     mq_step s (s\<lparr>queue := q, gone := gone s @ log_rcv r\<rparr>)"
| step_rcv_wake:
    "t \<in> set (cond_woken (queue s)) \<Longrightarrow> msg_q_rcv_wake (queue s) t = Some (r, q) \<Longrightarrow>
     mq_step s (s\<lparr>queue := q, gone := gone s @ log_rcv r\<rparr>)"
| step_spurious:
    "mq_step s (s\<lparr>queue := cond_signal w (queue s)\<rparr>)"
| step_flush:
    "msg_q_flush (Some (queue s)) = Some (r, Some q) \<Longrightarrow>
     mq_step s (s\<lparr>queue := q, gone := gone s @ map (Pair False) (drop (length (gone s)) (sent s))\<rparr>)"
| step_unblock:
    "msg_q_unblock (Some (queue s)) = (r, Some q) \<Longrightarrow> mq_step s (s\<lparr>queue := q\<rparr>)"

inductive_cases mq_stepE: "mq_step s s'"

inductive mq_reachable :: "('a, 'f) mq_sys \<Rightarrow> bool" where
  reach_init: "msg_q_init2 True True True True = Some q \<Longrightarrow>
     mq_reachable \<lparr>queue = q, sent = [], gone = []\<rparr>"
| reach_step: "mq_reachable s \<Longrightarrow> mq_step s s' \<Longrightarrow> mq_reachable s'"

text \<open>
  The invariant: what was sent is what is gone followed by what is queued, and while a thread
  is blocked the queue is not unblocked and holds no more messages than there are woken threads
  still to look at it.
\<close>

definition no_lost_wakeup :: "('a, 'f) msg_q \<Rightarrow> nat \<Rightarrow> bool" where
  "no_lost_wakeup q n \<longleftrightarrow>
     (cond_blocked q \<noteq> [] \<longrightarrow> n \<le> length (cond_woken q) \<and> \<not> unblocked q)"

definition mq_inv :: "('a, 'f) mq_sys \<Rightarrow> bool" where
  "mq_inv s \<longleftrightarrow>
     (\<exists>xs. mq_rep (queue s) xs \<and> sent s = map snd (gone s) @ map fst xs \<and>
           no_lost_wakeup (queue s) (length xs))"

lemma cond_signal_woken:
  "cond_blocked q \<noteq> [] \<Longrightarrow> length (cond_woken (cond_signal w q)) = Suc (length (cond_woken q))"
  by (auto simp: cond_signal_def Let_def split: list.splits)

lemma cond_signal_blocked: "cond_blocked q = [] \<Longrightarrow> cond_signal w q = q"
  by (simp add: cond_signal_def)

lemma no_lost_wakeup_signal:
  "no_lost_wakeup q n \<Longrightarrow> no_lost_wakeup (cond_signal w (q\<lparr>msg_list := l\<rparr>)) (Suc n)"
  "no_lost_wakeup q n \<Longrightarrow> no_lost_wakeup (cond_signal w (q\<lparr>msg_list := l\<rparr>)) n"
  using cond_signal_woken [of "q\<lparr>msg_list := l\<rparr>" w] cond_signal_blocked [of "q\<lparr>msg_list := l\<rparr>" w]
  by (cases "cond_blocked q = []"; simp add: no_lost_wakeup_def)+

lemma no_lost_wakeup_unblocked: "cond_blocked q = [] \<Longrightarrow> no_lost_wakeup q n"
  by (simp add: no_lost_wakeup_def)

lemma mq_inv_snd:
  assumes inv: "mq_inv s"
    and snd: "msg_q_snd (Some (queue s)) (Some d) f (fresh_malloc malloc (mq_mem (queue s))) w = Some (r, Some q)"
  shows "mq_inv (s\<lparr>queue := q, sent := sent s @ (if r = eMSG_Q_SUCCESS then [d] else [])\<rparr>)"
proof -
  obtain xs where xs: "mq_rep (queue s) xs" "sent s = map snd (gone s) @ map fst xs"
    "no_lost_wakeup (queue s) (length xs)" using inv by (auto simp: mq_inv_def)
  show ?thesis
  proof (cases "unblocked (queue s)")
    case True
    with snd inv show ?thesis by (auto simp: msg_q_snd_def mq_inv_def)
  next
    case u: False
    show ?thesis
    proof (cases "fresh_malloc malloc (mq_mem (queue s))")
      case None
      with snd u xs no_lost_wakeup_signal(2) [OF xs(3), of w "msg_list (queue s)"] show ?thesis
        by (auto simp: msg_q_snd_no_memory mq_inv_def)
    next
      case (Some a)
      with malloc_ok_fresh have "mq_mem (queue s) a = None" by (auto simp: malloc_ok_def)
      from msg_q_snd_rep [OF xs(1) u this, of d f w] Some snd have
        "mq_rep q (xs @ [(d, f)])" "r = eMSG_Q_SUCCESS" by auto
      moreover have "\<exists>l. q = cond_signal w ((queue s)\<lparr>msg_list := l\<rparr>)"
        using snd u by (auto simp: msg_q_snd_def)
      ultimately show ?thesis
        using xs no_lost_wakeup_signal(1) [OF xs(3), of w] by (fastforce simp: mq_inv_def)
    qed
  qed
qed

lemma mq_inv_rcv_loop:
  assumes xs: "mq_rep q0 xs" "sent s = map snd (gone s) @ map fst xs"
    and n: "cond_blocked q0 \<noteq> [] \<longrightarrow> length xs \<le> Suc (length (cond_woken q0)) \<and> \<not> unblocked q0"
    and loop: "msg_q_rcv_loop q0 t = Some (r, q)"
  shows "mq_inv (s\<lparr>queue := q, gone := gone s @ log_rcv r\<rparr>)"
proof (cases xs)
  case Nil
  show ?thesis
  proof (cases "unblocked q0")
    case True
    with msg_q_rcv_loop_rep(2) [OF xs(1) Nil True, of t] loop xs n show ?thesis
      by (auto simp: Nil mq_inv_def log_rcv_def no_lost_wakeup_def)
  next
    case False
    with msg_q_rcv_loop_rep(1) [OF xs(1) Nil False, of t] loop xs show ?thesis
      by (auto simp: Nil mq_inv_def log_rcv_def no_lost_wakeup_def)
  qed
next
  case (Cons m ys)
  with msg_q_rcv_loop_rep(3) [OF xs(1) Cons, of t] loop xs n show ?thesis
    by (fastforce simp: Cons mq_inv_def log_rcv_def no_lost_wakeup_def)
qed

lemma mq_inv_step: "mq_step s s' \<Longrightarrow> mq_inv s \<Longrightarrow> mq_inv s'"
proof (induction rule: mq_step.induct)
  case (step_snd s d f malloc w r q)
  then show ?case by (intro mq_inv_snd)
next
  case (step_rcv t s r q)
  obtain xs where xs: "mq_rep (queue s) xs" "sent s = map snd (gone s) @ map fst xs"
    "no_lost_wakeup (queue s) (length xs)" using step_rcv by (auto simp: mq_inv_def)
  show ?case
  proof (cases "unblocked (queue s)")
    case True
    with step_rcv show ?thesis by (auto simp: msg_q_rcv_def mq_inv_def log_rcv_def)
  next
    case False
    with step_rcv have "msg_q_rcv_loop (queue s) t = Some (r, q)" by (auto simp: msg_q_rcv_def)
    with mq_inv_rcv_loop [OF xs(1,2)] xs(3) show ?thesis by (auto simp: no_lost_wakeup_def)
  qed
next
  case (step_rcv_wake t s r q)
  then obtain xs where xs: "mq_rep (queue s) xs" "sent s = map snd (gone s) @ map fst xs"
    "no_lost_wakeup (queue s) (length xs)" by (auto simp: mq_inv_def)
  let ?q = "(queue s)\<lparr>cond_woken := remove1 t (cond_woken (queue s))\<rparr>"
  have "cond_blocked ?q \<noteq> [] \<longrightarrow> length xs \<le> Suc (length (cond_woken ?q)) \<and> \<not> unblocked ?q"
    using xs(3) step_rcv_wake(1) by (auto simp: no_lost_wakeup_def length_remove1)
  from mq_inv_rcv_loop [OF _ xs(2) this] xs(1) step_rcv_wake(2) show ?case
    by (auto simp: msg_q_rcv_wake_def)
next
  case (step_spurious s w)
  then show ?case
    using no_lost_wakeup_signal(2) [of "queue s" _ w "msg_list (queue s)"] by (fastforce simp: mq_inv_def)
next
  case (step_flush s r q)
  then obtain xs where xs: "mq_rep (queue s) xs" "sent s = map snd (gone s) @ map fst xs"
    by (auto simp: mq_inv_def)
  with step_flush msg_q_flush_rep [OF xs(1)] show ?case
    by (auto simp: mq_inv_def no_lost_wakeup_def comp_def)
next
  case (step_unblock s r q)
  then show ?case
    by (auto simp: mq_inv_def no_lost_wakeup_def msg_q_unblock_def cond_broadcast_def split: if_splits)
qed

lemma mq_inv_init2: "msg_q_init2 c lc m cv = Some q \<Longrightarrow> mq_rep q [] \<and> \<not> unblocked q \<and> cond_blocked q = []"
  using ll_rep_empty
  by (fastforce simp: msg_q_init2_def msg_q_init_def linked_list_init_def mq_rep_def Let_def split: if_splits)

lemma mq_inv_reachable: "mq_reachable s \<Longrightarrow> mq_inv s"
proof (induction rule: mq_reachable.induct)
  case (reach_init q)
  then show ?case by (auto simp: mq_inv_def no_lost_wakeup_def dest!: mq_inv_init2)
next
  case (reach_step s s')
  then show ?case by (blast intro: mq_inv_step)
qed

lemma msg_q_destroy_rep:
  assumes "mq_rep q xs"
  shows "msg_q_destroy False (Some q) =
     Some (eMSG_Q_SUCCESS, None, mq_deallocs q @ concat (map msg_dealloc (rev xs)))"
proof -
  obtain q' where "msg_q_flush (Some q) = Some (eMSG_Q_SUCCESS, Some q')"
    "mq_deallocs q' = mq_deallocs q @ concat (map msg_dealloc (rev xs))"
    using msg_q_flush_rep [OF assms] by blast
  then show ?thesis
    by (auto simp: msg_q_destroy_def linked_list_destroy_def msg_q_flush_def mq_deallocs_def [of q'])
qed

section \<open>Properties\<close>

text \<open>
  on a queue created by \<open>msg_q_init2\<close>, whatever the sequence of sends and receives, the
  messages received are the messages sent, in the order they were sent, without loss or
  duplication: what was sent is what was received followed by what is still queued.
\<close>

theorem msg_q_fifo:
  "\<exists>q. msg_q_init2 True True True True = Some q \<and>
     (case chan_run (mq_put malloc f) mq_get es q of
        (snt, rcvd, q') \<Rightarrow> \<exists>ds. mq_holds f [] q' ds \<and> snt = rcvd @ ds)"
proof -
  obtain q :: "('a, 'b) msg_q" where q: "msg_q_init2 True True True True = Some q" "mq_deallocs q = []"
    by (simp add: msg_q_init2_def msg_q_init_def linked_list_init_def mq_deallocs_def empty_list_state_def)
  then have "mq_holds f [] q []" by (auto simp: mq_holds_def dest: mq_inv_init2)
  from mq.run_fifo [OF this, of malloc es] q show ?thesis by (auto split: prod.splits)
qed

text \<open>
  C15: in every reachable state of any number of concurrent senders, receivers, flushes and
  unblocks, spurious wake ups included, what was sent is what left the queue followed by what
  is queued, and no wake up is lost: while a thread is blocked in \<open>msg_q_rcv\<close> the queue is not
  unblocked and at most as many messages are queued as there are woken threads that will
  re-evaluate the loop.
\<close>

theorem msg_q_no_lost_wakeup:
  assumes "mq_reachable s"
  shows "\<exists>ms. mq_rep (queue s) ms \<and> sent s = map snd (gone s) @ map fst ms \<and>
     (cond_blocked (queue s) \<noteq> [] \<longrightarrow>
        length ms \<le> length (cond_woken (queue s)) \<and> \<not> unblocked (queue s))"
  using mq_inv_reachable [OF assms] by (auto simp: mq_inv_def no_lost_wakeup_def)

definition demo_blocked :: "(char, nat) mq_sys" where
  "demo_blocked =
     \<lparr>queue = \<lparr>msg_list = Some empty_list_state, unblocked = False, cond_blocked = [1], cond_woken = []\<rparr>,
      sent = [], gone = []\<rparr>"

definition demo_unblocked :: "(char, nat) mq_sys" where
  "demo_unblocked =
     \<lparr>queue = \<lparr>msg_list = Some empty_list_state, unblocked = True, cond_blocked = [], cond_woken = [1]\<rparr>,
      sent = [], gone = []\<rparr>"

lemma demo_blocked_reachable: "mq_reachable demo_blocked"
proof -
  let ?q = "\<lparr>msg_list = Some empty_list_state, unblocked = False, cond_blocked = [], cond_woken = []\<rparr>"
  let ?s = "\<lparr>queue = ?q, sent = [], gone = []\<rparr>"
  have "mq_reachable ?s"
    by (rule reach_init) (simp add: msg_q_init2_def msg_q_init_def linked_list_init_def)
  moreover have "mq_step ?s demo_blocked"
    using step_rcv [of 1 ?s Waiting "queue demo_blocked"]
    by (simp add: demo_blocked_def msg_q_rcv_def msg_q_rcv_loop_def linked_list_empty_def
        empty_list_state_def log_rcv_def)
  ultimately show ?thesis by (rule reach_step)
qed

lemma demo_unblocked_reachable: "mq_reachable demo_unblocked"
proof -
  have "mq_step demo_blocked demo_unblocked"
    using step_unblock [of demo_blocked eMSG_Q_SUCCESS "queue demo_unblocked"]
    by (simp add: demo_blocked_def demo_unblocked_def msg_q_unblock_def cond_broadcast_def)
  with demo_blocked_reachable show ?thesis by (rule reach_step)
qed

lemma msg_q_no_lost_wakeup_witness:
  "\<exists>ms. mq_rep (queue demo_blocked) ms \<and> [] = map fst ms \<and> length ms \<le> 0"
  using msg_q_no_lost_wakeup [OF demo_blocked_reachable] by (auto simp: demo_blocked_def)

text \<open>
  once \<open>msg_q_unblock\<close> has been called no thread is left blocked, a receiver or sender that
  arrives later is refused with UNAVAILABLE_RESOURCE and changes nothing, and a woken receiver
  never goes back to waiting: it leaves with a message that was queued or with
  UNAVAILABLE_RESOURCE.
\<close>

theorem msg_q_unblocked_never_waits:
  assumes "mq_reachable s" and "unblocked (queue s)"
  shows "cond_blocked (queue s) = [] \<and>
     msg_q_rcv (Some (queue s)) False t =
       Some (Returned eMSG_Q_UNAVAILABLE_RESOURCE None, Some (queue s)) \<and>
     msg_q_snd (Some (queue s)) (Some d) f a w = Some (eMSG_Q_UNAVAILABLE_RESOURCE, Some (queue s)) \<and>
     (\<exists>r q. msg_q_rcv_wake (queue s) t = Some (r, q) \<and>
        (r = Returned eMSG_Q_UNAVAILABLE_RESOURCE None \<or> (\<exists>d. r = Returned eMSG_Q_SUCCESS (Some d))))"
proof -
  obtain xs where xs: "mq_rep (queue s) xs" and b: "cond_blocked (queue s) = []"
    using mq_inv_reachable [OF assms(1)] assms(2) by (auto simp: mq_inv_def no_lost_wakeup_def)
  let ?q = "(queue s)\<lparr>cond_woken := remove1 t (cond_woken (queue s))\<rparr>"
  have q: "mq_rep ?q xs" "unblocked ?q" using xs assms(2) by auto
  have "\<exists>r q. msg_q_rcv_loop ?q t = Some (r, q) \<and>
        (r = Returned eMSG_Q_UNAVAILABLE_RESOURCE None \<or> (\<exists>d. r = Returned eMSG_Q_SUCCESS (Some d)))"
  proof (cases xs)
    case Nil
    with msg_q_rcv_loop_rep(2) [OF q(1) Nil q(2)] show ?thesis by blast
  next
    case (Cons m ys)
    from msg_q_rcv_loop_rep(3) [OF q(1) Cons] show ?thesis by blast
  qed
  with b assms(2) show ?thesis
    by (auto simp: msg_q_rcv_def msg_q_snd_def msg_q_rcv_wake_def)
qed

lemma msg_q_unblocked_never_waits_witness:
  "msg_q_rcv (Some (queue demo_unblocked)) False 5 =
     Some (Returned eMSG_Q_UNAVAILABLE_RESOURCE None, Some (queue demo_unblocked))"
  using msg_q_unblocked_never_waits [OF demo_unblocked_reachable] by (simp add: demo_unblocked_def)

text \<open>
  \<open>msg_q_init\<close> either succeeds with an empty queue and exactly its four resources acquired,
  or hands out no queue and has released everything it acquired, whichever of its steps failed.
\<close>

theorem msg_q_init_all_or_nothing:
  "(case msg_q_init n c lc m cv of
      (r, None, res) \<Rightarrow> r \<noteq> eMSG_Q_SUCCESS \<and> res = [] \<and> \<not> (\<not> n \<and> c \<and> lc \<and> m \<and> cv)
    | (r, Some q, res) \<Rightarrow> r = eMSG_Q_SUCCESS \<and> set res = {RQueue, RList, RMutex, RCond} \<and>
        mq_rep q [] \<and> \<not> unblocked q)"
proof -
  have "mq_rep \<lparr>msg_list = Some empty_list_state, unblocked = False,
      cond_blocked = [], cond_woken = []\<rparr> []"
    using ll_rep_empty by (force simp: mq_rep_def)
  then show ?thesis
    by (cases "n \<or> \<not> c \<or> \<not> lc \<or> \<not> m \<or> \<not> cv")
      (auto simp: msg_q_init_def linked_list_init_def Let_def)
qed

end
