(* ===== verification/Loc_Thread.thy ===== *)
theory Loc_Thread
  imports Msg_Queue
begin

text \<open>
  \<open>gps/utils/LocThread.cpp\<close> and \<open>gps/utils/MsgTask.cpp\<close>: a thread that runs a \<open>LocRunnable\<close>, and
  the task that runs messages from a queue on such a thread.

  \<^item> \<open>thread_sys\<close> is one \<open>LocThreadDelegate\<close> with the runnable it was given and the program
    counters of the client thread (\<open>LocThread::start\<close>, \<open>stop\<close>, the destructor) and of the spawned
    thread (\<open>threadMain\<close>). Every access to a shared field is a step of its own, and the two threads
    interleave freely; \<open>None\<close> is an access to a deleted object.
  \<^item> Shown: neither object is used after its deletion or deleted twice, the delegate is deleted
    when both threads are through, and a joining stop returns only after the thread has ended.
    Two runs in which the ownership rule documented in LocThread.h fails are given as theorems.
  \<^item> \<open>MsgTask\<close> is a client of the FIFO interface of \<open>Msg_Queue\<close>: messages are processed in the order
    sent and every message accepted is deleted exactly once.
\<close>

section \<open>LocThreadDelegate\<close>

text \<open>
  The client thread: in \<open>create\<close>, about to test \<open>isRunning\<close>; between calls; in \<open>stop\<close>, about to
  test \<open>mJoinable\<close>; blocked in \<open>pthread_join\<close>; about to call \<open>destroy\<close>; without the delegate. The
  Boolean is the result of \<open>start\<close>.
\<close>

datatype parent_pc = PCheck | PIdle | PStopJoin | PJoin | PDestroy bool | PGone bool

text \<open>The spawned thread, before each of its accesses in \<open>threadMain\<close>.\<close>

datatype child_pc =
    CStart | CPrerunCheck | CPrerun | CLoopCheck | CRun | CPostrunCheck | CPostrun | CClear
  | CDelete | CDestroy | CExit

record thread_sys =
  running :: bool
  joinable :: bool
  refcount :: int
  deleg_alive :: bool
  runnable_alive :: bool
  parent :: parent_pc
  child :: child_pc
  calls :: nat
  join_mode :: bool

text \<open>
  The state after the constructor; \<open>created\<close> is the success of the thread creation, \<open>join_mode\<close>
  records that a joinable thread was created.
\<close>

definition thread_ctor :: "bool \<Rightarrow> bool \<Rightarrow> thread_sys" where
  "thread_ctor join created =
     (let t = \<lparr>running = True, joinable = join, refcount = 2, deleg_alive = True, runnable_alive = True,
               parent = PCheck, child = CStart, calls = 0, join_mode = join \<and> created\<rparr>
      in if created then t
         else t\<lparr>running := False, joinable := False, refcount := 1, child := CExit\<rparr>)"

definition thread_destroy :: "thread_sys \<Rightarrow> thread_sys option" where
  "thread_destroy t =
     (if \<not> deleg_alive t then None
      else if refcount t > 0 then
        (let callDelete = (1 = refcount t); t' = t\<lparr>refcount := refcount t - 1\<rparr>
         in Some (if callDelete then t'\<lparr>deleg_alive := False\<rparr> else t'))
      else Some t)"

datatype thread_event = EvStopThread | EvByeThread | EvParent | EvChild bool

text \<open>\<open>stop\<close> up to its test of \<open>mJoinable\<close>.\<close>

definition thread_stop :: "thread_sys \<Rightarrow> thread_sys option" where
  "thread_stop t = (if \<not> deleg_alive t then None else Some (t\<lparr>running := False, parent := PStopJoin\<rparr>))"

definition parent_step :: "thread_sys \<Rightarrow> thread_sys option" where
  "parent_step t =
     (case parent t of
        PCheck \<Rightarrow>
          if \<not> deleg_alive t then None
          else Some (t\<lparr>parent := (if \<not> running t then PDestroy False else PIdle)\<rparr>)
      | PIdle \<Rightarrow> Some t
      | PStopJoin \<Rightarrow>
          if \<not> deleg_alive t then None
          else if joinable t then Some (t\<lparr>joinable := False, parent := PJoin\<rparr>)
          else Some (t\<lparr>parent := PDestroy True\<rparr>)
      | PJoin \<Rightarrow> Some (if child t = CExit then t\<lparr>parent := PDestroy True\<rparr> else t)
      | PDestroy r \<Rightarrow> do { t' \<leftarrow> thread_destroy t; Some (t'\<lparr>parent := PGone r\<rparr>) }
      | PGone r \<Rightarrow> Some t)"

text \<open>\<open>isRunning\<close> and the calls on the runnable; \<open>rerun\<close> is the result of \<open>run\<close>.\<close>

definition child_test :: "thread_sys \<Rightarrow> child_pc \<Rightarrow> child_pc \<Rightarrow> thread_sys option" where
  "child_test t yes no =
     (if \<not> deleg_alive t then None else Some (t\<lparr>child := (if running t then yes else no)\<rparr>))"

definition child_call :: "thread_sys \<Rightarrow> child_pc \<Rightarrow> thread_sys option" where
  "child_call t nxt =
     (if \<not> runnable_alive t then None else Some (t\<lparr>child := nxt, calls := Suc (calls t)\<rparr>))"

definition child_step :: "bool \<Rightarrow> thread_sys \<Rightarrow> thread_sys option" where
  "child_step rerun t =
     (case child t of
        CStart \<Rightarrow> child_test t CPrerunCheck CDestroy
      | CPrerunCheck \<Rightarrow> child_test t CPrerun CLoopCheck
      | CPrerun \<Rightarrow> child_call t CLoopCheck
      | CLoopCheck \<Rightarrow> child_test t CRun CPostrunCheck
      | CRun \<Rightarrow> child_call t (if rerun then CLoopCheck else CPostrunCheck)
      | CPostrunCheck \<Rightarrow> child_test t CPostrun CClear
      | CPostrun \<Rightarrow> child_call t CClear
      | CClear \<Rightarrow> if \<not> deleg_alive t then None else Some (t\<lparr>running := False, child := CDelete\<rparr>)
      | CDelete \<Rightarrow> if \<not> runnable_alive t then None
                   else Some (t\<lparr>runnable_alive := False, child := CDestroy\<rparr>)
      | CDestroy \<Rightarrow> do { t' \<leftarrow> thread_destroy t; Some (t'\<lparr>child := CExit\<rparr>) }
      | CExit \<Rightarrow> Some t)"

text \<open>\<open>bye\<close>, from the destructor of \<open>LocThread\<close>, and \<open>stop\<close>; both only while \<open>mThread\<close> is set.\<close>

definition thread_exec :: "thread_event \<Rightarrow> thread_sys \<Rightarrow> thread_sys option" where
  "thread_exec ev t =
     (case ev of
        EvStopThread \<Rightarrow> if parent t = PIdle then thread_stop t else Some t
      | EvByeThread \<Rightarrow>
          if parent t = PIdle
          then (if \<not> deleg_alive t then None
                else if joinable t then thread_stop t else Some (t\<lparr>parent := PDestroy True\<rparr>))
          else Some t
      | EvParent \<Rightarrow> parent_step t
      | EvChild rerun \<Rightarrow> child_step rerun t)"

inductive thread_reachable :: "thread_sys \<Rightarrow> bool" where
  thread_reach_init: "thread_reachable (thread_ctor join created)"
| thread_reach_step: "thread_reachable t \<Longrightarrow> thread_exec ev t = Some t' \<Longrightarrow> thread_reachable t'"

section \<open>The invariant\<close>

definition holds_parent :: "parent_pc \<Rightarrow> int" where
  "holds_parent p = (case p of PGone _ \<Rightarrow> 0 | _ \<Rightarrow> 1)"

definition holds_child :: "child_pc \<Rightarrow> int" where
  "holds_child c = (if c = CExit then 0 else 1)"

definition uses_runnable :: "child_pc \<Rightarrow> bool" where
  "uses_runnable c \<longleftrightarrow> c \<notin> {CStart, CDestroy, CExit}"

fun join_ok :: "parent_pc \<Rightarrow> bool \<Rightarrow> child_pc \<Rightarrow> bool" where
  "join_ok PCheck j c \<longleftrightarrow> j"
| "join_ok PIdle j c \<longleftrightarrow> j"
| "join_ok PStopJoin j c \<longleftrightarrow> j"
| "join_ok (PDestroy r) j c \<longleftrightarrow> (r \<longrightarrow> c = CExit)"
| "join_ok (PGone r) j c \<longleftrightarrow> (r \<longrightarrow> c = CExit)"
| "join_ok PJoin j c \<longleftrightarrow> True"

definition thread_inv :: "thread_sys \<Rightarrow> bool" where
  "thread_inv t \<longleftrightarrow>
     refcount t = holds_parent (parent t) + holds_child (child t) \<and>
     (deleg_alive t \<longleftrightarrow> refcount t > 0) \<and>
     (running t \<longrightarrow> child t \<notin> {CDelete, CDestroy, CExit}) \<and>
     (uses_runnable (child t) \<or> child t = CStart \<longrightarrow> runnable_alive t) \<and>
     (join_mode t \<longrightarrow> join_ok (parent t) (joinable t) (child t))"

lemmas thread_defs = thread_exec_def parent_step_def child_step_def child_test_def child_call_def
  thread_stop_def thread_destroy_def thread_inv_def holds_child_def uses_runnable_def

lemma join_ok_child: "join_ok p j c \<Longrightarrow> c \<noteq> CExit \<Longrightarrow> join_ok p j c'"
  by (cases p) simp_all

lemma holds_parent_simps [simp]:
  "holds_parent PCheck = 1" "holds_parent PIdle = 1" "holds_parent PStopJoin = 1" "holds_parent PJoin = 1"
  "holds_parent (PDestroy r) = 1" "holds_parent (PGone r) = 0" "0 \<le> holds_parent p" "0 < holds_parent p \<longleftrightarrow> holds_parent p \<noteq> 0"
  by (auto simp: holds_parent_def split: parent_pc.splits)

lemma thread_inv_ctor: "thread_inv (thread_ctor join created)"
  by (simp add: thread_ctor_def thread_defs Let_def)

lemma thread_exec_inv:
  assumes "thread_inv t"
  shows "\<exists>t'. thread_exec ev t = Some t' \<and> thread_inv t'"
proof (cases ev)
  case EvStopThread
  with assms show ?thesis by (cases "parent t") (auto simp: thread_defs)
next
  case EvByeThread
  with assms show ?thesis by (cases "parent t") (auto simp: thread_defs)
next
  case EvParent
  with assms show ?thesis
    by (cases "parent t") (auto simp: thread_defs Let_def)
next
  case (EvChild rerun)
  with assms show ?thesis
    by (cases "child t") (auto simp: thread_defs Let_def elim: join_ok_child)
qed

lemma thread_inv_reachable: "thread_reachable t \<Longrightarrow> thread_inv t"
proof (induction rule: thread_reachable.induct)
  case (thread_reach_init join created)
  then show ?case by (rule thread_inv_ctor)
next
  case (thread_reach_step t ev t')
  with thread_exec_inv [of t ev] show ?case by auto
qed

fun thread_run :: "thread_event list \<Rightarrow> thread_sys \<Rightarrow> thread_sys option" where
  "thread_run [] t = Some t"
| "thread_run (ev # evs) t = do { t' \<leftarrow> thread_exec ev t; thread_run evs t' }"

lemma thread_run_reachable: "thread_reachable t \<Longrightarrow> thread_run evs t = Some t' \<Longrightarrow> thread_reachable t'"
  by (induction evs arbitrary: t) (auto intro: thread_reach_step)

section \<open>MsgTask\<close>

text \<open>
  A message is a value of type \<open>'m\<close>; its deallocation function in the queue is \<open>LocMsgDestroy\<close>.
  \<open>mt_processed\<close> are the messages whose \<open>proc\<close> has run and that \<open>run\<close> then deleted.
\<close>

datatype msg_destroy = LocMsgDestroy

record 'm msg_task =
  mQ :: "('m, msg_destroy) msg_q"
  mt_processed :: "'m list"

text \<open>\<open>MsgTask::sendMsg\<close>: the code ignores the error code that is returned here.\<close>

definition msgtask_send ::
  "('m, msg_destroy) allocator \<Rightarrow> 'm \<Rightarrow> 'm msg_task \<Rightarrow> (msq_q_err_type \<times> 'm msg_task) option" where
  "msgtask_send malloc msg k =
     do { (r, q) \<leftarrow> msg_q_snd (Some (mQ k)) (Some msg) (Some LocMsgDestroy) (fresh_malloc malloc (mq_mem (mQ k))) 0;
          q' \<leftarrow> q;
          Some (r, k\<lparr>mQ := q'\<rparr>) }"

text \<open>\<open>MsgTask::run\<close>: the Boolean asks for another run; \<open>None\<close> means that it blocks.\<close>

definition msgtask_run :: "'m msg_task \<Rightarrow> (bool \<times> 'm msg_task) option" where
  "msgtask_run k =
     (case msg_q_rcv (Some (mQ k)) False 0 of
        Some (Returned eMSG_Q_SUCCESS (Some msg), Some q) \<Rightarrow>
          Some (True, k\<lparr>mQ := q, mt_processed := mt_processed k @ [msg]\<rparr>)
      | Some (Returned _ _, Some q) \<Rightarrow> Some (False, k\<lparr>mQ := q\<rparr>)
      | _ \<Rightarrow> None)"

text \<open>The destructor: the messages it deletes through the queue's deallocation callback.\<close>

definition msgtask_dtor :: "'m msg_task \<Rightarrow> 'm list option" where
  "msgtask_dtor k =
     do { (_, q) \<leftarrow> msg_q_flush (Some (mQ k));
          (_, _, ds) \<leftarrow> msg_q_destroy False q;
          Some (map snd ds) }"

text \<open>\<open>MsgTask::destroy\<close> up to the release of the thread.\<close>

definition msgtask_destroy :: "'m msg_task \<Rightarrow> 'm msg_task option" where
  "msgtask_destroy k = do { q \<leftarrow> snd (msg_q_unblock (Some (mQ k))); Some (k\<lparr>mQ := q\<rparr>) }"

text \<open>A run of sends and loop iterations, with the list of the messages that were accepted.\<close>

fun task_events ::
  "('m, msg_destroy) allocator \<Rightarrow> 'm chan_event list \<Rightarrow> 'm msg_task \<Rightarrow> ('m list \<times> 'm msg_task) option" where
  "task_events malloc [] k = Some ([], k)"
| "task_events malloc (Put m # es) k =
     do { (r, k') \<leftarrow> msgtask_send malloc m k;
          (acc, k'') \<leftarrow> task_events malloc es k';
          Some (if r = eMSG_Q_SUCCESS then m # acc else acc, k'') }"
| "task_events malloc (Get # es) k =
     (case msgtask_run k of
        None \<Rightarrow> task_events malloc es k
      | Some (_, k') \<Rightarrow> task_events malloc es k')"

abbreviation task_holds :: "'m msg_task \<Rightarrow> 'm list \<Rightarrow> bool" where
  "task_holds k ms \<equiv> mq_holds (Some LocMsgDestroy) [] (mQ k) ms"

text \<open>The task is a client of the FIFO interface.\<close>

lemma msgtask_send_put:
  assumes "task_holds k ms"
  shows "\<exists>r. msgtask_send malloc m k = Some (r, k\<lparr>mQ := snd (mq_put malloc (Some LocMsgDestroy) (mQ k) m)\<rparr>) \<and>
     (r = eMSG_Q_SUCCESS \<longleftrightarrow> fst (mq_put malloc (Some LocMsgDestroy) (mQ k) m))"
proof -
  have rep: "mq_rep (mQ k) (map (\<lambda>m. (m, Some LocMsgDestroy)) ms)" using assms by (simp add: mq_holds_def)
  show ?thesis
  proof (cases "unblocked (mQ k)")
    case True
    then show ?thesis by (simp add: msgtask_send_def mq_put_def msg_q_snd_def)
  next
    case u: False
    show ?thesis
    proof (cases "fresh_malloc malloc (mq_mem (mQ k))")
      case None
      with rep u show ?thesis by (simp add: msgtask_send_def mq_put_def msg_q_snd_no_memory)
    next
      case (Some a)
      with malloc_ok_fresh have "mq_mem (mQ k) a = None" by (auto simp: malloc_ok_def)
      then obtain q1 where
        "msg_q_snd (Some (mQ k)) (Some m) (Some LocMsgDestroy) (Some a) 0 = Some (eMSG_Q_SUCCESS, Some q1)"
        using msg_q_snd_rep [OF rep u] by blast
      with Some show ?thesis by (simp add: msgtask_send_def mq_put_def)
    qed
  qed
qed

lemma msgtask_run_get:
  assumes "task_holds k ms"
  shows "case mq_get (mQ k) of
       (None, q) \<Rightarrow> msgtask_run k = None \<or> msgtask_run k = Some (False, k)
     | (Some m, q) \<Rightarrow> msgtask_run k = Some (True, k\<lparr>mQ := q, mt_processed := mt_processed k @ [m]\<rparr>)"
proof -
  have rep: "mq_rep (mQ k) (map (\<lambda>m. (m, Some LocMsgDestroy)) ms)" using assms by (simp add: mq_holds_def)
  show ?thesis
  proof (cases "unblocked (mQ k)")
    case True
    then show ?thesis by (simp add: msgtask_run_def mq_get_def msg_q_rcv_def)
  next
    case u: False
    show ?thesis
    proof (cases ms)
      case Nil
      with msg_q_rcv_loop_rep(1) [OF rep _ u, of 0] u show ?thesis
        by (simp add: msgtask_run_def mq_get_def msg_q_rcv_def)
    next
      case (Cons m ms')
      then obtain q1 where "msg_q_rcv_loop (mQ k) 0 = Some (Returned eMSG_Q_SUCCESS (Some m), q1)"
        using msg_q_rcv_loop_rep(3) [OF rep, of "(m, Some LocMsgDestroy)"] by auto
      with u show ?thesis by (simp add: msgtask_run_def mq_get_def msg_q_rcv_def)
    qed
  qed
qed

lemma task_events_fifo:
  "task_holds k ms \<Longrightarrow>
     \<exists>acc k' done ms'. task_events malloc es k = Some (acc, k') \<and> task_holds k' ms' \<and>
       mt_processed k' = mt_processed k @ done \<and> ms @ acc = done @ ms'"
proof (induction es arbitrary: k ms)
  case Nil
  then show ?case by auto
next
  case (Cons e es)
  show ?case
  proof (cases e)
    case (Put m)
    let ?p = "mq_put malloc (Some LocMsgDestroy) (mQ k) m"
    from msgtask_send_put [OF Cons.prems, of malloc m] obtain r where
      r: "msgtask_send malloc m k = Some (r, k\<lparr>mQ := snd ?p\<rparr>)" "r = eMSG_Q_SUCCESS \<longleftrightarrow> fst ?p" by blast
    have "task_holds (k\<lparr>mQ := snd ?p\<rparr>) (if fst ?p then ms @ [m] else ms)"
      using mq.put_appends [OF Cons.prems, of malloc m "fst ?p" "snd ?p"] by simp
    from Cons.IH [OF this] r show ?thesis by (auto simp: Put)
  next
    case Get
    obtain g q where g: "mq_get (mQ k) = (g, q)" by fastforce
    show ?thesis
    proof (cases g)
      case None
      with msgtask_run_get [OF Cons.prems] g Cons.IH [OF Cons.prems] show ?thesis by (auto simp: Get)
    next
      case (Some m)
      with mq.get_oldest [OF Cons.prems] g obtain ms' where ms': "ms = m # ms'"
        "mq_holds (Some LocMsgDestroy) [] q ms'" by blast
      let ?k = "k\<lparr>mQ := q, mt_processed := mt_processed k @ [m]\<rparr>"
      have "task_holds ?k ms'" using ms'(2) by simp
      from Cons.IH [OF this] msgtask_run_get [OF Cons.prems] g Some ms'(1) show ?thesis by (auto simp: Get)
    qed
  qed
qed

lemma msgtask_dtor_holds:
  assumes "task_holds k ms"
  shows "msgtask_dtor k = Some (rev ms)"
proof -
  have rep: "mq_rep (mQ k) (map (\<lambda>m. (m, Some LocMsgDestroy)) ms)" "mq_deallocs (mQ k) = []"
    using assms by (auto simp: mq_holds_def)
  obtain q where q: "msg_q_flush (Some (mQ k)) = Some (eMSG_Q_SUCCESS, Some q)" "mq_rep q []"
    "mq_deallocs q = concat (map msg_dealloc (rev (map (\<lambda>m. (m, Some LocMsgDestroy)) ms)))"
    using msg_q_flush_rep [OF rep(1)] rep(2) by auto
  have "concat (map msg_dealloc (map (\<lambda>m. (m, Some LocMsgDestroy)) xs)) = map (Pair LocMsgDestroy) xs" for xs
    by (induction xs) (auto simp: msg_dealloc_def)
  then have "mq_deallocs q = map (Pair LocMsgDestroy) (rev ms)" using q(3) by (simp add: rev_map)
  with q(1) msg_q_destroy_rep [OF q(2)] show ?thesis by (simp add: msgtask_dtor_def comp_def)
qed

section \<open>Properties\<close>

text \<open>
  C16: in every interleaving of the client and the spawned thread, whether or not the thread could
  be created and however often \<open>run\<close> asks to be called again, no deleted object is accessed, the
  reference count says which of the two threads still holds the delegate, and the delegate is
  deleted exactly when neither does.
\<close>

theorem thread_objects_safe:
  assumes "thread_reachable t"
  shows "(\<exists>t'. thread_exec ev t = Some t' \<and> thread_reachable t') \<and>
    refcount t = (case parent t of PGone _ \<Rightarrow> 0 | _ \<Rightarrow> 1) + (if child t = CExit then 0 else 1) \<and>
    (deleg_alive t \<longleftrightarrow> refcount t > 0)"
proof -
  have inv: "thread_inv t" by (rule thread_inv_reachable [OF assms])
  obtain t' where "thread_exec ev t = Some t'" using thread_exec_inv [OF inv, of ev] by blast
  moreover from thread_reach_step [OF assms this] have "thread_reachable t'" .
  ultimately show ?thesis using inv by (simp add: thread_inv_def holds_parent_def holds_child_def)
qed

lemma thread_objects_safe_witness:
  "\<exists>t'. thread_exec (EvChild True) (thread_ctor True True) = Some t' \<and> thread_reachable t'"
  using thread_objects_safe [OF thread_reach_init [of True True], of "EvChild True"] by blast

text \<open>
  C17: \<open>stop\<close>, or the destructor, of a started joinable thread returns only after the spawned thread
  has ended: from then on the runnable is never called again.
\<close>

theorem thread_stop_joins:
  assumes "thread_reachable t" and "join_mode t" and "parent t = PGone True"
  shows "child t = CExit \<and> thread_exec (EvChild rerun) t = Some t \<and> \<not> deleg_alive t"
  using thread_inv_reachable [OF assms(1)] assms(2,3)
  by (auto simp: thread_defs)

definition after_run :: "thread_event list \<Rightarrow> (thread_sys \<Rightarrow> bool) \<Rightarrow> bool" where
  "after_run evs P = (case thread_run evs (thread_ctor True True) of None \<Rightarrow> False | Some t \<Rightarrow> P t)"

lemma after_runD: "after_run evs P \<Longrightarrow> \<exists>t. thread_reachable t \<and> P t"
  by (auto simp: after_run_def split: option.splits intro: thread_run_reachable [OF thread_reach_init])

lemma stopped_run:
  "after_run [EvParent, EvChild True, EvStopThread, EvParent, EvChild True, EvChild True, EvChild True,
      EvChild True, EvChild True, EvChild True, EvChild True, EvChild True, EvParent, EvParent]
     (\<lambda>t. join_mode t \<and> parent t = PGone True)"
  by code_simp

lemma unread_run:
  "after_run [EvParent, EvStopThread, EvParent, EvChild True, EvChild True, EvParent, EvParent]
     (\<lambda>t. parent t = PGone True \<and> child t = CExit \<and> runnable_alive t)"
  by code_simp

lemma early_end_run:
  "after_run [EvChild False, EvChild False, EvChild False, EvChild False, EvChild False,
      EvChild False, EvChild False, EvChild False, EvChild False, EvChild False, EvParent, EvParent]
     (\<lambda>t. parent t = PGone False \<and> child t = CExit \<and> \<not> runnable_alive t)"
  by code_simp

lemma thread_stop_joins_witness:
  "\<exists>t. thread_reachable t \<and> parent t = PGone True \<and> child t = CExit"
proof -
  obtain t where "thread_reachable t" "join_mode t" "parent t = PGone True"
    using after_runD [OF stopped_run] by blast
  with thread_stop_joins [of t] show ?thesis by blast
qed

text \<open>
  the ownership rule of the runnable (deleted by the thread if \<open>start\<close> returns true, left to
  the client if it returns false) has two races. The client can stop the thread before it has read
  the runnable, and then nobody deletes it although \<open>start\<close> returned true; and a thread that ends
  before \<open>create\<close> tests \<open>isRunning\<close> has deleted the runnable although \<open>start\<close> returns false.
\<close>

theorem thread_runnable_ownership_races:
  "(\<exists>t. thread_reachable t \<and> parent t = PGone True \<and> child t = CExit \<and> runnable_alive t) \<and>
   (\<exists>t. thread_reachable t \<and> parent t = PGone False \<and> child t = CExit \<and> \<not> runnable_alive t)"
  using after_runD [OF unread_run] after_runD [OF early_end_run] by blast

text \<open>
  whatever the order of sends and loop iterations of a \<open>MsgTask\<close>, the messages accepted by its
  queue are processed in the order they were sent, and those not yet processed when the task is
  destroyed are deleted by its destructor: every accepted message is deleted exactly once.
\<close>

theorem msgtask_deletes_each_once:
  "\<exists>q acc k dels. msg_q_init2 True True True True = Some q \<and>
     task_events malloc es \<lparr>mQ = q, mt_processed = []\<rparr> = Some (acc, k) \<and>
     msgtask_dtor k = Some dels \<and> acc = mt_processed k @ rev dels"
proof -
  obtain q :: "('a, msg_destroy) msg_q" where q: "msg_q_init2 True True True True = Some q" "mq_deallocs q = []"
    by (simp add: msg_q_init2_def msg_q_init_def linked_list_init_def mq_deallocs_def empty_list_state_def)
  let ?k = "\<lparr>mQ = q, mt_processed = []\<rparr>"
  have "task_holds ?k []" using q by (auto simp: mq_holds_def dest: mq_inv_init2)
  from task_events_fifo [OF this, of malloc es] obtain acc k ms' where
    "task_events malloc es ?k = Some (acc, k)" "task_holds k ms'" "acc = mt_processed k @ ms'" by auto
  with q(1) msgtask_dtor_holds [of k ms'] show ?thesis by auto
qed

text \<open>
  a message sent after \<open>MsgTask::destroy\<close> has unblocked the queue is refused; \<open>sendMsg\<close> ignores
  the error, so the message is neither queued nor ever deleted: a leak.
\<close>

theorem msgtask_send_after_destroy_leaks:
  assumes "msgtask_destroy k = Some k1"
  shows "msgtask_send malloc m k1 = Some (eMSG_Q_UNAVAILABLE_RESOURCE, k1)"
  using assms by (auto simp: msgtask_destroy_def msgtask_send_def msg_q_snd_def msg_q_unblock_def
      cond_broadcast_def split: if_splits)

lemma msgtask_send_after_destroy_leaks_witness:
  "msgtask_send malloc (3 :: nat)
     \<lparr>mQ = \<lparr>msg_list = Some empty_list_state, unblocked = True, cond_blocked = [], cond_woken = []\<rparr>, mt_processed = []\<rparr> =
   Some (eMSG_Q_UNAVAILABLE_RESOURCE,
     \<lparr>mQ = \<lparr>msg_list = Some empty_list_state, unblocked = True, cond_blocked = [], cond_woken = []\<rparr>, mt_processed = []\<rparr>)"
  by (rule msgtask_send_after_destroy_leaks
      [of "\<lparr>mQ = \<lparr>msg_list = Some empty_list_state, unblocked = False, cond_blocked = [], cond_woken = []\<rparr>, mt_processed = []\<rparr>"])
    (simp add: msgtask_destroy_def msg_q_unblock_def cond_broadcast_def)

end
