(* ===== verification/Loc_Heap.thy ===== *)
theory Loc_Heap
  imports Loc_Prelude "HOL-Library.Multiset"
begin

text \<open>
  \<open>gps/utils/LocHeap.cpp\<close>: the heap of rankable objects that holds the running timers.

  \<^item> \<open>heap_node\<close> is a tree of \<open>LocHeapNode\<close>s, \<open>Null\<close> the NULL pointer. The container nodes are
    identified with their position, the data pointers \<open>mData\<close> are values of a type \<open>'a\<close> whose
    equality is the equality of addresses. The virtual method \<open>ranks\<close> is a parameter \<open>rank\<close>.
  \<^item> The locale \<open>ranking\<close> holds the laws a client's \<open>ranks\<close> has to keep on the objects it pushes:
    outranking is a strict weak order. Under it every operation keeps the heap order and the
    stored sizes, and the heap behaves as a priority queue with removal by address.
  \<^item> \<open>heap_test_main\<close> is the test program at the end of the file.
\<close>

section \<open>Nodes\<close>

datatype 'a heap_node =
    Null
  | HeapNode (mSize: int) (mLeft: "'a heap_node") (mRight: "'a heap_node") (mData: 'a)

fun set_data :: "'a \<Rightarrow> 'a heap_node \<Rightarrow> 'a heap_node" where
  "set_data d Null = Null"
| "set_data d (HeapNode s l r x) = HeapNode s l r d"

lemma size_set_data [simp]: "size (set_data d t) = size t"
  by (cases t) auto

type_synonym 'a rank_fun = "'a \<Rightarrow> 'a \<Rightarrow> int"

definition outRanks :: "'a rank_fun \<Rightarrow> 'a \<Rightarrow> 'a \<Rightarrow> bool" where
  "outRanks rank x y \<longleftrightarrow> rank x y > 0"

text \<open>\<open>LocHeapNode::push\<close> of a new single node with data \<open>d\<close>; a NULL tree is never pushed to.\<close>

fun node_push :: "'a rank_fun \<Rightarrow> 'a heap_node \<Rightarrow> 'a \<Rightarrow> 'a heap_node" where
  "node_push rank Null d = HeapNode 1 Null Null d"
| "node_push rank (HeapNode s l r x) d =
     (let (x', d') = (if outRanks rank d x then (d, x) else (x, d))
      in if l = Null then HeapNode (s + 1) (HeapNode 1 Null Null d') r x'
         else if r = Null then HeapNode (s + 1) l (HeapNode 1 Null Null d') x'
         else if mSize l \<le> mSize r then HeapNode (s + 1) (node_push rank l d') r x'
         else HeapNode (s + 1) l (node_push rank r d') x')"

text \<open>
  \<open>LocHeapNode::pop\<close>: the data of the top is swapped down to a leaf, which is detached. The
  result is the data of the detached node and the tree that is left; \<open>None\<close> is the dereference
  of a NULL top.
\<close>

function node_pop :: "'a rank_fun \<Rightarrow> 'a heap_node \<Rightarrow> ('a \<times> 'a heap_node) option" where
  "node_pop rank Null = None"
| "node_pop rank (HeapNode s l r x) =
     (if l \<noteq> Null \<or> r \<noteq> Null then
        (if (if l = Null then False
             else if r = Null then True
             else outRanks rank (mData l) (mData r))
         then do { (p, l') \<leftarrow> node_pop rank (set_data x l);
                   Some (p, HeapNode (s - 1) l' r (mData l)) }
         else do { (p, r') \<leftarrow> node_pop rank (set_data x r);
                   Some (p, HeapNode (s - 1) l r' (mData r)) })
      else Some (x, Null))"
  by pat_completeness auto
termination by (relation "measure (\<lambda>(_, t). size t)") auto

fun node_remove :: "'a rank_fun \<Rightarrow> 'a heap_node \<Rightarrow> 'a \<Rightarrow> ('a option \<times> 'a heap_node) option" where
  "node_remove rank Null d = None"
| "node_remove rank (HeapNode s l r x) d =
     (if d = x then do { (p, t) \<leftarrow> node_pop rank (HeapNode s l r x); Some (Some p, t) }
      else if \<not> outRanks rank d x then
        do {
          (p, l') \<leftarrow> (if l \<noteq> Null then node_remove rank l d else Some (None, l));
          (p', r') \<leftarrow> (if p = None \<and> r \<noteq> Null then node_remove rank r d else Some (p, r));
          Some (p', HeapNode (if p' \<noteq> None then s - 1 else s) l' r' x)
        }
      else Some (None, HeapNode s l r x))"

fun checkNodes :: "'a rank_fun \<Rightarrow> 'a heap_node \<Rightarrow> bool" where
  "checkNodes rank Null \<longleftrightarrow> False"
| "checkNodes rank (HeapNode s l r x) \<longleftrightarrow>
     (if l \<noteq> Null \<and> (outRanks rank (mData l) x \<or> \<not> checkNodes rank l) then False
      else
        (let totalSize = (if l \<noteq> Null then s - mSize l else s)
         in if r \<noteq> Null \<and> (outRanks rank (mData r) x \<or> \<not> checkNodes rank r) then False
            else
              (let totalSize = (if r \<noteq> Null then totalSize - mSize r else totalSize)
               in totalSize = 1)))"

section \<open>LocHeap\<close>

definition heap_push :: "'a rank_fun \<Rightarrow> 'a heap_node \<Rightarrow> 'a \<Rightarrow> 'a heap_node" where
  "heap_push rank mTree d =
     (let heapNode = HeapNode 1 Null Null d
      in if mTree = Null then heapNode else node_push rank mTree d)"

definition heap_peek :: "'a heap_node \<Rightarrow> 'a option" where
  "heap_peek mTree = (case mTree of Null \<Rightarrow> None | HeapNode s l r x \<Rightarrow> Some x)"

definition heap_pop :: "'a rank_fun \<Rightarrow> 'a heap_node \<Rightarrow> ('a option \<times> 'a heap_node) option" where
  "heap_pop rank mTree =
     (if mTree = Null then Some (None, mTree)
      else do { (p, t) \<leftarrow> node_pop rank mTree; Some (Some p, t) })"

definition heap_remove ::
  "'a rank_fun \<Rightarrow> 'a heap_node \<Rightarrow> 'a \<Rightarrow> ('a option \<times> 'a heap_node) option" where
  "heap_remove rank mTree d =
     (if mTree = Null then Some (None, mTree) else node_remove rank mTree d)"

definition checkTree :: "'a rank_fun \<Rightarrow> 'a heap_node \<Rightarrow> bool" where
  "checkTree rank mTree \<longleftrightarrow> mTree = Null \<or> checkNodes rank mTree"

definition getTreeSize :: "'a heap_node \<Rightarrow> int" where
  "getTreeSize mTree = (if mTree = Null then 0 else mSize mTree)"

section \<open>Contents and invariant\<close>

fun node_mset :: "'a heap_node \<Rightarrow> 'a multiset" where
  "node_mset Null = {#}"
| "node_mset (HeapNode s l r x) = add_mset x (node_mset l + node_mset r)"

definition count_nodes :: "'a heap_node \<Rightarrow> int" where
  "count_nodes t = int (size (node_mset t))"

lemma count_nodes_simps [simp]:
  "count_nodes Null = 0"
  "count_nodes (HeapNode s l r x) = 1 + count_nodes l + count_nodes r"
  by (auto simp: count_nodes_def)

text \<open>Heap order and the true sizes, at every node.\<close>

fun heap_ok :: "'a rank_fun \<Rightarrow> 'a heap_node \<Rightarrow> bool" where
  "heap_ok rank Null \<longleftrightarrow> True"
| "heap_ok rank (HeapNode s l r x) \<longleftrightarrow>
     s = 1 + count_nodes l + count_nodes r \<and>
     (\<forall>y \<in># node_mset l + node_mset r. \<not> outRanks rank y x) \<and>
     heap_ok rank l \<and> heap_ok rank r"

lemma heap_ok_size: "heap_ok rank t \<Longrightarrow> getTreeSize t = count_nodes t"
  by (cases t) (auto simp: getTreeSize_def)

lemma count_nodes_push [simp]: "count_nodes (node_push rank t d) = count_nodes t + 1"
  by (induction rank t d rule: node_push.induct) (auto simp: Let_def)

lemma mset_push [simp]: "node_mset (node_push rank t d) = add_mset d (node_mset t)"
  by (induction rank t d rule: node_push.induct) (auto simp: Let_def)

section \<open>The laws of ranks\<close>

locale ranking =
  fixes rank :: "'a rank_fun" and dom_objs :: "'a set"
  assumes outRanks_asym:
      "x \<in> dom_objs \<Longrightarrow> y \<in> dom_objs \<Longrightarrow> outRanks rank x y \<Longrightarrow> \<not> outRanks rank y x"
    and not_outRanks_trans:
      "x \<in> dom_objs \<Longrightarrow> y \<in> dom_objs \<Longrightarrow> z \<in> dom_objs \<Longrightarrow>
         \<not> outRanks rank x y \<Longrightarrow> \<not> outRanks rank y z \<Longrightarrow> \<not> outRanks rank x z"
begin

lemma heap_ok_push:
  "heap_ok rank t \<Longrightarrow> set_mset (node_mset t) \<subseteq> dom_objs \<Longrightarrow> d \<in> dom_objs \<Longrightarrow>
     heap_ok rank (node_push rank t d)"
proof (induction t arbitrary: d)
  case Null
  then show ?case by simp
next
  case (HeapNode s l r x)
  show ?case
  proof (cases "outRanks rank d x")
    case True
    then have "\<not> outRanks rank y d" if "y = x \<or> y \<in># node_mset l \<or> y \<in># node_mset r" for y
      using that HeapNode.prems outRanks_asym [of d x] not_outRanks_trans [of y x d] by auto
    with True HeapNode show ?thesis by (auto simp: Let_def)
  next
    case False
    with HeapNode show ?thesis by (auto simp: Let_def)
  qed
qed

lemma root_max:
  "heap_ok rank t \<Longrightarrow> t \<noteq> Null \<Longrightarrow> set_mset (node_mset t) \<subseteq> dom_objs \<Longrightarrow>
     mData t \<in># node_mset t \<and> (\<forall>y \<in># node_mset t. \<not> outRanks rank y (mData t))"
  using outRanks_asym [of "mData t" "mData t"] by (cases t) auto

text \<open>Popping does not rely on the rank of the data at the top, which is swapped out.\<close>

lemma node_pop_ok:
  "t \<noteq> Null \<Longrightarrow> mSize t = count_nodes t \<Longrightarrow> heap_ok rank (mLeft t) \<Longrightarrow> heap_ok rank (mRight t) \<Longrightarrow>
   set_mset (node_mset (mLeft t)) \<subseteq> dom_objs \<Longrightarrow> set_mset (node_mset (mRight t)) \<subseteq> dom_objs \<Longrightarrow>
     \<exists>t'. node_pop rank t = Some (mData t, t') \<and>
       node_mset t' = node_mset (mLeft t) + node_mset (mRight t) \<and> heap_ok rank t'"
proof (induction "size t" arbitrary: t rule: less_induct)
  case less
  then obtain s l r x where t: "t = HeapNode s l r x" by (cases t) auto
  have ok: "heap_ok rank l" "heap_ok rank r" "s = 1 + count_nodes l + count_nodes r"
    "set_mset (node_mset l) \<subseteq> dom_objs" "set_mset (node_mset r) \<subseteq> dom_objs"
    using less.prems by (auto simp: t)
  have sel: "mData t = x" "mLeft t = l" "mRight t = r" by (simp_all add: t)
  define left where
    "left \<longleftrightarrow> (if l = Null then False else if r = Null then True else outRanks rank (mData l) (mData r))"
  show ?case
  proof (cases "l = Null \<and> r = Null")
    case True
    then show ?thesis by (simp add: t)
  next
    case ne: False
    have pop: "node_pop rank t =
      (if left
       then do { (p, l') \<leftarrow> node_pop rank (set_data x l); Some (p, HeapNode (s - 1) l' r (mData l)) }
       else do { (p, r') \<leftarrow> node_pop rank (set_data x r); Some (p, HeapNode (s - 1) l r' (mData r)) })"
      using ne by (simp add: t left_def)
    show ?thesis
    proof (cases left)
      case True
      then obtain sl ll lr y where l: "l = HeapNode sl ll lr y"
        by (cases l) (auto simp: left_def split: if_splits)
      have "\<exists>l'. node_pop rank (set_data x l) = Some (x, l') \<and>
          node_mset l' = node_mset ll + node_mset lr \<and> heap_ok rank l'"
        using less.hyps [of "set_data x l"] ok by (auto simp: t l)
      then obtain l' where l': "node_pop rank (set_data x l) = Some (x, l')"
        "node_mset l' = node_mset ll + node_mset lr" "heap_ok rank l'" by blast
      have "\<not> outRanks rank z y" if "z \<in># node_mset r" for z
      proof -
        have r: "r \<noteq> Null" using that by auto
        with True have "outRanks rank y (mData r)" by (simp add: left_def l)
        with r ok root_max [OF ok(2) r] that show ?thesis
          using outRanks_asym [of y "mData r"] not_outRanks_trans [of z "mData r" y] by (auto simp: l)
      qed
      with l'(2,3) ok have "heap_ok rank (HeapNode (s - 1) l' r (mData l))"
        by (auto simp: l count_nodes_def)
      moreover have "node_mset (HeapNode (s - 1) l' r (mData l)) = node_mset l + node_mset r"
        using l'(2) by (simp add: l)
      moreover have "node_pop rank t = Some (x, HeapNode (s - 1) l' r (mData l))"
        using pop True l'(1) by simp
      ultimately show ?thesis unfolding sel by blast
    next
      case False
      with ne obtain sr rl rr y where r: "r = HeapNode sr rl rr y"
        by (cases r) (auto simp: left_def split: if_splits)
      have "\<exists>r'. node_pop rank (set_data x r) = Some (x, r') \<and>
          node_mset r' = node_mset rl + node_mset rr \<and> heap_ok rank r'"
        using less.hyps [of "set_data x r"] ok by (auto simp: t r)
      then obtain r' where r': "node_pop rank (set_data x r) = Some (x, r')"
        "node_mset r' = node_mset rl + node_mset rr" "heap_ok rank r'" by blast
      have "\<not> outRanks rank z y" if "z \<in># node_mset l" for z
      proof -
        have l: "l \<noteq> Null" using that by auto
        with False have "\<not> outRanks rank (mData l) y" by (simp add: left_def r)
        with l ok root_max [OF ok(1) l] that show ?thesis
          using not_outRanks_trans [of z "mData l" y] by (auto simp: r)
      qed
      with r'(2,3) ok have "heap_ok rank (HeapNode (s - 1) l r' (mData r))"
        by (auto simp: r count_nodes_def)
      moreover have "node_mset (HeapNode (s - 1) l r' (mData r)) = node_mset l + node_mset r"
        using r'(2) by (simp add: r)
      moreover have "node_pop rank t = Some (x, HeapNode (s - 1) l r' (mData r))"
        using pop False r'(1) by simp
      ultimately show ?thesis unfolding sel by blast
    qed
  qed
qed

lemma heap_ok_pop:
  assumes "heap_ok rank t" "t \<noteq> Null" "set_mset (node_mset t) \<subseteq> dom_objs"
  shows "\<exists>t'. node_pop rank t = Some (mData t, t') \<and> node_mset t = add_mset (mData t) (node_mset t') \<and>
    heap_ok rank t'"
  using node_pop_ok [of t] assms by (cases t) auto

lemma heap_ok_node_remove:
  "heap_ok rank t \<Longrightarrow> t \<noteq> Null \<Longrightarrow> set_mset (node_mset t) \<subseteq> dom_objs \<Longrightarrow> d \<in> dom_objs \<Longrightarrow>
     (if d \<in># node_mset t
      then \<exists>t'. node_remove rank t d = Some (Some d, t') \<and> node_mset t = add_mset d (node_mset t') \<and>
             heap_ok rank t'
      else node_remove rank t d = Some (None, t))"
proof (induction t)
  case (HeapNode s l r x)
  note ok = HeapNode.prems
  show ?case
  proof (cases "d = x")
    case True
    with heap_ok_pop [OF ok(1-3)] show ?thesis by auto
  next
    case ne: False
    show ?thesis
    proof (cases "outRanks rank d x")
      case True
      with ne ok show ?thesis by auto
    next
      case nr: False
      show ?thesis
      proof (cases "d \<in># node_mset l")
        case True
        with HeapNode.IH(1) ok obtain l' where
          "node_remove rank l d = Some (Some d, l')" "node_mset l = add_mset d (node_mset l')" "heap_ok rank l'"
          by fastforce
        with True ne nr ok show ?thesis by (auto simp: count_nodes_def)
      next
        case nl: False
        then have left: "(if l \<noteq> Null then node_remove rank l d else Some (None, l)) = Some (None, l)"
          using HeapNode.IH(1) ok by auto
        show ?thesis
        proof (cases "d \<in># node_mset r")
          case True
          with HeapNode.IH(2) ok obtain r' where
            "node_remove rank r d = Some (Some d, r')" "node_mset r = add_mset d (node_mset r')" "heap_ok rank r'"
            by fastforce
          with True left nl ne nr ok show ?thesis by (auto simp: count_nodes_def)
        next
          case False
          then have "(if r \<noteq> Null then node_remove rank r d else Some (None, r)) = Some (None, r)"
            using HeapNode.IH(2) ok by auto
          with False left nl ne nr ok show ?thesis by auto
        qed
      qed
    qed
  qed
qed simp

lemma checkNodes_iff:
  "set_mset (node_mset t) \<subseteq> dom_objs \<Longrightarrow> t \<noteq> Null \<Longrightarrow> checkNodes rank t \<longleftrightarrow> heap_ok rank t"
proof (induction t)
  case (HeapNode s l r x)
  have sub: "set_mset (node_mset l) \<subseteq> dom_objs" "set_mset (node_mset r) \<subseteq> dom_objs" "x \<in> dom_objs"
    using HeapNode.prems by auto
  have root: "(\<forall>y \<in># node_mset u. \<not> outRanks rank y x) \<longleftrightarrow> \<not> outRanks rank (mData u) x"
    if "heap_ok rank u" "u \<noteq> Null" "set_mset (node_mset u) \<subseteq> dom_objs" for u
    using root_max [OF that] that sub(3) not_outRanks_trans [of _ "mData u" x] by blast
  have size: "mSize u = count_nodes u" if "heap_ok rank u" "u \<noteq> Null" for u
    using that by (cases u) auto
  show ?case
    using HeapNode.IH sub root [of l] root [of r] size [of l] size [of r]
    by (cases "l = Null"; cases "r = Null") (auto simp: Let_def)
qed simp

end

section \<open>Runs of operations\<close>

datatype 'a heap_op = HPush 'a | HPop | HPeek | HRemove 'a

fun op_objs :: "'a heap_op \<Rightarrow> 'a set" where
  "op_objs (HPush d) = {d}"
| "op_objs (HRemove d) = {d}"
| "op_objs HPop = {}"
| "op_objs HPeek = {}"

fun heap_exec :: "'a rank_fun \<Rightarrow> 'a heap_op \<Rightarrow> 'a heap_node \<Rightarrow> ('a option \<times> 'a heap_node) option" where
  "heap_exec rank (HPush d) t = Some (None, heap_push rank t d)"
| "heap_exec rank HPop t = heap_pop rank t"
| "heap_exec rank HPeek t = Some (heap_peek t, t)"
| "heap_exec rank (HRemove d) t = heap_remove rank t d"

fun heap_exec_run ::
  "'a rank_fun \<Rightarrow> 'a heap_op list \<Rightarrow> 'a heap_node \<Rightarrow> ('a option list \<times> 'a heap_node) option" where
  "heap_exec_run rank [] t = Some ([], t)"
| "heap_exec_run rank (op # ops) t =
     do { (out, t') \<leftarrow> heap_exec rank op t;
          (outs, t'') \<leftarrow> heap_exec_run rank ops t';
          Some (out # outs, t'') }"

text \<open>The specification: a priority queue on the multiset of the objects held.\<close>

definition highest :: "'a rank_fun \<Rightarrow> 'a multiset \<Rightarrow> 'a option \<Rightarrow> bool" where
  "highest rank M out \<longleftrightarrow>
     (case out of None \<Rightarrow> M = {#} | Some x \<Rightarrow> x \<in># M \<and> (\<forall>y \<in># M. \<not> outRanks rank y x))"

fun pq_spec :: "'a rank_fun \<Rightarrow> 'a heap_op \<Rightarrow> 'a multiset \<Rightarrow> 'a option \<Rightarrow> 'a multiset \<Rightarrow> bool" where
  "pq_spec rank (HPush d) M out M' \<longleftrightarrow> out = None \<and> M' = add_mset d M"
| "pq_spec rank HPop M out M' \<longleftrightarrow> highest rank M out \<and> M' = M - mset_set (set_option out)"
| "pq_spec rank HPeek M out M' \<longleftrightarrow> highest rank M out \<and> M' = M"
| "pq_spec rank (HRemove d) M out M' \<longleftrightarrow>
     (if d \<in># M then out = Some d \<and> M' = M - {#d#} else out = None \<and> M' = M)"

fun pq_spec_run ::
  "'a rank_fun \<Rightarrow> 'a heap_op list \<Rightarrow> 'a multiset \<Rightarrow> 'a option list \<Rightarrow> 'a multiset \<Rightarrow> bool" where
  "pq_spec_run rank [] M [] M' \<longleftrightarrow> M' = M"
| "pq_spec_run rank (op # ops) M (out # outs) M' \<longleftrightarrow>
     (\<exists>N. pq_spec rank op M out N \<and> pq_spec_run rank ops N outs M')"
| "pq_spec_run rank _ _ _ _ \<longleftrightarrow> False"

definition heap_inv :: "'a rank_fun \<Rightarrow> 'a set \<Rightarrow> 'a heap_node \<Rightarrow> bool" where
  "heap_inv rank C t \<longleftrightarrow> heap_ok rank t \<and> set_mset (node_mset t) \<subseteq> C"

lemma heap_inv_Null: "heap_inv rank C Null"
  by (simp add: heap_inv_def)

text \<open>Popping until the heap is empty.\<close>

lemma size_node_pop: "node_pop rank t = Some (p, t') \<Longrightarrow> size t = Suc (size t')"
  by (induction rank t arbitrary: p t' rule: node_pop.induct) (auto split: if_splits)

function heap_drain :: "'a rank_fun \<Rightarrow> 'a heap_node \<Rightarrow> 'a list" where
  "heap_drain rank t =
     (case heap_pop rank t of Some (Some x, t') \<Rightarrow> x # heap_drain rank t' | _ \<Rightarrow> [])"
  by pat_completeness auto
termination
  by (relation "measure (\<lambda>(_, t). size t)")
    (auto simp: heap_pop_def dest!: size_node_pop split: if_splits)

declare heap_drain.simps [simp del]

context ranking
begin

lemma heap_inv_push: "heap_inv rank dom_objs t \<Longrightarrow> d \<in> dom_objs \<Longrightarrow> heap_inv rank dom_objs (heap_push rank t d)"
  using heap_ok_push [of t d] by (auto simp: heap_inv_def heap_push_def)

lemma mset_heap_push: "node_mset (heap_push rank t d) = add_mset d (node_mset t)"
  by (simp add: heap_push_def)

lemma heap_pop_inv:
  assumes "heap_inv rank dom_objs t"
  shows "\<exists>out t'. heap_pop rank t = Some (out, t') \<and> heap_inv rank dom_objs t' \<and>
    highest rank (node_mset t) out \<and> out = heap_peek t \<and>
    node_mset t = node_mset t' + mset_set (set_option out)"
proof (cases "t = Null")
  case True
  then show ?thesis by (simp add: heap_pop_def highest_def heap_inv_def heap_peek_def)
next
  case False
  with assms obtain t' where t': "node_pop rank t = Some (mData t, t')"
    "node_mset t = add_mset (mData t) (node_mset t')" "heap_ok rank t'"
    using heap_ok_pop [of t] by (auto simp: heap_inv_def)
  have "heap_peek t = Some (mData t)" using False by (cases t) (auto simp: heap_peek_def)
  with t' False root_max [of t] assms show ?thesis
    by (auto simp: heap_pop_def highest_def heap_inv_def)
qed

lemma heap_peek_highest: "heap_inv rank dom_objs t \<Longrightarrow> highest rank (node_mset t) (heap_peek t)"
  using heap_pop_inv by blast

lemma heap_remove_inv:
  assumes "heap_inv rank dom_objs t" "d \<in> dom_objs"
  shows "\<exists>t'. heap_remove rank t d = Some (if d \<in># node_mset t then Some d else None, t') \<and>
    heap_inv rank dom_objs t' \<and> node_mset t' = node_mset t - {#d#}"
proof (cases "t = Null")
  case True
  then show ?thesis by (simp add: heap_remove_def heap_inv_def)
next
  case False
  have "if d \<in># node_mset t
      then \<exists>t'. node_remove rank t d = Some (Some d, t') \<and> node_mset t = add_mset d (node_mset t') \<and> heap_ok rank t'
      else node_remove rank t d = Some (None, t)"
    using heap_ok_node_remove [of t d] assms False by (simp add: heap_inv_def)
  then show ?thesis using assms False
    by (auto simp: heap_remove_def heap_inv_def split: if_splits)
qed

lemma heap_exec_pq:
  assumes "heap_inv rank dom_objs t" "op_objs op \<subseteq> dom_objs"
  shows "\<exists>out t'. heap_exec rank op t = Some (out, t') \<and> heap_inv rank dom_objs t' \<and>
    pq_spec rank op (node_mset t) out (node_mset t')"
proof (cases op)
  case (HPush d)
  with assms heap_inv_push [of t d] show ?thesis by (auto simp: mset_heap_push)
next
  case HPop
  with heap_pop_inv [OF assms(1)] show ?thesis by auto
next
  case HPeek
  with heap_peek_highest [OF assms(1)] assms show ?thesis by auto
next
  case (HRemove d)
  with assms heap_remove_inv [of t d] show ?thesis by (cases "d \<in># node_mset t") auto
qed

lemma heap_exec_run_pq:
  "heap_inv rank dom_objs t \<Longrightarrow> \<Union> (op_objs ` set ops) \<subseteq> dom_objs \<Longrightarrow>
     \<exists>outs t'. heap_exec_run rank ops t = Some (outs, t') \<and> heap_inv rank dom_objs t' \<and>
       pq_spec_run rank ops (node_mset t) outs (node_mset t')"
proof (induction ops arbitrary: t)
  case Nil
  then show ?case by auto
next
  case (Cons op ops)
  then obtain out t1 where "heap_exec rank op t = Some (out, t1)" "heap_inv rank dom_objs t1"
    "pq_spec rank op (node_mset t) out (node_mset t1)" using heap_exec_pq [of t op] by auto
  moreover from Cons.IH [of t1] Cons.prems calculation(2) obtain outs t' where
    "heap_exec_run rank ops t1 = Some (outs, t')" "heap_inv rank dom_objs t'"
    "pq_spec_run rank ops (node_mset t1) outs (node_mset t')" by auto
  ultimately show ?case by auto
qed

lemma checkTree_inv: "heap_inv rank dom_objs t \<Longrightarrow> checkTree rank t"
  using checkNodes_iff [of t] by (auto simp: checkTree_def heap_inv_def)

lemma getTreeSize_inv: "heap_inv rank dom_objs t \<Longrightarrow> getTreeSize t = int (size (node_mset t))"
  using heap_ok_size [of rank t] by (simp add: heap_inv_def count_nodes_def)

lemma heap_drain_sorted:
  "heap_inv rank dom_objs t \<Longrightarrow> mset (heap_drain rank t) = node_mset t \<and>
     sorted_wrt (\<lambda>x y. \<not> outRanks rank y x) (heap_drain rank t)"
proof (induction "size (node_mset t)" arbitrary: t rule: less_induct)
  case less
  obtain out t' where t': "heap_pop rank t = Some (out, t')" "heap_inv rank dom_objs t'"
    "highest rank (node_mset t) out" "node_mset t = node_mset t' + mset_set (set_option out)"
    using heap_pop_inv [OF less.prems] by blast
  show ?case
  proof (cases out)
    case None
    with t' show ?thesis by (subst (1 2) heap_drain.simps) (auto simp: highest_def)
  next
    case (Some x)
    with t' have "size (node_mset t') < size (node_mset t)" by simp
    from less.hyps [OF this t'(2)] t' Some show ?thesis
      by (subst (1 2) heap_drain.simps) (auto simp: highest_def simp flip: set_mset_mset)
  qed
qed

end

section \<open>The test program\<close>

text \<open>
  \<open>LocHeapDebugData\<close> is an address with an \<open>mID\<close>; larger ids rank lower. \<open>rand () >> 1\<close> is
  between 0 and \<open>2 ^ 30\<close>, so the difference of two ids does not overflow.
\<close>

type_synonym debug_data = "nat \<times> int"

definition debug_ranks :: "debug_data \<Rightarrow> debug_data \<Rightarrow> int" where
  "debug_ranks self testData = c_int32 (snd testData - snd self)"

definition debug_objs :: "debug_data set" where
  "debug_objs = {d. 0 \<le> snd d \<and> snd d < 2 ^ 31}"

interpretation heap_debug: ranking debug_ranks debug_objs
  by unfold_locales (auto simp: outRanks_def debug_ranks_def debug_objs_def c_int32_id)

datatype test_line =
    CheckFailedBefore int
  | OpLine bool int int
  | SizeMismatch
  | CheckFailedAtEnd
  | Success

record test_state =
  heap :: "debug_data heap_node"
  treeSize :: int
  printed :: "test_line list"

text \<open>
  One iteration: \<open>i\<close> is the loop counter, \<open>r\<close> the random number; the address of the object
  created in iteration \<open>i\<close> is \<open>i\<close>. The Boolean result says that the loop breaks. \<open>None\<close> is the
  division by zero of \<open>i % checks\<close>.
\<close>

definition heap_test_step :: "int \<Rightarrow> nat \<Rightarrow> int \<Rightarrow> test_state \<Rightarrow> (bool \<times> test_state) option" where
  "heap_test_step checks i r st =
     (if checks = 0 then None
      else
        (let st1 = (if int i mod checks = 0 \<and> \<not> checkTree debug_ranks (heap st)
                    then st\<lparr>printed := printed st @ [CheckFailedBefore (int i)]\<rparr> else st)
         in do {
              st2 \<leftarrow> (if odd r
                      then Some (st1\<lparr>heap := heap_push debug_ranks (heap st1) (i, r div 2),
                                     treeSize := treeSize st1 + 1\<rparr>)
                      else do {
                        (_, h) \<leftarrow> heap_pop debug_ranks (heap st1);
                        Some (st1\<lparr>heap := h,
                                  treeSize := (if treeSize st1 \<noteq> 0 then treeSize st1 - 1
                                               else treeSize st1)\<rparr>) });
              let st3 = st2\<lparr>printed := printed st2 @ [OpLine (odd r) (treeSize st2) (getTreeSize (heap st2))]\<rparr>;
              Some (if treeSize st3 \<noteq> getTreeSize (heap st3)
                    then (True, st3\<lparr>printed := printed st3 @ [SizeMismatch]\<rparr>)
                    else (False, st3))
            }))"

fun heap_test_loop :: "int \<Rightarrow> nat \<Rightarrow> int list \<Rightarrow> test_state \<Rightarrow> test_state option" where
  "heap_test_loop checks i [] st = Some st"
| "heap_test_loop checks i (r # rs) st =
     do { (brk, st') \<leftarrow> heap_test_step checks i r st;
          if brk then Some st' else heap_test_loop checks (Suc i) rs st' }"

text \<open>\<open>main\<close> with \<open>tries = length rs\<close>: its output and the objects deleted at the end.\<close>

definition heap_test_main :: "int list \<Rightarrow> (test_line list \<times> debug_data list) option" where
  "heap_test_main rs =
     do {
       let tries = int (length rs);
       let checks = tries div 8;
       st \<leftarrow> heap_test_loop checks 0 rs \<lparr>heap = Null, treeSize = 0, printed = []\<rparr>;
       Some (printed st @ [if \<not> checkTree debug_ranks (heap st) then CheckFailedAtEnd else Success],
             heap_drain debug_ranks (heap st))
     }"

definition failure_line :: "test_line \<Rightarrow> bool" where
  "failure_line l \<longleftrightarrow> (case l of OpLine _ _ _ \<Rightarrow> False | Success \<Rightarrow> False | _ \<Rightarrow> True)"

definition test_inv :: "test_state \<Rightarrow> bool" where
  "test_inv st \<longleftrightarrow>
     heap_inv debug_ranks debug_objs (heap st) \<and> treeSize st = getTreeSize (heap st) \<and>
     \<not> list_ex failure_line (printed st)"

lemma heap_test_step_inv:
  assumes inv: "test_inv st" and r: "0 \<le> r" "r < 2 ^ 31" and c: "checks \<noteq> 0"
  shows "\<exists>st'. heap_test_step checks i r st = Some (False, st') \<and> test_inv st'"
proof (cases "odd r")
  case True
  let ?d = "(i, r div 2)"
  have "?d \<in> debug_objs" using r by (auto simp: debug_objs_def)
  with inv have "heap_inv debug_ranks debug_objs (heap_push debug_ranks (heap st) ?d)"
    by (simp add: test_inv_def heap_debug.heap_inv_push)
  with True inv c show ?thesis
    by (auto simp: heap_test_step_def test_inv_def heap_debug.checkTree_inv Let_def
        heap_debug.getTreeSize_inv heap_debug.mset_heap_push failure_line_def)
next
  case False
  from inv obtain out h where h: "heap_pop debug_ranks (heap st) = Some (out, h)"
    "heap_inv debug_ranks debug_objs h" "highest debug_ranks (node_mset (heap st)) out"
    "node_mset (heap st) = node_mset h + mset_set (set_option out)"
    using heap_debug.heap_pop_inv [of "heap st"] by (auto simp: test_inv_def)
  with False inv c show ?thesis
    by (cases out)
      (auto simp: heap_test_step_def test_inv_def heap_debug.checkTree_inv Let_def
        heap_debug.getTreeSize_inv failure_line_def highest_def)
qed

lemma heap_test_loop_inv:
  "test_inv st \<Longrightarrow> \<forall>r \<in> set rs. 0 \<le> r \<and> r < 2 ^ 31 \<Longrightarrow> checks \<noteq> 0 \<Longrightarrow>
     \<exists>st'. heap_test_loop checks i rs st = Some st' \<and> test_inv st'"
proof (induction rs arbitrary: i st)
  case (Cons r rs)
  then obtain st1 where "heap_test_step checks i r st = Some (False, st1)" "test_inv st1"
    using heap_test_step_inv [of st r checks i] by auto
  with Cons.IH [of st1 "Suc i"] Cons.prems show ?case by auto
qed auto

section \<open>Properties\<close>

text \<open>
  C13: under the ranking laws every sequence of pushes, pops, peeks and removals by address, from
  the empty heap, behaves as a priority queue: a pop or peek yields an object that no held object
  outranks (NULL only when the heap is empty), a removal finds its object exactly when it is held
  and takes out nothing else, and at the end the tree check passes and the stored size is the
  number of objects.
\<close>

theorem loc_heap_is_priority_queue:
  assumes "ranking rank C" and "\<Union> (op_objs ` set ops) \<subseteq> C"
  shows "\<exists>outs t. heap_exec_run rank ops Null = Some (outs, t) \<and>
    pq_spec_run rank ops {#} outs (node_mset t) \<and>
    checkTree rank t \<and> getTreeSize t = int (size (node_mset t))"
proof -
  obtain outs t where t: "heap_exec_run rank ops Null = Some (outs, t)" "heap_inv rank C t"
    "pq_spec_run rank ops (node_mset Null) outs (node_mset t)"
    using ranking.heap_exec_run_pq [OF assms(1) heap_inv_Null assms(2)] by blast
  then show ?thesis
    using ranking.checkTree_inv [OF assms(1) t(2)] ranking.getTreeSize_inv [OF assms(1) t(2)] by auto
qed

lemma loc_heap_is_priority_queue_witness:
  "\<exists>outs t. heap_exec_run debug_ranks [HPush (1, 5), HPush (2, 3), HRemove (1, 5), HPop] Null = Some (outs, t) \<and>
    pq_spec_run debug_ranks [HPush (1, 5), HPush (2, 3), HRemove (1, 5), HPop] {#} outs (node_mset t) \<and>
    checkTree debug_ranks t \<and> getTreeSize t = int (size (node_mset t))"
  by (rule loc_heap_is_priority_queue [OF heap_debug.ranking_axioms]) (simp add: debug_objs_def)

text \<open>
  the run time check \<open>checkNodes\<close> is exact: on a tree of rankable objects it answers true if
  and only if at every node the stored size is the size of the subtree and no object below the
  node outranks the node's object.
\<close>

theorem checkTree_exact:
  assumes "ranking rank C" and "set_mset (node_mset t) \<subseteq> C"
  shows "checkTree rank t \<longleftrightarrow> heap_ok rank t"
  using ranking.checkNodes_iff [OF assms] by (cases "t = Null") (auto simp: checkTree_def)

lemma checkTree_exact_witness:
  "checkTree debug_ranks (HeapNode 2 (HeapNode 1 Null Null (1, 2)) Null (3, 9)) =
     heap_ok debug_ranks (HeapNode 2 (HeapNode 1 Null Null (1, 2)) Null (3, 9)) \<and>
   \<not> checkTree debug_ranks (HeapNode 2 (HeapNode 1 Null Null (1, 2)) Null (3, 9))"
  using checkTree_exact [OF heap_debug.ranking_axioms,
      of "HeapNode 2 (HeapNode 1 Null Null (1, 2)) Null (3, 9)"]
  by (simp add: debug_objs_def checkTree_def outRanks_def debug_ranks_def c_int32_id)

text \<open>
  popping a heap until it is empty ends and delivers exactly the objects pushed, none
  followed by one that outranks it.
\<close>

theorem heap_pops_in_rank_order:
  assumes "ranking rank C" and "set ds \<subseteq> C"
  shows "mset (heap_drain rank (fold (\<lambda>d t. heap_push rank t d) ds Null)) = mset ds \<and>
    sorted_wrt (\<lambda>x y. \<not> outRanks rank y x) (heap_drain rank (fold (\<lambda>d t. heap_push rank t d) ds Null))"
proof -
  have "heap_inv rank C t \<Longrightarrow> heap_inv rank C (fold (\<lambda>d t. heap_push rank t d) ds t) \<and>
      node_mset (fold (\<lambda>d t. heap_push rank t d) ds t) = mset ds + node_mset t" for t
    using assms(2) by (induction ds arbitrary: t)
      (auto simp: ranking.mset_heap_push [OF assms(1)] ranking.heap_inv_push [OF assms(1)])
  from this [OF heap_inv_Null] show ?thesis by (simp add: ranking.heap_drain_sorted [OF assms(1)])
qed

lemma heap_pops_in_rank_order_witness:
  "mset (heap_drain debug_ranks (fold (\<lambda>d t. heap_push debug_ranks t d) [(0, 7), (1, 2), (2, 9)] Null)) =
     mset [(0, 7), (1, 2), (2, 9)]"
  using heap_pops_in_rank_order [OF heap_debug.ranking_axioms, of "[(0, 7), (1, 2), (2, 9)]"]
  by (simp add: debug_objs_def)

text \<open>
  the test program succeeds for every sequence of at least eight random numbers: no tree
  check fails, the expected size always equals the size stored in the tree, and the last line
  printed is the success message.
\<close>

theorem heap_test_main_succeeds:
  assumes "8 \<le> length rs" and "\<forall>r \<in> set rs. 0 \<le> r \<and> r < 2 ^ 31"
  shows "\<exists>ls ds. heap_test_main rs = Some (ls @ [Success], ds) \<and> \<not> list_ex failure_line ls"
proof -
  have "test_inv \<lparr>heap = Null, treeSize = 0, printed = []\<rparr>"
    by (simp add: test_inv_def heap_inv_Null getTreeSize_def)
  moreover have "int (length rs) div 8 \<noteq> 0" using assms(1) by linarith
  ultimately obtain st where st: "test_inv st"
    "heap_test_loop (int (length rs) div 8) 0 rs \<lparr>heap = Null, treeSize = 0, printed = []\<rparr> = Some st"
    using heap_test_loop_inv assms(2) by blast
  then have "checkTree debug_ranks (heap st)" "\<not> list_ex failure_line (printed st)"
    by (auto simp: test_inv_def heap_debug.checkTree_inv)
  with st show ?thesis by (simp add: heap_test_main_def)
qed

lemma heap_test_main_succeeds_witness:
  "\<exists>ls ds. heap_test_main [3, 9, 4, 5, 7, 2, 2, 8] = Some (ls @ [Success], ds) \<and> \<not> list_ex failure_line ls"
  by (rule heap_test_main_succeeds) auto

end
