(* ===== verification/Loc_Timer.thy ===== *)
theory Loc_Timer
  imports Loc_Heap
begin

text \<open>
  \<open>gps/utils/LocTimer.cpp\<close>: timers on top of two kernel timer descriptors.

  \<^item> The state \<open>timer_sys\<close> holds the objects of the file: the client objects (\<open>LocTimer\<close>) with
    their \<open>mTimer\<close>, the delegates on the heap, the shared locks with their reference counts, the
    two containers (index True is the alarm container, \<open>wakeOnExpire\<close>) with their heap, the value
    set in the timer descriptor and whether it is polled, the message queue of the MsgTask, and the
    program counters of the poll thread and of the MsgTask thread.
  \<^item> The clients' calls, the poll thread and the MsgTask thread are interleaved by \<open>timer_exec\<close>;
    a section under the client's lock is one step, the processing of an expiration is split
    where it releases control. \<open>None\<close> is the use of a deleted object: of a client, of a delegate
    (also one that is only compared in a heap) or of a shared lock (also by \<open>lock\<close> and \<open>unlock\<close>).
  \<^item> Shown: ranks of time specs keep the ranking laws of the heap, \<open>start\<close> computes the future
    time exactly, no object is used after its deletion, every delegate and lock is deleted once,
    and no running timer is ever left without a kernel timer or a pending expiration.
\<close>

section \<open>Time specs\<close>

record timespec =
  tv_sec :: int
  tv_nsec :: int

definition zero_time :: timespec where
  "zero_time = \<lparr>tv_sec = 0, tv_nsec = 0\<rparr>"

text \<open>\<open>LocTimerDelegate::ranks\<close>: a later time ranks lower; the differences are stored in an int.\<close>

definition timer_ranks :: "timespec \<Rightarrow> timespec \<Rightarrow> int" where
  "timer_ranks self timer =
     (let rank = c_int32 (tv_sec timer - tv_sec self)
      in if 0 = rank then c_int32 (tv_nsec timer - tv_nsec self) else rank)"

definition valid_time :: "timespec \<Rightarrow> bool" where
  "valid_time t \<longleftrightarrow> 0 \<le> tv_sec t \<and> tv_sec t < 2 ^ 31 \<and> 0 \<le> tv_nsec t \<and> tv_nsec t < 10 ^ 9"

definition nanos :: "timespec \<Rightarrow> int" where
  "nanos t = tv_sec t * 10 ^ 9 + tv_nsec t"

lemma timer_outRanks:
  assumes "valid_time s" "valid_time t"
  shows "outRanks timer_ranks s t \<longleftrightarrow> nanos s < nanos t"
proof -
  have "c_int32 (tv_sec t - tv_sec s) = tv_sec t - tv_sec s"
    "c_int32 (tv_nsec t - tv_nsec s) = tv_nsec t - tv_nsec s"
    using assms by (auto simp: valid_time_def intro!: c_int32_id)
  with assms show ?thesis
    by (auto simp: outRanks_def timer_ranks_def nanos_def valid_time_def)
qed

interpretation timespec_rank: ranking timer_ranks "Collect valid_time"
  by unfold_locales (auto simp: timer_outRanks)

text \<open>The time \<open>LocTimer::start\<close> computes; \<open>timeOutInMs\<close> is an unsigned 32 bit integer.\<close>

definition timer_future :: "timespec \<Rightarrow> 32 word \<Rightarrow> timespec" where
  "timer_future now timeOutInMs =
     (let t1 = now\<lparr>tv_sec := tv_sec now + uint (timeOutInMs div 1000),
                   tv_nsec := tv_nsec now + uint (timeOutInMs mod 1000 * 1000000)\<rparr>
      in if 1000000000 \<le> tv_nsec t1
         then t1\<lparr>tv_sec := tv_sec t1 + tv_nsec t1 div 1000000000,
                 tv_nsec := tv_nsec t1 mod 1000000000\<rparr>
         else t1)"

section \<open>The objects\<close>

text \<open>\<open>LocTimerDelegate\<close>; a container pointer is the container's index.\<close>

record delegate =
  mClient :: ptr
  mLock :: nat
  mFutureTime :: timespec
  mContainer :: "bool option"

datatype timer_msg =
    MsgTimerPush bool nat
  | MsgTimerRemove bool nat
  | MsgTimerExpire bool

text \<open>The three calls of \<open>LocTimerContainer::expire\<close>, made by the poll thread.\<close>

datatype poll_act = SetTimeZero bool | RemovePoll bool | SendExpire bool

text \<open>
  Where the MsgTask thread is: between messages, about to pop the next timer (the first pop is
  unconditional), about to call \<open>stop\<close> on the client read from a popped timer, about to call its
  callback, or about to update the descriptor after the loop.
\<close>

datatype mt_state =
    MtIdle
  | MtPop bool timespec bool
  | MtStop bool timespec nat nat
  | MtCallback bool timespec nat nat
  | MtUpdate bool

record timer_sys =
  heaps :: "bool \<Rightarrow> nat heap_node"
  fd_time :: "bool \<Rightarrow> timespec"
  polled :: "bool \<Rightarrow> bool"
  msgs :: "timer_msg list"
  delegates :: "nat \<Rightarrow> delegate option"
  ltimers :: "nat \<Rightarrow> ptr option"
  locks :: "nat \<Rightarrow> int option"
  poll_pc :: "poll_act list"
  mt_pc :: mt_state
  clock :: timespec
  next_addr :: nat
  callbacks :: "(nat \<times> nat \<times> timespec) list"

text \<open>
  The order of the delegates in a heap. \<open>dtime\<close> is total, so every operation that ranks delegates
  first runs \<open>heap_live\<close>: a heap with a deleted delegate is a fault as soon as it is searched or
  its soonest timer read, whether or not the search meets the deleted one.
\<close>

definition dtime :: "timer_sys \<Rightarrow> nat \<Rightarrow> timespec" where
  "dtime s a = (case delegates s a of None \<Rightarrow> zero_time | Some d \<Rightarrow> mFutureTime d)"

definition drank :: "timer_sys \<Rightarrow> nat rank_fun" where
  "drank s a b = timer_ranks (dtime s a) (dtime s b)"

fun node_all :: "('a \<Rightarrow> bool) \<Rightarrow> 'a heap_node \<Rightarrow> bool" where
  "node_all P Null \<longleftrightarrow> True"
| "node_all P (HeapNode s l r x) \<longleftrightarrow> P x \<and> node_all P l \<and> node_all P r"

lemma node_all_mset: "node_all P t \<longleftrightarrow> (\<forall>x \<in># node_mset t. P x)"
  by (induction t) auto

definition heap_live :: "bool \<Rightarrow> timer_sys \<Rightarrow> unit option" where
  "heap_live b s = (if node_all (\<lambda>a. delegates s a \<noteq> None) (heaps s b) then Some () else None)"

section \<open>LocSharedLock\<close>

text \<open>
  \<open>lock\<close> and \<open>unlock\<close> read the mutex in the shared object, which has to exist. A section under the
  lock is one step of the system, so no other thread can hold the mutex when it is taken.
\<close>

definition lock_lock :: "timer_sys \<Rightarrow> nat \<Rightarrow> unit option" where
  "lock_lock s k = map_option (\<lambda>_. ()) (locks s k)"

definition lock_unlock :: "timer_sys \<Rightarrow> nat \<Rightarrow> unit option" where
  "lock_unlock s k = map_option (\<lambda>_. ()) (locks s k)"

definition lock_share :: "timer_sys \<Rightarrow> nat \<Rightarrow> timer_sys option" where
  "lock_share s k = do { n \<leftarrow> locks s k; Some (s\<lparr>locks := (locks s)(k \<mapsto> n + 1)\<rparr>) }"

definition lock_drop :: "timer_sys \<Rightarrow> nat \<Rightarrow> timer_sys option" where
  "lock_drop s k =
     do { n \<leftarrow> locks s k;
          Some (s\<lparr>locks := (if 1 = n then (locks s)(k := None) else (locks s)(k \<mapsto> n - 1))\<rparr>) }"

section \<open>LocTimerContainer\<close>

definition sendMsg :: "timer_msg \<Rightarrow> timer_sys \<Rightarrow> timer_sys" where
  "sendMsg m s = s\<lparr>msgs := msgs s @ [m]\<rparr>"

definition updateSoonestTime :: "bool \<Rightarrow> ptr \<Rightarrow> timer_sys \<Rightarrow> timer_sys" where
  "updateSoonestTime b priorTop s =
     (let curTop = heap_peek (heaps s b)
      in if curTop \<noteq> priorTop then
           (case curTop of
              None \<Rightarrow> s\<lparr>polled := (polled s)(b := False), fd_time := (fd_time s)(b := zero_time)\<rparr>
            | Some cur \<Rightarrow>
                if (case priorTop of None \<Rightarrow> True | Some prior \<Rightarrow> outRanks (drank s) cur prior)
                then s\<lparr>polled := (polled s)(b := True), fd_time := (fd_time s)(b := dtime s cur)\<rparr>
                else s)
         else s)"

definition delete_delegate :: "nat \<Rightarrow> timer_sys \<Rightarrow> timer_sys option" where
  "delete_delegate a s =
     do { d \<leftarrow> delegates s a;
          s' \<leftarrow> lock_drop s (mLock d);
          Some (s'\<lparr>delegates := (delegates s')(a := None)\<rparr>) }"

text \<open>The \<open>proc\<close> methods of the messages \<open>MsgTimerPush\<close> and \<open>MsgTimerRemove\<close>.\<close>

definition proc_push :: "bool \<Rightarrow> nat \<Rightarrow> timer_sys \<Rightarrow> timer_sys option" where
  "proc_push b a s =
     do { _ \<leftarrow> delegates s a;
          let priorTop = heap_peek (heaps s b);
          _ \<leftarrow> heap_live b s;
          let s1 = s\<lparr>heaps := (heaps s)(b := heap_push (drank s) (heaps s b) a)\<rparr>;
          _ \<leftarrow> heap_live b s1;
          Some (updateSoonestTime b priorTop s1) }"

definition proc_remove :: "bool \<Rightarrow> nat \<Rightarrow> timer_sys \<Rightarrow> timer_sys option" where
  "proc_remove b a s =
     do { _ \<leftarrow> delegates s a;
          let priorTop = heap_peek (heaps s b);
          _ \<leftarrow> heap_live b s;
          (removed, h) \<leftarrow> heap_remove (drank s) (heaps s b) a;
          let s1 = s\<lparr>heaps := (heaps s)(b := h)\<rparr>;
          _ \<leftarrow> heap_live b s1;
          let s2 = (if priorTop = removed then updateSoonestTime b None s1 else s1);
          delete_delegate a s2 }"

definition popIfOutRanks :: "bool \<Rightarrow> timespec \<Rightarrow> timer_sys \<Rightarrow> (ptr \<times> timer_sys) option" where
  "popIfOutRanks b now s =
     (case heap_peek (heaps s b) of
        None \<Rightarrow> Some (None, s)
      | Some tp \<Rightarrow>
          do { _ \<leftarrow> heap_live b s;
               if \<not> outRanks timer_ranks now (dtime s tp)
               then do { (p, h) \<leftarrow> heap_pop (drank s) (heaps s b);
                         Some (p, s\<lparr>heaps := (heaps s)(b := h)\<rparr>) }
               else Some (None, s) })"

section \<open>LocTimer and LocTimerDelegate\<close>

definition destroyLocked :: "nat \<Rightarrow> timer_sys \<Rightarrow> timer_sys option" where
  "destroyLocked a s =
     do { d \<leftarrow> delegates s a;
          let s1 = s\<lparr>delegates := (delegates s)(a \<mapsto> d\<lparr>mClient := None\<rparr>)\<rparr>;
          Some (case mContainer d of
                  None \<Rightarrow> s1
                | Some b \<Rightarrow>
                    sendMsg (MsgTimerRemove b a)
                      (s1\<lparr>delegates := (delegates s1)(a \<mapsto> d\<lparr>mClient := None, mContainer := None\<rparr>)\<rparr>)) }"

definition timer_new :: "nat \<Rightarrow> timer_sys \<Rightarrow> timer_sys" where
  "timer_new c s = s\<lparr>ltimers := (ltimers s)(c \<mapsto> None), locks := (locks s)(c \<mapsto> 1)\<rparr>"

definition timer_start :: "nat \<Rightarrow> 32 word \<Rightarrow> bool \<Rightarrow> timer_sys \<Rightarrow> (bool \<times> timer_sys) option" where
  "timer_start c timeOutInMs wakeOnExpire s =
     do { mTimer \<leftarrow> ltimers s c;
          _ \<leftarrow> lock_lock s c;
          (success, s') \<leftarrow> (if mTimer = None then
            do { let futureTime = timer_future (clock s) timeOutInMs;
                 let a = next_addr s;
                 s1 \<leftarrow> lock_share s c;
                 let d = \<lparr>mClient = Some c, mLock = c, mFutureTime = futureTime,
                          mContainer = Some wakeOnExpire\<rparr>;
                 let s2 = s1\<lparr>delegates := (delegates s1)(a \<mapsto> d), next_addr := Suc a\<rparr>;
                 let s3 = sendMsg (MsgTimerPush wakeOnExpire a) s2;
                 Some (True, s3\<lparr>ltimers := (ltimers s3)(c \<mapsto> Some a)\<rparr>) }
            else Some (False, s));
          _ \<leftarrow> lock_unlock s' c;
          Some (success, s') }"

definition timer_stop :: "nat \<Rightarrow> timer_sys \<Rightarrow> (bool \<times> timer_sys) option" where
  "timer_stop c s =
     do { mTimer \<leftarrow> ltimers s c;
          _ \<leftarrow> lock_lock s c;
          (success, s') \<leftarrow> (case mTimer of
            None \<Rightarrow> Some (False, s)
          | Some a \<Rightarrow>
              do { s' \<leftarrow> destroyLocked a (s\<lparr>ltimers := (ltimers s)(c \<mapsto> None)\<rparr>);
                   Some (True, s') });
          _ \<leftarrow> lock_unlock s' c;
          Some (success, s') }"

definition timer_delete :: "nat \<Rightarrow> timer_sys \<Rightarrow> timer_sys option" where
  "timer_delete c s =
     do { (_, s1) \<leftarrow> timer_stop c s;
          s2 \<leftarrow> lock_drop s1 c;
          Some (s2\<lparr>ltimers := (ltimers s2)(c := None)\<rparr>) }"

section \<open>The threads\<close>

text \<open>\<open>LocTimerContainer::expire\<close> as the poll thread runs it, one call per step.\<close>

fun poll_act_exec :: "poll_act \<Rightarrow> timer_sys \<Rightarrow> timer_sys" where
  "poll_act_exec (SetTimeZero b) s = s\<lparr>fd_time := (fd_time s)(b := zero_time)\<rparr>"
| "poll_act_exec (RemovePoll b) s = s\<lparr>polled := (polled s)(b := False)\<rparr>"
| "poll_act_exec (SendExpire b) s = sendMsg (MsgTimerExpire b) s"

text \<open>One step of the MsgTask thread.\<close>

definition mt_exec :: "timer_sys \<Rightarrow> timer_sys option" where
  "mt_exec s =
     (case mt_pc s of
        MtIdle \<Rightarrow>
          (case msgs s of
             [] \<Rightarrow> Some s
           | MsgTimerPush b a # ms \<Rightarrow> proc_push b a (s\<lparr>msgs := ms\<rparr>)
           | MsgTimerRemove b a # ms \<Rightarrow> proc_remove b a (s\<lparr>msgs := ms\<rparr>)
           | MsgTimerExpire b # ms \<Rightarrow> Some (s\<lparr>msgs := ms, mt_pc := MtPop b (clock s) True\<rparr>))
      | MtPop b now first \<Rightarrow>
          do { (p, s1) \<leftarrow> (if first
                 then do { _ \<leftarrow> heap_live b s;
                           (p, h) \<leftarrow> heap_pop (drank s) (heaps s b);
                           Some (p, s\<lparr>heaps := (heaps s)(b := h)\<rparr>) }
                 else popIfOutRanks b now s);
               case p of
                 None \<Rightarrow> Some (s1\<lparr>mt_pc := MtUpdate b\<rparr>)
               | Some a \<Rightarrow>
                   do { d \<leftarrow> delegates s1 a;
                        Some (s1\<lparr>mt_pc := (case mClient d of None \<Rightarrow> MtPop b now False
                                            | Some c \<Rightarrow> MtStop b now c a)\<rparr>) } }
      | MtStop b now c a \<Rightarrow>
          do { (ok, s1) \<leftarrow> timer_stop c s;
               Some (s1\<lparr>mt_pc := (if ok then MtCallback b now c a else MtPop b now False)\<rparr>) }
      | MtCallback b now c a \<Rightarrow>
          do { _ \<leftarrow> ltimers s c;
               Some (s\<lparr>callbacks := callbacks s @ [(c, a, clock s)], mt_pc := MtPop b now False\<rparr>) }
      | MtUpdate b \<Rightarrow>
          do { _ \<leftarrow> heap_live b s;
               Some (updateSoonestTime b None (s\<lparr>mt_pc := MtIdle\<rparr>)) })"

datatype timer_event =
    EvNew nat
  | EvStart nat "32 word" bool
  | EvStop nat
  | EvDelete nat
  | EvEpoll "bool list"
  | EvPoll
  | EvMsgTask
  | EvClock timespec

text \<open>When a descriptor is readable, and so returned by \<open>epoll_wait\<close>.\<close>

definition fd_ready :: "timer_sys \<Rightarrow> bool \<Rightarrow> bool" where
  "fd_ready s b \<longleftrightarrow> polled s b \<and> fd_time s b \<noteq> zero_time \<and> nanos (fd_time s b) \<le> nanos (clock s)"

definition timer_exec :: "timer_event \<Rightarrow> timer_sys \<Rightarrow> timer_sys option" where
  "timer_exec ev s =
     (case ev of
        EvNew c \<Rightarrow> Some (timer_new c s)
      | EvStart c ms wake \<Rightarrow> map_option snd (timer_start c ms wake s)
      | EvStop c \<Rightarrow> map_option snd (timer_stop c s)
      | EvDelete c \<Rightarrow> timer_delete c s
      | EvEpoll bs \<Rightarrow>
          Some (s\<lparr>poll_pc := concat (map (\<lambda>b. [SetTimeZero b, RemovePoll b, SendExpire b]) bs)\<rparr>)
      | EvPoll \<Rightarrow>
          (case poll_pc s of
             [] \<Rightarrow> Some s
           | act # acts \<Rightarrow> Some (poll_act_exec act (s\<lparr>poll_pc := acts\<rparr>)))
      | EvMsgTask \<Rightarrow> mt_exec s
      | EvClock t \<Rightarrow> Some (s\<lparr>clock := t\<rparr>))"

text \<open>
  The environment: object addresses are not reused while in use, a client object is used only
  while it exists, \<open>epoll_wait\<close> returns readable descriptors, the clock does not go back.
\<close>

definition event_ok :: "timer_sys \<Rightarrow> timer_event \<Rightarrow> bool" where
  "event_ok s ev \<longleftrightarrow>
     (case ev of
        EvNew c \<Rightarrow> ltimers s c = None \<and> locks s c = None
      | EvStart c ms wake \<Rightarrow> ltimers s c \<noteq> None \<and> valid_time (timer_future (clock s) ms)
      | EvStop c \<Rightarrow> ltimers s c \<noteq> None
      | EvDelete c \<Rightarrow> ltimers s c \<noteq> None
      | EvEpoll bs \<Rightarrow> poll_pc s = [] \<and> distinct bs \<and> (\<forall>b \<in> set bs. fd_ready s b)
      | EvClock t \<Rightarrow> valid_time t \<and> nanos (clock s) \<le> nanos t
      | _ \<Rightarrow> True)"

text \<open>
  What the code further needs from its clients: none deletes its object while the MsgTask thread
  is about to use it.
\<close>

definition delete_ok :: "timer_sys \<Rightarrow> timer_event \<Rightarrow> bool" where
  "delete_ok s ev \<longleftrightarrow>
     (case ev of
        EvDelete c \<Rightarrow> (case mt_pc s of MtStop _ _ c' _ \<Rightarrow> c' \<noteq> c | MtCallback _ _ c' _ \<Rightarrow> c' \<noteq> c | _ \<Rightarrow> True)
      | _ \<Rightarrow> True)"

definition timer_init :: "timespec \<Rightarrow> timer_sys" where
  "timer_init now =
     \<lparr>heaps = (\<lambda>_. Null), fd_time = (\<lambda>_. zero_time), polled = (\<lambda>_. False), msgs = [],
      delegates = (\<lambda>_. None), ltimers = (\<lambda>_. None), locks = (\<lambda>_. None), poll_pc = [],
      mt_pc = MtIdle, clock = now, next_addr = 0, callbacks = []\<rparr>"

inductive timer_reachable :: "timer_sys \<Rightarrow> bool" where
  timer_reach_init: "valid_time now \<Longrightarrow> timer_reachable (timer_init now)"
| timer_reach_step:
    "timer_reachable s \<Longrightarrow> event_ok s ev \<Longrightarrow> delete_ok s ev \<Longrightarrow> timer_exec ev s = Some s' \<Longrightarrow>
     timer_reachable s'"

section \<open>The future time\<close>

lemma timer_future_nanos:
  assumes "valid_time now"
  shows "nanos (timer_future now ms) = nanos now + uint ms * 10 ^ 6"
    and "0 \<le> tv_nsec (timer_future now ms)" and "tv_nsec (timer_future now ms) < 10 ^ 9"
proof -
  have d: "uint (ms div 1000) = uint ms div 1000" "uint (ms mod 1000) = uint ms mod 1000"
    by (simp_all add: uint_div uint_mod)
  have m: "uint (ms mod 1000 * 1000000) = (uint ms mod 1000) * 1000000"
  proof -
    have "uint ms mod 1000 < 1000" by simp
    then have "uint ms mod 1000 * 1000000 < 4294967296" by linarith
    then show ?thesis
      by (simp add: uint_word_ariths d take_bit_int_eq_self)
  qed
  show "nanos (timer_future now ms) = nanos now + uint ms * 10 ^ 6"
  proof -
    have "uint ms * 1000000 = (uint ms div 1000) * 1000000000 + (uint ms mod 1000) * 1000000"
      using mult_div_mod_eq [of 1000 "uint ms"] by linarith
    then show ?thesis by (simp add: timer_future_def nanos_def d m Let_def)
  qed
  show "0 \<le> tv_nsec (timer_future now ms)" "tv_nsec (timer_future now ms) < 10 ^ 9"
    using assms by (auto simp: timer_future_def valid_time_def d m Let_def)
qed

section \<open>Heaps under changes of the delegates\<close>

lemma heap_ok_cong:
  "(\<And>x y. x \<in># node_mset t \<Longrightarrow> y \<in># node_mset t \<Longrightarrow> outRanks r x y = outRanks r' x y) \<Longrightarrow>
     heap_ok r t = heap_ok r' t"
  by (induction t) auto

lemma heap_peek_push:
  "heap_peek (heap_push r t d) =
     (case heap_peek t of None \<Rightarrow> Some d | Some p \<Rightarrow> Some (if outRanks r d p then d else p))"
  by (cases t) (auto simp: heap_push_def heap_peek_def Let_def)

lemma heap_push_not_Null: "heap_push r t d \<noteq> Null"
  by (cases t) (auto simp: heap_push_def Let_def)

lemma heap_peek_remove:
  "heap_remove r t d = Some (p, t') \<Longrightarrow> heap_peek t \<noteq> p \<Longrightarrow> heap_peek t \<noteq> Some d \<Longrightarrow> heap_peek t' = heap_peek t"
  by (cases t) (auto simp: heap_remove_def heap_peek_def split: if_splits)

lemma heap_peek_Null [simp]: "heap_peek Null = None"
  by (simp add: heap_peek_def)

lemma heap_peek_None [simp]: "heap_peek t = None \<longleftrightarrow> t = Null"
  by (cases t) (auto simp: heap_peek_def)

lemma heap_peek_mset: "heap_peek t = Some x \<Longrightarrow> x \<in># node_mset t"
  by (cases t) (auto simp: heap_peek_def)

lemma drank_ranking:
  "(\<And>a. a \<in> A \<Longrightarrow> valid_time (dtime s a)) \<Longrightarrow> ranking (drank s) A"
  by unfold_locales
    (auto simp: outRanks_def drank_def timer_outRanks [unfolded outRanks_def])

section \<open>Invariants\<close>

text \<open>The messages about delegates, in order: (True, a) for a push, (False, a) for a removal of \<open>a\<close>.\<close>

fun keys :: "timer_msg list \<Rightarrow> (bool \<times> nat) list" where
  "keys [] = []"
| "keys (MsgTimerPush b a # ms) = (True, a) # keys ms"
| "keys (MsgTimerRemove b a # ms) = (False, a) # keys ms"
| "keys (MsgTimerExpire b # ms) = keys ms"

fun keys_ordered :: "(bool \<times> nat) list \<Rightarrow> bool" where
  "keys_ordered [] \<longleftrightarrow> True"
| "keys_ordered (k # ks) \<longleftrightarrow> (\<not> fst k \<longrightarrow> (True, snd k) \<notin> set ks) \<and> keys_ordered ks"

lemma keys_append [simp]: "keys (ms @ ms') = keys ms @ keys ms'"
  by (induction ms rule: keys.induct) auto

lemma keys_ordered_append [simp]:
  "keys_ordered (ks @ ks') \<longleftrightarrow> keys_ordered ks \<and> keys_ordered ks' \<and>
     (\<forall>a. (False, a) \<in> set ks \<longrightarrow> (True, a) \<notin> set ks')"
  by (induction ks) auto

lemma keys_iff:
  "(True, a) \<in> set (keys ms) \<longleftrightarrow> (\<exists>b. MsgTimerPush b a \<in> set ms)"
  "(False, a) \<in> set (keys ms) \<longleftrightarrow> (\<exists>b. MsgTimerRemove b a \<in> set ms)"
  by (induction ms rule: keys.induct) auto

definition live :: "timer_sys \<Rightarrow> nat set" where
  "live s = {a. delegates s a \<noteq> None}"

definition mset_heap :: "timer_sys \<Rightarrow> bool \<Rightarrow> nat multiset" where
  "mset_heap s b = node_mset (heaps s b)"

text \<open>
  \<open>obj_inv home s\<close>: every live delegate belongs to the container \<open>home a\<close>; clients and delegates
  point to each other; a removal is queued for exactly the delegates that were stopped; a
  delegate to be pushed is in no heap; only live delegates are in a heap or a message.
\<close>

definition delegate_ok :: "(nat \<Rightarrow> bool) \<Rightarrow> timer_sys \<Rightarrow> nat \<Rightarrow> delegate \<Rightarrow> bool" where
  "delegate_ok home s a d \<longleftrightarrow>
     a < next_addr s \<and> valid_time (mFutureTime d) \<and>
     mContainer d = (if (False, a) \<in> set (keys (msgs s)) then None else Some (home a)) \<and>
     (mClient d = None \<longleftrightarrow> (False, a) \<in> set (keys (msgs s))) \<and>
     (\<forall>c. mClient d = Some c \<longrightarrow> mLock d = c \<and> ltimers s c = Some (Some a))"

definition client_ok :: "timer_sys \<Rightarrow> nat \<Rightarrow> bool" where
  "client_ok s c \<longleftrightarrow>
     (\<forall>a. ltimers s c = Some (Some a) \<longrightarrow> (\<exists>d. delegates s a = Some d \<and> mClient d = Some c))"

definition obj_inv :: "(nat \<Rightarrow> bool) \<Rightarrow> timer_sys \<Rightarrow> bool" where
  "obj_inv home s \<longleftrightarrow>
     (\<forall>a d. delegates s a = Some d \<longrightarrow> delegate_ok home s a d) \<and>
     (\<forall>c. client_ok s c) \<and>
     distinct (keys (msgs s)) \<and> keys_ordered (keys (msgs s)) \<and>
     (\<forall>b a. MsgTimerPush b a \<in> set (msgs s) \<longrightarrow> a \<in> live s \<and> b = home a \<and> (\<forall>b'. a \<notin># mset_heap s b')) \<and>
     (\<forall>b a. MsgTimerRemove b a \<in> set (msgs s) \<longrightarrow> a \<in> live s \<and> b = home a) \<and>
     (\<forall>b. heap_ok (drank s) (heaps s b) \<and>
        (\<forall>a \<in># mset_heap s b. a \<in> live s \<and> home a = b \<and> count (mset_heap s b) a = 1))"

text \<open>Reference counts of the shared locks: one for the client object, one per delegate.\<close>

definition lock_users :: "timer_sys \<Rightarrow> nat \<Rightarrow> nat set" where
  "lock_users s k = {a. \<exists>d. delegates s a = Some d \<and> mLock d = k}"

definition lock_count :: "timer_sys \<Rightarrow> nat \<Rightarrow> int" where
  "lock_count s k = (if ltimers s k \<noteq> None then 1 else 0) + int (card (lock_users s k))"

definition lock_inv :: "timer_sys \<Rightarrow> bool" where
  "lock_inv s \<longleftrightarrow> finite (live s) \<and>
     (\<forall>k. locks s k = (if lock_count s k = 0 then None else Some (lock_count s k)))"

text \<open>No running timer is forgotten.\<close>

fun poll_ok :: "poll_act list \<Rightarrow> bool" where
  "poll_ok [] \<longleftrightarrow> True"
| "poll_ok (act # acts) \<longleftrightarrow>
     (case act of SetTimeZero b \<Rightarrow> SendExpire b \<in> set acts | RemovePoll b \<Rightarrow> SendExpire b \<in> set acts
      | SendExpire b \<Rightarrow> True) \<and> poll_ok acts"

definition expiring :: "timer_sys \<Rightarrow> bool \<Rightarrow> bool" where
  "expiring s b \<longleftrightarrow> SendExpire b \<in> set (poll_pc s) \<or> MsgTimerExpire b \<in> set (msgs s) \<or>
     (case mt_pc s of MtIdle \<Rightarrow> False | MtPop b' _ _ \<Rightarrow> b' = b | MtStop b' _ _ _ \<Rightarrow> b' = b
      | MtCallback b' _ _ _ \<Rightarrow> b' = b | MtUpdate b' \<Rightarrow> b' = b)"

definition armed :: "timer_sys \<Rightarrow> bool \<Rightarrow> bool" where
  "armed s b \<longleftrightarrow> (\<forall>a. heap_peek (heaps s b) = Some a \<longrightarrow> polled s b \<and> fd_time s b = dtime s a)"

definition armed_inv :: "timer_sys \<Rightarrow> bool" where
  "armed_inv s \<longleftrightarrow> poll_ok (poll_pc s) \<and> (\<forall>b. armed s b \<or> expiring s b)"

text \<open>The MsgTask thread holds only pointers to existing clients.\<close>

definition mt_ok :: "timer_sys \<Rightarrow> bool" where
  "mt_ok s \<longleftrightarrow>
     (case mt_pc s of MtStop _ _ c _ \<Rightarrow> ltimers s c \<noteq> None | MtCallback _ _ c _ \<Rightarrow> ltimers s c \<noteq> None
      | _ \<Rightarrow> True)"

definition timer_inv :: "timer_sys \<Rightarrow> bool" where
  "timer_inv s \<longleftrightarrow> (\<exists>home. obj_inv home s) \<and> lock_inv s \<and> armed_inv s \<and> mt_ok s \<and> valid_time (clock s)"

section \<open>The invariants are kept\<close>

lemma dtime_frame [simp]:
  "dtime (s\<lparr>heaps := h\<rparr>) = dtime s"  "dtime (s\<lparr>fd_time := f\<rparr>) = dtime s"
  "dtime (s\<lparr>polled := p\<rparr>) = dtime s"  "dtime (s\<lparr>msgs := m\<rparr>) = dtime s"
  "dtime (s\<lparr>ltimers := l\<rparr>) = dtime s"  "dtime (s\<lparr>locks := k\<rparr>) = dtime s"
  "dtime (s\<lparr>poll_pc := pp\<rparr>) = dtime s"  "dtime (s\<lparr>mt_pc := mt\<rparr>) = dtime s"
  "dtime (s\<lparr>clock := t\<rparr>) = dtime s"  "dtime (s\<lparr>next_addr := n\<rparr>) = dtime s"
  "dtime (s\<lparr>callbacks := cb\<rparr>) = dtime s"
  by (simp_all add: dtime_def fun_eq_iff)

lemma drank_frame [simp]:
  "drank (s\<lparr>heaps := h\<rparr>) = drank s"  "drank (s\<lparr>fd_time := f\<rparr>) = drank s"
  "drank (s\<lparr>polled := p\<rparr>) = drank s"  "drank (s\<lparr>msgs := m\<rparr>) = drank s"
  "drank (s\<lparr>ltimers := l\<rparr>) = drank s"  "drank (s\<lparr>locks := k\<rparr>) = drank s"
  "drank (s\<lparr>poll_pc := pp\<rparr>) = drank s"  "drank (s\<lparr>mt_pc := mt\<rparr>) = drank s"
  "drank (s\<lparr>clock := t\<rparr>) = drank s"  "drank (s\<lparr>next_addr := n\<rparr>) = drank s"
  "drank (s\<lparr>callbacks := cb\<rparr>) = drank s"
  by (simp_all add: drank_def fun_eq_iff)

lemma obj_inv_frame [simp]:
  "obj_inv home (s\<lparr>fd_time := f\<rparr>) = obj_inv home s"
  "obj_inv home (s\<lparr>polled := p\<rparr>) = obj_inv home s"
  "obj_inv home (s\<lparr>locks := k\<rparr>) = obj_inv home s"
  "obj_inv home (s\<lparr>poll_pc := pp\<rparr>) = obj_inv home s"
  "obj_inv home (s\<lparr>mt_pc := mt\<rparr>) = obj_inv home s"
  "obj_inv home (s\<lparr>clock := t\<rparr>) = obj_inv home s"
  "obj_inv home (s\<lparr>callbacks := cb\<rparr>) = obj_inv home s"
  by (simp_all add: obj_inv_def delegate_ok_def client_ok_def live_def mset_heap_def)

lemma lock_inv_frame [simp]:
  "lock_inv (s\<lparr>heaps := h\<rparr>) = lock_inv s"
  "lock_inv (s\<lparr>fd_time := f\<rparr>) = lock_inv s"
  "lock_inv (s\<lparr>polled := p\<rparr>) = lock_inv s"
  "lock_inv (s\<lparr>msgs := m\<rparr>) = lock_inv s"
  "lock_inv (s\<lparr>poll_pc := pp\<rparr>) = lock_inv s"
  "lock_inv (s\<lparr>mt_pc := mt\<rparr>) = lock_inv s"
  "lock_inv (s\<lparr>clock := t\<rparr>) = lock_inv s"
  "lock_inv (s\<lparr>next_addr := n\<rparr>) = lock_inv s"
  "lock_inv (s\<lparr>callbacks := cb\<rparr>) = lock_inv s"
  by (simp_all add: lock_inv_def live_def lock_count_def lock_users_def)

lemma updateSoonestTime_frame [simp]:
  "obj_inv home (updateSoonestTime b p s) = obj_inv home s"
  "lock_inv (updateSoonestTime b p s) = lock_inv s"
  "delegates (updateSoonestTime b p s) = delegates s"
  "msgs (updateSoonestTime b p s) = msgs s"
  "ltimers (updateSoonestTime b p s) = ltimers s"
  "locks (updateSoonestTime b p s) = locks s"
  "heaps (updateSoonestTime b p s) = heaps s"
  "mt_pc (updateSoonestTime b p s) = mt_pc s"
  "poll_pc (updateSoonestTime b p s) = poll_pc s"
  "clock (updateSoonestTime b p s) = clock s"
  "dtime (updateSoonestTime b p s) = dtime s"
  "drank (updateSoonestTime b p s) = drank s"
  by (auto simp: updateSoonestTime_def Let_def split: option.splits)

lemma dtime_live: "obj_inv home s \<Longrightarrow> a \<in> live s \<Longrightarrow> valid_time (dtime s a)"
  by (auto simp: obj_inv_def delegate_ok_def live_def dtime_def)

lemma heap_live_inv: "obj_inv home s \<Longrightarrow> heap_live b s = Some ()"
  by (auto simp: heap_live_def node_all_mset obj_inv_def mset_heap_def live_def)

lemma heap_live_heap:
  "obj_inv home s \<Longrightarrow> set_mset (node_mset t) \<subseteq> live s \<Longrightarrow> heap_live b (s\<lparr>heaps := (heaps s)(b := t)\<rparr>) = Some ()"
  by (auto simp: heap_live_def node_all_mset live_def)

lemma heap_live_frame [simp]:
  "heap_live b (s\<lparr>msgs := m\<rparr>) = heap_live b s"
  "heap_live b (s\<lparr>msgs := m, heaps := h\<rparr>) = heap_live b (s\<lparr>heaps := h\<rparr>)"
  by (simp_all add: heap_live_def)

lemma lock_held:
  assumes "lock_inv s" "ltimers s c \<noteq> None"
  shows "lock_lock s c = Some ()" "lock_unlock s c = Some ()"
  using assms by (auto simp: lock_inv_def lock_count_def lock_lock_def lock_unlock_def)

lemma live_ranking: "obj_inv home s \<Longrightarrow> ranking (drank s) (live s)"
  by (rule drank_ranking) (rule dtime_live)

lemma obj_inv_heap: "obj_inv home s \<Longrightarrow> heap_inv (drank s) (live s) (heaps s b)"
  by (auto simp: obj_inv_def heap_inv_def mset_heap_def)

subsection \<open>Kernel timers\<close>

lemma updateSoonestTime_armed:
  "armed (updateSoonestTime b None s) b"
  "b' \<noteq> b \<Longrightarrow> armed (updateSoonestTime b p s) b' = armed s b'"
  by (auto simp: updateSoonestTime_def armed_def Let_def split: option.splits)

lemma armed_push:
  assumes "armed s b" "a \<notin># mset_heap s b"
  shows "armed (updateSoonestTime b (heap_peek (heaps s b))
    (s\<lparr>heaps := (heaps s)(b := heap_push (drank s) (heaps s b) a)\<rparr>)) b"
proof (cases "heap_peek (heaps s b)")
  case None
  then show ?thesis by (auto simp: armed_def updateSoonestTime_def heap_peek_push heap_push_not_Null)
next
  case (Some p)
  then have "p \<noteq> a" using assms(2) heap_peek_mset [of "heaps s b" p] by (auto simp: mset_heap_def)
  with Some assms(1) show ?thesis
    by (auto simp: armed_def updateSoonestTime_def heap_peek_push Let_def split: option.splits)
qed

subsection \<open>The parts of the object invariant\<close>

lemma obj_invI:
  assumes "\<And>a d. delegates s a = Some d \<Longrightarrow> delegate_ok home s a d"
    and "\<And>c. client_ok s c"
    and "distinct (keys (msgs s))" "keys_ordered (keys (msgs s))"
    and "\<And>b a. MsgTimerPush b a \<in> set (msgs s) \<Longrightarrow> a \<in> live s \<and> b = home a \<and> (\<forall>b'. a \<notin># mset_heap s b')"
    and "\<And>b a. MsgTimerRemove b a \<in> set (msgs s) \<Longrightarrow> a \<in> live s \<and> b = home a"
    and "\<And>b. heap_ok (drank s) (heaps s b)"
    and "\<And>b a. a \<in># mset_heap s b \<Longrightarrow> a \<in> live s \<and> home a = b \<and> count (mset_heap s b) a = 1"
  shows "obj_inv home s"
  unfolding obj_inv_def using assms by blast

lemma obj_invD:
  assumes "obj_inv home s"
  shows "delegates s a = Some d \<Longrightarrow> delegate_ok home s a d"
    and "client_ok s c"
    and "distinct (keys (msgs s))" and "keys_ordered (keys (msgs s))"
    and "MsgTimerPush b a \<in> set (msgs s) \<Longrightarrow> a \<in> live s \<and> b = home a \<and> (\<forall>b'. a \<notin># mset_heap s b')"
    and "MsgTimerRemove b a \<in> set (msgs s) \<Longrightarrow> a \<in> live s \<and> b = home a"
    and "heap_ok (drank s) (heaps s b)"
    and "a \<in># mset_heap s b \<Longrightarrow> a \<in> live s \<and> home a = b \<and> count (mset_heap s b) a = 1"
  using assms unfolding obj_inv_def by blast+

lemma live_frame [simp]:
  "live (s\<lparr>heaps := h\<rparr>) = live s" "live (s\<lparr>msgs := m\<rparr>) = live s" "live (s\<lparr>ltimers := l\<rparr>) = live s"
  "live (s\<lparr>locks := k\<rparr>) = live s" "live (s\<lparr>next_addr := n\<rparr>) = live s"
  by (simp_all add: live_def)

lemma mset_heap_frame [simp]:
  "mset_heap (s\<lparr>msgs := m\<rparr>) = mset_heap s" "mset_heap (s\<lparr>ltimers := l\<rparr>) = mset_heap s"
  "mset_heap (s\<lparr>locks := k\<rparr>) = mset_heap s" "mset_heap (s\<lparr>delegates := d\<rparr>) = mset_heap s"
  "mset_heap (s\<lparr>next_addr := n\<rparr>) = mset_heap s"
  by (simp_all add: mset_heap_def fun_eq_iff)

lemma mset_heap_upd [simp]:
  "mset_heap (s\<lparr>heaps := (heaps s)(b := t)\<rparr>) b' = (if b' = b then node_mset t else mset_heap s b')"
  by (simp add: mset_heap_def)

subsection \<open>Processing messages\<close>

lemma obj_inv_heap_shrink:
  assumes inv: "obj_inv home s" and t: "heap_ok (drank s) t" "node_mset t \<subseteq># mset_heap s b"
  shows "obj_inv home (s\<lparr>heaps := (heaps s)(b := t)\<rparr>)"
proof (rule obj_invI)
  fix b' a
  show "heap_ok (drank (s\<lparr>heaps := (heaps s)(b := t)\<rparr>)) (heaps (s\<lparr>heaps := (heaps s)(b := t)\<rparr>) b')"
    using t(1) obj_invD(7) [OF inv] by simp
  have sub: "count (node_mset t) a \<le> count (mset_heap s b) a" using t(2) by (simp add: subseteq_mset_def)
  assume "a \<in># mset_heap (s\<lparr>heaps := (heaps s)(b := t)\<rparr>) b'"
  with obj_invD(8) [OF inv, of a b'] t(2) sub show
    "a \<in> live (s\<lparr>heaps := (heaps s)(b := t)\<rparr>) \<and> home a = b' \<and>
       count (mset_heap (s\<lparr>heaps := (heaps s)(b := t)\<rparr>) b') a = 1"
    by (auto split: if_splits dest: mset_subset_eqD simp: Suc_le_eq le_Suc_eq count_eq_zero_iff)
next
  fix b' a
  assume "MsgTimerPush b' a \<in> set (msgs (s\<lparr>heaps := (heaps s)(b := t)\<rparr>))"
  with obj_invD(5) [OF inv, of b' a] t(2) show
    "a \<in> live (s\<lparr>heaps := (heaps s)(b := t)\<rparr>) \<and> b' = home a \<and>
       (\<forall>b'. a \<notin># mset_heap (s\<lparr>heaps := (heaps s)(b := t)\<rparr>) b')"
    by (auto dest: mset_subset_eqD)
qed (use obj_invD [OF inv] in \<open>auto simp: delegate_ok_def client_ok_def\<close>)

lemma obj_inv_pop_msg:
  assumes inv: "obj_inv home s" and ms: "msgs s = m # ms" and m: "\<forall>b a. m \<noteq> MsgTimerRemove b a"
  shows "obj_inv home (s\<lparr>msgs := ms\<rparr>)"
proof -
  have k: "(False, a) \<in> set (keys (m # ms)) \<longleftrightarrow> (False, a) \<in> set (keys ms)" for a
    using m by (cases m) auto
  have d: "distinct (keys ms)" "keys_ordered (keys ms)"
    using obj_invD(3,4) [OF inv] by (cases m; simp add: ms)+
  have p: "a \<in> live s \<and> b = home a \<and> (\<forall>b'. a \<notin># mset_heap s b')" if "MsgTimerPush b a \<in> set ms" for a b
    using obj_invD(5) [OF inv, of b a] that ms by simp
  have r: "a \<in> live s \<and> b = home a" if "MsgTimerRemove b a \<in> set ms" for a b
    using obj_invD(6) [OF inv, of b a] that ms by simp
  show ?thesis
    by (rule obj_invI)
      (use obj_invD(1,2,7,8) [OF inv] d p r ms in \<open>auto simp: delegate_ok_def client_ok_def k\<close>)
qed

lemma obj_inv_proc_push:
  assumes inv: "obj_inv home s" and ms: "msgs s = MsgTimerPush b a # ms"
  shows "\<exists>s'. proc_push b a (s\<lparr>msgs := ms\<rparr>) = Some s' \<and> obj_inv home s'"
proof -
  let ?s = "s\<lparr>msgs := ms\<rparr>"
  let ?t = "heap_push (drank s) (heaps s b) a"
  let ?h = "?s\<lparr>heaps := (heaps s)(b := ?t)\<rparr>"
  have inv': "obj_inv home ?s" by (rule obj_inv_pop_msg [OF inv ms]) simp
  have a: "a \<in> live s" "b = home a" "\<forall>b'. a \<notin># mset_heap s b'"
    using obj_invD(5) [OF inv, of b a] ms by auto
  have k: "(True, a) \<notin> set (keys ms)" using obj_invD(3) [OF inv] by (simp add: ms)
  have t: "heap_inv (drank s) (live s) ?t" "node_mset ?t = add_mset a (mset_heap s b)"
    using ranking.heap_inv_push [OF live_ranking [OF inv] obj_inv_heap [OF inv] a(1)]
      ranking.mset_heap_push [OF live_ranking [OF inv]] by (auto simp: mset_heap_def)
  have h: "mset_heap ?h b' = (if b' = b then add_mset a (mset_heap s b) else mset_heap s b')" for b'
    using t(2) by (simp add: mset_heap_def)
  have na: "count (mset_heap s b) a = 0" using a(3) by (simp add: not_in_iff)
  have "obj_inv home ?h"
  proof (rule obj_invI)
    show "distinct (keys (msgs ?h))" "keys_ordered (keys (msgs ?h))"
      using obj_invD(3,4) [OF inv'] by simp_all
    fix a' b' d c
    show "delegates ?h a' = Some d \<Longrightarrow> delegate_ok home ?h a' d"
      using obj_invD(1) [OF inv', of a' d] by (simp add: delegate_ok_def)
    show "client_ok ?h c" using obj_invD(2) [OF inv', of c] by (simp add: client_ok_def)
    show "heap_ok (drank ?h) (heaps ?h b')"
      using t(1) obj_invD(7) [OF inv, of b'] by (cases "b' = b") (auto simp: heap_inv_def)
    show "MsgTimerRemove b' a' \<in> set (msgs ?h) \<Longrightarrow> a' \<in> live ?h \<and> b' = home a'"
      using obj_invD(6) [OF inv', of b' a'] by simp
    show "MsgTimerPush b' a' \<in> set (msgs ?h) \<Longrightarrow> a' \<in> live ?h \<and> b' = home a' \<and> (\<forall>b'. a' \<notin># mset_heap ?h b')"
      using obj_invD(5) [OF inv', of b' a'] k unfolding h by (auto simp: keys_iff)
    show "a' \<in># mset_heap ?h b' \<Longrightarrow> a' \<in> live ?h \<and> home a' = b' \<and> count (mset_heap ?h b') a' = 1"
      using obj_invD(8) [OF inv, of a' b'] a(1,2) na unfolding h by (cases "a' = a"; cases "b' = b") auto
  qed
  moreover have "heap_live b s = Some ()" by (rule heap_live_inv [OF inv])
  moreover have "heap_live b (s\<lparr>heaps := (heaps s)(b := ?t)\<rparr>) = Some ()"
    by (rule heap_live_heap [OF inv]) (use t(1) in \<open>simp add: heap_inv_def\<close>)
  ultimately show ?thesis using a(1) by (auto simp: proc_push_def live_def)
qed

lemma obj_inv_cong:
  assumes "delegates s = delegates s'" "msgs s = msgs s'" "heaps s = heaps s'"
    "ltimers s = ltimers s'" "next_addr s = next_addr s'"
  shows "obj_inv home s = obj_inv home s'"
proof -
  have "drank s = drank s'" by (intro ext) (simp add: drank_def dtime_def assms)
  with assms show ?thesis
    by (simp add: obj_inv_def delegate_ok_def client_ok_def live_def mset_heap_def)
qed

lemma lock_inv_cong:
  "delegates s = delegates s' \<Longrightarrow> ltimers s = ltimers s' \<Longrightarrow> locks s = locks s' \<Longrightarrow>
     lock_inv s = lock_inv s'"
  by (simp add: lock_inv_def lock_count_def lock_users_def live_def)

lemma obj_inv_delete_delegate:
  assumes inv: "obj_inv home s" and ms: "msgs s = MsgTimerRemove b a # ms"
    and h: "\<forall>b'. a \<notin># mset_heap s b'"
  shows "obj_inv home (s\<lparr>msgs := ms, delegates := (delegates s)(a := None)\<rparr>)" (is "obj_inv home ?s")
proof (rule obj_invI)
  have k: "(False, a) \<notin> set (keys ms)" "(True, a) \<notin> set (keys ms)" "distinct (keys ms)" "keys_ordered (keys ms)"
    using obj_invD(3,4) [OF inv] by (simp_all add: ms)
  then show "distinct (keys (msgs ?s))" "keys_ordered (keys (msgs ?s))" by simp_all
  fix a' b' d c
  show "delegates ?s a' = Some d \<Longrightarrow> delegate_ok home ?s a' d"
    using obj_invD(1) [OF inv, of a' d] by (auto simp: delegate_ok_def ms split: if_splits)
  have "mClient d' = None" if "delegates s a = Some d'" for d'
    using obj_invD(1) [OF inv, of a d'] that by (auto simp: delegate_ok_def ms)
  then show "client_ok ?s c"
    using obj_invD(2) [OF inv, of c] by (fastforce simp: client_ok_def)
  show "MsgTimerPush b' a' \<in> set (msgs ?s) \<Longrightarrow> a' \<in> live ?s \<and> b' = home a' \<and> (\<forall>b'. a' \<notin># mset_heap ?s b')"
    using obj_invD(5) [OF inv, of b' a'] k by (auto simp: ms live_def keys_iff)
  show "MsgTimerRemove b' a' \<in> set (msgs ?s) \<Longrightarrow> a' \<in> live ?s \<and> b' = home a'"
    using obj_invD(6) [OF inv, of b' a'] k by (auto simp: ms live_def keys_iff)
  have "heap_ok (drank ?s) (heaps s b') = heap_ok (drank s) (heaps s b')"
    by (rule heap_ok_cong) (use h in \<open>auto simp: outRanks_def drank_def dtime_def mset_heap_def\<close>)
  with obj_invD(7) [OF inv] show "heap_ok (drank ?s) (heaps ?s b')" by simp
  show "a' \<in># mset_heap ?s b' \<Longrightarrow> a' \<in> live ?s \<and> home a' = b' \<and> count (mset_heap ?s b') a' = 1"
    using obj_invD(8) [OF inv, of a' b'] h by (auto simp: live_def)
qed

lemma lock_users_finite: "finite (live s) \<Longrightarrow> finite (lock_users s k)"
  by (rule finite_subset [of _ "live s"]) (auto simp: live_def lock_users_def)

lemma lock_inv_delete_delegate:
  assumes lk: "lock_inv s" and d: "delegates s a = Some d"
  shows "\<exists>s'. delete_delegate a s = Some s' \<and> lock_inv s' \<and>
    s' = s\<lparr>locks := locks s', delegates := (delegates s)(a := None)\<rparr>"
proof -
  let ?k = "mLock d"
  have fin: "finite (lock_users s k)" for k using lk lock_users_finite by (auto simp: lock_inv_def)
  have a: "a \<in> lock_users s ?k" using d by (auto simp: lock_users_def)
  then have c: "card (lock_users s ?k) = Suc (card (lock_users s ?k - {a}))"
    using fin card_Suc_Diff1 by metis
  then have n: "locks s ?k = Some (lock_count s ?k)" "lock_count s ?k \<ge> 1"
    using lk by (auto simp: lock_inv_def lock_count_def)
  have u: "lock_users (s\<lparr>locks := l, delegates := (delegates s)(a := None)\<rparr>) k =
      (if k = ?k then lock_users s ?k - {a} else lock_users s k)" for k l
    using d by (auto simp: lock_users_def)
  have cnt: "lock_count (s\<lparr>locks := l, delegates := (delegates s)(a := None)\<rparr>) k =
      (if k = ?k then lock_count s ?k - 1 else lock_count s k)" for k l
    using c by (simp add: lock_count_def u)
  have "live (s\<lparr>locks := l, delegates := (delegates s)(a := None)\<rparr>) \<subseteq> live s" for l
    by (auto simp: live_def)
  then have "finite (live (s\<lparr>locks := l, delegates := (delegates s)(a := None)\<rparr>))" for l
    using lk by (meson finite_subset lock_inv_def)
  with lk n d cnt show ?thesis
    by (auto simp: delete_delegate_def lock_drop_def lock_inv_def)
qed

lemma obj_inv_proc_remove:
  assumes inv: "obj_inv home s" and lk: "lock_inv s" and ms: "msgs s = MsgTimerRemove b a # ms"
  shows "\<exists>s'. proc_remove b a (s\<lparr>msgs := ms\<rparr>) = Some s' \<and> obj_inv home s' \<and> lock_inv s'"
proof -
  have a: "a \<in> live s" "b = home a" using obj_invD(6) [OF inv, of b a] ms by auto
  then obtain d where d: "delegates s a = Some d" by (auto simp: live_def)
  obtain t where t: "heap_remove (drank s) (heaps s b) a = Some (if a \<in># node_mset (heaps s b) then Some a else None, t)"
    "heap_inv (drank s) (live s) t" "node_mset t = mset_heap s b - {#a#}"
    using ranking.heap_remove_inv [OF live_ranking [OF inv] obj_inv_heap [OF inv] a(1), of b]
    by (auto simp: mset_heap_def)
  let ?r = "if a \<in># node_mset (heaps s b) then Some a else None"
  let ?h = "s\<lparr>heaps := (heaps s)(b := t)\<rparr>"
  have inv_h: "obj_inv home ?h"
    by (rule obj_inv_heap_shrink [OF inv]) (use t in \<open>auto simp: heap_inv_def\<close>)
  have cnt: "count (mset_heap s b') a \<le> (if b' = b then 1 else 0)" for b'
    using obj_invD(8) [OF inv, of a b'] a(2)
    by (cases "a \<in># mset_heap s b'") (auto simp: not_in_iff)
  have "a \<notin># mset_heap ?h b'" for b'
    using cnt [of b'] t(3) by (cases "b' = b") (auto simp: not_in_iff)
  then have inv_d: "obj_inv home (?h\<lparr>msgs := ms, delegates := (delegates ?h)(a := None)\<rparr>)"
    using obj_inv_delete_delegate [OF inv_h, of b a ms] ms by auto
  let ?s1 = "s\<lparr>msgs := ms, heaps := (heaps s)(b := t)\<rparr>"
  let ?s2 = "if heap_peek (heaps s b) = ?r then updateSoonestTime b None ?s1 else ?s1"
  have "lock_inv ?s2" "delegates ?s2 a = Some d" using lk d by auto
  from lock_inv_delete_delegate [OF this] obtain s' where s': "delete_delegate a ?s2 = Some s'" "lock_inv s'"
    "s' = ?s2\<lparr>locks := locks s', delegates := (delegates ?s2)(a := None)\<rparr>" by blast
  have "delegates s' = (delegates s)(a := None)" "msgs s' = ms" "heaps s' = (heaps s)(b := t)"
    "ltimers s' = ltimers s" "next_addr s' = next_addr s"
    by (subst s'(3); auto simp: updateSoonestTime_def Let_def split: option.splits)+
  then have "obj_inv home s'"
    using inv_d by (subst obj_inv_cong [of _ "?h\<lparr>msgs := ms, delegates := (delegates ?h)(a := None)\<rparr>"]) auto
  moreover have "heap_live b s = Some ()" by (rule heap_live_inv [OF inv])
  moreover have "heap_live b (s\<lparr>heaps := (heaps s)(b := t)\<rparr>) = Some ()"
    by (rule heap_live_heap [OF inv]) (use t(2) in \<open>simp add: heap_inv_def\<close>)
  ultimately show ?thesis using s' t(1) d by (auto simp: proc_remove_def Let_def)
qed

text \<open>Taking a timer out of a heap.\<close>

lemma obj_inv_pop:
  assumes inv: "obj_inv home s"
  shows "\<exists>p t. heap_pop (drank s) (heaps s b) = Some (p, t) \<and>
    obj_inv home (s\<lparr>heaps := (heaps s)(b := t)\<rparr>) \<and> p = heap_peek (heaps s b) \<and>
    (\<forall>a. p = Some a \<longrightarrow> a \<in> live s)"
proof -
  obtain p t where t: "heap_pop (drank s) (heaps s b) = Some (p, t)" "heap_inv (drank s) (live s) t"
    "p = heap_peek (heaps s b)" "node_mset (heaps s b) = node_mset t + mset_set (set_option p)"
    using ranking.heap_pop_inv [OF live_ranking [OF inv] obj_inv_heap [OF inv], of b] by blast
  have "obj_inv home (s\<lparr>heaps := (heaps s)(b := t)\<rparr>)"
    by (rule obj_inv_heap_shrink [OF inv]) (use t in \<open>auto simp: heap_inv_def mset_heap_def\<close>)
  moreover have "a \<in> live s" if "p = Some a" for a
    using obj_invD(8) [OF inv, of a b] heap_peek_mset [of "heaps s b" a] that t(3)
    by (simp add: mset_heap_def)
  ultimately show ?thesis using t by blast
qed

lemma obj_inv_popIfOutRanks:
  assumes inv: "obj_inv home s"
  shows "\<exists>p s'. popIfOutRanks b now s = Some (p, s') \<and> obj_inv home s' \<and>
    (\<forall>a. p = Some a \<longrightarrow> a \<in> live s') \<and> (\<exists>t. s' = s\<lparr>heaps := (heaps s)(b := t)\<rparr>)"
proof -
  obtain p t where t: "heap_pop (drank s) (heaps s b) = Some (p, t)"
    "obj_inv home (s\<lparr>heaps := (heaps s)(b := t)\<rparr>)" "\<forall>a. p = Some a \<longrightarrow> a \<in> live s"
    using obj_inv_pop [OF inv] by blast
  moreover have "\<exists>t. s = s\<lparr>heaps := (heaps s)(b := t)\<rparr>" by (rule exI [of _ "heaps s b"]) simp
  ultimately show ?thesis using inv heap_live_inv [OF inv]
    by (cases "heap_peek (heaps s b)") (auto simp: popIfOutRanks_def)
qed

subsection \<open>The clients\<close>

lemma timer_stop_inv:
  assumes inv: "obj_inv home s" and lk: "lock_inv s" and c: "ltimers s c \<noteq> None"
  shows "\<exists>ok s'. timer_stop c s = Some (ok, s') \<and> obj_inv home s' \<and> lock_inv s' \<and>
    heaps s' = heaps s \<and> fd_time s' = fd_time s \<and> polled s' = polled s \<and> poll_pc s' = poll_pc s \<and>
    mt_pc s' = mt_pc s \<and> clock s' = clock s \<and> dtime s' = dtime s \<and> locks s' = locks s \<and>
    set (msgs s) \<subseteq> set (msgs s') \<and> ltimers s' = (ltimers s)(c \<mapsto> None)"
proof (cases "ltimers s c")
  case None
  with c show ?thesis by simp
next
  case (Some p)
  show ?thesis
  proof (cases p)
    case None
    with Some inv lk have "(ltimers s)(c \<mapsto> None) = ltimers s" by (simp add: fun_upd_idem)
    with Some None inv lk lock_held [OF lk c] show ?thesis
      by (intro exI [of _ False] exI [of _ s]) (simp add: timer_stop_def)
  next
    case a: (Some a)
    obtain d where d: "delegates s a = Some d" "mClient d = Some c"
      using obj_invD(2) [OF inv, of c] Some a by (auto simp: client_ok_def)
    then have dok: "delegate_ok home s a d" using obj_invD(1) [OF inv] by simp
    then have k: "(False, a) \<notin> set (keys (msgs s))" and ct: "mContainer d = Some (home a)"
      using d(2) by (auto simp: delegate_ok_def)
    let ?d = "d\<lparr>mClient := None, mContainer := None\<rparr>"
    let ?s = "s\<lparr>ltimers := (ltimers s)(c \<mapsto> None), delegates := (delegates s)(a \<mapsto> ?d),
                msgs := msgs s @ [MsgTimerRemove (home a) a]\<rparr>"
    have stop: "timer_stop c s = Some (True, ?s)"
      using Some a d ct lock_held [OF lk c]
      by (simp add: timer_stop_def destroyLocked_def sendMsg_def lock_unlock_def)
    have "obj_inv home ?s"
    proof (rule obj_invI)
      show "distinct (keys (msgs ?s))" "keys_ordered (keys (msgs ?s))"
        using obj_invD(3,4) [OF inv] k by simp_all
      fix a' b' d' c'
      show "delegates ?s a' = Some d' \<Longrightarrow> delegate_ok home ?s a' d'"
        using obj_invD(1) [OF inv, of a' d'] dok d(2) Some a by (auto simp: delegate_ok_def split: if_splits)
      show "client_ok ?s c'"
        using obj_invD(2) [OF inv, of c'] d(2) by (fastforce simp: client_ok_def d(1))
      show "MsgTimerPush b' a' \<in> set (msgs ?s) \<Longrightarrow> a' \<in> live ?s \<and> b' = home a' \<and> (\<forall>b'. a' \<notin># mset_heap ?s b')"
        using obj_invD(5) [OF inv, of b' a'] by (auto simp: live_def)
      show "MsgTimerRemove b' a' \<in> set (msgs ?s) \<Longrightarrow> a' \<in> live ?s \<and> b' = home a'"
        using obj_invD(6) [OF inv, of b' a'] by (auto simp: live_def)
      have "heap_ok (drank ?s) (heaps s b') = heap_ok (drank s) (heaps s b')"
        by (rule heap_ok_cong) (auto simp: outRanks_def drank_def dtime_def d(1))
      with obj_invD(7) [OF inv] show "heap_ok (drank ?s) (heaps ?s b')" by simp
      show "a' \<in># mset_heap ?s b' \<Longrightarrow> a' \<in> live ?s \<and> home a' = b' \<and> count (mset_heap ?s b') a' = 1"
        using obj_invD(8) [OF inv, of a' b'] by (auto simp: live_def)
    qed
    moreover have "lock_inv ?s"
    proof -
      have u: "lock_users ?s k = lock_users s k" for k by (auto simp: lock_users_def d(1))
      have "live ?s = live s" by (auto simp: live_def d(1))
      moreover have "lock_count ?s k = lock_count s k" for k
        using Some by (auto simp: lock_count_def u)
      ultimately show ?thesis using lk by (simp add: lock_inv_def)
    qed
    moreover have "dtime ?s = dtime s" by (auto simp: dtime_def fun_eq_iff d(1))
    ultimately show ?thesis using stop
      by (intro exI [of _ True] exI [of _ ?s]) (simp add: subset_insertI)
  qed
qed

lemma timer_start_inv:
  assumes inv: "obj_inv home s" and lk: "lock_inv s" and c: "ltimers s c \<noteq> None"
    and v: "valid_time (timer_future (clock s) ms)"
  shows "\<exists>ok s' home'. timer_start c ms wake s = Some (ok, s') \<and> obj_inv home' s' \<and> lock_inv s' \<and>
    heaps s' = heaps s \<and> fd_time s' = fd_time s \<and> polled s' = polled s \<and> poll_pc s' = poll_pc s \<and>
    mt_pc s' = mt_pc s \<and> clock s' = clock s \<and> (\<forall>a \<in> live s. dtime s' a = dtime s a) \<and>
    set (msgs s) \<subseteq> set (msgs s') \<and> (\<forall>c. ltimers s' c = None \<longleftrightarrow> ltimers s c = None)"
proof (cases "ltimers s c = Some None")
  case False
  with c obtain y where "ltimers s c = Some (Some y)" by auto
  with inv lk lock_held [OF lk c] show ?thesis
    by (intro exI [of _ False] exI [of _ s] exI [of _ home]) (simp add: timer_start_def)
next
  case True
  let ?a = "next_addr s"
  let ?home = "home(?a := wake)"
  let ?d = "\<lparr>mClient = Some c, mLock = c, mFutureTime = timer_future (clock s) ms, mContainer = Some wake\<rparr>"
  have old: "a < ?a" if "delegates s a = Some d" for a d
    using obj_invD(1) [OF inv that] by (simp add: delegate_ok_def)
  then have fresh: "delegates s ?a = None" by fastforce
  then have nl: "?a \<notin> live s" by (simp add: live_def)
  have k: "(x, ?a) \<notin> set (keys (msgs s))" for x
    using obj_invD(5,6) [OF inv, of _ ?a] nl by (cases x) (auto simp: keys_iff)
  have nh: "?a \<notin># mset_heap s b" for b using obj_invD(8) [OF inv, of ?a b] nl by auto
  obtain n where n: "locks s c = Some n" "n = lock_count s c"
    using lk True by (auto simp: lock_inv_def lock_count_def)
  let ?s = "s\<lparr>locks := (locks s)(c \<mapsto> n + 1), delegates := (delegates s)(?a \<mapsto> ?d),
              next_addr := Suc ?a, msgs := msgs s @ [MsgTimerPush wake ?a], ltimers := (ltimers s)(c \<mapsto> Some ?a)\<rparr>"
  have start: "timer_start c ms wake s = Some (True, ?s)"
    using True n by (simp add: timer_start_def lock_share_def sendMsg_def lock_lock_def lock_unlock_def Let_def)
  have "obj_inv ?home ?s"
  proof (rule obj_invI)
    show "distinct (keys (msgs ?s))" "keys_ordered (keys (msgs ?s))"
      using obj_invD(3,4) [OF inv] k by auto
    fix a' b' d' c'
    show "delegates ?s a' = Some d' \<Longrightarrow> delegate_ok ?home ?s a' d'"
      using obj_invD(1) [OF inv, of a' d'] k v True fresh by (auto simp: delegate_ok_def split: if_splits)
    show "client_ok ?s c'"
      using obj_invD(2) [OF inv, of c'] fresh by (fastforce simp: client_ok_def)
    show "MsgTimerPush b' a' \<in> set (msgs ?s) \<Longrightarrow> a' \<in> live ?s \<and> b' = ?home a' \<and> (\<forall>b'. a' \<notin># mset_heap ?s b')"
      using obj_invD(5) [OF inv, of b' a'] nl nh by (auto simp: live_def)
    show "MsgTimerRemove b' a' \<in> set (msgs ?s) \<Longrightarrow> a' \<in> live ?s \<and> b' = ?home a'"
      using obj_invD(6) [OF inv, of b' a'] nl by (auto simp: live_def)
    have "heap_ok (drank ?s) (heaps s b') = heap_ok (drank s) (heaps s b')"
      by (rule heap_ok_cong) (use nh in \<open>auto simp: outRanks_def drank_def dtime_def mset_heap_def\<close>)
    with obj_invD(7) [OF inv] show "heap_ok (drank ?s) (heaps ?s b')" by simp
    show "a' \<in># mset_heap ?s b' \<Longrightarrow> a' \<in> live ?s \<and> ?home a' = b' \<and> count (mset_heap ?s b') a' = 1"
      using obj_invD(8) [OF inv, of a' b'] nl by (auto simp: live_def)
  qed
  moreover have "lock_inv ?s"
  proof -
    have u: "lock_users ?s k = (if k = c then insert ?a (lock_users s c) else lock_users s k)" for k
      using fresh by (auto simp: lock_users_def)
    have l: "live ?s = insert ?a (live s)" by (auto simp: live_def)
    have "?a \<notin> lock_users s c" using fresh by (auto simp: lock_users_def)
    then have cnt: "lock_count ?s k = (if k = c then lock_count s c + 1 else lock_count s k)" for k
      using True lk lock_users_finite [of s c] by (auto simp: lock_count_def u lock_inv_def)
    have "lock_count s c + 1 \<noteq> 0" by (simp add: lock_count_def)
    with lk cnt l n show ?thesis by (simp add: lock_inv_def)
  qed
  moreover have "dtime ?s a = dtime s a" if "a \<in> live s" for a
    using nl that by (auto simp: dtime_def)
  ultimately show ?thesis using start True by (intro exI [of _ True] exI [of _ ?s] exI [of _ ?home]) auto
qed

lemma timer_new_inv:
  assumes inv: "obj_inv home s" and lk: "lock_inv s" and c: "ltimers s c = None" "locks s c = None"
  shows "obj_inv home (timer_new c s) \<and> lock_inv (timer_new c s)"
proof -
  let ?s = "s\<lparr>ltimers := (ltimers s)(c \<mapsto> None), locks := (locks s)(c \<mapsto> 1)\<rparr>"
  have "obj_inv home ?s"
  proof (rule obj_invI)
    fix a b d c'
    show "delegates ?s a = Some d \<Longrightarrow> delegate_ok home ?s a d"
      using obj_invD(1) [OF inv, of a d] c by (auto simp: delegate_ok_def)
    show "client_ok ?s c'" using obj_invD(2) [OF inv, of c'] by (simp add: client_ok_def)
  qed (use obj_invD(3-8) [OF inv] in simp_all)
  moreover have "lock_inv ?s"
  proof -
    have "lock_count s c = 0" using lk c by (auto simp: lock_inv_def split: if_splits)
    moreover have "lock_users ?s k = lock_users s k" for k by (simp add: lock_users_def)
    ultimately have "lock_count ?s k = (if k = c then 1 else lock_count s k)" for k
      using c by (simp add: lock_count_def)
    with lk show ?thesis by (simp add: lock_inv_def)
  qed
  ultimately show ?thesis by (simp add: timer_new_def)
qed

lemma timer_delete_inv:
  assumes inv: "obj_inv home s" and lk: "lock_inv s" and c: "ltimers s c \<noteq> None"
  shows "\<exists>s'. timer_delete c s = Some s' \<and> obj_inv home s' \<and> lock_inv s' \<and>
    heaps s' = heaps s \<and> fd_time s' = fd_time s \<and> polled s' = polled s \<and> poll_pc s' = poll_pc s \<and>
    mt_pc s' = mt_pc s \<and> clock s' = clock s \<and> dtime s' = dtime s \<and>
    set (msgs s) \<subseteq> set (msgs s') \<and> ltimers s' = (ltimers s)(c := None)"
proof -
  obtain ok s1 where s1: "timer_stop c s = Some (ok, s1)" "obj_inv home s1" "lock_inv s1"
    "heaps s1 = heaps s" "fd_time s1 = fd_time s" "polled s1 = polled s" "poll_pc s1 = poll_pc s"
    "mt_pc s1 = mt_pc s" "clock s1 = clock s" "dtime s1 = dtime s" "set (msgs s) \<subseteq> set (msgs s1)"
    "ltimers s1 = (ltimers s)(c \<mapsto> None)"
    using timer_stop_inv [OF assms] by blast
  obtain n where n: "locks s1 c = Some n" "n = lock_count s1 c" "n \<ge> 1"
    using s1(3,12) by (auto simp: lock_inv_def lock_count_def)
  let ?l = "if 1 = n then (locks s1)(c := None) else (locks s1)(c \<mapsto> n - 1)"
  let ?s = "s1\<lparr>locks := ?l, ltimers := (ltimers s1)(c := None)\<rparr>"
  have del: "timer_delete c s = Some ?s" using s1(1) n(1) by (simp add: timer_delete_def lock_drop_def)
  have "obj_inv home ?s"
  proof (rule obj_invI)
    fix a b d c'
    show "delegates ?s a = Some d \<Longrightarrow> delegate_ok home ?s a d"
      using obj_invD(1) [OF s1(2), of a d] s1(12) by (auto simp: delegate_ok_def)
    show "client_ok ?s c'" using obj_invD(2) [OF s1(2), of c'] by (simp add: client_ok_def)
  qed (use obj_invD(3-8) [OF s1(2)] in simp_all)
  moreover have "lock_inv ?s"
  proof -
    have "lock_users ?s k = lock_users s1 k" for k by (simp add: lock_users_def)
    then have "lock_count ?s k = (if k = c then n - 1 else lock_count s1 k)" for k
      unfolding n(2) using s1(12) by (simp add: lock_count_def)
    with s1(3) n show ?thesis by (auto simp: lock_inv_def)
  qed
  ultimately show ?thesis using s1 del by (intro exI [of _ ?s]) simp
qed

subsection \<open>No timer is forgotten\<close>

lemma armed_cong:
  assumes "armed s b" "heaps s' b = heaps s b" "polled s' b = polled s b" "fd_time s' b = fd_time s b"
    "\<And>a. a \<in># mset_heap s b \<Longrightarrow> dtime s' a = dtime s a"
  shows "armed s' b"
  using assms heap_peek_mset [of "heaps s b"] by (auto simp: armed_def mset_heap_def)

lemma armed_inv_frame:
  assumes "armed_inv s" "heaps s' = heaps s" "polled s' = polled s" "fd_time s' = fd_time s"
    "\<And>a b. a \<in># mset_heap s b \<Longrightarrow> dtime s' a = dtime s a"
    "poll_pc s' = poll_pc s" "mt_pc s' = mt_pc s" "set (msgs s) \<subseteq> set (msgs s')"
  shows "armed_inv s'"
proof -
  have "armed s' b \<or> expiring s' b" for b
  proof (cases "armed s b")
    case True
    then show ?thesis using armed_cong [OF True, of s'] assms by auto
  next
    case False
    then have "expiring s b" using assms(1) by (auto simp: armed_inv_def)
    then have "expiring s' b" using assms(6-8) by (auto simp: expiring_def)
    then show ?thesis ..
  qed
  then show ?thesis using assms(1,6) by (simp add: armed_inv_def)
qed

lemma updateSoonestTime_other [simp]:
  "next_addr (updateSoonestTime b p s) = next_addr s"
  "b' \<noteq> b \<Longrightarrow> polled (updateSoonestTime b p s) b' = polled s b'"
  "b' \<noteq> b \<Longrightarrow> fd_time (updateSoonestTime b p s) b' = fd_time s b'"
  by (auto simp: updateSoonestTime_def Let_def split: option.splits)

lemma delete_delegate_fields:
  "delete_delegate a s = Some s' \<Longrightarrow>
     heaps s' = heaps s \<and> polled s' = polled s \<and> fd_time s' = fd_time s \<and> msgs s' = msgs s \<and>
     poll_pc s' = poll_pc s \<and> mt_pc s' = mt_pc s \<and> clock s' = clock s \<and> ltimers s' = ltimers s \<and>
     (\<forall>x. x \<noteq> a \<longrightarrow> dtime s' x = dtime s x)"
  by (auto simp: delete_delegate_def lock_drop_def dtime_def)

lemma armed_proc_remove:
  assumes inv: "obj_inv home s" and inv': "obj_inv home s'" and ms: "msgs s = MsgTimerRemove b a # ms"
    and rm: "proc_remove b a (s\<lparr>msgs := ms\<rparr>) = Some s'"
  shows "armed s b' \<Longrightarrow> armed s' b'"
    and "msgs s' = ms" "poll_pc s' = poll_pc s" "mt_pc s' = mt_pc s" "clock s' = clock s" "ltimers s' = ltimers s"
proof -
  have a: "a \<in> live s" using obj_invD(6) [OF inv, of b a] ms by auto
  obtain t where t: "heap_remove (drank s) (heaps s b) a = Some (if a \<in># node_mset (heaps s b) then Some a else None, t)"
    "node_mset t = mset_heap s b - {#a#}"
    using ranking.heap_remove_inv [OF live_ranking [OF inv] obj_inv_heap [OF inv] a(1), of b]
    by (auto simp: mset_heap_def)
  let ?r = "if a \<in># node_mset (heaps s b) then Some a else None"
  let ?s1 = "s\<lparr>msgs := ms, heaps := (heaps s)(b := t)\<rparr>"
  let ?s2 = "if heap_peek (heaps s b) = ?r then updateSoonestTime b None ?s1 else ?s1"
  have del: "delete_delegate a ?s2 = Some s'"
    using rm t(1) a by (auto simp: proc_remove_def Let_def live_def split: if_splits)
  note f = delete_delegate_fields [OF del]
  show "msgs s' = ms" "poll_pc s' = poll_pc s" "mt_pc s' = mt_pc s" "clock s' = clock s" "ltimers s' = ltimers s"
    using f by (auto split: if_splits)
  have gone: "a \<notin># mset_heap s' x" for x
  proof
    assume "a \<in># mset_heap s' x"
    moreover have "delegates s' a = None" using del by (auto simp: delete_delegate_def)
    ultimately show False using obj_invD(8) [OF inv', of a x] by (auto simp: live_def)
  qed
  have h: "heaps s' = (heaps s)(b := t)" using f by (auto split: if_splits)
  have dt: "dtime s' x = dtime s x" if "x \<in># mset_heap s' y" for x y
    using f gone [of y] that by (auto split: if_splits)
  assume ar: "armed s b'"
  show "armed s' b'"
  proof (cases "b' = b")
    case False
    with ar f h show ?thesis
      using dt [of _ b'] heap_peek_mset [of "heaps s b'"] by (auto simp: armed_def mset_heap_def split: if_splits)
  next
    case b [simp]: True
    show ?thesis
    proof (cases "heap_peek (heaps s b) = ?r")
      case True
      then have s2: "?s2 = updateSoonestTime b None ?s1" by simp
      have "armed (updateSoonestTime b None ?s1) b" by (rule updateSoonestTime_armed)
      then show ?thesis
        using f dt [of _ b] heap_peek_mset [of "heaps s' b"] unfolding s2
        by (auto simp: armed_def mset_heap_def h)
    next
      case False
      then have ne: "heap_peek (heaps s b) \<noteq> Some a"
        using heap_peek_mset [of "heaps s b" a] by (auto split: if_splits)
      have "heap_peek t = heap_peek (heaps s b)"
        by (rule heap_peek_remove [OF t(1) False ne])
      with ar f False dt [of _ b] heap_peek_mset [of "heaps s' b"] show ?thesis
        by (auto simp: armed_def mset_heap_def h)
    qed
  qed
qed

lemma timer_invI:
  "obj_inv home s \<Longrightarrow> lock_inv s \<Longrightarrow> armed_inv s \<Longrightarrow> mt_ok s \<Longrightarrow> valid_time (clock s) \<Longrightarrow> timer_inv s"
  by (auto simp: timer_inv_def)

lemma mt_exec_push:
  assumes inv: "timer_inv s" and pc: "mt_pc s = MtIdle" and ms: "msgs s = MsgTimerPush b a # ms"
  shows "\<exists>s'. mt_exec s = Some s' \<and> timer_inv s'"
proof -
  from inv obtain home where oi: "obj_inv home s" by (auto simp: timer_inv_def)
  let ?h = "s\<lparr>msgs := ms, heaps := (heaps s)(b := heap_push (drank s) (heaps s b) a)\<rparr>"
  let ?s = "updateSoonestTime b (heap_peek (heaps s b)) ?h"
  have a: "a \<in> live s" "a \<notin># mset_heap s b" using obj_invD(5) [OF oi, of b a] ms by auto
  obtain s' where s': "proc_push b a (s\<lparr>msgs := ms\<rparr>) = Some s'" "obj_inv home s'"
    using obj_inv_proc_push [OF oi ms] by blast
  have eq: "s' = ?s" using s'(1) by (auto simp: proc_push_def Let_def)
  have "armed ?s b' \<or> expiring ?s b'" for b'
  proof (cases "armed s b'")
    case True
    have "armed (s\<lparr>msgs := ms\<rparr>) b'" using True by (simp add: armed_def)
    then have "armed ?s b'"
      using armed_push [of "s\<lparr>msgs := ms\<rparr>" b a] a(2)
      by (cases "b' = b") (auto simp: updateSoonestTime_armed armed_def)
    then show ?thesis ..
  next
    case False
    with inv have "expiring s b'" by (auto simp: timer_inv_def armed_inv_def)
    then show ?thesis by (auto simp: expiring_def ms)
  qed
  with inv s' eq show ?thesis
    by (auto simp: mt_exec_def pc ms timer_inv_def armed_inv_def mt_ok_def)
qed

lemma mt_exec_remove:
  assumes inv: "timer_inv s" and pc: "mt_pc s = MtIdle" and ms: "msgs s = MsgTimerRemove b a # ms"
  shows "\<exists>s'. mt_exec s = Some s' \<and> timer_inv s'"
proof -
  from inv obtain home where oi: "obj_inv home s" by (auto simp: timer_inv_def)
  obtain s' where s': "proc_remove b a (s\<lparr>msgs := ms\<rparr>) = Some s'" "obj_inv home s'" "lock_inv s'"
    using obj_inv_proc_remove [OF oi _ ms] inv by (auto simp: timer_inv_def)
  note ar = armed_proc_remove [OF oi s'(2) ms s'(1)]
  have "armed s' b' \<or> expiring s' b'" for b'
    using inv ar(1) [of b'] ar(2-) ms by (auto simp: timer_inv_def armed_inv_def expiring_def)
  with inv s' ar(2-) show ?thesis
    by (auto simp: mt_exec_def pc ms timer_inv_def armed_inv_def mt_ok_def)
qed

text \<open>A step that leaves the objects alone and moves only the MsgTask thread within one container.\<close>

lemma mt_exec_pop:
  assumes inv: "timer_inv s" and pc: "mt_pc s = MtPop b now first"
  shows "\<exists>s'. mt_exec s = Some s' \<and> timer_inv s'"
proof -
  from inv obtain home where oi: "obj_inv home s" by (auto simp: timer_inv_def)
  have "\<exists>p s1 t. (if first
          then do { _ \<leftarrow> heap_live b s; (p, h) \<leftarrow> heap_pop (drank s) (heaps s b); Some (p, s\<lparr>heaps := (heaps s)(b := h)\<rparr>) }
          else popIfOutRanks b now s) = Some (p, s1) \<and> obj_inv home s1 \<and>
      (\<forall>a. p = Some a \<longrightarrow> a \<in> live s1) \<and> s1 = s\<lparr>heaps := (heaps s)(b := t)\<rparr>"
    using obj_inv_pop [OF oi, of b] obj_inv_popIfOutRanks [OF oi, of b now] heap_live_inv [OF oi, of b] by (cases first) fastforce+
  then obtain p s1 t where s1: "(if first
          then do { _ \<leftarrow> heap_live b s; (p, h) \<leftarrow> heap_pop (drank s) (heaps s b); Some (p, s\<lparr>heaps := (heaps s)(b := h)\<rparr>) }
          else popIfOutRanks b now s) = Some (p, s1)" "obj_inv home s1"
      "\<forall>a. p = Some a \<longrightarrow> a \<in> live s1" "s1 = s\<lparr>heaps := (heaps s)(b := t)\<rparr>" by blast
  have ar: "armed_inv (s1\<lparr>mt_pc := pc'\<rparr>)"
    if "expiring (s1\<lparr>mt_pc := pc'\<rparr>) b" for pc'
  proof -
    have "armed (s1\<lparr>mt_pc := pc'\<rparr>) b' \<or> expiring (s1\<lparr>mt_pc := pc'\<rparr>) b'" for b'
    proof (cases "b' = b")
      case True
      with that show ?thesis by simp
    next
      case False
      with inv pc s1(4) show ?thesis by (auto simp: timer_inv_def armed_inv_def armed_def expiring_def)
    qed
    moreover have "poll_ok (poll_pc s1)" using inv s1(4) by (auto simp: armed_inv_def timer_inv_def)
    ultimately show ?thesis by (simp add: armed_inv_def)
  qed
  have lk: "lock_inv s1" "valid_time (clock s1)" using inv s1(4) by (auto simp: timer_inv_def)
  show ?thesis
  proof (cases p)
    case None
    have "timer_inv (s1\<lparr>mt_pc := MtUpdate b\<rparr>)"
      by (rule timer_invI [of home]) (use s1 lk ar in \<open>auto simp: mt_ok_def expiring_def\<close>)
    with None s1(1) pc show ?thesis by (auto simp: mt_exec_def)
  next
    case (Some a)
    then obtain d where d: "delegates s1 a = Some d" using s1(3) by (auto simp: live_def)
    have cl: "ltimers s1 c \<noteq> None" if "mClient d = Some c" for c
      using obj_invD(1) [OF s1(2) d] that by (auto simp: delegate_ok_def)
    have "timer_inv (s1\<lparr>mt_pc := (case mClient d of None \<Rightarrow> MtPop b now False | Some c \<Rightarrow> MtStop b now c a)\<rparr>)"
      by (rule timer_invI [of home])
        (use s1 lk ar cl in \<open>auto simp: mt_ok_def expiring_def split: option.splits\<close>)
    with Some s1(1) pc d show ?thesis by (auto simp: mt_exec_def)
  qed
qed

lemma timer_inv_mt:
  assumes "timer_inv s" "expiring (s\<lparr>mt_pc := pc'\<rparr>) b" "mt_ok (s\<lparr>mt_pc := pc'\<rparr>)"
    and "\<And>b'. b' \<noteq> b \<Longrightarrow> expiring s b' \<Longrightarrow> expiring (s\<lparr>mt_pc := pc'\<rparr>) b'"
  shows "timer_inv (s\<lparr>mt_pc := pc'\<rparr>)"
proof -
  have "armed (s\<lparr>mt_pc := pc'\<rparr>) b' \<or> expiring (s\<lparr>mt_pc := pc'\<rparr>) b'" for b'
  proof (cases "b' = b")
    case True
    with assms(2) show ?thesis by simp
  next
    case False
    with assms(1) assms(4) [of b'] show ?thesis by (auto simp: timer_inv_def armed_inv_def armed_def)
  qed
  with assms(1,3) show ?thesis by (auto simp: timer_inv_def armed_inv_def)
qed

lemma timer_inv_stop:
  assumes inv: "timer_inv s" and c: "ltimers s c \<noteq> None"
  shows "\<exists>ok s'. timer_stop c s = Some (ok, s') \<and> timer_inv s' \<and> mt_pc s' = mt_pc s \<and>
     (\<forall>c'. ltimers s' c' = None \<longleftrightarrow> ltimers s c' = None)"
proof -
  from inv obtain home where oi: "obj_inv home s" by (auto simp: timer_inv_def)
  have lk: "lock_inv s" using inv by (simp add: timer_inv_def)
  obtain ok s' where s': "timer_stop c s = Some (ok, s')" "obj_inv home s'" "lock_inv s'"
    "heaps s' = heaps s" "fd_time s' = fd_time s" "polled s' = polled s" "poll_pc s' = poll_pc s"
    "mt_pc s' = mt_pc s" "clock s' = clock s" "dtime s' = dtime s" "set (msgs s) \<subseteq> set (msgs s')"
    "ltimers s' = (ltimers s)(c \<mapsto> None)"
    using timer_stop_inv [OF oi lk c] by blast
  have "armed_inv s'" by (rule armed_inv_frame [of s]) (use inv s' in \<open>auto simp: timer_inv_def\<close>)
  moreover have "mt_ok s'" using inv s' by (auto simp: timer_inv_def mt_ok_def split: mt_state.splits)
  ultimately have "timer_inv s'" using s' inv by (auto simp: timer_inv_def)
  with s' c show ?thesis by auto
qed

lemma mt_exec_inv:
  assumes inv: "timer_inv s"
  shows "\<exists>s'. mt_exec s = Some s' \<and> timer_inv s'"
proof (cases "mt_pc s")
  case MtIdle
  show ?thesis
  proof (cases "msgs s")
    case Nil
    with MtIdle inv show ?thesis by (simp add: mt_exec_def)
  next
    case (Cons m ms)
    show ?thesis
    proof (cases m)
      case (MsgTimerPush b a)
      with Cons mt_exec_push [OF inv MtIdle] show ?thesis by simp
    next
      case (MsgTimerRemove b a)
      with Cons mt_exec_remove [OF inv MtIdle] show ?thesis by simp
    next
      case (MsgTimerExpire b)
      from inv obtain home where oi: "obj_inv home s" by (auto simp: timer_inv_def)
      have o1: "obj_inv home (s\<lparr>msgs := ms\<rparr>)"
        by (rule obj_inv_pop_msg [OF oi Cons]) (simp add: MsgTimerExpire)
      let ?s = "s\<lparr>msgs := ms, mt_pc := MtPop b (clock s) True\<rparr>"
      have "armed s b' \<or> expiring ?s b'" for b'
        using inv MtIdle Cons MsgTimerExpire by (auto simp: timer_inv_def armed_inv_def expiring_def)
      then have "armed_inv ?s" using inv by (auto simp: armed_inv_def armed_def timer_inv_def)
      then have "timer_inv ?s"
        using inv o1 by (intro timer_invI [of home]) (auto simp: timer_inv_def mt_ok_def)
      with MtIdle Cons MsgTimerExpire show ?thesis by (simp add: mt_exec_def)
    qed
  qed
next
  case (MtPop b now first)
  with mt_exec_pop [OF inv] show ?thesis by simp
next
  case (MtStop b now c a)
  have "ltimers s c \<noteq> None" using inv MtStop by (auto simp: timer_inv_def mt_ok_def)
  from timer_inv_stop [OF inv this] obtain ok s' where s': "timer_stop c s = Some (ok, s')" "timer_inv s'"
    "mt_pc s' = mt_pc s" "\<forall>c'. ltimers s' c' = None \<longleftrightarrow> ltimers s c' = None" by blast
  have "timer_inv (s'\<lparr>mt_pc := (if ok then MtCallback b now c a else MtPop b now False)\<rparr>)"
    by (rule timer_inv_mt [where b = b])
      (use s' MtStop \<open>ltimers s c \<noteq> None\<close> in \<open>auto simp: expiring_def mt_ok_def\<close>)
  with s'(1) MtStop show ?thesis by (simp add: mt_exec_def)
next
  case (MtCallback b now c a)
  let ?s = "s\<lparr>callbacks := callbacks s @ [(c, a, clock s)]\<rparr>"
  have c: "ltimers s c \<noteq> None" using inv MtCallback by (auto simp: timer_inv_def mt_ok_def)
  have "timer_inv ?s"
    using inv MtCallback by (auto simp: timer_inv_def armed_inv_def armed_def expiring_def mt_ok_def)
  then have "timer_inv (?s\<lparr>mt_pc := MtPop b now False\<rparr>)"
    by (rule timer_inv_mt [where b = b]) (use MtCallback in \<open>auto simp: expiring_def mt_ok_def\<close>)
  with MtCallback c show ?thesis by (auto simp: mt_exec_def)
next
  case (MtUpdate b)
  from inv obtain home where oi: "obj_inv home s" by (auto simp: timer_inv_def)
  let ?s = "updateSoonestTime b None (s\<lparr>mt_pc := MtIdle\<rparr>)"
  have "armed ?s b' \<or> expiring ?s b'" for b'
    using inv MtUpdate updateSoonestTime_armed
    by (cases "b' = b") (auto simp: timer_inv_def armed_inv_def expiring_def armed_def)
  then have "timer_inv ?s"
    using inv oi by (intro timer_invI [of home]) (auto simp: timer_inv_def armed_inv_def mt_ok_def)
  with MtUpdate heap_live_inv [OF oi] show ?thesis by (simp add: mt_exec_def)
qed

subsection \<open>Every event\<close>

lemma poll_ok_append: "poll_ok xs \<Longrightarrow> poll_ok ys \<Longrightarrow> poll_ok (xs @ ys)"
  by (induction xs) (auto split: poll_act.splits)

lemma poll_ok_epoll: "poll_ok (concat (map (\<lambda>b. [SetTimeZero b, RemovePoll b, SendExpire b]) bs))"
proof (induction bs)
  case (Cons b bs)
  have "poll_ok [SetTimeZero b, RemovePoll b, SendExpire b]" by simp
  from poll_ok_append [OF this Cons.IH] show ?case by (simp del: poll_ok.simps)
qed simp

lemma timer_inv_poll:
  assumes inv: "timer_inv s" and pc: "poll_pc s = act # acts"
  shows "timer_inv (poll_act_exec act (s\<lparr>poll_pc := acts\<rparr>))"
proof -
  from inv obtain home where oi: "obj_inv home s" by (auto simp: timer_inv_def)
  let ?s = "poll_act_exec act (s\<lparr>poll_pc := acts\<rparr>)"
  have ok: "poll_ok (act # acts)" using inv pc by (simp add: timer_inv_def armed_inv_def)
  have "obj_inv home ?s"
  proof (cases act)
    case (SendExpire b)
    have "obj_inv home (s\<lparr>msgs := msgs s @ [MsgTimerExpire b]\<rparr>)"
      by (rule obj_invI) (use obj_invD [OF oi] in \<open>auto simp: delegate_ok_def client_ok_def\<close>)
    moreover have "obj_inv home ?s = obj_inv home (s\<lparr>msgs := msgs s @ [MsgTimerExpire b]\<rparr>)"
      by (rule obj_inv_cong) (simp_all add: SendExpire sendMsg_def)
    ultimately show ?thesis by simp
  qed (use oi in simp_all)
  moreover have "armed ?s b' \<or> expiring ?s b'" for b'
    using inv ok pc
    by (cases act) (auto simp: timer_inv_def armed_inv_def armed_def expiring_def sendMsg_def)
  moreover have "lock_inv ?s" "mt_ok ?s" "valid_time (clock ?s)" "poll_ok (poll_pc ?s)"
    using inv ok by (cases act; auto simp: timer_inv_def mt_ok_def sendMsg_def split: mt_state.splits)+
  ultimately show ?thesis by (intro timer_invI [of home]) (auto simp: armed_inv_def)
qed

lemma timer_inv_new:
  assumes inv: "timer_inv s" and c: "ltimers s c = None" "locks s c = None"
  shows "timer_inv (timer_new c s)"
proof -
  from inv obtain home where oi: "obj_inv home s" by (auto simp: timer_inv_def)
  have "armed_inv (timer_new c s)"
    by (rule armed_inv_frame [of s]) (use inv in \<open>auto simp: timer_inv_def timer_new_def\<close>)
  moreover have "mt_ok (timer_new c s)"
    using inv by (auto simp: timer_inv_def mt_ok_def timer_new_def split: mt_state.splits)
  ultimately show ?thesis
    using timer_new_inv [OF oi _ c] inv by (auto simp: timer_inv_def timer_new_def)
qed

lemma timer_inv_start:
  assumes inv: "timer_inv s" and c: "ltimers s c \<noteq> None" and v: "valid_time (timer_future (clock s) ms)"
  shows "\<exists>ok s'. timer_start c ms wake s = Some (ok, s') \<and> timer_inv s'"
proof -
  from inv obtain home where oi: "obj_inv home s" by (auto simp: timer_inv_def)
  have lk: "lock_inv s" using inv by (simp add: timer_inv_def)
  obtain ok s' home' where s': "timer_start c ms wake s = Some (ok, s')" "obj_inv home' s'" "lock_inv s'"
    "heaps s' = heaps s" "fd_time s' = fd_time s" "polled s' = polled s" "poll_pc s' = poll_pc s"
    "mt_pc s' = mt_pc s" "clock s' = clock s" "\<forall>a \<in> live s. dtime s' a = dtime s a"
    "set (msgs s) \<subseteq> set (msgs s')" "\<forall>c. ltimers s' c = None \<longleftrightarrow> ltimers s c = None"
    using timer_start_inv [OF oi lk c v, of wake] by blast
  have "armed_inv s'"
    by (rule armed_inv_frame [of s])
      (use inv s' obj_invD(8) [OF oi] in \<open>auto simp: timer_inv_def\<close>)
  moreover have "mt_ok s'" using inv s' by (auto simp: timer_inv_def mt_ok_def split: mt_state.splits)
  ultimately have "timer_inv s'" using s' inv by (auto simp: timer_inv_def)
  with s' show ?thesis by blast
qed

lemma timer_inv_delete:
  assumes inv: "timer_inv s" and c: "ltimers s c \<noteq> None" and ok: "delete_ok s (EvDelete c)"
  shows "\<exists>s'. timer_delete c s = Some s' \<and> timer_inv s'"
proof -
  from inv obtain home where oi: "obj_inv home s" by (auto simp: timer_inv_def)
  have lk: "lock_inv s" using inv by (simp add: timer_inv_def)
  obtain s' where s': "timer_delete c s = Some s'" "obj_inv home s'" "lock_inv s'"
    "heaps s' = heaps s" "fd_time s' = fd_time s" "polled s' = polled s" "poll_pc s' = poll_pc s"
    "mt_pc s' = mt_pc s" "clock s' = clock s" "dtime s' = dtime s" "set (msgs s) \<subseteq> set (msgs s')"
    "ltimers s' = (ltimers s)(c := None)"
    using timer_delete_inv [OF oi lk c] by blast
  have "armed_inv s'" by (rule armed_inv_frame [of s]) (use inv s' in \<open>auto simp: timer_inv_def\<close>)
  moreover have "mt_ok s'"
    using inv s' ok by (auto simp: timer_inv_def mt_ok_def delete_ok_def split: mt_state.splits)
  ultimately have "timer_inv s'" using s' inv by (auto simp: timer_inv_def)
  with s' show ?thesis by blast
qed

lemma timer_exec_inv:
  assumes inv: "timer_inv s" and ok: "event_ok s ev" "delete_ok s ev"
  shows "\<exists>s'. timer_exec ev s = Some s' \<and> timer_inv s'"
proof (cases ev)
  case (EvNew c)
  with timer_inv_new [OF inv] ok show ?thesis by (simp add: timer_exec_def event_ok_def)
next
  case (EvStart c ms wake)
  with timer_inv_start [OF inv, of c ms wake] ok show ?thesis by (auto simp: timer_exec_def event_ok_def)
next
  case (EvStop c)
  with timer_inv_stop [OF inv, of c] ok show ?thesis by (auto simp: timer_exec_def event_ok_def)
next
  case (EvDelete c)
  with timer_inv_delete [OF inv, of c] ok show ?thesis by (auto simp: timer_exec_def event_ok_def)
next
  case (EvEpoll bs)
  let ?pc = "concat (map (\<lambda>b. [SetTimeZero b, RemovePoll b, SendExpire b]) bs)"
  from inv obtain home where oi: "obj_inv home s" by (auto simp: timer_inv_def)
  have "armed_inv (s\<lparr>poll_pc := ?pc\<rparr>)"
    using inv ok poll_ok_epoll [of bs]
    by (auto simp: EvEpoll event_ok_def timer_inv_def armed_inv_def armed_def expiring_def)
  then have "timer_inv (s\<lparr>poll_pc := ?pc\<rparr>)"
    using inv oi by (intro timer_invI [of home]) (auto simp: timer_inv_def mt_ok_def split: mt_state.splits)
  with EvEpoll show ?thesis by (simp add: timer_exec_def)
next
  case EvPoll
  with timer_inv_poll [OF inv] inv show ?thesis by (auto simp: timer_exec_def split: list.splits)
next
  case EvMsgTask
  with mt_exec_inv [OF inv] show ?thesis by (simp add: timer_exec_def)
next
  case (EvClock t)
  from inv obtain home where oi: "obj_inv home s" by (auto simp: timer_inv_def)
  have "timer_inv (s\<lparr>clock := t\<rparr>)"
    using inv oi ok EvClock
    by (intro timer_invI [of home])
      (auto simp: timer_inv_def event_ok_def armed_inv_def armed_def expiring_def mt_ok_def split: mt_state.splits)
  with EvClock show ?thesis by (simp add: timer_exec_def)
qed

lemma timer_inv_init: "valid_time now \<Longrightarrow> timer_inv (timer_init now)"
  by (rule timer_invI)
    (auto simp: timer_init_def obj_inv_def delegate_ok_def client_ok_def live_def mset_heap_def
      lock_inv_def lock_count_def lock_users_def armed_inv_def armed_def mt_ok_def)

lemma timer_inv_reachable: "timer_reachable s \<Longrightarrow> timer_inv s"
proof (induction rule: timer_reachable.induct)
  case (timer_reach_init now)
  then show ?case by (rule timer_inv_init)
next
  case (timer_reach_step s ev s')
  with timer_exec_inv [of s ev] show ?case by auto
qed

text \<open>Runs of events, all of them allowed.\<close>

fun timer_run :: "timer_event list \<Rightarrow> timer_sys \<Rightarrow> timer_sys option" where
  "timer_run [] s = Some s"
| "timer_run (ev # evs) s =
     (if event_ok s ev \<and> delete_ok s ev then do { s' \<leftarrow> timer_exec ev s; timer_run evs s' } else None)"

lemma timer_run_reachable: "timer_reachable s \<Longrightarrow> timer_run evs s = Some s' \<Longrightarrow> timer_reachable s'"
  by (induction evs arbitrary: s) (auto split: if_splits intro: timer_reach_step)

section \<open>The C interface\<close>

text \<open>
  \<open>LocTimerWrapper\<close>: a wrapper is a client object that exists while \<open>ltimers\<close> holds it; its
  \<open>mCb\<close> is then not NULL and \<open>mMe\<close> is the object itself. \<open>destroy\<close> reads both, so it faults on an
  object that is gone. \<open>loc_timer_start\<close> gets the address \<open>c\<close> of the new wrapper; the 64 bit
  \<open>msec\<close> is passed on as an unsigned int.
\<close>

definition wrapper_destroy :: "nat \<Rightarrow> timer_sys \<Rightarrow> timer_sys option" where
  "wrapper_destroy c s = do { _ \<leftarrow> ltimers s c; timer_delete c s }"

definition wrapper_timeOutCallback :: "nat \<Rightarrow> timer_sys \<Rightarrow> timer_sys option" where
  "wrapper_timeOutCallback c s = do { _ \<leftarrow> ltimers s c; wrapper_destroy c s }"

definition loc_timer_start ::
  "64 word \<Rightarrow> bool \<Rightarrow> bool \<Rightarrow> nat \<Rightarrow> timer_sys \<Rightarrow> (ptr \<times> timer_sys) option" where
  "loc_timer_start msec cb_func wake_on_expire c s =
     (if cb_func then
        do { (_, s') \<leftarrow> timer_start c (ucast msec) wake_on_expire (timer_new c s);
             Some (Some c, s') }
      else Some (None, s))"

definition loc_timer_stop :: "ptr \<Rightarrow> timer_sys \<Rightarrow> (ptr \<times> timer_sys) option" where
  "loc_timer_stop handle s =
     (case handle of
        None \<Rightarrow> Some (None, s)
      | Some c \<Rightarrow> do { s' \<leftarrow> wrapper_destroy c s; Some (None, s') })"

section \<open>Properties\<close>

text \<open>
  C10: under every interleaving of client calls, the poll thread and the MsgTask thread no object
  is used after it was deleted: no timer delegate, whether it is read, compared in a heap or
  deleted, no shared lock, whether it is locked, unlocked, shared or dropped, and no client object
  as long as no client deletes its object while the MsgTask thread is about to call it.
\<close>

theorem timer_no_use_after_free:
  assumes "timer_reachable s" and "event_ok s ev" and "delete_ok s ev"
  shows "\<exists>s'. timer_exec ev s = Some s' \<and> timer_reachable s'"
  using timer_exec_inv [OF timer_inv_reachable [OF assms(1)] assms(2,3)] timer_reach_step [OF assms] by blast

definition t_zero :: timespec where
  "t_zero = \<lparr>tv_sec = 100, tv_nsec = 0\<rparr>"

lemma t_zero_reachable: "timer_reachable (timer_init t_zero)"
  by (rule timer_reach_init) (simp add: valid_time_def t_zero_def)

lemma timer_no_use_after_free_witness:
  "\<exists>s'. timer_exec (EvNew 0) (timer_init t_zero) = Some s' \<and> timer_reachable s'"
  by (rule timer_no_use_after_free [OF t_zero_reachable])
    (simp_all add: event_ok_def delete_ok_def timer_init_def)

text \<open>
  C11: no running timer is forgotten: in every reachable state in which a container holds timers,
  either an expiration of that container is under way (in the poll thread, queued, or being
  processed), or its descriptor is polled and set to the expiry time of a timer that no other timer
  of the container precedes.
\<close>

theorem timer_never_forgotten:
  assumes "timer_reachable s" and "heap_peek (heaps s b) = Some a"
  shows "expiring s b \<or>
    polled s b \<and> fd_time s b = dtime s a \<and>
    (\<forall>x \<in># node_mset (heaps s b). nanos (dtime s a) \<le> nanos (dtime s x))"
proof -
  from timer_inv_reachable [OF assms(1)] obtain home where
    inv: "obj_inv home s" and ar: "armed s b \<or> expiring s b"
    by (auto simp: timer_inv_def armed_inv_def)
  have "nanos (dtime s a) \<le> nanos (dtime s x)" if "x \<in># node_mset (heaps s b)" for x
  proof -
    have "highest (drank s) (node_mset (heaps s b)) (Some a)"
      using ranking.heap_peek_highest [OF live_ranking [OF inv] obj_inv_heap [OF inv], of b] assms(2) by simp
    then have "\<not> outRanks (drank s) x a" using that by (simp add: highest_def)
    moreover have "x \<in> live s" "a \<in> live s"
      using that obj_invD(8) [OF inv, of _ b] heap_peek_mset [OF assms(2)] by (auto simp: mset_heap_def)
    ultimately show ?thesis
      using dtime_live [OF inv] timer_outRanks [of "dtime s x" "dtime s a"]
      by (auto simp: outRanks_def drank_def)
  qed
  with ar assms(2) show ?thesis by (auto simp: armed_def)
qed

definition one_timer :: timer_sys where
  "one_timer = the (timer_run [EvNew 0, EvStart 0 1500 False, EvMsgTask] (timer_init t_zero))"

lemma one_timer_run: "timer_run [EvNew 0, EvStart 0 1500 False, EvMsgTask] (timer_init t_zero) = Some one_timer"
proof -
  have "\<not> Option.is_none (timer_run [EvNew 0, EvStart 0 1500 False, EvMsgTask] (timer_init t_zero))"
    by code_simp
  then show ?thesis unfolding one_timer_def by (simp add: Option.is_none_def)
qed

lemma one_timer_peek: "heap_peek (heaps one_timer False) = Some 0"
  unfolding one_timer_def by code_simp

lemma timer_never_forgotten_witness:
  "expiring one_timer False \<or> polled one_timer False \<and> fd_time one_timer False = dtime one_timer 0"
  using timer_never_forgotten [OF timer_run_reachable [OF t_zero_reachable one_timer_run] one_timer_peek]
  by blast

text \<open>
  C12: the reference count of every shared lock is exact: it is the number of existing delegates
  that hold the lock, plus one while its client object exists, and the lock is deleted exactly
  when that number is zero.
\<close>

theorem timer_lock_count_exact:
  assumes "timer_reachable s"
  shows "finite {a. \<exists>d. delegates s a = Some d \<and> mLock d = k} \<and>
    locks s k =
      (let n = (if ltimers s k \<noteq> None then 1 else 0) + int (card {a. \<exists>d. delegates s a = Some d \<and> mLock d = k})
       in if n = 0 then None else Some n)"
  using timer_inv_reachable [OF assms] lock_users_finite [of s k]
  by (auto simp: timer_inv_def lock_inv_def lock_count_def lock_users_def Let_def)

lemma timer_lock_count_exact_witness:
  "locks (timer_init t_zero) 3 =
     (let n = (if ltimers (timer_init t_zero) 3 \<noteq> None then 1 else 0) +
        int (card {a. \<exists>d. delegates (timer_init t_zero) a = Some d \<and> mLock d = 3})
      in if n = 0 then None else Some n)"
  using timer_lock_count_exact [OF t_zero_reachable] by blast

text \<open>
  \<open>LocTimer::start\<close> sets the future time to exactly the current time plus the given
  milliseconds, in normal form.
\<close>

theorem timer_future_exact:
  assumes "valid_time now"
  shows "nanos (timer_future now ms) = nanos now + uint ms * 10 ^ 6 \<and>
    0 \<le> tv_nsec (timer_future now ms) \<and> tv_nsec (timer_future now ms) < 10 ^ 9"
  using timer_future_nanos [OF assms] by blast

lemma timer_future_exact_witness:
  "nanos (timer_future \<lparr>tv_sec = 7, tv_nsec = 900000000\<rparr> 2300) =
     nanos \<lparr>tv_sec = 7, tv_nsec = 900000000\<rparr> + 2300 * 10 ^ 6"
  using timer_future_exact [of "\<lparr>tv_sec = 7, tv_nsec = 900000000\<rparr>" 2300] by (simp add: valid_time_def)

definition premature_events :: "timer_event list" where
  "premature_events =
     [EvNew 0, EvNew 1, EvStart 0 1000 False, EvMsgTask, EvClock \<lparr>tv_sec = 101, tv_nsec = 0\<rparr>,
      EvStop 0, EvEpoll [False], EvPoll, EvPoll, EvStart 1 60000 False, EvPoll,
      EvMsgTask, EvMsgTask, EvMsgTask, EvMsgTask, EvMsgTask, EvMsgTask]"

text \<open>
  a timer can expire early. A timer of one second is stopped just when it fires, while another
  client starts a timer of sixty seconds; the queued expiration pops the first timer it finds
  without looking at its time, so the second client is called back after one second although its
  timer is due sixty seconds later.
\<close>

theorem timer_expires_early:
  "map_option (\<lambda>s. (callbacks s, map_option mFutureTime (delegates s 1)))
     (timer_run premature_events (timer_init t_zero)) =
   Some ([(1, 1, \<lparr>tv_sec = 101, tv_nsec = 0\<rparr>)], Some \<lparr>tv_sec = 161, tv_nsec = 0\<rparr>)"
  by code_simp

definition race_events :: "timer_event list" where
  "race_events =
     [EvNew 0, EvStart 0 1000 False, EvMsgTask, EvClock \<lparr>tv_sec = 101, tv_nsec = 0\<rparr>,
      EvEpoll [False], EvPoll, EvPoll, EvPoll, EvMsgTask, EvMsgTask]"

definition deleted_client_used :: "timer_sys \<Rightarrow> nat \<Rightarrow> bool" where
  "deleted_client_used s c \<longleftrightarrow> event_ok s (EvDelete c) \<and>
     (case timer_exec (EvDelete c) s of
        None \<Rightarrow> False
      | Some s' \<Rightarrow> Option.is_none (timer_exec EvMsgTask s'))"

text \<open>
  the client pointer that \<open>LocTimerDelegate::expire\<close> saves is not protected: when the client
  deletes its timer object between the pop of the delegate and the call of \<open>stop\<close>, which nothing
  in the code prevents, the MsgTask thread uses the deleted object.
\<close>

theorem timer_delete_race:
  "\<exists>s. timer_reachable s \<and> deleted_client_used s 0"
proof -
  have "case timer_run race_events (timer_init t_zero) of None \<Rightarrow> False | Some s \<Rightarrow> deleted_client_used s 0"
    by code_simp
  then obtain s where s: "timer_run race_events (timer_init t_zero) = Some s" "deleted_client_used s 0"
    by (auto split: option.splits)
  from timer_run_reachable [OF t_zero_reachable s(1)] s(2) show ?thesis by blast
qed

text \<open>
  \<open>loc_timer_start\<close> with a callback returns the new handle and starts a timer for \<open>msec\<close>
  modulo \<open>2 ^ 32\<close> milliseconds; a following \<open>loc_timer_stop\<close> deletes the object, queues the removal
  of its delegate and clears the handle, and a second stop with the old handle uses freed memory.
\<close>

theorem loc_timer_start_stop:
  assumes "timer_reachable s" and "ltimers s c = None" and "locks s c = None"
    and "valid_time (timer_future (clock s) (ucast msec))"
  shows "\<exists>s1 s2. loc_timer_start msec True wake c s = Some (Some c, s1) \<and>
     dtime s1 (next_addr s) = timer_future (clock s) (ucast msec) \<and>
     loc_timer_stop (Some c) s1 = Some (None, s2) \<and>
     msgs s2 = msgs s @ [MsgTimerPush wake (next_addr s), MsgTimerRemove wake (next_addr s)] \<and>
     ltimers s2 c = None \<and> loc_timer_stop (Some c) s2 = None"
  using assms
  by (auto simp: loc_timer_start_def timer_start_def timer_new_def lock_share_def sendMsg_def dtime_def
      lock_lock_def lock_unlock_def loc_timer_stop_def wrapper_destroy_def timer_delete_def timer_stop_def destroyLocked_def lock_drop_def
      Let_def)

lemma loc_timer_start_stop_witness:
  "\<exists>s1 s2. loc_timer_start 4294967301 True False 8 (timer_init t_zero) = Some (Some 8, s1) \<and>
     dtime s1 0 = \<lparr>tv_sec = 100, tv_nsec = 5000000\<rparr> \<and>
     loc_timer_stop (Some 8) s1 = Some (None, s2)"
proof -
  have c: "clock (timer_init t_zero) = t_zero" "next_addr (timer_init t_zero) = 0"
    "ltimers (timer_init t_zero) 8 = None" "locks (timer_init t_zero) 8 = None"
    by (simp_all add: timer_init_def)
  have f: "timer_future t_zero (ucast (4294967301 :: 64 word)) = \<lparr>tv_sec = 100, tv_nsec = 5000000\<rparr>"
    by code_simp
  have "valid_time (timer_future (clock (timer_init t_zero)) (ucast (4294967301 :: 64 word)))"
    unfolding c f by (simp add: valid_time_def)
  from loc_timer_start_stop [OF t_zero_reachable c(3,4) this, of False] show ?thesis
    unfolding c f by blast
qed

end
