(* ===== verification/Agps.thy ===== *)
theory Agps
  imports Linked_List
begin

text \<open>
  \<open>loc_eng_agps.h\<close> and \<open>loc_eng_agps.cpp\<close>: the state machines that request and release a data
  connection (NIF) on behalf of subscribers.

  \<^item> \<open>agps_sm\<close> is an \<open>AgpsStateMachine\<close> or, with \<open>is_ds\<close>, a \<open>DSStateMachine\<close>: its subscriber list
    (head first, the cells of the C list of \<open>Linked_List\<close>), its current state object, its fields,
    and the log of its effects on the adapter, the daemon and the servicer.
  \<^item> Subscribers have addresses, because a notification points to a subscriber: \<open>freed\<close> are the
    addresses of deleted subscribers and \<open>uaf\<close> records that one of them was dereferenced (the
    freed memory is taken to keep its content, as far as the further run is concerned).
  \<^item> The four \<open>onRsrcEvent\<close> methods of the states, the methods of the machines and the subscriber
    classes are translated one by one. \<open>requestRsrc\<close> of the external servicer and
    \<open>loc_timer_start\<close> are in other components or outside the repository: their results are the
    argument \<open>env\<close>.
  \<^item> Shown: the state always agrees with the subscribers, requests and releases go out exactly at
    the right transitions, every subscriber is notified once, retries are bounded; two runs
    exhibit a use after free and a lost subscription.
\<close>

section \<open>Constants\<close>

datatype AgpsRsrcStatus =
  RSRC_SUBSCRIBE | RSRC_UNSUBSCRIBE | RSRC_GRANTED | RSRC_RELEASED | RSRC_DENIED | RSRC_STATUS_MAX

datatype AGpsStatusValue = GPS_REQUEST_AGPS_DATA_CONN | GPS_RELEASE_AGPS_DATA_CONN

datatype if_status =
  GPSONE_LOC_API_IF_REQUEST_SUCCESS | GPSONE_LOC_API_IF_RELEASE_SUCCESS | GPSONE_LOC_API_IF_FAILURE

definition AGPS_TYPE_INVALID :: int where "AGPS_TYPE_INVALID = -1"
definition AGPS_TYPE_SUPL :: int where "AGPS_TYPE_SUPL = 1"
definition AGPS_APN_BEARER_INVALID :: int where "AGPS_APN_BEARER_INVALID = -1"
definition SENDER_ID_GPSONE_DAEMON :: "32 word" where "SENDER_ID_GPSONE_DAEMON = 3"
definition INADDR_NONE :: "32 word" where "INADDR_NONE = 0xffffffff"
definition MAX_START_DATA_CALL_RETRIES :: "8 word" where "MAX_START_DATA_CALL_RETRIES = 4"
definition LOC_API_ADAPTER_ERR_SUCCESS :: int where "LOC_API_ADAPTER_ERR_SUCCESS = 0"
definition LOC_API_ADAPTER_ERR_UNSUPPORTED :: int where "LOC_API_ADAPTER_ERR_UNSUPPORTED = 2"
definition LOC_API_ADAPTER_ERR_ENGINE_BUSY :: int where "LOC_API_ADAPTER_ERR_ENGINE_BUSY = 6"

section \<open>Subscribers and notifications\<close>

datatype sub_kind =
    BIT string
  | ATL bool
  | WIFI "string option" "string option" bool
  | DS bool

record subscriber =
  s_addr :: nat
  s_ID :: "32 word"
  s_kind :: sub_kind

datatype rcver = To subscriber | BROADCAST_ALL | BROADCAST_ACTIVE | BROADCAST_INACTIVE

record notification =
  rcver :: rcver
  rsrcStatus :: AgpsRsrcStatus
  postNotifyDelete :: bool

text \<open>The constructors; \<open>SSID_BUF_SIZE\<close> is 33, so 32 characters of a string are kept.\<close>

definition BITSubscriber :: "nat \<Rightarrow> 32 word \<Rightarrow> string option \<Rightarrow> subscriber" where
  "BITSubscriber a ipv4 ipv6 =
     \<lparr>s_addr = a, s_ID = ipv4, s_kind = BIT (case ipv6 of None \<Rightarrow> [CHR 0x00] | Some v6 \<Rightarrow> take 16 v6)\<rparr>"

definition ATLSubscriber :: "nat \<Rightarrow> 32 word \<Rightarrow> bool \<Rightarrow> subscriber" where
  "ATLSubscriber a i compatibleMode = \<lparr>s_addr = a, s_ID = i, s_kind = ATL compatibleMode\<rparr>"

definition WIFISubscriber :: "nat \<Rightarrow> string option \<Rightarrow> string option \<Rightarrow> 32 word \<Rightarrow> subscriber" where
  "WIFISubscriber a ssid password sender_id =
     \<lparr>s_addr = a, s_ID = sender_id,
      s_kind = WIFI (map_option (take 32) ssid) (map_option (take 32) password) False\<rparr>"

definition DSSubscriber :: "nat \<Rightarrow> 32 word \<Rightarrow> subscriber" where
  "DSSubscriber a i = \<lparr>s_addr = a, s_ID = i, s_kind = DS False\<rparr>"

definition clone :: "nat \<Rightarrow> subscriber \<Rightarrow> subscriber" where
  "clone a s =
     (case s_kind s of
        BIT v6 \<Rightarrow> BITSubscriber a (s_ID s) (Some v6)
      | ATL cm \<Rightarrow> ATLSubscriber a (s_ID s) cm
      | WIFI ssid pw _ \<Rightarrow> WIFISubscriber a ssid pw (s_ID s)
      | DS _ \<Rightarrow> DSSubscriber a (s_ID s))"

definition waitForCloseComplete :: "subscriber \<Rightarrow> bool" where
  "waitForCloseComplete s = (case s_kind s of WIFI _ _ _ \<Rightarrow> True | DS _ \<Rightarrow> True | _ \<Rightarrow> False)"

definition isInactive :: "subscriber \<Rightarrow> bool" where
  "isInactive s = (case s_kind s of WIFI _ _ i \<Rightarrow> i | DS i \<Rightarrow> i | _ \<Rightarrow> False)"

text \<open>\<open>strncmp (a, b, 16) = 0\<close> on arrays of 16 characters.\<close>

fun cstr_eq :: "string \<Rightarrow> string \<Rightarrow> bool" where
  "cstr_eq [] [] \<longleftrightarrow> True"
| "cstr_eq (x # xs) (y # ys) \<longleftrightarrow> x = y \<and> (x = CHR 0x00 \<or> cstr_eq xs ys)"
| "cstr_eq [] (y # ys) \<longleftrightarrow> y = CHR 0x00"
| "cstr_eq (x # xs) [] \<longleftrightarrow> x = CHR 0x00"

text \<open>
  \<open>equals\<close> of the class of the first subscriber. A \<open>BITSubscriber\<close> takes the other object to be
  one as well; an object of another class is read as one with an empty address.
\<close>

definition sub_equals :: "subscriber \<Rightarrow> subscriber \<Rightarrow> bool" where
  "sub_equals s1 s =
     (case s_kind s1 of
        BIT v6 \<Rightarrow> s_ID s1 = s_ID s \<and>
          (INADDR_NONE \<noteq> s_ID s1 \<or> cstr_eq v6 (case s_kind s of BIT v6' \<Rightarrow> v6' | _ \<Rightarrow> []))
      | _ \<Rightarrow> s_ID s1 = s_ID s)"

definition forMe :: "subscriber \<Rightarrow> notification \<Rightarrow> bool" where
  "forMe s n =
     (case rcver n of
        To r \<Rightarrow> sub_equals s r
      | BROADCAST_ALL \<Rightarrow> True
      | BROADCAST_ACTIVE \<Rightarrow> \<not> isInactive s
      | BROADCAST_INACTIVE \<Rightarrow> isInactive s)"

section \<open>The machine\<close>

datatype agps_state = Released | Pending | Acquired | Releasing

datatype agps_out =
    ServerDataConn "32 word" if_status
  | AtlOpenStatus "32 word" bool "string option" int int
  | AtlCloseStatus "32 word" bool
  | NifRequest AGpsStatusValue int "string option" "string option"
  | DsRequest AGpsStatusValue
  | CloseDataCall
  | RequestATL "32 word" int
  | RequestSuplES "32 word"
  | TimerStart

record agps_sm =
  subs :: "subscriber list"
  state :: agps_state
  is_ds :: bool
  mType :: int
  mAPN :: "string option"
  mBearer :: int
  mEnforceSingleSubscriber :: bool
  mRetries :: "8 word"
  outs :: "agps_out list"
  next_sub :: nat
  freed :: "nat set"
  uaf :: bool

record agps_env =
  rsrc_ret :: int
  timer_ret :: bool

definition agps_new :: "int \<Rightarrow> bool \<Rightarrow> agps_sm" where
  "agps_new type enforceSingleSubscriber =
     \<lparr>subs = [], state = Released, is_ds = False, mType = type, mAPN = None,
      mBearer = AGPS_APN_BEARER_INVALID, mEnforceSingleSubscriber = enforceSingleSubscriber,
      mRetries = 0, outs = [], next_sub = 1, freed = {}, uaf = False\<rparr>"

definition ds_new :: agps_sm where
  "ds_new = (agps_new AGPS_TYPE_INVALID False)\<lparr>is_ds := True\<rparr>"

definition emit :: "agps_out \<Rightarrow> agps_sm \<Rightarrow> agps_sm" where
  "emit x m = m\<lparr>outs := outs m @ [x]\<rparr>"

definition setAPN :: "string option \<Rightarrow> nat \<Rightarrow> agps_sm \<Rightarrow> agps_sm" where
  "setAPN apn len m = m\<lparr>mAPN := map_option (take len) apn\<rparr>"

definition setBearer :: "int \<Rightarrow> agps_sm \<Rightarrow> agps_sm" where
  "setBearer b m = m\<lparr>mBearer := b\<rparr>"

definition informStatus :: "AgpsRsrcStatus \<Rightarrow> 32 word \<Rightarrow> agps_sm \<Rightarrow> agps_sm" where
  "informStatus status i m =
     (case status of
        RSRC_UNSUBSCRIBE \<Rightarrow> emit (AtlCloseStatus i True) m
      | RSRC_RELEASED \<Rightarrow> emit CloseDataCall m
      | RSRC_DENIED \<Rightarrow> emit (RequestATL i AGPS_TYPE_SUPL) (m\<lparr>mRetries := 0\<rparr>)
      | RSRC_GRANTED \<Rightarrow> emit (AtlOpenStatus i True None AGPS_APN_BEARER_INVALID AGPS_TYPE_INVALID) m
      | _ \<Rightarrow> m)"

text \<open>Reading the receiver of a notification in \<open>forMe\<close>.\<close>

definition read_rcver :: "notification \<Rightarrow> agps_sm \<Rightarrow> agps_sm" where
  "read_rcver n m =
     (case rcver n of To r \<Rightarrow> if s_addr r \<in> freed m then m\<lparr>uaf := True\<rparr> else m | _ \<Rightarrow> m)"

text \<open>The four \<open>notifyRsrcStatus\<close>: whether the subscriber was notified, and the effects.\<close>

definition atl_type :: "bool \<Rightarrow> agps_sm \<Rightarrow> int" where
  "atl_type cm m = (if cm then AGPS_TYPE_INVALID else mType m)"

definition notify_out :: "subscriber \<Rightarrow> AgpsRsrcStatus \<Rightarrow> agps_sm \<Rightarrow> agps_sm option" where
  "notify_out s status m =
     (case s_kind s of
        BIT _ \<Rightarrow>
          (case status of
             RSRC_UNSUBSCRIBE \<Rightarrow> Some (emit (ServerDataConn SENDER_ID_GPSONE_DAEMON GPSONE_LOC_API_IF_RELEASE_SUCCESS) m)
           | RSRC_RELEASED \<Rightarrow> Some (emit (ServerDataConn SENDER_ID_GPSONE_DAEMON GPSONE_LOC_API_IF_RELEASE_SUCCESS) m)
           | RSRC_DENIED \<Rightarrow> Some (emit (ServerDataConn SENDER_ID_GPSONE_DAEMON GPSONE_LOC_API_IF_FAILURE) m)
           | RSRC_GRANTED \<Rightarrow> Some (emit (ServerDataConn SENDER_ID_GPSONE_DAEMON GPSONE_LOC_API_IF_REQUEST_SUCCESS) m)
           | _ \<Rightarrow> None)
      | ATL cm \<Rightarrow>
          (case status of
             RSRC_UNSUBSCRIBE \<Rightarrow> Some (emit (AtlCloseStatus (s_ID s) True) m)
           | RSRC_RELEASED \<Rightarrow> Some (emit (AtlCloseStatus (s_ID s) True) m)
           | RSRC_DENIED \<Rightarrow> Some (emit (AtlOpenStatus (s_ID s) False (mAPN m) (mBearer m) (atl_type cm m)) m)
           | RSRC_GRANTED \<Rightarrow> Some (emit (AtlOpenStatus (s_ID s) True (mAPN m) (mBearer m) (atl_type cm m)) m)
           | _ \<Rightarrow> None)
      | WIFI _ _ _ \<Rightarrow>
          (case status of
             RSRC_UNSUBSCRIBE \<Rightarrow> Some m
           | RSRC_RELEASED \<Rightarrow> Some (emit (ServerDataConn (s_ID s) GPSONE_LOC_API_IF_RELEASE_SUCCESS) m)
           | RSRC_DENIED \<Rightarrow> Some (emit (ServerDataConn (s_ID s) GPSONE_LOC_API_IF_FAILURE) m)
           | RSRC_GRANTED \<Rightarrow> Some (emit (ServerDataConn (s_ID s) GPSONE_LOC_API_IF_REQUEST_SUCCESS) m)
           | _ \<Rightarrow> None)
      | DS _ \<Rightarrow>
          (case status of
             RSRC_UNSUBSCRIBE \<Rightarrow> Some (informStatus status (s_ID s) m)
           | RSRC_RELEASED \<Rightarrow> Some (informStatus status (s_ID s) m)
           | RSRC_DENIED \<Rightarrow> Some (informStatus status (s_ID s) m)
           | RSRC_GRANTED \<Rightarrow> Some (informStatus status (s_ID s) m)
           | _ \<Rightarrow> None))"

definition notifyRsrcStatus :: "subscriber \<Rightarrow> notification \<Rightarrow> agps_sm \<Rightarrow> bool \<times> agps_sm" where
  "notifyRsrcStatus s n m =
     (let m1 = read_rcver n m
      in if forMe s n then
           (case notify_out s (rsrcStatus n) m1 of None \<Rightarrow> (False, m1) | Some m2 \<Rightarrow> (True, m2))
         else (False, m1))"

section \<open>Searches of the list\<close>

text \<open>\<open>linked_list_search\<close> with \<open>hasSubscriber\<close>: the first subscriber the notification is for.\<close>

fun find_sub :: "notification \<Rightarrow> subscriber list \<Rightarrow> subscriber option" where
  "find_sub n [] = None"
| "find_sub n (s # ss) = (if forMe s n then Some s else find_sub n ss)"

text \<open>
  \<open>linked_list_search\<close> with \<open>notifySubscriber\<close>: subscribers are notified up to the first that is
  to be deleted, which is taken out of the list when removal is asked for.
\<close>

fun notify_search :: "notification \<Rightarrow> subscriber list \<Rightarrow> agps_sm \<Rightarrow> subscriber option \<times> subscriber list \<times> agps_sm" where
  "notify_search n [] m = (None, [], m)"
| "notify_search n (s # ss) m =
     (case notifyRsrcStatus s n m of
        (notified, m') \<Rightarrow>
          if notified \<and> postNotifyDelete n then (Some s, ss, m')
          else (case notify_search n ss m' of (r, ss', m'') \<Rightarrow> (r, s # ss', m'')))"

lemma notify_search_length:
  "notify_search n ss m = (Some s, ss', m') \<Longrightarrow> length ss = Suc (length ss')"
  by (induction ss arbitrary: m ss') (auto split: prod.splits if_splits)

text \<open>The loop of \<open>notifySubscribers\<close> when subscribers are deleted.\<close>

function notify_loop :: "notification \<Rightarrow> subscriber list \<Rightarrow> agps_sm \<Rightarrow> subscriber list \<times> agps_sm" where
  "notify_loop n ss m =
     (case notify_search n ss m of
        (None, ss', m') \<Rightarrow> (ss', m')
      | (Some s, ss', m') \<Rightarrow> notify_loop n ss' (m'\<lparr>freed := insert (s_addr s) (freed m')\<rparr>))"
  by pat_completeness auto
termination
  by (relation "measure (\<lambda>(_, ss, _). length ss)") (auto dest: notify_search_length [OF sym])

declare notify_loop.simps [simp del]

definition notifySubscribers :: "notification \<Rightarrow> agps_sm \<Rightarrow> agps_sm" where
  "notifySubscribers n m =
     (if postNotifyDelete n
      then (let (ss, m') = notify_loop n (subs m) m in m'\<lparr>subs := ss\<rparr>)
      else (let (_, _, m') = notify_search n (subs m) m in m'))"

definition broadcast :: "rcver \<Rightarrow> notification" where
  "broadcast r = \<lparr>rcver = r, rsrcStatus = RSRC_STATUS_MAX, postNotifyDelete = False\<rparr>"

definition addSubscriber :: "subscriber \<Rightarrow> agps_sm \<Rightarrow> agps_sm" where
  "addSubscriber s m =
     (case find_sub (broadcast (To s)) (subs m) of
        None \<Rightarrow> m\<lparr>subs := clone (next_sub m) s # subs m, next_sub := Suc (next_sub m)\<rparr>
      | Some _ \<Rightarrow> m)"

definition hasSubscribers :: "agps_sm \<Rightarrow> bool" where
  "hasSubscribers m \<longleftrightarrow> subs m \<noteq> []"

definition hasActiveSubscribers :: "agps_sm \<Rightarrow> bool" where
  "hasActiveSubscribers m \<longleftrightarrow> find_sub (broadcast BROADCAST_ACTIVE) (subs m) \<noteq> None"

text \<open>\<open>setInactive\<close> on an element of the list.\<close>

definition inactivate :: "subscriber \<Rightarrow> subscriber" where
  "inactivate s =
     (case s_kind s of
        WIFI ssid pw _ \<Rightarrow> s\<lparr>s_kind := WIFI ssid pw True\<rparr>
      | DS _ \<Rightarrow> s\<lparr>s_kind := DS True\<rparr>
      | _ \<Rightarrow> s)"

definition setInactive :: "subscriber \<Rightarrow> agps_sm \<Rightarrow> agps_sm" where
  "setInactive s m =
     (let m' = m\<lparr>subs := map (\<lambda>x. if s_addr x = s_addr s then inactivate x else x) (subs m)\<rparr>
      in case s_kind s of DS _ \<Rightarrow> informStatus RSRC_UNSUBSCRIBE (s_ID s) m' | _ \<Rightarrow> m')"

section \<open>Requests\<close>

definition wifi_info :: "subscriber \<Rightarrow> string option \<times> string option" where
  "wifi_info s = (case s_kind s of WIFI ssid pw _ \<Rightarrow> (ssid, pw) | _ \<Rightarrow> (None, None))"

text \<open>\<open>sendRsrcRequest\<close> of both machines, and \<open>requestRsrc\<close> of their servicers.\<close>

definition ds_sendRsrcRequest :: "agps_env \<Rightarrow> AGpsStatusValue \<Rightarrow> agps_sm \<Rightarrow> int \<times> agps_sm" where
  "ds_sendRsrcRequest env action m =
     (let connHandle = (case find_sub (broadcast BROADCAST_ACTIVE) (subs m) of
                          None \<Rightarrow> -1 | Some s \<Rightarrow> s_ID s);
          m1 = emit (DsRequest action) m;
          ret = rsrc_ret env
      in if ret = LOC_API_ADAPTER_ERR_ENGINE_BUSY then
           (let m2 = m1\<lparr>mRetries := mRetries m1 + 1\<rparr>
            in if mRetries m2 > MAX_START_DATA_CALL_RETRIES then (ret, informStatus RSRC_DENIED connHandle m2)
               else if timer_ret env then (-1, emit TimerStart m2)
               else (ret, m2))
         else if ret = LOC_API_ADAPTER_ERR_UNSUPPORTED then (ret, informStatus RSRC_DENIED connHandle m1)
         else if ret = LOC_API_ADAPTER_ERR_SUCCESS then (ret, m1)
         else if ret = -1 then (ret, informStatus RSRC_DENIED connHandle m1)
         else (ret, m1))"

definition sendRsrcRequest :: "agps_env \<Rightarrow> AGpsStatusValue \<Rightarrow> agps_sm \<Rightarrow> int \<times> agps_sm" where
  "sendRsrcRequest env action m =
     (if is_ds m then ds_sendRsrcRequest env action m
      else
        (let s = find_sub (broadcast BROADCAST_ACTIVE) (subs m)
         in (0, if (s = None) = (GPS_RELEASE_AGPS_DATA_CONN = action)
                then (case s of
                        None \<Rightarrow> emit (NifRequest action (mType m) None None) m
                      | Some x \<Rightarrow> emit (NifRequest action (mType m) (fst (wifi_info x)) (snd (wifi_info x))) m)
                else m)))"

definition retryCallback :: "agps_sm \<Rightarrow> agps_sm" where
  "retryCallback m =
     (case find_sub (broadcast BROADCAST_ACTIVE) (subs m) of
        None \<Rightarrow> m
      | Some s \<Rightarrow> emit (RequestSuplES (s_ID s)) m)"

section \<open>The states\<close>

text \<open>
  Each \<open>onRsrcEvent\<close> returns the next state with the machine after its effects. \<open>data\<close> is the
  subscriber of a subscription or unsubscription, None for the other events.
\<close>

definition released_onRsrcEvent ::
  "agps_env \<Rightarrow> AgpsRsrcStatus \<Rightarrow> subscriber option \<Rightarrow> agps_sm \<Rightarrow> agps_state \<times> agps_sm" where
  "released_onRsrcEvent env event data m =
     (case (event, data) of
        (RSRC_SUBSCRIBE, Some s) \<Rightarrow>
          (let m1 = addSubscriber s m;
               (r, m2) = sendRsrcRequest env GPS_REQUEST_AGPS_DATA_CONN m1
           in (if r = 0 then Pending else Released, m2))
      | (RSRC_UNSUBSCRIBE, Some s) \<Rightarrow>
          (let n = \<lparr>rcver = To s, rsrcStatus = event, postNotifyDelete = False\<rparr>
           in (Released, snd (notifyRsrcStatus s n m)))
      | _ \<Rightarrow> (Released, m))"

text \<open>The unsubscription of a subscriber of the list, common to three states.\<close>

definition unsubscribe_one :: "subscriber \<Rightarrow> agps_sm \<Rightarrow> agps_sm" where
  "unsubscribe_one s m =
     (if waitForCloseComplete s then setInactive s m
      else notifySubscribers \<lparr>rcver = To s, rsrcStatus = RSRC_UNSUBSCRIBE, postNotifyDelete = True\<rparr> m)"

definition release_if_unused :: "agps_env \<Rightarrow> agps_state \<Rightarrow> agps_sm \<Rightarrow> agps_state \<times> agps_sm" where
  "release_if_unused env this m =
     (if \<not> hasSubscribers m then (Released, snd (sendRsrcRequest env GPS_RELEASE_AGPS_DATA_CONN m))
      else if \<not> hasActiveSubscribers m then (Releasing, snd (sendRsrcRequest env GPS_RELEASE_AGPS_DATA_CONN m))
      else (this, m))"

definition pending_onRsrcEvent ::
  "agps_env \<Rightarrow> AgpsRsrcStatus \<Rightarrow> subscriber option \<Rightarrow> agps_sm \<Rightarrow> agps_state \<times> agps_sm" where
  "pending_onRsrcEvent env event data m =
     (case (event, data) of
        (RSRC_SUBSCRIBE, Some s) \<Rightarrow> (Pending, addSubscriber s m)
      | (RSRC_UNSUBSCRIBE, Some s) \<Rightarrow> release_if_unused env Pending (unsubscribe_one s m)
      | (RSRC_GRANTED, _) \<Rightarrow>
          (Acquired, notifySubscribers \<lparr>rcver = BROADCAST_ACTIVE, rsrcStatus = event, postNotifyDelete = False\<rparr> m)
      | (RSRC_RELEASED, _) \<Rightarrow> (Pending, m)
      | (RSRC_DENIED, _) \<Rightarrow>
          (Released, notifySubscribers \<lparr>rcver = BROADCAST_ALL, rsrcStatus = event, postNotifyDelete = True\<rparr> m)
      | _ \<Rightarrow> (Pending, m))"

definition acquired_onRsrcEvent ::
  "agps_env \<Rightarrow> AgpsRsrcStatus \<Rightarrow> subscriber option \<Rightarrow> agps_sm \<Rightarrow> agps_state \<times> agps_sm" where
  "acquired_onRsrcEvent env event data m =
     (case (event, data) of
        (RSRC_SUBSCRIBE, Some s) \<Rightarrow>
          (let n = \<lparr>rcver = To s, rsrcStatus = RSRC_GRANTED, postNotifyDelete = False\<rparr>
           in (Acquired, addSubscriber s (snd (notifyRsrcStatus s n m))))
      | (RSRC_UNSUBSCRIBE, Some s) \<Rightarrow> release_if_unused env Acquired (unsubscribe_one s m)
      | (RSRC_GRANTED, _) \<Rightarrow> (Acquired, m)
      | (RSRC_RELEASED, _) \<Rightarrow>
          (Released, notifySubscribers \<lparr>rcver = BROADCAST_ALL, rsrcStatus = event, postNotifyDelete = True\<rparr> m)
      | (RSRC_DENIED, _) \<Rightarrow> (Acquired, m)
      | _ \<Rightarrow> (Acquired, m))"

definition releasing_onRsrcEvent ::
  "agps_env \<Rightarrow> AgpsRsrcStatus \<Rightarrow> subscriber option \<Rightarrow> agps_sm \<Rightarrow> agps_state \<times> agps_sm" where
  "releasing_onRsrcEvent env event data m =
     (let released =
        (let m1 = notifySubscribers \<lparr>rcver = BROADCAST_INACTIVE, rsrcStatus = event, postNotifyDelete = True\<rparr> m
         in if hasActiveSubscribers m1
            then (Pending, snd (sendRsrcRequest env GPS_REQUEST_AGPS_DATA_CONN m1))
            else (Released, m1))
      in case (event, data) of
        (RSRC_SUBSCRIBE, Some s) \<Rightarrow> (Releasing, addSubscriber s m)
      | (RSRC_UNSUBSCRIBE, Some s) \<Rightarrow>
          (let m1 = unsubscribe_one s m in (if \<not> hasSubscribers m1 then Released else Releasing, m1))
      | (RSRC_DENIED, _) \<Rightarrow> released
      | (RSRC_RELEASED, _) \<Rightarrow> released
      | _ \<Rightarrow> (Releasing, m))"

definition state_onRsrcEvent ::
  "agps_env \<Rightarrow> AgpsRsrcStatus \<Rightarrow> subscriber option \<Rightarrow> agps_sm \<Rightarrow> agps_sm" where
  "state_onRsrcEvent env event data m =
     (let (nextState, m') =
        (case state m of
           Released \<Rightarrow> released_onRsrcEvent env event data m
         | Pending \<Rightarrow> pending_onRsrcEvent env event data m
         | Acquired \<Rightarrow> acquired_onRsrcEvent env event data m
         | Releasing \<Rightarrow> releasing_onRsrcEvent env event data m)
      in m'\<lparr>state := nextState\<rparr>)"

section \<open>The machines' methods\<close>

definition ds_onRsrcEvent :: "agps_env \<Rightarrow> AgpsRsrcStatus \<Rightarrow> agps_sm \<Rightarrow> agps_sm" where
  "ds_onRsrcEvent env event m =
     (case event of
        RSRC_GRANTED \<Rightarrow> state_onRsrcEvent env event None m
      | RSRC_RELEASED \<Rightarrow>
          (let m1 = state_onRsrcEvent env event None m
           in if state m1 \<noteq> state m then m1 else state_onRsrcEvent env RSRC_DENIED None m1)
      | RSRC_DENIED \<Rightarrow> state_onRsrcEvent env event None m
      | _ \<Rightarrow> m)"

definition onRsrcEvent :: "agps_env \<Rightarrow> AgpsRsrcStatus \<Rightarrow> agps_sm \<Rightarrow> agps_sm" where
  "onRsrcEvent env event m =
     (if is_ds m then ds_onRsrcEvent env event m
      else if event \<in> {RSRC_GRANTED, RSRC_RELEASED, RSRC_DENIED} then state_onRsrcEvent env event None m
      else m)"

definition subscribeRsrc :: "agps_env \<Rightarrow> subscriber \<Rightarrow> agps_sm \<Rightarrow> agps_sm" where
  "subscribeRsrc env s m =
     (if mEnforceSingleSubscriber m \<and> hasSubscribers m
      then snd (notifyRsrcStatus s \<lparr>rcver = BROADCAST_ALL, rsrcStatus = RSRC_DENIED, postNotifyDelete = True\<rparr> m)
      else state_onRsrcEvent env RSRC_SUBSCRIBE (Some s) m)"

definition unsubscribeRsrc :: "agps_env \<Rightarrow> subscriber \<Rightarrow> agps_sm \<Rightarrow> bool \<times> agps_sm" where
  "unsubscribeRsrc env s m =
     (case find_sub (broadcast (To s)) (subs m) of
        Some x \<Rightarrow> (True, state_onRsrcEvent env RSRC_UNSUBSCRIBE (Some x) m)
      | None \<Rightarrow> (False, m))"

definition dropAllSubscribers :: "agps_sm \<Rightarrow> agps_sm" where
  "dropAllSubscribers m = m\<lparr>subs := [], freed := freed m \<union> set (map s_addr (subs m))\<rparr>"

datatype agps_event =
    Subscribe subscriber
  | Unsubscribe subscriber
  | Rsrc AgpsRsrcStatus
  | SetAPN "string option" nat
  | SetBearer int
  | Retry
  | EngineUp

definition agps_exec :: "agps_env \<Rightarrow> agps_event \<Rightarrow> agps_sm \<Rightarrow> agps_sm" where
  "agps_exec env ev m =
     (case ev of
        Subscribe s \<Rightarrow> subscribeRsrc env s m
      | Unsubscribe s \<Rightarrow> snd (unsubscribeRsrc env s m)
      | Rsrc e \<Rightarrow> onRsrcEvent env e m
      | SetAPN apn len \<Rightarrow> setAPN apn len m
      | SetBearer b \<Rightarrow> setBearer b m
      | Retry \<Rightarrow> if is_ds m then retryCallback m else m
      | EngineUp \<Rightarrow> dropAllSubscribers m)"

fun agps_run :: "(agps_env \<times> agps_event) list \<Rightarrow> agps_sm \<Rightarrow> agps_sm" where
  "agps_run [] m = m"
| "agps_run ((env, ev) # evs) m = agps_run evs (agps_exec env ev m)"

section \<open>What the searches do\<close>

lemma find_sub_None: "find_sub n ss = None \<longleftrightarrow> (\<forall>s \<in> set ss. \<not> forMe s n)"
  by (induction ss) auto

lemma find_sub_Some: "find_sub n ss = Some s \<Longrightarrow> s \<in> set ss \<and> forMe s n"
  by (induction ss) (auto split: if_splits)

text \<open>A notification leaves the fields of the machine other than the effects alone.\<close>

definition same_fields :: "agps_sm \<Rightarrow> agps_sm \<Rightarrow> bool" where
  "same_fields m m' \<longleftrightarrow>
     subs m' = subs m \<and> state m' = state m \<and> is_ds m' = is_ds m \<and> mType m' = mType m \<and> mAPN m' = mAPN m \<and>
     mBearer m' = mBearer m \<and> mEnforceSingleSubscriber m' = mEnforceSingleSubscriber m \<and>
     next_sub m' = next_sub m"

lemma same_fields_refl [simp]: "same_fields m m"
  by (simp add: same_fields_def)

lemma same_fields_trans: "same_fields m m1 \<Longrightarrow> same_fields m1 m2 \<Longrightarrow> same_fields m m2"
  by (simp add: same_fields_def)

lemma same_fields_notify: "same_fields m (snd (notifyRsrcStatus s n m))"
  by (auto simp: notifyRsrcStatus_def notify_out_def informStatus_def emit_def read_rcver_def same_fields_def Let_def
      split: sub_kind.splits AgpsRsrcStatus.splits rcver.splits)

lemma same_fields_search:
  "notify_search n ss m = (r, ss', m') \<Longrightarrow> same_fields m m'"
proof (induction ss arbitrary: m r ss' m')
  case (Cons s ss)
  obtain b m1 where n: "notifyRsrcStatus s n m = (b, m1)" by fastforce
  then have "same_fields m m1" using same_fields_notify [of m s n] by simp
  with Cons n show ?case by (auto split: prod.splits if_splits intro: same_fields_trans)
qed auto

lemma same_fields_loop: "notify_loop n ss m = (ss', m') \<Longrightarrow> same_fields m m'"
proof (induction "length ss" arbitrary: ss m rule: less_induct)
  case less
  obtain r ss1 m1 where s: "notify_search n ss m = (r, ss1, m1)" by (cases "notify_search n ss m") auto
  have f: "same_fields m m1" by (rule same_fields_search [OF s])
  show ?case
  proof (cases r)
    case None
    with s f less.prems show ?thesis by (subst (asm) notify_loop.simps) auto
  next
    case (Some x)
    have "length ss1 < length ss" using notify_search_length s Some by fastforce
    from less.hyps [OF this] less.prems s Some have
      "same_fields (m1\<lparr>freed := insert (s_addr x) (freed m1)\<rparr>) m'"
      by (subst (asm) notify_loop.simps) auto
    with f show ?thesis by (auto simp: same_fields_def)
  qed
qed

text \<open>A status that every subscriber class handles.\<close>

definition handled :: "AgpsRsrcStatus \<Rightarrow> bool" where
  "handled st \<longleftrightarrow> st \<in> {RSRC_UNSUBSCRIBE, RSRC_RELEASED, RSRC_DENIED, RSRC_GRANTED}"

lemma notify_out_handled: "handled st \<Longrightarrow> notify_out s st m \<noteq> None"
  by (auto simp: handled_def notify_out_def split: sub_kind.splits)

lemma notify_fst: "handled (rsrcStatus n) \<Longrightarrow> fst (notifyRsrcStatus s n m) = forMe s n"
  using notify_out_handled [of "rsrcStatus n" s "read_rcver n m"]
  by (auto simp: notifyRsrcStatus_def Let_def split: option.splits)

text \<open>The effects of one subscriber's \<open>notifyRsrcStatus\<close>.\<close>

definition reply :: "subscriber \<Rightarrow> AgpsRsrcStatus \<Rightarrow> agps_sm \<Rightarrow> agps_out list" where
  "reply s st m = (case notify_out s st (m\<lparr>outs := []\<rparr>) of None \<Rightarrow> [] | Some m' \<Rightarrow> outs m')"

lemma notify_out_reply: "notify_out s st m = Some m' \<Longrightarrow> outs m' = outs m @ reply s st m"
  by (auto simp: reply_def notify_out_def informStatus_def emit_def atl_type_def
      split: sub_kind.splits AgpsRsrcStatus.splits)

lemma reply_cong: "same_fields m m' \<Longrightarrow> reply s st m' = reply s st m"
  by (simp add: reply_def notify_out_def informStatus_def emit_def atl_type_def same_fields_def
      split: sub_kind.splits AgpsRsrcStatus.splits)

lemma reply_freed [simp]: "reply s st (m\<lparr>freed := f\<rparr>) = reply s st m" "reply s st (m\<lparr>uaf := u\<rparr>) = reply s st m"
  by (simp_all add: reply_def notify_out_def informStatus_def emit_def atl_type_def
      split: sub_kind.splits AgpsRsrcStatus.splits)

lemma notify_outs:
  "handled (rsrcStatus n) \<Longrightarrow>
     outs (snd (notifyRsrcStatus s n m)) = outs m @ (if forMe s n then reply s (rsrcStatus n) m else [])"
  using notify_out_handled [of "rsrcStatus n" s "read_rcver n m"] notify_out_reply [of s "rsrcStatus n" "read_rcver n m"]
  by (auto simp: notifyRsrcStatus_def Let_def read_rcver_def split: option.splits rcver.splits)

lemma notify_search_keep:
  assumes "handled (rsrcStatus n)" "\<not> postNotifyDelete n" "notify_search n ss m = (r, ss', m')"
  shows "r = None \<and> ss' = ss \<and>
    outs m' = outs m @ concat (map (\<lambda>s. reply s (rsrcStatus n) m) (filter (\<lambda>s. forMe s n) ss))"
  using assms(3)
proof (induction ss arbitrary: m r ss' m')
  case (Cons s ss)
  obtain b m1 where n: "notifyRsrcStatus s n m = (b, m1)" by fastforce
  obtain r2 ss2 m2 where s2: "notify_search n ss m1 = (r2, ss2, m2)" by (cases "notify_search n ss m1") auto
  have f: "same_fields m m1" using same_fields_notify [of m s n] n by simp
  have o: "outs m1 = outs m @ (if forMe s n then reply s (rsrcStatus n) m else [])"
    using notify_outs [OF assms(1), of s m] n by simp
  from Cons.IH [OF s2] Cons.prems n s2 assms(2) o reply_cong [OF f] show ?case by auto
qed auto

lemma notify_search_delete:
  assumes "handled (rsrcStatus n)" "postNotifyDelete n" "notify_search n ss m = (r, ss', m')"
  shows "case r of
       None \<Rightarrow> ss' = ss \<and> (\<forall>s \<in> set ss. \<not> forMe s n) \<and> outs m' = outs m \<and> freed m' = freed m
     | Some s \<Rightarrow> \<exists>us vs. ss = us @ s # vs \<and> ss' = us @ vs \<and> forMe s n \<and> (\<forall>u \<in> set us. \<not> forMe u n) \<and>
         outs m' = outs m @ reply s (rsrcStatus n) m \<and> freed m' = freed m"
  using assms(3)
proof (induction ss arbitrary: m r ss' m')
  case (Cons s ss)
  obtain b m1 where n: "notifyRsrcStatus s n m = (b, m1)" by fastforce
  have b: "b = forMe s n" using notify_fst [OF assms(1), of s m] n by simp
  have f: "same_fields m m1" using same_fields_notify [of m s n] n by simp
  have o: "outs m1 = outs m @ (if forMe s n then reply s (rsrcStatus n) m else [])"
    using notify_outs [OF assms(1), of s m] n by simp
  have fr: "freed m1 = freed m" using n
    by (auto simp: notifyRsrcStatus_def notify_out_def informStatus_def emit_def read_rcver_def Let_def
        split: sub_kind.splits AgpsRsrcStatus.splits rcver.splits if_splits)
  show ?case
  proof (cases "forMe s n")
    case True
    with Cons.prems n b assms(2) have "r = Some s" "ss' = ss" "m' = m1" by auto
    with True o fr show ?thesis by (simp, intro exI [of _ "[]"] exI [of _ ss]) simp
  next
    case False
    obtain r2 ss2 m2 where s2: "notify_search n ss m1 = (r2, ss2, m2)" by (cases "notify_search n ss m1") auto
    have eq: "r = r2" "ss' = s # ss2" "m' = m2" using Cons.prems n b False s2 by auto
    show ?thesis
    proof (cases r2)
      case None
      with Cons.IH [OF s2] eq False o fr show ?thesis by auto
    next
      case (Some x)
      with Cons.IH [OF s2] obtain us vs where uv: "ss = us @ x # vs" "ss2 = us @ vs" "forMe x n"
        "\<forall>u \<in> set us. \<not> forMe u n" "outs m2 = outs m1 @ reply x (rsrcStatus n) m1" "freed m2 = freed m1" by auto
      then have "s # ss = (s # us) @ x # vs" "ss' = (s # us) @ vs" using eq by simp_all
      with uv eq Some False o fr reply_cong [OF f, of x "rsrcStatus n"] show ?thesis
        by (simp, intro exI [of _ "s # us"] exI [of _ vs]) simp
    qed
  qed
qed auto

lemma notify_loop_delete:
  assumes "handled (rsrcStatus n)" "postNotifyDelete n"
  shows "notify_loop n ss m = (ss', m') \<Longrightarrow>
     ss' = filter (\<lambda>s. \<not> forMe s n) ss \<and>
     outs m' = outs m @ concat (map (\<lambda>s. reply s (rsrcStatus n) m) (filter (\<lambda>s. forMe s n) ss)) \<and>
     freed m' = freed m \<union> s_addr ` {s \<in> set ss. forMe s n}"
proof (induction "length ss" arbitrary: ss m ss' m' rule: less_induct)
  case less
  obtain r ss1 m1 where s: "notify_search n ss m = (r, ss1, m1)" by (cases "notify_search n ss m") auto
  note d = notify_search_delete [OF assms s]
  show ?case
  proof (cases r)
    case None
    then have "ss' = ss1" "m' = m1" using less.prems s by (subst (asm) notify_loop.simps; simp)+
    with d None show ?thesis by auto
  next
    case (Some x)
    let ?m = "m1\<lparr>freed := insert (s_addr x) (freed m1)\<rparr>"
    from d Some obtain us vs where uv: "ss = us @ x # vs" "ss1 = us @ vs" "forMe x n"
      "\<forall>u \<in> set us. \<not> forMe u n" "outs m1 = outs m @ reply x (rsrcStatus n) m" "freed m1 = freed m" by auto
    have lt: "length ss1 < length ss" using uv by simp
    have nl: "notify_loop n ss1 ?m = (ss', m')"
      using less.prems s Some by (subst (asm) notify_loop.simps) simp
    have f: "same_fields m m1" by (rule same_fields_search [OF s])
    have rc: "reply y (rsrcStatus n) ?m = reply y (rsrcStatus n) m" for y using reply_cong [OF f] by simp
    from less.hyps [OF lt nl] uv rc show ?thesis by auto
  qed
qed

lemma notifySubscribers_delete:
  assumes "handled (rsrcStatus n)" "postNotifyDelete n"
  shows "subs (notifySubscribers n m) = filter (\<lambda>s. \<not> forMe s n) (subs m)"
    and "outs (notifySubscribers n m) =
       outs m @ concat (map (\<lambda>s. reply s (rsrcStatus n) m) (filter (\<lambda>s. forMe s n) (subs m)))"
    and "same_fields m ((notifySubscribers n m)\<lparr>subs := subs m\<rparr>)"
proof -
  obtain ss' m' where l: "notify_loop n (subs m) m = (ss', m')" by fastforce
  note d = notify_loop_delete [OF assms l]
  show "subs (notifySubscribers n m) = filter (\<lambda>s. \<not> forMe s n) (subs m)"
    "outs (notifySubscribers n m) =
       outs m @ concat (map (\<lambda>s. reply s (rsrcStatus n) m) (filter (\<lambda>s. forMe s n) (subs m)))"
    using d l assms(2) by (simp_all add: notifySubscribers_def)
  show "same_fields m ((notifySubscribers n m)\<lparr>subs := subs m\<rparr>)"
    using same_fields_loop [OF l] l assms(2) by (simp add: notifySubscribers_def same_fields_def)
qed

lemma notifySubscribers_keep:
  assumes "handled (rsrcStatus n)" "\<not> postNotifyDelete n"
  shows "same_fields m (notifySubscribers n m)"
    and "outs (notifySubscribers n m) =
       outs m @ concat (map (\<lambda>s. reply s (rsrcStatus n) m) (filter (\<lambda>s. forMe s n) (subs m)))"
proof -
  obtain r ss' m' where l: "notify_search n (subs m) m = (r, ss', m')" by (cases "notify_search n (subs m) m") auto
  show "same_fields m (notifySubscribers n m)"
    "outs (notifySubscribers n m) =
       outs m @ concat (map (\<lambda>s. reply s (rsrcStatus n) m) (filter (\<lambda>s. forMe s n) (subs m)))"
    using notify_search_keep [OF assms l] same_fields_search [OF l] l assms(2)
    by (simp_all add: notifySubscribers_def)
qed

section \<open>The state agrees with the subscribers\<close>

text \<open>
  \<open>agps_inv k d m\<close>, for a plain machine. \<open>k\<close> is \<open>Some True\<close> when all its subscribers wait for the close to complete
  (the WIFI machine), \<open>Some False\<close> when none does (the others), and None when there are both. \<open>d\<close> says that an
  \<open>EVT ENGINE UP\<close> may have dropped the subscribers.
\<close>

definition of_kind :: "bool option \<Rightarrow> subscriber \<Rightarrow> bool" where
  "of_kind k s \<longleftrightarrow> (\<forall>w. k = Some w \<longrightarrow> waitForCloseComplete s = w)"

definition agps_inv :: "bool option \<Rightarrow> bool \<Rightarrow> agps_sm \<Rightarrow> bool" where
  "agps_inv k d m \<longleftrightarrow>
     \<not> is_ds m \<and> (\<forall>s \<in> set (subs m). of_kind k s) \<and>
     (case state m of
        Released \<Rightarrow> subs m = []
      | Pending \<Rightarrow> (\<exists>s \<in> set (subs m). \<not> isInactive s) \<or> d \<and> subs m = []
      | Acquired \<Rightarrow> (\<exists>s \<in> set (subs m). \<not> isInactive s) \<or> d \<and> subs m = []
      | Releasing \<Rightarrow> (d \<or> subs m \<noteq> []) \<and> (k \<noteq> None \<longrightarrow> \<not> d \<longrightarrow> (\<exists>s \<in> set (subs m). isInactive s)))"

fun agps_event_ok :: "bool option \<Rightarrow> agps_event \<Rightarrow> bool" where
  "agps_event_ok k (Subscribe s) \<longleftrightarrow> of_kind k s"
| "agps_event_ok k _ \<longleftrightarrow> True"

lemma clone_simps [simp]:
  "waitForCloseComplete (clone a s) = waitForCloseComplete s" "of_kind k (clone a s) = of_kind k s" "\<not> isInactive (clone a s)"
  "s_ID (clone a s) = s_ID s" "s_addr (clone a s) = a"
  by (auto simp: clone_def BITSubscriber_def ATLSubscriber_def WIFISubscriber_def DSSubscriber_def
      waitForCloseComplete_def isInactive_def of_kind_def split: sub_kind.splits)

lemma inactivate_simps [simp]:
  "waitForCloseComplete (inactivate s) = waitForCloseComplete s" "s_ID (inactivate s) = s_ID s"
  "isInactive (inactivate s) = waitForCloseComplete s" "s_addr (inactivate s) = s_addr s"
  by (auto simp: inactivate_def waitForCloseComplete_def isInactive_def split: sub_kind.splits)

lemma hasActive_iff: "hasActiveSubscribers m \<longleftrightarrow> (\<exists>s \<in> set (subs m). \<not> isInactive s)"
  using find_sub_None [of "broadcast BROADCAST_ACTIVE" "subs m"]
  by (auto simp: hasActiveSubscribers_def forMe_def broadcast_def)

lemma addSubscriber_subs:
  "set (subs (addSubscriber s m)) = set (subs m) \<or>
     set (subs (addSubscriber s m)) = insert (clone (next_sub m) s) (set (subs m))"
  "subs m = [] \<Longrightarrow> subs (addSubscriber s m) = [clone (next_sub m) s]"
  by (auto simp: addSubscriber_def split: option.splits)

lemma addSubscriber_fields [simp]:
  "is_ds (addSubscriber s m) = is_ds m" "outs (addSubscriber s m) = outs m" "state (addSubscriber s m) = state m"
  "mType (addSubscriber s m) = mType m"
  by (auto simp: addSubscriber_def split: option.splits)

lemma sendRsrcRequest_fields [simp]:
  "\<not> is_ds m \<Longrightarrow> fst (sendRsrcRequest env act m) = 0"
  "\<not> is_ds m \<Longrightarrow> subs (snd (sendRsrcRequest env act m)) = subs m"
  "\<not> is_ds m \<Longrightarrow> is_ds (snd (sendRsrcRequest env act m)) = is_ds m"
  by (auto simp: sendRsrcRequest_def emit_def Let_def split: option.splits)

lemma setInactive_fields:
  "subs (setInactive s m) = map (\<lambda>x. if s_addr x = s_addr s then inactivate x else x) (subs m)"
  "is_ds (setInactive s m) = is_ds m"
  by (auto simp: setInactive_def informStatus_def emit_def Let_def split: sub_kind.splits)

lemma inactivate_kind [simp]: "of_kind k (inactivate s) = of_kind k s"
  by (simp add: of_kind_def)

lemma unsubscribe_one_inv:
  assumes "s \<in> set (subs m)" "\<forall>x \<in> set (subs m). of_kind k x" "\<not> is_ds m"
  shows "\<not> is_ds (unsubscribe_one s m)" "\<forall>x \<in> set (subs (unsubscribe_one s m)). of_kind k x"
    "k = Some True \<Longrightarrow> \<exists>x \<in> set (subs (unsubscribe_one s m)). isInactive x"
proof -
  let ?n = "\<lparr>rcver = To s, rsrcStatus = RSRC_UNSUBSCRIBE, postNotifyDelete = True\<rparr>"
  have h: "handled (rsrcStatus ?n)" "postNotifyDelete ?n" by (simp_all add: handled_def)
  note del = notifySubscribers_delete(1,3) [OF h, of m]
  show "\<not> is_ds (unsubscribe_one s m)" "\<forall>x \<in> set (subs (unsubscribe_one s m)). of_kind k x"
    using assms del by (auto simp: unsubscribe_one_def setInactive_fields same_fields_def)
  assume k: "k = Some True"
  then have "waitForCloseComplete s" using assms(1,2) unfolding of_kind_def by blast
  then have "inactivate s \<in> set (subs (unsubscribe_one s m))" "isInactive (inactivate s)"
    using assms(1) by (force simp: unsubscribe_one_def setInactive_fields)+
  then show "\<exists>x \<in> set (subs (unsubscribe_one s m)). isInactive x" by blast
qed

lemma not_inactive: "\<not> waitForCloseComplete s \<Longrightarrow> \<not> isInactive s"
  by (auto simp: waitForCloseComplete_def isInactive_def split: sub_kind.splits)

text \<open>The requests and releases sent to the connectivity service.\<close>

fun nif_actions :: "agps_out list \<Rightarrow> AGpsStatusValue list" where
  "nif_actions [] = []"
| "nif_actions (NifRequest a ty x y # os) = a # nif_actions os"
| "nif_actions (_ # os) = nif_actions os"

lemma nif_actions_append [simp]: "nif_actions (xs @ ys) = nif_actions xs @ nif_actions ys"
  by (induction xs rule: nif_actions.induct) auto

lemma nif_actions_reply [simp]: "nif_actions (reply s st m) = []"
  by (simp add: reply_def notify_out_def informStatus_def emit_def split: sub_kind.splits AgpsRsrcStatus.splits)

lemma nif_actions_replies [simp]: "nif_actions (concat (map (\<lambda>s. reply s st m) ss)) = []"
  by (induction ss) auto

abbreviation actions :: "agps_sm \<Rightarrow> AGpsStatusValue list" where
  "actions m \<equiv> nif_actions (outs m)"

lemma actions_setInactive [simp]: "actions (setInactive s m) = actions m"
  by (auto simp: setInactive_def informStatus_def emit_def Let_def split: sub_kind.splits)

lemma actions_notify [simp]: "handled (rsrcStatus n) \<Longrightarrow> actions (snd (notifyRsrcStatus s n m)) = actions m"
  by (simp add: notify_outs)

lemma actions_notifySubscribers: "handled (rsrcStatus n) \<Longrightarrow> actions (notifySubscribers n m) = actions m"
  using notifySubscribers_delete(2) [of n m] notifySubscribers_keep(2) [of n m]
  by (cases "postNotifyDelete n") simp_all

lemma actions_unsubscribe_one [simp]: "actions (unsubscribe_one s m) = actions m"
  by (simp add: unsubscribe_one_def actions_notifySubscribers handled_def)

text \<open>A request goes out when there is an active subscriber, a release when there is none.\<close>

lemma actions_sendRsrcRequest:
  assumes "\<not> is_ds m"
  shows "actions (snd (sendRsrcRequest env act m)) =
    actions m @ (if hasActiveSubscribers m \<noteq> (act = GPS_RELEASE_AGPS_DATA_CONN) then [act] else [])"
  using assms
  by (cases "find_sub (broadcast BROADCAST_ACTIVE) (subs m)"; cases act)
    (auto simp: sendRsrcRequest_def emit_def Let_def hasActiveSubscribers_def)

lemma find_sub_mem: "find_sub n ss = Some s \<Longrightarrow> s \<in> set ss"
  using find_sub_Some by blast

text \<open>What an event sends to the connectivity service, by the states before and after it.\<close>

definition expected_actions :: "agps_event \<Rightarrow> agps_state \<Rightarrow> agps_state \<Rightarrow> AGpsStatusValue list" where
  "expected_actions ev st st' =
     (if st' = Pending \<and> st \<noteq> Pending then [GPS_REQUEST_AGPS_DATA_CONN]
      else if st \<in> {Pending, Acquired} \<and> st' \<in> {Released, Releasing} \<and> (case ev of Unsubscribe _ \<Rightarrow> True | _ \<Rightarrow> False)
      then [GPS_RELEASE_AGPS_DATA_CONN] else [])"

lemma expected_actions_same [simp]: "expected_actions ev st st = []"
  by (cases st) (simp_all add: expected_actions_def)

lemma agps_inv_same: "same_fields m m' \<Longrightarrow> agps_inv k d m' = agps_inv k d m"
  by (cases "state m") (simp_all add: agps_inv_def same_fields_def)

lemma release_if_unused_inv:
  assumes m: "\<not> is_ds m" "\<forall>x \<in> set (subs m). of_kind k x"
    and st: "st = Pending \<or> st = Acquired" and rel: "release_if_unused env st m = (st', m')"
  shows "agps_inv k d (m'\<lparr>state := st'\<rparr>) \<and> actions m' = actions m @ expected_actions (Unsubscribe s) st st'"
proof (cases "hasActiveSubscribers m")
  case True
  then have "hasSubscribers m" by (auto simp: hasActive_iff hasSubscribers_def)
  with True rel have "st' = st" "m' = m" by (auto simp: release_if_unused_def)
  with True m st show ?thesis by (auto simp: agps_inv_def hasActive_iff)
next
  case False
  then have in_all: "\<forall>x \<in> set (subs m). isInactive x" by (simp add: hasActive_iff)
  let ?m = "snd (sendRsrcRequest env GPS_RELEASE_AGPS_DATA_CONN m)"
  have a: "actions ?m = actions m @ [GPS_RELEASE_AGPS_DATA_CONN]"
    using False m(1) by (simp add: actions_sendRsrcRequest)
  have f: "subs ?m = subs m" "\<not> is_ds ?m" using m(1) by simp_all
  have m': "m' = ?m" and st': "st' = (if subs m = [] then Released else Releasing)"
    using rel False by (auto simp: release_if_unused_def hasSubscribers_def split: if_splits)
  have "agps_inv k d (?m\<lparr>state := st'\<rparr>)"
    using f m(2) in_all st' by (cases "subs m") (auto simp: agps_inv_def)
  moreover have "expected_actions (Unsubscribe s) st st' = [GPS_RELEASE_AGPS_DATA_CONN]"
    using st st' by (auto simp: expected_actions_def)
  ultimately show ?thesis using a m' by simp
qed

lemma agps_step_subscribe:
  assumes inv: "agps_inv k d m" and w: "of_kind k s"
  shows "agps_inv k d (subscribeRsrc env s m) \<and>
    actions (subscribeRsrc env s m) =
      actions m @ expected_actions (Subscribe s) (state m) (state (subscribeRsrc env s m))"
proof (cases "mEnforceSingleSubscriber m \<and> hasSubscribers m")
  case True
  let ?n = "\<lparr>rcver = BROADCAST_ALL, rsrcStatus = RSRC_DENIED, postNotifyDelete = True\<rparr>"
  have f: "same_fields m (snd (notifyRsrcStatus s ?n m))" by (rule same_fields_notify)
  then have "state (snd (notifyRsrcStatus s ?n m)) = state m" by (simp add: same_fields_def)
  with True inv agps_inv_same [OF f] show ?thesis by (simp add: subscribeRsrc_def handled_def)
next
  case False
  have add: "\<forall>x \<in> set (subs (addSubscriber s m')). of_kind k x"
    "subs (addSubscriber s m') \<noteq> []"
    "(\<exists>x \<in> set (subs m). \<not> isInactive x) \<or> subs m = [] \<Longrightarrow> \<exists>x \<in> set (subs (addSubscriber s m')). \<not> isInactive x"
    "\<exists>x \<in> set (subs m). isInactive x \<Longrightarrow> \<exists>x \<in> set (subs (addSubscriber s m')). isInactive x"
    if "subs m' = subs m" for m'
    using addSubscriber_subs(1) [of s m'] addSubscriber_subs(2) [of m' s] inv w that by (auto simp: agps_inv_def)
  show ?thesis
  proof (cases "state m")
    case Released
    then have "subs (addSubscriber s m) = [clone (next_sub m) s]"
      using inv addSubscriber_subs(2) by (simp add: agps_inv_def)
    then have "hasActiveSubscribers (addSubscriber s m)" by (simp add: hasActive_iff)
    with Released False inv add [of m] \<open>subs (addSubscriber s m) = _\<close> show ?thesis
      by (auto simp: subscribeRsrc_def state_onRsrcEvent_def released_onRsrcEvent_def Let_def split_def
          agps_inv_def expected_actions_def actions_sendRsrcRequest)
  next
    case Pending
    with False inv add [of m] show ?thesis
      by (auto simp: subscribeRsrc_def state_onRsrcEvent_def pending_onRsrcEvent_def Let_def
          agps_inv_def expected_actions_def)
  next
    case Acquired
    let ?m = "snd (notifyRsrcStatus s \<lparr>rcver = To s, rsrcStatus = RSRC_GRANTED, postNotifyDelete = False\<rparr> m)"
    have "subs ?m = subs m" "is_ds ?m = is_ds m" using same_fields_notify by (auto simp: same_fields_def)
    with Acquired False inv add [of ?m] show ?thesis
      by (auto simp: subscribeRsrc_def state_onRsrcEvent_def acquired_onRsrcEvent_def Let_def
          agps_inv_def expected_actions_def handled_def)
  next
    case Releasing
    with False inv add [of m] show ?thesis
      by (auto simp: subscribeRsrc_def state_onRsrcEvent_def releasing_onRsrcEvent_def Let_def
          agps_inv_def expected_actions_def)
  qed
qed

lemma agps_step_unsubscribe:
  assumes inv: "agps_inv k d m"
  shows "agps_inv k d (snd (unsubscribeRsrc env s m)) \<and>
    actions (snd (unsubscribeRsrc env s m)) =
      actions m @ expected_actions (Unsubscribe s) (state m) (state (snd (unsubscribeRsrc env s m)))"
proof (cases "find_sub (broadcast (To s)) (subs m)")
  case None
  with inv show ?thesis by (simp add: unsubscribeRsrc_def)
next
  case (Some x)
  then have x: "x \<in> set (subs m)" by (rule find_sub_mem)
  note u = unsubscribe_one_inv [OF x, of k]
  have m: "\<forall>y \<in> set (subs m). of_kind k y" "\<not> is_ds m" using inv by (simp_all add: agps_inv_def)
  note u = u [OF m]
  show ?thesis
  proof (cases "state m")
    case Released
    with inv x show ?thesis by (simp add: agps_inv_def)
  next
    case Pending
    obtain st' m' where r: "release_if_unused env Pending (unsubscribe_one x m) = (st', m')" by fastforce
    from release_if_unused_inv [OF u(1,2) _ r, where s = s] Pending Some r show ?thesis
      by (simp add: unsubscribeRsrc_def state_onRsrcEvent_def pending_onRsrcEvent_def)
  next
    case Acquired
    obtain st' m' where r: "release_if_unused env Acquired (unsubscribe_one x m) = (st', m')" by fastforce
    from release_if_unused_inv [OF u(1,2) _ r, where s = s] Acquired Some r show ?thesis
      by (simp add: unsubscribeRsrc_def state_onRsrcEvent_def acquired_onRsrcEvent_def)
  next
    case Releasing
    let ?m = "unsubscribe_one x m"
    have "(\<exists>y \<in> set (subs ?m). isInactive y)" if "k = Some w" "\<not> d" for w
    proof -
      from inv Releasing that obtain y where "y \<in> set (subs m)" "isInactive y" by (auto simp: agps_inv_def)
      then have w using m(1) that(1) not_inactive by (fastforce simp: of_kind_def)
      with that u(3) show ?thesis by simp
    qed
    with Releasing Some u(1,2) show ?thesis
      by (auto simp: unsubscribeRsrc_def state_onRsrcEvent_def releasing_onRsrcEvent_def Let_def agps_inv_def
          hasSubscribers_def expected_actions_def)
  qed
qed

lemma notify_all_deleted:
  assumes "handled st"
  shows "subs (notifySubscribers \<lparr>rcver = BROADCAST_ALL, rsrcStatus = st, postNotifyDelete = True\<rparr> m) = []"
    and "is_ds (notifySubscribers \<lparr>rcver = BROADCAST_ALL, rsrcStatus = st, postNotifyDelete = True\<rparr> m) = is_ds m"
proof -
  let ?n = "\<lparr>rcver = BROADCAST_ALL, rsrcStatus = st, postNotifyDelete = True\<rparr>"
  have h: "handled (rsrcStatus ?n)" "postNotifyDelete ?n" using assms by simp_all
  show "subs (notifySubscribers ?n m) = []" "is_ds (notifySubscribers ?n m) = is_ds m"
    using notifySubscribers_delete(1,3) [OF h, of m] by (simp_all add: forMe_def same_fields_def)
qed

lemma agps_step_rsrc:
  assumes inv: "agps_inv k d m"
  shows "agps_inv k d (onRsrcEvent env ev m) \<and>
    actions (onRsrcEvent env ev m) =
      actions m @ expected_actions (Rsrc ev) (state m) (state (onRsrcEvent env ev m))"
proof (cases "ev \<in> {RSRC_GRANTED, RSRC_RELEASED, RSRC_DENIED}")
  case False
  with inv show ?thesis by (simp add: onRsrcEvent_def agps_inv_def)
next
  case ev: True
  then have h: "handled ev" by (auto simp: handled_def)
  have step: "onRsrcEvent env ev m = state_onRsrcEvent env ev None m"
    using ev inv by (simp add: onRsrcEvent_def agps_inv_def)
  show ?thesis
  proof (cases "state m")
    case Released
    with ev inv step show ?thesis
      by (auto simp: state_onRsrcEvent_def released_onRsrcEvent_def agps_inv_def)
  next
    case Pending
    let ?g = "notifySubscribers \<lparr>rcver = BROADCAST_ACTIVE, rsrcStatus = RSRC_GRANTED, postNotifyDelete = False\<rparr> m"
    have g: "same_fields m ?g" by (rule notifySubscribers_keep(1)) (simp_all add: handled_def)
    have "actions ?g = actions m" by (rule actions_notifySubscribers) (simp add: handled_def)
    with Pending ev inv g step show ?thesis
      by (auto simp: state_onRsrcEvent_def pending_onRsrcEvent_def agps_inv_def notify_all_deleted handled_def
          actions_notifySubscribers expected_actions_def same_fields_def)
  next
    case Acquired
    with ev inv step show ?thesis
      by (auto simp: state_onRsrcEvent_def acquired_onRsrcEvent_def agps_inv_def notify_all_deleted handled_def
          actions_notifySubscribers expected_actions_def)
  next
    case Releasing
    let ?n = "\<lparr>rcver = BROADCAST_INACTIVE, rsrcStatus = ev, postNotifyDelete = True\<rparr>"
    let ?m = "notifySubscribers ?n m"
    have hn: "handled (rsrcStatus ?n)" "postNotifyDelete ?n" using h by simp_all
    have s: "subs ?m = filter (\<lambda>s. \<not> isInactive s) (subs m)" "is_ds ?m = is_ds m"
      using notifySubscribers_delete(1,3) [OF hn, of m] by (simp_all add: forMe_def same_fields_def)
    have a: "actions ?m = actions m" by (rule actions_notifySubscribers [OF hn(1)])
    have act: "hasActiveSubscribers ?m \<longleftrightarrow> subs ?m \<noteq> []"
      using s(1) by (auto simp: hasActive_iff filter_empty_conv)
    have ds: "\<not> is_ds ?m" using s(2) inv by (simp add: agps_inv_def)
    show ?thesis
    proof (cases "ev = RSRC_GRANTED")
      case True
      with Releasing inv step show ?thesis
        by (auto simp: state_onRsrcEvent_def releasing_onRsrcEvent_def agps_inv_def)
    next
      case False
      with ev have "ev = RSRC_RELEASED \<or> ev = RSRC_DENIED" by auto
      then have eq: "onRsrcEvent env ev m =
         (if hasActiveSubscribers ?m
          then (snd (sendRsrcRequest env GPS_REQUEST_AGPS_DATA_CONN ?m))\<lparr>state := Pending\<rparr>
          else ?m\<lparr>state := Released\<rparr>)"
        using Releasing step by (auto simp: state_onRsrcEvent_def releasing_onRsrcEvent_def Let_def)
      show ?thesis
      proof (cases "hasActiveSubscribers ?m")
        case True
        with eq act a ds s inv Releasing show ?thesis
          by (auto simp: agps_inv_def actions_sendRsrcRequest expected_actions_def hasActive_iff)
      next
        case False
        with eq act a ds Releasing show ?thesis
          by (auto simp: agps_inv_def expected_actions_def)
      qed
    qed
  qed
qed

lemma agps_inv_dropped: "agps_inv k d m \<Longrightarrow> agps_inv k (d \<or> b) m"
  by (cases "state m") (auto simp: agps_inv_def)

lemma agps_step:
  assumes inv: "agps_inv k d m" and ok: "agps_event_ok k ev"
  shows "agps_inv k (d \<or> ev = EngineUp) (agps_exec env ev m) \<and>
    actions (agps_exec env ev m) = actions m @ expected_actions ev (state m) (state (agps_exec env ev m))"
proof -
  have "agps_inv k d (agps_exec env ev m) \<and>
      actions (agps_exec env ev m) = actions m @ expected_actions ev (state m) (state (agps_exec env ev m))"
    if "ev \<noteq> EngineUp"
  proof (cases ev)
    case (Subscribe s)
    with agps_step_subscribe [OF inv, of s env] ok show ?thesis by (simp add: agps_exec_def)
  next
    case (Unsubscribe s)
    with agps_step_unsubscribe [OF inv, of env s] show ?thesis by (simp add: agps_exec_def)
  next
    case (Rsrc e)
    with agps_step_rsrc [OF inv, of env e] show ?thesis by (simp add: agps_exec_def)
  next
    case (SetAPN apn len)
    have "agps_inv k d (setAPN apn len m) = agps_inv k d m" by (cases "state m") (simp_all add: agps_inv_def setAPN_def)
    moreover have "state (setAPN apn len m) = state m" "outs (setAPN apn len m) = outs m" by (simp_all add: setAPN_def)
    ultimately show ?thesis using inv SetAPN by (simp add: agps_exec_def)
  next
    case (SetBearer b)
    have "agps_inv k d (setBearer b m) = agps_inv k d m" by (cases "state m") (simp_all add: agps_inv_def setBearer_def)
    moreover have "state (setBearer b m) = state m" "outs (setBearer b m) = outs m" by (simp_all add: setBearer_def)
    ultimately show ?thesis using inv SetBearer by (simp add: agps_exec_def)
  next
    case Retry
    with inv show ?thesis by (simp add: agps_exec_def agps_inv_def)
  qed (use that in simp)
  moreover have "agps_inv k True (dropAllSubscribers m)"
    using inv by (cases "state m") (simp_all add: agps_inv_def dropAllSubscribers_def)
  ultimately show ?thesis
    by (cases "ev = EngineUp") (auto simp: agps_exec_def dropAllSubscribers_def)
qed

lemma agps_inv_new: "agps_inv k d (agps_new type single)"
  by (simp add: agps_inv_def agps_new_def)

lemma agps_run_inv:
  "agps_inv k d m \<Longrightarrow> \<forall>x \<in> set evs. agps_event_ok k (snd x) \<Longrightarrow>
    agps_inv k (d \<or> EngineUp \<in> snd ` set evs) (agps_run evs m)"
proof (induction evs arbitrary: m d)
  case (Cons x evs)
  obtain env ev where x: "x = (env, ev)" by fastforce
  with Cons.prems have "agps_inv k (d \<or> ev = EngineUp) (agps_exec env ev m)" by (intro conjunct1 [OF agps_step]) simp_all
  from Cons.IH [OF this] Cons.prems x show ?case by (simp add: disj_ac eq_commute)
qed simp

lemma reachable_agps_inv:
  "\<forall>x \<in> set evs. agps_event_ok k (snd x) \<Longrightarrow> agps_inv k (EngineUp \<in> snd ` set evs) (agps_run evs (agps_new type single))"
  using agps_run_inv [OF agps_inv_new [of k False]] by simp

lemma any_event_ok: "agps_event_ok None ev"
  by (cases ev) (simp_all add: of_kind_def)

text \<open>The dead subscriber is read as soon as another one is left in the list.\<close>

lemma notify_search_uaf:
  "uaf m \<Longrightarrow> uaf (snd (snd (notify_search n ss m)))"
proof (induction ss arbitrary: m)
  case (Cons s ss)
  have "uaf (snd (notifyRsrcStatus s n m))" using Cons.prems
    by (auto simp: notifyRsrcStatus_def notify_out_def informStatus_def emit_def read_rcver_def Let_def
        split: sub_kind.splits AgpsRsrcStatus.splits rcver.splits)
  with Cons.IH [of "snd (notifyRsrcStatus s n m)"] show ?case by (auto simp: split_def)
qed simp

lemma notify_loop_uaf: "uaf m \<Longrightarrow> uaf (snd (notify_loop n ss m))"
proof (induction "length ss" arbitrary: ss m rule: less_induct)
  case less
  obtain r ss1 m1 where s: "notify_search n ss m = (r, ss1, m1)" by (cases "notify_search n ss m") auto
  have u: "uaf m1" using notify_search_uaf [OF less.prems, of n ss] s by simp
  show ?case
  proof (cases r)
    case None
    with s u show ?thesis by (subst notify_loop.simps) simp
  next
    case (Some x)
    have "length ss1 < length ss" using notify_search_length s Some by fastforce
    from less.hyps [OF this] u s Some show ?thesis by (subst notify_loop.simps) simp
  qed
qed

lemma notify_search_freed_rcver:
  assumes "rcver n = To r" "s_addr r \<in> freed m" "ss \<noteq> []"
  shows "uaf (snd (snd (notify_search n ss m)))"
proof -
  obtain s ss' where ss: "ss = s # ss'" using assms(3) by (cases ss) auto
  have "uaf (snd (notifyRsrcStatus s n m))" using assms(1,2)
    by (auto simp: notifyRsrcStatus_def notify_out_def informStatus_def emit_def read_rcver_def Let_def
        split: sub_kind.splits AgpsRsrcStatus.splits rcver.splits)
  with notify_search_uaf [of "snd (notifyRsrcStatus s n m)" n ss'] ss show ?thesis by (auto simp: split_def)
qed

lemma sendRsrcRequest_uaf [simp]: "\<not> is_ds m \<Longrightarrow> uaf (snd (sendRsrcRequest env act m)) = uaf m"
  by (auto simp: sendRsrcRequest_def emit_def Let_def split: option.splits)

lemma notify_dead_uaf:
  assumes atl: "\<forall>x \<in> set (subs m). \<exists>cm. s_kind x = ATL cm"
    and x: "find_sub (broadcast (To s)) (subs m) = Some x" and two: "2 \<le> length (subs m)"
  shows "uaf (notifySubscribers \<lparr>rcver = To x, rsrcStatus = RSRC_UNSUBSCRIBE, postNotifyDelete = True\<rparr> m)"
proof -
  let ?n = "\<lparr>rcver = To x, rsrcStatus = RSRC_UNSUBSCRIBE, postNotifyDelete = True\<rparr>"
  have h: "handled (rsrcStatus ?n)" "postNotifyDelete ?n" by (simp_all add: handled_def)
  have eq: "forMe y ?n \<longleftrightarrow> s_ID y = s_ID x" "forMe y (broadcast (To s)) \<longleftrightarrow> s_ID y = s_ID s"
    if "y \<in> set (subs m)" for y
    using atl that by (fastforce simp: forMe_def sub_equals_def broadcast_def)+
  from find_sub_Some [OF x] eq have xm: "x \<in> set (subs m)" and id: "s_ID x = s_ID s" by auto
  obtain r ss1 m1 where s1: "notify_search ?n (subs m) m = (r, ss1, m1)" by (cases "notify_search ?n (subs m) m") auto
  note d = notify_search_delete [OF h s1]
  obtain y where y: "r = Some y" using d eq(1) xm by (cases r) auto
  with d obtain us vs where uv: "subs m = us @ y # vs" "ss1 = us @ vs" "forMe y ?n" "\<forall>u \<in> set us. \<not> forMe u ?n"
    by auto
  have "find_sub (broadcast (To s)) (us @ y # vs) = Some y" if "set (us @ y # vs) \<subseteq> set (subs m)"
    "\<forall>u \<in> set us. \<not> forMe u ?n"
    using that eq id uv(3) by (induction us) auto
  with uv x have yx: "y = x" by simp
  have ss1: "ss1 \<noteq> []" using two uv by auto
  let ?m1 = "m1\<lparr>freed := insert (s_addr x) (freed m1)\<rparr>"
  obtain r2 ss2 m2 where s2: "notify_search ?n ss1 ?m1 = (r2, ss2, m2)" by (cases "notify_search ?n ss1 ?m1") auto
  have u: "uaf m2" using notify_search_freed_rcver [of ?n x ?m1 ss1] ss1 s2 by simp
  have "uaf (snd (notify_loop ?n ss1 ?m1))"
    using u s2 by (subst notify_loop.simps) (auto split: option.splits intro: notify_loop_uaf)
  then have "uaf (snd (notify_loop ?n (subs m) m))"
    using s1 y yx by (subst notify_loop.simps) simp
  then show ?thesis by (simp add: notifySubscribers_def split_def Let_def)
qed

section \<open>Properties of the plain machines\<close>

definition ok_env :: agps_env where "ok_env = \<lparr>rsrc_ret = 0, timer_ret = True\<rparr>"
definition busy_env :: agps_env where "busy_env = \<lparr>rsrc_ret = 6, timer_ret = True\<rparr>"

definition wifi_sub :: subscriber where "wifi_sub = WIFISubscriber 100 (Some ''net'') None 7"
definition atl_sub :: "32 word \<Rightarrow> subscriber" where "atl_sub i = ATLSubscriber (100 + unat i) i False"

text \<open>All subscriptions of a sequence are of classes that wait for the close to complete (\<open>w\<close>), or none is.\<close>

definition one_kind :: "bool \<Rightarrow> (agps_env \<times> agps_event) list \<Rightarrow> bool" where
  "one_kind w evs \<longleftrightarrow> (\<forall>s. Subscribe s \<in> snd ` set evs \<longrightarrow> waitForCloseComplete s = w)"

lemma one_kind_ok: "one_kind w evs \<Longrightarrow> \<forall>x \<in> set evs. agps_event_ok (Some w) (snd x)"
proof
  fix x
  assume "one_kind w evs" "x \<in> set evs"
  then show "agps_event_ok (Some w) (snd x)" by (cases "snd x") (force simp: one_kind_def of_kind_def)+
qed

text \<open>
  C6: After any sequence of subscriptions of any classes, unsubscriptions, events of the connection manager, changes of
  APN and bearer, and restarts of the modem, the state of a plain machine agrees with its list. Released means no
  subscriber at all. Pending and Acquired mean that some subscriber is active, or that a restart has dropped them all.
  Releasing means that there is a subscriber, or a restart was; and when the classes are of one kind and there was no
  restart, that some subscriber is inactive: it waits for the connection to close.
\<close>

theorem agps_state_agrees:
  assumes "m = agps_run evs (agps_new type single)"
  shows "case state m of
           Released \<Rightarrow> subs m = []
         | Pending \<Rightarrow> (\<exists>s \<in> set (subs m). \<not> isInactive s) \<or> EngineUp \<in> snd ` set evs \<and> subs m = []
         | Acquired \<Rightarrow> (\<exists>s \<in> set (subs m). \<not> isInactive s) \<or> EngineUp \<in> snd ` set evs \<and> subs m = []
         | Releasing \<Rightarrow> (subs m \<noteq> [] \<or> EngineUp \<in> snd ` set evs) \<and>
             (\<forall>w. one_kind w evs \<longrightarrow> EngineUp \<notin> snd ` set evs \<longrightarrow> w \<and> (\<exists>s \<in> set (subs m). isInactive s))"
proof -
  let ?d = "EngineUp \<in> snd ` set evs"
  have inv: "agps_inv None ?d m" using reachable_agps_inv [of evs None] any_event_ok assms by blast
  have kind: "w \<and> (\<exists>s \<in> set (subs m). isInactive s)" if "state m = Releasing" "one_kind w evs" "\<not> ?d" for w
    using reachable_agps_inv [OF one_kind_ok [OF that(2)], of type single] that(1,3) assms not_inactive
    by (fastforce simp: agps_inv_def of_kind_def)
  show ?thesis using inv kind by (cases "state m") (auto simp: agps_inv_def)
qed

theorem agps_state_agrees_witness:
  "state (agps_run [(ok_env, Subscribe wifi_sub), (ok_env, Rsrc RSRC_GRANTED), (ok_env, Unsubscribe wifi_sub)]
      (agps_new 4 False)) = Releasing \<and>
   (\<exists>s \<in> set (subs (agps_run [(ok_env, Subscribe wifi_sub), (ok_env, Rsrc RSRC_GRANTED), (ok_env, Unsubscribe wifi_sub)]
      (agps_new 4 False))). isInactive s)"
proof -
  let ?evs = "[(ok_env, Subscribe wifi_sub), (ok_env, Rsrc RSRC_GRANTED), (ok_env, Unsubscribe wifi_sub)]"
  have kind: "one_kind True ?evs" by (simp add: one_kind_def wifi_sub_def WIFISubscriber_def waitForCloseComplete_def)
  have st: "state (agps_run ?evs (agps_new 4 False)) = Releasing" by code_simp
  from agps_state_agrees [OF refl, of ?evs 4 False] st kind show ?thesis by (simp add: image_iff)
qed

text \<open>
  C7: What is sent to the connectivity service is determined by the transitions: in a plain machine, after any
  sequence of events, an event sends exactly one data connection request when it makes the machine enter Pending,
  exactly one release when an unsubscription makes it leave Pending or Acquired, and nothing otherwise. This holds for
  subscribers of any classes, and restarts of the modem send nothing.
\<close>

theorem agps_requests_exact:
  assumes "m = agps_run evs (agps_new type single)"
  shows "nif_actions (outs (agps_exec env ev m)) =
    nif_actions (outs m) @ expected_actions ev (state m) (state (agps_exec env ev m))"
  using agps_step [OF _ any_event_ok, of _ m ev env] reachable_agps_inv [of evs None type single] any_event_ok assms by blast

theorem agps_requests_exact_witness:
  "nif_actions (outs (agps_run [(ok_env, Subscribe (atl_sub 5)), (ok_env, Unsubscribe (atl_sub 5))] (agps_new 1 False))) =
     [GPS_REQUEST_AGPS_DATA_CONN, GPS_RELEASE_AGPS_DATA_CONN]"
proof -
  let ?evs = "[(ok_env, Subscribe (atl_sub 5))]"
  let ?m = "agps_run ?evs (agps_new 1 False)"
  have st: "nif_actions (outs ?m) = [GPS_REQUEST_AGPS_DATA_CONN]" "state ?m = Pending"
    "state (agps_exec ok_env (Unsubscribe (atl_sub 5)) ?m) = Released" by code_simp+
  have "agps_run [(ok_env, Subscribe (atl_sub 5)), (ok_env, Unsubscribe (atl_sub 5))] (agps_new 1 False) =
    agps_exec ok_env (Unsubscribe (atl_sub 5)) ?m" by simp
  then show ?thesis
    using agps_requests_exact [OF refl, of ok_env "Unsubscribe (atl_sub 5)" ?evs 1 False] st by (simp add: expected_actions_def)
qed

text \<open>
  C8: The answer to a pending request reaches every subscriber once. A grant notifies exactly the
  active subscribers, in list order, keeps them and moves to Acquired; a denial notifies every
  subscriber and empties the list, and so does a release when the connection is held. What a
  subscriber is told is its class's \<open>notifyRsrcStatus\<close> (\<open>reply\<close>).
\<close>

theorem agps_answer_reaches_all:
  assumes "\<not> is_ds m"
    and "state m = Pending \<and> ev = RSRC_GRANTED \<or> state m = Pending \<and> ev = RSRC_DENIED \<or>
      state m = Acquired \<and> ev = RSRC_RELEASED"
  shows "state (onRsrcEvent env ev m) = (if ev = RSRC_GRANTED then Acquired else Released) \<and>
      subs (onRsrcEvent env ev m) = (if ev = RSRC_GRANTED then subs m else []) \<and>
      outs (onRsrcEvent env ev m) = outs m @ concat (map (\<lambda>s. reply s ev m)
        (if ev = RSRC_GRANTED then filter (\<lambda>s. \<not> isInactive s) (subs m) else subs m))"
proof (cases "ev = RSRC_GRANTED")
  case True
  let ?n = "\<lparr>rcver = BROADCAST_ACTIVE, rsrcStatus = RSRC_GRANTED, postNotifyDelete = False\<rparr>"
  show ?thesis
    using notifySubscribers_keep [of ?n m] assms True
    by (simp add: onRsrcEvent_def state_onRsrcEvent_def pending_onRsrcEvent_def handled_def same_fields_def forMe_def)
next
  case False
  let ?n = "\<lparr>rcver = BROADCAST_ALL, rsrcStatus = ev, postNotifyDelete = True\<rparr>"
  from assms(2) False have "handled (rsrcStatus ?n)" by (auto simp: handled_def)
  from notifySubscribers_delete [OF this, of m] assms False show ?thesis
    by (auto simp: onRsrcEvent_def state_onRsrcEvent_def pending_onRsrcEvent_def acquired_onRsrcEvent_def forMe_def)
qed

theorem agps_answer_reaches_all_witness:
  "outs (agps_run [(ok_env, Subscribe (atl_sub 1)), (ok_env, Rsrc RSRC_DENIED)] (agps_new 1 False)) =
     [NifRequest GPS_REQUEST_AGPS_DATA_CONN 1 None None, AtlOpenStatus 1 False None AGPS_APN_BEARER_INVALID 1]"
proof -
  let ?m = "agps_run [(ok_env, Subscribe (atl_sub 1))] (agps_new 1 False)"
  have m: "\<not> is_ds ?m" by code_simp
  have st: "state ?m = Pending" by code_simp
  have o: "outs ?m = [NifRequest GPS_REQUEST_AGPS_DATA_CONN 1 None None]"
    "concat (map (\<lambda>s. reply s RSRC_DENIED ?m) (subs ?m)) = [AtlOpenStatus 1 False None AGPS_APN_BEARER_INVALID 1]"
    by code_simp+
  from agps_answer_reaches_all [OF m, of RSRC_DENIED ok_env] st o show ?thesis by (simp add: agps_exec_def)
qed

text \<open>
  A use after free in \<open>notifySubscribers\<close>: the notification of an unsubscription points to the
  subscriber it makes the list delete, and the loop goes on searching the list with that
  notification. Whenever an ATL subscriber leaves a plain machine in state Pending or Acquired
  that has at least one other subscriber, the deleted object is read.
\<close>

theorem agps_unsubscribe_reads_deleted:
  assumes "\<not> is_ds m" and "state m = Pending \<or> state m = Acquired"
    and "\<forall>x \<in> set (subs m). \<exists>cm. s_kind x = ATL cm"
    and "fst (unsubscribeRsrc env s m)" and "2 \<le> length (subs m)"
  shows "uaf (snd (unsubscribeRsrc env s m))"
proof -
  from assms(4) obtain x where x: "find_sub (broadcast (To s)) (subs m) = Some x"
    by (auto simp: unsubscribeRsrc_def split: option.splits)
  have "s_kind x = ATL cm \<Longrightarrow> \<not> waitForCloseComplete x" for cm by (simp add: waitForCloseComplete_def)
  then have nw: "\<not> waitForCloseComplete x" using assms(3) find_sub_mem [OF x] by blast
  let ?m = "notifySubscribers \<lparr>rcver = To x, rsrcStatus = RSRC_UNSUBSCRIBE, postNotifyDelete = True\<rparr> m"
  have "uaf ?m" by (rule notify_dead_uaf [OF assms(3) x assms(5)])
  moreover have "\<not> is_ds ?m"
    using notifySubscribers_delete(3)
      [of "\<lparr>rcver = To x, rsrcStatus = RSRC_UNSUBSCRIBE, postNotifyDelete = True\<rparr>" m] assms(1)
    by (simp add: handled_def same_fields_def)
  ultimately have "uaf (snd (release_if_unused env st (unsubscribe_one x m)))" for st
    using nw by (simp add: release_if_unused_def unsubscribe_one_def)
  with assms(2) x show ?thesis
    by (auto simp: unsubscribeRsrc_def state_onRsrcEvent_def pending_onRsrcEvent_def acquired_onRsrcEvent_def
        split_def Let_def)
qed

theorem agps_unsubscribe_reads_deleted_witness:
  "uaf (agps_run [(ok_env, Subscribe (atl_sub 1)), (ok_env, Subscribe (atl_sub 2)), (ok_env, Rsrc RSRC_GRANTED),
      (ok_env, Unsubscribe (atl_sub 1))] (agps_new 1 False))"
proof -
  let ?m = "agps_run [(ok_env, Subscribe (atl_sub 1)), (ok_env, Subscribe (atl_sub 2)), (ok_env, Rsrc RSRC_GRANTED)]
    (agps_new 1 False)"
  have a: "\<not> is_ds ?m" by code_simp
  have b: "state ?m = Acquired" by code_simp
  have c: "map s_kind (subs ?m) = [ATL False, ATL False]" by code_simp
  have d: "fst (unsubscribeRsrc ok_env (atl_sub 1) ?m)" by code_simp
  from c have "length (map s_kind (subs ?m)) = 2" by simp
  then have e: "2 \<le> length (subs ?m)" by simp
  have "set (map s_kind (subs ?m)) = {ATL False}" using c by simp
  then have f: "\<forall>x \<in> set (subs ?m). \<exists>cm. s_kind x = ATL cm" by auto
  from agps_unsubscribe_reads_deleted [OF a disjI2 [OF b] f d e] show ?thesis by (simp add: agps_exec_def)
qed

text \<open>
  Two runs of plain machines that lose a client. A WIFI subscriber that unsubscribes and
  subscribes again before the connection is closed is still in the list, as inactive, so it is
  not added: the new subscription is only told that the connection was released, nothing is
  requested, and the machine ends up Released without it. And after \<open>EVT ENGINE UP\<close> has dropped the
  subscribers of an Acquired machine, the state is kept: the next subscriber is granted the
  connection that nobody asked for.
\<close>

theorem agps_lost_subscription:
  "agps_run [(ok_env, Subscribe wifi_sub), (ok_env, Rsrc RSRC_GRANTED), (ok_env, Unsubscribe wifi_sub),
       (ok_env, Subscribe wifi_sub), (ok_env, Rsrc RSRC_RELEASED)] (agps_new 4 False) =
     (agps_new 4 False)\<lparr>next_sub := 2, freed := {1},
       outs := [NifRequest GPS_REQUEST_AGPS_DATA_CONN 4 (Some ''net'') None,
                ServerDataConn 7 GPSONE_LOC_API_IF_REQUEST_SUCCESS,
                NifRequest GPS_RELEASE_AGPS_DATA_CONN 4 None None,
                ServerDataConn 7 GPSONE_LOC_API_IF_RELEASE_SUCCESS]\<rparr> \<and>
   outs (agps_run [(ok_env, Subscribe (atl_sub 1)), (ok_env, Rsrc RSRC_GRANTED), (ok_env, EngineUp),
       (ok_env, Subscribe (atl_sub 2))] (agps_new 1 False)) =
     [NifRequest GPS_REQUEST_AGPS_DATA_CONN 1 None None,
      AtlOpenStatus 1 True None AGPS_APN_BEARER_INVALID 1,
      AtlOpenStatus 2 True None AGPS_APN_BEARER_INVALID 1]"
  by (rule conjI) code_simp+

section \<open>Properties of the DS machine\<close>

lemma sub_equals_clone [simp]: "s_kind s = DS b \<Longrightarrow> sub_equals (clone a s) s"
  by (simp add: sub_equals_def clone_def DSSubscriber_def)

lemma clone_DS [simp]: "s_kind s = DS b \<Longrightarrow> clone a s = DSSubscriber a (s_ID s)"
  by (simp add: clone_def)

lemma DSSubscriber_simps [simp]:
  "s_ID (DSSubscriber a i) = i" "s_kind (DSSubscriber a i) = DS False" "s_addr (DSSubscriber a i) = a"
  by (simp_all add: DSSubscriber_def)

lemma ds_send_busy:
  assumes "is_ds m" "find_sub (broadcast BROADCAST_ACTIVE) (subs m) = Some x"
  shows "sendRsrcRequest busy_env act m =
    (if mRetries m + 1 > 4
     then (6, m\<lparr>mRetries := 0, outs := outs m @ [DsRequest act, RequestATL (s_ID x) AGPS_TYPE_SUPL]\<rparr>)
     else (-1, m\<lparr>mRetries := mRetries m + 1, outs := outs m @ [DsRequest act, TimerStart]\<rparr>))"
  using assms
  by (simp add: sendRsrcRequest_def ds_sendRsrcRequest_def busy_env_def LOC_API_ADAPTER_ERR_ENGINE_BUSY_def
      MAX_START_DATA_CALL_RETRIES_def emit_def informStatus_def)

text \<open>A DS machine that is not yet connected and has at most the one subscriber \<open>i\<close>.\<close>

definition ds_waiting :: "32 word \<Rightarrow> agps_sm \<Rightarrow> bool" where
  "ds_waiting i m \<longleftrightarrow> is_ds m \<and> state m = Released \<and> \<not> mEnforceSingleSubscriber m \<and>
     (subs m = [] \<or> (\<exists>a. subs m = [DSSubscriber a i]))"

lemma ds_waiting_cong:
  "ds_waiting i m \<Longrightarrow> ds_waiting i (m\<lparr>mRetries := r, outs := os\<rparr>)"
  by (simp add: ds_waiting_def)

lemma ds_add:
  assumes "ds_waiting (s_ID s) m" "s_kind s = DS b"
  obtains a where "subs (addSubscriber s m) = [DSSubscriber a (s_ID s)]" "ds_waiting (s_ID s) (addSubscriber s m)"
    "outs (addSubscriber s m) = outs m" "mRetries (addSubscriber s m) = mRetries m"
proof -
  have "subs m = [] \<or> (\<exists>a. subs m = [DSSubscriber a (s_ID s)])" using assms(1) by (simp add: ds_waiting_def)
  then show thesis
  proof
    assume "subs m = []"
    with assms that [of "next_sub m"] show thesis
      by (auto simp: ds_waiting_def addSubscriber_def)
  next
    assume "\<exists>a. subs m = [DSSubscriber a (s_ID s)]"
    then obtain a where "subs m = [DSSubscriber a (s_ID s)]" ..
    with assms that [of a] show thesis
      by (auto simp: ds_waiting_def addSubscriber_def broadcast_def forMe_def sub_equals_def)
  qed
qed

lemma ds_subscribe_busy:
  assumes w: "ds_waiting (s_ID s) m" and s: "s_kind s = DS b"
  shows "ds_waiting (s_ID s) (subscribeRsrc busy_env s m)" "subs (subscribeRsrc busy_env s m) \<noteq> []"
    "outs (subscribeRsrc busy_env s m) = outs m @ DsRequest GPS_REQUEST_AGPS_DATA_CONN #
       (if mRetries m + 1 > 4 then [RequestATL (s_ID s) AGPS_TYPE_SUPL] else [TimerStart])"
    "mRetries (subscribeRsrc busy_env s m) = (if mRetries m + 1 > 4 then 0 else mRetries m + 1)"
proof -
  obtain a where a: "subs (addSubscriber s m) = [DSSubscriber a (s_ID s)]" "ds_waiting (s_ID s) (addSubscriber s m)"
    "outs (addSubscriber s m) = outs m" "mRetries (addSubscriber s m) = mRetries m"
    using ds_add [OF w s] by blast
  have f: "find_sub (broadcast BROADCAST_ACTIVE) (subs (addSubscriber s m)) = Some (DSSubscriber a (s_ID s))"
    using a(1) by (simp add: broadcast_def forMe_def isInactive_def)
  have d: "is_ds (addSubscriber s m)" using a(2) by (simp add: ds_waiting_def)
  have eq: "subscribeRsrc busy_env s m = (snd (sendRsrcRequest busy_env GPS_REQUEST_AGPS_DATA_CONN (addSubscriber s m)))\<lparr>state := Released\<rparr>"
    using w by (simp add: subscribeRsrc_def ds_waiting_def state_onRsrcEvent_def released_onRsrcEvent_def Let_def
        ds_send_busy [OF d f])
  have "ds_waiting (s_ID s) ((addSubscriber s m)\<lparr>mRetries := r, outs := os, state := Released\<rparr>)" for r os
    using a(2) by (simp add: ds_waiting_def)
  then show "ds_waiting (s_ID s) (subscribeRsrc busy_env s m)" using eq ds_send_busy [OF d f] by simp
  show "subs (subscribeRsrc busy_env s m) \<noteq> []" using eq ds_send_busy [OF d f] a(1) by simp
  show "outs (subscribeRsrc busy_env s m) = outs m @ DsRequest GPS_REQUEST_AGPS_DATA_CONN #
       (if mRetries m + 1 > 4 then [RequestATL (s_ID s) AGPS_TYPE_SUPL] else [TimerStart])"
    using eq ds_send_busy [OF d f] a by simp
  show "mRetries (subscribeRsrc busy_env s m) = (if mRetries m + 1 > 4 then 0 else mRetries m + 1)"
    using eq ds_send_busy [OF d f] a by simp
qed

definition busy_cycle :: "32 word \<Rightarrow> agps_out list" where
  "busy_cycle i =
     concat (replicate 4 [DsRequest GPS_REQUEST_AGPS_DATA_CONN, TimerStart]) @
     [DsRequest GPS_REQUEST_AGPS_DATA_CONN, RequestATL i AGPS_TYPE_SUPL]"

lemma ds_busy_cycle:
  assumes w: "ds_waiting (s_ID s) m" and s: "s_kind s = DS b" and r: "mRetries m = 0"
  defines "m' \<equiv> agps_run (replicate 5 (busy_env, Subscribe s)) m"
  shows "ds_waiting (s_ID s) m' \<and> mRetries m' = 0 \<and> outs m' = outs m @ busy_cycle (s_ID s)"
proof -
  let ?f = "subscribeRsrc busy_env s"
  note b = ds_subscribe_busy(1,3,4) [OF _ s]
  have "replicate 5 (busy_env, Subscribe s) = [(busy_env, Subscribe s), (busy_env, Subscribe s), (busy_env, Subscribe s),
    (busy_env, Subscribe s), (busy_env, Subscribe s)]" by (simp add: eval_nat_numeral)
  then have "m' = ?f (?f (?f (?f (?f m))))" by (simp add: m'_def agps_exec_def)
  moreover have "busy_cycle i = [DsRequest GPS_REQUEST_AGPS_DATA_CONN, TimerStart, DsRequest GPS_REQUEST_AGPS_DATA_CONN, TimerStart,
    DsRequest GPS_REQUEST_AGPS_DATA_CONN, TimerStart, DsRequest GPS_REQUEST_AGPS_DATA_CONN, TimerStart,
    DsRequest GPS_REQUEST_AGPS_DATA_CONN, RequestATL i AGPS_TYPE_SUPL]" for i
    by (simp add: busy_cycle_def eval_nat_numeral)
  moreover note b(1) [OF w] b(1) [OF b(1) [OF w]] b(1) [OF b(1) [OF b(1) [OF w]]] b(1) [OF b(1) [OF b(1) [OF b(1) [OF w]]]]
  ultimately show ?thesis by (simp add: b w r)
qed

lemma agps_run_append: "agps_run (xs @ ys) m = agps_run ys (agps_run xs m)"
  by (induction xs m rule: agps_run.induct) simp_all

text \<open>
  The retries of the DS machine are bounded: while the engine reports busy, every four attempts
  start the retry timer and the fifth gives up, resets the counter and falls back to a modem data
  call (\<open>RequestATL\<close>), so \<open>5 n\<close> attempts give exactly \<open>n\<close> fall backs and \<open>4 n\<close> timers, and the
  machine neither leaves Released nor lists the subscriber twice.
\<close>

theorem ds_retries_bounded:
  assumes "s_kind s = DS b"
  shows "outs (agps_run (replicate (5 * n) (busy_env, Subscribe s)) ds_new) = concat (replicate n (busy_cycle (s_ID s))) \<and>
    state (agps_run (replicate (5 * n) (busy_env, Subscribe s)) ds_new) = Released \<and>
    mRetries (agps_run (replicate (5 * n) (busy_env, Subscribe s)) ds_new) = 0 \<and>
    length (subs (agps_run (replicate (5 * n) (busy_env, Subscribe s)) ds_new)) \<le> 1"
proof -
  have "ds_waiting (s_ID s) (agps_run (replicate (5 * n) (busy_env, Subscribe s)) ds_new) \<and>
    mRetries (agps_run (replicate (5 * n) (busy_env, Subscribe s)) ds_new) = 0 \<and>
    outs (agps_run (replicate (5 * n) (busy_env, Subscribe s)) ds_new) = concat (replicate n (busy_cycle (s_ID s)))"
  proof (induction n)
    case 0
    show ?case by (simp add: ds_waiting_def ds_new_def agps_new_def)
  next
    case (Suc n)
    have "replicate (5 * Suc n) (busy_env, Subscribe s) =
      replicate (5 * n) (busy_env, Subscribe s) @ replicate 5 (busy_env, Subscribe s)"
      by (simp add: replicate_add [symmetric] add.commute)
    moreover have "concat (replicate (Suc n) (busy_cycle (s_ID s))) =
      concat (replicate n (busy_cycle (s_ID s))) @ busy_cycle (s_ID s)"
      by (simp add: replicate_append_same [symmetric])
    ultimately show ?case using ds_busy_cycle [OF _ assms] Suc.IH by (simp add: agps_run_append)
  qed
  then show ?thesis by (auto simp: ds_waiting_def)
qed

theorem ds_retries_bounded_witness:
  "outs (agps_run (replicate 5 (busy_env, Subscribe (DSSubscriber 100 9))) ds_new) = busy_cycle 9"
  using ds_retries_bounded [of "DSSubscriber 100 9" False 1] by simp

lemma ds_released_never_stuck_parts:
  assumes "is_ds m"
  shows "state m = Pending \<Longrightarrow>
      state (onRsrcEvent env RSRC_RELEASED m) = Released \<and> subs (onRsrcEvent env RSRC_RELEASED m) = [] \<and>
      outs (onRsrcEvent env RSRC_RELEASED m) = outs m @ concat (map (\<lambda>s. reply s RSRC_DENIED m) (subs m))"
    and "state m = Acquired \<Longrightarrow>
      state (onRsrcEvent env RSRC_RELEASED m) = Released \<and> subs (onRsrcEvent env RSRC_RELEASED m) = [] \<and>
      outs (onRsrcEvent env RSRC_RELEASED m) = outs m @ concat (map (\<lambda>s. reply s RSRC_RELEASED m) (subs m))"
proof -
  have n: "subs (notifySubscribers \<lparr>rcver = BROADCAST_ALL, rsrcStatus = ev, postNotifyDelete = True\<rparr> m) = []"
    "outs (notifySubscribers \<lparr>rcver = BROADCAST_ALL, rsrcStatus = ev, postNotifyDelete = True\<rparr> m) =
       outs m @ concat (map (\<lambda>s. reply s ev m) (subs m))" if "handled ev" for ev
    using notifySubscribers_delete(1,2) [of "\<lparr>rcver = BROADCAST_ALL, rsrcStatus = ev, postNotifyDelete = True\<rparr>" m] that
    by (simp_all add: forMe_def)
  have step: "onRsrcEvent env RSRC_RELEASED m = onRsrcEvent env RSRC_DENIED m" if "state m = Pending"
  proof -
    from that have same: "m\<lparr>state := Pending\<rparr> = m" by (cases m) simp
    show ?thesis using that assms
      by (simp add: onRsrcEvent_def ds_onRsrcEvent_def state_onRsrcEvent_def pending_onRsrcEvent_def)
        (subst same, rule refl)
  qed
  show "state m = Pending \<Longrightarrow>
      state (onRsrcEvent env RSRC_RELEASED m) = Released \<and> subs (onRsrcEvent env RSRC_RELEASED m) = [] \<and>
      outs (onRsrcEvent env RSRC_RELEASED m) = outs m @ concat (map (\<lambda>s. reply s RSRC_DENIED m) (subs m))"
    using assms n [of RSRC_DENIED]
    by (simp add: step) (simp add: onRsrcEvent_def ds_onRsrcEvent_def state_onRsrcEvent_def pending_onRsrcEvent_def handled_def)
  show "state m = Acquired \<Longrightarrow>
      state (onRsrcEvent env RSRC_RELEASED m) = Released \<and> subs (onRsrcEvent env RSRC_RELEASED m) = [] \<and>
      outs (onRsrcEvent env RSRC_RELEASED m) = outs m @ concat (map (\<lambda>s. reply s RSRC_RELEASED m) (subs m))"
    using assms n [of RSRC_RELEASED]
    by (simp add: onRsrcEvent_def ds_onRsrcEvent_def state_onRsrcEvent_def acquired_onRsrcEvent_def handled_def)
qed

text \<open>
  A RELEASED event that the state ignores is treated as DENIED: in Pending every subscriber is
  denied, which resets the retries and falls back to a modem data call, the list is emptied and
  the machine is Released; in Acquired it closes the data call of every subscriber. So the DS
  machine is never left waiting by a release.
\<close>

theorem ds_released_never_stuck:
  assumes "is_ds m" and "state m \<in> {Pending, Acquired}"
  shows "state (onRsrcEvent env RSRC_RELEASED m) = Released \<and> subs (onRsrcEvent env RSRC_RELEASED m) = [] \<and>
      outs (onRsrcEvent env RSRC_RELEASED m) = outs m @ concat (map
        (\<lambda>s. reply s (if state m = Pending then RSRC_DENIED else RSRC_RELEASED) m) (subs m))"
  using ds_released_never_stuck_parts [OF assms(1), of env] assms(2) by auto

theorem ds_released_never_stuck_witness:
  "outs (agps_run [(ok_env, Subscribe (DSSubscriber 100 9)), (ok_env, Rsrc RSRC_RELEASED)] ds_new) =
     [DsRequest GPS_REQUEST_AGPS_DATA_CONN, RequestATL 9 AGPS_TYPE_SUPL]"
proof -
  let ?m = "agps_run [(ok_env, Subscribe (DSSubscriber 100 9))] ds_new"
  have ds: "is_ds ?m" "state ?m = Pending" by code_simp+
  have o: "outs ?m = [DsRequest GPS_REQUEST_AGPS_DATA_CONN]"
    "concat (map (\<lambda>s. reply s RSRC_DENIED ?m) (subs ?m)) = [RequestATL 9 AGPS_TYPE_SUPL]" by code_simp+
  from ds_released_never_stuck [OF ds(1), of ok_env] ds(2) o show ?thesis by (simp add: agps_exec_def)
qed

end
