(* ===== verification/Loc_Eng_Ni.thy ===== *)
theory Loc_Eng_Ni
  imports Loc_Prelude "HOL-Library.Multiset"
begin

text \<open>
  \<open>loc_eng_ni.cpp\<close>: network initiated requests. The engine thread runs the request handler and the
  reset after an engine restart, a client thread runs \<open>loc_eng_ni_respond\<close>, and every accepted
  request has a detached thread of its own (\<open>ni_thread_proc\<close>) that waits for the answer or the time
  out and sends it to the engine.

  \<^item> \<open>ni_sys\<close> holds the two sessions and the program counters of all the threads. A step is one
    access (or a group of accesses whose order no other thread can observe) to the shared session
    fields; what a thread does under \<open>tLock\<close> is several steps during which it holds the lock.
  \<^item> A payload (\<open>rawRequest\<close>, a heap block of the caller) is a number. \<open>sent\<close> are the answers given
    to the engine, whose message deletes its payload; \<open>freed\<close> the payloads freed by this file.
  \<^item> The results of \<open>pthread_create\<close> and the time out of the wait are inputs of the steps.
  \<^item> Shown: every payload that arrives is handed on or freed exactly once, a thread answers its
    session and clears it, a session whose thread was not created stays blocked, and runs in which
    an answer goes to the wrong request, is lost, or its payload is freed twice.
\<close>

section \<open>Sessions\<close>

datatype ni_resp = NI_ACCEPT | NI_DENY | NI_NORESP | NI_IGNORE | NI_OTHER int

datatype ni_sess = SessNormal | SessEs

text \<open>\<open>tLock\<close> is the index of the thread that holds the lock across steps.\<close>

record ni_session =
  respTimeLeft :: int
  respRecvd :: bool
  rawRequest :: ptr
  reqID :: int
  resp :: ni_resp
  tLock :: "nat option"

record ni_notification =
  is_emergency_supl :: bool
  privacy_override :: bool
  timeout :: int

definition LOC_NI_NO_RESPONSE_TIME :: int where "LOC_NI_NO_RESPONSE_TIME = 20"

section \<open>Threads\<close>

text \<open>\<open>ni_thread_proc\<close>: the message it has built is a payload with its answer.\<close>

datatype ni_thread_pc =
    TStart
  | TWaiting
  | TDecide
  | TClear "(ni_resp \<times> nat) option"
  | TUnlock "(ni_resp \<times> nat) option"
  | TTail "(ni_resp \<times> nat) option"
  | TSend "ni_resp \<times> nat"
  | TDone

record ni_thread =
  t_sess :: ni_sess
  t_pc :: ni_thread_pc

text \<open>The engine thread, within the request handler or the reset.\<close>

datatype ni_engine_pc =
    EIdle
  | HSave ni_sess ptr ni_notification
  | HId ni_sess ni_notification
  | HSpawn ni_sess ni_notification
  | HNotify int
  | RTest ni_sess
  | RNull ni_sess
  | RSet ni_sess

text \<open>The client thread, within \<open>loc_eng_ni_respond\<close>.\<close>

datatype ni_client_pc =
    CIdle
  | CIgnore ni_resp
  | CSet ni_sess ni_resp

record ni_sys =
  session :: ni_session
  sessionEs :: ni_session
  reqIDCounter :: int
  ni_notify_cb :: bool
  engine :: ni_engine_pc
  client :: ni_client_pc
  threads :: "ni_thread list"
  notified :: "int list"
  mutes :: nat
  sent :: "(ni_resp \<times> nat) list"
  freed :: "nat list"
  arrived :: "nat list"

definition sess_of :: "ni_sess \<Rightarrow> ni_sys \<Rightarrow> ni_session" where
  "sess_of s n = (case s of SessNormal \<Rightarrow> session n | SessEs \<Rightarrow> sessionEs n)"

definition upd_sess :: "ni_sess \<Rightarrow> (ni_session \<Rightarrow> ni_session) \<Rightarrow> ni_sys \<Rightarrow> ni_sys" where
  "upd_sess s f n =
     (case s of SessNormal \<Rightarrow> n\<lparr>session := f (session n)\<rparr> | SessEs \<Rightarrow> n\<lparr>sessionEs := f (sessionEs n)\<rparr>)"

definition list_of :: "'a option \<Rightarrow> 'a list" where
  "list_of x = (case x of None \<Rightarrow> [] | Some a \<Rightarrow> [a])"

section \<open>The operations\<close>

definition loc_eng_ni_init :: "bool option \<Rightarrow> ni_sys \<Rightarrow> ni_sys" where
  "loc_eng_ni_init callbacks n =
     (case callbacks of
        None \<Rightarrow> n
      | Some notify_cb \<Rightarrow>
          if \<not> notify_cb then n
          else if ni_notify_cb n then n
          else
            (let clear = (\<lambda>x. x\<lparr>respTimeLeft := 0, respRecvd := False, rawRequest := None, reqID := 0, tLock := None\<rparr>)
             in n\<lparr>session := clear (session n), sessionEs := clear (sessionEs n), ni_notify_cb := True\<rparr>))"

text \<open>The request handler up to the choice of the session; a refused payload is freed.\<close>

definition loc_eng_ni_request_handler :: "ni_notification \<Rightarrow> ptr \<Rightarrow> ni_sys \<Rightarrow> ni_sys" where
  "loc_eng_ni_request_handler notif passThrough n =
     (if \<not> ni_notify_cb n then n
      else if is_emergency_supl notif then
        (if rawRequest (sessionEs n) \<noteq> None then n\<lparr>freed := freed n @ list_of passThrough\<rparr>
         else n\<lparr>engine := HSave SessEs passThrough notif\<rparr>)
      else
        (if rawRequest (session n) \<noteq> None \<or> rawRequest (sessionEs n) \<noteq> None
         then n\<lparr>freed := freed n @ list_of passThrough\<rparr>
         else n\<lparr>engine := HSave SessNormal passThrough notif\<rparr>))"

text \<open>\<open>loc_eng_ni_reset_on_engine_restart\<close> starts with the emergency session.\<close>

definition loc_eng_ni_reset_on_engine_restart :: "ni_sys \<Rightarrow> ni_sys" where
  "loc_eng_ni_reset_on_engine_restart n = (if \<not> ni_notify_cb n then n else n\<lparr>engine := RTest SessEs\<rparr>)"

definition reset_next :: "ni_sess \<Rightarrow> ni_engine_pc" where
  "reset_next s = (case s of SessEs \<Rightarrow> RTest SessNormal | SessNormal \<Rightarrow> EIdle)"

text \<open>The engine thread goes on; \<open>created\<close> is the success of \<open>pthread_create\<close>.\<close>

definition engine_step :: "bool \<Rightarrow> ni_sys \<Rightarrow> ni_sys" where
  "engine_step created n =
     (case engine n of
        EIdle \<Rightarrow> n
      | HSave s p notif \<Rightarrow> (upd_sess s (\<lambda>x. x\<lparr>rawRequest := p\<rparr>) n)\<lparr>engine := HId s notif\<rparr>
      | HId s notif \<Rightarrow>
          (let i = reqIDCounter n + 1
           in (upd_sess s (\<lambda>x. x\<lparr>reqID := i\<rparr>) n)
                \<lparr>reqIDCounter := i, mutes := mutes n + (if privacy_override notif then 1 else 0),
                 engine := HSpawn s notif\<rparr>)
      | HSpawn s notif \<Rightarrow>
          (let left = 5 + (if timeout notif \<noteq> 0 then timeout notif else LOC_NI_NO_RESPONSE_TIME);
               n1 = upd_sess s (\<lambda>x. x\<lparr>respTimeLeft := left\<rparr>) n
           in n1\<lparr>threads := threads n1 @ (if created then [\<lparr>t_sess = s, t_pc = TStart\<rparr>] else []),
                 engine := HNotify (reqIDCounter n1)\<rparr>)
      | HNotify i \<Rightarrow> n\<lparr>notified := notified n @ [i], engine := EIdle\<rparr>
      | RTest s \<Rightarrow>
          (case rawRequest (sess_of s n) of
             None \<Rightarrow> n\<lparr>engine := reset_next s\<rparr>
           | Some p \<Rightarrow> n\<lparr>freed := freed n @ [p], engine := RNull s\<rparr>)
      | RNull s \<Rightarrow> (upd_sess s (\<lambda>x. x\<lparr>rawRequest := None\<rparr>) n)\<lparr>engine := RSet s\<rparr>
      | RSet s \<Rightarrow>
          if tLock (sess_of s n) \<noteq> None then n
          else (upd_sess s (\<lambda>x. x\<lparr>respRecvd := True\<rparr>) n)\<lparr>engine := reset_next s\<rparr>)"

definition loc_eng_ni_respond :: "int \<Rightarrow> ni_resp \<Rightarrow> ni_sys \<Rightarrow> ni_sys" where
  "loc_eng_ni_respond notif_id user_response n =
     (if \<not> ni_notify_cb n then n
      else if notif_id = reqID (sessionEs n) \<and> rawRequest (sessionEs n) \<noteq> None then
        (if user_response = NI_ACCEPT \<and> rawRequest (session n) \<noteq> None
         then n\<lparr>client := CIgnore user_response\<rparr>
         else n\<lparr>client := CSet SessEs user_response\<rparr>)
      else if notif_id = reqID (session n) \<and> rawRequest (session n) \<noteq> None
      then n\<lparr>client := CSet SessNormal user_response\<rparr>
      else n)"

text \<open>The client thread goes on: the critical sections of \<open>loc_eng_ni_respond\<close>.\<close>

definition client_step :: "ni_sys \<Rightarrow> ni_sys" where
  "client_step n =
     (case client n of
        CIdle \<Rightarrow> n
      | CIgnore r \<Rightarrow>
          if tLock (session n) \<noteq> None then n
          else (upd_sess SessNormal (\<lambda>x. x\<lparr>resp := NI_IGNORE, respRecvd := True\<rparr>) n)\<lparr>client := CSet SessEs r\<rparr>
      | CSet s r \<Rightarrow>
          if tLock (sess_of s n) \<noteq> None then n
          else (upd_sess s (\<lambda>x. x\<lparr>resp := r, respRecvd := True\<rparr>) n)\<lparr>client := CIdle\<rparr>)"

definition thread_goto :: "nat \<Rightarrow> ni_sess \<Rightarrow> ni_thread_pc \<Rightarrow> ni_sys \<Rightarrow> ni_sys" where
  "thread_goto i s pc n = n\<lparr>threads := (threads n)[i := \<lparr>t_sess = s, t_pc = pc\<rparr>]\<rparr>"

text \<open>
  \<open>ni_thread_proc\<close>. \<open>timedout\<close> is the outcome of the timed wait: a time out is acted on even if the
  answer came in the meantime.
\<close>

definition ni_thread_proc :: "nat \<Rightarrow> bool \<Rightarrow> ni_sys \<Rightarrow> ni_sys" where
  "ni_thread_proc i timedout n =
     (if length (threads n) \<le> i then n
      else
        (let s = t_sess (threads n ! i); x = sess_of s n; goto = thread_goto i s
         in case t_pc (threads n ! i) of
              TStart \<Rightarrow>
                if tLock x \<noteq> None then n
                else if respRecvd x then goto TDecide (upd_sess s (\<lambda>x. x\<lparr>respRecvd := False, tLock := Some i\<rparr>) n)
                else goto TWaiting n
            | TWaiting \<Rightarrow>
                if tLock x \<noteq> None then n
                else if timedout then
                  goto TDecide (upd_sess s (\<lambda>x. x\<lparr>resp := NI_NORESP, respRecvd := False, tLock := Some i\<rparr>) n)
                else if respRecvd x then goto TDecide (upd_sess s (\<lambda>x. x\<lparr>respRecvd := False, tLock := Some i\<rparr>) n)
                else n
            | TDecide \<Rightarrow>
                (case rawRequest x of
                   None \<Rightarrow> goto (TUnlock None) n
                 | Some p \<Rightarrow>
                     if resp x \<noteq> NI_IGNORE then goto (TClear (Some (resp x, p))) n
                     else goto (TClear None) (n\<lparr>freed := freed n @ [p]\<rparr>))
            | TClear m \<Rightarrow> goto (TUnlock m) (upd_sess s (\<lambda>x. x\<lparr>rawRequest := None\<rparr>) n)
            | TUnlock m \<Rightarrow> goto (TTail m) (upd_sess s (\<lambda>x. x\<lparr>tLock := None\<rparr>) n)
            | TTail m \<Rightarrow>
                goto (case m of None \<Rightarrow> TDone | Some a \<Rightarrow> TSend a)
                  (upd_sess s (\<lambda>x. x\<lparr>respTimeLeft := 0, reqID := 0\<rparr>) n)
            | TSend a \<Rightarrow> goto TDone (n\<lparr>sent := sent n @ [a]\<rparr>)
            | TDone \<Rightarrow> n))"

section \<open>Runs\<close>

datatype ni_event =
    NiRequest ni_notification ptr
  | NiRestart
  | NiEngine bool
  | NiRespond int ni_resp
  | NiClient
  | NiThread nat bool

text \<open>The engine and the client thread start an operation when they have finished the one before.\<close>

definition ni_exec :: "ni_event \<Rightarrow> ni_sys \<Rightarrow> ni_sys" where
  "ni_exec ev n =
     (case ev of
        NiRequest notif p \<Rightarrow>
          if engine n = EIdle
          then loc_eng_ni_request_handler notif p (n\<lparr>arrived := arrived n @ list_of p\<rparr>) else n
      | NiRestart \<Rightarrow> if engine n = EIdle then loc_eng_ni_reset_on_engine_restart n else n
      | NiEngine created \<Rightarrow> engine_step created n
      | NiRespond i r \<Rightarrow> if client n = CIdle then loc_eng_ni_respond i r n else n
      | NiClient \<Rightarrow> client_step n
      | NiThread i timedout \<Rightarrow> ni_thread_proc i timedout n)"

fun ni_run :: "ni_event list \<Rightarrow> ni_sys \<Rightarrow> ni_sys" where
  "ni_run [] n = n"
| "ni_run (ev # evs) n = ni_run evs (ni_exec ev n)"

definition ni_zero :: ni_sys where
  "ni_zero =
     (let z = \<lparr>respTimeLeft = 0, respRecvd = False, rawRequest = None, reqID = 0, resp = NI_OTHER 0, tLock = None\<rparr>
      in \<lparr>session = z, sessionEs = z, reqIDCounter = 0, ni_notify_cb = False, engine = EIdle, client = CIdle,
          threads = [], notified = [], mutes = 0, sent = [], freed = [], arrived = []\<rparr>)"

definition ni_start :: ni_sys where "ni_start = loc_eng_ni_init (Some True) ni_zero"

section \<open>Fields\<close>

lemma sess_of_upd [simp]: "sess_of s (upd_sess s' f n) = (if s = s' then f (sess_of s n) else sess_of s n)"
  by (cases s; cases s') (simp_all add: sess_of_def upd_sess_def)

lemma sess_of_fields [simp]:
  "sess_of s (n\<lparr>engine := a\<rparr>) = sess_of s n" "sess_of s (n\<lparr>client := b\<rparr>) = sess_of s n"
  "sess_of s (n\<lparr>threads := c\<rparr>) = sess_of s n" "sess_of s (n\<lparr>notified := d\<rparr>) = sess_of s n"
  "sess_of s (n\<lparr>mutes := e\<rparr>) = sess_of s n" "sess_of s (n\<lparr>sent := f\<rparr>) = sess_of s n"
  "sess_of s (n\<lparr>freed := g\<rparr>) = sess_of s n" "sess_of s (n\<lparr>arrived := g\<rparr>) = sess_of s n"
  "sess_of s (n\<lparr>reqIDCounter := i\<rparr>) = sess_of s n"
  by (cases s; simp add: sess_of_def)+

lemma upd_sess_fields [simp]:
  "engine (upd_sess s f n) = engine n" "client (upd_sess s f n) = client n" "threads (upd_sess s f n) = threads n"
  "notified (upd_sess s f n) = notified n" "mutes (upd_sess s f n) = mutes n" "sent (upd_sess s f n) = sent n"
  "freed (upd_sess s f n) = freed n" "arrived (upd_sess s f n) = arrived n"
  "reqIDCounter (upd_sess s f n) = reqIDCounter n" "ni_notify_cb (upd_sess s f n) = ni_notify_cb n"
  by (cases s; simp add: upd_sess_def)+

lemma sess_of_goto [simp]: "sess_of s (thread_goto i s' pc n) = sess_of s n"
  by (simp add: thread_goto_def)

lemma goto_fields [simp]:
  "engine (thread_goto i s pc n) = engine n" "client (thread_goto i s pc n) = client n"
  "sent (thread_goto i s pc n) = sent n" "freed (thread_goto i s pc n) = freed n"
  "arrived (thread_goto i s pc n) = arrived n" "ni_notify_cb (thread_goto i s pc n) = ni_notify_cb n"
  "threads (thread_goto i s pc n) = (threads n)[i := \<lparr>t_sess = s, t_pc = pc\<rparr>]"
  by (simp_all add: thread_goto_def)

lemma sessions_sess_of [simp]: "session n = sess_of SessNormal n" "sessionEs n = sess_of SessEs n"
  by (simp_all add: sess_of_def)

section \<open>Where the payloads are\<close>

fun in_crit :: "ni_thread_pc \<Rightarrow> bool" where
  "in_crit TDecide \<longleftrightarrow> True"
| "in_crit (TClear m) \<longleftrightarrow> True"
| "in_crit (TUnlock m) \<longleftrightarrow> True"
| "in_crit _ \<longleftrightarrow> False"

fun is_clear :: "ni_thread_pc \<Rightarrow> bool" where
  "is_clear (TClear m) \<longleftrightarrow> True"
| "is_clear _ \<longleftrightarrow> False"

fun thread_owned :: "ni_thread_pc \<Rightarrow> nat list" where
  "thread_owned (TClear m) = map snd (list_of m)"
| "thread_owned (TUnlock m) = map snd (list_of m)"
| "thread_owned (TTail m) = map snd (list_of m)"
| "thread_owned (TSend a) = [snd a]"
| "thread_owned _ = []"

text \<open>A thread that has taken the payload of its session and has not yet cleared \<open>rawRequest\<close>.\<close>

definition clearing :: "ni_sess \<Rightarrow> ni_sys \<Rightarrow> bool" where
  "clearing s n = (case tLock (sess_of s n) of None \<Rightarrow> False | Some i \<Rightarrow> is_clear (t_pc (threads n ! i)))"

definition session_owned :: "ni_sess \<Rightarrow> ni_sys \<Rightarrow> nat multiset" where
  "session_owned s n = (if clearing s n then {#} else mset (list_of (rawRequest (sess_of s n))))"

definition threads_owned :: "ni_thread list \<Rightarrow> nat multiset" where
  "threads_owned ts = mset (concat (map (thread_owned \<circ> t_pc) ts))"

definition engine_owned :: "ni_engine_pc \<Rightarrow> nat multiset" where
  "engine_owned e = (case e of HSave s p notif \<Rightarrow> mset (list_of p) | _ \<Rightarrow> {#})"

text \<open>Every payload that is in a session, in a thread, on its way into a session, sent or freed.\<close>

definition accounted :: "ni_sys \<Rightarrow> nat multiset" where
  "accounted n =
     session_owned SessNormal n + session_owned SessEs n + engine_owned (engine n) + threads_owned (threads n) +
     mset (map snd (sent n)) + mset (freed n)"

definition no_reset :: "ni_engine_pc \<Rightarrow> bool" where
  "no_reset e = (case e of RTest s \<Rightarrow> False | RNull s \<Rightarrow> False | RSet s \<Rightarrow> False | _ \<Rightarrow> True)"

definition ni_inv :: "ni_sys \<Rightarrow> bool" where
  "ni_inv n \<longleftrightarrow>
     ni_notify_cb n \<and> no_reset (engine n) \<and>
     (\<forall>s i. tLock (sess_of s n) = Some i \<longleftrightarrow>
        i < length (threads n) \<and> t_sess (threads n ! i) = s \<and> in_crit (t_pc (threads n ! i))) \<and>
     (\<forall>s. clearing s n \<longrightarrow> rawRequest (sess_of s n) \<noteq> None) \<and>
     (\<forall>s p notif. engine n = HSave s p notif \<longrightarrow> rawRequest (sess_of s n) = None)"

lemma ni_lock:
  "ni_inv n \<Longrightarrow> tLock (sess_of s n) = Some i \<longleftrightarrow>
     i < length (threads n) \<and> t_sess (threads n ! i) = s \<and> in_crit (t_pc (threads n ! i))"
  by (simp add: ni_inv_def)

lemma threads_owned_update:
  "i < length ts \<Longrightarrow>
     threads_owned (ts[i := t]) + mset (thread_owned (t_pc (ts ! i))) = threads_owned ts + mset (thread_owned (t_pc t))"
proof (induction ts arbitrary: i)
  case (Cons x ts)
  then show ?case by (cases i) (auto simp: threads_owned_def add_ac)
qed simp

lemma threads_owned_append [simp]: "threads_owned (ts @ us) = threads_owned ts + threads_owned us"
  by (simp add: threads_owned_def)

lemma list_of_simps [simp]: "list_of None = []" "list_of (Some a) = [a]"
  by (simp_all add: list_of_def)

lemma clearing_cong:
  "tLock (sess_of s n') = tLock (sess_of s n) \<Longrightarrow> threads n' = threads n \<Longrightarrow> clearing s n' = clearing s n"
  by (simp add: clearing_def split: option.split)

lemma upd_sess_same:
  "(\<And>x. tLock (f x) = tLock x) \<Longrightarrow> tLock (sess_of s (upd_sess s' f n)) = tLock (sess_of s n)"
  "(\<And>x. rawRequest (f x) = rawRequest x) \<Longrightarrow> rawRequest (sess_of s (upd_sess s' f n)) = rawRequest (sess_of s n)"
  by simp_all

lemma clearing_fields [simp]:
  "clearing s (n\<lparr>engine := a\<rparr>) = clearing s n" "clearing s (n\<lparr>client := b\<rparr>) = clearing s n"
  "clearing s (n\<lparr>notified := d\<rparr>) = clearing s n" "clearing s (n\<lparr>mutes := e\<rparr>) = clearing s n"
  "clearing s (n\<lparr>sent := f\<rparr>) = clearing s n" "clearing s (n\<lparr>freed := g\<rparr>) = clearing s n"
  "clearing s (n\<lparr>arrived := g\<rparr>) = clearing s n" "clearing s (n\<lparr>reqIDCounter := i\<rparr>) = clearing s n"
  by (rule clearing_cong; simp)+

lemma clearing_upd [simp]:
  "(\<And>x. tLock (f x) = tLock x) \<Longrightarrow> clearing s (upd_sess s' f n) = clearing s n"
  by (rule clearing_cong) simp_all

lemma ni_start_fields:
  "rawRequest (sess_of s ni_start) = None" "tLock (sess_of s ni_start) = None" "ni_notify_cb ni_start"
  "engine ni_start = EIdle" "threads ni_start = []" "sent ni_start = []" "freed ni_start = []" "arrived ni_start = []"
  by (cases s; simp add: ni_start_def ni_zero_def loc_eng_ni_init_def Let_def sess_of_def del: sessions_sess_of)+

lemma ni_inv_start: "ni_inv ni_start \<and> accounted ni_start = mset (arrived ni_start)"
  by (simp add: ni_inv_def no_reset_def clearing_def accounted_def session_owned_def threads_owned_def engine_owned_def
      ni_start_fields)

section \<open>Each step keeps the payloads accounted for\<close>

lemma ni_request_inv:
  assumes "ni_inv n" "engine n = EIdle" "accounted n = mset (arrived n)"
  shows "ni_inv (ni_exec (NiRequest notif p) n) \<and>
    accounted (ni_exec (NiRequest notif p) n) = mset (arrived (ni_exec (NiRequest notif p) n))"
  using assms
  by (auto simp: ni_exec_def loc_eng_ni_request_handler_def ni_inv_def accounted_def no_reset_def
      session_owned_def engine_owned_def add_ac)

lemma ni_engine_inv:
  assumes "ni_inv n" "accounted n = mset (arrived n)"
  shows "ni_inv (engine_step created n) \<and> accounted (engine_step created n) = mset (arrived (engine_step created n))"
proof (cases "engine n")
  case (HSave s p notif)
  have nc: "\<not> clearing s n" and raw: "rawRequest (sess_of s n) = None" using assms(1) HSave by (auto simp: ni_inv_def)
  have "ni_inv (engine_step created n)"
    using assms(1) HSave nc by (auto simp: ni_inv_def engine_step_def no_reset_def)
  moreover have "accounted (engine_step created n) = accounted n"
    using HSave nc raw
    by (cases s) (simp_all add: accounted_def session_owned_def engine_owned_def engine_step_def)
  ultimately show ?thesis using assms(2) HSave by (simp add: engine_step_def)
next
  case (HId s notif)
  then have "accounted (engine_step created n) = accounted n" "arrived (engine_step created n) = arrived n"
    by (simp_all add: engine_step_def accounted_def session_owned_def engine_owned_def Let_def
        upd_sess_same del: sess_of_upd)
  with assms HId show ?thesis
    by (simp add: engine_step_def ni_inv_def no_reset_def Let_def upd_sess_same del: sess_of_upd)
next
  case (HSpawn s notif)
  have l: "tLock (sess_of s' n) = Some i \<Longrightarrow> i < length (threads n)" for s' i
    using assms(1) by (auto simp: ni_inv_def)
  have c: "clearing s' (engine_step created n) = clearing s' n" for s'
    using HSpawn l [of s'] by (auto simp: engine_step_def clearing_def Let_def nth_append split: option.splits)
  have "ni_inv (engine_step created n)"
    using assms(1) HSpawn c unfolding ni_inv_def by (auto simp: engine_step_def no_reset_def nth_append Let_def less_Suc_eq)
  moreover have "accounted (engine_step created n) = accounted n"
    using HSpawn by (simp add: accounted_def session_owned_def engine_owned_def c)
      (simp add: engine_step_def threads_owned_def Let_def)
  ultimately show ?thesis using assms(2) HSpawn by (simp add: engine_step_def Let_def)
next
  case (HNotify i)
  then have "accounted (engine_step created n) = accounted n"
    by (simp add: engine_step_def accounted_def session_owned_def engine_owned_def)
  with assms HNotify show ?thesis by (simp add: engine_step_def ni_inv_def no_reset_def)
qed (use assms in \<open>simp_all add: engine_step_def ni_inv_def no_reset_def\<close>)

lemma client_field_inv:
  "ni_inv (n\<lparr>client := c\<rparr>) = ni_inv n" "accounted (n\<lparr>client := c\<rparr>) = accounted n"
  by (simp_all add: ni_inv_def accounted_def session_owned_def)

lemma ni_respond_inv:
  assumes "ni_inv n" "accounted n = mset (arrived n)"
  shows "ni_inv (loc_eng_ni_respond i r n) \<and> accounted (loc_eng_ni_respond i r n) = mset (arrived (loc_eng_ni_respond i r n))"
  using assms by (auto simp: loc_eng_ni_respond_def client_field_inv)

lemma ni_client_inv:
  assumes "ni_inv n" "accounted n = mset (arrived n)"
  shows "ni_inv (client_step n) \<and> accounted (client_step n) = mset (arrived (client_step n))"
proof -
  have "ni_inv (upd_sess s (\<lambda>x. x\<lparr>resp := r, respRecvd := b\<rparr>) n) = ni_inv n \<and>
    accounted (upd_sess s (\<lambda>x. x\<lparr>resp := r, respRecvd := b\<rparr>) n) = accounted n" for s r b
    by (simp add: ni_inv_def accounted_def session_owned_def upd_sess_same del: sess_of_upd)
  with assms show ?thesis by (cases "client n") (auto simp: client_step_def client_field_inv)
qed

text \<open>The moves of a thread: into the critical section, within it, and outside.\<close>

lemma ni_thread_enter:
  assumes inv: "ni_inv n" and i: "i < length (threads n)" "t_sess (threads n ! i) = s" and free: "tLock (sess_of s n) = None"
    and owned: "thread_owned (t_pc (threads n ! i)) = []"
    and f: "\<And>x. tLock (f x) = Some i" "\<And>x. rawRequest (f x) = rawRequest x"
  shows "ni_inv (thread_goto i s TDecide (upd_sess s f n))"
    "accounted (thread_goto i s TDecide (upd_sess s f n)) = accounted n"
proof -
  let ?n = "thread_goto i s TDecide (upd_sess s f n)"
  have l: "tLock (sess_of s' n) \<noteq> Some i" for s'
    using inv i free by (cases "s' = s") (auto simp: ni_inv_def)
  have c: "clearing s' ?n = clearing s' n" for s'
    using i l [of s'] free f(1) by (auto simp: clearing_def split: option.split)
  have nc: "\<not> (j < length (threads n) \<and> t_sess (threads n ! j) = s \<and> in_crit (t_pc (threads n ! j)))" for j
    using ni_lock [OF inv, of s j] free by simp
  show "ni_inv ?n" unfolding ni_inv_def
    using inv i free f l nc by (auto simp: ni_inv_def c nth_list_update)
  have "threads_owned ((threads n)[i := \<lparr>t_sess = s, t_pc = TDecide\<rparr>]) = threads_owned (threads n)"
    using threads_owned_update [OF i(1), of "\<lparr>t_sess = s, t_pc = TDecide\<rparr>"] owned by simp
  then show "accounted ?n = accounted n" using f(2) by (simp add: accounted_def session_owned_def c)
qed

lemma ni_thread_outside:
  assumes inv: "ni_inv n" and i: "i < length (threads n)" "t_sess (threads n ! i) = s"
    and out: "\<not> in_crit (t_pc (threads n ! i))" "\<not> in_crit pc"
    and f: "\<And>x. tLock (f x) = tLock x" "\<And>x. rawRequest (f x) = rawRequest x"
  shows "ni_inv (thread_goto i s pc (upd_sess s f n))"
    "accounted (thread_goto i s pc (upd_sess s f n)) + mset (thread_owned (t_pc (threads n ! i))) =
     accounted n + mset (thread_owned pc)"
proof -
  let ?n = "thread_goto i s pc (upd_sess s f n)"
  have l: "tLock (sess_of s' n) \<noteq> Some i" for s' using inv out by (auto simp: ni_inv_def)
  have c: "clearing s' ?n = clearing s' n" for s'
    using i l [of s'] f(1) by (auto simp: clearing_def split: option.split)
  show "ni_inv ?n" unfolding ni_inv_def
    using inv i out f l by (auto simp: ni_inv_def c nth_list_update)
  show "accounted ?n + mset (thread_owned (t_pc (threads n ! i))) = accounted n + mset (thread_owned pc)"
    using threads_owned_update [OF i(1), of "\<lparr>t_sess = s, t_pc = pc\<rparr>"] f(2)
    by (simp add: accounted_def session_owned_def c add_ac upd_sess_same del: sess_of_upd)
qed

text \<open>Within the critical section the other session is not touched.\<close>

lemma ni_crit_other:
  assumes "ni_inv n" "i < length (threads n)" "t_sess (threads n ! i) = s" "s' \<noteq> s"
    and "tLock (sess_of s' n') = tLock (sess_of s' n)" "threads n' = (threads n)[i := t]"
  shows "clearing s' n' = clearing s' n"
proof -
  have "tLock (sess_of s' n) \<noteq> Some i" using ni_lock [OF assms(1), of s' i] assms(3,4) by auto
  with assms(5,6) show ?thesis by (auto simp: clearing_def split: option.split)
qed

lemma ni_thread_crit:
  assumes inv: "ni_inv n" and i: "i < length (threads n)" "t_sess (threads n ! i) = s"
    and pc: "in_crit (t_pc (threads n ! i))" "in_crit pc"
    and f: "\<And>x. tLock (f x) = tLock x" "is_clear pc \<Longrightarrow> rawRequest (f (sess_of s n)) \<noteq> None"
      "rawRequest (sess_of s n) = None \<Longrightarrow> rawRequest (f (sess_of s n)) = None"
  shows "ni_inv (thread_goto i s pc (upd_sess s f n))"
    "accounted (thread_goto i s pc (upd_sess s f n)) + mset (thread_owned (t_pc (threads n ! i))) +
       (if is_clear (t_pc (threads n ! i)) then {#} else mset (list_of (rawRequest (sess_of s n)))) =
     accounted n + mset (thread_owned pc) +
       (if is_clear pc then {#} else mset (list_of (rawRequest (f (sess_of s n)))))"
proof -
  let ?n = "thread_goto i s pc (upd_sess s f n)"
  have l: "tLock (sess_of s n) = Some i" using ni_lock [OF inv, of s i] i pc by simp
  have c1: "clearing s ?n = is_clear pc" "clearing s n = is_clear (t_pc (threads n ! i))"
    using l i f(1) by (simp_all add: clearing_def)
  have c2: "clearing s' ?n = clearing s' n" if "s' \<noteq> s" for s'
    using that by (intro ni_crit_other [OF inv i]) simp_all
  have c3: "clearing s' ?n = (if s' = s then is_clear pc else clearing s' n)" for s' using c1 c2 by simp
  show "ni_inv ?n" unfolding ni_inv_def
    using inv i pc f l by (auto simp: ni_inv_def c3 nth_list_update)
  show "accounted ?n + mset (thread_owned (t_pc (threads n ! i))) +
       (if is_clear (t_pc (threads n ! i)) then {#} else mset (list_of (rawRequest (sess_of s n)))) =
     accounted n + mset (thread_owned pc) +
       (if is_clear pc then {#} else mset (list_of (rawRequest (f (sess_of s n)))))"
    using threads_owned_update [OF i(1), of "\<lparr>t_sess = s, t_pc = pc\<rparr>"] c1 c2
    by (cases s) (simp_all add: accounted_def session_owned_def add_ac)
qed

lemma ni_thread_leave:
  assumes inv: "ni_inv n" and i: "i < length (threads n)" "t_sess (threads n ! i) = s"
    and pc: "t_pc (threads n ! i) = TUnlock m"
  shows "ni_inv (thread_goto i s (TTail m) (upd_sess s (\<lambda>x. x\<lparr>tLock := None\<rparr>) n))"
    "accounted (thread_goto i s (TTail m) (upd_sess s (\<lambda>x. x\<lparr>tLock := None\<rparr>) n)) = accounted n"
proof -
  let ?n = "thread_goto i s (TTail m) (upd_sess s (\<lambda>x. x\<lparr>tLock := None\<rparr>) n)"
  have l: "tLock (sess_of s n) = Some i" using ni_lock [OF inv, of s i] i pc by simp
  have c1: "\<not> clearing s ?n" "\<not> clearing s n" using l i pc by (simp_all add: clearing_def)
  have c2: "clearing s' ?n = clearing s' n" if "s' \<noteq> s" for s'
    using that by (intro ni_crit_other [OF inv i]) simp_all
  have c3: "clearing s' ?n = clearing s' n" for s' using c1 c2 by (cases "s' = s") simp_all
  have u: "j = i" if "j < length (threads n)" "t_sess (threads n ! j) = s" "in_crit (t_pc (threads n ! j))" for j
    using ni_lock [OF inv, of s j] that l by simp
  have lock: "tLock (sess_of s' ?n) = Some j \<longleftrightarrow>
      j < length (threads ?n) \<and> t_sess (threads ?n ! j) = s' \<and> in_crit (t_pc (threads ?n ! j))" for s' j
  proof (cases "j = i")
    case True
    with ni_lock [OF inv, of s' i] i show ?thesis by (cases "s' = s") simp_all
  next
    case False
    with ni_lock [OF inv, of s' j] u [of j] show ?thesis by (cases "s' = s") (simp, blast, simp)
  qed
  show "ni_inv ?n" unfolding ni_inv_def
    using inv lock by (simp add: ni_inv_def c3)
  show "accounted ?n = accounted n"
    using threads_owned_update [OF i(1), of "\<lparr>t_sess = s, t_pc = TTail m\<rparr>"] pc
    by (simp add: accounted_def session_owned_def c3)
qed

lemma upd_sess_id [simp]: "upd_sess s (\<lambda>x. x) n = n"
  by (cases s) (simp_all add: upd_sess_def sess_of_def del: sessions_sess_of)

lemma freed_field_inv:
  "ni_inv (n\<lparr>freed := fr\<rparr>) = ni_inv n" "ni_inv (n\<lparr>sent := se\<rparr>) = ni_inv n"
  "freed n = fr \<Longrightarrow> accounted (n\<lparr>freed := fr @ [p]\<rparr>) = add_mset p (accounted n)"
  "sent n = se \<Longrightarrow> accounted (n\<lparr>sent := se @ [a]\<rparr>) = add_mset (snd a) (accounted n)"
  by (auto simp: ni_inv_def accounted_def session_owned_def)

lemma ni_thread_inv:
  assumes inv: "ni_inv n" and acc: "accounted n = mset (arrived n)"
  shows "ni_inv (ni_thread_proc i timedout n) \<and>
    accounted (ni_thread_proc i timedout n) = mset (arrived (ni_thread_proc i timedout n))"
proof (cases "i < length (threads n)")
  case False
  with assms show ?thesis by (simp add: ni_thread_proc_def)
next
  case i: True
  define s where "s = t_sess (threads n ! i)"
  have ts: "t_sess (threads n ! i) = s" by (simp add: s_def)
  note enter = ni_thread_enter [OF inv i ts]
  note outside = ni_thread_outside [OF inv i ts, of _ "\<lambda>x. x"]
  show ?thesis
  proof (cases "t_pc (threads n ! i)")
    case TStart
    then have e: "tLock (sess_of s n) = None \<Longrightarrow> respRecvd (sess_of s n) \<Longrightarrow>
        ni_thread_proc i timedout n = thread_goto i s TDecide (upd_sess s (\<lambda>x. x\<lparr>respRecvd := False, tLock := Some i\<rparr>) n)"
      "tLock (sess_of s n) = None \<Longrightarrow> \<not> respRecvd (sess_of s n) \<Longrightarrow> ni_thread_proc i timedout n = thread_goto i s TWaiting n"
      "tLock (sess_of s n) \<noteq> None \<Longrightarrow> ni_thread_proc i timedout n = n"
      using i ts by (simp_all add: ni_thread_proc_def)
    show ?thesis
      using enter [of "\<lambda>x. x\<lparr>respRecvd := False, tLock := Some i\<rparr>"] outside [of TWaiting] TStart acc
      by (cases "tLock (sess_of s n) = None"; cases "respRecvd (sess_of s n)") (simp_all add: e inv)
  next
    case TWaiting
    define n' where "n' = ni_thread_proc i timedout n"
    from TWaiting have e: "tLock (sess_of s n) = None \<Longrightarrow> timedout \<Longrightarrow> n' =
        thread_goto i s TDecide (upd_sess s (\<lambda>x. x\<lparr>resp := NI_NORESP, respRecvd := False, tLock := Some i\<rparr>) n)"
      "tLock (sess_of s n) = None \<Longrightarrow> \<not> timedout \<Longrightarrow> respRecvd (sess_of s n) \<Longrightarrow>
        n' = thread_goto i s TDecide (upd_sess s (\<lambda>x. x\<lparr>respRecvd := False, tLock := Some i\<rparr>) n)"
      "tLock (sess_of s n) = None \<Longrightarrow> \<not> timedout \<Longrightarrow> \<not> respRecvd (sess_of s n) \<Longrightarrow> n' = n"
      "tLock (sess_of s n) \<noteq> None \<Longrightarrow> n' = n"
      using i ts by (simp_all add: n'_def ni_thread_proc_def)
    have "ni_inv n' \<and> accounted n' = mset (arrived n')"
      using enter [of "\<lambda>x. x\<lparr>respRecvd := False, tLock := Some i\<rparr>"]
        enter [of "\<lambda>x. x\<lparr>resp := NI_NORESP, respRecvd := False, tLock := Some i\<rparr>"] TWaiting acc
      by (cases "tLock (sess_of s n) = None"; cases timedout; cases "respRecvd (sess_of s n)") (simp_all add: e inv)
    then show ?thesis by (simp add: n'_def)
  next
    case TDecide
    then have e: "rawRequest (sess_of s n) = None \<Longrightarrow> ni_thread_proc i timedout n = thread_goto i s (TUnlock None) n"
      "rawRequest (sess_of s n) = Some p \<Longrightarrow> resp (sess_of s n) \<noteq> NI_IGNORE \<Longrightarrow>
        ni_thread_proc i timedout n = thread_goto i s (TClear (Some (resp (sess_of s n), p))) n"
      "rawRequest (sess_of s n) = Some p \<Longrightarrow> resp (sess_of s n) = NI_IGNORE \<Longrightarrow>
        ni_thread_proc i timedout n = thread_goto i s (TClear None) (n\<lparr>freed := freed n @ [p]\<rparr>)" for p
      using i ts by (simp_all add: ni_thread_proc_def)
    note crit = ni_thread_crit [OF inv i ts, of _ "\<lambda>x. x"]
    show ?thesis
    proof (cases "rawRequest (sess_of s n)")
      case None
      with crit [of "TUnlock None"] TDecide acc show ?thesis by (simp add: e)
    next
      case (Some p)
      have "thread_goto i s pc (n\<lparr>freed := freed n @ [p]\<rparr>) = (thread_goto i s pc n)\<lparr>freed := freed (thread_goto i s pc n) @ [p]\<rparr>"
        for pc by (simp add: thread_goto_def)
      with crit [of "TClear None"] crit [of "TClear (Some (resp (sess_of s n), p))"] TDecide Some acc show ?thesis
        by (cases "resp (sess_of s n) = NI_IGNORE") (simp_all add: e freed_field_inv)
    qed
  next
    case (TClear m)
    then have "ni_thread_proc i timedout n = thread_goto i s (TUnlock m) (upd_sess s (\<lambda>x. x\<lparr>rawRequest := None\<rparr>) n)"
      using i ts by (simp add: ni_thread_proc_def)
    with ni_thread_crit [OF inv i ts, of "TUnlock m" "\<lambda>x. x\<lparr>rawRequest := None\<rparr>"] TClear acc show ?thesis by simp
  next
    case (TUnlock m)
    then have "ni_thread_proc i timedout n = thread_goto i s (TTail m) (upd_sess s (\<lambda>x. x\<lparr>tLock := None\<rparr>) n)"
      using i ts by (simp add: ni_thread_proc_def)
    with ni_thread_leave [OF inv i ts TUnlock] acc show ?thesis by simp
  next
    case (TTail m)
    let ?pc = "case m of None \<Rightarrow> TDone | Some a \<Rightarrow> TSend a"
    have "ni_thread_proc i timedout n = thread_goto i s ?pc (upd_sess s (\<lambda>x. x\<lparr>respTimeLeft := 0, reqID := 0\<rparr>) n)"
      using i ts TTail by (simp add: ni_thread_proc_def)
    with ni_thread_outside [OF inv i ts, of ?pc "\<lambda>x. x\<lparr>respTimeLeft := 0, reqID := 0\<rparr>"] TTail acc show ?thesis
      by (cases m) simp_all
  next
    case (TSend a)
    have "ni_thread_proc i timedout n = (thread_goto i s TDone n)\<lparr>sent := sent (thread_goto i s TDone n) @ [a]\<rparr>"
      using i ts TSend by (simp add: ni_thread_proc_def thread_goto_def)
    with outside [of TDone] TSend acc show ?thesis by (simp add: freed_field_inv)
  next
    case TDone
    with i inv acc show ?thesis by (simp add: ni_thread_proc_def)
  qed
qed

lemma ni_exec_inv:
  assumes "ni_inv n \<and> accounted n = mset (arrived n)" and "ev \<noteq> NiRestart"
  shows "ni_inv (ni_exec ev n) \<and> accounted (ni_exec ev n) = mset (arrived (ni_exec ev n))"
proof (cases ev)
  case (NiRequest notif p)
  with assms ni_request_inv [of n notif p] show ?thesis by (cases "engine n = EIdle") (simp_all add: ni_exec_def)
next
  case (NiEngine c)
  with assms ni_engine_inv [of n c] show ?thesis by (simp add: ni_exec_def)
next
  case (NiRespond j r)
  with assms ni_respond_inv [of n j r] show ?thesis by (simp add: ni_exec_def)
next
  case NiClient
  with assms ni_client_inv [of n] show ?thesis by (simp add: ni_exec_def)
next
  case (NiThread j t)
  with assms ni_thread_inv [of n j t] show ?thesis by (simp add: ni_exec_def)
qed (use assms in simp)

lemma ni_run_inv:
  "ni_inv n \<and> accounted n = mset (arrived n) \<Longrightarrow> NiRestart \<notin> set evs \<Longrightarrow>
     ni_inv (ni_run evs n) \<and> accounted (ni_run evs n) = mset (arrived (ni_run evs n))"
proof (induction evs arbitrary: n)
  case (Cons ev evs)
  have "ev \<noteq> NiRestart" using Cons.prems(2) by auto
  from Cons.IH [OF ni_exec_inv [OF Cons.prems(1) this]] Cons.prems(2) show ?case by simp
qed simp

section \<open>Properties\<close>

text \<open>
  C9: In every interleaving of requests, answers, time outs and the threads, as long as the engine
  is not restarted, every payload that arrived is in exactly one place: in a session, with its
  thread, on its way into a session, handed to the engine in one answer, or freed. So no payload
  is answered twice, freed twice, or freed and answered; and once the threads and handlers are
  done, what is neither sent nor freed is the payload of a session in progress.
\<close>

theorem ni_payloads_exactly_once:
  assumes "NiRestart \<notin> set evs"
  shows "accounted (ni_run evs ni_start) = mset (arrived (ni_run evs ni_start))"
  using ni_run_inv [OF ni_inv_start assms] by simp

definition ni_notif :: ni_notification where
  "ni_notif = \<lparr>is_emergency_supl = False, privacy_override = False, timeout = 30\<rparr>"

definition ni_accept_run :: "ni_event list" where
  "ni_accept_run = NiRequest ni_notif (Some 77) # replicate 4 (NiEngine True) @
     [NiThread 0 False, NiRespond 1 NI_ACCEPT, NiClient] @ replicate 6 (NiThread 0 False)"

lemma ni_payloads_exactly_once_witness:
  "mset (map snd (sent (ni_run ni_accept_run ni_start))) \<subseteq># mset (arrived (ni_run ni_accept_run ni_start)) \<and>
   sent (ni_run ni_accept_run ni_start) = [(NI_ACCEPT, 77)]"
proof -
  have "NiRestart \<notin> set ni_accept_run" by (simp add: ni_accept_run_def)
  from ni_payloads_exactly_once [OF this]
  have "mset (map snd (sent (ni_run ni_accept_run ni_start))) \<subseteq># mset (arrived (ni_run ni_accept_run ni_start))"
    by (subst (asm) eq_commute) (simp add: accounted_def)
  moreover have "sent (ni_run ni_accept_run ni_start) = [(NI_ACCEPT, 77)]" by code_simp
  ultimately show ?thesis by blast
qed

text \<open>The steps of a thread from its decision on.\<close>

lemma ni_thread_finish:
  assumes "i < length (threads n)" "threads n ! i = \<lparr>t_sess = s, t_pc = TDecide\<rparr>" "rawRequest (sess_of s n) = Some p"
  defines "r \<equiv> resp (sess_of s n)"
  defines "n' \<equiv> ni_run (replicate 5 (NiThread i False)) n"
  shows "sent n' = sent n @ (if r = NI_IGNORE then [] else [(r, p)])"
    "freed n' = freed n @ (if r = NI_IGNORE then [p] else [])"
    "sess_of s n' = (sess_of s n)\<lparr>respTimeLeft := 0, rawRequest := None, reqID := 0, tLock := None\<rparr>"
    "t_pc (threads n' ! i) = TDone"
proof -
  let ?step = "ni_thread_proc i False"
  let ?m = "if r = NI_IGNORE then None else Some (r, p)"
  define n1 where "n1 = ?step n"
  define n2 where "n2 = ?step n1"
  define n3 where "n3 = ?step n2"
  define n4 where "n4 = ?step n3"
  have n': "n' = ?step n4"
    by (simp add: n'_def n1_def n2_def n3_def n4_def eval_nat_numeral ni_exec_def)
  have 1: "threads n1 = (threads n)[i := \<lparr>t_sess = s, t_pc = TClear ?m\<rparr>]" "sess_of s n1 = sess_of s n"
    "sent n1 = sent n" "freed n1 = freed n @ (if r = NI_IGNORE then [p] else [])"
    using assms(1-3) by (simp_all add: n1_def r_def ni_thread_proc_def Let_def)
  have 2: "threads n2 = (threads n)[i := \<lparr>t_sess = s, t_pc = TUnlock ?m\<rparr>]"
    "sess_of s n2 = (sess_of s n)\<lparr>rawRequest := None\<rparr>" "sent n2 = sent n" "freed n2 = freed n1"
    using assms(1) 1 by (simp_all add: n2_def ni_thread_proc_def)
  have 3: "threads n3 = (threads n)[i := \<lparr>t_sess = s, t_pc = TTail ?m\<rparr>]"
    "sess_of s n3 = (sess_of s n)\<lparr>rawRequest := None, tLock := None\<rparr>" "sent n3 = sent n" "freed n3 = freed n1"
    using assms(1) 2 by (simp_all add: n3_def ni_thread_proc_def)
  have 4: "threads n4 = (threads n)[i := \<lparr>t_sess = s, t_pc = (if r = NI_IGNORE then TDone else TSend (r, p))\<rparr>]"
    "sess_of s n4 = (sess_of s n)\<lparr>respTimeLeft := 0, rawRequest := None, reqID := 0, tLock := None\<rparr>"
    "sent n4 = sent n" "freed n4 = freed n1"
    using assms(1) 3 by (simp_all add: n4_def ni_thread_proc_def)
  show "sent n' = sent n @ (if r = NI_IGNORE then [] else [(r, p)])"
    "freed n' = freed n @ (if r = NI_IGNORE then [p] else [])"
    "sess_of s n' = (sess_of s n)\<lparr>respTimeLeft := 0, rawRequest := None, reqID := 0, tLock := None\<rparr>"
    "t_pc (threads n' ! i) = TDone"
    using assms(1) 1(4) 4 by (simp_all add: n' ni_thread_proc_def)
qed

text \<open>
  A waiting thread whose session is not locked answers it: after a time out, or when the answer
  has come, five further steps send the payload with the user's answer (no response after a time
  out), or free it if the answer is to be ignored, and leave the session idle and the lock free.
\<close>

theorem ni_thread_answers:
  assumes "i < length (threads n)" "threads n ! i = \<lparr>t_sess = s, t_pc = TWaiting\<rparr>"
    and "tLock (sess_of s n) = None" "rawRequest (sess_of s n) = Some p" "timedout \<or> respRecvd (sess_of s n)"
  defines "r \<equiv> if timedout then NI_NORESP else resp (sess_of s n)"
  defines "n' \<equiv> ni_run (NiThread i timedout # replicate 5 (NiThread i False)) n"
  shows "sent n' = sent n @ (if r = NI_IGNORE then [] else [(r, p)]) \<and>
    freed n' = freed n @ (if r = NI_IGNORE then [p] else []) \<and>
    sess_of s n' = (sess_of s n)\<lparr>respTimeLeft := 0, respRecvd := False, rawRequest := None, reqID := 0, resp := r, tLock := None\<rparr> \<and>
    t_pc (threads n' ! i) = TDone"
proof -
  define n1 where "n1 = ni_thread_proc i timedout n"
  have 1: "threads n1 = (threads n)[i := \<lparr>t_sess = s, t_pc = TDecide\<rparr>]"
    "sess_of s n1 = (sess_of s n)\<lparr>respRecvd := False, resp := r, tLock := Some i\<rparr>" "sent n1 = sent n" "freed n1 = freed n"
    using assms(1-3,5) by (auto simp: n1_def r_def ni_thread_proc_def Let_def)
  have "n' = ni_run (replicate 5 (NiThread i False)) n1" by (simp add: n'_def n1_def ni_exec_def)
  with ni_thread_finish [of i n1 s p] 1 assms(1,4) show ?thesis by simp
qed

lemma ni_thread_answers_witness:
  "sent (ni_run (NiRequest ni_notif (Some 77) # replicate 4 (NiEngine True) @ NiThread 0 False #
      NiThread 0 True # replicate 5 (NiThread 0 False)) ni_start) = [(NI_NORESP, 77)]"
proof -
  let ?n = "ni_run (NiRequest ni_notif (Some 77) # replicate 4 (NiEngine True) @ [NiThread 0 False]) ni_start"
  have f: "threads ?n = [\<lparr>t_sess = SessNormal, t_pc = TWaiting\<rparr>]" "tLock (sess_of SessNormal ?n) = None"
    "rawRequest (sess_of SessNormal ?n) = Some 77" "sent ?n = []" by code_simp+
  have "ni_run (NiRequest ni_notif (Some 77) # replicate 4 (NiEngine True) @ NiThread 0 False #
      NiThread 0 True # replicate 5 (NiThread 0 False)) ni_start =
    ni_run (NiThread 0 True # replicate 5 (NiThread 0 False)) ?n" by (simp add: eval_nat_numeral)
  with ni_thread_answers [of 0 ?n SessNormal 77 True] f show ?thesis by simp
qed

text \<open>A session whose request no thread will clear: the threads it had are past their clearing.\<close>

fun past_clear :: "ni_thread_pc \<Rightarrow> bool" where
  "past_clear (TUnlock m) \<longleftrightarrow> True"
| "past_clear (TTail m) \<longleftrightarrow> True"
| "past_clear (TSend a) \<longleftrightarrow> True"
| "past_clear TDone \<longleftrightarrow> True"
| "past_clear _ \<longleftrightarrow> False"

definition ni_stuck :: "ni_sess \<Rightarrow> nat \<Rightarrow> ni_sys \<Rightarrow> bool" where
  "ni_stuck s p n \<longleftrightarrow>
     rawRequest (sess_of s n) = Some p \<and>
     (\<forall>i < length (threads n). t_sess (threads n ! i) = s \<longrightarrow> past_clear (t_pc (threads n ! i))) \<and>
     (case engine n of HSave s' q notif \<Rightarrow> s' \<noteq> s | HId s' notif \<Rightarrow> s' \<noteq> s | HSpawn s' notif \<Rightarrow> s' \<noteq> s
      | RTest s' \<Rightarrow> False | RNull s' \<Rightarrow> False | RSet s' \<Rightarrow> False | _ \<Rightarrow> True)"

lemma ni_stuck_engine: "ni_stuck s p n \<Longrightarrow> ni_stuck s p (engine_step created n)"
  by (cases "engine n") (auto simp: engine_step_def ni_stuck_def Let_def nth_append)

lemma ni_stuck_request: "ni_stuck s p n \<Longrightarrow> ni_stuck s p (ni_exec (NiRequest notif q) n)"
  by (cases s) (auto simp: ni_exec_def loc_eng_ni_request_handler_def ni_stuck_def)

lemma ni_stuck_client:
  "ni_stuck s p n \<Longrightarrow> ni_stuck s p (loc_eng_ni_respond i r n)" "ni_stuck s p n \<Longrightarrow> ni_stuck s p (client_step n)"
  by (auto simp: loc_eng_ni_respond_def client_step_def ni_stuck_def split: ni_client_pc.split)

lemma ni_stuck_goto:
  assumes "ni_stuck s p n" "t_sess (threads n ! i) = s'" "s' = s \<Longrightarrow> past_clear pc"
    and "\<And>x. s' = s \<Longrightarrow> rawRequest (f x) = rawRequest x"
  shows "ni_stuck s p (thread_goto i s' pc (upd_sess s' f n))"
proof -
  let ?ts = "(threads n)[i := \<lparr>t_sess = s', t_pc = pc\<rparr>]"
  have "past_clear (t_pc (?ts ! j))" if "j < length ?ts" "t_sess (?ts ! j) = s" for j
    using that assms(1,3) by (cases "j = i") (simp_all add: ni_stuck_def)
  with assms(1,4) show ?thesis by (auto simp: ni_stuck_def)
qed

lemma ni_stuck_freed: "ni_stuck s p (n\<lparr>freed := fr\<rparr>) = ni_stuck s p n" "ni_stuck s p (n\<lparr>sent := se\<rparr>) = ni_stuck s p n"
  by (simp_all add: ni_stuck_def)

lemma ni_stuck_thread:
  assumes st: "ni_stuck s p n"
  shows "ni_stuck s p (ni_thread_proc i timedout n)"
proof (cases "i < length (threads n)")
  case False
  with st show ?thesis by (simp add: ni_thread_proc_def)
next
  case i: True
  define s' where "s' = t_sess (threads n ! i)"
  have ts: "t_sess (threads n ! i) = s'" by (simp add: s'_def)
  have past: "s' = s \<Longrightarrow> past_clear (t_pc (threads n ! i))" using st i by (simp add: ni_stuck_def s'_def)
  note g1 = ni_stuck_goto [OF st ts]
  have g2: "ni_stuck s p (thread_goto i s' pc (n\<lparr>freed := fr\<rparr>))" if "s' = s \<Longrightarrow> past_clear pc" for pc fr
    using ni_stuck_goto [of s p "n\<lparr>freed := fr\<rparr>" i s' pc "\<lambda>x. x"] st ts that by (simp add: ni_stuck_freed)
  have g3: "ni_stuck s p (thread_goto i s' pc (n\<lparr>sent := fr\<rparr>))" if "s' = s \<Longrightarrow> past_clear pc" for pc fr
    using ni_stuck_goto [of s p "n\<lparr>sent := fr\<rparr>" i s' pc "\<lambda>x. x"] st ts that by (simp add: ni_stuck_freed)
  have g4: "ni_stuck s p (thread_goto i s' pc n)" if "s' = s \<Longrightarrow> past_clear pc" for pc
    using g1 [of pc "\<lambda>x. x"] that by simp
  show ?thesis
  proof (cases "s' = s")
    case True
    with past have "past_clear (t_pc (threads n ! i))" by simp
    then show ?thesis using i
      by (cases "t_pc (threads n ! i)") (simp_all add: ni_thread_proc_def Let_def ts st g1 g2 g3 g4 split: option.split)
  next
    case False
    then have g: "ni_stuck s p (thread_goto i s' pc (upd_sess s' f n))" "ni_stuck s p (thread_goto i s' pc n)"
      "ni_stuck s p (thread_goto i s' pc (n\<lparr>freed := fr\<rparr>))" "ni_stuck s p (thread_goto i s' pc (n\<lparr>sent := se\<rparr>))"
      for pc f fr se using g1 g2 g3 g4 by blast+
    show ?thesis using i
      by (cases "t_pc (threads n ! i)") (simp_all add: ni_thread_proc_def Let_def ts st g split: option.split)
  qed
qed

lemma ni_stuck_run: "ni_stuck s p n \<Longrightarrow> NiRestart \<notin> set evs \<Longrightarrow> ni_stuck s p (ni_run evs n)"
proof (induction evs arbitrary: n)
  case (Cons ev evs)
  have "ni_stuck s p (ni_exec ev n)"
    using Cons.prems ni_stuck_request ni_stuck_engine ni_stuck_client ni_stuck_thread
    by (cases ev) (auto simp: ni_exec_def)
  with Cons show ?case by simp
qed simp

text \<open>
  When the thread of an accepted request could not be created (the result is only logged), the
  session keeps its request for ever: in every further run without an engine restart it stays in
  place whatever the user answers, and every later request for that session is refused and freed.
\<close>

theorem ni_blocked_without_thread:
  assumes "engine n = HSpawn s notif" "rawRequest (sess_of s n) = Some p"
    and "\<forall>i < length (threads n). t_sess (threads n ! i) = s \<longrightarrow> past_clear (t_pc (threads n ! i))"
    and "NiRestart \<notin> set evs"
  defines "n' \<equiv> ni_run (NiEngine False # evs) n"
  shows "rawRequest (sess_of s n') = Some p \<and>
    ((is_emergency_supl notif' \<longleftrightarrow> s = SessEs) \<and> ni_notify_cb n' \<longrightarrow>
      loc_eng_ni_request_handler notif' (Some q) n' = n'\<lparr>freed := freed n' @ [q]\<rparr>)"
proof -
  have "ni_stuck s p (engine_step False n)" using assms(1-3) by (simp add: ni_stuck_def engine_step_def Let_def)
  from ni_stuck_run [OF this assms(4)] have "rawRequest (sess_of s n') = Some p"
    by (simp add: n'_def ni_exec_def ni_stuck_def)
  then show ?thesis by (cases s) (auto simp: loc_eng_ni_request_handler_def)
qed

lemma ni_blocked_without_thread_witness:
  "freed (ni_run ([NiRequest ni_notif (Some 77), NiEngine True, NiEngine True, NiEngine False] @
      [NiEngine True, NiRespond 1 NI_DENY, NiClient, NiRequest ni_notif (Some 78)]) ni_start) = [78] \<and>
   rawRequest (sess_of SessNormal (ni_run [NiEngine False, NiEngine True, NiRespond 1 NI_DENY, NiClient]
      (ni_run [NiRequest ni_notif (Some 77), NiEngine True, NiEngine True] ni_start))) = Some 77"
proof -
  let ?n = "ni_run [NiRequest ni_notif (Some 77), NiEngine True, NiEngine True] ni_start"
  have f: "engine ?n = HSpawn SessNormal ni_notif" "rawRequest (sess_of SessNormal ?n) = Some 77" "threads ?n = []"
    by code_simp+
  have "rawRequest (sess_of SessNormal (ni_run [NiEngine False, NiEngine True, NiRespond 1 NI_DENY, NiClient] ?n)) = Some 77"
    using ni_blocked_without_thread [of ?n SessNormal ni_notif 77 "[NiEngine True, NiRespond 1 NI_DENY, NiClient]"] f
    by simp
  moreover have "freed (ni_run ([NiRequest ni_notif (Some 77), NiEngine True, NiEngine True, NiEngine False] @
      [NiEngine True, NiRespond 1 NI_DENY, NiClient, NiRequest ni_notif (Some 78)]) ni_start) = [78]" by code_simp
  ultimately show ?thesis by blast
qed

text \<open>
  Three interleavings go wrong. A user who accepts request 1 just as it times out has accepted
  request 2: the client thread sets the answer after the thread has left, and the next request is
  answered with it at once, without being asked. A request that arrives before the thread of the
  previous one has cleared the identifier gets identifier 0, so the user's refusal is not
  recognised and the time out answers instead. And an engine restart between the thread's taking
  the payload and its clearing the session frees a payload that is then sent, and freed again.
\<close>

theorem ni_races:
  "sent (ni_run ([NiRequest ni_notif (Some 1)] @ replicate 4 (NiEngine True) @
       [NiThread 0 False, NiRespond 1 NI_ACCEPT, NiThread 0 True] @ replicate 5 (NiThread 0 False) @
       [NiClient, NiRequest ni_notif (Some 2)] @ replicate 4 (NiEngine True) @ replicate 6 (NiThread 1 False)) ni_start) =
     [(NI_NORESP, 1), (NI_ACCEPT, 2)] \<and>
   sent (ni_run ([NiRequest ni_notif (Some 1)] @ replicate 4 (NiEngine True) @
       [NiThread 0 False, NiThread 0 True, NiThread 0 False, NiThread 0 False, NiThread 0 False,
        NiRequest ni_notif (Some 2)] @ replicate 4 (NiEngine True) @
       [NiThread 0 False, NiThread 0 False, NiThread 1 False, NiRespond 2 NI_DENY, NiClient, NiThread 1 False,
        NiThread 1 True] @ replicate 5 (NiThread 1 False)) ni_start) =
     [(NI_NORESP, 1), (NI_NORESP, 2)] \<and>
   (let n = ni_run ([NiRequest ni_notif (Some 1)] @ replicate 4 (NiEngine True) @
       [NiThread 0 False, NiThread 0 True, NiThread 0 False, NiRestart, NiEngine True, NiEngine True] @
       replicate 4 (NiThread 0 False)) ni_start
    in sent n = [(NI_NORESP, 1)] \<and> freed n = [1])"
  by (intro conjI) code_simp+

end
