(* ===== verification/Loc_Cfg.thy ===== *)
theory Loc_Cfg
  imports Loc_Prelude "HOL-Library.Char_ord"
begin

text \<open>
  \<open>loc_misc_utils.cpp\<close> and \<open>loc_cfg.cpp\<close>: the string helpers and the configuration reader.

  \<^item> A C string is a \<open>string\<close> without NUL characters; \<open>strtok_r\<close>, \<open>strtol\<close>, \<open>atoi\<close>, \<open>fgets\<close> and \<open>strlcpy\<close>
    of the C library are written out, \<open>atof\<close> is a parameter, as the type \<open>'d\<close> of its results, and
    \<open>bits\<close> is the width of \<open>long\<close>.
  \<^item> The tables point to variables: \<open>cfg_mem\<close> maps an address to the value stored there and to the
    validity flag stored there.
  \<^item> Shown: \<open>loc_util_split_string\<close> and \<open>loc_util_trim_space\<close> agree with reference functions on lists;
    a line sets exactly the variables of its name, and a printed number is read back; the readers
    stop by counting matches, so a repeated name hides a later one and \<open>loc_update_conf\<close> never
    sets the last record.
\<close>

section \<open>String helpers\<close>

definition isspace :: "char \<Rightarrow> bool" where
  "isspace c \<longleftrightarrow> c = CHR 0x20 \<or> (9 \<le> (of_char c :: nat) \<and> (of_char c :: nat) \<le> 13)"

text \<open>
  \<open>loc_util_split_string\<close>: the buffer with the delimiters overwritten, and the offsets stored in
  the array. \<open>rest\<close> is what is left of the string at \<open>i\<close>; its end is the NUL character.
\<close>

fun split_loop :: "char \<Rightarrow> int \<Rightarrow> nat \<Rightarrow> string \<Rightarrow> string \<Rightarrow> nat list \<Rightarrow> string \<times> nat list" where
  "split_loop delimiter maxn i [] buf ptrs = (buf, ptrs)"
| "split_loop delimiter maxn i (c # rest) buf ptrs =
     (if c = delimiter then
        (let buf' = buf[i := CHR 0x00]
         in if int (length ptrs) < maxn then split_loop delimiter maxn (Suc i) rest buf' (ptrs @ [Suc i])
            else (buf', ptrs))
      else split_loop delimiter maxn (Suc i) rest buf ptrs)"

definition loc_util_split_string :: "string option \<Rightarrow> int \<Rightarrow> char \<Rightarrow> int \<times> string \<times> nat list" where
  "loc_util_split_string raw_string max_num_substrings delimiter =
     (case raw_string of
        None \<Rightarrow> (-1, [], [])
      | Some s \<Rightarrow>
          (let (buf, ptrs) = split_loop delimiter max_num_substrings 0 s s [0]
           in (int (length ptrs), buf, ptrs)))"

text \<open>The string at an offset of a buffer.\<close>

definition cstr_at :: "string \<Rightarrow> nat \<Rightarrow> string" where
  "cstr_at buf i = takeWhile (\<lambda>c. c \<noteq> CHR 0x00) (drop i buf)"

text \<open>\<open>loc_util_trim_space\<close>, in place: the pointers are offsets.\<close>

function trim_loop :: "string \<Rightarrow> nat \<Rightarrow> nat \<Rightarrow> bool \<Rightarrow> nat option \<Rightarrow> string \<times> nat option" where
  "trim_loop buf scan write first last_nonspace =
     (if length buf \<le> scan then (buf, last_nonspace)
      else
        (let c = buf ! scan; first' = (first \<or> \<not> isspace c)
         in if first' then
              trim_loop (buf[write := c]) (Suc scan) (Suc write) first'
                (if \<not> isspace c then Some (Suc write) else last_nonspace)
            else trim_loop buf (Suc scan) write first' last_nonspace))"
  by pat_completeness auto
termination
  by (relation "measure (\<lambda>(buf, scan, _). length buf - scan)") auto

declare trim_loop.simps [simp del]

definition loc_util_trim_space :: "string \<Rightarrow> string" where
  "loc_util_trim_space org_string =
     (case trim_loop org_string 0 0 False None of
        (buf, None) \<Rightarrow> buf
      | (buf, Some l) \<Rightarrow> take l buf)"

section \<open>The C library\<close>

text \<open>\<open>strtok_r\<close> with one delimiter: the token and what the saved pointer points to.\<close>

definition strtok :: "char \<Rightarrow> string \<Rightarrow> (string \<times> string) option" where
  "strtok d s =
     (let t = dropWhile (\<lambda>c. c = d) s
      in if t = [] then None
         else Some (takeWhile (\<lambda>c. c \<noteq> d) t, drop 1 (dropWhile (\<lambda>c. c \<noteq> d) t)))"

definition tolower :: "char \<Rightarrow> char" where
  "tolower c = (if 65 \<le> (of_char c :: nat) \<and> (of_char c :: nat) \<le> 90 then char_of ((of_char c :: nat) + 32) else c)"

definition digit_val :: "char \<Rightarrow> nat option" where
  "digit_val c =
     (let n = of_char (tolower c) :: nat
      in if 48 \<le> n \<and> n \<le> 57 then Some (n - 48) else if 97 \<le> n \<and> n \<le> 122 then Some (n - 87) else None)"

fun digits_value :: "nat \<Rightarrow> nat \<Rightarrow> string \<Rightarrow> nat" where
  "digits_value base acc [] = acc"
| "digits_value base acc (c # cs) =
     (case digit_val c of
        None \<Rightarrow> acc
      | Some v \<Rightarrow> if v < base then digits_value base (acc * base + v) cs else acc)"

text \<open>\<open>strtol\<close>: white space, a sign, in base 16 a prefix that a digit follows, digits; saturates.\<close>

definition skip_prefix :: "nat \<Rightarrow> string \<Rightarrow> string" where
  "skip_prefix base s =
     (case s of
        c0 # c1 # c2 # cs \<Rightarrow>
          if base = 16 \<and> c0 = CHR 0x30 \<and> tolower c1 = CHR 0x78 \<and>
             (case digit_val c2 of None \<Rightarrow> False | Some v \<Rightarrow> v < 16)
          then c2 # cs else s
      | _ \<Rightarrow> s)"

definition strtol :: "nat \<Rightarrow> nat \<Rightarrow> string \<Rightarrow> int" where
  "strtol bits base s =
     (let t = dropWhile isspace s;
          neg = (t \<noteq> [] \<and> hd t = CHR 0x2D);
          u = (if t \<noteq> [] \<and> (hd t = CHR 0x2D \<or> hd t = CHR 0x2B) then tl t else t);
          v = int (digits_value base 0 (skip_prefix base u));
          x = (if neg then - v else v)
      in max (- (2 ^ (bits - 1))) (min (2 ^ (bits - 1) - 1) x))"

definition atoi :: "nat \<Rightarrow> string \<Rightarrow> int" where
  "atoi bits s = c_int32 (strtol bits 10 s)"

text \<open>\<open>fgets\<close> with a buffer of \<open>n\<close> characters: the line read and the rest of the file.\<close>

definition fgets :: "nat \<Rightarrow> string \<Rightarrow> (string \<times> string) option" where
  "fgets n file =
     (if file = [] then None
      else
        (let l = takeWhile (\<lambda>c. c \<noteq> CHR 0x0A) file;
             line = take (n - 1) (if length l < length file then l @ [CHR 0x0A] else l)
         in Some (line, drop (length line) file)))"

section \<open>Configuration tables\<close>

definition LOC_MAX_PARAM_NAME :: nat where "LOC_MAX_PARAM_NAME = 80"
definition LOC_MAX_PARAM_STRING :: nat where "LOC_MAX_PARAM_STRING = 80"
definition LOC_MAX_PARAM_LINE :: nat where "LOC_MAX_PARAM_LINE = LOC_MAX_PARAM_NAME + LOC_MAX_PARAM_STRING"

record loc_param_s_type =
  param_name :: string
  param_ptr :: ptr
  param_set :: ptr
  param_type :: char

record 'd loc_param_v_type =
  v_name :: string
  v_str :: string
  v_int :: int
  v_double :: 'd

datatype 'd cfg_val = VInt int | VStr string | VDouble 'd

record 'd cfg_mem =
  vars :: "nat \<Rightarrow> 'd cfg_val option"
  flags :: "nat \<Rightarrow> bool"

definition set_flag :: "ptr \<Rightarrow> bool \<Rightarrow> 'd cfg_mem \<Rightarrow> 'd cfg_mem" where
  "set_flag p b m = (case p of None \<Rightarrow> m | Some a \<Rightarrow> m\<lparr>flags := (flags m)(a := b)\<rparr>)"

text \<open>The value that a type letter selects; None for a letter that is none of n, f, s.\<close>

definition config_value :: "char \<Rightarrow> 'd loc_param_v_type \<Rightarrow> 'd cfg_val option" where
  "config_value ty v =
     (if ty = CHR ''s'' then Some (VStr (if v_str v = ''NULL'' then [] else take LOC_MAX_PARAM_STRING (v_str v)))
      else if ty = CHR ''n'' then Some (VInt (v_int v))
      else if ty = CHR ''f'' then Some (VDouble (v_double v))
      else None)"

definition loc_set_config_entry ::
  "loc_param_s_type \<Rightarrow> 'd loc_param_v_type \<Rightarrow> 'd cfg_mem \<Rightarrow> int \<times> 'd cfg_mem" where
  "loc_set_config_entry e v m =
     (case param_ptr e of
        None \<Rightarrow> (-1, m)
      | Some a \<Rightarrow>
          if param_name e = v_name v then
            (case config_value (param_type e) v of
               None \<Rightarrow> (-1, m)
             | Some x \<Rightarrow> (0, set_flag (param_set e) True (m\<lparr>vars := (vars m)(a \<mapsto> x)\<rparr>)))
          else (-1, m))"

text \<open>The loop over the table: the number of entries set.\<close>

fun set_entries ::
  "loc_param_s_type list \<Rightarrow> 'd loc_param_v_type \<Rightarrow> 'd cfg_mem \<Rightarrow> int \<times> 'd cfg_mem" where
  "set_entries [] v m = (0, m)"
| "set_entries (e # es) v m =
     (let (r, m1) = loc_set_config_entry e v m; (n, m2) = set_entries es v m1
      in (if r = 0 then n + 1 else n, m2))"

text \<open>The values of a string, read as hexadecimal or decimal number; \<open>zero\<close> is the double 0.\<close>

definition parse_value :: "nat \<Rightarrow> 'd \<Rightarrow> (string \<Rightarrow> 'd) \<Rightarrow> string \<Rightarrow> string \<Rightarrow> 'd loc_param_v_type" where
  "parse_value bits zero atof name val =
     (if 3 \<le> length val \<and> val ! 0 = CHR ''0'' \<and> tolower (val ! 1) = CHR ''x''
      then \<lparr>v_name = name, v_str = val, v_int = c_int32 (strtol bits 16 (drop 2 val)), v_double = zero\<rparr>
      else \<lparr>v_name = name, v_str = val, v_int = atoi bits val, v_double = atof val\<rparr>)"

definition loc_fill_conf_item ::
  "nat \<Rightarrow> 'd \<Rightarrow> (string \<Rightarrow> 'd) \<Rightarrow> string \<Rightarrow> loc_param_s_type list option \<Rightarrow> 'd cfg_mem \<Rightarrow> int \<times> 'd cfg_mem" where
  "loc_fill_conf_item bits zero atof input_buf config_table m =
     (case config_table of
        None \<Rightarrow> (0, m)
      | Some table \<Rightarrow>
          (case strtok (CHR ''='') input_buf of
             None \<Rightarrow> (0, m)
           | Some (name, rest) \<Rightarrow>
               (case strtok (CHR ''='') rest of
                  None \<Rightarrow> (0, m)
                | Some (val, _) \<Rightarrow>
                    set_entries table
                      (parse_value bits zero atof (loc_util_trim_space name) (loc_util_trim_space val)) m)))"

text \<open>The loop of \<open>loc_read_conf_r\<close>; \<open>num_params\<close> is an unsigned int.\<close>

lemma fgets_shorter: "fgets n file = Some (l, file') \<Longrightarrow> 2 \<le> n \<Longrightarrow> length file' < length file"
  by (cases "file") (auto simp: fgets_def Let_def split: if_splits)

function read_loop ::
  "nat \<Rightarrow> 'd \<Rightarrow> (string \<Rightarrow> 'd) \<Rightarrow> loc_param_s_type list option \<Rightarrow> 32 word \<Rightarrow> string \<Rightarrow> 'd cfg_mem \<Rightarrow> string \<times> 'd cfg_mem" where
  "read_loop bits zero atof table num_params file m =
     (if num_params = 0 then (file, m)
      else
        (case fgets LOC_MAX_PARAM_LINE file of
           None \<Rightarrow> (file, m)
         | Some (input_buf, file') \<Rightarrow>
             (case loc_fill_conf_item bits zero atof input_buf table m of
                (n, m') \<Rightarrow> read_loop bits zero atof table (num_params - word_of_int n) file' m')))"
  by pat_completeness auto
termination
  by (relation "measure (\<lambda>(_, _, _, _, _, file, _). length file)")
    (auto dest: fgets_shorter simp: LOC_MAX_PARAM_LINE_def LOC_MAX_PARAM_NAME_def LOC_MAX_PARAM_STRING_def)

declare read_loop.simps [simp del]

definition clear_flags :: "loc_param_s_type list \<Rightarrow> 'd cfg_mem \<Rightarrow> 'd cfg_mem" where
  "clear_flags table m = fold (\<lambda>e. set_flag (param_set e) False) table m"

definition loc_read_conf_r ::
  "nat \<Rightarrow> 'd \<Rightarrow> (string \<Rightarrow> 'd) \<Rightarrow> string option \<Rightarrow> loc_param_s_type list \<Rightarrow> 'd cfg_mem \<Rightarrow> int \<times> string \<times> 'd cfg_mem" where
  "loc_read_conf_r bits zero atof conf_fp config_table m =
     (case conf_fp of
        None \<Rightarrow> (-1, [], m)
      | Some file \<Rightarrow>
          (let (file', m') = read_loop bits zero atof (Some config_table) (of_nat (length config_table)) file
                              (clear_flags config_table m)
           in (0, file', m')))"

text \<open>The loop of \<open>loc_update_conf\<close>: it counts the lines.\<close>

lemma strtok_shorter: "strtok d s = Some (t, s') \<Longrightarrow> length s' < length s"
proof -
  assume a: "strtok d s = Some (t, s')"
  then have ne: "dropWhile (\<lambda>c. c = d) s \<noteq> []" and s': "s' = drop 1 (dropWhile (\<lambda>c. c \<noteq> d) (dropWhile (\<lambda>c. c = d) s))"
    by (auto simp: strtok_def Let_def split: if_splits)
  have "length (dropWhile (\<lambda>c. c \<noteq> d) (dropWhile (\<lambda>c. c = d) s)) \<le> length s"
    by (meson length_dropWhile_le order_trans)
  moreover have "s \<noteq> []" using ne by auto
  moreover have "length s' \<le> length (dropWhile (\<lambda>c. c = d) s) - 1"
    using s' ne length_dropWhile_le [of "\<lambda>c. c \<noteq> d" "dropWhile (\<lambda>c. c = d) s"] by (simp add: diff_le_mono)
  moreover have "length (dropWhile (\<lambda>c. c = d) s) \<le> length s" by (rule length_dropWhile_le)
  ultimately show ?thesis using ne by (cases s) auto
qed

function update_loop ::
  "nat \<Rightarrow> 'd \<Rightarrow> (string \<Rightarrow> 'd) \<Rightarrow> loc_param_s_type list \<Rightarrow> 32 word \<Rightarrow> int \<Rightarrow> string \<Rightarrow> 'd cfg_mem \<Rightarrow> int \<times> 'd cfg_mem" where
  "update_loop bits zero atof table num_params ret conf m =
     (if num_params = 0 then (ret, m)
      else
        (case strtok (CHR 0x0A) conf of
           None \<Rightarrow> (ret, m)
         | Some (input_buf, conf') \<Rightarrow>
             (case loc_fill_conf_item bits zero atof input_buf (Some table) m of
                (n, m') \<Rightarrow> update_loop bits zero atof table (num_params - word_of_int n) (ret + 1) conf' m')))"
  by pat_completeness auto
termination
  by (relation "measure (\<lambda>(_, _, _, _, _, _, conf, _). length conf)") (auto dest: strtok_shorter)

declare update_loop.simps [simp del]

definition loc_update_conf ::
  "nat \<Rightarrow> 'd \<Rightarrow> (string \<Rightarrow> 'd) \<Rightarrow> string option \<Rightarrow> nat \<Rightarrow> loc_param_s_type list \<Rightarrow> bool \<Rightarrow> 'd cfg_mem \<Rightarrow> int \<times> 'd cfg_mem" where
  "loc_update_conf bits zero atof conf_data len config_table malloc_ok m =
     (case conf_data of
        None \<Rightarrow> (-1, m)
      | Some s \<Rightarrow>
          if len \<noteq> 0 \<and> config_table \<noteq> [] \<and> malloc_ok
          then update_loop bits zero atof config_table (of_nat (length config_table) - 1) 0 (take len s) m
          else (-1, m))"

text \<open>
  \<open>loc_read_conf\<close>: the table of the caller and then the table of the logger, each from the start
  of the file.
\<close>

definition loc_param_table :: "nat \<Rightarrow> nat \<Rightarrow> loc_param_s_type list" where
  "loc_param_table debug_level timestamp =
     [\<lparr>param_name = ''DEBUG_LEVEL'', param_ptr = Some debug_level, param_set = None, param_type = CHR ''n''\<rparr>,
      \<lparr>param_name = ''TIMESTAMP'', param_ptr = Some timestamp, param_set = None, param_type = CHR ''n''\<rparr>]"

definition loc_read_conf ::
  "nat \<Rightarrow> 'd \<Rightarrow> (string \<Rightarrow> 'd) \<Rightarrow> nat \<Rightarrow> nat \<Rightarrow> string option \<Rightarrow> loc_param_s_type list \<Rightarrow> 'd cfg_mem \<Rightarrow> 'd cfg_mem" where
  "loc_read_conf bits zero atof debug_level timestamp conf_file config_table m =
     (case conf_file of
        None \<Rightarrow> m
      | Some file \<Rightarrow>
          (let m1 = (if config_table \<noteq> []
                     then snd (snd (loc_read_conf_r bits zero atof (Some file) config_table m)) else m)
           in snd (snd (loc_read_conf_r bits zero atof (Some file) (loc_param_table debug_level timestamp) m1))))"

section \<open>The string helpers\<close>

definition rstrip :: "string \<Rightarrow> string" where
  "rstrip s = rev (dropWhile isspace (rev s))"

definition strip :: "string \<Rightarrow> string" where
  "strip s = rstrip (dropWhile isspace s)"

lemma rstrip_simps [simp]:
  "rstrip [] = []"
  "rstrip (c # cs) = (if rstrip cs = [] then (if isspace c then [] else [c]) else c # rstrip cs)"
  by (auto simp: rstrip_def dropWhile_append)

lemma rstrip_prefix: "take (length (rstrip s)) s = rstrip s"
  by (induction s) auto

lemma rstrip_length: "length (rstrip s) \<le> length s"
  by (induction s) auto

lemma rstrip_Nil: "rstrip s = [] \<longleftrightarrow> (\<forall>c \<in> set s. isspace c)"
  by (simp add: rstrip_def)

lemma rstrip_append_spaces: "\<forall>c \<in> set q. isspace c \<Longrightarrow> rstrip (s @ q) = rstrip s"
  by (induction s) (auto simp: rstrip_Nil)

lemma rstrip_id: "s = [] \<or> \<not> isspace (last s) \<Longrightarrow> rstrip s = s"
  by (induction s) (auto simp: rstrip_Nil split: if_splits)

text \<open>Once a character that is not a space has been seen, the rest is moved to the left.\<close>

lemma trim_loop_moves:
  "scan = length done + length mid \<Longrightarrow>
   \<exists>r. trim_loop (done @ mid @ todo) scan (length done) True l =
      (done @ todo @ r, if rstrip todo = [] then l else Some (length done + length (rstrip todo)))"
proof (induction todo arbitrary: "done" mid scan l)
  case Nil
  then show ?case by (subst trim_loop.simps) simp
next
  case (Cons c ts)
  let ?l = "if \<not> isspace c then Some (Suc (length done)) else l"
  have at: "(done @ mid @ c # ts) ! scan = c" using Cons.prems by (simp add: nth_append)
  obtain mid' where mid': "(done @ mid @ c # ts)[length done := c] = (done @ [c]) @ mid' @ ts" "length mid' = length mid"
  proof (cases mid)
    case Nil
    with that [of "[]"] show thesis by (simp add: list_update_append)
  next
    case (Cons m ms)
    with that [of "ms @ [c]"] show thesis by (simp add: list_update_append)
  qed
  have step: "trim_loop (done @ mid @ c # ts) scan (length done) True l =
      trim_loop ((done @ [c]) @ mid' @ ts) (Suc scan) (length (done @ [c])) True ?l"
    using Cons.prems at mid'(1) by (subst trim_loop.simps) simp
  from Cons.IH [of "Suc scan" "done @ [c]" mid' ?l] Cons.prems mid'(2) obtain r where
    "trim_loop ((done @ [c]) @ mid' @ ts) (Suc scan) (length (done @ [c])) True ?l =
      ((done @ [c]) @ ts @ r, if rstrip ts = [] then ?l else Some (length (done @ [c]) + length (rstrip ts)))"
    by auto
  with step show ?case by auto
qed

lemma trim_loop_skips:
  "\<forall>c \<in> set q. isspace c \<Longrightarrow> trim_loop (p @ q @ t) (length p) 0 False None = trim_loop (p @ q @ t) (length p + length q) 0 False None"
proof (induction q arbitrary: p)
  case (Cons c q)
  have "trim_loop (p @ (c # q) @ t) (length p) 0 False None = trim_loop ((p @ [c]) @ q @ t) (length (p @ [c])) 0 False None"
    using Cons.prems by (subst trim_loop.simps) (simp add: nth_append)
  with Cons.IH [of "p @ [c]"] Cons.prems show ?case by simp
qed simp

lemma trim_space_strip:
  "loc_util_trim_space s = (if \<forall>c \<in> set s. isspace c then s else strip s)"
proof -
  let ?q = "takeWhile isspace s" and ?t = "dropWhile isspace s"
  have q: "\<forall>c \<in> set ?q. isspace c" by (meson set_takeWhileD)
  have s: "s = [] @ ?q @ ?t" by simp
  have skip: "trim_loop s 0 0 False None = trim_loop s (length ?q) 0 False None"
    using trim_loop_skips [OF q, of "[]" ?t] by simp
  show ?thesis
  proof (cases ?t)
    case Nil
    then have all: "\<forall>c \<in> set s. isspace c" by (simp add: dropWhile_eq_Nil_conv)
    then have "length ?q = length s" by (simp add: takeWhile_eq_all_conv [THEN iffD2])
    then have "trim_loop s 0 0 False None = (s, None)" by (simp add: skip) (subst trim_loop.simps, simp)
    with all show ?thesis by (simp add: loc_util_trim_space_def)
  next
    case (Cons c t)
    then have c: "\<not> isspace c" by (metis hd_dropWhile list.distinct(1) list.sel(1))
    have sq: "s = ?q @ c # t" using Cons takeWhile_dropWhile_id [of isspace s] by simp
    have at: "length ?q < length s" "s ! length ?q = c"
      by (subst sq, simp) (subst sq, simp add: nth_append)
    then have "trim_loop s (length ?q) 0 False None = trim_loop s (length ?q) 0 True None"
      using c by (subst (1 2) trim_loop.simps) simp
    also obtain r where "\<dots> = (?t @ r, Some (length (rstrip ?t)))"
    proof -
      have "rstrip ?t \<noteq> []" using c unfolding Cons by simp
      moreover obtain r where "trim_loop ([] @ ?q @ ?t) (length ?q) (length []) True None =
          ([] @ ?t @ r, if rstrip ?t = [] then None else Some (length [] + length (rstrip ?t)))"
        using trim_loop_moves [of "length ?q" "[]" ?q ?t None] by auto
      ultimately show thesis using that [of r] by simp
    qed
    finally have "loc_util_trim_space s = rstrip ?t"
      using skip rstrip_prefix [of ?t] rstrip_length [of ?t] by (simp add: loc_util_trim_space_def)
    moreover have "\<not> (\<forall>c \<in> set s. isspace c)" using Cons c by (metis dropWhile_eq_Nil_conv list.distinct(1))
    ultimately show ?thesis unfolding strip_def by (simp only: if_False)
  qed
qed

text \<open>The reference for the splitting.\<close>

fun splits :: "char \<Rightarrow> string \<Rightarrow> string list" where
  "splits d [] = [[]]"
| "splits d (c # cs) = (if c = d then [] # splits d cs else (c # hd (splits d cs)) # tl (splits d cs))"

lemma splits_ne [simp]: "splits d s \<noteq> []"
  by (cases s) auto

lemma splits_append: "d \<notin> set cur \<Longrightarrow> splits d (cur @ r) = (cur @ hd (splits d r)) # tl (splits d r)"
  by (induction cur) auto

lemma cstr_at_here:
  "CHR 0x00 \<notin> set cur \<Longrightarrow> cstr_at (pre @ cur @ CHR 0x00 # r) (length pre) = cur"
  "CHR 0x00 \<notin> set cur \<Longrightarrow> cstr_at (pre @ cur) (length pre) = cur"
proof -
  assume "CHR 0x00 \<notin> set cur"
  then have "\<forall>c \<in> set cur. c \<noteq> CHR 0x00" by auto
  then show "cstr_at (pre @ cur @ CHR 0x00 # r) (length pre) = cur" "cstr_at (pre @ cur) (length pre) = cur"
    by (simp_all add: cstr_at_def takeWhile_eq_all_conv)
qed

lemma split_loop_splits:
  "length pre + length cur = i \<Longrightarrow> CHR 0x00 \<notin> set (cur @ rest) \<Longrightarrow> d \<notin> set cur \<Longrightarrow> ptrs \<noteq> [] \<Longrightarrow>
   \<exists>tail new. split_loop d maxn i rest (pre @ cur @ rest) ptrs = (pre @ tail, ptrs @ new) \<and>
     map (cstr_at (pre @ tail)) (length pre # new) = take (Suc (nat maxn - length ptrs)) (splits d (cur @ rest))"
proof (induction rest arbitrary: pre cur i ptrs)
  case Nil
  then show ?case using cstr_at_here(2) [of cur pre] splits_append [of d cur "[]"] by simp
next
  case (Cons c rest)
  show ?case
  proof (cases "c = d")
    case False
    have "length pre + length (cur @ [c]) = Suc i" using Cons.prems(1) by simp
    from Cons.IH [OF this, of ptrs] Cons.prems False obtain tail new where
      "split_loop d maxn (Suc i) rest (pre @ (cur @ [c]) @ rest) ptrs = (pre @ tail, ptrs @ new)"
      "map (cstr_at (pre @ tail)) (length pre # new) = take (Suc (nat maxn - length ptrs)) (splits d ((cur @ [c]) @ rest))"
      by auto
    with False show ?thesis by (intro exI [of _ tail] exI [of _ new]) simp
  next
    case True
    have upd: "(pre @ cur @ c # rest)[i := CHR 0x00] = (pre @ cur @ [CHR 0x00]) @ [] @ rest"
      using Cons.prems(1) list_update_length [of "pre @ cur" c rest "CHR 0x00"] by simp
    have sp: "splits d (cur @ c # rest) = cur # splits d rest" using True Cons.prems(3) by (simp add: splits_append)
    show ?thesis
    proof (cases "int (length ptrs) < maxn")
      case more: True
      let ?pre = "pre @ cur @ [CHR 0x00]"
      have "length ?pre + length [] = Suc i" using Cons.prems(1) by simp
      from Cons.IH [OF this, of "ptrs @ [Suc i]"] Cons.prems obtain tail new where
        IH: "split_loop d maxn (Suc i) rest (?pre @ [] @ rest) (ptrs @ [Suc i]) = (?pre @ tail, (ptrs @ [Suc i]) @ new)"
        "map (cstr_at (?pre @ tail)) (length ?pre # new) = take (Suc (nat maxn - length (ptrs @ [Suc i]))) (splits d rest)"
        by auto
      have len: "length ?pre = Suc i" using Cons.prems(1) by simp
      have n: "Suc (nat maxn - length ptrs) = Suc (Suc (nat maxn - length (ptrs @ [Suc i])))" using more by simp
      have "cstr_at (?pre @ tail) (length pre) = cur" using cstr_at_here(1) [of cur pre tail] Cons.prems(2) by simp
      then have "map (cstr_at (pre @ (cur @ [CHR 0x00] @ tail))) (length pre # Suc i # new) =
          take (Suc (nat maxn - length ptrs)) (splits d (cur @ c # rest))"
        using IH(2) len unfolding sp n by simp
      moreover have "split_loop d maxn i (c # rest) (pre @ cur @ c # rest) ptrs =
          (pre @ (cur @ [CHR 0x00] @ tail), ptrs @ Suc i # new)"
        using True more upd IH(1) by simp
      ultimately show ?thesis by blast
    next
      case False
      then have n: "Suc (nat maxn - length ptrs) = 1" by simp
      have "split_loop d maxn i (c # rest) (pre @ cur @ c # rest) ptrs = (pre @ (cur @ CHR 0x00 # rest), ptrs @ [])"
        using True False upd by simp
      moreover have "map (cstr_at (pre @ (cur @ CHR 0x00 # rest))) [length pre] = take 1 (splits d (cur @ c # rest))"
        using cstr_at_here(1) [of cur pre rest] Cons.prems(2) sp by simp
      ultimately show ?thesis using n by metis
    qed
  qed
qed

lemma cfg_string_helpers_parts:
  assumes "CHR 0x00 \<notin> set s"
  shows "case loc_util_split_string (Some s) maxn d of
      (n, buf, ptrs) \<Rightarrow> n = int (length ptrs) \<and> map (cstr_at buf) ptrs = take (max 1 (nat maxn)) (splits d s)"
    and "loc_util_trim_space s = (if \<forall>c \<in> set s. isspace c then s else strip s)"
proof -
  obtain tail new where l: "split_loop d maxn 0 s s [0] = (tail, [0] @ new)"
    "map (cstr_at tail) (0 # new) = take (Suc (nat maxn - 1)) (splits d s)"
    using split_loop_splits [of "[]" "[]" 0 s d "[0]" maxn] assms by auto
  have "Suc (nat maxn - 1) = max 1 (nat maxn)" by simp
  with l show "case loc_util_split_string (Some s) maxn d of
      (n, buf, ptrs) \<Rightarrow> n = int (length ptrs) \<and> map (cstr_at buf) ptrs = take (max 1 (nat maxn)) (splits d s)"
    by (simp add: loc_util_split_string_def)
  show "loc_util_trim_space s = (if \<forall>c \<in> set s. isspace c then s else strip s)" by (rule trim_space_strip)
qed

text \<open>
  The string helpers agree with functions on lists. \<open>loc_util_split_string\<close> returns as many
  substrings as it has stored, and they are the first \<open>max_num_substrings\<close> fields between the
  delimiters, empty ones included, in order (one field even if the caller asked for none);
  \<open>loc_util_trim_space\<close> removes the leading and trailing spaces, in place, except that a string of
  spaces only is left as it is.
\<close>

theorem cfg_string_helpers:
  assumes "CHR 0x00 \<notin> set s"
  shows "(case loc_util_split_string (Some s) maxn d of
      (n, buf, ptrs) \<Rightarrow> n = int (length ptrs) \<and> map (cstr_at buf) ptrs = take (max 1 (nat maxn)) (splits d s)) \<and>
    loc_util_trim_space s = (if \<forall>c \<in> set s. isspace c then s else strip s)"
  by (intro conjI cfg_string_helpers_parts [OF assms])

lemma cfg_string_helpers_witness:
  "(case loc_util_split_string (Some ''hello  new user'') 3 (CHR '' '') of
      (n, buf, ptrs) \<Rightarrow> n = int (length ptrs) \<and> map (cstr_at buf) ptrs = [''hello'', [], ''new'']) \<and>
   loc_util_trim_space ''  NMEA  '' = ''NMEA''"
proof -
  have e: "take (max 1 (nat 3)) (splits (CHR '' '') ''hello  new user'') = [''hello'', [], ''new'']" by code_simp
  have t: "\<not> (\<forall>c \<in> set ''  NMEA  ''. isspace c)" by code_simp
  have st: "strip ''  NMEA  '' = ''NMEA''" by code_simp
  have n: "CHR 0x00 \<notin> set ''hello  new user''" by code_simp
  have n2: "CHR 0x00 \<notin> set ''  NMEA  ''" by code_simp
  show ?thesis
    using cfg_string_helpers [OF n, of 3 "CHR '' ''"] cfg_string_helpers [OF n2] e t st by simp
qed

section \<open>A line of the configuration\<close>

text \<open>The entries that a value is for.\<close>

definition matches :: "'d loc_param_v_type \<Rightarrow> loc_param_s_type \<Rightarrow> bool" where
  "matches v e \<longleftrightarrow> param_ptr e \<noteq> None \<and> param_name e = v_name v \<and> param_type e \<in> {CHR ''s'', CHR ''n'', CHR ''f''}"

lemma config_value_None: "config_value ty v = None \<longleftrightarrow> ty \<notin> {CHR ''s'', CHR ''n'', CHR ''f''}"
  by (simp add: config_value_def)

lemma vars_set_flag [simp]: "vars (set_flag p b m) = vars m"
  by (simp add: set_flag_def split: option.splits)

lemma set_config_entry_matches:
  "matches v e \<Longrightarrow> param_ptr e = Some a \<Longrightarrow>
     fst (loc_set_config_entry e v m) = 0 \<and>
     vars (snd (loc_set_config_entry e v m)) = (vars m)(a := config_value (param_type e) v)"
  by (auto simp: loc_set_config_entry_def matches_def config_value_None split: option.splits)

lemma set_config_entry_not:
  "\<not> matches v e \<Longrightarrow> loc_set_config_entry e v m = (-1, m)"
  by (auto simp: loc_set_config_entry_def matches_def config_value_def split: option.splits)

lemma set_entries_count: "fst (set_entries table v m) = int (length (filter (matches v) table))"
proof (induction table arbitrary: m)
  case (Cons e es)
  show ?case
  proof (cases "matches v e")
    case True
    then obtain a where "param_ptr e = Some a" by (auto simp: matches_def)
    with set_config_entry_matches [OF True this, of m] Cons True show ?thesis by (simp add: Let_def split_def)
  next
    case False
    with Cons show ?thesis by (simp add: set_config_entry_not split_def)
  qed
qed simp

text \<open>With distinct variables, exactly the matching ones get the value of their type.\<close>

lemma set_entries_other:
  "\<forall>e \<in> set table. matches v e \<longrightarrow> param_ptr e \<noteq> Some a \<Longrightarrow> vars (snd (set_entries table v m)) a = vars m a"
proof (induction table arbitrary: m)
  case (Cons e es)
  show ?case
  proof (cases "matches v e")
    case True
    then obtain b where b: "param_ptr e = Some b" by (auto simp: matches_def)
    with True Cons.prems have "b \<noteq> a" by auto
    with set_config_entry_matches [OF True b, of m] Cons show ?thesis by (simp add: Let_def split_def)
  next
    case False
    with Cons show ?thesis by (simp add: set_config_entry_not split_def)
  qed
qed simp

lemma set_entries_vars:
  assumes "distinct (map param_ptr table)" "e \<in> set table" "matches v e" "param_ptr e = Some a"
  shows "vars (snd (set_entries table v m)) a = config_value (param_type e) v"
  using assms
proof (induction table arbitrary: m)
  case (Cons x es)
  show ?case
  proof (cases "x = e")
    case True
    have "\<forall>y \<in> set es. matches v y \<longrightarrow> param_ptr y \<noteq> Some a"
      using Cons.prems True by (metis distinct.simps(2) image_eqI list.set_map list.simps(9))
    from set_entries_other [OF this] set_config_entry_matches [OF Cons.prems(3,4), of m] True
    show ?thesis by (simp add: Let_def split_def)
  next
    case False
    with Cons show ?thesis by (simp add: split_def Let_def)
  qed
qed simp

lemma set_entries_unmatched:
  "filter (matches v) table = [] \<Longrightarrow> set_entries table v m = (0, m)"
  by (induction table arbitrary: m) (auto simp: set_config_entry_not split: if_splits)

text \<open>What a line is split into.\<close>

definition line_parts :: "string \<Rightarrow> (string \<times> string) option" where
  "line_parts l =
     (case strtok (CHR ''='') l of
        None \<Rightarrow> None
      | Some (name, r) \<Rightarrow> (case strtok (CHR ''='') r of None \<Rightarrow> None
                           | Some (val, _) \<Rightarrow> Some (loc_util_trim_space name, loc_util_trim_space val)))"

lemma fill_line_parts:
  "loc_fill_conf_item bits zero atof l (Some table) m =
     (case line_parts l of None \<Rightarrow> (0, m) | Some (n, v) \<Rightarrow> set_entries table (parse_value bits zero atof n v) m)"
  by (simp add: loc_fill_conf_item_def line_parts_def split: option.splits)

lemma v_name_parse [simp]: "v_name (parse_value bits zero atof n v) = n"
  by (simp add: parse_value_def)

lemma matches_parse: "matches (parse_value bits zero atof n v) = matches \<lparr>v_name = n, v_str = v, v_int = 0, v_double = zero\<rparr>"
  by (rule ext) (simp add: matches_def)

text \<open>The number of entries that a line sets, which does not depend on the values.\<close>

definition line_matches :: "loc_param_s_type list \<Rightarrow> string \<Rightarrow> nat" where
  "line_matches table l =
     (case line_parts l of None \<Rightarrow> 0
      | Some (n, v) \<Rightarrow> length (filter (matches \<lparr>v_name = n, v_str = v, v_int = 0, v_double = ()\<rparr>) table))"

lemma fill_count: "fst (loc_fill_conf_item bits zero atof l (Some table) m) = int (line_matches table l)"
proof -
  have "matches (parse_value bits zero atof n v) = matches \<lparr>v_name = n, v_str = v, v_int = 0, v_double = ()\<rparr>" for n v
    by (rule ext) (simp add: matches_def)
  then show ?thesis by (simp add: fill_line_parts line_matches_def set_entries_count split: option.splits)
qed

lemma fill_unmatched: "line_matches table l = 0 \<Longrightarrow> loc_fill_conf_item bits zero atof l (Some table) m = (0, m)"
proof -
  assume z: "line_matches table l = 0"
  have "matches (parse_value bits zero atof n v) = matches \<lparr>v_name = n, v_str = v, v_int = 0, v_double = ()\<rparr>" for n v
    by (rule ext) (simp add: matches_def)
  with z show ?thesis
    by (auto simp: fill_line_parts line_matches_def set_entries_unmatched split: option.splits)
qed

section \<open>Printing and reading a number\<close>

fun show_nat :: "nat \<Rightarrow> string" where
  "show_nat n = (if n < 10 then [char_of (48 + n)] else show_nat (n div 10) @ [char_of (48 + n mod 10)])"

declare show_nat.simps [simp del]

definition show_int :: "int \<Rightarrow> string" where
  "show_int n = (if n < 0 then CHR ''-'' # show_nat (nat (- n)) else show_nat (nat n))"

definition is_digit :: "char \<Rightarrow> bool" where
  "is_digit c \<longleftrightarrow> 48 \<le> (of_char c :: nat) \<and> (of_char c :: nat) \<le> 57"

lemma is_digit_char: "v < 10 \<Longrightarrow> is_digit (char_of (48 + v :: nat))"
  by (simp add: is_digit_def of_char_of)

lemma show_nat_digits: "\<forall>c \<in> set (show_nat n). is_digit c"
proof (induction n rule: show_nat.induct)
  case (1 n)
  then show ?case by (subst show_nat.simps) (simp add: is_digit_char)
qed

lemma show_nat_ne: "show_nat n \<noteq> []"
  by (subst show_nat.simps) simp

lemma digit_val_digit: "v < 10 \<Longrightarrow> digit_val (char_of (48 + v :: nat)) = Some v"
  by (simp add: digit_val_def tolower_def of_char_of)

lemma digits_value_snoc:
  "\<forall>c \<in> set xs. is_digit c \<Longrightarrow> v < 10 \<Longrightarrow>
     digits_value 10 acc (xs @ [char_of (48 + v)]) = digits_value 10 acc xs * 10 + v"
proof (induction xs arbitrary: acc)
  case Nil
  then show ?case by (simp add: digit_val_digit)
next
  case (Cons c xs)
  define w where "w = (of_char c :: nat) - 48"
  have "is_digit c" using Cons.prems(1) by simp
  then have "c = char_of (48 + w :: nat)" "w < 10" by (auto simp: is_digit_def w_def)
  then have "digit_val c = Some w" "w < 10" using digit_val_digit by metis+
  with Cons show ?case by simp
qed

lemma digits_value_show_nat: "digits_value 10 0 (show_nat n) = n"
proof (induction n rule: show_nat.induct)
  case (1 n)
  show ?case
  proof (cases "n < 10")
    case True
    then show ?thesis by (subst show_nat.simps) (simp add: digit_val_digit)
  next
    case False
    with 1 digits_value_snoc [of "show_nat (n div 10)" "n mod 10" 0] show_nat_digits show ?thesis
      by (subst show_nat.simps) simp
  qed
qed

lemma is_digit_facts:
  assumes "is_digit c"
  shows "\<not> isspace c" "c \<noteq> CHR ''-''" "c \<noteq> CHR ''+''" "c \<noteq> CHR ''=''" "tolower c \<noteq> CHR ''x''"
  using assms by (auto simp: is_digit_def isspace_def tolower_def)

lemma atoi_show_int:
  assumes "32 \<le> bits" "- (2 ^ 31) \<le> n" "n < 2 ^ 31"
  shows "atoi bits (show_int n) = n"
proof -
  obtain c cs where sn: "show_nat (nat \<bar>n\<bar>) = c # cs" using show_nat_ne by (cases "show_nat (nat \<bar>n\<bar>)") auto
  have c: "is_digit c" using show_nat_digits [of "nat \<bar>n\<bar>"] sn by simp
  note f = is_digit_facts [OF c]
  have v: "digits_value 10 0 (skip_prefix 10 (c # cs)) = nat \<bar>n\<bar>"
    using digits_value_show_nat [of "nat \<bar>n\<bar>"] sn by (auto simp: skip_prefix_def split: list.splits)
  have p: "(2 :: int) ^ 31 \<le> 2 ^ (bits - 1)" using assms(1) by (intro power_increasing) auto
  have "strtol bits 10 (show_int n) = max (- (2 ^ (bits - 1))) (min (2 ^ (bits - 1) - 1) n)"
  proof (cases "n < 0")
    case True
    then have "show_int n = CHR ''-'' # c # cs" using sn by (simp add: show_int_def)
    with v True show ?thesis by (simp add: strtol_def Let_def isspace_def)
  next
    case False
    then have "show_int n = c # cs" using sn by (simp add: show_int_def)
    with v False f show ?thesis by (simp add: strtol_def Let_def)
  qed
  also have "\<dots> = n" using assms(2,3) p by simp
  finally show ?thesis using assms(2,3) by (simp add: atoi_def c_int32_id)
qed

lemma signed_digits_facts:
  assumes "\<forall>c \<in> set d. is_digit c" "d \<noteq> []" "s = d \<or> s = CHR ''-'' # d"
  shows "s \<noteq> []" "\<not> isspace (hd s)" "\<not> isspace (last s)" "CHR ''='' \<notin> set s"
    "\<not> (3 \<le> length s \<and> s ! 0 = CHR ''0'' \<and> tolower (s ! 1) = CHR ''x'')"
proof -
  have h: "is_digit (hd d)" "is_digit (last d)" using assms(1,2) by simp_all
  have m: "\<not> isspace (CHR ''-'')" by code_simp
  have e: "CHR ''='' \<notin> set d" using assms(1) is_digit_facts(4) by blast
  have x: "\<not> (3 \<le> length d \<and> d ! 0 = CHR ''0'' \<and> tolower (d ! 1) = CHR ''x'')"
  proof
    assume a: "3 \<le> length d \<and> d ! 0 = CHR ''0'' \<and> tolower (d ! 1) = CHR ''x''"
    then have "d ! 1 \<in> set d" by simp
    with assms(1) a is_digit_facts(5) show False by blast
  qed
  show "s \<noteq> []" using assms(2,3) by auto
  show "\<not> isspace (hd s)" using assms(3) is_digit_facts(1) [OF h(1)] m by auto
  show "\<not> isspace (last s)" using assms(2,3) is_digit_facts(1) [OF h(2)] by auto
  show "CHR ''='' \<notin> set s" using assms(3) e by auto
  show "\<not> (3 \<le> length s \<and> s ! 0 = CHR ''0'' \<and> tolower (s ! 1) = CHR ''x'')"
    using assms(3)
  proof
    assume "s = d"
    with x show ?thesis by simp
  next
    assume "s = CHR ''-'' # d"
    then show ?thesis by simp
  qed
qed

lemma show_int_facts:
  "show_int n \<noteq> []" "\<not> isspace (hd (show_int n))" "\<not> isspace (last (show_int n))" "CHR ''='' \<notin> set (show_int n)"
  "\<not> (3 \<le> length (show_int n) \<and> show_int n ! 0 = CHR ''0'' \<and> tolower (show_int n ! 1) = CHR ''x'')"
proof -
  obtain k where k: "show_int n = show_nat k \<or> show_int n = CHR ''-'' # show_nat k"
    by (cases "n < 0") (auto simp: show_int_def)
  note f = signed_digits_facts [OF show_nat_digits show_nat_ne k]
  show "show_int n \<noteq> []" "\<not> isspace (hd (show_int n))" "\<not> isspace (last (show_int n))" "CHR ''='' \<notin> set (show_int n)"
    "\<not> (3 \<le> length (show_int n) \<and> show_int n ! 0 = CHR ''0'' \<and> tolower (show_int n ! 1) = CHR ''x'')"
    by (rule f)+
qed

lemma strtok_at: "x \<noteq> [] \<Longrightarrow> d \<notin> set x \<Longrightarrow> strtok d (x @ d # y) = Some (x, y)"
proof -
  assume x: "x \<noteq> []" "d \<notin> set x"
  then have h: "hd x \<noteq> d" by (cases x) auto
  have a: "\<forall>c \<in> set x. c \<noteq> d" using x(2) by auto
  obtain c cs where "x = c # cs" using x(1) by (cases x) auto
  with h have "dropWhile (\<lambda>c. c = d) (x @ d # y) = x @ d # y" by simp
  with x a show ?thesis by (simp add: strtok_def takeWhile_append2 dropWhile_append2)
qed

lemma strtok_end: "x \<noteq> [] \<Longrightarrow> d \<notin> set x \<Longrightarrow> strtok d x = Some (x, [])"
proof -
  assume x: "x \<noteq> []" "d \<notin> set x"
  have a: "\<forall>c \<in> set x. c \<noteq> d" using x(2) by auto
  obtain c cs where "x = c # cs" using x(1) by (cases x) auto
  with x have "dropWhile (\<lambda>c. c = d) x = x" by auto
  moreover have tw: "takeWhile (\<lambda>c. c \<noteq> d) x = x" using a by simp
  moreover have dw: "dropWhile (\<lambda>c. c \<noteq> d) x = []" using a by simp
  ultimately show ?thesis using x(1) by (simp add: strtok_def tw dw)
qed

abbreviation spaces :: "string \<Rightarrow> bool" where
  "spaces p \<equiv> \<forall>c \<in> set p. isspace c"

lemma spaces_no_eq: "spaces p \<Longrightarrow> CHR ''='' \<notin> set p"
proof -
  have "\<not> isspace (CHR ''='')" by code_simp
  then show "spaces p \<Longrightarrow> CHR ''='' \<notin> set p" by blast
qed

lemma trim_padded:
  assumes "spaces p" "spaces q" "s \<noteq> []" "\<not> isspace (hd s)" "\<not> isspace (last s)"
  shows "loc_util_trim_space (p @ s @ q) = s"
proof -
  obtain c cs where s: "s = c # cs" using assms(3) by (cases s) auto
  have "dropWhile isspace (p @ s @ q) = s @ q"
    using assms(1,4) s by (simp add: dropWhile_append2)
  moreover have "rstrip (s @ q) = s" using rstrip_append_spaces [OF assms(2), of s] rstrip_id [of s] assms(5) by simp
  moreover have "\<not> spaces (p @ s @ q)" using assms(4) s by auto
  ultimately show ?thesis unfolding trim_space_strip strip_def by (simp only: if_False)
qed

text \<open>A well-formed line.\<close>

definition plain :: "string \<Rightarrow> bool" where
  "plain s \<longleftrightarrow> s \<noteq> [] \<and> \<not> isspace (hd s) \<and> \<not> isspace (last s) \<and> CHR ''='' \<notin> set s"

lemma line_parts_plain:
  assumes "spaces p1" "spaces p2" "spaces p3" "spaces p4" "plain name" "plain val"
  shows "line_parts (p1 @ name @ p2 @ ''='' @ p3 @ val @ p4) = Some (name, val)"
proof -
  have "strtok (CHR ''='') ((p1 @ name @ p2) @ CHR ''='' # p3 @ val @ p4) = Some (p1 @ name @ p2, p3 @ val @ p4)"
    using assms spaces_no_eq by (intro strtok_at) (auto simp: plain_def)
  moreover have "strtok (CHR ''='') (p3 @ val @ p4) = Some (p3 @ val @ p4, [])"
    using assms spaces_no_eq by (intro strtok_end) (auto simp: plain_def)
  ultimately show ?thesis using assms by (simp add: line_parts_def trim_padded plain_def)
qed

lemma cfg_number_roundtrip_parts:
  assumes "spaces p1" "spaces p2" "spaces p3" "spaces p4" "plain name"
    and "32 \<le> bits" "- (2 ^ 31) \<le> n" "n < 2 ^ 31"
    and "distinct (map param_ptr table)"
    and "r = loc_fill_conf_item bits zero atof (p1 @ name @ p2 @ ''='' @ p3 @ show_int n @ p4) (Some table) m"
  shows "\<forall>e \<in> set table. param_name e = name \<and> param_type e = CHR ''n'' \<and> param_ptr e = Some a \<longrightarrow>
      vars (snd r) a = Some (VInt n)"
    and "(\<forall>e \<in> set table. param_name e = name \<longrightarrow> param_ptr e \<noteq> Some a) \<Longrightarrow> vars (snd r) a = vars m a"
    and "fst r = int (length (filter (\<lambda>e. param_ptr e \<noteq> None \<and> param_name e = name \<and>
           param_type e \<in> {CHR ''s'', CHR ''n'', CHR ''f''}) table))"
proof -
  have "plain (show_int n)" using show_int_facts [of n] by (simp add: plain_def)
  from line_parts_plain [OF assms(1-5) this] have
    r: "r = set_entries table (parse_value bits zero atof name (show_int n)) m"
    by (simp add: assms(10) fill_line_parts)
  let ?v = "parse_value bits zero atof name (show_int n)"
  have iv: "v_int ?v = n"
    using show_int_facts(5) [of n] atoi_show_int [OF assms(6-8)] by (auto simp: parse_value_def)
  show "\<forall>e \<in> set table. param_name e = name \<and> param_type e = CHR ''n'' \<and> param_ptr e = Some a \<longrightarrow>
      vars (snd r) a = Some (VInt n)"
    using set_entries_vars [OF assms(9), of _ ?v a m] iv by (auto simp: r matches_def config_value_def)
  show "(\<forall>e \<in> set table. param_name e = name \<longrightarrow> param_ptr e \<noteq> Some a) \<Longrightarrow> vars (snd r) a = vars m a"
    unfolding r by (rule set_entries_other) (auto simp: matches_def)
  have "matches ?v = (\<lambda>e. param_ptr e \<noteq> None \<and> param_name e = name \<and>
           param_type e \<in> {CHR ''s'', CHR ''n'', CHR ''f''})"
    by (rule ext) (simp add: matches_def)
  then show "fst r = int (length (filter (\<lambda>e. param_ptr e \<noteq> None \<and> param_name e = name \<and>
           param_type e \<in> {CHR ''s'', CHR ''n'', CHR ''f''}) table))"
    using set_entries_count [of table ?v m] r by simp
qed

text \<open>
  A number printed in decimal is read back: for a table of distinct variables, the line
  \<open>NAME = n\<close>, with any spaces around the two operands, stores \<open>n\<close>, for every \<open>n\<close> of type int, in the
  variable of each number entry of that name, leaves the variables of all other names as they are,
  and returns the number of entries of that name.
\<close>

theorem cfg_number_roundtrip:
  assumes "spaces p1" "spaces p2" "spaces p3" "spaces p4" "plain name"
    and "32 \<le> bits" "- (2 ^ 31) \<le> n" "n < 2 ^ 31"
    and "distinct (map param_ptr table)"
    and "r = loc_fill_conf_item bits zero atof (p1 @ name @ p2 @ ''='' @ p3 @ show_int n @ p4) (Some table) m"
  shows "(\<forall>e \<in> set table. param_name e = name \<and> param_type e = CHR ''n'' \<and> param_ptr e = Some a \<longrightarrow>
      vars (snd r) a = Some (VInt n)) \<and>
    ((\<forall>e \<in> set table. param_name e = name \<longrightarrow> param_ptr e \<noteq> Some a) \<longrightarrow> vars (snd r) a = vars m a) \<and>
    fst r = int (length (filter (\<lambda>e. param_ptr e \<noteq> None \<and> param_name e = name \<and>
           param_type e \<in> {CHR ''s'', CHR ''n'', CHR ''f''}) table))"
  using cfg_number_roundtrip_parts [OF assms] by (intro conjI impI)

definition demo_table :: "loc_param_s_type list" where
  "demo_table =
     [\<lparr>param_name = ''A'', param_ptr = Some 1, param_set = Some 11, param_type = CHR ''n''\<rparr>,
      \<lparr>param_name = ''B'', param_ptr = Some 2, param_set = None, param_type = CHR ''n''\<rparr>]"

definition demo_mem :: "unit cfg_mem" where
  "demo_mem = \<lparr>vars = (\<lambda>_. Some (VInt 0)), flags = (\<lambda>_. False)\<rparr>"

lemma cfg_number_roundtrip_witness:
  "vars (snd (loc_fill_conf_item 32 () (\<lambda>_. ()) '' A = -25'' (Some demo_table) demo_mem)) 1 = Some (VInt (-25))"
proof -
  have sp: "spaces '' ''" "spaces []" by code_simp+
  have pl: "plain ''A''" by code_simp
  have d: "distinct (map param_ptr demo_table)" by code_simp
  have s: "show_int (-25) = ''-25''" by code_simp
  have e: "\<lparr>param_name = ''A'', param_ptr = Some 1, param_set = Some 11, param_type = CHR ''n''\<rparr> \<in> set demo_table"
    by (simp add: demo_table_def)
  from bspec [OF conjunct1 [OF cfg_number_roundtrip [OF sp(1) sp(1) sp(1) sp(2) pl _ _ _ d refl, of 32 "-25" 1 "()" "\<lambda>_. ()" demo_mem]] e] s
  show ?thesis by simp
qed

section \<open>The readers\<close>

definition file_of :: "string list \<Rightarrow> string" where
  "file_of lines = concat (map (\<lambda>l. l @ [CHR 0x0A]) lines)"

definition short_line :: "string \<Rightarrow> bool" where
  "short_line l \<longleftrightarrow> CHR 0x0A \<notin> set l \<and> length l + 2 \<le> LOC_MAX_PARAM_LINE"

text \<open>The number of entries the lines set, and their effect one after the other.\<close>

definition count_matches :: "loc_param_s_type list \<Rightarrow> string list \<Rightarrow> nat" where
  "count_matches table lines = sum_list (map (\<lambda>l. line_matches table (l @ [CHR 0x0A])) lines)"

definition fill_lines ::
  "nat \<Rightarrow> 'd \<Rightarrow> (string \<Rightarrow> 'd) \<Rightarrow> loc_param_s_type list \<Rightarrow> string list \<Rightarrow> 'd cfg_mem \<Rightarrow> 'd cfg_mem" where
  "fill_lines bits zero atof table lines m =
     fold (\<lambda>l m. snd (loc_fill_conf_item bits zero atof (l @ [CHR 0x0A]) (Some table) m)) lines m"

lemma fgets_line: "short_line l \<Longrightarrow> fgets LOC_MAX_PARAM_LINE (l @ CHR 0x0A # r) = Some (l @ [CHR 0x0A], r)"
proof -
  assume s: "short_line l"
  then have a: "\<forall>c \<in> set l. c \<noteq> CHR 0x0A" by (auto simp: short_line_def)
  have "takeWhile (\<lambda>c. c \<noteq> CHR 0x0A) (l @ CHR 0x0A # r) = l" using a by (simp add: takeWhile_append2)
  moreover have "length l + 2 \<le> LOC_MAX_PARAM_LINE" using s by (simp add: short_line_def)
  ultimately show ?thesis by (simp add: fgets_def Let_def)
qed

lemma word_minus_count: "n \<le> k \<Longrightarrow> (of_nat k :: 32 word) - word_of_int (int n) = of_nat (k - n)"
  by (simp add: of_nat_diff)

lemma num_params_zero: "k < 2 ^ 32 \<Longrightarrow> (of_nat k :: 32 word) = 0 \<longleftrightarrow> k = 0"
  by (auto simp: word_of_nat_eq_0_iff dest: nat_dvd_not_less)

lemma read_loop_line:
  assumes "short_line l" "0 < k" "k < 2 ^ 32" "line_matches table (l @ [CHR 0x0A]) \<le> k"
  shows "read_loop bits zero atof (Some table) (of_nat k) (l @ CHR 0x0A # r) m =
    read_loop bits zero atof (Some table) (of_nat (k - line_matches table (l @ [CHR 0x0A]))) r
      (snd (loc_fill_conf_item bits zero atof (l @ [CHR 0x0A]) (Some table) m))"
proof -
  obtain n m' where f: "loc_fill_conf_item bits zero atof (l @ [CHR 0x0A]) (Some table) m = (n, m')" by fastforce
  then have "n = int (line_matches table (l @ [CHR 0x0A]))"
    using fill_count [of bits zero atof "l @ [CHR 0x0A]" table m] by simp
  with f show ?thesis
    using assms num_params_zero [of k] word_minus_count [OF assms(4)]
    by (subst read_loop.simps) (simp add: fgets_line)
qed

lemma read_loop_prefix:
  "\<forall>l \<in> set lines. short_line l \<Longrightarrow> k < 2 ^ 32 \<Longrightarrow> count_matches table lines \<le> k \<Longrightarrow>
   lines = [] \<or> count_matches table (butlast lines) < k \<Longrightarrow>
   read_loop bits zero atof (Some table) (of_nat k) (file_of lines @ r) m =
     read_loop bits zero atof (Some table) (of_nat (k - count_matches table lines)) r
       (fill_lines bits zero atof table lines m)"
proof (induction lines arbitrary: k m)
  case Nil
  then show ?case by (simp add: file_of_def count_matches_def fill_lines_def)
next
  case (Cons l ls)
  let ?n = "line_matches table (l @ [CHR 0x0A])"
  let ?m = "snd (loc_fill_conf_item bits zero atof (l @ [CHR 0x0A]) (Some table) m)"
  have n: "?n + count_matches table ls \<le> k" using Cons.prems(3) by (simp add: count_matches_def)
  have k: "0 < k" using Cons.prems(4) by (cases ls) (auto simp: count_matches_def)
  have c: "ls = [] \<or> count_matches table (butlast ls) < k - ?n"
    using Cons.prems(4) by (cases ls) (auto simp: count_matches_def)
  have "read_loop bits zero atof (Some table) (of_nat k) (file_of (l # ls) @ r) m =
      read_loop bits zero atof (Some table) (of_nat (k - ?n)) (file_of ls @ r) ?m"
    using read_loop_line [of l k table bits zero atof "file_of ls @ r" m] Cons.prems k n by (simp add: file_of_def)
  also have "\<dots> = read_loop bits zero atof (Some table) (of_nat (k - ?n - count_matches table ls)) r
      (fill_lines bits zero atof table ls ?m)"
    using Cons.IH [of "k - ?n" ?m] Cons.prems n c by simp
  finally show ?case by (simp add: count_matches_def fill_lines_def diff_diff_eq)
qed

lemma fill_lines_unmatched: "count_matches table lines = 0 \<Longrightarrow> fill_lines bits zero atof table lines m = m"
  by (induction lines arbitrary: m) (auto simp: count_matches_def fill_lines_def fill_unmatched)

lemma read_loop_none [simp]: "read_loop bits zero atof table num_params [] m = ([], m)"
  by (subst read_loop.simps) (simp add: fgets_def)

lemma read_loop_zero [simp]: "read_loop bits zero atof table 0 f m = (f, m)"
  by (subst read_loop.simps) simp

lemma read_loop_all:
  "\<forall>l \<in> set lines. short_line l \<Longrightarrow> k < 2 ^ 32 \<Longrightarrow> count_matches table lines \<le> k \<Longrightarrow>
   snd (read_loop bits zero atof (Some table) (of_nat k) (file_of lines) m) = fill_lines bits zero atof table lines m"
proof (induction lines arbitrary: k m)
  case Nil
  then show ?case by (simp add: file_of_def fill_lines_def)
next
  case (Cons l ls)
  let ?n = "line_matches table (l @ [CHR 0x0A])"
  let ?m = "snd (loc_fill_conf_item bits zero atof (l @ [CHR 0x0A]) (Some table) m)"
  have n: "?n + count_matches table ls \<le> k" using Cons.prems(3) by (simp add: count_matches_def)
  show ?case
  proof (cases "k = 0")
    case True
    with Cons.prems fill_lines_unmatched [of table "l # ls" bits zero atof m] show ?thesis by simp
  next
    case False
    then have "read_loop bits zero atof (Some table) (of_nat k) (file_of (l # ls)) m =
      read_loop bits zero atof (Some table) (of_nat (k - ?n)) (file_of ls) ?m"
      using read_loop_line [of l k table bits zero atof "file_of ls" m] Cons.prems n by (simp add: file_of_def)
    with Cons.IH [of "k - ?n" ?m] Cons.prems n show ?thesis by (simp add: fill_lines_def)
  qed
qed

text \<open>
  \<open>loc_read_conf_r\<close> reads the whole file, line by line in order, provided that the lines fit its
  buffer and that together they set no more entries than the table has (as when no name occurs
  twice): the variables end up as if \<open>loc_fill_conf_item\<close> had been applied to every line, after the
  validity flags were cleared.
\<close>

theorem cfg_reads_all_lines:
  assumes "\<forall>l \<in> set lines. short_line l" and "length table < 2 ^ 32" and "count_matches table lines \<le> length table"
  shows "fst (loc_read_conf_r bits zero atof (Some (file_of lines)) table m) = 0 \<and>
    snd (snd (loc_read_conf_r bits zero atof (Some (file_of lines)) table m)) =
      fill_lines bits zero atof table lines (clear_flags table m)"
  using read_loop_all [OF assms, of bits zero atof "clear_flags table m"]
  by (simp add: loc_read_conf_r_def split: prod.splits)

lemma cfg_reads_all_lines_witness:
  "vars (snd (snd (loc_read_conf_r 32 () (\<lambda>_. ()) (Some (file_of [''# demo'', ''B = 0x1F'', '' A= 7''])) demo_table demo_mem))) 2 =
     Some (VInt 31)"
proof -
  let ?ls = "[''# demo'', ''B = 0x1F'', '' A= 7'']"
  have s: "\<forall>l \<in> set ?ls. short_line l" by code_simp
  have l: "length demo_table < 2 ^ 32" by (simp add: demo_table_def)
  have c: "count_matches demo_table ?ls \<le> length demo_table" by code_simp
  have v: "vars (fill_lines 32 () (\<lambda>_. ()) demo_table ?ls (clear_flags demo_table demo_mem)) 2 = Some (VInt 31)"
    by code_simp
  from cfg_reads_all_lines [OF s l c, of 32 "()" "\<lambda>_. ()" demo_mem] v show ?thesis by simp
qed

lemma cfg_readers_stop_early_parts:
  assumes "\<forall>l \<in> set lines. short_line l" and "length table < 2 ^ 32" and "count_matches table lines = length table"
    and "lines \<noteq> []" and "0 < line_matches table (last lines @ [CHR 0x0A])"
  shows "loc_read_conf_r bits zero atof (Some (file_of lines @ unread)) table m =
      (0, unread, fill_lines bits zero atof table lines (clear_flags table m))"
    and "length table = 1 \<Longrightarrow> len \<noteq> 0 \<Longrightarrow> loc_update_conf bits zero atof (Some conf) len table True m = (0, m)"
proof -
  have "count_matches table lines = count_matches table (butlast lines) + line_matches table (last lines @ [CHR 0x0A])"
    using append_butlast_last_id [OF assms(4)]
    by (metis (no_types, lifting) count_matches_def list.map(1) list.map(2) map_append sum_list.Cons sum_list.Nil
        sum_list.append add_0_right)
  then have "count_matches table (butlast lines) < length table" using assms(3,5) by simp
  with read_loop_prefix [of lines "length table" table bits zero atof unread "clear_flags table m"] assms
  show "loc_read_conf_r bits zero atof (Some (file_of lines @ unread)) table m =
      (0, unread, fill_lines bits zero atof table lines (clear_flags table m))"
    by (simp add: loc_read_conf_r_def)
  have "update_loop bits zero atof table 0 0 c m = (0, m)" for c by (subst update_loop.simps) simp
  then show "length table = 1 \<Longrightarrow> len \<noteq> 0 \<Longrightarrow> loc_update_conf bits zero atof (Some conf) len table True m = (0, m)"
    by (auto simp: loc_update_conf_def)
qed

text \<open>
  Both readers stop by counting matches, which loses records. \<open>loc_read_conf_r\<close> stops as soon as
  it has set as many entries as the table has, so when a name is repeated all that follows is left
  unread, whatever it is. \<open>loc_update_conf\<close> starts with one record less: it never sets anything in a
  table of one record, and in any table it stops one record early.
\<close>

theorem cfg_readers_stop_early:
  assumes "\<forall>l \<in> set lines. short_line l" and "length table < 2 ^ 32" and "count_matches table lines = length table"
    and "lines \<noteq> []" and "0 < line_matches table (last lines @ [CHR 0x0A])"
  shows "loc_read_conf_r bits zero atof (Some (file_of lines @ unread)) table m =
      (0, unread, fill_lines bits zero atof table lines (clear_flags table m)) \<and>
    (length table = 1 \<longrightarrow> len \<noteq> 0 \<longrightarrow> loc_update_conf bits zero atof (Some conf) len table True m = (0, m))"
  by (intro conjI impI cfg_readers_stop_early_parts [OF assms])

lemma cfg_readers_stop_early_witness:
  "vars (snd (snd (loc_read_conf_r 32 () (\<lambda>_. ()) (Some (file_of [''A=1'', ''A=2''] @ file_of [''B=3''])) demo_table demo_mem))) 2 =
     Some (VInt 0) \<and>
   loc_update_conf 32 () (\<lambda>_. ()) (Some ''A=5'') 3 [demo_table ! 0] True demo_mem = (0, demo_mem)"
proof -
  let ?ls = "[''A=1'', ''A=2'']"
  have s: "\<forall>l \<in> set ?ls. short_line l" by code_simp
  have l: "length demo_table < 2 ^ 32" by (simp add: demo_table_def)
  have c: "count_matches demo_table ?ls = length demo_table" by code_simp
  have z: "0 < line_matches demo_table (last ?ls @ [CHR 0x0A])" by code_simp
  have v: "vars (fill_lines 32 () (\<lambda>_. ()) demo_table ?ls (clear_flags demo_table demo_mem)) 2 = Some (VInt 0)"
    by code_simp
  let ?t = "[demo_table ! 0]"
  have s1: "\<forall>l \<in> set [''A=1'']. short_line l" by code_simp
  have c1: "count_matches ?t [''A=1''] = length ?t" by code_simp
  have z1: "0 < line_matches ?t (last [''A=1''] @ [CHR 0x0A])" by code_simp
  have "loc_update_conf 32 () (\<lambda>_. ()) (Some ''A=5'') 3 ?t True demo_mem = (0, demo_mem)"
    by (rule cfg_readers_stop_early [OF s1 _ c1 _ z1, THEN conjunct2, rule_format]) simp_all
  with cfg_readers_stop_early [OF s l c _ z, of 32 "()" "\<lambda>_. ()" "file_of [''B=3'']" demo_mem] v show ?thesis by simp
qed

end
