(* ===== verification/Loc_Api.thy ===== *)
theory Loc_Api
  imports Loc_Prelude
begin

text \<open>
  The core of the location API: \<open>LocApiBase\<close> (the array of registered adapters, the delivery of
  events to them, the messages it sends to itself, the address decoders and the capability
  tests), \<open>ContextBase::getCarrierCapabilities\<close> and the two contexts of \<open>LocDualContext\<close>.

  \<^item> An adapter is an address; its event mask is given by \<open>masks\<close>. The array \<open>mLocAdapters\<close> is a list of
    ten pointers. The virtual \<open>open\<close> and \<open>close\<close>, which the modem specific subclass implements
    outside this repository, are recorded in \<open>calls\<close>.
  \<^item> A message sent to the message task is appended to \<open>msgs\<close> and processed by \<open>api_proc\<close>.
  \<^item> Shown: the array implements a bounded set of adapters without holes, every event reaches every
    adapter once or exactly the adapters up to the first that handles it, the decoders compute what
    their formats say within their buffers; a run ends with the API open and no adapter.
\<close>

section \<open>The registered adapters\<close>

definition MAX_ADAPTERS :: nat where "MAX_ADAPTERS = 10"
definition MAX_FEATURE_LENGTH :: nat where "MAX_FEATURE_LENGTH = 100"

datatype api_msg = LocOpenMsg "32 word" | LocSsrMsg

datatype api_call = Open "32 word" | Close

record loc_api =
  mLocAdapters :: "ptr list"
  mExcludedMask :: "32 word"
  mSupportedMsg :: "64 word"
  mFeaturesSupported :: "8 word list"
  msgs :: "api_msg list"
  calls :: "api_call list"

definition loc_api_new :: "32 word \<Rightarrow> loc_api" where
  "loc_api_new excludedMask =
     \<lparr>mLocAdapters = replicate MAX_ADAPTERS None, mExcludedMask = excludedMask, mSupportedMsg = 0,
      mFeaturesSupported = replicate MAX_FEATURE_LENGTH 0, msgs = [], calls = []\<rparr>"

text \<open>The adapters that the macro \<open>TO_ALL_ADAPTERS\<close> visits, in its order.\<close>

function to_all_adapters :: "ptr list \<Rightarrow> nat \<Rightarrow> nat list" where
  "to_all_adapters arr i =
     (if i < MAX_ADAPTERS then (case arr ! i of None \<Rightarrow> [] | Some a \<Rightarrow> a # to_all_adapters arr (Suc i)) else [])"
  by pat_completeness auto
termination
  by (relation "measure (\<lambda>(_, i). MAX_ADAPTERS - i)") auto

text \<open>The adapters that \<open>TO_1ST_HANDLING_ADAPTER\<close> calls; \<open>handles\<close> is the result of the call.\<close>

function to_1st_handling :: "(nat \<Rightarrow> bool) \<Rightarrow> ptr list \<Rightarrow> nat \<Rightarrow> nat list" where
  "to_1st_handling handles arr i =
     (if i < MAX_ADAPTERS then
        (case arr ! i of
           None \<Rightarrow> []
         | Some a \<Rightarrow> a # (if handles a then [] else to_1st_handling handles arr (Suc i)))
      else [])"
  by pat_completeness auto
termination
  by (relation "measure (\<lambda>(_, _, i). MAX_ADAPTERS - i)") auto

declare to_all_adapters.simps [simp del] to_1st_handling.simps [simp del]

definition getEvtMask :: "(nat \<Rightarrow> 32 word) \<Rightarrow> loc_api \<Rightarrow> 32 word" where
  "getEvtMask masks s =
     and (fold (\<lambda>a m. or m (masks a)) (to_all_adapters (mLocAdapters s) 0) 0) (not (mExcludedMask s))"

definition sendMsg :: "api_msg \<Rightarrow> loc_api \<Rightarrow> loc_api" where
  "sendMsg m s = s\<lparr>msgs := msgs s @ [m]\<rparr>"

function add_loop :: "ptr list \<Rightarrow> nat \<Rightarrow> nat \<Rightarrow> (ptr list \<times> bool)" where
  "add_loop arr adapter i =
     (if i < MAX_ADAPTERS \<and> arr ! i \<noteq> Some adapter then
        (if arr ! i = None then (arr[i := Some adapter], True) else add_loop arr adapter (Suc i))
      else (arr, False))"
  by pat_completeness auto
termination
  by (relation "measure (\<lambda>(_, _, i). MAX_ADAPTERS - i)") auto

definition addAdapter :: "(nat \<Rightarrow> 32 word) \<Rightarrow> nat \<Rightarrow> loc_api \<Rightarrow> loc_api" where
  "addAdapter masks adapter s =
     (case add_loop (mLocAdapters s) adapter 0 of
        (arr, added) \<Rightarrow>
          if added then sendMsg (LocOpenMsg (masks adapter)) (s\<lparr>mLocAdapters := arr\<rparr>) else s)"

text \<open>\<open>while (++i < MAX_ADAPTERS && mLocAdapters[i] != NULL)\<close>: the value of \<open>i\<close> after it.\<close>

function skip_adapters :: "ptr list \<Rightarrow> nat \<Rightarrow> nat" where
  "skip_adapters arr i =
     (if Suc i < MAX_ADAPTERS \<and> arr ! Suc i \<noteq> None then skip_adapters arr (Suc i) else Suc i)"
  by pat_completeness auto
termination
  by (relation "measure (\<lambda>(_, i). MAX_ADAPTERS - i)") auto

declare add_loop.simps [simp del] skip_adapters.simps [simp del]

lemma skip_adapters_greater: "i < skip_adapters arr i"
proof (induction arr i rule: skip_adapters.induct)
  case (1 arr i)
  then show ?case by (subst skip_adapters.simps) auto
qed

function remove_loop :: "(nat \<Rightarrow> 32 word) \<Rightarrow> nat \<Rightarrow> nat \<Rightarrow> loc_api \<Rightarrow> loc_api" where
  "remove_loop masks adapter i s =
     (if i < MAX_ADAPTERS \<and> mLocAdapters s ! i \<noteq> None then
        (if mLocAdapters s ! i = Some adapter then
           (let arr = (mLocAdapters s)[i := None];
                j = i;
                k = skip_adapters arr i - 1;
                s1 = s\<lparr>mLocAdapters := arr[j := arr ! k, k := None]\<rparr>;
                s2 = (if 0 = k then s1\<lparr>calls := calls s1 @ [Close]\<rparr>
                      else sendMsg (LocOpenMsg (getEvtMask masks s1)) s1)
            in remove_loop masks adapter (Suc k) s2)
         else remove_loop masks adapter (Suc i) s)
      else s)"
  by pat_completeness auto
termination
proof (relation "measure (\<lambda>(_, _, i, _). MAX_ADAPTERS - i)", simp, goal_cases)
  case (1 masks adapter i s arr j k s1 s2)
  then have "i \<le> k" using skip_adapters_greater [of i arr] by simp
  with 1 show ?case by simp
qed auto

declare remove_loop.simps [simp del]

definition removeAdapter :: "(nat \<Rightarrow> 32 word) \<Rightarrow> nat \<Rightarrow> loc_api \<Rightarrow> loc_api" where
  "removeAdapter masks adapter s = remove_loop masks adapter 0 s"

definition updateEvtMask :: "(nat \<Rightarrow> 32 word) \<Rightarrow> loc_api \<Rightarrow> loc_api" where
  "updateEvtMask masks s = sendMsg (LocOpenMsg (getEvtMask masks s)) s"

definition isInSession :: "(nat \<Rightarrow> bool) \<Rightarrow> loc_api \<Rightarrow> bool" where
  "isInSession insess s = (\<exists>a \<in> set (to_1st_handling insess (mLocAdapters s) 0). insess a)"

text \<open>The engine up event, up to the delivery to the adapters.\<close>

definition handleEngineUpEvent :: "loc_api \<Rightarrow> loc_api \<times> nat list" where
  "handleEngineUpEvent s = (let s1 = sendMsg LocSsrMsg s in (s1, to_all_adapters (mLocAdapters s1) 0))"

text \<open>The message task processes the first message.\<close>

definition api_proc :: "(nat \<Rightarrow> 32 word) \<Rightarrow> loc_api \<Rightarrow> loc_api" where
  "api_proc masks s =
     (case msgs s of
        [] \<Rightarrow> s
      | LocOpenMsg evm # ms \<Rightarrow> s\<lparr>msgs := ms, calls := calls s @ [Open evm]\<rparr>
      | LocSsrMsg # ms \<Rightarrow> s\<lparr>msgs := ms, calls := calls s @ [Close, Open (getEvtMask masks s)]\<rparr>)"

datatype api_event = AddAdapter nat | RemoveAdapter nat | UpdateEvtMask | EngineUpEvent | ProcMsg

definition api_exec :: "(nat \<Rightarrow> 32 word) \<Rightarrow> api_event \<Rightarrow> loc_api \<Rightarrow> loc_api" where
  "api_exec masks ev s =
     (case ev of
        AddAdapter a \<Rightarrow> addAdapter masks a s
      | RemoveAdapter a \<Rightarrow> removeAdapter masks a s
      | UpdateEvtMask \<Rightarrow> updateEvtMask masks s
      | EngineUpEvent \<Rightarrow> fst (handleEngineUpEvent s)
      | ProcMsg \<Rightarrow> api_proc masks s)"

definition api_run :: "(nat \<Rightarrow> 32 word) \<Rightarrow> api_event list \<Rightarrow> loc_api \<Rightarrow> loc_api" where
  "api_run masks evs s = fold (api_exec masks) evs s"

section \<open>Capabilities\<close>

text \<open>
  \<open>isMessageSupported\<close>: None where the shift of the 32-bit 1 exceeds its width, which C++ leaves
  undefined.
\<close>

definition isMessageSupported :: "nat \<Rightarrow> loc_api \<Rightarrow> bool option" where
  "isMessageSupported msgID s =
     (if msgID > 64 then Some False
      else if 32 \<le> msgID then None
      else
        (let messageChecker = (push_bit msgID 1 :: 32 word)
         in Some (and (ucast messageChecker) (mSupportedMsg s) = (ucast messageChecker :: 64 word))))"

definition isFeatureSupported :: "8 word \<Rightarrow> loc_api \<Rightarrow> bool" where
  "isFeatureSupported featureVal s =
     (let arrayIndex = drop_bit 3 featureVal; bitPos = and featureVal 7
      in if MAX_FEATURE_LENGTH \<le> unat arrayIndex then False
         else and (drop_bit (unat bitPos) (mFeaturesSupported s ! unat arrayIndex)) 1 \<noteq> 0)"

definition saveSupportedMsgList :: "64 word \<Rightarrow> loc_api \<Rightarrow> loc_api" where
  "saveSupportedMsgList l s = s\<lparr>mSupportedMsg := l\<rparr>"

definition saveSupportedFeatureList :: "8 word list \<Rightarrow> loc_api \<Rightarrow> loc_api" where
  "saveSupportedFeatureList l s = s\<lparr>mFeaturesSupported := take MAX_FEATURE_LENGTH l\<rparr>"

definition getCarrierCapabilities :: "32 word \<Rightarrow> 32 word \<Rightarrow> 32 word" where
  "getCarrierCapabilities conf_CAPABILITIES conf_SUPL_MODE =
     (let c1 = (if and conf_SUPL_MODE 2 \<noteq> 2 then and conf_CAPABILITIES (not 4) else conf_CAPABILITIES)
      in if and conf_SUPL_MODE 1 \<noteq> 1 then and c1 (not 2) else c1)"

section \<open>Decoders\<close>

definition hex_digit :: "nat \<Rightarrow> char" where
  "hex_digit n = (char_of (if n < 10 then 48 + n else 55 + n) :: char)"

text \<open>
  \<open>snprintf (p, 3, "%02X", ch)\<close>: where char is signed, a negative one is printed as an int of eight
  digits, of which two are kept.
\<close>

definition print_02X :: "bool \<Rightarrow> 8 word \<Rightarrow> string" where
  "print_02X char_signed ch =
     (if char_signed \<and> sint ch < 0 then ''FF'' else [hex_digit (unat ch div 16), hex_digit (unat ch mod 16)])"

fun hexcode_loop :: "bool \<Rightarrow> int \<Rightarrow> nat \<Rightarrow> 8 word list \<Rightarrow> string \<Rightarrow> nat \<times> string" where
  "hexcode_loop char_signed string_size i [] acc = (i, acc)"
| "hexcode_loop char_signed string_size i (ch # data) acc =
     (if int (i * 2 + 3) \<le> string_size
      then hexcode_loop char_signed string_size (Suc i) data (acc @ print_02X char_signed ch)
      else (i, acc))"

text \<open>The number of bytes encoded and the string written (before its final NUL).\<close>

definition hexcode :: "bool \<Rightarrow> int \<Rightarrow> 8 word list \<Rightarrow> nat \<times> string" where
  "hexcode char_signed string_size data = hexcode_loop char_signed string_size 0 data []"

definition push_digit :: "int \<Rightarrow> nat \<Rightarrow> string \<Rightarrow> string" where
  "push_digit string_size d out' =
     (if d \<le> 9 \<and> int (length out') < string_size - 1 then out' @ [char_of (d + 48)] else out')"

fun decode_loop :: "int \<Rightarrow> 8 word list \<Rightarrow> string \<Rightarrow> string" where
  "decode_loop string_size [] out' = out'"
| "decode_loop string_size (ch # data) out' =
     decode_loop string_size data (push_digit string_size (unat ch div 16) (push_digit string_size (unat ch mod 16) out'))"

text \<open>The result and the string written; None where \<open>data\<close> has no first byte to read.\<close>

definition decodeAddress :: "int \<Rightarrow> 8 word list option \<Rightarrow> (int \<times> string) option" where
  "decodeAddress string_size data =
     (case data of
        None \<Rightarrow> Some (0, [])
      | Some [] \<Rightarrow> None
      | Some (d # ds) \<Rightarrow>
          if d \<noteq> 0x91 then Some (0, [])
          else (let s = decode_loop string_size ds [] in Some (int (length s), s)))"

section \<open>The two contexts\<close>

text \<open>The static members of \<open>LocDualContext\<close>; \<open>injected\<close> are the calls of the LBS proxy.\<close>

datatype loc_context = FgContext | BgContext

record dual_context =
  mFgContext :: bool
  mBgContext :: bool
  mInjectContext :: "loc_context option"
  injected :: "loc_context list"
  msg_tasks :: nat

definition injectFeatureConfig :: "loc_context \<Rightarrow> dual_context \<Rightarrow> dual_context" where
  "injectFeatureConfig cur d = (if Some cur = mInjectContext d then d\<lparr>injected := injected d @ [cur]\<rparr> else d)"

text \<open>\<open>getLocFgContext\<close> and \<open>getLocBgContext\<close>, which differ in the member; both share the message task.\<close>

definition getLocContext :: "loc_context \<Rightarrow> dual_context \<Rightarrow> dual_context" where
  "getLocContext c d =
     (let exists = (case c of FgContext \<Rightarrow> mFgContext d | BgContext \<Rightarrow> mBgContext d);
          d1 = (if exists then d
                else (let d0 = (if msg_tasks d = 0 then d\<lparr>msg_tasks := 1\<rparr> else d)
                      in case c of FgContext \<Rightarrow> d0\<lparr>mFgContext := True\<rparr> | BgContext \<Rightarrow> d0\<lparr>mBgContext := True\<rparr>))
      in if mInjectContext d1 = None then injectFeatureConfig c (d1\<lparr>mInjectContext := Some c\<rparr>) else d1)"

definition dual_start :: dual_context where
  "dual_start = \<lparr>mFgContext = False, mBgContext = False, mInjectContext = None, injected = [], msg_tasks = 0\<rparr>"

section \<open>The array as a list\<close>

definition arr_of :: "nat list \<Rightarrow> ptr list" where
  "arr_of xs = map Some xs @ replicate (MAX_ADAPTERS - length xs) None"

definition registered :: "loc_api \<Rightarrow> nat list" where
  "registered s = to_all_adapters (mLocAdapters s) 0"

definition api_inv :: "loc_api \<Rightarrow> bool" where
  "api_inv s \<longleftrightarrow> mLocAdapters s = arr_of (registered s) \<and> distinct (registered s) \<and> length (registered s) \<le> MAX_ADAPTERS"

lemma length_arr_of [simp]: "length xs \<le> MAX_ADAPTERS \<Longrightarrow> length (arr_of xs) = MAX_ADAPTERS"
  by (simp add: arr_of_def)

lemma nth_arr_of:
  "i < MAX_ADAPTERS \<Longrightarrow> arr_of xs ! i = (if i < length xs then Some (xs ! i) else None)"
  by (simp add: arr_of_def nth_append)

lemma to_all_arr_of:
  "length xs \<le> MAX_ADAPTERS \<Longrightarrow> i \<le> length xs \<Longrightarrow> to_all_adapters (arr_of xs) i = drop i xs"
proof (induction "length xs - i" arbitrary: i)
  case 0
  then show ?case by (subst to_all_adapters.simps) (simp add: nth_arr_of)
next
  case (Suc n)
  then have i: "i < length xs" by simp
  have "to_all_adapters (arr_of xs) i = xs ! i # to_all_adapters (arr_of xs) (Suc i)"
    using i Suc.prems by (subst to_all_adapters.simps) (simp add: nth_arr_of)
  with Suc.hyps(1) [of "Suc i"] Suc.hyps(2) Suc.prems i show ?case by (simp add: Cons_nth_drop_Suc)
qed

fun up_to_first :: "('a \<Rightarrow> bool) \<Rightarrow> 'a list \<Rightarrow> 'a list" where
  "up_to_first p [] = []"
| "up_to_first p (x # xs) = x # (if p x then [] else up_to_first p xs)"

lemma to_1st_arr_of:
  "length xs \<le> MAX_ADAPTERS \<Longrightarrow> i \<le> length xs \<Longrightarrow> to_1st_handling h (arr_of xs) i = up_to_first h (drop i xs)"
proof (induction "length xs - i" arbitrary: i)
  case 0
  then show ?case by (subst to_1st_handling.simps) (simp add: nth_arr_of)
next
  case (Suc n)
  then have i: "i < length xs" by simp
  have "to_1st_handling h (arr_of xs) i = xs ! i # (if h (xs ! i) then [] else to_1st_handling h (arr_of xs) (Suc i))"
    using i Suc.prems by (subst to_1st_handling.simps) (simp add: nth_arr_of)
  with Suc.hyps(1) [of "Suc i"] Suc.hyps(2) Suc.prems i show ?case by (simp add: Cons_nth_drop_Suc [symmetric])
qed

lemma registered_arr_of:
  "mLocAdapters s = arr_of xs \<Longrightarrow> length xs \<le> MAX_ADAPTERS \<Longrightarrow> registered s = xs"
  by (simp add: registered_def to_all_arr_of)

lemma api_invI:
  "mLocAdapters s = arr_of xs \<Longrightarrow> distinct xs \<Longrightarrow> length xs \<le> MAX_ADAPTERS \<Longrightarrow> api_inv s \<and> registered s = xs"
  using registered_arr_of [of s xs] by (simp add: api_inv_def)

lemma add_loop_arr_of:
  "length xs \<le> MAX_ADAPTERS \<Longrightarrow> i \<le> length xs \<Longrightarrow> a \<notin> set (take i xs) \<Longrightarrow>
   add_loop (arr_of xs) a i =
     (if a \<in> set xs \<or> length xs = MAX_ADAPTERS then (arr_of xs, False) else (arr_of (xs @ [a]), True))"
proof (induction "length xs - i" arbitrary: i)
  case 0
  then have i: "i = length xs" by simp
  show ?case
  proof (cases "length xs = MAX_ADAPTERS")
    case True
    with i 0 show ?thesis by (subst add_loop.simps) simp
  next
    case False
    with 0 have lt: "length xs < MAX_ADAPTERS" by simp
    then have "MAX_ADAPTERS - length xs = Suc (MAX_ADAPTERS - Suc (length xs))" by simp
    then have "(arr_of xs)[length xs := Some a] = arr_of (xs @ [a])"
      by (simp add: arr_of_def list_update_append)
    with lt i 0 show ?thesis by (subst add_loop.simps) (simp add: nth_arr_of)
  qed
next
  case (Suc n)
  then have i: "i < length xs" by simp
  show ?case
  proof (cases "xs ! i = a")
    case True
    then have "a \<in> set xs" using i by auto
    with True i Suc.prems show ?thesis by (subst add_loop.simps) (simp add: nth_arr_of)
  next
    case False
    then have "a \<notin> set (take (Suc i) xs)" using i Suc.prems by (simp add: take_Suc_conv_app_nth)
    with Suc.hyps(1) [of "Suc i"] Suc.hyps(2) Suc.prems i False show ?thesis
      by (subst add_loop.simps) (simp add: nth_arr_of)
  qed
qed

text \<open>Removal moves the last adapter into the hole.\<close>

definition del_at :: "nat \<Rightarrow> nat list \<Rightarrow> nat list" where
  "del_at i xs = (butlast xs)[i := last xs]"

lemma set_del_at:
  assumes "distinct xs" "i < length xs"
  shows "distinct (del_at i xs) \<and> set (del_at i xs) = set xs - {xs ! i} \<and> length (del_at i xs) = length xs - 1"
proof -
  obtain ys y where xs: "xs = ys @ [y]" using assms(2) by (cases xs rule: rev_cases) auto
  show ?thesis
  proof (cases "i < length ys")
    case True
    define us z vs where "us = take i ys" and "z = ys ! i" and "vs = drop (Suc i) ys"
    then have uv: "ys = us @ z # vs" "length us = i" using True by (simp_all add: id_take_nth_drop [symmetric])
    have "butlast xs = ys" "last xs = y" using xs by simp_all
    with uv have "del_at i xs = us @ y # vs" "xs ! i = z" using xs by (auto simp: del_at_def nth_append)
    moreover have "distinct (us @ z # vs @ [y])" using assms(1) xs uv(1) by simp
    ultimately show ?thesis using xs uv(1) by auto
  next
    case False
    then have "i = length ys" using assms(2) xs by simp
    with xs assms(1) show ?thesis by (simp add: del_at_def list_update_beyond)
  qed
qed

lemma skip_arr_of:
  assumes "length xs \<le> MAX_ADAPTERS" "j < length xs" "j \<le> i" "i < length xs"
  shows "skip_adapters ((arr_of xs)[j := None]) i = length xs"
  using assms(3,4)
proof (induction "length xs - Suc i" arbitrary: i)
  case 0
  then have "Suc i = length xs" by simp
  with 0 assms show ?case by (subst skip_adapters.simps) (auto simp: nth_arr_of)
next
  case (Suc n)
  then have i: "Suc i < length xs" by simp
  with Suc.prems assms have "((arr_of xs)[j := None]) ! Suc i \<noteq> None" by (simp add: nth_arr_of)
  with Suc.hyps(1) [of "Suc i"] Suc.hyps(2) Suc.prems i assms show ?case by (subst skip_adapters.simps) simp
qed

lemma arr_del_at:
  assumes "length xs \<le> MAX_ADAPTERS" "j < length xs"
  shows "(arr_of xs)[j := None, j := ((arr_of xs)[j := None]) ! (length xs - 1), length xs - 1 := None] = arr_of (del_at j xs)"
    (is "?l = ?r")
proof (rule nth_equalityI)
  have ld: "length (del_at j xs) = length xs - 1" by (simp add: del_at_def)
  then show len: "length ?l = length ?r" using assms by simp
  fix i assume i: "i < length ?l"
  then have iM: "i < MAX_ADAPTERS" using assms by simp
  have last: "last xs = xs ! (length xs - 1)" using assms(2) by (intro last_conv_nth) auto
  show "?l ! i = ?r ! i"
  proof (cases "i < length xs - 1")
    case True
    then have "butlast xs ! i = xs ! i" by (simp add: nth_butlast)
    moreover have "?l ! i = (if i = j then ((arr_of xs)[j := None]) ! (length xs - 1) else arr_of xs ! i)"
      using True iM assms by (auto simp: nth_list_update)
    ultimately show ?thesis using True iM assms ld last
      by (auto simp: nth_arr_of del_at_def nth_list_update)
  next
    case False
    then have "?l ! i = None" using iM assms by (auto simp: nth_arr_of nth_list_update)
    with False iM ld show ?thesis by (simp add: nth_arr_of)
  qed
qed

definition removed :: "(nat \<Rightarrow> 32 word) \<Rightarrow> nat list \<Rightarrow> loc_api \<Rightarrow> loc_api" where
  "removed masks ys s =
     (let s1 = s\<lparr>mLocAdapters := arr_of ys\<rparr>
      in if ys = [] then s1\<lparr>calls := calls s1 @ [Close]\<rparr> else sendMsg (LocOpenMsg (getEvtMask masks s1)) s1)"

lemma removed_fields [simp]: "mLocAdapters (removed masks ys s) = arr_of ys"
  by (simp add: removed_def sendMsg_def Let_def)

lemma remove_loop_arr_of:
  "mLocAdapters s = arr_of xs \<Longrightarrow> length xs \<le> MAX_ADAPTERS \<Longrightarrow> distinct xs \<Longrightarrow> i \<le> length xs \<Longrightarrow> a \<notin> set (take i xs) \<Longrightarrow>
   remove_loop masks a i s =
     (if a \<in> set xs then removed masks (del_at (THE j. j < length xs \<and> xs ! j = a) xs) s else s)"
proof (induction "length xs - i" arbitrary: i)
  case 0
  then have "\<not> (i < MAX_ADAPTERS \<and> mLocAdapters s ! i \<noteq> None)"
    by (cases "i < MAX_ADAPTERS") (simp_all add: nth_arr_of)
  moreover have "a \<notin> set xs" using 0 by simp
  ultimately show ?case by (subst remove_loop.simps) (simp only: if_False)
next
  case (Suc n)
  then have i: "i < length xs" by simp
  show ?case
  proof (cases "xs ! i = a")
    case True
    have the: "(THE j. j < length xs \<and> xs ! j = a) = i"
      using True i Suc.prems(3) by (intro the_equality) (auto simp: nth_eq_iff_index_eq)
    have k: "skip_adapters ((arr_of xs)[i := None]) i = length xs"
      using skip_arr_of [OF Suc.prems(2) i order.refl i] by simp
    let ?s1 = "s\<lparr>mLocAdapters := arr_of (del_at i xs)\<rparr>"
    let ?s2 = "if 0 = length xs - 1 then ?s1\<lparr>calls := calls ?s1 @ [Close]\<rparr>
               else sendMsg (LocOpenMsg (getEvtMask masks ?s1)) ?s1"
    obtain m where m: "length xs = Suc m" using i by (cases xs) auto
    have arr: "(arr_of xs)[i := ((arr_of xs)[i := None]) ! m, m := None] = arr_of (del_at i xs)"
      using arr_del_at [OF Suc.prems(2) i] m by simp
    have r: "remove_loop masks a i s = remove_loop masks a (Suc (length xs - 1)) ?s2"
      using True i Suc.prems k
      by (subst remove_loop.simps) (simp add: nth_arr_of Let_def m arr cong del: if_weak_cong)
    have ld: "length (del_at i xs) = length xs - 1" by (simp add: del_at_def)
    define s2 where "s2 = ?s2"
    have "mLocAdapters s2 = arr_of (del_at i xs)" by (simp add: s2_def sendMsg_def)
    then have "\<not> (Suc m < MAX_ADAPTERS \<and> mLocAdapters s2 ! Suc m \<noteq> None)"
      using ld m by (cases "Suc m < MAX_ADAPTERS") (simp_all add: nth_arr_of)
    then have "remove_loop masks a (Suc m) s2 = s2" by (subst remove_loop.simps) (simp only: if_False)
    then have "remove_loop masks a (Suc (length xs - 1)) ?s2 = ?s2" using m by (simp add: s2_def)
    moreover have "?s2 = removed masks (del_at i xs) s"
      using ld i by (cases "del_at i xs") (simp_all add: removed_def Let_def)
    ultimately have "remove_loop masks a i s = removed masks (del_at i xs) s" using r by simp
    moreover have "a \<in> set xs" using True i by auto
    ultimately show ?thesis using the by simp
  next
    case False
    then have "a \<notin> set (take (Suc i) xs)" using i Suc.prems by (simp add: take_Suc_conv_app_nth)
    with Suc.hyps(1) [of "Suc i"] Suc.hyps(2) Suc.prems i False show ?thesis
      by (subst remove_loop.simps) (simp add: nth_arr_of)
  qed
qed

section \<open>Properties\<close>

text \<open>The abstract state: a set of at most ten adapters.\<close>

definition spec_add :: "nat \<Rightarrow> nat set \<Rightarrow> nat set" where
  "spec_add a S = (if card S < MAX_ADAPTERS then insert a S else S)"

definition spec_exec :: "api_event \<Rightarrow> nat set \<Rightarrow> nat set" where
  "spec_exec ev S = (case ev of AddAdapter a \<Rightarrow> spec_add a S | RemoveAdapter a \<Rightarrow> S - {a} | _ \<Rightarrow> S)"

lemma add_inv:
  assumes "api_inv s"
  shows "api_inv (addAdapter masks a s) \<and> set (registered (addAdapter masks a s)) = spec_add a (set (registered s))"
proof -
  let ?xs = "registered s"
  have i: "mLocAdapters s = arr_of ?xs" "distinct ?xs" "length ?xs \<le> MAX_ADAPTERS" using assms by (simp_all add: api_inv_def)
  have l: "add_loop (mLocAdapters s) a 0 =
      (if a \<in> set ?xs \<or> length ?xs = MAX_ADAPTERS then (arr_of ?xs, False) else (arr_of (?xs @ [a]), True))"
    using add_loop_arr_of [OF i(3), of 0 a] i(1) by simp
  show ?thesis
  proof (cases "a \<in> set ?xs \<or> length ?xs = MAX_ADAPTERS")
    case True
    then have "addAdapter masks a s = s" using l by (simp add: addAdapter_def)
    with True assms distinct_card [OF i(2)] show ?thesis by (auto simp: spec_add_def)
  next
    case False
    let ?s = "addAdapter masks a s"
    have "mLocAdapters ?s = arr_of (?xs @ [a])" using False l by (simp add: addAdapter_def sendMsg_def)
    from api_invI [OF this] False i have "api_inv ?s \<and> registered ?s = ?xs @ [a]" by simp
    with False i distinct_card [OF i(2)] show ?thesis by (simp add: spec_add_def)
  qed
qed

lemma remove_inv:
  assumes "api_inv s"
  shows "api_inv (removeAdapter masks a s) \<and> set (registered (removeAdapter masks a s)) = set (registered s) - {a}"
proof -
  let ?xs = "registered s"
  have i: "mLocAdapters s = arr_of ?xs" "distinct ?xs" "length ?xs \<le> MAX_ADAPTERS" using assms by (simp_all add: api_inv_def)
  show ?thesis
  proof (cases "a \<in> set ?xs")
    case False
    with remove_loop_arr_of [OF i(1,3,2), of 0 a masks] assms show ?thesis by (simp add: removeAdapter_def)
  next
    case True
    then obtain j where j: "j < length ?xs" "?xs ! j = a" by (auto simp: in_set_conv_nth)
    then have "(THE j. j < length ?xs \<and> ?xs ! j = a) = j"
      using i(2) by (intro the_equality) (auto simp: nth_eq_iff_index_eq)
    with remove_loop_arr_of [OF i(1,3,2), of 0 a masks] True have
      r: "removeAdapter masks a s = removed masks (del_at j ?xs) s" by (simp add: removeAdapter_def)
    from set_del_at [OF i(2) j(1)] j api_invI [of "removed masks (del_at j ?xs) s" "del_at j ?xs"] i(3)
    show ?thesis by (simp add: r)
  qed
qed

lemma other_inv:
  "mLocAdapters s' = mLocAdapters s \<Longrightarrow> api_inv s' = api_inv s \<and> registered s' = registered s"
  by (simp add: api_inv_def registered_def)

lemma api_exec_inv:
  assumes "api_inv s"
  shows "api_inv (api_exec masks ev s) \<and> set (registered (api_exec masks ev s)) = spec_exec ev (set (registered s))"
proof (cases ev)
  case (AddAdapter a)
  with add_inv [OF assms] show ?thesis by (simp add: api_exec_def spec_exec_def)
next
  case (RemoveAdapter a)
  with remove_inv [OF assms] show ?thesis by (simp add: api_exec_def spec_exec_def)
next
  case UpdateEvtMask
  then have "mLocAdapters (api_exec masks ev s) = mLocAdapters s"
    by (simp add: api_exec_def updateEvtMask_def sendMsg_def)
  from other_inv [OF this] assms UpdateEvtMask show ?thesis by (simp add: spec_exec_def)
next
  case EngineUpEvent
  then have "mLocAdapters (api_exec masks ev s) = mLocAdapters s"
    by (simp add: api_exec_def handleEngineUpEvent_def sendMsg_def)
  from other_inv [OF this] assms EngineUpEvent show ?thesis by (simp add: spec_exec_def)
next
  case ProcMsg
  then have "mLocAdapters (api_exec masks ev s) = mLocAdapters s"
    by (simp add: api_exec_def api_proc_def split: list.splits api_msg.splits)
  from other_inv [OF this] assms ProcMsg show ?thesis by (simp add: spec_exec_def)
qed

lemma api_run_inv:
  "api_inv s \<Longrightarrow> api_inv (api_run masks evs s) \<and> set (registered (api_run masks evs s)) = fold spec_exec evs (set (registered s))"
  by (induction evs arbitrary: s) (simp_all add: api_run_def api_exec_inv)

lemma api_inv_new: "api_inv (loc_api_new ex) \<and> registered (loc_api_new ex) = []"
  by (rule api_invI) (simp_all add: loc_api_new_def arr_of_def)

text \<open>
  After any sequence of registrations, removals and messages, the array holds a set of at most
  ten adapters, each once and without holes: a registration adds the adapter (and is silently
  dropped when ten others are registered), a removal takes out that adapter and no other, although
  it moves the last one into its place. An event for all adapters is delivered to exactly that set,
  each once; one for the first that handles it is delivered to the adapters up to that one.
\<close>

theorem api_adapters_are_a_set:
  fixes masks ex evs
  defines "s \<equiv> api_run masks evs (loc_api_new ex)"
  shows "set (to_all_adapters (mLocAdapters s) 0) = fold spec_exec evs {} \<and>
    distinct (to_all_adapters (mLocAdapters s) 0) \<and>
    mLocAdapters s = arr_of (to_all_adapters (mLocAdapters s) 0) \<and>
    to_1st_handling handles (mLocAdapters s) 0 = up_to_first handles (to_all_adapters (mLocAdapters s) 0)"
proof -
  have i: "api_inv s" "set (registered s) = fold spec_exec evs {}"
    using api_run_inv [of "loc_api_new ex" masks evs] api_inv_new [of ex] by (simp_all add: s_def)
  then have a: "mLocAdapters s = arr_of (registered s)" "distinct (registered s)" "length (registered s) \<le> MAX_ADAPTERS"
    by (simp_all add: api_inv_def)
  have "to_1st_handling handles (arr_of (registered s)) 0 = up_to_first handles (registered s)"
    using to_1st_arr_of [OF a(3), of 0 handles] by simp
  moreover have t: "to_all_adapters (mLocAdapters s) 0 = registered s" by (simp add: registered_def)
  ultimately show ?thesis unfolding t using a i(2) by simp
qed

text \<open>The mask of the registered adapters.\<close>

lemma fold_or_bit: "bit (fold (\<lambda>a m. or m (masks a)) xs (m :: 32 word)) n \<longleftrightarrow> bit m n \<or> (\<exists>a \<in> set xs. bit (masks a) n)"
  by (induction xs arbitrary: m) (auto simp: bit_simps)

lemma getEvtMask_bit:
  "bit (getEvtMask masks s) n \<longleftrightarrow> n < 32 \<and> (\<exists>a \<in> set (registered s). bit (masks a) n) \<and> \<not> bit (mExcludedMask s) n"
  by (auto simp: getEvtMask_def bit_simps fold_or_bit registered_def dest: bit_imp_le_length)

lemma api_remove_negotiates_mask_parts:
  assumes "api_inv s" "a \<in> set (registered s)"
  shows "set (registered s) = {a} \<Longrightarrow>
      calls (removeAdapter masks a s) = calls s @ [Close] \<and> msgs (removeAdapter masks a s) = msgs s"
    and "set (registered s) \<noteq> {a} \<Longrightarrow>
      \<exists>evm. msgs (removeAdapter masks a s) = msgs s @ [LocOpenMsg evm] \<and> calls (removeAdapter masks a s) = calls s \<and>
        (\<forall>n < 32. bit evm n \<longleftrightarrow> (\<exists>b \<in> set (registered s) - {a}. bit (masks b) n) \<and> \<not> bit (mExcludedMask s) n)"
proof -
  let ?xs = "registered s"
  have i: "mLocAdapters s = arr_of ?xs" "distinct ?xs" "length ?xs \<le> MAX_ADAPTERS" using assms(1) by (simp_all add: api_inv_def)
  obtain j where j: "j < length ?xs" "?xs ! j = a" using assms(2) by (auto simp: in_set_conv_nth)
  then have the: "(THE j. j < length ?xs \<and> ?xs ! j = a) = j"
    using i(2) by (intro the_equality) (auto simp: nth_eq_iff_index_eq)
  let ?ys = "del_at j ?xs"
  have r: "removeAdapter masks a s = removed masks ?ys s"
    using remove_loop_arr_of [OF i(1,3,2), of 0 a masks] assms(2) the by (simp add: removeAdapter_def)
  have d: "set ?ys = set ?xs - {a}" "length ?ys \<le> MAX_ADAPTERS" using set_del_at [OF i(2) j(1)] j(2) i(3) by auto
  show "set ?xs = {a} \<Longrightarrow>
      calls (removeAdapter masks a s) = calls s @ [Close] \<and> msgs (removeAdapter masks a s) = msgs s"
    using d(1) r by (simp add: removed_def)
  assume "set ?xs \<noteq> {a}"
  moreover have "set ?xs = {a}" if "?ys = []" using that d(1) assms(2) by (simp, blast)
  ultimately have ne: "?ys \<noteq> []" by blast
  let ?s1 = "s\<lparr>mLocAdapters := arr_of ?ys\<rparr>"
  have reg: "registered ?s1 = ?ys" by (rule registered_arr_of) (simp_all add: d(2))
  have "msgs (removeAdapter masks a s) = msgs s @ [LocOpenMsg (getEvtMask masks ?s1)]" "calls (removeAdapter masks a s) = calls s"
    using ne r by (simp_all add: removed_def sendMsg_def Let_def)
  then show "\<exists>evm. msgs (removeAdapter masks a s) = msgs s @ [LocOpenMsg evm] \<and> calls (removeAdapter masks a s) = calls s \<and>
        (\<forall>n < 32. bit evm n \<longleftrightarrow> (\<exists>b \<in> set ?xs - {a}. bit (masks b) n) \<and> \<not> bit (mExcludedMask s) n)"
    using reg d(1) by (intro exI [of _ "getEvtMask masks ?s1"]) (simp add: getEvtMask_bit)
qed

text \<open>
  When an adapter other than the last is removed, the API sends itself a message to open with
  exactly the events that some remaining adapter asks for and that are not excluded; when the last
  one is removed it is closed at once, not by a message.
\<close>

theorem api_remove_negotiates_mask:
  assumes "api_inv s" "a \<in> set (registered s)"
  shows "if set (registered s) = {a}
    then calls (removeAdapter masks a s) = calls s @ [Close] \<and> msgs (removeAdapter masks a s) = msgs s
    else \<exists>evm. msgs (removeAdapter masks a s) = msgs s @ [LocOpenMsg evm] \<and> calls (removeAdapter masks a s) = calls s \<and>
        (\<forall>n < 32. bit evm n \<longleftrightarrow> (\<exists>b \<in> set (registered s) - {a}. bit (masks b) n) \<and> \<not> bit (mExcludedMask s) n)"
  proof (cases "set (registered s) = {a}")
  case True
  from api_remove_negotiates_mask_parts(1) [OF assms True, of masks] show ?thesis unfolding if_P [OF True] .
next
  case False
  from api_remove_negotiates_mask_parts(2) [OF assms False, of masks] show ?thesis unfolding if_not_P [OF False] .
qed

lemma api_remove_negotiates_mask_witness:
  "calls (removeAdapter (\<lambda>_. 3) 7 (addAdapter (\<lambda>_. 3) 7 (loc_api_new 0))) = [Close]"
proof -
  let ?s = "addAdapter (\<lambda>_. 3) 7 (loc_api_new 0)"
  have i: "api_inv ?s" "set (registered ?s) = {7}"
    using add_inv [of "loc_api_new 0" "\<lambda>_. 3" 7] api_inv_new [of 0] by (simp_all add: spec_add_def MAX_ADAPTERS_def)
  have c: "calls ?s = []" by code_simp
  from api_remove_negotiates_mask [OF i(1), of 7 "\<lambda>_. 3"] i(2) c show ?thesis by simp
qed

text \<open>
  The message that a registration sends is not withdrawn by a removal, which closes the API at
  once: when the message task then processes it, the API is open without any adapter.
\<close>

theorem api_open_after_close:
  "let s = api_run (\<lambda>_. 5) [AddAdapter 1, RemoveAdapter 1, ProcMsg] (loc_api_new 0)
   in calls s = [Close, Open 5] \<and> registered s = [] \<and> msgs s = []"
  by code_simp

definition semi_octets :: "8 word \<Rightarrow> nat list" where
  "semi_octets b = filter (\<lambda>d. d \<le> 9) [unat b mod 16, unat b div 16]"

lemma push_digit_take:
  "push_digit sz d (take (nat (sz - 1)) ds) = take (nat (sz - 1)) (if d \<le> 9 then ds @ [char_of (d + 48)] else ds)"
  by (cases "length ds < nat (sz - 1)") (auto simp: push_digit_def)

lemma decode_loop_take:
  "decode_loop sz data (take (nat (sz - 1)) ds) =
     take (nat (sz - 1)) (ds @ map (\<lambda>d. char_of (d + 48)) (concat (map semi_octets data)))"
proof (induction data arbitrary: ds)
  case (Cons b data)
  let ?ds = "if unat b mod 16 \<le> 9 then ds @ [char_of (unat b mod 16 + 48)] else ds"
  let ?ds2 = "if unat b div 16 \<le> 9 then ?ds @ [char_of (unat b div 16 + 48)] else ?ds"
  have "decode_loop sz (b # data) (take (nat (sz - 1)) ds) = decode_loop sz data (take (nat (sz - 1)) ?ds2)"
    by (simp only: decode_loop.simps push_digit_take)
  also have "\<dots> = take (nat (sz - 1)) (?ds2 @ map (\<lambda>d. char_of (d + 48)) (concat (map semi_octets data)))"
    by (rule Cons.IH)
  finally have "decode_loop sz (b # data) (take (nat (sz - 1)) ds) =
    take (nat (sz - 1)) (?ds2 @ map (\<lambda>d. char_of (d + 48)) (concat (map semi_octets data)))" .
  moreover have "?ds2 @ map (\<lambda>d. char_of (d + 48)) (concat (map semi_octets data)) =
    ds @ map (\<lambda>d. char_of (d + 48)) (concat (map semi_octets (b # data)))"
    using semi_octets_def [of b] by simp
  ultimately show ?case by (simp only:)
qed simp

lemma hexcode_loop_take:
  "hexcode_loop cs sz i data acc =
     (let n = min (length data) (nat ((sz - 1) div 2) - i)
      in (i + n, acc @ concat (map (print_02X cs) (take n data))))"
proof (induction data arbitrary: i acc)
  case (Cons b data)
  show ?case
  proof (cases "int (i * 2 + 3) \<le> sz")
    case True
    then have "nat ((sz - 1) div 2) - i = Suc (nat ((sz - 1) div 2) - Suc i)" by linarith
    with True Cons.IH [of "Suc i" "acc @ print_02X cs b"] show ?thesis by (simp add: Let_def)
  next
    case False
    then have "nat ((sz - 1) div 2) - i = 0" by linarith
    with False show ?thesis by simp
  qed
qed simp

fun hex_val :: "char \<Rightarrow> nat" where
  "hex_val c = (let n = of_char c in if n < 58 then n - 48 else n - 55)"

fun hex_read :: "string \<Rightarrow> 8 word list" where
  "hex_read (a # b # cs) = of_nat (16 * hex_val a + hex_val b) # hex_read cs"
| "hex_read _ = []"

lemma hex_val_digit: "n < 16 \<Longrightarrow> hex_val (hex_digit n) = n"
  by (simp add: hex_digit_def of_char_of Let_def)

lemma hex_read_print: "hex_read (concat (map (print_02X False) data)) = data"
proof (induction data)
  case (Cons b data)
  have "unat b < 256" using unsigned_less [of b] by simp
  then have "unat b div 16 < 16" by simp
  moreover have "16 * (unat b div 16) + unat b mod 16 = unat b" by simp
  ultimately show ?case using Cons by (simp add: print_02X_def hex_val_digit del: hex_val.simps)
qed simp

lemma message_bit:
  assumes "msgID < 32"
  shows "isMessageSupported msgID s = Some (bit (mSupportedMsg s) msgID)"
proof -
  have u: "ucast (push_bit msgID 1 :: 32 word) = (push_bit msgID 1 :: 64 word)"
    using assms by (intro bit_word_eqI)
      (auto simp: bit_ucast_iff bit_push_bit_iff bit_1_iff simp del: push_bit_of_1)
  have "and (push_bit msgID 1) v = push_bit msgID 1 \<longleftrightarrow> bit v msgID" for v :: "64 word"
  proof
    assume "and (push_bit msgID 1) v = push_bit msgID 1"
    then have "bit (and (push_bit msgID 1) v) msgID = bit (push_bit msgID 1 :: 64 word) msgID" by simp
    with assms show "bit v msgID" by (simp add: bit_and_iff bit_push_bit_iff bit_1_iff del: push_bit_of_1)
  next
    assume b: "bit v msgID"
    show "and (push_bit msgID 1) v = push_bit msgID 1"
    proof (rule bit_word_eqI)
      fix n
      have "n - msgID = 0 \<and> msgID \<le> n \<Longrightarrow> n = msgID" by simp
      with b show "bit (and (push_bit msgID 1) v) n = bit (push_bit msgID 1 :: 64 word) n"
        by (auto simp: bit_and_iff bit_push_bit_iff bit_1_iff simp del: push_bit_of_1)
    qed
  qed
  with assms show ?thesis by (simp add: isMessageSupported_def Let_def u del: push_bit_of_1)
qed

lemma feature_bit:
  "isFeatureSupported f s \<longleftrightarrow> unat f div 8 < MAX_FEATURE_LENGTH \<and> bit (mFeaturesSupported s ! (unat f div 8)) (unat f mod 8)"
proof -
  have "and f 7 = take_bit 3 f" by (simp add: take_bit_eq_mask mask_eq_exp_minus_1)
  then have "unat (and f 7) = unat f mod 8" by (simp add: unsigned_take_bit_eq) (simp add: take_bit_eq_mod)
  moreover have "unat (drop_bit 3 f) = unat f div 8" by (simp only: unat_drop_bit_eq) (simp add: drop_bit_eq_div)
  moreover have "and (drop_bit n x) 1 \<noteq> 0 \<longleftrightarrow> bit x n" for x :: "8 word" and n
    by (simp add: and_one_eq bit_iff_odd_drop_bit odd_iff_mod_2_eq_one)
  ultimately show ?thesis by (simp add: isFeatureSupported_def Let_def not_le)
qed

lemma api_decoders_parts:
  shows "decodeAddress sz (Some (0x91 # data)) =
      (let s = take (nat (sz - 1)) (map (\<lambda>d. char_of (d + 48)) (concat (map semi_octets data)))
       in Some (int (length s), s))"
    and "hexcode cs sz data =
      (let n = min (length data) (nat ((sz - 1) div 2)) in (n, concat (map (print_02X cs) (take n data))))"
    and "hex_read (snd (hexcode False sz data)) = take (fst (hexcode False sz data)) data"
    and "isFeatureSupported f s \<longleftrightarrow>
      unat f div 8 < MAX_FEATURE_LENGTH \<and> bit (mFeaturesSupported s ! (unat f div 8)) (unat f mod 8)"
    and "isMessageSupported msgID s =
      (if msgID < 32 then Some (bit (mSupportedMsg s) msgID) else if msgID \<le> 64 then None else Some False)"
proof -
  show "decodeAddress sz (Some (0x91 # data)) =
      (let s = take (nat (sz - 1)) (map (\<lambda>d. char_of (d + 48)) (concat (map semi_octets data)))
       in Some (int (length s), s))"
    using decode_loop_take [of sz data "[]"] by (simp add: decodeAddress_def Let_def)
  show h: "hexcode cs sz data =
      (let n = min (length data) (nat ((sz - 1) div 2)) in (n, concat (map (print_02X cs) (take n data))))" for cs
    by (simp add: hexcode_def hexcode_loop_take)
  show "hex_read (snd (hexcode False sz data)) = take (fst (hexcode False sz data)) data"
    by (simp add: h Let_def hex_read_print)
  show "isFeatureSupported f s \<longleftrightarrow>
      unat f div 8 < MAX_FEATURE_LENGTH \<and> bit (mFeaturesSupported s ! (unat f div 8)) (unat f mod 8)"
    by (rule feature_bit)
  show "isMessageSupported msgID s =
      (if msgID < 32 then Some (bit (mSupportedMsg s) msgID) else if msgID \<le> 64 then None else Some False)"
    using message_bit [of msgID s] by (auto simp: isMessageSupported_def)
qed

text \<open>
  The decoders. \<open>decodeAddress\<close> yields the decimal digits of the semi-octets after the prefix
  0x91, low half first, other halves skipped, cut to one less than the buffer; \<open>hexcode\<close> yields two
  digits for each byte as long as they and the NUL fit, and reading them back gives the bytes (where
  char is unsigned). A feature is supported iff its bit is set in the array of 100 bytes; a message
  identifier below 32 iff its bit is set in the mask, and from 32 to 64, which the guard lets pass,
  the shift is undefined.
\<close>

theorem api_decoders:
  shows "decodeAddress sz (Some (0x91 # data)) =
      (let s = take (nat (sz - 1)) (map (\<lambda>d. char_of (d + 48)) (concat (map semi_octets data)))
       in Some (int (length s), s)) \<and>
    hexcode cs sz data =
      (let n = min (length data) (nat ((sz - 1) div 2)) in (n, concat (map (print_02X cs) (take n data)))) \<and>
    hex_read (snd (hexcode False sz data)) = take (fst (hexcode False sz data)) data \<and>
    isFeatureSupported f s =
      (unat f div 8 < MAX_FEATURE_LENGTH \<and> bit (mFeaturesSupported s ! (unat f div 8)) (unat f mod 8)) \<and>
    isMessageSupported msgID s =
      (if msgID < 32 then Some (bit (mSupportedMsg s) msgID) else if msgID \<le> 64 then None else Some False)"
  by (intro conjI api_decoders_parts)

section \<open>The contexts\<close>

lemma getLocContext_again:
  assumes "mInjectContext d \<noteq> None" "msg_tasks d = 1"
  shows "getLocContext b d = (case b of FgContext \<Rightarrow> d\<lparr>mFgContext := True\<rparr> | BgContext \<Rightarrow> d\<lparr>mBgContext := True\<rparr>)"
proof -
  have f: "mFgContext d \<Longrightarrow> d\<lparr>mFgContext := True\<rparr> = d" "mBgContext d \<Longrightarrow> d\<lparr>mBgContext := True\<rparr> = d"
    by (cases d; simp)+
  from assms(1) obtain y where y: "mInjectContext d = Some y" by auto
  show ?thesis
  proof (cases b)
    case FgContext
    with assms(2) y f(1) show ?thesis by (cases "mFgContext d") (simp_all add: getLocContext_def Let_def)
  next
    case BgContext
    with assms(2) y f(2) show ?thesis by (cases "mBgContext d") (simp_all add: getLocContext_def Let_def)
  qed
qed

text \<open>
  Whatever the order in which the foreground and the background context are asked for, there is
  one message task, and the feature configuration is injected exactly once, through the context
  that was asked for first; every context that was asked for exists.
\<close>

theorem dual_context_injects_once:
  "let d = fold getLocContext (c # cs) dual_start
   in injected d = [c] \<and> mInjectContext d = Some c \<and> msg_tasks d = 1 \<and>
      (mFgContext d \<longleftrightarrow> FgContext \<in> set (c # cs)) \<and> (mBgContext d \<longleftrightarrow> BgContext \<in> set (c # cs))"
proof -
  have "injected (fold getLocContext cs d) = injected d \<and> mInjectContext (fold getLocContext cs d) = mInjectContext d \<and>
      msg_tasks (fold getLocContext cs d) = 1 \<and>
      (mFgContext (fold getLocContext cs d) \<longleftrightarrow> mFgContext d \<or> FgContext \<in> set cs) \<and>
      (mBgContext (fold getLocContext cs d) \<longleftrightarrow> mBgContext d \<or> BgContext \<in> set cs)"
    if "mInjectContext d \<noteq> None" "msg_tasks d = 1" for d
    using that
  proof (induction cs arbitrary: d)
    case (Cons b bs)
    note g = getLocContext_again [OF Cons.prems, of b]
    have "mInjectContext (getLocContext b d) = mInjectContext d" "msg_tasks (getLocContext b d) = 1"
      "injected (getLocContext b d) = injected d"
      "mFgContext (getLocContext b d) \<longleftrightarrow> mFgContext d \<or> b = FgContext"
      "mBgContext (getLocContext b d) \<longleftrightarrow> mBgContext d \<or> b = BgContext"
      using Cons.prems(2) by (simp_all add: g split: loc_context.split)
    with Cons.IH [of "getLocContext b d"] Cons.prems show ?case by auto
  qed auto
  moreover have "mInjectContext (getLocContext c dual_start) = Some c" "msg_tasks (getLocContext c dual_start) = 1"
    "injected (getLocContext c dual_start) = [c]"
    "mFgContext (getLocContext c dual_start) \<longleftrightarrow> c = FgContext" "mBgContext (getLocContext c dual_start) \<longleftrightarrow> c = BgContext"
    by (cases c; simp add: getLocContext_def Let_def dual_start_def injectFeatureConfig_def)+
  ultimately show ?thesis by (auto simp: Let_def)
qed

end
