(* ===== verification/Loc_Reports.thy ===== *)
theory Loc_Reports
  imports Loc_Api
begin

text \<open>
  What the modem reports, from \<open>LocApiBase.cpp\<close> to the adapters (\<open>LocAdapterBase.cpp\<close>), and the adapters' masks of the
  events that they want.

  \<^item> A report goes to all adapters, or to each in turn until one handles it. An adapter of the base class hands on what
    its proxy takes, and handles nothing itself. Reports carry their arguments; structures are values of \<open>'a\<close>.
  \<^item> Shown: what is delivered, that adapters of the base class keep no request from the engine's adapter, and that the
    modem is asked for what some adapter wants.
\<close>

datatype 'a modem_report =
    Rpt_engine_up
  | Rpt_engine_down
  | Rpt_position 'a 'a ptr int "32 word"
  | Rpt_sv 'a 'a ptr
  | Rpt_status "32 word"
  | Rpt_nmea string int
  | Rpt_measurement 'a
  | Rpt_xtra_server string string string int
  | Rpt_xtra_data
  | Rpt_time
  | Rpt_location
  | Rpt_requestATL int int
  | Rpt_releaseATL int
  | Rpt_suplES int
  | Rpt_data_opened
  | Rpt_data_closed
  | Rpt_ni 'a ptr

text \<open>\<open>TO_ALL_LOCADAPTERS\<close> or \<open>TO_1ST_HANDLING_LOCADAPTERS\<close>.\<close>

fun to_all :: "'a modem_report \<Rightarrow> bool" where
  "to_all Rpt_engine_up = True"
| "to_all Rpt_engine_down = True"
| "to_all (Rpt_position _ _ _ _ _) = True"
| "to_all (Rpt_sv _ _ _) = True"
| "to_all (Rpt_status _) = True"
| "to_all (Rpt_nmea _ _) = True"
| "to_all (Rpt_measurement _) = True"
| "to_all _ = False"

text \<open>The adapters whose function is called, and the state of the API. \<open>handles\<close> is what their functions return.\<close>

definition deliver :: "(nat \<Rightarrow> 'a modem_report \<Rightarrow> bool) \<Rightarrow> 'a modem_report \<Rightarrow> loc_api \<Rightarrow> loc_api \<times> nat list" where
  "deliver handles r s =
     (if r = Rpt_engine_up then handleEngineUpEvent s
      else if to_all r then (s, to_all_adapters (mLocAdapters s) 0)
      else (s, to_1st_handling (\<lambda>a. handles a r) (mLocAdapters s) 0))"

section \<open>Adapters of the base class\<close>

text \<open>The calls of the proxy: a position comes without \<open>locationExt\<close>.\<close>

datatype 'a proxy_call = Px_engine_up | Px_engine_down | Px_position 'a 'a int "32 word"

text \<open>What the functions of \<open>LocAdapterBase\<close> call on the proxy, if there is one, and what they return.\<close>

fun base_report :: "bool \<Rightarrow> 'a modem_report \<Rightarrow> 'a proxy_call option \<times> bool" where
  "base_report proxied Rpt_engine_up = (if proxied then Some Px_engine_up else None, False)"
| "base_report proxied Rpt_engine_down = (if proxied then Some Px_engine_down else None, False)"
| "base_report proxied (Rpt_position location ext _ status tech) =
     (if proxied then Some (Px_position location ext status tech) else None, False)"
| "base_report proxied _ = (None, False)"

record adapter_base =
  mEvtMask :: "32 word"
  mLocApi :: bool
  mLocAdapterProxyBase :: bool

text \<open>The adapters by their numbers, and the API they are registered with.\<close>

record adapters =
  adapter_at :: "nat \<Rightarrow> adapter_base option"
  the_api :: loc_api

definition evt_masks :: "adapters \<Rightarrow> nat \<Rightarrow> 32 word" where
  "evt_masks s a = (case adapter_at s a of None \<Rightarrow> 0 | Some b \<Rightarrow> mEvtMask b)"

definition checkMask :: "32 word \<Rightarrow> adapter_base \<Rightarrow> 32 word" where "checkMask bits b = and (mEvtMask b) bits"

definition put_adapter :: "nat \<Rightarrow> adapter_base \<Rightarrow> adapters \<Rightarrow> adapters" where
  "put_adapter a b s = s\<lparr>adapter_at := (adapter_at s)(a := Some b)\<rparr>"

definition make_adapter :: "nat \<Rightarrow> 32 word \<Rightarrow> bool \<Rightarrow> adapters \<Rightarrow> adapters" where
  "make_adapter a evt proxied s =
     (let s1 = put_adapter a \<lparr>mEvtMask = evt, mLocApi = True, mLocAdapterProxyBase = proxied\<rparr> s
      in s1\<lparr>the_api := addAdapter (evt_masks s1) a (the_api s1)\<rparr>)"

text \<open>The other constructor makes an adapter without an API, which cannot be destroyed.\<close>

definition make_adapter_task :: "nat \<Rightarrow> adapters \<Rightarrow> adapters" where
  "make_adapter_task a s = put_adapter a \<lparr>mEvtMask = 0, mLocApi = False, mLocAdapterProxyBase = False\<rparr> s"

definition destroy_adapter :: "nat \<Rightarrow> adapters \<Rightarrow> adapters option" where
  "destroy_adapter a s =
     do { b \<leftarrow> adapter_at s a;
          if mLocApi b
          then Some (s\<lparr>the_api := removeAdapter (evt_masks s) a (the_api s), adapter_at := (adapter_at s)(a := None)\<rparr>)
          else None }"

definition adapter_updateEvtMask :: "nat \<Rightarrow> 32 word \<Rightarrow> bool \<Rightarrow> adapters \<Rightarrow> adapters option" where
  "adapter_updateEvtMask a event isEnabled s =
     do { b \<leftarrow> adapter_at s a;
          let s1 = put_adapter a (b\<lparr>mEvtMask := if isEnabled then or (mEvtMask b) event else and (mEvtMask b) (not event)\<rparr>) s;
          if mLocApi b then Some (s1\<lparr>the_api := updateEvtMask (evt_masks s1) (the_api s1)\<rparr>) else None }"

section \<open>Properties\<close>

lemma up_to_first_unhandled: "\<forall>x \<in> set xs. \<not> p x \<Longrightarrow> up_to_first p (xs @ ys) = xs @ up_to_first p ys"
  by (induction xs) auto

lemma registered_split:
  assumes "api_inv s" "a \<in> set (registered s)"
  shows "\<exists>xs ys. registered s = xs @ a # ys \<and> a \<notin> set xs \<and> a \<notin> set ys"
proof -
  obtain xs ys where "registered s = xs @ a # ys" using assms(2) by (meson split_list)
  then show ?thesis using assms(1) by (auto simp: api_inv_def)
qed

lemma delivered:
  assumes "api_inv s"
  shows "snd (deliver handles r s) = (if to_all r then registered s else up_to_first (\<lambda>a. handles a r) (registered s))"
proof -
  have arr: "mLocAdapters s = arr_of (registered s)" "length (registered s) \<le> MAX_ADAPTERS"
    using assms by (simp_all add: api_inv_def)
  have "to_1st_handling h (mLocAdapters s) 0 = up_to_first h (registered s)" for h
    using to_1st_arr_of [OF arr(2), of 0 h] arr(1) by simp
  then show ?thesis
    by (auto simp: deliver_def handleEngineUpEvent_def sendMsg_def registered_def Let_def)
qed

text \<open>After any registrations, when all other adapters are of the base class, every report reaches the engine's
  adapter exactly once, in whatever order they registered: no request is handled before.\<close>

theorem reports_reach_engine:
  assumes "engine \<in> set (registered (api_run masks evs (loc_api_new excluded)))"
    and "\<And>a r. a \<noteq> engine \<Longrightarrow> handles a r = snd (base_report (proxied a) r)"
  shows "count_list (snd (deliver handles r (api_run masks evs (loc_api_new excluded)))) engine = 1"
proof -
  let ?s = "api_run masks evs (loc_api_new excluded)"
  have inv: "api_inv ?s" using api_run_inv [OF conjunct1 [OF api_inv_new]] by blast
  from registered_split [OF inv assms(1)] obtain xs ys where
    reg: "registered ?s = xs @ engine # ys" "engine \<notin> set xs" "engine \<notin> set ys" by blast
  have "snd (base_report p q) = False" for p and q :: "'a modem_report" by (cases q) simp_all
  then have "\<forall>x \<in> set xs. \<not> handles x r" "\<forall>x \<in> set ys. \<not> handles x r" using assms(2) reg(2,3) by metis+
  then have "up_to_first (\<lambda>a. handles a r) (registered ?s) = xs @ engine # (if handles engine r then [] else ys)"
    using up_to_first_unhandled [of ys "\<lambda>a. handles a r" "[]"] by (simp add: reg(1) up_to_first_unhandled)
  then show ?thesis using reg by (simp add: delivered [OF inv] count_notin)
qed

lemma reports_reach_engine_witness:
  "count_list (snd (deliver (\<lambda>a r. a = 2) (Rpt_time :: unit modem_report)
     (api_run (\<lambda>_. 1) [AddAdapter 1, AddAdapter 2, AddAdapter 3] (loc_api_new 0)))) 2 = 1"
proof (rule reports_reach_engine [where proxied = "\<lambda>_. True"])
  show "2 \<in> set (registered (api_run (\<lambda>_. 1) [AddAdapter 1, AddAdapter 2, AddAdapter 3] (loc_api_new 0)))"
    using api_run_inv [OF conjunct1 [OF api_inv_new], of "\<lambda>_. 1" "[AddAdapter 1, AddAdapter 2, AddAdapter 3]" 0]
    by (simp add: spec_exec_def spec_add_def api_inv_new MAX_ADAPTERS_def)
  show "(a = 2) = snd (base_report True r)" if "a \<noteq> 2" for a and r :: "unit modem_report"
    using that by (cases r) simp_all
qed

text \<open>After a change of a mask the modem is asked for an event exactly when some registered adapter wants it, and it is not
  excluded.\<close>

lemma mask_asked:
  assumes "adapter_updateEvtMask a event en s = Some s'"
  shows "\<exists>m. msgs (the_api s') = msgs (the_api s) @ [LocOpenMsg m] \<and>
    (\<forall>n < 32. bit m n \<longleftrightarrow> (\<exists>b \<in> set (registered (the_api s)). bit (evt_masks s' b) n) \<and> \<not> bit (mExcludedMask (the_api s)) n) \<and>
    (\<forall>n < 32. bit (evt_masks s' a) n \<longleftrightarrow> (if bit event n then en else bit (evt_masks s a) n))"
proof -
  obtain b where b: "adapter_at s a = Some b" "mLocApi b"
    using assms by (auto simp: adapter_updateEvtMask_def bind_eq_Some_conv Let_def split: if_splits)
  let ?b = "b\<lparr>mEvtMask := if en then or (mEvtMask b) event else and (mEvtMask b) (not event)\<rparr>"
  let ?s = "put_adapter a ?b s"
  have s': "s' = ?s\<lparr>the_api := updateEvtMask (evt_masks ?s) (the_api ?s)\<rparr>"
    using assms b by (simp add: adapter_updateEvtMask_def Let_def)
  have masks: "evt_masks s' = evt_masks ?s" "the_api ?s = the_api s" by (simp_all add: s' evt_masks_def put_adapter_def fun_eq_iff)
  have "evt_masks ?s a = mEvtMask ?b" "evt_masks s a = mEvtMask b" using b by (simp_all add: evt_masks_def put_adapter_def)
  then have "\<forall>n < 32. bit (evt_masks s' a) n \<longleftrightarrow> (if bit event n then en else bit (evt_masks s a) n)"
    by (auto simp: masks bit_simps)
  moreover have "msgs (the_api s') = msgs (the_api s) @ [LocOpenMsg (getEvtMask (evt_masks s') (the_api s))]"
    by (simp only: masks(1)) (simp add: s' updateEvtMask_def sendMsg_def put_adapter_def)
  ultimately show ?thesis by (intro exI [of _ "getEvtMask (evt_masks s') (the_api s)"]) (simp add: getEvtMask_bit)
qed

text \<open>An adapter that was made with a task only follows a NULL pointer when it is destroyed.\<close>

lemma task_adapter_crashes: "destroy_adapter a (make_adapter_task a s) = None"
  by (simp add: destroy_adapter_def make_adapter_task_def put_adapter_def)

end
