(* ===== verification/User_Agent.thy ===== *)
theory User_Agent
  imports Loc_Cfg
begin

text \<open>
  \<open>LocSetXtraUserAgent\<close> of \<open>LocEngAdapter.cpp\<close>: the user agent string of the XTRA client.

  \<^item> A C string in a buffer is the list of its characters before the NUL. The properties of the
    device and the serial number file are arguments; writing the file is not modelled.
  \<^item> \<open>getChipsetSerialNo\<close> returns None where it reads before the start of its buffer.
  \<^item> Shown: the escaping is undone by percent decoding up to the characters that did not fit, the
    fields of the user agent can be split again, and the trimming of the serial number is safe
    exactly when it has a visible character.
\<close>

definition CHIPSET_SERIAL_NUMBER_MAX_LEN :: nat where "CHIPSET_SERIAL_NUMBER_MAX_LEN = 16"
definition USER_AGENT_MAX_LEN :: nat where "USER_AGENT_MAX_LEN = 512"
definition PROPERTY_VALUE_MAX :: nat where "PROPERTY_VALUE_MAX = 92"

definition encodings :: "(char \<times> string) list" where
  "encodings = [(CHR ''/'', ''%2F''), (CHR ''+'', ''%2B''), (CHR ''|'', ''%7C''), (CHR ''%'', ''%25'')]"

definition NUM_CHARS_IN_CODE :: nat where "NUM_CHARS_IN_CODE = 3"

text \<open>The loop: what is left of the val and what is in the buffer.\<close>

fun encode_loop :: "nat \<Rightarrow> string \<Rightarrow> string \<Rightarrow> string" where
  "encode_loop sz [] buffer = buffer"
| "encode_loop sz (c # val) buffer =
     (if \<not> length buffer < sz - 1 then buffer
      else
        (case map_of encodings c of
           None \<Rightarrow> encode_loop sz val (buffer @ [c])
         | Some code \<Rightarrow>
             if sz \<le> length buffer + NUM_CHARS_IN_CODE then buffer
             else encode_loop sz val (buffer @ take (sz - 1 - length buffer) (take NUM_CHARS_IN_CODE code))))"

definition encodeInPlace :: "string \<Rightarrow> nat \<Rightarrow> string" where
  "encodeInPlace val sz = encode_loop sz val []"

text \<open>
  \<open>getChipsetSerialNo\<close>: \<open>len\<close> is unsigned, so the test \<open>--len >= 0\<close> always holds and an empty
  buffer is read at the index \<open>SIZE_MAX\<close>.
\<close>

function trim_trailing :: "string \<Rightarrow> string option" where
  "trim_trailing buf =
     (if buf = [] then None
      else if isspace (last buf) then trim_trailing (butlast buf) else Some buf)"
  by pat_completeness auto
termination
  by (relation "measure length") (auto simp: length_butlast)

declare trim_trailing.simps [simp del]

definition c_string :: "string \<Rightarrow> string" where
  "c_string = takeWhile (\<lambda>c. c \<noteq> CHR 0x00)"

definition getChipsetSerialNo :: "string option \<Rightarrow> nat \<Rightarrow> string \<Rightarrow> string option" where
  "getChipsetSerialNo serial_file buflen def =
     (case serial_file of
        None \<Rightarrow> Some (take (buflen - 1) def)
      | Some content \<Rightarrow>
          (let buf = take (buflen - 1) content
           in trim_trailing (c_string (if buf = [] then take (buflen - 1) def else buf))))"

text \<open>The output of \<open>snprintf\<close> without its limit.\<close>

definition agent_format :: "string \<Rightarrow> string \<Rightarrow> string \<Rightarrow> string \<Rightarrow> nat \<Rightarrow> string \<Rightarrow> string \<Rightarrow> string" where
  "agent_format release manufacture model board izat_dev_id chipsetsn brand =
     ''A/'' @ release @ ''/'' @ manufacture @ ''/'' @ model @ ''/'' @ board @ ''/-/QCX3/s'' @ show_nat izat_dev_id @
     ''/-/'' @ chipsetsn @ ''/-/'' @ brand @ ''/-/-/-''"

definition space_hash :: "char \<Rightarrow> char" where
  "space_hash c = (if c = CHR '' '' then CHR ''#'' else c)"

definition user_agent ::
  "string \<Rightarrow> string \<Rightarrow> string \<Rightarrow> string \<Rightarrow> string \<Rightarrow> nat \<Rightarrow> string option \<Rightarrow> string option" where
  "user_agent release manufacture model board brand izat_dev_id serial_file =
     (case getChipsetSerialNo serial_file CHIPSET_SERIAL_NUMBER_MAX_LEN ''-'' of
        None \<Rightarrow> None
      | Some chipsetsn \<Rightarrow>
          (let enc = (\<lambda>v. encodeInPlace v PROPERTY_VALUE_MAX);
               userAgent = agent_format (enc release) (enc manufacture) (enc model) (enc board) izat_dev_id chipsetsn (enc brand)
           in Some (map space_hash (take (USER_AGENT_MAX_LEN - 1) userAgent))))"

section \<open>Escaping\<close>

definition encode_char :: "char \<Rightarrow> string" where
  "encode_char c = (case map_of encodings c of None \<Rightarrow> [c] | Some code \<Rightarrow> code)"

text \<open>The longest prefix whose codes fit into \<open>n\<close> characters.\<close>

fun fitting :: "nat \<Rightarrow> string \<Rightarrow> string" where
  "fitting n [] = []"
| "fitting n (c # s) =
     (if length (encode_char c) \<le> n then c # fitting (n - length (encode_char c)) s else [])"

text \<open>The decoder of the receiver.\<close>

fun percent_decode :: "string \<Rightarrow> string" where
  "percent_decode (c # a # b # s) =
     (if c = CHR ''%'' then
        (case digit_val a of
           Some x \<Rightarrow> (case digit_val b of Some y \<Rightarrow> char_of (16 * x + y) # percent_decode s | None \<Rightarrow> [])
         | None \<Rightarrow> [])
      else c # percent_decode (a # b # s))"
| "percent_decode s = s"

lemma code_length: "map_of encodings c = Some code \<Longrightarrow> length code = NUM_CHARS_IN_CODE"
  by (auto simp: encodings_def NUM_CHARS_IN_CODE_def split: if_splits)

lemma encode_loop_fitting:
  "length buffer \<le> sz - 1 \<Longrightarrow>
     encode_loop sz val buffer = buffer @ concat (map encode_char (fitting (sz - 1 - length buffer) val))"
proof (induction val arbitrary: buffer)
  case (Cons c val)
  show ?case
  proof (cases "map_of encodings c")
    case None
    then show ?thesis using Cons.IH [of "buffer @ [c]"] Cons.prems by (auto simp: encode_char_def)
  next
    case (Some code)
    have n: "length code = 3" using code_length [OF Some] by (simp add: NUM_CHARS_IN_CODE_def)
    show ?thesis
    proof (cases "length buffer + 3 \<le> sz - 1")
      case True
      then have "sz - 1 - length buffer - 3 = sz - 1 - (length buffer + 3)" by simp
      with True show ?thesis using Cons.IH [of "buffer @ code"] n Some
        by (auto simp: encode_char_def NUM_CHARS_IN_CODE_def)
    next
      case False
      then show ?thesis using n Some Cons.prems by (auto simp: encode_char_def NUM_CHARS_IN_CODE_def)
    qed
  qed
qed simp

lemma decode_other: "c \<noteq> CHR ''%'' \<Longrightarrow> percent_decode (c # s) = c # percent_decode s"
  by (cases s rule: percent_decode.cases) auto

lemma decode_code: "percent_decode (encode_char c @ s) = c # percent_decode s"
proof (cases "map_of encodings c")
  case None
  then have "c \<noteq> CHR ''%''" by (auto simp: encodings_def)
  with None show ?thesis by (simp add: encode_char_def decode_other)
next
  case (Some code)
  then have "c = CHR ''/'' \<and> code = ''%2F'' \<or> c = CHR ''+'' \<and> code = ''%2B'' \<or> c = CHR ''|'' \<and> code = ''%7C'' \<or>
    c = CHR ''%'' \<and> code = ''%25''" by (auto simp: encodings_def split: if_splits)
  moreover have "char_of (47::nat) = CHR ''/''" "char_of (43::nat) = CHR ''+''" "char_of (124::nat) = CHR ''|''"
    "char_of (37::nat) = CHR ''%''" by code_simp+
  ultimately show ?thesis using Some
    by (auto simp: encode_char_def digit_val_def tolower_def)
qed

lemma decode_encoded: "percent_decode (concat (map encode_char s)) = s"
  by (induction s) (simp_all add: decode_code)

lemma fitting_prefix: "\<exists>rest. s = fitting n s @ rest"
  by (induction s arbitrary: n) auto

lemma fitting_all: "length (concat (map encode_char s)) \<le> n \<Longrightarrow> fitting n s = s"
  by (induction s arbitrary: n) auto

lemma fitting_maximal:
  "s = fitting n s @ c # rest \<Longrightarrow> n < length (concat (map encode_char (fitting n s @ [c])))"
proof (induction s arbitrary: n)
  case (Cons a s)
  show ?case
  proof (cases "length (encode_char a) \<le> n")
    case True
    with Cons.prems have "s = fitting (n - length (encode_char a)) s @ c # rest" by simp
    from Cons.IH [OF this] True show ?thesis by simp
  next
    case False
    with Cons.prems show ?thesis by simp
  qed
qed simp

lemma fitting_bound: "length (concat (map encode_char (fitting n s))) \<le> n"
proof (induction s arbitrary: n)
  case (Cons a s)
  from Cons.IH [of "n - length (encode_char a)"] show ?case
    by (cases "length (encode_char a) \<le> n") (simp_all del: length_concat)
qed simp

text \<open>No code contains a separator.\<close>

lemma encode_char_separators: "set (encode_char c) \<inter> {CHR ''/'', CHR ''+'', CHR ''|''} = {}"
  by (auto simp: encode_char_def encodings_def split: option.splits if_splits)

lemma encodeInPlace_fitting: "encodeInPlace val sz = concat (map encode_char (fitting (sz - 1) val))"
  by (simp add: encodeInPlace_def encode_loop_fitting)

lemma encoded_separators: "set (encodeInPlace val sz) \<inter> {CHR ''/'', CHR ''+'', CHR ''|''} = {}"
  using encode_char_separators by (fastforce simp: encodeInPlace_fitting)

text \<open>
  \<open>encodeInPlace\<close> loses nothing but what does not fit: it stays inside its buffer and writes no
  separator, the decoder of the receiver gives back a prefix of the value, the whole value if its
  code fits, and otherwise the code of one more character would not have fitted.
\<close>

theorem user_agent_escape_roundtrip:
  "length (encodeInPlace val sz) \<le> sz - 1 \<and>
   set (encodeInPlace val sz) \<inter> {CHR ''/'', CHR ''+'', CHR ''|''} = {} \<and>
   (\<exists>rest. val = percent_decode (encodeInPlace val sz) @ rest \<and>
     (rest = [] \<or> sz - 1 < length (encodeInPlace val sz @ encode_char (hd rest))))"
proof -
  obtain rest where r: "val = fitting (sz - 1) val @ rest" using fitting_prefix by blast
  have "rest = [] \<or> sz - 1 < length (encodeInPlace val sz @ encode_char (hd rest))"
  proof (cases rest)
    case (Cons c rest')
    from fitting_maximal [OF r [unfolded Cons]] Cons show ?thesis by (simp add: encodeInPlace_fitting)
  qed simp
  with r fitting_bound [of "sz - 1" val] encoded_separators show ?thesis
    by (auto simp: encodeInPlace_fitting decode_encoded simp del: length_concat)
qed

section \<open>The serial number\<close>

lemma rstrip_snoc: "rstrip (s @ [c]) = (if isspace c then rstrip s else s @ [c])"
  by (simp add: rstrip_def)

lemma trim_trailing_rstrip:
  "trim_trailing s = (if \<forall>c \<in> set s. isspace c then None else Some (rstrip s))"
proof (induction s rule: rev_induct)
  case Nil
  show ?case by (simp add: trim_trailing.simps)
next
  case (snoc c s)
  then show ?case by (subst trim_trailing.simps) (simp add: rstrip_snoc)
qed

text \<open>
  The serial number is the first line of its file, cut to the buffer, without trailing white
  space; but if the part that is read is blank, or starts with a NUL, the loop reads before the
  buffer (\<open>--len >= 0\<close> cannot fail). An unreadable or empty file gives the default.
\<close>

theorem chipset_serial_number:
  "getChipsetSerialNo serial_file 16 ''-'' =
     (case serial_file of
        None \<Rightarrow> Some ''-''
      | Some content \<Rightarrow>
          if content = [] then Some ''-''
          else if \<forall>c \<in> set (c_string (take 15 content)). isspace c then None
          else Some (rstrip (c_string (take 15 content))))"
proof -
  have d: "c_string ''-'' = ''-''" "\<not> isspace CHR ''-''" "rstrip ''-'' = ''-''" by code_simp+
  show ?thesis by (auto simp: getChipsetSerialNo_def trim_trailing_rstrip Let_def d split: option.splits)
qed

section \<open>The user agent\<close>

lemma splits_last: "d \<notin> set s \<Longrightarrow> splits d s = [s]"
  by (induction s) auto

lemma splits_field: "d \<notin> set s \<Longrightarrow> splits d (s @ d # t) = s # splits d t"
  by (induction s) auto

lemma space_hash_slash: "CHR ''/'' \<notin> set s \<Longrightarrow> CHR ''/'' \<notin> set (map space_hash s)"
  by (auto simp: space_hash_def split: if_splits)

definition agent_fields :: "string \<Rightarrow> string \<Rightarrow> string \<Rightarrow> string \<Rightarrow> nat \<Rightarrow> string \<Rightarrow> string \<Rightarrow> string list" where
  "agent_fields release manufacture model board izat_dev_id chipsetsn brand =
     [''A'', release, manufacture, model, board, ''-'', ''QCX3'', ''s'' @ show_nat izat_dev_id, ''-'', chipsetsn,
      ''-'', brand, ''-'', ''-'', ''-'']"

lemma agent_format_fields:
  assumes "\<forall>f \<in> set (agent_fields r m mo b i sn br). CHR ''/'' \<notin> set f"
  shows "splits (CHR ''/'') (map space_hash (agent_format r m mo b i sn br)) =
    map (map space_hash) (agent_fields r m mo b i sn br)"
proof -
  let ?h = "map space_hash"
  have c: "space_hash CHR ''/'' = CHR ''/''" by (simp add: space_hash_def)
  have "?h (agent_format r m mo b i sn br) =
    ?h ''A'' @ CHR ''/'' # ?h r @ CHR ''/'' # ?h m @ CHR ''/'' # ?h mo @ CHR ''/'' # ?h b @ CHR ''/'' # ?h ''-'' @
    CHR ''/'' # ?h ''QCX3'' @ CHR ''/'' # ?h (''s'' @ show_nat i) @ CHR ''/'' # ?h ''-'' @ CHR ''/'' # ?h sn @
    CHR ''/'' # ?h ''-'' @ CHR ''/'' # ?h br @ CHR ''/'' # ?h ''-'' @ CHR ''/'' # ?h ''-'' @ CHR ''/'' # ?h ''-''"
    by (simp add: agent_format_def c)
  moreover have "\<forall>f \<in> set (agent_fields r m mo b i sn br). CHR ''/'' \<notin> set (?h f)"
    using assms space_hash_slash by blast
  ultimately show ?thesis
    by (simp add: agent_fields_def splits_field splits_last del: list.map map_append set_map) (simp only: list.map)
qed

text \<open>
  The server of the user agent can take it apart: if nothing is cut off and the serial number
  (which is not escaped) has no slash, splitting at slashes gives the fifteen fields with the escaped
  properties, where spaces have become number signs.
\<close>

theorem user_agent_splits:
  assumes "getChipsetSerialNo serial_file 16 ''-'' = Some sn" and "CHR ''/'' \<notin> set sn"
    and "fs = agent_fields (encodeInPlace r 92) (encodeInPlace m 92) (encodeInPlace mo 92) (encodeInPlace b 92) i sn
      (encodeInPlace br 92)"
    and "sum_list (map length fs) \<le> 497"
  shows "map_option (splits (CHR ''/'')) (user_agent r m mo b br i serial_file) = Some (map (map space_hash) fs)"
proof -
  let ?u = "agent_format (encodeInPlace r 92) (encodeInPlace m 92) (encodeInPlace mo 92) (encodeInPlace b 92) i sn
    (encodeInPlace br 92)"
  have "length ?u \<le> 511" using assms(4) by (simp add: assms(3) agent_fields_def agent_format_def)
  then have u: "user_agent r m mo b br i serial_file = Some (map space_hash ?u)"
    by (simp add: user_agent_def assms(1) CHIPSET_SERIAL_NUMBER_MAX_LEN_def PROPERTY_VALUE_MAX_def USER_AGENT_MAX_LEN_def)
  have e: "CHR ''/'' \<notin> set (encodeInPlace v 92)" for v using encoded_separators [of v 92] by auto
  have "CHR ''/'' \<notin> set (show_nat i)" using show_nat_digits [of i] by (auto simp: is_digit_def)
  with e assms(2) have "\<forall>f \<in> set fs. CHR ''/'' \<notin> set f" by (simp add: assms(3) agent_fields_def)
  from agent_format_fields [OF this [unfolded assms(3)]] show ?thesis by (simp add: u assms(3))
qed

theorem user_agent_splits_witness:
  "map_option (splits (CHR ''/'')) (user_agent ''9'' ''ASUS'' ''Zen 2'' ''a/b'' ''asus'' 7 (Some (''12 '' @ [CHR 0x0A]))) =
     Some [''A'', ''9'', ''ASUS'', ''Zen#2'', ''a%2Fb'', ''-'', ''QCX3'', ''s7'', ''-'', ''12'', ''-'', ''asus'', ''-'', ''-'', ''-'']"
proof -
  let ?f = "agent_fields ''9'' ''ASUS'' ''Zen 2'' ''a%2Fb'' 7 ''12'' ''asus''"
  have s: "getChipsetSerialNo (Some (''12 '' @ [CHR 0x0A])) 16 ''-'' = Some ''12''"
    by code_simp
  have e: "encodeInPlace ''9'' 92 = ''9''" "encodeInPlace ''ASUS'' 92 = ''ASUS''" "encodeInPlace ''Zen 2'' 92 = ''Zen 2''"
    "encodeInPlace ''a/b'' 92 = ''a%2Fb''" "encodeInPlace ''asus'' 92 = ''asus''" by code_simp+
  have l: "sum_list (map length ?f) \<le> 497" by code_simp
  have f: "map (map space_hash) ?f = [''A'', ''9'', ''ASUS'', ''Zen#2'', ''a%2Fb'', ''-'', ''QCX3'', ''s7'', ''-'', ''12'', ''-'', ''asus'',
    ''-'', ''-'', ''-'']" by code_simp
  show ?thesis using user_agent_splits [OF s _ refl, of "''9''" "''ASUS''" "''Zen 2''" "''a/b''" 7 "''asus''"] l f by (simp add: e)
qed

end
