(* ===== verification/Eng_Adapter.thy ===== *)
theory Eng_Adapter
  imports Agps Loc_Cfg Loc_Api
begin

text \<open>
  \<open>LocEngAdapter.h\<close>, \<open>LocEngAdapter.cpp\<close>, \<open>UlpProxyBase.h\<close>, \<open>gps_extended.h\<close> and the data of
  \<open>loc_eng.h\<close>, \<open>loc_eng_msg.h\<close>: the adapter between the engine and the location API.

  \<^item> \<open>loc_eng\<close> is \<open>loc_eng_data_s_type\<close> with its adapter, the configuration structures (variables of
    \<open>Loc_Cfg\<close>), the two global variables of \<open>loc_eng.cpp\<close> and the queue of the message task
    (oldest message first, a \<open>Msg_Queue\<close>). \<open>calls\<close> logs the calls of the location API, of the ULP
    proxy and of the client's callbacks, in order.
  \<^item> \<open>adapter_set\<close> is \<open>adapter != NULL\<close>. Callbacks are flags: set or NULL.
  \<^item> Floating point values are their bit patterns: the engine only hands them on, the comparison of
    the accuracy with its threshold is in \<open>eng_env\<close>, with the results of the location API and of an
    external ULP proxy. An external proxy is taken not to write the fields of its base class.
  \<^item> Shown: the escaping of the user agent's fields loses nothing but what does not fit, the trimming
    of the serial number is safe exactly when the number has a visible character, the power votes.
\<close>

section \<open>Data\<close>

datatype gps_status =
  GPS_STATUS_NONE | GPS_STATUS_SESSION_BEGIN | GPS_STATUS_SESSION_END | GPS_STATUS_ENGINE_ON | GPS_STATUS_ENGINE_OFF

datatype loc_mute_session = LOC_MUTE_SESS_NONE | LOC_MUTE_SESS_WAIT | LOC_MUTE_SESS_IN_SESSION

datatype loc_sess_status = LOC_SESS_SUCCESS | LOC_SESS_INTERMEDIATE | LOC_SESS_FAILURE

datatype loc_server_type =
  LOC_AGPS_CDMA_PDE_SERVER | LOC_AGPS_CUSTOM_PDE_SERVER | LOC_AGPS_MPC_SERVER | LOC_AGPS_SUPL_SERVER

datatype loc_registration_mask_status = LOC_REGISTRATION_MASK_ENABLED | LOC_REGISTRATION_MASK_DISABLED

definition LOC_POSITION_MODE_INVALID :: int where "LOC_POSITION_MODE_INVALID = -1"
definition LOC_POSITION_MODE_STANDALONE :: int where "LOC_POSITION_MODE_STANDALONE = 0"
definition LOC_POSITION_MODE_MS_BASED :: int where "LOC_POSITION_MODE_MS_BASED = 1"
definition LOC_POSITION_MODE_MS_ASSISTED :: int where "LOC_POSITION_MODE_MS_ASSISTED = 2"
definition MIN_POSSIBLE_FIX_INTERVAL :: "32 word" where "MIN_POSSIBLE_FIX_INTERVAL = 1000"

datatype recurrence = GPS_POSITION_RECURRENCE_PERIODIC | GPS_POSITION_RECURRENCE_SINGLE

record loc_pos_mode =
  mode :: int
  recurrence :: recurrence
  min_interval :: "32 word"
  preferred_accuracy :: "32 word"
  preferred_time :: "32 word"
  credentials :: string
  provider :: string

definition LocPosMode ::
  "int \<Rightarrow> recurrence \<Rightarrow> 32 word \<Rightarrow> 32 word \<Rightarrow> 32 word \<Rightarrow> string option \<Rightarrow> string option \<Rightarrow> loc_pos_mode" where
  "LocPosMode m recr gap accu time cred prov =
     \<lparr>mode = m, recurrence = recr,
      min_interval = (if gap < MIN_POSSIBLE_FIX_INTERVAL then MIN_POSSIBLE_FIX_INTERVAL else gap),
      preferred_accuracy = accu, preferred_time = time,
      credentials = (case cred of None \<Rightarrow> [] | Some s \<Rightarrow> take 13 s),
      provider = (case prov of None \<Rightarrow> [] | Some s \<Rightarrow> take 7 s)\<rparr>"

text \<open>A structure cleared by \<open>memset\<close>.\<close>

definition zero_pos_mode :: loc_pos_mode where
  "zero_pos_mode =
     \<lparr>mode = 0, recurrence = GPS_POSITION_RECURRENCE_PERIODIC, min_interval = 0, preferred_accuracy = 0,
      preferred_time = 0, credentials = [], provider = []\<rparr>"

text \<open>\<open>strncmp\<close> of the first 13 and 7 characters.\<close>

definition pos_mode_equals :: "loc_pos_mode \<Rightarrow> loc_pos_mode \<Rightarrow> bool" where
  "pos_mode_equals p another \<longleftrightarrow>
     mode another = mode p \<and> recurrence another = recurrence p \<and> min_interval another = min_interval p \<and>
     preferred_accuracy another = preferred_accuracy p \<and> preferred_time another = preferred_time p \<and>
     cstr_eq (take 13 (credentials another)) (take 13 (credentials p)) \<and>
     cstr_eq (take 7 (provider another)) (take 7 (provider p))"

record sv_used =
  gps_sv_used_ids_mask :: "64 word"
  glo_sv_used_ids_mask :: "64 word"
  gal_sv_used_ids_mask :: "64 word"
  bds_sv_used_ids_mask :: "64 word"

definition no_sv_used :: sv_used where
  "no_sv_used = \<lparr>gps_sv_used_ids_mask = 0, glo_sv_used_ids_mask = 0, gal_sv_used_ids_mask = 0, bds_sv_used_ids_mask = 0\<rparr>"

datatype gnss_constellation =
  GNSS_CONSTELLATION_UNKNOWN | GNSS_CONSTELLATION_GPS | GNSS_CONSTELLATION_SBAS | GNSS_CONSTELLATION_GLONASS |
  GNSS_CONSTELLATION_QZSS | GNSS_CONSTELLATION_BEIDOU | GNSS_CONSTELLATION_GALILEO

definition GNSS_SV_FLAGS_USED_IN_FIX :: "8 word" where "GNSS_SV_FLAGS_USED_IN_FIX = 4"

record gnss_sv =
  svid :: int
  constellation :: gnss_constellation
  elevation :: "32 word"
  azimuth :: "32 word"
  c_n0_dbhz :: "32 word"
  sv_flags :: "8 word"

record ulp_location =
  loc_flags :: "16 word"
  latitude :: "64 word"
  longitude :: "64 word"
  altitude :: "64 word"
  speed :: "32 word"
  bearing :: "32 word"
  timestamp :: int
  accuracy :: "32 word"
  position_source :: "16 word"
  rawData :: ptr

record location_extended =
  ext_flags :: "16 word"
  altitudeMeanSeaLevel :: "32 word"
  pdop :: "32 word"
  hdop :: "32 word"
  vdop :: "32 word"
  magneticDeviation :: "32 word"
  gnss_sv_used_ids :: sv_used

definition zero_extended :: location_extended where
  "zero_extended = \<lparr>ext_flags = 0, altitudeMeanSeaLevel = 0, pdop = 0, hdop = 0, vdop = 0, magneticDeviation = 0,
     gnss_sv_used_ids = no_sv_used\<rparr>"

text \<open>
  The ULP proxy: \<open>ulp_ext\<close> is an object of a class outside the repository that is derived from
  \<open>UlpProxyBase\<close>, whose fields are \<open>mPosMode\<close> and \<open>mFixSet\<close>.
\<close>

record ulp_proxy =
  ulp_id :: nat
  ulp_ext :: bool
  mPosMode :: loc_pos_mode
  mFixSet :: bool

definition UlpProxyBase :: "nat \<Rightarrow> ulp_proxy" where
  "UlpProxyBase i =
     \<lparr>ulp_id = i, ulp_ext = False, mPosMode = zero_pos_mode\<lparr>mode := LOC_POSITION_MODE_INVALID\<rparr>, mFixSet = False\<rparr>"

datatype nif = AgnssNif | InternetNif | DsNif

record ni_request =
  ni_privacy_override :: bool
  ni_payload :: ptr

text \<open>
  The messages of the engine, in four groups: the session and the engine itself, what the modem
  reports or asks for, data connections, and what is only handed on to the modem.
\<close>

datatype session_msg =
    LocEngStartFix
  | LocEngStopFix
  | LocEngPositionMode loc_pos_mode
  | LocEngGetZpp
  | LocEngDelAidData "16 word"
  | LocEngInit
  | LocEngDown
  | LocEngUp
  | LocEngGnssConstellationConfig
  | LocSetUlpProxy "ulp_proxy option"

datatype report_msg =
    LocEngReportPosition ulp_location location_extended loc_sess_status "32 word"
  | LocEngReportSv "gnss_sv list" location_extended
  | LocEngReportStatus gps_status
  | LocEngReportNmea string
  | LocEngReportXtraServer "string list"
  | LocEngReportGnssMeasurement nat
  | LocEngRequestNi ni_request
  | LocEngRequestXtra
  | LocEngRequestTime
  | LocEngSetCapabilities
  | LocEngSetSystemInfo

datatype data_msg =
    LocEngReqRelBIT int "32 word" "string option" bool
  | LocEngSuplEsOpened
  | LocEngSuplEsClosed
  | LocEngRequestSuplEs "32 word"
  | LocEngRequestATL "32 word" int
  | LocEngReleaseATL "32 word"
  | LocEngReqRelWifi int "32 word" "string option" "string option" bool
  | LocEngAtlOpenSuccess int string int
  | LocEngAtlClosed int
  | LocEngAtlOpenFailed int
  | LocEngAgnssNifInit

datatype server_msg =
    LocEngSetServerIpv4 "32 word" int loc_server_type
  | LocEngSetServerUrl string
  | LocEngEnableData int "string option"
  | LocEngInstallAGpsCert "string list" "32 word"
  | LocEngUpdateRegistrationMask "32 word" loc_registration_mask_status
  | LocEngRequestXtraServer
  | LocEngInjectXtraData string
  | LocEngSetXtraVersionCheck int
  | LocEngSetTime int int int
  | LocEngInjectLocation "64 word" "64 word" "32 word"
  | LocEngAdapterGpsLock "32 word"
  | LocSetXtraUserAgent

datatype param_msg =
    LocEngAGlonassProtocol "32 word"
  | LocEngLPPeProtocol "32 word" "32 word"
  | LocEngSuplVer "32 word"
  | LocEngSuplMode nat
  | LocEngSetNmeaTypes "32 word"
  | LocEngLppConfig "32 word"
  | LocEngSensorControlConfig "32 word" "32 word"
  | LocEngSensorProperties "(bool \<times> 64 word) list"
  | LocEngSensorPerfControlConfig "32 word list"

datatype eng_msg =
    Session session_msg
  | Report report_msg
  | Data data_msg
  | Server server_msg
  | Param param_msg

text \<open>The calls that leave the engine, in the same way.\<close>

datatype xtra_version_check = DISABLED | AUTO | XTRA2 | XTRA3

datatype modem_call =
    StartFix loc_pos_mode
  | StopFix
  | SetInSession bool
  | SetPositionMode loc_pos_mode
  | DeleteAidingData "16 word"
  | GnssConstellationConfig
  | InitDataServiceClient
  | GetBestAvailableZppFix
  | SetGpsLock "32 word"
  | ModemPowerVote bool
  | AtlOpen "32 word" bool "string option" int int
  | AtlClose "32 word" bool

datatype server_call =
    EnableData int
  | SetApn string
  | SetTime int int int
  | InjectPosition "64 word" "64 word" "32 word"
  | SetServerUrl string
  | SetServerIpv4 "32 word" int loc_server_type
  | InstallAGpsCert "string list" "32 word"
  | UpdateRegistrationMask "32 word" loc_registration_mask_status
  | RequestXtraServer
  | SetXtraData string
  | SetXtraVersionCheck xtra_version_check
  | RequestUlp "32 word"

datatype param_call =
    SetAGLONASSProtocol "32 word"
  | SetLPPeProtocol "32 word" "32 word"
  | SetSUPLVersion "32 word"
  | SetNMEATypes "32 word"
  | SetLPPConfig "32 word"
  | SetSensorControlConfig "32 word" "32 word"
  | SetSensorProperties "(bool \<times> 64 word) list"
  | SetSensorPerfControlConfig "32 word list"

datatype ulp_call =
    UlpSetCapabilities "32 word"
  | UlpFixMode nat loc_pos_mode
  | UlpStartFix nat
  | UlpStopFix nat
  | UlpReportPosition ulp_location
  | UlpReportSv "gnss_sv list"
  | UlpReportStatus gps_status

datatype client_call =
    CbLocation "ulp_location option"
  | CbStatus gps_status
  | CbSvStatus "gnss_sv list"
  | CbNmea string
  | CbMeasurement nat
  | CbCapabilities "32 word"
  | CbSystemInfo nat
  | CbUtcTime
  | CbXtraServers "string list"
  | CbXtraDownload

datatype eng_call =
    Modem modem_call
  | ModemServer server_call
  | ModemParam param_call
  | Ulp ulp_call
  | Client client_call
  | NifCall nif agps_out
  | NiRequestHandler ni_request
  | NiReset
  | NmeaGeneratePos ulp_location location_extended bool int
  | NmeaGenerateSv "gnss_sv list" location_extended
  | WriteUserAgent
  | FreeRawData nat

record eng_adapter =
  mEvtMask :: "32 word"
  mUlp :: ulp_proxy
  mFixCriteria :: loc_pos_mode
  mNavigating :: bool
  mPowerVote :: "32 word"
  mGnssSvIdUsedInPosition :: sv_used
  mGnssSvIdUsedInPosAvail :: bool
  mSupportsAgpsRequests :: bool
  mSupportsPositionInjection :: bool
  mSupportsTimeInjection :: bool
  year_of_hw :: nat

record eng_callbacks =
  location_cb :: bool
  status_cb :: bool
  nmea_cb :: bool
  set_capabilities_cb :: bool
  request_utc_time_cb :: bool
  set_system_info_cb :: bool
  gnss_sv_status_cb :: bool

record loc_eng =
  conf :: "64 word cfg_mem"
  configAlreadyRead :: bool
  agpsStatus :: "32 word"
  adapter_set :: bool
  adapter :: eng_adapter
  cbs :: eng_callbacks
  agps_status_cb :: bool
  gnss_measurement_cb :: bool
  download_request_cb :: bool
  report_xtra_server_cb :: bool
  intermediateFix :: "8 word"
  agnss_nif :: "agps_sm option"
  internet_nif :: "agps_sm option"
  ds_nif :: "agps_sm option"
  engine_status :: gps_status
  fix_session_status :: gps_status
  aiding_data_for_deletion :: "16 word"
  mute_session_state :: loc_mute_session
  generateNmea :: bool
  supl_host :: "(string \<times> int) option"
  c2k_host :: "(string \<times> int) option"
  next_ulp :: nat
  queue :: "eng_msg list"
  calls :: "eng_call list"

record eng_env =
  start_ret :: int
  constellation_ok :: bool
  ds_client_ret :: int
  nif_env :: agps_env
  ulp_takes :: bool
  ni_accepts :: bool
  resolve :: "string \<Rightarrow> 32 word option"
  over_thres :: "32 word \<Rightarrow> 32 word \<Rightarrow> bool"
  zpp :: "ulp_location \<times> 32 word"
  lbs_agps :: bool
  lbs_cpi :: bool
  lbs_xtra :: bool
  target_qca1530 :: bool
  long_bits :: nat
  atof_fn :: "string \<Rightarrow> 64 word"
  malloc_ok :: bool
definition call :: "eng_call \<Rightarrow> loc_eng \<Rightarrow> loc_eng" where
  "call c e = e\<lparr>calls := calls e @ [c]\<rparr>"

definition send_msg :: "eng_msg \<Rightarrow> loc_eng \<Rightarrow> loc_eng" where
  "send_msg m e = e\<lparr>queue := queue e @ [m]\<rparr>"

definition upd_adapter :: "(eng_adapter \<Rightarrow> eng_adapter) \<Rightarrow> loc_eng \<Rightarrow> loc_eng" where
  "upd_adapter f e = e\<lparr>adapter := f (adapter e)\<rparr>"

definition upd_ulp :: "(ulp_proxy \<Rightarrow> ulp_proxy) \<Rightarrow> loc_eng \<Rightarrow> loc_eng" where
  "upd_ulp f = upd_adapter (\<lambda>a. a\<lparr>mUlp := f (mUlp a)\<rparr>)"

section \<open>The configuration\<close>

text \<open>
  The variables of \<open>gps_conf\<close> and \<open>sap_conf\<close> by their addresses, and the two tables that
  \<open>UTIL_READ_CONF\<close> and \<open>UTIL_UPDATE_CONF\<close> fill them by.
\<close>

definition GPS_LOCK :: nat where "GPS_LOCK = 1"
definition SUPL_VER :: nat where "SUPL_VER = 2"
definition LPP_PROFILE :: nat where "LPP_PROFILE = 3"
definition A_GLONASS_POS_PROTOCOL_SELECT :: nat where "A_GLONASS_POS_PROTOCOL_SELECT = 4"
definition LPPE_CP_TECHNOLOGY :: nat where "LPPE_CP_TECHNOLOGY = 5"
definition LPPE_UP_TECHNOLOGY :: nat where "LPPE_UP_TECHNOLOGY = 6"
definition AGPS_CERT_WRITABLE_MASK :: nat where "AGPS_CERT_WRITABLE_MASK = 7"
definition SUPL_MODE :: nat where "SUPL_MODE = 8"
definition SUPL_ES :: nat where "SUPL_ES = 9"
definition INTERMEDIATE_POS :: nat where "INTERMEDIATE_POS = 10"
definition ACCURACY_THRES :: nat where "ACCURACY_THRES = 11"
definition NMEA_PROVIDER :: nat where "NMEA_PROVIDER = 12"
definition CAPABILITIES :: nat where "CAPABILITIES = 13"
definition XTRA_VERSION_CHECK :: nat where "XTRA_VERSION_CHECK = 14"
definition XTRA_SERVER_1 :: nat where "XTRA_SERVER_1 = 15"
definition XTRA_SERVER_2 :: nat where "XTRA_SERVER_2 = 16"
definition XTRA_SERVER_3 :: nat where "XTRA_SERVER_3 = 17"
definition USE_EMERGENCY_PDN :: nat where "USE_EMERGENCY_PDN = 18"

lemmas gps_addrs =
  GPS_LOCK_def SUPL_VER_def LPP_PROFILE_def A_GLONASS_POS_PROTOCOL_SELECT_def LPPE_CP_TECHNOLOGY_def
  LPPE_UP_TECHNOLOGY_def AGPS_CERT_WRITABLE_MASK_def SUPL_MODE_def SUPL_ES_def INTERMEDIATE_POS_def
  ACCURACY_THRES_def NMEA_PROVIDER_def CAPABILITIES_def XTRA_VERSION_CHECK_def XTRA_SERVER_1_def
  XTRA_SERVER_2_def XTRA_SERVER_3_def USE_EMERGENCY_PDN_def

definition conf_entry :: "string \<Rightarrow> nat \<Rightarrow> char \<Rightarrow> loc_param_s_type" where
  "conf_entry name a ty = \<lparr>param_name = name, param_ptr = Some a, param_set = None, param_type = ty\<rparr>"

definition gps_conf_table :: "loc_param_s_type list" where
  "gps_conf_table =
     [conf_entry ''GPS_LOCK'' GPS_LOCK (CHR ''n''),
      conf_entry ''SUPL_VER'' SUPL_VER (CHR ''n''),
      conf_entry ''LPP_PROFILE'' LPP_PROFILE (CHR ''n''),
      conf_entry ''A_GLONASS_POS_PROTOCOL_SELECT'' A_GLONASS_POS_PROTOCOL_SELECT (CHR ''n''),
      conf_entry ''LPPE_CP_TECHNOLOGY'' LPPE_CP_TECHNOLOGY (CHR ''n''),
      conf_entry ''LPPE_UP_TECHNOLOGY'' LPPE_UP_TECHNOLOGY (CHR ''n''),
      conf_entry ''AGPS_CERT_WRITABLE_MASK'' AGPS_CERT_WRITABLE_MASK (CHR ''n''),
      conf_entry ''SUPL_MODE'' SUPL_MODE (CHR ''n''),
      conf_entry ''SUPL_ES'' SUPL_ES (CHR ''n''),
      conf_entry ''INTERMEDIATE_POS'' INTERMEDIATE_POS (CHR ''n''),
      conf_entry ''ACCURACY_THRES'' ACCURACY_THRES (CHR ''n''),
      conf_entry ''NMEA_PROVIDER'' NMEA_PROVIDER (CHR ''n''),
      conf_entry ''CAPABILITIES'' CAPABILITIES (CHR ''n''),
      conf_entry ''XTRA_VERSION_CHECK'' XTRA_VERSION_CHECK (CHR ''n''),
      conf_entry ''XTRA_SERVER_1'' XTRA_SERVER_1 (CHR ''s''),
      conf_entry ''XTRA_SERVER_2'' XTRA_SERVER_2 (CHR ''s''),
      conf_entry ''XTRA_SERVER_3'' XTRA_SERVER_3 (CHR ''s''),
      conf_entry ''USE_EMERGENCY_PDN_FOR_EMERGENCY_SUPL'' USE_EMERGENCY_PDN (CHR ''n'')]"

definition SENSOR_CONTROL_MODE :: nat where "SENSOR_CONTROL_MODE = 114"
definition SENSOR_USAGE :: nat where "SENSOR_USAGE = 115"
definition SENSOR_ALGORITHM_CONFIG_MASK :: nat where "SENSOR_ALGORITHM_CONFIG_MASK = 116"
definition SENSOR_PROVIDER :: nat where "SENSOR_PROVIDER = 117"

text \<open>The five random walks are at 101 to 105 with their flags at 201 to 205, the eight batch sizes at 106 to 113.\<close>

definition walk_entry :: "string \<Rightarrow> nat \<Rightarrow> loc_param_s_type" where
  "walk_entry name a = \<lparr>param_name = name, param_ptr = Some a, param_set = Some (a + 100), param_type = CHR ''f''\<rparr>"

definition sap_conf_table :: "loc_param_s_type list" where
  "sap_conf_table =
     [walk_entry ''GYRO_BIAS_RANDOM_WALK'' 101,
      walk_entry ''ACCEL_RANDOM_WALK_SPECTRAL_DENSITY'' 102,
      walk_entry ''ANGLE_RANDOM_WALK_SPECTRAL_DENSITY'' 103,
      walk_entry ''RATE_RANDOM_WALK_SPECTRAL_DENSITY'' 104,
      walk_entry ''VELOCITY_RANDOM_WALK_SPECTRAL_DENSITY'' 105,
      conf_entry ''SENSOR_ACCEL_BATCHES_PER_SEC'' 106 (CHR ''n''),
      conf_entry ''SENSOR_ACCEL_SAMPLES_PER_BATCH'' 107 (CHR ''n''),
      conf_entry ''SENSOR_GYRO_BATCHES_PER_SEC'' 108 (CHR ''n''),
      conf_entry ''SENSOR_GYRO_SAMPLES_PER_BATCH'' 109 (CHR ''n''),
      conf_entry ''SENSOR_ACCEL_BATCHES_PER_SEC_HIGH'' 110 (CHR ''n''),
      conf_entry ''SENSOR_ACCEL_SAMPLES_PER_BATCH_HIGH'' 111 (CHR ''n''),
      conf_entry ''SENSOR_GYRO_BATCHES_PER_SEC_HIGH'' 112 (CHR ''n''),
      conf_entry ''SENSOR_GYRO_SAMPLES_PER_BATCH_HIGH'' 113 (CHR ''n''),
      conf_entry ''SENSOR_CONTROL_MODE'' SENSOR_CONTROL_MODE (CHR ''n''),
      conf_entry ''SENSOR_USAGE'' SENSOR_USAGE (CHR ''n''),
      conf_entry ''SENSOR_ALGORITHM_CONFIG_MASK'' SENSOR_ALGORITHM_CONFIG_MASK (CHR ''n''),
      conf_entry ''SENSOR_PROVIDER'' SENSOR_PROVIDER (CHR ''n'')]"

definition conf_int :: "nat \<Rightarrow> 64 word cfg_mem \<Rightarrow> 32 word" where
  "conf_int a m = (case vars m a of Some (VInt i) \<Rightarrow> word_of_int i | _ \<Rightarrow> 0)"

definition conf_str :: "nat \<Rightarrow> 64 word cfg_mem \<Rightarrow> string" where
  "conf_str a m = (case vars m a of Some (VStr s) \<Rightarrow> s | _ \<Rightarrow> [])"

definition conf_double :: "nat \<Rightarrow> 64 word cfg_mem \<Rightarrow> 64 word" where
  "conf_double a m = (case vars m a of Some (VDouble d) \<Rightarrow> d | _ \<Rightarrow> 0)"

abbreviation gps_conf :: "loc_eng \<Rightarrow> nat \<Rightarrow> 32 word" where
  "gps_conf e a \<equiv> conf_int a (conf e)"

definition GPS_CAPABILITY_MSB :: "32 word" where "GPS_CAPABILITY_MSB = 2"
definition GPS_CAPABILITY_MSA :: "32 word" where "GPS_CAPABILITY_MSA = 4"
definition GPS_CAPABILITY_ON_DEMAND_TIME :: "32 word" where "GPS_CAPABILITY_ON_DEMAND_TIME = 16"
definition GPS_CAPABILITY_MEASUREMENTS :: "32 word" where "GPS_CAPABILITY_MEASUREMENTS = 64"

section \<open>The adapter\<close>

definition new_adapter :: "32 word \<Rightarrow> nat \<Rightarrow> eng_adapter" where
  "new_adapter mask_bits i =
     \<lparr>mEvtMask = mask_bits, mUlp = UlpProxyBase i,
      mFixCriteria = zero_pos_mode\<lparr>mode := LOC_POSITION_MODE_INVALID\<rparr>, mNavigating = False, mPowerVote = 0,
      mGnssSvIdUsedInPosition = no_sv_used, mGnssSvIdUsedInPosAvail = False, mSupportsAgpsRequests = False,
      mSupportsPositionInjection = False, mSupportsTimeInjection = False, year_of_hw = 2015\<rparr>"

definition clearGnssSvUsedListData :: "loc_eng \<Rightarrow> loc_eng" where
  "clearGnssSvUsedListData = upd_adapter (\<lambda>a. a\<lparr>mGnssSvIdUsedInPosAvail := False, mGnssSvIdUsedInPosition := no_sv_used\<rparr>)"

definition setGnssSvUsedListData :: "sv_used \<Rightarrow> loc_eng \<Rightarrow> loc_eng" where
  "setGnssSvUsedListData u = upd_adapter (\<lambda>a. a\<lparr>mGnssSvIdUsedInPosAvail := True, mGnssSvIdUsedInPosition := u\<rparr>)"

definition startFix :: "eng_env \<Rightarrow> loc_eng \<Rightarrow> int \<times> loc_eng" where
  "startFix env e = (start_ret env, call (Modem (StartFix (mFixCriteria (adapter e)))) e)"

definition stopFix :: "loc_eng \<Rightarrow> loc_eng" where
  "stopFix = call (Modem StopFix)"

definition setPositionMode :: "loc_pos_mode option \<Rightarrow> loc_eng \<Rightarrow> loc_eng" where
  "setPositionMode posMode e =
     (let e1 = (case posMode of None \<Rightarrow> e | Some m \<Rightarrow> upd_adapter (\<lambda>a. a\<lparr>mFixCriteria := m\<rparr>) e)
      in call (Modem (SetPositionMode (mFixCriteria (adapter e1)))) e1)"

definition setInSession :: "bool \<Rightarrow> loc_eng \<Rightarrow> loc_eng" where
  "setInSession inSession e =
     (let e1 = call (Modem (SetInSession inSession)) (upd_adapter (\<lambda>a. a\<lparr>mNavigating := inSession\<rparr>) e)
      in if \<not> mNavigating (adapter e1)
         then upd_adapter (\<lambda>a. a\<lparr>mFixCriteria := (mFixCriteria a)\<lparr>mode := LOC_POSITION_MODE_INVALID\<rparr>\<rparr>) e1
         else e1)"

subsection \<open>Power votes\<close>

definition POWER_VOTE_RIGHT :: "32 word" where "POWER_VOTE_RIGHT = 0x20"
definition POWER_VOTE_VALUE :: "32 word" where "POWER_VOTE_VALUE = 0x10"

definition setPowerVoteRight :: "bool \<Rightarrow> loc_eng \<Rightarrow> loc_eng" where
  "setPowerVoteRight right = upd_adapter (\<lambda>a. a\<lparr>mPowerVote :=
     (if right then or (mPowerVote a) POWER_VOTE_RIGHT else and (mPowerVote a) (not POWER_VOTE_RIGHT))\<rparr>)"

definition getPowerVoteRight :: "loc_eng \<Rightarrow> bool" where
  "getPowerVoteRight e \<longleftrightarrow> and (mPowerVote (adapter e)) POWER_VOTE_RIGHT \<noteq> 0"

definition getPowerVote :: "loc_eng \<Rightarrow> bool" where
  "getPowerVote e \<longleftrightarrow> and (mPowerVote (adapter e)) POWER_VOTE_VALUE \<noteq> 0"

definition requestPowerVote :: "loc_eng \<Rightarrow> loc_eng" where
  "requestPowerVote e =
     (if getPowerVoteRight e then call (Modem (SetGpsLock (if getPowerVote e then 103 else 101))) e else e)"

definition setPowerVote :: "bool \<Rightarrow> loc_eng \<Rightarrow> loc_eng" where
  "setPowerVote powerOn e =
     call (Modem (ModemPowerVote powerOn)) (requestPowerVote (upd_adapter (\<lambda>a. a\<lparr>mPowerVote :=
       (if powerOn then or (mPowerVote a) POWER_VOTE_VALUE else and (mPowerVote a) (not POWER_VOTE_VALUE))\<rparr>) e))"

definition setGpsLockMsg :: "32 word \<Rightarrow> loc_eng \<Rightarrow> loc_eng" where
  "setGpsLockMsg lockMask = send_msg (Server (LocEngAdapterGpsLock lockMask))"

definition setTime :: "int \<Rightarrow> int \<Rightarrow> int \<Rightarrow> loc_eng \<Rightarrow> loc_eng" where
  "setTime t tref unc e =
     (if mSupportsTimeInjection (adapter e) then call (ModemServer (SetTime t tref unc)) e else e)"

definition setXtraVersionCheck :: "int \<Rightarrow> loc_eng \<Rightarrow> loc_eng" where
  "setXtraVersionCheck check =
     call (ModemServer (SetXtraVersionCheck
       (if check = 0 then DISABLED else if check = 1 then AUTO else if check = 2 then XTRA2
        else if check = 3 then XTRA3 else DISABLED)))"

subsection \<open>The ULP proxy\<close>

text \<open>The virtual functions of the proxy, with what they return.\<close>

definition sendStartFix :: "eng_env \<Rightarrow> loc_eng \<Rightarrow> bool \<times> loc_eng" where
  "sendStartFix env e =
     (let u = mUlp (adapter e)
      in if ulp_ext u then (ulp_takes env, call (Ulp (UlpStartFix (ulp_id u))) e)
         else (False, upd_ulp (\<lambda>u. u\<lparr>mFixSet := True\<rparr>) e))"

definition sendStopFix :: "eng_env \<Rightarrow> loc_eng \<Rightarrow> bool \<times> loc_eng" where
  "sendStopFix env e =
     (let u = mUlp (adapter e)
      in if ulp_ext u then (ulp_takes env, call (Ulp (UlpStopFix (ulp_id u))) e)
         else (False, upd_ulp (\<lambda>u. u\<lparr>mFixSet := False\<rparr>) e))"

definition sendFixMode :: "eng_env \<Rightarrow> loc_pos_mode \<Rightarrow> loc_eng \<Rightarrow> bool \<times> loc_eng" where
  "sendFixMode env params e =
     (let u = mUlp (adapter e)
      in if ulp_ext u then (ulp_takes env, call (Ulp (UlpFixMode (ulp_id u) params)) e)
         else (False, upd_ulp (\<lambda>u. u\<lparr>mPosMode := params\<rparr>) e))"

text \<open>
  \<open>setUlpProxy\<close> hands the mode and the start that the old proxy has recorded to the new one before
  the new one takes its place; here the new one is installed first, its functions do not read the
  adapter.
\<close>

definition setUlpProxy :: "eng_env \<Rightarrow> ulp_proxy option \<Rightarrow> loc_eng \<Rightarrow> loc_eng" where
  "setUlpProxy env ulp e =
     (let old = mUlp (adapter e)
      in if map_option ulp_id ulp = Some (ulp_id old) then e
         else
           (let (u, e1) = (case ulp of
                  None \<Rightarrow> (UlpProxyBase (next_ulp e), e\<lparr>next_ulp := Suc (next_ulp e)\<rparr>)
                | Some u \<Rightarrow> (u, e));
                e2 = upd_ulp (\<lambda>_. u) e1;
                e3 = (if mode (mPosMode old) \<noteq> LOC_POSITION_MODE_INVALID
                      then snd (sendFixMode env (mPosMode old) e2) else e2)
            in if mFixSet old then snd (sendStartFix env e3) else e3))"

subsection \<open>Reports and requests of the modem\<close>

definition reportPosition ::
  "eng_env \<Rightarrow> ulp_location \<Rightarrow> location_extended \<Rightarrow> loc_sess_status \<Rightarrow> 32 word \<Rightarrow> loc_eng \<Rightarrow> loc_eng" where
  "reportPosition env loc ext status tech e =
     (let internal = send_msg (Report (LocEngReportPosition loc ext status tech))
      in if ulp_ext (mUlp (adapter e))
         then (let e1 = call (Ulp (UlpReportPosition loc)) e in if ulp_takes env then e1 else internal e1)
         else internal e)"

definition reportSv :: "eng_env \<Rightarrow> gnss_sv list \<Rightarrow> location_extended \<Rightarrow> loc_eng \<Rightarrow> loc_eng" where
  "reportSv env svs ext e =
     (let internal = send_msg (Report (LocEngReportSv svs ext))
      in if ulp_ext (mUlp (adapter e))
         then (let e1 = call (Ulp (UlpReportSv svs)) e in if ulp_takes env then e1 else internal e1)
         else internal e)"

definition reportStatus :: "eng_env \<Rightarrow> gps_status \<Rightarrow> loc_eng \<Rightarrow> loc_eng" where
  "reportStatus env status e =
     (let internal = send_msg (Report (LocEngReportStatus status))
      in if ulp_ext (mUlp (adapter e))
         then (let e1 = call (Ulp (UlpReportStatus status)) e in if ulp_takes env then e1 else internal e1)
         else internal e)"

text \<open>\<open>requestATL\<close>, \<open>releaseATL\<close>, \<open>requestXtraData\<close> and the like: a message if the adapter supports it.\<close>

definition agps_request :: "eng_msg \<Rightarrow> loc_eng \<Rightarrow> bool \<times> loc_eng" where
  "agps_request m e =
     (if mSupportsAgpsRequests (adapter e) then (True, send_msg m e) else (False, e))"

fun strcasestr :: "string \<Rightarrow> string \<Rightarrow> bool" where
  "strcasestr hay needle \<longleftrightarrow>
     take (length needle) (map tolower hay) = map tolower needle \<or>
     (case hay of [] \<Rightarrow> False | _ # rest \<Rightarrow> strcasestr rest needle)"

declare strcasestr.simps [simp del]

text \<open>
  The constructor of \<open>LocEngReportXtraServer\<close>: a server of the configuration replaces the modem's;
  the servers that are not \<open>XTRA1_GPSONEXTRA\<close> are copied to the slots of the buffer from the first
  slot on.
\<close>

definition XTRA1_GPSONEXTRA :: string where "XTRA1_GPSONEXTRA = ''xtra1.gpsonextra.net''"

definition xtra_slots :: "64 word cfg_mem \<Rightarrow> string \<Rightarrow> string \<Rightarrow> string \<Rightarrow> nat \<Rightarrow> string list" where
  "xtra_slots m url1 url2 url3 maxlen =
     (let u1 = (if conf_str XTRA_SERVER_1 m \<noteq> [] then conf_str XTRA_SERVER_1 m else url1);
          u2 = (if conf_str XTRA_SERVER_2 m \<noteq> [] then conf_str XTRA_SERVER_2 m else url2);
          u3 = (if conf_str XTRA_SERVER_3 m \<noteq> [] then conf_str XTRA_SERVER_3 m else url3);
          b0 = [[], [], []]; n0 = 0;
          (b1, n1) = (if \<not> strcasestr u1 XTRA1_GPSONEXTRA then (b0[n0 := take maxlen u1], n0 + 1) else (b0, n0));
          (b2, n2) = (if \<not> strcasestr u2 XTRA1_GPSONEXTRA then (b1[n1 := take maxlen u2], n1 + 1) else (b1, n1))
      in if \<not> strcasestr u3 XTRA1_GPSONEXTRA then b2[n2 := take maxlen u3] else b2)"

definition reportXtraServer :: "string \<Rightarrow> string \<Rightarrow> string \<Rightarrow> nat \<Rightarrow> loc_eng \<Rightarrow> bool \<times> loc_eng" where
  "reportXtraServer url1 url2 url3 maxlen e =
     agps_request (Report (LocEngReportXtraServer (xtra_slots (conf e) url1 url2 url3 maxlen))) e"

end
