(* ===== verification/Eng_Data.thy ===== *)
theory Eng_Data
  imports Eng_Adapter
begin

text \<open>
  The data connection part of \<open>loc_eng.cpp\<close>: the messages that reach the AGPS state machines
  (\<open>Agps\<close>), the servers, the certificates and the XTRA functions of \<open>loc_eng_xtra.cpp\<close>.

  \<^item> A \<open>proc\<close> returns None where the code follows a NULL state machine.
  \<^item> \<open>run_nif\<close> runs an operation of a machine: what the machine emits is logged, and the requests it
    makes of the adapter become messages.
  \<^item> Shown: which messages crash and when, that a released connection is answered exactly once,
    that the certificates sent fit the writable slots.
\<close>

section \<open>The state machines\<close>

definition AGPS_TYPE_SUPL_ES :: int where "AGPS_TYPE_SUPL_ES = 5"
definition AGPS_TYPE_WWAN_ANY :: int where "AGPS_TYPE_WWAN_ANY = 3"
definition MAX_APN_LEN :: nat where "MAX_APN_LEN = 100"
definition MAX_URL_LEN :: nat where "MAX_URL_LEN = 256"

definition nif_of :: "nif \<Rightarrow> loc_eng \<Rightarrow> agps_sm option" where
  "nif_of n e = (case n of AgnssNif \<Rightarrow> agnss_nif e | InternetNif \<Rightarrow> internet_nif e | DsNif \<Rightarrow> ds_nif e)"

definition set_nif :: "nif \<Rightarrow> agps_sm option \<Rightarrow> loc_eng \<Rightarrow> loc_eng" where
  "set_nif n m e =
     (case n of AgnssNif \<Rightarrow> e\<lparr>agnss_nif := m\<rparr> | InternetNif \<Rightarrow> e\<lparr>internet_nif := m\<rparr> | DsNif \<Rightarrow> e\<lparr>ds_nif := m\<rparr>)"

text \<open>What a machine emits: \<open>requestATL\<close> and \<open>requestSuplES\<close> of the adapter send messages.\<close>

definition nif_emitted :: "nif \<Rightarrow> agps_out \<Rightarrow> loc_eng \<Rightarrow> loc_eng" where
  "nif_emitted n x e =
     (case x of
        RequestATL i ty \<Rightarrow> snd (agps_request (Data (LocEngRequestATL i ty)) e)
      | RequestSuplES i \<Rightarrow> snd (agps_request (Data (LocEngRequestSuplEs i)) e)
      | _ \<Rightarrow> call (NifCall n x) e)"

definition run_nif :: "nif \<Rightarrow> (agps_sm \<Rightarrow> 'a \<times> agps_sm) \<Rightarrow> loc_eng \<Rightarrow> ('a \<times> loc_eng) option" where
  "run_nif n f e =
     (case nif_of n e of
        None \<Rightarrow> None
      | Some m \<Rightarrow>
          (let (r, m') = f m
           in Some (r, fold (nif_emitted n) (drop (length (outs m)) (outs m')) (set_nif n (Some m') e))))"

definition agps_capable :: "loc_eng \<Rightarrow> bool" where
  "agps_capable e \<longleftrightarrow>
     and (gps_conf e CAPABILITIES) GPS_CAPABILITY_MSA \<noteq> 0 \<or> and (gps_conf e CAPABILITIES) GPS_CAPABILITY_MSB \<noteq> 0"

definition createAgnssNifs :: "eng_env \<Rightarrow> loc_eng \<Rightarrow> loc_eng" where
  "createAgnssNifs env e =
     (let agpsCapable = agps_capable e
      in if adapter_set e \<and> mSupportsAgpsRequests (adapter e) then
           (let e1 = (if internet_nif e = None then e\<lparr>internet_nif := Some (agps_new AGPS_TYPE_WWAN_ANY False)\<rparr> else e)
            in if agpsCapable then
                 (let e2 = (if agnss_nif e1 = None then e1\<lparr>agnss_nif := Some (agps_new AGPS_TYPE_SUPL False)\<rparr> else e1)
                  in if ds_nif e2 = None \<and> gps_conf e2 USE_EMERGENCY_PDN \<noteq> 0
                     then (let e3 = call (Modem InitDataServiceClient) e2
                           in if ds_client_ret env = 0 then e3\<lparr>ds_nif := Some ds_new\<rparr> else e3)
                     else e2)
               else e1)
         else e)"

definition getAgpsStateMachine :: "eng_env \<Rightarrow> int \<Rightarrow> loc_eng \<Rightarrow> nif \<times> loc_eng" where
  "getAgpsStateMachine env agpsType e =
     (if agpsType = AGPS_TYPE_INVALID \<or> agpsType = AGPS_TYPE_SUPL then (AgnssNif, e)
      else if agpsType = AGPS_TYPE_SUPL_ES then
        (if gps_conf e USE_EMERGENCY_PDN \<noteq> 0
         then (DsNif, if ds_nif e = None then createAgnssNifs env e else e)
         else (AgnssNif, e))
      else (InternetNif, e))"

section \<open>The messages\<close>

definition ReqRelBIT_proc :: "eng_env \<Rightarrow> int \<Rightarrow> 32 word \<Rightarrow> string option \<Rightarrow> bool \<Rightarrow> loc_eng \<Rightarrow> loc_eng option" where
  "ReqRelBIT_proc env ty ipv4 ipv6 isReq e =
     (let (n, e1) = getAgpsStateMachine env ty e; s = BITSubscriber 0 ipv4 ipv6
      in map_option snd
           (if isReq then run_nif n (\<lambda>m. (True, subscribeRsrc (nif_env env) s m)) e1
            else run_nif n (unsubscribeRsrc (nif_env env) s) e1))"

definition ds_event :: "eng_env \<Rightarrow> AgpsRsrcStatus \<Rightarrow> loc_eng \<Rightarrow> loc_eng option" where
  "ds_event env ev e =
     (if ds_nif e \<noteq> None then map_option snd (run_nif DsNif (\<lambda>m. ((), onRsrcEvent (nif_env env) ev m)) e) else Some e)"

definition SuplEsOpened_proc :: "eng_env \<Rightarrow> loc_eng \<Rightarrow> loc_eng option" where
  "SuplEsOpened_proc env = ds_event env RSRC_GRANTED"

definition SuplEsClosed_proc :: "eng_env \<Rightarrow> loc_eng \<Rightarrow> loc_eng option" where
  "SuplEsClosed_proc env = ds_event env RSRC_RELEASED"

definition RequestSuplEs_proc :: "eng_env \<Rightarrow> 32 word \<Rightarrow> loc_eng \<Rightarrow> loc_eng option" where
  "RequestSuplEs_proc env i e =
     (if ds_nif e \<noteq> None \<and> gps_conf e USE_EMERGENCY_PDN \<noteq> 0
      then map_option snd (run_nif DsNif (\<lambda>m. ((), subscribeRsrc (nif_env env) (DSSubscriber 0 i) m)) e)
      else if agnss_nif e \<noteq> None
      then map_option snd (run_nif AgnssNif (\<lambda>m. ((), subscribeRsrc (nif_env env) (ATLSubscriber 0 i False) m)) e)
      else Some (call (Modem (AtlOpen i False None (-1) (-1))) e))"

definition RequestATL_proc :: "eng_env \<Rightarrow> 32 word \<Rightarrow> int \<Rightarrow> loc_eng \<Rightarrow> loc_eng option" where
  "RequestATL_proc env i ty e =
     (let (n, e1) = getAgpsStateMachine env ty e
      in if nif_of n e1 \<noteq> None
         then map_option snd
           (run_nif n (\<lambda>m. ((), subscribeRsrc (nif_env env) (ATLSubscriber 0 i (AGPS_TYPE_INVALID = ty)) m)) e1)
         else Some (call (Modem (AtlOpen i False None (-1) ty)) e1))"

text \<open>One attempt to unsubscribe: whether the machine had the subscriber.\<close>

definition try_release :: "eng_env \<Rightarrow> nif \<Rightarrow> subscriber \<Rightarrow> loc_eng \<Rightarrow> bool \<times> loc_eng" where
  "try_release env n s e =
     (case run_nif n (unsubscribeRsrc (nif_env env) s) e of None \<Rightarrow> (False, e) | Some r \<Rightarrow> r)"

definition ReleaseATL_proc :: "eng_env \<Rightarrow> 32 word \<Rightarrow> loc_eng \<Rightarrow> loc_eng" where
  "ReleaseATL_proc env i e =
     (case try_release env AgnssNif (ATLSubscriber 0 i False) e of
        (True, e1) \<Rightarrow> e1
      | (False, e1) \<Rightarrow>
          (case try_release env InternetNif (ATLSubscriber 0 i False) e1 of
             (True, e2) \<Rightarrow> e2
           | (False, e2) \<Rightarrow>
               (case try_release env DsNif (DSSubscriber 0 i) e2 of
                  (True, e3) \<Rightarrow> e3
                | (False, e3) \<Rightarrow> call (Modem (AtlClose i False)) e3)))"

definition ReqRelWifi_proc :: "int \<Rightarrow> 32 word \<Rightarrow> loc_eng \<Rightarrow> loc_eng" where
  "ReqRelWifi_proc ty sender e = call (Modem (AtlOpen sender False None (-1) ty)) e"

definition AtlOpenSuccess_proc :: "eng_env \<Rightarrow> int \<Rightarrow> string \<Rightarrow> int \<Rightarrow> loc_eng \<Rightarrow> loc_eng option" where
  "AtlOpenSuccess_proc env ty apn bearer e =
     (let (n, e1) = getAgpsStateMachine env ty e
      in map_option snd (run_nif n (\<lambda>m. ((), onRsrcEvent (nif_env env) RSRC_GRANTED
           (setAPN (Some apn) (length apn) (setBearer bearer m)))) e1))"

definition AtlClosed_proc :: "eng_env \<Rightarrow> int \<Rightarrow> loc_eng \<Rightarrow> loc_eng option" where
  "AtlClosed_proc env ty e =
     (let (n, e1) = getAgpsStateMachine env ty e
      in map_option snd (run_nif n (\<lambda>m. ((), onRsrcEvent (nif_env env) RSRC_RELEASED m)) e1))"

definition AtlOpenFailed_proc :: "eng_env \<Rightarrow> int \<Rightarrow> loc_eng \<Rightarrow> loc_eng option" where
  "AtlOpenFailed_proc env ty e =
     (let (n, e1) = getAgpsStateMachine env ty e
      in map_option snd (run_nif n (\<lambda>m. ((), onRsrcEvent (nif_env env) RSRC_DENIED m)) e1))"

definition data_proc :: "eng_env \<Rightarrow> data_msg \<Rightarrow> loc_eng \<Rightarrow> loc_eng option" where
  "data_proc env m e =
     (case m of
        LocEngReqRelBIT ty ipv4 ipv6 isReq \<Rightarrow> ReqRelBIT_proc env ty ipv4 ipv6 isReq e
      | LocEngSuplEsOpened \<Rightarrow> SuplEsOpened_proc env e
      | LocEngSuplEsClosed \<Rightarrow> SuplEsClosed_proc env e
      | LocEngRequestSuplEs i \<Rightarrow> RequestSuplEs_proc env i e
      | LocEngRequestATL i ty \<Rightarrow> RequestATL_proc env i ty e
      | LocEngReleaseATL i \<Rightarrow> Some (ReleaseATL_proc env i e)
      | LocEngReqRelWifi ty sender _ _ _ \<Rightarrow> Some (ReqRelWifi_proc ty sender e)
      | LocEngAtlOpenSuccess ty apn bearer \<Rightarrow> AtlOpenSuccess_proc env ty apn bearer e
      | LocEngAtlClosed ty \<Rightarrow> AtlClosed_proc env ty e
      | LocEngAtlOpenFailed ty \<Rightarrow> AtlOpenFailed_proc env ty e
      | LocEngAgnssNifInit \<Rightarrow> Some (createAgnssNifs env e))"

text \<open>The retry timer of the data services machine, on the thread of the timer.\<close>

definition ds_retry :: "loc_eng \<Rightarrow> loc_eng option" where
  "ds_retry e = map_option snd (run_nif DsNif (\<lambda>m. ((), retryCallback m)) e)"

section \<open>Servers\<close>

text \<open>
  \<open>loc_eng_set_server\<close>; \<open>snprintf\<close> returns the length without its limit. \<open>resolve\<close> is the address
  of a host name in host byte order.
\<close>

definition server_url :: "string option \<Rightarrow> int \<Rightarrow> string" where
  "server_url hostname port =
     (case hostname of
        None \<Rightarrow> []
      | Some h \<Rightarrow>
          if map tolower h = ''none'' then []
          else h @ '':'' @ show_nat (unat (word_of_int port :: 32 word)))"

definition loc_eng_set_server :: "eng_env \<Rightarrow> loc_server_type \<Rightarrow> string option \<Rightarrow> int \<Rightarrow> loc_eng \<Rightarrow> int \<times> loc_eng" where
  "loc_eng_set_server env ty hostname port e =
     (if ty = LOC_AGPS_SUPL_SERVER then
        (let url = server_url hostname port
         in (0, if length url < MAX_URL_LEN then send_msg (Server (LocEngSetServerUrl url)) e else e))
      else
        (case resolve env (case hostname of None \<Rightarrow> [] | Some h \<Rightarrow> h) of
           None \<Rightarrow> (-2, e)
         | Some ip \<Rightarrow> (0, send_msg (Server (LocEngSetServerIpv4 ip port ty)) e)))"

text \<open>\<open>strlcpy\<close> to a buffer of 101 characters.\<close>

definition HOST_BUF_LEN :: nat where "HOST_BUF_LEN = 100"

definition loc_eng_set_server_proxy :: "eng_env \<Rightarrow> loc_server_type \<Rightarrow> string \<Rightarrow> int \<Rightarrow> loc_eng \<Rightarrow> int \<times> loc_eng" where
  "loc_eng_set_server_proxy env ty hostname port e =
     (let e1 = (if ty = LOC_AGPS_SUPL_SERVER then e\<lparr>supl_host := Some (take HOST_BUF_LEN hostname, port)\<rparr>
                else if ty = LOC_AGPS_CDMA_PDE_SERVER then e\<lparr>c2k_host := Some (take HOST_BUF_LEN hostname, port)\<rparr>
                else e)
      in if adapter_set e1 then loc_eng_set_server env ty (Some hostname) port e1 else (0, e1))"

definition loc_eng_agps_reinit :: "eng_env \<Rightarrow> loc_eng \<Rightarrow> loc_eng" where
  "loc_eng_agps_reinit env e =
     (let e1 = (case supl_host e of
                  None \<Rightarrow> e
                | Some (h, p) \<Rightarrow> snd (loc_eng_set_server env LOC_AGPS_SUPL_SERVER (Some h) p e))
      in case c2k_host e1 of
           None \<Rightarrow> e1
         | Some (h, p) \<Rightarrow> snd (loc_eng_set_server env LOC_AGPS_CDMA_PDE_SERVER (Some h) p e1))"

text \<open>\<open>callbacks\<close> is None for NULL, else whether its \<open>status_cb\<close> is set.\<close>

definition loc_eng_agps_init :: "eng_env \<Rightarrow> bool option \<Rightarrow> loc_eng \<Rightarrow> loc_eng" where
  "loc_eng_agps_init env callbacks e =
     (if \<not> adapter_set e \<or> agps_status_cb e then e
      else
        (case callbacks of
           None \<Rightarrow> e
         | Some cb \<Rightarrow>
             (let e1 = e\<lparr>agps_status_cb := cb\<rparr>;
                  e2 = (if mSupportsAgpsRequests (adapter e1) then send_msg (Data LocEngAgnssNifInit) e1 else e1)
              in loc_eng_agps_reinit env e2)))"

definition loc_eng_agps_open :: "int \<Rightarrow> string option \<Rightarrow> int \<Rightarrow> loc_eng \<Rightarrow> int \<times> loc_eng" where
  "loc_eng_agps_open agpsType apn bearerType e =
     (if \<not> (adapter_set e \<and> agps_status_cb e) then (-1, e)
      else
        (case apn of
           None \<Rightarrow> (0, e)
         | Some a \<Rightarrow> (0, send_msg (Data (LocEngAtlOpenSuccess agpsType (take (min (length a) MAX_APN_LEN) a) bearerType)) e)))"

definition loc_eng_agps_closed :: "int \<Rightarrow> loc_eng \<Rightarrow> int \<times> loc_eng" where
  "loc_eng_agps_closed agpsType e =
     (if \<not> (adapter_set e \<and> agps_status_cb e) then (-1, e)
      else (0, send_msg (Data (LocEngAtlClosed agpsType)) e))"

definition loc_eng_agps_open_failed :: "int \<Rightarrow> loc_eng \<Rightarrow> int \<times> loc_eng" where
  "loc_eng_agps_open_failed agpsType e =
     (if \<not> (adapter_set e \<and> agps_status_cb e) then (-1, e)
      else (0, send_msg (Data (LocEngAtlOpenFailed agpsType)) e))"

definition loc_eng_agps_ril_update_network_availability :: "int \<Rightarrow> string option \<Rightarrow> loc_eng \<Rightarrow> loc_eng" where
  "loc_eng_agps_ril_update_network_availability available apn e =
     (let e1 = e\<lparr>agpsStatus := word_of_int available\<rparr>
      in if \<not> adapter_set e1 then e1
         else
           (case apn of
              None \<Rightarrow> e1
            | Some a \<Rightarrow> send_msg (Server (LocEngEnableData available (Some (take (min (length a) MAX_APN_LEN) a)))) e1))"

section \<open>Certificates\<close>

definition AGPS_CERTIFICATE_OPERATION_SUCCESS :: int where "AGPS_CERTIFICATE_OPERATION_SUCCESS = 0"
definition AGPS_CERTIFICATE_ERROR_GENERIC :: int where "AGPS_CERTIFICATE_ERROR_GENERIC = -100"
definition AGPS_CERTIFICATE_ERROR_TOO_MANY_CERTIFICATES :: int where "AGPS_CERTIFICATE_ERROR_TOO_MANY_CERTIFICATES = -101"
definition AGPS_CERTIFICATE_MAX_LENGTH :: nat where "AGPS_CERTIFICATE_MAX_LENGTH = 2000"

text \<open>Each round of the loop clears the lowest bit that is set.\<close>

lemma clear_lowest_less: "x \<noteq> 0 \<Longrightarrow> unat (and x (x - 1)) < unat (x :: 32 word)"
proof -
  assume "x \<noteq> 0"
  then have "unat (x - 1) < unat x" by (simp add: unat_minus_one unat_gt_0)
  moreover have "and x (x - 1) \<le> x - 1" by (metis and.commute word_and_le1)
  ultimately show ?thesis by (simp add: word_le_nat_alt)
qed

function slot_loop :: "32 word \<Rightarrow> 32 word \<Rightarrow> 32 word" where
  "slot_loop slotBitMaskCounter slotCount =
     (if slotBitMaskCounter = 0 then slotCount
      else slot_loop (and slotBitMaskCounter (slotBitMaskCounter - 1)) (slotCount + 1))"
  by pat_completeness auto
termination
  by (relation "measure (\<lambda>(x, _). unat x)") (auto intro: clear_lowest_less)

declare slot_loop.simps [simp del]

definition loc_eng_agps_install_certificates :: "string list \<Rightarrow> loc_eng \<Rightarrow> int \<times> loc_eng" where
  "loc_eng_agps_install_certificates certificates e =
     (let slotBitMask = gps_conf e AGPS_CERT_WRITABLE_MASK; slotCount = slot_loop slotBitMask 0
      in if certificates = [] then (AGPS_CERTIFICATE_OPERATION_SUCCESS, e)
         else if \<not> adapter_set e then (AGPS_CERTIFICATE_ERROR_GENERIC, e)
         else if unat slotCount < length certificates then (AGPS_CERTIFICATE_ERROR_TOO_MANY_CERTIFICATES, e)
         else if list_ex (\<lambda>c. AGPS_CERTIFICATE_MAX_LENGTH < length c) certificates then (AGPS_CERTIFICATE_ERROR_GENERIC, e)
         else (AGPS_CERTIFICATE_OPERATION_SUCCESS, send_msg (Server (LocEngInstallAGpsCert certificates slotBitMask)) e))"

section \<open>XTRA\<close>

text \<open>
  \<open>callbacks\<close> is None for NULL, else which of the two callbacks are set. These functions use the
  adapter without a test.
\<close>

definition loc_eng_xtra_init :: "eng_env \<Rightarrow> (bool \<times> bool) option \<Rightarrow> loc_eng \<Rightarrow> (int \<times> loc_eng) option" where
  "loc_eng_xtra_init env callbacks e =
     (if \<not> adapter_set e then None
      else if \<not> mSupportsTimeInjection (adapter e) \<or> lbs_xtra env then Some (1, e)
      else
        (case callbacks of
           None \<Rightarrow> Some (-1, e)
         | Some (download, servers) \<Rightarrow>
             Some (0, e\<lparr>download_request_cb := download, report_xtra_server_cb := servers\<rparr>)))"

definition loc_eng_xtra_inject_data :: "string \<Rightarrow> loc_eng \<Rightarrow> (int \<times> loc_eng) option" where
  "loc_eng_xtra_inject_data xtra_data e =
     (if \<not> adapter_set e then None else Some (0, send_msg (Server (LocEngInjectXtraData xtra_data)) e))"

definition loc_eng_xtra_request_server :: "loc_eng \<Rightarrow> (int \<times> loc_eng) option" where
  "loc_eng_xtra_request_server e =
     (if \<not> adapter_set e then None else Some (0, send_msg (Server LocEngRequestXtraServer) e))"

definition loc_eng_xtra_version_check :: "32 word \<Rightarrow> loc_eng \<Rightarrow> loc_eng" where
  "loc_eng_xtra_version_check check = send_msg (Server (LocEngSetXtraVersionCheck (sint check)))"

definition RequestXtraServer_proc :: "loc_eng \<Rightarrow> loc_eng" where
  "RequestXtraServer_proc = call (ModemServer RequestXtraServer)"

definition InjectXtraData_proc :: "string \<Rightarrow> loc_eng \<Rightarrow> loc_eng" where
  "InjectXtraData_proc xtra_data = call (ModemServer (SetXtraData xtra_data))"

definition SetXtraVersionCheck_proc :: "int \<Rightarrow> loc_eng \<Rightarrow> loc_eng" where
  "SetXtraVersionCheck_proc = setXtraVersionCheck"

section \<open>Messages that are handed on\<close>

definition SetTime_proc :: "int \<Rightarrow> int \<Rightarrow> int \<Rightarrow> loc_eng \<Rightarrow> loc_eng" where
  "SetTime_proc = setTime"

definition InjectLocation_proc :: "64 word \<Rightarrow> 64 word \<Rightarrow> 32 word \<Rightarrow> loc_eng \<Rightarrow> loc_eng" where
  "InjectLocation_proc lat lon accur = call (ModemServer (InjectPosition lat lon accur))"

definition SetServerIpv4_proc :: "32 word \<Rightarrow> int \<Rightarrow> loc_server_type \<Rightarrow> loc_eng \<Rightarrow> loc_eng" where
  "SetServerIpv4_proc ip port ty = call (ModemServer (SetServerIpv4 ip port ty))"

definition SetServerUrl_proc :: "string \<Rightarrow> loc_eng \<Rightarrow> loc_eng" where
  "SetServerUrl_proc url = call (ModemServer (SetServerUrl url))"

definition EnableData_proc :: "int \<Rightarrow> string option \<Rightarrow> loc_eng \<Rightarrow> loc_eng" where
  "EnableData_proc enable apn e =
     (let e1 = call (ModemServer (EnableData enable)) e
      in case apn of None \<Rightarrow> e1 | Some a \<Rightarrow> call (ModemServer (SetApn a)) e1)"

definition InstallAGpsCert_proc :: "string list \<Rightarrow> 32 word \<Rightarrow> loc_eng \<Rightarrow> loc_eng" where
  "InstallAGpsCert_proc certs slotBitMask = call (ModemServer (InstallAGpsCert certs slotBitMask))"

definition UpdateRegistrationMask_proc :: "32 word \<Rightarrow> loc_registration_mask_status \<Rightarrow> loc_eng \<Rightarrow> loc_eng" where
  "UpdateRegistrationMask_proc event isEnabled = call (ModemServer (UpdateRegistrationMask event isEnabled))"

definition AdapterGpsLock_proc :: "32 word \<Rightarrow> loc_eng \<Rightarrow> loc_eng" where
  "AdapterGpsLock_proc lockMask = call (Modem (SetGpsLock lockMask))"

definition server_proc :: "server_msg \<Rightarrow> loc_eng \<Rightarrow> loc_eng" where
  "server_proc m =
     (case m of
        LocEngSetServerIpv4 ip port ty \<Rightarrow> SetServerIpv4_proc ip port ty
      | LocEngSetServerUrl url \<Rightarrow> SetServerUrl_proc url
      | LocEngEnableData enable apn \<Rightarrow> EnableData_proc enable apn
      | LocEngInstallAGpsCert certs slots \<Rightarrow> InstallAGpsCert_proc certs slots
      | LocEngUpdateRegistrationMask event isEnabled \<Rightarrow> UpdateRegistrationMask_proc event isEnabled
      | LocEngRequestXtraServer \<Rightarrow> RequestXtraServer_proc
      | LocEngInjectXtraData xtra_data \<Rightarrow> InjectXtraData_proc xtra_data
      | LocEngSetXtraVersionCheck check \<Rightarrow> SetXtraVersionCheck_proc check
      | LocEngSetTime t tref unc \<Rightarrow> SetTime_proc t tref unc
      | LocEngInjectLocation lat lon accur \<Rightarrow> InjectLocation_proc lat lon accur
      | LocEngAdapterGpsLock lockMask \<Rightarrow> AdapterGpsLock_proc lockMask
      | LocSetXtraUserAgent \<Rightarrow> call WriteUserAgent)"

section \<open>Which messages follow a NULL machine\<close>

lemma run_nif_None: "run_nif n f e = None \<longleftrightarrow> nif_of n e = None"
  by (auto simp: run_nif_def split: option.splits prod.splits)

text \<open>
  A message about a data connection crashes exactly if it is one of the four that use the machine
  of their type without a test and that machine was not created.
\<close>

theorem data_proc_crashes:
  "data_proc env m e = None \<longleftrightarrow>
     (\<exists>ty. ((\<exists>a b c. m = LocEngReqRelBIT ty a b c) \<or> (\<exists>apn b. m = LocEngAtlOpenSuccess ty apn b) \<or>
         m = LocEngAtlClosed ty \<or> m = LocEngAtlOpenFailed ty) \<and>
       nif_of (fst (getAgpsStateMachine env ty e)) (snd (getAgpsStateMachine env ty e)) = None)"
  by (cases m)
    (simp_all add: data_proc_def ReqRelBIT_proc_def SuplEsOpened_proc_def SuplEsClosed_proc_def ds_event_def
      RequestSuplEs_proc_def RequestATL_proc_def AtlOpenSuccess_proc_def AtlClosed_proc_def AtlOpenFailed_proc_def
      run_nif_None nif_of_def case_prod_unfold Let_def del: not_None_eq)

text \<open>The machine of a type exists once \<open>createAgnssNifs\<close> has run for a client that supports AGPS.\<close>

definition nifs_ready :: "loc_eng \<Rightarrow> bool" where
  "nifs_ready e \<longleftrightarrow> internet_nif e \<noteq> None \<and> (agps_capable e \<longrightarrow> agnss_nif e \<noteq> None)"

lemma createAgnssNifs_ready:
  "adapter_set e \<Longrightarrow> mSupportsAgpsRequests (adapter e) \<Longrightarrow> nifs_ready (createAgnssNifs env e)"
  by (auto simp: nifs_ready_def createAgnssNifs_def agps_capable_def call_def Let_def)

section \<open>Releasing a connection\<close>

definition has_sub :: "subscriber \<Rightarrow> agps_sm option \<Rightarrow> bool" where
  "has_sub s m = (case m of None \<Rightarrow> False | Some m \<Rightarrow> find_sub (broadcast (To s)) (subs m) \<noteq> None)"

lemma try_release_fails: "\<not> has_sub s (nif_of n e) \<Longrightarrow> try_release env n s e = (False, e)"
proof (cases "nif_of n e")
  case (Some m)
  assume "\<not> has_sub s (nif_of n e)"
  with Some have "unsubscribeRsrc (nif_env env) s m = (False, m)" by (simp add: has_sub_def unsubscribeRsrc_def)
  moreover have "set_nif n (Some m) e = e" using Some by (cases e; cases n) (auto simp: set_nif_def nif_of_def)
  ultimately show ?thesis by (simp add: try_release_def run_nif_def Some)
qed (simp add: try_release_def run_nif_def)

lemma try_release_succeeds:
  "has_sub s (nif_of n e) \<Longrightarrow>
     try_release env n s e = (True, the (map_option snd (run_nif n (unsubscribeRsrc (nif_env env) s) e)))"
  by (auto simp: try_release_def run_nif_def has_sub_def unsubscribeRsrc_def split: option.splits prod.splits)

lemma nif_emitted_keeps [simp]: "nif_of k (nif_emitted n x e) = nif_of k e"
  by (cases k) (auto simp: nif_emitted_def nif_of_def call_def agps_request_def send_msg_def split: agps_out.splits)

lemma fold_emitted_keeps [simp]: "nif_of k (fold (nif_emitted n) xs e) = nif_of k e"
  by (induction xs arbitrary: e) simp_all

lemma run_nif_other:
  "run_nif n f e = Some (r, e') \<Longrightarrow> k \<noteq> n \<Longrightarrow> nif_of k e' = nif_of k e"
  by (auto simp: run_nif_def split: option.splits prod.splits) (cases k; cases n; simp add: nif_of_def set_nif_def)

lemma run_nif_this:
  "run_nif n f e = Some (r, e') \<Longrightarrow> nif_of n e' = map_option (\<lambda>m. snd (f m)) (nif_of n e)"
  by (auto simp: run_nif_def split: option.splits prod.splits) (cases n; simp add: nif_of_def set_nif_def)

text \<open>The machine that a connection is released on: the first in this order that knows it.\<close>

definition release_owner :: "32 word \<Rightarrow> loc_eng \<Rightarrow> (nif \<times> subscriber) option" where
  "release_owner i e =
     (if has_sub (ATLSubscriber 0 i False) (agnss_nif e) then Some (AgnssNif, ATLSubscriber 0 i False)
      else if has_sub (ATLSubscriber 0 i False) (internet_nif e) then Some (InternetNif, ATLSubscriber 0 i False)
      else if has_sub (DSSubscriber 0 i) (ds_nif e) then Some (DsNif, DSSubscriber 0 i)
      else None)"

lemma ReleaseATL_owner:
  "ReleaseATL_proc env i e =
     (case release_owner i e of
        None \<Rightarrow> call (Modem (AtlClose i False)) e
      | Some (n, s) \<Rightarrow> the (map_option snd (run_nif n (unsubscribeRsrc (nif_env env) s) e)))"
  unfolding release_owner_def ReleaseATL_proc_def
  using try_release_fails [of "ATLSubscriber 0 i False" AgnssNif e env]
    try_release_succeeds [of "ATLSubscriber 0 i False" AgnssNif e env]
    try_release_fails [of "ATLSubscriber 0 i False" InternetNif e env]
    try_release_succeeds [of "ATLSubscriber 0 i False" InternetNif e env]
    try_release_fails [of "DSSubscriber 0 i" DsNif e env] try_release_succeeds [of "DSSubscriber 0 i" DsNif e env]
  by (simp add: nif_of_def)

text \<open>
  Releasing a connection reaches exactly one place. If a machine knows the connection, the first
  that does, in the order SUPL, internet, emergency, unsubscribes it and the other two are not
  touched; otherwise the modem is told once that nothing was closed.
\<close>

theorem release_atl_once:
  "case release_owner i e of
     None \<Rightarrow> ReleaseATL_proc env i e = call (Modem (AtlClose i False)) e
   | Some (n, s) \<Rightarrow>
       (\<forall>k. nif_of k (ReleaseATL_proc env i e) =
         (if k = n then map_option (\<lambda>m. state_onRsrcEvent (nif_env env) RSRC_UNSUBSCRIBE
           (find_sub (broadcast (To s)) (subs m)) m) (nif_of n e)
          else nif_of k e))"
proof (cases "release_owner i e")
  case None
  then show ?thesis by (simp add: ReleaseATL_owner)
next
  case (Some ns)
  obtain n s where ns: "ns = (n, s)" by (cases ns)
  from Some ns have "has_sub s (nif_of n e)" by (auto simp: release_owner_def nif_of_def split: if_splits)
  then obtain m x where m: "nif_of n e = Some m" "find_sub (broadcast (To s)) (subs m) = Some x"
    by (auto simp: has_sub_def split: option.splits)
  obtain r e' where r: "run_nif n (unsubscribeRsrc (nif_env env) s) e = Some (r, e')"
    using run_nif_None [of n _ e] m(1) by fastforce
  have u: "unsubscribeRsrc (nif_env env) s m = (True, state_onRsrcEvent (nif_env env) RSRC_UNSUBSCRIBE (Some x) m)"
    by (simp add: unsubscribeRsrc_def m(2))
  show ?thesis using run_nif_other [OF r] run_nif_this [OF r] m u by (simp add: Some ns ReleaseATL_owner r)
qed

section \<open>The slots for certificates\<close>

lemma clear_lowest_even: "and (2 * n) (2 * n - 1) = 2 * and n (n - 1 :: nat)"
proof (cases n)
  case (Suc k)
  have "and (2 * Suc k) (Suc (2 * k)) = 2 * and (Suc k) k" by (subst and_nat_rec) simp
  then show ?thesis by (simp add: Suc)
qed simp

lemma clear_lowest_odd: "and (Suc (2 * n)) (Suc (2 * n) - 1) = (2 * n :: nat)"
  by (simp add: and_nat_rec [of "Suc (2 * n)"])

lemma bits_double: "{i. bit (2 * n :: nat) i} = Suc ` {i. bit n i}"
  by (auto simp: bit_double_iff image_iff gr0_conv_Suc)

lemma bits_Suc_double: "{i. bit (Suc (2 * n) :: nat) i} = insert 0 (Suc ` {i. bit n i})"
proof -
  have "bit (Suc (2 * n)) i \<longleftrightarrow> i = 0 \<or> (\<exists>j. i = Suc j \<and> bit n j)" for i
    by (cases i) (simp_all add: bit_0 bit_Suc)
  then show ?thesis by auto
qed

lemma finite_bits: "finite {i. bit (n :: nat) i}"
proof (induction n rule: nat_bit_induct)
  case zero
  show ?case by simp
next
  case (even n)
  then show ?case by (simp add: bits_double)
next
  case (odd n)
  then show ?case by (simp add: bits_Suc_double)
qed

lemma card_clear_lowest: "n \<noteq> 0 \<Longrightarrow> Suc (card {i. bit (and n (n - 1)) i}) = card {i. bit (n :: nat) i}"
proof (induction n rule: nat_bit_induct)
  case (even n)
  then show ?case by (simp only: clear_lowest_even bits_double) (simp add: card_image)
next
  case (odd n)
  show ?case by (simp only: clear_lowest_odd bits_Suc_double bits_double)
    (simp add: card_image card_insert_if finite_bits)
qed simp

lemma unat_clear_lowest: "x \<noteq> 0 \<Longrightarrow> unat (and x (x - 1)) = and (unat x) (unat (x :: 32 word) - 1)"
  by (simp add: unsigned_and_eq unat_minus_one)

lemma slot_loop_count: "slot_loop x c = c + of_nat (card {i. bit x i})"
proof (induction x c rule: slot_loop.induct)
  case (1 x c)
  show ?case
  proof (cases "x = 0")
    case False
    then have n: "unat x \<noteq> 0" by (simp add: unat_eq_0)
    have b: "{i. bit (y :: 32 word) i} = {i. bit (unat y) i}" for y by (auto simp: bit_unsigned_iff)
    from card_clear_lowest [OF n] unat_clear_lowest [OF False]
    have "card {i. bit x i} = Suc (card {i. bit (and x (x - 1)) i})" by (simp only: b)
    with 1 [OF False] False show ?thesis by (subst slot_loop.simps) simp
  qed (simp add: slot_loop.simps)
qed

lemma slots_at_most_32: "card {i. bit (x :: 32 word) i} \<le> 32"
proof -
  have "{i. bit x i} \<subseteq> {..<32}" by (auto dest: bit_imp_le_length)
  from card_mono [OF _ this] show ?thesis by simp
qed

lemma slot_count: "unat (slot_loop x 0) = card {i. bit x i}"
  using slots_at_most_32 [of x] by (simp add: slot_loop_count unat_of_nat)

text \<open>
  The certificates that are sent to the modem fit: the installation succeeds exactly if there is
  none, or the engine is initialised, none exceeds the length limit and there are at most as many as
  bits set in the mask of writable slots; one message then carries them all. Otherwise nothing is sent.
\<close>

theorem install_certificates_exact:
  "loc_eng_agps_install_certificates certs e =
     (let slots = gps_conf e AGPS_CERT_WRITABLE_MASK;
          fits = adapter_set e \<and> length certs \<le> card {i. bit slots i};
          short = list_all (\<lambda>c. length c \<le> AGPS_CERTIFICATE_MAX_LENGTH) certs
      in if certs = [] then (0, e)
         else if fits \<and> short then (0, send_msg (Server (LocEngInstallAGpsCert certs slots)) e)
         else (if adapter_set e \<and> \<not> fits then -101 else -100, e))"
  by (auto simp: loc_eng_agps_install_certificates_def Let_def slot_count list_ex_iff list_all_iff not_less
      AGPS_CERTIFICATE_OPERATION_SUCCESS_def AGPS_CERTIFICATE_ERROR_GENERIC_def
      AGPS_CERTIFICATE_ERROR_TOO_MANY_CERTIFICATES_def)

end
