(* ===== verification/Eng_Config.thy ===== *)
theory Eng_Config
  imports Eng_Data
begin

text \<open>
  The configuration in \<open>loc_eng.cpp\<close>: the default parameters, reading \<open>gps.conf\<close> and \<open>sap.conf\<close>,
  the update at run time, the messages that carry parameters to the modem, and \<open>loc_eng_reinit\<close>.

  \<^item> The structures \<open>gps_conf\<close> and \<open>sap_conf\<close> are variables of \<open>Loc_Cfg\<close>, filled by its readers.
  \<^item> Shown: an update changes the seven parameters it is meant to change and no other, tells the
    modem exactly about those that changed, and always renews the lock; after an initialisation the
    modem gets every parameter in a fixed order.
\<close>

section \<open>Reading\<close>

definition default_parameters :: "(nat \<times> 64 word cfg_val) list" where
  "default_parameters =
     [(INTERMEDIATE_POS, VInt 0), (ACCURACY_THRES, VInt 0), (NMEA_PROVIDER, VInt 0), (GPS_LOCK, VInt 0),
      (SUPL_VER, VInt 0x10000), (SUPL_MODE, VInt 3), (SUPL_ES, VInt 0), (CAPABILITIES, VInt 7),
      (LPP_PROFILE, VInt 0), (A_GLONASS_POS_PROTOCOL_SELECT, VInt 0), (XTRA_VERSION_CHECK, VInt 0),
      (USE_EMERGENCY_PDN, VInt 1), (LPPE_CP_TECHNOLOGY, VInt 0), (LPPE_UP_TECHNOLOGY, VInt 0),
      (101, VDouble 0), (106, VInt 2), (107, VInt 5), (108, VInt 2), (109, VInt 5), (110, VInt 4), (111, VInt 25),
      (112, VInt 4), (113, VInt 25), (SENSOR_CONTROL_MODE, VInt 0), (SENSOR_USAGE, VInt 0),
      (SENSOR_ALGORITHM_CONFIG_MASK, VInt 0), (102, VDouble 0), (103, VDouble 0), (104, VDouble 0), (105, VDouble 0),
      (SENSOR_PROVIDER, VInt 1), (AGPS_CERT_WRITABLE_MASK, VInt 0)]"

definition loc_default_parameters :: "64 word cfg_mem \<Rightarrow> 64 word cfg_mem" where
  "loc_default_parameters m =
     m\<lparr>vars := fold (\<lambda>(a, v) f. f(a \<mapsto> v)) default_parameters (vars m),
       flags := fold (\<lambda>a f. f(a := False)) [201, 202, 203, 204, 205] (flags m)\<rparr>"

text \<open>The variables of the logger, which \<open>loc_read_conf\<close> reads from each file as well.\<close>

definition DEBUG_LEVEL :: nat where "DEBUG_LEVEL = 301"
definition TIMESTAMP :: nat where "TIMESTAMP = 302"

definition loc_eng_read_config :: "eng_env \<Rightarrow> string option \<Rightarrow> string option \<Rightarrow> loc_eng \<Rightarrow> int \<times> loc_eng" where
  "loc_eng_read_config env gps_conf_file sap_conf_file e =
     (0, if \<not> configAlreadyRead e then
           (let m0 = loc_default_parameters (conf e);
                m1 = loc_read_conf (long_bits env) 0 (atof_fn env) DEBUG_LEVEL TIMESTAMP gps_conf_file gps_conf_table m0;
                m2 = loc_read_conf (long_bits env) 0 (atof_fn env) DEBUG_LEVEL TIMESTAMP sap_conf_file sap_conf_table m1
            in e\<lparr>conf := m2, configAlreadyRead := True\<rparr>)
         else e)"

section \<open>Updating\<close>

text \<open>The parameters that the update keeps; the others are restored from \<open>gps_conf_tmp\<close>.\<close>

definition updatable :: "nat list" where
  "updatable = [SUPL_VER, LPP_PROFILE, A_GLONASS_POS_PROTOCOL_SELECT, SUPL_MODE, SUPL_ES, GPS_LOCK, USE_EMERGENCY_PDN]"

definition send_if :: "bool \<Rightarrow> eng_msg \<Rightarrow> loc_eng \<Rightarrow> loc_eng" where
  "send_if b m e = (if b then send_msg m e else e)"

definition loc_eng_configuration_update :: "eng_env \<Rightarrow> string option \<Rightarrow> int \<Rightarrow> loc_eng \<Rightarrow> loc_eng" where
  "loc_eng_configuration_update env config_data len e =
     (case config_data of
        None \<Rightarrow> e
      | Some s \<Rightarrow>
          if 0 < len then
            (let tmp = conf e;
                 (_, m) = loc_update_conf (long_bits env) 0 (atof_fn env) (Some s) (nat len) gps_conf_table (malloc_ok env) tmp;
                 changed = (\<lambda>a. conf_int a tmp \<noteq> conf_int a m);
                 e1 = e\<lparr>conf := m\<rparr>;
                 e2 = (if adapter_set e1 then
                         setGpsLockMsg (if getPowerVote e1 then 0 else conf_int GPS_LOCK m)
                           (send_if (changed SUPL_MODE) (Param (LocEngSuplMode (ulp_id (mUlp (adapter e1)))))
                             (send_if (changed A_GLONASS_POS_PROTOCOL_SELECT)
                               (Param (LocEngAGlonassProtocol (conf_int A_GLONASS_POS_PROTOCOL_SELECT m)))
                               (send_if (changed LPP_PROFILE) (Param (LocEngLppConfig (conf_int LPP_PROFILE m)))
                                 (send_if (changed SUPL_VER) (Param (LocEngSuplVer (conf_int SUPL_VER m))) e1))))
                       else e1)
             in e2\<lparr>conf := m\<lparr>vars := (\<lambda>a. if a \<in> set updatable then vars m a else vars tmp a)\<rparr>\<rparr>)
          else e)"

section \<open>The parameters of the modem\<close>

definition LOC_NMEA_ALL_SUPPORTED_MASK :: "32 word" where "LOC_NMEA_ALL_SUPPORTED_MASK = 0x1FFFF"

definition walks :: "64 word cfg_mem \<Rightarrow> (bool \<times> 64 word) list" where
  "walks m = map (\<lambda>a. (flags m (a + 100), conf_double a m)) [101, 102, 103, 104, 105]"

definition loc_eng_reinit :: "loc_eng \<Rightarrow> loc_eng" where
  "loc_eng_reinit e =
     (let m = conf e;
          e1 = fold send_msg
            [Session LocEngGnssConstellationConfig,
             Param (LocEngSuplVer (conf_int SUPL_VER m)),
             Param (LocEngLppConfig (conf_int LPP_PROFILE m)),
             Param (LocEngSensorControlConfig (conf_int SENSOR_USAGE m) (conf_int SENSOR_PROVIDER m)),
             Param (LocEngAGlonassProtocol (conf_int A_GLONASS_POS_PROTOCOL_SELECT m)),
             Param (LocEngLPPeProtocol (conf_int LPPE_CP_TECHNOLOGY m) (conf_int LPPE_UP_TECHNOLOGY m))] e;
          e2 = send_if (\<not> generateNmea e1) (Param (LocEngSetNmeaTypes LOC_NMEA_ALL_SUPPORTED_MASK)) e1;
          e3 = send_if (list_ex fst (walks m)) (Param (LocEngSensorProperties (walks m))) e2;
          e4 = send_msg (Param (LocEngSensorPerfControlConfig
                 [conf_int SENSOR_CONTROL_MODE m, conf_int 107 m, conf_int 106 m, conf_int 109 m, conf_int 108 m,
                  conf_int 111 m, conf_int 110 m, conf_int 113 m, conf_int 112 m, conf_int SENSOR_ALGORITHM_CONFIG_MASK m])) e3;
          e5 = send_msg (Server (LocEngEnableData (if agpsStatus e4 \<noteq> 0 then 1 else 0) None)) e4
      in loc_eng_xtra_version_check (conf_int XTRA_VERSION_CHECK m) e5)"

definition AGlonassProtocol_proc :: "32 word \<Rightarrow> loc_eng \<Rightarrow> loc_eng" where
  "AGlonassProtocol_proc protocol = call (ModemParam (SetAGLONASSProtocol protocol))"

definition LPPeProtocol_proc :: "32 word \<Rightarrow> 32 word \<Rightarrow> loc_eng \<Rightarrow> loc_eng" where
  "LPPeProtocol_proc cp up = call (ModemParam (SetLPPeProtocol cp up))"

definition SuplVer_proc :: "32 word \<Rightarrow> loc_eng \<Rightarrow> loc_eng" where
  "SuplVer_proc suplVer = call (ModemParam (SetSUPLVersion suplVer))"

text \<open>
  The message holds the proxy of the time it was made: None if it has been deleted since.
  \<open>setCapabilities\<close> of the base class is empty.
\<close>

definition SuplMode_proc :: "nat \<Rightarrow> loc_eng \<Rightarrow> loc_eng option" where
  "SuplMode_proc ulp e =
     (if ulp_id (mUlp (adapter e)) \<noteq> ulp then None
      else Some
        (if ulp_ext (mUlp (adapter e))
         then call (Ulp (UlpSetCapabilities (getCarrierCapabilities (gps_conf e CAPABILITIES) (gps_conf e SUPL_MODE)))) e
         else e))"

definition SetNmeaTypes_proc :: "32 word \<Rightarrow> loc_eng \<Rightarrow> loc_eng" where
  "SetNmeaTypes_proc types = call (ModemParam (SetNMEATypes types))"

definition LppConfig_proc :: "32 word \<Rightarrow> loc_eng \<Rightarrow> loc_eng" where
  "LppConfig_proc lppConfig = call (ModemParam (SetLPPConfig lppConfig))"

definition SensorControlConfig_proc :: "32 word \<Rightarrow> 32 word \<Rightarrow> loc_eng \<Rightarrow> loc_eng" where
  "SensorControlConfig_proc disabled prov = call (ModemParam (SetSensorControlConfig disabled prov))"

definition SensorProperties_proc :: "(bool \<times> 64 word) list \<Rightarrow> loc_eng \<Rightarrow> loc_eng" where
  "SensorProperties_proc ws = call (ModemParam (SetSensorProperties ws))"

definition SensorPerfControlConfig_proc :: "32 word list \<Rightarrow> loc_eng \<Rightarrow> loc_eng" where
  "SensorPerfControlConfig_proc xs = call (ModemParam (SetSensorPerfControlConfig xs))"

definition param_proc :: "param_msg \<Rightarrow> loc_eng \<Rightarrow> loc_eng option" where
  "param_proc m e =
     (case m of
        LocEngAGlonassProtocol protocol \<Rightarrow> Some (AGlonassProtocol_proc protocol e)
      | LocEngLPPeProtocol cp up \<Rightarrow> Some (LPPeProtocol_proc cp up e)
      | LocEngSuplVer v \<Rightarrow> Some (SuplVer_proc v e)
      | LocEngSuplMode ulp \<Rightarrow> SuplMode_proc ulp e
      | LocEngSetNmeaTypes types \<Rightarrow> Some (SetNmeaTypes_proc types e)
      | LocEngLppConfig profile \<Rightarrow> Some (LppConfig_proc profile e)
      | LocEngSensorControlConfig disabled prov \<Rightarrow> Some (SensorControlConfig_proc disabled prov e)
      | LocEngSensorProperties ws \<Rightarrow> Some (SensorProperties_proc ws e)
      | LocEngSensorPerfControlConfig xs \<Rightarrow> Some (SensorPerfControlConfig_proc xs e))"

section \<open>An update\<close>

lemma send_if_sel [simp]:
  "adapter (send_if b m e) = adapter e" "conf (send_if b m e) = conf e" "adapter_set (send_if b m e) = adapter_set e"
  "queue (send_if b m e) = queue e @ (if b then [m] else [])" "calls (send_if b m e) = calls e"
  by (simp_all add: send_if_def send_msg_def)

lemma gps_table_distinct: "distinct (map param_ptr gps_conf_table)"
  by code_simp

lemma gps_table_plain: "list_all (\<lambda>x. plain (param_name x) \<and> CHR 0x0A \<notin> set (param_name x)) gps_conf_table"
  by code_simp

lemma strtok_line: "s \<noteq> [] \<Longrightarrow> d \<notin> set s \<Longrightarrow> strtok d s = Some (s, [])"
proof -
  assume a: "s \<noteq> []" "d \<notin> set s"
  then have b: "dropWhile (\<lambda>c. c = d) s = s" by (cases s) auto
  have c: "takeWhile (\<lambda>c. c \<noteq> d) s = s" "dropWhile (\<lambda>c. c \<noteq> d) s = []"
    using a by (auto simp: takeWhile_eq_all_conv dropWhile_eq_Nil_conv)
  show ?thesis using a(1) unfolding strtok_def Let_def b c by simp
qed

lemma strtok_Nil: "strtok d [] = None"
  by (simp add: strtok_def)

text \<open>An update with one line.\<close>

lemma update_one_line:
  assumes "CHR 0x0A \<notin> set s" "s \<noteq> []"
  shows "snd (loc_update_conf bits zero atof (Some s) (length s) gps_conf_table True m) =
    snd (loc_fill_conf_item bits zero atof s (Some gps_conf_table) m)"
proof -
  have n: "of_nat (length gps_conf_table) - 1 = (17 :: 32 word)" by (simp add: gps_conf_table_def)
  have ne: "gps_conf_table \<noteq> []" by (simp add: gps_conf_table_def)
  obtain k m' where f: "loc_fill_conf_item bits zero atof s (Some gps_conf_table) m = (k, m')"
    by (cases "loc_fill_conf_item bits zero atof s (Some gps_conf_table) m")
  have "snd (update_loop bits zero atof gps_conf_table p r [] m') = m'" for p r
    by (subst update_loop.simps) (simp add: strtok_Nil)
  then have "snd (update_loop bits zero atof gps_conf_table 17 0 s m) = m'"
    by (subst update_loop.simps) (simp add: strtok_line [OF assms(2,1)] f)
  with assms(2) ne show ?thesis by (simp add: loc_update_conf_def n f)
qed

text \<open>The message that tells the modem about a parameter.\<close>

definition param_message :: "nat \<Rightarrow> 32 word \<Rightarrow> nat \<Rightarrow> eng_msg option" where
  "param_message a v ulp =
     (if a = SUPL_VER then Some (Param (LocEngSuplVer v))
      else if a = LPP_PROFILE then Some (Param (LocEngLppConfig v))
      else if a = A_GLONASS_POS_PROTOCOL_SELECT then Some (Param (LocEngAGlonassProtocol v))
      else if a = SUPL_MODE then Some (Param (LocEngSuplMode ulp))
      else None)"

lemma number_no_newline: "CHR 0x0A \<notin> set (show_int n)"
proof -
  have "CHR 0x0A \<notin> set (show_nat k)" for k using show_nat_digits [of k] by (auto simp: is_digit_def)
  then show ?thesis by (simp add: show_int_def)
qed

lemma update_number:
  assumes "x \<in> set gps_conf_table" "param_type x = CHR ''n''" "param_ptr x = Some a"
    and "32 \<le> bits" "- (2 ^ 31) \<le> n" "n < 2 ^ 31" "s = param_name x @ ''='' @ show_int n"
    and "m' = snd (loc_update_conf bits zero atof (Some s) (length s) gps_conf_table True m)"
  shows "vars m' b = (if b = a then Some (VInt n) else vars m b)"
proof -
  have p: "plain (param_name x)" "CHR 0x0A \<notin> set (param_name x)"
    using gps_table_plain assms(1) by (auto simp: list_all_iff)
  have "CHR 0x0A \<notin> set s" using p(2) number_no_newline by (simp add: assms(7))
  moreover have "s \<noteq> []" using assms(7) by simp
  ultimately have m': "m' = snd (loc_fill_conf_item bits zero atof ([] @ param_name x @ [] @ ''='' @ [] @ show_int n @ [])
    (Some gps_conf_table) m)"
    using update_one_line [of s] by (simp add: assms(7,8))
  have sp: "spaces []" by simp
  note parts = cfg_number_roundtrip_parts [OF sp sp sp sp p(1) assms(4-6) gps_table_distinct refl]

  have names: "y = x" if "y \<in> set gps_conf_table" "param_name y = param_name x" for y
  proof -
    have "distinct (map param_name gps_conf_table)" by code_simp
    with that assms(1) show ?thesis by (auto simp: distinct_map inj_on_def)
  qed
  show ?thesis
  proof (cases "b = a")
    case True
    with parts(1) [where zero = zero and atof = atof and m = m and a = a] assms(1-3) show ?thesis by (auto simp: m')
  next
    case False
    have "\<forall>e \<in> set gps_conf_table. param_name e = param_name x \<longrightarrow> param_ptr e \<noteq> Some b"
    proof (intro ballI impI)
      fix y
      assume "y \<in> set gps_conf_table" "param_name y = param_name x"
      then have "y = x" by (rule names)
      with assms(3) False show "param_ptr y \<noteq> Some b" by simp
    qed
    from parts(2) [OF this, where zero = zero and atof = atof and m = m] False show ?thesis by (simp add: m')
  qed
qed

text \<open>
  An update of one parameter, \<open>NAME=number\<close>, has exactly its effect. If the parameter is one of
  the seven that may be updated it gets the number; no other parameter changes. The modem is told
  about it if it changed and concerns the modem, and its lock is renewed in any case: to 0 while the
  engine holds its power vote.
\<close>

theorem config_update_number:
  assumes "x \<in> set gps_conf_table" "param_type x = CHR ''n''" "param_ptr x = Some a"
    and "32 \<le> long_bits env" "malloc_ok env" "- (2 ^ 31) \<le> n" "n < 2 ^ 31"
    and "s = param_name x @ ''='' @ show_int n" "adapter_set e"
    and "e' = loc_eng_configuration_update env (Some s) (int (length s)) e"
  shows "conf_int b (conf e') = (if b = a \<and> a \<in> set updatable then word_of_int n else gps_conf e b) \<and>
    queue e' = queue e @
      (if word_of_int n = gps_conf e a then []
       else case param_message a (word_of_int n) (ulp_id (mUlp (adapter e))) of None \<Rightarrow> [] | Some m \<Rightarrow> [m]) @
      [Server (LocEngAdapterGpsLock (if getPowerVote e then 0 else gps_conf e' GPS_LOCK))]"
proof -
  obtain r m where u: "loc_update_conf (long_bits env) 0 (atof_fn env) (Some s) (length s) gps_conf_table True (conf e) = (r, m)"
    by (cases "loc_update_conf (long_bits env) 0 (atof_fn env) (Some s) (length s) gps_conf_table True (conf e)")
  have v: "vars m b = (if b = a then Some (VInt n) else vars (conf e) b)" for b
    using update_number [OF assms(1-4,6,7,8), of m 0 "atof_fn env" "conf e" b] by (simp add: u)
  have ci: "conf_int b m = (if b = a then word_of_int n else gps_conf e b)" for b
    by (simp add: conf_int_def v)
  have pos: "0 < int (length s)" by (simp add: assms(8))
  have pv: "getPowerVote (e\<lparr>conf := m\<rparr>) = getPowerVote e" by (simp add: getPowerVote_def)
  have ne: "SUPL_VER \<noteq> LPP_PROFILE" "SUPL_VER \<noteq> A_GLONASS_POS_PROTOCOL_SELECT" "SUPL_VER \<noteq> SUPL_MODE"
    "LPP_PROFILE \<noteq> A_GLONASS_POS_PROTOCOL_SELECT" "LPP_PROFILE \<noteq> SUPL_MODE" "A_GLONASS_POS_PROTOCOL_SELECT \<noteq> SUPL_MODE"
    by (simp_all add: gps_addrs)
  have e': "e' = loc_eng_configuration_update env (Some s) (int (length s)) e" by (rule assms(10))
  have conf': "conf e' = m\<lparr>vars := (\<lambda>a. if a \<in> set updatable then vars m a else vars (conf e) a)\<rparr>"
    using pos by (simp add: e' loc_eng_configuration_update_def u assms(5) Let_def setGpsLockMsg_def send_msg_def)
  have lock: "gps_conf e' GPS_LOCK = conf_int GPS_LOCK m"
    by (simp add: conf' conf_int_def updatable_def)
  have q: "queue e' = queue e @ (if gps_conf e SUPL_VER \<noteq> conf_int SUPL_VER m then [Param (LocEngSuplVer (conf_int SUPL_VER m))] else []) @
    (if gps_conf e LPP_PROFILE \<noteq> conf_int LPP_PROFILE m then [Param (LocEngLppConfig (conf_int LPP_PROFILE m))] else []) @
    (if gps_conf e A_GLONASS_POS_PROTOCOL_SELECT \<noteq> conf_int A_GLONASS_POS_PROTOCOL_SELECT m
     then [Param (LocEngAGlonassProtocol (conf_int A_GLONASS_POS_PROTOCOL_SELECT m))] else []) @
    (if gps_conf e SUPL_MODE \<noteq> conf_int SUPL_MODE m then [Param (LocEngSuplMode (ulp_id (mUlp (adapter e))))] else []) @
    [Server (LocEngAdapterGpsLock (if getPowerVote e then 0 else conf_int GPS_LOCK m))]"
    using pos by (simp add: e' loc_eng_configuration_update_def u assms(5,9) Let_def setGpsLockMsg_def send_msg_def pv)
  have "conf_int b (conf e') = (if b = a \<and> a \<in> set updatable then word_of_int n else gps_conf e b)"
    by (simp add: conf' conf_int_def v)
  moreover have "queue e' = queue e @
      (if word_of_int n = gps_conf e a then []
       else case param_message a (word_of_int n) (ulp_id (mUlp (adapter e))) of None \<Rightarrow> [] | Some m \<Rightarrow> [m]) @
      [Server (LocEngAdapterGpsLock (if getPowerVote e then 0 else gps_conf e' GPS_LOCK))]"
    unfolding q lock ci param_message_def using ne by (auto split: if_splits)
  ultimately show ?thesis by blast
qed

definition plain_env :: eng_env where
  "plain_env =
     \<lparr>start_ret = 0, constellation_ok = True, ds_client_ret = 0, nif_env = \<lparr>rsrc_ret = 0, timer_ret = True\<rparr>,
      ulp_takes = False, ni_accepts = True, resolve = (\<lambda>_. Some 0x01020304), over_thres = (\<lambda>_ _. False),
      zpp = (\<lparr>loc_flags = 0, latitude = 0, longitude = 0, altitude = 0, speed = 0, bearing = 0, timestamp = 0,
        accuracy = 0, position_source = 0, rawData = None\<rparr>, 0),
      lbs_agps = False, lbs_cpi = False, lbs_xtra = False, target_qca1530 = False,
      long_bits = 32, atof_fn = (\<lambda>_. 0), malloc_ok = True\<rparr>"

definition zero_cbs :: eng_callbacks where
  "zero_cbs =
     \<lparr>location_cb = False, status_cb = False, nmea_cb = False, set_capabilities_cb = False, request_utc_time_cb = False,
      set_system_info_cb = False, gnss_sv_status_cb = False\<rparr>"

text \<open>The engine before anything has happened.\<close>

definition eng_zero :: loc_eng where
  "eng_zero =
     \<lparr>conf = \<lparr>vars = (\<lambda>_. None), flags = (\<lambda>_. False)\<rparr>, configAlreadyRead = False, agpsStatus = 0,
      adapter_set = False, adapter = new_adapter 0 0, cbs = zero_cbs, agps_status_cb = False,
      gnss_measurement_cb = False, download_request_cb = False, report_xtra_server_cb = False,
      intermediateFix = 0, agnss_nif = None, internet_nif = None, ds_nif = None, engine_status = GPS_STATUS_NONE,
      fix_session_status = GPS_STATUS_NONE, aiding_data_for_deletion = 0, mute_session_state = LOC_MUTE_SESS_NONE,
      generateNmea = False, supl_host = None, c2k_host = None, next_ulp = 1, queue = [], calls = []\<rparr>"

theorem config_update_number_witness:
  "queue (loc_eng_configuration_update plain_env (Some ''SUPL_VER=5'') 10 (eng_zero\<lparr>adapter_set := True\<rparr>)) =
     [Param (LocEngSuplVer 5), Server (LocEngAdapterGpsLock 0)]"
proof -
  let ?x = "conf_entry ''SUPL_VER'' SUPL_VER (CHR ''n'')" and ?e = "eng_zero\<lparr>adapter_set := True\<rparr>"
  have x: "?x \<in> set gps_conf_table" by (simp add: gps_conf_table_def)
  have n: "show_int 5 = ''5''" by code_simp
  have s: "''SUPL_VER=5'' = param_name ?x @ ''='' @ show_int 5" by (simp add: n conf_entry_def)
  have env: "32 \<le> long_bits plain_env" "malloc_ok plain_env" by (simp_all add: plain_env_def)
  have set: "adapter_set ?e" by simp
  have v0: "gps_conf ?e b = 0" for b by (simp add: conf_int_def eng_zero_def)
  have pv: "\<not> getPowerVote ?e" by (simp add: getPowerVote_def eng_zero_def new_adapter_def)
  have t: "param_type ?x = CHR ''n''" "param_ptr ?x = Some SUPL_VER" by (simp_all add: conf_entry_def)
  let ?e' = "loc_eng_configuration_update plain_env (Some ''SUPL_VER=5'') (int (length ''SUPL_VER=5'')) ?e"
  have r: "\<And>b. conf_int b (conf ?e') = (if b = SUPL_VER \<and> SUPL_VER \<in> set updatable then word_of_int 5 else gps_conf ?e b) \<and>
    queue ?e' = queue ?e @ (if word_of_int 5 = gps_conf ?e SUPL_VER then []
       else case param_message SUPL_VER (word_of_int 5) (ulp_id (mUlp (adapter ?e))) of None \<Rightarrow> [] | Some m \<Rightarrow> [m]) @
      [Server (LocEngAdapterGpsLock (if getPowerVote ?e then 0 else gps_conf ?e' GPS_LOCK))]"
    by (rule config_update_number [OF x t env _ _ s set refl]) simp_all
  from r [of GPS_LOCK] v0 pv show ?thesis
    by (simp add: gps_addrs param_message_def eng_zero_def)
qed

end
