(* ===== verification/Loc_Eng.thy ===== *)
theory Loc_Eng
  imports Eng_Config
begin

text \<open>
  \<open>loc_eng.cpp\<close>: the session, the reports to the client and the restart of the engine.

  \<^item> Each \<open>..._proc\<close> is the \<open>proc\<close> of the message class of that name; \<open>eng_proc\<close> dispatches. A \<open>proc\<close>
    runs on the message task, so it is atomic against the other messages; the functions that the
    client calls run on its threads and are taken as one step as well.
  \<^item> None is undefined behaviour: a NULL state machine, a deleted ULP proxy, or a shift beyond the
    width of \<open>int\<close>.
  \<^item> What the network initiated requests do with their message is in \<open>Loc_Eng_Ni\<close>; here
    \<open>ni_accepts\<close> tells whether a session takes the request.
  \<^item> Shown: the mute state machine, when aiding data are deleted, what a position report decides, the
    satellites marked as used, what survives a restart of the modem.
\<close>

section \<open>Status\<close>

definition loc_inform_gps_status :: "gps_status \<Rightarrow> loc_eng \<Rightarrow> loc_eng" where
  "loc_inform_gps_status status e = (if status_cb (cbs e) then call (Client (CbStatus status)) e else e)"

definition loc_eng_mute_one_session :: "loc_eng \<Rightarrow> loc_eng" where
  "loc_eng_mute_one_session e = e\<lparr>mute_session_state := LOC_MUTE_SESS_WAIT\<rparr>"

definition loc_eng_report_status :: "gps_status \<Rightarrow> loc_eng \<Rightarrow> loc_eng" where
  "loc_eng_report_status status e =
     (let e1 = (if (status = GPS_STATUS_SESSION_BEGIN \<or> status = GPS_STATUS_ENGINE_ON) \<and>
                   mute_session_state e = LOC_MUTE_SESS_WAIT
                then e\<lparr>mute_session_state := LOC_MUTE_SESS_IN_SESSION\<rparr> else e);
          e2 = (if mute_session_state e1 = LOC_MUTE_SESS_IN_SESSION \<and>
                   (status = GPS_STATUS_SESSION_END \<or> status = GPS_STATUS_ENGINE_OFF)
                then e1\<lparr>mute_session_state := LOC_MUTE_SESS_NONE\<rparr> else e1);
          navigating = mNavigating (adapter e2);
          e3 = (if status \<noteq> GPS_STATUS_NONE \<and> \<not> (status = GPS_STATUS_SESSION_END \<and> navigating) \<and>
                   \<not> (status = GPS_STATUS_SESSION_BEGIN \<and> \<not> navigating) \<and>
                   mute_session_state e2 \<noteq> LOC_MUTE_SESS_IN_SESSION
                then loc_inform_gps_status status e2 else e2);
          e4 = (if status = GPS_STATUS_ENGINE_ON \<or> status = GPS_STATUS_ENGINE_OFF
                then e3\<lparr>engine_status := status\<rparr> else e3)
      in if status = GPS_STATUS_SESSION_BEGIN \<or> status = GPS_STATUS_SESSION_END
         then e4\<lparr>fix_session_status := status\<rparr> else e4)"

text \<open>The same function occurs a second time under the name \<open>deleteAidingData\<close>, unused.\<close>

definition update_aiding_data_for_deletion :: "loc_eng \<Rightarrow> loc_eng" where
  "update_aiding_data_for_deletion e =
     (if engine_status e \<noteq> GPS_STATUS_ENGINE_ON \<and> aiding_data_for_deletion e \<noteq> 0
      then (call (Modem (DeleteAidingData (aiding_data_for_deletion e))) e)\<lparr>aiding_data_for_deletion := 0\<rparr>
      else e)"

definition ReportStatus_proc :: "gps_status \<Rightarrow> loc_eng \<Rightarrow> loc_eng" where
  "ReportStatus_proc status e = update_aiding_data_for_deletion (loc_eng_report_status status e)"

definition DelAidData_proc :: "16 word \<Rightarrow> loc_eng \<Rightarrow> loc_eng" where
  "DelAidData_proc f e = update_aiding_data_for_deletion (e\<lparr>aiding_data_for_deletion := f\<rparr>)"

section \<open>The session\<close>

definition LOC_API_ADAPTER_ERR_PHONE_OFFLINE :: int where "LOC_API_ADAPTER_ERR_PHONE_OFFLINE = 7"
definition LOC_API_ADAPTER_ERR_ENGINE_DOWN :: int where
  "LOC_API_ADAPTER_ERR_ENGINE_DOWN = LOC_API_ADAPTER_ERR_PHONE_OFFLINE"
definition LOC_API_ADAPTER_ERR_INTERNAL :: int where "LOC_API_ADAPTER_ERR_INTERNAL = 10"

definition loc_eng_start_handler :: "eng_env \<Rightarrow> loc_eng \<Rightarrow> loc_eng" where
  "loc_eng_start_handler env e =
     (if \<not> mNavigating (adapter e) then
        (let (ret, e1) = startFix env e
         in if ret = LOC_API_ADAPTER_ERR_SUCCESS \<or> ret = LOC_API_ADAPTER_ERR_ENGINE_DOWN \<or>
               ret = LOC_API_ADAPTER_ERR_PHONE_OFFLINE \<or> ret = LOC_API_ADAPTER_ERR_INTERNAL
            then setInSession True e1 else e1)
      else e)"

definition loc_eng_stop_handler :: "loc_eng \<Rightarrow> loc_eng" where
  "loc_eng_stop_handler e = (if mNavigating (adapter e) then setInSession False (stopFix e) else e)"

definition StartFix_proc :: "eng_env \<Rightarrow> loc_eng \<Rightarrow> loc_eng" where
  "StartFix_proc = loc_eng_start_handler"

definition StopFix_proc :: "loc_eng \<Rightarrow> loc_eng" where
  "StopFix_proc e = loc_eng_stop_handler (clearGnssSvUsedListData e)"

definition PositionMode_proc :: "loc_pos_mode \<Rightarrow> loc_eng \<Rightarrow> loc_eng" where
  "PositionMode_proc posMode = setPositionMode (Some posMode)"

definition LOCATION_HAS_SOURCE_INFO :: "16 word" where "LOCATION_HAS_SOURCE_INFO = 0x20"
definition ULP_LOCATION_IS_FROM_ZPP :: "16 word" where "ULP_LOCATION_IS_FROM_ZPP = 4"

text \<open>
  \<open>getUlpProxy()->reportPosition\<close> of the base class does nothing, so the position of a target
  without an external proxy is dropped.
\<close>

definition loc_eng_get_zpp_handler :: "eng_env \<Rightarrow> loc_eng \<Rightarrow> loc_eng" where
  "loc_eng_get_zpp_handler env e =
     (let e1 = call (Modem GetBestAvailableZppFix) e;
          loc = (fst (zpp env))\<lparr>loc_flags := or (loc_flags (fst (zpp env))) LOCATION_HAS_SOURCE_INFO,
                  position_source := ULP_LOCATION_IS_FROM_ZPP\<rparr>
      in if ulp_ext (mUlp (adapter e1)) then call (Ulp (UlpReportPosition loc)) e1 else e1)"

definition GetZpp_proc :: "eng_env \<Rightarrow> loc_eng \<Rightarrow> loc_eng" where
  "GetZpp_proc = loc_eng_get_zpp_handler"

section \<open>Reports\<close>

definition GPS_LOCATION_HAS_ACCURACY :: "16 word" where "GPS_LOCATION_HAS_ACCURACY = 0x10"
definition GPS_LOCATION_EXTENDED_HAS_GNSS_SV_USED_DATA :: "16 word" where
  "GPS_LOCATION_EXTENDED_HAS_GNSS_SV_USED_DATA = 0x1000"
definition LOC_POS_TECH_MASK_SATELLITE :: "32 word" where "LOC_POS_TECH_MASK_SATELLITE = 1"
definition LOC_POS_TECH_MASK_SENSORS :: "32 word" where "LOC_POS_TECH_MASK_SENSORS = 8"
definition LOC_POS_TECH_MASK_HYBRID :: "32 word" where "LOC_POS_TECH_MASK_HYBRID = 0x80"

text \<open>The long condition of \<open>LocEngReportPosition::proc\<close>; \<open>LOC_SESS_INTERMEDIATE\<close> is 1.\<close>

definition accepts_fix :: "eng_env \<Rightarrow> ulp_location \<Rightarrow> loc_sess_status \<Rightarrow> 32 word \<Rightarrow> loc_eng \<Rightarrow> bool" where
  "accepts_fix env loc status tech e \<longleftrightarrow>
     status = LOC_SESS_SUCCESS \<and>
       and (or (or LOC_POS_TECH_MASK_SATELLITE LOC_POS_TECH_MASK_SENSORS) LOC_POS_TECH_MASK_HYBRID) tech \<noteq> 0 \<or>
     intermediateFix e = 1 \<and>
       \<not> (and (loc_flags loc) GPS_LOCATION_HAS_ACCURACY \<noteq> 0 \<and> gps_conf e ACCURACY_THRES \<noteq> 0 \<and>
          over_thres env (accuracy loc) (gps_conf e ACCURACY_THRES))"

text \<open>The first part of the \<open>proc\<close>: the report to the client, and whether there was one.\<close>

definition report_fix ::
  "eng_env \<Rightarrow> ulp_location \<Rightarrow> location_extended \<Rightarrow> loc_sess_status \<Rightarrow> 32 word \<Rightarrow> loc_eng \<Rightarrow> bool \<times> loc_eng" where
  "report_fix env loc ext status tech e =
     (if location_cb (cbs e) then
        (if status = LOC_SESS_FAILURE then (True, call (Client (CbLocation None)) e)
         else if accepts_fix env loc status tech e then
           (True, call (Client (CbLocation (Some loc)))
             (if and (ext_flags ext) GPS_LOCATION_EXTENDED_HAS_GNSS_SV_USED_DATA \<noteq> 0
              then setGnssSvUsedListData (gnss_sv_used_ids ext) e else e))
         else (False, e))
      else (False, e))"

definition ReportPosition_proc ::
  "eng_env \<Rightarrow> ulp_location \<Rightarrow> location_extended \<Rightarrow> loc_sess_status \<Rightarrow> 32 word \<Rightarrow> loc_eng \<Rightarrow> loc_eng" where
  "ReportPosition_proc env loc ext status tech e =
     (if mute_session_state e \<noteq> LOC_MUTE_SESS_IN_SESSION then
        (let (reported, e1) = report_fix env loc ext status tech e;
             e2 = (if reported \<and> recurrence (mFixCriteria (adapter e1)) = GPS_POSITION_RECURRENCE_SINGLE
                   then setInSession False (if status = LOC_SESS_INTERMEDIATE then stopFix e1 else e1) else e1);
             e3 = (if generateNmea e2 \<and> mNavigating (adapter e2)
                   then call (NmeaGeneratePos loc ext (reported \<and> status \<noteq> LOC_SESS_FAILURE) (mode (mFixCriteria (adapter e2)))) e2 else e2)
         in case rawData loc of None \<Rightarrow> e3 | Some p \<Rightarrow> call (FreeRawData p) e3)
      else e)"

definition used_mask :: "sv_used \<Rightarrow> gnss_constellation \<Rightarrow> 64 word" where
  "used_mask u c =
     (case c of
        GNSS_CONSTELLATION_GPS \<Rightarrow> gps_sv_used_ids_mask u
      | GNSS_CONSTELLATION_GLONASS \<Rightarrow> glo_sv_used_ids_mask u
      | GNSS_CONSTELLATION_BEIDOU \<Rightarrow> bds_sv_used_ids_mask u
      | GNSS_CONSTELLATION_GALILEO \<Rightarrow> gal_sv_used_ids_mask u
      | _ \<Rightarrow> 0)"

text \<open>\<open>1 << (gnssSvId - 1)\<close> in 32-bit \<open>int\<close>, converted to 64 bits: defined for 1 to 32.\<close>

definition sv_bit :: "int \<Rightarrow> 64 word option" where
  "sv_bit i = (if 1 \<le> i \<and> i \<le> 32 then Some (scast (push_bit (nat (i - 1)) 1 :: 32 word)) else None)"

definition mark_sv :: "sv_used \<Rightarrow> gnss_sv \<Rightarrow> gnss_sv option" where
  "mark_sv u sv =
     (case sv_bit (svid sv) of
        None \<Rightarrow> None
      | Some b \<Rightarrow>
          Some (sv\<lparr>sv_flags :=
            (if and (used_mask u (constellation sv)) b \<noteq> 0 then or (sv_flags sv) GNSS_SV_FLAGS_USED_IN_FIX
             else and (sv_flags sv) (not GNSS_SV_FLAGS_USED_IN_FIX))\<rparr>))"

fun mark_svs :: "sv_used \<Rightarrow> gnss_sv list \<Rightarrow> gnss_sv list option" where
  "mark_svs u [] = Some []"
| "mark_svs u (sv # svs) =
     (case mark_sv u sv of
        None \<Rightarrow> None
      | Some sv' \<Rightarrow> (case mark_svs u svs of None \<Rightarrow> None | Some svs' \<Rightarrow> Some (sv' # svs')))"

definition ReportSv_proc :: "gnss_sv list \<Rightarrow> location_extended \<Rightarrow> loc_eng \<Rightarrow> loc_eng option" where
  "ReportSv_proc svs ext e =
     (if mute_session_state e \<noteq> LOC_MUTE_SESS_IN_SESSION then
        (case (if mGnssSvIdUsedInPosAvail (adapter e) then mark_svs (mGnssSvIdUsedInPosition (adapter e)) svs else Some svs) of
           None \<Rightarrow> None
         | Some svs' \<Rightarrow>
             (let e1 = (if gnss_sv_status_cb (cbs e) then call (Client (CbSvStatus svs')) e else e)
              in Some (if generateNmea e1 then call (NmeaGenerateSv svs' ext) e1 else e1)))
      else Some e)"

definition ReportNmea_proc :: "string \<Rightarrow> loc_eng \<Rightarrow> loc_eng" where
  "ReportNmea_proc nmea e = (if nmea_cb (cbs e) then call (Client (CbNmea nmea)) e else e)"

definition ReportXtraServer_proc :: "string list \<Rightarrow> loc_eng \<Rightarrow> loc_eng" where
  "ReportXtraServer_proc servers e =
     (if report_xtra_server_cb e then call (Client (CbXtraServers servers)) e else e)"

definition RequestXtra_proc :: "loc_eng \<Rightarrow> loc_eng" where
  "RequestXtra_proc e = (if download_request_cb e then call (Client CbXtraDownload) e else e)"

definition RequestTime_proc :: "loc_eng \<Rightarrow> loc_eng" where
  "RequestTime_proc e =
     (if and (gps_conf e CAPABILITIES) GPS_CAPABILITY_ON_DEMAND_TIME \<noteq> 0 \<and> request_utc_time_cb (cbs e)
      then call (Client CbUtcTime) e else e)"

definition ReportGnssMeasurement_proc :: "nat \<Rightarrow> loc_eng \<Rightarrow> loc_eng" where
  "ReportGnssMeasurement_proc d e =
     (if mute_session_state e \<noteq> LOC_MUTE_SESS_IN_SESSION \<and> gnss_measurement_cb e
      then call (Client (CbMeasurement d)) e else e)"

definition SetCapabilities_proc :: "loc_eng \<Rightarrow> loc_eng" where
  "SetCapabilities_proc e =
     (if set_capabilities_cb (cbs e) then call (Client (CbCapabilities (gps_conf e CAPABILITIES))) e else e)"

definition SetSystemInfo_proc :: "loc_eng \<Rightarrow> loc_eng" where
  "SetSystemInfo_proc e =
     (if set_system_info_cb (cbs e) then call (Client (CbSystemInfo (year_of_hw (adapter e)))) e else e)"

definition RequestNi_proc :: "eng_env \<Rightarrow> ni_request \<Rightarrow> loc_eng \<Rightarrow> loc_eng" where
  "RequestNi_proc env r e =
     (let e1 = call (NiRequestHandler r) e
      in if ni_accepts env \<and> ni_privacy_override r then loc_eng_mute_one_session e1 else e1)"

definition report_proc :: "eng_env \<Rightarrow> report_msg \<Rightarrow> loc_eng \<Rightarrow> loc_eng option" where
  "report_proc env m e =
     (case m of
        LocEngReportPosition loc ext status tech \<Rightarrow> Some (ReportPosition_proc env loc ext status tech e)
      | LocEngReportSv svs ext \<Rightarrow> ReportSv_proc svs ext e
      | LocEngReportStatus status \<Rightarrow> Some (ReportStatus_proc status e)
      | LocEngReportNmea nmea \<Rightarrow> Some (ReportNmea_proc nmea e)
      | LocEngReportXtraServer servers \<Rightarrow> Some (ReportXtraServer_proc servers e)
      | LocEngReportGnssMeasurement d \<Rightarrow> Some (ReportGnssMeasurement_proc d e)
      | LocEngRequestNi r \<Rightarrow> Some (RequestNi_proc env r e)
      | LocEngRequestXtra \<Rightarrow> Some (RequestXtra_proc e)
      | LocEngRequestTime \<Rightarrow> Some (RequestTime_proc e)
      | LocEngSetCapabilities \<Rightarrow> Some (SetCapabilities_proc e)
      | LocEngSetSystemInfo \<Rightarrow> Some (SetSystemInfo_proc e))"

section \<open>The engine restarts\<close>

definition GnssConstellationConfig_proc :: "eng_env \<Rightarrow> loc_eng \<Rightarrow> loc_eng" where
  "GnssConstellationConfig_proc env e =
     (let e1 = call (Modem GnssConstellationConfig) e
      in if constellation_ok env
         then upd_adapter (\<lambda>a. a\<lparr>year_of_hw := 2016\<rparr>)
           (e1\<lparr>conf := (conf e1)\<lparr>vars := (vars (conf e1))
              (CAPABILITIES \<mapsto> VInt (sint (or (gps_conf e1 CAPABILITIES) GPS_CAPABILITY_MEASUREMENTS)))\<rparr>\<rparr>)
         else upd_adapter (\<lambda>a. a\<lparr>year_of_hw := 2015\<rparr>) e1)"

definition loc_eng_handle_engine_down :: "loc_eng \<Rightarrow> loc_eng" where
  "loc_eng_handle_engine_down e = loc_eng_report_status GPS_STATUS_ENGINE_OFF (call NiReset e)"

definition drop_nif :: "nif \<Rightarrow> loc_eng \<Rightarrow> loc_eng" where
  "drop_nif n e = set_nif n (map_option dropAllSubscribers (nif_of n e)) e"

definition loc_eng_handle_engine_up :: "eng_env \<Rightarrow> loc_eng \<Rightarrow> loc_eng" where
  "loc_eng_handle_engine_up env e =
     (let e1 = requestPowerVote (loc_eng_reinit e);
          e2 = (if agps_status_cb e1
                then loc_eng_agps_reinit env (drop_nif InternetNif (drop_nif AgnssNif e1)) else e1)
      in if mNavigating (adapter e2)
         then loc_eng_start_handler env (setInSession False e2)
         else e2)"

definition Init_proc :: "loc_eng \<Rightarrow> loc_eng" where
  "Init_proc e = send_msg (Report LocEngSetSystemInfo) (send_msg (Report LocEngSetCapabilities) (loc_eng_reinit e))"

definition Down_proc :: "loc_eng \<Rightarrow> loc_eng" where
  "Down_proc = loc_eng_handle_engine_down"

definition Up_proc :: "eng_env \<Rightarrow> loc_eng \<Rightarrow> loc_eng" where
  "Up_proc = loc_eng_handle_engine_up"

definition SetUlpProxy_proc :: "eng_env \<Rightarrow> ulp_proxy option \<Rightarrow> loc_eng \<Rightarrow> loc_eng" where
  "SetUlpProxy_proc = setUlpProxy"

definition session_proc :: "eng_env \<Rightarrow> session_msg \<Rightarrow> loc_eng \<Rightarrow> loc_eng" where
  "session_proc env m =
     (case m of
        LocEngStartFix \<Rightarrow> StartFix_proc env
      | LocEngStopFix \<Rightarrow> StopFix_proc
      | LocEngPositionMode posMode \<Rightarrow> PositionMode_proc posMode
      | LocEngGetZpp \<Rightarrow> GetZpp_proc env
      | LocEngDelAidData f \<Rightarrow> DelAidData_proc f
      | LocEngInit \<Rightarrow> Init_proc
      | LocEngDown \<Rightarrow> Down_proc
      | LocEngUp \<Rightarrow> Up_proc env
      | LocEngGnssConstellationConfig \<Rightarrow> GnssConstellationConfig_proc env
      | LocSetUlpProxy ulp \<Rightarrow> SetUlpProxy_proc env ulp)"

definition eng_proc :: "eng_env \<Rightarrow> eng_msg \<Rightarrow> loc_eng \<Rightarrow> loc_eng option" where
  "eng_proc env m e =
     (case m of
        Session x \<Rightarrow> Some (session_proc env x e)
      | Report x \<Rightarrow> report_proc env x e
      | Data x \<Rightarrow> data_proc env x e
      | Server x \<Rightarrow> Some (server_proc x e)
      | Param x \<Rightarrow> param_proc x e)"

section \<open>The functions for the client\<close>

definition LOC_API_ADAPTER_BIT_NMEA_1HZ_REPORT :: "32 word" where "LOC_API_ADAPTER_BIT_NMEA_1HZ_REPORT = 4"
definition LOC_API_ADAPTER_BIT_GNSS_MEASUREMENT :: "32 word" where "LOC_API_ADAPTER_BIT_GNSS_MEASUREMENT = 0x1000000"

text \<open>\<open>memset\<close> of \<open>loc_eng_data\<close>; the configuration and the global variables are not part of it.\<close>

definition clear_eng :: "loc_eng \<Rightarrow> loc_eng" where
  "clear_eng e =
     eng_zero\<lparr>conf := conf e, configAlreadyRead := configAlreadyRead e, agpsStatus := agpsStatus e,
       next_ulp := next_ulp e, queue := queue e, calls := calls e\<rparr>"

definition loc_eng_init :: "eng_callbacks option \<Rightarrow> 32 word \<Rightarrow> loc_eng \<Rightarrow> int \<times> loc_eng" where
  "loc_eng_init callbacks event e =
     (case callbacks of
        None \<Rightarrow> (-1, e)
      | Some c \<Rightarrow>
          if event = 0 then (-1, e)
          else if adapter_set e then (0, e)
          else
            (let e1 = (clear_eng e)\<lparr>cbs := c, intermediateFix := ucast (gps_conf e INTERMEDIATE_POS)\<rparr>;
                 ap = and event LOC_API_ADAPTER_BIT_NMEA_1HZ_REPORT \<noteq> 0 \<and> gps_conf e1 NMEA_PROVIDER = 0;
                 event' = (if ap then xor event LOC_API_ADAPTER_BIT_NMEA_1HZ_REPORT else event);
                 e2 = e1\<lparr>generateNmea := ap, adapter_set := True, adapter := new_adapter event' (next_ulp e1),
                         next_ulp := Suc (next_ulp e1)\<rparr>
             in (0, send_msg (Session LocEngInit) e2)))"

definition loc_eng_start :: "eng_env \<Rightarrow> loc_eng \<Rightarrow> int \<times> loc_eng" where
  "loc_eng_start env e =
     (if \<not> adapter_set e then (-1, e)
      else (let (taken, e1) = sendStartFix env e
            in (0, if \<not> taken then send_msg (Session LocEngStartFix) e1 else e1)))"

definition loc_eng_stop :: "eng_env \<Rightarrow> loc_eng \<Rightarrow> int \<times> loc_eng" where
  "loc_eng_stop env e =
     (if \<not> adapter_set e then (-1, e)
      else (let (taken, e1) = sendStopFix env e
            in (0, if \<not> taken then send_msg (Session LocEngStopFix) e1 else e1)))"

definition loc_eng_cleanup :: "eng_env \<Rightarrow> loc_eng \<Rightarrow> loc_eng" where
  "loc_eng_cleanup env e =
     (if \<not> adapter_set e then e
      else if mNavigating (adapter e) then snd (loc_eng_stop env e) else e)"

definition loc_eng_set_position_mode :: "eng_env \<Rightarrow> loc_pos_mode \<Rightarrow> loc_eng \<Rightarrow> int \<times> loc_eng" where
  "loc_eng_set_position_mode env params e =
     (if \<not> adapter_set e then (-1, e)
      else
        (let params' = (if and (gps_conf e CAPABILITIES) GPS_CAPABILITY_MSB = 0 \<and>
                           and (gps_conf e CAPABILITIES) GPS_CAPABILITY_MSA = 0 \<and>
                           mode params \<noteq> LOC_POSITION_MODE_STANDALONE
                        then params\<lparr>mode := LOC_POSITION_MODE_STANDALONE\<rparr> else params);
             (taken, e1) = sendFixMode env params' e
         in (0, if \<not> taken then send_msg (Session (LocEngPositionMode params')) e1 else e1)))"

definition loc_eng_inject_time :: "int \<Rightarrow> int \<Rightarrow> int \<Rightarrow> loc_eng \<Rightarrow> int \<times> loc_eng" where
  "loc_eng_inject_time t tref unc e =
     (if \<not> adapter_set e then (-1, e) else (0, send_msg (Server (LocEngSetTime t tref unc)) e))"

definition loc_eng_inject_location :: "64 word \<Rightarrow> 64 word \<Rightarrow> 32 word \<Rightarrow> loc_eng \<Rightarrow> int \<times> loc_eng" where
  "loc_eng_inject_location lat lon accur e =
     (if \<not> adapter_set e then (-1, e)
      else (0, if mSupportsPositionInjection (adapter e)
               then send_msg (Server (LocEngInjectLocation lat lon accur)) e else e))"

definition loc_eng_delete_aiding_data :: "16 word \<Rightarrow> loc_eng \<Rightarrow> loc_eng" where
  "loc_eng_delete_aiding_data f e = (if \<not> adapter_set e then e else send_msg (Session (LocEngDelAidData f)) e)"

definition GPS_MEASUREMENT_OPERATION_SUCCESS :: int where "GPS_MEASUREMENT_OPERATION_SUCCESS = 0"
definition GPS_MEASUREMENT_ERROR_ALREADY_INIT :: int where "GPS_MEASUREMENT_ERROR_ALREADY_INIT = -100"
definition GPS_MEASUREMENT_ERROR_GENERIC :: int where "GPS_MEASUREMENT_ERROR_GENERIC = -101"

definition loc_eng_gps_measurement_init :: "bool option \<Rightarrow> loc_eng \<Rightarrow> int \<times> loc_eng" where
  "loc_eng_gps_measurement_init callbacks e =
     (if gnss_measurement_cb e then (GPS_MEASUREMENT_ERROR_ALREADY_INIT, e)
      else
        (case callbacks of
           None \<Rightarrow> (GPS_MEASUREMENT_ERROR_GENERIC, e)
         | Some cb \<Rightarrow>
             if \<not> adapter_set e then (GPS_MEASUREMENT_ERROR_GENERIC, e)
             else (GPS_MEASUREMENT_OPERATION_SUCCESS,
               (send_msg (Server (LocEngUpdateRegistrationMask LOC_API_ADAPTER_BIT_GNSS_MEASUREMENT
                 LOC_REGISTRATION_MASK_ENABLED)) e)\<lparr>gnss_measurement_cb := cb\<rparr>)))"

definition loc_eng_gps_measurement_close :: "loc_eng \<Rightarrow> loc_eng" where
  "loc_eng_gps_measurement_close e =
     (if \<not> adapter_set e then e
      else (send_msg (Server (LocEngUpdateRegistrationMask LOC_API_ADAPTER_BIT_GNSS_MEASUREMENT
             LOC_REGISTRATION_MASK_DISABLED)) e)\<lparr>gnss_measurement_cb := False\<rparr>)"

end
