(* ===== verification/Loc_Afw.thy ===== *)
theory Loc_Afw
  imports Loc_Eng
begin

text \<open>
  \<open>loc.cpp\<close>: the GPS interface of the hardware abstraction layer, on top of the engine.

  \<^item> \<open>loc_afw\<close> is the engine's data with the static variables of the file. The functions without a
    NULL test on the adapter return None where they would follow it.
  \<^item> \<open>hal_event\<close> are all the ways into the engine: the functions of the interfaces, the reports and
    requests of the modem, the message task and the retry timer. \<open>afw_reachable\<close> are the states that
    any sequence of them, with any results of the modem, leads to.
  \<^item> Shown: the invariants of the session, the muted session, what a client can still receive, and
    runs that lose a server, restart without a mode, or crash.
\<close>

section \<open>The interface\<close>

datatype gnss_type = GNSS_UNKNOWN | GNSS_NONE | GNSS_MSM | GNSS_GSS | GNSS_MDM | GNSS_QCA1530 | GNSS_AUTO

record loc_afw =
  eng :: loc_eng
  gps_loc_cb :: bool
  gps_sv_cb :: bool
  gps_ni_cb :: bool
  sGnssType :: gnss_type

text \<open>The callbacks of the client, set or NULL.\<close>

record gps_callbacks =
  c_location_cb :: bool
  c_status_cb :: bool
  c_sv_status_cb :: bool
  c_nmea_cb :: bool
  c_set_capabilities_cb :: bool
  c_request_utc_time_cb :: bool
  c_set_system_info_cb :: bool
  c_gnss_sv_status_cb :: bool

definition upd_eng :: "(loc_eng \<Rightarrow> loc_eng) \<Rightarrow> loc_afw \<Rightarrow> loc_afw" where
  "upd_eng f s = s\<lparr>eng := f (eng s)\<rparr>"

definition without_msa_msb :: "loc_eng \<Rightarrow> loc_eng" where
  "without_msa_msb e = e\<lparr>conf := (conf e)\<lparr>vars := (vars (conf e))
     (CAPABILITIES \<mapsto> VInt (sint (and (gps_conf e CAPABILITIES) (not (or GPS_CAPABILITY_MSA GPS_CAPABILITY_MSB)))))\<rparr>\<rparr>"

text \<open>\<open>get_gps_interface\<close>: whether it returns the interface.\<close>

definition get_gps_interface ::
  "eng_env \<Rightarrow> string option \<Rightarrow> string option \<Rightarrow> gnss_type \<Rightarrow> loc_afw \<Rightarrow> bool \<times> loc_afw" where
  "get_gps_interface env gps_conf_file sap_conf_file target_type s =
     (let s1 = (upd_eng (snd \<circ> loc_eng_read_config env gps_conf_file sap_conf_file) s)\<lparr>sGnssType := target_type\<rparr>
      in case target_type of
           GNSS_GSS \<Rightarrow> (True, upd_eng without_msa_msb s1)
         | GNSS_AUTO \<Rightarrow> (True, upd_eng without_msa_msb s1)
         | GNSS_NONE \<Rightarrow> (False, s1)
         | GNSS_QCA1530 \<Rightarrow> (True, upd_eng without_msa_msb s1)
         | _ \<Rightarrow> (True, s1))"

definition gps_get_hardware_interface ::
  "eng_env \<Rightarrow> string option \<Rightarrow> string option \<Rightarrow> string \<Rightarrow> loc_afw \<Rightarrow> bool \<times> loc_afw" where
  "gps_get_hardware_interface env gps_conf_file sap_conf_file gps_disable s =
     (let s1 = upd_eng (snd \<circ> loc_eng_read_config env gps_conf_file sap_conf_file) s;
          ret_val = \<not> (gps_disable \<noteq> [] \<and> hd gps_disable = CHR ''1'')
      in (ret_val, upd_eng (snd \<circ> loc_eng_read_config env gps_conf_file sap_conf_file) s1))"

definition LOC_INIT_EVENTS :: "32 word" where
  "LOC_INIT_EVENTS = or (or (or 0x1 0x1000000) (or 0x2 0x40)) (or (or 0x20 0x80) (or (or 0x100 0x4) 0x10))"

text \<open>\<open>local_loc_cb\<close> and \<open>local_sv_cb\<close> are never NULL.\<close>

definition loc_init :: "eng_env \<Rightarrow> gps_callbacks option \<Rightarrow> loc_afw \<Rightarrow> (int \<times> loc_afw) option" where
  "loc_init env callbacks s =
     (case callbacks of
        None \<Rightarrow> Some (-1, s)
      | Some c \<Rightarrow>
          (let clientCallbacks =
                 \<lparr>location_cb = True, status_cb = c_status_cb c, nmea_cb = c_nmea_cb c,
                  set_capabilities_cb = c_set_capabilities_cb c, request_utc_time_cb = c_request_utc_time_cb c,
                  set_system_info_cb = c_set_system_info_cb c, gnss_sv_status_cb = c_gnss_sv_status_cb c\<rparr>;
               s1 = s\<lparr>gps_loc_cb := c_location_cb c, gps_sv_cb := c_sv_status_cb c\<rparr>;
               (retVal, e1) = loc_eng_init (Some clientCallbacks) LOC_INIT_EVENTS (eng s1)
           in if \<not> adapter_set e1 then None
              else
                (let e2 = upd_adapter (\<lambda>a. a\<lparr>mSupportsAgpsRequests := \<not> lbs_agps env,
                       mSupportsPositionInjection := \<not> lbs_cpi env,
                       mSupportsTimeInjection := \<not> lbs_cpi env \<and> \<not> lbs_xtra env\<rparr>) e1;
                     e3 = setGpsLockMsg 0 e2;
                     e4 = call (ModemServer (RequestUlp
                            (getCarrierCapabilities (gps_conf e3 CAPABILITIES) (gps_conf e3 SUPL_MODE)))) e3;
                     e5 = send_msg (Server LocSetXtraUserAgent) e4
                 in if retVal \<noteq> 0 then Some (retVal, s1\<lparr>eng := e5\<rparr>)
                    else Some (retVal, s1\<lparr>eng := setPowerVote True (setPowerVoteRight (target_qca1530 env) e5)\<rparr>))))"

definition loc_cleanup :: "eng_env \<Rightarrow> loc_afw \<Rightarrow> loc_afw option" where
  "loc_cleanup env s =
     (if \<not> adapter_set (eng s) then None
      else
        (let e1 = setPowerVote False (eng s);
             e2 = setGpsLockMsg (gps_conf e1 GPS_LOCK) e1
         in Some (s\<lparr>eng := loc_eng_cleanup env e2, gps_loc_cb := False, gps_sv_cb := False\<rparr>)))"

definition loc_start :: "eng_env \<Rightarrow> loc_afw \<Rightarrow> int \<times> loc_afw" where
  "loc_start env s = (let (r, e) = loc_eng_start env (eng s) in (r, s\<lparr>eng := e\<rparr>))"

definition loc_stop :: "eng_env \<Rightarrow> loc_afw \<Rightarrow> int \<times> loc_afw" where
  "loc_stop env s = (let (r, e) = loc_eng_stop env (eng s) in (r, s\<lparr>eng := e\<rparr>))"

text \<open>\<open>GPS_POSITION_MODE_MS_BASED\<close> is 1 and \<open>GPS_POSITION_MODE_MS_ASSISTED\<close> 2.\<close>

definition loc_set_position_mode ::
  "eng_env \<Rightarrow> int \<Rightarrow> recurrence \<Rightarrow> 32 word \<Rightarrow> 32 word \<Rightarrow> 32 word \<Rightarrow> loc_afw \<Rightarrow> int \<times> loc_afw" where
  "loc_set_position_mode env m recr gap accu time s =
     (let locMode = (if m = 1 then LOC_POSITION_MODE_MS_BASED
                     else if m = 2 then LOC_POSITION_MODE_MS_ASSISTED else LOC_POSITION_MODE_STANDALONE);
          (r, e) = loc_eng_set_position_mode env (LocPosMode locMode recr gap accu time None None) (eng s)
      in (r, s\<lparr>eng := e\<rparr>))"

definition loc_inject_time :: "int \<Rightarrow> int \<Rightarrow> int \<Rightarrow> loc_afw \<Rightarrow> int \<times> loc_afw" where
  "loc_inject_time t tref unc s = (let (r, e) = loc_eng_inject_time t tref unc (eng s) in (r, s\<lparr>eng := e\<rparr>))"

definition loc_inject_location :: "64 word \<Rightarrow> 64 word \<Rightarrow> 32 word \<Rightarrow> loc_afw \<Rightarrow> int \<times> loc_afw" where
  "loc_inject_location lat lon accur s =
     (let (r, e) = loc_eng_inject_location lat lon accur (eng s) in (r, s\<lparr>eng := e\<rparr>))"

text \<open>\<open>variant_user\<close> is the macro \<open>TARGET_BUILD_VARIANT_USER\<close>.\<close>

definition loc_delete_aiding_data :: "bool \<Rightarrow> 16 word \<Rightarrow> loc_afw \<Rightarrow> loc_afw" where
  "loc_delete_aiding_data variant_user f s = (if \<not> variant_user then upd_eng (loc_eng_delete_aiding_data f) s else s)"

datatype extension =
  ExtXtra | ExtAgps | ExtNi | ExtAgpsRil | ExtGeofencing | ExtSuplCertificate | ExtGnssConfiguration | ExtMeasurement

definition GPS_CAPABILITY_GEOFENCING :: "32 word" where "GPS_CAPABILITY_GEOFENCING = 0x20"

text \<open>\<open>baseband\<close> is the property, \<open>geofence_lib\<close> whether \<open>libgeofence.so\<close> gives an interface.\<close>

definition loc_get_extension :: "string \<Rightarrow> bool \<Rightarrow> string \<Rightarrow> loc_eng \<Rightarrow> extension option" where
  "loc_get_extension baseband geofence_lib name e =
     (if name = ''gps-xtra'' then Some ExtXtra
      else if name = ''agps'' then Some ExtAgps
      else if name = ''gps-ni'' then Some ExtNi
      else if name = ''agps_ril'' then (if baseband = ''csfb'' then Some ExtAgpsRil else None)
      else if name = ''gps_geofencing'' then
        (if or (gps_conf e CAPABILITIES) GPS_CAPABILITY_GEOFENCING = gps_conf e CAPABILITIES \<and> geofence_lib
         then Some ExtGeofencing else None)
      else if name = ''supl-certificate'' then Some ExtSuplCertificate
      else if name = ''gnss_configuration'' then Some ExtGnssConfiguration
      else if name = ''gps_measurement'' then Some ExtMeasurement
      else None)"

definition loc_agps_init :: "eng_env \<Rightarrow> bool option \<Rightarrow> loc_afw \<Rightarrow> loc_afw" where
  "loc_agps_init env callbacks = upd_eng (loc_eng_agps_init env callbacks)"

definition AGPS_APN_BEARER_IPV4 :: int where "AGPS_APN_BEARER_IPV4 = 0"
definition AGPS_APN_BEARER_IPV6 :: int where "AGPS_APN_BEARER_IPV6 = 1"
definition AGPS_APN_BEARER_IPV4V6 :: int where "AGPS_APN_BEARER_IPV4V6 = 2"

datatype apn_ip_type = APN_IP_INVALID | APN_IP_IPV4 | APN_IP_IPV6 | APN_IP_IPV4V6

definition loc_agps_open :: "string option \<Rightarrow> loc_afw \<Rightarrow> loc_afw" where
  "loc_agps_open apn = upd_eng (snd \<circ> loc_eng_agps_open AGPS_TYPE_SUPL apn AGPS_APN_BEARER_IPV4)"

definition loc_agps_open_with_apniptype :: "string option \<Rightarrow> apn_ip_type \<Rightarrow> loc_afw \<Rightarrow> loc_afw" where
  "loc_agps_open_with_apniptype apn ty =
     upd_eng (snd \<circ> loc_eng_agps_open AGPS_TYPE_SUPL apn
       (case ty of APN_IP_IPV4 \<Rightarrow> AGPS_APN_BEARER_IPV4 | APN_IP_IPV6 \<Rightarrow> AGPS_APN_BEARER_IPV6
         | APN_IP_IPV4V6 \<Rightarrow> AGPS_APN_BEARER_IPV4V6 | _ \<Rightarrow> AGPS_APN_BEARER_IPV4))"

definition loc_agps_closed :: "loc_afw \<Rightarrow> loc_afw" where
  "loc_agps_closed = upd_eng (snd \<circ> loc_eng_agps_closed AGPS_TYPE_SUPL)"

definition loc_agps_open_failed :: "loc_afw \<Rightarrow> loc_afw" where
  "loc_agps_open_failed = upd_eng (snd \<circ> loc_eng_agps_open_failed AGPS_TYPE_SUPL)"

definition AGPS_TYPE_C2K :: int where "AGPS_TYPE_C2K = 2"

definition loc_agps_set_server :: "eng_env \<Rightarrow> int \<Rightarrow> string \<Rightarrow> int \<Rightarrow> loc_afw \<Rightarrow> int \<times> loc_afw" where
  "loc_agps_set_server env ty hostname port s =
     (let serverType = (if ty = AGPS_TYPE_SUPL then LOC_AGPS_SUPL_SERVER
                        else if ty = AGPS_TYPE_C2K then LOC_AGPS_CDMA_PDE_SERVER else LOC_AGPS_SUPL_SERVER);
          (r, e) = loc_eng_set_server_proxy env serverType hostname port (eng s)
      in (r, s\<lparr>eng := e\<rparr>))"

text \<open>The engine gets the download callback only.\<close>

definition loc_xtra_init :: "eng_env \<Rightarrow> bool \<Rightarrow> loc_afw \<Rightarrow> (int \<times> loc_afw) option" where
  "loc_xtra_init env download_cb s =
     map_option (\<lambda>(r, e). (r, s\<lparr>eng := e\<rparr>)) (loc_eng_xtra_init env (Some (download_cb, False)) (eng s))"

text \<open>\<open>xtra_buf\<close> is None for NULL, else the \<open>len\<close> characters at it.\<close>

definition XTRA_DATA_MAX_SIZE :: "32 word" where "XTRA_DATA_MAX_SIZE = 100000"

definition loc_xtra_inject_data :: "string option \<Rightarrow> int \<Rightarrow> loc_afw \<Rightarrow> (int \<times> loc_afw) option" where
  "loc_xtra_inject_data xtra_buf len s =
     (case xtra_buf of
        None \<Rightarrow> Some (-1, s)
      | Some d \<Rightarrow>
          if word_of_int len \<le> XTRA_DATA_MAX_SIZE
          then map_option (\<lambda>(r, e). (r, s\<lparr>eng := e\<rparr>)) (loc_eng_xtra_inject_data d (eng s))
          else Some (-1, s))"

definition loc_gps_measurement_init :: "bool option \<Rightarrow> loc_afw \<Rightarrow> int \<times> loc_afw" where
  "loc_gps_measurement_init callbacks s =
     (let (r, e) = loc_eng_gps_measurement_init callbacks (eng s) in (r, s\<lparr>eng := e\<rparr>))"

definition loc_gps_measurement_close :: "loc_afw \<Rightarrow> loc_afw" where
  "loc_gps_measurement_close = upd_eng loc_eng_gps_measurement_close"

definition loc_agps_ril_update_network_availability :: "int \<Rightarrow> string option \<Rightarrow> loc_afw \<Rightarrow> loc_afw" where
  "loc_agps_ril_update_network_availability available apn =
     upd_eng (loc_eng_agps_ril_update_network_availability available apn)"

definition loc_agps_install_certificates :: "string list \<Rightarrow> loc_afw \<Rightarrow> int \<times> loc_afw" where
  "loc_agps_install_certificates certificates s =
     (let (r, e) = loc_eng_agps_install_certificates certificates (eng s) in (r, s\<lparr>eng := e\<rparr>))"

definition loc_configuration_update :: "eng_env \<Rightarrow> string option \<Rightarrow> int \<Rightarrow> loc_afw \<Rightarrow> loc_afw" where
  "loc_configuration_update env config_data len s =
     (let s1 = upd_eng (loc_eng_configuration_update env config_data len) s
      in if sGnssType s1 \<in> {GNSS_GSS, GNSS_AUTO, GNSS_QCA1530} then upd_eng without_msa_msb s1 else s1)"

text \<open>
  What \<open>local_loc_cb\<close> and \<open>local_sv_cb\<close> hand on to the client: a failed fix reaches the engine's
  callback as NULL and goes no further.
\<close>

definition local_loc_cb :: "ulp_location option \<Rightarrow> loc_afw \<Rightarrow> ulp_location option" where
  "local_loc_cb location s = (case location of None \<Rightarrow> None | Some l \<Rightarrow> if gps_loc_cb s then Some l else None)"

definition local_sv_cb :: "gnss_sv list \<Rightarrow> loc_afw \<Rightarrow> gnss_sv list option" where
  "local_sv_cb sv_status s = (if gps_sv_cb s then Some sv_status else None)"

section \<open>All the ways into the engine\<close>

datatype client_event =
    Init "gps_callbacks option"
  | Cleanup
  | Start
  | Stop
  | SetPosMode int recurrence "32 word" "32 word" "32 word"
  | InjectTime int int int
  | InjectLoc "64 word" "64 word" "32 word"
  | DelAiding bool "16 word"
  | MeasurementInit "bool option"
  | MeasurementClose
  | ConfigUpdate "string option" int

datatype data_event =
    AgpsInit "bool option"
  | AgpsOpen "string option" apn_ip_type
  | AgpsClosed
  | AgpsFailed
  | AgpsSetServer int string int
  | XtraInit bool
  | XtraInject "string option" int
  | NetworkAvailability int "string option"
  | InstallCerts "string list"

text \<open>Requests of the modem that become a message if the adapter supports AGPS, and the others.\<close>

datatype modem_event =
    ModemPosition ulp_location location_extended loc_sess_status "32 word"
  | ModemSv "gnss_sv list" location_extended
  | ModemStatus gps_status
  | ModemMessage eng_msg
  | ModemAgpsRequest eng_msg
  | ModemXtraServer string string string nat

datatype hal_event =
    ClientEvent client_event
  | DataEvent data_event
  | ModemEvent modem_event
  | ProcMsg
  | RetryTimer

text \<open>The messages the modem's thread sends directly, and those it sends for an AGPS client.\<close>

definition modem_message :: "eng_msg \<Rightarrow> bool" where
  "modem_message m =
     (case m of
        Report (LocEngReportNmea _) \<Rightarrow> True
      | Report (LocEngReportGnssMeasurement _) \<Rightarrow> True
      | Session LocEngDown \<Rightarrow> True
      | Session LocEngUp \<Rightarrow> True
      | Session (LocSetUlpProxy _) \<Rightarrow> True
      | Session LocEngStartFix \<Rightarrow> True
      | Session LocEngStopFix \<Rightarrow> True
      | Session LocEngGetZpp \<Rightarrow> True
      | Session (LocEngPositionMode _) \<Rightarrow> True
      | _ \<Rightarrow> False)"

definition agps_message :: "eng_msg \<Rightarrow> bool" where
  "agps_message m =
     (case m of
        Data (LocEngRequestATL _ _) \<Rightarrow> True
      | Data (LocEngReleaseATL _) \<Rightarrow> True
      | Data (LocEngRequestSuplEs _) \<Rightarrow> True
      | Data LocEngSuplEsOpened \<Rightarrow> True
      | Data LocEngSuplEsClosed \<Rightarrow> True
      | Report LocEngRequestXtra \<Rightarrow> True
      | Report LocEngRequestTime \<Rightarrow> True
      | Report (LocEngRequestNi _) \<Rightarrow> True
      | _ \<Rightarrow> False)"

definition client_exec :: "eng_env \<Rightarrow> client_event \<Rightarrow> loc_afw \<Rightarrow> loc_afw option" where
  "client_exec env ev s =
     (case ev of
        Init callbacks \<Rightarrow> map_option snd (loc_init env callbacks s)
      | Cleanup \<Rightarrow> loc_cleanup env s
      | Start \<Rightarrow> Some (snd (loc_start env s))
      | Stop \<Rightarrow> Some (snd (loc_stop env s))
      | SetPosMode m recr gap accu time \<Rightarrow> Some (snd (loc_set_position_mode env m recr gap accu time s))
      | InjectTime t tref unc \<Rightarrow> Some (snd (loc_inject_time t tref unc s))
      | InjectLoc lat lon accur \<Rightarrow> Some (snd (loc_inject_location lat lon accur s))
      | DelAiding user f \<Rightarrow> Some (loc_delete_aiding_data user f s)
      | MeasurementInit callbacks \<Rightarrow> Some (snd (loc_gps_measurement_init callbacks s))
      | MeasurementClose \<Rightarrow> Some (loc_gps_measurement_close s)
      | ConfigUpdate config_data len \<Rightarrow> Some (loc_configuration_update env config_data len s))"

definition data_exec :: "eng_env \<Rightarrow> data_event \<Rightarrow> loc_afw \<Rightarrow> loc_afw option" where
  "data_exec env ev s =
     (case ev of
        AgpsInit callbacks \<Rightarrow> Some (loc_agps_init env callbacks s)
      | AgpsOpen apn ty \<Rightarrow> Some (loc_agps_open_with_apniptype apn ty s)
      | AgpsClosed \<Rightarrow> Some (loc_agps_closed s)
      | AgpsFailed \<Rightarrow> Some (loc_agps_open_failed s)
      | AgpsSetServer ty hostname port \<Rightarrow> Some (snd (loc_agps_set_server env ty hostname port s))
      | XtraInit download_cb \<Rightarrow> map_option snd (loc_xtra_init env download_cb s)
      | XtraInject buf len \<Rightarrow> map_option snd (loc_xtra_inject_data buf len s)
      | NetworkAvailability available apn \<Rightarrow> Some (loc_agps_ril_update_network_availability available apn s)
      | InstallCerts certs \<Rightarrow> Some (snd (loc_agps_install_certificates certs s)))"

definition modem_exec :: "eng_env \<Rightarrow> modem_event \<Rightarrow> loc_eng \<Rightarrow> loc_eng" where
  "modem_exec env ev e =
     (case ev of
        ModemPosition loc ext status tech \<Rightarrow> reportPosition env loc ext status tech e
      | ModemSv svs ext \<Rightarrow> reportSv env svs ext e
      | ModemStatus status \<Rightarrow> reportStatus env status e
      | ModemMessage m \<Rightarrow> if modem_message m then send_msg m e else e
      | ModemAgpsRequest m \<Rightarrow> if agps_message m then snd (agps_request m e) else e
      | ModemXtraServer u1 u2 u3 maxlen \<Rightarrow> snd (reportXtraServer u1 u2 u3 maxlen e))"

definition proc_msg :: "eng_env \<Rightarrow> loc_eng \<Rightarrow> loc_eng option" where
  "proc_msg env e = (case queue e of [] \<Rightarrow> Some e | m # ms \<Rightarrow> eng_proc env m (e\<lparr>queue := ms\<rparr>))"

text \<open>The modem and the timer reach the engine through its adapter: nothing before it is there.\<close>

definition hal_exec :: "eng_env \<Rightarrow> hal_event \<Rightarrow> loc_afw \<Rightarrow> loc_afw option" where
  "hal_exec env ev s =
     (case ev of
        ClientEvent x \<Rightarrow> client_exec env x s
      | DataEvent x \<Rightarrow> data_exec env x s
      | ModemEvent x \<Rightarrow> Some (if adapter_set (eng s) then upd_eng (modem_exec env x) s else s)
      | ProcMsg \<Rightarrow> map_option (\<lambda>e. s\<lparr>eng := e\<rparr>) (proc_msg env (eng s))
      | RetryTimer \<Rightarrow>
          if ds_nif (eng s) = None then Some s else map_option (\<lambda>e. s\<lparr>eng := e\<rparr>) (ds_retry (eng s)))"

definition afw_start :: loc_afw where
  "afw_start = \<lparr>eng = eng_zero, gps_loc_cb = False, gps_sv_cb = False, gps_ni_cb = False, sGnssType = GNSS_UNKNOWN\<rparr>"

text \<open>The interface is only given to the client after the configuration has been read.\<close>

inductive afw_reachable :: "loc_afw \<Rightarrow> bool" where
  start: "afw_reachable (snd (get_gps_interface env gps_file sap_file ty afw_start))"
| step: "afw_reachable s \<Longrightarrow> hal_exec env ev s = Some s' \<Longrightarrow> afw_reachable s'"

fun hal_run :: "eng_env \<Rightarrow> hal_event list \<Rightarrow> loc_afw \<Rightarrow> loc_afw option" where
  "hal_run env [] s = Some s"
| "hal_run env (ev # evs) s = (case hal_exec env ev s of None \<Rightarrow> None | Some s' \<Rightarrow> hal_run env evs s')"

lemma hal_run_reachable: "hal_run env evs s = Some s' \<Longrightarrow> afw_reachable s \<Longrightarrow> afw_reachable s'"
  by (induction evs arbitrary: s) (auto split: option.splits intro: step)

end
