(* ===== verification/Eng_Session.thy ===== *)
theory Eng_Session
  imports Loc_Afw
begin

text \<open>
  The properties of the session, over all reachable states of \<open>Loc_Afw\<close>.

  \<^item> \<open>frame\<close>: most functions only send messages and make calls that have nothing to do with the
    session or the client. It is proved once for each of them; the properties are then about the few
    handlers that are not framed.
  \<^item> \<open>eng_wf\<close> is the well-formedness of the engine's data.
\<close>

section \<open>Frames\<close>

definition plain_call :: "eng_call \<Rightarrow> bool" where
  "plain_call c =
     (case c of
        Modem (StartFix _) \<Rightarrow> False
      | Modem StopFix \<Rightarrow> False
      | Modem (SetInSession _) \<Rightarrow> False
      | Modem (DeleteAidingData _) \<Rightarrow> False
      | Client _ \<Rightarrow> False
      | _ \<Rightarrow> True)"

definition frame :: "loc_eng \<Rightarrow> loc_eng \<Rightarrow> bool" where
  "frame e e' \<longleftrightarrow>
     (\<exists>cs. calls e' = calls e @ cs \<and> list_all plain_call cs) \<and> (\<exists>ms. queue e' = queue e @ ms) \<and>
     mNavigating (adapter e') = mNavigating (adapter e) \<and> mute_session_state e' = mute_session_state e \<and>
     engine_status e' = engine_status e \<and> aiding_data_for_deletion e' = aiding_data_for_deletion e \<and>
     (adapter_set e \<longrightarrow> adapter_set e')"

lemma frame_refl [simp]: "frame e e"
  by (simp add: frame_def)

lemma frame_trans: "frame e1 e2 \<Longrightarrow> frame e2 e3 \<Longrightarrow> frame e1 e3"
  by (auto simp: frame_def)


lemma frame_call_plain: "plain_call c \<Longrightarrow> frame e e' \<Longrightarrow> frame e (call c e')"
  by (auto simp: frame_def call_def)

lemma frame_send_msg: "frame e e' \<Longrightarrow> frame e (send_msg m e')"
  by (auto simp: frame_def send_msg_def)

lemma frame_send_if: "frame e e' \<Longrightarrow> frame e (send_if b m e')"
  by (simp add: send_if_def frame_send_msg)

lemma frame_upd_adapter:
  "(\<And>a. mNavigating (f a) = mNavigating a) \<Longrightarrow> frame e e' \<Longrightarrow> frame e (upd_adapter f e')"
  by (auto simp: frame_def upd_adapter_def)

lemma frame_updates:
  "frame e (e'\<lparr>conf := c\<rparr>) = frame e e'" "frame e (e'\<lparr>agnss_nif := m\<rparr>) = frame e e'"
  "frame e (e'\<lparr>internet_nif := m\<rparr>) = frame e e'" "frame e (e'\<lparr>ds_nif := m\<rparr>) = frame e e'"
  "frame e (e'\<lparr>agps_status_cb := b\<rparr>) = frame e e'" "frame e (e'\<lparr>gnss_measurement_cb := b\<rparr>) = frame e e'"
  "frame e (e'\<lparr>supl_host := h\<rparr>) = frame e e'" "frame e (e'\<lparr>c2k_host := h\<rparr>) = frame e e'"
  "frame e (e'\<lparr>agpsStatus := w\<rparr>) = frame e e'" "frame e (e'\<lparr>configAlreadyRead := b\<rparr>) = frame e e'"
  "frame e (e'\<lparr>next_ulp := i\<rparr>) = frame e e'"
  "frame e (e'\<lparr>download_request_cb := b\<rparr>) = frame e e'" "frame e (e'\<lparr>report_xtra_server_cb := b\<rparr>) = frame e e'"
  by (simp_all add: frame_def)

named_theorems framed "functions that are framed"

lemma frame_set_nif [framed]: "frame e e' \<Longrightarrow> frame e (set_nif n m e')"
  by (cases n) (simp_all add: set_nif_def frame_updates)

lemma frame_agps_request [framed]: "frame e e' \<Longrightarrow> frame e (snd (agps_request m e'))"
  by (simp add: agps_request_def frame_send_msg)

lemma frame_nif_emitted [framed]: "frame e e' \<Longrightarrow> frame e (nif_emitted n x e')"
  by (cases x) (simp_all add: nif_emitted_def plain_call_def frame_call_plain frame_agps_request)

lemma frame_fold_emitted: "frame e e' \<Longrightarrow> frame e (fold (nif_emitted n) xs e')"
  by (induction xs arbitrary: e') (simp_all add: frame_nif_emitted)

lemma frame_run_nif [framed]: "run_nif n f e' = Some (r, e'') \<Longrightarrow> frame e e' \<Longrightarrow> frame e e''"
  by (auto simp: run_nif_def intro: frame_fold_emitted frame_set_nif split: option.splits prod.splits)

lemma frame_createAgnssNifs [framed]: "frame e e' \<Longrightarrow> frame e (createAgnssNifs env e')"
  by (simp add: createAgnssNifs_def Let_def frame_updates frame_call_plain plain_call_def)

lemma frame_getAgps [framed]: "frame e e' \<Longrightarrow> frame e (snd (getAgpsStateMachine env ty e'))"
  by (simp add: getAgpsStateMachine_def frame_createAgnssNifs)

lemma frame_then: "frame e e1 \<Longrightarrow> f e1 = Some e2 \<Longrightarrow> (\<And>x y. f x = Some y \<Longrightarrow> frame x y) \<Longrightarrow> frame e e2"
  using frame_trans by blast

lemma frame_run_nif_snd: "map_option snd (run_nif n f e') = Some e'' \<Longrightarrow> frame e e' \<Longrightarrow> frame e e''"
  by (auto intro: frame_run_nif)

lemma frame_try_release: "try_release env n s e = (b, e') \<Longrightarrow> frame e e'"
  by (auto simp: try_release_def intro: frame_run_nif split: option.splits)

lemma frame_ReleaseATL: "frame e (ReleaseATL_proc env i e)"
proof -
  obtain b1 e1 where 1: "try_release env AgnssNif (ATLSubscriber 0 i False) e = (b1, e1)" by fastforce
  obtain b2 e2 where 2: "try_release env InternetNif (ATLSubscriber 0 i False) e1 = (b2, e2)" by fastforce
  obtain b3 e3 where 3: "try_release env DsNif (DSSubscriber 0 i) e2 = (b3, e3)" by fastforce
  from frame_try_release [OF 1] frame_try_release [OF 2] frame_try_release [OF 3]
  have "frame e e1" "frame e e2" "frame e e3" by (blast intro: frame_trans)+
  then show ?thesis by (simp add: ReleaseATL_proc_def 1 2 3 frame_call_plain plain_call_def split: bool.splits)
qed

lemma frame_data_proc [framed]: "data_proc env m e = Some e' \<Longrightarrow> frame e e'"
proof -
  assume p: "data_proc env m e = Some e'"
  have g: "frame e e2" if "getAgpsStateMachine env ty e = (n, e2)" for ty n e2
    using frame_getAgps [OF frame_refl, of e env ty] that by simp
  show ?thesis
    using p by (cases m)
      (auto simp: data_proc_def ReqRelBIT_proc_def SuplEsOpened_proc_def SuplEsClosed_proc_def ds_event_def
        RequestSuplEs_proc_def RequestATL_proc_def AtlOpenSuccess_proc_def AtlClosed_proc_def AtlOpenFailed_proc_def
        ReqRelWifi_proc_def Let_def plain_call_def
        intro!: frame_call_plain frame_ReleaseATL frame_createAgnssNifs [OF frame_refl] split: prod.splits if_splits
        dest: g intro: frame_run_nif [OF _ frame_refl] frame_run_nif [OF _ g])
qed

lemma frame_server_proc [framed]: "frame e (server_proc m e)"
  by (cases m)
    (simp_all add: server_proc_def SetServerIpv4_proc_def SetServerUrl_proc_def EnableData_proc_def InstallAGpsCert_proc_def
      UpdateRegistrationMask_proc_def RequestXtraServer_proc_def InjectXtraData_proc_def SetXtraVersionCheck_proc_def
      SetTime_proc_def InjectLocation_proc_def AdapterGpsLock_proc_def setXtraVersionCheck_def setTime_def
      frame_call_plain plain_call_def Let_def split: option.splits)

lemma frame_param_proc [framed]: "param_proc m e = Some e' \<Longrightarrow> frame e e'"
  by (cases m)
    (auto simp: param_proc_def AGlonassProtocol_proc_def LPPeProtocol_proc_def SuplVer_proc_def SuplMode_proc_def
      SetNmeaTypes_proc_def LppConfig_proc_def SensorControlConfig_proc_def SensorProperties_proc_def
      SensorPerfControlConfig_proc_def plain_call_def intro!: frame_call_plain split: if_splits)

lemma frame_reinit [framed]: "frame e e' \<Longrightarrow> frame e (loc_eng_reinit e')"
  by (simp add: loc_eng_reinit_def Let_def loc_eng_xtra_version_check_def frame_send_msg frame_send_if)

lemma frame_set_server [framed]: "frame e e' \<Longrightarrow> frame e (snd (loc_eng_set_server env ty h p e'))"
  by (simp add: loc_eng_set_server_def Let_def frame_send_msg split: option.splits)

lemma frame_agps_reinit [framed]: "frame e e' \<Longrightarrow> frame e (loc_eng_agps_reinit env e')"
  by (simp add: loc_eng_agps_reinit_def Let_def frame_set_server split: option.splits prod.splits)

lemma frame_drop_nif [framed]: "frame e e' \<Longrightarrow> frame e (drop_nif n e')"
  by (simp add: drop_nif_def frame_set_nif)

lemma frame_requestPowerVote [framed]: "frame e e' \<Longrightarrow> frame e (requestPowerVote e')"
  by (simp add: requestPowerVote_def frame_call_plain plain_call_def)

lemma frame_setPowerVote [framed]: "frame e e' \<Longrightarrow> frame e (setPowerVote b e')"
  by (simp add: setPowerVote_def frame_call_plain plain_call_def frame_requestPowerVote frame_upd_adapter)

lemma frame_setPowerVoteRight [framed]: "frame e e' \<Longrightarrow> frame e (setPowerVoteRight b e')"
  by (simp add: setPowerVoteRight_def frame_upd_adapter)

lemma frame_setGpsLockMsg [framed]: "frame e e' \<Longrightarrow> frame e (setGpsLockMsg w e')"
  by (simp add: setGpsLockMsg_def frame_send_msg)

lemma frame_upd_ulp [framed]: "frame e e' \<Longrightarrow> frame e (upd_ulp f e')"
  by (simp add: upd_ulp_def frame_upd_adapter)

lemma frame_ulp [framed]:
  "frame e e' \<Longrightarrow> frame e (snd (sendStartFix env e'))" "frame e e' \<Longrightarrow> frame e (snd (sendStopFix env e'))"
  "frame e e' \<Longrightarrow> frame e (snd (sendFixMode env p e'))"
  by (simp_all add: sendStartFix_def sendStopFix_def sendFixMode_def Let_def frame_call_plain plain_call_def frame_upd_ulp)

lemma frame_setUlpProxy [framed]: "frame e e' \<Longrightarrow> frame e (setUlpProxy env ulp e')"
  by (simp add: setUlpProxy_def Let_def frame_updates frame_ulp frame_upd_ulp split: option.splits)

lemma frame_modem_exec [framed]: "frame e (modem_exec env ev e)"
  by (cases ev)
    (simp_all add: modem_exec_def reportPosition_def reportSv_def reportStatus_def reportXtraServer_def Let_def
      frame_send_msg frame_call_plain frame_agps_request plain_call_def)

lemma frame_configuration_update [framed]: "frame e (loc_eng_configuration_update env s n e)"
  by (simp add: loc_eng_configuration_update_def Let_def frame_updates frame_setGpsLockMsg frame_send_if
    split: option.splits prod.splits)

section \<open>Types\<close>

text \<open>The class and the type of a machine never change.\<close>

definition nif_class :: "agps_sm \<Rightarrow> bool \<times> int" where
  "nif_class m = (is_ds m, mType m)"

lemma nif_class_updates [simp]:
  "nif_class (m\<lparr>state := st\<rparr>) = nif_class m" "nif_class (m\<lparr>subs := ss\<rparr>) = nif_class m"
  "nif_class (m\<lparr>outs := os\<rparr>) = nif_class m" "nif_class (m\<lparr>mRetries := w\<rparr>) = nif_class m"
  "nif_class (m\<lparr>subs := ss, next_sub := k\<rparr>) = nif_class m" "nif_class (m\<lparr>subs := ss, freed := fs\<rparr>) = nif_class m"
  "nif_class (m\<lparr>mAPN := apn\<rparr>) = nif_class m" "nif_class (m\<lparr>mBearer := b\<rparr>) = nif_class m"
  by (simp_all add: nif_class_def)

lemma nif_class_same: "same_fields m m' \<Longrightarrow> nif_class m' = nif_class m"
  by (simp add: same_fields_def nif_class_def)

lemma nif_class_informStatus [simp]: "nif_class (informStatus st i m) = nif_class m"
  by (cases st) (simp_all add: informStatus_def emit_def)

lemma nif_class_emit [simp]: "nif_class (emit x m) = nif_class m"
  by (simp add: emit_def)

lemma nif_class_notify [simp]: "nif_class (snd (notifyRsrcStatus s n m)) = nif_class m"
  by (rule nif_class_same [OF same_fields_notify])

lemma nif_class_notifySubscribers [simp]: "nif_class (notifySubscribers n m) = nif_class m"
proof (cases "postNotifyDelete n")
  case True
  obtain ss m' where l: "notify_loop n (subs m) m = (ss, m')" by fastforce
  from nif_class_same [OF same_fields_loop [OF l]] True l show ?thesis by (simp add: notifySubscribers_def)
next
  case False
  obtain r ss m' where l: "notify_search n (subs m) m = (r, ss, m')" by (cases "notify_search n (subs m) m") auto
  from nif_class_same [OF same_fields_search [OF l]] False l show ?thesis by (simp add: notifySubscribers_def)
qed

lemma nif_class_addSubscriber [simp]: "nif_class (addSubscriber s m) = nif_class m"
  by (simp add: addSubscriber_def split: option.splits)

lemma nif_class_setInactive [simp]: "nif_class (setInactive s m) = nif_class m"
  by (simp add: setInactive_def Let_def split: sub_kind.splits)

lemma nif_class_unsubscribe_one [simp]: "nif_class (unsubscribe_one s m) = nif_class m"
  by (simp add: unsubscribe_one_def)

lemma nif_class_sendRsrcRequest [simp]: "nif_class (snd (sendRsrcRequest env act m)) = nif_class m"
  by (simp add: sendRsrcRequest_def ds_sendRsrcRequest_def Let_def split: option.splits)

lemma nif_class_state_event [simp]: "nif_class (state_onRsrcEvent env ev d m) = nif_class m"
proof -
  have s: "nif_class m2 = nif_class m1" if "sendRsrcRequest env act m1 = (r, m2)" for act m1 r m2
    using nif_class_sendRsrcRequest [of env act m1] that by simp
  show ?thesis
    by (cases "state m"; cases ev; cases d)
      (auto simp: state_onRsrcEvent_def released_onRsrcEvent_def pending_onRsrcEvent_def acquired_onRsrcEvent_def
        releasing_onRsrcEvent_def release_if_unused_def Let_def split: prod.splits dest!: s)
qed

lemma nif_class_onRsrcEvent [simp]: "nif_class (onRsrcEvent env ev m) = nif_class m"
  by (cases ev) (simp_all add: onRsrcEvent_def ds_onRsrcEvent_def Let_def)

lemma nif_class_subscribe [simp]: "nif_class (subscribeRsrc env s m) = nif_class m"
  by (simp add: subscribeRsrc_def)

lemma nif_class_unsubscribe [simp]: "nif_class (snd (unsubscribeRsrc env s m)) = nif_class m"
  by (simp add: unsubscribeRsrc_def split: option.splits)

lemma nif_class_others [simp]:
  "nif_class (dropAllSubscribers m) = nif_class m" "nif_class (setAPN apn n m) = nif_class m"
  "nif_class (setBearer b m) = nif_class m" "nif_class (retryCallback m) = nif_class m"
  by (simp_all add: dropAllSubscribers_def setAPN_def setBearer_def retryCallback_def split: option.splits)

text \<open>The classes of the three machines, and the bits of the power vote.\<close>

definition eng_types :: "loc_eng \<Rightarrow> bool" where
  "eng_types e \<longleftrightarrow>
     (\<forall>m. agnss_nif e = Some m \<longrightarrow> nif_class m = (False, AGPS_TYPE_SUPL)) \<and>
     (\<forall>m. internet_nif e = Some m \<longrightarrow> nif_class m = (False, AGPS_TYPE_WWAN_ANY)) \<and>
     (\<forall>m. ds_nif e = Some m \<longrightarrow> nif_class m = (True, AGPS_TYPE_INVALID)) \<and>
     and (mPowerVote (adapter e)) (not (or POWER_VOTE_RIGHT POWER_VOTE_VALUE)) = 0"

lemma types_call [simp]: "eng_types (call c e) = eng_types e"
  by (simp add: eng_types_def call_def)

lemma types_send_msg [simp]: "eng_types (send_msg m e) = eng_types e"
  by (simp add: eng_types_def send_msg_def)

lemma types_send_if [simp]: "eng_types (send_if b m e) = eng_types e"
  by (simp add: send_if_def)

lemma types_upd_adapter: "(\<And>a. mPowerVote (f a) = mPowerVote a) \<Longrightarrow> eng_types (upd_adapter f e) = eng_types e"
  by (simp add: eng_types_def upd_adapter_def)

lemma types_updates [simp]:
  "eng_types (e\<lparr>conf := c\<rparr>) = eng_types e" "eng_types (e\<lparr>agps_status_cb := b\<rparr>) = eng_types e"
  "eng_types (e\<lparr>gnss_measurement_cb := b\<rparr>) = eng_types e" "eng_types (e\<lparr>supl_host := h\<rparr>) = eng_types e"
  "eng_types (e\<lparr>c2k_host := h\<rparr>) = eng_types e" "eng_types (e\<lparr>agpsStatus := w\<rparr>) = eng_types e"
  "eng_types (e\<lparr>configAlreadyRead := b\<rparr>) = eng_types e" "eng_types (e\<lparr>conf := c, configAlreadyRead := b\<rparr>) = eng_types e"
  "eng_types (e\<lparr>next_ulp := i\<rparr>) = eng_types e" "eng_types (e\<lparr>mute_session_state := mu\<rparr>) = eng_types e"
  "eng_types (e\<lparr>engine_status := st\<rparr>) = eng_types e" "eng_types (e\<lparr>fix_session_status := st\<rparr>) = eng_types e"
  "eng_types (e\<lparr>aiding_data_for_deletion := f\<rparr>) = eng_types e" "eng_types (e\<lparr>queue := q\<rparr>) = eng_types e"
  "eng_types (e\<lparr>download_request_cb := b, report_xtra_server_cb := b'\<rparr>) = eng_types e"
  by (simp_all add: eng_types_def)

lemma types_agps_request [simp]: "eng_types (snd (agps_request m e)) = eng_types e"
  by (simp add: agps_request_def)

lemma types_nif_emitted [simp]: "eng_types (nif_emitted n x e) = eng_types e"
  by (cases x) (simp_all add: nif_emitted_def)

lemma types_fold_emitted [simp]: "eng_types (fold (nif_emitted n) xs e) = eng_types e"
  by (induction xs arbitrary: e) simp_all

lemma types_run_nif:
  "run_nif n f e = Some (r, e') \<Longrightarrow> (\<And>m. nif_class (snd (f m)) = nif_class m) \<Longrightarrow> eng_types e \<Longrightarrow> eng_types e'"
proof -
  assume r: "run_nif n f e = Some (r, e')" and f: "\<And>m. nif_class (snd (f m)) = nif_class m" and t: "eng_types e"
  from r obtain m m' where m: "nif_of n e = Some m" "f m = (r, m')"
    and e': "e' = fold (nif_emitted n) (drop (length (outs m)) (outs m')) (set_nif n (Some m') e)"
    by (auto simp: run_nif_def split: option.splits prod.splits)
  have "nif_class m' = nif_class m" using f [of m] m(2) by simp
  with t m(1) have "eng_types (set_nif n (Some m') e)" by (cases n) (simp_all add: eng_types_def nif_of_def set_nif_def)
  then show ?thesis by (simp add: e')
qed

lemma types_createAgnssNifs [simp]: "eng_types e \<Longrightarrow> eng_types (createAgnssNifs env e)"
  by (simp add: createAgnssNifs_def Let_def call_def eng_types_def agps_new_def ds_new_def nif_class_def)

lemma types_getAgps: "eng_types e \<Longrightarrow> eng_types (snd (getAgpsStateMachine env ty e))"
  by (simp add: getAgpsStateMachine_def)

lemma types_drop_nif [simp]: "eng_types e \<Longrightarrow> eng_types (drop_nif n e)"
  by (cases n) (auto simp: drop_nif_def set_nif_def nif_of_def eng_types_def)

lemma types_run_nif_snd:
  "map_option snd (run_nif n f e) = Some e' \<Longrightarrow> (\<And>m. nif_class (snd (f m)) = nif_class m) \<Longrightarrow> eng_types e \<Longrightarrow> eng_types e'"
  using types_run_nif by fastforce

lemma types_try_release: "try_release env n s e = (b, e') \<Longrightarrow> eng_types e \<Longrightarrow> eng_types e'"
  by (auto simp: try_release_def dest!: types_run_nif split: option.splits)

lemma types_ReleaseATL: "eng_types e \<Longrightarrow> eng_types (ReleaseATL_proc env i e)"
proof -
  assume t: "eng_types e"
  obtain b1 e1 where 1: "try_release env AgnssNif (ATLSubscriber 0 i False) e = (b1, e1)" by fastforce
  obtain b2 e2 where 2: "try_release env InternetNif (ATLSubscriber 0 i False) e1 = (b2, e2)" by fastforce
  obtain b3 e3 where 3: "try_release env DsNif (DSSubscriber 0 i) e2 = (b3, e3)" by fastforce
  have "eng_types e1" "eng_types e2" "eng_types e3"
    using types_try_release [OF 1 t] types_try_release [OF 2] types_try_release [OF 3] by blast+
  then show ?thesis by (simp add: ReleaseATL_proc_def 1 2 3 split: bool.splits)
qed

lemma types_data_proc: "data_proc env m e = Some e' \<Longrightarrow> eng_types e \<Longrightarrow> eng_types e'"
proof -
  assume p: "data_proc env m e = Some e'" and t: "eng_types e"
  have g: "eng_types e2" if "getAgpsStateMachine env ty e = (n, e2)" for ty n e2
    using types_getAgps [OF t, of env ty] that by simp
  show ?thesis
    using p t by (cases m)
      (auto simp: data_proc_def ReqRelBIT_proc_def SuplEsOpened_proc_def SuplEsClosed_proc_def ds_event_def
        RequestSuplEs_proc_def RequestATL_proc_def AtlOpenSuccess_proc_def AtlClosed_proc_def AtlOpenFailed_proc_def
        ReqRelWifi_proc_def Let_def
        intro!: types_ReleaseATL types_createAgnssNifs split: prod.splits if_splits
        dest: g intro: t types_run_nif [OF _ _ t] types_run_nif [OF _ _ g])
qed

lemma types_server_proc [simp]: "eng_types (server_proc m e) = eng_types e"
  by (cases m)
    (simp_all add: server_proc_def SetServerIpv4_proc_def SetServerUrl_proc_def EnableData_proc_def InstallAGpsCert_proc_def
      UpdateRegistrationMask_proc_def RequestXtraServer_proc_def InjectXtraData_proc_def SetXtraVersionCheck_proc_def
      SetTime_proc_def InjectLocation_proc_def AdapterGpsLock_proc_def setXtraVersionCheck_def setTime_def
      Let_def split: option.splits)

lemma types_param_proc: "param_proc m e = Some e' \<Longrightarrow> eng_types e' = eng_types e"
  by (cases m)
    (auto simp: param_proc_def AGlonassProtocol_proc_def LPPeProtocol_proc_def SuplVer_proc_def SuplMode_proc_def
      SetNmeaTypes_proc_def LppConfig_proc_def SensorControlConfig_proc_def SensorProperties_proc_def
      SensorPerfControlConfig_proc_def split: if_splits)

lemma types_reinit [simp]: "eng_types (loc_eng_reinit e) = eng_types e"
  by (simp add: loc_eng_reinit_def Let_def loc_eng_xtra_version_check_def)

lemma types_set_server [simp]: "eng_types (snd (loc_eng_set_server env ty h p e)) = eng_types e"
  by (simp add: loc_eng_set_server_def Let_def split: option.splits)

lemma types_agps_reinit [simp]: "eng_types (loc_eng_agps_reinit env e) = eng_types e"
  by (simp add: loc_eng_agps_reinit_def Let_def split: option.splits prod.splits)

lemma types_requestPowerVote [simp]: "eng_types (requestPowerVote e) = eng_types e"
  by (simp add: requestPowerVote_def)

lemma vote_bits:
  "and (or w v) (not (or r v)) = and w (not (or r v))" "and (or w r) (not (or r v)) = and w (not (or r v))"
  "and (and w (not v)) (not (or r v)) = and w (not (or r v))" "and (and w (not r)) (not (or r v)) = and w (not (or r v))"
  for w v r :: "32 word"
  by (rule bit_word_eqI, auto simp: bit_simps)+

lemma types_votes [simp]:
  "eng_types (setPowerVote b e) = eng_types e" "eng_types (setPowerVoteRight b e) = eng_types e"
proof -
  have *: "eng_types (upd_adapter (\<lambda>a. a\<lparr>mPowerVote := f (mPowerVote a)\<rparr>) e) = eng_types e"
    if "and (f (mPowerVote (adapter e))) (not (or POWER_VOTE_RIGHT POWER_VOTE_VALUE)) =
        and (mPowerVote (adapter e)) (not (or POWER_VOTE_RIGHT POWER_VOTE_VALUE))" for f
    using that by (simp add: eng_types_def upd_adapter_def)
  show "eng_types (setPowerVote b e) = eng_types e"
    unfolding setPowerVote_def types_call types_requestPowerVote
    by (rule *) (cases b, simp_all only: if_True if_False vote_bits)
  show "eng_types (setPowerVoteRight b e) = eng_types e"
    unfolding setPowerVoteRight_def
    by (rule *) (cases b, simp_all only: if_True if_False vote_bits)
qed

lemma types_upd_ulp [simp]: "eng_types (upd_ulp f e) = eng_types e"
  by (simp add: upd_ulp_def types_upd_adapter)

lemma types_ulp [simp]:
  "eng_types (snd (sendStartFix env e)) = eng_types e" "eng_types (snd (sendStopFix env e)) = eng_types e"
  "eng_types (snd (sendFixMode env p e)) = eng_types e" "eng_types (setUlpProxy env ulp e) = eng_types e"
  by (simp_all add: sendStartFix_def sendStopFix_def sendFixMode_def setUlpProxy_def Let_def split: option.splits)

lemma types_modem_exec [simp]: "eng_types (modem_exec env ev e) = eng_types e"
  by (cases ev)
    (simp_all add: modem_exec_def reportPosition_def reportSv_def reportStatus_def reportXtraServer_def Let_def)

lemma types_configuration_update [simp]: "eng_types (loc_eng_configuration_update env s n e) = eng_types e"
  by (simp add: loc_eng_configuration_update_def Let_def setGpsLockMsg_def split: option.splits prod.splits)

lemma types_session_parts [simp]:
  "eng_types (setInSession b e) = eng_types e" "eng_types (stopFix e) = eng_types e"
  "eng_types (snd (startFix env e)) = eng_types e" "eng_types (clearGnssSvUsedListData e) = eng_types e"
  "eng_types (setGnssSvUsedListData u e) = eng_types e" "eng_types (setPositionMode p e) = eng_types e"
  by (simp_all add: setInSession_def stopFix_def startFix_def clearGnssSvUsedListData_def setGnssSvUsedListData_def
    setPositionMode_def Let_def types_upd_adapter split: option.splits)

lemma types_handlers [simp]:
  "eng_types (loc_eng_start_handler env e) = eng_types e" "eng_types (loc_eng_stop_handler e) = eng_types e"
  "eng_types (loc_eng_report_status st e) = eng_types e" "eng_types (update_aiding_data_for_deletion e) = eng_types e"
  "eng_types (loc_eng_get_zpp_handler env e) = eng_types e"
  by (simp_all add: loc_eng_start_handler_def startFix_def loc_eng_stop_handler_def loc_eng_report_status_def loc_inform_gps_status_def
    update_aiding_data_for_deletion_def loc_eng_get_zpp_handler_def Let_def split: prod.splits)


section \<open>Well-formedness\<close>

text \<open>Before the first initialisation nothing has happened.\<close>

definition quiet :: "loc_eng \<Rightarrow> bool" where
  "quiet e \<longleftrightarrow>
     queue e = [] \<and> calls e = [] \<and> \<not> mNavigating (adapter e) \<and> mute_session_state e = LOC_MUTE_SESS_NONE \<and>
     engine_status e = GPS_STATUS_NONE \<and> aiding_data_for_deletion e = 0 \<and>
     agnss_nif e = None \<and> internet_nif e = None \<and> ds_nif e = None \<and> \<not> agps_status_cb e \<and> \<not> gnss_measurement_cb e"

definition eng_wf :: "loc_eng \<Rightarrow> bool" where
  "eng_wf e \<longleftrightarrow> (adapter_set e \<or> quiet e) \<and> eng_types e"

lemma loc_init_events: "LOC_INIT_EVENTS \<noteq> 0"
  by (simp add: LOC_INIT_EVENTS_def)

lemma loc_eng_init_cases:
  assumes i: "loc_eng_init (Some c) LOC_INIT_EVENTS e = (r, e')" and wf: "eng_wf e"
  shows "frame e e' \<and> eng_types e' \<and> adapter_set e'"
proof (cases "adapter_set e")
  case True
  with i wf show ?thesis by (auto simp: loc_eng_init_def loc_init_events eng_wf_def)
next
  case False
  with wf have q: "quiet e" by (simp add: eng_wf_def)
  from i False obtain mask_bits gen where
    e': "e' = send_msg (Session LocEngInit) (clear_eng e\<lparr>cbs := c, intermediateFix := ucast (gps_conf e INTERMEDIATE_POS),
       generateNmea := gen, adapter_set := True, adapter := new_adapter mask_bits (next_ulp e), next_ulp := Suc (next_ulp e)\<rparr>)"
    by (auto simp: loc_eng_init_def loc_init_events Let_def clear_eng_def split: if_splits)
  show ?thesis
    using q by (simp add: e' frame_send_msg) (simp add: frame_def quiet_def clear_eng_def eng_zero_def new_adapter_def eng_types_def
      send_msg_def)
qed

lemma adapter_set_parts [simp]:
  "adapter_set (call c e) = adapter_set e" "adapter_set (send_msg m e) = adapter_set e"
  "adapter_set (upd_adapter f e) = adapter_set e" "adapter_set (setPowerVote b e) = adapter_set e"
  "adapter_set (setPowerVoteRight b e) = adapter_set e" "adapter_set (setGpsLockMsg w e) = adapter_set e"
  by (simp_all add: call_def send_msg_def upd_adapter_def setPowerVote_def setPowerVoteRight_def setGpsLockMsg_def
    requestPowerVote_def)

lemma loc_init_cases:
  assumes i: "loc_init env callbacks s = Some (r, s')" and wf: "eng_wf (eng s)"
  shows "frame (eng s) (eng s') \<and> eng_wf (eng s')"
proof (cases callbacks)
  case None
  with i wf show ?thesis by (simp add: loc_init_def)
next
  case (Some c)
  let ?cc = "\<lparr>location_cb = True, status_cb = c_status_cb c, nmea_cb = c_nmea_cb c,
      set_capabilities_cb = c_set_capabilities_cb c, request_utc_time_cb = c_request_utc_time_cb c,
      set_system_info_cb = c_set_system_info_cb c, gnss_sv_status_cb = c_gnss_sv_status_cb c\<rparr>"
  obtain r1 e1 where 1: "loc_eng_init (Some ?cc) LOC_INIT_EVENTS (eng s) = (r1, e1)" by fastforce
  from loc_eng_init_cases [OF 1 wf] have f: "frame (eng s) e1" "eng_types e1" "adapter_set e1" by auto
  from i Some 1 f show ?thesis
    by (auto simp: loc_init_def Let_def eng_wf_def setGpsLockMsg_def frame_setPowerVote frame_setPowerVoteRight
      frame_send_msg frame_call_plain frame_upd_adapter plain_call_def types_upd_adapter split: if_splits)
qed

text \<open>The functions of the client other than the initialisation.\<close>

definition eng_ok :: "loc_eng \<Rightarrow> loc_eng \<Rightarrow> bool" where
  "eng_ok e e' \<longleftrightarrow> frame e e' \<and> (eng_types e \<longrightarrow> eng_types e') \<and> (\<not> adapter_set e \<and> quiet e \<longrightarrow> quiet e')"

lemma eng_ok_wf: "eng_ok e e' \<Longrightarrow> eng_wf e \<Longrightarrow> frame e e' \<and> eng_wf e'"
  by (auto simp: eng_ok_def eng_wf_def frame_def)

lemma eng_ok_refl [simp]: "eng_ok e e"
  by (simp add: eng_ok_def)

lemma eng_ok_trans: "eng_ok e1 e2 \<Longrightarrow> eng_ok e2 e3 \<Longrightarrow> (\<not> adapter_set e1 \<longrightarrow> \<not> adapter_set e2) \<Longrightarrow> eng_ok e1 e3"
  by (auto simp: eng_ok_def intro: frame_trans)

lemma eng_ok_set: "adapter_set e \<Longrightarrow> frame e e' \<Longrightarrow> eng_types e' = eng_types e \<Longrightarrow> eng_ok e e'"
  by (simp add: eng_ok_def)

lemma eng_ok_start: "eng_ok e (snd (loc_eng_start env e))"
  using frame_ulp(1) [of e e env] types_ulp(1) [of env e]
  by (cases "adapter_set e"; cases "sendStartFix env e") (auto simp: loc_eng_start_def frame_send_msg intro!: eng_ok_set)

lemma eng_ok_stop: "eng_ok e (snd (loc_eng_stop env e))"
  using frame_ulp(2) [of e e env] types_ulp(2) [of env e]
  by (cases "adapter_set e"; cases "sendStopFix env e") (auto simp: loc_eng_stop_def frame_send_msg intro!: eng_ok_set)

lemma eng_ok_cleanup: "eng_ok e (loc_eng_cleanup env e)"
  by (simp add: loc_eng_cleanup_def eng_ok_stop)

lemma eng_ok_set_position_mode: "eng_ok e (snd (loc_eng_set_position_mode env p e))"
proof (cases "adapter_set e")
  case True
  have "eng_ok e (snd (let (taken, e1) = sendFixMode env q e
         in (0 :: int, if \<not> taken then send_msg (Session (LocEngPositionMode q)) e1 else e1)))" for q
    using frame_ulp(3) [of e e env q] types_ulp(3) [of env q e]
    by (cases "sendFixMode env q e") (auto simp: frame_send_msg intro!: eng_ok_set True)
  then show ?thesis using True by (simp add: loc_eng_set_position_mode_def Let_def)
qed (simp add: loc_eng_set_position_mode_def)

lemma eng_ok_sends:
  "eng_ok e (snd (loc_eng_inject_time t tref unc e))" "eng_ok e (snd (loc_eng_inject_location lat lon accur e))"
  "eng_ok e (loc_eng_delete_aiding_data f e)" "eng_ok e (snd (loc_eng_gps_measurement_init cb e))"
  "eng_ok e (loc_eng_gps_measurement_close e)"
  by (cases "adapter_set e"; simp add: loc_eng_inject_time_def loc_eng_inject_location_def loc_eng_delete_aiding_data_def
      loc_eng_gps_measurement_init_def loc_eng_gps_measurement_close_def eng_ok_set frame_send_msg frame_updates
      split: option.splits)+

lemma eng_ok_conf [simp]: "eng_ok e (e\<lparr>conf := c\<rparr>)" "eng_ok e (without_msa_msb e)"
  by (simp_all add: eng_ok_def without_msa_msb_def frame_updates quiet_def)

lemma eng_ok_update: "eng_ok e (loc_eng_configuration_update env d n e)"
proof (cases "adapter_set e")
  case True
  then show ?thesis by (simp add: eng_ok_set frame_configuration_update)
next
  case False
  then show ?thesis
    by (auto simp: loc_eng_configuration_update_def Let_def simp del: loc_eng.update_convs split: option.splits prod.splits)
qed

lemma eng_of_afw:
  "eng (snd (loc_start env s)) = snd (loc_eng_start env (eng s))"
  "eng (snd (loc_stop env s)) = snd (loc_eng_stop env (eng s))"
  "eng (snd (loc_set_position_mode env m recr gap accu time s)) =
     snd (loc_eng_set_position_mode env (LocPosMode (if m = 1 then LOC_POSITION_MODE_MS_BASED
       else if m = 2 then LOC_POSITION_MODE_MS_ASSISTED else LOC_POSITION_MODE_STANDALONE) recr gap accu time None None) (eng s))"
  "eng (snd (loc_inject_time t tref unc s)) = snd (loc_eng_inject_time t tref unc (eng s))"
  "eng (snd (loc_inject_location lat lon accur s)) = snd (loc_eng_inject_location lat lon accur (eng s))"
  "eng (snd (loc_gps_measurement_init cb s)) = snd (loc_eng_gps_measurement_init cb (eng s))"
  "eng (loc_gps_measurement_close s) = loc_eng_gps_measurement_close (eng s)"
  "eng (upd_eng f s) = f (eng s)"
  by (simp_all add: loc_start_def loc_stop_def loc_set_position_mode_def loc_inject_time_def loc_inject_location_def
    loc_gps_measurement_init_def loc_gps_measurement_close_def upd_eng_def split: prod.splits)

lemma client_exec_cases:
  assumes x: "client_exec env ev s = Some s'" and wf: "eng_wf (eng s)"
  shows "frame (eng s) (eng s') \<and> eng_wf (eng s')"
proof (cases ev)
  case (Init c)
  with x loc_init_cases [OF _ wf] show ?thesis by (auto simp: client_exec_def)
next
  case Cleanup
  with x have set: "adapter_set (eng s)"
    and s': "eng s' = loc_eng_cleanup env (setGpsLockMsg (gps_conf (setPowerVote False (eng s)) GPS_LOCK) (setPowerVote False (eng s)))"
    by (auto simp: client_exec_def loc_cleanup_def Let_def split: if_splits)
  have "eng_ok (eng s) (setGpsLockMsg (gps_conf (setPowerVote False (eng s)) GPS_LOCK) (setPowerVote False (eng s)))"
    using set by (intro eng_ok_set) (simp_all add: setGpsLockMsg_def frame_send_msg frame_setPowerVote)
  with eng_ok_cleanup [of _ env] set have "eng_ok (eng s) (eng s')" unfolding s' by (blast intro: eng_ok_trans)
  with wf show ?thesis by (rule eng_ok_wf [rotated])
next
  case (ConfigUpdate d n)
  have "eng_ok (eng s) (eng (upd_eng (loc_eng_configuration_update env d n) s))" (is "eng_ok _ ?e")
    by (simp add: upd_eng_def eng_ok_update)
  moreover from x ConfigUpdate have "eng s' = ?e \<or> eng s' = without_msa_msb ?e"
    by (auto simp: client_exec_def loc_configuration_update_def upd_eng_def Let_def split: if_splits)
  ultimately show ?thesis using eng_ok_wf [OF eng_ok_conf(2)] eng_ok_wf wf frame_trans by metis
qed (use x eng_ok_wf [OF _ wf, of "eng s'"] in \<open>auto simp: client_exec_def eng_of_afw eng_ok_start eng_ok_stop eng_ok_sends
      eng_ok_set_position_mode loc_delete_aiding_data_def\<close>)

lemma eng_ok_set_server: "eng_ok e (snd (loc_eng_set_server_proxy env ty h p e))"
proof -
  have "eng_ok e (e\<lparr>supl_host := x\<rparr>)" "eng_ok e (e\<lparr>c2k_host := x\<rparr>)" for x
    by (simp_all add: eng_ok_def frame_updates quiet_def)
  then show ?thesis
    by (auto simp: loc_eng_set_server_proxy_def Let_def eng_ok_def frame_set_server frame_updates)
qed

lemma eng_ok_agps_init: "eng_ok e (loc_eng_agps_init env cb e)"
proof (cases "adapter_set e")
  case True
  then show ?thesis
    by (cases cb) (auto simp: loc_eng_agps_init_def Let_def frame_agps_reinit frame_send_msg frame_updates intro!: eng_ok_set)
qed (simp add: loc_eng_agps_init_def)

lemma eng_ok_availability: "eng_ok e (loc_eng_agps_ril_update_network_availability a apn e)"
  by (cases apn)
    (auto simp: loc_eng_agps_ril_update_network_availability_def Let_def frame_updates frame_send_msg eng_ok_def quiet_def)

lemma eng_ok_data:
  "eng_ok e (snd (loc_eng_agps_open ty apn b e))"
  "eng_ok e (snd (loc_eng_agps_closed ty e))" "eng_ok e (snd (loc_eng_agps_open_failed ty e))"
  "eng_ok e (snd (loc_eng_agps_install_certificates cs e))"
  by (cases apn; auto simp: loc_eng_agps_open_def loc_eng_agps_closed_def
      loc_eng_agps_open_failed_def loc_eng_agps_install_certificates_def Let_def frame_send_msg intro!: eng_ok_set)+

lemma data_exec_cases:
  assumes x: "data_exec env ev s = Some s'" and wf: "eng_wf (eng s)"
  shows "frame (eng s) (eng s') \<and> eng_wf (eng s')"
proof -
  have "eng_ok (eng s) (eng s')"
  proof (cases ev)
    case (AgpsSetServer ty h p)
    then obtain ty' where "eng s' = snd (loc_eng_set_server_proxy env ty' h p (eng s))"
      using x by (auto simp: data_exec_def loc_agps_set_server_def Let_def split: prod.splits) (metis snd_conv)
    then show ?thesis by (simp add: eng_ok_set_server)
  next
    case (XtraInit d)
    then show ?thesis using x
      by (auto simp: data_exec_def loc_xtra_init_def loc_eng_xtra_init_def frame_updates intro!: eng_ok_set split: if_splits)
  next
    case (XtraInject buf n)
    then show ?thesis using x
      by (auto simp: data_exec_def loc_xtra_inject_data_def loc_eng_xtra_inject_data_def frame_send_msg intro!: eng_ok_set
        split: if_splits option.splits)
  next
    case (InstallCerts cs)
    then show ?thesis using x
      by (auto simp: data_exec_def loc_agps_install_certificates_def eng_ok_data split: prod.splits)
         (metis eng_ok_data(4) snd_conv)
  qed (use x in \<open>auto simp: data_exec_def loc_agps_init_def loc_agps_open_with_apniptype_def loc_agps_closed_def
      loc_agps_open_failed_def loc_agps_ril_update_network_availability_def eng_of_afw eng_ok_data
      eng_ok_agps_init eng_ok_availability\<close>)
  from eng_ok_wf [OF this wf] show ?thesis .
qed

lemma modem_exec_wf: "adapter_set e \<Longrightarrow> eng_wf e \<Longrightarrow> eng_wf (modem_exec env ev e)"
  using eng_ok_wf [OF eng_ok_set [OF _ frame_modem_exec]] by simp

lemma ds_retry_cases:
  assumes x: "ds_retry e = Some e'" and wf: "eng_wf e"
  shows "frame e e' \<and> eng_wf e'"
proof -
  from x have "ds_nif e \<noteq> None" by (auto simp: ds_retry_def run_nif_def nif_of_def split: option.splits)
  then have set: "adapter_set e" using wf by (auto simp: eng_wf_def quiet_def)
  have "frame e e'" using x by (auto simp: ds_retry_def intro: frame_run_nif [OF _ frame_refl])
  moreover have "eng_types e'" using x wf
    by (auto simp: ds_retry_def eng_wf_def intro: types_run_nif [where f = "\<lambda>m. ((), retryCallback m)"])
  ultimately show ?thesis using set by (auto simp: eng_wf_def frame_def)
qed


section \<open>The messages\<close>

lemma types_GnssConstellationConfig [simp]: "eng_types (GnssConstellationConfig_proc env e) = eng_types e"
  by (simp add: GnssConstellationConfig_proc_def Let_def types_upd_adapter)

lemma types_session_proc: "eng_types e \<Longrightarrow> eng_types (session_proc env m e)"
  by (cases m)
    (simp_all add: session_proc_def StartFix_proc_def StopFix_proc_def PositionMode_proc_def GetZpp_proc_def DelAidData_proc_def
      Init_proc_def Down_proc_def Up_proc_def SetUlpProxy_proc_def loc_eng_handle_engine_down_def
      loc_eng_handle_engine_up_def Let_def)

lemma types_ReportPosition [simp]: "eng_types (ReportPosition_proc env loc ext st tech e) = eng_types e"
proof (cases "report_fix env loc ext st tech e")
  case (Pair rep e1)
  have "eng_types e1 = eng_types e"
    using Pair by (auto simp: report_fix_def split: if_splits)
  with Pair show ?thesis by (simp add: ReportPosition_proc_def Let_def split: option.splits)
qed

lemma types_report_proc: "report_proc env m e = Some e' \<Longrightarrow> eng_types e' = eng_types e"
  by (cases m)
    (auto simp: report_proc_def ReportSv_proc_def ReportStatus_proc_def ReportNmea_proc_def ReportXtraServer_proc_def
      ReportGnssMeasurement_proc_def RequestNi_proc_def RequestXtra_proc_def RequestTime_proc_def SetCapabilities_proc_def
      SetSystemInfo_proc_def loc_eng_mute_one_session_def Let_def split: option.splits if_splits)


lemma frame_adapter: "frame e e' \<Longrightarrow> adapter_set e \<Longrightarrow> adapter_set e'"
  by (simp add: frame_def)

lemma adapter_set_session_parts [simp]:
  "adapter_set (setInSession b e) = adapter_set e" "adapter_set (stopFix e) = adapter_set e"
  "adapter_set (clearGnssSvUsedListData e) = adapter_set e" "adapter_set (setGnssSvUsedListData u e) = adapter_set e"
  "adapter_set (setPositionMode p e) = adapter_set e" "adapter_set (loc_eng_start_handler env e) = adapter_set e"
  "adapter_set (loc_eng_stop_handler e) = adapter_set e" "adapter_set (loc_eng_report_status st e) = adapter_set e"
  "adapter_set (update_aiding_data_for_deletion e) = adapter_set e"
  "adapter_set (loc_eng_get_zpp_handler env e) = adapter_set e"
  by (simp_all add: setInSession_def stopFix_def startFix_def clearGnssSvUsedListData_def setGnssSvUsedListData_def
    setPositionMode_def loc_eng_start_handler_def loc_eng_stop_handler_def loc_eng_report_status_def
    loc_inform_gps_status_def update_aiding_data_for_deletion_def loc_eng_get_zpp_handler_def Let_def split: option.splits)

lemma frame_up:
  "frame e (let e1 = requestPowerVote (loc_eng_reinit e)
     in if agps_status_cb e1 then loc_eng_agps_reinit env (drop_nif InternetNif (drop_nif AgnssNif e1)) else e1)"
  by (simp add: Let_def frame_agps_reinit frame_drop_nif frame_requestPowerVote frame_reinit)

lemma adapter_set_session_proc: "adapter_set e \<Longrightarrow> adapter_set (session_proc env m e)"
  using frame_adapter [OF frame_up, of e env] frame_adapter [OF frame_reinit [OF frame_refl], of e]
    frame_adapter [OF frame_setUlpProxy [OF frame_refl], of e env]
  by (cases m)
    (simp_all add: session_proc_def StartFix_proc_def StopFix_proc_def PositionMode_proc_def GetZpp_proc_def DelAidData_proc_def
      Init_proc_def Down_proc_def Up_proc_def SetUlpProxy_proc_def loc_eng_handle_engine_down_def
      loc_eng_handle_engine_up_def GnssConstellationConfig_proc_def Let_def)

lemma adapter_set_ReportPosition [simp]: "adapter_set (ReportPosition_proc env loc ext st tech e) = adapter_set e"
proof (cases "report_fix env loc ext st tech e")
  case (Pair rep e1)
  have "adapter_set e1 = adapter_set e"
    using Pair by (auto simp: report_fix_def split: if_splits)
  with Pair show ?thesis by (simp add: ReportPosition_proc_def Let_def split: option.splits)
qed

lemma adapter_set_report_proc: "report_proc env m e = Some e' \<Longrightarrow> adapter_set e' = adapter_set e"
  by (cases m)
    (auto simp: report_proc_def ReportSv_proc_def ReportStatus_proc_def ReportNmea_proc_def
      ReportXtraServer_proc_def
      ReportGnssMeasurement_proc_def RequestNi_proc_def RequestXtra_proc_def RequestTime_proc_def SetCapabilities_proc_def
      SetSystemInfo_proc_def loc_eng_mute_one_session_def Let_def split: option.splits if_splits)

lemma eng_proc_wf: "eng_proc env m e = Some e' \<Longrightarrow> adapter_set e \<Longrightarrow> eng_types e \<Longrightarrow> eng_wf e'"
  by (cases m)
    (auto simp: eng_proc_def eng_wf_def types_session_proc types_report_proc types_param_proc adapter_set_session_proc
      adapter_set_report_proc intro: types_data_proc frame_adapter [OF frame_data_proc] frame_adapter [OF frame_param_proc]
      frame_adapter [OF frame_server_proc])

lemma proc_msg_wf: "proc_msg env e = Some e' \<Longrightarrow> eng_wf e \<Longrightarrow> eng_wf e'"
proof -
  assume p: "proc_msg env e = Some e'" and wf: "eng_wf e"
  show ?thesis
  proof (cases "queue e")
    case Nil
    with p wf show ?thesis by (simp add: proc_msg_def)
  next
    case (Cons m ms)
    with wf have "adapter_set e" "eng_types e" by (auto simp: eng_wf_def quiet_def)
    with Cons p show ?thesis by (auto simp: proc_msg_def intro!: eng_proc_wf [of env m "e\<lparr>queue := ms\<rparr>"])
  qed
qed

lemma hal_exec_wf: "hal_exec env ev s = Some s' \<Longrightarrow> eng_wf (eng s) \<Longrightarrow> eng_wf (eng s')"
  using proc_msg_wf [of env "eng s"]
  by (cases ev)
    (auto simp: hal_exec_def upd_eng_def client_exec_cases data_exec_cases ds_retry_cases modem_exec_wf
      split: if_splits)

lemma read_config_form: "\<exists>b c. snd (loc_eng_read_config env gps_file sap_file e) = e\<lparr>configAlreadyRead := b, conf := c\<rparr>"
proof (cases "configAlreadyRead e")
  case True
  then have "snd (loc_eng_read_config env gps_file sap_file e) = e\<lparr>configAlreadyRead := configAlreadyRead e, conf := conf e\<rparr>"
    by (simp add: loc_eng_read_config_def)
  then show ?thesis by blast
next
  case False
  have "e\<lparr>conf := c, configAlreadyRead := b\<rparr> = e\<lparr>configAlreadyRead := b, conf := c\<rparr>" for b c by simp
  with False show ?thesis unfolding loc_eng_read_config_def Let_def snd_conv by (simp only: if_True not_False_eq_True) blast
qed

lemma start_form: "\<exists>b c. eng (snd (get_gps_interface env gps_file sap_file ty afw_start)) = eng_zero\<lparr>configAlreadyRead := b, conf := c\<rparr>"
proof -
  obtain c b where "snd (loc_eng_read_config env gps_file sap_file eng_zero) = eng_zero\<lparr>configAlreadyRead := b, conf := c\<rparr>"
    using read_config_form by blast
  then show ?thesis
    by (cases ty) (auto simp: get_gps_interface_def upd_eng_def without_msa_msb_def afw_start_def Let_def)
qed

lemma wf_start: "eng_wf (eng (snd (get_gps_interface env gps_file sap_file ty afw_start)))"
proof -
  have "eng_wf (eng_zero\<lparr>configAlreadyRead := b, conf := c\<rparr>)" for c b
    by (simp add: eng_wf_def quiet_def eng_types_def eng_zero_def new_adapter_def)
  then show ?thesis using start_form [of env gps_file sap_file ty] by auto
qed

lemma reachable_wf: "afw_reachable s \<Longrightarrow> eng_wf (eng s)"
  by (induction rule: afw_reachable.induct) (auto intro: wf_start hal_exec_wf)


text \<open>
  C2: In every reachable state the engine's data are well-formed. Until the first initialisation
  nothing has happened: no message is queued, no call was made, there is no session, no state machine
  and no callback of an extension. From then on the adapter is there for good. The SUPL and the
  internet machine are plain machines with their own types, the emergency machine is a data services
  machine, and the power vote holds no bits but its two.
\<close>

theorem engine_well_formed: "afw_reachable s \<Longrightarrow> eng_wf (eng s)"
  by (rule reachable_wf)

definition all_callbacks :: gps_callbacks where
  "all_callbacks =
     \<lparr>c_location_cb = True, c_status_cb = True, c_sv_status_cb = True, c_nmea_cb = True, c_set_capabilities_cb = True,
      c_request_utc_time_cb = True, c_set_system_info_cb = True, c_gnss_sv_status_cb = True\<rparr>"

lemma init_runs: "eng_wf (eng s) \<Longrightarrow> \<exists>s'. hal_exec env (ClientEvent (Init (Some c))) s = Some s' \<and> adapter_set (eng s')"
proof -
  assume wf: "eng_wf (eng s)"
  let ?cc = "\<lparr>location_cb = True, status_cb = c_status_cb c, nmea_cb = c_nmea_cb c,
      set_capabilities_cb = c_set_capabilities_cb c, request_utc_time_cb = c_request_utc_time_cb c,
      set_system_info_cb = c_set_system_info_cb c, gnss_sv_status_cb = c_gnss_sv_status_cb c\<rparr>"
  obtain r e1 where 1: "loc_eng_init (Some ?cc) LOC_INIT_EVENTS (eng s) = (r, e1)" by fastforce
  from loc_eng_init_cases [OF 1 wf] have "adapter_set e1" by simp
  with 1 show ?thesis by (auto simp: hal_exec_def client_exec_def loc_init_def Let_def)
qed

theorem engine_well_formed_witness:
  "\<exists>s. hal_run plain_env [ClientEvent (Init (Some all_callbacks)), ClientEvent Start]
     (snd (get_gps_interface plain_env None None GNSS_MSM afw_start)) = Some s \<and> adapter_set (eng s) \<and> eng_wf (eng s)"
proof -
  let ?s0 = "snd (get_gps_interface plain_env None None GNSS_MSM afw_start)"
  obtain s1 where 1: "hal_exec plain_env (ClientEvent (Init (Some all_callbacks))) ?s0 = Some s1" "adapter_set (eng s1)"
    using init_runs [OF wf_start] by blast
  obtain s2 where 2: "hal_exec plain_env (ClientEvent Start) s1 = Some s2"
    by (simp add: hal_exec_def client_exec_def)
  have r: "hal_run plain_env [ClientEvent (Init (Some all_callbacks)), ClientEvent Start] ?s0 = Some s2"
    by (simp add: 1 2)
  from hal_run_reachable [OF this afw_reachable.start] have s2: "afw_reachable s2" .
  have "frame (eng s1) (eng s2)"
    using 2 client_exec_cases [of plain_env Start s1 s2] hal_exec_wf [OF 1(1) wf_start] by (simp add: hal_exec_def)
  with 1(2) have "adapter_set (eng s2)" by (rule frame_adapter [rotated])
  with r engine_well_formed [OF s2] show ?thesis by blast
qed

end
