(* ===== verification/Eng_Trace.thy ===== *)
theory Eng_Trace
  imports Eng_Session
begin

text \<open>
  What the modem and the client see of a session, over all reachable states of \<open>Loc_Afw\<close>.

  \<^item> \<open>session_log\<close> reads the log of calls: a \<open>startFix\<close> must not come while the modem has been told
    that a session is on, and the last \<open>setInSession\<close> is the engine's own state.
  \<^item> the calls that are not \<open>unreported\<close> are the reports of a fix, a status, satellites or measurements; in a muted
    session there are none.
  \<^item> The runs at the end are sequences of events that lose a server, leave a session on after the
    cleanup, restart without a mode, or follow a NULL pointer.
\<close>

section \<open>The session\<close>

fun session_log :: "bool \<Rightarrow> eng_call list \<Rightarrow> bool option" where
  "session_log on [] = Some on"
| "session_log on (c # cs) =
     (case c of
        Modem (StartFix _) \<Rightarrow> if on then None else session_log on cs
      | Modem (SetInSession b) \<Rightarrow> session_log b cs
      | _ \<Rightarrow> session_log on cs)"

definition not_session :: "eng_call \<Rightarrow> bool" where
  "not_session c = (case c of Modem (StartFix _) \<Rightarrow> False | Modem (SetInSession _) \<Rightarrow> False | _ \<Rightarrow> True)"

lemma session_log_append:
  "session_log on (cs @ ds) = (case session_log on cs of None \<Rightarrow> None | Some b \<Rightarrow> session_log b ds)"
  by (induction cs arbitrary: "on") (auto split: eng_call.splits modem_call.splits)

lemma session_log_others: "list_all not_session cs \<Longrightarrow> session_log on cs = Some on"
  by (induction cs) (auto simp: not_session_def split: eng_call.splits modem_call.splits)

lemma plain_not_session: "plain_call c \<Longrightarrow> not_session c"
  by (auto simp: plain_call_def not_session_def split: eng_call.splits modem_call.splits)

definition session_ok :: "loc_eng \<Rightarrow> bool" where
  "session_ok e \<longleftrightarrow> session_log False (calls e) = Some (mNavigating (adapter e))"

lemma session_ok_frame:
  assumes f: "frame e e'" and ok: "session_ok e"
  shows "session_ok e'"
proof -
  obtain cs where cs: "calls e' = calls e @ cs" "list_all plain_call cs" "mNavigating (adapter e') = mNavigating (adapter e)"
    using f by (auto simp: frame_def)
  have "list_all not_session cs" using cs(2) plain_not_session by (rule list.pred_mono_strong)
  with cs ok show ?thesis by (simp add: session_ok_def session_log_append session_log_others)
qed

lemma session_ok_call [simp]: "not_session c \<Longrightarrow> session_ok (call c e) = session_ok e"
  using session_log_others [of "[c]"]
  by (simp add: session_ok_def call_def session_log_append del: session_log.simps(2) split: option.splits)

lemma session_ok_upd_adapter: "(\<And>a. mNavigating (f a) = mNavigating a) \<Longrightarrow> session_ok (upd_adapter f e) = session_ok e"
  by (simp add: session_ok_def upd_adapter_def)

lemma session_ok_updates [simp]:
  "session_ok (send_msg m e) = session_ok e" "session_ok (e\<lparr>mute_session_state := mu\<rparr>) = session_ok e"
  "session_ok (e\<lparr>engine_status := st\<rparr>) = session_ok e" "session_ok (e\<lparr>fix_session_status := st\<rparr>) = session_ok e"
  "session_ok (e\<lparr>aiding_data_for_deletion := f\<rparr>) = session_ok e" "session_ok (e\<lparr>conf := c\<rparr>) = session_ok e"
  "session_ok (e\<lparr>queue := q\<rparr>) = session_ok e"
  by (simp_all add: session_ok_def send_msg_def)

lemma session_ok_setInSession: "session_ok e \<Longrightarrow> session_ok (setInSession b e)"
  by (auto simp: session_ok_def setInSession_def call_def upd_adapter_def session_log_append Let_def)

lemma session_ok_startFix: "session_ok e \<Longrightarrow> \<not> mNavigating (adapter e) \<Longrightarrow> session_ok (snd (startFix env e))"
  by (simp add: session_ok_def startFix_def call_def session_log_append)

lemma session_ok_parts [simp]:
  "session_ok (stopFix e) = session_ok e" "session_ok (clearGnssSvUsedListData e) = session_ok e"
  "session_ok (setGnssSvUsedListData u e) = session_ok e" "session_ok (setPositionMode p e) = session_ok e"
  "session_ok (loc_eng_report_status st e) = session_ok e" "session_ok (update_aiding_data_for_deletion e) = session_ok e"
  "session_ok (loc_eng_get_zpp_handler env e) = session_ok e" "session_ok (GnssConstellationConfig_proc env e) = session_ok e"
  by (simp_all add: stopFix_def not_session_def clearGnssSvUsedListData_def setGnssSvUsedListData_def setPositionMode_def
    loc_eng_report_status_def loc_inform_gps_status_def update_aiding_data_for_deletion_def loc_eng_get_zpp_handler_def
    GnssConstellationConfig_proc_def session_ok_upd_adapter Let_def split: option.splits)

lemma session_ok_start_handler: "session_ok e \<Longrightarrow> session_ok (loc_eng_start_handler env e)"
  using session_ok_startFix [of e env]
  by (auto simp: loc_eng_start_handler_def startFix_def intro!: session_ok_setInSession)

lemma session_ok_stop_handler: "session_ok e \<Longrightarrow> session_ok (loc_eng_stop_handler e)"
  by (simp add: loc_eng_stop_handler_def session_ok_setInSession)

lemma session_ok_ReportPosition: "session_ok e \<Longrightarrow> session_ok (ReportPosition_proc env loc ext st tech e)"
proof -
  have c: "not_session (Client x)" "not_session (NmeaGeneratePos l x' b m)" "not_session (FreeRawData p)" for x l x' b m p
    by (simp_all add: not_session_def)
  assume ok: "session_ok e"
  obtain rep e1 where 1: "report_fix env loc ext st tech e = (rep, e1)" by fastforce
  have "session_ok e1" using 1 ok c(1) by (auto simp: report_fix_def split: if_splits)
  then show ?thesis by (auto simp: ReportPosition_proc_def Let_def 1 c ok session_ok_setInSession split: option.splits)
qed

lemma session_ok_report_proc: "report_proc env m e = Some e' \<Longrightarrow> session_ok e \<Longrightarrow> session_ok e'"
  by (cases m)
    (auto simp: report_proc_def session_ok_ReportPosition ReportSv_proc_def ReportStatus_proc_def ReportNmea_proc_def
      ReportXtraServer_proc_def not_session_def
      ReportGnssMeasurement_proc_def RequestNi_proc_def RequestXtra_proc_def RequestTime_proc_def SetCapabilities_proc_def
      SetSystemInfo_proc_def loc_eng_mute_one_session_def Let_def split: option.splits if_splits)

lemma session_ok_session_proc: "session_ok e \<Longrightarrow> session_ok (session_proc env m e)"
  using session_ok_frame [OF frame_up, of e env] session_ok_frame [OF frame_reinit [OF frame_refl], of e]
    session_ok_frame [OF frame_setUlpProxy [OF frame_refl], of e env]
  by (cases m)
    (auto simp: session_proc_def StartFix_proc_def StopFix_proc_def PositionMode_proc_def GetZpp_proc_def DelAidData_proc_def
      Init_proc_def Down_proc_def Up_proc_def SetUlpProxy_proc_def loc_eng_handle_engine_down_def not_session_def
      loc_eng_handle_engine_up_def Let_def intro!: session_ok_start_handler session_ok_stop_handler session_ok_setInSession)

lemma session_ok_eng_proc: "eng_proc env m e = Some e' \<Longrightarrow> session_ok e \<Longrightarrow> session_ok e'"
  by (cases m)
    (auto simp: eng_proc_def session_ok_session_proc session_ok_report_proc
      intro: session_ok_frame [OF frame_data_proc] session_ok_frame [OF frame_param_proc]
      session_ok_frame [OF frame_server_proc])

text \<open>Every event either only frames the engine or processes the oldest message.\<close>

lemma hal_exec_cases:
  assumes x: "hal_exec env ev s = Some s'" and wf: "eng_wf (eng s)"
  obtains (framed) "frame (eng s) (eng s')"
  | (processed) m ms where "ev = ProcMsg" "queue (eng s) = m # ms"
      "eng_proc env m ((eng s)\<lparr>queue := ms\<rparr>) = Some (eng s')"
proof (cases ev)
  case ProcMsg
  then show ?thesis using x framed processed frame_refl
    by (cases "queue (eng s)") (auto simp: hal_exec_def proc_msg_def)
qed (use x wf framed in \<open>auto simp: hal_exec_def upd_eng_def client_exec_cases data_exec_cases ds_retry_cases frame_modem_exec
      split: if_splits\<close>)

lemma reachable_session_ok: "afw_reachable s \<Longrightarrow> session_ok (eng s)"
proof (induction rule: afw_reachable.induct)
  case (start env gps_file sap_file ty)
  obtain b c where "eng (snd (get_gps_interface env gps_file sap_file ty afw_start)) = eng_zero\<lparr>configAlreadyRead := b, conf := c\<rparr>"
    using start_form by blast
  then show ?case by (simp add: session_ok_def eng_zero_def new_adapter_def)
next
  case (step s env ev s')
  from reachable_wf [OF step(1)] have wf: "eng_wf (eng s)" .
  from step(2) wf show ?case
  proof (cases rule: hal_exec_cases)
    case framed
    then show ?thesis using step(3) by (rule session_ok_frame)
  next
    case (processed m ms)
    with step(3) show ?thesis by (intro session_ok_eng_proc [OF processed(3)]) simp
  qed
qed


text \<open>
  C1: The modem never gets a second start of a session. In every reachable state, the log of the calls
  is well bracketed: \<open>startFix\<close> only comes while the last \<open>setInSession\<close> was not true, and what the
  modem was told last is what the engine itself believes.
\<close>

theorem session_bracketed:
  "afw_reachable s \<Longrightarrow> session_log False (calls (eng s)) = Some (mNavigating (adapter (eng s)))"
  using reachable_session_ok by (simp add: session_ok_def)

section \<open>The muted session\<close>

definition unreported :: "eng_call \<Rightarrow> bool" where
  "unreported c =
     (case c of
        Client (CbLocation _) \<Rightarrow> False
      | Client (CbStatus _) \<Rightarrow> False
      | Client (CbSvStatus _) \<Rightarrow> False
      | Client (CbMeasurement _) \<Rightarrow> False
      | _ \<Rightarrow> True)"

lemma unreported_others [simp]:
  "unreported (Modem mc)" "unreported (Ulp uc)" "unreported NiReset" "unreported (NiRequestHandler r)"
  "unreported (Client (CbNmea n))" "unreported (Client (CbCapabilities w))" "unreported (Client (CbSystemInfo y))"
  "unreported (Client CbUtcTime)" "unreported (Client (CbXtraServers x))" "unreported (Client CbXtraDownload)"
  by (simp_all add: unreported_def)

text \<open>All calls that are added satisfy a predicate.\<close>

definition adds :: "(eng_call \<Rightarrow> bool) \<Rightarrow> loc_eng \<Rightarrow> loc_eng \<Rightarrow> bool" where
  "adds P e e' \<longleftrightarrow> (\<exists>cs. calls e' = calls e @ cs \<and> list_all P cs)"

abbreviation silent :: "loc_eng \<Rightarrow> loc_eng \<Rightarrow> bool" where
  "silent \<equiv> adds unreported"

lemma adds_refl [simp]: "adds P e e"
  by (simp add: adds_def)

lemma adds_trans: "adds P e1 e2 \<Longrightarrow> adds P e2 e3 \<Longrightarrow> adds P e1 e3"
  by (auto simp: adds_def)

lemma adds_call: "P c \<Longrightarrow> adds P e e' \<Longrightarrow> adds P e (call c e')"
  by (auto simp: adds_def call_def)

lemma adds_updates:
  "adds P e (send_msg m e') = adds P e e'" "adds P e (e'\<lparr>mute_session_state := mu\<rparr>) = adds P e e'"
  "adds P e (e'\<lparr>engine_status := st\<rparr>) = adds P e e'" "adds P e (e'\<lparr>fix_session_status := st\<rparr>) = adds P e e'"
  "adds P e (e'\<lparr>aiding_data_for_deletion := f\<rparr>) = adds P e e'" "adds P e (e'\<lparr>conf := c\<rparr>) = adds P e e'"
  "adds P (e\<lparr>queue := q\<rparr>) e' = adds P e e'" "adds P e (upd_adapter g e') = adds P e e'"
  "adds P e (e'\<lparr>mute_session_state := mu, engine_status := st\<rparr>) = adds P e e'"
  by (simp_all add: adds_def send_msg_def upd_adapter_def)

lemma adds_frame: "(\<And>c. plain_call c \<Longrightarrow> P c) \<Longrightarrow> frame e e' \<Longrightarrow> adds P e e'"
  unfolding frame_def adds_def
  by (elim conjE exE, intro exI conjI, assumption, erule list.pred_mono_strong) auto

lemma silent_frame: "frame e e' \<Longrightarrow> silent e e'"
  by (rule adds_frame) (auto simp: plain_call_def unreported_def split: eng_call.splits)

lemma silent_setInSession: "silent e e' \<Longrightarrow> silent e (setInSession b e')"
  by (simp add: setInSession_def Let_def adds_call adds_updates)

lemma silent_start_handler: "silent e e' \<Longrightarrow> silent e (loc_eng_start_handler env e')"
  by (auto simp: loc_eng_start_handler_def startFix_def adds_call intro!: silent_setInSession)

lemma silent_aiding: "silent e e' \<Longrightarrow> silent e (update_aiding_data_for_deletion e')"
  by (simp add: update_aiding_data_for_deletion_def adds_call adds_updates)

lemma silent_status:
  "mute_session_state (loc_eng_report_status st e) = LOC_MUTE_SESS_IN_SESSION \<Longrightarrow> silent e (loc_eng_report_status st e)"
  by (simp add: loc_eng_report_status_def Let_def loc_inform_gps_status_def call_def adds_updates split: if_splits)

lemma silent_session_proc:
  "mute_session_state (session_proc env m e) = LOC_MUTE_SESS_IN_SESSION \<Longrightarrow> silent e (session_proc env m e)"
proof (cases m)
  case LocEngDown
  assume i: "mute_session_state (session_proc env m e) = LOC_MUTE_SESS_IN_SESSION"
  have "silent e (call NiReset e)" by (rule adds_call) simp_all
  moreover have "silent (call NiReset e) (session_proc env m e)"
    using i LocEngDown silent_status [of GPS_STATUS_ENGINE_OFF "call NiReset e"]
    by (simp add: session_proc_def Down_proc_def loc_eng_handle_engine_down_def)
  ultimately show ?thesis by (rule adds_trans)
qed (use silent_frame [OF frame_up, of e env] silent_frame [OF frame_reinit [OF frame_refl], of e]
    silent_frame [OF frame_setUlpProxy [OF frame_refl], of e env]
  in \<open>auto simp: session_proc_def StartFix_proc_def StopFix_proc_def PositionMode_proc_def GetZpp_proc_def DelAidData_proc_def
      Init_proc_def Up_proc_def SetUlpProxy_proc_def adds_updates setPositionMode_def stopFix_def
      loc_eng_stop_handler_def clearGnssSvUsedListData_def loc_eng_get_zpp_handler_def GnssConstellationConfig_proc_def
      loc_eng_handle_engine_up_def Let_def
      intro!: silent_start_handler silent_setInSession silent_aiding adds_call\<close>)

lemma silent_report_proc:
  assumes r: "report_proc env m e = Some e'"
    and i: "mute_session_state e = LOC_MUTE_SESS_IN_SESSION" "mute_session_state e' = LOC_MUTE_SESS_IN_SESSION"
  shows "silent e e'"
proof (cases m)
  case (LocEngReportStatus st)
  have u: "mute_session_state (update_aiding_data_for_deletion x) = mute_session_state x" for x
    by (simp add: update_aiding_data_for_deletion_def call_def)
  from r i LocEngReportStatus show ?thesis
    by (auto simp: report_proc_def ReportStatus_proc_def u intro!: silent_aiding silent_status)
qed (use r i in \<open>auto simp: report_proc_def ReportPosition_proc_def ReportSv_proc_def ReportNmea_proc_def
      ReportXtraServer_proc_def ReportGnssMeasurement_proc_def RequestNi_proc_def RequestXtra_proc_def RequestTime_proc_def
      SetCapabilities_proc_def SetSystemInfo_proc_def loc_eng_mute_one_session_def Let_def
      adds_updates intro!: adds_call\<close>)

lemma silent_eng_proc:
  "eng_proc env m e = Some e' \<Longrightarrow> mute_session_state e = LOC_MUTE_SESS_IN_SESSION \<Longrightarrow>
   mute_session_state e' = LOC_MUTE_SESS_IN_SESSION \<Longrightarrow> silent e e'"
  by (cases m) (auto simp: eng_proc_def intro: silent_session_proc silent_report_proc silent_frame [OF frame_data_proc]
    silent_frame [OF frame_param_proc] silent_frame [OF frame_server_proc])

text \<open>
  C3: A muted session is silent: as long as the engine is in a muted session, no event of any kind
  makes it report a position, a status, satellites or measurements to the client.
\<close>

theorem muted_session_silent:
  assumes "afw_reachable s" "hal_exec env ev s = Some s'"
    and "mute_session_state (eng s) = LOC_MUTE_SESS_IN_SESSION" "mute_session_state (eng s') = LOC_MUTE_SESS_IN_SESSION"
  shows "\<exists>cs. calls (eng s') = calls (eng s) @ cs \<and> list_all unreported cs"
proof -
  have "silent (eng s) (eng s')"
    using assms(2) reachable_wf [OF assms(1)]
  proof (cases rule: hal_exec_cases)
    case framed
    then show ?thesis by (rule silent_frame)
  next
    case (processed m ms)
    from silent_eng_proc [OF processed(3)] assms(3,4) have "silent ((eng s)\<lparr>queue := ms\<rparr>) (eng s')" by simp
    then show ?thesis by (simp add: adds_updates)
  qed
  then show ?thesis by (simp add: adds_def)
qed


section \<open>Aiding data\<close>

definition keeps_aiding :: "eng_call \<Rightarrow> bool" where
  "keeps_aiding c = (case c of Modem (DeleteAidingData _) \<Rightarrow> False | _ \<Rightarrow> True)"

lemma keeps_aiding_others [simp]:
  "keeps_aiding (Client cc)" "keeps_aiding (Ulp uc)" "keeps_aiding NiReset" "keeps_aiding (NiRequestHandler r)"
  "keeps_aiding (Modem (StartFix p))" "keeps_aiding (Modem StopFix)" "keeps_aiding (Modem (SetInSession b))"
  "keeps_aiding (Modem (SetPositionMode p))" "keeps_aiding (Modem GnssConstellationConfig)"
  "keeps_aiding (Modem GetBestAvailableZppFix)" "keeps_aiding (FreeRawData p')"
  "keeps_aiding (NmeaGeneratePos loc ext b' m)" "keeps_aiding (NmeaGenerateSv svs ext)"
  by (simp_all add: keeps_aiding_def)

lemma aiding_frame: "frame e e' \<Longrightarrow> adds keeps_aiding e e'"
  by (rule adds_frame) (auto simp: plain_call_def keeps_aiding_def split: eng_call.splits modem_call.splits)

lemma aiding_setInSession: "adds keeps_aiding e e' \<Longrightarrow> adds keeps_aiding e (setInSession b e')"
  by (simp add: setInSession_def Let_def adds_call adds_updates)

lemma aiding_start_handler: "adds keeps_aiding e e' \<Longrightarrow> adds keeps_aiding e (loc_eng_start_handler env e')"
  by (auto simp: loc_eng_start_handler_def startFix_def adds_call intro!: aiding_setInSession)

lemma aiding_status: "adds keeps_aiding e e' \<Longrightarrow> adds keeps_aiding e (loc_eng_report_status st e')"
  by (simp add: loc_eng_report_status_def Let_def loc_inform_gps_status_def adds_updates adds_call)

text \<open>The deletion happens while the engine is not on, and then nothing is left to delete.\<close>

definition deletes_well :: "loc_eng \<Rightarrow> loc_eng \<Rightarrow> bool" where
  "deletes_well e e' \<longleftrightarrow>
     adds keeps_aiding e e' \<or> engine_status e' \<noteq> GPS_STATUS_ENGINE_ON \<and> aiding_data_for_deletion e' = 0"

lemma deletes_well_update: "adds keeps_aiding e e' \<Longrightarrow> deletes_well e (update_aiding_data_for_deletion e')"
  by (auto simp: deletes_well_def update_aiding_data_for_deletion_def call_def)

lemma aiding_session_proc: "deletes_well e (session_proc env m e)"
proof (cases m)
  case (LocEngDelAidData f)
  have "deletes_well e (update_aiding_data_for_deletion (e\<lparr>aiding_data_for_deletion := f\<rparr>))"
    by (rule deletes_well_update) (simp add: adds_updates)
  then show ?thesis by (simp add: LocEngDelAidData session_proc_def DelAidData_proc_def)
qed (use aiding_frame [OF frame_up, of e env] aiding_frame [OF frame_reinit [OF frame_refl], of e]
    aiding_frame [OF frame_setUlpProxy [OF frame_refl], of e env]
  in \<open>auto simp: deletes_well_def session_proc_def StartFix_proc_def StopFix_proc_def PositionMode_proc_def GetZpp_proc_def
      Init_proc_def Up_proc_def SetUlpProxy_proc_def Down_proc_def adds_updates setPositionMode_def stopFix_def
      loc_eng_stop_handler_def clearGnssSvUsedListData_def loc_eng_get_zpp_handler_def GnssConstellationConfig_proc_def
      loc_eng_handle_engine_up_def loc_eng_handle_engine_down_def Let_def
      intro!: aiding_start_handler aiding_setInSession aiding_status adds_call\<close>)

lemma aiding_ReportPosition: "adds keeps_aiding e (ReportPosition_proc env loc ext st tech e)"
proof -
  obtain rep e1 where 1: "report_fix env loc ext st tech e = (rep, e1)" by fastforce
  have "adds keeps_aiding e e1"
    using 1 by (auto simp: report_fix_def setGnssSvUsedListData_def adds_updates adds_call split: if_splits)
  then show ?thesis
    by (simp add: ReportPosition_proc_def Let_def 1 stopFix_def adds_call aiding_setInSession split: option.splits)
qed

lemma aiding_report_proc: "report_proc env m e = Some e' \<Longrightarrow> deletes_well e e'"
proof (cases m)
  case (LocEngReportStatus st)
  assume "report_proc env m e = Some e'"
  then show ?thesis using deletes_well_update [OF aiding_status [OF adds_refl]] LocEngReportStatus
    by (auto simp: report_proc_def ReportStatus_proc_def)
qed (auto simp: deletes_well_def report_proc_def aiding_ReportPosition ReportSv_proc_def ReportNmea_proc_def
      ReportXtraServer_proc_def ReportGnssMeasurement_proc_def RequestNi_proc_def RequestXtra_proc_def RequestTime_proc_def
      SetCapabilities_proc_def SetSystemInfo_proc_def loc_eng_mute_one_session_def Let_def
      adds_updates adds_call split: option.splits if_splits)

lemma aiding_eng_proc: "eng_proc env m e = Some e' \<Longrightarrow> deletes_well e e'"
  using aiding_session_proc aiding_report_proc aiding_frame [OF frame_server_proc]
  by (cases m) (auto simp: eng_proc_def deletes_well_def
    dest: aiding_frame [OF frame_data_proc] aiding_frame [OF frame_param_proc])


text \<open>
  C5: Aiding data are only deleted while the engine is not on. If any event makes the engine ask the
  modem for a deletion, then the engine's status afterwards is not on and no deletion is left pending.
\<close>

theorem aiding_data_only_when_off:
  "afw_reachable s \<Longrightarrow> hal_exec env ev s = Some s' \<Longrightarrow>
   (\<exists>cs. calls (eng s') = calls (eng s) @ cs \<and> list_all keeps_aiding cs) \<or>
   engine_status (eng s') \<noteq> GPS_STATUS_ENGINE_ON \<and> aiding_data_for_deletion (eng s') = 0"
proof -
  assume r: "afw_reachable s" and x: "hal_exec env ev s = Some s'"
  have "deletes_well (eng s) (eng s')"
    using x reachable_wf [OF r]
  proof (cases rule: hal_exec_cases)
    case framed
    then show ?thesis by (simp add: deletes_well_def aiding_frame)
  next
    case (processed m ms)
    from aiding_eng_proc [OF processed(3)] show ?thesis by (simp add: deletes_well_def adds_updates)
  qed
  then show ?thesis by (simp add: deletes_well_def adds_def)
qed

section \<open>Concrete runs\<close>

definition example_start :: loc_afw where
  "example_start = snd (get_gps_interface plain_env None None GNSS_MSM afw_start)"

lemma example_reachable: "hal_run plain_env evs example_start = Some s \<Longrightarrow> afw_reachable s"
  by (auto simp: example_start_def intro: hal_run_reachable afw_reachable.start)

lemma example_runs:
  "map_option f (hal_run plain_env evs example_start) = Some y \<Longrightarrow>
   \<exists>s. hal_run plain_env evs example_start = Some s \<and> afw_reachable s \<and> f s = y"
  using example_reachable by auto

theorem session_bracketed_witness:
  "\<exists>s. hal_run plain_env [ClientEvent (Init (Some all_callbacks)), ClientEvent Start, ProcMsg, ProcMsg, ProcMsg, ProcMsg]
     example_start = Some s \<and> mNavigating (adapter (eng s)) \<and> session_log False (calls (eng s)) = Some True"
proof -
  have "map_option (\<lambda>s. mNavigating (adapter (eng s))) (hal_run plain_env
     [ClientEvent (Init (Some all_callbacks)), ClientEvent Start, ProcMsg, ProcMsg, ProcMsg, ProcMsg] example_start) = Some True"
    by code_simp
  from example_runs [OF this] obtain s where "hal_run plain_env
     [ClientEvent (Init (Some all_callbacks)), ClientEvent Start, ProcMsg, ProcMsg, ProcMsg, ProcMsg] example_start = Some s"
     "afw_reachable s" "mNavigating (adapter (eng s))" by blast
  with session_bracketed [of s] show ?thesis by auto
qed

definition privacy_request :: ni_request where
  "privacy_request = \<lparr>ni_privacy_override = True, ni_payload = None\<rparr>"

definition mute_events :: "hal_event list" where
  "mute_events =
     [ClientEvent (Init (Some all_callbacks)), ModemEvent (ModemAgpsRequest (Report (LocEngRequestNi privacy_request))),
      ModemEvent (ModemStatus GPS_STATUS_SESSION_BEGIN), ModemEvent (ModemMessage (Report (LocEngReportGnssMeasurement 1))),
      ProcMsg, ProcMsg, ProcMsg, ProcMsg, ProcMsg]"

theorem muted_session_silent_witness:
  "\<exists>s s' cs. hal_run plain_env mute_events example_start = Some s \<and> hal_exec plain_env ProcMsg s = Some s' \<and>
     calls (eng s') = calls (eng s) @ cs \<and> list_all unreported cs"
proof -
  have "map_option (\<lambda>s. (mute_session_state (eng s), map_option (\<lambda>s'. mute_session_state (eng s')) (hal_exec plain_env ProcMsg s)))
     (hal_run plain_env mute_events example_start) = Some (LOC_MUTE_SESS_IN_SESSION, Some LOC_MUTE_SESS_IN_SESSION)"
    by code_simp
  from example_runs [OF this] obtain s s' where "hal_run plain_env mute_events example_start = Some s" "afw_reachable s"
     "hal_exec plain_env ProcMsg s = Some s'" "mute_session_state (eng s) = LOC_MUTE_SESS_IN_SESSION"
     "mute_session_state (eng s') = LOC_MUTE_SESS_IN_SESSION" by auto
  with muted_session_silent [of s plain_env ProcMsg s'] show ?thesis by blast
qed

theorem aiding_data_only_when_off_witness:
  "\<exists>s s'. hal_run plain_env [ClientEvent (Init (Some all_callbacks)), ClientEvent (DelAiding False 3), ProcMsg, ProcMsg, ProcMsg]
     example_start = Some s \<and> hal_exec plain_env ProcMsg s = Some s' \<and>
     last (calls (eng s')) = Modem (DeleteAidingData 3) \<and>
     ((\<exists>cs. calls (eng s') = calls (eng s) @ cs \<and> list_all keeps_aiding cs) \<or>
      engine_status (eng s') \<noteq> GPS_STATUS_ENGINE_ON \<and> aiding_data_for_deletion (eng s') = 0)"
proof -
  let ?evs = "[ClientEvent (Init (Some all_callbacks)), ClientEvent (DelAiding False 3), ProcMsg, ProcMsg, ProcMsg]"
  have "map_option (\<lambda>s. map_option (\<lambda>s'. last (calls (eng s')) = Modem (DeleteAidingData 3)) (hal_exec plain_env ProcMsg s))
     (hal_run plain_env ?evs example_start) = Some (Some True)"
    by code_simp
  from example_runs [OF this] obtain s s' where s: "hal_run plain_env ?evs example_start = Some s" "afw_reachable s"
     "hal_exec plain_env ProcMsg s = Some s'" "last (calls (eng s')) = Modem (DeleteAidingData 3)" by auto
  from s aiding_data_only_when_off [OF s(2,3)] show ?thesis by blast
qed

end
