(* ===== verification/Eng_Reports.thy ===== *)
theory Eng_Reports
  imports Eng_Trace
begin

text \<open>
  What single operations of the engine do: the position report, the satellites marked as used, the
  XTRA servers, the hand-over between ULP proxies, the restart after the modem came back, and runs
  whose outcome is not what the code intends.
\<close>

section \<open>Satellites\<close>

text \<open>
  The bit that is tested is \<open>1 << (svid - 1)\<close> as an \<open>int\<close>. For 1 to 31 it is one bit of the mask; for
  32 it is negative, so it is extended to the upper 33 bits; from 33 on the shift is undefined.
\<close>

definition sv_used_in_fix :: "sv_used \<Rightarrow> gnss_sv \<Rightarrow> bool" where
  "sv_used_in_fix u sv \<longleftrightarrow>
     (let m = used_mask u (constellation sv)
      in if svid sv = 32 then drop_bit 31 m \<noteq> 0 else bit m (nat (svid sv - 1)))"

lemma bit_sv_bit:
  assumes "1 \<le> i" "i \<le> 32"
  shows "\<exists>b. sv_bit i = Some b \<and> (\<forall>m :: 64 word. (and m b \<noteq> 0) = (if i = 32 then drop_bit 31 m \<noteq> 0 else bit m (nat (i - 1))))"
proof (cases "i = 32")
  case True
  have s: "sv_bit 32 = Some 0xFFFFFFFF80000000" by code_simp
  have "(and m (0xFFFFFFFF80000000 :: 64 word) \<noteq> 0) = (drop_bit 31 m \<noteq> 0)" for m
  proof -
    have b: "bit (0xFFFFFFFF80000000 :: 64 word) k \<longleftrightarrow> 31 \<le> k \<and> k < 64" for k
    proof -
      have "(0xFFFFFFFF80000000 :: 64 word) = push_bit 31 (Bit_Operations.mask 33)" by code_simp
      then show ?thesis by (simp only: bit_simps) auto
    qed
    have z: "w \<noteq> 0 \<longleftrightarrow> (\<exists>k. bit w k)" for w :: "64 word"
      by (auto simp: bit_eq_iff dest: bit_imp_le_length) (use bit_imp_le_length in fastforce)
    have "(and m (0xFFFFFFFF80000000 :: 64 word) \<noteq> 0) = (\<exists>k. bit m k \<and> 31 \<le> k \<and> k < 64)"
      by (simp only: z bit_and_iff b)
    also have "... = (\<exists>k. bit m (31 + k))"
      using bit_imp_le_length [of m] by (auto simp: le_iff_add)
    also have "... = (drop_bit 31 m \<noteq> 0)" by (simp only: z bit_drop_bit_eq o_apply)
    finally show ?thesis .
  qed
  then show ?thesis unfolding True s by (intro exI [of _ "0xFFFFFFFF80000000"] conjI refl allI) (simp only: refl if_True)
next
  case False
  then have i: "nat (i - 1) < 31" using assms by simp
  have s: "scast (push_bit (nat (i - 1)) 1 :: 32 word) = (push_bit (nat (i - 1)) 1 :: 64 word)"
  proof (rule bit_word_eqI)
    fix k assume "k < LENGTH(64)"
    then show "bit (scast (push_bit (nat (i - 1)) 1 :: 32 word) :: 64 word) k = bit (push_bit (nat (i - 1)) 1 :: 64 word) k"
      using i by (auto simp: bit_signed_iff bit_exp_iff min_def)
  qed
  have "(and m (push_bit (nat (i - 1)) 1) \<noteq> 0) = bit m (nat (i - 1))" for m :: "64 word"
    using bit_iff_and_push_bit_not_eq_0 [of m "nat (i - 1)"] by simp
  with False assms s show ?thesis by (simp add: sv_bit_def)
qed

definition mark_used :: "sv_used \<Rightarrow> gnss_sv \<Rightarrow> gnss_sv" where
  "mark_used u sv = sv\<lparr>sv_flags :=
     (if sv_used_in_fix u sv then or (sv_flags sv) GNSS_SV_FLAGS_USED_IN_FIX
      else and (sv_flags sv) (not GNSS_SV_FLAGS_USED_IN_FIX))\<rparr>"

lemma mark_sv_used: "mark_sv u sv = (if 1 \<le> svid sv \<and> svid sv \<le> 32 then Some (mark_used u sv) else None)"
proof (cases "1 \<le> svid sv \<and> svid sv \<le> 32")
  case True
  then obtain b where b: "sv_bit (svid sv) = Some b"
    "\<And>m :: 64 word. (and m b \<noteq> 0) = (if svid sv = 32 then drop_bit 31 m \<noteq> 0 else bit m (nat (svid sv - 1)))"
    using bit_sv_bit [of "svid sv"] by blast
  have "(and (used_mask u (constellation sv)) b \<noteq> 0) = sv_used_in_fix u sv"
    by (simp only: b(2) sv_used_in_fix_def Let_def)
  with True b(1) show ?thesis by (simp add: mark_sv_def mark_used_def)
next
  case False
  then have "sv_bit (svid sv) = None" by (auto simp: sv_bit_def)
  then show ?thesis using False by (simp add: mark_sv_def)
qed

text \<open>
  Marking the satellites of a report is defined exactly if all their numbers are from 1 to 32. Then
  the flag \<open>USED_IN_FIX\<close> of each is set if the mask of its constellation has its bit and cleared
  otherwise, except that number 32 is taken as used if any of the numbers 32 to 64 is. Everything else
  about the satellites stays.
\<close>

theorem sv_marked_used:
  "mark_svs u svs = (if list_all (\<lambda>sv. 1 \<le> svid sv \<and> svid sv \<le> 32) svs then Some (map (mark_used u) svs) else None)"
  by (induction svs) (simp_all add: mark_sv_used)

section \<open>XTRA servers\<close>

text \<open>
  The slots of an XTRA server report are the configured servers, or the modem's where none is
  configured, in their order without those that name \<open>xtra1.gpsonextra.net\<close>, each cut to the maximal
  length, followed by empty slots.
\<close>

theorem xtra_servers_filtered:
  "xtra_slots m url1 url2 url3 maxlen =
     (let chosen = map2 (\<lambda>a url. if conf_str a m \<noteq> [] then conf_str a m else url)
            [XTRA_SERVER_1, XTRA_SERVER_2, XTRA_SERVER_3] [url1, url2, url3];
          kept = filter (\<lambda>u. \<not> strcasestr u XTRA1_GPSONEXTRA) chosen
      in map (take maxlen) kept @ replicate (3 - length kept) [])"
proof -
  have slots: "(let b0 = [[], [], []]; n0 = 0;
      (b1, n1) = (if \<not> p u1 then (b0[n0 := take k u1], n0 + 1) else (b0, n0));
      (b2, n2) = (if \<not> p u2 then (b1[n1 := take k u2], n1 + 1) else (b1, n1))
    in if \<not> p u3 then b2[n2 := take k u3] else b2) =
    map (take k) (filter (\<lambda>u. \<not> p u) [u1, u2, u3]) @ replicate (3 - length (filter (\<lambda>u. \<not> p u) [u1, u2, u3])) []"
    for p :: "string \<Rightarrow> bool" and u1 u2 u3 k
    by (cases "p u1"; cases "p u2"; cases "p u3") (simp_all add: eval_nat_numeral)
  show ?thesis
    unfolding xtra_slots_def Let_def [of "if _ then conf_str _ _ else _"] slots by (simp add: Let_def eval_nat_numeral)
qed

section \<open>The ULP proxy\<close>

text \<open>
  When an external ULP proxy takes over it is told what the old one knew: the position mode, if one
  was set, and then the start, if a fix was on. Nothing else is called, and setting the proxy that is
  there already does nothing.
\<close>

theorem ulp_proxy_handover:
  assumes "ulp_ext u"
  shows "setUlpProxy env (Some u) e =
     (let old = mUlp (adapter e)
      in if ulp_id u = ulp_id old then e
         else fold call
           ((if mode (mPosMode old) = LOC_POSITION_MODE_INVALID then [] else [Ulp (UlpFixMode (ulp_id u) (mPosMode old))]) @
            (if mFixSet old then [Ulp (UlpStartFix (ulp_id u))] else []))
           (upd_adapter (\<lambda>a. a\<lparr>mUlp := u\<rparr>) e))"
  using assms
  by (simp add: setUlpProxy_def Let_def upd_ulp_def upd_adapter_def sendFixMode_def sendStartFix_def call_def)

text \<open>
  A message that sets the SUPL mode is processed after the ULP proxy has been exchanged: its
  \<open>proc\<close> calls the proxy that the message was made with, which is deleted unless the new proxy is the
  same.
\<close>

theorem supl_mode_after_proxy_change:
  "(param_proc (LocEngSuplMode (ulp_id (mUlp (adapter e)))) (setUlpProxy env (Some u) e) = None) =
     (ulp_id u \<noteq> ulp_id (mUlp (adapter e)))"
proof -
  have "ulp_id (mUlp (adapter (setUlpProxy env (Some u) e))) = ulp_id u"
    by (simp add: setUlpProxy_def Let_def upd_ulp_def upd_adapter_def sendFixMode_def sendStartFix_def call_def)
  then show ?thesis by (simp add: param_proc_def SuplMode_proc_def)
qed

definition external_proxy :: ulp_proxy where
  "external_proxy = (UlpProxyBase 7)\<lparr>ulp_ext := True\<rparr>"

theorem ulp_proxy_handover_witness:
  "calls (setUlpProxy plain_env (Some external_proxy)
     (upd_ulp (\<lambda>u. u\<lparr>mFixSet := True, mPosMode := zero_pos_mode\<rparr>) eng_zero)) =
   [Ulp (UlpFixMode 7 zero_pos_mode), Ulp (UlpStartFix 7)]"
proof -
  have "ulp_ext external_proxy" by (simp add: external_proxy_def UlpProxyBase_def)
  from ulp_proxy_handover [OF this, of plain_env "upd_ulp (\<lambda>u. u\<lparr>mFixSet := True, mPosMode := zero_pos_mode\<rparr>) eng_zero"]
  show ?thesis
    by (simp add: external_proxy_def UlpProxyBase_def upd_ulp_def upd_adapter_def eng_zero_def new_adapter_def call_def
      zero_pos_mode_def LOC_POSITION_MODE_INVALID_def)
qed

section \<open>Position reports\<close>

text \<open>
  What the client gets of a position report: nothing, NULL, or the position. A position counts when it is final and
  comes from satellites, sensors or a hybrid of them (bits 0, 3 and 7 of the technology), or when the client wants
  intermediate positions and it is accurate enough: it says nothing about its accuracy (bit 4 of its flags), there is
  no threshold, or it is not over it.
\<close>

definition fix_given ::
  "eng_env \<Rightarrow> ulp_location \<Rightarrow> loc_sess_status \<Rightarrow> 32 word \<Rightarrow> loc_eng \<Rightarrow> ulp_location option option" where
  "fix_given env loc status tech e =
     (if mute_session_state e = LOC_MUTE_SESS_IN_SESSION \<or> \<not> location_cb (cbs e) then None
      else if status = LOC_SESS_FAILURE then Some None
      else if status = LOC_SESS_SUCCESS \<and> (bit tech 0 \<or> bit tech 3 \<or> bit tech 7) then Some (Some loc)
      else if intermediateFix e = 1 \<and>
        (\<not> bit (loc_flags loc) 4 \<or> gps_conf e ACCURACY_THRES = 0 \<or> \<not> over_thres env (accuracy loc) (gps_conf e ACCURACY_THRES))
      then Some (Some loc) else None)"

lemma mask_or_zero: "and (or a b) (t :: 32 word) = 0 \<longleftrightarrow> and a t = 0 \<and> and b t = 0"
  by (simp add: bit.conj_disj_distrib2 or_eq_0_iff)

lemma accepts_fix_bits:
  "accepts_fix env loc status tech e \<longleftrightarrow>
     status = LOC_SESS_SUCCESS \<and> (bit tech 0 \<or> bit tech 3 \<or> bit tech 7) \<or>
     intermediateFix e = 1 \<and>
       (\<not> bit (loc_flags loc) 4 \<or> gps_conf e ACCURACY_THRES = 0 \<or> \<not> over_thres env (accuracy loc) (gps_conf e ACCURACY_THRES))"
proof -
  have b: "and (2 ^ n) t = 0 \<longleftrightarrow> \<not> bit t n" for n and t :: "'a::len word"
    by (simp add: and_exp_eq_0_iff_not_bit and.commute [of "2 ^ n"])
  have "and 1 tech = 0 \<longleftrightarrow> \<not> bit tech 0" "and 8 tech = 0 \<longleftrightarrow> \<not> bit tech 3" "and 0x80 tech = 0 \<longleftrightarrow> \<not> bit tech 7"
    using b [of 0 tech] b [of 3 tech] b [of 7 tech] by simp_all
  then have "and (or (or LOC_POS_TECH_MASK_SATELLITE LOC_POS_TECH_MASK_SENSORS) LOC_POS_TECH_MASK_HYBRID) tech \<noteq> 0 \<longleftrightarrow>
      bit tech 0 \<or> bit tech 3 \<or> bit tech 7"
    by (simp only: mask_or_zero LOC_POS_TECH_MASK_SATELLITE_def LOC_POS_TECH_MASK_SENSORS_def LOC_POS_TECH_MASK_HYBRID_def) blast
  moreover have "and (loc_flags loc) GPS_LOCATION_HAS_ACCURACY \<noteq> 0 \<longleftrightarrow> bit (loc_flags loc) 4"
    using b [of 4 "loc_flags loc"] by (simp add: GPS_LOCATION_HAS_ACCURACY_def and.commute)
  ultimately show ?thesis by (simp only: accepts_fix_def) blast
qed

lemma fix_given_accepts:
  "fix_given env loc status tech e =
     (if mute_session_state e = LOC_MUTE_SESS_IN_SESSION \<or> \<not> location_cb (cbs e) then None
      else if status = LOC_SESS_FAILURE then Some None
      else if accepts_fix env loc status tech e then Some (Some loc) else None)"
  by (auto simp: fix_given_def accepts_fix_bits)

definition location_call :: "eng_call \<Rightarrow> bool" where
  "location_call c = (case c of Client (CbLocation _) \<Rightarrow> True | _ \<Rightarrow> False)"

lemma calls_parts [simp]:
  "calls (call c e) = calls e @ [c]" "calls (upd_adapter f e) = calls e" "calls (setGnssSvUsedListData u e) = calls e"
  "calls (stopFix e) = calls e @ [Modem StopFix]" "calls (setInSession b e) = calls e @ [Modem (SetInSession b)]"
  by (simp_all add: call_def upd_adapter_def setGnssSvUsedListData_def stopFix_def setInSession_def Let_def)

lemma nav_parts [simp]:
  "mNavigating (adapter (call c e)) = mNavigating (adapter e)" "mNavigating (adapter (setGnssSvUsedListData u e)) = mNavigating (adapter e)"
  "mNavigating (adapter (stopFix e)) = mNavigating (adapter e)" "mNavigating (adapter (setInSession b e)) = b"
  by (simp_all add: call_def upd_adapter_def setGnssSvUsedListData_def stopFix_def setInSession_def Let_def)

lemma criteria_parts [simp]:
  "mFixCriteria (adapter (call c e)) = mFixCriteria (adapter e)"
  "mFixCriteria (adapter (setGnssSvUsedListData u e)) = mFixCriteria (adapter e)"
  by (simp_all add: call_def upd_adapter_def setGnssSvUsedListData_def)

text \<open>
  C4: A position report tells the client exactly what the conditions on the session's muting, its status, the
  technology and the accuracy give. A reported fix of a single-shot session ends it, and the modem is
  only told to stop if the fix was an intermediate one. Any other report leaves the session as it is.
\<close>

theorem position_report_exact:
  "let e' = ReportPosition_proc env loc ext status tech e;
       new = drop (length (calls e)) (calls e');
       given = fix_given env loc status tech e;
       ends = (given \<noteq> None \<and> recurrence (mFixCriteria (adapter e)) = GPS_POSITION_RECURRENCE_SINGLE)
   in filter location_call new = (case given of None \<Rightarrow> [] | Some l \<Rightarrow> [Client (CbLocation l)]) \<and>
      (Modem StopFix \<in> set new) = (ends \<and> status = LOC_SESS_INTERMEDIATE) \<and>
      mNavigating (adapter e') = (mNavigating (adapter e) \<and> \<not> ends)"
proof (cases "mute_session_state e = LOC_MUTE_SESS_IN_SESSION")
  case True
  then show ?thesis by (simp add: ReportPosition_proc_def fix_given_accepts)
next
  case False
  obtain rep e1 where 1: "report_fix env loc ext status tech e = (rep, e1)" by fastforce
  obtain g where g: "fix_given env loc status tech e = g" by blast
  have rep: "rep = (g \<noteq> None)"
    and c: "calls e1 = calls e @ (case g of None \<Rightarrow> [] | Some l \<Rightarrow> [Client (CbLocation l)])"
    and n: "mNavigating (adapter e1) = mNavigating (adapter e)" "mFixCriteria (adapter e1) = mFixCriteria (adapter e)"
    using 1 False g by (auto simp: report_fix_def fix_given_accepts split: if_splits)
  have l: "location_call (Client (CbLocation x))" "\<not> location_call (Modem mc)" "\<not> location_call (NmeaGeneratePos p q b m)"
    "\<not> location_call (FreeRawData d)" for x mc p q b m d
    by (simp_all add: location_call_def)
  show ?thesis
    unfolding Let_def g using False
    by (cases g; cases "rawData loc") (simp_all add: ReportPosition_proc_def Let_def 1 rep c n l)
qed


section \<open>The modem comes back\<close>

lemma adapter_up:
  "adapter (let e1 = requestPowerVote (loc_eng_reinit e)
     in if agps_status_cb e1 then loc_eng_agps_reinit env (drop_nif InternetNif (drop_nif AgnssNif e1)) else e1) = adapter e"
proof -
  have 1: "adapter (send_msg m x) = adapter x" "adapter (send_if b m x) = adapter x" "adapter (call c x) = adapter x"
    "adapter (drop_nif n x) = adapter x" for m x b c n
    by (cases n; simp add: send_msg_def send_if_def call_def drop_nif_def set_nif_def)+
  have 2: "adapter (snd (loc_eng_set_server env ty h p x)) = adapter x" for ty h p x
    by (simp add: loc_eng_set_server_def Let_def 1 split: option.splits)
  have 3: "adapter (loc_eng_agps_reinit env x) = adapter x" for x
    by (simp add: loc_eng_agps_reinit_def Let_def 2 split: option.splits prod.splits)
  show ?thesis
    by (simp add: Let_def 1 3 requestPowerVote_def loc_eng_reinit_def loc_eng_xtra_version_check_def)
qed

definition session_kept :: "eng_env \<Rightarrow> bool" where
  "session_kept env \<longleftrightarrow> start_ret env \<in> {0, 7, 10}"

text \<open>
  C18: When the modem comes back during a session, the engine first takes note that the session is over,
  then starts it again, and is in a session again unless the modem refuses. The start does not carry the mode
  the client has set: it was cleared with the session.
\<close>

theorem modem_up_restarts_session:
  assumes "mNavigating (adapter e)"
  shows "\<exists>cs. calls (loc_eng_handle_engine_up env e) = calls e @ cs @
       [Modem (SetInSession False), Modem (StartFix ((mFixCriteria (adapter e))\<lparr>mode := LOC_POSITION_MODE_INVALID\<rparr>))] @
       (if session_kept env then [Modem (SetInSession True)] else []) \<and>
     list_all plain_call cs \<and> mNavigating (adapter (loc_eng_handle_engine_up env e)) = session_kept env"
proof -
  define e2 where "e2 = (let e1 = requestPowerVote (loc_eng_reinit e)
     in if agps_status_cb e1 then loc_eng_agps_reinit env (drop_nif InternetNif (drop_nif AgnssNif e1)) else e1)"
  obtain cs where cs: "calls e2 = calls e @ cs" "list_all plain_call cs"
    using frame_up [of e env] by (auto simp: frame_def e2_def)
  have a: "adapter e2 = adapter e" unfolding e2_def by (rule adapter_up)
  have up: "loc_eng_handle_engine_up env e = loc_eng_start_handler env (setInSession False e2)"
    using assms a by (simp add: loc_eng_handle_engine_up_def e2_def Let_def split: if_splits)
  have k: "session_kept env = (start_ret env = LOC_API_ADAPTER_ERR_SUCCESS \<or> start_ret env = LOC_API_ADAPTER_ERR_ENGINE_DOWN \<or>
     start_ret env = LOC_API_ADAPTER_ERR_PHONE_OFFLINE \<or> start_ret env = LOC_API_ADAPTER_ERR_INTERNAL)"
    by (auto simp: session_kept_def LOC_API_ADAPTER_ERR_SUCCESS_def LOC_API_ADAPTER_ERR_ENGINE_DOWN_def
      LOC_API_ADAPTER_ERR_PHONE_OFFLINE_def LOC_API_ADAPTER_ERR_INTERNAL_def)
  have crit: "mFixCriteria (adapter (setInSession False e2)) = (mFixCriteria (adapter e))\<lparr>mode := LOC_POSITION_MODE_INVALID\<rparr>"
    by (simp add: setInSession_def Let_def upd_adapter_def call_def a)
  show ?thesis
    using cs by (simp add: up loc_eng_start_handler_def startFix_def k [symmetric] crit)
qed

theorem modem_up_restarts_session_witness:
  "\<exists>cs. calls (loc_eng_handle_engine_up plain_env (upd_adapter (\<lambda>a. a\<lparr>mNavigating := True, mFixCriteria := zero_pos_mode\<rparr>) eng_zero)) =
     cs @ [Modem (SetInSession False), Modem (StartFix (zero_pos_mode\<lparr>mode := LOC_POSITION_MODE_INVALID\<rparr>)), Modem (SetInSession True)]"
proof -
  let ?e = "upd_adapter (\<lambda>a. a\<lparr>mNavigating := True, mFixCriteria := zero_pos_mode\<rparr>) eng_zero"
  have n: "mNavigating (adapter ?e)" "calls ?e = []" "mFixCriteria (adapter ?e) = zero_pos_mode"
    by (simp_all add: upd_adapter_def eng_zero_def)
  have k: "session_kept plain_env" by (simp add: session_kept_def plain_env_def)
  from modem_up_restarts_session [OF n(1), of plain_env] k n(2,3) show ?thesis by auto
qed

section \<open>Runs\<close>

definition server_message :: "eng_msg \<Rightarrow> bool" where
  "server_message m =
     (case m of Server (LocEngSetServerUrl _) \<Rightarrow> True | Server (LocEngSetServerIpv4 _ _ _) \<Rightarrow> True | _ \<Rightarrow> False)"

text \<open>
  A server that the client sets before the initialisation is lost: the initialisation clears the
  buffers it was kept in, and no message for the modem was made.
\<close>

theorem server_before_init_lost:
  assumes "afw_reachable s" "\<not> adapter_set (eng s)"
    and "hal_run env [DataEvent (AgpsSetServer ty h p), ClientEvent (Init (Some c))] s = Some s'"
  shows "supl_host (eng s') = None \<and> c2k_host (eng s') = None \<and> filter server_message (queue (eng s')) = []"
proof -
  from reachable_wf [OF assms(1)] assms(2) have q: "queue (eng s) = []" by (auto simp: eng_wf_def quiet_def)
  obtain s1 where 1: "data_exec env (AgpsSetServer ty h p) s = Some s1"
    and 2: "client_exec env (Init (Some c)) s1 = Some s'"
    using assms(3) by (auto simp: hal_exec_def split: option.splits)
  have s1: "\<not> adapter_set (eng s1)" "queue (eng s1) = []"
    using 1 assms(2) q
    by (auto simp: data_exec_def loc_agps_set_server_def loc_eng_set_server_proxy_def Let_def split: if_splits)
  from 2 s1 show ?thesis
    by (auto simp: client_exec_def loc_init_def loc_eng_init_def loc_init_events Let_def clear_eng_def eng_zero_def
      send_msg_def upd_adapter_def call_def setGpsLockMsg_def setPowerVote_def setPowerVoteRight_def requestPowerVote_def
      server_message_def split: if_splits)
qed

theorem server_before_init_lost_witness:
  "\<exists>s'. hal_run plain_env [DataEvent (AgpsSetServer 1 ''supl.example'' 7275), ClientEvent (Init (Some all_callbacks))]
       example_start = Some s' \<and>
     supl_host (eng s') = None \<and> filter server_message (queue (eng s')) = []"
proof -
  let ?evs = "[DataEvent (AgpsSetServer 1 ''supl.example'' 7275), ClientEvent (Init (Some all_callbacks))]"
  have "map_option (\<lambda>_. ()) (hal_run plain_env ?evs example_start) = Some ()" by code_simp
  from example_runs [OF this] obtain s' where s': "hal_run plain_env ?evs example_start = Some s'" by blast
  have "\<not> adapter_set (eng example_start)" by code_simp
  with server_before_init_lost [OF _ _ s'] example_reachable [of "[]"] s' show ?thesis by auto
qed

text \<open>
  The cleanup does not wait for the messages that are queued. If the client has started a session
  and cleans up before the start is processed, the session starts afterwards and nothing in the queue
  will stop it, although the client no longer gets its positions.
\<close>

theorem cleanup_leaves_session:
  assumes "adapter_set (eng s)" "\<not> mNavigating (adapter (eng s))"
    and "queue (eng s) = Session LocEngStartFix # ms" "Session LocEngStopFix \<notin> set ms" "session_kept env"
  shows "\<exists>s'. hal_run env [ClientEvent Cleanup, ProcMsg] s = Some s' \<and> mNavigating (adapter (eng s')) \<and>
     Session LocEngStopFix \<notin> set (queue (eng s')) \<and> local_loc_cb (Some l) s' = None"
proof -
  let ?e = "setGpsLockMsg (gps_conf (setPowerVote False (eng s)) GPS_LOCK) (setPowerVote False (eng s))"
  have e: "\<not> mNavigating (adapter ?e)" "adapter_set ?e"
    "queue ?e = Session LocEngStartFix # ms @ [Server (LocEngAdapterGpsLock (gps_conf (setPowerVote False (eng s)) GPS_LOCK))]"
    using assms by (simp_all add: setGpsLockMsg_def setPowerVote_def requestPowerVote_def send_msg_def call_def upd_adapter_def)
  have c: "hal_exec env (ClientEvent Cleanup) s = Some (s\<lparr>eng := ?e, gps_loc_cb := False, gps_sv_cb := False\<rparr>)"
    using assms(1) e by (simp add: hal_exec_def client_exec_def loc_cleanup_def Let_def loc_eng_cleanup_def)
  have k: "start_ret env = LOC_API_ADAPTER_ERR_SUCCESS \<or> start_ret env = LOC_API_ADAPTER_ERR_ENGINE_DOWN \<or>
     start_ret env = LOC_API_ADAPTER_ERR_PHONE_OFFLINE \<or> start_ret env = LOC_API_ADAPTER_ERR_INTERNAL"
    using assms(5) by (auto simp: session_kept_def LOC_API_ADAPTER_ERR_SUCCESS_def LOC_API_ADAPTER_ERR_ENGINE_DOWN_def
      LOC_API_ADAPTER_ERR_PHONE_OFFLINE_def LOC_API_ADAPTER_ERR_INTERNAL_def)
  have q: "queue (setInSession b x) = queue x" "queue (call y x) = queue x" for b x y
    by (simp_all add: setInSession_def upd_adapter_def call_def Let_def)
  let ?s = "s\<lparr>eng := ?e, gps_loc_cb := False, gps_sv_cb := False\<rparr>"
  let ?e' = "?e\<lparr>queue := ms @ [Server (LocEngAdapterGpsLock (gps_conf (setPowerVote False (eng s)) GPS_LOCK))]\<rparr>"
  have "hal_exec env ProcMsg ?s =
      Some (?s\<lparr>eng := setInSession True (call (Modem (StartFix (mFixCriteria (adapter ?e)))) ?e')\<rparr>)"
    using e k by (simp add: hal_exec_def proc_msg_def eng_proc_def session_proc_def StartFix_proc_def
      loc_eng_start_handler_def startFix_def)
  then show ?thesis using assms(4) by (simp add: c q local_loc_cb_def)
qed

theorem cleanup_leaves_session_witness:
  "\<exists>s s'. hal_run plain_env [ClientEvent (Init (Some all_callbacks)), ClientEvent Start, ProcMsg, ProcMsg, ProcMsg]
       example_start = Some s \<and>
     hal_run plain_env [ClientEvent Cleanup, ProcMsg] s = Some s' \<and>
     mNavigating (adapter (eng s')) \<and> Session LocEngStopFix \<notin> set (queue (eng s'))"
proof -
  let ?evs = "[ClientEvent (Init (Some all_callbacks)), ClientEvent Start, ProcMsg, ProcMsg, ProcMsg]"
  have "map_option (\<lambda>s. (adapter_set (eng s), mNavigating (adapter (eng s)), take 1 (queue (eng s)) = [Session LocEngStartFix],
       list_all (\<lambda>m. m \<noteq> Session LocEngStopFix) (tl (queue (eng s))))) (hal_run plain_env ?evs example_start) =
     Some (True, False, True, True)" by code_simp
  from example_runs [OF this] obtain s where s: "hal_run plain_env ?evs example_start = Some s"
     "adapter_set (eng s)" "\<not> mNavigating (adapter (eng s))" "take 1 (queue (eng s)) = [Session LocEngStartFix]"
     "Session LocEngStopFix \<notin> set (tl (queue (eng s)))" by (auto simp: list_all_iff)
  have q: "queue (eng s) = Session LocEngStartFix # tl (queue (eng s))"
    using s(4) by (cases "queue (eng s)") simp_all
  have k: "session_kept plain_env" by (simp add: session_kept_def plain_env_def)
  from cleanup_leaves_session [OF s(2,3) q s(5) k] s(1) show ?thesis by blast
qed

text \<open>
  If the SUPL machine was not created, because the target serves AGPS itself, the capabilities
  exclude it, or its creation is still queued, the client's report that a data connection is closed or
  could not be opened makes the message task follow a NULL pointer.
\<close>

theorem agps_report_crashes:
  assumes "adapter_set (eng s)" "agps_status_cb (eng s)" "agnss_nif (eng s) = None" "queue (eng s) = []"
    and "ev \<in> {AgpsClosed, AgpsFailed, AgpsOpen (Some apn) ty}"
  shows "hal_run env [DataEvent ev, ProcMsg] s = None"
  using assms
  by (auto simp: hal_exec_def data_exec_def loc_agps_closed_def loc_agps_open_failed_def loc_agps_open_with_apniptype_def
    upd_eng_def loc_eng_agps_closed_def loc_eng_agps_open_failed_def loc_eng_agps_open_def send_msg_def proc_msg_def
    eng_proc_def data_proc_def AtlClosed_proc_def AtlOpenFailed_proc_def AtlOpenSuccess_proc_def getAgpsStateMachine_def
    run_nif_def nif_of_def AGPS_TYPE_SUPL_def)

theorem agps_report_crashes_witness:
  "\<exists>s. hal_run (plain_env\<lparr>lbs_agps := True\<rparr>)
       (ClientEvent (Init (Some all_callbacks)) # DataEvent (AgpsInit (Some True)) # replicate 17 ProcMsg) example_start = Some s \<and>
     hal_run (plain_env\<lparr>lbs_agps := True\<rparr>) [DataEvent AgpsClosed, ProcMsg] s = None"
proof -
  let ?evs = "ClientEvent (Init (Some all_callbacks)) # DataEvent (AgpsInit (Some True)) # replicate 17 ProcMsg"
  have "map_option (\<lambda>s. (adapter_set (eng s), agps_status_cb (eng s), agnss_nif (eng s) = None, queue (eng s) = []))
     (hal_run (plain_env\<lparr>lbs_agps := True\<rparr>) ?evs example_start) = Some (True, True, True, True)" by code_simp
  then obtain s where s: "hal_run (plain_env\<lparr>lbs_agps := True\<rparr>) ?evs example_start = Some s"
     "adapter_set (eng s)" "agps_status_cb (eng s)" "agnss_nif (eng s) = None" "queue (eng s) = []" by auto
  with agps_report_crashes [of s AgpsClosed "[]" APN_IP_IPV4] show ?thesis by auto
qed

end
