(* ===== verification/C_Num.thy ===== *)
theory C_Num
  imports Loc_Prelude "HOL-Library.Char_ord"
begin

text \<open>
  What the code uses of the floating point arithmetic and of \<open>printf\<close> of C.

  \<^item> A value is not a number, infinite, or a sign with an integer times a power of 2, decoded from the bits
    of IEEE 754. Sums and products are computed exactly and rounded once, to the nearest, ties to even.
  \<^item> A conversion to an integer type that cannot hold the value is None.
  \<^item> The conversions of \<open>printf\<close> that occur: \<open>%d\<close> with a width and zeros, \<open>%f\<close> with a number of decimals,
    correctly rounded, \<open>%02X\<close>. Strings are lists of characters other than NUL.
\<close>

section \<open>Floating point values\<close>

datatype fp = NaN | Inf bool | Fin bool int int

definition decode_fp :: "nat \<Rightarrow> nat \<Rightarrow> int \<Rightarrow> fp" where
  "decode_fp eb fb n =
     (let s = n div 2 ^ (eb + fb) mod 2 = 1;
          e = n div 2 ^ fb mod 2 ^ eb;
          f = n mod 2 ^ fb;
          bias = 2 ^ (eb - 1) - 1 + int fb
      in if e = 2 ^ eb - 1 then (if f = 0 then Inf s else NaN)
         else if e = 0 then Fin s f (1 - bias)
         else Fin s (f + 2 ^ fb) (e - bias))"

definition float_of :: "32 word \<Rightarrow> fp" where
  "float_of w = decode_fp 8 23 (uint w)"

definition double_of :: "64 word \<Rightarrow> fp" where
  "double_of w = decode_fp 11 52 (uint w)"

function bits_of :: "int \<Rightarrow> nat" where
  "bits_of n = (if n \<le> 0 then 0 else Suc (bits_of (n div 2)))"
  by auto
termination by (relation "measure nat") auto

declare bits_of.simps [simp del]

text \<open>The quotient rounded to the nearest integer, ties to even.\<close>

definition div_rne :: "int \<Rightarrow> int \<Rightarrow> int" where
  "div_rne a b =
     (let q = a div b; r = a mod b
      in if 2 * r < b \<or> (2 * r = b \<and> q mod 2 = 0) then q else q + 1)"

text \<open>A format has a precision, the exponent of its smallest number and the exponent of its first
  number that is too large.\<close>

definition round_fp :: "nat \<Rightarrow> int \<Rightarrow> int \<Rightarrow> bool \<Rightarrow> int \<Rightarrow> int \<Rightarrow> fp" where
  "round_fp p emin emax s m e =
     (let q = max (e + int (bits_of m) - int p) emin;
          m' = (if q \<le> e then m else div_rne m (2 ^ nat (q - e)));
          e' = (if q \<le> e then e else q)
      in if m' \<noteq> 0 \<and> emax < e' + int (bits_of m') then Inf s else Fin s m' e')"

definition to_double :: "bool \<Rightarrow> int \<Rightarrow> int \<Rightarrow> fp" where
  "to_double = round_fp 53 (- 1074) 1024"

definition to_float :: "fp \<Rightarrow> fp" where
  "to_float x = (case x of Fin s m e \<Rightarrow> round_fp 24 (- 149) 128 s m e | y \<Rightarrow> y)"

definition signed_at :: "int \<Rightarrow> bool \<Rightarrow> int \<Rightarrow> int \<Rightarrow> int" where
  "signed_at q s m e = (if s then - 1 else 1) * m * 2 ^ nat (e - q)"

fun fp_neg :: "fp \<Rightarrow> fp" where
  "fp_neg NaN = NaN"
| "fp_neg (Inf s) = Inf (\<not> s)"
| "fp_neg (Fin s m e) = Fin (\<not> s) m e"

fun fp_mult :: "fp \<Rightarrow> fp \<Rightarrow> fp" where
  "fp_mult NaN _ = NaN"
| "fp_mult _ NaN = NaN"
| "fp_mult (Inf s) (Inf t) = Inf (s \<noteq> t)"
| "fp_mult (Inf s) (Fin t m _) = (if m = 0 then NaN else Inf (s \<noteq> t))"
| "fp_mult (Fin s m _) (Inf t) = (if m = 0 then NaN else Inf (s \<noteq> t))"
| "fp_mult (Fin s m e) (Fin t n f) = to_double (s \<noteq> t) (m * n) (e + f)"

fun fp_add :: "fp \<Rightarrow> fp \<Rightarrow> fp" where
  "fp_add NaN _ = NaN"
| "fp_add _ NaN = NaN"
| "fp_add (Inf s) (Inf t) = (if s = t then Inf s else NaN)"
| "fp_add (Inf s) _ = Inf s"
| "fp_add _ (Inf t) = Inf t"
| "fp_add (Fin s m e) (Fin t n f) =
     (let q = min e f; v = signed_at q s m e + signed_at q t n f
      in if v = 0 then Fin (s \<and> t) 0 0 else to_double (v < 0) \<bar>v\<bar> q)"

fun fp_less :: "fp \<Rightarrow> fp \<Rightarrow> bool" where
  "fp_less NaN _ = False"
| "fp_less _ NaN = False"
| "fp_less (Inf s) (Inf t) \<longleftrightarrow> s \<and> \<not> t"
| "fp_less (Inf s) _ \<longleftrightarrow> s"
| "fp_less _ (Inf t) \<longleftrightarrow> \<not> t"
| "fp_less (Fin s m e) (Fin t n f) \<longleftrightarrow> signed_at (min e f) s m e < signed_at (min e f) t n f"

definition fp_nat :: "int \<Rightarrow> fp" where
  "fp_nat n = Fin False n 0"

text \<open>\<open>fmod(x, n)\<close> for a positive integer; it is exact and has the sign of its first argument.\<close>

fun fp_mod :: "fp \<Rightarrow> int \<Rightarrow> fp" where
  "fp_mod (Fin s m e) n =
     (if 0 \<le> e then Fin s (m * 2 ^ nat e mod n) 0 else Fin s (m mod (n * 2 ^ nat (- e))) e)"
| "fp_mod _ _ = NaN"

fun fp_floor :: "fp \<Rightarrow> int option" where
  "fp_floor (Fin s m e) =
     (let v = (if s then - m else m)
      in Some (if 0 \<le> e then v * 2 ^ nat e else v div 2 ^ nat (- e)))"
| "fp_floor _ = None"

fun fp_trunc :: "fp \<Rightarrow> int option" where
  "fp_trunc (Fin s m e) =
     (let v = (if 0 \<le> e then m * 2 ^ nat e else m div 2 ^ nat (- e)) in Some (if s then - v else v))"
| "fp_trunc _ = None"

definition to_int32 :: "fp \<Rightarrow> int option" where
  "to_int32 x = (case fp_trunc x of None \<Rightarrow> None | Some v \<Rightarrow> if - (2 ^ 31) \<le> v \<and> v < 2 ^ 31 then Some v else None)"

definition floor_uint8 :: "fp \<Rightarrow> int option" where
  "floor_uint8 x = (case fp_floor x of None \<Rightarrow> None | Some v \<Rightarrow> if 0 \<le> v \<and> v < 256 then Some v else None)"

section \<open>Printing\<close>

definition digit_char :: "int \<Rightarrow> char" where
  "digit_char d = char_of (nat (if d < 10 then 48 + d else 55 + d))"

function decimal :: "int \<Rightarrow> string" where
  "decimal n = (if n < 10 then [digit_char n] else decimal (n div 10) @ [digit_char (n mod 10)])"
  by auto
termination by (relation "measure nat") auto

declare decimal.simps [simp del]

definition pad0 :: "nat \<Rightarrow> string \<Rightarrow> string" where
  "pad0 w s = replicate (w - length s) (CHR ''0'') @ s"

text \<open>\<open>%0wd\<close>: the width includes the sign. \<open>%.pd\<close>: the precision does not.\<close>

definition fmt_d :: "nat \<Rightarrow> int \<Rightarrow> string" where
  "fmt_d w i = (if i < 0 then CHR ''-'' # pad0 (w - 1) (decimal (- i)) else pad0 w (decimal i))"

definition fmt_prec_d :: "nat \<Rightarrow> int \<Rightarrow> string" where
  "fmt_prec_d p i = (if i < 0 then CHR ''-'' # pad0 p (decimal (- i)) else pad0 p (decimal i))"

text \<open>The decimals of \<open>%.nf\<close>, \<open>n > 0\<close>: the value times \<open>10 ^ n\<close>, rounded.\<close>

definition scaled :: "nat \<Rightarrow> int \<Rightarrow> int \<Rightarrow> int" where
  "scaled n m e = (if 0 \<le> e then m * 10 ^ n * 2 ^ nat e else div_rne (m * 10 ^ n) (2 ^ nat (- e)))"

definition fixed :: "nat \<Rightarrow> int \<Rightarrow> int \<Rightarrow> string" where
  "fixed n m e = (let d = scaled n m e in decimal (d div 10 ^ n) @ CHR ''.'' # pad0 n (decimal (d mod 10 ^ n)))"

text \<open>\<open>%0w.nf\<close>; the zeros are not used for a value that is not finite.\<close>

fun fmt_f :: "nat \<Rightarrow> nat \<Rightarrow> fp \<Rightarrow> string" where
  "fmt_f w n NaN = replicate (w - 3) (CHR '' '') @ ''nan''"
| "fmt_f w n (Inf s) = (if s then replicate (w - 4) (CHR '' '') @ ''-inf'' else replicate (w - 3) (CHR '' '') @ ''inf'')"
| "fmt_f w n (Fin s m e) = (if s then CHR ''-'' # pad0 (w - 1) (fixed n m e) else pad0 w (fixed n m e))"

definition fmt_02X :: "8 word \<Rightarrow> string" where
  "fmt_02X w = [digit_char (uint w div 16), digit_char (uint w mod 16)]"

lemma length_fmt_02X [simp]: "length (fmt_02X w) = 2"
  by (simp add: fmt_02X_def)

section \<open>Examples\<close>

lemma examples_fp:
  "fmt_f 0 1 (double_of 0x3ff4000000000000) = ''1.2''"
  "fmt_f 9 6 (double_of 0x404dfffffffde725) = ''60.000000''"
  "fmt_f 9 6 (Fin True 0 0) = ''-0.000000''"
  "fmt_d 2 5 = ''05''" "fmt_d 3 (- 5) = ''-05''" "fmt_02X 0x3f = ''3F''"
  "fp_mult (float_of 0x41200000) (double_of 0x400ccccccccccccd) = Fin False 5066549580791808 (- 47)"
  by code_simp+

end
