(* ===== verification/Nmea.thy ===== *)
theory Nmea
  imports Eng_Adapter C_Num
begin

text \<open>
  \<open>loc_eng_nmea.cpp\<close>: the sentences of NMEA 0183 that the engine writes for each report of satellites and
  of a position.

  \<^item> \<open>nmea_data\<close> holds the fields of \<open>loc_eng_data_s_type\<close> that only this file uses, whether \<open>nmea_cb\<close> is
    set, and the log of what was given to it: the characters in the buffer and the length passed with
    them. The time stamp of the callback is left out.
  \<^item> The engine logs its calls of the two functions (\<open>NmeaGeneratePos\<close>, \<open>NmeaGenerateSv\<close>); \<open>nmea_run\<close> runs them.
  \<^item> A function returns None where the behaviour is undefined: a conversion to an integer that does not
    fit, or a shift by more than 31. An early return after a formatting error keeps what was sent.
  \<^item> \<open>time_t\<close> has 64 bits. Only the length makes \<open>snprintf\<close> fail.
  \<^item> Shown: what is sent always has a true check sum or is cut at the end of the buffer; each satellite
    of a constellation is in exactly one of its sentences; the satellites of the fix are those of the last report.
\<close>

definition GPS_LOCATION_HAS_LAT_LONG :: "16 word" where "GPS_LOCATION_HAS_LAT_LONG = 1"
definition GPS_LOCATION_HAS_ALTITUDE :: "16 word" where "GPS_LOCATION_HAS_ALTITUDE = 2"
definition GPS_LOCATION_HAS_SPEED :: "16 word" where "GPS_LOCATION_HAS_SPEED = 4"
definition GPS_LOCATION_HAS_BEARING :: "16 word" where "GPS_LOCATION_HAS_BEARING = 8"
definition GPS_LOCATION_EXTENDED_HAS_DOP :: "16 word" where "GPS_LOCATION_EXTENDED_HAS_DOP = 1"
definition GPS_LOCATION_EXTENDED_HAS_ALTITUDE_MEAN_SEA_LEVEL :: "16 word" where
  "GPS_LOCATION_EXTENDED_HAS_ALTITUDE_MEAN_SEA_LEVEL = 2"
definition GPS_LOCATION_EXTENDED_HAS_MAG_DEV :: "16 word" where "GPS_LOCATION_EXTENDED_HAS_MAG_DEV = 4"
definition NMEA_SENTENCE_MAX_LENGTH :: nat where "NMEA_SENTENCE_MAX_LENGTH = 200"

record nmea_data =
  gps_used_mask :: "32 word"
  glo_used_mask :: "32 word"
  cached_pdop :: "32 word"
  cached_hdop :: "32 word"
  cached_vdop :: "32 word"
  nmea_cb_set :: bool
  sent :: "(string \<times> nat) list"

section \<open>Sentences\<close>

definition loc_eng_nmea_send :: "string \<times> nat \<Rightarrow> nmea_data \<Rightarrow> nmea_data" where
  "loc_eng_nmea_send s d = (if nmea_cb_set d then d\<lparr>sent := sent d @ [s]\<rparr> else d)"

definition checksum :: "string \<Rightarrow> 8 word" where
  "checksum = foldl (\<lambda>w c. xor w (of_char c)) 0"

definition snprintf :: "nat \<Rightarrow> string \<Rightarrow> string" where
  "snprintf room s = take (room - 1) s"

text \<open>
  The buffer and the length; the sentence starts with a character that is skipped. The room is a signed
  difference that becomes a \<open>size_t\<close> when it is passed: a negative one would be no bound at all.
\<close>

definition to_size_t :: "int \<Rightarrow> nat" where
  "to_size_t n = nat (n mod 2 ^ 32)"

definition loc_eng_nmea_put_checksum :: "string \<Rightarrow> nat \<Rightarrow> string \<times> nat" where
  "loc_eng_nmea_put_checksum pNmea maxSize =
     (let body = tl pNmea;
          suffix = ''*'' @ fmt_02X (checksum body) @ [CHR 0x0D, CHR 0x0A]
      in (pNmea @ snprintf (to_size_t (int maxSize - int (length body) - 1)) suffix, length body + length suffix + 1))"

text \<open>
  The parts of a sentence are printed one after the other, each into what is left of the buffer. A part
  is None if computing it is undefined. The final part is printed without looking at the length.
\<close>

datatype buffer = Undefined | Too_Long | Built string

fun print_parts :: "string \<Rightarrow> string option list \<Rightarrow> buffer" where
  "print_parts buf [] = Built buf"
| "print_parts buf (None # ps) = Undefined"
| "print_parts buf (Some s # ps) =
     (if length s < NMEA_SENTENCE_MAX_LENGTH - length buf then print_parts (buf @ s) ps else Too_Long)"

definition print_last :: "string \<Rightarrow> string \<Rightarrow> string" where
  "print_last buf s = buf @ snprintf (NMEA_SENTENCE_MAX_LENGTH - length buf) s"

definition send_sentence :: "string \<Rightarrow> nmea_data \<Rightarrow> nmea_data" where
  "send_sentence s = loc_eng_nmea_send (loc_eng_nmea_put_checksum s NMEA_SENTENCE_MAX_LENGTH)"

definition emit :: "string option list \<Rightarrow> string \<Rightarrow> (nmea_data \<Rightarrow> nmea_data option) \<Rightarrow> nmea_data \<Rightarrow> nmea_data option" where
  "emit ps final continue d =
     (case print_parts [] ps of
        Undefined \<Rightarrow> None
      | Too_Long \<Rightarrow> Some d
      | Built buf \<Rightarrow> continue (send_sentence (print_last buf final) d))"

section \<open>The time\<close>

text \<open>Division of C, and \<open>gmtime\<close>.\<close>

definition tquot :: "int \<Rightarrow> int \<Rightarrow> int" where
  "tquot a b = (if a < 0 then - (- a div b) else a div b)"

definition trem :: "int \<Rightarrow> int \<Rightarrow> int" where
  "trem a b = a - b * tquot a b"

record tm =
  tm_sec :: int
  tm_min :: int
  tm_hour :: int
  tm_mday :: int
  tm_mon :: int
  tm_year :: int

text \<open>The days are counted from the first of March of the year 0 in cycles of 400 years.\<close>

definition year_of_cycle :: "int \<Rightarrow> int" where
  "year_of_cycle doe = (doe - doe div 1460 + doe div 36524 - doe div 146096) div 365"

definition day_of_year :: "int \<Rightarrow> int \<Rightarrow> int" where
  "day_of_year doe yoe = doe - (365 * yoe + yoe div 4 - yoe div 100)"

definition month_of :: "int \<Rightarrow> int" where
  "month_of doy = (5 * doy + 2) div 153"

definition tm_of :: "int \<Rightarrow> int \<Rightarrow> int \<Rightarrow> int \<Rightarrow> int \<Rightarrow> tm" where
  "tm_of s cycle yoe doy mp =
     \<lparr>tm_sec = s mod 60, tm_min = s div 60 mod 60, tm_hour = s div 3600,
      tm_mday = doy - (153 * mp + 2) div 5 + 1, tm_mon = (if mp < 10 then mp + 2 else mp - 10),
      tm_year = yoe + 400 * cycle + (if mp < 10 then 0 else 1) - 1900\<rparr>"

definition date_of_day :: "int \<Rightarrow> int \<Rightarrow> int \<Rightarrow> int \<Rightarrow> tm" where
  "date_of_day s cycle yoe doy = tm_of s cycle yoe doy (month_of doy)"

definition date_of_year :: "int \<Rightarrow> int \<Rightarrow> int \<Rightarrow> int \<Rightarrow> tm" where
  "date_of_year s cycle doe yoe = date_of_day s cycle yoe (day_of_year doe yoe)"

definition date_of_cycle :: "int \<Rightarrow> int \<Rightarrow> int \<Rightarrow> tm" where
  "date_of_cycle s cycle doe = date_of_year s cycle doe (year_of_cycle doe)"

definition date_of_days :: "int \<Rightarrow> int \<Rightarrow> tm" where
  "date_of_days s z = date_of_cycle s (z div 146097) (z mod 146097)"

definition gmtime :: "int \<Rightarrow> tm" where
  "gmtime t = date_of_days (t mod 86400) (t div 86400 + 719468)"

lemma gmtime_examples:
  "gmtime 0 = \<lparr>tm_sec = 0, tm_min = 0, tm_hour = 0, tm_mday = 1, tm_mon = 0, tm_year = 70\<rparr>"
  "gmtime 951868799 = \<lparr>tm_sec = 59, tm_min = 59, tm_hour = 23, tm_mday = 29, tm_mon = 1, tm_year = 100\<rparr>"
  "gmtime (- 1) = \<lparr>tm_sec = 59, tm_min = 59, tm_hour = 23, tm_mday = 31, tm_mon = 11, tm_year = 69\<rparr>"
  by (simp_all add: gmtime_def date_of_days_def date_of_cycle_def date_of_year_def date_of_day_def tm_of_def
      year_of_cycle_def day_of_year_def month_of_def)

section \<open>The report of a position\<close>

definition has :: "16 word \<Rightarrow> 16 word \<Rightarrow> bool" where
  "has fl b = (and fl b \<noteq> 0)"

text \<open>The numbers of the satellites whose bits are set, in ascending order.\<close>

function used_list :: "int \<Rightarrow> 32 word \<Rightarrow> int list" where
  "used_list i m =
     (if m = 0 then []
      else (if and m 1 \<noteq> 0 then [i] else []) @ used_list (i + 1) (drop_bit 1 m))"
  by auto
termination
proof (relation "measure (\<lambda>(i, m). unat m)")
  fix m :: "32 word"
  assume "m \<noteq> 0"
  then have "0 < unat m" by (simp add: unat_gt_0)
  then show "((i + 1, drop_bit 1 m), i, m) \<in> measure (\<lambda>(i, m). unat m)" for i :: int
    by (simp add: drop_bit_eq_div unat_div)
qed simp

declare used_list.simps [simp del]

definition fix_type :: "int list \<Rightarrow> char" where
  "fix_type used = (if length used = 0 then CHR ''1'' else if length used \<le> 3 then CHR ''2'' else CHR ''3'')"

text \<open>\<open>tag\<close> is \<open>$GPGSA,A,\<close> or \<open>$GNGSA,A,\<close>; only the first 12 satellites go into the sentence.\<close>

definition gsa_parts :: "string \<Rightarrow> int list \<Rightarrow> string option list" where
  "gsa_parts tag used =
     Some (tag @ [fix_type used] @ '','') #
     map (\<lambda>i. Some (if i < length used then fmt_d 2 (used ! i) @ '','' else '','')) [0..<12]"

definition dop_cached :: "nmea_data \<Rightarrow> bool" where
  "dop_cached d \<longleftrightarrow> fp_less (fp_nat 0) (float_of (cached_pdop d)) \<and> fp_less (fp_nat 0) (float_of (cached_hdop d)) \<and>
     fp_less (fp_nat 0) (float_of (cached_vdop d))"

definition fmt_1f :: "fp \<Rightarrow> string" where
  "fmt_1f = fmt_f 0 1"

definition dop_part :: "location_extended \<Rightarrow> nmea_data \<Rightarrow> string" where
  "dop_part ext d =
     (if has (ext_flags ext) GPS_LOCATION_EXTENDED_HAS_DOP then
        fmt_1f (float_of (pdop ext)) @ '','' @ fmt_1f (float_of (hdop ext)) @ '','' @ fmt_1f (float_of (vdop ext))
      else if dop_cached d then
        fmt_1f (float_of (cached_pdop d)) @ '','' @ fmt_1f (float_of (cached_hdop d)) @ '','' @ fmt_1f (float_of (cached_vdop d))
      else '',,'')"

text \<open>\<open>3600.0/1852.0\<close> and \<open>3.6\<close> are constants of type \<open>double\<close>; the products become \<open>float\<close>.\<close>

definition speed_knots :: "ulp_location \<Rightarrow> fp" where
  "speed_knots loc = to_float (fp_mult (float_of (speed loc)) (double_of 0x3fff19fcaeb8ac82))"

definition speed_km_per_hour :: "ulp_location \<Rightarrow> fp" where
  "speed_km_per_hour loc = to_float (fp_mult (float_of (speed loc)) (double_of 0x400ccccccccccccd))"

text \<open>
  The magnetic track: the code subtracts the magnetic deviation in a block with a variable \<open>magTrack\<close> of
  its own, which is lost at its end; the outer variable is printed, and that is the bearing.
\<close>

definition vtg_parts :: "ulp_location \<Rightarrow> string option list" where
  "vtg_parts loc =
     [Some (if has (loc_flags loc) GPS_LOCATION_HAS_BEARING
            then (let magTrack = float_of (bearing loc)
                  in ''$GPVTG,'' @ fmt_1f (float_of (bearing loc)) @ '',T,'' @ fmt_1f magTrack @ '',M,'')
            else ''$GPVTG,,T,,M,''),
      Some (if has (loc_flags loc) GPS_LOCATION_HAS_SPEED
            then fmt_1f (speed_knots loc) @ '',N,'' @ fmt_1f (speed_km_per_hour loc) @ '',K,''
            else '',N,,K,'')]"

text \<open>\<open>N\<close>: no fix, \<open>A\<close>: autonomous, \<open>D\<close>: differential.\<close>

definition mode_part :: "ulp_location \<Rightarrow> int \<Rightarrow> string" where
  "mode_part loc pos_mode =
     (if \<not> has (loc_flags loc) GPS_LOCATION_HAS_LAT_LONG then ''N''
      else if pos_mode = LOC_POSITION_MODE_STANDALONE then ''A'' else ''D'')"

definition time_part :: "ulp_location \<Rightarrow> string" where
  "time_part loc =
     (let pTm = gmtime (tquot (timestamp loc) 1000); utcMSeconds = trem (timestamp loc) 1000
      in fmt_d 2 (tm_hour pTm) @ fmt_d 2 (tm_min pTm) @ fmt_d 2 (tm_sec pTm) @ ''.'' @ fmt_d 2 (tquot utcMSeconds 10))"

definition date_part :: "ulp_location \<Rightarrow> string" where
  "date_part loc =
     (let pTm = gmtime (tquot (timestamp loc) 1000)
      in fmt_prec_d 2 (tm_mday pTm) @ fmt_prec_d 2 (tm_mon pTm + 1) @ fmt_prec_d 2 (trem (tm_year pTm) 100) @ '','')"

text \<open>Degrees as \<open>uint8_t\<close>, minutes with six decimals, hemisphere.\<close>

definition minutes :: "fp \<Rightarrow> fp" where
  "minutes x = fp_mod (fp_mult x (fp_nat 60)) 60"

definition lat_long_part :: "ulp_location \<Rightarrow> string option" where
  "lat_long_part loc =
     (if has (loc_flags loc) GPS_LOCATION_HAS_LAT_LONG then
        (let lat0 = double_of (latitude loc); lon0 = double_of (longitude loc);
             north = fp_less (fp_nat 0) lat0; west = fp_less lon0 (fp_nat 0);
             lat = (if north then lat0 else fp_neg lat0); lon = (if west then fp_neg lon0 else lon0)
         in case (floor_uint8 lat, floor_uint8 lon) of
              (Some dlat, Some dlon) \<Rightarrow>
                Some (fmt_d 2 dlat @ fmt_f 9 6 (minutes lat) @ '','' @ (if north then ''N'' else ''S'') @ '','' @
                      fmt_d 3 dlon @ fmt_f 9 6 (minutes lon) @ '','' @ (if west then ''W'' else ''E'') @ '','')
            | _ \<Rightarrow> None)
      else Some '',,,,'')"

definition rmc_parts :: "ulp_location \<Rightarrow> location_extended \<Rightarrow> string option list" where
  "rmc_parts loc ext =
     [Some (''$GPRMC,'' @ time_part loc @ '',A,''),
      lat_long_part loc,
      Some (if has (loc_flags loc) GPS_LOCATION_HAS_SPEED then fmt_1f (speed_knots loc) @ '','' else '',''),
      Some (if has (loc_flags loc) GPS_LOCATION_HAS_BEARING then fmt_1f (float_of (bearing loc)) @ '','' else '',''),
      Some (date_part loc),
      Some (if has (ext_flags ext) GPS_LOCATION_EXTENDED_HAS_MAG_DEV
            then (let variation = float_of (magneticDeviation ext)
                  in if fp_less variation (fp_nat 0) then fmt_1f (fp_neg variation) @ '',W,'' else fmt_1f variation @ '',E,'')
            else '',,'')]"

definition gps_quality :: "ulp_location \<Rightarrow> int \<Rightarrow> string" where
  "gps_quality loc pos_mode =
     (if \<not> has (loc_flags loc) GPS_LOCATION_HAS_LAT_LONG then ''0''
      else if pos_mode = LOC_POSITION_MODE_STANDALONE then ''1'' else ''2'')"

definition gga_parts :: "ulp_location \<Rightarrow> location_extended \<Rightarrow> int \<Rightarrow> int list \<Rightarrow> nmea_data \<Rightarrow> string option list" where
  "gga_parts loc ext pos_mode used d =
     [Some (''$GPGGA,'' @ time_part loc @ '',''),
      lat_long_part loc,
      Some (gps_quality loc pos_mode @ '','' @ fmt_d 2 (int (length used)) @ '','' @
            (if has (ext_flags ext) GPS_LOCATION_EXTENDED_HAS_DOP then fmt_1f (float_of (hdop ext))
             else if dop_cached d then fmt_1f (float_of (cached_hdop d)) else []) @ '',''),
      Some (if has (ext_flags ext) GPS_LOCATION_EXTENDED_HAS_ALTITUDE_MEAN_SEA_LEVEL
            then fmt_1f (float_of (altitudeMeanSeaLevel ext)) @ '',M,'' else '',,'')]"

definition geoid_part :: "ulp_location \<Rightarrow> location_extended \<Rightarrow> string" where
  "geoid_part loc ext =
     (if has (loc_flags loc) GPS_LOCATION_HAS_ALTITUDE \<and> has (ext_flags ext) GPS_LOCATION_EXTENDED_HAS_ALTITUDE_MEAN_SEA_LEVEL
      then fmt_1f (fp_add (double_of (altitude loc)) (fp_neg (float_of (altitudeMeanSeaLevel ext)))) @ '',M,,''
      else '',,,'')"

definition clear_dop :: "nmea_data \<Rightarrow> nmea_data" where
  "clear_dop d = d\<lparr>cached_pdop := 0, cached_hdop := 0, cached_vdop := 0\<rparr>"

definition blank_sentences :: "string list" where
  "blank_sentences =
     [''$GPGSA,A,1,,,,,,,,,,,,,,,'', ''$GNGSA,A,1,,,,,,,,,,,,,,,'', ''$GPVTG,,T,,M,,N,,K,N'',
      ''$GPRMC,,V,,,,,,,,,,N'', ''$GPGGA,,,,,,0,,,,,,,,'']"

text \<open>The five sentences, each continued with the next.\<close>

definition nmea_pos_done :: "nmea_data \<Rightarrow> nmea_data option" where
  "nmea_pos_done d = Some (clear_dop d)"

definition nmea_gga :: "ulp_location \<Rightarrow> location_extended \<Rightarrow> int \<Rightarrow> int list \<Rightarrow> nmea_data \<Rightarrow> nmea_data option" where
  "nmea_gga loc ext pos_mode used d = emit (gga_parts loc ext pos_mode used d) (geoid_part loc ext) nmea_pos_done d"

definition nmea_rmc :: "ulp_location \<Rightarrow> location_extended \<Rightarrow> int \<Rightarrow> int list \<Rightarrow> nmea_data \<Rightarrow> nmea_data option" where
  "nmea_rmc loc ext pos_mode used d =
     emit (rmc_parts loc ext) (mode_part loc pos_mode) (nmea_gga loc ext pos_mode used) d"

definition nmea_vtg :: "ulp_location \<Rightarrow> location_extended \<Rightarrow> int \<Rightarrow> int list \<Rightarrow> nmea_data \<Rightarrow> nmea_data option" where
  "nmea_vtg loc ext pos_mode used d = emit (vtg_parts loc) (mode_part loc pos_mode) (nmea_rmc loc ext pos_mode used) d"

definition nmea_gngsa :: "ulp_location \<Rightarrow> location_extended \<Rightarrow> int \<Rightarrow> int list \<Rightarrow> nmea_data \<Rightarrow> nmea_data option" where
  "nmea_gngsa loc ext pos_mode used d =
     emit (gsa_parts ''$GNGSA,A,'' (used_list 65 (glo_used_mask d))) (dop_part ext d) (nmea_vtg loc ext pos_mode used)
       (d\<lparr>glo_used_mask := 0\<rparr>)"

definition nmea_gpgsa :: "ulp_location \<Rightarrow> location_extended \<Rightarrow> int \<Rightarrow> int list \<Rightarrow> nmea_data \<Rightarrow> nmea_data option" where
  "nmea_gpgsa loc ext pos_mode used d =
     emit (gsa_parts ''$GPGSA,A,'' used) (dop_part ext d) (nmea_gngsa loc ext pos_mode used) (d\<lparr>gps_used_mask := 0\<rparr>)"

definition loc_eng_nmea_generate_pos ::
  "ulp_location \<Rightarrow> location_extended \<Rightarrow> bool \<Rightarrow> int \<Rightarrow> nmea_data \<Rightarrow> nmea_data option" where
  "loc_eng_nmea_generate_pos loc ext generate_nmea pos_mode d =
     (if generate_nmea then nmea_gpgsa loc ext pos_mode (used_list 1 (gps_used_mask d)) d
      else nmea_pos_done (fold send_sentence blank_sentences d))"

section \<open>The report of the satellites\<close>

definition used_bit :: "gnss_sv \<Rightarrow> 32 word option" where
  "used_bit sv =
     (if and (sv_flags sv) GNSS_SV_FLAGS_USED_IN_FIX = GNSS_SV_FLAGS_USED_IN_FIX
      then (if 1 \<le> svid sv \<and> svid sv \<le> 32 then Some (push_bit (nat (svid sv - 1)) 1) else None)
      else Some 0)"

fun cache_used :: "gnss_sv list \<Rightarrow> nmea_data \<Rightarrow> nmea_data option" where
  "cache_used [] d = Some d"
| "cache_used (sv # svs) d =
     (if constellation sv = GNSS_CONSTELLATION_GPS then
        (case used_bit sv of None \<Rightarrow> None | Some b \<Rightarrow> cache_used svs (d\<lparr>gps_used_mask := or (gps_used_mask d) b\<rparr>))
      else if constellation sv = GNSS_CONSTELLATION_GLONASS then
        (case used_bit sv of None \<Rightarrow> None | Some b \<Rightarrow> cache_used svs (d\<lparr>glo_used_mask := or (glo_used_mask d) b\<rparr>))
      else cache_used svs d)"

text \<open>\<open>(int)(0.5 + x)\<close>\<close>

definition rounded :: "32 word \<Rightarrow> int option" where
  "rounded x = to_int32 (fp_add (Fin False 1 (- 1)) (float_of x))"

definition sv_parts :: "gnss_sv \<Rightarrow> string option list" where
  "sv_parts sv =
     (case (rounded (elevation sv), rounded (azimuth sv)) of
        (Some el, Some az) \<Rightarrow> Some ('','' @ fmt_d 2 (svid sv) @ '','' @ fmt_d 2 el @ '','' @ fmt_d 3 az @ '','')
      | _ \<Rightarrow> None) #
     (if fp_less (fp_nat 0) (float_of (c_n0_dbhz sv)) then [map_option (fmt_d 2) (rounded (c_n0_dbhz sv))] else [])"

text \<open>The inner loop: up to four satellites of the constellation, and what is left.\<close>

fun next_four :: "gnss_constellation \<Rightarrow> nat \<Rightarrow> gnss_sv list \<Rightarrow> string option list \<times> gnss_sv list" where
  "next_four c i [] = ([], [])"
| "next_four c i (sv # svs) =
     (if i < 4 then
        (if constellation sv = c
         then (let (ps, rest) = next_four c (Suc i) svs in (sv_parts sv @ ps, rest))
         else next_four c i svs)
      else ([], sv # svs))"

definition gsv_header :: "string \<Rightarrow> nat \<Rightarrow> nat \<Rightarrow> nat \<Rightarrow> string" where
  "gsv_header tag sentenceCount sentenceNumber svs =
     tag @ fmt_d 0 (int sentenceCount) @ '','' @ fmt_d 0 (int sentenceNumber) @ '','' @ fmt_d 2 (int svs)"

text \<open>The outer loop; the first argument counts the sentences that are left.\<close>

fun gsv_loop ::
  "nat \<Rightarrow> string \<Rightarrow> gnss_constellation \<Rightarrow> nat \<Rightarrow> nat \<Rightarrow> gnss_sv list \<Rightarrow> (nmea_data \<Rightarrow> nmea_data option) \<Rightarrow> nmea_data \<Rightarrow> nmea_data option" where
  "gsv_loop 0 tag c sents count svs continue d = continue d"
| "gsv_loop (Suc n) tag c sents count svs continue d =
     (let (ps, rest) = next_four c 0 svs
      in emit (Some (gsv_header tag sents (sents - n) count) # ps) [] (gsv_loop n tag c sents count rest continue) d)"

definition gsv_sentences ::
  "string \<Rightarrow> gnss_constellation \<Rightarrow> gnss_sv list \<Rightarrow> (nmea_data \<Rightarrow> nmea_data option) \<Rightarrow> nmea_data \<Rightarrow> nmea_data option" where
  "gsv_sentences tag c svs continue d =
     (let count = length (filter (\<lambda>sv. constellation sv = c) svs);
          sentenceCount = count div 4 + (if count mod 4 \<noteq> 0 then 1 else 0)
      in if count = 0 then continue (send_sentence (tag @ ''1,1,0,'') d)
         else gsv_loop sentenceCount tag c sentenceCount count svs continue d)"

text \<open>The precision of a position may come with the satellites; it is kept for the next position.\<close>

definition cache_dop :: "location_extended \<Rightarrow> nmea_data \<Rightarrow> nmea_data" where
  "cache_dop ext d =
     (if has (ext_flags ext) GPS_LOCATION_EXTENDED_HAS_DOP
      then d\<lparr>cached_pdop := pdop ext, cached_hdop := hdop ext, cached_vdop := vdop ext\<rparr>
      else clear_dop d)"

definition nmea_sv_done :: "location_extended \<Rightarrow> nmea_data \<Rightarrow> nmea_data option" where
  "nmea_sv_done ext d = Some (cache_dop ext d)"

definition loc_eng_nmea_generate_sv :: "gnss_sv list \<Rightarrow> location_extended \<Rightarrow> nmea_data \<Rightarrow> nmea_data option" where
  "loc_eng_nmea_generate_sv svs ext d =
     (case cache_used svs (d\<lparr>gps_used_mask := 0, glo_used_mask := 0\<rparr>) of
        None \<Rightarrow> None
      | Some d1 \<Rightarrow>
          gsv_sentences ''$GPGSV,'' GNSS_CONSTELLATION_GPS svs
            (gsv_sentences ''$GLGSV,'' GNSS_CONSTELLATION_GLONASS svs (nmea_sv_done ext)) d1)"

text \<open>The calls that the engine logs.\<close>

fun nmea_run :: "eng_call list \<Rightarrow> nmea_data \<Rightarrow> nmea_data option" where
  "nmea_run [] d = Some d"
| "nmea_run (NmeaGeneratePos loc ext gen pos_mode # cs) d =
     Option.bind (loc_eng_nmea_generate_pos loc ext gen pos_mode d) (nmea_run cs)"
| "nmea_run (NmeaGenerateSv svs ext # cs) d = Option.bind (loc_eng_nmea_generate_sv svs ext d) (nmea_run cs)"
| "nmea_run (_ # cs) d = nmea_run cs d"

definition nmea_init :: nmea_data where
  "nmea_init = \<lparr>gps_used_mask = 0, glo_used_mask = 0, cached_pdop = 0, cached_hdop = 0, cached_vdop = 0,
     nmea_cb_set = True, sent = []\<rparr>"

section \<open>What is sent is well-formed\<close>

text \<open>
  A sentence is a dollar sign, the body, an asterisk and the check sum of the body in two hexadecimal
  digits, carriage return and line feed. The callback gets the length of the whole sentence, and the part
  of it that fits into the buffer with the terminating NUL.
\<close>

definition whole_sentence :: "string \<Rightarrow> string" where
  "whole_sentence body = ''$'' @ body @ ''*'' @ fmt_02X (checksum body) @ [CHR 0x0D, CHR 0x0A]"

definition sentence_ok :: "string \<times> nat \<Rightarrow> bool" where
  "sentence_ok x =
     (let body = take (snd x - 6) (tl (fst x))
      in length (fst x) < NMEA_SENTENCE_MAX_LENGTH \<and>
         fst x = take (NMEA_SENTENCE_MAX_LENGTH - 1) (whole_sentence body) \<and>
         snd x = length (whole_sentence body) \<and> snd x < NMEA_SENTENCE_MAX_LENGTH + 5)"

definition begun :: "string \<Rightarrow> bool" where
  "begun s \<longleftrightarrow> take 1 s = ''$'' \<and> length s < NMEA_SENTENCE_MAX_LENGTH"

lemma put_checksum_ok:
  assumes "begun s"
  shows "sentence_ok (loc_eng_nmea_put_checksum s NMEA_SENTENCE_MAX_LENGTH)"
proof -
  obtain b where s: "s = CHR ''$'' # b" using assms by (cases s) (auto simp: begun_def)
  have "nat (199 - int (length b)) = 199 - length b" by linarith
  then show ?thesis using assms
    by (auto simp: s begun_def loc_eng_nmea_put_checksum_def snprintf_def sentence_ok_def whole_sentence_def Let_def
        to_size_t_def NMEA_SENTENCE_MAX_LENGTH_def min_def)
qed

lemma print_parts_length:
  "print_parts buf ps = Built b \<Longrightarrow> length buf < NMEA_SENTENCE_MAX_LENGTH \<Longrightarrow>
   length b < NMEA_SENTENCE_MAX_LENGTH \<and> take (length buf) b = buf"
proof (induction buf ps rule: print_parts.induct)
  case (3 buf s ps)
  then have "length b < NMEA_SENTENCE_MAX_LENGTH" "take (length buf + length s) b = buf @ s"
    by (auto split: if_splits)
  moreover have "take (length buf) b = take (length buf) (take (length buf + length s) b)" by (simp add: min_def)
  ultimately show ?case by simp
qed auto

lemma begun_print:
  assumes "print_parts [] (Some (CHR ''$'' # s) # ps) = Built buf"
  shows "begun (print_last buf final)"
proof -
  have "length s + 1 < NMEA_SENTENCE_MAX_LENGTH" and p: "print_parts (CHR ''$'' # s) ps = Built buf"
    using assms by (auto split: if_splits)
  with print_parts_length [OF p] have l: "length buf < NMEA_SENTENCE_MAX_LENGTH" "take (Suc (length s)) buf = CHR ''$'' # s"
    by auto
  then have "take 1 buf = ''$''" by (cases buf) auto
  with l show ?thesis by (cases buf) (auto simp: begun_def print_last_def snprintf_def)
qed

text \<open>
  A property of the data that holds after a sentence is sent and after the cached precision changes holds
  after a report of satellites; if it does not depend on the masks, it holds after a report of a position too.
\<close>

definition keeps :: "(nmea_data \<Rightarrow> bool) \<Rightarrow> (nmea_data \<Rightarrow> nmea_data option) \<Rightarrow> bool" where
  "keeps P f \<longleftrightarrow> (\<forall>d d'. P d \<longrightarrow> f d = Some d' \<longrightarrow> P d')"

definition tagged :: "string option list \<Rightarrow> bool" where
  "tagged ps \<longleftrightarrow> (\<exists>s qs. ps = Some (CHR ''$'' # s) # qs)"

lemma tagged_parts [simp]:
  "tagged (vtg_parts loc)" "tagged (rmc_parts loc ext)" "tagged (gga_parts loc ext m used d)"
  "tagged (gsa_parts (CHR ''$'' # t) used)" "tagged (Some (gsv_header (CHR ''$'' # t) n k count) # ps)"
  by (simp_all add: tagged_def vtg_parts_def rmc_parts_def gga_parts_def gsa_parts_def gsv_header_def Let_def)

lemma begun_blank: "list_all begun blank_sentences"
  by code_simp

locale nmea_sending =
  fixes P :: "nmea_data \<Rightarrow> bool"
  assumes send: "P d \<Longrightarrow> begun s \<Longrightarrow> P (send_sentence s d)"
    and dop: "P d \<Longrightarrow> P (d\<lparr>cached_pdop := p, cached_hdop := h, cached_vdop := v\<rparr>)"
begin

lemma emit_step: "emit ps final k d = Some d' \<Longrightarrow> tagged ps \<Longrightarrow> keeps P k \<Longrightarrow> P d \<Longrightarrow> P d'"
  unfolding keeps_def emit_def tagged_def
  by (auto simp del: print_parts.simps split: buffer.splits intro: send begun_print)

lemma sends_keep: "list_all begun ss \<Longrightarrow> P d \<Longrightarrow> P (fold send_sentence ss d)"
  by (induction ss arbitrary: d) (auto intro: send)

lemma keeps_emit:
  assumes "\<And>d. tagged (ps d)" "\<And>d. P d \<Longrightarrow> P (g d)" "keeps P k"
  shows "keeps P (\<lambda>d. emit (ps d) (final d) k (g d))"
  unfolding keeps_def by (intro allI impI) (rule emit_step [OF _ assms(1,3) assms(2)])

lemma gsv_loop_keeps:
  assumes "tag = CHR ''$'' # t"
  shows "keeps P k \<Longrightarrow> keeps P (gsv_loop n tag c sents count svs k)"
proof (induction n arbitrary: svs)
  case 0
  then show ?case by (simp add: keeps_def)
next
  case (Suc n)
  obtain ps rest where f: "next_four c 0 svs = (ps, rest)" by fastforce
  have "keeps P (gsv_loop n tag c sents count rest k)" by (rule Suc.IH [OF Suc.prems])
  then show ?case unfolding keeps_def [of P "gsv_loop (Suc n) tag c sents count svs k"]
    by (auto simp: f assms elim: emit_step)
qed

lemma gsv_keeps:
  assumes "tag = CHR ''$'' # t" "length tag \<le> 20" "keeps P k"
  shows "keeps P (gsv_sentences tag c svs k)"
proof -
  have "begun (tag @ ''1,1,0,'')" using assms(1,2) by (simp add: begun_def NMEA_SENTENCE_MAX_LENGTH_def)
  then have "keeps P (\<lambda>d. k (send_sentence (tag @ ''1,1,0,'') d))"
    using assms(3) send by (fastforce simp: keeps_def)
  moreover have "gsv_sentences tag c svs k \<in>
      insert (\<lambda>d. k (send_sentence (tag @ ''1,1,0,'') d)) {gsv_loop n tag c sents count svs k |n sents count. True}"
    unfolding gsv_sentences_def [abs_def] Let_def by (cases "length (filter (\<lambda>sv. constellation sv = c) svs) = 0") auto
  ultimately show ?thesis using gsv_loop_keeps [OF assms(1,3)] by auto
qed

lemma cache_dop_keeps: "P d \<Longrightarrow> P (cache_dop ext d)"
  by (simp add: cache_dop_def clear_dop_def dop)

lemma pos_done_keeps: "keeps P nmea_pos_done"
  by (auto simp: keeps_def nmea_pos_done_def clear_dop_def dop)

lemma vtg_keeps: "keeps P (nmea_vtg loc ext pos_mode used)"
proof -
  have "keeps P (nmea_gga loc ext pos_mode used)"
    unfolding nmea_gga_def [abs_def] by (rule keeps_emit) (simp_all add: pos_done_keeps)
  then have "keeps P (nmea_rmc loc ext pos_mode used)"
    unfolding nmea_rmc_def [abs_def] by (intro keeps_emit) simp_all
  then show ?thesis
    unfolding nmea_vtg_def [abs_def] by (intro keeps_emit) simp_all
qed

lemma generate_sv_keeps:
  assumes "loc_eng_nmea_generate_sv svs ext d = Some d'"
    and "\<And>d1. cache_used svs (d\<lparr>gps_used_mask := 0, glo_used_mask := 0\<rparr>) = Some d1 \<Longrightarrow> P d1"
  shows "P d'"
proof -
  have "keeps P (nmea_sv_done ext)" by (auto simp: keeps_def nmea_sv_done_def cache_dop_keeps)
  from gsv_keeps [OF _ _ gsv_keeps [OF _ _ this]]
  have "keeps P (gsv_sentences ''$GPGSV,'' GNSS_CONSTELLATION_GPS svs
    (gsv_sentences ''$GLGSV,'' GNSS_CONSTELLATION_GLONASS svs (nmea_sv_done ext)))" by simp
  with assms show ?thesis unfolding keeps_def loc_eng_nmea_generate_sv_def by (auto split: option.splits)
qed

end

locale nmea_mask_free = nmea_sending +
  assumes gps: "P d \<Longrightarrow> P (d\<lparr>gps_used_mask := m\<rparr>)"
    and glo: "P d \<Longrightarrow> P (d\<lparr>glo_used_mask := m\<rparr>)"
begin

lemma cache_used_keeps: "cache_used svs d = Some d' \<Longrightarrow> P d \<Longrightarrow> P d'"
  by (induction svs d rule: cache_used.induct) (auto intro: gps glo split: if_splits option.splits)

lemma generate_pos_keeps:
  assumes "loc_eng_nmea_generate_pos loc ext gen pos_mode d = Some d'" "P d"
  shows "P d'"
proof -
  let ?u = "used_list 1 (gps_used_mask d)"
  have "keeps P (nmea_gngsa loc ext pos_mode ?u)"
    unfolding nmea_gngsa_def [abs_def] by (intro keeps_emit) (simp_all add: glo vtg_keeps)
  then have k: "keeps P (nmea_gpgsa loc ext pos_mode ?u)"
    unfolding nmea_gpgsa_def [abs_def] by (intro keeps_emit) (simp_all add: gps)
  have b: "P (fold send_sentence blank_sentences d)"
    by (rule sends_keep) (use begun_blank assms(2) in auto)
  show ?thesis
  proof (cases gen)
    case True
    then have "nmea_gpgsa loc ext pos_mode ?u d = Some d'" using assms(1) unfolding loc_eng_nmea_generate_pos_def by argo
    with k assms(2) show ?thesis unfolding keeps_def by blast
  next
    case False
    then have "nmea_pos_done (fold send_sentence blank_sentences d) = Some d'"
      using assms(1) unfolding loc_eng_nmea_generate_pos_def by argo
    with pos_done_keeps b show ?thesis unfolding keeps_def by blast
  qed
qed

lemma nmea_run_keeps: "nmea_run cs d = Some d' \<Longrightarrow> P d \<Longrightarrow> P d'"
proof (induction cs d rule: nmea_run.induct)
  case (3 svs ext cs d)
  then obtain d1 where d1: "loc_eng_nmea_generate_sv svs ext d = Some d1" "nmea_run cs d1 = Some d'"
    by (auto simp: bind_eq_Some_conv)
  from 3 d1 generate_sv_keeps [OF d1(1)] cache_used_keeps gps glo show ?case by blast
qed (auto simp: bind_eq_Some_conv dest: generate_pos_keeps)

end

lemma sent_send: "sent (send_sentence s d) =
    (if nmea_cb_set d then sent d @ [loc_eng_nmea_put_checksum s NMEA_SENTENCE_MAX_LENGTH] else sent d)"
  by (simp add: send_sentence_def loc_eng_nmea_send_def)

lemma send_fields [simp]:
  "gps_used_mask (send_sentence s d) = gps_used_mask d" "glo_used_mask (send_sentence s d) = glo_used_mask d"
  "nmea_cb_set (send_sentence s d) = nmea_cb_set d"
  by (simp_all add: send_sentence_def loc_eng_nmea_send_def)

interpretation framed: nmea_mask_free "\<lambda>d. list_all sentence_ok (sent d)"
  by unfold_locales (auto simp: sent_send put_checksum_ok)

interpretation masks: nmea_sending "\<lambda>d. gps_used_mask d = a \<and> glo_used_mask d = b" for a b
  by unfold_locales auto

text \<open>
  C20: Whatever sequence of reports the engine turns into sentences, every string given to the callback is
  shorter than the buffer, so that it fits with its NUL, and consists of the first 199 characters of
  \<open>$\<close>, a body, \<open>*\<close>, the check sum of exactly that body and the line end. The length passed with it is that
  of the whole sentence, body included: equal to the length of the string unless the string fills the
  buffer, and then larger by at most 5.
\<close>

theorem nmea_sentences_framed:
  assumes "nmea_run cs d = Some d'" "sent d = []"
  shows "list_all sentence_ok (sent d')"
  by (rule framed.nmea_run_keeps [OF assms(1)]) (simp add: assms(2))

definition sat :: "int \<Rightarrow> gnss_constellation \<Rightarrow> 8 word \<Rightarrow> gnss_sv" where
  "sat i c f = \<lparr>svid = i, constellation = c, elevation = 0x42280000, azimuth = 0x43360000, c_n0_dbhz = 0x41f00000, sv_flags = f\<rparr>"

definition here :: ulp_location where
  "here = \<lparr>loc_flags = 31, latitude = 0x4048000000000000, longitude = 0xc02e000000000000, altitude = 0x4059000000000000,
     speed = 0x41200000, bearing = 0x42b40000, timestamp = 1480000000123, accuracy = 0x41200000, position_source = 0, rawData = None\<rparr>"

definition two_reports :: "eng_call list" where
  "two_reports =
     [NmeaGenerateSv [sat 3 GNSS_CONSTELLATION_GPS 4, sat 5 GNSS_CONSTELLATION_GLONASS 4] zero_extended,
      NmeaGeneratePos here zero_extended True 0]"

lemma two_reports_run: "map_option (length \<circ> sent) (nmea_run two_reports nmea_init) = Some 7"
  by code_simp

theorem nmea_sentences_framed_witness:
  "map_option (list_all sentence_ok \<circ> sent) (nmea_run two_reports nmea_init) = Some True"
proof -
  obtain d where d: "nmea_run two_reports nmea_init = Some d" using two_reports_run by auto
  have "list_all sentence_ok (sent d)" by (rule nmea_sentences_framed [OF d]) (simp add: nmea_init_def)
  then show ?thesis by (simp add: d)
qed

section \<open>The satellites of the fix\<close>

lemma used_list_bits_upto:
  assumes "\<And>k. n \<le> k \<Longrightarrow> \<not> bit m k"
  shows "used_list i m = map (\<lambda>k. i + int k) (filter (bit m) [0..<n])"
  using assms
proof (induction n arbitrary: i m)
  case 0
  then have "m = 0" by (auto intro: bit_eqI)
  then show ?case by (simp add: used_list.simps)
next
  case (Suc n)
  have b0: "and m 1 \<noteq> 0 \<longleftrightarrow> bit m 0" by (simp add: and_one_eq bit_0 odd_iff_mod_2_eq_one)
  have "used_list (i + 1) (drop_bit 1 m) = map (\<lambda>k. i + 1 + int k) (filter (bit (drop_bit 1 m)) [0..<n])"
    by (rule Suc.IH) (simp add: bit_drop_bit_eq Suc.prems)
  then have t: "used_list (i + 1) (drop_bit 1 m) = map (\<lambda>k. i + int k) (filter (bit m) (map Suc [0..<n]))"
    by (simp add: filter_map comp_def bit_drop_bit_eq algebra_simps)
  have l: "[0..<Suc n] = 0 # map Suc [0..<n]" by (simp add: upt_conv_Cons map_Suc_upt del: upt_Suc)
  show ?case
  proof (cases "m = 0")
    case True
    then show ?thesis by (simp add: used_list.simps)
  next
    case False
    then show ?thesis unfolding l using t b0 by (subst used_list.simps) simp
  qed
qed

lemma used_list_bits: "used_list i m = map (\<lambda>k. i + int k) (filter (bit m) [0..<32])"
  by (rule used_list_bits_upto) (auto dest: bit_imp_le_length)

definition in_fix :: "gnss_constellation \<Rightarrow> gnss_sv \<Rightarrow> bool" where
  "in_fix c sv \<longleftrightarrow> constellation sv = c \<and> and (sv_flags sv) GNSS_SV_FLAGS_USED_IN_FIX = GNSS_SV_FLAGS_USED_IN_FIX"

lemma bit_used_bit: "used_bit sv = Some b \<Longrightarrow> bit b k \<longleftrightarrow>
    and (sv_flags sv) GNSS_SV_FLAGS_USED_IN_FIX = GNSS_SV_FLAGS_USED_IN_FIX \<and> svid sv = int k + 1"
  by (auto simp: used_bit_def bit_simps split: if_splits)

lemma used_bit_range: "used_bit sv = Some b \<Longrightarrow> in_fix c sv \<Longrightarrow> 1 \<le> svid sv \<and> svid sv \<le> 32"
  by (auto simp: used_bit_def in_fix_def split: if_splits)

lemma cache_used_bits:
  "cache_used svs d = Some d' \<Longrightarrow>
     (\<forall>k. (bit (gps_used_mask d') k \<longleftrightarrow> bit (gps_used_mask d) k \<or> (\<exists>sv\<in>set svs. in_fix GNSS_CONSTELLATION_GPS sv \<and> svid sv = int k + 1)) \<and>
      (bit (glo_used_mask d') k \<longleftrightarrow> bit (glo_used_mask d) k \<or> (\<exists>sv\<in>set svs. in_fix GNSS_CONSTELLATION_GLONASS sv \<and> svid sv = int k + 1)))
     \<and> (\<forall>sv\<in>set svs. in_fix GNSS_CONSTELLATION_GPS sv \<or> in_fix GNSS_CONSTELLATION_GLONASS sv \<longrightarrow> svid sv \<in> {1..32})"
proof (induction svs d rule: cache_used.induct)
  case (2 sv svs d)
  show ?case
  proof (cases "used_bit sv")
    case None
    then have "\<not> in_fix c sv" if "constellation sv = c" "c \<in> {GNSS_CONSTELLATION_GPS, GNSS_CONSTELLATION_GLONASS}" for c
      using 2 that by auto
    with 2 None show ?thesis by (auto simp: in_fix_def split: if_splits)
  next
    case (Some b)
    note b = bit_used_bit [OF this] used_bit_range [OF this]
    show ?thesis using 2 Some b by (auto simp: bit_or_iff in_fix_def split: if_splits)
  qed
qed simp

lemma used_list_set: "set (used_list i m) = {i + int k |k. bit m k}" "sorted (used_list i m)" "distinct (used_list i m)"
proof -
  have "bit m k \<Longrightarrow> k < 32" for k using bit_imp_le_length [of m k] by simp
  then show "set (used_list i m) = {i + int k |k. bit m k}" by (auto simp: used_list_bits)
  have "sorted (filter (bit m) [0..<32])" by (rule sorted_wrt_filter) simp
  then show "sorted (used_list i m)" by (simp add: used_list_bits sorted_map)
  show "distinct (used_list i m)" by (simp add: used_list_bits distinct_map inj_on_def)
qed

lemma used_list_sorted: "used_list i m = sorted_list_of_set {i + int k |k. bit m k}"
  using sorted_list_of_set.idem_if_sorted_distinct [OF used_list_set(2,3)] by (simp only: used_list_set(1))

definition fix_ids :: "gnss_constellation \<Rightarrow> int \<Rightarrow> gnss_sv list \<Rightarrow> int list" where
  "fix_ids c offset svs = sorted_list_of_set ((\<lambda>sv. svid sv + offset) ` set (filter (in_fix c) svs))"

lemma used_after_sv:
  assumes "loc_eng_nmea_generate_sv svs ext d = Some d'"
  shows "used_list 1 (gps_used_mask d') = fix_ids GNSS_CONSTELLATION_GPS 0 svs"
    and "used_list 65 (glo_used_mask d') = fix_ids GNSS_CONSTELLATION_GLONASS 64 svs"
proof -
  obtain d1 where d1: "cache_used svs (d\<lparr>gps_used_mask := 0, glo_used_mask := 0\<rparr>) = Some d1"
    using assms by (auto simp: loc_eng_nmea_generate_sv_def split: option.splits)
  have m: "gps_used_mask d' = gps_used_mask d1 \<and> glo_used_mask d' = glo_used_mask d1"
    by (rule masks.generate_sv_keeps [OF assms]) (simp add: d1)
  note b = cache_used_bits [OF d1]
  have num: "\<exists>k. svid sv = int k + 1" if "in_fix c sv" "c \<in> {GNSS_CONSTELLATION_GPS, GNSS_CONSTELLATION_GLONASS}" "sv \<in> set svs" for sv c
    using that b by (intro exI [of _ "nat (svid sv - 1)"]) auto
  have "{1 + int k |k. bit (gps_used_mask d') k} = (\<lambda>sv. svid sv + 0) ` set (filter (in_fix GNSS_CONSTELLATION_GPS) svs)"
    using b num by (fastforce simp: m image_iff)
  moreover have "{65 + int k |k. bit (glo_used_mask d') k} = (\<lambda>sv. svid sv + 64) ` set (filter (in_fix GNSS_CONSTELLATION_GLONASS) svs)"
    using b num by (fastforce simp: m image_iff)
  ultimately show "used_list 1 (gps_used_mask d') = fix_ids GNSS_CONSTELLATION_GPS 0 svs"
    "used_list 65 (glo_used_mask d') = fix_ids GNSS_CONSTELLATION_GLONASS 64 svs"
    by (simp_all add: used_list_sorted fix_ids_def)
qed

section \<open>Lengths\<close>

lemma length_decimal: "n < 10 ^ k \<Longrightarrow> 0 < k \<Longrightarrow> length (decimal n) \<le> k"
proof (induction k arbitrary: n)
  case (Suc k)
  show ?case
  proof (cases "n < 10")
    case True
    then show ?thesis by (simp add: decimal.simps [of n])
  next
    case False
    with Suc.prems have "n div 10 < 10 ^ k" "0 < k" by (auto intro!: Nat.gr0I)
    from Suc.IH [OF this] False show ?thesis by (simp add: decimal.simps [of n])
  qed
qed simp

lemma length_fmt_d: "0 \<le> i \<Longrightarrow> i < 10 ^ k \<Longrightarrow> 0 < k \<Longrightarrow> w \<le> k \<Longrightarrow> length (fmt_d w i) \<le> k"
  using length_decimal [of i k] by (simp add: fmt_d_def pad0_def)

lemma print_parts_fits:
  "list_all (\<lambda>p. p \<noteq> None) ps \<Longrightarrow> length buf + length (concat (map the ps)) < NMEA_SENTENCE_MAX_LENGTH \<Longrightarrow>
   print_parts buf ps = Built (buf @ concat (map the ps))"
  by (induction buf ps rule: print_parts.induct) auto

text \<open>The parts for the satellites: at most twelve, each in two digits, and a comma for each place that is left.\<close>

definition gsa_text :: "string \<Rightarrow> int list \<Rightarrow> string" where
  "gsa_text tag ids =
     tag @ [fix_type ids] @ '','' @ concat (map (\<lambda>i. fmt_d 2 i @ '','') (take 12 ids)) @ replicate (12 - length ids) (CHR '','')"

lemma concat_commas: "concat (map (\<lambda>i. if i < length xs then f (xs ! i) @ '','' else '','') [0..<n]) =
    concat (map (\<lambda>x. f x @ '','') (take n xs)) @ replicate (n - length xs) (CHR '','')"
proof (induction n)
  case (Suc n)
  then show ?case
    by (cases "n < length xs") (simp_all add: take_Suc_conv_app_nth Suc_diff_le replicate_append_same)
qed simp

lemma gsa_prints:
  assumes "length tag \<le> 20" "list_all (\<lambda>i. i \<in> {0..99}) ids"
  shows "print_parts [] (gsa_parts tag ids) = Built (gsa_text tag ids)"
proof -
  have eq: "concat (map the (gsa_parts tag ids)) = gsa_text tag ids"
    using concat_commas [of ids "fmt_d 2" 12] by (simp add: gsa_parts_def gsa_text_def comp_def)
  have "length (concat (map (\<lambda>i. fmt_d 2 i @ '','') xs)) \<le> 3 * length xs" if "list_all (\<lambda>i. i \<in> {0..99}) xs" for xs
    using that
  proof (induction xs)
    case (Cons x xs)
    then show ?case using length_fmt_d [of x 2 2] by simp
  qed simp
  from this [of "take 12 ids"] have "length (concat (map (\<lambda>i. fmt_d 2 i @ '','') (take 12 ids))) \<le> 36"
    using assms(2) by (fastforce simp: list_all_iff dest: in_set_takeD)
  then have "length (gsa_text tag ids) < 200" using assms(1) by (simp add: gsa_text_def)
  then show ?thesis
    by (subst print_parts_fits) (simp_all add: eq NMEA_SENTENCE_MAX_LENGTH_def, simp add: gsa_parts_def list_all_iff)
qed

section \<open>The satellites in the sentences\<close>

interpretation only_appends: nmea_mask_free "\<lambda>d. take (length xs) (sent d) = xs" for xs
proof unfold_locales
  fix d :: nmea_data and s
  assume "take (length xs) (sent d) = xs"
  moreover from this have "length xs \<le> length (sent d)" by (metis length_take min.cobounded1)
  ultimately show "take (length xs) (sent (send_sentence s d)) = xs" by (simp add: sent_send)
qed simp_all

lemma dop_part_same [simp]:
  "dop_part ext (send_sentence s d) = dop_part ext d" "dop_part ext (d\<lparr>gps_used_mask := m\<rparr>) = dop_part ext d"
  by (auto simp: dop_part_def dop_cached_def send_sentence_def loc_eng_nmea_send_def)

lemma fix_ids_range:
  assumes "loc_eng_nmea_generate_sv svs ext d = Some d'"
  shows "list_all (\<lambda>i. i \<in> {0..99}) (fix_ids GNSS_CONSTELLATION_GPS 0 svs)"
    and "list_all (\<lambda>i. i \<in> {0..99}) (fix_ids GNSS_CONSTELLATION_GLONASS 64 svs)"
  unfolding used_after_sv [OF assms, symmetric] used_list_bits by (auto simp: list_all_iff)

definition nmea_sentence :: "string \<Rightarrow> string \<Rightarrow> string \<times> nat" where
  "nmea_sentence s final = loc_eng_nmea_put_checksum (print_last s final) NMEA_SENTENCE_MAX_LENGTH"

text \<open>
  The satellites of a fix. When satellites and then a position are reported, the first two sentences
  for the position name exactly the GPS and the GLONASS satellites (these by their number plus 64) that
  were marked as used in the report, in ascending order and at most twelve of each, with the right fix type.
\<close>

theorem gsa_lists_the_fix:
  assumes sv: "loc_eng_nmea_generate_sv svs ext d = Some d'"
    and pos: "loc_eng_nmea_generate_pos loc ext' True pos_mode d' = Some d''"
    and cb: "nmea_cb_set d'"
  shows "take 2 (drop (length (sent d')) (sent d'')) =
    [nmea_sentence (gsa_text ''$GPGSA,A,'' (fix_ids GNSS_CONSTELLATION_GPS 0 svs)) (dop_part ext' d'),
     nmea_sentence (gsa_text ''$GNGSA,A,'' (fix_ids GNSS_CONSTELLATION_GLONASS 64 svs)) (dop_part ext' d')]"
    (is "_ = [?a, ?b]")
proof -
  let ?gps = "fix_ids GNSS_CONSTELLATION_GPS 0 svs" and ?glo = "fix_ids GNSS_CONSTELLATION_GLONASS 64 svs"
  note used = used_after_sv [OF sv]
  have p: "print_parts [] (gsa_parts ''$GPGSA,A,'' ?gps) = Built (gsa_text ''$GPGSA,A,'' ?gps)"
    "print_parts [] (gsa_parts ''$GNGSA,A,'' ?glo) = Built (gsa_text ''$GNGSA,A,'' ?glo)"
    using fix_ids_range [OF sv] by (simp_all add: gsa_prints)
  let ?gpgsa = "print_last (gsa_text ''$GPGSA,A,'' ?gps) (dop_part ext' d')"
    and ?gngsa = "print_last (gsa_text ''$GNGSA,A,'' ?glo) (dop_part ext' d')"
  obtain d2 where d2: "sent d2 = sent d' @ [?a, ?b]" "nmea_vtg loc ext' pos_mode ?gps d2 = Some d''"
  proof
    let ?d2 = "send_sentence ?gngsa (send_sentence ?gpgsa (d'\<lparr>gps_used_mask := 0\<rparr>)\<lparr>glo_used_mask := 0\<rparr>)"
    show "sent ?d2 = sent d' @ [?a, ?b]" using cb by (simp add: sent_send nmea_sentence_def)
    show "nmea_vtg loc ext' pos_mode ?gps ?d2 = Some d''"
      using pos unfolding loc_eng_nmea_generate_pos_def by (simp add: nmea_gpgsa_def nmea_gngsa_def emit_def used p)
  qed
  have "take (length (sent d2)) (sent d'') = sent d2"
    by (rule only_appends.vtg_keeps [unfolded keeps_def, rule_format, OF _ d2(2)]) simp
  then obtain ys where "sent d'' = sent d2 @ ys" by (metis append_take_drop_id)
  then show ?thesis by (simp add: d2(1))
qed

theorem gsa_lists_the_fix_witness:
  "\<exists>d' d''. loc_eng_nmea_generate_sv [sat 3 GNSS_CONSTELLATION_GPS 4, sat 5 GNSS_CONSTELLATION_GLONASS 4] zero_extended nmea_init = Some d' \<and>
     loc_eng_nmea_generate_pos here zero_extended True 0 d' = Some d'' \<and>
     take 2 (drop (length (sent d')) (sent d'')) =
       [nmea_sentence (gsa_text ''$GPGSA,A,'' [3]) '',,'', nmea_sentence (gsa_text ''$GNGSA,A,'' [69]) '',,'']"
proof -
  let ?svs = "[sat 3 GNSS_CONSTELLATION_GPS 4, sat 5 GNSS_CONSTELLATION_GLONASS 4]"
  obtain d' where d': "loc_eng_nmea_generate_sv ?svs zero_extended nmea_init = Some d'"
    and dop: "dop_part zero_extended d' = '',,''" and cb: "nmea_cb_set d'"
  proof -
    have "map_option (\<lambda>d. (dop_part zero_extended d, nmea_cb_set d)) (loc_eng_nmea_generate_sv ?svs zero_extended nmea_init) = Some ('',,'', True)"
      by code_simp
    then show ?thesis using that by auto
  qed
  have run: "map_option (length \<circ> sent) (nmea_run two_reports nmea_init) = Some 7" by (rule two_reports_run)
  then obtain d'' where d'': "loc_eng_nmea_generate_pos here zero_extended True 0 d' = Some d''"
    by (auto simp: two_reports_def d' bind_eq_Some_conv)
  have "in_fix GNSS_CONSTELLATION_GPS (sat 3 GNSS_CONSTELLATION_GPS 4)" "\<not> in_fix GNSS_CONSTELLATION_GPS (sat 5 GNSS_CONSTELLATION_GLONASS 4)"
    "in_fix GNSS_CONSTELLATION_GLONASS (sat 5 GNSS_CONSTELLATION_GLONASS 4)" "\<not> in_fix GNSS_CONSTELLATION_GLONASS (sat 3 GNSS_CONSTELLATION_GPS 4)"
    by code_simp+
  then have "fix_ids GNSS_CONSTELLATION_GPS 0 ?svs = [3]" "fix_ids GNSS_CONSTELLATION_GLONASS 64 ?svs = [69]"
    by (simp_all add: fix_ids_def sat_def)
  with gsa_lists_the_fix [OF d' d'' cb] d' d'' dop show ?thesis by auto
qed

text \<open>
  The reference: the satellites of a constellation, in the order of the report, in groups of four; the
  sentences are numbered from 1.
\<close>

fun fours :: "'a list \<Rightarrow> 'a list list" where
  "fours [] = []"
| "fours (x # xs) = (x # take 3 xs) # fours (drop 3 xs)"

definition sv_text :: "gnss_sv \<Rightarrow> string" where
  "sv_text sv = concat (map the (sv_parts sv))"

definition gsv_spec :: "string \<Rightarrow> gnss_constellation \<Rightarrow> gnss_sv list \<Rightarrow> string list" where
  "gsv_spec tag c svs =
     (let l = filter (\<lambda>sv. constellation sv = c) svs; n = length (fours l)
      in if l = [] then [tag @ ''1,1,0,'']
         else map (\<lambda>(k, g). gsv_header tag n k (length l) @ concat (map sv_text g)) (zip [1..<n + 1] (fours l)))"

text \<open>Satellites that can be printed: the numbers have at most three digits.\<close>

definition three_digits :: "int option \<Rightarrow> bool" where
  "three_digits x = (case x of None \<Rightarrow> False | Some i \<Rightarrow> 0 \<le> i \<and> i < 1000)"

definition sv_ok :: "gnss_sv \<Rightarrow> bool" where
  "sv_ok sv \<longleftrightarrow> 1 \<le> svid sv \<and> svid sv \<le> 32 \<and> three_digits (rounded (elevation sv)) \<and> three_digits (rounded (azimuth sv)) \<and>
     three_digits (rounded (c_n0_dbhz sv))"

lemma length_fours: "length (fours l) = length l div 4 + (if length l mod 4 \<noteq> 0 then 1 else 0)"
proof (induction l rule: fours.induct)
  case (2 x xs)
  show ?case
  proof (cases "length xs < 3")
    case True
    then show ?thesis by (auto simp: less_Suc_eq numeral_3_eq_3)
  next
    case False
    then have "Suc (length xs) div 4 = (length xs - 3) div 4 + 1" "Suc (length xs) mod 4 = (length xs - 3) mod 4" by presburger+
    with 2 show ?thesis by simp
  qed
qed simp

lemma fours_step: "l \<noteq> [] \<Longrightarrow> fours l = take 4 l # fours (drop 4 l)"
  by (cases l) (simp_all add: take_Cons' drop_Cons')

lemma next_four_exact:
  "i \<le> 4 \<Longrightarrow> next_four c i svs = (ps, rest) \<Longrightarrow>
    ps = concat (map sv_parts (take (4 - i) (filter (\<lambda>sv. constellation sv = c) svs))) \<and>
    filter (\<lambda>sv. constellation sv = c) rest = drop (4 - i) (filter (\<lambda>sv. constellation sv = c) svs) \<and> set rest \<subseteq> set svs"
proof (induction c i svs arbitrary: ps rule: next_four.induct)
  case (2 c i sv svs)
  show ?case
  proof (cases "i < 4 \<and> constellation sv = c")
    case True
    obtain ps' where f: "next_four c (Suc i) svs = (ps', rest)" and ps: "ps = sv_parts sv @ ps'"
      using True 2(4) by (auto split: prod.splits)
    have "4 - i = Suc (4 - Suc i)" using True by arith
    with 2(1) [OF _ _ _ f] True ps show ?thesis by (auto simp del: Suc_diff_Suc)
  next
    case False
    with 2 show ?thesis by (auto split: if_splits)
  qed
qed simp

lemma length_sv_text:
  assumes "sv_ok sv"
  shows "length (sv_text sv) \<le> 16" "list_all (\<lambda>p. p \<noteq> None) (sv_parts sv)"
proof -
  obtain el az cn where r: "rounded (elevation sv) = Some el" "rounded (azimuth sv) = Some az" "rounded (c_n0_dbhz sv) = Some cn"
    and b: "0 \<le> el" "el < 1000" "0 \<le> az" "az < 1000" "0 \<le> cn" "cn < 1000" "0 \<le> svid sv" "svid sv < 1000"
    using assms by (auto simp: sv_ok_def three_digits_def split: option.splits)
  have "length (fmt_d w i) \<le> 3" if "0 \<le> i" "i < 1000" "w \<le> 3" for w i using length_fmt_d [of i 3 w] that by simp
  note this [of el 2] this [of az 3] this [of cn 2] this [of "svid sv" 2]
  with b show "length (sv_text sv) \<le> 16" "list_all (\<lambda>p. p \<noteq> None) (sv_parts sv)"
    by (auto simp: sv_text_def sv_parts_def r)
qed

lemma concat_sv_parts: "concat (map the (concat (map sv_parts svs))) = concat (map sv_text svs)"
  by (induction svs) (simp_all add: sv_text_def)

lemma gsv_emit:
  assumes "list_all sv_ok g" "length g \<le> 4" "length header \<le> 40"
  shows "emit (Some header # concat (map sv_parts g)) [] k d = k (send_sentence (header @ concat (map sv_text g)) d)"
proof -
  have "length (concat (map sv_text g)) \<le> 16 * length g" using assms(1)
    by (induction g) (use length_sv_text(1) in fastforce)+
  then have l: "length (header @ concat (map sv_text g)) < 200" using assms(2,3) by simp
  have "list_all (\<lambda>p. p \<noteq> None) (Some header # concat (map sv_parts g))" using assms(1) length_sv_text(2)
    by (auto simp: list_all_iff)
  from print_parts_fits [OF this, of "[]"] l
  have "print_parts [] (Some header # concat (map sv_parts g)) = Built (header @ concat (map sv_text g))"
    by (simp add: concat_sv_parts NMEA_SENTENCE_MAX_LENGTH_def del: print_parts.simps)
  then show ?thesis by (simp add: emit_def print_last_def snprintf_def del: print_parts.simps)
qed

lemma gsv_header_length:
  assumes "length tag = 7" "n < 1000" "k < 1000" "count < 1000"
  shows "length (gsv_header tag n k count) \<le> 40"
  using assms length_fmt_d [of "int n" 3 0] length_fmt_d [of "int k" 3 0] length_fmt_d [of "int count" 3 2]
  by (simp add: gsv_header_def)

lemma gsv_loop_exact:
  assumes "length tag = 7" "sents < 1000" "count < 1000"
  shows "list_all sv_ok (filter (\<lambda>sv. constellation sv = c) svs) \<Longrightarrow>
    length (fours (filter (\<lambda>sv. constellation sv = c) svs)) = n \<Longrightarrow> n \<le> sents \<Longrightarrow>
    gsv_loop n tag c sents count svs k d =
      k (fold send_sentence (map (\<lambda>(j, g). gsv_header tag sents j count @ concat (map sv_text g))
        (zip [sents - n + 1..<sents + 1] (fours (filter (\<lambda>sv. constellation sv = c) svs)))) d)"
proof (induction n arbitrary: svs d)
  case 0
  then show ?case by simp
next
  case (Suc n)
  let ?l = "filter (\<lambda>sv. constellation sv = c) svs"
  obtain ps rest where f: "next_four c 0 svs = (ps, rest)" by fastforce
  from next_four_exact [OF _ f]
  have ps: "ps = concat (map sv_parts (take 4 ?l))" and rest: "filter (\<lambda>sv. constellation sv = c) rest = drop 4 ?l" by simp_all
  have ne: "?l \<noteq> []" using Suc.prems(2) by auto
  have ok: "list_all sv_ok (take 4 ?l)" "list_all sv_ok (drop 4 ?l)"
    using Suc.prems(1) by (auto simp: list_all_iff dest: in_set_takeD in_set_dropD simp del: set_filter)
  have "length (fours (drop 4 ?l)) = n" using Suc.prems(2) unfolding fours_step [OF ne] by simp
  note IH = Suc.IH [of rest, unfolded rest, OF ok(2) this]
  have "length (gsv_header tag sents (sents - n) count) \<le> 40" using assms by (simp add: gsv_header_length)
  note e = gsv_emit [OF ok(1) _ this]
  have z: "[sents - Suc n + 1..<sents + 1] = (sents - n) # [sents - n + 1..<sents + 1]"
    using Suc.prems(3) by (simp add: upt_conv_Cons Suc_diff_Suc del: upt_Suc)
  show ?case unfolding fours_step [OF ne] z using Suc.prems(3)
    by (simp add: f ps e IH del: upt_Suc)
qed

lemma gsv_sentences_exact:
  assumes "length tag = 7" "length svs < 1000" "list_all sv_ok (filter (\<lambda>sv. constellation sv = c) svs)"
  shows "gsv_sentences tag c svs k d = k (fold send_sentence (gsv_spec tag c svs) d)"
proof (cases "filter (\<lambda>sv. constellation sv = c) svs = []")
  case True
  then show ?thesis by (simp add: gsv_sentences_def gsv_spec_def)
next
  case False
  let ?l = "filter (\<lambda>sv. constellation sv = c) svs"
  have l: "length ?l < 1000" using assms(2) length_filter_le [of "\<lambda>sv. constellation sv = c" svs] by linarith
  then have n: "length (fours ?l) < 1000" unfolding length_fours by presburger
  show ?thesis using False gsv_loop_exact [OF assms(1) n l assms(3) refl order_refl]
    by (simp add: gsv_sentences_def gsv_spec_def Let_def length_fours del: upt_Suc gsv_loop.simps)
qed

lemma fours_partition: "concat (fours l) = l" "list_all (\<lambda>g. length g \<in> {1..4}) (fours l)"
  by (induction l rule: fours.induct) auto

lemma cache_used_defined:
  "list_all sv_ok (filter (\<lambda>sv. constellation sv \<in> {GNSS_CONSTELLATION_GPS, GNSS_CONSTELLATION_GLONASS}) svs) \<Longrightarrow>
   \<exists>d1. cache_used svs d = Some d1 \<and> sent d1 = sent d \<and> nmea_cb_set d1 = nmea_cb_set d"
proof (induction svs d rule: cache_used.induct)
  case (2 sv svs d)
  have "\<exists>b. used_bit sv = Some b" if "sv_ok sv" using that by (auto simp: used_bit_def sv_ok_def)
  with 2 show ?case by (fastforce split: option.split)
qed simp

lemma sent_fold: "nmea_cb_set d \<Longrightarrow> sent (fold send_sentence ss d) =
    sent d @ map (\<lambda>s. loc_eng_nmea_put_checksum s NMEA_SENTENCE_MAX_LENGTH) ss \<and> nmea_cb_set (fold send_sentence ss d)"
  by (induction ss arbitrary: d) (simp_all add: sent_send)

lemma sent_cache_dop [simp]: "sent (cache_dop ext d) = sent d"
  by (simp add: cache_dop_def clear_dop_def)

text \<open>
  C21: A report of satellites with numbers of at most three digits sends exactly the sentences of the
  reference: first GPS, then GLONASS; each satellite of the constellation is in one sentence, in the order
  of the report, four to a sentence but for the last; a constellation without satellites has one blank
  sentence. The scan with its running index never skips or repeats one, and no sentence is cut.
\<close>

theorem gsv_lists_every_satellite:
  assumes "length svs \<le> 64" "nmea_cb_set d"
    and ok: "list_all sv_ok (filter (\<lambda>sv. constellation sv \<in> {GNSS_CONSTELLATION_GPS, GNSS_CONSTELLATION_GLONASS}) svs)"
  shows "map_option sent (loc_eng_nmea_generate_sv svs ext d) =
    Some (sent d @ map (\<lambda>s. loc_eng_nmea_put_checksum s NMEA_SENTENCE_MAX_LENGTH)
      (gsv_spec ''$GPGSV,'' GNSS_CONSTELLATION_GPS svs @ gsv_spec ''$GLGSV,'' GNSS_CONSTELLATION_GLONASS svs))"
proof -
  obtain d1 where d1: "cache_used svs (d\<lparr>gps_used_mask := 0, glo_used_mask := 0\<rparr>) = Some d1" "sent d1 = sent d" "nmea_cb_set d1"
    using cache_used_defined [OF ok, of "d\<lparr>gps_used_mask := 0, glo_used_mask := 0\<rparr>"] assms(2) by auto
  have "list_all sv_ok (filter (\<lambda>sv. constellation sv = GNSS_CONSTELLATION_GPS) svs)"
    "list_all sv_ok (filter (\<lambda>sv. constellation sv = GNSS_CONSTELLATION_GLONASS) svs)"
    using ok by (auto simp: list_all_iff)
  note ok' = this
  have l: "length svs < 1000" using assms(1) by simp
  have "loc_eng_nmea_generate_sv svs ext d = nmea_sv_done ext
      (fold send_sentence (gsv_spec ''$GLGSV,'' GNSS_CONSTELLATION_GLONASS svs)
        (fold send_sentence (gsv_spec ''$GPGSV,'' GNSS_CONSTELLATION_GPS svs) d1))"
    by (simp add: loc_eng_nmea_generate_sv_def d1 gsv_sentences_exact l ok')
  then show ?thesis using d1(2,3) by (simp add: nmea_sv_done_def sent_fold)
qed

theorem gsv_lists_every_satellite_witness:
  "map_option sent (loc_eng_nmea_generate_sv
      [sat 1 GNSS_CONSTELLATION_GPS 0, sat 2 GNSS_CONSTELLATION_GPS 4, sat 9 GNSS_CONSTELLATION_GLONASS 0,
       sat 3 GNSS_CONSTELLATION_GPS 0, sat 4 GNSS_CONSTELLATION_GPS 0, sat 5 GNSS_CONSTELLATION_GPS 0] zero_extended nmea_init) =
   Some (map (\<lambda>s. loc_eng_nmea_put_checksum s 200)
     [''$GPGSV,2,1,05,01,42,182,30,02,42,182,30,03,42,182,30,04,42,182,30'', ''$GPGSV,2,2,05,05,42,182,30'',
      ''$GLGSV,1,1,01,09,42,182,30''])"
proof -
  let ?svs = "[sat 1 GNSS_CONSTELLATION_GPS 0, sat 2 GNSS_CONSTELLATION_GPS 4, sat 9 GNSS_CONSTELLATION_GLONASS 0,
       sat 3 GNSS_CONSTELLATION_GPS 0, sat 4 GNSS_CONSTELLATION_GPS 0, sat 5 GNSS_CONSTELLATION_GPS 0]"
  have ok: "list_all sv_ok (filter (\<lambda>sv. constellation sv \<in> {GNSS_CONSTELLATION_GPS, GNSS_CONSTELLATION_GLONASS}) ?svs)"
    by code_simp
  have spec: "gsv_spec ''$GPGSV,'' GNSS_CONSTELLATION_GPS ?svs @ gsv_spec ''$GLGSV,'' GNSS_CONSTELLATION_GLONASS ?svs =
    [''$GPGSV,2,1,05,01,42,182,30,02,42,182,30,03,42,182,30,04,42,182,30'', ''$GPGSV,2,2,05,05,42,182,30'',
      ''$GLGSV,1,1,01,09,42,182,30'']"
    by code_simp
  have "length ?svs \<le> 64" "nmea_cb_set nmea_init" "sent nmea_init = []" by (simp_all add: nmea_init_def)
  with gsv_lists_every_satellite [OF _ _ ok, of nmea_init zero_extended] show ?thesis
    unfolding spec by (simp add: NMEA_SENTENCE_MAX_LENGTH_def del: loc_eng_nmea_generate_sv_def)
qed

section \<open>What the sentences get wrong\<close>

text \<open>The magnetic track is the true bearing, whatever the magnetic deviation is.\<close>

lemma magnetic_track_is_bearing:
  "has (loc_flags loc) GPS_LOCATION_HAS_BEARING \<Longrightarrow>
   hd (vtg_parts loc) = Some (''$GPVTG,'' @ fmt_1f (float_of (bearing loc)) @ '',T,'' @ fmt_1f (float_of (bearing loc)) @ '',M,'')"
  by (simp add: vtg_parts_def)

text \<open>The minutes are rounded up to 60, and on the equator and the meridian the sign is in the wrong place.\<close>

lemma minutes_round_to_60:
  "lat_long_part (here\<lparr>latitude := 0x3fefffffffff0000, longitude := 0\<rparr>) = Some ''0060.000000,N,00000.000000,E,''"
  by code_simp

lemma equator_is_negative_zero_south:
  "lat_long_part (here\<lparr>latitude := 0, longitude := 0x3ff0000000000000\<rparr>) = Some ''00-0.000000,S,00100.000000,E,''"
  by code_simp

text \<open>A position outside the range of its type is undefined behaviour.\<close>

lemma longitude_overflows: "lat_long_part (here\<lparr>longitude := 0x4070000000000000\<rparr>) = None"
  by code_simp

end
