(* ===== verification/Recovery.thy ===== *)
theory Recovery
  imports Loc_Prelude
begin

text \<open>
  \<open>recovery/recovery_updater.cpp\<close>: the search for the version of the TrustZone image.

  \<^item> A mapped partition is the list of its characters, a C string the list of those before its NUL.
    \<open>bm_search\<close> returns None for undefined behaviour or if it does not return, else the index it finds.
  \<^item> The texts are shorter than \<open>2 ^ 31\<close> (the partition has 500 KB), so the variables of type \<open>int\<close>
    are integers.
  \<^item> \<open>ReadArgs\<close> belongs to the recovery; it evaluates the first \<open>count\<close> arguments and stores each of
    them through one further pointer.
  \<^item> Shown: the search finds the first occurrence of every pattern without a border, the one it is
    used for among them; what \<open>verify_trustzone\<close> accepts.
\<close>

section \<open>The tables\<close>

definition ALPHABET_LEN :: nat where "ALPHABET_LEN = 256"

function suffix_loop :: "string \<Rightarrow> nat \<Rightarrow> nat \<Rightarrow> nat \<Rightarrow> nat" where
  "suffix_loop str str_len p i =
     (if str ! (p - i) = str ! (str_len - 1 - i) \<and> i < p then suffix_loop str str_len p (Suc i) else i)"
  by pat_completeness auto
termination
  by (relation "measure (\<lambda>(str, str_len, p, i). p - i)") auto

declare suffix_loop.simps [simp del]

definition max_suffix_len :: "string \<Rightarrow> nat \<Rightarrow> nat \<Rightarrow> nat" where
  "max_suffix_len str str_len p = suffix_loop str str_len p 0"

definition bm_make_delta1 :: "string \<Rightarrow> int list" where
  "bm_make_delta1 pat =
     fold (\<lambda>i delta1. delta1[of_char (pat ! i) := int (length pat - 1 - i)]) [0..<length pat - 1]
       (replicate ALPHABET_LEN (int (length pat)))"

text \<open>\<open>strncmp\<close> is 0: the strings end where the lists do.\<close>

fun strncmp_eq :: "string \<Rightarrow> string \<Rightarrow> nat \<Rightarrow> bool" where
  "strncmp_eq s t 0 = True"
| "strncmp_eq [] [] (Suc n) = True"
| "strncmp_eq [] (d # t) (Suc n) = (d = CHR 0x00)"
| "strncmp_eq (c # s) [] (Suc n) = (c = CHR 0x00)"
| "strncmp_eq (c # s) (d # t) (Suc n) = (c = d \<and> (c = CHR 0x00 \<or> strncmp_eq s t n))"

text \<open>The first loop, downwards: \<open>p\<close> is one less than the argument.\<close>

fun prefix_loop :: "string \<Rightarrow> nat \<Rightarrow> nat \<Rightarrow> int list \<Rightarrow> int list" where
  "prefix_loop pat 0 last_prefix delta2 = delta2"
| "prefix_loop pat (Suc p) last_prefix delta2 =
     (let last_prefix' = (if strncmp_eq (drop p pat) pat (length pat - p) then p + 1 else last_prefix)
      in prefix_loop pat p last_prefix' (delta2[p := int (last_prefix' + (length pat - 1 - p))]))"

definition suffix_step :: "string \<Rightarrow> nat \<Rightarrow> int list \<Rightarrow> int list" where
  "suffix_step pat p delta2 =
     (let suf_len = max_suffix_len pat (length pat) p
      in if pat ! (p - suf_len) \<noteq> pat ! (length pat - 1 - suf_len)
         then delta2[length pat - 1 - suf_len := int (length pat - 1 - p + suf_len)] else delta2)"

definition bm_make_delta2 :: "string \<Rightarrow> int list" where
  "bm_make_delta2 pat =
     fold (suffix_step pat) [0..<length pat - 1]
       (prefix_loop pat (length pat) (length pat - 1) (replicate (length pat) 0))"

section \<open>The search\<close>

function bm_inner :: "string \<Rightarrow> string \<Rightarrow> int \<Rightarrow> int \<Rightarrow> int \<times> int" where
  "bm_inner str pat i j =
     (if 0 \<le> j \<and> str ! nat i = pat ! nat j then bm_inner str pat (i - 1) (j - 1) else (i, j))"
  by pat_completeness auto
termination
  by (relation "measure (\<lambda>(str, pat, i, j). nat (j + 1))") auto

declare bm_inner.simps [simp del]

text \<open>None: the loop does not end.\<close>

partial_function (option) bm_loop ::
  "string \<Rightarrow> string \<Rightarrow> int list \<Rightarrow> int list \<Rightarrow> int \<Rightarrow> nat option option" where
  "bm_loop str pat delta1 delta2 i =
     (if i < int (length str) then
        (let (i', j) = bm_inner str pat i (int (length pat) - 1)
         in if j < 0 then Some (Some (nat (i' + 1)))
            else bm_loop str pat delta1 delta2 (i' + max (delta1 ! of_char (str ! nat i')) (delta2 ! nat j)))
      else Some None)"

declare bm_loop.simps [code]

text \<open>
  The tables are made before the test for the empty pattern, whose length minus one wraps around: the
  loop of \<open>bm_make_delta1\<close> then runs off the pattern.
\<close>

definition bm_search :: "string \<Rightarrow> string \<Rightarrow> nat option option" where
  "bm_search str pat =
     (if pat = [] then None
      else bm_loop str pat (bm_make_delta1 pat) (bm_make_delta2 pat) (int (length pat) - 1))"

section \<open>The version\<close>

definition TZ_VER_STR :: string where "TZ_VER_STR = ''QC_IMAGE_VERSION_STRING=''"
definition TZ_VER_STR_LEN :: nat where "TZ_VER_STR_LEN = 24"
definition TZ_VER_BUF_LEN :: nat where "TZ_VER_BUF_LEN = 255"

datatype tz_error = OpenFailed | NotFound

text \<open>
  \<open>strncpy\<close>: the characters up to the NUL, at most as many as the buffer has; None if neither comes
  before the end of the mapping.
\<close>

definition strncpy :: "string \<Rightarrow> nat \<Rightarrow> string option" where
  "strncpy src n =
     (let s = takeWhile (\<lambda>c. c \<noteq> CHR 0x00) src
      in if length s = length src \<and> length src < n then None else Some (take n s))"

definition get_tz_version :: "string option \<Rightarrow> nat \<Rightarrow> (tz_error + string) option" where
  "get_tz_version tz len =
     (case tz of
        None \<Rightarrow> Some (Inl OpenFailed)
      | Some tz_data \<Rightarrow>
          (case bm_search tz_data TZ_VER_STR of
             None \<Rightarrow> None
           | Some None \<Rightarrow> Some (Inl NotFound)
           | Some (Some offset) \<Rightarrow> map_option Inr (strncpy (drop (offset + TZ_VER_STR_LEN) tz_data) len)))"

datatype tz_answer = Aborted | Answer bool

text \<open>
  \<open>verify_trustzone\<close>: an argument is None if its evaluation fails. The version is printed, so it must
  end within its buffer. In the second round \<open>ReadArgs\<close> stores two arguments, but there is one pointer.
\<close>

definition VerifyTrustZoneFn :: "string option \<Rightarrow> string option list \<Rightarrow> tz_answer option" where
  "VerifyTrustZoneFn tz args =
     (case get_tz_version tz TZ_VER_BUF_LEN of
        None \<Rightarrow> None
      | Some (Inl _) \<Rightarrow> Some Aborted
      | Some (Inr current) \<Rightarrow>
          (case args of
             [] \<Rightarrow> Some (Answer False)
           | None # _ \<Rightarrow> Some Aborted
           | Some tz_version # rest \<Rightarrow>
               if TZ_VER_BUF_LEN \<le> length current then None
               else if strncmp_eq tz_version current (length tz_version) then Some (Answer True)
               else if rest = [] then Some (Answer False) else None))"


section \<open>The tables are safe\<close>

text \<open>The number of characters the pattern moves on after a mismatch at \<open>j\<close>.\<close>

definition moves :: "int list \<Rightarrow> nat \<Rightarrow> nat \<Rightarrow> int" where
  "moves delta2 m j = delta2 ! j - int (m - 1 - j)"

definition unbordered :: "string \<Rightarrow> bool" where
  "unbordered pat = list_all (\<lambda>k. drop k pat \<noteq> take (length pat - k) pat) [1..<length pat]"

lemma suffix_loop_spec:
  "i \<le> p \<Longrightarrow> (\<forall>k<i. s ! (p - k) = s ! (n - 1 - k)) \<Longrightarrow>
   suffix_loop s n p i \<le> p \<and> (\<forall>k < suffix_loop s n p i. s ! (p - k) = s ! (n - 1 - k)) \<and>
   (suffix_loop s n p i < p \<longrightarrow> s ! (p - suffix_loop s n p i) \<noteq> s ! (n - 1 - suffix_loop s n p i))"
proof (induction s n p i rule: suffix_loop.induct)
  case (1 s n p i)
  show ?case
  proof (cases "s ! (p - i) = s ! (n - 1 - i) \<and> i < p")
    case True
    with 1(3) have "\<forall>k < Suc i. s ! (p - k) = s ! (n - 1 - k)" by (auto simp: less_Suc_eq)
    with 1(1) [OF True] True show ?thesis by (simp add: suffix_loop.simps [of s n p i])
  next
    case False
    with 1(2,3) show ?thesis by (auto simp: suffix_loop.simps [of s n p i])
  qed
qed

text \<open>If the \<open>l\<close> characters up to \<open>p\<close> are a suffix and the one before them is not, \<open>l\<close> is the length.\<close>

lemma max_suffix_len_unique:
  assumes "l \<le> p" "\<forall>k<l. s ! (p - k) = s ! (n - 1 - k)" "s ! (p - l) \<noteq> s ! (n - 1 - l)"
  shows "max_suffix_len s n p = l"
proof -
  let ?r = "max_suffix_len s n p"
  from suffix_loop_spec [of 0 p s n] have r: "?r \<le> p" "\<forall>k < ?r. s ! (p - k) = s ! (n - 1 - k)"
    "?r < p \<longrightarrow> s ! (p - ?r) \<noteq> s ! (n - 1 - ?r)" by (auto simp: max_suffix_len_def)
  have "\<not> ?r < l" using r(3) assms(1,2) by auto
  moreover have "\<not> l < ?r" using r(2) assms(3) by auto
  ultimately show ?thesis by simp
qed

lemma prefix_loop_length: "length (prefix_loop pat p lp d) = length d"
  by (induction pat p lp d rule: prefix_loop.induct) (simp_all add: Let_def)

lemma strncmp_eq_same: "strncmp_eq s s n"
proof (induction n arbitrary: s)
  case (Suc n)
  then show ?case by (cases s) simp_all
qed simp

lemma strncmp_eq_take: "CHR 0x00 \<notin> set s \<Longrightarrow> strncmp_eq s t (length s) = (take (length s) t = s)"
proof (induction s arbitrary: t)
  case (Cons c s)
  then show ?case by (cases t) auto
qed simp

lemma unbordered_no_prefix:
  assumes "unbordered pat" "CHR 0x00 \<notin> set pat" "0 < q" "q < length pat"
  shows "\<not> strncmp_eq (drop q pat) pat (length pat - q)"
proof -
  have "drop q pat \<noteq> take (length pat - q) pat" using assms by (auto simp: unbordered_def list_all_iff)
  moreover have "CHR 0x00 \<notin> set (drop q pat)" using assms(2) by (meson in_set_dropD)
  ultimately show ?thesis using strncmp_eq_take [of "drop q pat" pat] by auto
qed

lemma prefix_loop_values:
  "\<forall>q. 0 < q \<and> q < length pat \<longrightarrow> \<not> strncmp_eq (drop q pat) pat (length pat - q) \<Longrightarrow>
   p \<le> length pat \<Longrightarrow> p \<le> length d \<Longrightarrow> j < length d \<Longrightarrow>
   prefix_loop pat p lp d ! j = (if j < p then int ((if j = 0 then 1 else lp) + (length pat - 1 - j)) else d ! j)"
proof (induction pat p lp d rule: prefix_loop.induct)
  case (2 pat p lp d)
  show ?case
  proof (cases "p = 0")
    case True
    then show ?thesis using 2(5) by (auto simp: strncmp_eq_same)
  next
    case False
    then have b: "\<not> strncmp_eq (drop p pat) pat (length pat - p)" using 2(2,3) by simp
    have "prefix_loop pat p lp (d[p := int (lp + (length pat - 1 - p))]) ! j =
      (if j < p then int ((if j = 0 then 1 else lp) + (length pat - 1 - j)) else d[p := int (lp + (length pat - 1 - p))] ! j)"
      using 2(1) [OF refl, simplified b if_False, OF 2(2)] 2(3-5) by simp
    then show ?thesis using False b 2(5) by (auto simp: Let_def less_Suc_eq nth_list_update)
  qed
qed simp

lemma suffix_step_length [simp]: "length (suffix_step pat p d) = length d"
  by (simp add: suffix_step_def Let_def)

lemma suffix_fold_length: "length (fold (suffix_step pat) ps d) = length d"
  by (induction ps arbitrary: d) simp_all

text \<open>The second loop sets the entry for a suffix that ends at \<open>p\<close> and cannot be extended there.\<close>

definition sets_entry :: "string \<Rightarrow> nat \<Rightarrow> nat \<Rightarrow> bool" where
  "sets_entry pat p j \<longleftrightarrow>
     (let l = max_suffix_len pat (length pat) p in pat ! (p - l) \<noteq> pat ! (length pat - 1 - l) \<and> j = length pat - 1 - l)"

lemma suffix_step_nth:
  assumes "p < length pat - 1" "j < length d" "length d = length pat"
  shows "suffix_step pat p d ! j =
    (if sets_entry pat p j then int (length pat - 1 - p) + int (length pat - 1 - j) else d ! j)"
proof -
  have "max_suffix_len pat (length pat) p \<le> p"
    using suffix_loop_spec [of 0 p pat "length pat"] by (simp add: max_suffix_len_def)
  with assms show ?thesis
    by (auto simp: suffix_step_def sets_entry_def Let_def nth_list_update)
qed

lemma suffix_fold_bounds:
  assumes "n \<le> length pat - 1" "length d = length pat" "j < length pat"
  shows "(\<forall>p<n. sets_entry pat p j \<longrightarrow> fold (suffix_step pat) [0..<n] d ! j \<le> int (length pat - 1 - p) + int (length pat - 1 - j)) \<and>
     (fold (suffix_step pat) [0..<n] d ! j = d ! j \<or>
      (\<exists>p<n. fold (suffix_step pat) [0..<n] d ! j = int (length pat - 1 - p) + int (length pat - 1 - j)))"
  using assms(1)
proof (induction n)
  case (Suc n)
  let ?d = "fold (suffix_step pat) [0..<n] d"
  have s: "fold (suffix_step pat) [0..<Suc n] d ! j =
    (if sets_entry pat n j then int (length pat - 1 - n) + int (length pat - 1 - j) else ?d ! j)"
    using suffix_step_nth [of n pat j ?d] Suc(2) assms(2,3) by (simp add: suffix_fold_length)
  from Suc(2) have n: "n \<le> length pat - 1" by simp
  show ?case
  proof (cases "sets_entry pat n j")
    case True
    have "int (length pat - 1 - n) \<le> int (length pat - 1 - p)" if "p < Suc n" for p using that by simp
    with True show ?thesis unfolding s by auto
  next
    case False
    with Suc(1) [OF n] show ?thesis unfolding s by (auto simp: less_Suc_eq simp del: of_nat_diff)
  qed
qed simp

text \<open>The last mismatch still moves the pattern on, and never past a place where it could be.\<close>

lemma delta2_moves:
  assumes un: "unbordered pat" and nul: "CHR 0x00 \<notin> set pat" and j: "j < length pat"
  shows "1 \<le> moves (bm_make_delta2 pat) (length pat) j \<and>
     moves (bm_make_delta2 pat) (length pat) j \<le> (if j = 0 then max 1 (int (length pat) - 1) else int (length pat) - 1) \<and>
     (\<forall>p < length pat - 1. sets_entry pat p j \<longrightarrow> moves (bm_make_delta2 pat) (length pat) j \<le> int (length pat - 1 - p))"
proof -
  let ?m = "length pat"
  let ?d = "prefix_loop pat ?m (?m - 1) (replicate ?m 0)"
  have d: "?d ! j = int ((if j = 0 then 1 else ?m - 1) + (?m - 1 - j))"
    using prefix_loop_values [of pat ?m "replicate ?m 0" j "?m - 1"] unbordered_no_prefix [OF un nul] j by simp
  have l: "length ?d = ?m" by (simp add: prefix_loop_length)
  from suffix_fold_bounds [OF order_refl l j]
  have b: "\<forall>p < ?m - 1. sets_entry pat p j \<longrightarrow> bm_make_delta2 pat ! j \<le> int (?m - 1 - p) + int (?m - 1 - j)"
    "bm_make_delta2 pat ! j = ?d ! j \<or> (\<exists>p < ?m - 1. bm_make_delta2 pat ! j = int (?m - 1 - p) + int (?m - 1 - j))"
    unfolding bm_make_delta2_def by blast+
  have "j \<noteq> 0 \<Longrightarrow> 1 \<le> int (?m - 1)" using j by simp
  with b(2) d have r: "1 \<le> bm_make_delta2 pat ! j - int (?m - 1 - j)"
    "bm_make_delta2 pat ! j - int (?m - 1 - j) \<le> (if j = 0 then max 1 (int ?m - 1) else int ?m - 1)"
    by (auto split: if_splits)
  with b(1) show ?thesis unfolding moves_def by (simp add: algebra_simps)
qed

definition delta1_step :: "string \<Rightarrow> nat \<Rightarrow> int list \<Rightarrow> int list" where
  "delta1_step pat i delta1 = delta1[of_char (pat ! i) := int (length pat - 1 - i)]"

lemma delta1_fold_length [simp]: "length (fold (delta1_step pat) ps d) = length d"
  by (induction ps arbitrary: d) (simp_all add: delta1_step_def)

lemma delta1_step_nth:
  "length d = ALPHABET_LEN \<Longrightarrow> delta1_step pat i d ! of_char (c :: char) = (if pat ! i = c then int (length pat - 1 - i) else d ! of_char c)"
  by (simp add: delta1_step_def nth_list_update ALPHABET_LEN_def)

lemma delta1_fold:
  fixes c :: char
  assumes "length d = ALPHABET_LEN"
  shows "(\<forall>q<n. pat ! q = c \<longrightarrow> fold (delta1_step pat) [0..<n] d ! of_char c \<le> int (length pat - 1 - q)) \<and>
      (fold (delta1_step pat) [0..<n] d ! of_char c = d ! of_char c \<or>
       (\<exists>q<n. fold (delta1_step pat) [0..<n] d ! of_char c = int (length pat - 1 - q)))"
proof (induction n)
  case (Suc n)
  have s: "fold (delta1_step pat) [0..<Suc n] d ! of_char c =
    (if pat ! n = c then int (length pat - 1 - n) else fold (delta1_step pat) [0..<n] d ! of_char c)"
    using delta1_step_nth [of "fold (delta1_step pat) [0..<n] d" pat n c] assms by simp
  show ?case
  proof (cases "pat ! n = c")
    case True
    have "int (length pat - 1 - n) \<le> int (length pat - 1 - q)" if "q < Suc n" for q using that by simp
    with True show ?thesis unfolding s by auto
  next
    case False
    with Suc show ?thesis unfolding s by (auto simp: less_Suc_eq simp del: of_nat_diff)
  qed
qed simp

lemma delta1_bounds:
  fixes c :: char
  shows "(\<forall>q < length pat - 1. pat ! q = c \<longrightarrow> bm_make_delta1 pat ! of_char c \<le> int (length pat - 1 - q)) \<and>
    bm_make_delta1 pat ! of_char c \<le> int (length pat)"
proof -
  have m: "bm_make_delta1 pat = fold (delta1_step pat) [0..<length pat - 1] (replicate ALPHABET_LEN (int (length pat)))"
    by (simp add: bm_make_delta1_def delta1_step_def [abs_def])
  have r: "replicate ALPHABET_LEN (int (length pat)) ! of_char c = int (length pat)"
    by (simp add: ALPHABET_LEN_def)
  from delta1_fold [of "replicate ALPHABET_LEN (int (length pat))" "length pat - 1" pat c] show ?thesis
    unfolding m r by auto
qed


section \<open>The search finds the first occurrence\<close>

definition occurs_at :: "string \<Rightarrow> string \<Rightarrow> nat \<Rightarrow> bool" where
  "occurs_at str pat k \<longleftrightarrow> take (length pat) (drop k str) = pat"

definition naive_search :: "string \<Rightarrow> string \<Rightarrow> nat option" where
  "naive_search str pat = List.find (occurs_at str pat) [0..<length str]"

lemma occurs_at_nth:
  "occurs_at str pat k \<Longrightarrow> q < length pat \<Longrightarrow> k + q < length str \<and> str ! (k + q) = pat ! q"
proof -
  assume o: "occurs_at str pat k" and q: "q < length pat"
  then have l: "length pat \<le> length str - k" unfolding occurs_at_def by (metis length_drop length_take min.cobounded1)
  with q have "k + q < length str" by simp
  moreover have "take (length pat) (drop k str) ! q = str ! (k + q)" using q l by simp
  ultimately show ?thesis using o by (simp add: occurs_at_def)
qed

lemma occurs_atI:
  "k + length pat \<le> length str \<Longrightarrow> (\<And>q. q < length pat \<Longrightarrow> str ! (k + q) = pat ! q) \<Longrightarrow> occurs_at str pat k"
  unfolding occurs_at_def by (rule nth_equalityI) simp_all

lemma bm_inner_spec:
  "-1 \<le> j \<Longrightarrow> \<exists>j'. bm_inner str pat (int w + j) j = (int w + j', j') \<and> -1 \<le> j' \<and> j' \<le> j \<and>
     (\<forall>q. j' < int q \<and> int q \<le> j \<longrightarrow> str ! (w + q) = pat ! q) \<and> (0 \<le> j' \<longrightarrow> str ! (w + nat j') \<noteq> pat ! nat j')"
proof (induction "nat (j + 1)" arbitrary: j)
  case 0
  then have "j = -1" by simp
  then show ?case by (subst bm_inner.simps) auto
next
  case (Suc n)
  then have j: "0 \<le> j" by simp
  then have n: "nat (int w + j) = w + nat j" by simp
  show ?case
  proof (cases "str ! (w + nat j) = pat ! nat j")
    case True
    from Suc(2) have "n = nat ((j - 1) + 1)" by simp
    from Suc(1) [OF this] j obtain j' where j': "bm_inner str pat (int w + (j - 1)) (j - 1) = (int w + j', j')" "-1 \<le> j'" "j' \<le> j - 1"
      "\<forall>q. j' < int q \<and> int q \<le> j - 1 \<longrightarrow> str ! (w + q) = pat ! q" "0 \<le> j' \<longrightarrow> str ! (w + nat j') \<noteq> pat ! nat j'" by auto
    have "bm_inner str pat (int w + j) j = (int w + j', j')"
      using True j j'(1) n by (subst bm_inner.simps) (simp add: algebra_simps)
    moreover have "str ! (w + q) = pat ! q" if "j' < int q" "int q \<le> j" for q
      using that j'(4) True by (cases "int q = j") auto
    ultimately show ?thesis using j' by (intro exI [of _ j']) auto
  next
    case False
    then show ?thesis using j n by (subst bm_inner.simps) (auto intro!: exI [of _ j])
  qed
qed

text \<open>No occurrence lies between the old and the new place of the pattern.\<close>

lemma skip_safe:
  assumes un: "unbordered pat" and nul: "CHR 0x00 \<notin> set pat" and j: "j < length pat"
    and match: "\<forall>q. j < q \<and> q < length pat \<longrightarrow> str ! (w + q) = pat ! q" and mis: "str ! (w + j) \<noteq> pat ! j"
    and s: "0 < s" "int s < max (bm_make_delta1 pat ! of_char (str ! (w + j)) - int (length pat - 1 - j))
       (moves (bm_make_delta2 pat) (length pat) j)"
  shows "\<not> occurs_at str pat (w + s)"
proof
  assume o: "occurs_at str pat (w + s)"
  let ?m = "length pat" and ?c = "str ! (w + j)"
  note d2 = delta2_moves [OF un nul j]
  have at: "str ! (w + k) = pat ! (k - s)" if "s \<le> k" "k < ?m" for k
    using occurs_at_nth [OF o, of "k - s"] that by simp
  have before: "pat ! (j - s) = ?c" "pat ! (j - s) \<noteq> pat ! j" if "s \<le> j"
    using at [OF that j] mis by simp_all
  show False
  proof (cases "int s < bm_make_delta1 pat ! of_char ?c - int (?m - 1 - j)")
    case True
    with delta1_bounds [of pat ?c] have "s \<le> j" using j by linarith
    moreover have "j - s < ?m - 1" using \<open>s \<le> j\<close> s(1) j by linarith
    ultimately have "bm_make_delta1 pat ! of_char ?c \<le> int (?m - 1 - (j - s))"
      using delta1_bounds [of pat ?c] before(1) by blast
    with True \<open>s \<le> j\<close> j show False by simp
  next
    case False
    with s(2) have m: "int s < moves (bm_make_delta2 pat) ?m j" by simp
    show False
    proof (cases "s \<le> j")
      case True
      have "max_suffix_len pat ?m (?m - 1 - s) = ?m - 1 - j"
      proof (rule max_suffix_len_unique)
        show "?m - 1 - j \<le> ?m - 1 - s" using True by simp
        show "\<forall>k<?m - 1 - j. pat ! (?m - 1 - s - k) = pat ! (?m - 1 - k)"
        proof (intro allI impI)
          fix k assume k: "k < ?m - 1 - j"
          then have "str ! (w + (?m - 1 - k)) = pat ! (?m - 1 - k - s)" using True by (intro at) auto
          moreover have "str ! (w + (?m - 1 - k)) = pat ! (?m - 1 - k)"
            using match [rule_format, of "?m - 1 - k"] k by linarith
          moreover have "?m - 1 - k - s = ?m - 1 - s - k" by simp
          ultimately show "pat ! (?m - 1 - s - k) = pat ! (?m - 1 - k)" by simp
        qed
        have "?m - 1 - s - (?m - 1 - j) = j - s" "?m - 1 - (?m - 1 - j) = j" using j True by auto
        then show "pat ! (?m - 1 - s - (?m - 1 - j)) \<noteq> pat ! (?m - 1 - (?m - 1 - j))" using before(2) [OF True] by simp
      qed
      moreover have "?m - 1 - s - (?m - 1 - j) = j - s" "?m - 1 - (?m - 1 - j) = j" using j True by auto
      ultimately have "sets_entry pat (?m - 1 - s) j" using before(2) [OF True] by (simp add: sets_entry_def)
      moreover have "?m - 1 - s < ?m - 1" using s(1) j True by linarith
      ultimately have "moves (bm_make_delta2 pat) ?m j \<le> int (?m - 1 - (?m - 1 - s))" using d2 by blast
      with m True j show False by simp
    next
      case False
      from d2 m s(1) have sm: "s < ?m - 1" by (auto split: if_splits)
      have "drop s pat = take (?m - s) pat"
      proof (rule nth_equalityI)
        fix q assume q: "q < length (drop s pat)"
        then have "str ! (w + (s + q)) = pat ! (s + q)" using match False by auto
        moreover have "str ! (w + (s + q)) = pat ! q" using at [of "s + q"] q by simp
        ultimately show "drop s pat ! q = take (?m - s) pat ! q" using q by simp
      qed simp
      then show False using un s(1) sm by (auto simp: unbordered_def list_all_iff)
    qed
  qed
qed

lemma bm_loop_correct:
  assumes un: "unbordered pat" and nul: "CHR 0x00 \<notin> set pat" and ne: "pat \<noteq> []"
  shows "(\<forall>k<w. \<not> occurs_at str pat k) \<Longrightarrow>
    bm_loop str pat (bm_make_delta1 pat) (bm_make_delta2 pat) (int w + (int (length pat) - 1)) = Some (naive_search str pat)"
proof (induction "length str - w" arbitrary: w rule: less_induct)
  case less
  let ?m = "length pat"
  have m: "1 \<le> ?m" using ne by (cases pat) auto
  show ?case
  proof (cases "int w + (int ?m - 1) < int (length str)")
    case False
    have "\<not> occurs_at str pat k" for k
    proof (cases "k < w")
      case True
      with less(2) show ?thesis by simp
    next
      case k: False
      show ?thesis
      proof
        assume "occurs_at str pat k"
        from occurs_at_nth [OF this, of "?m - 1"] m have "k + (?m - 1) < length str" by simp
        with False k m show False by linarith
      qed
    qed
    then have "naive_search str pat = None" by (simp add: naive_search_def find_None_iff)
    with False show ?thesis by (simp add: bm_loop.simps)
  next
    case True
    obtain j where j: "bm_inner str pat (int w + (int ?m - 1)) (int ?m - 1) = (int w + j, j)" "-1 \<le> j" "j \<le> int ?m - 1"
      "\<forall>q. j < int q \<and> int q \<le> int ?m - 1 \<longrightarrow> str ! (w + q) = pat ! q" "0 \<le> j \<longrightarrow> str ! (w + nat j) \<noteq> pat ! nat j"
      using bm_inner_spec [of "int ?m - 1" str pat w] m by auto
    show ?thesis
    proof (cases "j < 0")
      case neg: True
      have "occurs_at str pat w"
        using j(4) neg True by (intro occurs_atI) auto
      then have "naive_search str pat = Some w"
        using less(2) True m by (auto simp: naive_search_def find_Some_iff intro!: exI [of _ w])
      with True j(1,2) neg show ?thesis by (simp add: bm_loop.simps)
    next
      case nonneg: False
      define k where "k = nat j"
      have k: "j = int k" "k < ?m" using nonneg j(3) by (auto simp: k_def)
      let ?d1 = "bm_make_delta1 pat ! of_char (str ! (w + k))" and ?d2 = "bm_make_delta2 pat ! k"
      define s where "s = nat (max (?d1 - int (?m - 1 - k)) (moves (bm_make_delta2 pat) ?m k))"
      have mv: "1 \<le> moves (bm_make_delta2 pat) ?m k" using delta2_moves [OF un nul k(2)] by simp
      then have s: "int s = max (?d1 - int (?m - 1 - k)) (moves (bm_make_delta2 pat) ?m k)" "1 \<le> s" by (auto simp: s_def)
      have i: "int w + j + max ?d1 ?d2 = int (w + s) + (int ?m - 1)"
        using s(1) k by (simp add: moves_def max_def split: if_splits)
      have no: "\<not> occurs_at str pat r" if "r < w + s" for r
      proof (cases "r \<le> w")
        case True
        have "\<not> occurs_at str pat w" using occurs_at_nth [of str pat w k] j(5) k by auto
        with True less(2) show ?thesis by (cases "r = w") auto
      next
        case False
        have "\<not> occurs_at str pat (w + (r - w))"
          by (rule skip_safe [OF un nul k(2)]) (use j(4,5) k False that s(1) in auto)
        with False show ?thesis by simp
      qed
      have "bm_loop str pat (bm_make_delta1 pat) (bm_make_delta2 pat) (int (w + s) + (int ?m - 1)) = Some (naive_search str pat)"
        by (rule less(1)) (use True m s(2) no in auto)
      moreover have "nat (int w + j) = w + k" using k(1) by simp
      ultimately show ?thesis
        using True j(1) nonneg i [unfolded k_def] by (subst bm_loop.simps) (simp only: k_def prod.case Let_def if_True if_False)
    qed
  qed
qed

text \<open>
  The Boyer-Moore search returns, and finds the first occurrence of the pattern or none if there is
  none, for every text and every pattern that is not empty, holds no NUL and has no border (no proper
  suffix that is also a prefix), such as the version string it is used for.
\<close>

theorem bm_search_is_naive:
  "pat \<noteq> [] \<Longrightarrow> unbordered pat \<Longrightarrow> CHR 0x00 \<notin> set pat \<Longrightarrow> bm_search str pat = Some (naive_search str pat)"
  using bm_loop_correct [of pat 0 str] by (simp add: bm_search_def)

lemma TZ_VER_STR_unbordered: "TZ_VER_STR \<noteq> [] \<and> unbordered TZ_VER_STR \<and> CHR 0x00 \<notin> set TZ_VER_STR"
  by code_simp

theorem bm_search_is_naive_witness:
  "bm_search ''ab=QC_IMAGE_QC_IMAGE_VERSION_STRING=TZ.1'' TZ_VER_STR = Some (Some 12)"
proof -
  have "naive_search ''ab=QC_IMAGE_QC_IMAGE_VERSION_STRING=TZ.1'' TZ_VER_STR = Some 12" by code_simp
  with bm_search_is_naive [of TZ_VER_STR] TZ_VER_STR_unbordered show ?thesis by simp
qed

text \<open>With a border the shift table is wrong: the search misses an occurrence.\<close>

lemma bm_search_misses: "bm_search ''xxcabca'' ''abca'' = Some None \<and> naive_search ''xxcabca'' ''abca'' = Some 3"
  by code_simp

section \<open>What is accepted\<close>

lemma naive_search_first:
  "occurs_at str pat k \<Longrightarrow> k < length str \<Longrightarrow> (\<And>i. i < k \<Longrightarrow> \<not> occurs_at str pat i) \<Longrightarrow> naive_search str pat = Some k"
  by (auto simp: naive_search_def find_Some_iff intro!: exI [of _ k])

lemma strncmp_eq_prefix:
  "CHR 0x00 \<notin> set v \<Longrightarrow> strncmp_eq v t (length v) = (\<exists>rest. t = v @ rest)"
  using strncmp_eq_take [of v t] by (metis append_eq_conv_conj append_take_drop_id)

text \<open>
  If the partition holds a version, its first one, \<open>verify_trustzone\<close> says yes exactly if the first argument is
  a prefix of it, so the empty argument is always accepted; the further arguments are never compared.
\<close>

theorem verify_first_argument:
  assumes tz: "tz = before @ TZ_VER_STR @ version @ CHR 0x00 # rest"
    and first: "\<And>k. k < length before \<Longrightarrow> \<not> occurs_at tz TZ_VER_STR k"
    and v: "CHR 0x00 \<notin> set version" "length version < TZ_VER_BUF_LEN" and a: "CHR 0x00 \<notin> set arg"
  shows "VerifyTrustZoneFn (Some tz) (Some arg # args) =
     (if \<exists>tail. version = arg @ tail then Some (Answer True) else if args = [] then Some (Answer False) else None)"
proof -
  have l: "length TZ_VER_STR = TZ_VER_STR_LEN" by code_simp
  have "occurs_at tz TZ_VER_STR (length before)" "length before < length tz"
    using l by (simp_all add: occurs_at_def tz)
  with first have "naive_search tz TZ_VER_STR = Some (length before)" by (intro naive_search_first) auto
  then have s: "bm_search tz TZ_VER_STR = Some (Some (length before))"
    using bm_search_is_naive [of TZ_VER_STR tz] TZ_VER_STR_unbordered by simp
  have "drop (length before + TZ_VER_STR_LEN) tz = version @ CHR 0x00 # rest"
    using l by (simp add: tz)
  moreover have "takeWhile (\<lambda>c. c \<noteq> CHR 0x00) (version @ CHR 0x00 # rest) = version"
    using v(1) by (subst takeWhile_append2) auto
  ultimately have "get_tz_version (Some tz) TZ_VER_BUF_LEN = Some (Inr version)"
    using v(2) by (simp add: get_tz_version_def s strncpy_def)
  then show ?thesis using v(2) strncmp_eq_prefix [OF a] by (simp add: VerifyTrustZoneFn_def)
qed

theorem verify_first_argument_witness:
  "VerifyTrustZoneFn (Some (''ab='' @ TZ_VER_STR @ ''TZ.1.2'' @ CHR 0x00 # ''cd'')) [Some ''TZ.1'', Some ''X''] = Some (Answer True)"
proof -
  have "\<not> occurs_at (''ab='' @ TZ_VER_STR @ ''TZ.1.2'' @ CHR 0x00 # ''cd'') TZ_VER_STR k" if "k < length ''ab=''" for k
  proof -
    have "list_all (\<lambda>k. \<not> occurs_at (''ab='' @ TZ_VER_STR @ ''TZ.1.2'' @ CHR 0x00 # ''cd'') TZ_VER_STR k) [0..<3]" by code_simp
    with that show ?thesis by (auto simp: list_all_iff)
  qed
  moreover have "CHR 0x00 \<notin> set ''TZ.1.2''" "CHR 0x00 \<notin> set ''TZ.1''" "length ''TZ.1.2'' < TZ_VER_BUF_LEN" by code_simp+
  ultimately have "VerifyTrustZoneFn (Some (''ab='' @ TZ_VER_STR @ ''TZ.1.2'' @ CHR 0x00 # ''cd'')) [Some ''TZ.1'', Some ''X''] =
     (if \<exists>tail. ''TZ.1.2'' = ''TZ.1'' @ tail then Some (Answer True) else if [Some ''X''] = [] then Some (Answer False) else None)"
    by (intro verify_first_argument [OF refl])
  then show ?thesis by simp
qed

end
