(* ===== verification/Lights.thy ===== *)
theory Lights
  imports Loc_Prelude "HOL-Library.Word"
begin

text \<open>
  \<open>liblight/lights.c\<close>: the lights of the device.

  \<^item> The state is the array \<open>g_lights\<close> and the log of the values written to the files of the kernel,
    in order; what the writes return is not looked at by the code. The mutex makes each function one step.
  \<^item> \<open>int\<close> has 32 bits: None is a signed overflow.
  \<^item> Shown: the brightness is in its range; after a notification or an attention light the LED shows
    exactly the light of the highest priority; what a battery light leaves behind.
\<close>

section \<open>The state\<close>

datatype flash_mode = LIGHT_FLASH_NONE | LIGHT_FLASH_TIMED | LIGHT_FLASH_HARDWARE

record light_state =
  color :: "32 word"
  flashMode :: flash_mode
  flashOnMS :: int
  flashOffMS :: int

datatype light_file = LCD_BRIGHTNESS_FILE | GREEN_LED_BRIGHTNESS_FILE | RED_LED_BRIGHTNESS_FILE |
  GREEN_LED_PWM_FILE | RED_LED_PWM_FILE

record lights =
  attention :: light_state
  notification :: light_state
  writes :: "(light_file \<times> int) list"

definition LED_LIGHT_OFF :: int where "LED_LIGHT_OFF = 0"
definition LED_LIGHT_ON :: int where "LED_LIGHT_ON = 255"

definition dark :: light_state where
  "dark = \<lparr>color = 0, flashMode = LIGHT_FLASH_NONE, flashOnMS = 0, flashOffMS = 0\<rparr>"

definition lights_start :: lights where
  "lights_start = \<lparr>attention = dark, notification = dark, writes = []\<rparr>"

definition write_int :: "light_file \<Rightarrow> int \<Rightarrow> lights \<Rightarrow> lights" where
  "write_int path v l = l\<lparr>writes := writes l @ [(path, v)]\<rparr>"

definition in_int :: "int \<Rightarrow> bool" where
  "in_int i \<longleftrightarrow> - (2 ^ 31) \<le> i \<and> i < 2 ^ 31"

section \<open>The operations\<close>

definition is_lit :: "light_state \<Rightarrow> bool" where
  "is_lit state \<longleftrightarrow> and (color state) 0x00ffffff \<noteq> 0"

definition rgb_to_brightness :: "light_state \<Rightarrow> int" where
  "rgb_to_brightness state =
     (let col = and (color state) 0x00ffffff
      in sint (drop_bit 8 (77 * and (drop_bit 16 col) 0x00ff + 150 * and (drop_bit 8 col) 0x00ff + 29 * and col 0x00ff)))"

definition set_light_backlight :: "light_state \<Rightarrow> lights \<Rightarrow> lights" where
  "set_light_backlight state = write_int LCD_BRIGHTNESS_FILE (rgb_to_brightness state)"

text \<open>The alpha byte is the level, if it is not 0.\<close>

definition brightness_level :: "light_state \<Rightarrow> int" where
  "brightness_level state =
     (if is_lit state
      then (if and (color state) 0xff000000 \<noteq> 0 then uint (drop_bit 24 (and (color state) 0xff000000)) else LED_LIGHT_ON)
      else LED_LIGHT_OFF)"

definition set_light_locked :: "light_state \<Rightarrow> lights \<Rightarrow> lights option" where
  "set_light_locked state l =
     (let (onMS, offMS) = (case flashMode state of
             LIGHT_FLASH_TIMED \<Rightarrow> (flashOnMS state, flashOffMS state)
           | LIGHT_FLASH_HARDWARE \<Rightarrow> (flashOnMS state, flashOffMS state)
           | LIGHT_FLASH_NONE \<Rightarrow> (0, 0));
          off = write_int RED_LED_BRIGHTNESS_FILE LED_LIGHT_OFF (write_int GREEN_LED_BRIGHTNESS_FILE LED_LIGHT_OFF l)
      in if 0 < onMS \<and> 0 < offMS then
           (if \<not> in_int (onMS + offMS) \<or> \<not> in_int (onMS * 255) \<or> \<not> in_int (offMS * 1000) then None
            else
              (let totalMS = onMS + offMS;
                   fake_pwm0 = onMS * 255 div totalMS;
                   fake_pwm = (if 0 < fake_pwm0 \<and> fake_pwm0 < 16 then 16 else fake_pwm0);
                   pwm = offMS * 1000
               in Some (write_int GREEN_LED_PWM_FILE pwm (write_int GREEN_LED_BRIGHTNESS_FILE fake_pwm off))))
         else Some (write_int GREEN_LED_PWM_FILE 100 (write_int GREEN_LED_BRIGHTNESS_FILE (brightness_level state) off)))"

definition handle_led_prioritized_locked :: "light_state \<Rightarrow> lights \<Rightarrow> lights option" where
  "handle_led_prioritized_locked state l =
     (if is_lit (attention l) then set_light_locked (attention l) l
      else if is_lit (notification l) then set_light_locked (notification l) l
      else set_light_locked state l)"

definition set_light_notifications :: "light_state \<Rightarrow> lights \<Rightarrow> lights option" where
  "set_light_notifications state l = handle_led_prioritized_locked state (l\<lparr>notification := state\<rparr>)"

definition set_light_attention :: "light_state \<Rightarrow> lights \<Rightarrow> lights option" where
  "set_light_attention state l = handle_led_prioritized_locked state (l\<lparr>attention := state\<rparr>)"

definition set_light_battery :: "light_state \<Rightarrow> lights \<Rightarrow> lights" where
  "set_light_battery state l =
     (let level0 = uint (drop_bit 24 (and (color state) 0xFF000000));
          level = (if level0 < 0 then 0 else if 100 < level0 then 100 else level0);
          off = write_int RED_LED_BRIGHTNESS_FILE LED_LIGHT_OFF (write_int GREEN_LED_BRIGHTNESS_FILE LED_LIGHT_OFF l);
          red = (\<lambda>l. write_int RED_LED_PWM_FILE 100 (write_int RED_LED_BRIGHTNESS_FILE 255 l));
          green = (\<lambda>l. write_int GREEN_LED_PWM_FILE 100 (write_int GREEN_LED_BRIGHTNESS_FILE 255 l))
      in if is_lit state
         then (if level \<le> 15 then red off else if level \<le> 99 then red (green off) else green off)
         else off)"

text \<open>\<open>open_lights\<close>: the function of a name, or \<open>EINVAL\<close>.\<close>

datatype light_id = Backlight | Notifications | Attention | Battery

definition open_lights :: "string \<Rightarrow> light_id option" where
  "open_lights name =
     (if name = ''backlight'' then Some Backlight
      else if name = ''notifications'' then Some Notifications
      else if name = ''attention'' then Some Attention
      else if name = ''battery'' then Some Battery
      else None)"

definition set_light :: "light_id \<Rightarrow> light_state \<Rightarrow> lights \<Rightarrow> lights option" where
  "set_light i state l =
     (case i of
        Backlight \<Rightarrow> Some (set_light_backlight state l)
      | Notifications \<Rightarrow> set_light_notifications state l
      | Attention \<Rightarrow> set_light_attention state l
      | Battery \<Rightarrow> Some (set_light_battery state l))"

fun light_run :: "(light_id \<times> light_state) list \<Rightarrow> lights \<Rightarrow> lights option" where
  "light_run [] l = Some l"
| "light_run ((i, st) # evs) l = (case set_light i st l of None \<Rightarrow> None | Some l' \<Rightarrow> light_run evs l')"

section \<open>The brightness\<close>

text \<open>The sum of the weights is 256, so white is exactly 255.\<close>

lemma rgb_bound:
  fixes r g b :: "32 word"
  assumes "r \<le> 255" "g \<le> 255" "b \<le> 255"
  shows "uint (77 * r + 150 * g + 29 * b) = 77 * uint r + 150 * uint g + 29 * uint b"
  using assms by (simp add: word_le_def uint_word_ariths)

text \<open>The brightness is the weighted mean of the channels, computed without overflow.\<close>

lemma uint_drop_8: "uint (drop_bit 8 (w :: 32 word)) = uint w div 256"
proof -
  have "take_bit 32 (uint w) = uint w" using uint_lt2p [of w] by (simp add: take_bit_int_eq_self_iff)
  then show ?thesis unfolding unsigned_drop_bit_eq by (simp add: drop_bit_eq_div)
qed

lemma sint_small: "uint (w :: 32 word) < 2 ^ 31 \<Longrightarrow> sint w = uint w"
  unfolding sint_uint by (rule signed_take_bit_int_eq_self) (auto intro: order_trans [of _ 0])

lemma rgb_to_brightness_mean:
  "rgb_to_brightness st =
     (77 * uint (and (drop_bit 16 (color st)) 0xff) + 150 * uint (and (drop_bit 8 (color st)) 0xff) + 29 * uint (and (color st) 0xff)) div 256"
proof -
  let ?c = "and (color st) 0x00ffffff"
  let ?r = "and (drop_bit 16 (color st)) 0xff" and ?g = "and (drop_bit 8 (color st)) 0xff" and ?b = "and (color st) 0xff"
  have m: "(0x00ffffff :: 32 word) = mask 24" "(0xff :: 32 word) = mask 8" by (simp_all add: mask_eq_exp_minus_1)
  have eqs: "and (drop_bit 16 ?c) 0xff = ?r" "and (drop_bit 8 ?c) 0xff = ?g" "and ?c 0xff = ?b"
    unfolding m by (auto intro!: bit_eqI simp: bit_simps)
  have le: "?r \<le> 255" "?g \<le> 255" "?b \<le> 255"
    unfolding word_le_def by (simp_all add: uint_and AND_upper2)
  have bd: "uint ?r \<le> 255" "uint ?g \<le> 255" "uint ?b \<le> 255" using le by (simp_all add: word_le_def)
  have "sint (drop_bit 8 (77 * ?r + 150 * ?g + 29 * ?b)) = uint (drop_bit 8 (77 * ?r + 150 * ?g + 29 * ?b))"
  proof -
    have "uint (drop_bit 8 (77 * ?r + 150 * ?g + 29 * ?b)) = (77 * uint ?r + 150 * uint ?g + 29 * uint ?b) div 256"
      unfolding uint_drop_8 rgb_bound [OF le] ..
    then have "uint (drop_bit 8 (77 * ?r + 150 * ?g + 29 * ?b)) < 2 ^ 31" using bd by simp
    then show ?thesis by (rule sint_small)
  qed
  then show ?thesis
    unfolding rgb_to_brightness_def Let_def eqs uint_drop_8 rgb_bound [OF le] by simp
qed

lemma rgb_to_brightness_range: "rgb_to_brightness st \<in> {0..255}"
proof -
  have "uint (and w (0xff :: 32 word)) \<le> 255" for w by (simp add: uint_and AND_upper2)
  note bd = this
  have "(77 * r + 150 * g + 29 * b) div 256 \<in> {0..255}" if "0 \<le> r" "r \<le> 255" "0 \<le> g" "g \<le> 255" "0 \<le> b" "b \<le> 255" for r g b :: int
    using that by (simp only: atLeastAtMost_iff) arith
  then show ?thesis unfolding rgb_to_brightness_mean by (metis bd unsigned_greater_eq)
qed


section \<open>What the LED shows\<close>

text \<open>A lamp shows the last value of its brightness file, if it is not 0, with the last value of its pulse
  file. What it should show is computed from the events alone, without the array and the files.\<close>

definition shown :: "lights \<Rightarrow> light_file \<Rightarrow> int option" where
  "shown l = map_of (rev (writes l))"

definition lamp :: "lights \<Rightarrow> light_file \<Rightarrow> light_file \<Rightarrow> (int \<times> int option) option" where
  "lamp l bf pf = (case shown l bf of None \<Rightarrow> None | Some v \<Rightarrow> if v = 0 then None else Some (v, shown l pf))"

definition led :: "lights \<Rightarrow> (int \<times> int option) option \<times> (int \<times> int option) option" where
  "led l = (lamp l GREEN_LED_BRIGHTNESS_FILE GREEN_LED_PWM_FILE, lamp l RED_LED_BRIGHTNESS_FILE RED_LED_PWM_FILE)"

definition blinks :: "light_state \<Rightarrow> bool" where
  "blinks st \<longleftrightarrow> flashMode st \<noteq> LIGHT_FLASH_NONE \<and> 0 < flashOnMS st \<and> 0 < flashOffMS st"

definition lit_at :: "int \<Rightarrow> int \<Rightarrow> (int \<times> int option) option" where
  "lit_at v pwm = (if v = 0 then None else Some (v, Some pwm))"

definition led_pattern :: "light_state \<Rightarrow> (int \<times> int option) option \<times> (int \<times> int option) option" where
  "led_pattern st =
     (if blinks st
      then (let ratio = flashOnMS st * 255 div (flashOnMS st + flashOffMS st)
            in lit_at (if ratio \<in> {1..15} then 16 else ratio) (flashOffMS st * 1000))
      else lit_at (brightness_level st) 100,
      None)"

definition battery_pattern :: "light_state \<Rightarrow> (int \<times> int option) option \<times> (int \<times> int option) option" where
  "battery_pattern st =
     (let level = uint (drop_bit 24 (color st)); on = Some (255, Some 100)
      in if \<not> is_lit st then (None, None) else if level \<le> 15 then (None, on) else if level \<le> 99 then (on, on) else (on, None))"

fun last_of :: "light_id \<Rightarrow> (light_id \<times> light_state) list \<Rightarrow> light_state" where
  "last_of i [] = dark"
| "last_of i ((j, st) # evs) = (if j = i then st else last_of i evs)"

text \<open>The events, the newest first.\<close>

fun led_spec :: "(light_id \<times> light_state) list \<Rightarrow> (int \<times> int option) option \<times> (int \<times> int option) option" where
  "led_spec [] = (None, None)"
| "led_spec ((i, st) # evs) =
     (if i = Backlight then led_spec evs
      else if i = Battery then battery_pattern st
      else let a = last_of Attention ((i, st) # evs); n = last_of Notifications ((i, st) # evs)
           in led_pattern (if is_lit a then a else if is_lit n then n else st))"

text \<open>Times that do not overflow: the light is on for less than 140 minutes, off for less than 35.\<close>

definition short_times :: "light_state \<Rightarrow> bool" where
  "short_times st \<longleftrightarrow> flashOnMS st \<le> 8421504 \<and> flashOffMS st \<le> 2147483"


lemma shown_write [simp]: "shown (write_int f v l) f' = (if f' = f then Some v else shown l f')"
  by (simp add: shown_def write_int_def)

lemma write_int_array [simp]: "attention (write_int f v l) = attention l" "notification (write_int f v l) = notification l"
  by (simp_all add: write_int_def)

lemma shown_array [simp]: "shown (l\<lparr>attention := a\<rparr>) = shown l" "shown (l\<lparr>notification := a\<rparr>) = shown l"
  by (simp_all add: shown_def fun_eq_iff)

lemmas led_simps = led_def lamp_def led_pattern_def lit_at_def blinks_def Let_def LED_LIGHT_OFF_def

lemma set_light_locked_exact:
  assumes "short_times st"
  shows "\<exists>l'. set_light_locked st l = Some l' \<and> led l' = led_pattern st
    \<and> attention l' = attention l \<and> notification l' = notification l"
proof (cases "blinks st")
  case True
  then have p: "0 < flashOnMS st" "0 < flashOffMS st" "flashMode st \<noteq> LIGHT_FLASH_NONE" by (auto simp: blinks_def)
  then have b: "in_int (flashOnMS st + flashOffMS st)" "in_int (flashOnMS st * 255)" "in_int (flashOffMS st * 1000)"
    using assms by (auto simp: in_int_def short_times_def)
  have "0 \<le> flashOnMS st * 255 div (flashOnMS st + flashOffMS st)" using p by (simp add: pos_imp_zdiv_nonneg_iff)
  then show ?thesis using p b True
    by (cases "flashMode st") (simp_all add: set_light_locked_def led_simps)
next
  case False
  then show ?thesis
    by (cases "flashMode st") (auto simp: set_light_locked_def led_simps)
qed

lemma battery_level: "drop_bit 24 (and w (0xFF000000 :: 32 word)) = drop_bit 24 w"
proof -
  have m: "(0xff :: 32 word) = mask 8" by (simp add: mask_eq_exp_minus_1)
  have "and (drop_bit 24 w) (0xff :: 32 word) = drop_bit 24 w"
    unfolding m by (rule bit_eqI) (auto simp: bit_simps dest: bit_imp_le_length)
  then show ?thesis by simp
qed

lemma set_light_battery_exact: "led (set_light_battery st l) = battery_pattern st"
  unfolding set_light_battery_def battery_level by (simp add: battery_pattern_def led_simps)


lemma handle_led_exact:
  assumes "short_times st" "short_times (attention l)" "short_times (notification l)"
  shows "\<exists>l'. handle_led_prioritized_locked st l = Some l'
    \<and> led l' = led_pattern (if is_lit (attention l) then attention l else if is_lit (notification l) then notification l else st)
    \<and> attention l' = attention l \<and> notification l' = notification l"
  using assms by (auto simp: handle_led_prioritized_locked_def intro!: set_light_locked_exact)

lemma set_light_exact:
  assumes "short_times st" "short_times (attention l)" "short_times (notification l)"
  shows "\<exists>l'. set_light i st l = Some l'
    \<and> attention l' = (if i = Attention then st else attention l)
    \<and> notification l' = (if i = Notifications then st else notification l)
    \<and> led l' = (case i of
          Backlight \<Rightarrow> led l
        | Battery \<Rightarrow> battery_pattern st
        | _ \<Rightarrow> led_pattern (if is_lit (attention l') then attention l' else if is_lit (notification l') then notification l' else st))"
proof (cases i)
  case Backlight
  then show ?thesis by (auto simp: set_light_def set_light_backlight_def led_def lamp_def split: option.split)
next
  case Notifications
  then show ?thesis using handle_led_exact [of st "l\<lparr>notification := st\<rparr>"] assms
    by (auto simp: set_light_def set_light_notifications_def)
next
  case Attention
  then show ?thesis using handle_led_exact [of st "l\<lparr>attention := st\<rparr>"] assms
    by (auto simp: set_light_def set_light_attention_def)
next
  case Battery
  then show ?thesis using set_light_battery_exact [of st l]
    by (simp add: set_light_def) (simp add: set_light_battery_def Let_def)
qed

lemma light_run_append:
  "light_run (evs @ evs') l = (case light_run evs l of None \<Rightarrow> None | Some l' \<Rightarrow> light_run evs' l')"
  by (induction evs l rule: light_run.induct) (auto split: option.split)

lemma short_times_last: "list_all (short_times \<circ> snd) evs \<Longrightarrow> short_times (last_of i evs)"
  by (induction evs) (auto simp: dark_def short_times_def)

lemma light_run_exact:
  assumes "list_all (short_times \<circ> snd) evs"
  shows "\<exists>l. light_run evs lights_start = Some l \<and> attention l = last_of Attention (rev evs)
    \<and> notification l = last_of Notifications (rev evs) \<and> led l = led_spec (rev evs)"
  using assms
proof (induction evs rule: rev_induct)
  case Nil
  then show ?case by (simp add: lights_start_def led_def lamp_def shown_def)
next
  case (snoc e evs)
  obtain i st where e: "e = (i, st)" by force
  from snoc obtain l where l: "light_run evs lights_start = Some l" "attention l = last_of Attention (rev evs)"
    "notification l = last_of Notifications (rev evs)" "led l = led_spec (rev evs)" by auto
  have "short_times st" "short_times (attention l)" "short_times (notification l)"
    using snoc.prems short_times_last [of "rev evs"] by (simp_all add: l e list_all_rev comp_def)
  from set_light_exact [OF this, of i] show ?case
    by (cases i) (auto simp: light_run_append l e Let_def)
qed

text \<open>
  C19: The LED shows what the events require. After any sequence of light events with flash times that do
  not overflow, the two lamps of the LED, read from the last values written to the files of the kernel,
  are the ones computed from the events alone: the last attention light if it is lit, else the last
  notification light if it is lit, else the light of the last event, unless the last event was a battery
  light, which is shown whatever the other lights are; a backlight event changes nothing.
\<close>

theorem led_shows_priority:
  assumes "list_all (short_times \<circ> snd) evs"
  shows "map_option led (light_run evs lights_start) = Some (led_spec (rev evs))"
  using light_run_exact [OF assms] by auto

theorem led_shows_priority_witness:
  "map_option led (light_run
     [(Attention, \<lparr>color = 0x80ff0000, flashMode = LIGHT_FLASH_NONE, flashOnMS = 0, flashOffMS = 0\<rparr>),
      (Battery, \<lparr>color = 0x0aff0000, flashMode = LIGHT_FLASH_NONE, flashOnMS = 0, flashOffMS = 0\<rparr>),
      (Notifications, \<lparr>color = 0x0000ff00, flashMode = LIGHT_FLASH_TIMED, flashOnMS = 500, flashOffMS = 500\<rparr>)] lights_start)
   = Some (Some (128, Some 100), None)"
proof -
  let ?evs = "[(Attention, \<lparr>color = 0x80ff0000, flashMode = LIGHT_FLASH_NONE, flashOnMS = 0, flashOffMS = 0\<rparr>),
      (Battery, \<lparr>color = 0x0aff0000, flashMode = LIGHT_FLASH_NONE, flashOnMS = 0, flashOffMS = 0\<rparr>),
      (Notifications, \<lparr>color = 0x0000ff00, flashMode = LIGHT_FLASH_TIMED, flashOnMS = 500, flashOffMS = 500\<rparr>)]"
  have "list_all (short_times \<circ> snd) ?evs" by (simp add: short_times_def)
  from led_shows_priority [OF this] show ?thesis by code_simp
qed

text \<open>
  The brightness of the display is the weighted mean of the three colour channels, with weights
  77, 150 and 29 of 256; the sum never leaves the 32 bits.
\<close>

theorem backlight_brightness_exact:
  "shown (set_light_backlight st l) LCD_BRIGHTNESS_FILE =
     Some ((77 * uint (and (drop_bit 16 (color st)) 0xff) + 150 * uint (and (drop_bit 8 (color st)) 0xff) + 29 * uint (and (color st) 0xff)) div 256)"
  by (simp add: set_light_backlight_def rgb_to_brightness_mean)

text \<open>An unlit light with flash times still blinks, at the full brightness of the ratio: the colour is not looked at.\<close>

lemma unlit_light_blinks:
  "map_option led (light_run [(Notifications, \<lparr>color = 0, flashMode = LIGHT_FLASH_TIMED, flashOnMS = 500, flashOffMS = 500\<rparr>)] lights_start)
   = Some (Some (127, Some 500000), None)"
  by code_simp

text \<open>A flash shorter than 1/255 of its period is never on.\<close>

lemma short_flash_never_on:
  "map_option led (light_run [(Notifications, \<lparr>color = 0xffffff, flashMode = LIGHT_FLASH_TIMED, flashOnMS = 10, flashOffMS = 3000\<rparr>)] lights_start)
   = Some (None, None)"
  by code_simp

text \<open>Turning the battery light off hides an attention light that is still on.\<close>

lemma battery_off_hides_attention:
  "\<not> is_lit st \<Longrightarrow> led (set_light_battery st l) = (None, None)"
  by (simp add: set_light_battery_exact battery_pattern_def)

end
