(* ===== verification/Android.thy ===== *)
theory Android
  imports Loc_Prelude "HOL-Library.Word"
begin

text \<open>
  The classes of the framework that the camera shims rely on, as far as they rely on them.

  \<^item> \<open>KeyedVector\<close> is a list of pairs in the order of the keys, \<open>SortedVector\<close> an ordered list, both without
    duplicates.
  \<^item> \<open>Parcel\<close> is a parameter, the record \<open>parcel\<close> of its functions over a type \<open>'p\<close> of parcels. What is relied on
    is \<open>parcel_laws\<close>: what was written is read in the same order. \<open>list_parcel\<close> shows that this can be so.
  \<^item> Readers and writers of parcels are composed, and with them what they read and write. A status is an integer,
    0 is \<open>OK\<close>; a result None is undefined behaviour or an abort.
\<close>

section \<open>Vectors\<close>

fun kv_add :: "'k::linorder \<Rightarrow> 'v \<Rightarrow> ('k \<times> 'v) list \<Rightarrow> ('k \<times> 'v) list" where
  "kv_add k v [] = [(k, v)]"
| "kv_add k v ((k', v') # m) =
     (if k' = k then (k, v) # m else if k < k' then (k, v) # (k', v') # m else (k', v') # kv_add k v m)"

lemma kv_add_keys: "set (map fst (kv_add k v m)) = insert k (set (map fst m))"
  by (induction k v m rule: kv_add.induct) auto

lemma kv_add_sorted: "sorted_wrt (<) (map fst m) \<Longrightarrow> sorted_wrt (<) (map fst (kv_add k v m))"
proof (induction k v m rule: kv_add.induct)
  case (2 k v k' v' m)
  then show ?case using kv_add_keys [of k v m] by (force simp: not_less order_le_less)
qed simp

lemma kv_add_last: "\<forall>k' \<in> set (map fst m). k' < k \<Longrightarrow> kv_add k v m = m @ [(k, v)]"
  by (induction k v m rule: kv_add.induct) (auto simp: order_less_imp_not_less)

lemma fold_kv_add: "sorted_wrt (<) (map fst (m @ l)) \<Longrightarrow> fold (\<lambda>(k, v). kv_add k v) l m = m @ l"
proof (induction l arbitrary: m)
  case (Cons p l)
  obtain k v where p: "p = (k, v)" by force
  from Cons.prems have "kv_add k v m = m @ [(k, v)]" by (intro kv_add_last) (auto simp: p sorted_wrt_append)
  with Cons show ?case by (simp add: p)
qed simp

lemma map_of_kv_add: "map_of (kv_add k v m) = (map_of m)(k \<mapsto> v)"
  by (induction k v m rule: kv_add.induct) (auto simp: fun_eq_iff)

text \<open>Two of these lists are equal when they have the same pairs.\<close>

lemma sorted_keys_eq:
  "sorted_wrt (<) (map fst l) \<Longrightarrow> sorted_wrt (<) (map fst m) \<Longrightarrow> map_of l = map_of m \<Longrightarrow> l = m"
  for l m :: "('k::linorder \<times> 'v) list"
proof -
  assume s: "sorted_wrt (<) (map fst l)" "sorted_wrt (<) (map fst m)" and eq: "map_of l = map_of m"
  have k: "map fst l = map fst m"
    using s arg_cong [OF eq, of dom] by (intro sorted_distinct_set_unique) (simp_all add: strict_sorted_iff dom_map_of_conv_image_fst)
  have v: "map snd xs = map (\<lambda>k. the (map_of xs k)) (map fst xs)" if "sorted_wrt (<) (map fst xs)" for xs :: "('k \<times> 'v) list"
    using that by (auto simp: strict_sorted_iff)
  have "map snd l = map snd m" using v [OF s(1)] v [OF s(2)] k eq by simp
  with k show "l = m" by (rule pair_list_eqI)
qed

definition sv_add :: "'a::linorder \<Rightarrow> 'a list \<Rightarrow> 'a list" where
  "sv_add x xs = map fst (kv_add x () (map (\<lambda>y. (y, ())) xs))"

fun sv_index :: "'a \<Rightarrow> 'a list \<Rightarrow> nat option" where
  "sv_index x [] = None"
| "sv_index x (y # ys) = (if y = x then Some 0 else map_option Suc (sv_index x ys))"

lemma set_sv_add: "set (sv_add x xs) = insert x (set xs)"
  using kv_add_keys [of x "()" "map (\<lambda>y. (y, ())) xs"] by (simp add: sv_add_def image_image)

lemma sv_add_sorted: "sorted_wrt (<) xs \<Longrightarrow> sorted_wrt (<) (sv_add x xs)"
  using kv_add_sorted [of "map (\<lambda>y. (y, ())) xs" x "()"] by (simp add: sv_add_def comp_def)

lemma sv_add_last: "\<forall>y \<in> set xs. y < x \<Longrightarrow> sv_add x xs = xs @ [x]"
  using kv_add_last [of "map (\<lambda>y. (y, ())) xs" x "()"] by (simp add: sv_add_def comp_def)

lemma fold_sv_add: "sorted_wrt (<) (ys @ xs) \<Longrightarrow> fold sv_add xs ys = ys @ xs"
proof (induction xs arbitrary: ys)
  case (Cons x xs)
  then have "sv_add x ys = ys @ [x]" by (intro sv_add_last) (auto simp: sorted_wrt_append)
  with Cons show ?case by simp
qed simp

lemma sv_index_Some: "sv_index x xs = Some i \<Longrightarrow> i < length xs \<and> xs ! i = x"
  by (induction xs arbitrary: i) (auto split: if_splits)

lemma sv_index_None: "sv_index x xs = None \<longleftrightarrow> x \<notin> set xs"
  by (induction xs) auto

section \<open>Parcels\<close>

definition BAD_VALUE_st :: int where "BAD_VALUE_st = - 22"
definition NOT_ENOUGH_DATA_st :: int where "NOT_ENOUGH_DATA_st = - 61"

definition NAME_NOT_FOUND_st :: int where "NAME_NOT_FOUND_st = - 2"
definition NO_MEMORY_st :: int where "NO_MEMORY_st = - 12"
definition INVALID_OPERATION_st :: int where "INVALID_OPERATION_st = - 38"

datatype parcel_item =
    I32 "32 word"
  | S8 string
  | Blob "8 word list"
  | I64 "64 word"
  | S16 string
  | Strong ptr
  | Token string
  | Fd "32 word"
  | Raw "8 word list"
  | No_Exception

text \<open>Items other than the first three are written and read by their kind.\<close>

datatype item_kind = K_int64 | K_string16 | K_binder | K_token | K_fd | K_raw nat | K_exception

fun kind_of :: "parcel_item \<Rightarrow> item_kind option" where
  "kind_of (I64 _) = Some K_int64"
| "kind_of (S16 _) = Some K_string16"
| "kind_of (Strong _) = Some K_binder"
| "kind_of (Token _) = Some K_token"
| "kind_of (Fd _) = Some K_fd"
| "kind_of (Raw b) = Some (K_raw (length b))"
| "kind_of No_Exception = Some K_exception"
| "kind_of _ = None"

text \<open>\<open>write_blob\<close> finds room for a number of bytes and gives its address, so that it can be filled. A parcel is read
  from its start by the process that receives it; \<open>at_end\<close> is the parcel as it is read by the one that wrote it.\<close>

record 'p parcel =
  write_int32 :: "32 word \<Rightarrow> 'p \<Rightarrow> int \<times> 'p"
  read_int32 :: "'p \<Rightarrow> (int + 32 word) \<times> 'p"
  write_string8 :: "string \<Rightarrow> 'p \<Rightarrow> int \<times> 'p"
  read_string8 :: "'p \<Rightarrow> string \<times> 'p"
  write_blob :: "nat \<Rightarrow> (int \<Rightarrow> 8 word list) \<Rightarrow> 'p \<Rightarrow> (int + int) \<times> 'p"
  read_blob :: "nat \<Rightarrow> 'p \<Rightarrow> (int + 8 word list) \<times> 'p"
  write_item :: "parcel_item \<Rightarrow> 'p \<Rightarrow> int \<times> 'p"
  read_item :: "item_kind \<Rightarrow> 'p \<Rightarrow> (int + parcel_item) \<times> 'p"
  data_avail :: "'p \<Rightarrow> bool"
  new_parcel :: 'p
  at_end :: "'p \<Rightarrow> 'p"

definition parcel_laws :: "'p parcel \<Rightarrow> ('p \<Rightarrow> parcel_item list \<Rightarrow> bool) \<Rightarrow> bool" where
  "parcel_laws P holds \<longleftrightarrow>
     (\<forall>p xs v. holds p xs \<longrightarrow> (\<exists>p'. write_int32 P v p = (0, p') \<and> holds p' (xs @ [I32 v]))) \<and>
     (\<forall>p xs v. holds p (I32 v # xs) \<longrightarrow> (\<exists>p'. read_int32 P p = (Inr v, p') \<and> holds p' xs)) \<and>
     (\<forall>p xs s. holds p xs \<longrightarrow> (\<exists>p'. write_string8 P s p = (0, p') \<and> holds p' (xs @ [S8 s]))) \<and>
     (\<forall>p xs s. holds p (S8 s # xs) \<longrightarrow> (\<exists>p'. read_string8 P p = (s, p') \<and> holds p' xs)) \<and>
     (\<forall>p xs n fill. holds p xs \<longrightarrow>
        (\<exists>a p'. write_blob P n fill p = (Inr a, p') \<and> 0 \<le> a \<and> holds p' (xs @ [Blob (fill a)]))) \<and>
     (\<forall>p xs b. holds p (Blob b # xs) \<longrightarrow> (\<exists>p'. read_blob P (length b) p = (Inr b, p') \<and> holds p' xs)) \<and>
     (\<forall>p xs it. kind_of it \<noteq> None \<longrightarrow> holds p xs \<longrightarrow> (\<exists>p'. write_item P it p = (0, p') \<and> holds p' (xs @ [it]))) \<and>
     (\<forall>p xs it k. kind_of it = Some k \<longrightarrow> holds p (it # xs) \<longrightarrow> (\<exists>p'. read_item P k p = (Inr it, p') \<and> holds p' xs)) \<and>
     (\<forall>p xs. holds p xs \<longrightarrow> data_avail P p = (xs \<noteq> [])) \<and>
     holds (new_parcel P) [] \<and>
     (\<forall>p. read_int32 P (at_end P p) = (Inl NOT_ENOUGH_DATA_st, at_end P p))"

text \<open>A parcel that is the list of what was written, and reads nothing where the kind does not fit.\<close>

definition list_parcel :: "parcel_item list parcel" where
  "list_parcel =
     \<lparr>write_int32 = (\<lambda>v p. (0, p @ [I32 v])),
      read_int32 = (\<lambda>p. case p of I32 v # p' \<Rightarrow> (Inr v, p') | _ \<Rightarrow> (Inl NOT_ENOUGH_DATA_st, p)),
      write_string8 = (\<lambda>s p. (0, p @ [S8 s])),
      read_string8 = (\<lambda>p. case p of S8 s # p' \<Rightarrow> (s, p') | _ \<Rightarrow> ([], p)),
      write_blob = (\<lambda>n fill p. (Inr 4, p @ [Blob (fill 4)])),
      read_blob = (\<lambda>n p. case p of Blob b # p' \<Rightarrow> if length b = n then (Inr b, p') else (Inl NOT_ENOUGH_DATA_st, p)
                                | _ \<Rightarrow> (Inl NOT_ENOUGH_DATA_st, p)),
      write_item = (\<lambda>it p. (0, p @ [it])),
      read_item = (\<lambda>k p. case p of it # p' \<Rightarrow> if kind_of it = Some k then (Inr it, p') else (Inl NOT_ENOUGH_DATA_st, p)
                                | [] \<Rightarrow> (Inl NOT_ENOUGH_DATA_st, p)),
      data_avail = (\<lambda>p. p \<noteq> []),
      new_parcel = [],
      at_end = (\<lambda>p. [])\<rparr>"

lemma list_parcel_laws: "parcel_laws list_parcel (=)"
  by (simp add: parcel_laws_def list_parcel_def)

type_synonym ('p, 'a) reader = "'p \<Rightarrow> ((int + 'a) \<times> 'p) option"
type_synonym 'p writer = "'p \<Rightarrow> (int \<times> 'p) option"

definition rd_then :: "('p, 'a) reader \<Rightarrow> ('a \<Rightarrow> ('p, 'b) reader) \<Rightarrow> ('p, 'b) reader" where
  "rd_then r f p =
     (case r p of None \<Rightarrow> None | Some (Inl e, p') \<Rightarrow> Some (Inl e, p') | Some (Inr v, p') \<Rightarrow> f v p')"

definition rd_return :: "'a \<Rightarrow> ('p, 'a) reader" where "rd_return v p = Some (Inr v, p)"
definition rd_fail :: "int \<Rightarrow> ('p, 'a) reader" where "rd_fail e p = Some (Inl e, p)"
definition rd_undefined :: "('p, 'a) reader" where "rd_undefined p = None"

definition rd_int32 :: "'p parcel \<Rightarrow> ('p, 32 word) reader" where "rd_int32 P p = Some (read_int32 P p)"

definition rd_string8 :: "'p parcel \<Rightarrow> ('p, string) reader" where
  "rd_string8 P p = (let (s, p') = read_string8 P p in Some (Inr s, p'))"

definition wr_then :: "'p writer \<Rightarrow> 'p writer \<Rightarrow> 'p writer" where
  "wr_then w w' p = (case w p of None \<Rightarrow> None | Some (r, p') \<Rightarrow> if r \<noteq> 0 then Some (r, p') else w' p')"

definition wr_done :: "'p writer" where "wr_done p = Some (0, p)"
definition wr_undefined :: "'p writer" where "wr_undefined p = None"
definition wr_int32 :: "'p parcel \<Rightarrow> 32 word \<Rightarrow> 'p writer" where "wr_int32 P v p = Some (write_int32 P v p)"
definition wr_string8 :: "'p parcel \<Rightarrow> string \<Rightarrow> 'p writer" where "wr_string8 P s p = Some (write_string8 P s p)"

text \<open>What a reader takes off a parcel and returns, what a writer adds.\<close>

definition reads :: "('p \<Rightarrow> parcel_item list \<Rightarrow> bool) \<Rightarrow> ('p, 'a) reader \<Rightarrow> parcel_item list \<Rightarrow> 'a \<Rightarrow> bool" where
  "reads holds r its v \<longleftrightarrow> (\<forall>p xs. holds p (its @ xs) \<longrightarrow> (\<exists>p'. r p = Some (Inr v, p') \<and> holds p' xs))"

definition writes :: "('p \<Rightarrow> parcel_item list \<Rightarrow> bool) \<Rightarrow> 'p writer \<Rightarrow> parcel_item list \<Rightarrow> bool" where
  "writes holds w its \<longleftrightarrow> (\<forall>p xs. holds p xs \<longrightarrow> (\<exists>p'. w p = Some (0, p') \<and> holds p' (xs @ its)))"

lemma parcel_lawsD:
  assumes "parcel_laws P holds"
  shows "holds p xs \<Longrightarrow> \<exists>p'. write_int32 P v p = (0, p') \<and> holds p' (xs @ [I32 v])"
    and "holds p (I32 v # xs) \<Longrightarrow> \<exists>p'. read_int32 P p = (Inr v, p') \<and> holds p' xs"
    and "holds p xs \<Longrightarrow> \<exists>p'. write_string8 P s p = (0, p') \<and> holds p' (xs @ [S8 s])"
    and "holds p (S8 s # xs) \<Longrightarrow> \<exists>p'. read_string8 P p = (s, p') \<and> holds p' xs"
    and "holds p xs \<Longrightarrow> \<exists>a p'. write_blob P n fill p = (Inr a, p') \<and> 0 \<le> a \<and> holds p' (xs @ [Blob (fill a)])"
    and "holds p (Blob b # xs) \<Longrightarrow> \<exists>p'. read_blob P (length b) p = (Inr b, p') \<and> holds p' xs"
    and "kind_of it \<noteq> None \<Longrightarrow> holds p xs \<Longrightarrow> \<exists>p'. write_item P it p = (0, p') \<and> holds p' (xs @ [it])"
    and "kind_of it = Some k \<Longrightarrow> holds p (it # xs) \<Longrightarrow> \<exists>p'. read_item P k p = (Inr it, p') \<and> holds p' xs"
    and "holds p xs \<Longrightarrow> data_avail P p = (xs \<noteq> [])"
    and "holds (new_parcel P) []"
    and "read_int32 P (at_end P p) = (Inl NOT_ENOUGH_DATA_st, at_end P p)"
  using assms by (simp_all add: parcel_laws_def)

lemma reads_return: "reads holds (rd_return v) [] v"
  by (simp add: reads_def rd_return_def)

lemma reads_int32: "parcel_laws P holds \<Longrightarrow> reads holds (rd_int32 P) [I32 v] v"
  by (auto simp: reads_def rd_int32_def dest: parcel_lawsD(2))

lemma reads_string8: "parcel_laws P holds \<Longrightarrow> reads holds (rd_string8 P) [S8 s] s"
  by (auto simp: reads_def rd_string8_def dest!: parcel_lawsD(4))

lemma reads_then:
  "reads holds r its v \<Longrightarrow> reads holds (f v) js u \<Longrightarrow> reads holds (rd_then r f) (its @ js) u"
  by (fastforce simp: reads_def rd_then_def)

lemma writes_done: "writes holds wr_done []"
  by (simp add: writes_def wr_done_def)

lemma writes_int32: "parcel_laws P holds \<Longrightarrow> writes holds (wr_int32 P v) [I32 v]"
  by (auto simp: writes_def wr_int32_def dest: parcel_lawsD(1))

lemma writes_string8: "parcel_laws P holds \<Longrightarrow> writes holds (wr_string8 P s) [S8 s]"
  by (auto simp: writes_def wr_string8_def dest: parcel_lawsD(3))

lemma writes_then: "writes holds w its \<Longrightarrow> writes holds w' js \<Longrightarrow> writes holds (wr_then w w') (its @ js)"
  by (fastforce simp: writes_def wr_then_def)

lemma reads_int32_then:
  "parcel_laws P holds \<Longrightarrow> reads holds (f v) js u \<Longrightarrow> reads holds (rd_then (rd_int32 P) f) (I32 v # js) u"
  using reads_then [OF reads_int32] by fastforce

lemma reads_string8_then:
  "parcel_laws P holds \<Longrightarrow> reads holds (f s) js u \<Longrightarrow> reads holds (rd_then (rd_string8 P) f) (S8 s # js) u"
  using reads_then [OF reads_string8] by fastforce

lemma writes_int32_then:
  "parcel_laws P holds \<Longrightarrow> writes holds w js \<Longrightarrow> writes holds (wr_then (wr_int32 P v) w) (I32 v # js)"
  using writes_then [OF writes_int32] by fastforce

lemma writes_string8_then:
  "parcel_laws P holds \<Longrightarrow> writes holds w js \<Longrightarrow> writes holds (wr_then (wr_string8 P s) w) (S8 s # js)"
  using writes_then [OF writes_string8] by fastforce

text \<open>A kind of object that can be sent: its writer and reader agree on the items.\<close>

locale parcelable =
  fixes holds :: "'p \<Rightarrow> parcel_item list \<Rightarrow> bool"
    and write_obj :: "'a \<Rightarrow> 'p writer"
    and read_obj :: "('p, 'a) reader"
    and sendable :: "'a \<Rightarrow> bool"
    and items :: "'a \<Rightarrow> parcel_item list"
  assumes write_items: "sendable x \<Longrightarrow> writes holds (write_obj x) (items x)"
    and read_items: "sendable x \<Longrightarrow> reads holds read_obj (items x) x"
begin

lemma sent_and_received:
  assumes "sendable x" "holds p []"
  shows "\<exists>p1 p2. write_obj x p = Some (0, p1) \<and> read_obj p1 = Some (Inr x, p2) \<and> holds p2 []"
proof -
  obtain p1 where "write_obj x p = Some (0, p1)" "holds p1 (items x @ [])"
    using write_items [OF assms(1)] assms(2) by (fastforce simp: writes_def)
  with read_items [OF assms(1)] show ?thesis by (fastforce simp: reads_def)
qed

end

end
