(* ===== verification/Camera_Params.thy ===== *)
theory Camera_Params
  imports Loc_Cfg Android "HOL-Library.List_Lexorder"
begin

text \<open>
  \<open>CameraParameters.cpp\<close> and \<open>CameraParameters2.h\<close>, \<open>CameraParameters2.cpp\<close>: the settings of the camera, a
  map from strings to strings that travels between processes as one string.

  \<^item> \<open>DefaultKeyedVector\<close> is a list of pairs in the order of the keys (\<open>strcmp\<close>), without duplicates;
    \<open>OrderedKeyedVector\<close>, which \<open>CameraParameters2\<close> defines, is a list in the order of insertion.
    \<open>Vector::removeAt\<close> does nothing beyond the end of a vector.
  \<^item> \<open>bits\<close> is the width of \<open>long\<close>, \<open>qcom\<close> is whether \<open>QCOM_HARDWARE\<close> is defined. The conversions \<open>%g\<close>
    and \<open>strtof\<close> are parameters. A result None of an operation of \<open>CameraParameters2\<close> is a NULL pointer followed.
  \<^item> Shown: whatever was set, removed or unflattened before, a flattened object is read back as it was;
    a value that is set is found; sizes and lists of sizes are read back; the order of setting.
\<close>

section \<open>The two maps\<close>

type_synonym params = "(string \<times> string) list"

definition kv_value_for :: "string \<Rightarrow> params \<Rightarrow> string" where
  "kv_value_for k m = (case map_of m k of None \<Rightarrow> [] | Some v \<Rightarrow> v)"

definition kv_remove :: "string \<Rightarrow> params \<Rightarrow> params" where
  "kv_remove k m = filter (\<lambda>p. fst p \<noteq> k) m"

definition okv_add :: "string \<Rightarrow> string \<Rightarrow> params \<Rightarrow> params" where
  "okv_add k v m = m @ [(k, v)]"

fun indexOfKey :: "string \<Rightarrow> params \<Rightarrow> nat option" where
  "indexOfKey k [] = None"
| "indexOfKey k ((k', v) # m) = (if k' = k then Some 0 else map_option Suc (indexOfKey k m))"

text \<open>The test for a missing key compares an unsigned number with 0; \<open>removeAt\<close> is called with an
  index far beyond the end.\<close>

definition okv_remove :: "string \<Rightarrow> params \<Rightarrow> params" where
  "okv_remove k m = (case indexOfKey k m of None \<Rightarrow> m | Some i \<Rightarrow> take i m @ drop (Suc i) m)"

definition okv_replace :: "string \<Rightarrow> string \<Rightarrow> params \<Rightarrow> params" where
  "okv_replace k v m = okv_add k v (okv_remove k m)"

section \<open>One string\<close>

fun flatten :: "params \<Rightarrow> string" where
  "flatten [] = []"
| "flatten [(k, v)] = k @ ''='' @ v"
| "flatten ((k, v) # p # m) = k @ ''='' @ v @ '';'' @ flatten (p # m)"

definition before :: "char \<Rightarrow> string \<Rightarrow> string" where
  "before c s = takeWhile (\<lambda>d. d \<noteq> c) s"

definition after :: "char \<Rightarrow> string \<Rightarrow> string" where
  "after c s = tl (dropWhile (\<lambda>d. d \<noteq> c) s)"

lemma length_after: "length (after c s) \<le> length s"
  by (simp add: after_def le_diff_conv length_dropWhile_le le_SucI)

lemma length_after_less: "c \<in> set s \<Longrightarrow> length (after c s) < length s"
proof -
  assume "c \<in> set s"
  then have "dropWhile (\<lambda>d. d \<noteq> c) s \<noteq> []" by (simp add: dropWhile_eq_Nil_conv)
  then have "0 < length (dropWhile (\<lambda>d. d \<noteq> c) s)" by blast
  with length_dropWhile_le [of "\<lambda>d. d \<noteq> c" s] show ?thesis unfolding after_def length_tl by linarith
qed

text \<open>The loop, for both maps.\<close>

function unflatten_loop :: "(string \<Rightarrow> string \<Rightarrow> params \<Rightarrow> params) \<Rightarrow> string \<Rightarrow> params \<Rightarrow> params" where
  "unflatten_loop add a m =
     (if CHR ''='' \<notin> set a then m
      else if CHR '';'' \<notin> set (after (CHR ''='') a) then add (before (CHR ''='') a) (after (CHR ''='') a) m
      else unflatten_loop add (after (CHR '';'') (after (CHR ''='') a))
             (add (before (CHR ''='') a) (before (CHR '';'') (after (CHR ''='') a)) m))"
  by pat_completeness auto
termination
  by (relation "measure (\<lambda>(add, a, m). length a)") (auto intro: le_less_trans [OF length_after length_after_less])

declare unflatten_loop.simps [simp del]

definition unflatten :: "string \<Rightarrow> params" where
  "unflatten s = unflatten_loop kv_add s []"

section \<open>Setting and getting\<close>

definition valid_chars :: "string \<Rightarrow> bool" where
  "valid_chars s \<longleftrightarrow> CHR ''='' \<notin> set s \<and> CHR '';'' \<notin> set s"

definition get_param :: "string \<Rightarrow> params \<Rightarrow> string option" where
  "get_param key m = (if kv_value_for key m = [] then None else Some (kv_value_for key m))"

definition set_param :: "bool \<Rightarrow> string option \<Rightarrow> string option \<Rightarrow> params \<Rightarrow> params" where
  "set_param qcom key value m =
     (case (key, value) of
        (Some k, Some v) \<Rightarrow>
          if \<not> valid_chars k \<or> \<not> valid_chars v then m
          else kv_add k v (if qcom \<and> get_param ''hdr-need-1x'' m = None then kv_add ''hdr-need-1x'' ''false'' m else m)
      | _ \<Rightarrow> m)"

definition set_int :: "bool \<Rightarrow> string \<Rightarrow> int \<Rightarrow> params \<Rightarrow> params" where
  "set_int qcom key n = set_param qcom (Some key) (Some (show_int n))"

definition set_float :: "('f \<Rightarrow> string) \<Rightarrow> bool \<Rightarrow> string \<Rightarrow> 'f \<Rightarrow> params \<Rightarrow> params" where
  "set_float fmt_g qcom key x = set_param qcom (Some key) (Some (take 15 (fmt_g x)))"

text \<open>\<open>strtol\<close> with base 0, and where it stops in base 10.\<close>

definition after_sign :: "string \<Rightarrow> string" where
  "after_sign s = (if s \<noteq> [] \<and> (hd s = CHR ''-'' \<or> hd s = CHR ''+'') then tl s else s)"

definition base_of :: "string \<Rightarrow> nat" where
  "base_of s =
     (if skip_prefix 16 s \<noteq> s then 16 else if s \<noteq> [] \<and> hd s = CHR ''0'' then 8 else 10)"

definition strtol_base0 :: "nat \<Rightarrow> string \<Rightarrow> int" where
  "strtol_base0 bits s = strtol bits (base_of (after_sign (dropWhile isspace s))) s"

definition strtol_end :: "string \<Rightarrow> string" where
  "strtol_end s =
     (let u = after_sign (dropWhile isspace s)
      in if u \<noteq> [] \<and> is_digit (hd u) then dropWhile is_digit u else s)"

definition get_int :: "nat \<Rightarrow> string \<Rightarrow> params \<Rightarrow> int" where
  "get_int bits key m = (case get_param key m of None \<Rightarrow> - 1 | Some v \<Rightarrow> c_int32 (strtol_base0 bits v))"

definition get_float :: "(string \<Rightarrow> 'f) \<Rightarrow> 'f \<Rightarrow> string \<Rightarrow> params \<Rightarrow> 'f" where
  "get_float strtof minus_one key m = (case get_param key m of None \<Rightarrow> minus_one | Some v \<Rightarrow> strtof v)"

text \<open>The two numbers, and what is left.\<close>

definition parse_pair :: "nat \<Rightarrow> char \<Rightarrow> string \<Rightarrow> ((int \<times> int) \<times> string) option" where
  "parse_pair bits delim str =
     (case strtol_end str of
        [] \<Rightarrow> None
      | c # rest \<Rightarrow>
          if c \<noteq> delim then None
          else Some ((c_int32 (strtol bits 10 str), c_int32 (strtol bits 10 rest)), strtol_end rest))"

lemma length_strtol_end: "length (strtol_end s) \<le> length s"
  using length_dropWhile_le [of isspace s] length_dropWhile_le [of is_digit "after_sign (dropWhile isspace s)"]
  by (auto simp: strtol_end_def after_sign_def Let_def split: if_splits)

lemma parse_pair_shorter: "parse_pair bits d s = Some (p, r) \<Longrightarrow> length r < length s"
  using length_strtol_end [of s] length_strtol_end [of "tl (strtol_end s)"]
  by (auto simp: parse_pair_def split: list.splits if_splits)

function sizes_loop :: "nat \<Rightarrow> string \<Rightarrow> (int \<times> int) list \<Rightarrow> (int \<times> int) list" where
  "sizes_loop bits s sizes =
     (case parse_pair bits (CHR ''x'') s of
        None \<Rightarrow> sizes
      | Some (p, []) \<Rightarrow> sizes @ [p]
      | Some (p, c # rest) \<Rightarrow> if c \<noteq> CHR '','' then sizes else sizes_loop bits rest (sizes @ [p]))"
  by pat_completeness auto
termination
  by (relation "measure (\<lambda>(bits, s, sizes). length s)") (auto dest!: parse_pair_shorter)

declare sizes_loop.simps [simp del]

definition parseSizesList :: "nat \<Rightarrow> string option \<Rightarrow> (int \<times> int) list" where
  "parseSizesList bits sizesStr = (case sizesStr of None \<Rightarrow> [] | Some s \<Rightarrow> sizes_loop bits s [])"

section \<open>The settings\<close>

definition KEY_PREVIEW_SIZE :: string where "KEY_PREVIEW_SIZE = ''preview-size''"
definition KEY_SUPPORTED_PREVIEW_SIZES :: string where "KEY_SUPPORTED_PREVIEW_SIZES = ''preview-size-values''"
definition KEY_PREVIEW_FORMAT :: string where "KEY_PREVIEW_FORMAT = ''preview-format''"
definition KEY_SUPPORTED_PREVIEW_FORMATS :: string where "KEY_SUPPORTED_PREVIEW_FORMATS = ''preview-format-values''"
definition KEY_PREVIEW_FRAME_RATE :: string where "KEY_PREVIEW_FRAME_RATE = ''preview-frame-rate''"
definition KEY_PREVIEW_FPS_RANGE :: string where "KEY_PREVIEW_FPS_RANGE = ''preview-fps-range''"
definition KEY_PICTURE_SIZE :: string where "KEY_PICTURE_SIZE = ''picture-size''"
definition KEY_SUPPORTED_PICTURE_SIZES :: string where "KEY_SUPPORTED_PICTURE_SIZES = ''picture-size-values''"
definition KEY_PICTURE_FORMAT :: string where "KEY_PICTURE_FORMAT = ''picture-format''"
definition KEY_VIDEO_SIZE :: string where "KEY_VIDEO_SIZE = ''video-size''"
definition KEY_SUPPORTED_VIDEO_SIZES :: string where "KEY_SUPPORTED_VIDEO_SIZES = ''video-size-values''"
definition KEY_PREFERRED_PREVIEW_SIZE_FOR_VIDEO :: string where
  "KEY_PREFERRED_PREVIEW_SIZE_FOR_VIDEO = ''preferred-preview-size-for-video''"

definition show_pair :: "char \<Rightarrow> int \<Rightarrow> int \<Rightarrow> string" where
  "show_pair d w h = show_int w @ [d] @ show_int h"

definition get_pair :: "nat \<Rightarrow> char \<Rightarrow> string option \<Rightarrow> int \<times> int" where
  "get_pair bits d p =
     (case p of None \<Rightarrow> (- 1, - 1) | Some s \<Rightarrow> (case parse_pair bits d s of None \<Rightarrow> (- 1, - 1) | Some (wh, _) \<Rightarrow> wh))"

definition setPreviewSize :: "bool \<Rightarrow> int \<Rightarrow> int \<Rightarrow> params \<Rightarrow> params" where
  "setPreviewSize qcom w h = set_param qcom (Some KEY_PREVIEW_SIZE) (Some (show_pair (CHR ''x'') w h))"

definition getPreviewSize :: "nat \<Rightarrow> params \<Rightarrow> int \<times> int" where
  "getPreviewSize bits m = get_pair bits (CHR ''x'') (get_param KEY_PREVIEW_SIZE m)"

definition getPreferredPreviewSizeForVideo :: "nat \<Rightarrow> params \<Rightarrow> int \<times> int" where
  "getPreferredPreviewSizeForVideo bits m = get_pair bits (CHR ''x'') (get_param KEY_PREFERRED_PREVIEW_SIZE_FOR_VIDEO m)"

definition getSupportedPreviewSizes :: "nat \<Rightarrow> params \<Rightarrow> (int \<times> int) list" where
  "getSupportedPreviewSizes bits m = parseSizesList bits (get_param KEY_SUPPORTED_PREVIEW_SIZES m)"

definition setVideoSize :: "bool \<Rightarrow> int \<Rightarrow> int \<Rightarrow> params \<Rightarrow> params" where
  "setVideoSize qcom w h = set_param qcom (Some KEY_VIDEO_SIZE) (Some (show_pair (CHR ''x'') w h))"

definition getVideoSize :: "nat \<Rightarrow> params \<Rightarrow> int \<times> int" where
  "getVideoSize bits m = get_pair bits (CHR ''x'') (get_param KEY_VIDEO_SIZE m)"

definition getSupportedVideoSizes :: "nat \<Rightarrow> params \<Rightarrow> (int \<times> int) list" where
  "getSupportedVideoSizes bits m = parseSizesList bits (get_param KEY_SUPPORTED_VIDEO_SIZES m)"

definition setPreviewFrameRate :: "bool \<Rightarrow> int \<Rightarrow> params \<Rightarrow> params" where
  "setPreviewFrameRate qcom fps = set_int qcom KEY_PREVIEW_FRAME_RATE fps"

definition getPreviewFrameRate :: "nat \<Rightarrow> params \<Rightarrow> int" where
  "getPreviewFrameRate bits m = get_int bits KEY_PREVIEW_FRAME_RATE m"

definition getPreviewFpsRange :: "nat \<Rightarrow> params \<Rightarrow> int \<times> int" where
  "getPreviewFpsRange bits m = get_pair bits (CHR '','') (get_param KEY_PREVIEW_FPS_RANGE m)"

definition setPreviewFormat :: "bool \<Rightarrow> string option \<Rightarrow> params \<Rightarrow> params" where
  "setPreviewFormat qcom f = set_param qcom (Some KEY_PREVIEW_FORMAT) f"

definition getPreviewFormat :: "params \<Rightarrow> string option" where
  "getPreviewFormat m = get_param KEY_PREVIEW_FORMAT m"

definition setPictureSize :: "bool \<Rightarrow> int \<Rightarrow> int \<Rightarrow> params \<Rightarrow> params" where
  "setPictureSize qcom w h = set_param qcom (Some KEY_PICTURE_SIZE) (Some (show_pair (CHR ''x'') w h))"

definition getPictureSize :: "nat \<Rightarrow> params \<Rightarrow> int \<times> int" where
  "getPictureSize bits m = get_pair bits (CHR ''x'') (get_param KEY_PICTURE_SIZE m)"

definition getSupportedPictureSizes :: "nat \<Rightarrow> params \<Rightarrow> (int \<times> int) list" where
  "getSupportedPictureSizes bits m = parseSizesList bits (get_param KEY_SUPPORTED_PICTURE_SIZES m)"

definition setPictureFormat :: "bool \<Rightarrow> string option \<Rightarrow> params \<Rightarrow> params" where
  "setPictureFormat qcom f = set_param qcom (Some KEY_PICTURE_FORMAT) f"

definition getPictureFormat :: "params \<Rightarrow> string option" where
  "getPictureFormat m = get_param KEY_PICTURE_FORMAT m"

definition dump_line :: "string \<times> string \<Rightarrow> string" where
  "dump_line p = take 254 (CHR 0x09 # fst p @ '': '' @ snd p @ [CHR 0x0A])"

definition dump :: "params \<Rightarrow> string" where
  "dump m =
     take 254 (''CameraParameters::dump: mMap.size = '' @ show_nat (length m) @ [CHR 0x0A]) @ concat (map dump_line m)"

datatype hal_pixel_format =
  HAL_PIXEL_FORMAT_YCbCr_422_SP | HAL_PIXEL_FORMAT_YCrCb_420_SP | HAL_PIXEL_FORMAT_YCbCr_422_I | HAL_PIXEL_FORMAT_YV12 |
  HAL_PIXEL_FORMAT_RGB_565 | HAL_PIXEL_FORMAT_RGBA_8888 | HAL_PIXEL_FORMAT_RAW16

definition previewFormatToEnum :: "string option \<Rightarrow> hal_pixel_format option" where
  "previewFormatToEnum format =
     (case format of
        None \<Rightarrow> Some HAL_PIXEL_FORMAT_YCrCb_420_SP
      | Some f \<Rightarrow>
          if f = ''yuv422sp'' then Some HAL_PIXEL_FORMAT_YCbCr_422_SP
          else if f = ''yuv420sp'' then Some HAL_PIXEL_FORMAT_YCrCb_420_SP
          else if f = ''yuv422i-yuyv'' then Some HAL_PIXEL_FORMAT_YCbCr_422_I
          else if f = ''yuv420p'' then Some HAL_PIXEL_FORMAT_YV12
          else if f = ''rgb565'' then Some HAL_PIXEL_FORMAT_RGB_565
          else if f = ''rgba8888'' then Some HAL_PIXEL_FORMAT_RGBA_8888
          else if f = ''bayer-rggb'' then Some HAL_PIXEL_FORMAT_RAW16
          else None)"

function formats_loop :: "string \<Rightarrow> hal_pixel_format list \<Rightarrow> hal_pixel_format list" where
  "formats_loop s formats =
     (case strtok (CHR '','') s of
        None \<Rightarrow> formats
      | Some (fmt, rest) \<Rightarrow>
          formats_loop rest (case previewFormatToEnum (Some fmt) of None \<Rightarrow> formats | Some f \<Rightarrow> formats @ [f]))"
  by pat_completeness auto
termination
  by (relation "measure (\<lambda>(s, formats). length s)") (auto dest: strtok_shorter)

declare formats_loop.simps [simp del]

definition getSupportedPreviewFormats :: "params \<Rightarrow> hal_pixel_format list" where
  "getSupportedPreviewFormats m =
     (case get_param KEY_SUPPORTED_PREVIEW_FORMATS m of None \<Rightarrow> [] | Some s \<Rightarrow> formats_loop s [])"

definition isEmpty :: "params \<Rightarrow> bool" where
  "isEmpty m \<longleftrightarrow> m = []"

section \<open>\<open>CameraParameters2\<close>\<close>

definition flatten2 :: "params \<Rightarrow> string" where
  "flatten2 m = flatten m"

definition unflatten2 :: "string \<Rightarrow> params" where
  "unflatten2 s = unflatten_loop okv_add s []"

definition set_param2 :: "string option \<Rightarrow> string option \<Rightarrow> params \<Rightarrow> params option" where
  "set_param2 key value m =
     (case key of
        None \<Rightarrow> None
      | Some k \<Rightarrow>
          if \<not> valid_chars k then Some m
          else (case value of
                  None \<Rightarrow> None
                | Some v \<Rightarrow> if \<not> valid_chars v then Some m else Some (okv_replace k v m)))"

definition set_int2 :: "string \<Rightarrow> int \<Rightarrow> params \<Rightarrow> params option" where
  "set_int2 key n = set_param2 (Some key) (Some (show_int n))"

definition set_float2 :: "('f \<Rightarrow> string) \<Rightarrow> string \<Rightarrow> 'f \<Rightarrow> params \<Rightarrow> params option" where
  "set_float2 fmt_g key x = set_param2 (Some key) (Some (take 15 (fmt_g x)))"

definition get_param2 :: "string \<Rightarrow> params \<Rightarrow> string option" where
  "get_param2 key m = (case indexOfKey key m of None \<Rightarrow> None | Some i \<Rightarrow> Some (snd (m ! i)))"

definition get_int2 :: "nat \<Rightarrow> string \<Rightarrow> params \<Rightarrow> int" where
  "get_int2 bits key m = (case get_param2 key m of None \<Rightarrow> - 1 | Some v \<Rightarrow> c_int32 (strtol_base0 bits v))"

definition get_float2 :: "(string \<Rightarrow> 'f) \<Rightarrow> 'f \<Rightarrow> string \<Rightarrow> params \<Rightarrow> 'f" where
  "get_float2 strtof minus_one key m = (case get_param2 key m of None \<Rightarrow> minus_one | Some v \<Rightarrow> strtof v)"

datatype order_status = BAD_VALUE | NAME_NOT_FOUND | Order int

definition compareSetOrder :: "string option \<Rightarrow> string option \<Rightarrow> bool \<Rightarrow> params \<Rightarrow> order_status" where
  "compareSetOrder key1 key2 order_set m =
     (case (key1, key2) of
        (Some k1, Some k2) \<Rightarrow>
          if \<not> order_set then BAD_VALUE
          else (case (indexOfKey k1 m, indexOfKey k2 m) of
                  (Some i1, Some i2) \<Rightarrow> Order (if i1 = i2 then 0 else if i1 < i2 then - 1 else 1)
                | _ \<Rightarrow> NAME_NOT_FOUND)
      | _ \<Rightarrow> BAD_VALUE)"

definition remove2 :: "string \<Rightarrow> params \<Rightarrow> params" where
  "remove2 key m = okv_remove key m"

definition setPreviewSize2 :: "int \<Rightarrow> int \<Rightarrow> params \<Rightarrow> params option" where
  "setPreviewSize2 w h = set_param2 (Some KEY_PREVIEW_SIZE) (Some (show_pair (CHR ''x'') w h))"

definition getPreviewSize2 :: "nat \<Rightarrow> params \<Rightarrow> int \<times> int" where
  "getPreviewSize2 bits m = get_pair bits (CHR ''x'') (get_param2 KEY_PREVIEW_SIZE m)"

definition getPreferredPreviewSizeForVideo2 :: "nat \<Rightarrow> params \<Rightarrow> int \<times> int" where
  "getPreferredPreviewSizeForVideo2 bits m = get_pair bits (CHR ''x'') (get_param2 KEY_PREFERRED_PREVIEW_SIZE_FOR_VIDEO m)"

definition getSupportedPreviewSizes2 :: "nat \<Rightarrow> params \<Rightarrow> (int \<times> int) list" where
  "getSupportedPreviewSizes2 bits m = parseSizesList bits (get_param2 KEY_SUPPORTED_PREVIEW_SIZES m)"

definition setVideoSize2 :: "int \<Rightarrow> int \<Rightarrow> params \<Rightarrow> params option" where
  "setVideoSize2 w h = set_param2 (Some KEY_VIDEO_SIZE) (Some (show_pair (CHR ''x'') w h))"

definition getVideoSize2 :: "nat \<Rightarrow> params \<Rightarrow> int \<times> int" where
  "getVideoSize2 bits m = get_pair bits (CHR ''x'') (get_param2 KEY_VIDEO_SIZE m)"

definition getSupportedVideoSizes2 :: "nat \<Rightarrow> params \<Rightarrow> (int \<times> int) list" where
  "getSupportedVideoSizes2 bits m = parseSizesList bits (get_param2 KEY_SUPPORTED_VIDEO_SIZES m)"

definition setPreviewFrameRate2 :: "int \<Rightarrow> params \<Rightarrow> params option" where
  "setPreviewFrameRate2 fps = set_int2 KEY_PREVIEW_FRAME_RATE fps"

definition getPreviewFrameRate2 :: "nat \<Rightarrow> params \<Rightarrow> int" where
  "getPreviewFrameRate2 bits m = get_int2 bits KEY_PREVIEW_FRAME_RATE m"

definition getPreviewFpsRange2 :: "nat \<Rightarrow> params \<Rightarrow> int \<times> int" where
  "getPreviewFpsRange2 bits m = get_pair bits (CHR '','') (get_param2 KEY_PREVIEW_FPS_RANGE m)"

definition setPreviewFpsRange2 :: "int \<Rightarrow> int \<Rightarrow> params \<Rightarrow> params option" where
  "setPreviewFpsRange2 a b = set_param2 (Some KEY_PREVIEW_FPS_RANGE) (Some (show_pair (CHR '','') a b))"

definition setPreviewFormat2 :: "string option \<Rightarrow> params \<Rightarrow> params option" where
  "setPreviewFormat2 f = set_param2 (Some KEY_PREVIEW_FORMAT) f"

definition getPreviewFormat2 :: "params \<Rightarrow> string option" where
  "getPreviewFormat2 m = get_param2 KEY_PREVIEW_FORMAT m"

definition setPictureSize2 :: "int \<Rightarrow> int \<Rightarrow> params \<Rightarrow> params option" where
  "setPictureSize2 w h = set_param2 (Some KEY_PICTURE_SIZE) (Some (show_pair (CHR ''x'') w h))"

definition getPictureSize2 :: "nat \<Rightarrow> params \<Rightarrow> int \<times> int" where
  "getPictureSize2 bits m = get_pair bits (CHR ''x'') (get_param2 KEY_PICTURE_SIZE m)"

definition getSupportedPictureSizes2 :: "nat \<Rightarrow> params \<Rightarrow> (int \<times> int) list" where
  "getSupportedPictureSizes2 bits m = parseSizesList bits (get_param2 KEY_SUPPORTED_PICTURE_SIZES m)"

definition setPictureFormat2 :: "string option \<Rightarrow> params \<Rightarrow> params option" where
  "setPictureFormat2 f = set_param2 (Some KEY_PICTURE_FORMAT) f"

definition getPictureFormat2 :: "params \<Rightarrow> string option" where
  "getPictureFormat2 m = get_param2 KEY_PICTURE_FORMAT m"

definition dump2 :: "params \<Rightarrow> string" where
  "dump2 m =
     take 254 (''CameraParameters2::dump: mMap.size = '' @ show_nat (length m) @ [CHR 0x0A]) @ concat (map dump_line m)"

section \<open>Flattening is inverted\<close>

text \<open>Every object satisfies this, however it was made: the keys have no \<open>=\<close>, the values no \<open>;\<close>.\<close>

definition flat_ok :: "params \<Rightarrow> bool" where
  "flat_ok = list_all (\<lambda>(k, v). CHR ''='' \<notin> set k \<and> CHR '';'' \<notin> set v)"

lemma before_after:
  assumes "c \<notin> set s"
  shows "before c (s @ c # t) = s" "after c (s @ c # t) = t"
  using assms by (auto simp: before_def after_def takeWhile_append1 dropWhile_append1 takeWhile_tail dropWhile_append)

lemma before_clean: "c \<notin> set (before c s)"
  by (auto simp: before_def dest: set_takeWhileD)

text \<open>Reading a flattened list adds its pairs in order, for any way of adding.\<close>

lemma unflatten_flatten: "flat_ok l \<Longrightarrow> unflatten_loop add (flatten l) m = fold (\<lambda>(k, v). add k v) l m"
proof (induction l arbitrary: m rule: flatten.induct)
  case 1
  then show ?case by (simp add: unflatten_loop.simps)
next
  case (2 k v)
  then show ?case by (subst unflatten_loop.simps) (simp add: flat_ok_def before_after)
next
  case (3 k v p l)
  then have "flat_ok (p # l)" "CHR ''='' \<notin> set k" "CHR '';'' \<notin> set v" by (auto simp: flat_ok_def)
  with 3 show ?case by (subst unflatten_loop.simps) (simp add: before_after)
qed

lemma unflatten_keeps:
  assumes "\<And>k v m. P m \<Longrightarrow> CHR ''='' \<notin> set k \<Longrightarrow> CHR '';'' \<notin> set v \<Longrightarrow> P (add k v m)"
  shows "P m \<Longrightarrow> P (unflatten_loop add s m)"
  using assms
proof (induction add s m rule: unflatten_loop.induct)
  case (1 add a m)
  let ?v = "after (CHR ''='') a"
  show ?case
  proof (cases "CHR ''='' \<notin> set a \<or> CHR '';'' \<notin> set ?v")
    case True
    with 1(2,3) before_clean show ?thesis by (subst unflatten_loop.simps) auto
  next
    case False
    then have "P (unflatten_loop add (after (CHR '';'') ?v) (add (before (CHR ''='') a) (before (CHR '';'') ?v) m))"
      using 1 before_clean by simp
    with False show ?thesis by (subst unflatten_loop.simps) simp
  qed
qed

definition params_ok :: "params \<Rightarrow> bool" where
  "params_ok m \<longleftrightarrow> flat_ok m \<and> sorted_wrt (<) (map fst m)"

lemma kv_add_ok: "params_ok m \<Longrightarrow> CHR ''='' \<notin> set k \<Longrightarrow> CHR '';'' \<notin> set v \<Longrightarrow> params_ok (kv_add k v m)"
proof -
  have "flat_ok m \<Longrightarrow> CHR ''='' \<notin> set k \<Longrightarrow> CHR '';'' \<notin> set v \<Longrightarrow> flat_ok (kv_add k v m)"
    by (induction k v m rule: kv_add.induct) (auto simp: flat_ok_def)
  then show "params_ok m \<Longrightarrow> CHR ''='' \<notin> set k \<Longrightarrow> CHR '';'' \<notin> set v \<Longrightarrow> params_ok (kv_add k v m)"
    by (simp add: params_ok_def kv_add_sorted)
qed

lemma kv_remove_ok: "params_ok m \<Longrightarrow> params_ok (kv_remove k m)"
  by (auto simp: params_ok_def flat_ok_def kv_remove_def list_all_iff sorted_wrt_map sorted_wrt_filter)

lemma fold_okv_add: "fold (\<lambda>(k, v). okv_add k v) l m = m @ l"
  by (induction l arbitrary: m) (auto simp: okv_add_def)

datatype param_op = SetParam "string option" "string option" | RemoveParam string | Unflatten string

fun param_step :: "bool \<Rightarrow> param_op \<Rightarrow> params \<Rightarrow> params" where
  "param_step qcom (SetParam k v) m = set_param qcom k v m"
| "param_step qcom (RemoveParam k) m = kv_remove k m"
| "param_step qcom (Unflatten s) m = unflatten s"

definition param_run :: "bool \<Rightarrow> param_op list \<Rightarrow> params" where
  "param_run qcom ops = fold (param_step qcom) ops []"

lemma set_param_ok: "params_ok m \<Longrightarrow> params_ok (set_param qcom k v m)"
  by (auto simp: set_param_def valid_chars_def intro!: kv_add_ok split: option.splits)

lemma unflatten_ok: "params_ok (unflatten s)"
  unfolding unflatten_def by (rule unflatten_keeps) (simp_all add: kv_add_ok, simp add: params_ok_def flat_ok_def)

lemma param_run_ok: "params_ok (param_run qcom ops)"
proof -
  have "params_ok (param_step qcom p m)" if "params_ok m" for p m
    using that by (cases p) (simp_all add: set_param_ok kv_remove_ok unflatten_ok)
  then have "params_ok m \<Longrightarrow> params_ok (fold (param_step qcom) ops m)" for m
    by (induction ops arbitrary: m) auto
  then show ?thesis by (simp add: param_run_def) (simp add: params_ok_def flat_ok_def)
qed

text \<open>
  C22: Settings survive the way between processes. Whatever sequence of settings, removals and unflattened
  strings (any strings at all) made the object, flattening it and reading the string back gives the same object.
\<close>

theorem camera_params_roundtrip: "unflatten (flatten (param_run qcom ops)) = param_run qcom ops"
  using param_run_ok [of qcom ops] fold_kv_add [of "[]" "param_run qcom ops"]
  by (simp add: unflatten_def unflatten_flatten params_ok_def)

section \<open>A value that is set is found\<close>

lemma get_kv_add: "get_param k' (kv_add k v m) = (if k' = k then if v = [] then None else Some v else get_param k' m)"
  by (simp add: get_param_def kv_value_for_def map_of_kv_add)

text \<open>
  Setting a value changes the value that is found for its key, and for no other key, but for the
  setting \<open>hdr-need-1x\<close>, which is set to false with the first setting if \<open>QCOM_HARDWARE\<close> is defined; an
  empty value is found as none; a key or a value with \<open>=\<close> or \<open>;\<close> changes nothing.
\<close>

theorem camera_set_get:
  "get_param k' (set_param qcom (Some k) (Some v) m) =
     (if \<not> valid_chars k \<or> \<not> valid_chars v then get_param k' m
      else if k' = k then (if v = [] then None else Some v)
      else if k' = ''hdr-need-1x'' \<and> qcom \<and> get_param k' m = None then Some ''false''
      else get_param k' m)"
  by (auto simp: set_param_def get_kv_add)

section \<open>Numbers and sizes\<close>

definition no_digit :: "string \<Rightarrow> bool" where
  "no_digit s \<longleftrightarrow> s = [] \<or> \<not> is_digit (hd s)"

lemma digit_val_stop: "\<not> is_digit c \<Longrightarrow> digit_val c = Some v \<Longrightarrow> 10 \<le> v"
  by (auto simp: digit_val_def is_digit_def Let_def tolower_def split: if_splits)

lemma digits_value_stop: "\<forall>c \<in> set xs. is_digit c \<Longrightarrow> no_digit s \<Longrightarrow> digits_value 10 acc (xs @ s) = digits_value 10 acc xs"
proof (induction xs arbitrary: acc)
  case Nil
  then show ?case by (cases s) (auto simp: no_digit_def dest: digit_val_stop split: option.split)
next
  case (Cons c xs)
  then show ?case by (auto split: option.split)
qed

lemma skip_prefix_10 [simp]: "skip_prefix 10 s = s"
  by (auto simp: skip_prefix_def split: list.split)

lemma show_nat_split: obtains c cs where "show_nat n = c # cs" "is_digit c" "\<forall>x \<in> set (c # cs). is_digit x"
  using show_nat_ne [of n] show_nat_digits [of n] by (cases "show_nat n") auto

definition int32 :: "int \<Rightarrow> bool" where
  "int32 n \<longleftrightarrow> - (2 ^ 31) \<le> n \<and> n < 2 ^ 31"

lemma read_shown:
  assumes "no_digit s" "32 \<le> bits" "int32 n"
  shows "strtol bits 10 (show_int n @ s) = n" "strtol_end (show_int n @ s) = s"
proof -
  obtain c cs where sn: "show_nat (nat \<bar>n\<bar>) = c # cs" and c: "is_digit c" and ds: "\<forall>x \<in> set (c # cs). is_digit x"
    by (rule show_nat_split)
  note f = is_digit_facts [OF c]
  have v: "digits_value 10 0 (c # cs @ s) = nat \<bar>n\<bar>"
    using digits_value_stop [OF ds assms(1), of 0] digits_value_show_nat [of "nat \<bar>n\<bar>"] sn by simp
  have p: "(2 :: int) ^ 31 \<le> 2 ^ (bits - 1)" using assms(2) by (intro power_increasing) auto
  have d: "dropWhile is_digit (c # cs @ s) = s"
    using ds assms(1) by (cases s) (auto simp: no_digit_def dropWhile_append2)
  show "strtol bits 10 (show_int n @ s) = n" "strtol_end (show_int n @ s) = s"
  proof (atomize (full), cases "n < 0")
    case True
    then have "show_int n = CHR ''-'' # c # cs" using sn by (simp add: show_int_def)
    then show "strtol bits 10 (show_int n @ s) = n \<and> strtol_end (show_int n @ s) = s"
      using v d c True assms(3) p
      by (simp add: strtol_def strtol_end_def after_sign_def Let_def isspace_def int32_def del: digits_value.simps)
  next
    case False
    then have "show_int n = c # cs" using sn by (simp add: show_int_def)
    then show "strtol bits 10 (show_int n @ s) = n \<and> strtol_end (show_int n @ s) = s"
      using v d c f False assms(3) p
      by (simp add: strtol_def strtol_end_def after_sign_def Let_def int32_def del: digits_value.simps)
  qed
qed

lemma parse_pair_shown:
  assumes "32 \<le> bits" "int32 w" "int32 h" "no_digit s" "\<not> is_digit d"
  shows "parse_pair bits d (show_pair d w h @ s) = Some ((w, h), s)"
proof -
  have "no_digit (d # show_int h @ s)" using assms(5) by (simp add: no_digit_def)
  note r = read_shown [OF this assms(1,2)] read_shown [OF assms(4,1,3)]
  show ?thesis using r assms by (simp add: parse_pair_def show_pair_def c_int32_id int32_def)
qed

lemma shown_valid: "valid_chars (show_int n)"
proof -
  have "valid_chars (show_nat k)" for k
    using show_nat_digits [of k] by (auto simp: valid_chars_def is_digit_def)
  then show ?thesis by (auto simp: show_int_def valid_chars_def)
qed

lemma shown_pair_valid: "d \<noteq> CHR ''='' \<Longrightarrow> d \<noteq> CHR '';'' \<Longrightarrow> valid_chars (show_pair d w h) \<and> show_pair d w h \<noteq> []"
  using shown_valid [of w] shown_valid [of h] by (simp add: valid_chars_def show_pair_def)

lemmas size_keys = KEY_PREVIEW_SIZE_def KEY_VIDEO_SIZE_def KEY_PICTURE_SIZE_def

text \<open>
  Sizes are read back: for numbers of type int, the size of the preview, of a video and of a picture
  that was set last is what is got, whatever else is set, and so is the frame rate.
\<close>

theorem camera_sizes_roundtrip:
  assumes "32 \<le> bits" "int32 w" "int32 h"
  shows "(getPreviewSize bits (setPreviewSize qcom w h m), getVideoSize bits (setVideoSize qcom w h m),
      getPictureSize bits (setPictureSize qcom w h m)) = ((w, h), (w, h), (w, h))"
proof -
  have "get_pair bits (CHR ''x'') (Some (show_pair (CHR ''x'') w h)) = (w, h)"
    using parse_pair_shown [OF assms, of "[]" "CHR ''x''"] by (simp add: get_pair_def no_digit_def is_digit_def)
  moreover have "get_param k (set_param qcom (Some k) (Some (show_pair (CHR ''x'') w h)) m) = Some (show_pair (CHR ''x'') w h)"
    if "valid_chars k" for k
    using shown_pair_valid [of "CHR ''x''" w h] that by (simp add: set_param_def get_kv_add)
  moreover have "valid_chars KEY_PREVIEW_SIZE" "valid_chars KEY_VIDEO_SIZE" "valid_chars KEY_PICTURE_SIZE" by code_simp+
  ultimately show ?thesis
    by (simp add: getPreviewSize_def setPreviewSize_def getVideoSize_def setVideoSize_def getPictureSize_def setPictureSize_def)
qed

theorem camera_sizes_roundtrip_witness:
  "getPreviewSize 32 (setPreviewSize True 1920 1080 []) = (1920, 1080) \<and> getVideoSize 32 (setVideoSize False (- 3) 7 []) = (- 3, 7)"
  using camera_sizes_roundtrip [of 32 1920 1080 True "[]"] camera_sizes_roundtrip [of 32 "- 3" 7 False "[]"]
  by (simp add: int32_def)

fun show_sizes :: "(int \<times> int) list \<Rightarrow> string" where
  "show_sizes [] = []"
| "show_sizes [(w, h)] = show_pair (CHR ''x'') w h"
| "show_sizes ((w, h) # p # ps) = show_pair (CHR ''x'') w h @ '','' @ show_sizes (p # ps)"

lemma sizes_loop_shown:
  "32 \<le> bits \<Longrightarrow> list_all (\<lambda>(w, h). int32 w \<and> int32 h) ps \<Longrightarrow> ps \<noteq> [] \<Longrightarrow>
   sizes_loop bits (show_sizes ps) acc = acc @ ps"
proof (induction ps arbitrary: acc rule: show_sizes.induct)
  case (2 w h)
  then show ?case using parse_pair_shown [of bits w h "[]" "CHR ''x''"]
    by (subst sizes_loop.simps) (simp add: no_digit_def is_digit_def)
next
  case (3 w h p ps)
  then show ?case using parse_pair_shown [of bits w h "CHR '','' # show_sizes (p # ps)" "CHR ''x''"]
    by (subst sizes_loop.simps) (simp add: no_digit_def is_digit_def)
qed simp

text \<open>
  A list of supported sizes is read back: printed with commas between the sizes, it is exactly the list
  that the client gets.
\<close>

theorem camera_size_lists_roundtrip:
  assumes "32 \<le> bits" "list_all (\<lambda>(w, h). int32 w \<and> int32 h) ps" "ps \<noteq> []"
    and "get_param KEY_SUPPORTED_PREVIEW_SIZES m = Some (show_sizes ps)"
  shows "getSupportedPreviewSizes bits m = ps"
  using sizes_loop_shown [OF assms(1-3), of "[]"] assms(4) by (simp add: getSupportedPreviewSizes_def parseSizesList_def)

theorem camera_size_lists_roundtrip_witness:
  "getSupportedPreviewSizes 32 (unflatten ''preview-size-values=1920x1080,640x480;zoom=1'') = [(1920, 1080), (640, 480)]"
proof -
  have "get_param KEY_SUPPORTED_PREVIEW_SIZES (unflatten ''preview-size-values=1920x1080,640x480;zoom=1'') =
      Some (show_sizes [(1920, 1080), (640, 480)])"
    by code_simp
  from camera_size_lists_roundtrip [OF _ _ _ this, of 32] show ?thesis by (simp add: int32_def)
qed

text \<open>A value that is not of the form printed: an octal number, and a list cut at the first error.\<close>

lemma octal_number: "get_int 32 ''zoom'' (unflatten ''zoom=010'') = 8"
  by code_simp

lemma sizes_stop_at_error: "getSupportedPreviewSizes 32 (unflatten ''preview-size-values=640x480,bad,320x240'') = [(640, 480)]"
  by code_simp

section \<open>The order of setting\<close>

lemma indexOfKey_None: "indexOfKey k m = None \<longleftrightarrow> k \<notin> fst ` set m"
  by (induction k m rule: indexOfKey.induct) auto

lemma indexOfKey_Some: "indexOfKey k m = Some i \<Longrightarrow> i < length m \<and> fst (m ! i) = k"
  by (induction k m arbitrary: i rule: indexOfKey.induct) (auto split: if_splits)

lemma indexOfKey_append:
  "indexOfKey k (m @ l) = (case indexOfKey k m of Some i \<Rightarrow> Some i | None \<Rightarrow> (case indexOfKey k l of None \<Rightarrow> None | Some i \<Rightarrow> Some (length m + i)))"
  by (induction k m rule: indexOfKey.induct) (auto split: option.split)

lemma okv_remove_keys: "distinct (map fst m) \<Longrightarrow> okv_remove k m = filter (\<lambda>p. fst p \<noteq> k) m"
proof (induction m)
  case (Cons p m)
  obtain k' v where p: "p = (k', v)" by force
  show ?case
  proof (cases "k' = k")
    case True
    with Cons.prems have "filter (\<lambda>p. fst p \<noteq> k) m = m" by (force simp: p intro: filter_True)
    with True show ?thesis by (simp add: okv_remove_def p)
  next
    case False
    with Cons show ?thesis by (auto simp: okv_remove_def p split: option.splits)
  qed
qed (simp add: okv_remove_def)

lemma okv_replace_distinct: "distinct (map fst m) \<Longrightarrow> distinct (map fst (okv_replace k v m))"
  by (auto simp: okv_replace_def okv_add_def okv_remove_keys distinct_map_filter)

fun param_step2 :: "param_op \<Rightarrow> params \<Rightarrow> params option" where
  "param_step2 (SetParam k v) m = set_param2 k v m"
| "param_step2 (RemoveParam k) m = Some (remove2 k m)"
| "param_step2 (Unflatten s) m = Some (unflatten2 s)"

fun param_run2 :: "param_op list \<Rightarrow> params \<Rightarrow> params option" where
  "param_run2 [] m = Some m"
| "param_run2 (p # ops) m = Option.bind (param_step2 p m) (param_run2 ops)"

definition no_unflatten :: "param_op \<Rightarrow> bool" where
  "no_unflatten p \<longleftrightarrow> (case p of Unflatten s \<Rightarrow> False | _ \<Rightarrow> True)"

lemma param_run2_distinct:
  "list_all no_unflatten ops \<Longrightarrow> param_run2 ops m = Some m' \<Longrightarrow> distinct (map fst m) \<Longrightarrow> distinct (map fst m')"
proof (induction ops arbitrary: m)
  case (Cons p ops)
  obtain m1 where m1: "param_step2 p m = Some m1" "param_run2 ops m1 = Some m'"
    using Cons.prems(2) by (auto simp: bind_eq_Some_conv)
  have "distinct (map fst m1)"
    using m1(1) Cons.prems by (cases p)
      (auto simp: set_param2_def no_unflatten_def okv_replace_distinct remove2_def okv_remove_keys distinct_map_filter
        split: option.splits if_splits)
  with Cons m1(2) show ?case by simp
qed simp

lemma set_param2_order:
  assumes "distinct (map fst m)" "valid_chars k" "valid_chars v" "set_param2 (Some k) (Some v) m = Some m'"
  shows "(get_param2 k m', compareSetOrder (Some j) (Some k) True m') =
    (Some v, if j = k then Order 0 else if j \<in> fst ` set m then Order (- 1) else NAME_NOT_FOUND)"
proof -
  let ?r = "okv_remove k m"
  have m': "m' = ?r @ [(k, v)]" using assms by (simp add: set_param2_def okv_replace_def okv_add_def)
  have keys: "fst ` set ?r = fst ` set m - {k}" using okv_remove_keys [OF assms(1)] by auto
  have k: "indexOfKey k ?r = None" using keys by (simp add: indexOfKey_None)
  then have ik: "indexOfKey k m' = Some (length ?r)" by (simp add: m' indexOfKey_append)
  have j: "indexOfKey j m' = indexOfKey j ?r" if "j \<noteq> k"
    using that by (auto simp: m' indexOfKey_append split: option.split)
  show ?thesis
  proof (cases "j = k")
    case True
    then show ?thesis by (simp add: compareSetOrder_def get_param2_def ik) (simp add: m')
  next
    case False
    then have "indexOfKey j ?r = None \<longleftrightarrow> j \<notin> fst ` set m" using keys by (auto simp: indexOfKey_None)
    moreover have "i < length ?r" if "indexOfKey j ?r = Some i" for i using indexOfKey_Some [OF that] by simp
    ultimately show ?thesis using False j [OF False]
      by (cases "indexOfKey j ?r") (auto simp: compareSetOrder_def get_param2_def ik, auto simp: m')
  qed
qed

text \<open>
  The order of \<open>CameraParameters2\<close> is the order of the last setting. After any settings and removals,
  the value that was set last is found, and its key compares as set after every other key that is present.
\<close>

theorem camera_set_order:
  assumes "list_all no_unflatten ops" "param_run2 (ops @ [SetParam (Some k) (Some v)]) [] = Some m'"
    and "param_run2 ops [] = Some m" "valid_chars k" "valid_chars v"
  shows "(get_param2 k m', compareSetOrder (Some j) (Some k) True m') =
    (Some v, if j = k then Order 0 else if j \<in> fst ` set m then Order (- 1) else NAME_NOT_FOUND)"
proof -
  have "param_run2 (xs @ ys) m0 = Option.bind (param_run2 xs m0) (param_run2 ys)" for xs ys m0
    by (induction xs arbitrary: m0) (auto split: bind_splits)
  then have "set_param2 (Some k) (Some v) m = Some m'" using assms(2,3) by (simp add: bind_eq_Some_conv)
  moreover have "distinct (map fst m)" using param_run2_distinct [OF assms(1,3)] by simp
  ultimately show ?thesis using assms(4,5) set_param2_order by blast
qed

theorem camera_set_order_witness:
  "\<exists>m. param_run2 [SetParam (Some ''a'') (Some ''1''), SetParam (Some ''b'') (Some ''2''), SetParam (Some ''a'') (Some ''3'')] [] = Some m \<and>
     (get_param2 ''a'' m, compareSetOrder (Some ''b'') (Some ''a'') True m) = (Some ''3'', Order (- 1))"
proof -
  let ?ops = "[SetParam (Some ''a'') (Some ''1''), SetParam (Some ''b'') (Some ''2'')]"
  have 1: "param_run2 ?ops [] = Some [(''a'', ''1''), (''b'', ''2'')]" by code_simp
  have 2: "param_run2 (?ops @ [SetParam (Some ''a'') (Some ''3'')]) [] = Some [(''b'', ''2''), (''a'', ''3'')]" by code_simp
  have 3: "list_all no_unflatten ?ops" "valid_chars ''a''" "valid_chars ''3''" by code_simp+
  from camera_set_order [OF 3(1) 2 1 3(2,3), of "''b''"] 2 show ?thesis
    by (intro exI [of _ "[(''b'', ''2''), (''a'', ''3'')]"]) simp
qed

text \<open>
  \<open>unflatten\<close> adds to this map without looking for the key. With a key that is twice in the string, a value
  that is set afterwards is not found, and removing the key does not remove it.
\<close>

lemma duplicate_hides_new_value:
  "Option.bind (param_run2 [Unflatten ''a=1;b=2;a=3'', SetParam (Some ''a'') (Some ''4'')] []) (get_param2 ''a'') = Some ''3''"
  by code_simp

lemma duplicate_survives_remove:
  "Option.bind (param_run2 [Unflatten ''a=1;b=2;a=3'', RemoveParam ''a''] []) (get_param2 ''a'') = Some ''3''"
  by code_simp

text \<open>The strings of this map survive as well, duplicates included.\<close>

lemma camera_params2_roundtrip: "flat_ok m \<Longrightarrow> unflatten2 (flatten2 m) = m"
  using fold_okv_add [of m "[]"] by (simp add: unflatten2_def flatten2_def unflatten_flatten)

text \<open>A NULL pointer as key or value crashes, which the first class ignores.\<close>

lemma null_key_crashes: "set_param2 None v m = None" "set_param qcom None v m = m"
  by (simp_all add: set_param2_def set_param_def)

end
