(* ===== verification/Camera_Wrapper.thy ===== *)
theory Camera_Wrapper
  imports Camera_Params "HOL-Library.Monad_Syntax"
begin

text \<open>
  \<open>CameraWrapper.cpp\<close>: the camera module that stands before the vendor's. It hands each call on, corrects the
  settings in both directions, and keeps the last settings of each camera as a C string.

  \<^item> The state are the two globals, the C strings and wrapper devices that are allocated, and what the vendor's
    module was asked. \<open>wrapper_env\<close> is the vendor's module (its answers depend on all it was asked before) and
    what \<open>malloc\<close> returns, during one call of the client: each call of a run has its own. The vendor's
    number of cameras is not negative. Arguments that are only handed on are integers.
  \<^item> A result None is undefined behaviour: a NULL pointer followed, memory freed twice, an index out of range.
  \<^item> Shown: the settings the vendor and the client get; a client that has one device open at a time, of a camera
    that exists, runs into undefined behaviour exactly if the vendor gives no settings or the number of its
    cameras grows while a device is open; clients that break the rules.
\<close>

section \<open>The vendor's module\<close>

datatype vendor_call =
    Set_preview_window int
  | Set_callbacks int int int int int
  | Enable_msg_type int
  | Disable_msg_type int
  | Msg_type_enabled int
  | Start_preview
  | Stop_preview
  | Preview_enabled
  | Store_meta_data_in_buffers int
  | Start_recording
  | Stop_recording
  | Recording_enabled
  | Release_recording_frame int
  | Auto_focus
  | Cancel_auto_focus
  | Take_picture
  | Cancel_picture
  | Set_parameters "string option"
  | Get_parameters
  | Put_parameters
  | Send_command int int int
  | Release
  | Dump int
  | Vendor_open string
  | Vendor_close

record wrapper_camera_device =
  dev_id :: int
  dev_vendor :: nat

type_synonym vendor_log = "(nat \<times> vendor_call) list"

record wrapper_env =
  get_module :: int
  num_cameras :: nat
  open_result :: "vendor_log \<Rightarrow> string \<Rightarrow> int \<times> nat"
  vendor_answer :: "vendor_log \<Rightarrow> nat \<Rightarrow> vendor_call \<Rightarrow> int"
  vendor_params :: "vendor_log \<Rightarrow> nat \<Rightarrow> string option"
  str_alloc :: "(nat \<Rightarrow> string option) \<Rightarrow> ptr"
  device_alloc :: "(nat \<Rightarrow> wrapper_camera_device option) \<Rightarrow> ptr"
  params_alloc :: bool
  ops_alloc :: bool

record camera_wrapper =
  gVendorModule :: bool
  fixed_set_params :: "ptr list option"
  cstrings :: "nat \<Rightarrow> string option"
  wrappers :: "nat \<Rightarrow> wrapper_camera_device option"
  vendor_log :: vendor_log

definition camera_wrapper_init :: camera_wrapper where
  "camera_wrapper_init =
     \<lparr>gVendorModule = False, fixed_set_params = None, cstrings = Map.empty, wrappers = Map.empty, vendor_log = []\<rparr>"

definition EINVAL :: int where "EINVAL = 22"
definition ENOMEM :: int where "ENOMEM = 12"

definition log_call :: "nat \<Rightarrow> vendor_call \<Rightarrow> camera_wrapper \<Rightarrow> camera_wrapper" where
  "log_call v c s = s\<lparr>vendor_log := vendor_log s @ [(v, c)]\<rparr>"

definition check_vendor_module :: "wrapper_env \<Rightarrow> camera_wrapper \<Rightarrow> int \<times> camera_wrapper" where
  "check_vendor_module env s =
     (if gVendorModule s then (0, s) else (get_module env, s\<lparr>gVendorModule := (get_module env = 0)\<rparr>))"

section \<open>Corrected settings\<close>

definition KEY_QC_LONGSHOT_SUPPORTED :: string where "KEY_QC_LONGSHOT_SUPPORTED = ''longshot-supported''"
definition KEY_QC_MANUAL_FOCUS_POSITION :: string where "KEY_QC_MANUAL_FOCUS_POSITION = ''manual-focus-position''"
definition KEY_QC_MANUAL_FOCUS_POS_TYPE :: string where "KEY_QC_MANUAL_FOCUS_POS_TYPE = ''manual-focus-pos-type''"
definition KEY_QC_FOCUS_POSITION_SCALE :: string where "KEY_QC_FOCUS_POSITION_SCALE = ''cur-focus-scale''"
definition KEY_QC_FOCUS_POSITION_DIOPTER :: string where "KEY_QC_FOCUS_POSITION_DIOPTER = ''cur-focus-diopter''"
definition KEY_QC_HDR_NEED_1X :: string where "KEY_QC_HDR_NEED_1X = ''hdr-need-1x''"
definition KEY_SCENE_MODE :: string where "KEY_SCENE_MODE = ''scene-mode''"
definition KEY_SUPPORTED_SCENE_MODES :: string where "KEY_SUPPORTED_SCENE_MODES = ''scene-mode-values''"
definition KEY_AUTO_WHITEBALANCE_LOCK_SUPPORTED :: string where
  "KEY_AUTO_WHITEBALANCE_LOCK_SUPPORTED = ''auto-whitebalance-lock-supported''"
definition SCENE_MODE_HDR :: string where "SCENE_MODE_HDR = ''hdr''"

definition focus_or_0 :: "string option \<Rightarrow> string" where
  "focus_or_0 pos = (case pos of None \<Rightarrow> ''0'' | Some p \<Rightarrow> p)"

definition camera_fixup_getparams :: "bool \<Rightarrow> string \<Rightarrow> string" where
  "camera_fixup_getparams qcom settings =
     (let p = kv_remove KEY_QC_LONGSHOT_SUPPORTED (unflatten settings);
          p = kv_remove KEY_AUTO_WHITEBALANCE_LOCK_SUPPORTED p;
          p = set_param qcom (Some KEY_SUPPORTED_SCENE_MODES) (Some ''auto,hdr'') p;
          pos = get_param KEY_QC_MANUAL_FOCUS_POSITION p;
          ty = get_param KEY_QC_MANUAL_FOCUS_POS_TYPE p;
          p = (if ty = Some ''2'' then set_param qcom (Some KEY_QC_FOCUS_POSITION_SCALE) (Some (focus_or_0 pos)) p
               else if ty = Some ''3'' then set_param qcom (Some KEY_QC_FOCUS_POSITION_DIOPTER) (Some (focus_or_0 pos)) p
               else p)
      in flatten p)"

definition fixed_settings :: "string \<Rightarrow> string" where
  "fixed_settings settings =
     (let p = unflatten settings
      in flatten (if get_param KEY_SCENE_MODE p = Some SCENE_MODE_HDR then kv_remove KEY_QC_HDR_NEED_1X p else p))"

section \<open>C strings\<close>

definition c_free :: "ptr \<Rightarrow> (nat \<Rightarrow> string option) \<Rightarrow> (nat \<Rightarrow> string option) option" where
  "c_free p h = (case p of None \<Rightarrow> Some h | Some a \<Rightarrow> if h a = None then None else Some (h(a := None)))"

definition strdup :: "wrapper_env \<Rightarrow> string \<Rightarrow> (nat \<Rightarrow> string option) \<Rightarrow> ptr \<times> (nat \<Rightarrow> string option)" where
  "strdup env s h = (case str_alloc env h of None \<Rightarrow> (None, h) | Some a \<Rightarrow> (Some a, h(a := Some s)))"

fun free_all :: "ptr list \<Rightarrow> (nat \<Rightarrow> string option) \<Rightarrow> (nat \<Rightarrow> string option) option" where
  "free_all [] h = Some h"
| "free_all (p # ps) h = Option.bind (c_free p h) (free_all ps)"

definition camera_fixup_setparams ::
  "wrapper_env \<Rightarrow> int \<Rightarrow> string option \<Rightarrow> camera_wrapper \<Rightarrow> (ptr \<times> camera_wrapper) option" where
  "camera_fixup_setparams env camid settings s =
     do { txt \<leftarrow> settings;
          l \<leftarrow> fixed_set_params s;
          if camid < 0 \<or> int (length l) \<le> camid then None
          else do { h \<leftarrow> c_free (l ! nat camid) (cstrings s);
                    let (p, h') = strdup env (fixed_settings txt) h;
                    Some (p, s\<lparr>cstrings := h', fixed_set_params := Some (l[nat camid := p])\<rparr>) } }"

section \<open>The operations of a device\<close>

text \<open>What all operations share: \<open>no_device\<close> is the result for a NULL device (None for a function without a
  result), otherwise the call goes to the vendor's device.\<close>

definition forward ::
  "wrapper_env \<Rightarrow> int option \<Rightarrow> ptr \<Rightarrow> vendor_call \<Rightarrow> camera_wrapper \<Rightarrow> (int option \<times> camera_wrapper) option" where
  "forward env no_device dev c s =
     (case dev of
        None \<Rightarrow> Some (no_device, s)
      | Some a \<Rightarrow>
          do { w \<leftarrow> wrappers s a;
               Some (map_option (\<lambda>_. vendor_answer env (vendor_log s) (dev_vendor w) c) no_device,
                     log_call (dev_vendor w) c s) })"

definition camera_set_preview_window where
  "camera_set_preview_window env dev window = forward env (Some (- EINVAL)) dev (Set_preview_window window)"
definition camera_set_callbacks where
  "camera_set_callbacks env dev notify_cb data_cb data_cb_timestamp get_memory user =
     forward env None dev (Set_callbacks notify_cb data_cb data_cb_timestamp get_memory user)"
definition camera_enable_msg_type where
  "camera_enable_msg_type env dev t = forward env None dev (Enable_msg_type t)"
definition camera_disable_msg_type where
  "camera_disable_msg_type env dev t = forward env None dev (Disable_msg_type t)"
definition camera_msg_type_enabled where
  "camera_msg_type_enabled env dev t = forward env (Some 0) dev (Msg_type_enabled t)"
definition camera_start_preview where
  "camera_start_preview env dev = forward env (Some (- EINVAL)) dev Start_preview"
definition camera_stop_preview where
  "camera_stop_preview env dev = forward env None dev Stop_preview"
definition camera_preview_enabled where
  "camera_preview_enabled env dev = forward env (Some (- EINVAL)) dev Preview_enabled"
definition camera_store_meta_data_in_buffers where
  "camera_store_meta_data_in_buffers env dev enable =
     forward env (Some (- EINVAL)) dev (Store_meta_data_in_buffers enable)"
definition camera_start_recording where
  "camera_start_recording env dev = forward env (Some EINVAL) dev Start_recording"
definition camera_stop_recording where
  "camera_stop_recording env dev = forward env None dev Stop_recording"
definition camera_recording_enabled where
  "camera_recording_enabled env dev = forward env (Some (- EINVAL)) dev Recording_enabled"
definition camera_release_recording_frame where
  "camera_release_recording_frame env dev opaque = forward env None dev (Release_recording_frame opaque)"
definition camera_auto_focus where
  "camera_auto_focus env dev = forward env (Some (- EINVAL)) dev Auto_focus"
definition camera_cancel_auto_focus where
  "camera_cancel_auto_focus env dev = forward env (Some (- EINVAL)) dev Cancel_auto_focus"
definition camera_take_picture where
  "camera_take_picture env dev = forward env (Some (- EINVAL)) dev Take_picture"
definition camera_cancel_picture where
  "camera_cancel_picture env dev = forward env (Some (- EINVAL)) dev Cancel_picture"
definition camera_send_command where
  "camera_send_command env dev cmd arg1 arg2 = forward env (Some (- EINVAL)) dev (Send_command cmd arg1 arg2)"
definition camera_release where
  "camera_release env dev = forward env None dev Release"
definition camera_dump where
  "camera_dump env dev fd = forward env (Some (- EINVAL)) dev (Dump fd)"

definition camera_set_parameters ::
  "wrapper_env \<Rightarrow> ptr \<Rightarrow> string option \<Rightarrow> camera_wrapper \<Rightarrow> (int option \<times> camera_wrapper) option" where
  "camera_set_parameters env dev params s =
     (case dev of
        None \<Rightarrow> Some (Some (- EINVAL), s)
      | Some a \<Rightarrow>
          do { w \<leftarrow> wrappers s a;
               (tmp, s1) \<leftarrow> camera_fixup_setparams env (dev_id w) params s;
               forward env (Some (- EINVAL)) dev (Set_parameters (Option.bind tmp (cstrings s1))) s1 })"

definition camera_get_parameters ::
  "bool \<Rightarrow> wrapper_env \<Rightarrow> ptr \<Rightarrow> camera_wrapper \<Rightarrow> (ptr \<times> camera_wrapper) option" where
  "camera_get_parameters qcom env dev s =
     (case dev of
        None \<Rightarrow> Some (None, s)
      | Some a \<Rightarrow>
          do { w \<leftarrow> wrappers s a;
               params \<leftarrow> vendor_params env (vendor_log s) (dev_vendor w);
               let (tmp, h) = strdup env (camera_fixup_getparams qcom params) (cstrings s);
               Some (tmp, log_call (dev_vendor w) Put_parameters (log_call (dev_vendor w) Get_parameters
                 (s\<lparr>cstrings := h\<rparr>))) })"

definition camera_put_parameters :: "ptr \<Rightarrow> camera_wrapper \<Rightarrow> camera_wrapper option" where
  "camera_put_parameters params s =
     (if params = None then Some s else do { h \<leftarrow> c_free params (cstrings s); Some (s\<lparr>cstrings := h\<rparr>) })"

section \<open>The module\<close>

definition camera_get_number_of_cameras :: "wrapper_env \<Rightarrow> camera_wrapper \<Rightarrow> nat \<times> camera_wrapper" where
  "camera_get_number_of_cameras env s =
     (let (rv, s1) = check_vendor_module env s in (if rv \<noteq> 0 then 0 else num_cameras env, s1))"

definition camera_get_camera_info :: "wrapper_env \<Rightarrow> (int \<Rightarrow> int) \<Rightarrow> int \<Rightarrow> camera_wrapper \<Rightarrow> int \<times> camera_wrapper" where
  "camera_get_camera_info env vendor_info camera_id s =
     (let (rv, s1) = check_vendor_module env s in (if rv \<noteq> 0 then 0 else vendor_info camera_id, s1))"

definition camera_device_close :: "wrapper_env \<Rightarrow> ptr \<Rightarrow> camera_wrapper \<Rightarrow> (int \<times> camera_wrapper) option" where
  "camera_device_close env dev s =
     (case dev of
        None \<Rightarrow> Some (- EINVAL, s)
      | Some a \<Rightarrow>
          (let (n, s1) = camera_get_number_of_cameras env s
           in do { l \<leftarrow> (if n = 0 then Some [] else fixed_set_params s1);
                   h \<leftarrow> (if length l < n then None else free_all (take n l) (cstrings s1));
                   w \<leftarrow> wrappers s1 a;
                   Some (0, log_call (dev_vendor w) Vendor_close
                     (s1\<lparr>cstrings := h, wrappers := (wrappers s1)(a := None)\<rparr>)) }))"

text \<open>The result, what is written to \<open>*device\<close> (None if nothing), and the state. \<open>bits\<close> is the width of
  \<open>long\<close>.\<close>

definition camera_device_open ::
  "wrapper_env \<Rightarrow> nat \<Rightarrow> string option \<Rightarrow> camera_wrapper \<Rightarrow> int \<times> ptr option \<times> camera_wrapper" where
  "camera_device_open env bits name s =
     (case name of
        None \<Rightarrow> (0, None, s)
      | Some nm \<Rightarrow>
          (let (rv, s1) = check_vendor_module env s
           in if rv \<noteq> 0 then (- EINVAL, None, s1)
              else if \<not> params_alloc env then (- ENOMEM, Some None, s1\<lparr>fixed_set_params := None\<rparr>)
              else (let s2 = s1\<lparr>fixed_set_params := Some (replicate (num_cameras env) None)\<rparr>
                    in if int (num_cameras env) < atoi bits nm then (- EINVAL, Some None, s2)
                       else (case device_alloc env (wrappers s2) of
                               None \<Rightarrow> (- ENOMEM, Some None, s2)
                             | Some a \<Rightarrow>
                                 (let (r, v) = open_result env (vendor_log s2) nm;
                                      s3 = log_call v (Vendor_open nm) s2
                                  in if r \<noteq> 0 then (r, Some None, s3)
                                     else if \<not> ops_alloc env then (- ENOMEM, Some None, s3)
                                     else (0, Some (Some a),
                                           s3\<lparr>wrappers := (wrappers s3)
                                             (a := Some \<lparr>dev_id = atoi bits nm, dev_vendor = v\<rparr>)\<rparr>))))))"

section \<open>What the vendor and the client get\<close>

lemma unflatten_flatten_ok: "params_ok p \<Longrightarrow> unflatten (flatten p) = p"
  using fold_kv_add [of "[]" p] by (simp add: unflatten_def unflatten_flatten params_ok_def)

lemma unflatten_fixed_settings:
  "unflatten (fixed_settings txt) =
     (let p = unflatten txt in if get_param KEY_SCENE_MODE p = Some SCENE_MODE_HDR then kv_remove KEY_QC_HDR_NEED_1X p else p)"
  by (simp add: fixed_settings_def Let_def unflatten_flatten_ok unflatten_ok kv_remove_ok)

lemma fixup_setparams_Some:
  assumes "camera_fixup_setparams env camid (Some txt) s = Some (p, s1)"
  shows "\<exists>l h h'. fixed_set_params s = Some l \<and> 0 \<le> camid \<and> camid < int (length l) \<and>
    c_free (l ! nat camid) (cstrings s) = Some h \<and> strdup env (fixed_settings txt) h = (p, h') \<and>
    s1 = s\<lparr>cstrings := h', fixed_set_params := Some (l[nat camid := p])\<rparr>"
proof -
  from assms obtain l h where "fixed_set_params s = Some l" "0 \<le> camid" "camid < int (length l)"
    "c_free (l ! nat camid) (cstrings s) = Some h"
    and r: "(case strdup env (fixed_settings txt) h of (p, h') \<Rightarrow>
      Some (p, s\<lparr>cstrings := h', fixed_set_params := Some (l[nat camid := p])\<rparr>)) = Some (p, s1)"
    by (auto simp: camera_fixup_setparams_def split: if_splits)
  then show ?thesis by (cases "strdup env (fixed_settings txt) h") auto
qed

text \<open>The settings the vendor gets are those of the client, except that \<open>hdr-need-1x\<close> is removed in the scene
  mode hdr. They are the string that is kept for the camera; NULL when there was no memory for it.\<close>

theorem vendor_gets_settings:
  assumes "camera_set_parameters env (Some a) (Some settings) s = Some (r, s')" "wrappers s a = Some w"
  shows "\<exists>l p t. vendor_log s' = vendor_log s @ [(dev_vendor w, Set_parameters t)] \<and>
    fixed_set_params s' = Some l \<and> l ! nat (dev_id w) = p \<and> t = Option.bind p (cstrings s') \<and>
    (p \<noteq> None \<longrightarrow> (\<exists>u. t = Some u \<and> unflatten u = (let m = unflatten settings
       in if get_param ''scene-mode'' m = Some ''hdr'' then kv_remove ''hdr-need-1x'' m else m)))"
proof -
  from assms obtain p s1 where p: "camera_fixup_setparams env (dev_id w) (Some settings) s = Some (p, s1)"
    and s': "forward env (Some (- EINVAL)) (Some a) (Set_parameters (Option.bind p (cstrings s1))) s1 = Some (r, s')"
    by (auto simp: camera_set_parameters_def)
  from fixup_setparams_Some [OF p] obtain l h h' where l: "0 \<le> dev_id w" "dev_id w < int (length l)"
    "strdup env (fixed_settings settings) h = (p, h')"
    "s1 = s\<lparr>cstrings := h', fixed_set_params := Some (l[nat (dev_id w) := p])\<rparr>" by blast
  have q: "h' q = Some (fixed_settings settings)" if "p = Some q" for q
    using l(3) that by (auto simp: strdup_def split: option.splits)
  from l(1,2) have "l[nat (dev_id w) := p] ! nat (dev_id w) = p" by simp
  with s' l(4) q assms(2) show ?thesis
    using unflatten_fixed_settings [of settings]
    by (auto simp: forward_def log_call_def Let_def KEY_SCENE_MODE_def SCENE_MODE_HDR_def KEY_QC_HDR_NEED_1X_def)
qed

lemma get_kv_remove: "get_param k' (kv_remove k m) = (if k' = k then None else get_param k' m)"
proof -
  have "map_of (kv_remove k m) = (map_of m)(k := None)"
    by (induction m) (auto simp: kv_remove_def fun_eq_iff)
  then show ?thesis by (simp add: get_param_def kv_value_for_def)
qed

lemma get_set_param:
  "valid_chars k \<Longrightarrow> get_param k' (set_param qcom (Some k) (Some v) m) =
     (if \<not> valid_chars v then get_param k' m
      else if k' = k then (if v = [] then None else Some v)
      else if k' = ''hdr-need-1x'' \<and> qcom \<and> get_param k' m = None then Some ''false''
      else get_param k' m)"
  by (auto simp: set_param_def get_kv_add)

lemmas wrapper_keys = KEY_QC_LONGSHOT_SUPPORTED_def KEY_QC_MANUAL_FOCUS_POSITION_def KEY_QC_MANUAL_FOCUS_POS_TYPE_def
  KEY_QC_FOCUS_POSITION_SCALE_def KEY_QC_FOCUS_POSITION_DIOPTER_def KEY_QC_HDR_NEED_1X_def KEY_SCENE_MODE_def
  KEY_SUPPORTED_SCENE_MODES_def KEY_AUTO_WHITEBALANCE_LOCK_SUPPORTED_def SCENE_MODE_HDR_def

definition focus_setting :: "string \<Rightarrow> params \<Rightarrow> string option" where
  "focus_setting k p =
     (let pos = focus_or_0 (get_param ''manual-focus-position'' p)
      in if get_param ''manual-focus-pos-type'' p =
            (if k = ''cur-focus-scale'' then Some ''2'' else Some ''3'') \<and> valid_chars pos
         then Some pos else get_param k p)"

lemma focus_or_0_get: "focus_or_0 (get_param k p) \<noteq> []"
  by (auto simp: focus_or_0_def get_param_def split: option.splits)

text \<open>The settings the client gets are those of the vendor but for: the two that are removed, the scene modes, the
  position of the focus, which is copied to the setting that its type names unless it has a separator in it, and
  \<open>hdr-need-1x\<close> if \<open>QCOM_HARDWARE\<close> is defined.\<close>

theorem client_gets_settings:
  assumes "k \<noteq> ''hdr-need-1x'' \<or> \<not> qcom"
  shows "get_param k (unflatten (camera_fixup_getparams qcom settings)) =
    (let p = unflatten settings
     in if k = ''longshot-supported'' \<or> k = ''auto-whitebalance-lock-supported'' then None
        else if k = ''scene-mode-values'' then Some ''auto,hdr''
        else if k = ''cur-focus-scale'' \<or> k = ''cur-focus-diopter'' then focus_setting k p
        else get_param k p)"
  using assms focus_or_0_get [of "''manual-focus-position''" "unflatten settings"]
  by (cases "k = ''hdr-need-1x''"; cases "get_param ''manual-focus-pos-type'' (unflatten settings) = Some ''2''";
      cases "get_param ''manual-focus-pos-type'' (unflatten settings) = Some ''3''")
     (simp_all add: camera_fixup_getparams_def Let_def unflatten_flatten_ok unflatten_ok kv_remove_ok set_param_ok
      get_set_param get_kv_remove wrapper_keys valid_chars_def [of "''scene-mode-values''"]
      valid_chars_def [of "''auto,hdr''"] valid_chars_def [of "''cur-focus-scale''"]
      valid_chars_def [of "''cur-focus-diopter''"] focus_setting_def)

section \<open>Memory\<close>

text \<open>The table \<open>camera_ops\<close>, for the calls that are handed on.\<close>

fun device_call :: "wrapper_env \<Rightarrow> ptr \<Rightarrow> vendor_call \<Rightarrow> camera_wrapper \<Rightarrow> (int option \<times> camera_wrapper) option" where
  "device_call env dev (Set_preview_window w) = camera_set_preview_window env dev w"
| "device_call env dev (Set_callbacks n d t m u) = camera_set_callbacks env dev n d t m u"
| "device_call env dev (Enable_msg_type t) = camera_enable_msg_type env dev t"
| "device_call env dev (Disable_msg_type t) = camera_disable_msg_type env dev t"
| "device_call env dev (Msg_type_enabled t) = camera_msg_type_enabled env dev t"
| "device_call env dev Start_preview = camera_start_preview env dev"
| "device_call env dev Stop_preview = camera_stop_preview env dev"
| "device_call env dev Preview_enabled = camera_preview_enabled env dev"
| "device_call env dev (Store_meta_data_in_buffers e) = camera_store_meta_data_in_buffers env dev e"
| "device_call env dev Start_recording = camera_start_recording env dev"
| "device_call env dev Stop_recording = camera_stop_recording env dev"
| "device_call env dev Recording_enabled = camera_recording_enabled env dev"
| "device_call env dev (Release_recording_frame p) = camera_release_recording_frame env dev p"
| "device_call env dev Auto_focus = camera_auto_focus env dev"
| "device_call env dev Cancel_auto_focus = camera_cancel_auto_focus env dev"
| "device_call env dev Take_picture = camera_take_picture env dev"
| "device_call env dev Cancel_picture = camera_cancel_picture env dev"
| "device_call env dev (Set_parameters p) = camera_set_parameters env dev p"
| "device_call env dev (Send_command c a b) = camera_send_command env dev c a b"
| "device_call env dev Release = camera_release env dev"
| "device_call env dev (Dump fd) = camera_dump env dev fd"
| "device_call env dev _ = (\<lambda>s. None)"

lemmas forwarded = camera_set_preview_window_def camera_set_callbacks_def camera_enable_msg_type_def
  camera_disable_msg_type_def camera_msg_type_enabled_def camera_start_preview_def camera_stop_preview_def
  camera_preview_enabled_def camera_store_meta_data_in_buffers_def camera_start_recording_def
  camera_stop_recording_def camera_recording_enabled_def camera_release_recording_frame_def camera_auto_focus_def
  camera_cancel_auto_focus_def camera_take_picture_def camera_cancel_picture_def camera_send_command_def
  camera_release_def camera_dump_def

datatype client_op = Open "string option" | Close ptr | Call ptr vendor_call | Get ptr | Put ptr

definition client_exec :: "bool \<Rightarrow> wrapper_env \<Rightarrow> nat \<Rightarrow> client_op \<Rightarrow> camera_wrapper \<Rightarrow> camera_wrapper option" where
  "client_exec qcom env bits op s =
     (case op of
        Open name \<Rightarrow> Some (snd (snd (camera_device_open env bits name s)))
      | Close dev \<Rightarrow> map_option snd (camera_device_close env dev s)
      | Call dev c \<Rightarrow> map_option snd (device_call env dev c s)
      | Get dev \<Rightarrow> map_option snd (camera_get_parameters qcom env dev s)
      | Put p \<Rightarrow> camera_put_parameters p s)"

fun client_run :: "bool \<Rightarrow> nat \<Rightarrow> (wrapper_env \<times> client_op) list \<Rightarrow> camera_wrapper \<Rightarrow> camera_wrapper option" where
  "client_run qcom bits [] s = Some s"
| "client_run qcom bits ((env, op) # ops) s =
     Option.bind (client_exec qcom env bits op s) (client_run qcom bits ops)"

text \<open>What the framework keeps to: it opens a device when none is open, of a camera that exists; it calls open
  devices (or NULL) with the operations of the table, and with settings; it gives back strings it got, once.\<close>

definition client_keeps :: "wrapper_env \<Rightarrow> nat \<Rightarrow> client_op \<Rightarrow> camera_wrapper \<Rightarrow> bool" where
  "client_keeps env bits op s =
     (let opened = (\<lambda>dev. case dev of None \<Rightarrow> True | Some a \<Rightarrow> wrappers s a \<noteq> None)
      in case op of
           Open None \<Rightarrow> True
         | Open (Some nm) \<Rightarrow> wrappers s = Map.empty \<and> 0 \<le> atoi bits nm \<and> atoi bits nm < int (num_cameras env)
         | Close dev \<Rightarrow> opened dev
         | Call dev c \<Rightarrow>
             opened dev \<and> c \<noteq> Set_parameters None \<and> c \<noteq> Get_parameters \<and> c \<noteq> Put_parameters \<and> c \<noteq> Vendor_close \<and>
             (\<forall>nm. c \<noteq> Vendor_open nm)
         | Get dev \<Rightarrow> opened dev
         | Put p \<Rightarrow>
             (case p of None \<Rightarrow> True
              | Some a \<Rightarrow> cstrings s a \<noteq> None \<and> (\<forall>l. fixed_set_params s = Some l \<and> wrappers s \<noteq> Map.empty \<longrightarrow> Some a \<notin> set l)))"

text \<open>What the vendor has to keep to: it has settings for an open device, and when a device is closed it has
  no more cameras than when it was opened.\<close>

definition vendor_keeps :: "wrapper_env \<Rightarrow> client_op \<Rightarrow> camera_wrapper \<Rightarrow> bool" where
  "vendor_keeps env op s =
     (case op of
        Get (Some a) \<Rightarrow>
          (case wrappers s a of None \<Rightarrow> True | Some w \<Rightarrow> vendor_params env (vendor_log s) (dev_vendor w) \<noteq> None)
      | Close (Some a) \<Rightarrow>
          (case fixed_set_params s of None \<Rightarrow> True | Some l \<Rightarrow> num_cameras env \<le> length l)
      | _ \<Rightarrow> True)"

text \<open>A condition on every call of a run, in the state in which it is made.\<close>

fun run_keeps ::
  "(wrapper_env \<Rightarrow> client_op \<Rightarrow> camera_wrapper \<Rightarrow> bool) \<Rightarrow> bool \<Rightarrow> nat \<Rightarrow> (wrapper_env \<times> client_op) list \<Rightarrow>
   camera_wrapper \<Rightarrow> bool" where
  "run_keeps P qcom bits [] s = True"
| "run_keeps P qcom bits ((env, op) # ops) s =
     (P env op s \<and>
      (case client_exec qcom env bits op s of None \<Rightarrow> True | Some s' \<Rightarrow> run_keeps P qcom bits ops s'))"

text \<open>\<open>malloc\<close> gives memory that is not in use, or none.\<close>

definition wrapper_env_ok :: "wrapper_env \<Rightarrow> bool" where
  "wrapper_env_ok env \<longleftrightarrow>
     (\<forall>h a. str_alloc env h = Some a \<longrightarrow> h a = None) \<and> (\<forall>h a. device_alloc env h = Some a \<longrightarrow> h a = None)"

text \<open>The strings kept are allocated, and none is kept twice.\<close>

fun strings_ok :: "ptr list \<Rightarrow> (nat \<Rightarrow> string option) \<Rightarrow> bool" where
  "strings_ok [] h = True"
| "strings_ok (p # ps) h = (strings_ok ps h \<and> (case p of None \<Rightarrow> True | Some a \<Rightarrow> h a \<noteq> None \<and> p \<notin> set ps))"

definition wrapper_inv :: "camera_wrapper \<Rightarrow> bool" where
  "wrapper_inv s \<longleftrightarrow>
     wrappers s = Map.empty \<or>
     (\<exists>a w l. wrappers s = [a \<mapsto> w] \<and> gVendorModule s \<and> fixed_set_params s = Some l \<and>
        0 \<le> dev_id w \<and> dev_id w < int (length l) \<and> strings_ok l (cstrings s))"

lemma strings_ok_free: "strings_ok l h \<Longrightarrow> Some a \<notin> set l \<Longrightarrow> strings_ok l (h(a := None))"
  by (induction l) (auto split: option.splits)

lemma strings_ok_alloc: "strings_ok l h \<Longrightarrow> strings_ok l (h(a := Some t))"
  by (induction l) (auto split: option.splits)

lemma strings_ok_dom: "strings_ok l h \<Longrightarrow> Some a \<in> set l \<Longrightarrow> h a \<noteq> None"
  by (induction l) auto

lemma strings_ok_none: "strings_ok (replicate n None) h"
  by (induction n) auto

lemma strings_ok_clear:
  "strings_ok l h \<Longrightarrow> i < length l \<Longrightarrow>
   \<exists>h'. c_free (l ! i) h = Some h' \<and> strings_ok (l[i := None]) h' \<and> (\<forall>a. Some a \<in> set (l[i := None]) \<longrightarrow> h' a = h a)"
proof (induction l arbitrary: i)
  case (Cons p l)
  show ?case
  proof (cases i)
    case 0
    with Cons.prems show ?thesis by (cases p) (auto simp: c_free_def strings_ok_free)
  next
    case (Suc j)
    with Cons.IH [of j] Cons.prems obtain h' where h': "c_free (l ! j) h = Some h'" "strings_ok (l[j := None]) h'"
      "\<forall>a. Some a \<in> set (l[j := None]) \<longrightarrow> h' a = h a" by auto
    have new: "p \<notin> set (l[j := None])" if "p \<notin> set l" "p \<noteq> None"
      using that set_update_subset_insert [of l j None] by auto
    have "l ! j \<in> set l" using Suc Cons.prems(2) by simp
    then have kept: "h' a = h a" if "p = Some a" "p \<notin> set l" for a
      using that h'(1) by (auto simp: c_free_def split: option.splits if_splits)
    show ?thesis using h' new kept Cons.prems Suc by (auto split: option.splits)
  qed
qed simp

lemma in_set_update_other: "y \<in> set (xs[i := u]) \<Longrightarrow> y \<noteq> u \<Longrightarrow> y \<in> set (xs[i := v])"
  by (induction xs arbitrary: i) (auto split: nat.splits)

lemma strings_ok_set:
  "strings_ok (l[i := None]) h \<Longrightarrow> i < length l \<Longrightarrow> h a = None \<Longrightarrow> strings_ok (l[i := Some a]) (h(a := Some t))"
proof (induction l arbitrary: i)
  case (Cons p l)
  show ?case
  proof (cases i)
    case 0
    with Cons.prems strings_ok_dom [of l h a] show ?thesis using strings_ok_alloc [of l h a t] by (auto simp: fun_upd_def)
  next
    case (Suc j)
    then show ?thesis
      using Cons.IH [of j] Cons.prems in_set_update_other [of _ l j "Some a" None]
      by (auto split: option.splits)
  qed
qed simp

lemma strings_ok_take: "strings_ok l h \<Longrightarrow> strings_ok (take n l) h"
  by (induction l arbitrary: n) (auto simp: take_Cons split: nat.splits option.splits dest: in_set_takeD)

lemma free_all_ok: "strings_ok l h \<Longrightarrow> \<exists>h'. free_all l h = Some h'"
proof (induction l arbitrary: h)
  case (Cons p l)
  then show ?case using strings_ok_clear [of "p # l" h 0] by auto
qed simp

text \<open>Each step of such a client is defined and keeps the invariant.\<close>

lemma wrapper_invE:
  assumes "wrapper_inv s" "wrappers s a = Some w"
  obtains l where "wrappers s = [a \<mapsto> w]" "gVendorModule s" "fixed_set_params s = Some l"
    "0 \<le> dev_id w" "dev_id w < int (length l)" "strings_ok l (cstrings s)"
  using assms by (auto simp: wrapper_inv_def split: if_splits)

lemma wrapper_inv_log: "wrapper_inv (log_call v c s) = wrapper_inv s"
  by (simp add: wrapper_inv_def log_call_def)

lemma forward_ok:
  "wrapper_inv s \<Longrightarrow> (\<And>a. dev = Some a \<Longrightarrow> wrappers s a \<noteq> None) \<Longrightarrow>
   \<exists>r s'. forward env nores dev c s = Some (r, s') \<and> wrapper_inv s'"
  by (cases dev) (auto simp: forward_def wrapper_inv_log)

lemma set_parameters_ok:
  assumes env: "wrapper_env_ok env" and inv: "wrapper_inv s"
    and dev: "\<And>a. dev = Some a \<Longrightarrow> wrappers s a \<noteq> None"
  shows "\<exists>r s'. camera_set_parameters env dev (Some txt) s = Some (r, s') \<and> wrapper_inv s'"
proof (cases dev)
  case None
  with inv show ?thesis by (simp add: camera_set_parameters_def)
next
  case (Some a)
  with dev obtain w where w: "wrappers s a = Some w" by blast
  obtain l where l: "wrappers s = [a \<mapsto> w]" "gVendorModule s" "fixed_set_params s = Some l"
    "0 \<le> dev_id w" "dev_id w < int (length l)" "strings_ok l (cstrings s)" using wrapper_invE [OF inv w] .
  let ?i = "nat (dev_id w)"
  from l(4,5) have i: "?i < length l" by simp
  from strings_ok_clear [OF l(6) i] obtain h where h: "c_free (l ! ?i) (cstrings s) = Some h"
    "strings_ok (l[?i := None]) h" by blast
  obtain p h' where p: "strdup env (fixed_settings txt) h = (p, h')" by force
  let ?s1 = "s\<lparr>cstrings := h', fixed_set_params := Some (l[?i := p])\<rparr>"
  have fixup: "camera_fixup_setparams env (dev_id w) (Some txt) s = Some (p, ?s1)"
    using l h(1) p by (simp add: camera_fixup_setparams_def)
  have "strings_ok (l[?i := p]) h'"
  proof (cases "str_alloc env h")
    case None
    with p h(2) show ?thesis by (auto simp: strdup_def)
  next
    case (Some q)
    with env have "h q = None" by (auto simp: wrapper_env_ok_def)
    with p Some strings_ok_set [OF h(2) i, of q] show ?thesis by (auto simp: strdup_def)
  qed
  with l have "wrapper_inv ?s1" by (auto simp: wrapper_inv_def)
  from forward_ok [OF this, of "Some a"] w show ?thesis
    by (simp add: camera_set_parameters_def Some fixup)
qed

lemma get_parameters_ok:
  assumes env: "wrapper_env_ok env" and inv: "wrapper_inv s"
    and dev: "\<And>a. dev = Some a \<Longrightarrow> wrappers s a \<noteq> None" and keeps: "vendor_keeps env (Get dev) s"
  shows "\<exists>r s'. camera_get_parameters qcom env dev s = Some (r, s') \<and> wrapper_inv s'"
proof (cases dev)
  case None
  with inv show ?thesis by (simp add: camera_get_parameters_def)
next
  case (Some a)
  with dev obtain w where w: "wrappers s a = Some w" by blast
  from keeps w have "vendor_params env (vendor_log s) (dev_vendor w) \<noteq> None" by (simp add: vendor_keeps_def Some)
  then obtain ps where ps: "vendor_params env (vendor_log s) (dev_vendor w) = Some ps" by blast
  obtain p h where p: "strdup env (camera_fixup_getparams qcom ps) (cstrings s) = (p, h)" by force
  have "wrapper_inv (s\<lparr>cstrings := h\<rparr>)"
    using inv p by (auto simp: wrapper_inv_def strdup_def intro: strings_ok_alloc split: option.splits)
  with w ps p show ?thesis by (simp add: camera_get_parameters_def Some wrapper_inv_log)
qed

lemma free_all_take: "strings_ok l h \<Longrightarrow> \<exists>h'. free_all (take n l) h = Some h'"
  by (rule free_all_ok) (rule strings_ok_take)

lemma close_ok:
  assumes inv: "wrapper_inv s" and dev: "\<And>a. dev = Some a \<Longrightarrow> wrappers s a \<noteq> None"
    and keeps: "vendor_keeps env (Close dev) s"
  shows "\<exists>r s'. camera_device_close env dev s = Some (r, s') \<and> wrapper_inv s'"
proof (cases dev)
  case None
  with inv show ?thesis by (simp add: camera_device_close_def)
next
  case (Some a)
  with dev obtain w where w: "wrappers s a = Some w" by blast
  obtain l where l: "wrappers s = [a \<mapsto> w]" "gVendorModule s" "fixed_set_params s = Some l"
    "strings_ok l (cstrings s)" using wrapper_invE [OF inv w] .
  from keeps l(3) have n: "num_cameras env \<le> length l" by (simp add: vendor_keeps_def Some)
  from free_all_take [OF l(4)] obtain h where "free_all (take (num_cameras env) l) (cstrings s) = Some h" by blast
  with l w n show ?thesis
    by (auto simp: camera_device_close_def Some camera_get_number_of_cameras_def check_vendor_module_def
        wrapper_inv_log) (auto simp: wrapper_inv_def)
qed

text \<open>A vendor that does not keep to its rules.\<close>

lemma vendor_breaks:
  assumes inv: "wrapper_inv s" and client: "client_keeps env bits op s" and breaks: "\<not> vendor_keeps env op s"
  shows "client_exec qcom env bits op s = None"
proof -
  consider (get) a w where "op = Get (Some a)" "wrappers s a = Some w" "vendor_params env (vendor_log s) (dev_vendor w) = None"
    | (close) a l where "op = Close (Some a)" "fixed_set_params s = Some l" "length l < num_cameras env"
    using breaks by (auto simp: vendor_keeps_def split: client_op.splits option.splits)
  then show ?thesis
  proof cases
    case get
    then show ?thesis by (simp add: client_exec_def camera_get_parameters_def)
  next
    case close
    with client obtain w where "wrappers s a = Some w" by (auto simp: client_keeps_def)
    from wrapper_invE [OF inv this] have "gVendorModule s" by blast
    with close show ?thesis
      by (simp add: client_exec_def camera_device_close_def camera_get_number_of_cameras_def check_vendor_module_def)
  qed
qed

lemma open_ok:
  assumes "wrapper_inv s" "client_keeps env bits (Open name) s"
  shows "wrapper_inv (snd (snd (camera_device_open env bits name s)))"
proof (cases name)
  case None
  with assms show ?thesis by (simp add: camera_device_open_def)
next
  case (Some nm)
  with assms(2) have "wrappers s = Map.empty" "0 \<le> atoi bits nm" "atoi bits nm < int (num_cameras env)"
    by (auto simp: client_keeps_def)
  moreover have single: "\<exists>b u. [a \<mapsto> w] = [b \<mapsto> u] \<and> 0 \<le> dev_id u \<and> dev_id u < int (num_cameras env)"
    if "0 \<le> dev_id w" "dev_id w < int (num_cameras env)" for a w using that by blast
  ultimately show ?thesis
    by (auto simp: camera_device_open_def Some check_vendor_module_def wrapper_inv_def log_call_def Let_def
        strings_ok_none intro!: single split: option.splits prod.splits)
qed

lemma client_exec_ok:
  assumes env: "wrapper_env_ok env" and inv: "wrapper_inv s" and keeps: "client_keeps env bits op s"
    and vendor: "vendor_keeps env op s"
  shows "\<exists>s'. client_exec qcom env bits op s = Some s' \<and> wrapper_inv s'"
proof (cases op)
  case (Open name)
  with open_ok [OF inv] keeps show ?thesis by (simp add: client_exec_def)
next
  case (Close dev)
  with close_ok [OF inv, of dev env] keeps vendor show ?thesis
    by (auto simp: client_exec_def client_keeps_def split: option.splits)
next
  case (Call dev c)
  from keeps have dev: "wrappers s a \<noteq> None" if "dev = Some a" for a using that by (simp add: Call client_keeps_def)
  note fw = forward_ok [OF inv dev] set_parameters_ok [OF env inv dev]
  have "\<exists>r s'. device_call env dev c s = Some (r, s') \<and> wrapper_inv s'"
    using keeps fw by (cases c) (auto simp: Call client_keeps_def forwarded)
  then show ?thesis by (auto simp: Call client_exec_def)
next
  case (Get dev)
  with get_parameters_ok [OF env inv, of dev qcom] keeps vendor show ?thesis
    by (auto simp: client_exec_def client_keeps_def split: option.splits)
next
  case (Put p)
  show ?thesis
  proof (cases p)
    case None
    with inv show ?thesis by (simp add: Put client_exec_def camera_put_parameters_def)
  next
    case (Some a)
    with keeps Put have "cstrings s a \<noteq> None" "\<forall>l. fixed_set_params s = Some l \<and> wrappers s \<noteq> Map.empty \<longrightarrow> Some a \<notin> set l"
      by (auto simp: client_keeps_def)
    with inv show ?thesis
      by (auto simp: Put Some client_exec_def camera_put_parameters_def c_free_def wrapper_inv_def strings_ok_free
          simp del: fun_upd_apply)
  qed
qed

text \<open>C27: A client that keeps to the rules never runs into undefined behaviour (a string freed twice or used after it
  is freed, an index out of range, a NULL pointer followed), whatever the vendor's module answers to each call and
  whenever memory runs out, except when the vendor breaks one of two rules, and then always: it returns NULL as the
  settings of an open device, or it has more cameras when a device is closed than when it was opened.\<close>

theorem wrapper_memory_safe:
  assumes "\<forall>x \<in> set ops. wrapper_env_ok (fst x)"
    and "run_keeps (\<lambda>env. client_keeps env bits) qcom bits ops camera_wrapper_init"
  shows "client_run qcom bits ops camera_wrapper_init \<noteq> None \<longleftrightarrow> run_keeps vendor_keeps qcom bits ops camera_wrapper_init"
proof -
  have "wrapper_inv s \<Longrightarrow> \<forall>x \<in> set ops. wrapper_env_ok (fst x) \<Longrightarrow> run_keeps (\<lambda>env. client_keeps env bits) qcom bits ops s \<Longrightarrow>
    client_run qcom bits ops s \<noteq> None \<longleftrightarrow> run_keeps vendor_keeps qcom bits ops s" for s
  proof (induction ops arbitrary: s)
    case (Cons x ops)
    obtain env op where x: "x = (env, op)" by (cases x)
    show ?case
    proof (cases "vendor_keeps env op s")
      case True
      with client_exec_ok [of env s bits op qcom] Cons.prems obtain s' where
        "client_exec qcom env bits op s = Some s'" "wrapper_inv s'" by (auto simp: x)
      with Cons True show ?thesis by (simp add: x)
    next
      case False
      with vendor_breaks Cons.prems show ?thesis by (simp add: x)
    qed
  qed simp
  with assms show ?thesis by (simp add: wrapper_inv_def camera_wrapper_init_def)
qed

definition wrapper_env1 :: wrapper_env where
  "wrapper_env1 =
     \<lparr>get_module = 0, num_cameras = 2, open_result = (\<lambda>_ _. (0, 7)), vendor_answer = (\<lambda>_ _ _. 0),
      vendor_params = (\<lambda>_ _. Some ''scene-mode=hdr''),
      str_alloc = (\<lambda>h. if h 0 = None then Some 0 else if h 1 = None then Some 1 else None),
      device_alloc = (\<lambda>h. if h 0 = None then Some 0 else if h 1 = None then Some 1 else None),
      params_alloc = True, ops_alloc = True\<rparr>"

lemma wrapper_env1_ok: "wrapper_env_ok wrapper_env1"
  by (auto simp: wrapper_env_ok_def wrapper_env1_def split: if_splits)

lemmas wrapper_run = camera_wrapper_init_def client_exec_def client_keeps_def camera_device_open_def
  check_vendor_module_def log_call_def forward_def forwarded camera_set_parameters_def camera_fixup_setparams_def
  strdup_def c_free_def camera_get_parameters_def camera_put_parameters_def camera_device_close_def
  camera_get_number_of_cameras_def wrapper_env1_def Let_def

lemma atoi_0: "atoi 32 ''0'' = 0" by code_simp
lemma atoi_1: "atoi 32 ''1'' = 1" by code_simp
lemma atoi_2: "atoi 32 ''2'' = 2" by code_simp

definition growing_env :: wrapper_env where
  "growing_env = wrapper_env1\<lparr>num_cameras := 3\<rparr>"

lemma wrapper_memory_safe_witness:
  "client_run True 32
     (map (Pair wrapper_env1) [Open (Some ''1''), Call (Some 0) (Set_parameters (Some ''a=b'')), Get (Some 0), Put (Some 1),
        Close (Some 0), Open (Some ''0''), Call (Some 0) Start_preview])
     camera_wrapper_init \<noteq> None \<and>
   client_run True 32 [(wrapper_env1, Open (Some ''1'')), (growing_env, Close (Some 0))] camera_wrapper_init = None"
proof -
  have ok: "wrapper_env_ok wrapper_env1" "wrapper_env_ok growing_env"
    using wrapper_env1_ok by (simp_all add: wrapper_env_ok_def growing_env_def)
  have good: "client_run True 32
     (map (Pair wrapper_env1) [Open (Some ''1''), Call (Some 0) (Set_parameters (Some ''a=b'')), Get (Some 0), Put (Some 1),
        Close (Some 0), Open (Some ''0''), Call (Some 0) Start_preview])
     camera_wrapper_init \<noteq> None"
    by (subst wrapper_memory_safe)
      (use ok(1) in \<open>simp_all add: vendor_keeps_def wrapper_run atoi_0 atoi_1 numeral_2_eq_2\<close>)
  have bad: "\<not> client_run True 32 [(wrapper_env1, Open (Some ''1'')), (growing_env, Close (Some 0))]
     camera_wrapper_init \<noteq> None"
    by (subst wrapper_memory_safe)
      (use ok in \<open>simp_all add: growing_env_def vendor_keeps_def wrapper_run atoi_0 atoi_1 numeral_2_eq_2\<close>)
  show ?thesis by (rule conjI [OF good bad [unfolded not_not]])
qed

definition wrapper_state1 :: camera_wrapper where
  "wrapper_state1 =
     \<lparr>gVendorModule = True, fixed_set_params = Some [None, None], cstrings = Map.empty,
      wrappers = [0 \<mapsto> \<lparr>dev_id = 1, dev_vendor = 7\<rparr>], vendor_log = []\<rparr>"

lemma vendor_gets_settings_witness:
  "\<exists>l p t. [(7, Set_parameters (Some (fixed_settings ''scene-mode=hdr'')))] = [(7 :: nat, Set_parameters t)] \<and>
    Some [None, Some 0] = Some l \<and> l ! nat 1 = p \<and> t = Option.bind p [0 \<mapsto> fixed_settings ''scene-mode=hdr''] \<and>
    (p \<noteq> None \<longrightarrow> (\<exists>u. t = Some u \<and> unflatten u = (let m = unflatten ''scene-mode=hdr''
       in if get_param ''scene-mode'' m = Some ''hdr'' then kv_remove ''hdr-need-1x'' m else m)))"
proof -
  let ?t = "fixed_settings ''scene-mode=hdr''"
  have "camera_set_parameters wrapper_env1 (Some 0) (Some ''scene-mode=hdr'') wrapper_state1 =
    Some (Some 0, wrapper_state1\<lparr>fixed_set_params := Some [None, Some 0], cstrings := [0 \<mapsto> ?t],
      vendor_log := [(7, Set_parameters (Some ?t))]\<rparr>)"
    by (simp add: wrapper_run wrapper_state1_def)
  from vendor_gets_settings [OF this, of "\<lparr>dev_id = 1, dev_vendor = 7\<rparr>"] show ?thesis
    by (simp add: wrapper_state1_def)
qed

lemma client_gets_settings_witness:
  "get_param ''cur-focus-scale'' (unflatten (camera_fixup_getparams True ''manual-focus-pos-type=2;manual-focus-position=5'')) =
     focus_setting ''cur-focus-scale'' (unflatten ''manual-focus-pos-type=2;manual-focus-position=5'')"
  using client_gets_settings [of "''cur-focus-scale''" True "''manual-focus-pos-type=2;manual-focus-position=5''"]
  by simp

text \<open>Clients that do not: a second device is opened before the first is closed, and both get settings; then closing
  both frees the strings of the second camera twice, because the pointers are not reset.\<close>

lemma two_devices_double_free:
  "client_run True 32 (map (Pair wrapper_env1)
     [Open (Some ''0''), Open (Some ''1''), Call (Some 1) (Set_parameters (Some ''a=b'')), Close (Some 0)])
     camera_wrapper_init \<noteq> None"
  "client_run True 32 (map (Pair wrapper_env1)
     [Open (Some ''0''), Open (Some ''1''), Call (Some 1) (Set_parameters (Some ''a=b'')), Close (Some 0), Close (Some 1)])
     camera_wrapper_init = None"
  by (simp_all add: wrapper_run atoi_0 atoi_1 numeral_2_eq_2)

text \<open>The test of the number of the camera lets the number of cameras itself through.\<close>

lemma camera_beyond_end:
  "client_run True 32 (map (Pair wrapper_env1)
     [Open (Some ''2''), Call (Some 0) (Set_parameters (Some ''a=b''))]) camera_wrapper_init = None"
  by (simp add: wrapper_run atoi_2 numeral_2_eq_2)

text \<open>When the table of operations cannot be allocated, the vendor's device stays open.\<close>

lemma open_leaves_vendor_open:
  assumes "ops_alloc env = False" "params_alloc env" "get_module env = 0" "atoi bits nm \<le> int (num_cameras env)"
    "device_alloc env (wrappers s) = Some a" "open_result env (vendor_log s) nm = (0, v)"
  shows "fst (camera_device_open env bits (Some nm) s) = - ENOMEM \<and>
    vendor_log (snd (snd (camera_device_open env bits (Some nm) s))) = vendor_log s @ [(v, Vendor_open nm)]"
  using assms by (auto simp: camera_device_open_def check_vendor_module_def log_call_def Let_def)

lemma start_recording_positive_error: "camera_start_recording env None s = Some (Some 22, s)"
  by (simp add: camera_start_recording_def forward_def EINVAL_def)

end
