(* ===== verification/Vendor_Tags.thy ===== *)
theory Vendor_Tags
  imports Android "HOL-Library.List_Lexorder" "HOL-Library.Char_ord"
begin

text \<open>
  \<open>VendorTagDescriptor.cpp\<close>: what a camera vendor's own metadata tags are called and how they are typed. A
  descriptor is made from the functions of the vendor, or from a parcel another process wrote.

  \<^item> The parcel is a parameter (\<open>Android\<close>), and so are the constants \<open>CAMERA_METADATA_VENDOR_TAG_BOUNDARY\<close> (\<open>B\<close>) and
    \<open>NUM_TYPES\<close> (\<open>N\<close>) of the metadata library. A reinterpreted integer is a \<open>32 word\<close>.
  \<^item> None is undefined behaviour (an index out of range, a missing key) or \<open>LOG_ALWAYS_FATAL\<close>.
  \<^item> Shown: a descriptor answers as the vendor's functions; names are looked up to the right tag; a descriptor is
    read from a parcel as it was written; which descriptors are not.
\<close>

section \<open>Descriptors\<close>

type_synonym tag = "32 word"

record vendor_ops =
  get_tag_count :: int
  get_all_tags :: "tag list"
  get_section_name :: "tag \<Rightarrow> string option"
  get_tag_name :: "tag \<Rightarrow> string option"
  get_tag_type :: "tag \<Rightarrow> int"

record vendor_tags =
  mReverseMapping :: "(string \<times> (string \<times> tag) list) list"
  mTagToNameMap :: "(tag \<times> string) list"
  mTagToSectionMap :: "(tag \<times> 32 word) list"
  mTagToTypeMap :: "(tag \<times> int) list"
  mSections :: "string list"
  mTagCount :: int

definition new_descriptor :: "int \<Rightarrow> vendor_tags" where
  "new_descriptor n =
     \<lparr>mReverseMapping = [], mTagToNameMap = [], mTagToSectionMap = [], mTagToTypeMap = [], mSections = [],
      mTagCount = n\<rparr>"

text \<open>Find the map of a section or add an empty one, and add the name to it.\<close>

definition add_reverse ::
  "string \<Rightarrow> string \<Rightarrow> tag \<Rightarrow> (string \<times> (string \<times> tag) list) list \<Rightarrow> (string \<times> (string \<times> tag) list) list" where
  "add_reverse sec name t r =
     (let nameMapper = (case map_of r sec of None \<Rightarrow> [] | Some m \<Rightarrow> m) in kv_add sec (kv_add name t nameMapper) r)"

section \<open>From the vendor's functions\<close>

fun ops_collect ::
  "vendor_ops \<Rightarrow> tag \<Rightarrow> int \<Rightarrow> tag list \<Rightarrow> vendor_tags \<times> (tag \<times> string) list \<Rightarrow>
     int + vendor_tags \<times> (tag \<times> string) list" where
  "ops_collect v B N [] st = Inr st"
| "ops_collect v B N (t # ts) (d, tagToSectionMap) =
     (if t < B then Inl BAD_VALUE_st
      else (case get_tag_name v t of
              None \<Rightarrow> Inl BAD_VALUE_st
            | Some name \<Rightarrow>
                (case get_section_name v t of
                   None \<Rightarrow> Inl BAD_VALUE_st
                 | Some sec \<Rightarrow>
                     if get_tag_type v t < 0 \<or> N \<le> get_tag_type v t then Inl BAD_VALUE_st
                     else ops_collect v B N ts
                       (d\<lparr>mTagToNameMap := kv_add t name (mTagToNameMap d), mSections := sv_add sec (mSections d),
                          mTagToTypeMap := kv_add t (get_tag_type v t) (mTagToTypeMap d)\<rparr>,
                        kv_add t sec tagToSectionMap))))"

fun ops_index :: "(tag \<times> string) list \<Rightarrow> tag list \<Rightarrow> vendor_tags \<Rightarrow> vendor_tags option" where
  "ops_index tagToSectionMap [] d = Some d"
| "ops_index tagToSectionMap (t # ts) d =
     (case map_of tagToSectionMap t of
        None \<Rightarrow> None
      | Some sec \<Rightarrow>
          (case (sv_index sec (mSections d), map_of (mTagToNameMap d) t) of
             (Some i, Some name) \<Rightarrow>
               ops_index tagToSectionMap ts
                 (d\<lparr>mTagToSectionMap := kv_add t (of_nat i) (mTagToSectionMap d),
                    mReverseMapping := add_reverse sec name t (mReverseMapping d)\<rparr>)
           | _ \<Rightarrow> None))"

text \<open>\<open>get_all_tags\<close> fills an array of \<open>tagCount\<close> elements.\<close>

definition createDescriptorFromOps :: "tag \<Rightarrow> int \<Rightarrow> vendor_ops option \<Rightarrow> (int + vendor_tags) option" where
  "createDescriptorFromOps B N vOps =
     (case vOps of
        None \<Rightarrow> Some (Inl BAD_VALUE_st)
      | Some v \<Rightarrow>
          if get_tag_count v < 0 then Some (Inl BAD_VALUE_st)
          else if int (length (get_all_tags v)) \<noteq> get_tag_count v then None
          else (case ops_collect v B N (get_all_tags v) (new_descriptor (get_tag_count v), []) of
                  Inl e \<Rightarrow> Some (Inl e)
                | Inr (d, tagToSectionMap) \<Rightarrow> map_option Inr (ops_index tagToSectionMap (get_all_tags v) d)))"

section \<open>Parcels\<close>

fun tags_loop ::
  "'p parcel \<Rightarrow> tag \<Rightarrow> int \<Rightarrow> nat \<Rightarrow> vendor_tags \<times> 32 word \<times> tag list \<Rightarrow>
     ('p, vendor_tags \<times> 32 word \<times> tag list) reader" where
  "tags_loop P B N 0 st = rd_return st"
| "tags_loop P B N (Suc n) (d, maxSectionIndex, allTags) =
     rd_then (rd_int32 P) (\<lambda>t.
       if t < B then rd_fail BAD_VALUE_st
       else rd_then (rd_int32 P) (\<lambda>ty.
         if sint ty < 0 \<or> N \<le> sint ty then rd_fail BAD_VALUE_st
         else rd_then (rd_string8 P) (\<lambda>name.
           if name = [] then rd_fail NOT_ENOUGH_DATA_st
           else rd_then (rd_int32 P) (\<lambda>sectionIndex.
             tags_loop P B N n
               (d\<lparr>mTagToNameMap := kv_add t name (mTagToNameMap d),
                  mTagToSectionMap := kv_add t sectionIndex (mTagToSectionMap d),
                  mTagToTypeMap := kv_add t (sint ty) (mTagToTypeMap d)\<rparr>,
                if maxSectionIndex \<ge> sectionIndex then maxSectionIndex else sectionIndex, allTags @ [t])))))"

fun sections_loop :: "'p parcel \<Rightarrow> nat \<Rightarrow> string list \<Rightarrow> ('p, string list) reader" where
  "sections_loop P 0 secs = rd_return secs"
| "sections_loop P (Suc n) secs =
     rd_then (rd_string8 P) (\<lambda>name. if name = [] then rd_fail NOT_ENOUGH_DATA_st else sections_loop P n (sv_add name secs))"

fun reverse_loop :: "tag list \<Rightarrow> vendor_tags \<Rightarrow> vendor_tags option" where
  "reverse_loop [] d = Some d"
| "reverse_loop (t # ts) d =
     (case (map_of (mTagToSectionMap d) t, map_of (mTagToNameMap d) t) of
        (Some i, Some name) \<Rightarrow>
          if length (mSections d) \<le> unat i then None
          else reverse_loop ts (d\<lparr>mReverseMapping := add_reverse (mSections d ! unat i) name t (mReverseMapping d)\<rparr>)
      | _ \<Rightarrow> None)"

text \<open>\<open>capacity\<close> is what \<open>setCapacity\<close> returns. The comparison with \<open>maxSectionIndex + 1\<close> is of 32 bits.\<close>

definition read_sections ::
  "'p parcel \<Rightarrow> (nat \<Rightarrow> int) \<Rightarrow> int \<Rightarrow> 32 word \<Rightarrow> ('p, string list) reader" where
  "read_sections P capacity tagCount maxSectionIndex =
     (if 0 < tagCount
      then rd_then (rd_int32 P) (\<lambda>sectionCount.
             if sectionCount < maxSectionIndex + 1 then rd_fail BAD_VALUE_st
             else if capacity (unat sectionCount) \<le> 0 then rd_undefined
             else sections_loop P (unat sectionCount) [])
      else rd_return [])"

definition finish_descriptor :: "tag list \<Rightarrow> vendor_tags \<Rightarrow> ('p, vendor_tags) reader" where
  "finish_descriptor allTags d = (case reverse_loop allTags d of None \<Rightarrow> rd_undefined | Some d' \<Rightarrow> rd_return d')"

definition createFromParcel :: "tag \<Rightarrow> int \<Rightarrow> (nat \<Rightarrow> int) \<Rightarrow> 'p parcel \<Rightarrow> ('p, vendor_tags) reader" where
  "createFromParcel B N capacity P =
     rd_then (rd_int32 P) (\<lambda>tagCount.
       if sint tagCount < 0 then rd_fail BAD_VALUE_st
       else rd_then (tags_loop P B N (nat (sint tagCount)) (new_descriptor (sint tagCount), 0, []))
         (\<lambda>(d, maxSectionIndex, allTags).
            rd_then (read_sections P capacity (sint tagCount) maxSectionIndex)
              (\<lambda>secs. finish_descriptor allTags (d\<lparr>mSections := secs\<rparr>))))"

text \<open>A failure to write a tag ends only the loop over the tags: the sections are written all the same.\<close>

fun write_tags :: "'p parcel \<Rightarrow> vendor_tags \<Rightarrow> (tag \<times> string) list \<Rightarrow> 'p writer" where
  "write_tags P d [] = wr_done"
| "write_tags P d ((t, tagName) # ts) =
     (case (map_of (mTagToSectionMap d) t, map_of (mTagToTypeMap d) t) of
        (Some sectionIndex, Some tagType) \<Rightarrow>
          wr_then (wr_int32 P t) (wr_then (wr_int32 P (of_int tagType)) (wr_then (wr_string8 P tagName)
            (wr_then (wr_int32 P sectionIndex) (write_tags P d ts))))
      | _ \<Rightarrow> wr_undefined)"

fun write_sections :: "'p parcel \<Rightarrow> string list \<Rightarrow> 'p writer" where
  "write_sections P [] = wr_done"
| "write_sections P (s # ss) = wr_then (wr_string8 P s) (write_sections P ss)"

definition after_break :: "bool \<Rightarrow> 'p writer \<Rightarrow> 'p writer \<Rightarrow> 'p writer" where
  "after_break continued w w' p =
     (case w p of None \<Rightarrow> None | Some (res, p') \<Rightarrow> if continued then w' p' else Some (res, p'))"

definition writeToParcel :: "'p parcel \<Rightarrow> vendor_tags \<Rightarrow> 'p writer" where
  "writeToParcel P d =
     wr_then (wr_int32 P (of_int (mTagCount d)))
       (after_break (0 < length (mSections d)) (write_tags P d (mTagToNameMap d))
         (wr_then (wr_int32 P (of_nat (length (mSections d)))) (write_sections P (mSections d))))"

section \<open>Answers\<close>

text \<open>None stands for \<open>VENDOR_TAG_COUNT_ERR\<close>, and so on.\<close>

definition getTagCount :: "vendor_tags \<Rightarrow> nat option" where
  "getTagCount d = (if mTagToNameMap d = [] then None else Some (length (mTagToNameMap d)))"

definition getTagArray :: "vendor_tags \<Rightarrow> tag list" where
  "getTagArray d = map fst (mTagToNameMap d)"

definition getSectionName :: "vendor_tags \<Rightarrow> tag \<Rightarrow> string option option" where
  "getSectionName d t =
     (case map_of (mTagToSectionMap d) t of
        None \<Rightarrow> Some None
      | Some i \<Rightarrow> if length (mSections d) \<le> unat i then None else Some (Some (mSections d ! unat i)))"

definition getTagName :: "vendor_tags \<Rightarrow> tag \<Rightarrow> string option" where
  "getTagName d t = map_of (mTagToNameMap d) t"

definition getTagType :: "vendor_tags \<Rightarrow> tag \<Rightarrow> int option option" where
  "getTagType d t =
     (if map_of (mTagToNameMap d) t = None then Some None else map_option Some (map_of (mTagToTypeMap d) t))"

definition getAllSectionNames :: "vendor_tags \<Rightarrow> string list" where
  "getAllSectionNames d = mSections d"

definition lookupTag :: "vendor_tags \<Rightarrow> string \<Rightarrow> string \<Rightarrow> int + tag" where
  "lookupTag d name sec =
     (case map_of (mReverseMapping d) sec of
        None \<Rightarrow> Inl BAD_VALUE_st
      | Some m \<Rightarrow> (case map_of m name of None \<Rightarrow> Inl BAD_VALUE_st | Some t \<Rightarrow> Inr t))"

section \<open>The descriptor of the process\<close>

text \<open>\<open>ops_set\<close> is whether the metadata library was given the functions below; \<open>res\<close> is what it answered.\<close>

record vendor_global =
  sGlobalVendorTagDescriptor :: "vendor_tags option"
  ops_set :: bool

definition setAsGlobalVendorTagDescriptor ::
  "int \<Rightarrow> vendor_tags option \<Rightarrow> vendor_global \<Rightarrow> int \<times> vendor_global" where
  "setAsGlobalVendorTagDescriptor res desc g =
     (res, g\<lparr>sGlobalVendorTagDescriptor := desc, ops_set := (if res = 0 then desc \<noteq> None else ops_set g)\<rparr>)"

definition clearGlobalVendorTagDescriptor :: "vendor_global \<Rightarrow> vendor_global" where
  "clearGlobalVendorTagDescriptor g = g\<lparr>sGlobalVendorTagDescriptor := None, ops_set := False\<rparr>"

definition getGlobalVendorTagDescriptor :: "vendor_global \<Rightarrow> vendor_tags option" where
  "getGlobalVendorTagDescriptor g = sGlobalVendorTagDescriptor g"

definition vendor_tag_descriptor_get_tag_count :: "vendor_global \<Rightarrow> nat option" where
  "vendor_tag_descriptor_get_tag_count g =
     (case sGlobalVendorTagDescriptor g of None \<Rightarrow> None | Some d \<Rightarrow> getTagCount d)"

definition vendor_tag_descriptor_get_all_tags :: "vendor_global \<Rightarrow> tag list" where
  "vendor_tag_descriptor_get_all_tags g =
     (case sGlobalVendorTagDescriptor g of None \<Rightarrow> [] | Some d \<Rightarrow> getTagArray d)"

definition vendor_tag_descriptor_get_section_name :: "vendor_global \<Rightarrow> tag \<Rightarrow> string option option" where
  "vendor_tag_descriptor_get_section_name g t =
     (case sGlobalVendorTagDescriptor g of None \<Rightarrow> Some None | Some d \<Rightarrow> getSectionName d t)"

definition vendor_tag_descriptor_get_tag_name :: "vendor_global \<Rightarrow> tag \<Rightarrow> string option" where
  "vendor_tag_descriptor_get_tag_name g t =
     (case sGlobalVendorTagDescriptor g of None \<Rightarrow> None | Some d \<Rightarrow> getTagName d t)"

definition vendor_tag_descriptor_get_tag_type :: "vendor_global \<Rightarrow> tag \<Rightarrow> int option option" where
  "vendor_tag_descriptor_get_tag_type g t =
     (case sGlobalVendorTagDescriptor g of None \<Rightarrow> Some None | Some d \<Rightarrow> getTagType d t)"

section \<open>What a descriptor says\<close>

definition rev_lookup :: "(string \<times> (string \<times> tag) list) list \<Rightarrow> string \<Rightarrow> string \<Rightarrow> tag option" where
  "rev_lookup r sec name = (case map_of r sec of None \<Rightarrow> None | Some m \<Rightarrow> map_of m name)"

definition rev_ok :: "(string \<times> (string \<times> tag) list) list \<Rightarrow> bool" where
  "rev_ok r \<longleftrightarrow>
     sorted_wrt (<) (map fst r) \<and> (\<forall>sec m. map_of r sec = Some m \<longrightarrow> sorted_wrt (<) (map fst m) \<and> m \<noteq> [])"

lemma lookupTag_rev:
  "lookupTag d name sec = (case rev_lookup (mReverseMapping d) sec name of None \<Rightarrow> Inl BAD_VALUE_st | Some t \<Rightarrow> Inr t)"
  by (simp add: lookupTag_def rev_lookup_def split: option.splits)

lemma rev_lookup_add [simp]:
  "rev_lookup (add_reverse sec name t r) sec' name' =
     (if sec' = sec \<and> name' = name then Some t else rev_lookup r sec' name')"
  by (auto simp: rev_lookup_def add_reverse_def Let_def map_of_kv_add split: option.splits)

lemma kv_add_not_Nil [simp]: "kv_add k v m \<noteq> []"
  by (induction k v m rule: kv_add.induct) auto

lemma rev_ok_add: "rev_ok r \<Longrightarrow> rev_ok (add_reverse sec name t r)"
  by (auto simp: rev_ok_def add_reverse_def Let_def map_of_kv_add kv_add_sorted split: option.splits)

lemma rev_eq:
  assumes "rev_ok r" "rev_ok r'" "\<And>sec name. rev_lookup r sec name = rev_lookup r' sec name"
  shows "r = r'"
proof (rule sorted_keys_eq)
  have sub: "map_of r1 sec = Some m \<Longrightarrow> map_of r2 sec = Some m"
    if "rev_ok r1" "rev_ok r2" "\<And>sec name. rev_lookup r1 sec name = rev_lookup r2 sec name" for r1 r2 sec m
  proof -
    assume m: "map_of r1 sec = Some m"
    with that(1) have "m \<noteq> []" by (auto simp: rev_ok_def)
    then obtain k v where "(k, v) \<in> set m" by (cases m) auto
    then have "map_of m k \<noteq> None" using weak_map_of_SomeI by fastforce
    with m that(3) [of sec k] obtain m' where m': "map_of r2 sec = Some m'"
      by (auto simp: rev_lookup_def split: option.splits)
    have "map_of m = map_of m'"
    proof
      fix name show "map_of m name = map_of m' name" using that(3) [of sec name] m m' by (simp add: rev_lookup_def)
    qed
    with m m' that(1,2) have "m = m'" by (intro sorted_keys_eq) (auto simp: rev_ok_def)
    with m' show ?thesis by simp
  qed
  show "map_of r = map_of r'"
  proof
    fix sec
    have "map_of r sec = Some m \<Longrightarrow> map_of r' sec = Some m" for m by (rule sub [OF assms])
    moreover have "map_of r' sec = Some m \<Longrightarrow> map_of r sec = Some m" for m
      by (rule sub [OF assms(2,1) assms(3) [symmetric]])
    ultimately show "map_of r sec = map_of r' sec" by (metis option.exhaust)
  qed
qed (use assms(1,2) in \<open>auto simp: rev_ok_def\<close>)

text \<open>The tags with their section, name and type.\<close>

definition section_of :: "vendor_tags \<Rightarrow> tag \<Rightarrow> string option" where
  "section_of d t = map_option (\<lambda>i. mSections d ! unat i) (map_of (mTagToSectionMap d) t)"

definition vt_ok :: "tag \<Rightarrow> int \<Rightarrow> vendor_tags \<Rightarrow> bool" where
  "vt_ok B N d \<longleftrightarrow>
     sorted_wrt (<) (getTagArray d) \<and> map fst (mTagToSectionMap d) = getTagArray d \<and>
     map fst (mTagToTypeMap d) = getTagArray d \<and> mTagCount d = int (length (getTagArray d)) \<and>
     (\<forall>t \<in> set (getTagArray d). B \<le> t) \<and> (\<forall>ty \<in> snd ` set (mTagToTypeMap d). 0 \<le> ty \<and> ty < N) \<and>
     (\<forall>i \<in> snd ` set (mTagToSectionMap d). unat i < length (mSections d)) \<and>
     sorted_wrt (<) (mSections d) \<and> rev_ok (mReverseMapping d) \<and>
     (\<forall>sec name t. rev_lookup (mReverseMapping d) sec name = Some t \<longleftrightarrow>
        getTagName d t = Some name \<and> section_of d t = Some sec)"

section \<open>Descriptors of the vendor's functions\<close>

definition ops_describe :: "vendor_ops \<Rightarrow> tag \<Rightarrow> int \<Rightarrow> tag \<Rightarrow> bool" where
  "ops_describe v B N t \<longleftrightarrow>
     B \<le> t \<and> get_tag_name v t \<noteq> None \<and> get_section_name v t \<noteq> None \<and> 0 \<le> get_tag_type v t \<and> get_tag_type v t < N"

text \<open>The state of the first loop when the tags \<open>T\<close> are done.\<close>

definition collected :: "vendor_ops \<Rightarrow> tag set \<Rightarrow> vendor_tags \<times> (tag \<times> string) list \<Rightarrow> bool" where
  "collected v T st \<longleftrightarrow>
     (case st of (d, t2s) \<Rightarrow>
        map_of (mTagToNameMap d) = get_tag_name v |` T \<and> map_of t2s = get_section_name v |` T \<and>
        map_of (mTagToTypeMap d) = (\<lambda>t. Some (get_tag_type v t)) |` T \<and>
        sorted_wrt (<) (map fst (mTagToNameMap d)) \<and> sorted_wrt (<) (map fst (mTagToTypeMap d)) \<and>
        sorted_wrt (<) (mSections d) \<and> set (mSections d) = {s. \<exists>t \<in> T. get_section_name v t = Some s} \<and>
        mTagToSectionMap d = [] \<and> mReverseMapping d = [])"

lemma restrict_map_insert_Some: "f a = Some b \<Longrightarrow> f |` insert a A = (f |` A)(a \<mapsto> b)"
  by (auto simp: restrict_map_def fun_eq_iff)

lemma ops_collect_ok:
  "collected v T (d, t2s) \<Longrightarrow>
   (\<forall>t \<in> set ts. ops_describe v B N t) \<Longrightarrow>
   \<exists>d' t2s'. ops_collect v B N ts (d, t2s) = Inr (d', t2s') \<and> collected v (T \<union> set ts) (d', t2s') \<and> mTagCount d' = mTagCount d"
proof (induction ts arbitrary: T d t2s)
  case (Cons t ts)
  from Cons.prems(2) obtain name sec where t: "\<not> t < B" "get_tag_name v t = Some name" "get_section_name v t = Some sec"
    "0 \<le> get_tag_type v t" "get_tag_type v t < N" by (auto simp: ops_describe_def)
  let ?d = "d\<lparr>mTagToNameMap := kv_add t name (mTagToNameMap d), mSections := sv_add sec (mSections d),
    mTagToTypeMap := kv_add t (get_tag_type v t) (mTagToTypeMap d)\<rparr>"
  have "collected v (insert t T) (?d, kv_add t sec t2s)"
    using Cons.prems(1) t
    by (auto simp: collected_def map_of_kv_add kv_add_sorted sv_add_sorted set_sv_add restrict_map_insert_Some)
  from Cons.IH [OF this] Cons.prems(2) t show ?case by auto
qed simp

lemma ops_collect_bad:
  "\<exists>t \<in> set ts. \<not> ops_describe v B N t \<Longrightarrow> ops_collect v B N ts st = Inl BAD_VALUE_st"
  by (induction v B N ts st rule: ops_collect.induct) (auto simp: ops_describe_def split: option.splits)

text \<open>The state of the second loop.\<close>

definition indexed :: "vendor_ops \<Rightarrow> string list \<Rightarrow> tag set \<Rightarrow> vendor_tags \<Rightarrow> bool" where
  "indexed v secs T d \<longleftrightarrow>
     map_of (mTagToSectionMap d) =
       (\<lambda>t. case get_section_name v t of None \<Rightarrow> None | Some s \<Rightarrow> map_option of_nat (sv_index s secs)) |` T \<and>
     sorted_wrt (<) (map fst (mTagToSectionMap d)) \<and> rev_ok (mReverseMapping d) \<and>
     (\<forall>sec name t. rev_lookup (mReverseMapping d) sec name = Some t \<longrightarrow>
        t \<in> T \<and> get_section_name v t = Some sec \<and> get_tag_name v t = Some name) \<and>
     (\<forall>t \<in> T. rev_lookup (mReverseMapping d) (the (get_section_name v t)) (the (get_tag_name v t)) \<noteq> None)"

lemma ops_index_ok:
  assumes "\<And>t. t \<in> A \<Longrightarrow> ops_describe v B N t" "map_of t2s = get_section_name v |` A"
    and "{s. \<exists>t \<in> A. get_section_name v t = Some s} \<subseteq> set secs"
  shows "indexed v secs T d \<Longrightarrow> mSections d = secs \<Longrightarrow> map_of (mTagToNameMap d) = get_tag_name v |` A \<Longrightarrow> set ts \<subseteq> A \<Longrightarrow>
    \<exists>m r. ops_index t2s ts d = Some (d\<lparr>mTagToSectionMap := m, mReverseMapping := r\<rparr>) \<and>
      indexed v secs (T \<union> set ts) (d\<lparr>mTagToSectionMap := m, mReverseMapping := r\<rparr>)"
proof (induction ts arbitrary: T d)
  case Nil
  then show ?case by (intro exI [of _ "mTagToSectionMap d"] exI [of _ "mReverseMapping d"]) simp
next
  case (Cons t ts)
  from Cons.prems(4) assms(1) obtain name sec where t: "t \<in> A" "get_tag_name v t = Some name" "get_section_name v t = Some sec"
    by (fastforce simp: ops_describe_def)
  with assms(3) have "sec \<in> set secs" by blast
  then obtain i where i: "sv_index sec secs = Some i" using sv_index_None [of sec secs] by auto
  let ?d = "d\<lparr>mTagToSectionMap := kv_add t (of_nat i) (mTagToSectionMap d),
    mReverseMapping := add_reverse sec name t (mReverseMapping d)\<rparr>"
  have "indexed v secs (insert t T) ?d"
    using Cons.prems(1) t i
    by (auto simp: indexed_def map_of_kv_add kv_add_sorted rev_ok_add restrict_map_insert_Some split: if_splits)
  moreover have "map_of t2s t = Some sec" "map_of (mTagToNameMap d) t = Some name"
    using assms(2) Cons.prems(3) t by auto
  ultimately show ?case
    using Cons.IH [of "insert t T" ?d] Cons.prems i by auto
qed

text \<open>Making a descriptor is defined for every set of functions, and what it holds.\<close>

definition describes :: "vendor_ops \<Rightarrow> vendor_tags \<Rightarrow> bool" where
  "describes v d \<longleftrightarrow>
     (let A = set (get_all_tags v) in
      map_of (mTagToNameMap d) = get_tag_name v |` A \<and> sorted_wrt (<) (map fst (mTagToNameMap d)) \<and>
      map_of (mTagToTypeMap d) = (\<lambda>t. Some (get_tag_type v t)) |` A \<and> sorted_wrt (<) (map fst (mTagToTypeMap d)) \<and>
      sorted_wrt (<) (mSections d) \<and> set (mSections d) = {s. \<exists>t \<in> A. get_section_name v t = Some s} \<and>
      mTagCount d = get_tag_count v \<and> indexed v (mSections d) A d)"

lemma createDescriptorFromOps_ok:
  assumes "int (length (get_all_tags v)) = get_tag_count v" "\<forall>t \<in> set (get_all_tags v). ops_describe v B N t"
  shows "\<exists>d. createDescriptorFromOps B N (Some v) = Some (Inr d) \<and> describes v d"
proof -
  have "collected v {} (new_descriptor (get_tag_count v), [])"
    by (simp add: collected_def new_descriptor_def)
  from ops_collect_ok [OF this assms(2)] obtain d t2s where c: "collected v (set (get_all_tags v)) (d, t2s)"
    "ops_collect v B N (get_all_tags v) (new_descriptor (get_tag_count v), []) = Inr (d, t2s)" "mTagCount d = get_tag_count v"
    by (auto simp: new_descriptor_def)
  have "indexed v (mSections d) {} d" using c(1) by (simp add: indexed_def collected_def rev_ok_def rev_lookup_def)
  with c(1) ops_index_ok [of "set (get_all_tags v)" v B N t2s "mSections d" "{}" d "get_all_tags v"] assms(2)
  obtain m r where i: "ops_index t2s (get_all_tags v) d = Some (d\<lparr>mTagToSectionMap := m, mReverseMapping := r\<rparr>)"
    "indexed v (mSections d) (set (get_all_tags v)) (d\<lparr>mTagToSectionMap := m, mReverseMapping := r\<rparr>)"
    by (auto simp: collected_def)
  have "createDescriptorFromOps B N (Some v) = Some (Inr (d\<lparr>mTagToSectionMap := m, mReverseMapping := r\<rparr>))"
    using assms(1) c(2) i(1) by (simp add: createDescriptorFromOps_def)
  moreover have "describes v (d\<lparr>mTagToSectionMap := m, mReverseMapping := r\<rparr>)"
    using c i(2) by (simp add: describes_def collected_def)
  ultimately show ?thesis by blast
qed

lemma indexed_section:
  assumes "describes v d" "length (get_all_tags v) < 2 ^ 32"
  shows "map_option (\<lambda>i. unat i < length (mSections d)) (map_of (mTagToSectionMap d) t) =
      (if t \<in> set (get_all_tags v) \<and> get_section_name v t \<noteq> None then Some True else None)"
    and "section_of d t = (get_section_name v |` set (get_all_tags v)) t"
proof -
  let ?A = "set (get_all_tags v)"
  have "set (mSections d) \<subseteq> (\<lambda>t. the (get_section_name v t)) ` ?A" using assms(1) by (force simp: describes_def Let_def)
  then have "card (set (mSections d)) \<le> card ?A" by (meson List.finite_set card_image_le card_mono finite_imageI le_trans)
  moreover have "distinct (mSections d)" using assms(1) by (simp add: describes_def Let_def strict_sorted_iff)
  ultimately have len: "length (mSections d) < 2 ^ 32"
    using assms(2) card_length [of "get_all_tags v"] by (simp add: distinct_card)
  have idx: "unat (of_nat i :: 32 word) = i \<and> i < length (mSections d) \<and> mSections d ! i = s"
    if "sv_index s (mSections d) = Some i" for s i
    using sv_index_Some [OF that] len by (simp add: unat_of_nat take_bit_nat_eq_self)
  have m: "map_of (mTagToSectionMap d) t = (if t \<in> ?A then (case get_section_name v t of None \<Rightarrow> None
      | Some s \<Rightarrow> map_option of_nat (sv_index s (mSections d))) else None)"
    using assms(1) by (simp add: describes_def Let_def indexed_def restrict_map_def)
  have found: "\<exists>i. sv_index s (mSections d) = Some i" if "t \<in> ?A" "get_section_name v t = Some s" for s
    using that assms(1) sv_index_None [of s "mSections d"] by (force simp: describes_def Let_def)
  show "map_option (\<lambda>i. unat i < length (mSections d)) (map_of (mTagToSectionMap d) t) =
      (if t \<in> ?A \<and> get_section_name v t \<noteq> None then Some True else None)"
    using found idx by (auto simp: m split: option.splits)
  show "section_of d t = (get_section_name v |` ?A) t"
    using found idx by (auto simp: section_of_def m restrict_map_def split: option.splits)
qed

text \<open>C29: A descriptor is made exactly when each tag the vendor lists lies in the vendor's range and has a name, a
  section and a type that exists; otherwise the answer is \<open>BAD_VALUE\<close>, never an abort. It then answers as the
  vendor's functions for the listed tags, and with an error for all others.\<close>

theorem descriptor_answers_as_vendor:
  assumes "int (length (get_all_tags v)) = get_tag_count v" "get_tag_count v < 2 ^ 31"
  shows "(if \<forall>t \<in> set (get_all_tags v). ops_describe v B N t
     then \<exists>d. createDescriptorFromOps B N (Some v) = Some (Inr d) \<and> set (getTagArray d) = set (get_all_tags v) \<and>
       (\<forall>t. getTagName d t = (get_tag_name v |` set (get_all_tags v)) t \<and>
         getSectionName d t = Some ((get_section_name v |` set (get_all_tags v)) t) \<and>
         getTagType d t = Some (if t \<in> set (get_all_tags v) then Some (get_tag_type v t) else None))
     else createDescriptorFromOps B N (Some v) = Some (Inl BAD_VALUE_st))"
proof (cases "\<forall>t \<in> set (get_all_tags v). ops_describe v B N t")
  case True
  from createDescriptorFromOps_ok [OF assms(1) True] obtain d where d: "createDescriptorFromOps B N (Some v) = Some (Inr d)"
    "describes v d" by blast
  note sec = indexed_section [OF d(2)]
  have "dom (map_of (mTagToNameMap d)) = set (get_all_tags v)"
    using d(2) True by (auto simp: describes_def Let_def ops_describe_def restrict_map_def split: if_splits)
  then have "set (getTagArray d) = set (get_all_tags v)" by (simp add: getTagArray_def dom_map_of_conv_image_fst)
  moreover have "getSectionName d t = Some ((get_section_name v |` set (get_all_tags v)) t)" for t
    using sec [of t] assms by (auto simp: getSectionName_def section_of_def split: option.splits if_splits)
  moreover have "getTagType d t = Some (if t \<in> set (get_all_tags v) then Some (get_tag_type v t) else None)" for t
    using d(2) True by (auto simp: getTagType_def describes_def Let_def restrict_map_def ops_describe_def)
  ultimately show ?thesis using d True by (simp add: getTagName_def describes_def Let_def)
next
  case False
  with assms(1) ops_collect_bad [of "get_all_tags v" v B N] show ?thesis
    by (auto simp: createDescriptorFromOps_def)
qed

definition vendor_ops1 :: vendor_ops where
  "vendor_ops1 =
     \<lparr>get_tag_count = 3, get_all_tags = [0x80000001, 0x80000000, 0x80010000],
      get_section_name = (\<lambda>t. if t = 0x80010000 then Some ''acme.lens'' else Some ''acme''),
      get_tag_name = (\<lambda>t. if t = 0x80000001 then Some ''mode'' else Some ''gain''), get_tag_type = (\<lambda>_. 1)\<rparr>"

lemma descriptor_answers_as_vendor_witness:
  "\<exists>d. createDescriptorFromOps 0x80000000 6 (Some vendor_ops1) = Some (Inr d) \<and>
     getTagName d 0x80000001 = Some ''mode'' \<and> getSectionName d 0x80010000 = Some (Some ''acme.lens'')"
proof -
  have len: "int (length (get_all_tags vendor_ops1)) = get_tag_count vendor_ops1" "get_tag_count vendor_ops1 < 2 ^ 31"
    and ok: "\<forall>t \<in> set (get_all_tags vendor_ops1). ops_describe vendor_ops1 0x80000000 6 t"
    by (simp_all add: vendor_ops1_def ops_describe_def)
  from descriptor_answers_as_vendor [OF len, where B = "0x80000000" and N = 6] ok obtain d where
    "createDescriptorFromOps 0x80000000 6 (Some vendor_ops1) = Some (Inr d)"
    "\<And>t. getTagName d t = (get_tag_name vendor_ops1 |` set (get_all_tags vendor_ops1)) t"
    "\<And>t. getSectionName d t = Some ((get_section_name vendor_ops1 |` set (get_all_tags vendor_ops1)) t)" by auto
  then show ?thesis by (simp add: vendor_ops1_def)
qed

section \<open>Lookup\<close>

definition names_unique :: "vendor_ops \<Rightarrow> bool" where
  "names_unique v \<longleftrightarrow>
     distinct (get_all_tags v) \<and> distinct (map (\<lambda>t. (get_section_name v t, get_tag_name v t)) (get_all_tags v))"

lemma indexed_lookup:
  assumes "indexed v secs A d" "\<And>t. t \<in> A \<Longrightarrow> ops_describe v B N t"
    "inj_on (\<lambda>t. (get_section_name v t, get_tag_name v t)) A"
  shows "rev_lookup (mReverseMapping d) sec name = Some t \<longleftrightarrow>
    t \<in> A \<and> get_section_name v t = Some sec \<and> get_tag_name v t = Some name"
proof
  assume "rev_lookup (mReverseMapping d) sec name = Some t"
  with assms(1) show "t \<in> A \<and> get_section_name v t = Some sec \<and> get_tag_name v t = Some name"
    by (auto simp: indexed_def)
next
  assume t: "t \<in> A \<and> get_section_name v t = Some sec \<and> get_tag_name v t = Some name"
  with assms(1) obtain u where u: "rev_lookup (mReverseMapping d) sec name = Some u" by (fastforce simp: indexed_def)
  with assms(1) have "u \<in> A" "get_section_name v u = Some sec" "get_tag_name v u = Some name" by (auto simp: indexed_def)
  with t inj_onD [OF assms(3), of u t] have "u = t" by simp
  with u show "rev_lookup (mReverseMapping d) sec name = Some t" by simp
qed

lemma describes_vt_ok:
  assumes "describes v d" "int (length (get_all_tags v)) = get_tag_count v" "get_tag_count v < 2 ^ 31"
    "\<forall>t \<in> set (get_all_tags v). ops_describe v B N t" "names_unique v"
  shows "vt_ok B N d"
proof -
  let ?A = "set (get_all_tags v)"
  note d = assms(1) [unfolded describes_def Let_def]
  have doms: "dom (map_of (mTagToNameMap d)) = ?A" "dom (map_of (mTagToTypeMap d)) = ?A"
    using d assms(4) by (auto simp: ops_describe_def restrict_map_def split: if_splits)
  note sec = indexed_section [OF assms(1)]
  have "dom (map_of (mTagToSectionMap d)) = ?A"
  proof -
    have "t \<in> dom (map_of (mTagToSectionMap d)) \<longleftrightarrow> t \<in> ?A" for t
      using sec(1) [of t] assms(2,3,4) by (auto simp: ops_describe_def split: if_splits)
    then show ?thesis by blast
  qed
  with doms have "fst ` set (mTagToSectionMap d) = ?A" "fst ` set (mTagToTypeMap d) = ?A"
    "fst ` set (mTagToNameMap d) = ?A" by (simp_all add: dom_map_of_conv_image_fst)
  with d have keys: "map fst (mTagToSectionMap d) = getTagArray d" "map fst (mTagToTypeMap d) = getTagArray d"
    unfolding getTagArray_def indexed_def strict_sorted_iff
    by (intro sorted_distinct_set_unique; simp)+
  have set_keys: "set (getTagArray d) = ?A" using doms(1) by (simp add: getTagArray_def dom_map_of_conv_image_fst)
  have sorted: "sorted_wrt (<) (getTagArray d)" using d by (simp add: getTagArray_def)
  have count: "mTagCount d = int (length (getTagArray d))"
    using d assms(2,5) set_keys sorted
    by (metis distinct_card names_unique_def strict_sorted_iff)
  have types: "0 \<le> ty \<and> ty < N" if "ty \<in> snd ` set (mTagToTypeMap d)" for ty
  proof -
    from that obtain t where t: "(t, ty) \<in> set (mTagToTypeMap d)" by auto
    from d have "distinct (map fst (mTagToTypeMap d))" by (simp add: strict_sorted_iff)
    from map_of_is_SomeI [OF this t] d assms(4) show ?thesis by (auto simp: restrict_map_def ops_describe_def split: if_splits)
  qed
  have idx: "unat i < length (mSections d)" if "i \<in> snd ` set (mTagToSectionMap d)" for i
  proof -
    from that obtain t where t: "(t, i) \<in> set (mTagToSectionMap d)" by auto
    from d have "distinct (map fst (mTagToSectionMap d))" by (simp add: indexed_def strict_sorted_iff)
    from map_of_is_SomeI [OF this t] sec(1) [of t] assms(2,3) show ?thesis by (auto split: if_splits)
  qed
  have inj: "inj_on (\<lambda>t. (get_section_name v t, get_tag_name v t)) ?A"
    using assms(5) by (simp add: names_unique_def distinct_map)
  from d have ix: "indexed v (mSections d) ?A d" by simp
  have look: "rev_lookup (mReverseMapping d) s name = Some t \<longleftrightarrow> getTagName d t = Some name \<and> section_of d t = Some s"
    for s name t
    using indexed_lookup [OF ix _ inj, of B N s name t] assms(2,3,4) sec(2) [of t] d
    by (auto simp: getTagName_def restrict_map_def split: if_splits)
  show ?thesis
    unfolding vt_ok_def
    using sorted keys count set_keys assms(4) types idx d look
    by (auto simp: indexed_def ops_describe_def)
qed

text \<open>When no two of the vendor's tags have the same section and name, looking up a name gives a tag exactly when
  it is one of them and has that section and name.\<close>

theorem lookup_finds_tag:
  assumes "int (length (get_all_tags v)) = get_tag_count v" "get_tag_count v < 2 ^ 31" "names_unique v"
    and "createDescriptorFromOps B N (Some v) = Some (Inr d)"
  shows "lookupTag d name sec = Inr t \<longleftrightarrow>
    t \<in> set (get_all_tags v) \<and> get_tag_name v t = Some name \<and> get_section_name v t = Some sec"
proof -
  have ok: "\<forall>t \<in> set (get_all_tags v). ops_describe v B N t"
    using assms(1,4) ops_collect_bad [of "get_all_tags v" v B N]
    by (fastforce simp: createDescriptorFromOps_def split: if_splits)
  from createDescriptorFromOps_ok [OF assms(1) ok] assms(4) have "describes v d" by auto
  then have "indexed v (mSections d) (set (get_all_tags v)) d" by (simp add: describes_def Let_def)
  from indexed_lookup [OF this, of B N sec name t] ok assms(3) show ?thesis
    by (auto simp: lookupTag_rev names_unique_def distinct_map split: option.splits)
qed

lemma lookup_finds_tag_witness:
  "\<exists>d. createDescriptorFromOps 0x80000000 6 (Some vendor_ops1) = Some (Inr d) \<and>
     lookupTag d ''gain'' ''acme.lens'' = Inr 0x80010000"
proof -
  have len: "int (length (get_all_tags vendor_ops1)) = get_tag_count vendor_ops1" "get_tag_count vendor_ops1 < 2 ^ 31"
    and uniq: "names_unique vendor_ops1"
    and ok: "\<forall>t \<in> set (get_all_tags vendor_ops1). ops_describe vendor_ops1 0x80000000 6 t"
    by (simp_all add: vendor_ops1_def ops_describe_def names_unique_def)
  from createDescriptorFromOps_ok [OF len(1) ok] obtain d where
    d: "createDescriptorFromOps 0x80000000 6 (Some vendor_ops1) = Some (Inr d)" by blast
  from lookup_finds_tag [OF len uniq d, of "''gain''" "''acme.lens''" "0x80010000"] d show ?thesis
    by (simp add: vendor_ops1_def)
qed

section \<open>Through a parcel\<close>

text \<open>A descriptor is determined by its maps and sections.\<close>

lemma vt_ok_eq:
  assumes "vt_ok B N d" "rev_ok r"
    and "\<And>sec name t. rev_lookup r sec name = Some t \<longleftrightarrow> getTagName d t = Some name \<and> section_of d t = Some sec"
  shows "r = mReverseMapping d"
proof (rule rev_eq)
  fix sec name
  have "rev_lookup r sec name = Some t \<longleftrightarrow> rev_lookup (mReverseMapping d) sec name = Some t" for t
    using assms(1,3) by (simp add: vt_ok_def)
  then show "rev_lookup r sec name = rev_lookup (mReverseMapping d) sec name" by (metis option.exhaust)
qed (use assms(1,2) in \<open>auto simp: vt_ok_def\<close>)

definition vt_sendable :: "tag \<Rightarrow> int \<Rightarrow> (nat \<Rightarrow> int) \<Rightarrow> vendor_tags \<Rightarrow> bool" where
  "vt_sendable B N capacity d \<longleftrightarrow>
     vt_ok B N d \<and> N \<le> 2 ^ 31 \<and> mTagCount d < 2 ^ 31 \<and> length (mSections d) < 2 ^ 31 \<and> [] \<notin> set (mSections d) \<and>
     [] \<notin> snd ` set (mTagToNameMap d) \<and> (mTagToNameMap d = [] \<longrightarrow> mSections d = []) \<and>
     (mSections d \<noteq> [] \<longrightarrow> 0 < capacity (length (mSections d)))"

definition tag_items :: "vendor_tags \<Rightarrow> tag \<times> string \<Rightarrow> parcel_item list" where
  "tag_items d p =
     [I32 (fst p), I32 (of_int (the (map_of (mTagToTypeMap d) (fst p)))), S8 (snd p),
      I32 (the (map_of (mTagToSectionMap d) (fst p)))]"

definition vt_items :: "vendor_tags \<Rightarrow> parcel_item list" where
  "vt_items d =
     I32 (of_int (mTagCount d)) # concat (map (tag_items d) (mTagToNameMap d)) @
     (if mSections d = [] then [] else I32 (of_nat (length (mSections d))) # map S8 (mSections d))"

lemma writes_tags:
  assumes "parcel_laws P holds"
  shows "(\<And>t. t \<in> fst ` set ts \<Longrightarrow> map_of (mTagToSectionMap d) t \<noteq> None \<and> map_of (mTagToTypeMap d) t \<noteq> None) \<Longrightarrow>
    writes holds (write_tags P d ts) (concat (map (tag_items d) ts))"
proof (induction ts)
  case (Cons p ts)
  obtain t name where p: "p = (t, name)" by force
  from Cons.prems [of t] p obtain i ty where "map_of (mTagToSectionMap d) t = Some i" "map_of (mTagToTypeMap d) t = Some ty"
    by auto
  with Cons show ?case
    by (simp add: p tag_items_def writes_int32_then [OF assms] writes_string8_then [OF assms])
qed (simp add: writes_done)

lemma writes_sections: "parcel_laws P holds \<Longrightarrow> writes holds (write_sections P ss) (map S8 ss)"
  by (induction ss) (simp_all add: writes_done writes_string8_then)

lemma writes_after_break:
  "writes holds w its \<Longrightarrow> writes holds w' js \<Longrightarrow>
   writes holds (after_break c w w') (its @ (if c then js else []))"
  by (fastforce simp: writes_def after_break_def)

lemma vt_maps:
  assumes "vt_ok B N d" "(t, name) \<in> set (mTagToNameMap d)"
  shows "\<exists>i ty. map_of (mTagToSectionMap d) t = Some i \<and> map_of (mTagToTypeMap d) t = Some ty \<and>
    unat i < length (mSections d) \<and> 0 \<le> ty \<and> ty < N \<and> B \<le> t"
proof -
  from assms(2) have t: "t \<in> set (getTagArray d)" by (force simp: getTagArray_def)
  with assms(1) have "t \<in> fst ` set (mTagToSectionMap d)" "t \<in> fst ` set (mTagToTypeMap d)"
    unfolding vt_ok_def by (metis list.set_map)+
  then have "map_of (mTagToSectionMap d) t \<noteq> None" "map_of (mTagToTypeMap d) t \<noteq> None"
    by (auto simp: map_of_eq_None_iff)
  then obtain i ty where m: "map_of (mTagToSectionMap d) t = Some i" "map_of (mTagToTypeMap d) t = Some ty" by blast
  from map_of_SomeD [OF m(1)] map_of_SomeD [OF m(2)] have "i \<in> snd ` set (mTagToSectionMap d)"
    "ty \<in> snd ` set (mTagToTypeMap d)" by force+
  with m t assms(1) show ?thesis unfolding vt_ok_def by blast
qed

lemma vt_writes:
  assumes laws: "parcel_laws P holds" and ok: "vt_ok B N d"
  shows "writes holds (writeToParcel P d) (vt_items d)"
proof -
  have "writes holds (write_tags P d (mTagToNameMap d)) (concat (map (tag_items d) (mTagToNameMap d)))"
    using vt_maps [OF ok] by (intro writes_tags [OF laws]) fastforce
  from writes_after_break [OF this writes_int32_then [OF laws writes_sections [OF laws]],
      of "0 < length (mSections d)" "of_nat (length (mSections d))" "mSections d"]
  show ?thesis
    unfolding writeToParcel_def vt_items_def
    by (intro writes_int32_then [OF laws]) (simp split: if_splits)
qed

text \<open>The state of the loop over the tags after the tags \<open>ts\<close>.\<close>

definition read_tag :: "vendor_tags \<Rightarrow> tag \<times> string \<Rightarrow> vendor_tags \<times> 32 word \<times> tag list \<Rightarrow>
  vendor_tags \<times> 32 word \<times> tag list" where
  "read_tag d p st =
     (case (p, st) of ((t, name), d', m, ts) \<Rightarrow>
        (let i = the (map_of (mTagToSectionMap d) t) in
         (d'\<lparr>mTagToNameMap := kv_add t name (mTagToNameMap d'), mTagToSectionMap := kv_add t i (mTagToSectionMap d'),
             mTagToTypeMap := kv_add t (the (map_of (mTagToTypeMap d) t)) (mTagToTypeMap d')\<rparr>,
          if m \<ge> i then m else i, ts @ [t])))"

lemma reads_tags:
  assumes laws: "parcel_laws P holds" and send: "vt_sendable B N capacity d"
  shows "set ts \<subseteq> set (mTagToNameMap d) \<Longrightarrow>
    reads holds (tags_loop P B N (length ts) st) (concat (map (tag_items d) ts)) (fold (read_tag d) ts st)"
proof (induction ts arbitrary: st)
  case (Cons p ts)
  obtain t name where p: "p = (t, name)" by force
  obtain d' m us where st: "st = (d', m, us)" by (cases st)
  have mem: "(t, name) \<in> set (mTagToNameMap d)" using Cons.prems by (simp add: p)
  from send have ok: "vt_ok B N d" and N: "N \<le> 2 ^ 31" and names: "[] \<notin> snd ` set (mTagToNameMap d)"
    by (auto simp: vt_sendable_def)
  from vt_maps [OF ok mem] obtain i ty where m: "map_of (mTagToSectionMap d) t = Some i"
    "map_of (mTagToTypeMap d) t = Some ty" "0 \<le> ty" "ty < N" "B \<le> t" by blast
  have ty: "sint (of_int ty :: 32 word) = ty"
    using m(3,4) N by (simp add: signed_of_int signed_take_bit_int_eq_self)
  have "name \<noteq> []" using names mem by force
  with Cons m ty show ?case
    by (simp add: p st tag_items_def read_tag_def Let_def not_less [symmetric] reads_int32_then [OF laws]
        reads_string8_then [OF laws])
qed (simp add: reads_return)

text \<open>What the loop makes of all tags of a descriptor: its maps.\<close>

lemma fold_keys:
  "sorted_wrt (<) (ks @ map fst ts) \<Longrightarrow>
   fold (\<lambda>p. kv_add (fst p) (f (fst p))) ts (map (\<lambda>k. (k, f k)) ks) = map (\<lambda>k. (k, f k)) (ks @ map fst ts)"
  for ks :: "'k::linorder list"
proof (induction ts arbitrary: ks)
  case (Cons p ts)
  then have "kv_add (fst p) (f (fst p)) (map (\<lambda>k. (k, f k)) ks) = map (\<lambda>k. (k, f k)) (ks @ [fst p])"
    using kv_add_last [of "map (\<lambda>k. (k, f k)) ks" "fst p" "f (fst p)"] by (auto simp: sorted_wrt_append comp_def)
  with Cons.IH [of "ks @ [fst p]"] Cons.prems show ?case by simp
qed simp

lemma sorted_map_self:
  "sorted_wrt (<) (map fst m) \<Longrightarrow> m = map (\<lambda>k. (k, the (map_of m k))) (map fst m)"
  for m :: "('k::linorder \<times> 'v) list"
proof (rule nth_equalityI)
  fix i assume s: "sorted_wrt (<) (map fst m)" and i: "i < length m"
  then have "map_of m (fst (m ! i)) = Some (snd (m ! i))"
    by (intro map_of_is_SomeI) (simp_all add: strict_sorted_iff)
  with i show "m ! i = map (\<lambda>k. (k, the (map_of m k))) (map fst m) ! i" by (simp add: prod_eq_iff)
qed simp

lemma fold_read_tag:
  "fold (read_tag d) ts (d0, m, us) =
     (d0\<lparr>mTagToNameMap := fold (\<lambda>(k, v). kv_add k v) ts (mTagToNameMap d0),
         mTagToSectionMap := fold (\<lambda>p. kv_add (fst p) (the (map_of (mTagToSectionMap d) (fst p)))) ts (mTagToSectionMap d0),
         mTagToTypeMap := fold (\<lambda>p. kv_add (fst p) (the (map_of (mTagToTypeMap d) (fst p)))) ts (mTagToTypeMap d0)\<rparr>,
      fold (\<lambda>p m. let i = the (map_of (mTagToSectionMap d) (fst p)) in if m \<ge> i then m else i) ts m, us @ map fst ts)"
  by (induction ts arbitrary: d0 m us) (auto simp: read_tag_def Let_def)

lemma max_index_bound:
  "(\<And>p. p \<in> set ts \<Longrightarrow> unat (f p :: 32 word) < n) \<Longrightarrow> unat m < n \<Longrightarrow>
   unat (fold (\<lambda>p m. let i = f p in if m \<ge> i then m else i) ts m) < n"
  by (induction ts arbitrary: m) (auto simp: Let_def)

lemma read_all_tags:
  assumes ok: "vt_ok B N d"
  shows "\<exists>m. fold (read_tag d) (mTagToNameMap d) (new_descriptor (mTagCount d), 0, []) =
      (d\<lparr>mReverseMapping := [], mSections := []\<rparr>, m, getTagArray d) \<and>
      (mTagToNameMap d \<noteq> [] \<longrightarrow> unat m < length (mSections d))"
proof -
  have s: "sorted_wrt (<) (map fst (mTagToNameMap d))" "sorted_wrt (<) (map fst (mTagToSectionMap d))"
    "sorted_wrt (<) (map fst (mTagToTypeMap d))" "map fst (mTagToSectionMap d) = map fst (mTagToNameMap d)"
    "map fst (mTagToTypeMap d) = map fst (mTagToNameMap d)"
    using ok by (auto simp: vt_ok_def getTagArray_def)
  have names: "fold (\<lambda>(k, v). kv_add k v) (mTagToNameMap d) [] = mTagToNameMap d"
    using fold_kv_add [of "[]" "mTagToNameMap d"] s(1) by simp
  have secs: "fold (\<lambda>p. kv_add (fst p) (the (map_of (mTagToSectionMap d) (fst p)))) (mTagToNameMap d) [] = mTagToSectionMap d"
    using fold_keys [of "[]" "mTagToNameMap d" "\<lambda>k. the (map_of (mTagToSectionMap d) k)"] s(1)
      sorted_map_self [OF s(2)] s(4) by simp
  have types: "fold (\<lambda>p. kv_add (fst p) (the (map_of (mTagToTypeMap d) (fst p)))) (mTagToNameMap d) [] = mTagToTypeMap d"
    using fold_keys [of "[]" "mTagToNameMap d" "\<lambda>k. the (map_of (mTagToTypeMap d) k)"] s(1)
      sorted_map_self [OF s(3)] s(5) by simp
  have idx: "unat (the (map_of (mTagToSectionMap d) (fst p))) < length (mSections d)" if "p \<in> set (mTagToNameMap d)" for p
    using vt_maps [OF ok, of "fst p" "snd p"] that by auto
  then have "mTagToNameMap d \<noteq> [] \<longrightarrow> 0 < length (mSections d)" by (cases "mTagToNameMap d") fastforce+
  with max_index_bound [of "mTagToNameMap d" "\<lambda>p. the (map_of (mTagToSectionMap d) (fst p))" "length (mSections d)" 0] idx
  show ?thesis by (auto simp: fold_read_tag names secs types new_descriptor_def getTagArray_def)
qed

lemma reads_section_names:
  assumes laws: "parcel_laws P holds"
  shows "[] \<notin> set ss \<Longrightarrow> reads holds (sections_loop P (length ss) xs) (map S8 ss) (fold sv_add ss xs)"
  by (induction ss arbitrary: xs) (auto simp: reads_return intro!: reads_string8_then [OF laws])

lemma reverse_loop_ok:
  "(\<And>t. t \<in> set ts \<Longrightarrow> \<exists>i name. map_of (mTagToSectionMap d) t = Some i \<and> unat i < length (mSections d) \<and>
      map_of (mTagToNameMap d) t = Some name) \<Longrightarrow> rev_ok (mReverseMapping d) \<Longrightarrow>
   \<exists>r. reverse_loop ts d = Some (d\<lparr>mReverseMapping := r\<rparr>) \<and> rev_ok r \<and>
     (\<forall>sec name. rev_lookup r sec name =
        fold (\<lambda>t x. if section_of d t = Some sec \<and> getTagName d t = Some name then Some t else x) ts
          (rev_lookup (mReverseMapping d) sec name))"
proof (induction ts arbitrary: d)
  case Nil
  then show ?case by (intro exI [of _ "mReverseMapping d"]) simp
next
  case (Cons t ts)
  from Cons.prems(1) [of t] obtain i name where t: "map_of (mTagToSectionMap d) t = Some i" "unat i < length (mSections d)"
    "map_of (mTagToNameMap d) t = Some name" by auto
  let ?d = "d\<lparr>mReverseMapping := add_reverse (mSections d ! unat i) name t (mReverseMapping d)\<rparr>"
  from Cons.IH [of ?d] Cons.prems obtain r where r: "reverse_loop ts ?d = Some (?d\<lparr>mReverseMapping := r\<rparr>)" "rev_ok r"
    "\<forall>sec nm. rev_lookup r sec nm =
      fold (\<lambda>t x. if section_of ?d t = Some sec \<and> getTagName ?d t = Some nm then Some t else x) ts
        (rev_lookup (mReverseMapping ?d) sec nm)"
    by (auto simp: rev_ok_add)
  have same: "section_of ?d = section_of d" "getTagName ?d = getTagName d" by (auto simp: section_of_def getTagName_def fun_eq_iff)
  have "section_of d t = Some (mSections d ! unat i)" "getTagName d t = Some name" using t by (simp_all add: section_of_def getTagName_def)
  with r t same show ?case by (intro exI [of _ r]) (auto simp: not_le)
qed

lemma fold_pick:
  "(\<And>t u. t \<in> set ts \<Longrightarrow> u \<in> set ts \<Longrightarrow> Q t \<Longrightarrow> Q u \<Longrightarrow> t = u) \<Longrightarrow>
   fold (\<lambda>t x. if Q t then Some t else x) ts x = Some v \<longleftrightarrow>
     (v \<in> set ts \<and> Q v) \<or> ((\<forall>t \<in> set ts. \<not> Q t) \<and> x = Some v)"
proof (induction ts arbitrary: x)
  case (Cons t ts)
  then have "\<And>a b. a \<in> set ts \<Longrightarrow> b \<in> set ts \<Longrightarrow> Q a \<Longrightarrow> Q b \<Longrightarrow> a = b" by simp
  from Cons.IH [OF this] show ?case using Cons.prems [of t] by auto
qed simp

lemma finish_own:
  assumes ok: "vt_ok B N d"
  shows "reverse_loop (getTagArray d) (d\<lparr>mReverseMapping := []\<rparr>) = Some d"
proof -
  let ?d = "d\<lparr>mReverseMapping := []\<rparr>"
  have maps: "\<exists>i name. map_of (mTagToSectionMap ?d) t = Some i \<and> unat i < length (mSections ?d) \<and>
      map_of (mTagToNameMap ?d) t = Some name" if "t \<in> set (getTagArray d)" for t
  proof -
    from that have "map_of (mTagToNameMap d) t \<noteq> None" by (auto simp: getTagArray_def map_of_eq_None_iff)
    then obtain name where name: "map_of (mTagToNameMap d) t = Some name" by blast
    with vt_maps [OF ok map_of_SomeD [OF name]] show ?thesis by auto
  qed
  have same: "section_of ?d = section_of d" "getTagName ?d = getTagName d" by (auto simp: section_of_def getTagName_def fun_eq_iff)
  from reverse_loop_ok [of "getTagArray d" ?d] maps obtain r where
    r: "reverse_loop (getTagArray d) ?d = Some (?d\<lparr>mReverseMapping := r\<rparr>)" "rev_ok r"
    "\<And>sec name. rev_lookup r sec name =
      fold (\<lambda>t x. if section_of d t = Some sec \<and> getTagName d t = Some name then Some t else x) (getTagArray d) None"
    by (auto simp: same rev_ok_def rev_lookup_def)
  have one: "t = u" if "section_of d t = Some sec \<and> getTagName d t = Some name"
    "section_of d u = Some sec \<and> getTagName d u = Some name" for t u sec name
  proof -
    from ok that have "rev_lookup (mReverseMapping d) sec name = Some t" "rev_lookup (mReverseMapping d) sec name = Some u"
      unfolding vt_ok_def by blast+
    then show ?thesis by simp
  qed
  have mem: "t \<in> set (getTagArray d)" if "getTagName d t = Some name" for t name
    using that map_of_SomeD [of "mTagToNameMap d" t name] by (force simp: getTagName_def getTagArray_def)
  have "r = mReverseMapping d"
  proof (rule vt_ok_eq [OF ok r(2)])
    fix sec name t
    show "rev_lookup r sec name = Some t \<longleftrightarrow> getTagName d t = Some name \<and> section_of d t = Some sec"
      unfolding r(3) by (subst fold_pick, rule one) (auto dest: mem)
  qed
  with r(1) show ?thesis by simp
qed

lemma vt_reads:
  assumes laws: "parcel_laws P holds" and send: "vt_sendable B N capacity d"
  shows "reads holds (createFromParcel B N capacity P) (vt_items d) d"
proof -
  from send have ok: "vt_ok B N d" and n: "mTagCount d = int (length (mTagToNameMap d))" "mTagCount d < 2 ^ 31"
    by (auto simp: vt_sendable_def vt_ok_def getTagArray_def)
  have cnt: "sint (of_int (mTagCount d) :: 32 word) = mTagCount d"
    using n unfolding signed_of_int by (subst signed_take_bit_int_eq_self) simp_all
  from read_all_tags [OF ok] obtain m where m: "fold (read_tag d) (mTagToNameMap d) (new_descriptor (mTagCount d), 0, []) =
      (d\<lparr>mReverseMapping := [], mSections := []\<rparr>, m, getTagArray d)"
    "mTagToNameMap d \<noteq> [] \<Longrightarrow> unat m < length (mSections d)" by blast
  from reads_tags [OF laws send, of "mTagToNameMap d" "(new_descriptor (mTagCount d), 0, [])"]
  have tags: "reads holds (tags_loop P B N (length (mTagToNameMap d)) (new_descriptor (mTagCount d), 0, []))
      (concat (map (tag_items d) (mTagToNameMap d))) (d\<lparr>mReverseMapping := [], mSections := []\<rparr>, m, getTagArray d)"
    by (simp add: m(1))
  have tags': "reads holds (tags_loop P B N (nat (mTagCount d)) (new_descriptor (mTagCount d), 0, []))
      (concat (map (tag_items d) (mTagToNameMap d))) (d\<lparr>mReverseMapping := [], mSections := []\<rparr>, m, getTagArray d)"
    using tags n(1) by simp
  have secs: "reads holds (read_sections P capacity (mTagCount d) m)
      (if mSections d = [] then [] else I32 (of_nat (length (mSections d))) # map S8 (mSections d)) (mSections d)"
  proof (cases "mTagToNameMap d = []")
    case True
    with send n show ?thesis by (simp add: vt_sendable_def read_sections_def reads_return)
  next
    case False
    from send have len: "length (mSections d) < 2 ^ 31" "[] \<notin> set (mSections d)" by (auto simp: vt_sendable_def)
    from m(2) [OF False] have ne: "mSections d \<noteq> []" by auto
    have u: "unat (of_nat (length (mSections d)) :: 32 word) = length (mSections d)"
      using len by (simp add: unat_of_nat take_bit_nat_eq_self)
    have "unat m + 1 < 2 ^ 32" using m(2) [OF False] len by simp
    then have "unat (m + 1) = unat m + 1" by (simp add: unat_word_ariths)
    with m(2) [OF False] u have le: "\<not> of_nat (length (mSections d)) < m + 1" by (simp add: word_less_nat_alt)
    have "reads holds (sections_loop P (length (mSections d)) []) (map S8 (mSections d)) (mSections d)"
      using reads_section_names [OF laws len(2), of "[]"] fold_sv_add [of "[]" "mSections d"] ok by (simp add: vt_ok_def)
    then show ?thesis
      using False n(1) ne u le send
      by (simp add: read_sections_def vt_sendable_def reads_int32_then [OF laws])
  qed
  have fin: "reads holds (finish_descriptor (getTagArray d) (d\<lparr>mReverseMapping := [], mSections := mSections d\<rparr>)) [] d"
    using finish_own [OF ok] by (simp add: finish_descriptor_def reads_return)
  have rest: "reads holds (rd_then (read_sections P capacity (mTagCount d) m)
      (\<lambda>secs. finish_descriptor (getTagArray d) ((d\<lparr>mReverseMapping := [], mSections := []\<rparr>)\<lparr>mSections := secs\<rparr>)))
      ((if mSections d = [] then [] else I32 (of_nat (length (mSections d))) # map S8 (mSections d)) @ []) d"
    using fin by (intro reads_then [OF secs]) simp
  have "reads holds (rd_then (tags_loop P B N (nat (mTagCount d)) (new_descriptor (mTagCount d), 0, []))
      (\<lambda>(d', mx, ts). rd_then (read_sections P capacity (mTagCount d) mx)
         (\<lambda>secs. finish_descriptor ts (d'\<lparr>mSections := secs\<rparr>))))
      (concat (map (tag_items d) (mTagToNameMap d)) @
        ((if mSections d = [] then [] else I32 (of_nat (length (mSections d))) # map S8 (mSections d)) @ [])) d"
    by (rule reads_then [OF tags']) (use rest in \<open>simp only: prod.case\<close>)
  moreover have "\<not> mTagCount d < 0" using n(1) by simp
  ultimately show ?thesis
    unfolding createFromParcel_def vt_items_def
    by (intro reads_int32_then [OF laws]) (simp add: cnt)
qed

interpretation vendor_tags_sent: parcelable holds "writeToParcel P" "createFromParcel B N capacity P" "\<lambda>d. vt_sendable B N capacity d \<and> parcel_laws P holds" vt_items
  for holds P B N capacity
  by unfold_locales (auto simp: vt_sendable_def intro: vt_writes vt_reads)

text \<open>C28: A descriptor arrives as it was sent. Any well-formed one that a vendor's functions or a parcel can give,
  with names that are not empty, is written, and read by the other process as the same descriptor, and nothing is
  left in the parcel.\<close>

theorem vendor_tags_roundtrip:
  assumes "parcel_laws P holds" "vt_sendable B N capacity d" "holds p []"
  shows "\<exists>p1 p2. writeToParcel P d p = Some (0, p1) \<and> createFromParcel B N capacity P p1 = Some (Inr d, p2) \<and>
    holds p2 []"
  using vendor_tags_sent.sent_and_received [of B N capacity d P holds p] assms by simp

definition vendor_tags1 :: vendor_tags where
  "vendor_tags1 =
     \<lparr>mReverseMapping = [(''acme'', [(''gain'', 0x80000000), (''mode'', 0x80000001)]), (''acme.lens'', [(''gain'', 0x80010000)])],
      mTagToNameMap = [(0x80000000, ''gain''), (0x80000001, ''mode''), (0x80010000, ''gain'')],
      mTagToSectionMap = [(0x80000000, 0), (0x80000001, 0), (0x80010000, 1)],
      mTagToTypeMap = [(0x80000000, 1), (0x80000001, 1), (0x80010000, 1)], mSections = [''acme'', ''acme.lens''],
      mTagCount = 3\<rparr>"

lemma vendor_tags1_made: "createDescriptorFromOps 0x80000000 6 (Some vendor_ops1) = Some (Inr vendor_tags1)"
  by code_simp

lemma vendor_tags1_sendable: "vt_sendable 0x80000000 6 int vendor_tags1"
proof -
  have len: "int (length (get_all_tags vendor_ops1)) = get_tag_count vendor_ops1" "get_tag_count vendor_ops1 < 2 ^ 31"
    and uniq: "names_unique vendor_ops1"
    and ok: "\<forall>t \<in> set (get_all_tags vendor_ops1). ops_describe vendor_ops1 0x80000000 6 t"
    by (simp_all add: vendor_ops1_def ops_describe_def names_unique_def)
  from createDescriptorFromOps_ok [OF len(1) ok] vendor_tags1_made have "describes vendor_ops1 vendor_tags1" by simp
  from describes_vt_ok [OF this len ok uniq] show ?thesis by (simp add: vt_sendable_def vendor_tags1_def)
qed

lemma vendor_tags_roundtrip_witness:
  "\<exists>p1 p2. writeToParcel list_parcel vendor_tags1 [] = Some (0, p1) \<and>
     createFromParcel 0x80000000 6 int list_parcel p1 = Some (Inr vendor_tags1, p2) \<and> [] = p2"
  using vendor_tags_roundtrip [OF list_parcel_laws vendor_tags1_sendable, of "[]"] by simp

section \<open>Where it goes wrong\<close>

definition sent_through :: "vendor_ops \<Rightarrow> (int + vendor_tags) option" where
  "sent_through v =
     (case createDescriptorFromOps 0x80000000 6 (Some v) of
        Some (Inr d) \<Rightarrow>
          (case writeToParcel list_parcel d [] of
             Some (_, p) \<Rightarrow> map_option fst (createFromParcel 0x80000000 6 int list_parcel p)
           | _ \<Rightarrow> None)
      | _ \<Rightarrow> None)"

text \<open>A vendor that lists a tag twice: the number of tags that is written is larger than the number of tags.\<close>

lemma tag_listed_twice:
  "sent_through (vendor_ops1\<lparr>get_tag_count := 2, get_all_tags := [0x80000000, 0x80000000]\<rparr>) = Some (Inl BAD_VALUE_st)"
  by code_simp

text \<open>Indices of sections out of range: the largest index wraps around in the test, and a section that is listed
  twice is stored once.\<close>

lemma word32_wraps: "(4294967296 :: 32 word) = 0"
  by code_simp

lemma section_index_wraps:
  "createFromParcel 0x80000000 6 int list_parcel
     [I32 1, I32 0x80000000, I32 1, S8 ''gain'', I32 0xFFFFFFFF, I32 1, S8 ''acme''] = None"
  by (simp add: createFromParcel_def rd_then_def rd_int32_def list_parcel_def rd_string8_def read_sections_def
      finish_descriptor_def rd_return_def rd_undefined_def new_descriptor_def sv_add_def word32_wraps)

lemma section_listed_twice:
  "createFromParcel 0x80000000 6 int list_parcel
     [I32 1, I32 0x80000000, I32 1, S8 ''gain'', I32 1, I32 2, S8 ''acme'', S8 ''acme''] = None"
  by code_simp

text \<open>The sections are sorted when they are read, but the indices are not changed: the tag moves to another section.\<close>

lemma sections_reordered:
  "(case createFromParcel 0x80000000 6 int list_parcel
      [I32 1, I32 0x80000000, I32 1, S8 ''gain'', I32 0, I32 2, S8 ''lens'', S8 ''acme''] of
      Some (Inr d, _) \<Rightarrow> getSectionName d 0x80000000
    | _ \<Rightarrow> None) = Some (Some ''acme'')"
  by code_simp

text \<open>A tag with an empty name can be made and written, but not read.\<close>

lemma empty_name_not_read:
  "sent_through (vendor_ops1\<lparr>get_tag_name := (\<lambda>_. Some [])\<rparr>) = Some (Inl NOT_ENOUGH_DATA_st)"
  by code_simp

text \<open>The descriptor of the process answers as the one that was set; with none, all answers are errors.\<close>

lemma global_answers:
  "vendor_tag_descriptor_get_tag_name (snd (setAsGlobalVendorTagDescriptor res (Some d) g)) t = getTagName d t"
  "vendor_tag_descriptor_get_section_name (snd (setAsGlobalVendorTagDescriptor res (Some d) g)) t = getSectionName d t"
  "vendor_tag_descriptor_get_tag_name (clearGlobalVendorTagDescriptor g) t = None"
  by (simp_all add: vendor_tag_descriptor_get_tag_name_def vendor_tag_descriptor_get_section_name_def
      setAsGlobalVendorTagDescriptor_def clearGlobalVendorTagDescriptor_def)

end
