(* ===== verification/Camera_Metadata.thy ===== *)
theory Camera_Metadata
  imports Android "HOL-Library.Monad_Syntax" "HOL-Library.While_Combinator"
begin

text \<open>
  \<open>CameraMetadata.cpp\<close>: objects that own a buffer of the C library for camera metadata.

  \<^item> The library is a parameter, the record \<open>metadata_lib\<close> over a type \<open>'m\<close> of the contents of buffers; what is relied
    on are \<open>lib_laws\<close> and \<open>lib_sound\<close>; memory may run out at any allocation. What it does with a NULL pointer are the fields \<open>null_\<dots>\<close>, None if that is undefined.
  \<^item> The state is the store of the buffers and the objects, by their addresses. A result None is undefined
    behaviour: a buffer used or freed that is not allocated, or a NULL pointer followed.
  \<^item> Shown: an update is found again, and nothing else changes, however the buffer grows; every buffer is owned by
    exactly one object or by the client and is freed once, or lost when an object could not grow; a locked object is not changed; an object arrives
    through a parcel as it was sent, and no parcel makes the reader leave its blob.
\<close>

section \<open>The library\<close>

type_synonym tag = "32 word"

datatype md_data =
    Int32s "32 word list"
  | Bytes "8 word list"
  | Floats "32 word list"
  | Int64s "64 word list"
  | Doubles "64 word list"
  | Rationals "(32 word \<times> 32 word) list"
  | String8 string

datatype md_type = TYPE_BYTE | TYPE_INT32 | TYPE_FLOAT | TYPE_INT64 | TYPE_DOUBLE | TYPE_RATIONAL

record 'm metadata_lib =
  lib_fresh :: "(nat \<Rightarrow> 'm option) \<Rightarrow> ptr"
  lib_empty :: "nat \<Rightarrow> nat \<Rightarrow> 'm"
  lib_clone :: "'m \<Rightarrow> 'm"
  lib_entry_count :: "'m \<Rightarrow> nat"
  lib_entry_capacity :: "'m \<Rightarrow> nat"
  lib_data_count :: "'m \<Rightarrow> nat"
  lib_data_capacity :: "'m \<Rightarrow> nat"
  lib_append :: "'m \<Rightarrow> 'm \<Rightarrow> int \<times> 'm"
  lib_sort :: "'m \<Rightarrow> int \<times> 'm"
  lib_find :: "'m \<Rightarrow> tag \<Rightarrow> int + nat \<times> md_data"
  lib_add :: "'m \<Rightarrow> tag \<Rightarrow> md_data \<Rightarrow> int \<times> 'm"
  lib_update :: "'m \<Rightarrow> nat \<Rightarrow> md_data \<Rightarrow> int \<times> 'm"
  lib_delete :: "'m \<Rightarrow> nat \<Rightarrow> int \<times> 'm"
  lib_tag_type :: "tag \<Rightarrow> md_type option"
  lib_data_size :: "md_type \<Rightarrow> md_data \<Rightarrow> nat"
  lib_image :: "'m \<Rightarrow> 8 word list"
  lib_check :: "8 word list \<Rightarrow> 'm option"
  lib_alignment :: nat
  null_count :: "nat option"
  null_find :: "int option"
  null_sort :: "int option"
  null_append :: "int option"

section \<open>Objects\<close>

record camera_metadata =
  mBuffer :: ptr
  mLocked :: bool

record 'm md_state =
  bufs :: "nat \<Rightarrow> 'm option"
  cams :: "nat \<Rightarrow> camera_metadata option"

definition md_new_buffer :: "'m metadata_lib \<Rightarrow> 'm \<Rightarrow> 'm md_state \<Rightarrow> ptr \<times> 'm md_state" where
  "md_new_buffer lib m s =
     (case lib_fresh lib (bufs s) of None \<Rightarrow> (None, s) | Some a \<Rightarrow> (Some a, s\<lparr>bufs := (bufs s)(a := Some m)\<rparr>))"

definition free_camera_metadata :: "nat \<Rightarrow> 'm md_state \<Rightarrow> 'm md_state option" where
  "free_camera_metadata a s = (if bufs s a = None then None else Some (s\<lparr>bufs := (bufs s)(a := None)\<rparr>))"

definition clone_camera_metadata :: "'m metadata_lib \<Rightarrow> ptr \<Rightarrow> 'm md_state \<Rightarrow> (ptr \<times> 'm md_state) option" where
  "clone_camera_metadata lib p s =
     (case p of
        None \<Rightarrow> Some (None, s)
      | Some a \<Rightarrow> map_option (\<lambda>m. md_new_buffer lib (lib_clone lib m) s) (bufs s a))"

definition put_cam :: "nat \<Rightarrow> camera_metadata \<Rightarrow> 'm md_state \<Rightarrow> 'm md_state" where
  "put_cam i c s = s\<lparr>cams := (cams s)(i := Some c)\<rparr>"

definition put_buf :: "nat \<Rightarrow> 'm \<Rightarrow> 'm md_state \<Rightarrow> 'm md_state" where
  "put_buf a m s = s\<lparr>bufs := (bufs s)(a := Some m)\<rparr>"

definition md_new :: "nat \<Rightarrow> 'm md_state \<Rightarrow> 'm md_state" where
  "md_new i s = put_cam i \<lparr>mBuffer = None, mLocked = False\<rparr> s"

definition md_new_capacity :: "'m metadata_lib \<Rightarrow> nat \<Rightarrow> nat \<Rightarrow> nat \<Rightarrow> 'm md_state \<Rightarrow> 'm md_state" where
  "md_new_capacity lib i entryCapacity dataCapacity s =
     (let (p, s1) = md_new_buffer lib (lib_empty lib entryCapacity dataCapacity) s
      in put_cam i \<lparr>mBuffer = p, mLocked = False\<rparr> s1)"

definition md_new_copy :: "'m metadata_lib \<Rightarrow> nat \<Rightarrow> nat \<Rightarrow> 'm md_state \<Rightarrow> 'm md_state option" where
  "md_new_copy lib i other s =
     do { c \<leftarrow> cams s other;
          (p, s1) \<leftarrow> clone_camera_metadata lib (mBuffer c) s;
          Some (put_cam i \<lparr>mBuffer = p, mLocked = False\<rparr> s1) }"

definition md_clear :: "nat \<Rightarrow> 'm md_state \<Rightarrow> 'm md_state option" where
  "md_clear i s =
     do { c \<leftarrow> cams s i;
          if mLocked c then Some s
          else (case mBuffer c of
                  None \<Rightarrow> Some s
                | Some a \<Rightarrow> map_option (put_cam i (c\<lparr>mBuffer := None\<rparr>)) (free_camera_metadata a s)) }"

text \<open>The validation only writes to the log.\<close>

definition md_acquire_raw :: "nat \<Rightarrow> ptr \<Rightarrow> 'm md_state \<Rightarrow> 'm md_state option" where
  "md_acquire_raw i buffer s =
     do { c \<leftarrow> cams s i;
          if mLocked c then Some s
          else do { s1 \<leftarrow> md_clear i s; Some (put_cam i (c\<lparr>mBuffer := buffer\<rparr>) s1) } }"

definition md_new_raw :: "nat \<Rightarrow> ptr \<Rightarrow> 'm md_state \<Rightarrow> 'm md_state option" where
  "md_new_raw i buffer s = md_acquire_raw i buffer (md_new i s)"

definition md_assign_raw :: "'m metadata_lib \<Rightarrow> nat \<Rightarrow> ptr \<Rightarrow> 'm md_state \<Rightarrow> 'm md_state option" where
  "md_assign_raw lib i buffer s =
     do { c \<leftarrow> cams s i;
          if mLocked c then Some s
          else if buffer = mBuffer c then Some s
          else do { (newBuffer, s1) \<leftarrow> clone_camera_metadata lib buffer s;
                    s2 \<leftarrow> md_clear i s1;
                    Some (put_cam i (c\<lparr>mBuffer := newBuffer\<rparr>) s2) } }"

definition md_assign :: "'m metadata_lib \<Rightarrow> nat \<Rightarrow> nat \<Rightarrow> 'm md_state \<Rightarrow> 'm md_state option" where
  "md_assign lib i other s = do { c \<leftarrow> cams s other; md_assign_raw lib i (mBuffer c) s }"

definition md_destroy :: "nat \<Rightarrow> 'm md_state \<Rightarrow> 'm md_state option" where
  "md_destroy i s =
     do { c \<leftarrow> cams s i;
          s1 \<leftarrow> md_clear i (put_cam i (c\<lparr>mLocked := False\<rparr>) s);
          Some (s1\<lparr>cams := (cams s1)(i := None)\<rparr>) }"

definition md_getAndLock :: "nat \<Rightarrow> 'm md_state \<Rightarrow> (ptr \<times> 'm md_state) option" where
  "md_getAndLock i s = do { c \<leftarrow> cams s i; Some (mBuffer c, put_cam i (c\<lparr>mLocked := True\<rparr>) s) }"

definition md_unlock :: "nat \<Rightarrow> ptr \<Rightarrow> 'm md_state \<Rightarrow> (int \<times> 'm md_state) option" where
  "md_unlock i buffer s =
     do { c \<leftarrow> cams s i;
          if \<not> mLocked c then Some (INVALID_OPERATION_st, s)
          else if buffer \<noteq> mBuffer c then Some (BAD_VALUE_st, s)
          else Some (0, put_cam i (c\<lparr>mLocked := False\<rparr>) s) }"

definition md_release :: "nat \<Rightarrow> 'm md_state \<Rightarrow> (ptr \<times> 'm md_state) option" where
  "md_release i s =
     do { c \<leftarrow> cams s i;
          if mLocked c then Some (None, s) else Some (mBuffer c, put_cam i (c\<lparr>mBuffer := None\<rparr>) s) }"

definition md_acquire :: "nat \<Rightarrow> nat \<Rightarrow> 'm md_state \<Rightarrow> 'm md_state option" where
  "md_acquire i other s =
     do { c \<leftarrow> cams s i;
          if mLocked c then Some s
          else do { (p, s1) \<leftarrow> md_release other s; md_acquire_raw i p s1 } }"

definition md_swap :: "nat \<Rightarrow> nat \<Rightarrow> 'm md_state \<Rightarrow> 'm md_state option" where
  "md_swap i other s =
     do { c \<leftarrow> cams s i;
          d \<leftarrow> cams s other;
          if mLocked c \<or> mLocked d then Some s
          else Some (put_cam i (c\<lparr>mBuffer := mBuffer d\<rparr>) (put_cam other (d\<lparr>mBuffer := mBuffer c\<rparr>) s)) }"

section \<open>Entries\<close>

text \<open>The content behind a pointer that may be NULL.\<close>

definition content :: "ptr \<Rightarrow> 'm md_state \<Rightarrow> 'm option option" where
  "content p s = (case p of None \<Rightarrow> Some None | Some a \<Rightarrow> map_option Some (bufs s a))"

definition md_entryCount :: "'m metadata_lib \<Rightarrow> nat \<Rightarrow> 'm md_state \<Rightarrow> nat option" where
  "md_entryCount lib i s =
     do { c \<leftarrow> cams s i;
          m \<leftarrow> content (mBuffer c) s;
          Some (case m of None \<Rightarrow> 0 | Some m \<Rightarrow> lib_entry_count lib m) }"

definition md_isEmpty :: "'m metadata_lib \<Rightarrow> nat \<Rightarrow> 'm md_state \<Rightarrow> bool option" where
  "md_isEmpty lib i s = map_option (\<lambda>n. n = 0) (md_entryCount lib i s)"

text \<open>The capacities are 32 bit numbers in the library, so that twice a count does not wrap around a \<open>size_t\<close> of 64 bits.\<close>

definition new_capacity :: "nat \<Rightarrow> nat \<Rightarrow> nat \<Rightarrow> nat" where
  "new_capacity count extra cap = (if cap < count + extra then (count + extra) * 2 else cap)"

text \<open>When the larger buffer cannot be allocated the old one is neither kept nor freed.\<close>

definition md_resizeIfNeeded ::
  "'m metadata_lib \<Rightarrow> nat \<Rightarrow> nat \<Rightarrow> nat \<Rightarrow> 'm md_state \<Rightarrow> (int \<times> 'm md_state) option" where
  "md_resizeIfNeeded lib i extraEntries extraData s =
     do { c \<leftarrow> cams s i;
          case mBuffer c of
            None \<Rightarrow>
              (let (p, s1) = md_new_buffer lib (lib_empty lib (extraEntries * 2) (extraData * 2)) s
               in Some (if p = None then NO_MEMORY_st else 0, put_cam i (c\<lparr>mBuffer := p\<rparr>) s1))
          | Some a \<Rightarrow>
              do { m \<leftarrow> bufs s a;
                   let newEntryCount = new_capacity (lib_entry_count lib m) extraEntries (lib_entry_capacity lib m);
                       newDataCount = new_capacity (lib_data_count lib m) extraData (lib_data_capacity lib m)
                   in if lib_entry_capacity lib m < newEntryCount \<or> lib_data_capacity lib m < newDataCount
                      then (let new = lib_empty lib newEntryCount newDataCount;
                                (p, s1) = md_new_buffer lib new s
                            in case p of
                                 None \<Rightarrow> Some (NO_MEMORY_st, put_cam i (c\<lparr>mBuffer := None\<rparr>) s1)
                               | Some b \<Rightarrow>
                                   do { s2 \<leftarrow> free_camera_metadata a (put_buf b (snd (lib_append lib new m)) s1);
                                        Some (0, put_cam i (c\<lparr>mBuffer := Some b\<rparr>) s2) })
                      else Some (0, s) } }"

definition md_append_raw :: "'m metadata_lib \<Rightarrow> nat \<Rightarrow> ptr \<Rightarrow> 'm md_state \<Rightarrow> (int \<times> 'm md_state) option" where
  "md_append_raw lib i other s =
     do { c \<leftarrow> cams s i;
          if mLocked c then Some (INVALID_OPERATION_st, s)
          else do { om \<leftarrow> content other s;
                    (entries, data) \<leftarrow>
                      (case om of None \<Rightarrow> map_option (\<lambda>n. (n, n)) (null_count lib)
                       | Some m \<Rightarrow> Some (lib_entry_count lib m, lib_data_count lib m));
                    (_, s1) \<leftarrow> md_resizeIfNeeded lib i entries data s;
                    c1 \<leftarrow> cams s1 i;
                    om1 \<leftarrow> content other s1;
                    case (mBuffer c1, om1) of
                      (Some a, Some m) \<Rightarrow>
                        do { dst \<leftarrow> bufs s1 a;
                             let (res, dst') = lib_append lib dst m;
                             Some (res, put_buf a dst' s1) }
                    | _ \<Rightarrow> map_option (\<lambda>e. (e, s1)) (null_append lib) } }"

definition md_append :: "'m metadata_lib \<Rightarrow> nat \<Rightarrow> nat \<Rightarrow> 'm md_state \<Rightarrow> (int \<times> 'm md_state) option" where
  "md_append lib i other s = do { c \<leftarrow> cams s other; md_append_raw lib i (mBuffer c) s }"

definition md_sort :: "'m metadata_lib \<Rightarrow> nat \<Rightarrow> 'm md_state \<Rightarrow> (int \<times> 'm md_state) option" where
  "md_sort lib i s =
     do { c \<leftarrow> cams s i;
          if mLocked c then Some (INVALID_OPERATION_st, s)
          else (case mBuffer c of
                  None \<Rightarrow> map_option (\<lambda>e. (e, s)) (null_sort lib)
                | Some a \<Rightarrow> do { m \<leftarrow> bufs s a; let (res, m') = lib_sort lib m; Some (res, put_buf a m' s) }) }"

definition md_checkType :: "'m metadata_lib \<Rightarrow> tag \<Rightarrow> md_type \<Rightarrow> int" where
  "md_checkType lib t expectedType =
     (case lib_tag_type lib t of
        None \<Rightarrow> INVALID_OPERATION_st
      | Some tagType \<Rightarrow> if tagType \<noteq> expectedType then INVALID_OPERATION_st else 0)"

text \<open>\<open>inside\<close> is whether the data lie in the buffer of the object itself.\<close>

definition md_updateImpl ::
  "'m metadata_lib \<Rightarrow> nat \<Rightarrow> tag \<Rightarrow> md_data \<Rightarrow> bool \<Rightarrow> 'm md_state \<Rightarrow> (int \<times> 'm md_state) option" where
  "md_updateImpl lib i t d inside s =
     do { c \<leftarrow> cams s i;
          if mLocked c then Some (INVALID_OPERATION_st, s)
          else (case lib_tag_type lib t of
                  None \<Rightarrow> Some (BAD_VALUE_st, s)
                | Some type \<Rightarrow>
                    if inside then Some (INVALID_OPERATION_st, s)
                    else do { (res, s1) \<leftarrow> md_resizeIfNeeded lib i 1 (lib_data_size lib type d) s;
                              if res \<noteq> 0 then Some (res, s1)
                              else do { c1 \<leftarrow> cams s1 i;
                                        a \<leftarrow> mBuffer c1;
                                        m \<leftarrow> bufs s1 a;
                                        case lib_find lib m t of
                                          Inl e \<Rightarrow>
                                            if e = NAME_NOT_FOUND_st
                                            then (let (r, m') = lib_add lib m t d in Some (r, put_buf a m' s1))
                                            else Some (e, s1)
                                        | Inr (index, _) \<Rightarrow>
                                            (let (r, m') = lib_update lib m index d in Some (r, put_buf a m' s1)) } }) }"

text \<open>The overloads of \<open>update\<close>: the type that is expected, and a string with its final NUL.\<close>

fun md_type_of :: "md_data \<Rightarrow> md_type" where
  "md_type_of (Int32s _) = TYPE_INT32"
| "md_type_of (Bytes _) = TYPE_BYTE"
| "md_type_of (Floats _) = TYPE_FLOAT"
| "md_type_of (Int64s _) = TYPE_INT64"
| "md_type_of (Doubles _) = TYPE_DOUBLE"
| "md_type_of (Rationals _) = TYPE_RATIONAL"
| "md_type_of (String8 _) = TYPE_BYTE"

fun md_raw :: "md_data \<Rightarrow> md_data" where
  "md_raw (String8 s) = Bytes (map of_char s @ [0])"
| "md_raw d = d"

definition md_update ::
  "'m metadata_lib \<Rightarrow> nat \<Rightarrow> tag \<Rightarrow> md_data \<Rightarrow> bool \<Rightarrow> 'm md_state \<Rightarrow> (int \<times> 'm md_state) option" where
  "md_update lib i t d inside s =
     do { c \<leftarrow> cams s i;
          if mLocked c then Some (INVALID_OPERATION_st, s)
          else if md_checkType lib t (md_type_of d) \<noteq> 0 then Some (md_checkType lib t (md_type_of d), s)
          else md_updateImpl lib i t (md_raw d) inside s }"

definition md_find_content :: "'m metadata_lib \<Rightarrow> 'm option \<Rightarrow> tag \<Rightarrow> (int + nat \<times> md_data) option" where
  "md_find_content lib m t = (case m of None \<Rightarrow> map_option Inl (null_find lib) | Some m \<Rightarrow> Some (lib_find lib m t))"

definition md_exists :: "'m metadata_lib \<Rightarrow> nat \<Rightarrow> tag \<Rightarrow> 'm md_state \<Rightarrow> bool option" where
  "md_exists lib i t s =
     do { c \<leftarrow> cams s i; m \<leftarrow> content (mBuffer c) s; r \<leftarrow> md_find_content lib m t;
          Some (case r of Inl e \<Rightarrow> e = 0 | Inr _ \<Rightarrow> True) }"

text \<open>An entry with the count 0 is None.\<close>

definition md_find_const :: "'m metadata_lib \<Rightarrow> nat \<Rightarrow> tag \<Rightarrow> 'm md_state \<Rightarrow> md_data option option" where
  "md_find_const lib i t s =
     do { c \<leftarrow> cams s i; m \<leftarrow> content (mBuffer c) s; r \<leftarrow> md_find_content lib m t;
          Some (case r of Inl e \<Rightarrow> None | Inr (_, d) \<Rightarrow> Some d) }"

definition md_find :: "'m metadata_lib \<Rightarrow> nat \<Rightarrow> tag \<Rightarrow> 'm md_state \<Rightarrow> md_data option option" where
  "md_find lib i t s =
     do { c \<leftarrow> cams s i; if mLocked c then Some None else md_find_const lib i t s }"

definition md_erase :: "'m metadata_lib \<Rightarrow> nat \<Rightarrow> tag \<Rightarrow> 'm md_state \<Rightarrow> (int \<times> 'm md_state) option" where
  "md_erase lib i t s =
     do { c \<leftarrow> cams s i;
          if mLocked c then Some (INVALID_OPERATION_st, s)
          else do { m \<leftarrow> content (mBuffer c) s;
                    r \<leftarrow> md_find_content lib m t;
                    case r of
                      Inl e \<Rightarrow> Some (if e = NAME_NOT_FOUND_st then 0 else e, s)
                    | Inr (index, _) \<Rightarrow>
                        (case (mBuffer c, m) of
                           (Some a, Some m) \<Rightarrow> (let (res, m') = lib_delete lib m index in Some (res, put_buf a m' s))
                         | _ \<Rightarrow> None) } }"

section \<open>Parcels\<close>

definition align_to :: "int \<Rightarrow> int \<Rightarrow> int" where
  "align_to val al = and (val + (al - 1)) (not (al - 1))"

definition blob_at :: "nat \<Rightarrow> nat \<Rightarrow> 8 word list \<Rightarrow> int \<Rightarrow> 8 word list" where
  "blob_at blobSize al img a =
     (let off = nat (align_to a (int al) - a)
      in replicate off 0 @ img @ replicate (blobSize - off - length img) 0)"

text \<open>The result of \<open>writeBlob\<close> is replaced by that of writing the offset.\<close>

definition md_write_buffer :: "'m metadata_lib \<Rightarrow> 'p parcel \<Rightarrow> 'm option \<Rightarrow> 'p writer" where
  "md_write_buffer lib P m =
     (case m of
        None \<Rightarrow> wr_int32 P 0
      | Some m \<Rightarrow>
          (let blobSize = length (lib_image lib m) + lib_alignment lib
           in wr_then (wr_int32 P (of_nat blobSize)) (\<lambda>p.
                case write_blob P blobSize (blob_at blobSize (lib_alignment lib) (lib_image lib m)) p of
                  (Inl e, p') \<Rightarrow> wr_int32 P 0 p'
                | (Inr a, p') \<Rightarrow> wr_int32 P (of_int (align_to a (int (lib_alignment lib)) - a)) p')))"

text \<open>\<open>W\<close> is the width of \<open>size_t\<close>. What is read is copied into a new buffer if the library accepts it, which is
  the result; the bytes outside the blob are undefined.\<close>

definition md_read_blob :: "'m metadata_lib \<Rightarrow> nat \<Rightarrow> 'p parcel \<Rightarrow> nat \<Rightarrow> ('p, 'm option) reader" where
  "md_read_blob lib W P blobSize p =
     (case read_blob P blobSize p of
        (Inl e, p') \<Rightarrow> Some (Inl e, p')
      | (Inr blob, p') \<Rightarrow>
          rd_then (rd_int32 P) (\<lambda>offsetTmp.
            let offset = nat (sint offsetTmp mod 2 ^ W); metadataSize = blobSize - lib_alignment lib
            in if lib_alignment lib \<le> offset then rd_fail BAD_VALUE_st
               else if length blob < offset + metadataSize then rd_undefined
               else (case lib_check lib (take metadataSize (drop offset blob)) of
                       None \<Rightarrow> rd_fail BAD_VALUE_st
                     | Some m \<Rightarrow> rd_return (Some m))) p')"

definition md_read_buffer :: "'m metadata_lib \<Rightarrow> nat \<Rightarrow> 'p parcel \<Rightarrow> ('p, 'm option) reader" where
  "md_read_buffer lib W P =
     rd_then (rd_int32 P) (\<lambda>blobSizeTmp.
       let blobSize = nat (sint blobSizeTmp mod 2 ^ W)
       in if blobSize = 0 then rd_return None
          else if blobSize \<le> lib_alignment lib then rd_fail BAD_VALUE_st
          else md_read_blob lib W P blobSize)"

definition md_writeToParcel :: "'m metadata_lib \<Rightarrow> 'p parcel \<Rightarrow> nat \<Rightarrow> 'm md_state \<Rightarrow> 'p writer" where
  "md_writeToParcel lib P i s p =
     do { c \<leftarrow> cams s i; m \<leftarrow> content (mBuffer c) s; md_write_buffer lib P m p }"

text \<open>No memory for the copy is an error like a structure that is not valid.\<close>

definition md_readFromParcel ::
  "'m metadata_lib \<Rightarrow> nat \<Rightarrow> 'p parcel \<Rightarrow> nat \<Rightarrow> 'm md_state \<Rightarrow> 'p \<Rightarrow> (int \<times> 'm md_state \<times> 'p) option" where
  "md_readFromParcel lib W P i s p =
     do { c \<leftarrow> cams s i;
          if mLocked c then Some (INVALID_OPERATION_st, s, p)
          else do { (r, p') \<leftarrow> md_read_buffer lib W P p;
                    case r of
                      Inl e \<Rightarrow> Some (e, s, p')
                    | Inr None \<Rightarrow> do { s1 \<leftarrow> md_clear i s; Some (0, s1, p') }
                    | Inr (Some m) \<Rightarrow>
                        (let (b, s1) = md_new_buffer lib m s
                         in if b = None then Some (BAD_VALUE_st, s1, p')
                            else do { s2 \<leftarrow> md_clear i s1;
                                      Some (0, put_cam i (c\<lparr>mBuffer := b\<rparr>) s2, p') }) } }"

section \<open>Who owns a buffer\<close>

text \<open>\<open>R\<close> are the buffers of the client.\<close>

definition owns :: "'m md_state \<Rightarrow> nat \<Rightarrow> nat \<Rightarrow> bool" where
  "owns s i a \<longleftrightarrow> (\<exists>c. cams s i = Some c \<and> mBuffer c = Some a)"

definition owned :: "nat set \<Rightarrow> 'm md_state \<Rightarrow> bool" where
  "owned R s \<longleftrightarrow>
     finite (dom (bufs s)) \<and> R \<subseteq> dom (bufs s) \<and> (\<forall>i a. owns s i a \<longrightarrow> a \<in> dom (bufs s) - R) \<and>
     (\<forall>i j a. owns s i a \<longrightarrow> owns s j a \<longrightarrow> i = j) \<and> (\<forall>a \<in> dom (bufs s) - R. \<exists>i. owns s i a)"

text \<open>What a lock promises: the object and the content of its buffer stay as they are.\<close>

definition kept :: "nat \<Rightarrow> 'm md_state \<Rightarrow> 'm md_state \<Rightarrow> bool" where
  "kept i s s' \<longleftrightarrow>
     (\<forall>c. cams s i = Some c \<longrightarrow> mLocked c \<longrightarrow> cams s' i = Some c \<and> content (mBuffer c) s' = content (mBuffer c) s)"

definition step_ok :: "nat set \<Rightarrow> 'm md_state \<Rightarrow> nat set \<Rightarrow> 'm md_state \<Rightarrow> bool" where
  "step_ok R s R' s' \<longleftrightarrow> owned R' s' \<and> (\<forall>i. kept i s s')"

lemma step_okI: "owned R' s' \<Longrightarrow> (\<And>i. kept i s s') \<Longrightarrow> step_ok R s R' s'"
  by (simp add: step_ok_def)

lemma kept_refl [simp]: "kept i s s"
  by (simp add: kept_def)

lemma kept_trans: "kept i s s' \<Longrightarrow> kept i s' s'' \<Longrightarrow> kept i s s''"
  unfolding kept_def by fastforce

lemma step_refl: "owned R s \<Longrightarrow> step_ok R s R s"
  by (simp add: step_ok_def)

lemma step_trans: "step_ok R s R' s' \<Longrightarrow> step_ok R' s' R'' s'' \<Longrightarrow> step_ok R s R'' s''"
  unfolding step_ok_def by (blast intro: kept_trans)

lemma owned_dom: "owned R s \<Longrightarrow> owns s i a \<Longrightarrow> bufs s a \<noteq> None"
  by (auto simp: owned_def)

lemma owns_put_cam [simp]: "owns (put_cam j c s) i a \<longleftrightarrow> (if i = j then mBuffer c = Some a else owns s i a)"
  by (auto simp: owns_def put_cam_def)

lemma owns_put_buf [simp]: "owns (put_buf b m s) i a = owns s i a"
  by (simp add: owns_def put_buf_def)

lemma put_sel [simp]: "bufs (put_cam i c s) = bufs s" "cams (put_buf a m s) = cams s"
  "cams (put_cam i c s) = (cams s)(i := Some c)" "bufs (put_buf a m s) = (bufs s)(a := Some m)"
  by (simp_all add: put_cam_def put_buf_def)

lemma content_put_cam [simp]: "content p (put_cam i c s) = content p s"
  by (cases p) (simp_all add: content_def put_cam_def)

lemma ownedI:
  assumes "finite (dom (bufs s))" "R \<subseteq> dom (bufs s)" "\<And>i a. owns s i a \<Longrightarrow> a \<in> dom (bufs s) \<and> a \<notin> R"
    "\<And>i j a. owns s i a \<Longrightarrow> owns s j a \<Longrightarrow> i = j" "\<And>a. a \<in> dom (bufs s) \<Longrightarrow> a \<notin> R \<Longrightarrow> \<exists>i. owns s i a"
  shows "owned R s"
  using assms unfolding owned_def by blast

lemma ownedD:
  assumes "owned R s"
  shows "finite (dom (bufs s))" "R \<subseteq> dom (bufs s)" "owns s i a \<Longrightarrow> a \<in> dom (bufs s)" "owns s i a \<Longrightarrow> a \<notin> R"
    "owns s i a \<Longrightarrow> owns s j a \<Longrightarrow> i = j" "a \<in> dom (bufs s) \<Longrightarrow> a \<notin> R \<Longrightarrow> \<exists>i. owns s i a"
  using assms unfolding owned_def by blast+

lemma keptI:
  assumes "\<And>c. cams s i = Some c \<Longrightarrow> mLocked c \<Longrightarrow> cams s' i = Some c"
    "\<And>c a. cams s i = Some c \<Longrightarrow> mLocked c \<Longrightarrow> mBuffer c = Some a \<Longrightarrow> bufs s' a = bufs s a"
  shows "kept i s s'"
  using assms unfolding kept_def content_def by (auto split: option.split)

text \<open>The elementary steps.\<close>

lemma step_new_buffer:
  assumes "owned R s" "bufs s a = None"
  shows "step_ok R s (insert a R) (put_buf a m s)"
proof (rule step_okI)
  note o = ownedD [OF assms(1)]
  have no: "\<not> owns s i a" for i using o(3) [of i a] assms(2) by auto
  show "owned (insert a R) (put_buf a m s)"
    by (rule ownedI) (use o no assms(2) in \<open>auto simp: domIff\<close>)
  show "kept i s (put_buf a m s)" for i by (rule keptI) (use no [of i] in \<open>auto simp: owns_def\<close>)
qed

lemma step_put_buf:
  assumes "owned R s" "a \<in> R \<or> (\<exists>i c. cams s i = Some c \<and> mBuffer c = Some a \<and> \<not> mLocked c)"
  shows "step_ok R s R (put_buf a m s)"
proof (rule step_okI)
  note o = ownedD [OF assms(1)]
  have dom: "a \<in> dom (bufs s)" using assms(2) o(2,3) by (fastforce simp: owns_def)
  then have dom': "dom (bufs (put_buf a m s)) = dom (bufs s)" by auto
  show "owned R (put_buf a m s)" by (rule ownedI; unfold dom' owns_put_buf; use o in blast)
  have no: "mBuffer c \<noteq> Some a" if c: "cams s i = Some c" "mLocked c" for i c
  proof
    assume "mBuffer c = Some a"
    with c have own: "owns s i a" by (simp add: owns_def)
    with assms(2) o(4) obtain j d where "cams s j = Some d" "mBuffer d = Some a" "\<not> mLocked d" by blast
    with o(5) [OF own, of j] c show False by (auto simp: owns_def)
  qed
  show "kept i s (put_buf a m s)" for i by (rule keptI) (use no in auto)
qed

lemma step_free_raw:
  assumes "owned R s" "a \<in> R"
  shows "\<exists>s'. free_camera_metadata a s = Some s' \<and> step_ok R s (R - {a}) s' \<and> cams s' = cams s"
proof -
  note o = ownedD [OF assms(1)]
  from assms(2) o(2) have dom: "bufs s a \<noteq> None" by auto
  let ?s = "s\<lparr>bufs := (bufs s)(a := None)\<rparr>"
  have own: "owns ?s i b = owns s i b" for i b by (simp add: owns_def)
  have no: "\<not> owns s i a" for i using o(4) assms(2) by blast
  have "owned (R - {a}) ?s" by (rule ownedI) (use o no own in auto)
  moreover have "kept i s ?s" for i by (rule keptI) (use no [of i] in \<open>auto simp: owns_def\<close>)
  ultimately show ?thesis using dom by (simp add: free_camera_metadata_def step_okI)
qed

lemma step_give:
  assumes "owned R s" "cams s i = Some c" "\<not> mLocked c" "mBuffer c = None" "a \<in> R"
  shows "step_ok R s (R - {a}) (put_cam i (c\<lparr>mBuffer := Some a\<rparr>) s)"
proof (rule step_okI)
  note o = ownedD [OF assms(1)]
  have no: "\<not> owns s i b" for b using assms(2,4) by (simp add: owns_def)
  have na: "\<not> owns s j a" for j using o(4) assms(5) by blast
  let ?s = "put_cam i (c\<lparr>mBuffer := Some a\<rparr>) s"
  have ow: "owns ?s j b \<longleftrightarrow> j = i \<and> b = a \<or> owns s j b" for j b using no by auto
  show "owned (R - {a}) ?s"
  proof (rule ownedI)
    show "\<exists>j. owns ?s j b" if "b \<in> dom (bufs ?s)" "b \<notin> R - {a}" for b
      unfolding ow using that o(6) [of b] by auto
  qed (use o no na assms(5) in \<open>auto simp: ow simp del: owns_put_cam\<close>)
  show "kept j s ?s" for j by (rule keptI) (use assms in auto)
qed

lemma step_take:
  assumes "owned R s" "cams s i = Some c" "\<not> mLocked c" "mBuffer c = Some a"
  shows "step_ok R s (insert a R) (put_cam i (c\<lparr>mBuffer := None\<rparr>) s)"
proof (rule step_okI)
  note o = ownedD [OF assms(1)]
  have own: "owns s i b \<longleftrightarrow> b = a" for b using assms(2,4) by (auto simp: owns_def)
  let ?s = "put_cam i (c\<lparr>mBuffer := None\<rparr>) s"
  have ow: "owns ?s j b \<longleftrightarrow> j \<noteq> i \<and> owns s j b" for j b by auto
  have ai: "owns s j a \<Longrightarrow> j = i" for j using o(5) [of j a i] own by blast
  show "owned (insert a R) ?s"
  proof (rule ownedI)
    show "\<exists>j. owns ?s j b" if "b \<in> dom (bufs ?s)" "b \<notin> insert a R" for b
      unfolding ow using that o(6) [of b] own by fastforce
    show "b \<in> dom (bufs ?s) \<and> b \<notin> insert a R" if "owns ?s j b" for j b
      using that o(3) [of j b] o(4) [of j b] ai [of j] unfolding ow by auto
    show "insert a R \<subseteq> dom (bufs ?s)" using o(2) o(3) [of i a] own by auto
    show "j = k" if "owns ?s j b" "owns ?s k b" for j k b using that o(5) unfolding ow by blast
  qed (use o(1) in simp)
  show "kept j s ?s" for j by (rule keptI) (use assms in auto)
qed

lemma step_new_cam:
  assumes "owned R s" "cams s i = None"
  shows "step_ok R s R (put_cam i \<lparr>mBuffer = None, mLocked = l\<rparr> s)"
proof (rule step_okI)
  note o = ownedD [OF assms(1)]
  have no: "\<not> owns s i b" for b using assms(2) by (simp add: owns_def)
  let ?s = "put_cam i \<lparr>mBuffer = None, mLocked = l\<rparr> s"
  have ow: "owns ?s j b \<longleftrightarrow> owns s j b" for j b using no by auto
  show "owned R ?s" by (rule ownedI) (use o in \<open>simp_all add: ow del: owns_put_cam\<close>)
  show "kept j s ?s" for j by (rule keptI) (use assms in auto)
qed

lemma step_lock:
  assumes "owned R s" "cams s i = Some c"
  shows "owned R (put_cam i (c\<lparr>mLocked := l\<rparr>) s)"
    "j \<noteq> i \<or> l \<or> \<not> mLocked c \<Longrightarrow> kept j s (put_cam i (c\<lparr>mLocked := l\<rparr>) s)"
proof -
  note o = ownedD [OF assms(1)]
  have ow: "owns (put_cam i (c\<lparr>mLocked := l\<rparr>) s) j b \<longleftrightarrow> owns s j b" for j b
    using assms(2) by (auto simp: owns_def put_cam_def)
  show "owned R (put_cam i (c\<lparr>mLocked := l\<rparr>) s)"
    by (rule ownedI) (use o in \<open>simp_all add: ow del: owns_put_cam\<close>)
  show "j \<noteq> i \<or> l \<or> \<not> mLocked c \<Longrightarrow> kept j s (put_cam i (c\<lparr>mLocked := l\<rparr>) s)"
    by (rule keptI) (use assms(2) in \<open>auto split: if_splits\<close>)
qed

section \<open>Operations on owned buffers\<close>

lemma put_cam_put_cam [simp]: "put_cam i c (put_cam i d s) = put_cam i c s"
  by (simp add: put_cam_def)

lemma put_cam_triv [simp]: "cams s i = Some c \<Longrightarrow> put_cam i c s = s"
  by (simp add: put_cam_def fun_upd_idem)

lemma free_put_cam: "free_camera_metadata a (put_cam i c s) = map_option (put_cam i c) (free_camera_metadata a s)"
  by (simp add: free_camera_metadata_def put_cam_def)

lemma step_give_ptr:
  assumes "owned R s" "cams s i = Some c" "\<not> mLocked c" "mBuffer c = None" "set_option p \<subseteq> R"
  shows "step_ok R s (R - set_option p) (put_cam i (c\<lparr>mBuffer := p\<rparr>) s)"
proof (cases p)
  case None
  then have "put_cam i (c\<lparr>mBuffer := p\<rparr>) s = s" using assms(2,4) by simp
  with None assms(1) show ?thesis by (simp add: step_refl)
next
  case (Some a)
  with assms(5) have "a \<in> R" by simp
  from step_give [OF assms(1-4) this] Some show ?thesis by simp
qed

text \<open>An object frees its buffer and takes another one of the client.\<close>

lemma step_replace:
  assumes "owned R s" "cams s i = Some c" "\<not> mLocked c" "mBuffer c = Some a" "set_option p \<subseteq> R"
  shows "\<exists>s'. free_camera_metadata a s = Some s' \<and> step_ok R s (R - set_option p) (put_cam i (c\<lparr>mBuffer := p\<rparr>) s')"
proof -
  let ?s1 = "put_cam i (c\<lparr>mBuffer := None\<rparr>) s"
  have t: "step_ok R s (insert a R) ?s1" using assms(1-4) by (rule step_take)
  then have o1: "owned (insert a R) ?s1" by (simp add: step_ok_def)
  have "owns s i a" using assms(2,4) by (simp add: owns_def)
  then have na: "a \<notin> R" using ownedD(4) [OF assms(1)] by blast
  obtain s2 where f: "free_camera_metadata a ?s1 = Some s2" "step_ok (insert a R) ?s1 R s2" "cams s2 = cams ?s1"
    using step_free_raw [OF o1] na by fastforce
  then obtain s' where s': "free_camera_metadata a s = Some s'" "s2 = put_cam i (c\<lparr>mBuffer := None\<rparr>) s'"
    by (auto simp: free_put_cam)
  have c2: "cams s2 i = Some (c\<lparr>mBuffer := None\<rparr>)" using f(3) by simp
  from f(2) have "owned R s2" by (simp add: step_ok_def)
  from step_give_ptr [OF this c2, of p] assms(3,5)
  have "step_ok R s2 (R - set_option p) (put_cam i (c\<lparr>mBuffer := p\<rparr>) s2)" by simp
  with t f(2) have "step_ok R s (R - set_option p) (put_cam i (c\<lparr>mBuffer := p\<rparr>) s2)" by (blast intro: step_trans)
  with s' show ?thesis by simp
qed

lemma step_clear_then:
  assumes "owned R s" "cams s i = Some c" "\<not> mLocked c" "set_option p \<subseteq> R"
  shows "\<exists>s'. md_clear i s = Some s' \<and> step_ok R s (R - set_option p) (put_cam i (c\<lparr>mBuffer := p\<rparr>) s')"
proof (cases "mBuffer c")
  case None
  with step_give_ptr [OF assms(1-3) None assms(4)] assms show ?thesis by (simp add: md_clear_def)
next
  case (Some a)
  with step_replace [OF assms(1-3) Some assms(4)] assms(2,3) show ?thesis by (auto simp: md_clear_def)
qed

lemma step_clear:
  assumes "owned R s" "cams s i = Some c"
  shows "\<exists>s'. md_clear i s = Some s' \<and> step_ok R s R s' \<and> (\<not> mLocked c \<longrightarrow> cams s' i = Some (c\<lparr>mBuffer := None\<rparr>))"
proof (cases "mLocked c")
  case True
  with assms show ?thesis by (simp add: md_clear_def step_refl)
next
  case False
  from step_clear_then [OF assms False, of None] obtain s' where
    s': "md_clear i s = Some s'" "step_ok R s R (put_cam i (c\<lparr>mBuffer := None\<rparr>) s')" by auto
  from s'(1) assms(2) False have "cams s' i = Some (c\<lparr>mBuffer := None\<rparr>)"
    by (auto simp: md_clear_def split: option.splits)
  with s' show ?thesis by simp
qed

lemma step_acquire_raw:
  assumes "owned R s" "cams s i = Some c" "set_option p \<subseteq> R"
  shows "\<exists>s'. md_acquire_raw i p s = Some s' \<and> step_ok R s (if mLocked c then R else R - set_option p) s'"
  using step_clear_then [OF assms(1,2) _ assms(3)] assms(1,2) by (auto simp: md_acquire_raw_def step_refl)

lemma step_release:
  assumes "owned R s" "cams s i = Some c"
  shows "\<exists>p s'. md_release i s = Some (p, s') \<and> step_ok R s (R \<union> set_option p) s' \<and> set_option p \<inter> R = {}"
proof (cases "mLocked c \<or> mBuffer c = None")
  case True
  with assms show ?thesis by (auto simp: md_release_def step_refl)
next
  case False
  then obtain a where a: "mBuffer c = Some a" "\<not> mLocked c" by auto
  moreover have "a \<notin> R" using ownedD(4) [OF assms(1), of i a] assms(2) a by (simp add: owns_def)
  ultimately show ?thesis using step_take [OF assms, of a] assms(2) by (auto simp: md_release_def)
qed

text \<open>
  \<open>lib_sound\<close>: memory that the library finds is not in use, and it tells a NULL pointer from a buffer when one is
  looked up or sorted, and also when one is appended to if memory can run out at all. \<open>lib_robust\<close>: it always
  finds memory.
\<close>

definition lib_sound :: "'m metadata_lib \<Rightarrow> bool" where
  "lib_sound lib \<longleftrightarrow>
     (\<forall>b a. finite (dom b) \<longrightarrow> lib_fresh lib b = Some a \<longrightarrow> b a = None) \<and>
     null_find lib \<noteq> None \<and> null_sort lib \<noteq> None \<and>
     (\<forall>b. finite (dom b) \<longrightarrow> lib_fresh lib b = None \<longrightarrow> null_append lib \<noteq> None)"

definition lib_robust :: "'m metadata_lib \<Rightarrow> bool" where
  "lib_robust lib \<longleftrightarrow>
     (\<forall>b. finite (dom b) \<longrightarrow> (\<exists>a. lib_fresh lib b = Some a \<and> b a = None)) \<and>
     null_find lib \<noteq> None \<and> null_sort lib \<noteq> None"

lemma robust_sound: "lib_robust lib \<Longrightarrow> lib_sound lib"
  unfolding lib_robust_def lib_sound_def by (metis option.distinct(1) option.inject)

lemma robust_fresh: "lib_robust lib \<Longrightarrow> owned R s \<Longrightarrow> lib_fresh lib (bufs s) \<noteq> None"
  using ownedD(1) unfolding lib_robust_def by (metis option.distinct(1))

lemma step_allocate:
  assumes "lib_sound lib" "owned R s" "lib_fresh lib (bufs s) \<noteq> None"
  shows "\<exists>a. md_new_buffer lib m s = (Some a, put_buf a m s) \<and> a \<notin> R \<and> bufs s a = None \<and>
    step_ok R s (insert a R) (put_buf a m s)"
proof -
  from assms ownedD(1) [OF assms(2)] obtain a where a: "lib_fresh lib (bufs s) = Some a" "bufs s a = None"
    by (auto simp: lib_sound_def)
  have "a \<notin> R" using ownedD(2) [OF assms(2)] a(2) by auto
  with a step_new_buffer [OF assms(2) a(2), of m] show ?thesis by (simp add: md_new_buffer_def put_buf_def)
qed

lemma no_memory: "lib_fresh lib (bufs s) = None \<Longrightarrow> md_new_buffer lib m s = (None, s)"
  by (simp add: md_new_buffer_def)

lemma step_clone:
  assumes "lib_sound lib" "owned R s" "set_option p \<subseteq> dom (bufs s)"
  shows "\<exists>q s'. clone_camera_metadata lib p s = Some (q, s') \<and> step_ok R s (R \<union> set_option q) s' \<and>
    set_option q \<inter> R = {} \<and> cams s' = cams s"
proof (cases "p = None \<or> lib_fresh lib (bufs s) = None")
  case True
  with assms show ?thesis by (cases p) (auto simp: clone_camera_metadata_def step_refl no_memory)
next
  case False
  with assms(3) obtain a m where "p = Some a" "bufs s a = Some m" by auto
  with False step_allocate [OF assms(1,2), of "lib_clone lib m"] show ?thesis
    by (auto simp: clone_camera_metadata_def)
qed

lemma owned_buffer:
  assumes "owned R s" "cams s i = Some c"
  shows "set_option (mBuffer c) \<subseteq> dom (bufs s)"
  using ownedD(3) [OF assms(1), of i] assms(2) by (auto simp: owns_def)

lemma step_assign_raw:
  assumes "lib_sound lib" "owned R s" "cams s i = Some c" "set_option p \<subseteq> dom (bufs s)"
  shows "\<exists>s'. md_assign_raw lib i p s = Some s' \<and> step_ok R s R s'"
proof (cases "mLocked c \<or> p = mBuffer c")
  case True
  with assms show ?thesis by (auto simp: md_assign_raw_def step_refl)
next
  case False
  from step_clone [OF assms(1,2,4)] obtain q s1 where q: "clone_camera_metadata lib p s = Some (q, s1)"
    "step_ok R s (R \<union> set_option q) s1" "set_option q \<inter> R = {}" "cams s1 = cams s" by blast
  have "owned (R \<union> set_option q) s1" using q(2) by (simp add: step_ok_def)
  moreover have "cams s1 i = Some c" using q(4) assms(3) by simp
  ultimately obtain s2 where s2: "md_clear i s1 = Some s2"
    "step_ok (R \<union> set_option q) s1 (R \<union> set_option q - set_option q) (put_cam i (c\<lparr>mBuffer := q\<rparr>) s2)"
    using step_clear_then [of "R \<union> set_option q" s1 i c q] False by auto
  have "R \<union> set_option q - set_option q = R" using q(3) by blast
  with q(2) s2(2) have "step_ok R s R (put_cam i (c\<lparr>mBuffer := q\<rparr>) s2)" by (simp add: step_trans)
  with False q(1) s2(1) assms(3) show ?thesis by (simp add: md_assign_raw_def)
qed

text \<open>An object makes room for entries when there is memory, and loses its buffer when there is none.\<close>

lemma resize_no_memory:
  assumes "owned R s" "cams s i = Some c" "lib_fresh lib (bufs s) = None"
  shows "md_resizeIfNeeded lib i e d s = Some (0, s) \<and> mBuffer c \<noteq> None \<or>
    md_resizeIfNeeded lib i e d s = Some (NO_MEMORY_st, put_cam i (c\<lparr>mBuffer := None\<rparr>) s)"
proof (cases "mBuffer c")
  case None
  then have "c\<lparr>mBuffer := None\<rparr> = c" by simp
  with None assms show ?thesis by (simp add: md_resizeIfNeeded_def no_memory)
next
  case (Some a)
  with owned_buffer [OF assms(1,2)] obtain m where "bufs s a = Some m" by auto
  with Some assms show ?thesis by (simp add: md_resizeIfNeeded_def no_memory Let_def)
qed

lemma step_lose:
  assumes "owned R s" "cams s i = Some c" "\<not> mLocked c"
  shows "step_ok R s (R \<union> set_option (mBuffer c)) (put_cam i (c\<lparr>mBuffer := None\<rparr>) s) \<and>
    set_option (mBuffer c) \<inter> R = {}"
proof -
  obtain p s' where "md_release i s = Some (p, s')" "step_ok R s (R \<union> set_option p) s'" "set_option p \<inter> R = {}"
    using step_release [OF assms(1,2)] by blast
  with assms(2,3) show ?thesis by (simp add: md_release_def)
qed

lemma step_resize_room:
  assumes "lib_sound lib" "owned R s" "cams s i = Some c" "\<not> mLocked c" "lib_fresh lib (bufs s) \<noteq> None"
  shows "\<exists>s' a. md_resizeIfNeeded lib i e d s = Some (0, s') \<and> step_ok R s R s' \<and>
    cams s' i = Some (c\<lparr>mBuffer := Some a\<rparr>) \<and> (\<forall>b. bufs s b \<noteq> None \<longrightarrow> Some b \<noteq> mBuffer c \<longrightarrow> bufs s' b = bufs s b)"
proof (cases "mBuffer c")
  case None
  let ?m = "lib_empty lib (e * 2) (d * 2)"
  from step_allocate [OF assms(1,2,5), of ?m] obtain a where a: "md_new_buffer lib ?m s = (Some a, put_buf a ?m s)"
    "a \<notin> R" "bufs s a = None" "step_ok R s (insert a R) (put_buf a ?m s)" by blast
  then have "owned (insert a R) (put_buf a ?m s)" by (simp add: step_ok_def)
  from step_give [OF this _ assms(4) None, of i a] assms(3) a(2)
  have "step_ok (insert a R) (put_buf a ?m s) R (put_cam i (c\<lparr>mBuffer := Some a\<rparr>) (put_buf a ?m s))" by simp
  with a(4) have "step_ok R s R (put_cam i (c\<lparr>mBuffer := Some a\<rparr>) (put_buf a ?m s))" by (rule step_trans)
  with None a(1,3) assms(3) show ?thesis by (auto simp: md_resizeIfNeeded_def)
next
  case (Some a)
  with owned_buffer [OF assms(2,3)] obtain m where m: "bufs s a = Some m" by auto
  let ?n = "new_capacity (lib_entry_count lib m) e (lib_entry_capacity lib m)"
  let ?k = "new_capacity (lib_data_count lib m) d (lib_data_capacity lib m)"
  show ?thesis
  proof (cases "lib_entry_capacity lib m < ?n \<or> lib_data_capacity lib m < ?k")
    case False
    with Some m assms(2,3) show ?thesis
      by (intro exI [of _ s] exI [of _ a]) (simp add: md_resizeIfNeeded_def step_refl)
  next
    case True
    let ?e = "lib_empty lib ?n ?k"
    from step_allocate [OF assms(1,2,5), of ?e] obtain b where b: "md_new_buffer lib ?e s = (Some b, put_buf b ?e s)"
      "b \<notin> R" "bufs s b = None" "step_ok R s (insert b R) (put_buf b ?e s)" by blast
    let ?s1 = "put_buf b (snd (lib_append lib ?e m)) (put_buf b ?e s)"
    have "owned (insert b R) (put_buf b ?e s)" using b(4) by (simp add: step_ok_def)
    then have s1: "step_ok (insert b R) (put_buf b ?e s) (insert b R) ?s1" by (rule step_put_buf) simp
    then have "owned (insert b R) ?s1" by (simp add: step_ok_def)
    from step_replace [OF this _ assms(4) Some, of i "Some b"] assms(3) b(2) obtain s2 where
      s2: "free_camera_metadata a ?s1 = Some s2" "step_ok (insert b R) ?s1 R (put_cam i (c\<lparr>mBuffer := Some b\<rparr>) s2)"
      by auto
    from b(4) s1 s2(2) have "step_ok R s R (put_cam i (c\<lparr>mBuffer := Some b\<rparr>) s2)" by (blast intro: step_trans)
    moreover have "bufs s2 x = bufs s x" if "bufs s x \<noteq> None" "x \<noteq> a" for x
      using s2(1) that b(3) m by (auto simp: free_camera_metadata_def split: if_splits)
    ultimately show ?thesis
      using True Some m assms(3) b(1) s2(1)
      by (intro exI [of _ "put_cam i (c\<lparr>mBuffer := Some b\<rparr>) s2"] exI [of _ b]) (auto simp: md_resizeIfNeeded_def Let_def)
  qed
qed

text \<open>\<open>X\<close> is what the object has lost: its buffer or nothing, and nothing when there is memory.\<close>

definition lost :: "'m metadata_lib \<Rightarrow> 'm md_state \<Rightarrow> nat set \<Rightarrow> nat set \<Rightarrow> bool" where
  "lost lib s R X \<longleftrightarrow> X \<inter> R = {} \<and> finite X \<and> card X \<le> (if lib_fresh lib (bufs s) = None then 1 else 0)"

lemma lost_nothing [simp]: "lost lib s R {}"
  by (simp add: lost_def)

lemma lost_buffer: "lib_fresh lib (bufs s) = None \<Longrightarrow> set_option p \<inter> R = {} \<Longrightarrow> lost lib s R (set_option p)"
  by (cases p) (simp_all add: lost_def)

lemma step_resize:
  assumes "lib_sound lib" "owned R s" "cams s i = Some c" "\<not> mLocked c"
  obtains (room) s' a where "md_resizeIfNeeded lib i e d s = Some (0, s')" "step_ok R s R s'"
      "cams s' i = Some (c\<lparr>mBuffer := Some a\<rparr>)" "\<And>b. bufs s b \<noteq> None \<Longrightarrow> Some b \<noteq> mBuffer c \<Longrightarrow> bufs s' b = bufs s b"
    | (no_room) "md_resizeIfNeeded lib i e d s = Some (NO_MEMORY_st, put_cam i (c\<lparr>mBuffer := None\<rparr>) s)"
      "lib_fresh lib (bufs s) = None" "step_ok R s (R \<union> set_option (mBuffer c)) (put_cam i (c\<lparr>mBuffer := None\<rparr>) s)"
      "lost lib s R (set_option (mBuffer c))"
proof (cases "lib_fresh lib (bufs s) = None")
  case True
  from step_lose [OF assms(2-4)] have l: "step_ok R s (R \<union> set_option (mBuffer c)) (put_cam i (c\<lparr>mBuffer := None\<rparr>) s)"
    "lost lib s R (set_option (mBuffer c))" using lost_buffer [OF True] by blast+
  from resize_no_memory [OF assms(2,3) True, of e d] show thesis
  proof
    assume *: "md_resizeIfNeeded lib i e d s = Some (0, s) \<and> mBuffer c \<noteq> None"
    then obtain a where "mBuffer c = Some a" by blast
    then have "c\<lparr>mBuffer := Some a\<rparr> = c" by simp
    with * assms(2,3) show thesis by (intro room [of s a]) (simp_all add: step_refl)
  next
    assume "md_resizeIfNeeded lib i e d s = Some (NO_MEMORY_st, put_cam i (c\<lparr>mBuffer := None\<rparr>) s)"
    then show thesis using True l by (rule no_room)
  qed
next
  case False
  from step_resize_room [OF assms False] show thesis using room by metis
qed

lemma step_put_own:
  assumes "step_ok R s R s'" "cams s' i = Some c" "mBuffer c = Some a" "\<not> mLocked c"
  shows "step_ok R s R (put_buf a m s')"
proof -
  from assms(1) have "owned R s'" by (simp add: step_ok_def)
  then have "step_ok R s' R (put_buf a m s')" by (rule step_put_buf) (use assms(2-4) in blast)
  with assms(1) show ?thesis by (rule step_trans)
qed

lemma step_append_raw:
  assumes "lib_sound lib" "owned R s" "cams s i = Some c" "bufs s b \<noteq> None" "mBuffer c \<noteq> Some b"
  shows "\<exists>e s' X. md_append_raw lib i (Some b) s = Some (e, s') \<and> step_ok R s (R \<union> X) s' \<and> lost lib s R X"
proof (cases "mLocked c")
  case True
  with assms show ?thesis by (auto simp: md_append_raw_def step_refl intro: exI [of _ "{}"])
next
  case False
  from assms(4) obtain m where m: "bufs s b = Some m" by blast
  from assms(1-3) False show ?thesis
  proof (cases rule: step_resize [of lib R s i c "lib_entry_count lib m" "lib_data_count lib m"])
    case (room s' a)
    then have o: "owned R s'" by (simp add: step_ok_def)
    have b: "bufs s' b = Some m" using room(4) [of b] assms(5) m by fastforce
    from owned_buffer [OF o room(3)] obtain dst where "bufs s' a = Some dst" by auto
    moreover have "step_ok R s R (put_buf a (snd (lib_append lib dst m)) s')"
      using False by (intro step_put_own [OF room(2,3)]) simp_all
    ultimately show ?thesis
      using room b False m assms(3)
      by (intro exI [of _ "fst (lib_append lib dst m)"] exI [of _ "put_buf a (snd (lib_append lib dst m)) s'"] exI [of _ "{}"])
        (simp add: md_append_raw_def content_def split: prod.splits)
  next
    case no_room
    have "null_append lib \<noteq> None" using assms(1) no_room(2) ownedD(1) [OF assms(2)] by (auto simp: lib_sound_def)
    then obtain e where "null_append lib = Some e" by blast
    with no_room False m assms(3) show ?thesis
      by (intro exI [of _ e] exI [of _ "put_cam i (c\<lparr>mBuffer := None\<rparr>) s"] exI [of _ "set_option (mBuffer c)"])
        (simp add: md_append_raw_def content_def)
  qed
qed

lemma step_sort:
  assumes "lib_sound lib" "owned R s" "cams s i = Some c"
  shows "\<exists>e s'. md_sort lib i s = Some (e, s') \<and> step_ok R s R s'"
proof (cases "mLocked c \<or> mBuffer c = None")
  case True
  with assms show ?thesis by (auto simp: md_sort_def lib_sound_def step_refl)
next
  case False
  with owned_buffer [OF assms(2,3)] obtain a m where m: "mBuffer c = Some a" "bufs s a = Some m" by force
  moreover from step_put_own [OF step_refl [OF assms(2)] assms(3) m(1)] False
  have "step_ok R s R (put_buf a (snd (lib_sort lib m)) s)" by simp
  ultimately show ?thesis using False assms(3) by (auto simp: md_sort_def split: prod.splits)
qed

lemma step_update:
  assumes "lib_sound lib" "owned R s" "cams s i = Some c"
  shows "\<exists>e s' X. md_update lib i t d inside s = Some (e, s') \<and> step_ok R s (R \<union> X) s' \<and> lost lib s R X"
proof (cases "mLocked c \<or> md_checkType lib t (md_type_of d) \<noteq> 0 \<or> inside")
  case True
  then have "\<exists>e. md_update lib i t d inside s = Some (e, s)" using assms(3)
    by (auto simp: md_update_def md_updateImpl_def split: option.split)
  with step_refl [OF assms(2)] show ?thesis by (metis Un_empty_right lost_nothing)
next
  case False
  then obtain ty where ty: "lib_tag_type lib t = Some ty"
    by (auto simp: md_checkType_def INVALID_OPERATION_st_def split: option.splits)
  from False have u: "md_update lib i t d inside s = md_updateImpl lib i t (md_raw d) inside s" and l: "\<not> mLocked c"
    using assms(3) by (simp_all add: md_update_def)
  from assms l show ?thesis
  proof (cases rule: step_resize [of lib R s i c 1 "lib_data_size lib ty (md_raw d)"])
    case (room s' a)
    then have o: "owned R s'" by (simp add: step_ok_def)
    from owned_buffer [OF o room(3)] obtain m where m: "bufs s' a = Some m" by auto
    have p: "step_ok R s R (put_buf a m' s')" for m'
      using False by (intro step_put_own [OF room(2,3)]) simp_all
    have "\<exists>e s''. md_updateImpl lib i t (md_raw d) inside s = Some (e, s'') \<and> step_ok R s R s''"
      using False ty room(1-3) m p assms(3) by (auto simp: md_updateImpl_def split: sum.splits prod.splits)
    then obtain e s'' where "md_updateImpl lib i t (md_raw d) inside s = Some (e, s'')" "step_ok R s (R \<union> {}) s''" by auto
    with u show ?thesis by (metis lost_nothing)
  next
    case no_room
    have "md_updateImpl lib i t (md_raw d) inside s = Some (NO_MEMORY_st, put_cam i (c\<lparr>mBuffer := None\<rparr>) s)"
      using False ty no_room(1) assms(3) by (simp add: md_updateImpl_def NO_MEMORY_st_def)
    with u no_room(3,4) show ?thesis by auto
  qed
qed

lemma step_erase:
  assumes "lib_sound lib" "owned R s" "cams s i = Some c"
  shows "\<exists>e s'. md_erase lib i t s = Some (e, s') \<and> step_ok R s R s'"
proof (cases "mLocked c \<or> mBuffer c = None")
  case True
  with assms show ?thesis by (auto simp: md_erase_def lib_sound_def content_def md_find_content_def step_refl)
next
  case False
  with owned_buffer [OF assms(2,3)] obtain a m where m: "mBuffer c = Some a" "bufs s a = Some m" by force
  have p: "step_ok R s R (put_buf a m' s)" for m'
    using step_put_own [OF step_refl [OF assms(2)] assms(3) m(1)] False by simp
  with m False assms show ?thesis
    by (auto simp: md_erase_def md_find_content_def content_def step_refl split: sum.splits prod.splits)
qed

text \<open>A blob has the length that was asked for. Then no parcel leads out of it.\<close>

definition blob_exact :: "'p parcel \<Rightarrow> bool" where
  "blob_exact P \<longleftrightarrow> (\<forall>n p b p'. read_blob P n p = (Inr b, p') \<longrightarrow> length b = n)"

lemma md_read_blob_defined:
  assumes "blob_exact P" "lib_alignment lib \<le> n"
  shows "md_read_blob lib W P n p \<noteq> None"
proof -
  have "length blob = n" if "read_blob P n p = (Inr blob, p')" for blob p'
    using assms(1) that unfolding blob_exact_def by blast
  with assms(2) show ?thesis
    by (auto simp: md_read_blob_def rd_then_def rd_int32_def rd_fail_def rd_return_def Let_def
        split: sum.splits prod.splits option.splits)
qed

lemma md_read_buffer_defined: "blob_exact P \<Longrightarrow> \<exists>r p'. md_read_buffer lib W P p = Some (r, p')"
  using md_read_blob_defined [of P lib]
  by (auto simp: md_read_buffer_def rd_then_def rd_int32_def rd_fail_def rd_return_def Let_def
      split: sum.splits prod.splits option.splits)

lemma step_readFromParcel:
  assumes "lib_sound lib" "blob_exact P" "owned R s" "cams s i = Some c"
  shows "\<exists>e s' p'. md_readFromParcel lib W P i s p = Some (e, s', p') \<and> step_ok R s R s' \<and> (e \<noteq> 0 \<longrightarrow> s' = s)"
proof (cases "mLocked c")
  case True
  with assms show ?thesis by (simp add: md_readFromParcel_def step_refl)
next
  case unlocked: False
  obtain r p' where r: "md_read_buffer lib W P p = Some (r, p')" using md_read_buffer_defined [OF assms(2)] by blast
  consider (error) e where "r = Inl e" | (none) "r = Inr None" | (some) m where "r = Inr (Some m)" by (metis sum.exhaust option.exhaust)
  then show ?thesis
  proof cases
    case error
    with r unlocked assms show ?thesis by (simp add: md_readFromParcel_def step_refl)
  next
    case none
    with r unlocked assms(4) step_clear [OF assms(3,4)] show ?thesis by (auto simp: md_readFromParcel_def)
  next
    case some
    show ?thesis
    proof (cases "lib_fresh lib (bufs s) = None")
      case True
      with r some unlocked assms show ?thesis by (simp add: md_readFromParcel_def no_memory step_refl)
    next
      case False
    from step_allocate [OF assms(1,3) False, of m] obtain a where a: "md_new_buffer lib m s = (Some a, put_buf a m s)"
      "a \<notin> R" "step_ok R s (insert a R) (put_buf a m s)" by blast
    then have "owned (insert a R) (put_buf a m s)" by (simp add: step_ok_def)
    from step_clear_then [OF this _ unlocked, of i "Some a"] assms(4) a(2) obtain s2 where
      s2: "md_clear i (put_buf a m s) = Some s2"
        "step_ok (insert a R) (put_buf a m s) R (put_cam i (c\<lparr>mBuffer := Some a\<rparr>) s2)" by auto
    with a(3) have "step_ok R s R (put_cam i (c\<lparr>mBuffer := Some a\<rparr>) s2)" by (blast intro: step_trans)
    with r some a(1) s2(1) unlocked assms(4) show ?thesis by (simp add: md_readFromParcel_def)
    qed
  qed
qed

section \<open>Clients\<close>

text \<open>What a client calls, on objects by their addresses. \<open>Read\<close> is \<open>readFromParcel\<close>. The set are the buffers that
  the client owns: it gives them with \<open>acquire\<close> and takes them with \<open>release\<close>.\<close>

datatype 'p md_op =
    New nat
  | New_Capacity nat nat nat
  | New_Copy nat nat
  | New_Raw nat ptr
  | Assign nat nat
  | Assign_Raw nat ptr
  | Destroy nat
  | Lock nat
  | Unlock nat ptr
  | Release nat
  | Clear nat
  | Acquire_Raw nat ptr
  | Acquire nat nat
  | Append_Raw nat ptr
  | Append nat nat
  | Sort nat
  | Update nat tag md_data bool
  | Erase nat tag
  | Swap nat nat
  | Read nat 'p

fun md_step ::
  "'m metadata_lib \<Rightarrow> nat \<Rightarrow> 'p parcel \<Rightarrow> 'p md_op \<Rightarrow> nat set \<times> 'm md_state \<Rightarrow> (int \<times> nat set \<times> 'm md_state) option" where
  "md_step lib W P (New i) (R, s) = Some (0, R, md_new i s)"
| "md_step lib W P (New_Capacity i e d) (R, s) = Some (0, R, md_new_capacity lib i e d s)"
| "md_step lib W P (New_Copy i j) (R, s) = map_option (\<lambda>s'. (0, R, s')) (md_new_copy lib i j s)"
| "md_step lib W P (New_Raw i p) (R, s) = map_option (\<lambda>s'. (0, R - set_option p, s')) (md_new_raw i p s)"
| "md_step lib W P (Assign i j) (R, s) = map_option (\<lambda>s'. (0, R, s')) (md_assign lib i j s)"
| "md_step lib W P (Assign_Raw i p) (R, s) = map_option (\<lambda>s'. (0, R, s')) (md_assign_raw lib i p s)"
| "md_step lib W P (Destroy i) (R, s) = map_option (\<lambda>s'. (0, R, s')) (md_destroy i s)"
| "md_step lib W P (Lock i) (R, s) = map_option (\<lambda>(p, s'). (0, R, s')) (md_getAndLock i s)"
| "md_step lib W P (Unlock i p) (R, s) = map_option (\<lambda>(e, s'). (e, R, s')) (md_unlock i p s)"
| "md_step lib W P (Release i) (R, s) = map_option (\<lambda>(p, s'). (0, R \<union> set_option p, s')) (md_release i s)"
| "md_step lib W P (Clear i) (R, s) = map_option (\<lambda>s'. (0, R, s')) (md_clear i s)"
| "md_step lib W P (Acquire_Raw i p) (R, s) =
     do { c \<leftarrow> cams s i; s' \<leftarrow> md_acquire_raw i p s; Some (0, if mLocked c then R else R - set_option p, s') }"
| "md_step lib W P (Acquire i j) (R, s) = map_option (\<lambda>s'. (0, R, s')) (md_acquire i j s)"
| "md_step lib W P (Append_Raw i p) (R, s) = map_option (\<lambda>(e, s'). (e, R, s')) (md_append_raw lib i p s)"
| "md_step lib W P (Append i j) (R, s) = map_option (\<lambda>(e, s'). (e, R, s')) (md_append lib i j s)"
| "md_step lib W P (Sort i) (R, s) = map_option (\<lambda>(e, s'). (e, R, s')) (md_sort lib i s)"
| "md_step lib W P (Update i t d inside) (R, s) = map_option (\<lambda>(e, s'). (e, R, s')) (md_update lib i t d inside s)"
| "md_step lib W P (Erase i t) (R, s) = map_option (\<lambda>(e, s'). (e, R, s')) (md_erase lib i t s)"
| "md_step lib W P (Swap i j) (R, s) = map_option (\<lambda>s'. (0, R, s')) (md_swap i j s)"
| "md_step lib W P (Read i p) (R, s) = map_option (\<lambda>(e, s', p'). (e, R, s')) (md_readFromParcel lib W P i s p)"

text \<open>What a client must keep to. It does not append an object to itself, nor one without a buffer.\<close>

definition there :: "nat \<Rightarrow> 'm md_state \<Rightarrow> bool" where "there i s \<longleftrightarrow> cams s i \<noteq> None"

definition readable :: "ptr \<Rightarrow> 'm md_state \<Rightarrow> bool" where
  "readable p s \<longleftrightarrow> (case p of None \<Rightarrow> True | Some a \<Rightarrow> bufs s a \<noteq> None)"

fun md_contract :: "'p md_op \<Rightarrow> nat set \<times> 'm md_state \<Rightarrow> bool" where
  "md_contract (New i) (R, s) \<longleftrightarrow> \<not> there i s"
| "md_contract (New_Capacity i e d) (R, s) \<longleftrightarrow> \<not> there i s"
| "md_contract (New_Copy i j) (R, s) \<longleftrightarrow> \<not> there i s \<and> there j s"
| "md_contract (New_Raw i p) (R, s) \<longleftrightarrow> \<not> there i s \<and> set_option p \<subseteq> R"
| "md_contract (Assign i j) (R, s) \<longleftrightarrow> there i s \<and> there j s"
| "md_contract (Assign_Raw i p) (R, s) \<longleftrightarrow> there i s \<and> readable p s"
| "md_contract (Acquire_Raw i p) (R, s) \<longleftrightarrow> there i s \<and> set_option p \<subseteq> R"
| "md_contract (Acquire i j) (R, s) \<longleftrightarrow> there i s \<and> there j s"
| "md_contract (Append_Raw i p) (R, s) \<longleftrightarrow>
     there i s \<and> readable p s \<and> p \<noteq> None \<and> mBuffer (the (cams s i)) \<noteq> p"
| "md_contract (Append i j) (R, s) \<longleftrightarrow> there i s \<and> there j s \<and> i \<noteq> j \<and> mBuffer (the (cams s j)) \<noteq> None"
| "md_contract (Swap i j) (R, s) \<longleftrightarrow> there i s \<and> there j s"
| "md_contract (Destroy i) (R, s) \<longleftrightarrow> there i s"
| "md_contract (Lock i) (R, s) \<longleftrightarrow> there i s"
| "md_contract (Unlock i p) (R, s) \<longleftrightarrow> there i s"
| "md_contract (Release i) (R, s) \<longleftrightarrow> there i s"
| "md_contract (Clear i) (R, s) \<longleftrightarrow> there i s"
| "md_contract (Sort i) (R, s) \<longleftrightarrow> there i s"
| "md_contract (Update i t d inside) (R, s) \<longleftrightarrow> there i s"
| "md_contract (Erase i t) (R, s) \<longleftrightarrow> there i s"
| "md_contract (Read i p) (R, s) \<longleftrightarrow> there i s"

fun unlocks :: "'p md_op \<Rightarrow> nat \<Rightarrow> bool" where
  "unlocks (Unlock j p) i = (j = i)"
| "unlocks (Destroy j) i = (j = i)"
| "unlocks _ i = False"

subsection \<open>Objects come and go\<close>

lemma step_new: "owned R s \<Longrightarrow> \<not> there i s \<Longrightarrow> step_ok R s R (md_new i s)"
  by (simp add: md_new_def there_def step_new_cam)

lemma step_new_with:
  assumes "owned R s" "\<not> there i s" "set_option p \<subseteq> R"
  shows "step_ok R s (R - set_option p) (put_cam i \<lparr>mBuffer = p, mLocked = False\<rparr> s)"
proof -
  let ?s1 = "put_cam i \<lparr>mBuffer = None, mLocked = False\<rparr> s"
  have n: "step_ok R s R ?s1" using assms(1,2) by (simp add: there_def step_new_cam)
  then have "owned R ?s1" by (simp add: step_ok_def)
  from step_give_ptr [OF this, of i "\<lparr>mBuffer = None, mLocked = False\<rparr>" p] assms(3) n
  show ?thesis by (auto intro: step_trans)
qed

lemma step_new_capacity:
  assumes "lib_sound lib" "owned R s" "\<not> there i s"
  shows "step_ok R s R (md_new_capacity lib i e d s)"
proof (cases "lib_fresh lib (bufs s) = None")
  case True
  with step_new_with [OF assms(2,3), of None] show ?thesis by (simp add: md_new_capacity_def no_memory)
next
  case False
  let ?m = "lib_empty lib e d"
  from step_allocate [OF assms(1,2) False, of ?m] obtain a where a: "md_new_buffer lib ?m s = (Some a, put_buf a ?m s)"
    "a \<notin> R" "step_ok R s (insert a R) (put_buf a ?m s)" by blast
  then have "owned (insert a R) (put_buf a ?m s)" by (simp add: step_ok_def)
  from step_new_with [OF this, of i "Some a"] assms(3) a show ?thesis
    by (auto simp: md_new_capacity_def there_def intro: step_trans)
qed

lemma step_new_copy:
  assumes "lib_sound lib" "owned R s" "\<not> there i s" "there j s"
  shows "\<exists>s'. md_new_copy lib i j s = Some s' \<and> step_ok R s R s'"
proof -
  from assms(4) obtain c where c: "cams s j = Some c" by (auto simp: there_def)
  obtain q s1 where q: "clone_camera_metadata lib (mBuffer c) s = Some (q, s1)"
    "step_ok R s (R \<union> set_option q) s1" "set_option q \<inter> R = {}" "cams s1 = cams s"
    using step_clone [OF assms(1,2) owned_buffer [OF assms(2) c]] by blast
  then have "owned (R \<union> set_option q) s1" by (simp add: step_ok_def)
  from step_new_with [OF this, of i q] assms(3) q(4)
  have "step_ok (R \<union> set_option q) s1 (R \<union> set_option q - set_option q) (put_cam i \<lparr>mBuffer = q, mLocked = False\<rparr> s1)"
    by (simp add: there_def)
  moreover have "R \<union> set_option q - set_option q = R" using q(3) by blast
  ultimately have "step_ok R s R (put_cam i \<lparr>mBuffer = q, mLocked = False\<rparr> s1)" using q(2) by (simp add: step_trans)
  with c q(1) show ?thesis by (simp add: md_new_copy_def)
qed

lemma step_new_raw:
  assumes "owned R s" "\<not> there i s" "set_option p \<subseteq> R"
  shows "\<exists>s'. md_new_raw i p s = Some s' \<and> step_ok R s (R - set_option p) s'"
proof -
  have n: "step_ok R s R (md_new i s)" using assms(1,2) by (rule step_new)
  then have "owned R (md_new i s)" by (simp add: step_ok_def)
  from step_acquire_raw [OF this _ assms(3), of i] n show ?thesis
    by (auto simp: md_new_raw_def md_new_def intro: step_trans)
qed

lemma step_acquire:
  assumes "owned R s" "there i s" "there j s"
  shows "\<exists>s'. md_acquire i j s = Some s' \<and> step_ok R s R s'"
proof -
  from assms(2,3) obtain c d where c: "cams s i = Some c" "cams s j = Some d" by (auto simp: there_def)
  show ?thesis
  proof (cases "mLocked c")
    case True
    with c assms(1) show ?thesis by (simp add: md_acquire_def step_refl)
  next
    case False
    from step_release [OF assms(1) c(2)] obtain p s1 where
      p: "md_release j s = Some (p, s1)" "step_ok R s (R \<union> set_option p) s1" and np: "set_option p \<inter> R = {}" by blast
    from p(1) c False obtain c1 where c1: "cams s1 i = Some c1" "\<not> mLocked c1"
      by (cases "i = j") (auto simp: md_release_def split: if_splits)
    from p(2) have "owned (R \<union> set_option p) s1" by (simp add: step_ok_def)
    from step_acquire_raw [OF this c1(1), of p] c1(2) obtain s2 where
      s2: "md_acquire_raw i p s1 = Some s2" "step_ok (R \<union> set_option p) s1 (R \<union> set_option p - set_option p) s2" by auto
    have "R \<union> set_option p - set_option p = R" using np by blast
    with s2(2) p(2) have "step_ok R s R s2" by (simp add: step_trans)
    with c p(1) s2(1) False show ?thesis by (simp add: md_acquire_def)
  qed
qed

lemma step_swap:
  assumes "owned R s" "there i s" "there j s"
  shows "\<exists>s'. md_swap i j s = Some s' \<and> step_ok R s R s'"
proof -
  from assms(2,3) obtain c d where c: "cams s i = Some c" "cams s j = Some d" by (auto simp: there_def)
  show ?thesis
  proof (cases "mLocked c \<or> mLocked d \<or> i = j")
    case True
    with c assms(1) show ?thesis by (auto simp: md_swap_def step_refl)
  next
    case False
    let ?s = "put_cam i (c\<lparr>mBuffer := mBuffer d\<rparr>) (put_cam j (d\<lparr>mBuffer := mBuffer c\<rparr>) s)"
    have ow: "owns ?s k b \<longleftrightarrow> owns s (if k = i then j else if k = j then i else k) b" for k b
      using c False by (auto simp: owns_def)
    note o = ownedD [OF assms(1)]
    have "owned R ?s"
    proof (rule ownedI)
      show "\<exists>k. owns ?s k b" if b: "b \<in> dom (bufs ?s)" "b \<notin> R" for b
      proof -
        from b o(6) [of b] obtain k where "owns s k b" by auto
        then have "owns ?s (if k = i then j else if k = j then i else k) b" unfolding ow by auto
        then show ?thesis by blast
      qed
      show "k = l" if "owns ?s k b" "owns ?s l b" for k l b
        using o(5) [OF that [unfolded ow]] by (auto split: if_splits)
      show "b \<in> dom (bufs ?s) \<and> b \<notin> R" if "owns ?s k b" for k b
        using that o(3,4) unfolding ow by auto
    qed (use o(1,2) in simp_all)
    moreover have "kept k s ?s" for k by (rule keptI) (use c False in auto)
    ultimately have "step_ok R s R ?s" by (rule step_okI)
    with c False show ?thesis by (simp add: md_swap_def)
  qed
qed

lemma step_destroy:
  assumes "owned R s" "there i s"
  shows "\<exists>s'. md_destroy i s = Some s' \<and> owned R s' \<and> (\<forall>j. j \<noteq> i \<longrightarrow> kept j s s')"
proof -
  from assms(2) obtain c where c: "cams s i = Some c" by (auto simp: there_def)
  let ?s0 = "put_cam i (c\<lparr>mLocked := False\<rparr>) s"
  from step_lock [OF assms(1) c, where l = False] have s0: "owned R ?s0" "\<And>j. j \<noteq> i \<Longrightarrow> kept j s ?s0" by simp_all
  from step_clear [OF s0(1), of i] obtain s1 where s1: "md_clear i ?s0 = Some s1" "step_ok R ?s0 R s1"
    "cams s1 i = Some (c\<lparr>mLocked := False, mBuffer := None\<rparr>)" by fastforce
  let ?s2 = "s1\<lparr>cams := (cams s1)(i := None)\<rparr>"
  have ow: "owns ?s2 j b \<longleftrightarrow> owns s1 j b" for j b using s1(3) by (auto simp: owns_def)
  have "owned R s1" using s1(2) by (simp add: step_ok_def)
  note o = ownedD [OF this]
  have "owned R ?s2" by (rule ownedI) (use o in \<open>simp_all add: ow\<close>)
  moreover have "kept j s ?s2" if j: "j \<noteq> i" for j
  proof -
    have "kept j s1 ?s2" by (rule keptI) (use j in auto)
    moreover have "kept j ?s0 s1" using s1(2) by (simp add: step_ok_def)
    ultimately show ?thesis using s0(2) [OF j] by (blast intro: kept_trans)
  qed
  ultimately show ?thesis using c s1(1) by (simp add: md_destroy_def)
qed

lemma step_getAndLock:
  assumes "owned R s" "there i s"
  shows "\<exists>p s'. md_getAndLock i s = Some (p, s') \<and> step_ok R s R s'"
  using assms step_lock [OF assms(1), where i = i and l = True] by (auto simp: there_def md_getAndLock_def step_ok_def)

lemma step_unlock:
  assumes "owned R s" "there i s"
  shows "\<exists>e s'. md_unlock i p s = Some (e, s') \<and> owned R s' \<and> (\<forall>j. j \<noteq> i \<longrightarrow> kept j s s')"
proof -
  from assms(2) obtain c where c: "cams s i = Some c" by (auto simp: there_def)
  from step_lock [OF assms(1) c, where l = False] c assms(1) show ?thesis by (simp add: md_unlock_def)
qed

fun md_grows :: "'p md_op \<Rightarrow> bool" where
  "md_grows (Append_Raw i p) = True"
| "md_grows (Append i j) = True"
| "md_grows (Update i t d inside) = True"
| "md_grows _ = False"

text \<open>
  A call within the contract is defined, keeps the ownership and does not touch what is locked. \<open>L\<close> are the
  buffers that are lost: one more at most, if the call needs room and there is no memory.
\<close>

definition call_ok ::
  "'m metadata_lib \<Rightarrow> 'p md_op \<Rightarrow> nat set \<Rightarrow> 'm md_state \<Rightarrow> (int \<times> nat set \<times> 'm md_state) option \<Rightarrow> bool" where
  "call_ok lib op L s r \<longleftrightarrow>
     (\<exists>e R' L' s'. r = Some (e, R', s') \<and> owned (R' \<union> L') s' \<and> R' \<inter> L' = {} \<and> finite L' \<and>
        card L' \<le> card L + (if md_grows op \<and> lib_fresh lib (bufs s) = None then 1 else 0) \<and>
        (\<forall>i. \<not> unlocks op i \<longrightarrow> kept i s s'))"

lemma call_okI:
  assumes "r = Some (e, R', s')" "owned (R' \<union> L) s'" "R' \<inter> L = {}" "finite L" "\<And>i. \<not> unlocks op i \<Longrightarrow> kept i s s'"
  shows "call_ok lib op L s r"
  unfolding call_ok_def using assms by (intro exI [of _ e] exI [of _ R'] exI [of _ L] exI [of _ s']) simp

lemma call_ok_step:
  assumes "R \<inter> L = {}" "finite L" "r = Some (e, R, s')" "step_ok (R \<union> L) s (R \<union> L) s'"
  shows "call_ok lib op L s r"
  using assms(3) _ assms(1,2) by (rule call_okI) (use assms(4) in \<open>simp_all add: step_ok_def\<close>)

lemma call_ok_give:
  assumes "R \<inter> L = {}" "finite L" "r = Some (e, R - X, s')" "X \<subseteq> R" "step_ok (R \<union> L) s (R \<union> L - X) s'"
  shows "call_ok lib op L s r"
proof (rule call_okI [OF assms(3)])
  have "R \<union> L - X = R - X \<union> L" using assms(1,4) by blast
  with assms(5) show "owned (R - X \<union> L) s'" "kept i s s'" for i by (simp_all add: step_ok_def)
qed (use assms(1,2) in auto)

lemma call_ok_take:
  assumes "R \<inter> L = {}" "finite L" "r = Some (e, R \<union> X, s')" "X \<inter> (R \<union> L) = {}" "step_ok (R \<union> L) s (R \<union> L \<union> X) s'"
  shows "call_ok lib op L s r"
proof (rule call_okI [OF assms(3)])
  have "R \<union> L \<union> X = R \<union> X \<union> L" by blast
  with assms(5) show "owned (R \<union> X \<union> L) s'" "kept i s s'" for i by (simp_all add: step_ok_def)
qed (use assms(1,2,4) in auto)

lemma call_ok_lose:
  assumes "R \<inter> L = {}" "finite L" "r = Some (e, R, s')" "lost lib s (R \<union> L) X" "step_ok (R \<union> L) s (R \<union> L \<union> X) s'" "md_grows op"
  shows "call_ok lib op L s r"
proof -
  have "R \<union> L \<union> X = R \<union> (L \<union> X)" by blast
  moreover have "card (L \<union> X) \<le> card L + card X" by (rule card_Un_le)
  ultimately show ?thesis
    unfolding call_ok_def using assms
    by (intro exI [of _ e] exI [of _ R] exI [of _ "L \<union> X"] exI [of _ s'])
      (auto simp: step_ok_def lost_def split: if_splits)
qed

lemma md_step_ok:
  assumes lib: "lib_sound lib" "blob_exact P" and o: "owned (R \<union> L) s" and k: "md_contract op (R, s)"
    and L: "R \<inter> L = {}" "finite L"
  shows "call_ok lib op L s (md_step lib W P op (R, s))"
proof -
  note step = call_ok_step [OF L] and give = call_ok_give [OF L] and take = call_ok_take [OF L] and lose = call_ok_lose [OF L]
  have sub: "p \<subseteq> R \<union> L" if "p \<subseteq> R" for p using that by blast
  show ?thesis
  proof (cases op)
    case (New i)
    with step_new [OF o, of i] k show ?thesis by (intro step) auto
  next
    case (New_Capacity i e d)
    with step_new_capacity [OF lib(1) o, of i e d] k show ?thesis by (intro step) auto
  next
    case (New_Copy i j)
    with k obtain s' where "md_new_copy lib i j s = Some s'" "step_ok (R \<union> L) s (R \<union> L) s'"
      using step_new_copy [OF lib(1) o, of i j] by auto
    with New_Copy show ?thesis by (intro step [of _ 0 s']) simp_all
  next
    case (New_Raw i p)
    with k obtain s' where "md_new_raw i p s = Some s'" "step_ok (R \<union> L) s (R \<union> L - set_option p) s'" "set_option p \<subseteq> R"
      using step_new_raw [OF o _ sub, of i p] by auto
    with New_Raw show ?thesis by (intro give [of _ 0 "set_option p" s']) simp_all
  next
    case (Assign i j)
    with k obtain c d where c: "cams s i = Some c" "cams s j = Some d" by (auto simp: there_def)
    obtain s' where "md_assign_raw lib i (mBuffer d) s = Some s'" "step_ok (R \<union> L) s (R \<union> L) s'"
      using step_assign_raw [OF lib(1) o c(1) owned_buffer [OF o c(2)]] by blast
    with Assign c show ?thesis by (intro step [of _ 0 s']) (simp_all add: md_assign_def)
  next
    case (Assign_Raw i p)
    with k obtain c where c: "cams s i = Some c" "set_option p \<subseteq> dom (bufs s)"
      by (cases p) (auto simp: there_def readable_def)
    from step_assign_raw [OF lib(1) o c] obtain s' where
      "md_assign_raw lib i p s = Some s'" "step_ok (R \<union> L) s (R \<union> L) s'" by blast
    with Assign_Raw show ?thesis by (intro step [of _ 0 s']) simp_all
  next
    case (Destroy i)
    with step_destroy [OF o, of i] k L show ?thesis by (auto intro!: call_okI)
  next
    case (Lock i)
    with k obtain p s' where "md_getAndLock i s = Some (p, s')" "step_ok (R \<union> L) s (R \<union> L) s'"
      using step_getAndLock [OF o, of i] by auto
    with Lock show ?thesis by (intro step [of _ 0 s']) simp_all
  next
    case (Unlock i p)
    with step_unlock [OF o, of i p] k L show ?thesis by (auto intro!: call_okI)
  next
    case (Release i)
    with k obtain c where c: "cams s i = Some c" by (auto simp: there_def)
    from step_release [OF o c] obtain p s' where
      "md_release i s = Some (p, s')" "step_ok (R \<union> L) s (R \<union> L \<union> set_option p) s'" "set_option p \<inter> (R \<union> L) = {}" by blast
    with Release show ?thesis by (intro take [of _ 0 "set_option p" s']) simp_all
  next
    case (Clear i)
    with k obtain c where c: "cams s i = Some c" by (auto simp: there_def)
    from step_clear [OF o c] obtain s' where "md_clear i s = Some s'" "step_ok (R \<union> L) s (R \<union> L) s'" by blast
    with Clear show ?thesis by (intro step [of _ 0 s']) simp_all
  next
    case (Acquire_Raw i p)
    with k obtain c where c: "cams s i = Some c" "set_option p \<subseteq> R" by (auto simp: there_def)
    obtain s' where "md_acquire_raw i p s = Some s'"
        "step_ok (R \<union> L) s (if mLocked c then R \<union> L else R \<union> L - set_option p) s'"
      using step_acquire_raw [OF o c(1) sub [OF c(2)]] by blast
    with Acquire_Raw c show ?thesis
      by (cases "mLocked c") (force intro: step [of _ 0 s'], force intro: give [of _ 0 "set_option p" s'])
  next
    case (Acquire i j)
    with k obtain s' where "md_acquire i j s = Some s'" "step_ok (R \<union> L) s (R \<union> L) s'"
      using step_acquire [OF o, of i j] by auto
    with Acquire show ?thesis by (intro step [of _ 0 s']) simp_all
  next
    case (Append_Raw i p)
    with k obtain c b where c: "cams s i = Some c" "p = Some b" "bufs s b \<noteq> None" "mBuffer c \<noteq> Some b"
      by (auto simp: there_def readable_def)
    from step_append_raw [OF lib(1) o c(1,3,4)] obtain e s' X where
      "md_append_raw lib i (Some b) s = Some (e, s')" "step_ok (R \<union> L) s (R \<union> L \<union> X) s'" "lost lib s (R \<union> L) X" by blast
    with Append_Raw c(2) show ?thesis by (intro lose [of _ e s' _ _ X]) simp_all
  next
    case (Append i j)
    with k obtain c d b where c: "cams s i = Some c" "cams s j = Some d" "mBuffer d = Some b" "i \<noteq> j"
      by (auto simp: there_def)
    have b: "bufs s b \<noteq> None" using owned_buffer [OF o c(2)] c(3) by auto
    have "mBuffer c \<noteq> Some b" using ownedD(5) [OF o, of i b j] c by (auto simp: owns_def)
    from step_append_raw [OF lib(1) o c(1) b this] obtain e s' X where
      "md_append_raw lib i (Some b) s = Some (e, s')" "step_ok (R \<union> L) s (R \<union> L \<union> X) s'" "lost lib s (R \<union> L) X" by blast
    with Append c show ?thesis by (intro lose [of _ e s' _ _ X]) (simp_all add: md_append_def)
  next
    case (Sort i)
    with k obtain c where c: "cams s i = Some c" by (auto simp: there_def)
    from step_sort [OF lib(1) o c] obtain e s' where "md_sort lib i s = Some (e, s')" "step_ok (R \<union> L) s (R \<union> L) s'" by blast
    with Sort show ?thesis by (intro step [of _ e s']) simp_all
  next
    case (Update i t d inside)
    with k obtain c where c: "cams s i = Some c" by (auto simp: there_def)
    from step_update [OF lib(1) o c] obtain e s' X where
      "md_update lib i t d inside s = Some (e, s')" "step_ok (R \<union> L) s (R \<union> L \<union> X) s'" "lost lib s (R \<union> L) X" by blast
    with Update show ?thesis by (intro lose [of _ e s' _ _ X]) simp_all
  next
    case (Erase i t)
    with k obtain c where c: "cams s i = Some c" by (auto simp: there_def)
    from step_erase [OF lib(1) o c] obtain e s' where "md_erase lib i t s = Some (e, s')" "step_ok (R \<union> L) s (R \<union> L) s'" by blast
    with Erase show ?thesis by (intro step [of _ e s']) simp_all
  next
    case (Swap i j)
    with k obtain s' where "md_swap i j s = Some s'" "step_ok (R \<union> L) s (R \<union> L) s'"
      using step_swap [OF o, of i j] by auto
    with Swap show ?thesis by (intro step [of _ 0 s']) simp_all
  next
    case (Read i p)
    with k obtain c where c: "cams s i = Some c" by (auto simp: there_def)
    from step_readFromParcel [OF lib o c, of W p] obtain e s' p' where
      "md_readFromParcel lib W P i s p = Some (e, s', p')" "step_ok (R \<union> L) s (R \<union> L) s'" by blast
    with Read show ?thesis by (intro step [of _ e s']) simp_all
  qed
qed

section \<open>Runs\<close>

fun md_run :: "'m metadata_lib \<Rightarrow> nat \<Rightarrow> 'p parcel \<Rightarrow> 'p md_op list \<Rightarrow> nat set \<times> 'm md_state \<Rightarrow> (nat set \<times> 'm md_state) option" where
  "md_run lib W P [] x = Some x"
| "md_run lib W P (op # ops) x =
     (case md_step lib W P op x of None \<Rightarrow> None | Some (e, y) \<Rightarrow> md_run lib W P ops y)"

text \<open>A client that keeps to the contract with every call.\<close>

fun md_client :: "'m metadata_lib \<Rightarrow> nat \<Rightarrow> 'p parcel \<Rightarrow> 'p md_op list \<Rightarrow> nat set \<times> 'm md_state \<Rightarrow> bool" where
  "md_client lib W P [] x \<longleftrightarrow> True"
| "md_client lib W P (op # ops) x \<longleftrightarrow>
     md_contract op x \<and> (case md_step lib W P op x of None \<Rightarrow> True | Some (e, y) \<Rightarrow> md_client lib W P ops y)"

text \<open>The number of calls of a run that append or update when there is no memory.\<close>

fun md_starved :: "'m metadata_lib \<Rightarrow> nat \<Rightarrow> 'p parcel \<Rightarrow> 'p md_op list \<Rightarrow> nat set \<times> 'm md_state \<Rightarrow> nat" where
  "md_starved lib W P [] x = 0"
| "md_starved lib W P (op # ops) x =
     (if md_grows op \<and> lib_fresh lib (bufs (snd x)) = None then 1 else 0) +
     (case md_step lib W P op x of None \<Rightarrow> 0 | Some (e, y) \<Rightarrow> md_starved lib W P ops y)"

definition md_start :: "'m md_state" where "md_start = \<lparr>bufs = Map.empty, cams = Map.empty\<rparr>"

lemma owned_start: "owned {} md_start"
  by (rule ownedI) (auto simp: md_start_def owns_def)

lemma md_run_ok:
  assumes lib: "lib_sound lib" "blob_exact P"
  shows "owned (R \<union> L) s \<Longrightarrow> R \<inter> L = {} \<Longrightarrow> finite L \<Longrightarrow> md_client lib W P ops (R, s) \<Longrightarrow>
    \<exists>R' L' s'. md_run lib W P ops (R, s) = Some (R', s') \<and> owned (R' \<union> L') s' \<and> R' \<inter> L' = {} \<and> finite L' \<and>
      card L' \<le> card L + md_starved lib W P ops (R, s) \<and>
      (\<forall>i. (\<forall>op \<in> set ops. \<not> unlocks op i) \<longrightarrow> kept i s s')"
proof (induction ops arbitrary: R L s)
  case (Cons op ops)
  from Cons.prems(4) have "md_contract op (R, s)" by simp
  from md_step_ok [OF lib Cons.prems(1) this Cons.prems(2,3), of W] obtain e R1 L1 s1 where
    s1: "md_step lib W P op (R, s) = Some (e, R1, s1)" "owned (R1 \<union> L1) s1" "R1 \<inter> L1 = {}" "finite L1"
      "card L1 \<le> card L + (if md_grows op \<and> lib_fresh lib (bufs s) = None then 1 else 0)"
      "\<And>i. \<not> unlocks op i \<Longrightarrow> kept i s s1"
    by (auto simp: call_ok_def)
  with Cons.prems(4) have "md_client lib W P ops (R1, s1)" by simp
  from Cons.IH [OF s1(2-4) this] obtain R' L' s' where s': "md_run lib W P ops (R1, s1) = Some (R', s')"
    "owned (R' \<union> L') s'" "R' \<inter> L' = {}" "finite L'" "card L' \<le> card L1 + md_starved lib W P ops (R1, s1)"
    "\<And>i. (\<forall>op \<in> set ops. \<not> unlocks op i) \<Longrightarrow> kept i s1 s'" by blast
  have "kept i s s'" if "\<forall>op' \<in> set (op # ops). \<not> unlocks op' i" for i
    using s1(6) [of i] s'(6) [of i] that kept_trans by auto
  moreover have "card L' \<le> card L + md_starved lib W P (op # ops) (R, s)" using s1(1,5) s'(5) by simp
  moreover have "md_run lib W P (op # ops) (R, s) = Some (R', s')" using s1(1) s'(1) by simp
  ultimately show ?case using s'(2-4) by blast
qed auto

section \<open>Entries are found again\<close>

definition found :: "'m metadata_lib \<Rightarrow> 'm \<Rightarrow> tag \<Rightarrow> md_data option" where
  "found lib m t = (case lib_find lib m t of Inl _ \<Rightarrow> None | Inr (_, d) \<Rightarrow> Some d)"

definition room :: "'m metadata_lib \<Rightarrow> nat \<Rightarrow> nat \<Rightarrow> 'm \<Rightarrow> bool" where
  "room lib e d m \<longleftrightarrow>
     lib_entry_count lib m + e \<le> lib_entry_capacity lib m \<and> lib_data_count lib m + d \<le> lib_data_capacity lib m"

text \<open>The library as documented: an empty buffer has the capacities asked for and no entries; entries are added,
  changed and appended when there is room for them.\<close>

definition lib_laws :: "'m metadata_lib \<Rightarrow> bool" where
  "lib_laws lib \<longleftrightarrow>
     (\<forall>m t e. lib_find lib m t = Inl e \<longrightarrow> e = NAME_NOT_FOUND_st) \<and>
     (\<forall>m. room lib 0 0 m) \<and>
     (\<forall>e d t. found lib (lib_empty lib e d) t = None) \<and>
     (\<forall>e d. room lib e d (lib_empty lib e d)) \<and>
     (\<forall>e d k l m. room lib 0 0 m \<longrightarrow> lib_entry_count lib m + k \<le> e \<longrightarrow> lib_data_count lib m + l \<le> d \<longrightarrow>
        (\<exists>m'. lib_append lib (lib_empty lib e d) m = (0, m') \<and> found lib m' = found lib m \<and> room lib k l m')) \<and>
     (\<forall>m t ty d. found lib m t = None \<longrightarrow> lib_tag_type lib t = Some ty \<longrightarrow> room lib 1 (lib_data_size lib ty d) m \<longrightarrow>
        (\<exists>m'. lib_add lib m t d = (0, m') \<and> found lib m' = (found lib m)(t \<mapsto> d))) \<and>
     (\<forall>m t ty d k old. lib_find lib m t = Inr (k, old) \<longrightarrow> lib_tag_type lib t = Some ty \<longrightarrow>
        room lib 0 (lib_data_size lib ty d) m \<longrightarrow>
        (\<exists>m'. lib_update lib m k d = (0, m') \<and> found lib m' = (found lib m)(t \<mapsto> d))) \<and>
     (\<forall>m t k old. lib_find lib m t = Inr (k, old) \<longrightarrow>
        (\<exists>m'. lib_delete lib m k = (0, m') \<and> found lib m' = (found lib m)(t := None)))"

lemma lib_lawsD:
  assumes "lib_laws lib"
  shows "lib_find lib m t = Inl e \<Longrightarrow> e = NAME_NOT_FOUND_st"
    and "room lib 0 0 m"
    and "found lib (lib_empty lib e' d') = Map.empty"
    and "room lib e' d' (lib_empty lib e' d')"
    and "lib_entry_count lib m + k \<le> e' \<Longrightarrow> lib_data_count lib m + l \<le> d' \<Longrightarrow>
      \<exists>m'. lib_append lib (lib_empty lib e' d') m = (0, m') \<and> found lib m' = found lib m \<and> room lib k l m'"
    and "found lib m t = None \<Longrightarrow> lib_tag_type lib t = Some ty \<Longrightarrow> room lib 1 (lib_data_size lib ty d) m \<Longrightarrow>
      \<exists>m'. lib_add lib m t d = (0, m') \<and> found lib m' = (found lib m)(t \<mapsto> d)"
    and "lib_find lib m t = Inr (k, old) \<Longrightarrow> lib_tag_type lib t = Some ty \<Longrightarrow> room lib 0 (lib_data_size lib ty d) m \<Longrightarrow>
      \<exists>m'. lib_update lib m k d = (0, m') \<and> found lib m' = (found lib m)(t \<mapsto> d)"
    and "lib_find lib m t = Inr (k, old) \<Longrightarrow> \<exists>m'. lib_delete lib m k = (0, m') \<and> found lib m' = (found lib m)(t := None)"
  using assms by (simp_all add: lib_laws_def fun_eq_iff)

text \<open>What is found in an object.\<close>

definition finds :: "'m metadata_lib \<Rightarrow> 'm option \<Rightarrow> tag \<Rightarrow> md_data option" where
  "finds lib m t = (case m of None \<Rightarrow> None | Some m \<Rightarrow> found lib m t)"

lemma md_find_const_finds:
  "lib_sound lib \<Longrightarrow> md_find_const lib i t s =
     (case cams s i of None \<Rightarrow> None | Some c \<Rightarrow> map_option (\<lambda>m. finds lib m t) (content (mBuffer c) s))"
proof -
  assume "lib_sound lib"
  then have "(\<lambda>m. md_find_content lib m t \<bind> (\<lambda>r. Some (case r of Inl e \<Rightarrow> None | Inr (_, d) \<Rightarrow> Some d))) =
    (\<lambda>m. Some (finds lib m t))"
    by (auto simp: md_find_content_def finds_def found_def lib_sound_def fun_eq_iff split: option.splits)
  then show ?thesis by (simp add: md_find_const_def map_conv_bind_option comp_def split: option.split)
qed

lemma new_capacity_room: "c + x \<le> new_capacity c x cap"
  by (simp add: new_capacity_def)

lemma md_resize_room:
  assumes lib: "lib_sound lib" "lib_laws lib" and s: "owned R s" "cams s i = Some c" "lib_fresh lib (bufs s) \<noteq> None"
  shows "\<exists>s' a m. md_resizeIfNeeded lib i e d s = Some (0, s') \<and> cams s' = (cams s)(i := Some (c\<lparr>mBuffer := Some a\<rparr>)) \<and>
    bufs s' a = Some m \<and> room lib e d m \<and> content (mBuffer c) s \<noteq> None \<and>
    found lib m = finds lib (the (content (mBuffer c) s)) \<and>
    (\<forall>b. bufs s b \<noteq> None \<longrightarrow> Some b \<noteq> mBuffer c \<longrightarrow> b \<noteq> a \<and> bufs s' b = bufs s b)"
proof (cases "mBuffer c")
  case None
  let ?m = "lib_empty lib (e * 2) (d * 2)"
  from step_allocate [OF lib(1) s(1,3), of ?m] obtain a where a: "md_new_buffer lib ?m s = (Some a, put_buf a ?m s)"
    "bufs s a = None" by blast
  have "room lib e d ?m" using lib_lawsD(4) [OF lib(2), of "e * 2" "d * 2"] by (simp add: room_def)
  with None a s(2) lib_lawsD(3) [OF lib(2)] show ?thesis
    by (intro exI [of _ "put_cam i (c\<lparr>mBuffer := Some a\<rparr>) (put_buf a ?m s)"] exI [of _ a] exI [of _ ?m])
      (auto simp: md_resizeIfNeeded_def content_def finds_def)
next
  case (Some a)
  with owned_buffer [OF s(1,2)] obtain m where m: "bufs s a = Some m" by auto
  let ?n = "new_capacity (lib_entry_count lib m) e (lib_entry_capacity lib m)"
  let ?k = "new_capacity (lib_data_count lib m) d (lib_data_capacity lib m)"
  show ?thesis
  proof (cases "lib_entry_capacity lib m < ?n \<or> lib_data_capacity lib m < ?k")
    case False
    then have "room lib e d m"
      using new_capacity_room [of "lib_entry_count lib m" e "lib_entry_capacity lib m"]
        new_capacity_room [of "lib_data_count lib m" d "lib_data_capacity lib m"] by (simp add: room_def)
    moreover have "c\<lparr>mBuffer := Some a\<rparr> = c" using Some by simp
    ultimately show ?thesis using False Some m s
      by (intro exI [of _ s] exI [of _ a] exI [of _ m])
        (simp add: md_resizeIfNeeded_def content_def finds_def fun_eq_iff)
  next
    case True
    let ?e = "lib_empty lib ?n ?k"
    from step_allocate [OF lib(1) s(1,3), of ?e] obtain b where b: "md_new_buffer lib ?e s = (Some b, put_buf b ?e s)"
      "bufs s b = None" by blast
    from lib_lawsD(5) [OF lib(2) new_capacity_room new_capacity_room, of m e _ d] obtain m' where
      m': "lib_append lib ?e m = (0, m')" "found lib m' = found lib m" "room lib e d m'" by blast
    have "a \<noteq> b" using m b(2) by auto
    let ?s1 = "put_buf b m' (put_buf b ?e s)"
    let ?s' = "put_cam i (c\<lparr>mBuffer := Some b\<rparr>) (?s1\<lparr>bufs := (bufs ?s1)(a := None)\<rparr>)"
    have "md_resizeIfNeeded lib i e d s = Some (0, ?s')"
      using True Some m s(2) b m'(1) \<open>a \<noteq> b\<close> by (simp add: md_resizeIfNeeded_def free_camera_metadata_def Let_def)
    then show ?thesis using Some m m' b(2) \<open>a \<noteq> b\<close>
      by (intro exI [of _ ?s'] exI [of _ b] exI [of _ m']) (auto simp: content_def finds_def)
  qed
qed

lemma md_resize_cases:
  assumes lib: "lib_sound lib" "lib_laws lib" and s: "owned R s" "cams s i = Some c"
  obtains (room) s' a m where "md_resizeIfNeeded lib i e d s = Some (0, s')"
      "cams s' = (cams s)(i := Some (c\<lparr>mBuffer := Some a\<rparr>))" "bufs s' a = Some m" "room lib e d m"
      "content (mBuffer c) s \<noteq> None" "found lib m = finds lib (the (content (mBuffer c) s))"
      "\<And>b. bufs s b \<noteq> None \<Longrightarrow> Some b \<noteq> mBuffer c \<Longrightarrow> b \<noteq> a \<and> bufs s' b = bufs s b"
    | (no_room) "md_resizeIfNeeded lib i e d s = Some (NO_MEMORY_st, put_cam i (c\<lparr>mBuffer := None\<rparr>) s)"
      "lib_fresh lib (bufs s) = None"
proof (cases "lib_fresh lib (bufs s) = None")
  case True
  from resize_no_memory [OF s True, of e d] show thesis
  proof
    assume *: "md_resizeIfNeeded lib i e d s = Some (0, s) \<and> mBuffer c \<noteq> None"
    then obtain a where a: "mBuffer c = Some a" by blast
    with owned_buffer [OF s] obtain m where m: "bufs s a = Some m" by auto
    have "\<not> (lib_entry_capacity lib m < new_capacity (lib_entry_count lib m) e (lib_entry_capacity lib m) \<or>
      lib_data_capacity lib m < new_capacity (lib_data_count lib m) d (lib_data_capacity lib m))"
      using * a m s True by (auto simp: md_resizeIfNeeded_def no_memory NO_MEMORY_st_def Let_def split: if_splits)
    then have "room lib e d m"
      using new_capacity_room [of "lib_entry_count lib m" e "lib_entry_capacity lib m"]
        new_capacity_room [of "lib_data_count lib m" d "lib_data_capacity lib m"] by (simp add: room_def)
    moreover have "c\<lparr>mBuffer := Some a\<rparr> = c" using a by simp
    ultimately show thesis using * a m s
      by (intro room [of s a m]) (auto simp: content_def finds_def fun_eq_iff fun_upd_idem)
  qed (use True no_room in blast)
next
  case False
  from md_resize_room [OF lib s False, of e d] show thesis using room by metis
qed

text \<open>Changing the buffer of one object leaves the others.\<close>

lemma md_find_const_frame:
  assumes lib: "lib_sound lib" and s: "owned R s" "cams s i = Some c"
    and s': "cams s' = (cams s)(i := Some c')"
      "\<And>b. bufs s b \<noteq> None \<Longrightarrow> Some b \<noteq> mBuffer c \<Longrightarrow> bufs s' b = bufs s b"
    and j: "j \<noteq> i"
  shows "md_find_const lib j u s' = md_find_const lib j u s"
proof (cases "cams s j")
  case (Some d)
  have "bufs s' b = bufs s b" if "mBuffer d = Some b" for b
  proof (rule s'(2))
    show "bufs s b \<noteq> None" using owned_buffer [OF s(1) Some] that by auto
    show "Some b \<noteq> mBuffer c" using ownedD(5) [OF s(1), of j b i] Some s(2) that j by (auto simp: owns_def)
  qed
  then have "content (mBuffer d) s' = content (mBuffer d) s" by (simp add: content_def split: option.split)
  with Some s'(1) j lib show ?thesis by (simp add: md_find_const_finds)
qed (use s'(1) j lib in \<open>simp add: md_find_const_finds\<close>)

lemma md_update_view:
  assumes lib: "lib_sound lib" "lib_laws lib" and s: "owned R s" "cams s i = Some c" "\<not> mLocked c"
    and t: "md_checkType lib t (md_type_of d) = 0"
  shows "\<exists>e s'. md_update lib i t d False s = Some (e, s') \<and>
    (e = 0 \<and>
     (\<forall>j u. md_find_const lib j u s' = (if j = i \<and> u = t then Some (Some (md_raw d)) else md_find_const lib j u s)) \<or>
     e = NO_MEMORY_st \<and> lib_fresh lib (bufs s) = None \<and>
     (\<forall>j u. md_find_const lib j u s' = (if j = i then Some None else md_find_const lib j u s)))"
proof -
  from t obtain ty where ty: "lib_tag_type lib t = Some ty"
    by (auto simp: md_checkType_def INVALID_OPERATION_st_def split: option.splits)
  have u: "md_update lib i t d False s = md_updateImpl lib i t (md_raw d) False s" using s t by (simp add: md_update_def)
  let ?n = "lib_data_size lib ty (md_raw d)"
  from lib s(1,2) show ?thesis
  proof (cases rule: md_resize_cases [of lib R s i c 1 ?n])
    case (room s1 a m)
    have "\<exists>m'. md_updateImpl lib i t (md_raw d) False s = Some (0, put_buf a m' s1) \<and>
      found lib m' = (found lib m)(t \<mapsto> md_raw d)"
    proof (cases "lib_find lib m t")
      case (Inl e)
      with lib_lawsD(1) [OF lib(2)] have e: "e = NAME_NOT_FOUND_st" by blast
      have "found lib m t = None" using Inl by (simp add: found_def)
      from lib_lawsD(6) [OF lib(2) this ty room(4)] Inl e ty s room(1-3) show ?thesis
        by (auto simp: md_updateImpl_def)
    next
      case (Inr p)
      obtain k old where p: "p = (k, old)" by force
      have "Camera_Metadata.room lib 0 ?n m" using room(4) by (simp add: room_def)
      from lib_lawsD(7) [OF lib(2) _ ty this] Inr p ty s room(1-3) show ?thesis
        by (fastforce simp: md_updateImpl_def)
    qed
    then obtain m' where m': "md_updateImpl lib i t (md_raw d) False s = Some (0, put_buf a m' s1)"
      "found lib m' = (found lib m)(t \<mapsto> md_raw d)" by blast
    have "md_find_const lib j u (put_buf a m' s1) = (if j = i \<and> u = t then Some (Some (md_raw d)) else md_find_const lib j u s)" for j u
    proof (cases "j = i")
      case True
      with s(2) room(2,5,6) m'(2) lib(1) show ?thesis by (auto simp: md_find_const_finds content_def finds_def)
    next
      case False
      have "md_find_const lib j u (put_buf a m' s1) = md_find_const lib j u s"
        by (rule md_find_const_frame [OF lib(1) s(1,2) _ _ False]) (use room(2,7) in auto)
      with False show ?thesis by simp
    qed
    with m'(1) u show ?thesis by auto
  next
    case no_room
    let ?s = "put_cam i (c\<lparr>mBuffer := None\<rparr>) s"
    have "md_updateImpl lib i t (md_raw d) False s = Some (NO_MEMORY_st, ?s)"
      using ty s(2,3) no_room(1) by (simp add: md_updateImpl_def NO_MEMORY_st_def)
    moreover have "md_find_const lib j u ?s = (if j = i then Some None else md_find_const lib j u s)" for j u
    proof (cases "j = i")
      case True
      with lib(1) show ?thesis by (simp add: md_find_const_finds put_cam_def content_def finds_def)
    next
      case False
      have "md_find_const lib j u ?s = md_find_const lib j u s"
        by (rule md_find_const_frame [OF lib(1) s(1,2) _ _ False]) (simp_all add: put_cam_def)
      with False show ?thesis by simp
    qed
    ultimately show ?thesis using no_room(2) u by auto
  qed
qed

lemma md_erase_view:
  assumes lib: "lib_sound lib" "lib_laws lib"
    and s: "owned R s" "cams s i = Some c" "\<not> mLocked c" "mBuffer c = Some a"
  shows "\<exists>s'. md_erase lib i t s = Some (0, s') \<and>
    (\<forall>j u. md_find_const lib j u s' = (if j = i \<and> u = t then Some None else md_find_const lib j u s))"
proof -
  note Some = s(4)
  with owned_buffer [OF s(1,2)] obtain m where m: "bufs s a = Some m" by auto
  show ?thesis
  proof (cases "lib_find lib m t")
    case (Inl e)
    with lib_lawsD(1) [OF lib(2)] have e: "e = NAME_NOT_FOUND_st" by blast
    from Inl e Some m s lib(1) show ?thesis
      by (auto simp: md_erase_def content_def md_find_content_def md_find_const_finds finds_def found_def)
  next
    case (Inr p)
    obtain k old where p: "p = (k, old)" by force
    with lib_lawsD(8) [OF lib(2), of m t k old] Inr obtain m' where
      m': "lib_delete lib m k = (0, m')" "found lib m' = (found lib m)(t := None)" by blast
    have "md_find_const lib j u (put_buf a m' s) = (if j = i \<and> u = t then Some None else md_find_const lib j u s)" for j u
    proof (cases "j = i")
      case True
      with s(2) Some m m'(2) lib(1) show ?thesis by (auto simp: md_find_const_finds content_def finds_def)
    next
      case False
      have "md_find_const lib j u (put_buf a m' s) = md_find_const lib j u s"
        by (rule md_find_const_frame [OF lib(1) s(1,2) _ _ False, of _ c]) (use s Some in \<open>auto simp: fun_upd_idem\<close>)
      with False show ?thesis by simp
    qed
    with Inr p Some m m'(1) s show ?thesis
      by (auto simp: md_erase_def content_def md_find_content_def)
  qed
qed

section \<open>A library of lists\<close>

text \<open>It shows that what is relied on can be so. A content is the free entries, the free data and the entries.\<close>

type_synonym list_md = "nat \<times> nat \<times> (tag \<times> md_data) list"

fun image_of :: "(tag \<times> md_data) list \<Rightarrow> 8 word list" where
  "image_of ((t, Bytes [x]) # l) = 1 # ucast t # x # image_of l"
| "image_of _ = [0]"

fun check_image :: "8 word list \<Rightarrow> (tag \<times> md_data) list option" where
  "check_image (h # t # x # b) = (if h = 1 then map_option (Cons (ucast t, Bytes [x])) (check_image b) else None)"
| "check_image b = (if b = [0] then Some [] else None)"

definition list_lib :: "list_md metadata_lib" where
  "list_lib =
     \<lparr>lib_fresh = (\<lambda>b. Some (while (\<lambda>a. b a \<noteq> None) Suc 0)),
      lib_empty = (\<lambda>e d. (e, d, [])),
      lib_clone = (\<lambda>(e, d, l). (0, 0, l)),
      lib_entry_count = (\<lambda>(e, d, l). length l),
      lib_entry_capacity = (\<lambda>(e, d, l). length l + e),
      lib_data_count = (\<lambda>(e, d, l). length l),
      lib_data_capacity = (\<lambda>(e, d, l). length l + d),
      lib_append = (\<lambda>(e, d, l) (_, _, l'). (0, e - length l', d - length l', l @ l')),
      lib_sort = (\<lambda>m. (0, m)),
      lib_find = (\<lambda>(e, d, l) t. case sv_index t (map fst l) of None \<Rightarrow> Inl NAME_NOT_FOUND_st | Some k \<Rightarrow> Inr (k, snd (l ! k))),
      lib_add = (\<lambda>(e, d, l) t x. (0, e - 1, d - 1, l @ [(t, x)])),
      lib_update = (\<lambda>(e, d, l) k x. (0, e, d, map (\<lambda>(t, y). (t, if t = fst (l ! k) then x else y)) l)),
      lib_delete = (\<lambda>(e, d, l) k. (0, e + 1, d + 1, filter (\<lambda>p. fst p \<noteq> fst (l ! k)) l)),
      lib_tag_type = (\<lambda>t. if t < 256 then Some TYPE_BYTE else if t < 512 then Some TYPE_INT32 else None),
      lib_data_size = (\<lambda>ty d. 1),
      lib_image = (\<lambda>(e, d, l). image_of l),
      lib_check = (\<lambda>b. map_option (\<lambda>l. (0, 0, l)) (check_image b)),
      lib_alignment = 8,
      null_count = None, null_find = Some 1, null_sort = Some 1, null_append = Some 1\<rparr>"

lemma list_lib_robust: "lib_robust list_lib"
proof -
  have "b (while (\<lambda>a. b a \<noteq> None) Suc 0) = None" if "finite (dom b)" for b :: "nat \<Rightarrow> list_md option"
  proof -
    from ex_new_if_finite [OF infinite_UNIV_nat that] obtain a where a: "b a = None" by auto
    show ?thesis
      by (rule while_rule [where P = "\<lambda>x. x \<le> a" and r = "measure (\<lambda>x. a - x)"])
        (use a in \<open>auto simp: Suc_le_eq order_le_less simp del: not_None_eq\<close>)
  qed
  then show ?thesis by (simp add: lib_robust_def list_lib_def)
qed

lemma list_lib_sound: "lib_sound list_lib"
  by (rule robust_sound [OF list_lib_robust])

text \<open>The same library with memory for two buffers.\<close>

definition small_lib :: "list_md metadata_lib" where
  "small_lib = list_lib\<lparr>lib_fresh := \<lambda>b. if b 0 = None then Some 0 else if b 1 = None then Some 1 else None\<rparr>"

lemma small_lib_sound: "lib_sound small_lib"
  using list_lib_sound by (auto simp: lib_sound_def small_lib_def list_lib_def)

lemma sv_index_map_of: "map_of l t = map_option (\<lambda>k. snd (l ! k)) (sv_index t (map fst l))"
  by (induction l) (auto simp: option.map_comp comp_def)

lemma list_lib_found: "found list_lib (e, d, l) = map_of l"
  by (auto simp: found_def list_lib_def fun_eq_iff sv_index_map_of split: option.splits)

lemma map_of_change: "map_of (map (\<lambda>(t', y). (t', if t' = t then x else y)) l) u =
    (if u = t then map_option (\<lambda>_. x) (map_of l t) else map_of l u)"
  by (induction l) auto

lemma list_lib_find: "lib_find list_lib (e, d, l) t = Inr (k, x) \<Longrightarrow> fst (l ! k) = t \<and> map_of l t = Some x"
  by (auto simp: list_lib_def sv_index_map_of dest: sv_index_Some split: option.splits)

lemma list_lib_laws: "lib_laws list_lib"
proof -
  note L = list_lib_def
  have 1: "lib_find list_lib m t = Inl e \<Longrightarrow> e = NAME_NOT_FOUND_st" for m t e
    by (cases m) (auto simp: L split: option.splits)
  have 2: "room list_lib 0 0 m" for m by (cases m) (simp add: room_def L)
  have 3: "found list_lib (lib_empty list_lib e d) t = None" for e d t
    using list_lib_found [of e d "[]"] by (simp add: L)
  have 4: "room list_lib e d (lib_empty list_lib e d)" for e d by (simp add: room_def L)
  have 5: "\<exists>m'. lib_append list_lib (lib_empty list_lib e d) m = (0, m') \<and> found list_lib m' = found list_lib m \<and> room list_lib k l m'"
    if "lib_entry_count list_lib m + k \<le> e" "lib_data_count list_lib m + l \<le> d" for e d k l m
    using that list_lib_found by (cases m) (auto simp: L room_def)
  have 6: "\<exists>m'. lib_add list_lib m t d = (0, m') \<and> found list_lib m' = (found list_lib m)(t \<mapsto> d)"
    if "found list_lib m t = None" for m t d
  proof -
    obtain e k l where m: "m = (e, k, l)" by (rule prod_cases3)
    have "lib_add list_lib m t d = (0, e - 1, k - 1, l @ [(t, d)])" by (simp add: m L)
    moreover have "map_of (l @ [(t, d)]) = (map_of l)(t \<mapsto> d)"
      using that by (auto simp: m list_lib_found map_add_def fun_eq_iff split: option.splits)
    ultimately show ?thesis by (simp add: m list_lib_found)
  qed
  have 7: "\<exists>m'. lib_update list_lib m k d = (0, m') \<and> found list_lib m' = (found list_lib m)(t \<mapsto> d)"
    if "lib_find list_lib m t = Inr (k, old)" for m t k d old
  proof -
    obtain e n l where m: "m = (e, n, l)" by (rule prod_cases3)
    from that list_lib_find have k: "fst (l ! k) = t" "map_of l t = Some old" by (auto simp: m)
    let ?l = "map (\<lambda>(t', y). (t', if t' = t then d else y)) l"
    have "lib_update list_lib m k d = (0, e, n, ?l)" using k(1) by (simp add: m L)
    moreover have "map_of ?l = (map_of l)(t \<mapsto> d)" using k(2) by (auto simp: map_of_change fun_eq_iff)
    ultimately show ?thesis by (simp add: m list_lib_found)
  qed
  have 8: "\<exists>m'. lib_delete list_lib m k = (0, m') \<and> found list_lib m' = (found list_lib m)(t := None)"
    if "lib_find list_lib m t = Inr (k, old)" for m t k old
  proof -
    obtain e n l where m: "m = (e, n, l)" by (rule prod_cases3)
    from that list_lib_find have k: "fst (l ! k) = t" by (auto simp: m)
    let ?l = "filter (\<lambda>p. fst p \<noteq> t) l"
    have "lib_delete list_lib m k = (0, e + 1, n + 1, ?l)" using k by (simp add: m L)
    moreover have "map_of ?l = (map_of l)(t := None)" by (induction l) (auto simp: fun_eq_iff)
    ultimately show ?thesis by (simp add: m list_lib_found)
  qed
  show ?thesis unfolding lib_laws_def
    by (intro conjI allI impI; (erule 1 | rule 2 3 4 | rule 5; assumption | erule 6 | erule 7 | erule 8))
qed

lemma list_parcel_exact: "blob_exact list_parcel"
  by (auto simp: blob_exact_def list_parcel_def split: list.splits parcel_item.splits if_splits)

section \<open>Through a parcel\<close>

text \<open>An address is aligned by less than the alignment, which is a power of two.\<close>

lemma align_to_offset:
  "align_to a (2 ^ k) - a < 2 ^ k" "0 \<le> align_to a (2 ^ k) - a"
proof -
  let ?x = "a + (2 ^ k - 1)"
  have "?x - take_bit k ?x = and ?x (not (take_bit k ?x))"
    by (rule disjunctive_diff_eq_and_not) (auto simp: bit_eq_iff bit_simps)
  also have "\<dots> = and ?x (not (mask k))" by (auto simp: bit_eq_iff bit_simps)
  finally have "align_to a (2 ^ k) = ?x - ?x mod 2 ^ k"
    by (simp add: align_to_def mask_eq_exp_minus_1 take_bit_eq_mod)
  moreover have "0 \<le> ?x mod 2 ^ k" "?x mod 2 ^ k < 2 ^ k" by simp_all
  ultimately show "align_to a (2 ^ k) - a < 2 ^ k" "0 \<le> align_to a (2 ^ k) - a" by linarith+
qed

lemma nat_sint_mod:
  assumes "n < 2 ^ 31" "31 \<le> W"
  shows "nat (sint (of_nat n :: 32 word) mod 2 ^ W) = n"
proof -
  have "sint (of_nat n :: 32 word) = int n" using assms(1) 
    by (simp add: signed_of_nat signed_take_bit_eq_take_bit_shift take_bit_int_eq_self)
  moreover have "(2::nat) ^ 31 \<le> 2 ^ W" using assms(2) by (rule power_increasing) simp
  then have "int n < 2 ^ W" using assms(1) by (metis less_le_trans of_nat_less_iff of_nat_numeral of_nat_power)
  ultimately show ?thesis by simp
qed

text \<open>What can be sent: a buffer that the library accepts when it sees its image, and of a size that fits.\<close>

definition md_sendable :: "'m metadata_lib \<Rightarrow> 'm option \<Rightarrow> bool" where
  "md_sendable lib om \<longleftrightarrow>
     (case om of
        None \<Rightarrow> True
      | Some m \<Rightarrow> lib_image lib m \<noteq> [] \<and> length (lib_image lib m) + lib_alignment lib < 2 ^ 31 \<and>
          (\<exists>k. lib_alignment lib = 2 ^ k) \<and> lib_check lib (lib_image lib m) = Some (lib_clone lib m))"

definition md_items :: "'m metadata_lib \<Rightarrow> 'm option \<Rightarrow> int \<Rightarrow> parcel_item list" where
  "md_items lib om a =
     (case om of
        None \<Rightarrow> [I32 0]
      | Some m \<Rightarrow>
          (let n = length (lib_image lib m) + lib_alignment lib
           in [I32 (of_nat n), Blob (blob_at n (lib_alignment lib) (lib_image lib m) a),
               I32 (of_int (align_to a (int (lib_alignment lib)) - a))]))"

lemma md_writes:
  assumes P: "parcel_laws P holds" and p: "holds p xs"
  shows "\<exists>a p'. md_write_buffer lib P om p = Some (0, p') \<and> holds p' (xs @ md_items lib om a)"
proof (cases om)
  case None
  with parcel_lawsD(1) [OF P p, of 0] show ?thesis by (auto simp: md_write_buffer_def md_items_def wr_int32_def)
next
  case (Some m)
  let ?n = "length (lib_image lib m) + lib_alignment lib" and ?A = "int (lib_alignment lib)"
  let ?f = "blob_at ?n (lib_alignment lib) (lib_image lib m)"
  obtain p1 where p1: "write_int32 P (of_nat ?n) p = (0, p1)" "holds p1 (xs @ [I32 (of_nat ?n)])"
    using parcel_lawsD(1) [OF P p] by blast
  obtain a p2 where p2: "write_blob P ?n ?f p1 = (Inr a, p2)" "holds p2 ((xs @ [I32 (of_nat ?n)]) @ [Blob (?f a)])"
    using parcel_lawsD(5) [OF P p1(2)] by blast
  obtain p3 where p3: "write_int32 P (of_int (align_to a ?A - a)) p2 = (0, p3)"
    "holds p3 (((xs @ [I32 (of_nat ?n)]) @ [Blob (?f a)]) @ [I32 (of_int (align_to a ?A - a))])"
    using parcel_lawsD(1) [OF P p2(2)] by blast
  with p1(1) p2(1) Some show ?thesis
    by (intro exI [of _ a] exI [of _ p3]) (simp add: md_write_buffer_def md_items_def Let_def wr_then_def wr_int32_def)
qed

lemma md_reads:
  assumes P: "parcel_laws P holds" and om: "md_sendable lib om" and W: "31 \<le> W"
  shows "reads holds (md_read_buffer lib W P) (md_items lib om a) (map_option (lib_clone lib) om)"
proof (cases om)
  case None
  have "reads holds (rd_return None) [] None" by (rule reads_return)
  with None show ?thesis unfolding md_read_buffer_def md_items_def
    by (auto intro!: reads_int32_then [OF P])
next
  case (Some m)
  let ?img = "lib_image lib m" and ?A = "lib_alignment lib"
  let ?n = "length ?img + ?A" and ?off = "nat (align_to a (int ?A) - a)"
  from om Some obtain k where A: "?A = 2 ^ k" by (auto simp: md_sendable_def)
  from om Some have n: "?img \<noteq> []" "?n < 2 ^ 31" and ok: "lib_check lib ?img = Some (lib_clone lib m)"
    by (simp_all add: md_sendable_def)
  have z: "0 \<le> align_to a (int ?A) - a" "align_to a (int ?A) - a < int ?A"
    using align_to_offset [of a k] by (simp_all only: A of_nat_power of_nat_numeral)
  then have off: "?off < ?A" by (simp only: nat_less_iff)
  have "(of_nat ?off :: 32 word) = of_int (int ?off)" by (simp only: of_int_of_nat_eq)
  with z(1) have off2: "of_int (align_to a (int ?A) - a) = (of_nat ?off :: 32 word)" by (simp only: nat_0_le)
  let ?b = "blob_at ?n ?A ?img a"
  have b: "length ?b = ?n" "take (length ?img) (drop ?off ?b) = ?img" using off by (simp_all add: blob_at_def Let_def)
  have offback: "nat (sint (of_nat ?off :: 32 word) mod 2 ^ W) = ?off" using off n(2) W by (intro nat_sint_mod) simp_all
  have blob: "reads holds (md_read_blob lib W P ?n) [Blob ?b, I32 (of_nat ?off)] (Some (lib_clone lib m))"
    unfolding reads_def
  proof (intro allI impI)
    fix p xs
    assume "holds p ([Blob ?b, I32 (of_nat ?off)] @ xs)"
    then have "holds p (Blob ?b # I32 (of_nat ?off) # xs)" by simp
    from parcel_lawsD(6) [OF P this] obtain p1 where p1: "read_blob P ?n p = (Inr ?b, p1)" "holds p1 (I32 (of_nat ?off) # xs)"
      by (auto simp: b(1))
    from parcel_lawsD(2) [OF P p1(2)] obtain p2 where p2: "read_int32 P p1 = (Inr (of_nat ?off), p2)" "holds p2 xs" by blast
    show "\<exists>p'. md_read_blob lib W P ?n p = Some (Inr (Some (lib_clone lib m)), p') \<and> holds p' xs"
      using p1(1) p2 off b ok unfolding md_read_blob_def
      by (simp add: rd_then_def rd_int32_def rd_return_def Let_def offback)
  qed
  have "nat (sint (of_nat ?n :: 32 word) mod 2 ^ W) = ?n" using n(2) W by (rule nat_sint_mod)
  moreover have "\<not> ?n \<le> ?A" "?n \<noteq> 0" using n(1) by simp_all
  ultimately have f: "reads holds
      (let blobSize = nat (sint (of_nat ?n :: 32 word) mod 2 ^ W)
       in if blobSize = 0 then rd_return None else if blobSize \<le> ?A then rd_fail BAD_VALUE_st
          else md_read_blob lib W P blobSize)
      [Blob ?b, I32 (of_nat ?off)] (Some (lib_clone lib m))"
    using blob by (simp only: Let_def if_False)
  have "md_items lib om a = I32 (of_nat ?n) # [Blob ?b, I32 (of_nat ?off)]"
    by (simp only: md_items_def Some option.case Let_def off2)
  with f Some show ?thesis unfolding md_read_buffer_def by (simp only: reads_int32_then [OF P] option.map)
qed

lemma md_clear_bufs:
  "md_clear i s = Some s' \<Longrightarrow> cams s i = Some c \<Longrightarrow> mBuffer c \<noteq> Some b \<Longrightarrow> bufs s' b = bufs s b"
  by (auto simp: md_clear_def free_camera_metadata_def split: if_splits option.splits)

lemma md_receives:
  assumes lib: "lib_robust lib" and r: "owned R r" "cams r j = Some d" "\<not> mLocked d"
    and p: "md_read_buffer lib W P p = Some (Inr om, p')"
  shows "\<exists>r' d'. md_readFromParcel lib W P j r p = Some (0, r', p') \<and> cams r' j = Some d' \<and>
    content (mBuffer d') r' = Some om"
proof (cases om)
  case None
  from step_clear [OF r(1,2)] r(3) obtain r' where "md_clear j r = Some r'" "cams r' j = Some (d\<lparr>mBuffer := None\<rparr>)" by auto
  with None r p show ?thesis by (simp add: md_readFromParcel_def content_def)
next
  case (Some m)
  from step_allocate [OF robust_sound [OF lib] r(1) robust_fresh [OF lib r(1)], of m] obtain b where
    b: "md_new_buffer lib m r = (Some b, put_buf b m r)" "b \<notin> R"
    "bufs r b = None" "step_ok R r (insert b R) (put_buf b m r)" by blast
  then have o: "owned (insert b R) (put_buf b m r)" by (simp add: step_ok_def)
  have d: "cams (put_buf b m r) j = Some d" using r(2) by simp
  from step_clear [OF o d] obtain r2 where r2: "md_clear j (put_buf b m r) = Some r2" by blast
  have "mBuffer d \<noteq> Some b" using owned_buffer [OF r(1,2)] b(3) by auto
  from md_clear_bufs [OF r2 d this] have "bufs r2 b = Some m" by simp
  with Some r b(1) r2 p show ?thesis
    by (intro exI [of _ "put_cam j (d\<lparr>mBuffer := Some b\<rparr>) r2"] exI [of _ "d\<lparr>mBuffer := Some b\<rparr>"])
      (simp add: md_readFromParcel_def content_def)
qed

section \<open>Properties\<close>

text \<open>C30: Buffers are neither used nor freed when they are not allocated, and none is lost while there is memory. Whatever
  a client does with objects, within the contract (it owns the buffers it gives away, and does not append an object
  to itself), every call is defined, also when memory runs out at any time. Afterwards each buffer belongs to
  exactly one object, or to the client, or is lost; and no more are lost than there were calls that append or
  update with no memory left.\<close>

theorem metadata_owned_once:
  assumes "lib_sound lib" "blob_exact P" "md_client lib W P ops ({}, md_start)"
  shows "\<exists>R L s. md_run lib W P ops ({}, md_start) = Some (R, s) \<and> owned (R \<union> L) s \<and> R \<inter> L = {} \<and>
    finite L \<and> card L \<le> md_starved lib W P ops ({}, md_start)"
proof -
  have "owned ({} \<union> {}) md_start" using owned_start by simp
  from md_run_ok [OF assms(1,2) this _ _ assms(3)] show ?thesis by auto
qed

definition md_ops1 :: "parcel_item list md_op list" where
  "md_ops1 =
     [New 0, Update 0 5 (Bytes [7]) False, New_Copy 1 0, Append 0 1, Lock 0, Clear 0, Swap 0 1, Unlock 0 (Some 0),
      Release 1, Destroy 1, Erase 0 5, New 2, Read 2 [I32 0], Destroy 0]"

lemma md_ops1_client: "md_client list_lib 64 list_parcel md_ops1 ({}, md_start)"
  by code_simp

text \<open>With memory for two buffers the second update of object 1 loses one.\<close>

definition md_ops3 :: "parcel_item list md_op list" where
  "md_ops3 =
     [New 0, Update 0 5 (Bytes [7]) False, New_Copy 1 0, Update 1 6 (Bytes [8]) False, New_Copy 2 1, Destroy 0, Destroy 1]"

lemma md_ops3_client: "md_client small_lib 64 list_parcel md_ops3 ({}, md_start)"
  by code_simp

lemma metadata_owned_once_witness:
  "(\<exists>R s. md_run list_lib 64 list_parcel md_ops1 ({}, md_start) = Some (R, s) \<and> owned R s) \<and>
   (\<exists>R L s. md_run small_lib 64 list_parcel md_ops3 ({}, md_start) = Some (R, s) \<and> owned (R \<union> L) s \<and>
      finite L \<and> card L \<le> 1)"
proof -
  have n: "md_starved list_lib 64 list_parcel md_ops1 ({}, md_start) = 0" by code_simp
  have n3: "md_starved small_lib 64 list_parcel md_ops3 ({}, md_start) = 1" by code_simp
  from metadata_owned_once [OF list_lib_sound list_parcel_exact md_ops1_client] n
  have "\<exists>R s. md_run list_lib 64 list_parcel md_ops1 ({}, md_start) = Some (R, s) \<and> owned R s" by auto
  with metadata_owned_once [OF small_lib_sound list_parcel_exact md_ops3_client] n3 show ?thesis by auto
qed

text \<open>C31: A lock protects what \<open>getAndLock\<close> returned. Whatever a client does within the contract after that, also
  with other objects, the locked object keeps its buffer and the buffer its content until it is unlocked or
  destroyed.\<close>

theorem metadata_lock_protects:
  assumes "lib_sound lib" "blob_exact P" "owned R s" "md_client lib W P ops (R, s)"
    and "cams s i = Some c" "mLocked c" "\<forall>op \<in> set ops. \<not> unlocks op i"
  shows "\<exists>R' s'. md_run lib W P ops (R, s) = Some (R', s') \<and> cams s' i = Some c \<and>
    content (mBuffer c) s' = content (mBuffer c) s"
proof -
  from md_run_ok [OF assms(1,2), of R "{}" s W ops] assms(3,4) obtain R' s' where
    "md_run lib W P ops (R, s) = Some (R', s')" "\<And>i. (\<forall>op \<in> set ops. \<not> unlocks op i) \<Longrightarrow> kept i s s'" by auto
  with assms(5-7) show ?thesis unfolding kept_def by blast
qed

definition md_state1 :: "list_md md_state" where
  "md_state1 =
     \<lparr>bufs = [0 \<mapsto> (0, 0, [(5, Bytes [7])])],
      cams = [0 \<mapsto> \<lparr>mBuffer = Some 0, mLocked = True\<rparr>, 1 \<mapsto> \<lparr>mBuffer = None, mLocked = False\<rparr>]\<rparr>"

lemma md_state1_owned: "owned {} md_state1"
  by (rule ownedI) (auto simp: md_state1_def owns_def split: if_splits)

definition md_ops2 :: "parcel_item list md_op list" where
  "md_ops2 = [Update 0 6 (Bytes [8]) False, Assign 1 0, Append 1 0, Acquire 1 0, Swap 0 1, Clear 0, Read 0 [I32 0]]"

lemma md_ops2_client: "md_client list_lib 64 list_parcel md_ops2 ({}, md_state1)"
  by code_simp

lemma metadata_lock_protects_witness:
  "\<exists>R' s'. md_run list_lib 64 list_parcel md_ops2 ({}, md_state1) = Some (R', s') \<and>
     cams s' 0 = Some \<lparr>mBuffer = Some 0, mLocked = True\<rparr> \<and> content (Some 0) s' = content (Some 0) md_state1"
  using metadata_lock_protects [OF list_lib_sound list_parcel_exact md_state1_owned md_ops2_client,
      of 0 "\<lparr>mBuffer = Some 0, mLocked = True\<rparr>"]
  by (simp add: md_state1_def md_ops2_def)

text \<open>C32: What is set is found. An update of a tag of the right type, in an object that is not locked, with data that are
  not part of its own buffer, succeeds with whatever room was left in its buffer, unless a larger one is needed
  and there is no memory for it. Afterwards the new value is found under the tag, and under every other tag and in
  every other object what was found before. Without memory it reports so, and then the object has lost all its
  entries, while the others still have theirs. With data in the own buffer it is refused and changes nothing.\<close>

theorem metadata_update_found:
  assumes "lib_sound lib" "lib_laws lib" "owned R s" "cams s i = Some c" "\<not> mLocked c"
    and "md_checkType lib t (md_type_of d) = 0"
  shows "(\<exists>e s'. md_update lib i t d False s = Some (e, s') \<and>
      (e = 0 \<and>
       (\<forall>j u. md_find_const lib j u s' = (if j = i \<and> u = t then Some (Some (md_raw d)) else md_find_const lib j u s)) \<or>
       e = NO_MEMORY_st \<and> lib_fresh lib (bufs s) = None \<and>
       (\<forall>j u. md_find_const lib j u s' = (if j = i then Some None else md_find_const lib j u s)))) \<and>
    md_update lib i t d True s = Some (INVALID_OPERATION_st, s)"
proof -
  from assms(6) obtain ty where "lib_tag_type lib t = Some ty"
    by (auto simp: md_checkType_def INVALID_OPERATION_st_def split: option.splits)
  with assms(4-6) have "md_update lib i t d True s = Some (INVALID_OPERATION_st, s)"
    by (simp add: md_update_def md_updateImpl_def)
  with md_update_view [OF assms] show ?thesis by blast
qed

definition md_state2 :: "list_md md_state" where
  "md_state2 =
     \<lparr>bufs = [0 \<mapsto> (0, 0, [(5, Bytes [7])])], cams = [0 \<mapsto> \<lparr>mBuffer = Some 0, mLocked = False\<rparr>]\<rparr>"

lemma md_state2_owned: "owned {} md_state2"
  by (rule ownedI) (auto simp: md_state2_def owns_def split: if_splits)

lemma metadata_update_found_witness:
  "\<exists>s'. md_update list_lib 0 6 (String8 ''on'') False md_state2 = Some (0, s') \<and>
    (\<forall>j u. md_find_const list_lib j u s' =
       (if j = 0 \<and> u = 6 then Some (Some (Bytes [111, 110, 0])) else md_find_const list_lib j u md_state2))"
proof -
  have s: "cams md_state2 0 = Some \<lparr>mBuffer = Some 0, mLocked = False\<rparr>" by (simp add: md_state2_def)
  have t: "md_checkType list_lib 6 (md_type_of (String8 ''on'')) = 0" by code_simp
  have l: "\<not> mLocked \<lparr>mBuffer = Some 0, mLocked = False\<rparr>" by simp
  have raw: "md_raw (String8 ''on'') = Bytes [111, 110, 0]" by code_simp
  have mem: "lib_fresh list_lib (bufs md_state2) \<noteq> None" by (rule robust_fresh [OF list_lib_robust md_state2_owned])
  from metadata_update_found [OF list_lib_sound list_lib_laws md_state2_owned s l t, unfolded raw] mem
  show ?thesis by auto
qed

text \<open>C33: Metadata arrive as they were sent. What one process writes to a parcel, also no metadata, another reads into
  an object that is not locked, which then holds a copy; nothing is left in the parcel, wherever the blob lies.\<close>

theorem metadata_roundtrip:
  assumes "parcel_laws P holds" "lib_robust lib" "31 \<le> W"
    and "cams s i = Some c" "content (mBuffer c) s = Some om" "md_sendable lib om"
    and "owned R r" "cams r j = Some d" "\<not> mLocked d" "holds p []"
  shows "\<exists>p1 p2 r' d'. md_writeToParcel lib P i s p = Some (0, p1) \<and>
    md_readFromParcel lib W P j r p1 = Some (0, r', p2) \<and> holds p2 [] \<and>
    cams r' j = Some d' \<and> content (mBuffer d') r' = Some (map_option (lib_clone lib) om)"
proof -
  obtain a p1 where p1: "md_write_buffer lib P om p = Some (0, p1)" "holds p1 (md_items lib om a @ [])"
    using md_writes [OF assms(1,10), of lib om] by auto
  obtain p2 where p2: "md_read_buffer lib W P p1 = Some (Inr (map_option (lib_clone lib) om), p2)" "holds p2 []"
    using md_reads [OF assms(1,6,3), of a] p1(2) unfolding reads_def by blast
  from md_receives [OF assms(2,7-9) p2(1)] p1(1) p2(2) assms(4,5) show ?thesis by (auto simp: md_writeToParcel_def)
qed

lemma metadata_roundtrip_witness:
  "\<exists>p1 p2 r' d'. md_writeToParcel list_lib list_parcel 0 md_state2 [] = Some (0, p1) \<and>
    md_readFromParcel list_lib 64 list_parcel 0 md_state2 p1 = Some (0, r', p2) \<and> [] = p2 \<and>
    cams r' 0 = Some d' \<and> content (mBuffer d') r' = Some (Some (0, 0, [(5, Bytes [7])]))"
proof -
  have "md_sendable list_lib (Some (0, 0, [(5, Bytes [7])]))"
    by (simp add: md_sendable_def list_lib_def exI [of _ 3])
  moreover have "lib_clone list_lib (0, 0, [(5, Bytes [7])]) = (0, 0, [(5, Bytes [7])])" by (simp add: list_lib_def)
  ultimately show ?thesis
    using metadata_roundtrip [OF list_parcel_laws list_lib_robust, of 64 md_state2 0 "\<lparr>mBuffer = Some 0, mLocked = False\<rparr>"
        "Some (0, 0, [(5, Bytes [7])])" "{}" md_state2 0 "\<lparr>mBuffer = Some 0, mLocked = False\<rparr>" "[]"] md_state2_owned
    by (simp add: md_state2_def content_def)
qed

text \<open>C34: A parcel cannot do harm. Whatever it holds, reading from it is defined: no byte outside of the blob is
  looked at. If reading fails, also for want of memory, or if the object is locked, nothing has changed and no buffer is left behind.\<close>

theorem failed_read_keeps_metadata:
  assumes "lib_sound lib" "blob_exact P" "owned R s" "there i s"
  shows "\<exists>e s' p'. md_readFromParcel lib W P i s p = Some (e, s', p') \<and> owned R s' \<and> (e \<noteq> 0 \<longrightarrow> s' = s)"
proof -
  from assms(4) obtain c where "cams s i = Some c" by (auto simp: there_def)
  from step_readFromParcel [OF assms(1-3) this, of W p] show ?thesis by (auto simp: step_ok_def)
qed

lemma failed_read_keeps_metadata_witness:
  "\<exists>e s' p'. md_readFromParcel list_lib 64 list_parcel 0 md_state2 [I32 9, Blob [1, 2, 3, 4, 5, 6, 7, 8, 9], I32 8] = Some (e, s', p') \<and>
     owned {} s' \<and> (e \<noteq> 0 \<longrightarrow> s' = md_state2)"
  by (rule failed_read_keeps_metadata [OF list_lib_sound list_parcel_exact md_state2_owned])
    (simp add: there_def md_state2_def)

section \<open>Where it goes wrong\<close>

text \<open>Without memory for a larger buffer an update loses the old one: the object is empty afterwards, although the
  result is an error, and the buffer belongs to nobody.\<close>

lemma update_without_memory:
  "\<exists>s'. md_update (list_lib\<lparr>lib_fresh := \<lambda>b. None\<rparr>) 0 6 (Bytes [8]) False md_state2 = Some (NO_MEMORY_st, s') \<and>
     cams s' = [0 \<mapsto> \<lparr>mBuffer = None, mLocked = False\<rparr>] \<and> bufs s' = bufs md_state2"
  by (simp add: md_update_def md_checkType_def md_updateImpl_def md_resizeIfNeeded_def md_new_buffer_def new_capacity_def
      list_lib_def md_state2_def put_cam_def NO_MEMORY_st_def)

text \<open>An object appended to itself is freed when its buffer has to grow, and then read.\<close>

lemma append_to_itself: "md_append list_lib 0 0 md_state2 = None"
  by code_simp

text \<open>Acquiring from a locked object takes nothing but clears the own metadata.\<close>

lemma acquire_from_locked:
  "map_option (\<lambda>s'. cams s' 1) (md_acquire 1 0 (put_cam 1 \<lparr>mBuffer = Some 1, mLocked = False\<rparr> (put_buf 1 (0, 0, []) md_state1))) =
     Some (Some \<lparr>mBuffer = None, mLocked = False\<rparr>)"
  by code_simp

text \<open>A blob that cannot be written is reported as success.\<close>

lemma blob_error_is_lost:
  "md_writeToParcel list_lib (list_parcel\<lparr>write_blob := \<lambda>n fill p. (Inl NO_MEMORY_st, p)\<rparr>) 0 md_state2 [] = Some (0, [I32 12, I32 0])"
  by code_simp

end
