(* ===== verification/Binder.thy ===== *)
theory Binder
  imports Android
begin

text \<open>
  Calls between processes, as the camera interfaces make them.

  \<^item> A proxy (\<open>Bp\<dots>\<close>) writes the arguments of a call to a parcel, lets \<open>transact\<close> bring it to the other process,
    and reads the result from the reply. There \<open>onTransact\<close> (\<open>Bn\<dots>\<close>) reads the call, lets the implementation do it
    and writes the result. An interface is the record \<open>iface\<close> of these four functions and the codes of its calls;
    the order in which a proxy and \<open>onTransact\<close> use them is that of all interfaces.
  \<^item> The framework is a parameter: parcels (\<open>parcel_laws\<close>), and \<open>transact\<close>, which in the theorems is \<open>onTransact\<close> of
    the other side. Objects are named by addresses, the same in both processes.
  \<^item> The locale \<open>binder_interface\<close> states when the two sides fit; then a call of the proxy is a call of the
    implementation (\<open>transparent\<close>).
\<close>

section \<open>Statuses\<close>

definition PERMISSION_DENIED_st :: int where "PERMISSION_DENIED_st = - 1"
definition UNKNOWN_TRANSACTION_st :: int where "UNKNOWN_TRANSACTION_st = - 74"
definition FAILED_TRANSACTION_st :: int where "FAILED_TRANSACTION_st = - 2147483646"
definition EPROTO_st :: int where "EPROTO_st = - 71"

section \<open>Arguments\<close>

text \<open>The results of writing single values are ignored everywhere. Reading a value that is not there gives 0, the empty
  string or NULL.\<close>

fun write_any :: "'p parcel \<Rightarrow> parcel_item \<Rightarrow> 'p \<Rightarrow> int \<times> 'p" where
  "write_any P (I32 v) p = write_int32 P v p"
| "write_any P (S8 s) p = write_string8 P s p"
| "write_any P it p = write_item P it p"

definition put_items :: "'p parcel \<Rightarrow> parcel_item list \<Rightarrow> 'p writer" where
  "put_items P its p = Some (0, fold (\<lambda>it q. snd (write_any P it q)) its p)"

definition put_ignored :: "'p writer \<Rightarrow> 'p writer" where
  "put_ignored w p = map_option (\<lambda>(_, p'). (0, p')) (w p)"

definition rd_map :: "('a \<Rightarrow> 'b) \<Rightarrow> ('p, 'a) reader \<Rightarrow> ('p, 'b) reader" where
  "rd_map f r = rd_then r (\<lambda>v. rd_return (f v))"

text \<open>What is read in spite of an error.\<close>

definition rd_default :: "'a \<Rightarrow> ('p, 'a) reader \<Rightarrow> ('p, 'a) reader" where
  "rd_default d r p = (case r p of None \<Rightarrow> None | Some (Inl _, p') \<Rightarrow> Some (Inr d, p') | Some (Inr v, p') \<Rightarrow> Some (Inr v, p'))"

definition rd_item :: "'p parcel \<Rightarrow> item_kind \<Rightarrow> ('p, parcel_item) reader" where
  "rd_item P k p = Some (read_item P k p)"

definition get_int32 :: "'p parcel \<Rightarrow> ('p, 32 word) reader" where "get_int32 P = rd_default 0 (rd_int32 P)"

definition get_int64 :: "'p parcel \<Rightarrow> ('p, 64 word) reader" where
  "get_int64 P = rd_default 0 (rd_map (\<lambda>it. case it of I64 v \<Rightarrow> v | _ \<Rightarrow> 0) (rd_item P K_int64))"

definition get_string16 :: "'p parcel \<Rightarrow> ('p, string) reader" where
  "get_string16 P = rd_default [] (rd_map (\<lambda>it. case it of S16 s \<Rightarrow> s | _ \<Rightarrow> []) (rd_item P K_string16))"

definition get_binder :: "'p parcel \<Rightarrow> ('p, ptr) reader" where
  "get_binder P = rd_default None (rd_map (\<lambda>it. case it of Strong b \<Rightarrow> b | _ \<Rightarrow> None) (rd_item P K_binder))"

definition get_fd :: "'p parcel \<Rightarrow> ('p, 32 word) reader" where
  "get_fd P = rd_default (- 22) (rd_map (\<lambda>it. case it of Fd v \<Rightarrow> v | _ \<Rightarrow> 0) (rd_item P K_fd))"

definition get_raw :: "'p parcel \<Rightarrow> nat \<Rightarrow> ('p, 8 word list option) reader" where
  "get_raw P n = rd_default None (rd_map (\<lambda>it. case it of Raw b \<Rightarrow> Some b | _ \<Rightarrow> None) (rd_item P (K_raw n)))"

definition get_exception :: "'p parcel \<Rightarrow> ('p, int) reader" where
  "get_exception P p = (case read_item P K_exception p of (Inl e, p') \<Rightarrow> Some (Inr e, p') | (Inr _, p') \<Rightarrow> Some (Inr 0, p'))"

text \<open>\<open>CHECK_INTERFACE\<close>.\<close>

definition check_interface :: "'p parcel \<Rightarrow> string \<Rightarrow> ('p, 'a) reader \<Rightarrow> ('p, 'a) reader" where
  "check_interface P d r p =
     (case read_item P K_token p of
        (Inr (Token t), p') \<Rightarrow> if t = d then r p' else Some (Inl PERMISSION_DENIED_st, p')
      | (_, p') \<Rightarrow> Some (Inl PERMISSION_DENIED_st, p'))"

subsection \<open>What is put is got\<close>

lemma write_any:
  assumes "parcel_laws P holds" "holds p xs" "\<forall>b. it \<noteq> Blob b"
  shows "holds (snd (write_any P it p)) (xs @ [it])"
proof (cases "kind_of it")
  case None
  with assms(3) consider v where "it = I32 v" | s where "it = S8 s" by (cases it) auto
  then show ?thesis
  proof cases
    case 1
    then show ?thesis using parcel_lawsD(1) [OF assms(1,2), of v] by auto
  next
    case 2
    then show ?thesis using parcel_lawsD(3) [OF assms(1,2), of s] by auto
  qed
next
  case (Some k)
  then have "write_any P it p = write_item P it p" by (cases it) simp_all
  with parcel_lawsD(7) [OF assms(1) _ assms(2), of it] Some show ?thesis by fastforce
qed

definition plain :: "parcel_item list \<Rightarrow> bool" where "plain its \<longleftrightarrow> (\<forall>it \<in> set its. \<forall>b. it \<noteq> Blob b)"

lemma plain_simps [simp]: "plain []" "plain (it # its) \<longleftrightarrow> (\<forall>b. it \<noteq> Blob b) \<and> plain its"
  "plain (its @ js) \<longleftrightarrow> plain its \<and> plain js"
  by (auto simp: plain_def)

lemma writes_items:
  assumes P: "parcel_laws P holds"
  shows "plain its \<Longrightarrow> writes holds (put_items P its) its"
proof -
  have "plain its \<Longrightarrow> holds p xs \<Longrightarrow> holds (fold (\<lambda>it q. snd (write_any P it q)) its p) (xs @ its)" for p xs
  proof (induction its arbitrary: p xs)
    case (Cons it its)
    then show ?case using write_any [OF P Cons.prems(2), of it] Cons.IH [of "snd (write_any P it p)" "xs @ [it]"] by simp
  qed simp
  then show "plain its \<Longrightarrow> writes holds (put_items P its) its" by (simp add: writes_def put_items_def)
qed

lemma writes_ignored: "writes holds w its \<Longrightarrow> writes holds (put_ignored w) its"
  by (fastforce simp: writes_def put_ignored_def)

lemma reads_map: "reads holds r its v \<Longrightarrow> reads holds (rd_map f r) its (f v)"
  using reads_then [of holds r its v "\<lambda>v. rd_return (f v)" "[]" "f v"] by (simp add: rd_map_def reads_return)

lemma reads_default: "reads holds r its v \<Longrightarrow> reads holds (rd_default d r) its v"
  by (fastforce simp: reads_def rd_default_def)

lemma reads_item: "parcel_laws P holds \<Longrightarrow> kind_of it = Some k \<Longrightarrow> reads holds (rd_item P k) [it] it"
  by (auto simp: reads_def rd_item_def dest: parcel_lawsD(8))

lemma reads_item_map: "parcel_laws P holds \<Longrightarrow> kind_of it = Some k \<Longrightarrow> f it = v \<Longrightarrow> reads holds (rd_map f (rd_item P k)) [it] v"
  using reads_map [OF reads_item] by blast

lemma reads_get:
  assumes "parcel_laws P holds"
  shows "reads holds (get_int32 P) [I32 v] v" "reads holds (get_int64 P) [I64 w] w" "reads holds (get_string16 P) [S16 s] s"
    "reads holds (get_binder P) [Strong b] b" "reads holds (get_fd P) [Fd v] v" "reads holds (get_raw P (length bs)) [Raw bs] (Some bs)"
    "reads holds (get_exception P) [No_Exception] 0"
  using assms
  by (auto simp: get_int32_def get_int64_def get_string16_def get_binder_def get_fd_def get_raw_def
      intro!: reads_default reads_int32 reads_item_map)
    (auto simp: reads_def get_exception_def dest: parcel_lawsD(8) [of P holds No_Exception K_exception])

lemma reads_check_interface:
  assumes "parcel_laws P holds" "reads holds r its v"
  shows "reads holds (check_interface P d r) (Token d # its) v"
  unfolding reads_def
proof (intro allI impI)
  fix p xs
  assume "holds p ((Token d # its) @ xs)"
  then obtain p' where "read_item P K_token p = (Inr (Token d), p')" "holds p' (its @ xs)"
    using parcel_lawsD(8) [OF assms(1), of "Token d" K_token p "its @ xs"] by auto
  with assms(2) show "\<exists>p'. check_interface P d r p = Some (Inr v, p') \<and> holds p' xs"
    by (simp add: reads_def check_interface_def)
qed

lemma reads_Cons: "reads holds r [it] v \<Longrightarrow> reads holds (f v) its u \<Longrightarrow> reads holds (rd_then r f) (it # its) u"
  using reads_then [of holds r "[it]" v f its u] by simp

text \<open>A writer whose items a reader understands, whatever they are.\<close>

definition sends :: "('p \<Rightarrow> parcel_item list \<Rightarrow> bool) \<Rightarrow> 'p writer \<Rightarrow> ('p, 'a) reader \<Rightarrow> 'a \<Rightarrow> bool" where
  "sends holds w r v \<longleftrightarrow>
     (\<forall>p xs. holds p xs \<longrightarrow> (\<exists>its p'. w p = Some (0, p') \<and> holds p' (xs @ its) \<and> reads holds r its v))"

lemma sendsI: "writes holds w its \<Longrightarrow> reads holds r its v \<Longrightarrow> sends holds w r v"
  unfolding sends_def writes_def by blast

lemma sends_items: "parcel_laws P holds \<Longrightarrow> plain its \<Longrightarrow> reads holds r its v \<Longrightarrow> sends holds (put_items P its) r v"
  using sendsI [of holds "put_items P its" its r v] writes_items [of P holds its] by simp

lemma sends_then:
  assumes "sends holds w r v" "sends holds w' (f v) u"
  shows "sends holds (wr_then w w') (rd_then r f) u"
  unfolding sends_def
proof (intro allI impI)
  fix p xs
  assume "holds p xs"
  with assms(1) obtain its p1 where 1: "w p = Some (0, p1)" "holds p1 (xs @ its)" "reads holds r its v"
    unfolding sends_def by blast
  with assms(2) obtain js p2 where 2: "w' p1 = Some (0, p2)" "holds p2 ((xs @ its) @ js)" "reads holds (f v) js u"
    unfolding sends_def by blast
  show "\<exists>its p'. wr_then w w' p = Some (0, p') \<and> holds p' (xs @ its) \<and> reads holds (rd_then r f) its u"
    using 1(1) 2(1,2) reads_then [of holds r its v f js u, OF 1(3) 2(3)] by (intro exI [of _ "its @ js"] exI [of _ p2]) (simp add: wr_then_def)
qed

lemma sends_ignored: "sends holds w r v \<Longrightarrow> sends holds (put_ignored w) r v"
  by (fastforce simp: sends_def put_ignored_def)

lemma sends_mono:
  assumes "sends holds w r v" "\<And>its. reads holds r its v \<Longrightarrow> reads holds r' its v'"
  shows "sends holds w r' v'"
  unfolding sends_def
proof (intro allI impI)
  fix p xs
  assume "holds p xs"
  with assms(1) obtain its p' where "w p = Some (0, p')" "holds p' (xs @ its)" "reads holds r its v"
    unfolding sends_def by blast
  with assms(2) show "\<exists>its p'. w p = Some (0, p') \<and> holds p' (xs @ its) \<and> reads holds r' its v'" by blast
qed

lemma sends_default: "sends holds w r v \<Longrightarrow> sends holds w (rd_default d r) v"
  by (rule sends_mono [OF _ reads_default])

lemma sends_map: "sends holds w r v \<Longrightarrow> sends holds w (rd_map f r) (f v)"
  by (rule sends_mono [OF _ reads_map])

lemma sends_check:
  assumes "parcel_laws P holds" "sends holds w r v"
  shows "sends holds (wr_then (put_items P [Token d]) w) (check_interface P d r) v"
  unfolding sends_def
proof (intro allI impI)
  fix p xs
  assume "holds p xs"
  with writes_items [OF assms(1), of "[Token d]"] obtain p1 where
    1: "put_items P [Token d] p = Some (0, p1)" "holds p1 (xs @ [Token d])" by (auto simp: writes_def)
  with assms(2) obtain js p2 where 2: "w p1 = Some (0, p2)" "holds p2 ((xs @ [Token d]) @ js)" "reads holds r js v"
    unfolding sends_def by blast
  show "\<exists>its p'. wr_then (put_items P [Token d]) w p = Some (0, p') \<and> holds p' (xs @ its) \<and>
      reads holds (check_interface P d r) its v"
    using 1(1) 2(1,2) reads_check_interface [OF assms(1) 2(3), of d]
    by (intro exI [of _ "Token d # js"] exI [of _ p2]) (simp add: wr_then_def)
qed

text \<open>A reader that may look for the end of the parcel.\<close>

definition reads_end :: "('p \<Rightarrow> parcel_item list \<Rightarrow> bool) \<Rightarrow> ('p, 'a) reader \<Rightarrow> parcel_item list \<Rightarrow> 'a \<Rightarrow> bool" where
  "reads_end holds r its v \<longleftrightarrow> (\<forall>p. holds p its \<longrightarrow> (\<exists>p'. r p = Some (Inr v, p')))"

definition rd_avail :: "'p parcel \<Rightarrow> ('p, 'a) reader \<Rightarrow> 'a \<Rightarrow> ('p, 'a) reader" where
  "rd_avail P r d p = (if data_avail P p then r p else Some (Inr d, p))"

lemma reads_endI: "reads holds r its v \<Longrightarrow> reads_end holds r its v"
  unfolding reads_def reads_end_def by (metis append_Nil2)

lemma reads_end_Cons:
  assumes "reads holds r [it] v" "reads_end holds (f v) its u"
  shows "reads_end holds (rd_then r f) (it # its) u"
  unfolding reads_end_def
proof (intro allI impI)
  fix p
  assume "holds p (it # its)"
  with assms(1) obtain p' where "r p = Some (Inr v, p')" "holds p' its" unfolding reads_def by fastforce
  with assms(2) show "\<exists>p'. rd_then r f p = Some (Inr u, p')" by (simp add: reads_end_def rd_then_def)
qed

lemma reads_end_map: "reads_end holds r its v \<Longrightarrow> reads_end holds (rd_map f r) its (f v)"
  by (fastforce simp: reads_end_def rd_map_def rd_then_def rd_return_def)

lemma reads_end_avail:
  assumes "parcel_laws P holds"
  shows "reads_end holds (rd_avail P r d) [] d"
    "reads_end holds r (it # its) v \<Longrightarrow> reads_end holds (rd_avail P r d) (it # its) v"
  using parcel_lawsD(9) [OF assms] by (auto simp: reads_end_def rd_avail_def)

lemma reads_end_check:
  assumes "parcel_laws P holds" "reads_end holds r its v"
  shows "reads_end holds (check_interface P d r) (Token d # its) v"
  unfolding reads_end_def
proof (intro allI impI)
  fix p
  assume "holds p (Token d # its)"
  then obtain p' where "read_item P K_token p = (Inr (Token d), p')" "holds p' its"
    using parcel_lawsD(8) [OF assms(1), of "Token d" K_token p its] by auto
  with assms(2) show "\<exists>p'. check_interface P d r p = Some (Inr v, p')"
    by (simp add: reads_end_def check_interface_def)
qed

text \<open>A new parcel is written, and read to its end.\<close>

definition delivers :: "'p parcel \<Rightarrow> 'p writer \<Rightarrow> ('p, 'a) reader \<Rightarrow> 'a \<Rightarrow> bool" where
  "delivers P w r v \<longleftrightarrow> (\<exists>p p'. w (new_parcel P) = Some (0, p) \<and> r p = Some (Inr v, p'))"

lemma sends_delivers:
  assumes "parcel_laws P holds" "sends holds w r v"
  shows "delivers P w r v"
proof -
  from assms(2) parcel_lawsD(10) [OF assms(1)] obtain its p where
    "w (new_parcel P) = Some (0, p)" "holds p its" "reads holds r its v" unfolding sends_def by (metis append_Nil)
  then show ?thesis unfolding delivers_def reads_def by (metis append_Nil2)
qed

lemma items_delivered:
  assumes "parcel_laws P holds" "plain its" "reads_end holds r its v"
  shows "delivers P (put_items P its) r v"
  using writes_items [OF assms(1,2)] assms(3) parcel_lawsD(10) [OF assms(1)]
  by (fastforce simp: delivers_def reads_end_def writes_def)

section \<open>Interfaces\<close>

record ('p, 'c, 'r) iface =
  call_code :: "'c \<Rightarrow> nat"
  put_call :: "'c \<Rightarrow> 'p writer"
  get_call :: "nat \<Rightarrow> ('p, 'c) reader"
  own_answer :: "'c \<Rightarrow> 'r option"
  put_result :: "'c \<Rightarrow> 'r \<Rightarrow> 'p writer"
  get_result :: "'c \<Rightarrow> int \<Rightarrow> 'p \<Rightarrow> ('p, 'r) reader"
  not_sent :: "'c \<Rightarrow> int \<Rightarrow> 'r"

text \<open>\<open>onTransact\<close> of an implementation over a state \<open>'w\<close>: the status, the reply, the state. Some calls it answers
  without the implementation (\<open>own_answer\<close>).\<close>

definition on_transact ::
  "('p, 'c, 'r) iface \<Rightarrow> 'p parcel \<Rightarrow> ('c \<Rightarrow> 'w \<Rightarrow> 'r \<times> 'w) \<Rightarrow> nat \<Rightarrow> 'p \<Rightarrow> 'w \<Rightarrow> (int \<times> 'p \<times> 'w) option" where
  "on_transact I P impl code data w =
     (case get_call I code data of
        None \<Rightarrow> None
      | Some (Inl e, _) \<Rightarrow> Some (e, new_parcel P, w)
      | Some (Inr c, _) \<Rightarrow>
          (let (r, w') = (case own_answer I c of Some r \<Rightarrow> (r, w) | None \<Rightarrow> impl c w)
           in map_option (\<lambda>(_, reply). (0, reply, w')) (put_result I c r (new_parcel P))))"

text \<open>A proxy. \<open>get_result\<close> is given the status of \<open>transact\<close> and the own parcel.\<close>

definition proxy ::
  "('p, 'c, 'r) iface \<Rightarrow> 'p parcel \<Rightarrow> (nat \<Rightarrow> 'p \<Rightarrow> 'w \<Rightarrow> (int \<times> 'p \<times> 'w) option) \<Rightarrow> 'c \<Rightarrow> 'w \<Rightarrow> ('r \<times> 'w) option" where
  "proxy I P transact c w =
     (case put_call I c (new_parcel P) of
        None \<Rightarrow> None
      | Some (e, data) \<Rightarrow>
          if e \<noteq> 0 then Some (not_sent I c e, w)
          else (case transact (call_code I c) data w of
                  None \<Rightarrow> None
                | Some (st, reply, w') \<Rightarrow>
                    (case get_result I c st (at_end P data) reply of
                       None \<Rightarrow> None
                     | Some (Inl e, _) \<Rightarrow> Some (not_sent I c e, w')
                     | Some (Inr r, _) \<Rightarrow> Some (r, w'))))"

text \<open>\<open>served c\<close> is the call that the implementation sees, \<open>seen c r\<close> the result that the caller sees.\<close>

locale binder_interface =
  fixes P :: "'p parcel"
    and I :: "('p, 'c, 'r) iface"
    and ok :: "'c \<Rightarrow> bool"
    and fits :: "'c \<Rightarrow> 'r \<Rightarrow> bool"
    and served :: "'c \<Rightarrow> 'c"
    and seen :: "'c \<Rightarrow> 'r \<Rightarrow> 'r"
  assumes passed_on: "ok c \<Longrightarrow> own_answer I (served c) = None"
    and call_delivered: "ok c \<Longrightarrow> delivers P (put_call I c) (get_call I (call_code I c)) (served c)"
    and result_delivered: "ok c \<Longrightarrow> fits c r \<Longrightarrow>
      delivers P (put_result I (served c) r) (get_result I c 0 (at_end P d)) (seen c r)"
begin

lemma transparent:
  assumes "ok c" "impl (served c) w = (r, w')" "fits c r"
  shows "proxy I P (on_transact I P impl) c w = Some (seen c r, w')"
proof -
  from call_delivered [OF assms(1)] obtain data q where
    d: "put_call I c (new_parcel P) = Some (0, data)" "get_call I (call_code I c) data = Some (Inr (served c), q)"
    unfolding delivers_def by blast
  from result_delivered [OF assms(1,3), of data] obtain reply q' where
    "put_result I (served c) r (new_parcel P) = Some (0, reply)"
    "get_result I c 0 (at_end P data) reply = Some (Inr (seen c r), q')"
    unfolding delivers_def by blast
  with d assms(2) passed_on [OF assms(1)] show ?thesis by (simp add: proxy_def on_transact_def)
qed

end

text \<open>A parcel without the token of the interface does nothing.\<close>

lemma check_interface_refuses:
  "read_item P K_token p = (Inr (Token t), p') \<Longrightarrow> t \<noteq> d \<Longrightarrow> check_interface P d r p = Some (Inl PERMISSION_DENIED_st, p')"
  by (simp add: check_interface_def)

end
