(* ===== verification/Camera_Ipc.thy ===== *)
theory Camera_Ipc
  imports Binder
begin

text \<open>
  The camera interfaces with plain arguments: \<open>ICamera.cpp\<close>, \<open>ICameraClient.cpp\<close>, \<open>ICameraRecordingProxy.cpp\<close>,
  \<open>ICameraRecordingProxyListener.cpp\<close>, \<open>ICameraServiceListener.cpp\<close>, \<open>ICameraServiceProxy.cpp\<close>.

  \<^item> For each a datatype of its calls (pointers to objects are addresses), the code of a call, the items that the
    proxy writes, the cases of \<open>onTransact\<close>, the items of the reply and what the proxy reads of it.
  \<^item> Shown: a call through the proxy is a call of the implementation, with the same arguments, result and effects.
  \<^item> The enumerators of the codes count from \<open>FIRST_CALL_TRANSACTION\<close>, 1. One-way calls are calls here: the order
    in which they arrive is kept, the caller does not wait.
\<close>

section \<open>Cases of \<open>onTransact\<close>\<close>

type_synonym i32 = "32 word"

definition dispatch :: "'p parcel \<Rightarrow> string \<Rightarrow> (nat \<times> ('p, 'c) reader) list \<Rightarrow> nat \<Rightarrow> ('p, 'c) reader" where
  "dispatch P d cases code =
     (case map_of cases code of None \<Rightarrow> rd_fail UNKNOWN_TRANSACTION_st | Some r \<Rightarrow> check_interface P d r)"

definition bool32 :: "bool \<Rightarrow> i32" where "bool32 b = (if b then 1 else 0)"

lemma bool32 [simp]: "bool32 b \<noteq> 0 \<longleftrightarrow> b" "bool32 b = 0 \<longleftrightarrow> \<not> b"
  by (simp_all add: bool32_def)

datatype ipc_result = Void | Status i32 | Flag bool | Text string

text \<open>The result of a call: none, a status, a truth value or a string.\<close>

datatype result_kind = R_void | R_exception | R_status | R_flag | R_text

fun of_kind :: "result_kind \<Rightarrow> ipc_result \<Rightarrow> bool" where
  "of_kind R_void r \<longleftrightarrow> r = Void"
| "of_kind R_exception r \<longleftrightarrow> r = Void"
| "of_kind R_status r \<longleftrightarrow> (\<exists>v. r = Status v)"
| "of_kind R_flag r \<longleftrightarrow> (\<exists>b. r = Flag b)"
| "of_kind R_text r \<longleftrightarrow> (\<exists>s. r = Text s)"

fun reply_items :: "result_kind \<Rightarrow> ipc_result \<Rightarrow> parcel_item list" where
  "reply_items R_exception r = [No_Exception]"
| "reply_items k (Status v) = [I32 v]"
| "reply_items k (Flag b) = [I32 (bool32 b)]"
| "reply_items k (Text s) = [S8 s]"
| "reply_items k Void = []"

fun read_reply :: "result_kind \<Rightarrow> 'p parcel \<Rightarrow> ('p, ipc_result) reader" where
  "read_reply R_void P = rd_return Void"
| "read_reply R_exception P = rd_map (\<lambda>_. Void) (get_exception P)"
| "read_reply R_status P = rd_map Status (get_int32 P)"
| "read_reply R_flag P = rd_map (\<lambda>v. Flag (v \<noteq> 0)) (get_int32 P)"
| "read_reply R_text P = rd_map Text (rd_string8 P)"

lemmas reads_intros = reads_return reads_map reads_Cons reads_get reads_string8 reads_check_interface

lemma plain_reply [simp]: "plain (reply_items k r)"
  by (induction k r rule: reply_items.induct) simp_all

lemma reply_sent:
  assumes P: "parcel_laws P holds" and r: "of_kind k r"
  shows "sends holds (put_items P (reply_items k r)) (read_reply k P) r"
proof (rule sends_items [OF P plain_reply])
  have "reads holds (rd_map (\<lambda>v. Flag (v \<noteq> 0)) (get_int32 P)) [I32 (bool32 b)] (Flag b)" for b
    using reads_map [OF reads_get(1) [OF P], of "\<lambda>v. Flag (v \<noteq> 0)" "bool32 b"] by simp
  then show "reads holds (read_reply k P) (reply_items k r) r"
    using r by (cases k) (auto intro!: reads_intros P)
qed

text \<open>An interface whose calls are written as plain items and whose replies are of these kinds.\<close>

definition plain_iface ::
  "'p parcel \<Rightarrow> string \<Rightarrow> ('c \<Rightarrow> nat) \<Rightarrow> ('c \<Rightarrow> parcel_item list) \<Rightarrow> (nat \<times> ('p, 'c) reader) list \<Rightarrow> ('c \<Rightarrow> result_kind) \<Rightarrow>
   ('p, 'c, ipc_result) iface" where
  "plain_iface P d code args cases kind =
     \<lparr>call_code = code, put_call = (\<lambda>c. put_items P (Token d # args c)), get_call = dispatch P d cases,
      own_answer = (\<lambda>c. None),
      put_result = (\<lambda>c r. put_items P (reply_items (kind c) r)), get_result = (\<lambda>c st own. read_reply (kind c) P),
      not_sent = (\<lambda>c e. Void)\<rparr>"

definition plain_understood ::
  "('p \<Rightarrow> parcel_item list \<Rightarrow> bool) \<Rightarrow> 'p parcel \<Rightarrow> ('c \<Rightarrow> nat) \<Rightarrow> ('c \<Rightarrow> parcel_item list) \<Rightarrow> (nat \<times> ('p, 'c) reader) list \<Rightarrow> 'c \<Rightarrow> bool" where
  "plain_understood holds P code args cases c \<longleftrightarrow>
     parcel_laws P holds \<and> plain (args c) \<and> (\<exists>r. map_of cases (code c) = Some r \<and> reads_end holds r (args c) c)"

lemma understoodI:
  assumes "parcel_laws P holds" "plain (args c)" "\<exists>r. map_of cases (code c) = Some r \<and> reads holds r (args c) c"
  shows "plain_understood holds P code args cases c"
proof -
  from assms(3) obtain r where "map_of cases (code c) = Some r" "reads holds r (args c) c" by blast
  with assms(1,2) reads_endI [of holds r "args c" c] show ?thesis by (auto simp: plain_understood_def)
qed

interpretation plain_calls: binder_interface P "plain_iface P d code args cases kind"
    "plain_understood holds P code args cases" "\<lambda>c r. of_kind (kind c) r" "\<lambda>c. c" "\<lambda>c r. r"
  for holds P d code args cases kind
proof
  fix c
  assume ok: "plain_understood holds P code args cases c"
  then have P: "parcel_laws P holds" by (simp add: plain_understood_def)
  let ?I = "plain_iface P d code args cases kind"
  show "own_answer ?I c = None" by (simp add: plain_iface_def)
  show "delivers P (put_call ?I c) (get_call ?I (call_code ?I c)) c"
    using ok by (auto simp: plain_understood_def plain_iface_def dispatch_def intro!: items_delivered reads_end_check P)
  show "delivers P (put_result ?I c r) (get_result ?I c 0 (at_end P d')) r" if "of_kind (kind c) r" for r d'
    using sends_delivers [OF P reply_sent [OF P that]] by (simp add: plain_iface_def)
qed

section \<open>\<open>ICamera\<close>\<close>

datatype camera_call =
    Cam_disconnect
  | Cam_setPreviewTarget ptr
  | Cam_setPreviewCallbackFlag i32
  | Cam_setPreviewCallbackTarget ptr
  | Cam_startPreview
  | Cam_stopPreview
  | Cam_autoFocus
  | Cam_cancelAutoFocus
  | Cam_takePicture i32
  | Cam_setParameters string
  | Cam_getParameters
  | Cam_sendCommand i32 i32 i32
  | Cam_connect ptr
  | Cam_lock
  | Cam_unlock
  | Cam_previewEnabled
  | Cam_startRecording
  | Cam_stopRecording
  | Cam_recordingEnabled
  | Cam_releaseRecordingFrame ptr
  | Cam_storeMetaDataInBuffers bool

fun camera_code :: "camera_call \<Rightarrow> nat" where
  "camera_code Cam_disconnect = 1"
| "camera_code (Cam_setPreviewTarget _) = 2"
| "camera_code (Cam_setPreviewCallbackFlag _) = 3"
| "camera_code (Cam_setPreviewCallbackTarget _) = 4"
| "camera_code Cam_startPreview = 5"
| "camera_code Cam_stopPreview = 6"
| "camera_code Cam_autoFocus = 7"
| "camera_code Cam_cancelAutoFocus = 8"
| "camera_code (Cam_takePicture _) = 9"
| "camera_code (Cam_setParameters _) = 10"
| "camera_code Cam_getParameters = 11"
| "camera_code (Cam_sendCommand _ _ _) = 12"
| "camera_code (Cam_connect _) = 13"
| "camera_code Cam_lock = 14"
| "camera_code Cam_unlock = 15"
| "camera_code Cam_previewEnabled = 16"
| "camera_code Cam_startRecording = 17"
| "camera_code Cam_stopRecording = 18"
| "camera_code Cam_recordingEnabled = 19"
| "camera_code (Cam_releaseRecordingFrame _) = 20"
| "camera_code (Cam_storeMetaDataInBuffers _) = 21"

fun camera_args :: "camera_call \<Rightarrow> parcel_item list" where
  "camera_args (Cam_setPreviewTarget b) = [Strong b]"
| "camera_args (Cam_setPreviewCallbackFlag v) = [I32 v]"
| "camera_args (Cam_setPreviewCallbackTarget b) = [Strong b]"
| "camera_args (Cam_takePicture v) = [I32 v]"
| "camera_args (Cam_setParameters s) = [S8 s]"
| "camera_args (Cam_sendCommand c a b) = [I32 c, I32 a, I32 b]"
| "camera_args (Cam_connect b) = [Strong b]"
| "camera_args (Cam_releaseRecordingFrame b) = [Strong b]"
| "camera_args (Cam_storeMetaDataInBuffers b) = [I32 (bool32 b)]"
| "camera_args _ = []"

definition camera_cases :: "'p parcel \<Rightarrow> (nat \<times> ('p, camera_call) reader) list" where
  "camera_cases P =
     [(1, rd_return Cam_disconnect),
      (2, rd_map Cam_setPreviewTarget (get_binder P)),
      (3, rd_map Cam_setPreviewCallbackFlag (get_int32 P)),
      (4, rd_map Cam_setPreviewCallbackTarget (get_binder P)),
      (5, rd_return Cam_startPreview),
      (17, rd_return Cam_startRecording),
      (6, rd_return Cam_stopPreview),
      (18, rd_return Cam_stopRecording),
      (20, rd_map Cam_releaseRecordingFrame (get_binder P)),
      (21, rd_map (\<lambda>v. Cam_storeMetaDataInBuffers (v \<noteq> 0)) (get_int32 P)),
      (16, rd_return Cam_previewEnabled),
      (19, rd_return Cam_recordingEnabled),
      (7, rd_return Cam_autoFocus),
      (8, rd_return Cam_cancelAutoFocus),
      (9, rd_map Cam_takePicture (get_int32 P)),
      (10, rd_map Cam_setParameters (rd_string8 P)),
      (11, rd_return Cam_getParameters),
      (12, rd_then (get_int32 P) (\<lambda>c. rd_then (get_int32 P) (\<lambda>a. rd_map (Cam_sendCommand c a) (get_int32 P)))),
      (13, rd_map Cam_connect (get_binder P)),
      (14, rd_return Cam_lock),
      (15, rd_return Cam_unlock)]"

fun camera_kind :: "camera_call \<Rightarrow> result_kind" where
  "camera_kind Cam_disconnect = R_exception"
| "camera_kind (Cam_setPreviewCallbackFlag _) = R_void"
| "camera_kind Cam_stopPreview = R_void"
| "camera_kind Cam_stopRecording = R_void"
| "camera_kind (Cam_releaseRecordingFrame _) = R_void"
| "camera_kind Cam_previewEnabled = R_flag"
| "camera_kind Cam_recordingEnabled = R_flag"
| "camera_kind Cam_getParameters = R_text"
| "camera_kind _ = R_status"

definition camera_iface :: "'p parcel \<Rightarrow> ('p, camera_call, ipc_result) iface" where
  "camera_iface P =
     plain_iface P ''android.hardware.ICamera'' camera_code camera_args (camera_cases P) camera_kind"

lemma reads_bool_map: "parcel_laws P holds \<Longrightarrow> reads holds (rd_map (\<lambda>v. f (v \<noteq> 0)) (get_int32 P)) [I32 (bool32 b)] (f b)"
  using reads_map [OF reads_get(1), of P holds "\<lambda>v. f (v \<noteq> 0)" "bool32 b"] by simp

lemma camera_understood:
  assumes P: "parcel_laws P holds"
  shows "plain_understood holds P camera_code camera_args (camera_cases P) c"
proof -
  have "plain (camera_args c)" by (cases c) simp_all
  moreover have "\<exists>r. map_of (camera_cases P) (camera_code c) = Some r \<and> reads holds r (camera_args c) c"
    by (cases c) (simp_all add: camera_cases_def, (rule reads_bool_map [OF P] reads_intros P)+)
  ultimately show ?thesis by (rule understoodI [OF P])
qed

text \<open>C37: A call of \<open>ICamera\<close> through the proxy is a call of the implementation in the other process: the same call with
  the same arguments reaches it once, its effects are those of the local call, and the caller gets its result.\<close>

theorem camera_calls_transparent:
  assumes "parcel_laws P holds" "impl c w = (r, w')" "of_kind (camera_kind c) r"
  shows "proxy (camera_iface P) P (on_transact (camera_iface P) P impl) c w = Some (r, w')"
  unfolding camera_iface_def
  using assms camera_understood [OF assms(1)] by (intro plain_calls.transparent [where holds = holds])

definition camera_impl1 :: "camera_call \<Rightarrow> camera_call list \<Rightarrow> ipc_result \<times> camera_call list" where
  "camera_impl1 c w = (Status 7, w @ [c])"

lemma camera_calls_transparent_witness:
  "proxy (camera_iface list_parcel) list_parcel (on_transact (camera_iface list_parcel) list_parcel camera_impl1)
     (Cam_sendCommand 1 2 3) [Cam_lock] = Some (Status 7, [Cam_lock, Cam_sendCommand 1 2 3])"
  by (rule camera_calls_transparent [OF list_parcel_laws]) (simp_all add: camera_impl1_def)

section \<open>\<open>ICameraClient\<close>\<close>

text \<open>Which frames come as file descriptors, and the size of a face, are the vendor's.\<close>

record client_consts =
  fd_frame :: "i32 \<Rightarrow> i32 \<Rightarrow> bool"
  face_size :: nat
  size_t_width :: nat

datatype client_call =
    Cl_notifyCallback i32 i32 i32
  | Cl_dataCallback i32 ptr "(i32 \<times> 8 word list option) option"
  | Cl_dataCallbackTimestamp "64 word" i32 ptr

fun client_code :: "client_call \<Rightarrow> nat" where
  "client_code (Cl_notifyCallback _ _ _) = 1"
| "client_code (Cl_dataCallback _ _ _) = 2"
| "client_code (Cl_dataCallbackTimestamp _ _ _) = 3"

text \<open>The bytes at \<open>faces\<close>, of which there are \<open>number_of_faces\<close>.\<close>

fun client_args :: "client_consts \<Rightarrow> client_call \<Rightarrow> parcel_item list" where
  "client_args K (Cl_notifyCallback t a b) = [I32 t, I32 a, if fd_frame K t a then Fd b else I32 b]"
| "client_args K (Cl_dataCallback t b (Some (n, Some faces))) = [I32 t, Strong b, I32 n, Raw faces]"
| "client_args K (Cl_dataCallback t b (Some (n, None))) = [I32 t, Strong b, I32 n]"
| "client_args K (Cl_dataCallback t b None) = [I32 t, Strong b]"
| "client_args K (Cl_dataCallbackTimestamp ts t b) = [I64 ts, I32 t, Strong b]"

definition faces_bytes :: "client_consts \<Rightarrow> i32 \<Rightarrow> nat" where
  "faces_bytes K n = nat (int (face_size K) * sint n mod 2 ^ size_t_width K)"

definition client_cases :: "client_consts \<Rightarrow> 'p parcel \<Rightarrow> (nat \<times> ('p, client_call) reader) list" where
  "client_cases K P =
     [(1, rd_then (get_int32 P) (\<lambda>t. rd_then (get_int32 P) (\<lambda>a.
            rd_map (Cl_notifyCallback t a) (if fd_frame K t a then get_fd P else get_int32 P)))),
      (2, rd_then (get_int32 P) (\<lambda>t. rd_then (get_binder P) (\<lambda>b.
            rd_map (Cl_dataCallback t b)
              (rd_avail P (rd_then (get_int32 P) (\<lambda>n. rd_map (\<lambda>f. Some (n, f)) (get_raw P (faces_bytes K n)))) None)))),
      (3, rd_then (get_int64 P) (\<lambda>ts. rd_then (get_int32 P) (\<lambda>t. rd_map (Cl_dataCallbackTimestamp ts t) (get_binder P))))]"

definition client_iface :: "client_consts \<Rightarrow> 'p parcel \<Rightarrow> ('p, client_call, ipc_result) iface" where
  "client_iface K P =
     plain_iface P ''android.hardware.ICameraClient'' client_code (client_args K) (client_cases K P) (\<lambda>_. R_void)"

fun client_ok :: "client_consts \<Rightarrow> client_call \<Rightarrow> bool" where
  "client_ok K (Cl_dataCallback t b (Some (n, f))) \<longleftrightarrow> (\<exists>faces. f = Some faces \<and> length faces = faces_bytes K n)"
| "client_ok K _ \<longleftrightarrow> True"

lemmas reads_end_intros = reads_end_Cons reads_end_map reads_end_avail reads_endI

lemma client_understood:
  assumes P: "parcel_laws P holds" and c: "client_ok K c"
  shows "plain_understood holds P client_code (client_args K) (client_cases K P) c"
proof -
  have raw: "length f = faces_bytes K n \<Longrightarrow> reads holds (get_raw P (faces_bytes K n)) [Raw f] (Some f)" for f n
    using reads_get(6) [OF P, of f] by simp
  have "\<exists>r. map_of (client_cases K P) (client_code c) = Some r \<and> reads_end holds r (client_args K c) c"
  proof (cases c)
    case (Cl_notifyCallback t a b)
    then show ?thesis
      by (auto simp: client_cases_def intro!: reads_endI reads_intros P)
  next
    case (Cl_dataCallback t b m)
    have "reads_end holds (rd_avail P (rd_then (get_int32 P) (\<lambda>n. rd_map (\<lambda>f. Some (n, f)) (get_raw P (faces_bytes K n)))) None)
      (case m of Some (n, Some f) \<Rightarrow> [I32 n, Raw f] | _ \<Rightarrow> []) m"
    proof (cases m)
      case None
      then show ?thesis by (simp add: reads_end_avail(1) [OF P])
    next
      case (Some p)
      then obtain n f where p: "m = Some (n, Some f)" "length f = faces_bytes K n" using c Cl_dataCallback by (cases p) auto
      have "reads holds (rd_then (get_int32 P) (\<lambda>n. rd_map (\<lambda>f. Some (n, f)) (get_raw P (faces_bytes K n)))) [I32 n, Raw f] m"
        unfolding p(1) by (rule reads_Cons [OF reads_get(1) [OF P]]) (rule reads_map [OF raw [OF p(2)]])
      then show ?thesis using p by (simp add: reads_end_avail(2) [OF P] reads_endI)
    qed
    then have "reads_end holds (snd (client_cases K P ! 1)) (client_args K c) c"
      using c Cl_dataCallback
      by (auto simp: client_cases_def intro!: reads_end_Cons reads_end_map reads_get P split: option.splits)
    then show ?thesis using Cl_dataCallback by (simp add: client_cases_def)
  next
    case (Cl_dataCallbackTimestamp ts t b)
    then show ?thesis by (auto simp: client_cases_def intro!: reads_endI reads_intros P)
  qed
  moreover have "plain (client_args K c)" by (cases "(K, c)" rule: client_args.cases) auto
  ultimately show ?thesis using P unfolding plain_understood_def by blast
qed

lemma client_calls_transparent:
  assumes "parcel_laws P holds" "client_ok K c" "impl c w = (Void, w')"
  shows "proxy (client_iface K P) P (on_transact (client_iface K P) P impl) c w = Some (Void, w')"
  unfolding client_iface_def
  using assms client_understood [OF assms(1,2)] by (intro plain_calls.transparent [where holds = holds]) simp_all

section \<open>\<open>ICameraRecordingProxy\<close> and its listener\<close>

datatype recording_call =
    Rec_startRecording ptr
  | Rec_stopRecording
  | Rec_releaseRecordingFrame ptr

fun recording_code :: "recording_call \<Rightarrow> nat" where
  "recording_code (Rec_startRecording _) = 1"
| "recording_code Rec_stopRecording = 2"
| "recording_code (Rec_releaseRecordingFrame _) = 3"

fun recording_args :: "recording_call \<Rightarrow> parcel_item list" where
  "recording_args (Rec_startRecording b) = [Strong b]"
| "recording_args Rec_stopRecording = []"
| "recording_args (Rec_releaseRecordingFrame b) = [Strong b]"

definition recording_cases :: "'p parcel \<Rightarrow> (nat \<times> ('p, recording_call) reader) list" where
  "recording_cases P =
     [(1, rd_map Rec_startRecording (get_binder P)),
      (2, rd_return Rec_stopRecording),
      (3, rd_map Rec_releaseRecordingFrame (get_binder P))]"

fun recording_kind :: "recording_call \<Rightarrow> result_kind" where
  "recording_kind (Rec_startRecording _) = R_status"
| "recording_kind _ = R_void"

definition recording_iface :: "'p parcel \<Rightarrow> ('p, recording_call, ipc_result) iface" where
  "recording_iface P =
     plain_iface P ''android.hardware.ICameraRecordingProxy'' recording_code recording_args (recording_cases P) recording_kind"

datatype frame_call = Frame_dataCallbackTimestamp "64 word" i32 ptr

fun frame_code :: "frame_call \<Rightarrow> nat" where
  "frame_code (Frame_dataCallbackTimestamp _ _ _) = 1"

fun frame_args :: "frame_call \<Rightarrow> parcel_item list" where
  "frame_args (Frame_dataCallbackTimestamp ts t b) = [I64 ts, I32 t, Strong b]"

definition frame_cases :: "'p parcel \<Rightarrow> (nat \<times> ('p, frame_call) reader) list" where
  "frame_cases P =
     [(1, rd_then (get_int64 P) (\<lambda>ts. rd_then (get_int32 P) (\<lambda>t. rd_map (Frame_dataCallbackTimestamp ts t) (get_binder P))))]"

definition frame_iface :: "'p parcel \<Rightarrow> ('p, frame_call, ipc_result) iface" where
  "frame_iface P =
     plain_iface P ''android.hardware.ICameraRecordingProxyListener'' frame_code frame_args (frame_cases P) (\<lambda>_. R_void)"

section \<open>\<open>ICameraServiceListener\<close> and \<open>ICameraServiceProxy\<close>\<close>

datatype listener_call =
    Ls_onStatusChanged i32 i32
  | Ls_onTorchStatusChanged i32 string

fun listener_code :: "listener_call \<Rightarrow> nat" where
  "listener_code (Ls_onStatusChanged _ _) = 1"
| "listener_code (Ls_onTorchStatusChanged _ _) = 2"

fun listener_args :: "listener_call \<Rightarrow> parcel_item list" where
  "listener_args (Ls_onStatusChanged s c) = [I32 s, I32 c]"
| "listener_args (Ls_onTorchStatusChanged s c) = [I32 s, S16 c]"

definition listener_cases :: "'p parcel \<Rightarrow> (nat \<times> ('p, listener_call) reader) list" where
  "listener_cases P =
     [(1, rd_then (get_int32 P) (\<lambda>s. rd_map (Ls_onStatusChanged s) (get_int32 P))),
      (2, rd_then (get_int32 P) (\<lambda>s. rd_map (Ls_onTorchStatusChanged s) (get_string16 P)))]"

definition listener_iface :: "'p parcel \<Rightarrow> ('p, listener_call, ipc_result) iface" where
  "listener_iface P =
     plain_iface P ''android.hardware.ICameraServiceListener'' listener_code listener_args (listener_cases P) (\<lambda>_. R_void)"

datatype service_proxy_call =
    Sp_pingForUserUpdate
  | Sp_notifyCameraState string i32

fun service_proxy_code :: "service_proxy_call \<Rightarrow> nat" where
  "service_proxy_code Sp_pingForUserUpdate = 1"
| "service_proxy_code (Sp_notifyCameraState _ _) = 2"

fun service_proxy_args :: "service_proxy_call \<Rightarrow> parcel_item list" where
  "service_proxy_args Sp_pingForUserUpdate = []"
| "service_proxy_args (Sp_notifyCameraState c s) = [S16 c, I32 s]"

definition service_proxy_cases :: "'p parcel \<Rightarrow> (nat \<times> ('p, service_proxy_call) reader) list" where
  "service_proxy_cases P =
     [(1, rd_return Sp_pingForUserUpdate),
      (2, rd_then (get_string16 P) (\<lambda>c. rd_map (Sp_notifyCameraState c) (get_int32 P)))]"

definition service_proxy_iface :: "'p parcel \<Rightarrow> ('p, service_proxy_call, ipc_result) iface" where
  "service_proxy_iface P =
     plain_iface P ''android.hardware.ICameraServiceProxy'' service_proxy_code service_proxy_args (service_proxy_cases P) (\<lambda>_. R_void)"

lemma small_understood:
  assumes P: "parcel_laws P holds"
  shows "plain_understood holds P recording_code recording_args (recording_cases P) rc"
    "plain_understood holds P frame_code frame_args (frame_cases P) fc"
    "plain_understood holds P listener_code listener_args (listener_cases P) lc"
    "plain_understood holds P service_proxy_code service_proxy_args (service_proxy_cases P) sc"
proof -
  have "\<exists>r. map_of (recording_cases P) (recording_code rc) = Some r \<and> reads holds r (recording_args rc) rc"
    by (cases rc) (simp_all add: recording_cases_def, (rule reads_intros P)+)
  moreover have "\<exists>r. map_of (frame_cases P) (frame_code fc) = Some r \<and> reads holds r (frame_args fc) fc"
    by (cases fc) (simp add: frame_cases_def, (rule reads_intros P)+)
  moreover have "\<exists>r. map_of (listener_cases P) (listener_code lc) = Some r \<and> reads holds r (listener_args lc) lc"
    by (cases lc) (simp_all add: listener_cases_def, (rule reads_intros P)+)
  moreover have "\<exists>r. map_of (service_proxy_cases P) (service_proxy_code sc) = Some r \<and> reads holds r (service_proxy_args sc) sc"
    by (cases sc) (simp_all add: service_proxy_cases_def, (rule reads_intros P)+)
  moreover have "plain (recording_args rc)" by (cases rc) simp_all
  moreover have "plain (frame_args fc)" by (cases fc) simp
  moreover have "plain (listener_args lc)" by (cases lc) simp_all
  moreover have "plain (service_proxy_args sc)" by (cases sc) simp_all
  ultimately show "plain_understood holds P recording_code recording_args (recording_cases P) rc"
    "plain_understood holds P frame_code frame_args (frame_cases P) fc"
    "plain_understood holds P listener_code listener_args (listener_cases P) lc"
    "plain_understood holds P service_proxy_code service_proxy_args (service_proxy_cases P) sc"
    by (blast intro: understoodI [OF P])+
qed

text \<open>The notifications: everything that the service tells the applications and the system arrives as it was told.\<close>

lemma recording_calls_transparent:
  assumes "parcel_laws P holds" "impl c w = (r, w')" "of_kind (recording_kind c) r"
  shows "proxy (recording_iface P) P (on_transact (recording_iface P) P impl) c w = Some (r, w')"
  unfolding recording_iface_def
  using assms small_understood(1) [OF assms(1)] by (intro plain_calls.transparent [where holds = holds])

lemma frame_calls_transparent:
  assumes "parcel_laws P holds" "impl c w = (Void, w')"
  shows "proxy (frame_iface P) P (on_transact (frame_iface P) P impl) c w = Some (Void, w')"
  unfolding frame_iface_def
  using assms small_understood(2) [OF assms(1)] by (intro plain_calls.transparent [where holds = holds]) simp_all

lemma listener_calls_transparent:
  assumes "parcel_laws P holds" "impl c w = (Void, w')"
  shows "proxy (listener_iface P) P (on_transact (listener_iface P) P impl) c w = Some (Void, w')"
  unfolding listener_iface_def
  using assms small_understood(3) [OF assms(1)] by (intro plain_calls.transparent [where holds = holds]) simp_all

lemma service_proxy_calls_transparent:
  assumes "parcel_laws P holds" "impl c w = (Void, w')"
  shows "proxy (service_proxy_iface P) P (on_transact (service_proxy_iface P) P impl) c w = Some (Void, w')"
  unfolding service_proxy_iface_def
  using assms small_understood(4) [OF assms(1)] by (intro plain_calls.transparent [where holds = holds]) simp_all

end
