(* ===== verification/Camera_Objects.thy ===== *)
theory Camera_Objects
  imports Camera_Ipc Camera_Metadata Vendor_Tags
begin

text \<open>
  The objects that the camera interfaces send: \<open>CaptureRequest.cpp\<close>, \<open>CaptureResult.cpp\<close>, \<open>OutputConfiguration.cpp\<close>.

  \<^item> Metadata are the contents of their buffers (\<open>'m option\<close>, None without a buffer), written and read as in
    \<open>Camera_Metadata\<close>. Surfaces and producers are addresses.
  \<^item> Shown: they arrive as they were sent, metadata as copies.
\<close>

section \<open>Objects\<close>

text \<open>The metadata library, the width of \<open>size_t\<close>, a member that is not initialised, the tags of the vendor.\<close>

record 'm ipc_env =
  md_lib :: "'m metadata_lib"
  size_width :: nat
  junk_flag :: bool
  tag_base :: tag
  tag_types :: int
  tag_capacity :: "nat \<Rightarrow> int"

definition rd_try :: "('p, 'a) reader \<Rightarrow> ('p, int + 'a) reader" where
  "rd_try r p = map_option (\<lambda>(x, p'). (Inr x, p')) (r p)"

subsection \<open>\<open>CaptureRequest\<close>\<close>

record 'm capture_request =
  rq_metadata :: "'m option"
  rq_surfaces :: "ptr list"
  rq_reprocess :: bool

definition request_items :: "'m capture_request \<Rightarrow> parcel_item list" where
  "request_items rq =
     I32 (of_nat (length (rq_surfaces rq))) #
     concat (map (\<lambda>b. [S16 ''android.view.Surface'', S16 ''unknown_name'', Strong b]) (rq_surfaces rq)) @
     [I32 (bool32 (rq_reprocess rq))]"

definition put_request :: "'m ipc_env \<Rightarrow> 'p parcel \<Rightarrow> 'm capture_request \<Rightarrow> 'p writer" where
  "put_request E P rq = wr_then (md_write_buffer (md_lib E) P (rq_metadata rq)) (put_items P (request_items rq))"

text \<open>A string that is not there is a surface less.\<close>

definition get_class :: "'p parcel \<Rightarrow> ('p, string option) reader" where
  "get_class P = rd_default None (rd_map (\<lambda>it. case it of S16 s \<Rightarrow> Some s | _ \<Rightarrow> None) (rd_item P K_string16))"

fun get_surfaces :: "'p parcel \<Rightarrow> nat \<Rightarrow> ('p, ptr list) reader" where
  "get_surfaces P 0 = rd_return []"
| "get_surfaces P (Suc n) =
     rd_then (get_class P) (\<lambda>c.
       if c = None then get_surfaces P n
       else rd_then (get_string16 P) (\<lambda>_. rd_then (get_binder P) (\<lambda>b. rd_map (Cons b) (get_surfaces P n))))"

text \<open>The status and what was read until then.\<close>

definition get_request :: "'m ipc_env \<Rightarrow> 'p parcel \<Rightarrow> ('p, int \<times> 'm capture_request) reader" where
  "get_request E P =
     rd_then (rd_try (md_read_buffer (md_lib E) (size_width E) P)) (\<lambda>m.
       case m of
         Inl e \<Rightarrow> rd_return (e, \<lparr>rq_metadata = None, rq_surfaces = [], rq_reprocess = junk_flag E\<rparr>)
       | Inr m \<Rightarrow>
           rd_then (rd_try (rd_int32 P)) (\<lambda>sz.
             case sz of
               Inl e \<Rightarrow> rd_return (e, \<lparr>rq_metadata = m, rq_surfaces = [], rq_reprocess = junk_flag E\<rparr>)
             | Inr sz \<Rightarrow>
                 rd_then (get_surfaces P (nat (sint sz))) (\<lambda>bs.
                   rd_map (\<lambda>v. case v of
                                 Inl e \<Rightarrow> (e, \<lparr>rq_metadata = m, rq_surfaces = bs, rq_reprocess = junk_flag E\<rparr>)
                               | Inr v \<Rightarrow> (0, \<lparr>rq_metadata = m, rq_surfaces = bs, rq_reprocess = v \<noteq> 0\<rparr>))
                     (rd_try (rd_int32 P)))))"

subsection \<open>\<open>CaptureResult\<close>\<close>

record capture_extras =
  requestId :: i32
  burstId :: i32
  afTriggerId :: i32
  precaptureTriggerId :: i32
  frameNumber :: "64 word"
  partialResultCount :: i32

definition new_extras :: capture_extras where
  "new_extras =
     \<lparr>requestId = - 1, burstId = 0, afTriggerId = 0, precaptureTriggerId = 0, frameNumber = 0, partialResultCount = 0\<rparr>"

definition extras_valid :: "capture_extras \<Rightarrow> bool" where "extras_valid x \<longleftrightarrow> 0 \<le> sint (requestId x)"

definition extras_items :: "capture_extras \<Rightarrow> parcel_item list" where
  "extras_items x =
     [I32 (requestId x), I32 (burstId x), I32 (afTriggerId x), I32 (precaptureTriggerId x), I64 (frameNumber x),
      I32 (partialResultCount x)]"

text \<open>A value that cannot be read leaves the member as it was.\<close>

definition keep_int32 :: "'p parcel \<Rightarrow> i32 \<Rightarrow> ('p, i32) reader" where "keep_int32 P old = rd_default old (rd_int32 P)"

definition keep_int64 :: "'p parcel \<Rightarrow> 64 word \<Rightarrow> ('p, 64 word) reader" where
  "keep_int64 P old = rd_default old (rd_map (\<lambda>it. case it of I64 v \<Rightarrow> v | _ \<Rightarrow> old) (rd_item P K_int64))"

definition get_extras :: "'p parcel \<Rightarrow> capture_extras \<Rightarrow> ('p, capture_extras) reader" where
  "get_extras P x =
     rd_then (keep_int32 P (requestId x)) (\<lambda>a.
     rd_then (keep_int32 P (burstId x)) (\<lambda>b.
     rd_then (keep_int32 P (afTriggerId x)) (\<lambda>c.
     rd_then (keep_int32 P (precaptureTriggerId x)) (\<lambda>d.
     rd_then (keep_int64 P (frameNumber x)) (\<lambda>f.
     rd_map (\<lambda>n. \<lparr>requestId = a, burstId = b, afTriggerId = c, precaptureTriggerId = d, frameNumber = f, partialResultCount = n\<rparr>)
       (keep_int32 P (partialResultCount x)))))))"

record 'm capture_result =
  rs_metadata :: "'m option"
  rs_extras :: capture_extras

definition put_capture_result :: "'m ipc_env \<Rightarrow> 'p parcel \<Rightarrow> 'm capture_result \<Rightarrow> 'p writer" where
  "put_capture_result E P x =
     wr_then (md_write_buffer (md_lib E) P (rs_metadata x)) (put_items P (extras_items (rs_extras x)))"

text \<open>Into an object that has been there.\<close>

definition get_capture_result :: "'m ipc_env \<Rightarrow> 'p parcel \<Rightarrow> 'm capture_result \<Rightarrow> ('p, int \<times> 'm capture_result) reader" where
  "get_capture_result E P old =
     rd_then (rd_try (md_read_buffer (md_lib E) (size_width E) P)) (\<lambda>m.
       case m of
         Inl e \<Rightarrow> rd_return (e, old\<lparr>rs_metadata := None\<rparr>)
       | Inr m \<Rightarrow> rd_map (\<lambda>x. (0, \<lparr>rs_metadata = m, rs_extras = x\<rparr>)) (get_extras P (rs_extras old)))"

subsection \<open>\<open>OutputConfiguration\<close>\<close>

record output_configuration =
  mGbp :: ptr
  mRotation :: i32

definition output_items :: "output_configuration \<Rightarrow> parcel_item list" where
  "output_items x = [I32 (mRotation x), S16 ''unknown_name'', Strong (mGbp x)]"

definition get_output :: "'p parcel \<Rightarrow> ('p, output_configuration) reader" where
  "get_output P =
     rd_then (rd_try (rd_int32 P)) (\<lambda>r.
       case r of
         Inl e \<Rightarrow> rd_return \<lparr>mGbp = None, mRotation = - 1\<rparr>
       | Inr r \<Rightarrow> rd_then (get_string16 P) (\<lambda>_. rd_map (\<lambda>b. \<lparr>mGbp = b, mRotation = r\<rparr>) (get_binder P)))"

subsection \<open>They arrive\<close>

lemma reads_try: "reads holds r its v \<Longrightarrow> reads holds (rd_try r) its (Inr v)"
  by (fastforce simp: reads_def rd_try_def)

lemma reads_then_app: "reads holds r its v \<Longrightarrow> reads holds (f v) js u \<Longrightarrow> ks = its @ js \<Longrightarrow> reads holds (rd_then r f) ks u"
  by (auto intro: reads_then)

text \<open>What a library can send is 31 bits long at most, and \<open>size_t\<close> is not shorter.\<close>

definition env_ok :: "('p \<Rightarrow> parcel_item list \<Rightarrow> bool) \<Rightarrow> 'p parcel \<Rightarrow> 'm ipc_env \<Rightarrow> bool" where
  "env_ok holds P E \<longleftrightarrow> parcel_laws P holds \<and> 31 \<le> size_width E"

lemma metadata_sent:
  assumes "env_ok holds P E" "md_sendable (md_lib E) om"
  shows "sends holds (md_write_buffer (md_lib E) P om) (md_read_buffer (md_lib E) (size_width E) P)
    (map_option (lib_clone (md_lib E)) om)"
  using assms md_writes [of P holds _ _ "md_lib E" om] md_reads [of P holds "md_lib E" om "size_width E"]
  unfolding sends_def env_ok_def by metis

definition copied :: "'m ipc_env \<Rightarrow> 'm capture_request \<Rightarrow> 'm capture_request" where
  "copied E rq = rq\<lparr>rq_metadata := map_option (lib_clone (md_lib E)) (rq_metadata rq)\<rparr>"

definition request_ok :: "'m ipc_env \<Rightarrow> 'm capture_request \<Rightarrow> bool" where
  "request_ok E rq \<longleftrightarrow> md_sendable (md_lib E) (rq_metadata rq) \<and> length (rq_surfaces rq) < 2 ^ 31"

lemma sint_length: "n < 2 ^ 31 \<Longrightarrow> nat (sint (of_nat n :: 32 word)) = n"
  by (simp add: signed_of_nat signed_take_bit_eq_take_bit_shift take_bit_int_eq_self)

lemma reads_class: "parcel_laws P holds \<Longrightarrow> reads holds (get_class P) [S16 s] (Some s)"
  unfolding get_class_def by (intro reads_default reads_item_map) simp_all

lemma reads_surfaces:
  assumes P: "parcel_laws P holds"
  shows "reads holds (get_surfaces P (length bs))
    (concat (map (\<lambda>b. [S16 ''android.view.Surface'', S16 ''unknown_name'', Strong b]) bs)) bs"
proof (induction bs)
  case (Cons b bs)
  then show ?case
    by (simp, intro reads_Cons [OF reads_class [OF P]])
      (simp, rule reads_Cons [OF reads_get(3) [OF P]], rule reads_Cons [OF reads_get(4) [OF P]], erule reads_map)
qed (simp add: reads_return)

lemma request_sent:
  assumes E: "env_ok holds P E" and rq: "request_ok E rq"
  shows "sends holds (put_request E P rq) (get_request E P) (0, copied E rq)"
proof -
  from E have P: "parcel_laws P holds" by (simp add: env_ok_def)
  let ?m = "map_option (lib_clone (md_lib E)) (rq_metadata rq)"
  have m: "sends holds (md_write_buffer (md_lib E) P (rq_metadata rq))
      (rd_try (md_read_buffer (md_lib E) (size_width E) P)) (Inr ?m)"
    using rq by (intro sends_mono [OF metadata_sent [OF E] reads_try]) (simp_all add: request_ok_def)
  have n: "nat (sint (of_nat (length (rq_surfaces rq)) :: 32 word)) = length (rq_surfaces rq)"
    using rq by (intro sint_length) (simp add: request_ok_def)
  have "plain (concat (map (\<lambda>b. [S16 ''android.view.Surface'', S16 ''unknown_name'', Strong b]) bs))" for bs
    by (induction bs) simp_all
  then have plain: "plain (request_items rq)" by (simp add: request_items_def)
  have eq: "copied E rq = \<lparr>rq_metadata = ?m, rq_surfaces = rq_surfaces rq, rq_reprocess = rq_reprocess rq\<rparr>"
    by (cases rq) (simp add: copied_def)
  show ?thesis unfolding put_request_def get_request_def
  proof (rule sends_then [OF m], simp only: sum.case, rule sends_items [OF P plain], unfold request_items_def,
      rule reads_Cons [OF reads_try [OF reads_int32 [OF P]]], simp only: sum.case n,
      rule reads_then_app [OF reads_surfaces [OF P]])
    have "reads holds (rd_try (rd_int32 P)) [I32 (bool32 (rq_reprocess rq))] (Inr (bool32 (rq_reprocess rq)))"
      by (rule reads_try [OF reads_int32 [OF P]])
    from reads_map [OF this, of "case_sum (\<lambda>e. (e, \<lparr>rq_metadata = ?m, rq_surfaces = rq_surfaces rq, rq_reprocess = junk_flag E\<rparr>))
        (\<lambda>v. (0, \<lparr>rq_metadata = ?m, rq_surfaces = rq_surfaces rq, rq_reprocess = v \<noteq> 0\<rparr>))"]
    show "reads holds (rd_map (\<lambda>v. case v of Inl e \<Rightarrow> (e, \<lparr>rq_metadata = ?m, rq_surfaces = rq_surfaces rq, rq_reprocess = junk_flag E\<rparr>)
        | Inr v \<Rightarrow> (0, \<lparr>rq_metadata = ?m, rq_surfaces = rq_surfaces rq, rq_reprocess = v \<noteq> 0\<rparr>)) (rd_try (rd_int32 P)))
        [I32 (bool32 (rq_reprocess rq))] (0, copied E rq)"
      by (simp add: eq)
  qed simp
qed

lemma extras_read:
  assumes P: "parcel_laws P holds"
  shows "reads holds (get_extras P old) (extras_items x) x"
proof -
  have i: "reads holds (keep_int32 P w) [I32 v] v" for v w
    unfolding keep_int32_def by (intro reads_default reads_int32 P)
  have l: "reads holds (keep_int64 P w) [I64 v] v" for v w
    unfolding keep_int64_def by (intro reads_default reads_item_map P) simp_all
  have "reads holds (get_extras P old) (extras_items x)
    \<lparr>requestId = requestId x, burstId = burstId x, afTriggerId = afTriggerId x, precaptureTriggerId = precaptureTriggerId x,
     frameNumber = frameNumber x, partialResultCount = partialResultCount x\<rparr>"
    unfolding get_extras_def extras_items_def
    by (rule reads_Cons [OF i] reads_Cons [OF l])+ (rule reads_map [OF i])
  then show ?thesis by (cases x) simp
qed

lemma plain_extras [simp]: "plain (extras_items x)"
  by (simp add: extras_items_def)

text \<open>A capture result arrives as it was sent, its metadata as a copy, its indices as they were.\<close>

theorem capture_result_roundtrip:
  assumes "env_ok holds P E" "md_sendable (md_lib E) (rs_metadata x)" "holds p []"
  shows "\<exists>p1 p2. put_capture_result E P x p = Some (0, p1) \<and>
    get_capture_result E P old p1 =
      Some (Inr (0, x\<lparr>rs_metadata := map_option (lib_clone (md_lib E)) (rs_metadata x)\<rparr>), p2) \<and> holds p2 []"
proof -
  from assms(1) have P: "parcel_laws P holds" by (simp add: env_ok_def)
  let ?m = "map_option (lib_clone (md_lib E)) (rs_metadata x)"
  have m: "sends holds (md_write_buffer (md_lib E) P (rs_metadata x))
      (rd_try (md_read_buffer (md_lib E) (size_width E) P)) (Inr ?m)"
    by (rule sends_mono [OF metadata_sent [OF assms(1,2)] reads_try])
  have "sends holds (put_capture_result E P x) (get_capture_result E P old) (0, \<lparr>rs_metadata = ?m, rs_extras = rs_extras x\<rparr>)"
    unfolding put_capture_result_def get_capture_result_def
    by (rule sends_then [OF m], simp only: sum.case)
      (rule sends_items [OF P plain_extras reads_map [OF extras_read [OF P], of "\<lambda>y. (0, \<lparr>rs_metadata = ?m, rs_extras = y\<rparr>)"]])
  with assms(3) obtain its p1 where p1: "put_capture_result E P x p = Some (0, p1)" "holds p1 (its @ [])"
    "reads holds (get_capture_result E P old) its (0, \<lparr>rs_metadata = ?m, rs_extras = rs_extras x\<rparr>)"
    unfolding sends_def by (metis append_Nil append_Nil2)
  then obtain p2 where "get_capture_result E P old p1 = Some (Inr (0, \<lparr>rs_metadata = ?m, rs_extras = rs_extras x\<rparr>), p2)" "holds p2 []"
    unfolding reads_def by blast
  with p1(1) show ?thesis by simp
qed

lemma output_read: "parcel_laws P holds \<Longrightarrow> reads holds (get_output P) (output_items x) x"
proof -
  assume P: "parcel_laws P holds"
  have "reads holds (get_output P) (output_items x) \<lparr>mGbp = mGbp x, mRotation = mRotation x\<rparr>"
    unfolding get_output_def output_items_def
    by (rule reads_Cons [OF reads_try [OF reads_int32 [OF P]]], simp only: sum.case)
      (rule reads_Cons [OF reads_get(3) [OF P]], rule reads_map [OF reads_get(4) [OF P]])
  then show ?thesis by (cases x) simp
qed

definition ipc_env1 :: "list_md ipc_env" where
  "ipc_env1 =
     \<lparr>md_lib = list_lib, size_width = 64, junk_flag = False, tag_base = 0x80000000, tag_types = 6, tag_capacity = int\<rparr>"

lemma ipc_env1_ok: "env_ok (=) list_parcel ipc_env1"
  using list_parcel_laws by (simp add: env_ok_def ipc_env1_def)

lemma ipc_env1_sendable: "md_sendable (md_lib ipc_env1) (Some (0, 0, [(5, Bytes [7])]))"
  by (simp add: md_sendable_def ipc_env1_def list_lib_def exI [of _ 3])

lemma ipc_env1_clone: "lib_clone (md_lib ipc_env1) (0, 0, l) = (0, 0, l)"
  by (simp add: ipc_env1_def list_lib_def)

lemma capture_result_roundtrip_witness:
  "\<exists>p1 p2. put_capture_result ipc_env1 list_parcel \<lparr>rs_metadata = Some (0, 0, [(5, Bytes [7])]), rs_extras = new_extras\<rparr> [] = Some (0, p1) \<and>
    get_capture_result ipc_env1 list_parcel \<lparr>rs_metadata = None, rs_extras = new_extras\<lparr>burstId := 4\<rparr>\<rparr> p1 =
      Some (Inr (0, \<lparr>rs_metadata = Some (0, 0, [(5, Bytes [7])]), rs_extras = new_extras\<rparr>), p2) \<and> [] = p2"
  using capture_result_roundtrip [OF ipc_env1_ok, of "\<lparr>rs_metadata = Some (0, 0, [(5, Bytes [7])]), rs_extras = new_extras\<rparr>" "[]"
      "\<lparr>rs_metadata = None, rs_extras = new_extras\<lparr>burstId := 4\<rparr>\<rparr>"] ipc_env1_sendable
  by (simp add: ipc_env1_clone)

end
