(* ===== verification/Camera_Device_Ipc.thy ===== *)
theory Camera_Device_Ipc
  imports Camera_Objects
begin

text \<open>
  The camera interfaces that send objects: \<open>ICameraDeviceUser.cpp\<close>, \<open>ICameraDeviceCallbacks.cpp\<close>, \<open>ICameraService.cpp\<close>.

  \<^item> As in \<open>Camera_Ipc\<close>: the calls, their codes, what proxies and \<open>onTransact\<close> write and read.
  \<^item> Shown: the calls reach the other side with their objects, and the results come back, except where the proxies
    do otherwise: they hide statuses, and two of the service's calls never look at the reply.
\<close>

section \<open>\<open>ICameraDeviceUser\<close>\<close>

text \<open>The truth value of the calls with a frame number: whether the caller wants it.\<close>

datatype 'm user_call =
    Dev_disconnect
  | Dev_submitRequest "'m capture_request option" bool bool
  | Dev_submitRequestList "'m capture_request option list" bool bool
  | Dev_cancelRequest i32 bool
  | Dev_beginConfigure
  | Dev_endConfigure bool
  | Dev_deleteStream i32
  | Dev_createStream "output_configuration option"
  | Dev_createInputStream i32 i32 i32
  | Dev_getInputBufferProducer
  | Dev_createDefaultRequest i32
  | Dev_getCameraInfo
  | Dev_waitUntilIdle
  | Dev_flush bool
  | Dev_prepare i32
  | Dev_tearDown i32
  | Dev_prepare2 i32 i32

text \<open>A frame number None has not been set.\<close>

datatype 'm device_result =
    Dev_void
  | Dev_status i32
  | Dev_frame i32 "64 word option"
  | Dev_producer i32 ptr
  | Dev_metadata i32 "'m option"

fun device_code :: "'m user_call \<Rightarrow> nat" where
  "device_code Dev_disconnect = 1"
| "device_code (Dev_submitRequest _ _ _) = 2"
| "device_code (Dev_submitRequestList _ _ _) = 3"
| "device_code (Dev_cancelRequest _ _) = 4"
| "device_code Dev_beginConfigure = 5"
| "device_code (Dev_endConfigure _) = 6"
| "device_code (Dev_deleteStream _) = 7"
| "device_code (Dev_createStream _) = 8"
| "device_code (Dev_createInputStream _ _ _) = 9"
| "device_code Dev_getInputBufferProducer = 10"
| "device_code (Dev_createDefaultRequest _) = 11"
| "device_code Dev_getCameraInfo = 12"
| "device_code Dev_waitUntilIdle = 13"
| "device_code (Dev_flush _) = 14"
| "device_code (Dev_prepare _) = 15"
| "device_code (Dev_tearDown _) = 16"
| "device_code (Dev_prepare2 _ _) = 17"

subsection \<open>The proxy writes\<close>

definition put_optional_request :: "'m ipc_env \<Rightarrow> 'p parcel \<Rightarrow> 'm capture_request option \<Rightarrow> 'p writer" where
  "put_optional_request E P r =
     (case r of None \<Rightarrow> put_items P [I32 0] | Some rq \<Rightarrow> wr_then (put_items P [I32 1]) (put_request E P rq))"

text \<open>A request that cannot be written ends the list, and the call, with \<open>BAD_VALUE\<close>.\<close>

fun put_requests :: "'m ipc_env \<Rightarrow> 'p parcel \<Rightarrow> 'm capture_request option list \<Rightarrow> 'p writer" where
  "put_requests E P [] = wr_done"
| "put_requests E P (r # rs) = wr_then (put_optional_request E P r) (put_requests E P rs)"

fun put_device_args :: "'m ipc_env \<Rightarrow> 'p parcel \<Rightarrow> 'm user_call \<Rightarrow> 'p writer" where
  "put_device_args E P (Dev_submitRequest r repeating _) =
     wr_then (put_ignored (put_optional_request E P r)) (put_items P [I32 (bool32 repeating)])"
| "put_device_args E P (Dev_submitRequestList rs repeating _) =
     wr_then (put_items P [I32 (of_nat (length rs))])
       (wr_then (put_requests E P rs) (put_items P [I32 (bool32 repeating)]))"
| "put_device_args E P (Dev_cancelRequest n _) = put_items P [I32 n]"
| "put_device_args E P (Dev_endConfigure b) = put_items P [I32 (bool32 b)]"
| "put_device_args E P (Dev_deleteStream n) = put_items P [I32 n]"
| "put_device_args E P (Dev_createStream (Some x)) =
     put_items P (if mGbp x = None then [I32 0] else I32 1 # output_items x)"
| "put_device_args E P (Dev_createInputStream w h f) = put_items P [I32 w, I32 h, I32 f]"
| "put_device_args E P (Dev_createDefaultRequest n) = put_items P [I32 n]"
| "put_device_args E P (Dev_prepare n) = put_items P [I32 n]"
| "put_device_args E P (Dev_tearDown n) = put_items P [I32 n]"
| "put_device_args E P (Dev_prepare2 m n) = put_items P [I32 m, I32 n]"
| "put_device_args E P _ = put_items P []"

definition device_descriptor :: string where "device_descriptor = ''android.hardware.camera2.ICameraDeviceUser''"

definition put_device_call :: "'m ipc_env \<Rightarrow> 'p parcel \<Rightarrow> 'm user_call \<Rightarrow> 'p writer" where
  "put_device_call E P c = wr_then (put_items P [Token device_descriptor]) (put_device_args E P c)"

subsection \<open>\<open>onTransact\<close> reads\<close>

definition get_optional_request :: "'m ipc_env \<Rightarrow> 'p parcel \<Rightarrow> ('p, (int \<times> 'm capture_request) option) reader" where
  "get_optional_request E P =
     rd_then (get_int32 P) (\<lambda>v. if v \<noteq> 0 then rd_map Some (get_request E P) else rd_return None)"

fun get_requests :: "'m ipc_env \<Rightarrow> 'p parcel \<Rightarrow> nat \<Rightarrow> ('p, 'm capture_request option list) reader" where
  "get_requests E P 0 = rd_return []"
| "get_requests E P (Suc n) =
     rd_then (get_optional_request E P) (\<lambda>r.
       case r of
         Some (e, rq) \<Rightarrow> if e \<noteq> 0 then rd_fail BAD_VALUE_st else rd_map (Cons (Some rq)) (get_requests E P n)
       | None \<Rightarrow> rd_map (Cons None) (get_requests E P n))"

definition device_cases :: "'m ipc_env \<Rightarrow> 'p parcel \<Rightarrow> (nat \<times> ('p, 'm user_call) reader) list" where
  "device_cases E P =
     [(1, rd_return Dev_disconnect),
      (2, rd_then (get_optional_request E P) (\<lambda>r.
            rd_map (\<lambda>v. Dev_submitRequest (map_option snd r) (v \<noteq> 0) True) (get_int32 P))),
      (3, rd_then (get_int32 P) (\<lambda>n. rd_then (get_requests E P (nat (sint n))) (\<lambda>rs.
            rd_map (\<lambda>v. Dev_submitRequestList rs (v \<noteq> 0) True) (get_int32 P)))),
      (4, rd_map (\<lambda>n. Dev_cancelRequest n True) (get_int32 P)),
      (7, rd_map Dev_deleteStream (get_int32 P)),
      (8, rd_then (get_int32 P) (\<lambda>v.
            if v \<noteq> 0 then rd_map (\<lambda>x. Dev_createStream (Some x)) (get_output P) else rd_return (Dev_createStream None))),
      (9, rd_then (get_int32 P) (\<lambda>w. rd_then (get_int32 P) (\<lambda>h. rd_map (Dev_createInputStream w h) (get_int32 P)))),
      (10, rd_return Dev_getInputBufferProducer),
      (11, rd_map Dev_createDefaultRequest (get_int32 P)),
      (12, rd_return Dev_getCameraInfo),
      (13, rd_return Dev_waitUntilIdle),
      (14, rd_return (Dev_flush True)),
      (5, rd_return Dev_beginConfigure),
      (6, rd_map (\<lambda>v. Dev_endConfigure (v \<noteq> 0)) (get_int32 P)),
      (15, rd_map Dev_prepare (get_int32 P)),
      (16, rd_map Dev_tearDown (get_int32 P)),
      (17, rd_then (get_int32 P) (\<lambda>m. rd_map (Dev_prepare2 m) (get_int32 P)))]"

text \<open>Without a configuration no stream is created.\<close>

fun device_own_answer :: "'m user_call \<Rightarrow> 'm device_result option" where
  "device_own_answer (Dev_createStream None) = Some (Dev_status (of_int BAD_VALUE_st))"
| "device_own_answer _ = None"

subsection \<open>Results\<close>

fun put_device_result :: "'m ipc_env \<Rightarrow> 'p parcel \<Rightarrow> 'm user_call \<Rightarrow> 'm device_result \<Rightarrow> 'p writer" where
  "put_device_result E P c Dev_void = put_items P [No_Exception]"
| "put_device_result E P c (Dev_status st) = put_items P [No_Exception, I32 st]"
| "put_device_result E P c (Dev_frame st f) =
     put_items P [No_Exception, I32 st, I32 1, I64 (case f of None \<Rightarrow> - 1 | Some f \<Rightarrow> f)]"
| "put_device_result E P c (Dev_producer st b) =
     put_items P [No_Exception, I32 st, I32 1, S16 ''camera input'', Strong (if st = 0 then b else None)]"
| "put_device_result E P c (Dev_metadata st m) =
     wr_then (put_items P [No_Exception, I32 st, I32 1]) (put_ignored (md_write_buffer (md_lib E) P m))"

text \<open>The calls with a frame number: any failure is \<open>FAILED_TRANSACTION\<close>, not to want the number as well.\<close>

definition get_int64_status :: "'p parcel \<Rightarrow> ('p, int + 64 word) reader" where
  "get_int64_status P = rd_try (rd_map (\<lambda>it. case it of I64 v \<Rightarrow> v | _ \<Rightarrow> 0) (rd_item P K_int64))"

definition get_frame :: "'p parcel \<Rightarrow> (i32 \<Rightarrow> bool) \<Rightarrow> bool \<Rightarrow> ('p, 'm device_result) reader" where
  "get_frame P failed wanted =
     rd_then (get_exception P) (\<lambda>_. rd_then (get_int32 P) (\<lambda>res. rd_then (get_int32 P) (\<lambda>present.
       if present \<noteq> 0 \<and> wanted
       then rd_map (\<lambda>x. case x of
                          Inl e \<Rightarrow> Dev_frame (of_int FAILED_TRANSACTION_st) None
                        | Inr f \<Rightarrow> Dev_frame (if failed res then of_int FAILED_TRANSACTION_st else res) (Some f))
              (get_int64_status P)
       else rd_return (Dev_frame (of_int FAILED_TRANSACTION_st) None))))"

definition get_status :: "'p parcel \<Rightarrow> ('p, 'm device_result) reader" where
  "get_status P = rd_then (get_exception P) (\<lambda>_. rd_map Dev_status (get_int32 P))"

definition get_metadata :: "'m ipc_env \<Rightarrow> 'p parcel \<Rightarrow> ('p, 'm option) reader" where
  "get_metadata E P =
     rd_then (get_int32 P) (\<lambda>v.
       if v \<noteq> 0 then rd_default None (md_read_buffer (md_lib E) (size_width E) P) else rd_return None)"

definition get_status_metadata :: "'m ipc_env \<Rightarrow> 'p parcel \<Rightarrow> ('p, 'm device_result) reader" where
  "get_status_metadata E P =
     rd_then (get_exception P) (\<lambda>_. rd_then (get_int32 P) (\<lambda>st. rd_map (Dev_metadata st) (get_metadata E P)))"

definition get_producer :: "'p parcel \<Rightarrow> ('p, 'm device_result) reader" where
  "get_producer P =
     rd_then (get_exception P) (\<lambda>_. rd_then (get_int32 P) (\<lambda>st.
       if st \<noteq> 0 then rd_return (Dev_producer st None)
       else rd_then (get_int32 P) (\<lambda>v.
              rd_map (\<lambda>b. Dev_producer (if b = None then of_int INVALID_OPERATION_st else 0) b)
                (if v \<noteq> 0 then rd_then (get_string16 P) (\<lambda>_. get_binder P) else rd_return None))))"

fun get_device_result :: "'m ipc_env \<Rightarrow> 'p parcel \<Rightarrow> 'm user_call \<Rightarrow> ('p, 'm device_result) reader" where
  "get_device_result E P Dev_disconnect = rd_map (\<lambda>_. Dev_void) (get_exception P)"
| "get_device_result E P (Dev_submitRequest _ _ wanted) = get_frame P (\<lambda>res. sint res < 0) wanted"
| "get_device_result E P (Dev_submitRequestList _ _ wanted) = get_frame P (\<lambda>res. sint res < 0) wanted"
| "get_device_result E P (Dev_cancelRequest _ wanted) = get_frame P (\<lambda>res. res \<noteq> 0) wanted"
| "get_device_result E P (Dev_flush wanted) = get_frame P (\<lambda>res. res \<noteq> 0) wanted"
| "get_device_result E P Dev_getInputBufferProducer = get_producer P"
| "get_device_result E P (Dev_createDefaultRequest _) = get_status_metadata E P"
| "get_device_result E P Dev_getCameraInfo = get_status_metadata E P"
| "get_device_result E P _ = get_status P"

definition device_iface :: "'m ipc_env \<Rightarrow> 'p parcel \<Rightarrow> ('p, 'm user_call, 'm device_result) iface" where
  "device_iface E P =
     \<lparr>call_code = device_code, put_call = put_device_call E P, get_call = dispatch P device_descriptor (device_cases E P),
      own_answer = device_own_answer, put_result = put_device_result E P,
      get_result = (\<lambda>c st own. get_device_result E P c), not_sent = (\<lambda>c e. Dev_frame (of_int BAD_VALUE_st) None)\<rparr>"

subsection \<open>The two sides fit\<close>

lemma put_items_Cons: "wr_then (put_items P (it # its)) w = wr_then (put_items P [it]) (wr_then (put_items P its) w)"
  by (simp add: fun_eq_iff wr_then_def put_items_def)

lemma put_items_Nil: "wr_then (put_items P []) w = w"
  by (simp add: fun_eq_iff wr_then_def put_items_def)

lemma sends_Cons:
  assumes "parcel_laws P holds" "\<forall>b. it \<noteq> Blob b" "reads holds r [it] v" "sends holds (wr_then (put_items P its) w) (f v) u"
  shows "sends holds (wr_then (put_items P (it # its)) w) (rd_then r f) u"
  by (subst put_items_Cons, rule sends_then [of holds _ r v _ f u, OF sends_items [OF assms(1) _ assms(3)] assms(4)])
    (use assms(2) in simp)

lemma sends_Nil: "sends holds w r v \<Longrightarrow> sends holds (wr_then (put_items P []) w) r v"
  by (simp add: put_items_Nil)

lemma optional_request_sent:
  assumes E: "env_ok holds P E" and r: "\<forall>rq. r = Some rq \<longrightarrow> request_ok E rq"
  shows "sends holds (put_optional_request E P r) (get_optional_request E P) (map_option (\<lambda>rq. (0, copied E rq)) r)"
proof -
  from E have P: "parcel_laws P holds" by (simp add: env_ok_def)
  show ?thesis
  proof (cases r)
    case None
    have "reads holds (get_optional_request E P) [I32 0] None"
      unfolding get_optional_request_def by (rule reads_Cons [OF reads_get(1) [OF P]]) (simp add: reads_return)
    with None show ?thesis by (simp add: put_optional_request_def sends_items [OF P])
  next
    case (Some rq)
    have "sends holds (put_request E P rq) (rd_map Some (get_request E P)) (Some (0, copied E rq))"
      using r Some by (intro sends_map request_sent [OF E]) simp
    then have "sends holds (wr_then (put_items P [I32 1]) (put_request E P rq)) (get_optional_request E P) (Some (0, copied E rq))"
      unfolding get_optional_request_def by (intro sends_Cons [OF P _ reads_get(1) [OF P]] sends_Nil) simp_all
    with Some show ?thesis by (simp add: put_optional_request_def)
  qed
qed

lemma requests_sent:
  assumes E: "env_ok holds P E"
  shows "\<forall>rq. Some rq \<in> set rs \<longrightarrow> request_ok E rq \<Longrightarrow>
    sends holds (put_requests E P rs) (get_requests E P (length rs)) (map (map_option (copied E)) rs)"
proof (induction rs)
  case Nil
  then show ?case using sendsI [OF writes_done reads_return] by simp
next
  case (Cons r rs)
  have "sends holds (put_optional_request E P r) (get_optional_request E P) (map_option (\<lambda>rq. (0, copied E rq)) r)"
    using Cons.prems by (intro optional_request_sent [OF E]) auto
  moreover have "sends holds (put_requests E P rs) (rd_map (Cons (map_option (copied E) r)) (get_requests E P (length rs)))
      (map_option (copied E) r # map (map_option (copied E)) rs)"
    using Cons by (intro sends_map) simp
  ultimately show ?case by (simp, intro sends_then) (auto split: option.split)
qed

fun device_ok :: "'m ipc_env \<Rightarrow> 'm user_call \<Rightarrow> bool" where
  "device_ok E (Dev_submitRequest r _ _) \<longleftrightarrow> (\<forall>rq. r = Some rq \<longrightarrow> request_ok E rq)"
| "device_ok E (Dev_submitRequestList rs _ _) \<longleftrightarrow> length rs < 2 ^ 31 \<and> (\<forall>rq. Some rq \<in> set rs \<longrightarrow> request_ok E rq)"
| "device_ok E (Dev_createStream x) \<longleftrightarrow> (\<exists>y. x = Some y \<and> mGbp y \<noteq> None)"
| "device_ok E _ \<longleftrightarrow> True"

text \<open>What the implementation sees: copies of the metadata, and always a place for the frame number.\<close>

fun device_served :: "'m ipc_env \<Rightarrow> 'm user_call \<Rightarrow> 'm user_call" where
  "device_served E (Dev_submitRequest r b _) = Dev_submitRequest (map_option (copied E) r) b True"
| "device_served E (Dev_submitRequestList rs b _) = Dev_submitRequestList (map (map_option (copied E)) rs) b True"
| "device_served E (Dev_cancelRequest n _) = Dev_cancelRequest n True"
| "device_served E (Dev_flush _) = Dev_flush True"
| "device_served E c = c"

fun device_fits :: "'m ipc_env \<Rightarrow> 'm user_call \<Rightarrow> 'm device_result \<Rightarrow> bool" where
  "device_fits E Dev_disconnect r \<longleftrightarrow> r = Dev_void"
| "device_fits E (Dev_submitRequest _ _ _) r \<longleftrightarrow> (\<exists>st f. r = Dev_frame st f)"
| "device_fits E (Dev_submitRequestList _ _ _) r \<longleftrightarrow> (\<exists>st f. r = Dev_frame st f)"
| "device_fits E (Dev_cancelRequest _ _) r \<longleftrightarrow> (\<exists>st f. r = Dev_frame st f)"
| "device_fits E (Dev_flush _) r \<longleftrightarrow> (\<exists>st f. r = Dev_frame st f)"
| "device_fits E Dev_getInputBufferProducer r \<longleftrightarrow> (\<exists>st b. r = Dev_producer st b)"
| "device_fits E (Dev_createDefaultRequest _) r \<longleftrightarrow> (\<exists>st m. r = Dev_metadata st m \<and> md_sendable (md_lib E) m)"
| "device_fits E Dev_getCameraInfo r \<longleftrightarrow> (\<exists>st m. r = Dev_metadata st m \<and> md_sendable (md_lib E) m)"
| "device_fits E _ r \<longleftrightarrow> (\<exists>st. r = Dev_status st)"

text \<open>What the caller sees.\<close>

definition frame_seen :: "(i32 \<Rightarrow> bool) \<Rightarrow> bool \<Rightarrow> i32 \<Rightarrow> 64 word option \<Rightarrow> 'm device_result" where
  "frame_seen failed wanted st f =
     (if wanted then Dev_frame (if failed st then of_int FAILED_TRANSACTION_st else st) (Some (case f of None \<Rightarrow> - 1 | Some f \<Rightarrow> f))
      else Dev_frame (of_int FAILED_TRANSACTION_st) None)"

fun device_seen :: "'m ipc_env \<Rightarrow> 'm user_call \<Rightarrow> 'm device_result \<Rightarrow> 'm device_result" where
  "device_seen E (Dev_submitRequest _ _ wanted) (Dev_frame st f) = frame_seen (\<lambda>st. sint st < 0) wanted st f"
| "device_seen E (Dev_submitRequestList _ _ wanted) (Dev_frame st f) = frame_seen (\<lambda>st. sint st < 0) wanted st f"
| "device_seen E (Dev_cancelRequest _ wanted) (Dev_frame st f) = frame_seen (\<lambda>st. st \<noteq> 0) wanted st f"
| "device_seen E (Dev_flush wanted) (Dev_frame st f) = frame_seen (\<lambda>st. st \<noteq> 0) wanted st f"
| "device_seen E c (Dev_producer st b) =
     (if st \<noteq> 0 then Dev_producer st None else Dev_producer (if b = None then of_int INVALID_OPERATION_st else 0) b)"
| "device_seen E c (Dev_metadata st m) = Dev_metadata st (map_option (lib_clone (md_lib E)) m)"
| "device_seen E c r = r"

lemma device_args_sent:
  assumes E: "env_ok holds P E" and c: "device_ok E c"
  shows "\<exists>r. map_of (device_cases E P) (device_code c) = Some r \<and> sends holds (put_device_args E P c) r (device_served E c)"
proof -
  from E have P: "parcel_laws P holds" by (simp add: env_ok_def)
  note items = sends_items [OF P]
  note intros = reads_bool_map [OF P] reads_intros P
  show ?thesis
  proof (cases c)
    case (Dev_submitRequest r b w)
    have "sends holds (put_ignored (put_optional_request E P r)) (get_optional_request E P) (map_option (\<lambda>rq. (0, copied E rq)) r)"
      using c Dev_submitRequest by (intro sends_ignored optional_request_sent [OF E]) simp
    then have "sends holds (put_device_args E P c) (rd_then (get_optional_request E P) (\<lambda>r.
        rd_map (\<lambda>v. Dev_submitRequest (map_option snd r) (v \<noteq> 0) True) (get_int32 P))) (device_served E c)"
      unfolding Dev_submitRequest put_device_args.simps device_served.simps
      by (rule sends_then, simp only: option.map_comp comp_def snd_conv) (rule items [OF _ reads_bool_map [OF P]], simp)
    then show ?thesis using Dev_submitRequest by (simp add: device_cases_def)
  next
    case (Dev_submitRequestList rs b w)
    have n: "nat (sint (of_nat (length rs) :: 32 word)) = length rs" using c Dev_submitRequestList by (intro sint_length) simp
    have rs: "sends holds (put_requests E P rs) (get_requests E P (length rs)) (map (map_option (copied E)) rs)"
      using c Dev_submitRequestList by (intro requests_sent [OF E]) simp
    have "sends holds (wr_then (put_items P [I32 (of_nat (length rs))]) (wr_then (put_requests E P rs) (put_items P [I32 (bool32 b)])))
      (rd_then (get_int32 P) (\<lambda>n. rd_then (get_requests E P (nat (sint n))) (\<lambda>rs.
         rd_map (\<lambda>v. Dev_submitRequestList rs (v \<noteq> 0) True) (get_int32 P)))) (device_served E c)"
      unfolding Dev_submitRequestList device_served.simps
      by (rule sends_Cons [OF P _ reads_get(1) [OF P]], simp, rule sends_Nil, unfold n)
        (rule sends_then [OF rs items [OF _ reads_bool_map [OF P]]], simp)
    then show ?thesis using Dev_submitRequestList by (simp add: device_cases_def)
  next
    case (Dev_createStream x)
    with c obtain y where y: "x = Some y" "mGbp y \<noteq> None" by auto
    have "reads holds (rd_then (get_int32 P) (\<lambda>v. if v \<noteq> 0 then rd_map (\<lambda>x. Dev_createStream (Some x)) (get_output P)
        else rd_return (Dev_createStream None))) (I32 1 # output_items y) (Dev_createStream (Some y))"
      by (rule reads_Cons [OF reads_get(1) [OF P]], simp) (rule reads_map [OF output_read [OF P]])
    then show ?thesis using Dev_createStream y by (auto simp: device_cases_def output_items_def intro!: items)
  qed (simp_all add: device_cases_def, (rule items, simp, (rule intros)+)+)
qed

lemma reads_end_return: "reads_end holds (rd_return v) its v"
  by (simp add: reads_end_def rd_return_def)

lemma device_result_delivered:
  assumes E: "env_ok holds P E" and r: "device_fits E c r"
  shows "delivers P (put_device_result E P (device_served E c) r) (get_device_result E P c) (device_seen E c r)"
proof -
  from E have P: "parcel_laws P holds" by (simp add: env_ok_def)
  note items = items_delivered [OF P]
  note get = reads_end_Cons [OF reads_get(7) [OF P]] reads_end_Cons [OF reads_get(1) [OF P]]
  have frame: "delivers P (put_device_result E P c' (Dev_frame st f)) (get_frame P failed wanted) (frame_seen failed wanted st f)"
    for c' failed wanted st f
  proof -
    let ?f = "case f of None \<Rightarrow> - 1 | Some f \<Rightarrow> f"
    have "reads holds (get_int64_status P) [I64 v] (Inr v)" for v
      unfolding get_int64_status_def by (intro reads_try reads_item_map P) simp_all
    from reads_map [OF this, of "case_sum (\<lambda>e. Dev_frame (of_int FAILED_TRANSACTION_st) None)
      (\<lambda>f. Dev_frame (if failed st then of_int FAILED_TRANSACTION_st else st) (Some f))" ?f]
    have m: "reads holds (rd_map (\<lambda>x. case x of Inl e \<Rightarrow> Dev_frame (of_int FAILED_TRANSACTION_st) None
        | Inr f \<Rightarrow> Dev_frame (if failed st then of_int FAILED_TRANSACTION_st else st) (Some f)) (get_int64_status P)) [I64 ?f]
      (Dev_frame (if failed st then of_int FAILED_TRANSACTION_st else st) (Some ?f))" by (simp only: sum.case)
    have f: "reads_end holds (rd_map (\<lambda>x. case x of Inl e \<Rightarrow> Dev_frame (of_int FAILED_TRANSACTION_st) None
        | Inr f \<Rightarrow> Dev_frame (if failed st then of_int FAILED_TRANSACTION_st else st) (Some f)) (get_int64_status P)) [I64 ?f]
      (frame_seen failed True st f)" unfolding frame_seen_def if_True by (rule reads_endI [OF m])
    have "reads_end holds (get_frame P failed wanted) [No_Exception, I32 st, I32 1, I64 ?f] (frame_seen failed wanted st f)"
    proof (cases wanted)
      case True
      show ?thesis unfolding get_frame_def
        by ((rule get)+, use True in \<open>simp only: one_neq_zero not_False_eq_True if_True simp_thms f\<close>)
    next
      case False
      show ?thesis unfolding get_frame_def
        by ((rule get)+, use False in \<open>simp only: simp_thms if_False frame_seen_def reads_end_return\<close>)
    qed
    then show ?thesis unfolding put_device_result.simps by (intro items) simp_all
  qed
  have status: "delivers P (put_device_result E P c' (Dev_status st)) (get_status P) (Dev_status st)" for c' st
  proof -
    have "reads_end holds (get_status P) [No_Exception, I32 st] (Dev_status st)"
      unfolding get_status_def by (rule get, rule reads_endI, rule reads_map [OF reads_get(1) [OF P]])
    then show ?thesis unfolding put_device_result.simps by (intro items) simp_all
  qed
  have producer: "delivers P (put_device_result E P c' (Dev_producer st b)) (get_producer P)
    (if st \<noteq> 0 then Dev_producer st None else Dev_producer (if b = None then of_int INVALID_OPERATION_st else 0) b)" for c' st b
  proof -
    have b: "reads holds (rd_then (get_string16 P) (\<lambda>_. get_binder P)) [S16 s, Strong b] b" for s
      by (rule reads_Cons [OF reads_get(3) [OF P]]) (rule reads_get(4) [OF P])
    have "reads_end holds (get_producer P) [No_Exception, I32 st, I32 1, S16 ''camera input'', Strong (if st = 0 then b else None)]
      (if st \<noteq> 0 then Dev_producer st None else Dev_producer (if b = None then of_int INVALID_OPERATION_st else 0) b)"
      unfolding get_producer_def
    proof (rule get, rule get, cases "st = 0")
      case True
      have "reads_end holds (rd_then (get_int32 P) (\<lambda>v.
          rd_map (\<lambda>b. Dev_producer (if b = None then of_int INVALID_OPERATION_st else 0) b)
            (if v \<noteq> 0 then rd_then (get_string16 P) (\<lambda>_. get_binder P) else rd_return None)))
          [I32 1, S16 ''camera input'', Strong b] (Dev_producer (if b = None then of_int INVALID_OPERATION_st else 0) b)"
        by (rule get) (simp only: one_neq_zero not_False_eq_True if_True, rule reads_endI, rule reads_map [OF b])
      with True show "reads_end holds (if st \<noteq> 0 then rd_return (Dev_producer st None) else rd_then (get_int32 P) (\<lambda>v.
          rd_map (\<lambda>b. Dev_producer (if b = None then of_int INVALID_OPERATION_st else 0) b)
            (if v \<noteq> 0 then rd_then (get_string16 P) (\<lambda>_. get_binder P) else rd_return None)))
          [I32 1, S16 ''camera input'', Strong (if st = 0 then b else None)]
          (if st \<noteq> 0 then Dev_producer st None else Dev_producer (if b = None then of_int INVALID_OPERATION_st else 0) b)"
        by (simp only: simp_thms if_True if_False)
    qed (simp add: reads_end_return)
    then show ?thesis unfolding put_device_result.simps by (intro items) simp_all
  qed
  have metadata: "delivers P (put_device_result E P c' (Dev_metadata st m)) (get_status_metadata E P)
      (Dev_metadata st (map_option (lib_clone (md_lib E)) m))" if m: "md_sendable (md_lib E) m" for c' st m
  proof (rule sends_delivers [OF P])
    have "sends holds (put_ignored (md_write_buffer (md_lib E) P m)) (rd_default None (md_read_buffer (md_lib E) (size_width E) P))
      (map_option (lib_clone (md_lib E)) m)"
      by (intro sends_ignored sends_default metadata_sent [OF E m])
    then have "sends holds (wr_then (put_items P [I32 1]) (put_ignored (md_write_buffer (md_lib E) P m))) (get_metadata E P)
      (map_option (lib_clone (md_lib E)) m)"
      unfolding get_metadata_def by (intro sends_Cons [OF P _ reads_get(1) [OF P]] sends_Nil) simp_all
    then show "sends holds (put_device_result E P c' (Dev_metadata st m)) (get_status_metadata E P)
      (Dev_metadata st (map_option (lib_clone (md_lib E)) m))"
      unfolding get_status_metadata_def put_device_result.simps
      by (intro sends_Cons [OF P _ reads_get(7) [OF P]] sends_Cons [OF P _ reads_get(1) [OF P]] sends_map) simp_all
  qed
  show ?thesis
  proof (cases c)
    case Dev_disconnect
    have "reads_end holds (rd_map (\<lambda>_. Dev_void) (get_exception P)) [No_Exception] Dev_void"
      by (rule reads_endI, rule reads_map [OF reads_get(7) [OF P]])
    then have "delivers P (put_items P [No_Exception]) (rd_map (\<lambda>_. Dev_void) (get_exception P)) Dev_void" by (intro items) simp_all
    with Dev_disconnect r show ?thesis by simp
  qed (use r in \<open>auto simp: frame status producer metadata simp del: put_device_result.simps\<close>)
qed

interpretation device_calls: binder_interface P "device_iface E P" "\<lambda>c. env_ok holds P E \<and> device_ok E c" "device_fits E"
    "device_served E" "device_seen E"
  for holds P E
proof
  fix c
  assume ok: "env_ok holds P E \<and> device_ok E c"
  then have P: "parcel_laws P holds" by (simp add: env_ok_def)
  show "own_answer (device_iface E P) (device_served E c) = None"
    using ok by (cases c) (auto simp: device_iface_def)
  from device_args_sent [of holds P E c] ok obtain r where
    "map_of (device_cases E P) (device_code c) = Some r" "sends holds (put_device_args E P c) r (device_served E c)" by blast
  then show "delivers P (put_call (device_iface E P) c) (get_call (device_iface E P) (call_code (device_iface E P) c)) (device_served E c)"
    using sends_delivers [OF P sends_check [OF P]] by (simp add: device_iface_def put_device_call_def dispatch_def)
  show "delivers P (put_result (device_iface E P) (device_served E c) r) (get_result (device_iface E P) c 0 (at_end P d)) (device_seen E c r)"
    if "device_fits E c r" for r d
    using device_result_delivered [of holds P E c r] that ok by (simp add: device_iface_def)
qed

text \<open>C35: A call of \<open>ICameraDeviceUser\<close> through the proxy is a call of the implementation, which gets the requests with
  their surfaces and copies of their metadata, and streams with their configurations. The effects are those of the
  local call. The caller gets its result, with two changes: a failure of a request is \<open>FAILED_TRANSACTION\<close>, and so is
  every request whose frame number the caller does not want.\<close>

theorem device_calls_transparent:
  assumes "env_ok holds P E" "device_ok E c" "impl (device_served E c) w = (r, w')" "device_fits E c r"
  shows "proxy (device_iface E P) P (on_transact (device_iface E P) P impl) c w = Some (device_seen E c r, w')"
  using assms by (intro device_calls.transparent [where holds = holds]) auto

definition request1 :: "list_md capture_request" where
  "request1 = \<lparr>rq_metadata = Some (0, 0, [(5, Bytes [7])]), rq_surfaces = [Some 4, None], rq_reprocess = True\<rparr>"

lemma request1: "request_ok ipc_env1 request1" "copied ipc_env1 request1 = request1"
  using ipc_env1_sendable by (simp_all add: request_ok_def copied_def request1_def ipc_env1_clone)

definition device_impl1 :: "list_md user_call \<Rightarrow> list_md user_call list \<Rightarrow> list_md device_result \<times> list_md user_call list" where
  "device_impl1 c w = (Dev_frame 3 (Some 42), w @ [c])"

lemma device_calls_transparent_witness:
  "proxy (device_iface ipc_env1 list_parcel) list_parcel (on_transact (device_iface ipc_env1 list_parcel) list_parcel device_impl1)
     (Dev_submitRequestList [Some request1, None] True True) [] =
   Some (Dev_frame 3 (Some 42), [Dev_submitRequestList [Some request1, None] True True])"
  using device_calls_transparent [OF ipc_env1_ok, of "Dev_submitRequestList [Some request1, None] True True" device_impl1 "[]"]
  by (simp add: device_impl1_def request1 frame_seen_def)

section \<open>Where it goes wrong\<close>

text \<open>The header lets a caller leave out the place for the frame number. Then a request that was taken is reported as
  failed.\<close>

lemma frame_number_not_wanted:
  assumes "env_ok holds P E" "device_ok E (Dev_submitRequest r b False)"
    and "impl (Dev_submitRequest (map_option (copied E) r) b True) w = (Dev_frame requestid f, w')"
  shows "proxy (device_iface E P) P (on_transact (device_iface E P) P impl) (Dev_submitRequest r b False) w =
    Some (Dev_frame (of_int FAILED_TRANSACTION_st) None, w')"
  using device_calls.transparent [of holds P E "Dev_submitRequest r b False" impl w _ w'] assms by (simp add: frame_seen_def)

end
