(* ===== verification/Camera_Service_Ipc.thy ===== *)
theory Camera_Service_Ipc
  imports Camera_Device_Ipc
begin

text \<open>
  The interfaces around the device: \<open>ICameraDeviceCallbacks.cpp\<close>, by which a device reports, and
  \<open>ICameraService.cpp\<close>, by which it is found and opened.

  \<^item> Shown: callbacks arrive as they were made; calls of the service are those of the implementation and have its
    results, except \<open>getLegacyParameters\<close> and \<open>supportsCameraApi\<close>, which read the parcel they sent and not the reply.
\<close>

section \<open>\<open>ICameraDeviceCallbacks\<close>\<close>

datatype 'm callback_call =
    Cb_onDeviceError i32 capture_extras
  | Cb_onDeviceIdle
  | Cb_onCaptureStarted capture_extras "64 word"
  | Cb_onResultReceived "'m option" capture_extras
  | Cb_onPrepared i32

fun callback_code :: "'m callback_call \<Rightarrow> nat" where
  "callback_code (Cb_onDeviceError _ _) = 1"
| "callback_code Cb_onDeviceIdle = 2"
| "callback_code (Cb_onCaptureStarted _ _) = 3"
| "callback_code (Cb_onResultReceived _ _) = 4"
| "callback_code (Cb_onPrepared _) = 5"

fun put_callback_args :: "'m ipc_env \<Rightarrow> 'p parcel \<Rightarrow> 'm callback_call \<Rightarrow> 'p writer" where
  "put_callback_args E P (Cb_onDeviceError e x) = put_items P (I32 e # I32 1 # extras_items x)"
| "put_callback_args E P Cb_onDeviceIdle = put_items P []"
| "put_callback_args E P (Cb_onCaptureStarted x t) = put_items P (I32 1 # extras_items x @ [I64 t])"
| "put_callback_args E P (Cb_onResultReceived m x) =
     wr_then (wr_then (put_items P [I32 1]) (put_ignored (md_write_buffer (md_lib E) P m)))
       (put_items P (I32 1 # extras_items x))"
| "put_callback_args E P (Cb_onPrepared n) = put_items P [I32 n]"

definition get_optional_extras :: "'p parcel \<Rightarrow> ('p, capture_extras) reader" where
  "get_optional_extras P = rd_then (get_int32 P) (\<lambda>v. if v \<noteq> 0 then get_extras P new_extras else rd_return new_extras)"

text \<open>The exception that is read after the call is not used.\<close>

definition callback_cases :: "'m ipc_env \<Rightarrow> 'p parcel \<Rightarrow> (nat \<times> ('p, 'm callback_call) reader) list" where
  "callback_cases E P =
     [(1, rd_then (get_int32 P) (\<lambda>e. rd_map (Cb_onDeviceError e) (get_optional_extras P))),
      (2, rd_return Cb_onDeviceIdle),
      (3, rd_then (get_optional_extras P) (\<lambda>x. rd_map (Cb_onCaptureStarted x) (get_int64 P))),
      (4, rd_then (get_metadata E P) (\<lambda>m. rd_map (Cb_onResultReceived m) (get_optional_extras P))),
      (5, rd_map Cb_onPrepared (get_int32 P))]"

definition callback_descriptor :: string where
  "callback_descriptor = ''android.hardware.camera2.ICameraDeviceCallbacks''"

definition callback_iface :: "'m ipc_env \<Rightarrow> 'p parcel \<Rightarrow> ('p, 'm callback_call, ipc_result) iface" where
  "callback_iface E P =
     \<lparr>call_code = callback_code,
      put_call = (\<lambda>c. wr_then (put_items P [Token callback_descriptor]) (put_callback_args E P c)),
      get_call = dispatch P callback_descriptor (callback_cases E P), own_answer = (\<lambda>c. None),
      put_result = (\<lambda>c r. put_items P []), get_result = (\<lambda>c st own. rd_return Void), not_sent = (\<lambda>c e. Void)\<rparr>"

fun callback_ok :: "'m ipc_env \<Rightarrow> 'm callback_call \<Rightarrow> bool" where
  "callback_ok E (Cb_onResultReceived m x) \<longleftrightarrow> md_sendable (md_lib E) m"
| "callback_ok E _ \<longleftrightarrow> True"

fun callback_served :: "'m ipc_env \<Rightarrow> 'm callback_call \<Rightarrow> 'm callback_call" where
  "callback_served E (Cb_onResultReceived m x) = Cb_onResultReceived (map_option (lib_clone (md_lib E)) m) x"
| "callback_served E c = c"

lemma metadata_object_sent:
  assumes E: "env_ok holds P E" and m: "md_sendable (md_lib E) m"
  shows "sends holds (wr_then (put_items P [I32 1]) (put_ignored (md_write_buffer (md_lib E) P m))) (get_metadata E P)
    (map_option (lib_clone (md_lib E)) m)"
proof -
  from E have P: "parcel_laws P holds" by (simp add: env_ok_def)
  have "sends holds (put_ignored (md_write_buffer (md_lib E) P m)) (rd_default None (md_read_buffer (md_lib E) (size_width E) P))
    (map_option (lib_clone (md_lib E)) m)"
    by (intro sends_ignored sends_default metadata_sent [OF E m])
  then show ?thesis unfolding get_metadata_def by (intro sends_Cons [OF P _ reads_get(1) [OF P]] sends_Nil) simp_all
qed

lemma callback_sent:
  assumes E: "env_ok holds P E" and c: "callback_ok E c"
  shows "\<exists>r. map_of (callback_cases E P) (callback_code c) = Some r \<and> sends holds (put_callback_args E P c) r (callback_served E c)"
proof -
  from E have P: "parcel_laws P holds" by (simp add: env_ok_def)
  note items = sends_items [OF P]
  have x: "reads holds (get_optional_extras P) (I32 1 # extras_items x) x" for x
    unfolding get_optional_extras_def by (rule reads_Cons [OF reads_get(1) [OF P]]) (simp add: extras_read [OF P])
  show ?thesis
  proof (cases c)
    case (Cb_onDeviceError e y)
    have "reads holds (rd_then (get_int32 P) (\<lambda>e. rd_map (Cb_onDeviceError e) (get_optional_extras P))) (I32 e # I32 1 # extras_items y)
      (Cb_onDeviceError e y)" by (rule reads_Cons [OF reads_get(1) [OF P]], rule reads_map [OF x])
    with Cb_onDeviceError show ?thesis by (simp add: callback_cases_def) (intro items, simp_all)
  next
    case Cb_onDeviceIdle
    then show ?thesis by (simp add: callback_cases_def) (intro items reads_return, simp_all)
  next
    case (Cb_onCaptureStarted y t)
    have "reads holds (rd_then (get_optional_extras P) (\<lambda>x. rd_map (Cb_onCaptureStarted x) (get_int64 P))) (I32 1 # extras_items y @ [I64 t])
      (Cb_onCaptureStarted y t)" by (rule reads_then_app [OF x reads_map [OF reads_get(2) [OF P]]]) simp
    with Cb_onCaptureStarted show ?thesis by (simp add: callback_cases_def) (intro items, simp_all)
  next
    case (Cb_onResultReceived m y)
    have "sends holds (put_items P (I32 1 # extras_items y)) (rd_map (Cb_onResultReceived m') (get_optional_extras P)) (Cb_onResultReceived m' y)"
      for m' by (intro items reads_map x) simp_all
    from sends_then [OF metadata_object_sent [OF E], of m, OF _ this] Cb_onResultReceived c
    show ?thesis by (simp add: callback_cases_def)
  next
    case (Cb_onPrepared n)
    then show ?thesis by (simp add: callback_cases_def) (intro items reads_map reads_get P, simp_all)
  qed
qed

interpretation callback_calls: binder_interface P "callback_iface E P" "\<lambda>c. env_ok holds P E \<and> callback_ok E c" "\<lambda>c r. r = Void"
    "callback_served E" "\<lambda>c r. r"
  for holds P E
proof
  fix c
  assume ok: "env_ok holds P E \<and> callback_ok E c"
  then have P: "parcel_laws P holds" by (simp add: env_ok_def)
  show "own_answer (callback_iface E P) (callback_served E c) = None" by (simp add: callback_iface_def)
  from callback_sent [of holds P E c] ok obtain r where
    "map_of (callback_cases E P) (callback_code c) = Some r" "sends holds (put_callback_args E P c) r (callback_served E c)" by blast
  then show "delivers P (put_call (callback_iface E P) c) (get_call (callback_iface E P) (call_code (callback_iface E P) c)) (callback_served E c)"
    using sends_delivers [OF P sends_check [OF P]] by (simp add: callback_iface_def dispatch_def)
  show "delivers P (put_result (callback_iface E P) (callback_served E c) r) (get_result (callback_iface E P) c 0 (at_end P d)) r"
    if "r = Void" for r d
    using that by (simp add: callback_iface_def delivers_def put_items_def rd_return_def)
qed

text \<open>Everything that a device reports arrives, capture results with copies of their metadata and with their indices.\<close>

lemma callback_calls_transparent:
  assumes "env_ok holds P E" "callback_ok E c" "impl (callback_served E c) w = (Void, w')"
  shows "proxy (callback_iface E P) P (on_transact (callback_iface E P) P impl) c w = Some (Void, w')"
  using assms by (intro callback_calls.transparent [where holds = holds]) auto

section \<open>\<open>ICameraService\<close>\<close>

datatype service_call =
    Srv_getNumberOfCameras i32
  | Srv_getCameraInfo i32
  | Srv_getCameraCharacteristics i32
  | Srv_getCameraVendorTagDescriptor
  | Srv_connect ptr i32 string i32
  | Srv_connectDevice ptr i32 string i32
  | Srv_addListener ptr
  | Srv_removeListener ptr
  | Srv_getLegacyParameters i32
  | Srv_supportsCameraApi i32 i32
  | Srv_connectLegacy ptr i32 i32 string i32
  | Srv_setTorchMode string bool ptr
  | Srv_notifySystemEvent i32 "i32 list"

text \<open>\<open>getNumberOfCameras\<close> without a type.\<close>

definition number_of_cameras_call :: service_call where
  "number_of_cameras_call = Srv_getNumberOfCameras 0"

datatype 'm service_result =
    Srv_void
  | Srv_status i32
  | Srv_info i32 "(i32 \<times> i32) option"
  | Srv_metadata i32 "'m option"
  | Srv_tags i32 "vendor_tags option"
  | Srv_device i32 ptr
  | Srv_text i32 string

fun service_code :: "service_call \<Rightarrow> nat" where
  "service_code (Srv_getNumberOfCameras _) = 1"
| "service_code (Srv_getCameraInfo _) = 2"
| "service_code (Srv_connect _ _ _ _) = 3"
| "service_code (Srv_connectDevice _ _ _ _) = 4"
| "service_code (Srv_addListener _) = 5"
| "service_code (Srv_removeListener _) = 6"
| "service_code (Srv_getCameraCharacteristics _) = 7"
| "service_code Srv_getCameraVendorTagDescriptor = 8"
| "service_code (Srv_getLegacyParameters _) = 9"
| "service_code (Srv_supportsCameraApi _ _) = 10"
| "service_code (Srv_connectLegacy _ _ _ _ _) = 11"
| "service_code (Srv_setTorchMode _ _ _) = 12"
| "service_code (Srv_notifySystemEvent _ _) = 13"

text \<open>Integers are sent as their bytes.\<close>

definition int_bytes :: "i32 \<Rightarrow> 8 word list" where
  "int_bytes v = [ucast v, ucast (drop_bit 8 v), ucast (drop_bit 16 v), ucast (drop_bit 24 v)]"

definition bytes_int :: "8 word \<Rightarrow> 8 word \<Rightarrow> 8 word \<Rightarrow> 8 word \<Rightarrow> i32" where
  "bytes_int a b c d = or (ucast a) (or (push_bit 8 (ucast b)) (or (push_bit 16 (ucast c)) (push_bit 24 (ucast d))))"

fun bytes_ints :: "8 word list \<Rightarrow> i32 list" where
  "bytes_ints (a # b # c # d # r) = bytes_int a b c d # bytes_ints r"
| "bytes_ints _ = []"

fun service_args :: "service_call \<Rightarrow> parcel_item list" where
  "service_args (Srv_getNumberOfCameras t) = [I32 t]"
| "service_args (Srv_getCameraInfo n) = [I32 n]"
| "service_args (Srv_getCameraCharacteristics n) = [I32 n]"
| "service_args Srv_getCameraVendorTagDescriptor = []"
| "service_args (Srv_connect b n s u) = [Strong b, I32 n, S16 s, I32 u]"
| "service_args (Srv_connectDevice b n s u) = [Strong b, I32 n, S16 s, I32 u]"
| "service_args (Srv_addListener b) = [Strong b]"
| "service_args (Srv_removeListener b) = [Strong b]"
| "service_args (Srv_getLegacyParameters n) = [I32 n]"
| "service_args (Srv_supportsCameraApi n v) = [I32 n, I32 v]"
| "service_args (Srv_connectLegacy b n v s u) = [Strong b, I32 n, I32 v, S16 s, I32 u]"
| "service_args (Srv_setTorchMode s on b) = [S16 s, I32 (bool32 on), Strong b]"
| "service_args (Srv_notifySystemEvent e xs) = [I32 e, I32 (of_nat (length xs)), Raw (concat (map int_bytes xs))]"

definition get_events :: "'p parcel \<Rightarrow> i32 \<Rightarrow> i32 \<Rightarrow> ('p, service_call) reader" where
  "get_events P e len =
     (if sint len < 0 \<or> 512 < sint len then rd_fail FAILED_TRANSACTION_st
      else rd_then (get_raw P (4 * nat (sint len))) (\<lambda>b.
             case b of None \<Rightarrow> rd_fail FAILED_TRANSACTION_st
             | Some b \<Rightarrow> rd_return (Srv_notifySystemEvent e (bytes_ints b))))"

definition service_cases :: "'p parcel \<Rightarrow> (nat \<times> ('p, service_call) reader) list" where
  "service_cases P =
     (let i32 = get_int32 P; binder = get_binder P; s16 = get_string16 P
      in [(1, rd_map Srv_getNumberOfCameras i32),
          (2, rd_map Srv_getCameraInfo i32),
          (7, rd_map Srv_getCameraCharacteristics i32),
          (8, rd_return Srv_getCameraVendorTagDescriptor),
          (3, rd_then binder (\<lambda>b. rd_then i32 (\<lambda>n. rd_then s16 (\<lambda>s. rd_map (Srv_connect b n s) i32)))),
          (4, rd_then binder (\<lambda>b. rd_then i32 (\<lambda>n. rd_then s16 (\<lambda>s. rd_map (Srv_connectDevice b n s) i32)))),
          (5, rd_map Srv_addListener binder),
          (6, rd_map Srv_removeListener binder),
          (9, rd_map Srv_getLegacyParameters i32),
          (10, rd_then i32 (\<lambda>n. rd_map (Srv_supportsCameraApi n) i32)),
          (11, rd_then binder (\<lambda>b. rd_then i32 (\<lambda>n. rd_then i32 (\<lambda>v. rd_then s16 (\<lambda>s. rd_map (Srv_connectLegacy b n v s) i32))))),
          (12, rd_then s16 (\<lambda>s. rd_then i32 (\<lambda>on. rd_map (Srv_setTorchMode s (on \<noteq> 0)) binder))),
          (13, rd_then i32 (\<lambda>e. rd_then i32 (get_events P e)))])"

fun put_service_result :: "'m ipc_env \<Rightarrow> 'p parcel \<Rightarrow> 'm service_result \<Rightarrow> 'p writer" where
  "put_service_result E P Srv_void = put_items P []"
| "put_service_result E P (Srv_status st) = put_items P [No_Exception, I32 st]"
| "put_service_result E P (Srv_info st x) =
     put_items P [No_Exception, I32 st, I32 1, I32 (case x of None \<Rightarrow> 0 | Some (f, _) \<Rightarrow> f), I32 (case x of None \<Rightarrow> 0 | Some (_, r) \<Rightarrow> r)]"
| "put_service_result E P (Srv_metadata st m) =
     wr_then (put_items P [No_Exception, I32 st])
       (wr_then (put_items P [I32 1]) (put_ignored (md_write_buffer (md_lib E) P m)))"
| "put_service_result E P (Srv_tags st None) = put_items P [No_Exception, I32 st, I32 0]"
| "put_service_result E P (Srv_tags st (Some d)) =
     wr_then (put_items P [No_Exception, I32 st, I32 1]) (put_ignored (writeToParcel P d))"
| "put_service_result E P (Srv_device st b) =
     put_items P (No_Exception # I32 st # (if b = None then [I32 0] else [I32 1, Strong b]))"
| "put_service_result E P (Srv_text st s) = put_items P [No_Exception, I32 st, I32 1, S16 s]"

text \<open>An exception is the result in its place; only its code is looked at.\<close>

definition unless_exception :: "'p parcel \<Rightarrow> 'r \<Rightarrow> ('p, 'r) reader \<Rightarrow> ('p, 'r) reader" where
  "unless_exception P x r = rd_then (get_exception P) (\<lambda>e. if e \<noteq> 0 then rd_return x else r)"

definition eproto :: "'m service_result" where "eproto = Srv_status (of_int EPROTO_st)"

definition get_service_status :: "'p parcel \<Rightarrow> 'm service_result \<Rightarrow> ('p, 'm service_result) reader" where
  "get_service_status P x = unless_exception P x (rd_map Srv_status (get_int32 P))"

definition get_info :: "'p parcel \<Rightarrow> ('p, 'm service_result) reader" where
  "get_info P = unless_exception P eproto (rd_then (get_int32 P) (\<lambda>st. rd_then (get_int32 P) (\<lambda>v.
     if v \<noteq> 0 then rd_then (get_int32 P) (\<lambda>f. rd_map (\<lambda>r. Srv_info st (Some (f, r))) (get_int32 P))
     else rd_return (Srv_info st None))))"

definition get_characteristics :: "'m ipc_env \<Rightarrow> 'p parcel \<Rightarrow> ('p, 'm service_result) reader" where
  "get_characteristics E P =
     unless_exception P eproto (rd_then (get_int32 P) (\<lambda>st. rd_map (Srv_metadata st) (get_metadata E P)))"

definition get_tags :: "'m ipc_env \<Rightarrow> 'p parcel \<Rightarrow> ('p, 'm service_result) reader" where
  "get_tags E P =
     unless_exception P eproto (rd_then (get_int32 P) (\<lambda>st. rd_then (get_int32 P) (\<lambda>v.
       rd_map (Srv_tags st)
         (if v \<noteq> 0 then rd_default None (rd_map Some (createFromParcel (tag_base E) (tag_types E) (tag_capacity E) P))
          else rd_return None))))"

definition get_device :: "'p parcel \<Rightarrow> int \<Rightarrow> ('p, 'm service_result) reader" where
  "get_device P st =
     (if st \<noteq> 0 then rd_return (Srv_device (of_int st) None)
      else unless_exception P eproto (rd_then (get_int32 P) (\<lambda>res. rd_then (get_int32 P) (\<lambda>v.
             rd_map (Srv_device res) (if v \<noteq> 0 then get_binder P else rd_return None)))))"

text \<open>What is read from another parcel.\<close>

definition read_own :: "'p \<Rightarrow> ('p, 'a) reader \<Rightarrow> ('p, 'a) reader" where
  "read_own own r p = map_option (\<lambda>(x, _). (x, p)) (r own)"

definition get_legacy :: "'p parcel \<Rightarrow> 'p \<Rightarrow> ('p, 'm service_result) reader" where
  "get_legacy P own =
     unless_exception P eproto (read_own own (rd_then (get_int32 P) (\<lambda>res. rd_then (get_int32 P) (\<lambda>len.
       if 0 < sint len then rd_map (Srv_text res) (get_string16 P) else rd_return (Srv_text res [])))))"

definition get_supports :: "'p parcel \<Rightarrow> 'p \<Rightarrow> ('p, 'm service_result) reader" where
  "get_supports P own = unless_exception P eproto (read_own own (rd_map Srv_status (get_int32 P)))"

fun get_service_result :: "'m ipc_env \<Rightarrow> 'p parcel \<Rightarrow> service_call \<Rightarrow> int \<Rightarrow> 'p \<Rightarrow> ('p, 'm service_result) reader" where
  "get_service_result E P (Srv_getNumberOfCameras _) st own = get_service_status P (Srv_status 0)"
| "get_service_result E P (Srv_getCameraInfo _) st own = get_info P"
| "get_service_result E P (Srv_getCameraCharacteristics _) st own = get_characteristics E P"
| "get_service_result E P Srv_getCameraVendorTagDescriptor st own = get_tags E P"
| "get_service_result E P (Srv_connect _ _ _ _) st own = get_device P st"
| "get_service_result E P (Srv_connectDevice _ _ _ _) st own = get_device P st"
| "get_service_result E P (Srv_connectLegacy _ _ _ _ _) st own = get_device P st"
| "get_service_result E P (Srv_getLegacyParameters _) st own = get_legacy P own"
| "get_service_result E P (Srv_supportsCameraApi _ _) st own = get_supports P own"
| "get_service_result E P (Srv_notifySystemEvent _ _) st own = rd_return Srv_void"
| "get_service_result E P _ st own = get_service_status P eproto"

definition service_descriptor :: string where "service_descriptor = ''android.hardware.ICameraService''"

definition service_iface :: "'m ipc_env \<Rightarrow> 'p parcel \<Rightarrow> ('p, service_call, 'm service_result) iface" where
  "service_iface E P =
     \<lparr>call_code = service_code, put_call = (\<lambda>c. put_items P (Token service_descriptor # service_args c)),
      get_call = dispatch P service_descriptor (service_cases P), own_answer = (\<lambda>c. None),
      put_result = (\<lambda>c. put_service_result E P), get_result = get_service_result E P, not_sent = (\<lambda>c e. Srv_void)\<rparr>"

subsection \<open>The two sides fit, but for two calls\<close>

lemma bytes_int: "bytes_int (ucast v) (ucast (drop_bit 8 v)) (ucast (drop_bit 16 v)) (ucast (drop_bit 24 v)) = v"
proof (rule bit_word_eqI)
  fix n
  assume "n < LENGTH(32)"
  then consider "n < 8" | "8 \<le> n" "n < 16" | "16 \<le> n" "n < 24" | "24 \<le> n" "n < 32" by fastforce
  then show "bit (bytes_int (ucast v) (ucast (drop_bit 8 v)) (ucast (drop_bit 16 v)) (ucast (drop_bit 24 v))) n = bit v n"
    by cases (auto simp: bytes_int_def bit_simps)
qed

lemma bytes_ints: "bytes_ints (concat (map int_bytes xs)) = xs"
  by (induction xs) (simp_all add: int_bytes_def bytes_int)

lemma length_int_bytes: "length (concat (map int_bytes xs)) = 4 * length xs"
  by (induction xs) (simp_all add: int_bytes_def)

text \<open>More than 512 integers are refused.\<close>

fun service_ok :: "service_call \<Rightarrow> bool" where
  "service_ok (Srv_notifySystemEvent _ xs) \<longleftrightarrow> length xs \<le> 512"
| "service_ok _ \<longleftrightarrow> True"

fun service_fits :: "'m ipc_env \<Rightarrow> service_call \<Rightarrow> 'm service_result \<Rightarrow> bool" where
  "service_fits E (Srv_getCameraInfo _) r \<longleftrightarrow> (\<exists>st x. r = Srv_info st (Some x))"
| "service_fits E (Srv_getCameraCharacteristics _) r \<longleftrightarrow> (\<exists>st m. r = Srv_metadata st m \<and> md_sendable (md_lib E) m)"
| "service_fits E Srv_getCameraVendorTagDescriptor r \<longleftrightarrow>
     (\<exists>st d. r = Srv_tags st d \<and> (\<forall>x. d = Some x \<longrightarrow> vt_sendable (tag_base E) (tag_types E) (tag_capacity E) x))"
| "service_fits E (Srv_connect _ _ _ _) r \<longleftrightarrow> (\<exists>st b. r = Srv_device st b)"
| "service_fits E (Srv_connectDevice _ _ _ _) r \<longleftrightarrow> (\<exists>st b. r = Srv_device st b)"
| "service_fits E (Srv_connectLegacy _ _ _ _ _) r \<longleftrightarrow> (\<exists>st b. r = Srv_device st b)"
| "service_fits E (Srv_getLegacyParameters _) r \<longleftrightarrow> (\<exists>st s. r = Srv_text st s)"
| "service_fits E (Srv_notifySystemEvent _ _) r \<longleftrightarrow> r = Srv_void"
| "service_fits E _ r \<longleftrightarrow> (\<exists>st. r = Srv_status st)"

fun service_seen :: "'m ipc_env \<Rightarrow> service_call \<Rightarrow> 'm service_result \<Rightarrow> 'm service_result" where
  "service_seen E (Srv_getLegacyParameters _) r = Srv_text 0 []"
| "service_seen E (Srv_supportsCameraApi _ _) r = Srv_status 0"
| "service_seen E c (Srv_metadata st m) = Srv_metadata st (map_option (lib_clone (md_lib E)) m)"
| "service_seen E c r = r"

lemma service_args_read:
  assumes P: "parcel_laws P holds" and c: "service_ok c"
  shows "plain (service_args c)"
    "\<exists>r. map_of (service_cases P) (service_code c) = Some r \<and> reads holds r (service_args c) c"
proof -
  note intros = reads_bool_map [OF P] reads_intros P
  show "plain (service_args c)" by (cases c) simp_all
  show "\<exists>r. map_of (service_cases P) (service_code c) = Some r \<and> reads holds r (service_args c) c"
  proof (cases c)
    case (Srv_notifySystemEvent e xs)
    let ?b = "concat (map int_bytes xs)"
    have n: "sint (of_nat (length xs) :: 32 word) = int (length xs)"
      using c Srv_notifySystemEvent by (simp add: signed_of_nat signed_take_bit_eq_take_bit_shift take_bit_int_eq_self)
    have "reads holds (get_raw P (4 * length xs)) [Raw ?b] (Some ?b)"
      using reads_get(6) [OF P, of ?b] by (simp only: length_int_bytes)
    from reads_Cons [OF this, of "\<lambda>b. case b of None \<Rightarrow> rd_fail FAILED_TRANSACTION_st | Some b \<Rightarrow> rd_return (Srv_notifySystemEvent e (bytes_ints b))"]
    have "reads holds (get_events P e (of_nat (length xs))) [Raw ?b] (Srv_notifySystemEvent e xs)"
      using c Srv_notifySystemEvent by (simp add: get_events_def n bytes_ints reads_return)
    then have "reads holds (rd_then (get_int32 P) (\<lambda>e. rd_then (get_int32 P) (get_events P e)))
      [I32 e, I32 (of_nat (length xs)), Raw ?b] (Srv_notifySystemEvent e xs)"
      by (intro reads_Cons [OF reads_get(1) [OF P]])
    with Srv_notifySystemEvent show ?thesis by (simp add: service_cases_def Let_def)
  next
    case (Srv_setTorchMode s on b)
    have "reads holds (rd_then (get_string16 P) (\<lambda>s. rd_then (get_int32 P) (\<lambda>on. rd_map (Srv_setTorchMode s (on \<noteq> 0)) (get_binder P))))
      [S16 s, I32 (bool32 on), Strong b] (Srv_setTorchMode s (bool32 on \<noteq> 0) b)"
      by (rule intros)+
    with Srv_setTorchMode show ?thesis by (simp add: service_cases_def Let_def)
  qed (simp_all add: service_cases_def Let_def, (rule intros)+)
qed

lemma unless_exception_end:
  assumes P: "parcel_laws P holds" and r: "reads_end holds r its v"
  shows "reads_end holds (unless_exception P x r) (No_Exception # its) v"
  unfolding unless_exception_def by (rule reads_end_Cons [OF reads_get(7) [OF P]]) (simp add: r)

lemma unless_exception_sent:
  assumes P: "parcel_laws P holds" and r: "sends holds (wr_then (put_items P its) w) r v"
  shows "sends holds (wr_then (put_items P (No_Exception # its)) w) (unless_exception P x r) v"
  unfolding unless_exception_def by (rule sends_Cons [OF P _ reads_get(7) [OF P]]) (simp_all add: r)

lemma at_end_reads:
  assumes P: "parcel_laws P holds"
  shows "get_int32 P (at_end P d) = Some (Inr 0, at_end P d)"
  using parcel_lawsD(11) [OF P] by (simp add: get_int32_def rd_default_def rd_int32_def)

lemma at_end_read_own:
  assumes P: "parcel_laws P holds"
  shows "read_own (at_end P d) (rd_then (get_int32 P) (\<lambda>res. rd_then (get_int32 P) (\<lambda>len.
       if 0 < sint len then rd_map (Srv_text res) (get_string16 P) else rd_return (Srv_text res [])))) = rd_return (Srv_text 0 [])"
    "read_own (at_end P d) (rd_map Srv_status (get_int32 P)) = rd_return (Srv_status 0)"
  by (simp_all add: fun_eq_iff read_own_def rd_map_def rd_then_def at_end_reads [OF P] rd_return_def)

lemma service_result_delivered:
  assumes E: "env_ok holds P E" and r: "service_fits E c r"
  shows "delivers P (put_service_result E P r) (get_service_result E P c 0 (at_end P d)) (service_seen E c r)"
proof -
  from E have P: "parcel_laws P holds" by (simp add: env_ok_def)
  note items = items_delivered [OF P]
  note get = reads_end_Cons [OF reads_get(1) [OF P]] unless_exception_end [OF P]
  have status: "delivers P (put_service_result E P (Srv_status st)) (get_service_status P x) (Srv_status st)" for st x
    unfolding put_service_result.simps get_service_status_def
    by (intro items get reads_endI reads_map reads_get P) simp_all
  have info: "delivers P (put_service_result E P (Srv_info st (Some (f, o')))) (get_info P) (Srv_info st (Some (f, o')))" for st f o'
  proof -
    have "reads_end holds (get_info P) [No_Exception, I32 st, I32 1, I32 f, I32 o'] (Srv_info st (Some (f, o')))"
      unfolding get_info_def
      by ((rule get)+, simp only: one_neq_zero not_False_eq_True if_True, rule get, rule reads_endI, rule reads_map [OF reads_get(1) [OF P]])
    then show ?thesis by (simp only: put_service_result.simps option.case prod.case) (intro items, simp_all)
  qed
  have metadata: "delivers P (put_service_result E P (Srv_metadata st m)) (get_characteristics E P)
      (Srv_metadata st (map_option (lib_clone (md_lib E)) m))" if "md_sendable (md_lib E) m" for st m
    unfolding put_service_result.simps get_characteristics_def
    by (rule sends_delivers [OF P], rule unless_exception_sent [OF P], rule sends_Cons [OF P _ reads_get(1) [OF P]], simp)
      (rule sends_Nil, rule sends_map [OF metadata_object_sent [OF E that]])
  have tags: "delivers P (put_service_result E P (Srv_tags st x)) (get_tags E P) (Srv_tags st x)"
    if "\<forall>y. x = Some y \<longrightarrow> vt_sendable (tag_base E) (tag_types E) (tag_capacity E) y" for st x
  proof (cases x)
    case None
    have "reads_end holds (get_tags E P) [No_Exception, I32 st, I32 0] (Srv_tags st None)"
      unfolding get_tags_def by ((rule get)+, simp, rule reads_endI, rule reads_map [OF reads_return])
    with None show ?thesis by (simp only: put_service_result.simps) (intro items, simp_all)
  next
    case (Some y)
    have y: "vt_sendable (tag_base E) (tag_types E) (tag_capacity E) y" using that Some by simp
    then have "vt_ok (tag_base E) (tag_types E) y" by (simp add: vt_sendable_def)
    from sends_ignored [OF sendsI [OF vt_writes [OF P this] vt_reads [OF P y]]]
    have "sends holds (put_ignored (writeToParcel P y))
      (rd_default None (rd_map Some (createFromParcel (tag_base E) (tag_types E) (tag_capacity E) P))) (Some y)"
      by (intro sends_default sends_map)
    then show ?thesis unfolding Some put_service_result.simps get_tags_def
      by (intro sends_delivers [OF P] unless_exception_sent [OF P] sends_Cons [OF P _ reads_get(1) [OF P]] sends_Nil)
        (simp_all add: sends_map)
  qed
  have device: "delivers P (put_service_result E P (Srv_device st b)) (get_device P 0) (Srv_device st b)" for st b
  proof (cases b)
    case None
    have "reads_end holds (get_device P 0) [No_Exception, I32 st, I32 0] (Srv_device st None)"
      unfolding get_device_def by (simp, (rule get)+, simp, rule reads_endI, rule reads_map [OF reads_return])
    with None show ?thesis by (simp only: put_service_result.simps) (intro items, simp_all)
  next
    case (Some a)
    have "reads_end holds (get_device P 0) [No_Exception, I32 st, I32 1, Strong b] (Srv_device st b)"
      unfolding get_device_def by (simp, (rule get)+, simp, rule reads_endI, rule reads_map [OF reads_get(4) [OF P]])
    with Some show ?thesis by (simp only: put_service_result.simps) (intro items, simp_all)
  qed
  have legacy: "delivers P (put_service_result E P (Srv_text st s)) (get_legacy P (at_end P d)) (Srv_text 0 [])" for st s
    unfolding put_service_result.simps get_legacy_def at_end_read_own [OF P]
    by (intro items unless_exception_end [OF P] reads_end_return) simp_all
  have supports: "delivers P (put_service_result E P (Srv_status st)) (get_supports P (at_end P d)) (Srv_status 0)" for st
    unfolding put_service_result.simps get_supports_def at_end_read_own [OF P]
    by (intro items unless_exception_end [OF P] reads_end_return) simp_all
  have void: "delivers P (put_service_result E P Srv_void) (rd_return Srv_void) Srv_void"
    by (simp add: delivers_def put_items_def rd_return_def)
  show ?thesis
    using r status info metadata tags device legacy supports void
    by (cases c) (auto simp del: put_service_result.simps)
qed

interpretation service_calls: binder_interface P "service_iface E P" "\<lambda>c. env_ok holds P E \<and> service_ok c" "service_fits E"
    "\<lambda>c. c" "service_seen E"
  for holds P E
proof
  fix c
  assume ok: "env_ok holds P E \<and> service_ok c"
  then have P: "parcel_laws P holds" by (simp add: env_ok_def)
  show "own_answer (service_iface E P) c = None" by (simp add: service_iface_def)
  from service_args_read [OF P, of c] ok obtain r where
    "map_of (service_cases P) (service_code c) = Some r" "reads holds r (service_args c) c" "plain (service_args c)" by blast
  then show "delivers P (put_call (service_iface E P) c) (get_call (service_iface E P) (call_code (service_iface E P) c)) c"
    by (auto simp: service_iface_def dispatch_def intro!: items_delivered [OF P] reads_endI reads_check_interface P)
  show "delivers P (put_result (service_iface E P) c r) (get_result (service_iface E P) c 0 (at_end P d)) (service_seen E c r)"
    if "service_fits E c r" for r d
    using service_result_delivered [of holds P E c r d] that ok by (simp add: service_iface_def)
qed

text \<open>C36: A call of \<open>ICameraService\<close> through the proxy is a call of the implementation, with its effects and its result:
  metadata and the vendor's tags as they are, devices and events as they were. But \<open>getLegacyParameters\<close> is always
  the empty string with the status 0, and \<open>supportsCameraApi\<close> always says that the version is supported.\<close>

theorem service_calls_transparent:
  assumes "env_ok holds P E" "service_ok c" "impl c w = (r, w')" "service_fits E c r"
  shows "proxy (service_iface E P) P (on_transact (service_iface E P) P impl) c w = Some (service_seen E c r, w')"
  using assms by (intro service_calls.transparent [where holds = holds]) auto

definition service_impl1 :: "service_call \<Rightarrow> service_call list \<Rightarrow> list_md service_result \<times> service_call list" where
  "service_impl1 c w = (Srv_device 0 (Some 9), w @ [c])"

lemma service_calls_transparent_witness:
  "proxy (service_iface ipc_env1 list_parcel) list_parcel (on_transact (service_iface ipc_env1 list_parcel) list_parcel service_impl1)
     (Srv_connect (Some 3) 1 ''app'' 1000) [] = Some (Srv_device 0 (Some 9), [Srv_connect (Some 3) 1 ''app'' 1000])"
  using service_calls_transparent [OF ipc_env1_ok, of "Srv_connect (Some 3) 1 ''app'' 1000" service_impl1 "[]"]
  by (simp add: service_impl1_def)

section \<open>Where it goes wrong\<close>

text \<open>A camera that does not support a version, and the parameters of a legacy camera.\<close>

lemma unsupported_api_is_supported:
  assumes "env_ok holds P E" "impl (Srv_supportsCameraApi n v) w = (Srv_status st, w')"
  shows "proxy (service_iface E P) P (on_transact (service_iface E P) P impl) (Srv_supportsCameraApi n v) w =
    Some (Srv_status 0, w')"
  using service_calls.transparent [of holds P E "Srv_supportsCameraApi n v" impl w _ w'] assms by simp

lemma legacy_parameters_are_lost:
  assumes "env_ok holds P E" "impl (Srv_getLegacyParameters n) w = (Srv_text st s, w')"
  shows "proxy (service_iface E P) P (on_transact (service_iface E P) P impl) (Srv_getLegacyParameters n) w =
    Some (Srv_text 0 [], w')"
  using service_calls.transparent [of holds P E "Srv_getLegacyParameters n" impl w _ w'] assms by simp

end
