(* ===== verification/Camera_Client.thy ===== *)
theory Camera_Client
  imports Camera_Service_Ipc
begin

text \<open>
  \<open>CameraBase.cpp\<close> and \<open>Camera.cpp\<close>: the camera objects of an application, the service that all of them share, and
  the objects that hand recording on to another process.

  \<^item> The state is the camera objects by their numbers, and the service that was found last. What leaves the process
    is appended to a trace, and what comes back depends on it: calls of the cameras and the service (\<open>Camera_Ipc\<close>,
    \<open>Camera_Service_Ipc\<close>), registrations for deaths, and what the listeners get. References are not counted: an
    object stays. An operation is one step; the two steps of a call are looked at separately.
  \<^item> A result None is a NULL pointer followed, an object that does not exist, or waiting for the service for ever.
  \<^item> Shown: what a camera object does in its life, that only a living service is called, when the search for the
    service ends, where the frames of a recording go, and which calls can follow a NULL pointer.
\<close>

section \<open>State\<close>

definition NO_INIT_st :: int where "NO_INIT_st = - 19"
definition UNKNOWN_ERROR_st :: int where "UNKNOWN_ERROR_st = - 2147483648"

record cam_client =
  mCamera :: ptr
  mStatus :: i32
  mCameraId :: i32
  mListener :: ptr
  mRecordingProxyListener :: ptr

text \<open>Cameras, services and listeners are numbers; calls of a camera carry the object that makes them.\<close>

datatype cam_out =
    Waited
  | Service_linked nat
  | Service_died
  | To_service nat service_call
  | To_camera nat nat camera_call
  | Linked nat nat
  | Unlinked nat nat
  | Notified nat i32 i32 i32
  | Posted_data nat i32 ptr "(i32 \<times> 8 word list option) option"
  | Posted_frame nat "64 word" i32 ptr
  | Forwarded nat frame_call

record client_world =
  gCameraService :: ptr
  gDeathNotifier :: bool
  objects :: "nat \<Rightarrow> cam_client option"
  next_object :: nat
  trace :: "cam_out list"

text \<open>Answers, after what has left the process: of a camera, of the service (a status and a camera for the calls that
  connect), and of the service manager to each of its questions.\<close>

record 'm client_env =
  camera_answers :: "cam_out list \<Rightarrow> ipc_result"
  connect_answers :: "cam_out list \<Rightarrow> i32 \<times> ptr"
  service_answers :: "cam_out list \<Rightarrow> 'm service_result"
  published :: "cam_out list \<Rightarrow> nat \<Rightarrow> ptr"

definition client_start :: client_world where
  "client_start = \<lparr>gCameraService = None, gDeathNotifier = False, objects = (\<lambda>_. None), next_object = 0, trace = []\<rparr>"

definition emit :: "cam_out \<Rightarrow> client_world \<Rightarrow> client_world" where
  "emit e w = w\<lparr>trace := trace w @ [e]\<rparr>"

definition put_client :: "nat \<Rightarrow> cam_client \<Rightarrow> client_world \<Rightarrow> client_world" where
  "put_client n x w = w\<lparr>objects := (objects w)(n := Some x)\<rparr>"

definition camera_ipc :: "'m client_env \<Rightarrow> nat \<Rightarrow> nat \<Rightarrow> camera_call \<Rightarrow> client_world \<Rightarrow> ipc_result \<times> client_world" where
  "camera_ipc E n b c w = (let w1 = emit (To_camera n b c) w in (camera_answers E (trace w1), w1))"

section \<open>The service\<close>

text \<open>It is asked for until it is there.\<close>

partial_function (option) find_service :: "(nat \<Rightarrow> ptr) \<Rightarrow> nat \<Rightarrow> (nat \<times> nat) option" where
  "find_service ask k = (case ask k of Some b \<Rightarrow> Some (b, k) | None \<Rightarrow> find_service ask (Suc k))"

definition getCameraService :: "'m client_env \<Rightarrow> client_world \<Rightarrow> (ptr \<times> client_world) option" where
  "getCameraService E w =
     (case gCameraService w of
        Some s \<Rightarrow> Some (Some s, w)
      | None \<Rightarrow>
          map_option (\<lambda>(b, k). (Some b,
              w\<lparr>gCameraService := Some b, gDeathNotifier := True,
                trace := trace w @ replicate k Waited @ [Service_linked b]\<rparr>))
            (find_service (published E (trace w)) 0))"

definition service_binderDied :: "client_world \<Rightarrow> client_world" where
  "service_binderDied w = emit Service_died (w\<lparr>gCameraService := None\<rparr>)"

text \<open>A call of the service; \<open>missing\<close> is the result without one.\<close>

definition with_service ::
  "'m client_env \<Rightarrow> service_call \<Rightarrow> 'm service_result \<Rightarrow> client_world \<Rightarrow> ('m service_result \<times> client_world) option" where
  "with_service E c missing w =
     do { (cs, w1) \<leftarrow> getCameraService E w;
          Some (case cs of
                  None \<Rightarrow> (missing, w1)
                | Some s \<Rightarrow> (let w2 = emit (To_service s c) w1 in (service_answers E (trace w2), w2))) }"

definition getNumberOfCameras :: "'m client_env \<Rightarrow> client_world \<Rightarrow> ('m service_result \<times> client_world) option" where
  "getNumberOfCameras E = with_service E number_of_cameras_call (Srv_status 0)"

definition getCameraInfo :: "'m client_env \<Rightarrow> i32 \<Rightarrow> client_world \<Rightarrow> ('m service_result \<times> client_world) option" where
  "getCameraInfo E cameraId = with_service E (Srv_getCameraInfo cameraId) (Srv_status (of_int UNKNOWN_ERROR_st))"

definition addServiceListener :: "'m client_env \<Rightarrow> ptr \<Rightarrow> client_world \<Rightarrow> ('m service_result \<times> client_world) option" where
  "addServiceListener E listener = with_service E (Srv_addListener listener) (Srv_status (of_int UNKNOWN_ERROR_st))"

definition removeServiceListener :: "'m client_env \<Rightarrow> ptr \<Rightarrow> client_world \<Rightarrow> ('m service_result \<times> client_world) option" where
  "removeServiceListener E listener = with_service E (Srv_removeListener listener) (Srv_status (of_int UNKNOWN_ERROR_st))"

section \<open>Connecting\<close>

definition new_client :: "i32 \<Rightarrow> client_world \<Rightarrow> nat \<times> client_world" where
  "new_client cameraId w =
     (next_object w,
      (put_client (next_object w)
        \<lparr>mCamera = None, mStatus = of_int UNKNOWN_ERROR_st, mCameraId = cameraId, mListener = None,
         mRecordingProxyListener = None\<rparr> w)\<lparr>next_object := Suc (next_object w)\<rparr>)"

text \<open>The object is given the camera; whether the client gets the object.\<close>

definition connected :: "nat \<Rightarrow> i32 \<Rightarrow> ptr \<Rightarrow> client_world \<Rightarrow> (bool \<times> client_world) option" where
  "connected n st camera w =
     do { x \<leftarrow> objects w n;
          Some (case camera of
                  None \<Rightarrow> (False, put_client n (x\<lparr>mCamera := None\<rparr>) w)
                | Some b \<Rightarrow>
                    if st = 0 then (True, put_client n (x\<lparr>mCamera := Some b, mStatus := 0\<rparr>) (emit (Linked b n) w))
                    else (False, put_client n (x\<lparr>mCamera := Some b\<rparr>) w)) }"

definition connect_with ::
  "'m client_env \<Rightarrow> (ptr \<Rightarrow> service_call) \<Rightarrow> i32 \<Rightarrow> client_world \<Rightarrow> (i32 \<times> ptr \<times> client_world) option" where
  "connect_with E call cameraId w =
     do { let (n, w1) = new_client cameraId w;
          (cs, w2) \<leftarrow> getCameraService E w1;
          let (st, camera, w3) =
            (case cs of
               None \<Rightarrow> (0, None, w2)
             | Some s \<Rightarrow> (let w' = emit (To_service s (call (Some n))) w2;
                              (st, camera) = connect_answers E (trace w')
                          in (st, camera, w')));
          (ok, w4) \<leftarrow> connected n st camera w3;
          Some (st, if ok then Some n else None, w4) }"

definition Camera_connect ::
  "'m client_env \<Rightarrow> i32 \<Rightarrow> string \<Rightarrow> i32 \<Rightarrow> client_world \<Rightarrow> (ptr \<times> client_world) option" where
  "Camera_connect E cameraId clientPackageName clientUid w =
     map_option snd (connect_with E (\<lambda>cl. Srv_connect cl cameraId clientPackageName clientUid) cameraId w)"

text \<open>The last argument of \<open>connectLegacy\<close> is set only when it succeeds.\<close>

definition connectLegacy ::
  "'m client_env \<Rightarrow> i32 \<Rightarrow> i32 \<Rightarrow> string \<Rightarrow> i32 \<Rightarrow> ptr \<Rightarrow> client_world \<Rightarrow> (i32 \<times> ptr \<times> client_world) option" where
  "connectLegacy E cameraId halVersion clientPackageName clientUid camera w =
     map_option (\<lambda>(st, n, w'). (st, if n = None then camera else n, w'))
       (connect_with E (\<lambda>cl. Srv_connectLegacy cl cameraId halVersion clientPackageName clientUid) cameraId w)"

definition Camera_create :: "'m client_env \<Rightarrow> ptr \<Rightarrow> client_world \<Rightarrow> (ptr \<times> client_world) option" where
  "Camera_create E camera w =
     (case camera of
        None \<Rightarrow> Some (None, w)
      | Some b \<Rightarrow>
          (let (n, w1) = new_client (- 1) w;
               (r, w2) = camera_ipc E n b (Cam_connect (Some n)) w1
           in if r = Status 0 then do { (_, w3) \<leftarrow> connected n 0 camera w2; Some (Some n, w3) } else Some (None, w2)))"

definition Camera_disconnect :: "'m client_env \<Rightarrow> nat \<Rightarrow> client_world \<Rightarrow> client_world option" where
  "Camera_disconnect E n w =
     do { x \<leftarrow> objects w n;
          Some (case mCamera x of
                  None \<Rightarrow> w
                | Some b \<Rightarrow> put_client n (x\<lparr>mCamera := None\<rparr>) (emit (Unlinked b n) (snd (camera_ipc E n b Cam_disconnect w)))) }"

section \<open>Calls\<close>

fun no_camera :: "camera_call \<Rightarrow> ipc_result" where
  "no_camera Cam_stopPreview = Void"
| "no_camera Cam_stopRecording = Void"
| "no_camera (Cam_releaseRecordingFrame _) = Void"
| "no_camera (Cam_setPreviewCallbackFlag _) = Void"
| "no_camera Cam_previewEnabled = Flag False"
| "no_camera Cam_recordingEnabled = Flag False"
| "no_camera Cam_getParameters = Text []"
| "no_camera _ = Status (of_int NO_INIT_st)"

text \<open>A call reads the camera of the object and then calls what it has read, but for two calls, which read it again.\<close>

fun reads_again :: "camera_call \<Rightarrow> bool" where
  "reads_again Cam_getParameters = True"
| "reads_again (Cam_setPreviewCallbackFlag _) = True"
| "reads_again _ = False"

definition call_camera ::
  "'m client_env \<Rightarrow> nat \<Rightarrow> camera_call \<Rightarrow> ptr \<Rightarrow> client_world \<Rightarrow> (ipc_result \<times> client_world) option" where
  "call_camera E n c camera w =
     (case camera of
        None \<Rightarrow> Some (no_camera c, w)
      | Some b \<Rightarrow>
          if reads_again c
          then do { x \<leftarrow> objects w n; b' \<leftarrow> mCamera x; Some (camera_ipc E n b' c w) }
          else Some (camera_ipc E n b c w))"

definition Camera_call :: "'m client_env \<Rightarrow> nat \<Rightarrow> camera_call \<Rightarrow> client_world \<Rightarrow> (ipc_result \<times> client_world) option" where
  "Camera_call E n c w = do { x \<leftarrow> objects w n; call_camera E n c (mCamera x) w }"

definition reconnect :: "'m client_env \<Rightarrow> nat \<Rightarrow> client_world \<Rightarrow> (ipc_result \<times> client_world) option" where
  "reconnect E n = Camera_call E n (Cam_connect (Some n))"

definition setRecordingProxyListener :: "nat \<Rightarrow> ptr \<Rightarrow> client_world \<Rightarrow> client_world option" where
  "setRecordingProxyListener n listener w =
     map_option (\<lambda>x. put_client n (x\<lparr>mRecordingProxyListener := listener\<rparr>) w) (objects w n)"

definition setListener :: "nat \<Rightarrow> ptr \<Rightarrow> client_world \<Rightarrow> client_world option" where
  "setListener n listener w = map_option (\<lambda>x. put_client n (x\<lparr>mListener := listener\<rparr>) w) (objects w n)"

definition Camera_stopRecording :: "'m client_env \<Rightarrow> nat \<Rightarrow> client_world \<Rightarrow> (ipc_result \<times> client_world) option" where
  "Camera_stopRecording E n w =
     do { w1 \<leftarrow> setRecordingProxyListener n None w; Camera_call E n Cam_stopRecording w1 }"

text \<open>The object for another process, which holds its camera object.\<close>

fun RecordingProxy :: "'m client_env \<Rightarrow> nat \<Rightarrow> recording_call \<Rightarrow> client_world \<Rightarrow> (ipc_result \<times> client_world) option" where
  "RecordingProxy E n (Rec_startRecording listener) w =
     do { w1 \<leftarrow> setRecordingProxyListener n listener w;
          (_, w2) \<leftarrow> reconnect E n w1;
          Camera_call E n Cam_startRecording w2 }"
| "RecordingProxy E n Rec_stopRecording w = Camera_stopRecording E n w"
| "RecordingProxy E n (Rec_releaseRecordingFrame mem) w = Camera_call E n (Cam_releaseRecordingFrame mem) w"

section \<open>Callbacks\<close>

fun client_callback :: "'m client_env \<Rightarrow> nat \<Rightarrow> client_call \<Rightarrow> client_world \<Rightarrow> client_world option" where
  "client_callback E n (Cl_notifyCallback msgType ext1 ext2) w =
     do { x \<leftarrow> objects w n;
          Some (case mListener x of None \<Rightarrow> w | Some l \<Rightarrow> emit (Notified l msgType ext1 ext2) w) }"
| "client_callback E n (Cl_dataCallback msgType dataPtr metadata) w =
     do { x \<leftarrow> objects w n;
          Some (case mListener x of None \<Rightarrow> w | Some l \<Rightarrow> emit (Posted_data l msgType dataPtr metadata) w) }"
| "client_callback E n (Cl_dataCallbackTimestamp timestamp msgType dataPtr) w =
     do { x \<leftarrow> objects w n;
          case mRecordingProxyListener x of
            Some l \<Rightarrow> Some (emit (Forwarded l (Frame_dataCallbackTimestamp timestamp msgType dataPtr)) w)
          | None \<Rightarrow>
              (case mListener x of
                 Some l \<Rightarrow> Some (emit (Posted_frame l timestamp msgType dataPtr) w)
               | None \<Rightarrow> map_option snd (Camera_call E n (Cam_releaseRecordingFrame dataPtr) w)) }"

definition CAMERA_MSG_ERROR :: i32 where "CAMERA_MSG_ERROR = 1"
definition CAMERA_ERROR_SERVER_DIED :: i32 where "CAMERA_ERROR_SERVER_DIED = 100"

definition camera_binderDied :: "'m client_env \<Rightarrow> nat \<Rightarrow> client_world \<Rightarrow> client_world option" where
  "camera_binderDied E n = client_callback E n (Cl_notifyCallback CAMERA_MSG_ERROR CAMERA_ERROR_SERVER_DIED 0)"

section \<open>Runs\<close>

text \<open>What the application does to an object it was given (\<open>held\<close>), what other processes do to any object, and deaths.
  The calls of a camera that connect and disconnect have operations of their own.\<close>

datatype client_op =
    Op_connect i32 string i32
  | Op_connectLegacy i32 i32 string i32
  | Op_create ptr
  | Op_disconnect nat
  | Op_call nat camera_call
  | Op_stopRecording nat
  | Op_reconnect nat
  | Op_setListener nat ptr
  | Op_setRecordingProxyListener nat ptr
  | Op_proxy nat recording_call
  | Op_callback nat client_call
  | Op_camera_died nat
  | Op_service_died
  | Op_getNumberOfCameras
  | Op_getCameraInfo i32
  | Op_addServiceListener ptr
  | Op_removeServiceListener ptr

fun plain_call :: "camera_call \<Rightarrow> bool" where
  "plain_call Cam_disconnect = False"
| "plain_call (Cam_connect _) = False"
| "plain_call Cam_stopRecording = False"
| "plain_call _ = True"

definition held :: "nat \<Rightarrow> client_world \<Rightarrow> bool" where
  "held n w \<longleftrightarrow> (case objects w n of None \<Rightarrow> False | Some x \<Rightarrow> mStatus x = 0)"

fun client_may :: "client_op \<Rightarrow> client_world \<Rightarrow> bool" where
  "client_may (Op_disconnect n) w = held n w"
| "client_may (Op_call n c) w = (held n w \<and> plain_call c)"
| "client_may (Op_stopRecording n) w = held n w"
| "client_may (Op_reconnect n) w = held n w"
| "client_may (Op_setListener n _) w = held n w"
| "client_may (Op_setRecordingProxyListener n _) w = held n w"
| "client_may (Op_proxy n _) w = held n w"
| "client_may _ _ = True"

fun client_step :: "'m client_env \<Rightarrow> client_op \<Rightarrow> client_world \<Rightarrow> client_world option" where
  "client_step E (Op_connect i p u) w = map_option snd (Camera_connect E i p u w)"
| "client_step E (Op_connectLegacy i v p u) w = map_option (snd \<circ> snd) (connectLegacy E i v p u None w)"
| "client_step E (Op_create b) w = map_option snd (Camera_create E b w)"
| "client_step E (Op_disconnect n) w = Camera_disconnect E n w"
| "client_step E (Op_call n c) w = map_option snd (Camera_call E n c w)"
| "client_step E (Op_stopRecording n) w = map_option snd (Camera_stopRecording E n w)"
| "client_step E (Op_reconnect n) w = map_option snd (reconnect E n w)"
| "client_step E (Op_setListener n l) w = setListener n l w"
| "client_step E (Op_setRecordingProxyListener n l) w = setRecordingProxyListener n l w"
| "client_step E (Op_proxy n c) w = map_option snd (RecordingProxy E n c w)"
| "client_step E (Op_callback n c) w = client_callback E n c w"
| "client_step E (Op_camera_died n) w = camera_binderDied E n w"
| "client_step E Op_service_died w = Some (service_binderDied w)"
| "client_step E Op_getNumberOfCameras w = map_option snd (getNumberOfCameras E w)"
| "client_step E (Op_getCameraInfo i) w = map_option snd (getCameraInfo E i w)"
| "client_step E (Op_addServiceListener l) w = map_option snd (addServiceListener E l w)"
| "client_step E (Op_removeServiceListener l) w = map_option snd (removeServiceListener E l w)"

fun client_run :: "'m client_env \<Rightarrow> client_op list \<Rightarrow> client_world \<Rightarrow> client_world option" where
  "client_run E [] w = Some w"
| "client_run E (c # cs) w =
     (if client_may c w then do { w1 \<leftarrow> client_step E c w; client_run E cs w1 } else None)"

section \<open>The life of a camera object\<close>

fun of_object :: "nat \<Rightarrow> cam_out \<Rightarrow> bool" where
  "of_object n (To_camera m _ _) = (m = n)"
| "of_object n (Linked _ m) = (m = n)"
| "of_object n (Unlinked _ m) = (m = n)"
| "of_object n _ = False"

abbreviation life_of :: "nat \<Rightarrow> client_world \<Rightarrow> cam_out list" where
  "life_of n w \<equiv> filter (of_object n) (trace w)"

definition asked :: "nat \<Rightarrow> nat \<Rightarrow> cam_out" where "asked n b = To_camera n b (Cam_connect (Some n))"

definition uses :: "nat \<Rightarrow> nat \<Rightarrow> cam_out list \<Rightarrow> bool" where
  "uses n b l \<longleftrightarrow> (\<forall>e \<in> set l. \<exists>c. c \<noteq> Cam_disconnect \<and> e = To_camera n b c)"

definition session_of :: "nat \<Rightarrow> nat \<Rightarrow> cam_out list \<Rightarrow> bool" where
  "session_of n b l \<longleftrightarrow> (\<exists>l'. uses n b l' \<and> (l = Linked b n # l' \<or> l = asked n b # Linked b n # l'))"

text \<open>An object that has no camera yet or never gets one; that got one although connecting failed; with a camera; after
  it.\<close>

definition client_life :: "nat \<Rightarrow> cam_client \<Rightarrow> cam_out list \<Rightarrow> bool" where
  "client_life n x l \<longleftrightarrow>
     (case mCamera x of
        None \<Rightarrow>
          if mStatus x = 0
          then (\<exists>b l'. session_of n b l' \<and> l = l' @ [To_camera n b Cam_disconnect, Unlinked b n])
          else l = [] \<or> (\<exists>b. l = [asked n b])
      | Some b \<Rightarrow> if mStatus x = 0 then session_of n b l else uses n b l)"

text \<open>Every call of the service goes to the one that was found last, and a service is looked for only when there is none.\<close>

fun service_after :: "ptr \<Rightarrow> cam_out list \<Rightarrow> ptr" where
  "service_after s [] = s"
| "service_after s (Service_linked m # es) = service_after (Some m) es"
| "service_after s (Service_died # es) = service_after None es"
| "service_after s (_ # es) = service_after s es"

fun serves :: "ptr \<Rightarrow> cam_out list \<Rightarrow> bool" where
  "serves s [] = True"
| "serves s (Service_linked m # es) = (s = None \<and> serves (Some m) es)"
| "serves s (Service_died # es) = serves None es"
| "serves s (To_service m _ # es) = (s = Some m \<and> serves s es)"
| "serves s (_ # es) = serves s es"

definition client_inv :: "client_world \<Rightarrow> bool" where
  "client_inv w \<longleftrightarrow>
     (\<forall>n. case objects w n of None \<Rightarrow> life_of n w = [] | Some x \<Rightarrow> client_life n x (life_of n w)) \<and>
     (\<forall>n \<ge> next_object w. objects w n = None) \<and> serves None (trace w) \<and> gCameraService w = service_after None (trace w)"

lemma service_after_append [simp]: "service_after s (xs @ ys) = service_after (service_after s xs) ys"
  by (induction s xs rule: service_after.induct) simp_all

lemma serves_append [simp]: "serves s (xs @ ys) \<longleftrightarrow> serves s xs \<and> serves (service_after s xs) ys"
  by (induction s xs rule: serves.induct) auto

lemma waited [simp]: "service_after s (replicate k Waited) = s" "serves s (replicate k Waited)"
    "filter (of_object n) (replicate k Waited) = []"
  by (induction k) simp_all

lemma uses_append [simp]: "uses n b (l @ l') \<longleftrightarrow> uses n b l \<and> uses n b l'"
  by (auto simp: uses_def)

lemma session_append: "session_of n b l \<Longrightarrow> uses n b l' \<Longrightarrow> session_of n b (l @ l')"
  unfolding session_of_def by (metis append_Cons uses_append)

lemma life_append:
  "client_life n x l \<Longrightarrow> mCamera x = Some b \<Longrightarrow> uses n b l' \<Longrightarrow> client_life n x (l @ l')"
  by (auto simp: client_life_def session_append split: if_splits)

lemma client_life_same:
  "client_life n x l \<Longrightarrow> mCamera y = mCamera x \<Longrightarrow> mStatus y = mStatus x \<Longrightarrow> client_life n y l"
  by (cases "mCamera x") (simp_all add: client_life_def)

section \<open>Every operation keeps it\<close>

lemma client_invI:
  assumes "\<And>n. objects w n = None \<Longrightarrow> life_of n w = []" "\<And>n x. objects w n = Some x \<Longrightarrow> client_life n x (life_of n w)"
    and "\<And>n. next_object w \<le> n \<Longrightarrow> objects w n = None" "serves None (trace w)" "gCameraService w = service_after None (trace w)"
  shows "client_inv w"
  using assms by (simp add: client_inv_def split: option.split)

lemma client_invD:
  assumes "client_inv w"
  shows "objects w n = None \<Longrightarrow> life_of n w = []" "objects w n = Some x \<Longrightarrow> client_life n x (life_of n w)"
    "next_object w \<le> n \<Longrightarrow> objects w n = None" "serves None (trace w)" "gCameraService w = service_after None (trace w)"
  using assms by (auto simp: client_inv_def split: option.splits dest!: spec [of _ n])

text \<open>One object and its events change.\<close>

lemma client_inv_object:
  assumes w: "client_inv w" "objects w n = Some x"
    and es: "\<And>m. m \<noteq> n \<Longrightarrow> filter (of_object m) es = []" "serves (gCameraService w) es"
    and life: "client_life n y (life_of n w @ filter (of_object n) es)"
    and w': "objects w' = (objects w)(n := Some y)" "trace w' = trace w @ es" "next_object w' = next_object w"
      "gCameraService w' = service_after (gCameraService w) es"
  shows "client_inv w'"
proof (rule client_invI)
  note inv = client_invD [OF w(1)]
  have "n < next_object w" using inv(3) w(2) by (metis linorder_not_less option.distinct(1))
  then show "next_object w' \<le> m \<Longrightarrow> objects w' m = None" for m using inv(3) w' by auto
  show "objects w' m = None \<Longrightarrow> life_of m w' = []" for m
    using inv(1) [of m] es(1) [of m] w' by (cases "m = n") auto
  show "objects w' m = Some z \<Longrightarrow> client_life m z (life_of m w')" for m z
    using inv(2) [of m z] es(1) [of m] w' life by (cases "m = n") auto
  show "serves None (trace w')" "gCameraService w' = service_after None (trace w')"
    using inv(4,5) es(2) w' by simp_all
qed

lemma client_inv_set:
  assumes "client_inv w" "objects w n = Some x" "mCamera y = mCamera x" "mStatus y = mStatus x"
  shows "client_inv (put_client n y w)"
  using client_life_same [OF client_invD(2) [OF assms(1,2)] assms(3,4)]
  by (intro client_inv_object [OF assms(1,2), where y = y and es = "[]"]) (simp_all add: put_client_def)

text \<open>Events of no object.\<close>

lemma client_inv_events:
  assumes "client_inv w" "\<And>n. filter (of_object n) es = []" "serves (gCameraService w) es"
    and w': "objects w' = objects w" "trace w' = trace w @ es" "next_object w' = next_object w"
      "gCameraService w' = service_after (gCameraService w) es"
  shows "client_inv w'"
  using assms client_invD [OF assms(1)] by (intro client_invI) simp_all

lemma client_inv_quiet:
  assumes "client_inv w" "\<And>n. \<not> of_object n e" "serves (gCameraService w) [e]" "service_after (gCameraService w) [e] = gCameraService w"
  shows "client_inv (emit e w)"
  using assms(2-) by (intro client_inv_events [OF assms(1), where es = "[e]"]) (simp_all add: emit_def)

lemma client_inv_died: "client_inv w \<Longrightarrow> client_inv (service_binderDied w)"
  by (rule client_inv_events [where es = "[Service_died]"]) (simp_all add: service_binderDied_def emit_def)

lemma client_inv_ipc:
  assumes "client_inv w" "objects w n = Some x" "mCamera x = Some b" "c \<noteq> Cam_disconnect"
  shows "client_inv (snd (camera_ipc E n b c w))"
proof (rule client_inv_object [OF assms(1,2), where y = x and es = "[To_camera n b c]"])
  show "client_life n x (life_of n w @ filter (of_object n) [To_camera n b c])"
    using life_append [OF client_invD(2) [OF assms(1,2)] assms(3), of "[To_camera n b c]"] assms(4)
    by (simp add: uses_def)
qed (use assms(2) in \<open>auto simp: camera_ipc_def emit_def Let_def\<close>)

lemma client_inv_call:
  assumes "client_inv w" "Camera_call E n c w = Some (r, w')" "c \<noteq> Cam_disconnect"
  shows "client_inv w'" "objects w' = objects w"
proof -
  from assms(2) obtain x where x: "objects w n = Some x" "call_camera E n c (mCamera x) w = Some (r, w')"
    by (auto simp: Camera_call_def bind_eq_Some_conv)
  then have "w' = w \<or> (\<exists>b. mCamera x = Some b \<and> w' = snd (camera_ipc E n b c w))"
    by (cases "mCamera x") (auto simp: call_camera_def split: if_splits)
  then show "client_inv w'" "objects w' = objects w"
    using assms(1,3) x(1) client_inv_ipc by (auto simp: camera_ipc_def emit_def Let_def)
qed

lemma client_inv_listener:
  "client_inv w \<Longrightarrow> setRecordingProxyListener n l w = Some w' \<Longrightarrow> client_inv w'"
  "client_inv w \<Longrightarrow> setListener n l w = Some w' \<Longrightarrow> client_inv w'"
  by (auto simp: setRecordingProxyListener_def setListener_def intro: client_inv_set)

lemma client_inv_disconnect:
  assumes "client_inv w" "held n w" "Camera_disconnect E n w = Some w'"
  shows "client_inv w'"
proof -
  obtain x where x: "objects w n = Some x" "mStatus x = 0" using assms(2) by (auto simp: held_def split: option.splits)
  show ?thesis
  proof (cases "mCamera x")
    case None
    then show ?thesis using assms(1,3) x by (simp add: Camera_disconnect_def)
  next
    case (Some b)
    let ?es = "[To_camera n b Cam_disconnect, Unlinked b n]"
    have "session_of n b (life_of n w)" using client_invD(2) [OF assms(1) x(1)] x(2) Some by (simp add: client_life_def)
    then have "client_life n (x\<lparr>mCamera := None\<rparr>) (life_of n w @ filter (of_object n) ?es)"
      using x(2) by (auto simp: client_life_def)
    then show ?thesis
      using assms(3) x(1) Some
      by (intro client_inv_object [OF assms(1) x(1), where y = "x\<lparr>mCamera := None\<rparr>" and es = ?es])
        (auto simp: Camera_disconnect_def camera_ipc_def emit_def put_client_def Let_def)
  qed
qed

lemma getCameraService_inv:
  assumes "client_inv w" "getCameraService E w = Some (cs, w')"
  shows "client_inv w'" "objects w' = objects w" "cs = gCameraService w'" "cs \<noteq> None" "life_of n w' = life_of n w"
    "next_object w' = next_object w"
proof -
  consider "w' = w" "cs = gCameraService w" "cs \<noteq> None"
    | b k where "gCameraService w = None" "cs = Some b"
      "w' = w\<lparr>gCameraService := Some b, gDeathNotifier := True, trace := trace w @ replicate k Waited @ [Service_linked b]\<rparr>"
    using assms(2) by (cases "gCameraService w") (auto simp: getCameraService_def)
  then have "client_inv w' \<and> objects w' = objects w \<and> cs = gCameraService w' \<and> cs \<noteq> None \<and> life_of n w' = life_of n w \<and>
    next_object w' = next_object w"
  proof cases
    case 1
    then show ?thesis using assms(1) by simp
  next
    case (2 b k)
    have "client_inv w'"
      by (rule client_inv_events [OF assms(1), where es = "replicate k Waited @ [Service_linked b]"]) (simp_all add: 2)
    with 2 show ?thesis by simp
  qed
  then show "client_inv w'" "objects w' = objects w" "cs = gCameraService w'" "cs \<noteq> None" "life_of n w' = life_of n w"
    "next_object w' = next_object w" by blast+
qed

lemma client_inv_to_service: "client_inv w \<Longrightarrow> gCameraService w = Some s \<Longrightarrow> client_inv (emit (To_service s c) w)"
  by (rule client_inv_quiet) simp_all

lemma client_inv_with_service:
  assumes "client_inv w" "with_service E c m w = Some (r, w')"
  shows "client_inv w'"
proof -
  obtain cs w1 where w1: "getCameraService E w = Some (cs, w1)"
    using assms(2) by (auto simp: with_service_def bind_eq_Some_conv)
  note s = getCameraService_inv [OF assms(1) w1]
  obtain b where "cs = Some b" using s(4) by blast
  then show ?thesis
    using assms(2) w1 client_inv_to_service [OF s(1)] s(3) by (auto simp: with_service_def Let_def)
qed

lemma unknown_error: "(of_int UNKNOWN_ERROR_st :: i32) \<noteq> 0"
  by (simp add: UNKNOWN_ERROR_st_def)

text \<open>A new object, and when it gets its camera.\<close>

lemma client_inv_new:
  assumes "client_inv w" "new_client i w = (n, w1)"
  shows "client_inv w1" "\<exists>x. objects w1 n = Some x \<and> mCamera x = None \<and> mStatus x \<noteq> 0" "life_of n w1 = []"
proof -
  note inv = client_invD [OF assms(1)]
  have n: "objects w (next_object w) = None" using inv(3) by simp
  have life: "life_of n w1 = []" using inv(1) [OF n] assms(2) by (auto simp: new_client_def put_client_def)
  show "client_inv w1"
  proof (rule client_invI)
    fix m
    show "objects w1 m = None \<Longrightarrow> life_of m w1 = []"
      using assms(2) inv(1) [of m] by (auto simp: new_client_def put_client_def split: if_splits)
    show "objects w1 m = Some x \<Longrightarrow> client_life m x (life_of m w1)" for x
    proof (cases "m = n")
      case True
      then show "objects w1 m = Some x \<Longrightarrow> ?thesis"
        using assms(2) life unknown_error by (auto simp: new_client_def put_client_def client_life_def)
    next
      case False
      then show "objects w1 m = Some x \<Longrightarrow> ?thesis" using assms(2) inv(2) [of m x] by (auto simp: new_client_def put_client_def)
    qed
    show "next_object w1 \<le> m \<Longrightarrow> objects w1 m = None"
      using assms(2) inv(3) [of m] by (auto simp: new_client_def put_client_def)
  qed (use assms(2) inv(4,5) in \<open>auto simp: new_client_def put_client_def\<close>)
  show "\<exists>x. objects w1 n = Some x \<and> mCamera x = None \<and> mStatus x \<noteq> 0" "life_of n w1 = []"
    using assms(2) life unknown_error by (auto simp: new_client_def put_client_def)
qed

lemma client_inv_connected:
  assumes w: "client_inv w" "objects w n = Some x" "mCamera x = None" "mStatus x \<noteq> 0"
    and life: "life_of n w = [] \<or> (\<exists>b. st = 0 \<and> camera = Some b \<and> life_of n w = [asked n b])"
    and "connected n st camera w = Some (r, w')"
  shows "client_inv w'"
proof -
  consider "w' = put_client n (x\<lparr>mCamera := None\<rparr>) w"
    | b where "camera = Some b" "st = 0" "w' = put_client n (x\<lparr>mCamera := Some b, mStatus := 0\<rparr>) (emit (Linked b n) w)"
    | b where "camera = Some b" "st \<noteq> 0" "w' = put_client n (x\<lparr>mCamera := Some b\<rparr>) w"
    using assms(6) w(2) by (auto simp: connected_def split: option.splits if_splits)
  then show ?thesis
  proof cases
    case 1
    then show ?thesis using client_inv_set [OF w(1,2), of "x\<lparr>mCamera := None\<rparr>"] w(3) by simp
  next
    case (2 b)
    have "uses n b []" by (simp add: uses_def)
    then have "session_of n b (life_of n w @ [Linked b n])"
      using life 2(1) unfolding session_of_def by (intro exI [of _ "[]"]) auto
    then show ?thesis
      by (intro client_inv_object [OF w(1,2), where y = "x\<lparr>mCamera := Some b, mStatus := 0\<rparr>" and es = "[Linked b n]"])
        (auto simp: 2(3) put_client_def emit_def client_life_def)
  next
    case (3 b)
    have "life_of n w = []" using life 3(2) by simp
    then show ?thesis
      using w(4) by (intro client_inv_object [OF w(1,2), where y = "x\<lparr>mCamera := Some b\<rparr>" and es = "[]"])
        (auto simp: 3(3) put_client_def client_life_def uses_def)
  qed
qed

lemma client_inv_connect:
  assumes "client_inv w" "connect_with E call i w = Some (st, r, w')"
  shows "client_inv w'"
proof -
  obtain n w1 where w1: "new_client i w = (n, w1)" by (cases "new_client i w")
  note new = client_inv_new [OF assms(1) w1]
  obtain cs w2 where w2: "getCameraService E w1 = Some (cs, w2)"
    using assms(2) w1 by (auto simp: connect_with_def bind_eq_Some_conv)
  note srv = getCameraService_inv [OF new(1) w2]
  obtain s where s: "cs = Some s" using srv(4) by blast
  let ?w = "emit (To_service s (call (Some n))) w2"
  have "client_inv ?w" using client_inv_to_service [OF srv(1)] srv(3) s by simp
  moreover from new(2) obtain x where "objects ?w n = Some x" "mCamera x = None" "mStatus x \<noteq> 0"
    using srv(2) by (auto simp: emit_def)
  moreover have "life_of n ?w = []" using new(3) srv(5) [of n] by (simp add: emit_def)
  moreover obtain ok where "connected n st (snd (connect_answers E (trace ?w))) ?w = Some (ok, w')"
    using assms(2) w1 w2 s by (auto simp: connect_with_def Let_def bind_eq_Some_conv split: prod.splits)
  ultimately show ?thesis using client_inv_connected by blast
qed

lemma client_inv_create:
  assumes "client_inv w" "Camera_create E camera w = Some (r, w')"
  shows "client_inv w'"
proof (cases camera)
  case None
  then show ?thesis using assms by (simp add: Camera_create_def)
next
  case (Some b)
  obtain n w1 where w1: "new_client (- 1) w = (n, w1)" by (cases "new_client (- 1) w")
  note new = client_inv_new [OF assms(1) w1]
  obtain q w2 where w2: "camera_ipc E n b (Cam_connect (Some n)) w1 = (q, w2)" by (cases "camera_ipc E n b (Cam_connect (Some n)) w1")
  then have w2': "w2 = emit (asked n b) w1" by (auto simp: camera_ipc_def Let_def asked_def)
  from new(2) obtain x where x: "objects w1 n = Some x" "mCamera x = None" "mStatus x \<noteq> 0" by blast
  have life: "life_of n w2 = [asked n b]" using new(3) by (simp add: w2' emit_def asked_def)
  have inv: "client_inv w2"
    using x(2,3) life by (intro client_inv_object [OF new(1) x(1), where y = x and es = "[asked n b]"])
      (use x(1) new(3) in \<open>auto simp: w2' emit_def asked_def client_life_def\<close>)
  have "objects w2 n = Some x" using x(1) by (simp add: w2' emit_def)
  note con = client_inv_connected [OF inv this x(2,3)]
  show ?thesis
    using assms(2) Some w1 w2 con [of 0 camera] life inv
    by (auto simp: Camera_create_def bind_eq_Some_conv split: if_splits)
qed

lemma client_inv_proxy:
  assumes "client_inv w" "RecordingProxy E n c w = Some (r, w')"
  shows "client_inv w'"
proof (cases c)
  case (Rec_startRecording l)
  then obtain w1 q w2 where "setRecordingProxyListener n l w = Some w1" "Camera_call E n (Cam_connect (Some n)) w1 = Some (q, w2)"
    "Camera_call E n Cam_startRecording w2 = Some (r, w')"
    using assms(2) by (auto simp: reconnect_def bind_eq_Some_conv)
  then show ?thesis using assms(1) client_inv_listener(1) client_inv_call(1) by (metis camera_call.distinct)
next
  case Rec_stopRecording
  then obtain w1 where "setRecordingProxyListener n None w = Some w1" "Camera_call E n Cam_stopRecording w1 = Some (r, w')"
    using assms(2) by (auto simp: Camera_stopRecording_def bind_eq_Some_conv)
  then show ?thesis using assms(1) client_inv_listener(1) client_inv_call(1) by (metis camera_call.distinct)
next
  case (Rec_releaseRecordingFrame m)
  then show ?thesis using assms client_inv_call(1) [of w E n "Cam_releaseRecordingFrame m" r w'] by simp
qed

lemma client_inv_posts:
  assumes "client_inv w"
  shows "client_inv (emit (Notified l a b c) w)" "client_inv (emit (Posted_data l a p f) w)"
    "client_inv (emit (Posted_frame l t a p) w)" "client_inv (emit (Forwarded l d) w)"
  by (rule client_inv_quiet [OF assms]; simp)+

lemma client_inv_callback: "client_inv w \<Longrightarrow> client_callback E n c w = Some w' \<Longrightarrow> client_inv w'"
  by (cases c) (auto simp: bind_eq_Some_conv client_inv_posts dest: client_inv_call(1) split: option.splits)

lemma client_inv_step:
  assumes "client_inv w" "client_may c w" "client_step E c w = Some w'"
  shows "client_inv w'"
proof (cases c)
  case (Op_call n d)
  moreover have "d \<noteq> Cam_disconnect" using assms(2) Op_call by auto
  ultimately show ?thesis using assms by (auto dest: client_inv_call(1))
next
  case (Op_camera_died n)
  then show ?thesis using assms client_inv_callback by (simp add: camera_binderDied_def del: client_callback.simps)
qed (use assms in \<open>auto simp: Camera_connect_def connectLegacy_def reconnect_def getNumberOfCameras_def getCameraInfo_def
      addServiceListener_def removeServiceListener_def camera_binderDied_def Camera_stopRecording_def bind_eq_Some_conv
      dest: client_inv_connect client_inv_create client_inv_disconnect client_inv_call(1) client_inv_listener
        client_inv_proxy client_inv_callback client_inv_with_service intro: client_inv_died\<close>)

lemma client_inv_run: "client_inv w \<Longrightarrow> client_run E cs w = Some w' \<Longrightarrow> client_inv w'"
  by (induction cs arbitrary: w) (auto simp: bind_eq_Some_conv split: if_splits dest: client_inv_step)

lemma client_inv_start: "client_inv client_start"
  by (simp add: client_inv_def client_start_def)

section \<open>Properties\<close>

text \<open>C38: In every run a camera object is registered for the death of its camera once, by connecting, and calls only
  this camera; disconnecting is its last call, and it is the last one to be unregistered. An object that could not
  connect calls nothing, but to give back frames. The service that is called is the one that was found last, it has
  not died since, and a service is looked for only when there is none.\<close>

theorem camera_client_lifecycle:
  assumes "client_run E cs client_start = Some w"
  shows "(\<forall>n. case objects w n of None \<Rightarrow> life_of n w = [] | Some x \<Rightarrow> client_life n x (life_of n w)) \<and>
    serves None (trace w) \<and> gCameraService w = service_after None (trace w)"
  using client_inv_run [OF client_inv_start assms] by (simp add: client_inv_def)

definition client_env1 :: "unit client_env" where
  "client_env1 = \<lparr>camera_answers = (\<lambda>t. Status 0), connect_answers = (\<lambda>t. (0, Some 5)), service_answers = (\<lambda>t. Srv_void),
     published = (\<lambda>t k. if k = 0 then Some 3 else None)\<rparr>"

lemma find_published: "ask k = Some b \<Longrightarrow> find_service ask k = Some (b, k)"
  by (simp add: find_service.simps)

definition client_ops1 :: "client_op list" where
  "client_ops1 = [Op_connect 0 ''app'' 7, Op_call 0 Cam_startPreview, Op_disconnect 0]"

definition client_trace1 :: "cam_out list" where
  "client_trace1 =
     [Service_linked 3, To_service 3 (Srv_connect (Some 0) 0 ''app'' 7), Linked 5 0, To_camera 0 5 Cam_startPreview,
      To_camera 0 5 Cam_disconnect, Unlinked 5 0]"

lemma client_run1: "\<exists>w. client_run client_env1 client_ops1 client_start = Some w \<and> trace w = client_trace1"
  by (simp add: client_ops1_def client_trace1_def client_start_def Camera_connect_def connect_with_def new_client_def
      getCameraService_def find_published [of _ 0 3] client_env1_def connected_def put_client_def emit_def held_def
      Camera_call_def call_camera_def camera_ipc_def Camera_disconnect_def Let_def)

lemma camera_client_lifecycle_witness:
  "\<exists>w. client_run client_env1 client_ops1 client_start = Some w \<and> trace w = client_trace1 \<and> serves None client_trace1"
  using client_run1 camera_client_lifecycle [of client_env1 client_ops1] by metis

subsection \<open>Operations end\<close>

lemma find_service_first:
  assumes "find_service ask i = Some r"
  shows "ask (snd r) = Some (fst r) \<and> i \<le> snd r \<and> (\<forall>j. i \<le> j \<longrightarrow> j < snd r \<longrightarrow> ask j = None)"
proof (rule find_service.raw_induct [where P = "\<lambda>ask i r. ask (snd r) = Some (fst r) \<and> i \<le> snd r \<and>
      (\<forall>j. i \<le> j \<longrightarrow> j < snd r \<longrightarrow> ask j = None)", OF _ assms])
  fix f and ask :: "nat \<Rightarrow> ptr" and i r
  assume IH: "\<And>ask i r. f ask i = Some r \<Longrightarrow> ask (snd r) = Some (fst r) \<and> i \<le> snd r \<and>
      (\<forall>j. i \<le> j \<longrightarrow> j < snd r \<longrightarrow> ask j = None)"
    and r: "(case ask i of None \<Rightarrow> f ask (Suc i) | Some b \<Rightarrow> Some (b, i)) = Some r"
  show "ask (snd r) = Some (fst r) \<and> i \<le> snd r \<and> (\<forall>j. i \<le> j \<longrightarrow> j < snd r \<longrightarrow> ask j = None)"
  proof (cases "ask i")
    case None
    with IH [of ask "Suc i" r] r have "ask (snd r) = Some (fst r) \<and> Suc i \<le> snd r \<and> (\<forall>j. Suc i \<le> j \<longrightarrow> j < snd r \<longrightarrow> ask j = None)"
      by simp
    with None show ?thesis by (metis Suc_leD Suc_leI le_neq_implies_less)
  next
    case (Some a)
    with r show ?thesis by auto
  qed
qed

lemma find_service_ends: "find_service ask i \<noteq> None \<longleftrightarrow> (\<exists>k \<ge> i. ask k \<noteq> None)"
proof
  assume "find_service ask i \<noteq> None"
  then show "\<exists>k \<ge> i. ask k \<noteq> None" using find_service_first by fastforce
next
  assume "\<exists>k \<ge> i. ask k \<noteq> None"
  then obtain d where "ask (i + d) \<noteq> None" using le_Suc_ex by blast
  then show "find_service ask i \<noteq> None"
    by (induction d arbitrary: i) (subst find_service.simps; auto split: option.split)+
qed

lemma getCameraService_ends: "getCameraService E w = None \<longleftrightarrow> gCameraService w = None \<and> (\<forall>k. published E (trace w) k = None)"
  using find_service_ends [of "published E (trace w)" 0] by (auto simp: getCameraService_def split: option.split)

fun asks_service :: "client_op \<Rightarrow> bool" where
  "asks_service (Op_connect _ _ _) = True"
| "asks_service (Op_connectLegacy _ _ _ _) = True"
| "asks_service Op_getNumberOfCameras = True"
| "asks_service (Op_getCameraInfo _) = True"
| "asks_service (Op_addServiceListener _) = True"
| "asks_service (Op_removeServiceListener _) = True"
| "asks_service _ = False"

text \<open>The object that others call back.\<close>

fun called_back :: "client_op \<Rightarrow> client_world \<Rightarrow> bool" where
  "called_back (Op_callback n _) w = (objects w n \<noteq> None)"
| "called_back (Op_camera_died n) w = (objects w n \<noteq> None)"
| "called_back _ _ = True"

lemma Camera_call_ends: "objects w n \<noteq> None \<Longrightarrow> Camera_call E n c w \<noteq> None"
  by (cases "objects w n", simp, cases "mCamera (the (objects w n))") (auto simp: Camera_call_def call_camera_def)

lemma Camera_call_objects: "Camera_call E n c w = Some (r, w') \<Longrightarrow> objects w' = objects w"
  by (auto simp: Camera_call_def call_camera_def camera_ipc_def emit_def Let_def bind_eq_Some_conv split: option.splits if_splits)

lemma getCameraService_objects: "getCameraService E w = Some (cs, w') \<Longrightarrow> objects w' = objects w \<and> next_object w' = next_object w"
  by (auto simp: getCameraService_def split: option.splits)

lemma connect_with_ends: "connect_with E call i w = None \<longleftrightarrow> gCameraService w = None \<and> (\<forall>k. published E (trace w) k = None)"
proof -
  obtain n w1 where w1: "new_client i w = (n, w1)" by (cases "new_client i w")
  then have n: "objects w1 n \<noteq> None" "gCameraService w1 = gCameraService w" "trace w1 = trace w"
    by (auto simp: new_client_def put_client_def)
  show ?thesis
  proof (cases "getCameraService E w1")
    case None
    moreover have "connect_with E call i w = None" using w1 None by (simp add: connect_with_def)
    ultimately show ?thesis using getCameraService_ends [of E w1] n by simp
  next
    case (Some a)
    then obtain cs w2 where w2: "getCameraService E w1 = Some (cs, w2)" by (cases a) auto
    have "\<not> (gCameraService w = None \<and> (\<forall>k. published E (trace w) k = None))"
      using getCameraService_ends [of E w1] w2 n by auto
    moreover have "objects w2 n \<noteq> None" using getCameraService_objects [OF w2] n(1) by simp
    ultimately show ?thesis
      using w1 w2 by (auto simp: connect_with_def connected_def emit_def Let_def split: option.splits prod.splits)
  qed
qed

lemma Camera_create_ends: "Camera_create E b w \<noteq> None"
  by (auto simp: Camera_create_def new_client_def camera_ipc_def put_client_def emit_def connected_def Let_def split: option.splits)

lemma setRecordingProxyListener_ends:
  "objects w n \<noteq> None \<Longrightarrow> \<exists>w'. setRecordingProxyListener n l w = Some w' \<and> objects w' n \<noteq> None"
  by (auto simp: setRecordingProxyListener_def put_client_def)

lemma Camera_stopRecording_ends: "objects w n \<noteq> None \<Longrightarrow> Camera_stopRecording E n w \<noteq> None"
  using setRecordingProxyListener_ends [of w n None] Camera_call_ends [of _ n E Cam_stopRecording]
  by (fastforce simp: Camera_stopRecording_def)

lemma RecordingProxy_ends:
  assumes "objects w n \<noteq> None"
  shows "RecordingProxy E n c w \<noteq> None"
proof (cases c)
  case (Rec_startRecording l)
  obtain w1 where w1: "setRecordingProxyListener n l w = Some w1" "objects w1 n \<noteq> None"
    using setRecordingProxyListener_ends [OF assms] by blast
  then obtain q w2 where "reconnect E n w1 = Some (q, w2)"
    using Camera_call_ends [of w1 n E "Cam_connect (Some n)"] by (auto simp: reconnect_def)
  moreover from this have "objects w2 n \<noteq> None" using Camera_call_objects w1(2) by (metis reconnect_def)
  ultimately show ?thesis using Rec_startRecording w1(1) Camera_call_ends [of w2 n] by simp
next
  case Rec_stopRecording
  then show ?thesis using Camera_stopRecording_ends [OF assms] by simp
next
  case (Rec_releaseRecordingFrame m)
  then show ?thesis using Camera_call_ends [OF assms] by simp
qed

lemma client_callback_ends:
  assumes "objects w n \<noteq> None"
  shows "client_callback E n c w \<noteq> None"
proof -
  obtain x where "objects w n = Some x" using assms by blast
  moreover have "\<exists>q w1. Camera_call E n (Cam_releaseRecordingFrame m) w = Some (q, w1)" for m
    using Camera_call_ends [OF assms, of E] by auto
  ultimately show ?thesis by (cases c) (fastforce split: option.split)+
qed

text \<open>C39: Every operation that is allowed ends, and follows no NULL pointer, unless it needs the service and the service
  is never published: then it waits for ever.\<close>

theorem client_steps_end:
  assumes "client_may c w" "called_back c w"
  shows "client_step E c w = None \<longleftrightarrow> asks_service c \<and> gCameraService w = None \<and> (\<forall>k. published E (trace w) k = None)"
proof -
  have srv: "with_service E d m w = None \<longleftrightarrow> gCameraService w = None \<and> (\<forall>k. published E (trace w) k = None)" for d m
    using getCameraService_ends [of E w] by (cases "getCameraService E w") (auto simp: with_service_def)
  have held: "held n w \<Longrightarrow> objects w n \<noteq> None" for n by (auto simp: held_def split: option.splits)
  show ?thesis
    using assms held
    by (cases c) (auto simp: Camera_connect_def connectLegacy_def getNumberOfCameras_def getCameraInfo_def
      addServiceListener_def removeServiceListener_def camera_binderDied_def reconnect_def srv connect_with_ends
      Camera_create_ends Camera_call_ends RecordingProxy_ends client_callback_ends Camera_disconnect_def setListener_def
      Camera_stopRecording_ends setRecordingProxyListener_def simp del: client_callback.simps RecordingProxy.simps)
qed

lemma client_steps_end_witness: "client_step client_env1 (Op_getCameraInfo 0) client_start \<noteq> None"
  using client_steps_end [of "Op_getCameraInfo 0" client_start client_env1]
  by (auto simp: client_env1_def)

subsection \<open>Recording for another process\<close>

fun keeps_recording :: "nat \<Rightarrow> client_op \<Rightarrow> bool" where
  "keeps_recording n (Op_stopRecording m) = (m \<noteq> n)"
| "keeps_recording n (Op_setRecordingProxyListener m _) = (m \<noteq> n)"
| "keeps_recording n (Op_proxy m (Rec_startRecording _)) = (m \<noteq> n)"
| "keeps_recording n (Op_proxy m Rec_stopRecording) = (m \<noteq> n)"
| "keeps_recording _ _ = True"

definition proxy_listener :: "nat \<Rightarrow> client_world \<Rightarrow> ptr option" where
  "proxy_listener n w = map_option mRecordingProxyListener (objects w n)"

lemma put_listener [simp]:
  "proxy_listener m (put_client n y w) = (if m = n then Some (mRecordingProxyListener y) else proxy_listener m w)"
  "proxy_listener m (emit e w) = proxy_listener m w"
  by (simp_all add: proxy_listener_def put_client_def emit_def)

lemma objects_listener: "objects w' = objects w \<Longrightarrow> proxy_listener m w' = proxy_listener m w"
  by (simp add: proxy_listener_def)

lemma Camera_call_listener: "Camera_call E n c w = Some (r, w') \<Longrightarrow> proxy_listener m w' = proxy_listener m w"
  by (rule objects_listener) (rule Camera_call_objects)

lemma set_listener:
  "setRecordingProxyListener n l w = Some w' \<Longrightarrow> proxy_listener m w' = (if m = n then Some l else proxy_listener m w)"
  "setListener n l w = Some w' \<Longrightarrow> proxy_listener m w' = proxy_listener m w"
  by (auto simp: setRecordingProxyListener_def setListener_def) (simp add: proxy_listener_def)

lemma service_listener: "getCameraService E w = Some (cs, w') \<Longrightarrow> proxy_listener m w' = proxy_listener m w"
  by (rule objects_listener) (simp add: getCameraService_objects)

lemma with_service_listener: "with_service E d x w = Some (r, w') \<Longrightarrow> proxy_listener m w' = proxy_listener m w"
  by (auto simp: with_service_def Let_def bind_eq_Some_conv dest!: service_listener [where m = m] split: option.splits)

lemma new_client_listener:
  "new_client i w = (n, w1) \<Longrightarrow> objects w m \<noteq> None \<Longrightarrow> client_inv w \<Longrightarrow> proxy_listener m w1 = proxy_listener m w \<and> m \<noteq> n"
  using client_invD(3) [of w m] by (auto simp: new_client_def proxy_listener_def put_client_def)

lemma connected_listener: "connected n st camera w = Some (r, w') \<Longrightarrow> m \<noteq> n \<Longrightarrow> proxy_listener m w' = proxy_listener m w"
  by (auto simp: connected_def split: option.splits if_splits)

lemma connect_listener:
  assumes "connect_with E call i w = Some (st, r, w')" "objects w m \<noteq> None" "client_inv w"
  shows "proxy_listener m w' = proxy_listener m w"
proof -
  obtain n w1 where w1: "new_client i w = (n, w1)" by (cases "new_client i w")
  then obtain cs w2 where w2: "getCameraService E w1 = Some (cs, w2)"
    using assms(1) by (auto simp: connect_with_def bind_eq_Some_conv)
  note new = new_client_listener [OF w1 assms(2,3)]
  have srv: "proxy_listener m w2 = proxy_listener m w1" by (rule service_listener [OF w2])
  show ?thesis
  proof (cases cs)
    case None
    then show ?thesis
      using assms(1) w1 w2 srv new connected_listener [of n 0 None w2 _ w' m] by (auto simp: connect_with_def bind_eq_Some_conv)
  next
    case (Some s)
    then show ?thesis
      using assms(1) w1 w2 srv new connected_listener [of n _ _ "emit (To_service s (call (Some n))) w2" _ w' m]
      by (auto simp: connect_with_def Let_def bind_eq_Some_conv split: prod.splits)
  qed
qed

lemma create_listener:
  assumes "Camera_create E camera w = Some (r, w')" "objects w m \<noteq> None" "client_inv w"
  shows "proxy_listener m w' = proxy_listener m w"
proof (cases camera)
  case None
  then show ?thesis using assms(1) by (simp add: Camera_create_def)
next
  case (Some b)
  obtain n w1 where w1: "new_client (- 1) w = (n, w1)" by (cases "new_client (- 1) w")
  note new = new_client_listener [OF w1 assms(2,3)]
  have "camera_ipc E n b c w1 = (q, w2) \<Longrightarrow> proxy_listener m w2 = proxy_listener m w1" for c q w2
    by (auto simp: camera_ipc_def Let_def)
  then show ?thesis
    using assms(1) Some w1 new connected_listener [of n 0 camera _ _ w' m]
    by (auto simp: Camera_create_def bind_eq_Some_conv split: prod.splits if_splits)
qed

lemma callback_listener: "client_callback E n c w = Some w' \<Longrightarrow> proxy_listener m w' = proxy_listener m w"
  by (cases c) (auto simp: bind_eq_Some_conv dest: Camera_call_listener split: option.splits)

lemma proxy_keeps_listener:
  "RecordingProxy E k c w = Some (r, w') \<Longrightarrow> keeps_recording n (Op_proxy k c) \<Longrightarrow> proxy_listener n w' = proxy_listener n w"
  by (cases c)
    (auto simp: Camera_stopRecording_def reconnect_def bind_eq_Some_conv set_listener(1) dest!: Camera_call_listener [where m = n])

lemma step_keeps_listener:
  assumes "client_inv w" "objects w n \<noteq> None" "client_step E c w = Some w'" "keeps_recording n c"
  shows "proxy_listener n w' = proxy_listener n w"
proof (cases c)
  case (Op_disconnect k)
  then show ?thesis
    using assms(3) by (auto simp: Camera_disconnect_def camera_ipc_def Let_def bind_eq_Some_conv split: option.splits)
      (auto simp: proxy_listener_def)
next
  case (Op_proxy k d)
  then show ?thesis using assms proxy_keeps_listener by (auto simp del: RecordingProxy.simps keeps_recording.simps)
next
  case (Op_stopRecording k)
  then show ?thesis
    using assms by (auto simp: Camera_stopRecording_def bind_eq_Some_conv set_listener(1) dest!: Camera_call_listener [where m = n])
next
  case Op_service_died
  then show ?thesis using assms(3) by (auto simp: service_binderDied_def) (simp add: proxy_listener_def)
qed (use assms in \<open>auto simp: Camera_connect_def connectLegacy_def getNumberOfCameras_def getCameraInfo_def
      addServiceListener_def removeServiceListener_def camera_binderDied_def reconnect_def set_listener
      dest: connect_listener create_listener Camera_call_listener callback_listener with_service_listener
      simp del: client_callback.simps\<close>)

lemma objects_stay: "proxy_listener n w' = proxy_listener n w \<Longrightarrow> objects w n \<noteq> None \<Longrightarrow> objects w' n \<noteq> None"
  by (auto simp: proxy_listener_def)

lemma run_keeps_listener:
  "client_run E cs w = Some w' \<Longrightarrow> client_inv w \<Longrightarrow> objects w n \<noteq> None \<Longrightarrow> list_all (keeps_recording n) cs \<Longrightarrow>
    proxy_listener n w' = proxy_listener n w"
proof (induction cs arbitrary: w)
  case (Cons c cs)
  from Cons.prems(1) obtain w1 where w1: "client_may c w" "client_step E c w = Some w1" "client_run E cs w1 = Some w'"
    by (auto simp: bind_eq_Some_conv split: if_splits)
  have "proxy_listener n w1 = proxy_listener n w" using step_keeps_listener [OF Cons.prems(2,3) w1(2)] Cons.prems(4) by simp
  then show ?case
    using Cons.IH [OF w1(3) client_inv_step [OF Cons.prems(2) w1(1,2)]] objects_stay [OF _ Cons.prems(3)] Cons.prems(4) by simp
qed simp

text \<open>C40: When another process has started to record with a listener, every frame goes to this listener alone, and not
  to the application's, whatever happens until recording is stopped or started again, or the listener is replaced:
  also when recording could not be started.\<close>

theorem recording_frames_forwarded:
  assumes "client_run E cs client_start = Some w" "held n w"
    and "RecordingProxy E n (Rec_startRecording (Some l)) w = Some (r, w1)"
    and "client_run E ds w1 = Some w2" "list_all (keeps_recording n) ds"
  shows "client_callback E n (Cl_dataCallbackTimestamp timestamp msgType mem) w2 =
    Some (emit (Forwarded l (Frame_dataCallbackTimestamp timestamp msgType mem)) w2)"
proof -
  have inv: "client_inv w" using client_inv_run [OF client_inv_start assms(1)] .
  have "proxy_listener n w1 = Some (Some l)"
    using assms(3) by (auto simp: reconnect_def bind_eq_Some_conv set_listener(1) dest!: Camera_call_listener [where m = n])
  moreover from this have "objects w1 n \<noteq> None" by (auto simp: proxy_listener_def)
  ultimately have "proxy_listener n w2 = Some (Some l)"
    using run_keeps_listener [OF assms(4) client_inv_proxy [OF inv assms(3)] _ assms(5)] by simp
  then show ?thesis by (auto simp: proxy_listener_def)
qed

definition record_ops1 :: "client_op list" where
  "record_ops1 = [Op_connect 0 ''app'' 7, Op_setListener 0 (Some 8)]"

lemma record_run1:
  "\<exists>w r w1. client_run client_env1 record_ops1 client_start = Some w \<and> held 0 w \<and>
     RecordingProxy client_env1 0 (Rec_startRecording (Some 9)) w = Some (r, w1) \<and>
     client_run client_env1 [Op_call 0 Cam_autoFocus] w1 \<noteq> None"
  by (simp add: record_ops1_def client_start_def Camera_connect_def connect_with_def new_client_def setListener_def
      getCameraService_def find_published [of _ 0 3] client_env1_def connected_def put_client_def emit_def held_def
      Camera_call_def call_camera_def camera_ipc_def setRecordingProxyListener_def reconnect_def Let_def)

lemma recording_frames_forwarded_witness:
  "\<exists>w r w1 w2. client_run client_env1 record_ops1 client_start = Some w \<and>
     RecordingProxy client_env1 0 (Rec_startRecording (Some 9)) w = Some (r, w1) \<and>
     client_run client_env1 [Op_call 0 Cam_autoFocus] w1 = Some w2 \<and>
     client_callback client_env1 0 (Cl_dataCallbackTimestamp 1 2 None) w2 =
       Some (emit (Forwarded 9 (Frame_dataCallbackTimestamp 1 2 None)) w2)"
proof -
  obtain w r w1 w2 where run: "client_run client_env1 record_ops1 client_start = Some w" "held 0 w"
    "RecordingProxy client_env1 0 (Rec_startRecording (Some 9)) w = Some (r, w1)"
    "client_run client_env1 [Op_call 0 Cam_autoFocus] w1 = Some w2"
    using record_run1 by blast
  have "client_callback client_env1 0 (Cl_dataCallbackTimestamp 1 2 None) w2 =
      Some (emit (Forwarded 9 (Frame_dataCallbackTimestamp 1 2 None)) w2)"
    by (rule recording_frames_forwarded [OF run]) simp
  with run show ?thesis by blast
qed

section \<open>Where it goes wrong\<close>

text \<open>The two calls that read the camera again follow a NULL pointer when another thread disconnects in between. The
  others call a camera that has been disconnected.\<close>

lemma disconnected_in_between:
  assumes "objects w n = Some x" "mCamera x = Some b" "Camera_disconnect E n w = Some w'"
  shows "call_camera E n c (mCamera x) w' = None \<longleftrightarrow> reads_again c"
  using assms by (auto simp: call_camera_def Camera_disconnect_def put_client_def)

text \<open>\<open>connectLegacy\<close> succeeds without a camera, when the service gives none.\<close>

lemma legacy_ok_without_camera:
  assumes "gCameraService w = Some s" "\<And>t. connect_answers E t = (0, None)"
  shows "\<exists>w'. connectLegacy E i v p u camera w = Some (0, camera, w')"
  using assms by (simp add: connectLegacy_def connect_with_def getCameraService_def new_client_def put_client_def emit_def
      connected_def Let_def)

text \<open>A recording that was not started keeps its listener, as the frames of the application go to it.\<close>

lemma failed_start_takes_frames:
  assumes "RecordingProxy E n (Rec_startRecording (Some l)) w = Some (Status e, w1)"
  shows "client_callback E n (Cl_dataCallbackTimestamp timestamp msgType mem) w1 =
    Some (emit (Forwarded l (Frame_dataCallbackTimestamp timestamp msgType mem)) w1)"
proof -
  have "proxy_listener n w1 = Some (Some l)"
    using assms by (auto simp: reconnect_def bind_eq_Some_conv set_listener(1) dest!: Camera_call_listener [where m = n])
  then show ?thesis by (auto simp: proxy_listener_def)
qed

end
