(* ===== verification/Camera_Rotation.thy ===== *)
theory Camera_Rotation
  imports Camera_Metadata
begin

text \<open>
  \<open>CameraUtils.cpp\<close>: how the pictures of a camera are turned on the screen, from its metadata. The flags of the window
  system are read as maps of the plane.

  \<^item> A result None is a NULL pointer followed.
  \<^item> Shown: the flags turn the picture by the orientation of the sensor, and mirror it before for a front camera.
\<close>

unbundle bit_operations_syntax

definition NATIVE_WINDOW_TRANSFORM_FLIP_H :: "32 word" where "NATIVE_WINDOW_TRANSFORM_FLIP_H = 1"
definition NATIVE_WINDOW_TRANSFORM_FLIP_V :: "32 word" where "NATIVE_WINDOW_TRANSFORM_FLIP_V = 2"
definition NATIVE_WINDOW_TRANSFORM_ROT_90 :: "32 word" where "NATIVE_WINDOW_TRANSFORM_ROT_90 = 4"
definition NATIVE_WINDOW_TRANSFORM_ROT_180 :: "32 word" where "NATIVE_WINDOW_TRANSFORM_ROT_180 = 3"
definition NATIVE_WINDOW_TRANSFORM_ROT_270 :: "32 word" where "NATIVE_WINDOW_TRANSFORM_ROT_270 = 7"
definition NATIVE_WINDOW_TRANSFORM_INVERSE_DISPLAY :: "32 word" where "NATIVE_WINDOW_TRANSFORM_INVERSE_DISPLAY = 8"

lemmas transform_defs = NATIVE_WINDOW_TRANSFORM_FLIP_H_def NATIVE_WINDOW_TRANSFORM_FLIP_V_def
  NATIVE_WINDOW_TRANSFORM_ROT_90_def NATIVE_WINDOW_TRANSFORM_ROT_180_def NATIVE_WINDOW_TRANSFORM_ROT_270_def
  NATIVE_WINDOW_TRANSFORM_INVERSE_DISPLAY_def

text \<open>The tags of the metadata, and the value for a front camera.\<close>

record camera_tags =
  tag_orientation :: tag
  tag_facing :: tag
  facing_front :: "8 word"

text \<open>The flags for an orientation.\<close>

definition rotation_flags :: "bool \<Rightarrow> int \<Rightarrow> 32 word option" where
  "rotation_flags mirror orientation =
     (if \<not> mirror
      then if orientation = 0 then Some 0
           else if orientation = 90 then Some NATIVE_WINDOW_TRANSFORM_ROT_90
           else if orientation = 180 then Some NATIVE_WINDOW_TRANSFORM_ROT_180
           else if orientation = 270 then Some NATIVE_WINDOW_TRANSFORM_ROT_270
           else None
      else if orientation = 0 then Some NATIVE_WINDOW_TRANSFORM_FLIP_H
           else if orientation = 90 then Some (NATIVE_WINDOW_TRANSFORM_FLIP_H XOR NATIVE_WINDOW_TRANSFORM_ROT_270)
           else if orientation = 180 then Some (NATIVE_WINDOW_TRANSFORM_FLIP_H XOR NATIVE_WINDOW_TRANSFORM_ROT_180)
           else if orientation = 270 then Some (NATIVE_WINDOW_TRANSFORM_FLIP_H XOR NATIVE_WINDOW_TRANSFORM_ROT_90)
           else None)"

text \<open>The status and the flags, if the caller has given a place for them. The data of an entry are looked at as the type
  that the tag has; other data, and an entry without data, are undefined.\<close>

definition getRotationTransform ::
  "'m metadata_lib \<Rightarrow> camera_tags \<Rightarrow> nat \<Rightarrow> bool \<Rightarrow> 'm md_state \<Rightarrow> (int \<times> 32 word option) option" where
  "getRotationTransform lib tags staticInfo transform s =
     (if \<not> transform then Some (BAD_VALUE_st, None)
      else do {
        entry \<leftarrow> md_find_const lib staticInfo (tag_orientation tags) s;
        case entry of
          None \<Rightarrow> Some (INVALID_OPERATION_st, Some 0)
        | Some data \<Rightarrow> do {
            entryFacing \<leftarrow> md_find_const lib staticInfo (tag_facing tags) s;
            case entryFacing of
              Some (Bytes (facing # _)) \<Rightarrow>
                (case data of
                   Int32s (orientation # _) \<Rightarrow>
                     Some (case rotation_flags (facing = facing_front tags) (sint orientation) of
                             None \<Rightarrow> (INVALID_OPERATION_st, Some 0)
                           | Some flags \<Rightarrow> (0, Some (flags OR NATIVE_WINDOW_TRANSFORM_INVERSE_DISPLAY)))
                 | _ \<Rightarrow> None)
            | _ \<Rightarrow> None } })"

section \<open>What the flags mean\<close>

text \<open>Points with x to the right and y down. Flips come before the rotation, a quarter clockwise.\<close>

definition quarter :: "int \<times> int \<Rightarrow> int \<times> int" where "quarter p = (- snd p, fst p)"
definition flip_h :: "int \<times> int \<Rightarrow> int \<times> int" where "flip_h p = (- fst p, snd p)"
definition flip_v :: "int \<times> int \<Rightarrow> int \<times> int" where "flip_v p = (fst p, - snd p)"

definition turned :: "32 word \<Rightarrow> int \<times> int \<Rightarrow> int \<times> int" where
  "turned flags =
     (if bit flags 2 then quarter else id) \<circ> (if bit flags 1 then flip_v else id) \<circ> (if bit flags 0 then flip_h else id)"

lemma turned_word:
  "turned flags = (if flags AND 4 \<noteq> 0 then quarter else id) \<circ> (if flags AND 2 \<noteq> 0 then flip_v else id) \<circ>
     (if flags AND 1 \<noteq> 0 then flip_h else id)"
  using bit_iff_and_push_bit_not_eq_0 [of flags 2] bit_iff_and_push_bit_not_eq_0 [of flags 1] bit_iff_and_push_bit_not_eq_0 [of flags 0]
  by (simp add: turned_def)

lemma turned_display: "turned (flags OR NATIVE_WINDOW_TRANSFORM_INVERSE_DISPLAY) = turned flags"
  by (simp add: turned_word transform_defs or.assoc bit.conj_disj_distrib2)

lemma quarters:
  "quarter ^^ 0 = id" "quarter ^^ 1 = quarter" "quarter ^^ 2 = quarter \<circ> quarter" "quarter ^^ 3 = quarter \<circ> quarter \<circ> quarter"
  "quarter ^^ 4 = id"
  by (simp_all add: fun_eq_iff quarter_def eval_nat_numeral)

text \<open>The named rotations are rotations.\<close>

lemma rotations:
  "turned NATIVE_WINDOW_TRANSFORM_ROT_90 = quarter" "turned NATIVE_WINDOW_TRANSFORM_ROT_180 = quarter ^^ 2"
  "turned NATIVE_WINDOW_TRANSFORM_ROT_270 = quarter ^^ 3"
  unfolding quarters by (simp_all add: turned_word transform_defs fun_eq_iff quarter_def flip_h_def flip_v_def)

lemma rotation_flags_turn:
  assumes "k < 4"
  shows "\<exists>flags. rotation_flags mirror (90 * int k) = Some flags \<and>
    turned flags = (if mirror then (quarter ^^ (4 - k)) \<circ> flip_h else quarter ^^ k)"
proof -
  note flags = rotation_flags_def turned_word transform_defs fun_eq_iff quarter_def flip_h_def flip_v_def
  have four: "4 - 0 = (4::nat)" "4 - 1 = (3::nat)" "4 - 2 = (2::nat)" "4 - 3 = (1::nat)" by simp_all
  have "k = 0 \<or> k = 1 \<or> k = 2 \<or> k = 3" using assms by linarith
  then show ?thesis
    by (elim disjE; simp only: quarters four; simp add: flags)
qed

text \<open>The flags for a camera turn its picture clockwise by the orientation of the sensor; the picture of a front camera
  is mirrored and then turned the other way. The turning of the display is undone.\<close>

theorem rotation_transform_exact:
  assumes "md_find_const lib i (tag_orientation tags) s = Some (Some (Int32s (orientation # os)))"
    and "md_find_const lib i (tag_facing tags) s = Some (Some (Bytes (facing # fs)))"
    and "sint orientation = 90 * int k" "k < 4"
  shows "\<exists>flags. getRotationTransform lib tags i True s = Some (0, Some flags) \<and> bit flags 3 \<and>
    turned flags = (if facing = facing_front tags then (quarter ^^ (4 - k)) \<circ> flip_h else quarter ^^ k)"
proof -
  obtain flags where "rotation_flags (facing = facing_front tags) (90 * int k) = Some flags"
    "turned flags = (if facing = facing_front tags then (quarter ^^ (4 - k)) \<circ> flip_h else quarter ^^ k)"
    using rotation_flags_turn [OF assms(4)] by blast
  moreover have "bit NATIVE_WINDOW_TRANSFORM_INVERSE_DISPLAY 3"
    using bit_exp_iff [of 3 3, where 'a = "32 word"] by (simp add: transform_defs)
  then have "bit (flags OR NATIVE_WINDOW_TRANSFORM_INVERSE_DISPLAY) 3" by (simp add: bit_or_iff)
  ultimately show ?thesis using assms(1-3) by (simp add: getRotationTransform_def turned_display)
qed

definition md_state_rotation :: "list_md md_state" where
  "md_state_rotation =
     \<lparr>bufs = (\<lambda>b. if b = 1 then Some (0, 0, [(5, Int32s [270]), (6, Bytes [0])]) else None),
      cams = (\<lambda>i. if i = 0 then Some \<lparr>mBuffer = Some 1, mLocked = False\<rparr> else None)\<rparr>"

lemma rotation_found:
  "md_find_const list_lib 0 5 md_state_rotation = Some (Some (Int32s [270]))"
  "md_find_const list_lib 0 6 md_state_rotation = Some (Some (Bytes [0]))"
  by (simp_all add: md_find_const_finds [OF list_lib_sound] md_state_rotation_def content_def finds_def list_lib_found)

lemma rotation_transform_exact_witness:
  "\<exists>flags. getRotationTransform list_lib \<lparr>tag_orientation = 5, tag_facing = 6, facing_front = 0\<rparr> 0 True md_state_rotation =
     Some (0, Some flags) \<and> turned flags = (quarter ^^ 1) \<circ> flip_h"
  using rotation_transform_exact [of list_lib 0 "\<lparr>tag_orientation = 5, tag_facing = 6, facing_front = 0\<rparr>" md_state_rotation 270 "[]" 0 "[]" 3]
    rotation_found by auto

text \<open>The second check looks at the first entry again: metadata without the facing make it follow a NULL pointer.\<close>

lemma facing_missing:
  assumes "md_find_const lib i (tag_orientation tags) s = Some (Some data)" "md_find_const lib i (tag_facing tags) s = Some None"
  shows "getRotationTransform lib tags i True s = None"
  using assms by (simp add: getRotationTransform_def)

end
