(* ===== verification/Loc_Target.thy ===== *)
theory Loc_Target
  imports Loc_Afw
begin

text \<open>
  \<open>loc_target.cpp\<close>, and the names in \<open>loc_log.cpp\<close>: which receiver the device has, found once from properties and files
  and then remembered.

  \<^item> Properties and files are arguments. A result None is an array read that was not written.
  \<^item> Shown: what is found is one of the targets, it does not change any more, and only a board of its kind without the
    modem's device is looked at again; the name of a target.
\<close>

section \<open>Targets\<close>

definition TARGET_SET :: "32 word \<Rightarrow> 32 word \<Rightarrow> 32 word" where "TARGET_SET gnss ssc = or (push_bit 1 gnss) ssc"

definition TARGET_MDM :: "32 word" where "TARGET_MDM = TARGET_SET 3 1"
definition TARGET_APQ_SA :: "32 word" where "TARGET_APQ_SA = TARGET_SET 2 0"
definition TARGET_MPQ :: "32 word" where "TARGET_MPQ = TARGET_SET 0 0"
definition TARGET_MSM_NO_SSC :: "32 word" where "TARGET_MSM_NO_SSC = TARGET_SET 1 0"
definition TARGET_QCA1530 :: "32 word" where "TARGET_QCA1530 = TARGET_SET 4 0"
definition TARGET_AUTO :: "32 word" where "TARGET_AUTO = TARGET_SET 5 0"
definition TARGET_UNKNOWN :: "32 word" where "TARGET_UNKNOWN = TARGET_SET 6 0"

definition getTargetGnssType :: "32 word \<Rightarrow> 32 word" where "getTargetGnssType target = drop_bit 1 target"

lemmas target_defs = TARGET_SET_def TARGET_MDM_def TARGET_APQ_SA_def TARGET_MPQ_def TARGET_MSM_NO_SSC_def TARGET_QCA1530_def
  TARGET_AUTO_def TARGET_UNKNOWN_def

section \<open>Names\<close>

definition UNKNOWN_STR :: string where "UNKNOWN_STR = ''UNKNOWN''"

fun loc_get_name_from_mask :: "(string \<times> 64 word) list \<Rightarrow> 64 word \<Rightarrow> string" where
  "loc_get_name_from_mask [] bits = UNKNOWN_STR"
| "loc_get_name_from_mask ((name, val) # table) bits =
     (if and val bits \<noteq> 0 then name else loc_get_name_from_mask table bits)"

fun loc_get_name_from_val :: "(string \<times> int) list \<Rightarrow> int \<Rightarrow> string" where
  "loc_get_name_from_val [] v = UNKNOWN_STR"
| "loc_get_name_from_val ((name, val) # table) v = (if val = v then name else loc_get_name_from_val table v)"

definition loc_msg_q_status :: "(string \<times> int) list" where
  "loc_msg_q_status =
     [(''eMSG_Q_SUCCESS'', 0), (''eMSG_Q_FAILURE_GENERAL'', - 1), (''eMSG_Q_INVALID_PARAMETER'', - 2),
      (''eMSG_Q_INVALID_HANDLE'', - 3), (''eMSG_Q_UNAVAILABLE_RESOURCE'', - 4), (''eMSG_Q_INSUFFICIENT_BUFFER'', - 5)]"

definition loc_get_msg_q_status :: "int \<Rightarrow> string" where
  "loc_get_msg_q_status status = loc_get_name_from_val loc_msg_q_status status"

definition target_name :: "(string \<times> int) list" where
  "target_name =
     [(''GNSS_NONE'', 0), (''GNSS_MSM'', 1), (''GNSS_GSS'', 2), (''GNSS_MDM'', 3), (''GNSS_QCA1530'', 4), (''GNSS_AUTO'', 5),
      (''GNSS_UNKNOWN'', 6)]"

text \<open>All names fit into the buffer.\<close>

definition loc_get_target_name :: "32 word \<Rightarrow> string" where
  "loc_get_target_name target =
     (let index = sint (getTargetGnssType target);
          index = (if index < 0 \<or> int (length target_name) \<le> index then int (length target_name) - 1 else index);
          name = loc_get_name_from_val target_name index
      in if and target 1 = 1 then '' '' @ name @ '' with SSC'' else '' '' @ name @ ''  without SSC'')"

section \<open>Detection\<close>

text \<open>\<open>property_get\<close> for the QCA1530, in each second; the other properties; which files there are; what is read of them.\<close>

record target_env =
  qca1530_property :: "nat \<Rightarrow> int \<times> string"
  ro_baseband :: string
  ro_board_platform :: string
  ro_lean :: string
  accessible :: "string \<Rightarrow> bool"
  opened :: "string \<Rightarrow> string option"

definition PROPERTY_VALUE_MAX :: int where "PROPERTY_VALUE_MAX = 92"
definition LINE_LEN :: int where "LINE_LEN = 100"

text \<open>One line with its end, up to a NUL.\<close>

fun fgets :: "nat \<Rightarrow> string \<Rightarrow> string" where
  "fgets 0 s = []"
| "fgets (Suc n) [] = []"
| "fgets (Suc n) (c # s) = (if c = CHR 0x0A then [c] else c # fgets n s)"

definition read_a_line :: "target_env \<Rightarrow> string \<Rightarrow> int \<Rightarrow> int \<times> string" where
  "read_a_line env file_path line_size =
     (case opened env file_path of
        None \<Rightarrow> (- 1, [])
      | Some s \<Rightarrow> (0, takeWhile (\<lambda>c. c \<noteq> CHR 0x00) (fgets (nat (line_size - 1)) s)))"

text \<open>Whether it is there, after how many seconds; \<open>left\<close> turns of the loop are left.\<close>

fun qca1530_loop :: "(nat \<Rightarrow> int \<times> string) \<Rightarrow> nat \<Rightarrow> nat \<Rightarrow> bool \<times> nat" where
  "qca1530_loop get i 0 = (False, i)"
| "qca1530_loop get i (Suc left) =
     (let (ret, buf) = get i
      in if ret < 0 then (False, i)
         else if buf = ''yes'' then (True, i)
         else if buf = ''detect'' then qca1530_loop get (Suc i) left
         else (False, i))"

definition is_qca1530 :: "target_env \<Rightarrow> bool" where
  "is_qca1530 env = fst (qca1530_loop (qca1530_property env) 0 15)"

definition loc_get_target_baseband :: "target_env \<Rightarrow> int \<Rightarrow> string option" where
  "loc_get_target_baseband env array_length = (if PROPERTY_VALUE_MAX \<le> array_length then Some (ro_baseband env) else None)"

definition loc_get_platform_name :: "target_env \<Rightarrow> int \<Rightarrow> string option" where
  "loc_get_platform_name env array_length = (if PROPERTY_VALUE_MAX \<le> array_length then Some (ro_board_platform env) else None)"

definition loc_identify_lean_target :: "target_env \<Rightarrow> bool" where
  "loc_identify_lean_target env \<longleftrightarrow> ro_lean env = ''true''"

text \<open>The array begins with the string; this is the string, or a line of it.\<close>

definition begins :: "string \<Rightarrow> string \<Rightarrow> bool" where "begins line s \<longleftrightarrow> take (length s) line = s"

definition IS_STR_END :: "string \<Rightarrow> nat \<Rightarrow> bool" where
  "IS_STR_END line n \<longleftrightarrow> length line = n \<or> (n < length line \<and> (line ! n = CHR 0x0A \<or> line ! n = CHR 0x0D))"

definition line_is :: "string \<Rightarrow> string \<Rightarrow> bool" where "line_is line s \<longleftrightarrow> begins line s \<and> IS_STR_END line (length s)"

definition detect_target :: "target_env \<Rightarrow> string \<Rightarrow> string \<Rightarrow> string \<Rightarrow> 32 word" where
  "detect_target env baseband rd_hw_platform rd_id =
     (if begins baseband ''auto'' then TARGET_AUTO
      else if begins baseband ''apq'' then (if line_is rd_id ''130'' then TARGET_MPQ else TARGET_APQ_SA)
      else if line_is rd_hw_platform ''Liquid'' \<or> line_is rd_hw_platform ''Surf'' \<or> line_is rd_hw_platform ''MTP''
      then (if fst (read_a_line env ''/dev/mdm'' LINE_LEN) = 0 then TARGET_MDM else - 1)
      else if line_is rd_id ''142'' \<or> line_is rd_id ''116'' then TARGET_MSM_NO_SSC
      else TARGET_UNKNOWN)"

text \<open>The target and the new \<open>gTarget\<close>, which is -1 at first.\<close>

definition loc_get_target :: "target_env \<Rightarrow> 32 word \<Rightarrow> (32 word \<times> 32 word) option" where
  "loc_get_target env gTarget =
     (if gTarget \<noteq> - 1 then Some (gTarget, gTarget)
      else if is_qca1530 env then Some (TARGET_QCA1530, TARGET_QCA1530)
      else do {
        baseband \<leftarrow> loc_get_target_baseband env LINE_LEN;
        let hw = (if accessible env ''/sys/devices/soc0/hw_platform'' then ''/sys/devices/soc0/hw_platform''
                  else ''/sys/devices/system/soc/soc0/hw_platform'');
        let ident = (if accessible env ''/sys/devices/soc0/soc_id'' then ''/sys/devices/soc0/soc_id''
                  else ''/sys/devices/system/soc/soc0/id'');
        let t = detect_target env baseband (snd (read_a_line env hw LINE_LEN)) (snd (read_a_line env ident LINE_LEN));
        Some (t, t) })"

text \<open>The calls of the program's life, in environments that change.\<close>

fun target_calls :: "target_env list \<Rightarrow> 32 word \<Rightarrow> 32 word list option" where
  "target_calls [] g = Some []"
| "target_calls (env # envs) g =
     do { (t, g') \<leftarrow> loc_get_target env g; ts \<leftarrow> target_calls envs g'; Some (t # ts) }"

text \<open>What \<open>get_gps_interface\<close> distinguishes; -1 is none of the cases.\<close>

definition gnss_type_of :: "32 word \<Rightarrow> gnss_type" where
  "gnss_type_of target =
     (let k = getTargetGnssType target
      in if k = 0 then GNSS_NONE else if k = 1 then GNSS_MSM else if k = 2 then GNSS_GSS else if k = 3 then GNSS_MDM
         else if k = 4 then GNSS_QCA1530 else if k = 5 then GNSS_AUTO else GNSS_UNKNOWN)"

section \<open>Properties\<close>

definition all_targets :: "32 word set" where
  "all_targets = {TARGET_MDM, TARGET_APQ_SA, TARGET_MPQ, TARGET_MSM_NO_SSC, TARGET_QCA1530, TARGET_AUTO, TARGET_UNKNOWN}"

text \<open>A board that should have a modem, without its device.\<close>

definition board_without_modem :: "target_env \<Rightarrow> bool" where
  "board_without_modem env \<longleftrightarrow>
     \<not> is_qca1530 env \<and> \<not> begins (ro_baseband env) ''auto'' \<and> \<not> begins (ro_baseband env) ''apq'' \<and>
     opened env ''/dev/mdm'' = None"

lemma loc_get_target_cases:
  "\<exists>t. loc_get_target env g = Some (t, t) \<and> (g \<noteq> - 1 \<longrightarrow> t = g) \<and>
     (g = - 1 \<longrightarrow> t \<in> all_targets \<or> t = - 1 \<and> board_without_modem env)"
proof -
  have "TARGET_QCA1530 \<in> all_targets" by (simp add: all_targets_def)
  moreover have "baseband = ro_baseband env \<Longrightarrow> \<not> is_qca1530 env \<Longrightarrow>
      detect_target env baseband a b \<in> all_targets \<or> detect_target env baseband a b = - 1 \<and> board_without_modem env" for baseband a b
    by (auto simp: detect_target_def all_targets_def board_without_modem_def read_a_line_def split: option.splits)
  ultimately show ?thesis
    by (auto simp: loc_get_target_def loc_get_target_baseband_def LINE_LEN_def PROPERTY_VALUE_MAX_def Let_def)
qed

lemma target_known: "t \<in> all_targets \<Longrightarrow> t \<noteq> - 1"
  by (auto simp: all_targets_def target_defs)

lemma target_calls_known: "g \<noteq> - 1 \<Longrightarrow> target_calls envs g = Some (replicate (length envs) g)"
  by (induction envs) (simp_all add: loc_get_target_def)

text \<open>However files and properties change, the calls return -1 a number of times, and then one of the targets for
  ever; -1 only where the board should have a modem and its device is not there.\<close>

theorem target_found_once:
  "\<exists>k \<le> length envs. \<exists>t \<in> all_targets.
     target_calls envs (- 1) = Some (replicate k (- 1) @ replicate (length envs - k) t) \<and> list_all board_without_modem (take k envs)"
proof (induction envs)
  case Nil
  have "TARGET_MDM \<in> all_targets" by (simp add: all_targets_def)
  then show ?case by auto
next
  case (Cons env envs)
  obtain t where t: "loc_get_target env (- 1) = Some (t, t)" "t \<in> all_targets \<or> t = - 1 \<and> board_without_modem env"
    using loc_get_target_cases [of env "- 1"] by blast
  show ?case
  proof (cases "t \<in> all_targets")
    case True
    then have "target_calls (env # envs) (- 1) = Some (replicate 0 (- 1) @ replicate (length (env # envs) - 0) t)"
      using t(1) target_calls_known [OF target_known [OF True], of envs] by simp
    with True show ?thesis by (intro exI [of _ 0]) auto
  next
    case False
    from Cons.IH obtain k u where "k \<le> length envs" "u \<in> all_targets" "list_all board_without_modem (take k envs)"
      "target_calls envs (- 1) = Some (replicate k (- 1) @ replicate (length envs - k) u)" by blast
    with False t show ?thesis by (intro exI [of _ "Suc k"]) auto
  qed
qed

text \<open>The names are those of the types, also for -1. The interface is refused on MPQ alone.\<close>

lemma unset_type: "getTargetGnssType (- 1) = 0x7FFFFFFF"
  by (simp add: getTargetGnssType_def mask_eq_exp_minus_1)

lemma target_names:
  "loc_get_target_name TARGET_MDM = '' GNSS_MDM with SSC''" "loc_get_target_name TARGET_APQ_SA = '' GNSS_GSS  without SSC''"
  "loc_get_target_name TARGET_MPQ = '' GNSS_NONE  without SSC''" "loc_get_target_name TARGET_MSM_NO_SSC = '' GNSS_MSM  without SSC''"
  "loc_get_target_name TARGET_QCA1530 = '' GNSS_QCA1530  without SSC''"
  "loc_get_target_name TARGET_AUTO = '' GNSS_AUTO  without SSC''"
  "loc_get_target_name TARGET_UNKNOWN = '' GNSS_UNKNOWN  without SSC''"
  "loc_get_target_name (- 1) = '' GNSS_UNKNOWN with SSC''"
  by (simp_all add: loc_get_target_name_def unset_type target_name_def Let_def)
    (simp_all add: getTargetGnssType_def target_defs)

lemma gnss_types:
  "gnss_type_of TARGET_MDM = GNSS_MDM" "gnss_type_of TARGET_APQ_SA = GNSS_GSS" "gnss_type_of TARGET_MPQ = GNSS_NONE"
  "gnss_type_of TARGET_MSM_NO_SSC = GNSS_MSM" "gnss_type_of TARGET_QCA1530 = GNSS_QCA1530" "gnss_type_of TARGET_AUTO = GNSS_AUTO"
  "gnss_type_of TARGET_UNKNOWN = GNSS_UNKNOWN" "gnss_type_of (- 1) = GNSS_UNKNOWN"
  by (simp_all add: gnss_type_of_def unset_type Let_def) (simp_all add: getTargetGnssType_def target_defs)

definition mpq_board :: "target_env \<Rightarrow> bool" where
  "mpq_board env \<longleftrightarrow>
     \<not> is_qca1530 env \<and> begins (ro_baseband env) ''apq'' \<and>
     line_is (snd (read_a_line env (if accessible env ''/sys/devices/soc0/soc_id'' then ''/sys/devices/soc0/soc_id''
        else ''/sys/devices/system/soc/soc0/id'') LINE_LEN)) ''130''"

lemma begins_auto: "begins line ''auto'' \<Longrightarrow> \<not> begins line ''apq''"
  by (cases line; cases "tl line") (auto simp: begins_def)

lemma not_MPQ:
  "TARGET_AUTO \<noteq> TARGET_MPQ" "TARGET_APQ_SA \<noteq> TARGET_MPQ" "TARGET_MDM \<noteq> TARGET_MPQ" "TARGET_MSM_NO_SSC \<noteq> TARGET_MPQ"
  "TARGET_UNKNOWN \<noteq> TARGET_MPQ" "TARGET_QCA1530 \<noteq> TARGET_MPQ" "- 1 \<noteq> TARGET_MPQ"
  by (simp_all add: target_defs)

lemma detects_MPQ: "detect_target env b h i = TARGET_MPQ \<longleftrightarrow> begins b ''apq'' \<and> line_is i ''130''"
  using begins_auto [of b] by (simp add: detect_target_def not_MPQ)

lemma detected_MPQ: "loc_get_target env (- 1) = Some (t, t) \<Longrightarrow> t = TARGET_MPQ \<longleftrightarrow> mpq_board env"
proof (cases "is_qca1530 env")
  case True
  then show "loc_get_target env (- 1) = Some (t, t) \<Longrightarrow> ?thesis"
    by (auto simp: loc_get_target_def mpq_board_def not_MPQ)
next
  case False
  then show "loc_get_target env (- 1) = Some (t, t) \<Longrightarrow> ?thesis"
    by (auto simp: loc_get_target_def loc_get_target_baseband_def LINE_LEN_def PROPERTY_VALUE_MAX_def mpq_board_def detects_MPQ Let_def)
qed

text \<open>On every device \<open>get_gps_interface\<close> ends with a target, and refuses the interface exactly on an APQ board with
  the identity of the MPQ8064 and without a QCA1530.\<close>

theorem interface_refused_on_MPQ:
  "\<exists>t. loc_get_target env (- 1) = Some (t, t) \<and>
     (fst (get_gps_interface eenv gps_conf_file sap_conf_file (gnss_type_of t) s) \<longleftrightarrow> \<not> mpq_board env)"
proof -
  obtain t where t: "loc_get_target env (- 1) = Some (t, t)" "t \<in> all_targets \<or> t = - 1"
    using loc_get_target_cases [of env "- 1"] by blast
  have "gnss_type_of t = GNSS_NONE \<longleftrightarrow> t = TARGET_MPQ"
    using t(2) by (auto simp: all_targets_def gnss_types not_MPQ)
  with t(1) detected_MPQ [OF t(1)] show ?thesis by (auto simp: get_gps_interface_def Let_def split: gnss_type.split)
qed

lemma qca1530_bounded: "snd (qca1530_loop get i left) \<le> i + left"
  by (induction get i left rule: qca1530_loop.induct) (auto simp: Let_def split: prod.split)

end
