(* ===== verification/Dmn_Conn.thy ===== *)
theory Dmn_Conn
  imports Eng_Adapter Msg_Queue
begin

text \<open>
  \<open>loc_eng_dmn_conn.cpp\<close>, \<open>loc_eng_dmn_conn_handler.cpp\<close>, \<open>loc_eng_dmn_conn_glue_msg.c\<close>,
  \<open>loc_eng_dmn_conn_glue_pipe.c\<close> and \<open>loc_eng_dmn_conn_thread_helper.c\<close>: the server for daemons that want a
  data connection. They write messages into a named pipe, a thread turns them into messages of the engine.

  \<^item> A pipe is the list of the bytes in it; \<open>pipe_env\<close> says how much a call of the system reads or writes.
    A message is its size in \<open>W\<close> bytes (\<open>sizeof(size_t)\<close>, little endian) and the rest of the structure.
  \<^item> The layout of the structure is the compiler's: \<open>decode\<close> gives the fields from the bytes after the
    size, None if they do not reach that far. None as a result is undefined behaviour.
  \<^item> The thread helper is a state machine of its thread, the launching thread and anyone who unblocks it.
  \<^item> Shown: messages are received as they were sent; exactly when receiving overflows the buffer; requests
    and releases become the same messages but for the flag; the launcher is woken; the thread ends.
\<close>

section \<open>Messages over a pipe\<close>

type_synonym byte = "8 word"

record pipe_env =
  write_most :: nat
  read_most :: nat
  read_empty :: int
  read_huge :: "nat option"

text \<open>
  The result and the pipe; a read also gives the bytes. An empty pipe reads as an error or end of file. What
  a read with a count of \<open>2 ^ 31\<close> or more does is left to the system (beyond \<open>SSIZE_MAX\<close> it is implementation
  defined): \<open>read_huge\<close> is None when it is refused, otherwise the number of bytes that it reads at most.
\<close>

definition loc_eng_dmn_conn_glue_pipewrite :: "pipe_env \<Rightarrow> byte list \<Rightarrow> byte list \<Rightarrow> int \<times> byte list" where
  "loc_eng_dmn_conn_glue_pipewrite env buf p =
     (let n = min (write_most env) (length buf) in (c_int32 (int n), p @ take n buf))"

definition loc_eng_dmn_conn_glue_piperead :: "pipe_env \<Rightarrow> nat \<Rightarrow> byte list \<Rightarrow> int \<times> byte list \<times> byte list" where
  "loc_eng_dmn_conn_glue_piperead env sz p =
     (if sz = 0 then (0, [], p)
      else if 2 ^ 31 \<le> sz then
        (case read_huge env of
           None \<Rightarrow> (- 1, [], p)
         | Some most \<Rightarrow>
             if p = [] then (read_empty env, [], [])
             else (let n = min sz (min most (length p)) in (c_int32 (int n), take n p, drop n p)))
      else if p = [] then (read_empty env, [], [])
      else (let n = min sz (min (read_most env) (length p)) in (c_int32 (int n), take n p, drop n p)))"

fun le_bytes :: "nat \<Rightarrow> nat \<Rightarrow> byte list" where
  "le_bytes 0 v = []"
| "le_bytes (Suc w) v = of_nat (v mod 256) # le_bytes w (v div 256)"

fun le_value :: "byte list \<Rightarrow> nat" where
  "le_value [] = 0"
| "le_value (b # bs) = unat b + 256 * le_value bs"

definition loc_eng_dmn_conn_glue_msgsnd :: "nat \<Rightarrow> pipe_env \<Rightarrow> byte list \<Rightarrow> byte list \<Rightarrow> int \<times> byte list" where
  "loc_eng_dmn_conn_glue_msgsnd W env body p =
     (let msgsz = W + length body;
          (result, p') = loc_eng_dmn_conn_glue_pipewrite env (le_bytes W msgsz @ body) p
      in (if result \<noteq> c_int32 (int msgsz) then - 1 else result, p'))"

text \<open>The size minus \<open>W\<close> wraps around; what is read goes into the buffer behind the size.\<close>

definition loc_eng_dmn_conn_glue_msgrcv ::
  "nat \<Rightarrow> pipe_env \<Rightarrow> nat \<Rightarrow> byte list \<Rightarrow> (int \<times> byte list \<times> byte list) option" where
  "loc_eng_dmn_conn_glue_msgrcv W env msgbufsz p =
     (let (result, header, p1) = loc_eng_dmn_conn_glue_piperead env W p
      in if result \<noteq> int W then Some (- 1, [], p1)
         else if msgbufsz < le_value header then Some (- 1, [], p1)
         else (let n = nat ((int (le_value header) - int W) mod 2 ^ (8 * W));
                   (result, body, p2) = loc_eng_dmn_conn_glue_piperead env n p1
               in if msgbufsz < W + length body then None
                  else if result \<noteq> c_int32 (int n) then Some (- 1, body, p2)
                  else Some (c_int32 (int (le_value header)), body, p2)))"

section \<open>Requests\<close>

definition AGPS_TYPE_ANY :: int where "AGPS_TYPE_ANY = 0"
definition AGPS_TYPE_SUPL :: int where "AGPS_TYPE_SUPL = 1"
definition AGPS_TYPE_WIFI :: int where "AGPS_TYPE_WIFI = 4"

record if_request =
  rq_type :: int
  rq_sender_id :: int
  rq_ipv4_addr :: "32 word"
  rq_ipv6_addr :: string
  rq_ssid :: string
  rq_password :: string

record ctrl_msg =
  ctrl_type :: int
  cmsg_if_request :: if_request

definition GPSONE_LOC_API_IF_REQUEST :: int where "GPSONE_LOC_API_IF_REQUEST = 0xF0"
definition GPSONE_LOC_API_IF_RELEASE :: int where "GPSONE_LOC_API_IF_RELEASE = 0xF1"
definition GPSONE_LOC_API_RESPONSE :: int where "GPSONE_LOC_API_RESPONSE = 0xF2"
definition GPSONE_UNBLOCK :: int where "GPSONE_UNBLOCK = 0xF3"

definition if_type :: "int \<Rightarrow> int option" where
  "if_type t =
     (if t = 0 then Some AGPS_TYPE_SUPL else if t = 1 then Some AGPS_TYPE_WIFI
      else if t = 2 then Some AGPS_TYPE_ANY else None)"

text \<open>Senders 0 to 2 (QUIPC, MSAPM, MSAPU) ask for a wireless network, 3 is the GPS daemon.\<close>

definition if_message :: "int \<Rightarrow> bool \<Rightarrow> if_request \<Rightarrow> data_msg option" where
  "if_message type isReq r =
     (if rq_sender_id r \<in> {0, 1, 2}
      then Some (LocEngReqRelWifi type (of_int (rq_sender_id r)) (Some (rq_ssid r)) (Some (rq_password r)) isReq)
      else if rq_sender_id r = 3 then Some (LocEngReqRelBIT type (rq_ipv4_addr r) (Some (rq_ipv6_addr r)) isReq)
      else None)"

text \<open>The result and the message sent; \<open>handle\<close> is whether \<open>loc_api_handle\<close> is set, and None follows it
  when it is NULL.\<close>

definition loc_eng_dmn_conn_loc_api_server_if_request_handler :: "bool \<Rightarrow> if_request \<Rightarrow> int \<times> data_msg option" where
  "loc_eng_dmn_conn_loc_api_server_if_request_handler handle r =
     (if \<not> handle then (1, None)
      else (case if_type (rq_type r) of
              None \<Rightarrow> (- 1, None)
            | Some type \<Rightarrow> (case if_message type True r of None \<Rightarrow> (- 1, None) | Some m \<Rightarrow> (0, Some m))))"

definition loc_eng_dmn_conn_loc_api_server_if_release_handler :: "bool \<Rightarrow> if_request \<Rightarrow> (int \<times> data_msg option) option" where
  "loc_eng_dmn_conn_loc_api_server_if_release_handler handle r =
     (case if_type (rq_type r) of
        None \<Rightarrow> Some (- 1, None)
      | Some type \<Rightarrow>
          (case if_message type False r of
             None \<Rightarrow> Some (- 1, None)
           | Some m \<Rightarrow> if handle then Some (0, Some m) else None))"

section \<open>The server\<close>

record dmn_server =
  loc_api_handle :: bool
  loc_api_server_msgqid :: int
  loc_api_resp_msgqid :: int
  quipc_msgqid :: int
  msapm_msgqid :: int
  msapu_msgqid :: int
  pipes :: "int \<Rightarrow> byte list"
  to_engine :: "data_msg list"

text \<open>\<open>opens\<close> is what opening the pipes returns, in order.\<close>

definition loc_api_server_proc_init :: "(nat \<Rightarrow> int) \<Rightarrow> dmn_server \<Rightarrow> int \<times> dmn_server" where
  "loc_api_server_proc_init opens d =
     (0, d\<lparr>loc_api_server_msgqid := opens 0, loc_api_resp_msgqid := opens 1, quipc_msgqid := opens 2,
           msapm_msgqid := opens 3, msapu_msgqid := opens 4\<rparr>)"

definition enqueue :: "data_msg option \<Rightarrow> dmn_server \<Rightarrow> dmn_server" where
  "enqueue m d = (case m of None \<Rightarrow> d | Some m \<Rightarrow> d\<lparr>to_engine := to_engine d @ [m]\<rparr>)"

text \<open>The results of the handlers are not looked at.\<close>

definition loc_api_server_dispatch :: "ctrl_msg \<Rightarrow> dmn_server \<Rightarrow> dmn_server option" where
  "loc_api_server_dispatch m d =
     (if ctrl_type m = GPSONE_LOC_API_IF_REQUEST then
        Some (enqueue (snd (loc_eng_dmn_conn_loc_api_server_if_request_handler (loc_api_handle d) (cmsg_if_request m))) d)
      else if ctrl_type m = GPSONE_LOC_API_IF_RELEASE then
        (case loc_eng_dmn_conn_loc_api_server_if_release_handler (loc_api_handle d) (cmsg_if_request m) of
           None \<Rightarrow> None
         | Some (_, x) \<Rightarrow> Some (enqueue x d))
      else Some d)"

text \<open>\<open>S\<close> is \<open>sizeof(struct ctrl_msgbuf)\<close>.\<close>

definition loc_api_server_proc ::
  "nat \<Rightarrow> nat \<Rightarrow> (byte list \<Rightarrow> ctrl_msg option) \<Rightarrow> pipe_env \<Rightarrow> bool \<Rightarrow> dmn_server \<Rightarrow> (int \<times> dmn_server) option" where
  "loc_api_server_proc W S decode env allocated d =
     (if \<not> allocated then Some (- 1, d)
      else (case loc_eng_dmn_conn_glue_msgrcv W env (S + 256) (pipes d (loc_api_server_msgqid d)) of
              None \<Rightarrow> None
            | Some (len, body, p) \<Rightarrow>
                (let d1 = d\<lparr>pipes := (pipes d)(loc_api_server_msgqid d := p)\<rparr>
                 in if len \<le> 0 then Some (- 1, d1)
                    else (case decode body of
                            None \<Rightarrow> None
                          | Some m \<Rightarrow>
                              (case loc_api_server_dispatch m d1 of None \<Rightarrow> None | Some d2 \<Rightarrow> Some (0, d2))))))"

definition loc_eng_dmn_conn_unblock_proc :: "nat \<Rightarrow> pipe_env \<Rightarrow> byte list \<Rightarrow> dmn_server \<Rightarrow> dmn_server" where
  "loc_eng_dmn_conn_unblock_proc W env unblock_body d =
     d\<lparr>pipes := (pipes d)(loc_api_server_msgqid d :=
         snd (loc_eng_dmn_conn_glue_msgsnd W env unblock_body (pipes d (loc_api_server_msgqid d))))\<rparr>"

text \<open>The response with \<open>GPSONE_LOC_API_RESPONSE\<close> and the status goes into the pipe of the sender.\<close>

definition response_pipe :: "int \<Rightarrow> dmn_server \<Rightarrow> int option" where
  "response_pipe sender_id d =
     (if sender_id = 0 then Some (quipc_msgqid d)
      else if sender_id = 1 then Some (msapm_msgqid d)
      else if sender_id = 2 then Some (msapu_msgqid d)
      else if sender_id = 3 then Some (loc_api_resp_msgqid d)
      else None)"

definition loc_eng_dmn_conn_loc_api_server_data_conn ::
  "nat \<Rightarrow> pipe_env \<Rightarrow> (int \<Rightarrow> int \<Rightarrow> byte list) \<Rightarrow> int \<Rightarrow> int \<Rightarrow> dmn_server \<Rightarrow> int \<times> dmn_server" where
  "loc_eng_dmn_conn_loc_api_server_data_conn W env encode sender_id status d =
     (case response_pipe sender_id d of
        None \<Rightarrow> (0, d)
      | Some fd \<Rightarrow>
          (let (r, p) = loc_eng_dmn_conn_glue_msgsnd W env (encode GPSONE_LOC_API_RESPONSE status) (pipes d fd)
           in (if r < 0 then - 1 else 0, d\<lparr>pipes := (pipes d)(fd := p)\<rparr>)))"

section \<open>The thread helper\<close>

datatype thelper_pc = Not_Created | Init | Signal_Failure | Signal_Ready | Pre | Proc | Post | Ended
datatype thelper_launch = Creating | Waiting | Blocked | Woken | Launched bool

record thelper =
  thread_exit :: bool
  thread_ready :: bool
  child :: thelper_pc
  launcher :: thelper_launch

definition thelper_signal_init :: thelper where
  "thelper_signal_init = \<lparr>thread_exit = False, thread_ready = False, child = Not_Created, launcher = Creating\<rparr>"

definition thelper_signal_ready :: "thelper \<Rightarrow> thelper" where
  "thelper_signal_ready t =
     t\<lparr>thread_ready := True, launcher := (if launcher t = Blocked then Woken else launcher t)\<rparr>"

text \<open>The steps of \<open>thelper_main\<close>, with what the client's functions return; of the launching thread; and of
  whoever calls \<open>loc_eng_dmn_conn_unblock_thelper\<close>.\<close>

datatype thelper_event =
  Create bool | Wait_Test | Wake | Child_Init int | Child_Signal | Child_Pre int | Child_Proc int | Child_Post | Unblock

definition after_fail :: "int \<Rightarrow> thelper_pc \<Rightarrow> thelper_pc \<Rightarrow> thelper \<Rightarrow> thelper" where
  "after_fail r ok failed t = (if r < 0 then t\<lparr>thread_exit := True, child := failed\<rparr> else t\<lparr>child := ok\<rparr>)"

definition thelper_exec :: "thelper_event \<Rightarrow> thelper \<Rightarrow> thelper option" where
  "thelper_exec ev t =
     (case ev of
        Create ok \<Rightarrow>
          if launcher t = Creating
          then Some (if ok then t\<lparr>child := Init, launcher := Waiting\<rparr> else t\<lparr>launcher := Launched True\<rparr>) else None
      | Wait_Test \<Rightarrow>
          if launcher t = Waiting
          then Some (t\<lparr>launcher := (if \<not> thread_ready t \<and> \<not> thread_exit t then Blocked else Woken)\<rparr>) else None
      | Wake \<Rightarrow> if launcher t = Woken then Some (t\<lparr>launcher := Launched (thread_exit t)\<rparr>) else None
      | Child_Init r \<Rightarrow> if child t = Init then Some (after_fail r Signal_Ready Signal_Failure t) else None
      | Child_Signal \<Rightarrow>
          if child t = Signal_Ready then Some ((thelper_signal_ready t)\<lparr>child := Pre\<rparr>)
          else if child t = Signal_Failure then Some ((thelper_signal_ready t)\<lparr>child := Ended\<rparr>)
          else None
      | Child_Pre r \<Rightarrow> if child t = Pre then Some (after_fail r Proc Ended t) else None
      | Child_Proc r \<Rightarrow>
          if child t = Proc
          then (let t' = (if r < 0 then t\<lparr>thread_exit := True\<rparr> else t)
                in Some (t'\<lparr>child := (if thread_exit t' then Post else Proc)\<rparr>)) else None
      | Child_Post \<Rightarrow> if child t = Post then Some (t\<lparr>child := Ended\<rparr>) else None
      | Unblock \<Rightarrow> Some (t\<lparr>thread_exit := True\<rparr>))"

fun thelper_run :: "thelper_event list \<Rightarrow> thelper \<Rightarrow> thelper option" where
  "thelper_run [] t = Some t"
| "thelper_run (ev # evs) t = Option.bind (thelper_exec ev t) (thelper_run evs)"

section \<open>Messages arrive as they were sent\<close>

lemma length_le_bytes [simp]: "length (le_bytes w v) = w"
  by (induction w arbitrary: v) auto

lemma le_value_le_bytes: "v < 256 ^ w \<Longrightarrow> le_value (le_bytes w v) = v"
proof (induction w arbitrary: v)
  case (Suc w)
  then have "v div 256 < 256 ^ w" by (simp add: less_mult_imp_div_less mult.commute)
  with Suc.IH show ?case by (simp add: unat_of_nat)
qed simp

lemma le_value_bound: "le_value bs < 256 ^ length bs"
proof (induction bs)
  case (Cons b bs)
  have "unat b < 256" using unsigned_less [of b] by simp
  with Cons show ?case by simp
qed simp

definition dmn_frame :: "nat \<Rightarrow> byte list \<Rightarrow> byte list" where
  "dmn_frame W body = le_bytes W (W + length body) @ body"

text \<open>Reads and writes that fit into the buffer are done at once, nothing else is read from an empty pipe.\<close>

definition dmn_env_ok :: "nat \<Rightarrow> pipe_env \<Rightarrow> nat \<Rightarrow> bool" where
  "dmn_env_ok W env bufsz \<longleftrightarrow>
     0 < W \<and> W \<le> bufsz \<and> bufsz < 256 ^ W \<and> bufsz < 2 ^ 31 \<and> bufsz \<le> write_most env \<and> bufsz \<le> read_most env \<and>
     read_empty env \<le> 0"

lemma msgsnd_frame:
  assumes "dmn_env_ok W env bufsz" "W + length body \<le> bufsz"
  shows "loc_eng_dmn_conn_glue_msgsnd W env body p = (int (W + length body), p @ dmn_frame W body)"
  using assms
  by (simp add: loc_eng_dmn_conn_glue_msgsnd_def loc_eng_dmn_conn_glue_pipewrite_def dmn_frame_def dmn_env_ok_def
      c_int32_id)

lemma piperead_prefix:
  assumes "length xs \<le> read_most env" "length xs < 2 ^ 31"
  shows "loc_eng_dmn_conn_glue_piperead env (length xs) (xs @ p) = (int (length xs), xs, p)"
  using assms by (auto simp: loc_eng_dmn_conn_glue_piperead_def c_int32_id)

lemma msgrcv_frame:
  assumes env: "dmn_env_ok W env bufsz" and fits: "W + length body \<le> bufsz"
  shows "loc_eng_dmn_conn_glue_msgrcv W env bufsz (dmn_frame W body @ p) =
    Some (int (W + length body), body, p)"
proof -
  have v: "le_value (le_bytes W (W + length body)) = W + length body"
    using env fits by (auto simp: dmn_env_ok_def intro: le_value_le_bytes)
  have n: "nat ((int (W + length body) - int W) mod 2 ^ (8 * W)) = length body"
  proof -
    have "length body < 256 ^ W" using env fits by (simp add: dmn_env_ok_def)
    then have "int (length body) < 2 ^ (8 * W)" by (simp add: power_mult of_nat_less_iff [symmetric] del: of_nat_less_iff)
    then show ?thesis by simp
  qed
  have h: "loc_eng_dmn_conn_glue_piperead env W (le_bytes W (W + length body) @ body @ p) =
    (int W, le_bytes W (W + length body), body @ p)"
    using piperead_prefix [of "le_bytes W (W + length body)" env "body @ p"] env by (simp add: dmn_env_ok_def)
  have b: "loc_eng_dmn_conn_glue_piperead env (length body) (body @ p) = (int (length body), body, p)"
    using env fits by (intro piperead_prefix) (auto simp: dmn_env_ok_def)
  show ?thesis
    using env fits n by (simp add: loc_eng_dmn_conn_glue_msgrcv_def dmn_frame_def h v b dmn_env_ok_def c_int32_id)
qed

lemma msgrcv_empty:
  assumes "dmn_env_ok W env bufsz"
  shows "\<exists>r. loc_eng_dmn_conn_glue_msgrcv W env bufsz [] = Some (- 1, r, [])"
  using assms by (auto simp: loc_eng_dmn_conn_glue_msgrcv_def loc_eng_dmn_conn_glue_piperead_def dmn_env_ok_def)

text \<open>The pipe is a channel: of senders whose messages fit into the buffer, and the receiver.\<close>

definition dmn_put :: "nat \<Rightarrow> pipe_env \<Rightarrow> nat \<Rightarrow> byte list \<Rightarrow> byte list \<Rightarrow> bool \<times> byte list" where
  "dmn_put W env bufsz p body =
     (if bufsz < W + length body then (False, p)
      else (let (r, p') = loc_eng_dmn_conn_glue_msgsnd W env body p in (0 \<le> r, p')))"

definition dmn_get :: "nat \<Rightarrow> pipe_env \<Rightarrow> nat \<Rightarrow> byte list \<Rightarrow> byte list option \<times> byte list" where
  "dmn_get W env bufsz p =
     (case loc_eng_dmn_conn_glue_msgrcv W env bufsz p of
        None \<Rightarrow> (None, p)
      | Some (r, body, p') \<Rightarrow> (if 0 < r then Some body else None, p'))"

definition dmn_holds :: "nat \<Rightarrow> pipe_env \<Rightarrow> nat \<Rightarrow> byte list \<Rightarrow> byte list list \<Rightarrow> bool" where
  "dmn_holds W env bufsz p ms \<longleftrightarrow>
     dmn_env_ok W env bufsz \<and> p = concat (map (dmn_frame W) ms) \<and> (\<forall>m\<in>set ms. W + length m \<le> bufsz)"

interpretation dmn: fifo_channel "dmn_holds W env bufsz" "dmn_put W env bufsz" "dmn_get W env bufsz"
  for W env bufsz
proof unfold_locales
  fix q xs m ok q'
  assume "dmn_holds W env bufsz q xs" "dmn_put W env bufsz q m = (ok, q')"
  then show "dmn_holds W env bufsz q' (if ok then xs @ [m] else xs)"
    by (auto simp: dmn_put_def dmn_holds_def msgsnd_frame split: if_splits)
next
  fix q xs q'
  assume "dmn_holds W env bufsz q xs" "dmn_get W env bufsz q = (None, q')"
  moreover have "int W + int n > 0" if "dmn_env_ok W env bufsz" for n using that by (simp add: dmn_env_ok_def)
  ultimately show "dmn_holds W env bufsz q' xs"
    using msgrcv_empty [of W env bufsz]
    by (cases xs) (auto simp: dmn_get_def dmn_holds_def msgrcv_frame)
next
  fix q xs m q'
  assume "dmn_holds W env bufsz q xs" "dmn_get W env bufsz q = (Some m, q')"
  then show "\<exists>ys. xs = m # ys \<and> dmn_holds W env bufsz q' ys"
    using msgrcv_empty [of W env bufsz]
    by (cases xs) (auto simp: dmn_get_def dmn_holds_def msgrcv_frame split: if_splits)
qed

text \<open>C23: However messages are written into the pipe and received from it, when each fits into the buffer and the
  system reads and writes that much at once: the messages received are, in order, the first of those sent; the
  pipe holds the others, each as its size and its content.\<close>

theorem dmn_messages_in_order:
  assumes "dmn_env_ok W env bufsz"
    and "chan_run (dmn_put W env bufsz) (dmn_get W env bufsz) es [] = (accepted, received, p)"
  shows "\<exists>ys. accepted = received @ ys \<and> p = concat (map (dmn_frame W) ys)"
proof -
  from assms(1) have "dmn_holds W env bufsz [] []" by (simp add: dmn_holds_def)
  from dmn.run_fifo [OF this assms(2)] show ?thesis by (auto simp: dmn_holds_def)
qed

definition pipe_env1 :: pipe_env where
  "pipe_env1 = \<lparr>write_most = 4096, read_most = 4096, read_empty = 0, read_huge = Some 4096\<rparr>"

lemma dmn_messages_in_order_witness:
  "dmn_env_ok 4 pipe_env1 400 \<and>
   chan_run (dmn_put 4 pipe_env1 400) (dmn_get 4 pipe_env1 400) [Put [1, 2], Put [3], Get] [] =
     ([[1, 2], [3]], [[1, 2]], dmn_frame 4 [3]) \<and>
   (\<exists>ys. [[1, 2], [3]] = [[1, 2 :: byte]] @ ys \<and> dmn_frame 4 [3] = concat (map (dmn_frame 4) ys))"
proof -
  have env: "dmn_env_ok 4 pipe_env1 400" by (simp add: dmn_env_ok_def pipe_env1_def)
  have run: "chan_run (dmn_put 4 pipe_env1 400) (dmn_get 4 pipe_env1 400) [Put [1, 2], Put [3], Get] [] =
     ([[1, 2], [3]], [[1, 2]], dmn_frame 4 [3])"
    using msgrcv_frame [OF env, of "[1, 2]" "dmn_frame 4 [3]"]
    by (simp add: dmn_put_def dmn_get_def msgsnd_frame [OF env])
  from env run dmn_messages_in_order [OF env run] show ?thesis by simp
qed

section \<open>When receiving overflows\<close>

lemma header_wraps:
  "v < W \<Longrightarrow> W \<le> 256 ^ W \<Longrightarrow> nat ((int v - int W) mod 2 ^ (8 * W)) = 256 ^ W + v - W"
proof -
  assume v: "v < W" "W \<le> 256 ^ W"
  have "(int v - int W) mod 2 ^ (8 * W) = (int v - int W + 2 ^ (8 * W)) mod 2 ^ (8 * W)" by simp
  moreover have "int W \<le> 2 ^ (8 * W)" using v by (simp add: power_mult of_nat_le_iff [symmetric] del: of_nat_le_iff)
  ultimately have "(int v - int W) mod 2 ^ (8 * W) = int v - int W + 2 ^ (8 * W)"
    using v mod_pos_pos_trivial [of "int v - int W + 2 ^ (8 * W)" "2 ^ (8 * W)"] by linarith
  moreover have "int v - int W + 2 ^ (8 * W) = int (256 ^ W + v - W)" using trans_le_add1 [OF v(2)] by (subst of_nat_diff) (simp_all add: power_mult)
  ultimately show ?thesis by simp
qed

lemma header_read:
  "0 < W \<Longrightarrow> bufsz < 2 ^ 31 \<Longrightarrow> W \<le> bufsz \<Longrightarrow> read_empty env \<le> 0 \<Longrightarrow>
   loc_eng_dmn_conn_glue_piperead env W p = (r, h, p1) \<Longrightarrow>
   (r = int W) = (W \<le> read_most env \<and> W \<le> length p) \<and> (r = int W \<longrightarrow> h = take W p \<and> p1 = drop W p)"
  by (auto simp: loc_eng_dmn_conn_glue_piperead_def c_int32_id Let_def min_def split: if_splits)

text \<open>C24: Receiving a message leaves the buffer exactly when the size at the front of the pipe is less than the size
  field itself (\<open>size_t\<close> of 32 or 64 bits; the subtraction wraps around), the system reads at all with the huge count that results, and
  then gives more than fits behind that field.\<close>

theorem msgrcv_overflow_exact:
  assumes "W \<in> {4, 8}" "W \<le> bufsz" "bufsz < 2 ^ 31" "read_empty env \<le> 0"
  shows "loc_eng_dmn_conn_glue_msgrcv W env bufsz p = None \<longleftrightarrow>
    W \<le> read_most env \<and> W \<le> length p \<and> le_value (take W p) < W \<and>
    (\<exists>most. read_huge env = Some most \<and> bufsz < W + min most (length p - W))"
proof -
  have W: "0 < W" "2 * bufsz < 256 ^ W" "2 ^ 31 + W \<le> 256 ^ W" using assms(1,3) by auto
  obtain r h p1 where rd: "loc_eng_dmn_conn_glue_piperead env W p = (r, h, p1)"
    by (cases "loc_eng_dmn_conn_glue_piperead env W p") auto
  note hr = header_read [OF W(1) assms(3,2,4) rd]
  show ?thesis
  proof (cases "r = int W")
    case False
    with hr rd show ?thesis by (auto simp: loc_eng_dmn_conn_glue_msgrcv_def)
  next
    case True
    with hr have h: "h = take W p" "p1 = drop W p" "W \<le> read_most env" "W \<le> length p" by auto
    let ?v = "le_value (take W p)"
    define n where "n = nat ((int ?v - int W) mod 2 ^ (8 * W))"
    obtain r2 b p2 where rd2: "loc_eng_dmn_conn_glue_piperead env n (drop W p) = (r2, b, p2)"
      by (cases "loc_eng_dmn_conn_glue_piperead env n (drop W p)") auto
    then have lb: "n < 2 ^ 31 \<Longrightarrow> length b = min n (min (read_most env) (length p - W))"
        "2 ^ 31 \<le> n \<Longrightarrow> length b = (case read_huge env of None \<Rightarrow> 0 | Some most \<Rightarrow> min n (min most (length p - W)))"
      by (auto simp: loc_eng_dmn_conn_glue_piperead_def Let_def split: if_splits option.splits)
    have none: "loc_eng_dmn_conn_glue_msgrcv W env bufsz p = None \<longleftrightarrow> ?v \<le> bufsz \<and> bufsz < W + length b"
      using True h rd rd2 by (auto simp: loc_eng_dmn_conn_glue_msgrcv_def n_def [symmetric])
    show ?thesis
    proof (cases "?v < W")
      case True
      then have "n = 256 ^ W + ?v - W" using header_wraps [of ?v W] W(3) by (simp add: n_def)
      then have "bufsz < W + n" "2 ^ 31 \<le> n" using W(2,3) by linarith+
      with True none lb(2) h assms(2) show ?thesis by (auto split: option.splits)
    next
      case False
      moreover have "?v < 2 ^ (8 * W)"
        using le_value_bound [of "take W p"] h by (simp add: power_mult min_absorb2)
      then have "int ?v < 2 ^ (8 * W)"
      using of_nat_less_iff [of ?v "2 ^ (8 * W)", where 'a = int] by (metis of_nat_numeral of_nat_power)
    then have "int ?v - int W < 2 ^ (8 * W)" by linarith
      ultimately have n: "n = ?v - W" by (simp add: n_def)
      have "length b \<le> n" if "?v \<le> bufsz"
        using that n assms(3) lb(1) by simp
      with False none n show ?thesis by auto
    qed
  qed
qed

lemma le_value_zeros: "le_value (replicate n 0) = 0"
  by (induction n) auto

lemma msgrcv_overflow_exact_witness:
  "loc_eng_dmn_conn_glue_msgrcv 4 pipe_env1 400 (replicate 405 0) = None"
  using msgrcv_overflow_exact [of 4 400 pipe_env1 "replicate 405 0"]
  by (simp add: pipe_env1_def le_value_zeros)

section \<open>What a message does\<close>

lemmas dmn_handlers =
  loc_eng_dmn_conn_loc_api_server_if_request_handler_def loc_eng_dmn_conn_loc_api_server_if_release_handler_def
  if_message_def

lemmas dmn_numbers =
  GPSONE_LOC_API_IF_REQUEST_def GPSONE_LOC_API_IF_RELEASE_def AGPS_TYPE_ANY_def AGPS_TYPE_SUPL_def AGPS_TYPE_WIFI_def

definition as_release :: "data_msg \<Rightarrow> data_msg" where
  "as_release m =
     (case m of
        LocEngReqRelBIT ty ipv4 ipv6 _ \<Rightarrow> LocEngReqRelBIT ty ipv4 ipv6 False
      | LocEngReqRelWifi ty sender ssid password _ \<Rightarrow> LocEngReqRelWifi ty sender ssid password False
      | _ \<Rightarrow> m)"

text \<open>When the engine is registered, a release asks the engine for what the request of the same content asked,
  except that it is a release; it is refused when the request was.\<close>

theorem release_mirrors_request:
  "loc_eng_dmn_conn_loc_api_server_if_release_handler True r =
     Some (map_prod id (map_option as_release) (loc_eng_dmn_conn_loc_api_server_if_request_handler True r))"
  by (auto simp: dmn_handlers as_release_def split: option.splits)

text \<open>Without the engine a request is refused, a release that the request's checks accept is undefined.\<close>

lemma unregistered_release_undefined:
  "loc_eng_dmn_conn_loc_api_server_if_request_handler False r = (1, None) \<and>
   (loc_eng_dmn_conn_loc_api_server_if_release_handler False r = None \<longleftrightarrow>
      fst (loc_eng_dmn_conn_loc_api_server_if_request_handler True r) = 0)"
  by (auto simp: dmn_handlers split: option.splits)

text \<open>C25: A message at the front of the pipe that fits into the buffer is taken out by one round of the server. A
  request (0xF0) or release (0xF1) for SUPL (0), a wireless network (1) or any connection (2) reaches the engine as one
  message with the engine's number of that type: from the senders 0 to 2 with the name and password of the network,
  from the daemon (3) with the two addresses. All other messages, types and senders reach it as nothing, and so does
  everything while no engine is registered; the round succeeds all the same and leaves the rest as before. Without an
  engine a valid release follows NULL; without memory nothing is read and the round fails.\<close>

theorem dmn_request_reaches_engine:
  assumes "dmn_env_ok W env (S + 256)" "W + length body \<le> S + 256"
    and "pipes d (loc_api_server_msgqid d) = dmn_frame W body @ p" "decode body = Some m"
    and "r = cmsg_if_request m"
    and "valid \<longleftrightarrow> ctrl_type m \<in> {0xF0, 0xF1} \<and> rq_type r \<in> {0, 1, 2} \<and> rq_sender_id r \<in> {0, 1, 2, 3}"
    and "ty = (if rq_type r = 0 then 1 else if rq_type r = 1 then 4 else 0)"
  shows "loc_api_server_proc W S decode env allocated d =
    (if \<not> allocated then Some (- 1, d)
     else if valid \<and> ctrl_type m = 0xF1 \<and> \<not> loc_api_handle d then None
     else Some (0, d\<lparr>pipes := (pipes d)(loc_api_server_msgqid d := p),
       to_engine := to_engine d @
         (if valid \<and> loc_api_handle d then
            [if rq_sender_id r = 3
             then LocEngReqRelBIT ty (rq_ipv4_addr r) (Some (rq_ipv6_addr r)) (ctrl_type m = 0xF0)
             else LocEngReqRelWifi ty (of_int (rq_sender_id r)) (Some (rq_ssid r)) (Some (rq_password r))
               (ctrl_type m = 0xF0)]
          else [])\<rparr>))"
proof (cases allocated)
  case True
  have len: "\<not> int W + int (length body) \<le> 0" using assms(1) by (simp add: dmn_env_ok_def)
  have rcv: "loc_eng_dmn_conn_glue_msgrcv W env (S + 256) (dmn_frame W body @ p) =
    Some (int (W + length body), body, p)" by (rule msgrcv_frame [OF assms(1,2)])
  let ?d = "d\<lparr>pipes := (pipes d)(loc_api_server_msgqid d := p)\<rparr>"
  have "loc_api_server_proc W S decode env allocated d = map_option (Pair 0) (loc_api_server_dispatch m ?d)"
    using assms(3,4) len True by (simp add: loc_api_server_proc_def rcv Let_def split: option.splits)
  also have "\<dots> = (if valid \<and> ctrl_type m = 0xF1 \<and> \<not> loc_api_handle d then None
     else Some (0, ?d\<lparr>to_engine := to_engine d @
         (if valid \<and> loc_api_handle d then
            [if rq_sender_id r = 3
             then LocEngReqRelBIT ty (rq_ipv4_addr r) (Some (rq_ipv6_addr r)) (ctrl_type m = 0xF0)
             else LocEngReqRelWifi ty (of_int (rq_sender_id r)) (Some (rq_ssid r)) (Some (rq_password r))
               (ctrl_type m = 0xF0)]
          else [])\<rparr>))"
    unfolding assms(5-7)
    by (simp add: loc_api_server_dispatch_def dmn_handlers enqueue_def if_type_def dmn_numbers)
  finally show ?thesis using True by simp
next
  case False
  then show ?thesis by (simp add: loc_api_server_proc_def)
qed

definition dmn_if_request1 :: if_request where
  "dmn_if_request1 = \<lparr>rq_type = 0, rq_sender_id = 3, rq_ipv4_addr = 7, rq_ipv6_addr = ''v6'', rq_ssid = '''',
     rq_password = ''''\<rparr>"

definition dmn_decode1 :: "byte list \<Rightarrow> ctrl_msg option" where
  "dmn_decode1 b = (case b of [] \<Rightarrow> None | x # _ \<Rightarrow> Some \<lparr>ctrl_type = uint x, cmsg_if_request = dmn_if_request1\<rparr>)"

definition dmn_server1 :: dmn_server where
  "dmn_server1 = \<lparr>loc_api_handle = True, loc_api_server_msgqid = 3, loc_api_resp_msgqid = 4, quipc_msgqid = 5,
     msapm_msgqid = 6, msapu_msgqid = 7, pipes = (\<lambda>fd. if fd = 3 then dmn_frame 4 [0xF1] else []), to_engine = []\<rparr>"

lemma dmn_request_reaches_engine_witness:
  "loc_api_server_proc 4 144 dmn_decode1 pipe_env1 True dmn_server1 =
     Some (0, dmn_server1\<lparr>pipes := (pipes dmn_server1)(3 := []), to_engine := [LocEngReqRelBIT 1 7 (Some ''v6'') False]\<rparr>)"
  using dmn_request_reaches_engine [of 4 pipe_env1 144 "[0xF1]" dmn_server1 "[]" dmn_decode1
      "\<lparr>ctrl_type = 0xF1, cmsg_if_request = dmn_if_request1\<rparr>" dmn_if_request1 True 1 True]
  by (simp add: dmn_env_ok_def pipe_env1_def dmn_server1_def dmn_decode1_def dmn_if_request1_def)

text \<open>A message that cannot be received ends the thread, though the log says that it is tried again.\<close>

lemma receive_failure_ends_thread:
  assumes "loc_eng_dmn_conn_glue_msgrcv W env (S + 256) (pipes d (loc_api_server_msgqid d)) = Some (len, body, p)"
    "len \<le> 0" "child t = Proc"
  shows "\<exists>d'. loc_api_server_proc W S decode env True d = Some (- 1, d') \<and>
    (\<exists>t'. thelper_exec (Child_Proc (- 1)) t = Some t' \<and> child t' = Post)"
  using assms by (simp add: loc_api_server_proc_def thelper_exec_def)

section \<open>The thread starts its launcher and ends\<close>

definition child_event :: "thelper_event \<Rightarrow> bool" where
  "child_event ev \<longleftrightarrow> (case ev of Create _ \<Rightarrow> False | Wait_Test \<Rightarrow> False | Wake \<Rightarrow> False | Unblock \<Rightarrow> False | _ \<Rightarrow> True)"

definition child_events :: "thelper_event list \<Rightarrow> nat" where
  "child_events evs = length (filter child_event evs)"

text \<open>The steps of the thread until it has signalled, and until it ends when it is asked to.\<close>

definition until_signal :: "thelper_pc \<Rightarrow> nat" where
  "until_signal c = (case c of Not_Created \<Rightarrow> 2 | Init \<Rightarrow> 2 | Signal_Failure \<Rightarrow> 1 | Signal_Ready \<Rightarrow> 1 | _ \<Rightarrow> 0)"

definition until_end :: "thelper_pc \<Rightarrow> nat" where
  "until_end c =
     (case c of Not_Created \<Rightarrow> 5 | Init \<Rightarrow> 5 | Signal_Ready \<Rightarrow> 4 | Pre \<Rightarrow> 3 | Proc \<Rightarrow> 2 | Post \<Rightarrow> 1 | Signal_Failure \<Rightarrow> 1
      | Ended \<Rightarrow> 0)"

definition thelper_inv :: "thelper \<Rightarrow> bool" where
  "thelper_inv t \<longleftrightarrow>
     (launcher t = Creating \<longrightarrow> child t = Not_Created) \<and>
     (launcher t = Waiting \<longrightarrow> child t \<noteq> Not_Created) \<and>
     (launcher t = Blocked \<longrightarrow> child t \<in> {Init, Signal_Failure, Signal_Ready}) \<and>
     (child t \<in> {Pre, Proc, Post, Ended} \<longrightarrow> thread_ready t)"

lemma thelper_init_inv: "thelper_inv thelper_signal_init"
  by (simp add: thelper_inv_def thelper_signal_init_def)

lemma thelper_exec_inv:
  "thelper_exec ev t = Some t' \<Longrightarrow> thelper_inv t \<Longrightarrow> thelper_inv t'"
  by (cases ev; cases "child t"; cases "launcher t")
     (simp_all add: thelper_exec_def thelper_inv_def after_fail_def thelper_signal_ready_def split: if_splits,
       (clarsimp split: if_splits)+)

lemma thelper_run_inv: "thelper_run evs t = Some t' \<Longrightarrow> thelper_inv t \<Longrightarrow> thelper_inv t'"
  by (induction evs arbitrary: t) (auto dest: thelper_exec_inv)

lemma until_signal_step:
  "thelper_exec ev t = Some t' \<Longrightarrow> thelper_inv t \<Longrightarrow>
   until_signal (child t') \<le> until_signal (child t) - (if child_event ev then 1 else 0)"
  by (cases ev; cases "child t")
     (auto simp: thelper_exec_def after_fail_def thelper_signal_ready_def thelper_inv_def until_signal_def
       child_event_def split: if_splits)

lemma until_signal_run:
  "thelper_run evs t = Some t' \<Longrightarrow> thelper_inv t \<Longrightarrow>
   until_signal (child t') \<le> until_signal (child t) - child_events evs"
proof (induction evs arbitrary: t)
  case (Cons ev evs)
  then obtain t1 where t1: "thelper_exec ev t = Some t1" "thelper_run evs t1 = Some t'" by auto
  from Cons.IH [OF t1(2) thelper_exec_inv [OF t1(1) Cons.prems(2)]] until_signal_step [OF t1(1) Cons.prems(2)]
  show ?case by (auto simp: child_events_def split: if_splits)
qed (simp add: child_events_def)

text \<open>Once the thread has made two steps since the helper was initialised, the thread that launched it is not
  waiting for it: the signal is never lost, whatever the order of the steps, and though the waiting is no loop.\<close>

theorem launcher_woken:
  assumes "thelper_run evs thelper_signal_init = Some t" "2 \<le> child_events evs"
  shows "launcher t \<noteq> Blocked"
proof -
  have "until_signal (child t) = 0"
    using until_signal_run [OF assms(1) thelper_init_inv] assms(2) by (simp add: thelper_signal_init_def until_signal_def)
  with thelper_run_inv [OF assms(1) thelper_init_inv] show ?thesis
    by (auto simp: thelper_inv_def until_signal_def split: thelper_pc.splits)
qed

definition thelper_evs1 :: "thelper_event list" where
  "thelper_evs1 = [Create True, Wait_Test, Child_Init 0, Child_Signal]"

lemma launcher_woken_witness:
  "thelper_run thelper_evs1 thelper_signal_init =
     Some \<lparr>thread_exit = False, thread_ready = True, child = Pre, launcher = Woken\<rparr> \<and>
   launcher \<lparr>thread_exit = False, thread_ready = True, child = Pre, launcher = Woken\<rparr> \<noteq> Blocked"
proof -
  have run: "thelper_run thelper_evs1 thelper_signal_init =
     Some \<lparr>thread_exit = False, thread_ready = True, child = Pre, launcher = Woken\<rparr>"
    by (simp add: thelper_evs1_def thelper_exec_def thelper_signal_init_def after_fail_def thelper_signal_ready_def)
  from run launcher_woken [OF run] show ?thesis by (simp add: thelper_evs1_def child_events_def child_event_def)
qed

lemma until_end_step:
  "thelper_exec ev t = Some t' \<Longrightarrow> thelper_inv t \<Longrightarrow> thread_exit t \<Longrightarrow>
   thread_exit t' \<and> until_end (child t') + (if child_event ev then 1 else 0) \<le> until_end (child t)"
  by (cases ev; cases "child t")
     (auto simp: thelper_exec_def after_fail_def thelper_signal_ready_def thelper_inv_def until_end_def
       child_event_def split: if_splits)

lemma until_end_run:
  "thelper_run evs t = Some t' \<Longrightarrow> thelper_inv t \<Longrightarrow> thread_exit t \<Longrightarrow>
   until_end (child t') + child_events evs \<le> until_end (child t)"
proof (induction evs arbitrary: t)
  case (Cons ev evs)
  then obtain t1 where t1: "thelper_exec ev t = Some t1" "thelper_run evs t1 = Some t'" by auto
  note step = until_end_step [OF t1(1) Cons.prems(2,3)]
  with Cons.IH [OF t1(2) thelper_exec_inv [OF t1(1) Cons.prems(2)]]
  show ?case by (auto simp: child_events_def split: if_splits)
qed (simp add: child_events_def)

lemma child_can_step:
  "child t \<notin> {Not_Created, Ended} \<Longrightarrow> \<exists>ev t'. child_event ev \<and> thelper_exec ev t = Some t'"
proof (cases "child t")
  case Proc
  then show ?thesis by (intro exI [of _ "Child_Proc 0"]) (simp add: child_event_def thelper_exec_def Let_def)
qed (auto simp: child_event_def thelper_exec_def intro: exI [of _ "Child_Init 0"] exI [of _ Child_Signal]
    exI [of _ "Child_Pre 0"] exI [of _ Child_Post])

text \<open>C26: Once the thread is asked to end, it makes no more than the steps that are left on its way to the end: at
  most five. Before the end it can always make one (\<open>child_can_step\<close>).\<close>

theorem thelper_ends:
  assumes "thelper_run evs thelper_signal_init = Some t" "thread_exit t" "thelper_run evs' t = Some t'"
  shows "until_end (child t') + child_events evs' \<le> until_end (child t)"
  by (rule until_end_run [OF assms(3) thelper_run_inv [OF assms(1) thelper_init_inv] assms(2)])

lemma thelper_ends_witness:
  "until_end (child \<lparr>thread_exit = True, thread_ready = True, child = Ended, launcher = Waiting\<rparr>) +
     child_events [Child_Init 0, Child_Signal, Child_Pre 0, Child_Proc 0, Child_Post] \<le>
   until_end (child \<lparr>thread_exit = True, thread_ready = False, child = Init, launcher = Waiting\<rparr>)"
  by (rule thelper_ends [of "[Create True, Unblock]"])
     (simp_all add: thelper_exec_def thelper_signal_init_def after_fail_def thelper_signal_ready_def)

end
