(* ===== verification/Wlan_Mac.thy ===== *)
theory Wlan_Mac
  imports Loc_Prelude "HOL-Library.Word"
begin

text \<open>
  \<open>wcnss_asus_client.c\<close>: the MAC address of the WLAN interface, from the factory partition, from the file of an
  earlier start, or at random.

  \<^item> What the system does is \<open>wlan_env\<close>: which \<open>stat\<close> finds the factory file, what is read, the stored file, and
    the random numbers. The result None is a write past the caller's buffer, a read past the own one, or a NULL file.
  \<^item> Shown: a factory file of hexadecimal digits is decoded, if it appears in time; an address once made up stays
    the same, if the caller's buffer has the 12 bytes that are written. The caller's six bytes are overrun.
\<close>

section \<open>Scanning\<close>

definition is_space :: "8 word \<Rightarrow> bool" where "is_space b \<longleftrightarrow> b = 32 \<or> 9 \<le> b \<and> b \<le> 13"

definition hex_digit :: "8 word \<Rightarrow> 8 word option" where
  "hex_digit b =
     (if 48 \<le> b \<and> b \<le> 57 then Some (b - 48)
      else if 65 \<le> b \<and> b \<le> 70 then Some (b - 55)
      else if 97 \<le> b \<and> b \<le> 102 then Some (b - 87) else None)"

text \<open>One \<open>%02hhx\<close>: space, and then at most two of sign, prefix and digits. None is the end of the buffer, \<open>Inl\<close> a
  character that does not match.\<close>

definition scan_hh :: "8 word list \<Rightarrow> (unit + 8 word \<times> 8 word list) option" where
  "scan_hh bs =
     (case dropWhile is_space bs of
        [] \<Rightarrow> None
      | b # r \<Rightarrow>
          if b = 43 \<or> b = 45
          then (case r of
                  [] \<Rightarrow> None
                | d # r' \<Rightarrow> Some (case hex_digit d of None \<Rightarrow> Inl () | Some v \<Rightarrow> Inr (if b = 45 then - v else v, r')))
          else (case hex_digit b of
                  None \<Rightarrow> Some (Inl ())
                | Some v \<Rightarrow>
                    (case r of
                       [] \<Rightarrow> None
                     | d # r' \<Rightarrow>
                         Some (if b = 48 \<and> (d = 88 \<or> d = 120) then Inl ()
                               else (case hex_digit d of None \<Rightarrow> Inr (v, r) | Some w \<Rightarrow> Inr (16 * v + w, r'))))))"

fun store_byte :: "nat \<Rightarrow> 8 word \<Rightarrow> 8 word list \<Rightarrow> 8 word list option" where
  "store_byte k v addr = (if k < length addr then Some (addr[k := v]) else None)"

text \<open>The six conversions, until one does not match.\<close>

fun scan_mac :: "nat \<Rightarrow> nat \<Rightarrow> 8 word list \<Rightarrow> 8 word list \<Rightarrow> 8 word list option" where
  "scan_mac 0 k bs addr = Some addr"
| "scan_mac (Suc n) k bs addr =
     (case scan_hh bs of
        None \<Rightarrow> None
      | Some (Inl _) \<Rightarrow> Some addr
      | Some (Inr (v, bs')) \<Rightarrow> Option.bind (store_byte k v addr) (scan_mac n (Suc k) bs'))"

section \<open>The address\<close>

datatype nv_file = Open_Failed | Read_Failed | Contents "8 word list"

record wlan_env =
  nv_found :: "nat \<Rightarrow> bool"
  nv_file :: nv_file
  stack :: "8 word list"
  genmac :: "8 word list option"
  genmac_readable :: bool
  genmac_writable :: bool
  rand :: "nat \<Rightarrow> nat"

definition MAX_WAIT_COUNT :: nat where "MAX_WAIT_COUNT = 10"
definition MAC_ADDR_SIZE :: nat where "MAC_ADDR_SIZE = 12"
definition asus_mac_prefix :: "8 word list" where "asus_mac_prefix = [0x2c, 0x56, 0xdc]"

text \<open>The index of the attempt after which it no longer waits.\<close>

function wait_nv :: "(nat \<Rightarrow> bool) \<Rightarrow> nat \<Rightarrow> nat" where
  "wait_nv found i = (if \<not> found i \<and> i < MAX_WAIT_COUNT then wait_nv found (Suc i) else i)"
  by pat_completeness auto
termination by (relation "measure (\<lambda>(found, i). MAX_WAIT_COUNT - i)") auto

declare wait_nv.simps [simp del]

text \<open>The 12 bytes of the buffer: what was read, and behind that what was on the stack.\<close>

definition nv_buf :: "8 word list \<Rightarrow> 8 word list \<Rightarrow> 8 word list" where
  "nv_buf bytes junk = take 12 (bytes @ drop (length bytes) junk)"

definition from_nv :: "wlan_env \<Rightarrow> 8 word list \<Rightarrow> (bool \<times> 8 word list) option" where
  "from_nv e addr =
     (if wait_nv (nv_found e) 0 = MAX_WAIT_COUNT then Some (False, addr)
      else (case nv_file e of
              Contents bytes \<Rightarrow> map_option (\<lambda>a. (True, a)) (scan_mac 6 0 (nv_buf (take 12 bytes) (stack e)) addr)
            | _ \<Rightarrow> Some (False, addr)))"

text \<open>\<open>fscanf\<close> of six characters: those that are there are stored.\<close>

fun store_bytes :: "nat \<Rightarrow> 8 word list \<Rightarrow> 8 word list \<Rightarrow> 8 word list option" where
  "store_bytes k [] addr = Some addr"
| "store_bytes k (v # vs) addr = Option.bind (store_byte k v addr) (store_bytes (Suc k) vs)"

definition from_genmac :: "wlan_env \<Rightarrow> 8 word list \<Rightarrow> (bool \<times> 8 word list) option" where
  "from_genmac e addr =
     (case genmac e of
        None \<Rightarrow> Some (False, addr)
      | Some bytes \<Rightarrow>
          if genmac_readable e
          then map_option (\<lambda>a. (6 \<le> length bytes, a)) (store_bytes 0 (take 6 bytes) addr)
          else None)"

definition random_mac :: "wlan_env \<Rightarrow> 8 word list \<Rightarrow> (8 word list \<times> wlan_env) option" where
  "random_mac e addr =
     (case store_bytes 0 asus_mac_prefix addr of
        None \<Rightarrow> None
      | Some a \<Rightarrow>
          (case store_bytes 3 (map (\<lambda>i. of_nat (rand e i mod 255)) [0..<MAC_ADDR_SIZE - 3]) a of
             None \<Rightarrow> None
           | Some a' \<Rightarrow>
               if genmac_writable e then Some (a', e\<lparr>genmac := Some (take MAC_ADDR_SIZE a')\<rparr>) else None))"

definition wcnss_qmi_get_wlan_address :: "wlan_env \<Rightarrow> 8 word list \<Rightarrow> (int \<times> 8 word list \<times> wlan_env) option" where
  "wcnss_qmi_get_wlan_address e addr =
     (case from_nv e addr of
        None \<Rightarrow> None
      | Some (True, a) \<Rightarrow> Some (0, a, e)
      | Some (False, a) \<Rightarrow>
          (case from_genmac e a of
             None \<Rightarrow> None
           | Some (True, b) \<Rightarrow> Some (0, b, e)
           | Some (False, b) \<Rightarrow> map_option (\<lambda>(c, e'). (0, c, e')) (random_mac e b)))"

section \<open>Properties\<close>

lemma store_bytes_eq:
  "store_bytes k vs addr =
     (if vs = [] \<or> k + length vs \<le> length addr then Some (take k addr @ vs @ drop (k + length vs) addr) else None)"
proof (induction k vs addr rule: store_bytes.induct)
  case (2 k v vs addr)
  show ?case
  proof (cases "k < length addr")
    case True
    have t: "take (Suc k) (addr[k := v]) = take k addr @ [v]" using True by (simp add: take_Suc_conv_app_nth)
    have d: "drop (Suc k + n) (addr[k := v]) = drop (Suc k + n) addr" for n by simp
    have "addr[k := v] = take (Suc k) (addr[k := v]) @ drop (Suc k) (addr[k := v])" by (rule append_take_drop_id [symmetric])
    then have u: "addr[k := v] = take k addr @ v # drop (Suc k) addr" unfolding t using d [of 0] by simp
    have "store_byte k v addr = Some (addr[k := v])" using True by simp
    note ih = 2 [OF this, unfolded t d length_list_update]
    have "store_bytes k (v # vs) addr = store_bytes (Suc k) vs (addr[k := v])" using True by simp
    also note ih
    finally show ?thesis using True u by (cases vs) auto
  qed simp
qed simp

text \<open>Two characters for each byte.\<close>

fun mac_of :: "8 word list \<Rightarrow> 8 word list" where
  "mac_of (b # d # r) = (16 * the (hex_digit b) + the (hex_digit d)) # mac_of r"
| "mac_of _ = []"

lemma length_mac_of: "length (mac_of bs) = length bs div 2"
  by (induction bs rule: mac_of.induct) auto

lemma hex_digit_other: "hex_digit b \<noteq> None \<Longrightarrow> \<not> is_space b \<and> b \<noteq> 43 \<and> b \<noteq> 45 \<and> b \<noteq> 88 \<and> b \<noteq> 120"
  by (auto simp: hex_digit_def is_space_def word_le_nat_alt split: if_splits)

lemma scan_hh_digits:
  assumes "hex_digit b \<noteq> None" "hex_digit d \<noteq> None"
  shows "scan_hh (b # d # r) = Some (Inr (16 * the (hex_digit b) + the (hex_digit d), r))"
  using assms hex_digit_other [OF assms(1)] hex_digit_other [OF assms(2)] by (auto simp: scan_hh_def)

lemma scan_mac_digits:
  "length bs = 2 * n \<Longrightarrow> list_all (\<lambda>b. hex_digit b \<noteq> None) bs \<Longrightarrow> scan_mac n k bs addr = store_bytes k (mac_of bs) addr"
proof (induction n arbitrary: k bs addr)
  case (Suc n)
  then obtain b d r where bs: "bs = b # d # r" by (cases bs; cases "tl bs") auto
  with Suc have "scan_mac n k' r a = store_bytes k' (mac_of r) a" for k' a by simp
  moreover have "scan_hh (b # d # r) = Some (Inr (16 * the (hex_digit b) + the (hex_digit d), r))"
    using Suc.prems(2) by (intro scan_hh_digits) (auto simp: bs)
  ultimately show ?case by (simp add: bs)
qed simp

lemma wait_nv_bound: "i \<le> MAX_WAIT_COUNT \<Longrightarrow> wait_nv f i \<le> MAX_WAIT_COUNT"
  by (induction f i rule: wait_nv.induct) (subst wait_nv.simps, auto)

lemma wait_nv_found: "f k \<Longrightarrow> i \<le> k \<Longrightarrow> k < MAX_WAIT_COUNT \<Longrightarrow> wait_nv f i \<le> k"
proof (induction f i rule: wait_nv.induct)
  case (1 f i)
  then show ?case by (cases "i = k") (simp_all add: wait_nv.simps [of f i] wait_nv.simps [of f k])
qed

text \<open>The factory address is used. If the file appears before the last attempt and starts with twelve hexadecimal
  digits, the six bytes they stand for are the address, the rest of the buffer is not touched.\<close>

theorem wlan_address_from_nv:
  assumes "nv_found e k" "k < MAX_WAIT_COUNT" "nv_file e = Contents bytes" "12 \<le> length bytes"
    and "list_all (\<lambda>b. hex_digit b \<noteq> None) (take 12 bytes)" "6 \<le> length addr"
  shows "wcnss_qmi_get_wlan_address e addr = Some (0, mac_of (take 12 bytes) @ drop 6 addr, e)"
proof -
  have "wait_nv (nv_found e) 0 \<noteq> MAX_WAIT_COUNT" using wait_nv_found [of "nv_found e" k 0] assms(1) assms(2) by simp
  moreover have "nv_buf (take 12 bytes) (stack e) = take 12 bytes" using assms(4) by (simp add: nv_buf_def)
  moreover have "scan_mac 6 0 (take 12 bytes) addr = Some (mac_of (take 12 bytes) @ drop 6 addr)"
    using assms(4,5,6) by (subst scan_mac_digits) (simp_all add: store_bytes_eq length_mac_of)
  ultimately show ?thesis using assms(3) by (simp add: wcnss_qmi_get_wlan_address_def from_nv_def)
qed

definition wlan_env1 :: wlan_env where
  "wlan_env1 =
     \<lparr>nv_found = (\<lambda>i. 2 \<le> i), nv_file = Contents (map of_char ''2c56DC0102fF''), stack = [], genmac = None,
      genmac_readable = True, genmac_writable = True, rand = (\<lambda>i. 300 + i)\<rparr>"

lemma wlan_address_from_nv_witness:
  "wcnss_qmi_get_wlan_address wlan_env1 (replicate 6 0) = Some (0, [0x2c, 0x56, 0xdc, 1, 2, 0xff], wlan_env1)"
proof -
  have "12 \<le> length (map of_char ''2c56DC0102fF'' :: 8 word list)"
    "list_all (\<lambda>b. hex_digit b \<noteq> None) (take 12 (map of_char ''2c56DC0102fF''))"
    "mac_of (take 12 (map of_char ''2c56DC0102fF'')) = [0x2c, 0x56, 0xdc, 1, 2, 0xff]" by code_simp+
  with wlan_address_from_nv [of wlan_env1 2 "map of_char ''2c56DC0102fF''" "replicate 6 0"] show ?thesis
    by (simp add: wlan_env1_def MAX_WAIT_COUNT_def)
qed

text \<open>The factory file cannot be read.\<close>

definition no_nv :: "wlan_env \<Rightarrow> bool" where
  "no_nv e \<longleftrightarrow> (\<forall>k < MAX_WAIT_COUNT. \<not> nv_found e k) \<or> nv_file e = Open_Failed \<or> nv_file e = Read_Failed"

lemma wait_nv_never: "\<forall>k < MAX_WAIT_COUNT. \<not> f k \<Longrightarrow> i \<le> MAX_WAIT_COUNT \<Longrightarrow> wait_nv f i = MAX_WAIT_COUNT"
proof (induction f i rule: wait_nv.induct)
  case (1 f i)
  then show ?case by (cases "i < MAX_WAIT_COUNT") (simp_all add: wait_nv.simps [of f i] wait_nv.simps [of f MAX_WAIT_COUNT])
qed

lemma from_nv_fails: "no_nv e \<Longrightarrow> from_nv e addr = Some (False, addr)"
  by (auto simp: no_nv_def from_nv_def wait_nv_never split: nv_file.split)

text \<open>An address that was made up is kept. Two starts without a factory file, the second with the file that the
  first one left, have the same address, if the first one was given a buffer that is long enough.\<close>

theorem wlan_address_stable:
  assumes "no_nv e" "wcnss_qmi_get_wlan_address e addr = Some (r, a, e1)"
    and "no_nv e2" "genmac e2 = genmac e1" "genmac_readable e2" "6 \<le> length addr2"
  shows "wcnss_qmi_get_wlan_address e2 addr2 = Some (0, take 6 a @ drop 6 addr2, e2)"
proof -
  have g: "\<exists>b. genmac e1 = Some b \<and> 6 \<le> length b \<and> take 6 b = take 6 a"
    using assms(2) from_nv_fails [OF assms(1)]
    by (auto simp: wcnss_qmi_get_wlan_address_def from_genmac_def random_mac_def store_bytes_eq MAC_ADDR_SIZE_def
        asus_mac_prefix_def split: option.splits if_splits bool.splits)
  then obtain b where b: "genmac e2 = Some b" "6 \<le> length b" "take 6 b = take 6 a" using assms(4) by auto
  then have "6 \<le> length a" by (metis length_take min_absorb2 min.cobounded1)
  with b from_nv_fails [OF assms(3)] assms(5,6) show ?thesis
    by (simp add: wcnss_qmi_get_wlan_address_def from_genmac_def store_bytes_eq)
qed

definition wlan_env2 :: wlan_env where "wlan_env2 = wlan_env1\<lparr>nv_found := \<lambda>i. False\<rparr>"

lemma wlan_address_stable_witness:
  "wcnss_qmi_get_wlan_address (wlan_env2\<lparr>genmac := Some [0x2c, 0x56, 0xdc, 45, 46, 47, 48, 49, 50, 51, 52, 53], rand := \<lambda>i. i\<rparr>) (replicate 6 0) =
     Some (0, [0x2c, 0x56, 0xdc, 45, 46, 47],
       wlan_env2\<lparr>genmac := Some [0x2c, 0x56, 0xdc, 45, 46, 47, 48, 49, 50, 51, 52, 53], rand := \<lambda>i. i\<rparr>)"
proof -
  let ?g = "[0x2c, 0x56, 0xdc, 45, 46, 47, 48, 49, 50, 51, 52, 53]"
  have n: "no_nv wlan_env2" "no_nv (wlan_env2\<lparr>genmac := Some ?g, rand := \<lambda>i. i\<rparr>)" by (simp_all add: no_nv_def wlan_env2_def)
  have first: "wcnss_qmi_get_wlan_address wlan_env2 (replicate 12 0) = Some (0, ?g, wlan_env2\<lparr>genmac := Some ?g\<rparr>)"
    using from_nv_fails [OF n(1)]
    by (simp add: wcnss_qmi_get_wlan_address_def from_genmac_def random_mac_def store_bytes_eq wlan_env2_def wlan_env1_def
        MAC_ADDR_SIZE_def asus_mac_prefix_def upt_rec)
  show ?thesis
    using wlan_address_stable [OF n(1) first n(2), of "replicate 6 0"] by (simp add: wlan_env2_def wlan_env1_def)
qed

section \<open>Where it goes wrong\<close>

text \<open>The caller gives the six bytes of an address, twelve are written when one is made up.\<close>

lemma random_address_overruns:
  assumes "no_nv e" "genmac e = None" "length addr = 6"
  shows "wcnss_qmi_get_wlan_address e addr = None"
  using assms from_nv_fails [OF assms(1)]
  by (simp add: wcnss_qmi_get_wlan_address_def from_genmac_def random_mac_def store_bytes_eq MAC_ADDR_SIZE_def asus_mac_prefix_def)

text \<open>A factory file without digits is a success that leaves the caller's buffer as it was.\<close>

lemma garbage_is_success:
  "wcnss_qmi_get_wlan_address (wlan_env1\<lparr>nv_file := Contents (replicate 12 0xff)\<rparr>) [9, 9, 9, 9, 9, 9] =
     Some (0, [9, 9, 9, 9, 9, 9], wlan_env1\<lparr>nv_file := Contents (replicate 12 0xff)\<rparr>)"
proof -
  have "wait_nv (\<lambda>i. 2 \<le> i) 0 = 2" by (simp add: wait_nv.simps [of "\<lambda>i. 2 \<le> i"] MAX_WAIT_COUNT_def)
  moreover have "scan_mac 6 0 (nv_buf (take 12 (replicate 12 0xff)) []) [9, 9, 9, 9, 9, 9] = Some [9, 9, 9, 9, 9, 9]" by code_simp
  ultimately show ?thesis by (simp add: wcnss_qmi_get_wlan_address_def from_nv_def wlan_env1_def MAX_WAIT_COUNT_def)
qed

text \<open>A file that appears before the last \<open>stat\<close>, which succeeds, is not read.\<close>

lemma last_attempt_is_ignored:
  assumes "\<forall>k < MAX_WAIT_COUNT. \<not> nv_found e k" "nv_found e MAX_WAIT_COUNT"
  shows "from_nv e addr = Some (False, addr)"
  using assms from_nv_fails [of e] by (simp add: no_nv_def)

end
