(* ===== verification/Spec2Isabelle.thy ===== *)
theory Spec2Isabelle
  imports Loc_Thread Loc_Timer Agps Loc_Eng_Ni Loc_Cfg Loc_Reports User_Agent Eng_Reports Nmea Recovery Lights Camera_Wrapper
    Vendor_Tags Camera_Metadata Camera_Client Camera_Rotation Loc_Target Dmn_Conn Wlan_Mac
begin

text \<open>
  Verification of the parts of the device tree that have logic of their own: the GPS stack, which is most of
  them (\<open>gps/utils\<close>, \<open>gps/core\<close> and \<open>gps/loc_api/libloc_api_50001\<close> under \<open>src/\<close>), the lights, the check
  of the recovery updater, the WLAN address, the camera wrapper, and of the camera shims the parameters, the
  metadata, the vendor's tags, the interfaces between processes and the clients.

  \<^bold>\<open>How the program works.\<close> The hardware abstraction layer (\<open>loc.cpp\<close>) gives the client a table of
  functions. They call the engine (\<open>loc_eng.cpp\<close>), whose state is one structure. The engine hardly does
  anything at once: it sends messages to itself through the queue of a message task, and a thread takes
  them in order and runs their \<open>proc\<close>. The adapter (\<open>LocEngAdapter\<close>) stands between the engine and the
  location API of the modem (\<open>LocApiBase\<close>), in both directions: calls of the engine go to the modem,
  reports of the modem become messages. Data connections are shared by three AGPS state machines
  (\<open>loc_eng_agps.cpp\<close>), network initiated requests are answered by threads of their own
  (\<open>loc_eng_ni.cpp\<close>), timers run on one alarm (\<open>LocTimer.cpp\<close>, \<open>LocHeap.cpp\<close>), and everything is
  configured by files (\<open>loc_cfg.cpp\<close>). For each report the engine writes NMEA sentences
  (\<open>loc_eng_nmea.cpp\<close>). Daemons ask for data connections through pipes (\<open>loc_eng_dmn_conn.cpp\<close>).
  The other parts stand alone.

  \<^bold>\<open>Theories.\<close>

  \<^item> \<open>Loc_Prelude\<close>: generic lemmas.
  \<^item> \<open>Linked_List\<close> (\<open>linked_list.c\<close>): nodes in a store with their links; the operations refine a list.
  \<^item> \<open>Msg_Queue\<close> (\<open>msg_q.c\<close>): the queue with its mutex and condition; interleaved steps of any
    number of threads; messages come out in order and no wake-up is lost.
  \<^item> \<open>Loc_Heap\<close> (\<open>LocHeap.cpp\<close>): the leftist-by-size heap of timers; it is a priority queue.
  \<^item> \<open>Loc_Timer\<close> (\<open>LocTimer.cpp\<close>): timers, delegates and the container, as steps of the client, the
    task and the alarm with reference counts; no delegate, shared lock or client is used after it is freed,
    no timer is forgotten.
  \<^item> \<open>Loc_Thread\<close> (\<open>LocThread.cpp\<close>, \<open>MsgTask.cpp\<close>): the threads and their life cycle.
  \<^item> \<open>Agps\<close> (\<open>loc_eng_agps.cpp\<close>): subscribers, states and events of a machine; what is requested of
    the framework and what is answered to the subscribers.
  \<^item> \<open>Loc_Eng_Ni\<close> (\<open>loc_eng_ni.cpp\<close>): two sessions with their threads; each payload is answered once.
  \<^item> \<open>Loc_Cfg\<close> (\<open>loc_cfg.cpp\<close>, \<open>loc_misc_utils.cpp\<close>): the configuration reader.
  \<^item> \<open>Loc_Api\<close> (\<open>LocApiBase.cpp\<close>, \<open>LocDualContext.cpp\<close>): the adapters of a location API, its event
    mask, the distribution of reports. \<open>Loc_Reports\<close> (\<open>LocAdapterBase.cpp\<close>): which report goes to whom.
  \<^item> \<open>User_Agent\<close> (\<open>LocEngAdapter.cpp\<close>): the user agent string of the XTRA client.
  \<^item> \<open>Eng_Adapter\<close>: the data of the engine, its messages and calls, the configuration tables, the
    adapter and the ULP proxy. \<open>Eng_Data\<close>: the messages about data connections, servers,
    certificates, \<open>loc_eng_xtra.cpp\<close>. \<open>Eng_Config\<close>: the configuration in \<open>loc_eng.cpp\<close>. \<open>Loc_Eng\<close>:
    session, reports, restart, the functions for the client. \<open>Loc_Afw\<close>: \<open>loc.cpp\<close> and the states that
    any sequence of client calls, modem reports, messages and timers can reach.
  \<^item> \<open>Loc_Target\<close> (\<open>loc_target.cpp\<close>): which receiver the device has, and whether there is an interface for it.
  \<^item> \<open>Eng_Session\<close>, \<open>Eng_Trace\<close>, \<open>Eng_Reports\<close>: the properties of the engine: its data are well-formed,
    the session is bracketed, a muted session is silent, aiding data are deleted while the engine is
    off, what each report does, and runs that go wrong.
  \<^item> \<open>C_Num\<close>: floating point values, their rounding and the conversions of printf that the sentences
    use. \<open>Nmea\<close> (\<open>loc_eng_nmea.cpp\<close>): the sentences of satellites and positions; each is framed with
    its check sum, lists the satellites of the fix, and all satellites are listed.
  \<^item> \<open>Dmn_Conn\<close> (\<open>loc_eng_dmn_conn*\<close>): messages over a pipe, a channel of the kind \<open>Msg_Queue\<close>
    states; when receiving leaves the buffer; what requests and releases ask of the engine; the thread that serves them, interleaved with
    the one that starts it.
  \<^item> \<open>Recovery\<close> (\<open>recovery_updater.cpp\<close>): the search for a string in a partition and the check of the
    version of the trust zone. \<open>Lights\<close> (\<open>lights.c\<close>): the LED and the display, from the events to the
    values in the files of the kernel. \<open>Wlan_Mac\<close> (\<open>wcnss_asus_client.c\<close>): where the MAC address comes from.
    \<open>Camera_Params\<close> (\<open>CameraParameters.cpp\<close>,
    \<open>CameraParameters2.cpp\<close>): the two maps of settings; they are read back from their strings. \<open>Camera_Wrapper\<close>
    (\<open>CameraWrapper.cpp\<close>): the module before the vendor's; corrected settings, and memory safety down to what the vendor must keep to.
  \<^item> \<open>Android\<close>: what the camera shims rely on of the framework: sorted vectors, and parcels, which are a parameter
    with laws; readers and writers and what they read and write. \<open>Vendor_Tags\<close> (\<open>VendorTagDescriptor.cpp\<close>): the
    vendor's metadata tags, from the vendor's functions and through a parcel. \<open>Camera_Metadata\<close>
    (\<open>CameraMetadata.cpp\<close>): objects that own buffers of the metadata library, which is a parameter with laws; each
    buffer has one owner or is lost when memory runs out, locked objects stay as they are, updates are found, objects pass through a parcel.
  \<^item> \<open>Binder\<close>: an interface between processes in general: the calls of the proxy, the parcels, the answers of
    \<open>onTransact\<close>, the reading of the reply. \<open>Camera_Ipc\<close>: the interfaces whose calls are one way or return plain
    values (\<open>ICamera.cpp\<close>, \<open>ICameraClient.cpp\<close>, \<open>ICameraRecordingProxy*.cpp\<close>, \<open>ICameraServiceListener.cpp\<close>,
    \<open>ICameraServiceProxy.cpp\<close>). \<open>Camera_Objects\<close>: requests, results and output configurations through parcels
    (\<open>CaptureRequest.cpp\<close>, \<open>CaptureResult.cpp\<close>, \<open>OutputConfiguration.cpp\<close>). \<open>Camera_Device_Ipc\<close>
    (\<open>ICameraDeviceUser.cpp\<close>) and \<open>Camera_Service_Ipc\<close> (\<open>ICameraDeviceCallbacks.cpp\<close>, \<open>ICameraService.cpp\<close>): the
    interfaces that pass these objects. A call through the proxy is a call of the object: the same
    arguments, and what the object answers comes back, except where a lemma shows what is lost. \<open>Camera_Client\<close>
    (\<open>Camera.cpp\<close>, \<open>CameraBase.cpp\<close>): the objects that make these calls, from connecting to disconnecting, and the
    shared service. \<open>Camera_Rotation\<close> (\<open>CameraUtils.cpp\<close>): the transform of the pictures.

  \<^bold>\<open>Conventions.\<close> A function that may follow a NULL pointer, use freed memory or shift too far returns
  an option, with None for that case. What leaves the program (calls of the location API, of callbacks,
  of the framework) is logged with its arguments, and what comes back is an argument (\<open>eng_env\<close>,
  \<open>agps_env\<close>). Messages run one at a time, so each \<open>proc\<close> is one step; the functions of the client
  run on other threads and are one step as well, which leaves out races inside them. The theories of
  the queue, the timers, the threads and the network initiated requests have smaller steps. Machine
  integers are words or integers with the wrap-around written out; floating point values are bit
  patterns that are handed on, and decoded in \<open>Nmea\<close>. No fuel is used: the loops recurse on lists or on a
  measure, and the search for the camera service, which may not end, is a partial function.

  \<^bold>\<open>Interfaces.\<close> The locales state what one component needs of another (the ordered items of the
  heap, the queue of the task, the list under the queue, the parcels and what the two sides of a binder interface
  owe each other) and are interpreted on the models.

  \<^bold>\<open>Not modelled.\<close> What only the log shows (levels, time stamps, printing), creating, removing and unlocking the
  pipes of the daemon connection (calls of the system alone), loading of the vendor's libraries, the lazy creation of
  the timer containers, references of the camera objects. \<open>PROJECT.json\<close> says it for each component.
\<close>

end
